(* ===== verification/NE_Prelude.thy ===== *)
theory NE_Prelude
  imports Main "HOL-Library.Word"
begin

text \<open>
  The shared vocabulary of the development: the error values that stand for the ways a call of
  the C code fails to return (an \<^verbatim>\<open>NE_ASSERT\<close> that aborts, a dereference of an invalid
  pointer, an integer division by zero, a recursion that never ends), the result and
  state-passing combinators the operations are written with, the C integer conversions
  (\<^verbatim>\<open>size_t\<close> as \<open>nat\<close> below \<open>2 ^ 64\<close> with the wrap-around written out,
  \<^verbatim>\<open>int64_t\<close> as \<open>int\<close>, \<^verbatim>\<open>int\<close> by truncation to 32 bits), a byte-addressed memory
  with 32-bit loads and stores, and the lemmas on lists and arithmetic that every component
  uses.
\<close>

unbundle bit_operations_syntax

named_theorems ne_monad \<open>equations of the state-passing combinators\<close>

section \<open>Errors and results\<close>

text \<open>
  \<open>NE_Assert\<close> is \<^verbatim>\<open>NE_ASSERT(x)\<close> with \<open>x\<close> false, which calls \<^verbatim>\<open>abort()\<close>;
  \<open>Bad_Deref\<close> is the use of a null or dangling pointer; \<open>Div_Zero\<close> the trap of an
  integer division or remainder by zero; \<open>Stack_Overflow\<close> a recursion deeper than the
  bound the caller gives; \<open>Out_Of_Bounds\<close> an access beyond a fixed-size array of a struct.
  The plain \<^verbatim>\<open>assert\<close> of the C library is compiled out: the build sets
  \<^verbatim>\<open>CMAKE_BUILD_TYPE\<close> to \<^verbatim>\<open>Release\<close>, which defines \<^verbatim>\<open>NDEBUG\<close>.
\<close>

datatype ne_error = NE_Assert | Bad_Deref | Div_Zero | Stack_Overflow | Out_Of_Bounds

type_synonym 'a res = "ne_error + 'a"
type_synonym ('s, 'a) op = "'s \<Rightarrow> ne_error + ('a \<times> 's)"

definition ret :: "'a \<Rightarrow> ('s, 'a) op" where
  "ret x s = Inr (x, s)"

definition fail :: "ne_error \<Rightarrow> ('s, 'a) op" where
  "fail e s = Inl e"

definition sbind :: "('s, 'a) op \<Rightarrow> ('a \<Rightarrow> ('s, 'b) op) \<Rightarrow> ('s, 'b) op" where
  "sbind m f s = (case m s of Inl e \<Rightarrow> Inl e | Inr (x, s') \<Rightarrow> f x s')"

definition sseq :: "('s, unit) op \<Rightarrow> ('s, 'b) op \<Rightarrow> ('s, 'b) op" where
  "sseq m k = sbind m (\<lambda>_. k)"

definition liftR :: "'a res \<Rightarrow> ('s, 'a) op" where
  "liftR r s = (case r of Inl e \<Rightarrow> Inl e | Inr x \<Rightarrow> Inr (x, s))"

definition modify :: "('s \<Rightarrow> 's) \<Rightarrow> ('s, unit) op" where
  "modify f s = Inr ((), f s)"

definition gets :: "('s \<Rightarrow> 'a) \<Rightarrow> ('s, 'a) op" where
  "gets f s = Inr (f s, s)"

definition ne_assert :: "bool \<Rightarrow> ('s, unit) op" where
  "ne_assert b = (if b then ret () else fail NE_Assert)"

text \<open>\<open>NE_ASSERT\<close> of a condition whose evaluation can itself trap.\<close>

definition ne_assertR :: "bool res \<Rightarrow> ('s, unit) op" where
  "ne_assertR r = sbind (liftR r) ne_assert"

definition rbind :: "'a res \<Rightarrow> ('a \<Rightarrow> 'b res) \<Rightarrow> 'b res" where
  "rbind r f = (case r of Inl e \<Rightarrow> Inl e | Inr x \<Rightarrow> f x)"

text \<open>The short-circuit conjunction of C on operands that can trap.\<close>

definition andR :: "bool res \<Rightarrow> bool res \<Rightarrow> bool res" where
  "andR a b = rbind a (\<lambda>x. if x then b else Inr False)"

lemma ret_eq [simp, ne_monad]: "ret x s = Inr (x, s)"
  by (simp add: ret_def)

lemma fail_eq [simp, ne_monad]: "fail e s = Inl e"
  by (simp add: fail_def)

lemma modify_eq [simp, ne_monad]: "modify f s = Inr ((), f s)"
  by (simp add: modify_def)

lemma gets_eq [simp, ne_monad]: "gets f s = Inr (f s, s)"
  by (simp add: gets_def)

lemma liftR_simps [simp, ne_monad]:
  "liftR (Inl e) s = Inl e" "liftR (Inr x) s = Inr (x, s)"
  by (simp_all add: liftR_def)

lemma rbind_simps [simp, ne_monad]: "rbind (Inl e) f = Inl e" "rbind (Inr x) f = f x"
  by (simp_all add: rbind_def)

lemma rbind_Inr_iff: "rbind r f = Inr y \<longleftrightarrow> (\<exists>x. r = Inr x \<and> f x = Inr y)"
  by (cases r) auto

lemma andR_simps [simp, ne_monad]:
  "andR (Inl e) b = Inl e" "andR (Inr True) b = b" "andR (Inr False) b = Inr False"
  by (simp_all add: andR_def)

lemma andR_True_iff: "andR a b = Inr True \<longleftrightarrow> a = Inr True \<and> b = Inr True"
  by (cases a) (auto simp: andR_def split: if_splits)

lemma ne_assert_simps [simp, ne_monad]:
  "ne_assert True s = Inr ((), s)" "ne_assert False s = Inl NE_Assert"
  by (simp_all add: ne_assert_def)

lemma ne_assert_Inr_iff: "ne_assert b s = Inr (u, t) \<longleftrightarrow> b \<and> t = s"
  by (auto simp: ne_assert_def)

lemma ne_assertR_Inr_iff: "ne_assertR r s = Inr (u, t) \<longleftrightarrow> r = Inr True \<and> t = s"
  by (cases r) (auto simp: ne_assertR_def sbind_def ne_assert_def)

lemma sbind_Inr_iff:
  "sbind m f s = Inr (y, t) \<longleftrightarrow> (\<exists>x s'. m s = Inr (x, s') \<and> f x s' = Inr (y, t))"
  by (auto simp: sbind_def split: sum.splits prod.splits)

lemma sbind_Inl_iff:
  "sbind m f s = Inl e \<longleftrightarrow> m s = Inl e \<or> (\<exists>x s'. m s = Inr (x, s') \<and> f x s' = Inl e)"
  by (auto simp: sbind_def split: sum.splits prod.splits)

lemma sseq_Inr_iff:
  "sseq m k s = Inr (y, t) \<longleftrightarrow> (\<exists>s'. m s = Inr ((), s') \<and> k s' = Inr (y, t))"
  by (auto simp: sseq_def sbind_Inr_iff)

lemma sbind_step [simp, ne_monad]:
  "m s = Inr (x, s') \<Longrightarrow> sbind m f s = f x s'" "m s = Inl e \<Longrightarrow> sbind m f s = Inl e"
  by (simp_all add: sbind_def)

lemma sseq_step [simp, ne_monad]:
  "m s = Inr (u, s') \<Longrightarrow> sseq m k s = k s'" "m s = Inl e \<Longrightarrow> sseq m k s = Inl e"
  by (simp_all add: sseq_def)

lemma liftR_Inr_iff: "liftR r s = Inr (x, t) \<longleftrightarrow> r = Inr x \<and> t = s"
  by (cases r) auto

lemmas op_Inr_iffs = sbind_Inr_iff sseq_Inr_iff liftR_Inr_iff ne_assert_Inr_iff ne_assertR_Inr_iff

section \<open>C integers\<close>

text \<open>
  \<^verbatim>\<open>size_t\<close> is unsigned 64-bit: every sum and product of the code is reduced by
  \<open>wrap64\<close>. \<^verbatim>\<open>int64_t\<close> is \<open>int\<close>; a product of dimensions is brought back to
  64 bits by \<open>to_int64\<close>, the value that two's-complement hardware gives where C leaves the overflow
  undefined. Where the code converts an \<^verbatim>\<open>int64_t\<close> to \<^verbatim>\<open>size_t\<close>
  the conversion is \<open>to_size\<close>, and to a 32-bit \<^verbatim>\<open>int\<close> it is \<open>to_int32\<close>.
\<close>

definition wrap64 :: "nat \<Rightarrow> nat" where
  "wrap64 n = n mod 2 ^ 64"

definition to_size :: "int \<Rightarrow> nat" where
  "to_size i = nat (i mod 2 ^ 64)"

definition to_int32 :: "int \<Rightarrow> int" where
  "to_int32 i = (i + 2 ^ 31) mod 2 ^ 32 - 2 ^ 31"

definition to_int64 :: "int \<Rightarrow> int" where
  "to_int64 i = (i + 2 ^ 63) mod 2 ^ 64 - 2 ^ 63"

text \<open>Division of C truncates towards zero and traps on a zero divisor.\<close>

definition cdiv :: "int \<Rightarrow> int \<Rightarrow> int res" where
  "cdiv a b = (if b = 0 then Inl Div_Zero else Inr (sgn a * sgn b * (\<bar>a\<bar> div \<bar>b\<bar>)))"

text \<open>The test \<^verbatim>\<open>a % b == 0\<close>: the sign of the remainder does not matter for it.\<close>

definition cmod0 :: "int \<Rightarrow> int \<Rightarrow> bool res" where
  "cmod0 a b = (if b = 0 then Inl Div_Zero else Inr (a mod b = 0))"

definition udiv :: "nat \<Rightarrow> nat \<Rightarrow> nat res" where
  "udiv a b = (if b = 0 then Inl Div_Zero else Inr (a div b))"

lemma wrap64_id [simp]: "n < 2 ^ 64 \<Longrightarrow> wrap64 n = n"
  by (simp add: wrap64_def)

lemma wrap64_less [simp]: "wrap64 n < 2 ^ 64"
  by (simp add: wrap64_def)

lemma wrap64_le: "wrap64 n \<le> n"
  by (simp add: wrap64_def)

lemma wrap64_idem [simp]: "wrap64 (wrap64 n) = wrap64 n"
  by (simp add: wrap64_def)

lemma to_size_nonneg: "0 \<le> i \<Longrightarrow> i < 2 ^ 64 \<Longrightarrow> to_size i = nat i"
  by (simp add: to_size_def)

lemma to_size_less [simp]: "to_size i < 2 ^ 64"
  by (simp add: to_size_def nat_less_iff)

lemma to_int32_id: "- (2 ^ 31) \<le> i \<Longrightarrow> i < 2 ^ 31 \<Longrightarrow> to_int32 i = i"
  by (simp add: to_int32_def)

lemma to_int32_range: "- (2 ^ 31) \<le> to_int32 i \<and> to_int32 i < 2 ^ 31"
  by (simp add: to_int32_def)

lemma to_int64_id [simp]: "- (2 ^ 63) \<le> i \<Longrightarrow> i < 2 ^ 63 \<Longrightarrow> to_int64 i = i"
  by (simp add: to_int64_def)

lemma to_int64_range: "- (2 ^ 63) \<le> to_int64 i \<and> to_int64 i < 2 ^ 63"
  by (simp add: to_int64_def)

lemma to_int64_idem [simp]: "to_int64 (to_int64 i) = to_int64 i"
  using to_int64_range [of i] by (intro to_int64_id) simp_all

lemma cdiv_nonneg: "0 \<le> a \<Longrightarrow> 0 < b \<Longrightarrow> cdiv a b = Inr (a div b)"
  by (cases "a = 0") (auto simp: cdiv_def)

lemma cmod0_iff: "cmod0 a b = Inr True \<longleftrightarrow> b \<noteq> 0 \<and> b dvd a"
  by (auto simp: cmod0_def mod_eq_0_iff_dvd)

lemma udiv_Inr_iff: "udiv a b = Inr q \<longleftrightarrow> b \<noteq> 0 \<and> q = a div b"
  by (auto simp: udiv_def)

subsection \<open>Rounding up to a multiple\<close>

lemma round_up_ge: "0 < (k::nat) \<Longrightarrow> n \<le> (n + k - 1) div k * k"
proof -
  assume k: "0 < k"
  have "(n + k - 1) mod k < k" using k by simp
  moreover have "(n + k - 1) div k * k + (n + k - 1) mod k = n + k - 1" by simp
  ultimately show ?thesis by linarith
qed

lemma round_up_less: "0 < (k::nat) \<Longrightarrow> (n + k - 1) div k * k < n + k"
proof -
  assume k: "0 < k"
  have "(n + k - 1) div k * k \<le> n + k - 1" by simp
  then show ?thesis using k by linarith
qed

lemma round_up_dvd: "(k::nat) dvd (n + k - 1) div k * k"
  by simp

section \<open>Bytes\<close>

type_synonym ptr = nat
type_synonym byte = "8 word"
type_synonym memory = "ptr \<Rightarrow> byte"

abbreviation (input) NULL :: ptr where "NULL \<equiv> 0"

definition byte_of :: "32 word \<Rightarrow> nat \<Rightarrow> byte" where
  "byte_of v k = ucast (drop_bit (8 * k) v)"

text \<open>A little-endian 32-bit store and load, as the x86-64 targets of the code do them.\<close>

definition store32 :: "ptr \<Rightarrow> 32 word \<Rightarrow> memory \<Rightarrow> memory" where
  "store32 p v m = m(p := byte_of v 0, p + 1 := byte_of v 1, p + 2 := byte_of v 2,
                     p + 3 := byte_of v 3)"

definition load32 :: "memory \<Rightarrow> ptr \<Rightarrow> 32 word" where
  "load32 m p = ucast (m p) OR push_bit 8 (ucast (m (p + 1)))
                OR push_bit 16 (ucast (m (p + 2))) OR push_bit 24 (ucast (m (p + 3)))"

text \<open>Storing a list of 32-bit values at consecutive addresses.\<close>

fun store32_list :: "ptr \<Rightarrow> 32 word list \<Rightarrow> memory \<Rightarrow> memory" where
  "store32_list p [] m = m"
| "store32_list p (v # vs) m = store32_list (p + 4) vs (store32 p v m)"

lemma store32_apply:
  "store32 p v m q = (if p \<le> q \<and> q < p + 4 then byte_of v (q - p) else m q)"
proof -
  consider "q = p" | "q = p + 1" | "q = p + 2" | "q = p + 3" | "q < p \<or> p + 4 \<le> q" by linarith
  then show ?thesis by cases (auto simp: store32_def)
qed

lemma bit_load32:
  "bit (load32 m p) n \<longleftrightarrow> n < 32 \<and> bit (m (p + n div 8)) (n mod 8)"
proof -
  have a: "bit (ucast (w::byte) :: 32 word) k \<longleftrightarrow> k < 8 \<and> bit w k" for w k
    using bit_imp_le_length [of w k] by (auto simp: bit_ucast_iff)
  have e: "bit (load32 m p) n \<longleftrightarrow> n < 32 \<and>
      ((n < 8 \<and> bit (m p) n) \<or> (8 \<le> n \<and> n < 16 \<and> bit (m (p + 1)) (n - 8)) \<or>
       (16 \<le> n \<and> n < 24 \<and> bit (m (p + 2)) (n - 16)) \<or> (24 \<le> n \<and> bit (m (p + 3)) (n - 24)))"
    using bit_imp_le_length [of "load32 m p" n]
    by (simp only: load32_def bit_or_iff bit_push_bit_iff a) auto
  obtain q r where n: "n = 8 * q + r" and r: "r < 8"
    by (metis mod_less_divisor mult_div_mod_eq zero_less_numeral)
  consider "q = 0" | "q = 1" | "q = 2" | "q = 3" | "4 \<le> q" by linarith
  moreover have "(8 * q + r) div 8 = q" "(8 * q + r) mod 8 = r" using r by simp_all
  ultimately show ?thesis using r e [unfolded n] unfolding n by cases simp_all
qed

lemma bit_byte_of: "bit (byte_of v k) n \<longleftrightarrow> n < 8 \<and> bit v (8 * k + n)"
  by (auto simp: byte_of_def bit_ucast_iff bit_drop_bit_eq)

lemma load32_store32_same [simp]: "load32 (store32 p v m) p = v"
proof (rule bit_word_eqI)
  fix n assume "n < LENGTH(32)"
  then have n: "n < 32" by simp
  then have "n div 8 < 4" by (simp add: div_less_iff_less_mult)
  with n show "bit (load32 (store32 p v m) p) n = bit v n"
    by (simp add: bit_load32 store32_apply bit_byte_of)
qed

lemma load32_store32_other: "q + 4 \<le> p \<or> p + 4 \<le> q \<Longrightarrow> load32 (store32 p v m) q = load32 m q"
  by (auto simp: load32_def store32_apply)

lemma store32_list_frame:
  "q < p \<or> p + 4 * length vs \<le> q \<Longrightarrow> store32_list p vs m q = m q"
  by (induction p vs m rule: store32_list.induct) (auto simp: store32_apply)

lemma load32_frame: "(\<And>k. k < 4 \<Longrightarrow> m (q + k) = m' (q + k)) \<Longrightarrow> load32 m q = load32 m' q"
  by (rule bit_word_eqI) (simp add: bit_load32 div_less_iff_less_mult)

lemma load32_store32_list:
  "i < length vs \<Longrightarrow> load32 (store32_list p vs m) (p + 4 * i) = vs ! i"
proof (induction p vs m arbitrary: i rule: store32_list.induct)
  case (1 p m)
  then show ?case by simp
next
  case (2 p v vs m)
  show ?case
  proof (cases i)
    case 0
    have "load32 (store32_list (p + 4) vs (store32 p v m)) p = load32 (store32 p v m) p"
      by (rule load32_frame) (simp add: store32_list_frame)
    with 0 show ?thesis by simp
  next
    case (Suc j)
    with "2.prems" have "load32 (store32_list (p + 4) vs (store32 p v m)) (p + 4 + 4 * j) = vs ! j"
      by (intro "2.IH") simp
    with Suc show ?thesis by (simp add: algebra_simps)
  qed
qed

end
