(* ===== verification/NE_Types.thy ===== *)
theory NE_Types
  imports NE_Prelude
begin

text \<open>
  The enumerations and constant tables of the tensor library: \<^verbatim>\<open>core/data_types.h\<close>
  (element types, file types, the quantised block layouts), \<^verbatim>\<open>core/layers/Ops.h\<close> (the
  operations), and the tables at the head of \<^verbatim>\<open>core/ne_layers.c\<close> (\<^verbatim>\<open>NE_BLCK_SIZE\<close>,
  \<^verbatim>\<open>NE_TYPE_SIZE\<close>, \<^verbatim>\<open>NE_TYPE_NAME\<close>, \<^verbatim>\<open>NE_IS_QUANTIZED\<close>, \<^verbatim>\<open>NE_OP_LABEL\<close>,
  \<^verbatim>\<open>NE_OP_SYMBOL\<close>). A table entry the initialiser leaves out is zero, as in C.
\<close>

section \<open>Element types\<close>

datatype ne_type =
    NE_TYPE_F32 | NE_TYPE_F16 | NE_TYPE_Q4_0 | NE_TYPE_Q4_1 | NE_TYPE_Q5_0 | NE_TYPE_Q5_1
  | NE_TYPE_Q8_0 | NE_TYPE_Q8_1 | NE_TYPE_Q6_K | NE_TYPE_Q8_K | NE_TYPE_I8 | NE_TYPE_I16
  | NE_TYPE_I32 | NE_TYPE_BTLA | NE_TYPE_COUNT

fun ne_type_val :: "ne_type \<Rightarrow> nat" where
  "ne_type_val NE_TYPE_F32 = 0" | "ne_type_val NE_TYPE_F16 = 1"
| "ne_type_val NE_TYPE_Q4_0 = 2" | "ne_type_val NE_TYPE_Q4_1 = 3"
| "ne_type_val NE_TYPE_Q5_0 = 6" | "ne_type_val NE_TYPE_Q5_1 = 7"
| "ne_type_val NE_TYPE_Q8_0 = 8" | "ne_type_val NE_TYPE_Q8_1 = 9"
| "ne_type_val NE_TYPE_Q6_K = 14" | "ne_type_val NE_TYPE_Q8_K = 15"
| "ne_type_val NE_TYPE_I8 = 16" | "ne_type_val NE_TYPE_I16 = 17"
| "ne_type_val NE_TYPE_I32 = 18" | "ne_type_val NE_TYPE_BTLA = 19"
| "ne_type_val NE_TYPE_COUNT = 20"

datatype ne_ftype =
    NE_FTYPE_UNKNOWN | NE_FTYPE_ALL_F32 | NE_FTYPE_MOSTLY_F16 | NE_FTYPE_MOSTLY_Q4_0
  | NE_FTYPE_MOSTLY_Q4_1 | NE_FTYPE_MOSTLY_Q4_1_SOME_F16 | NE_FTYPE_MOSTLY_Q8_0
  | NE_FTYPE_MOSTLY_Q5_0 | NE_FTYPE_MOSTLY_Q5_1 | NE_FTYPE_MOSTLY_Q_BTLA

datatype ne_backend = NE_BACKEND_CPU | NE_BACKEND_CUDA

datatype ne_task_type = NE_TASK_INIT | NE_TASK_COMPUTE | NE_TASK_FINALIZE

text \<open>The block layouts: \<^verbatim>\<open>sizeof\<close> of each struct, field by field.\<close>

definition QK4_0 :: nat where "QK4_0 = 32"
definition QK4_1 :: nat where "QK4_1 = 32"
definition QK5_0 :: nat where "QK5_0 = 32"
definition QK5_1 :: nat where "QK5_1 = 32"
definition QK8_0 :: nat where "QK8_0 = 32"
definition QK8_1 :: nat where "QK8_1 = 32"
definition QK_K :: nat where "QK_K = 256"

definition sizeof_block_q4_0 :: nat where "sizeof_block_q4_0 = 2 + QK4_0 div 2"
definition sizeof_block_q4_1 :: nat where "sizeof_block_q4_1 = 2 + 2 + QK4_1 div 2"
definition sizeof_block_q5_0 :: nat where "sizeof_block_q5_0 = 2 + 4 + QK5_0 div 2"
definition sizeof_block_q5_1 :: nat where "sizeof_block_q5_1 = 2 + 2 + 4 + QK5_1 div 2"
definition sizeof_block_q8_0 :: nat where "sizeof_block_q8_0 = 2 + QK8_0"
definition sizeof_block_q8_1 :: nat where "sizeof_block_q8_1 = 4 + 4 + QK8_1"
definition sizeof_block_q6_K :: nat where
  "sizeof_block_q6_K = QK_K div 2 + QK_K div 4 + QK_K div 16 + 2"
definition sizeof_block_q8_K :: nat where
  "sizeof_block_q8_K = 4 + QK_K + 2 * (QK_K div 16)"

lemmas qk_defs = QK4_0_def QK4_1_def QK5_0_def QK5_1_def QK8_0_def QK8_1_def QK_K_def
lemmas sizeof_block_defs = sizeof_block_q4_0_def sizeof_block_q4_1_def sizeof_block_q5_0_def
  sizeof_block_q5_1_def sizeof_block_q8_0_def sizeof_block_q8_1_def sizeof_block_q6_K_def
  sizeof_block_q8_K_def qk_defs

fun NE_BLCK_SIZE :: "ne_type \<Rightarrow> nat" where
  "NE_BLCK_SIZE NE_TYPE_F32 = 1" | "NE_BLCK_SIZE NE_TYPE_F16 = 1"
| "NE_BLCK_SIZE NE_TYPE_Q4_0 = QK4_0" | "NE_BLCK_SIZE NE_TYPE_Q4_1 = QK4_1"
| "NE_BLCK_SIZE NE_TYPE_Q5_0 = QK5_0" | "NE_BLCK_SIZE NE_TYPE_Q5_1 = QK5_1"
| "NE_BLCK_SIZE NE_TYPE_Q8_0 = QK8_0" | "NE_BLCK_SIZE NE_TYPE_Q8_1 = QK8_1"
| "NE_BLCK_SIZE NE_TYPE_Q6_K = QK_K" | "NE_BLCK_SIZE NE_TYPE_Q8_K = QK_K"
| "NE_BLCK_SIZE NE_TYPE_I8 = 1" | "NE_BLCK_SIZE NE_TYPE_I16 = 1"
| "NE_BLCK_SIZE NE_TYPE_I32 = 1"
| "NE_BLCK_SIZE NE_TYPE_BTLA = 0" | "NE_BLCK_SIZE NE_TYPE_COUNT = 0"

fun NE_TYPE_SIZE :: "ne_type \<Rightarrow> nat" where
  "NE_TYPE_SIZE NE_TYPE_F32 = 4" | "NE_TYPE_SIZE NE_TYPE_F16 = 2"
| "NE_TYPE_SIZE NE_TYPE_Q4_0 = sizeof_block_q4_0" | "NE_TYPE_SIZE NE_TYPE_Q4_1 = sizeof_block_q4_1"
| "NE_TYPE_SIZE NE_TYPE_Q5_0 = sizeof_block_q5_0" | "NE_TYPE_SIZE NE_TYPE_Q5_1 = sizeof_block_q5_1"
| "NE_TYPE_SIZE NE_TYPE_Q8_0 = sizeof_block_q8_0" | "NE_TYPE_SIZE NE_TYPE_Q8_1 = sizeof_block_q8_1"
| "NE_TYPE_SIZE NE_TYPE_Q6_K = sizeof_block_q6_K" | "NE_TYPE_SIZE NE_TYPE_Q8_K = sizeof_block_q8_K"
| "NE_TYPE_SIZE NE_TYPE_I8 = 1" | "NE_TYPE_SIZE NE_TYPE_I16 = 2"
| "NE_TYPE_SIZE NE_TYPE_I32 = 4"
| "NE_TYPE_SIZE NE_TYPE_BTLA = 0" | "NE_TYPE_SIZE NE_TYPE_COUNT = 0"

text \<open>A null entry of the name table is \<open>None\<close>.\<close>

fun NE_TYPE_NAME :: "ne_type \<Rightarrow> string option" where
  "NE_TYPE_NAME NE_TYPE_F32 = Some ''f32''" | "NE_TYPE_NAME NE_TYPE_F16 = Some ''f16''"
| "NE_TYPE_NAME NE_TYPE_Q4_0 = Some ''q4_0''" | "NE_TYPE_NAME NE_TYPE_Q4_1 = Some ''q4_1''"
| "NE_TYPE_NAME NE_TYPE_Q5_0 = Some ''q5_0''" | "NE_TYPE_NAME NE_TYPE_Q5_1 = Some ''q5_1''"
| "NE_TYPE_NAME NE_TYPE_Q8_0 = Some ''q8_0''" | "NE_TYPE_NAME NE_TYPE_Q8_1 = Some ''q8_1''"
| "NE_TYPE_NAME NE_TYPE_Q6_K = Some ''q6_k''" | "NE_TYPE_NAME NE_TYPE_Q8_K = Some ''q8_k''"
| "NE_TYPE_NAME NE_TYPE_I8 = Some ''i8''" | "NE_TYPE_NAME NE_TYPE_I16 = Some ''i16''"
| "NE_TYPE_NAME NE_TYPE_I32 = Some ''i32''" | "NE_TYPE_NAME _ = None"

text \<open>
  The initialiser of \<^verbatim>\<open>NE_IS_QUANTIZED\<close> writes \<^verbatim>\<open>[NE_TYPE_Q6_K]\<close> twice and
  \<^verbatim>\<open>[NE_TYPE_Q8_K]\<close> never, so the entry of \<open>NE_TYPE_Q8_K\<close> is \<open>False\<close>.
\<close>

fun NE_IS_QUANTIZED :: "ne_type \<Rightarrow> bool" where
  "NE_IS_QUANTIZED NE_TYPE_F32 = False" | "NE_IS_QUANTIZED NE_TYPE_F16 = False"
| "NE_IS_QUANTIZED NE_TYPE_Q4_0 = True" | "NE_IS_QUANTIZED NE_TYPE_Q4_1 = True"
| "NE_IS_QUANTIZED NE_TYPE_Q5_0 = True" | "NE_IS_QUANTIZED NE_TYPE_Q5_1 = True"
| "NE_IS_QUANTIZED NE_TYPE_Q8_0 = True" | "NE_IS_QUANTIZED NE_TYPE_Q8_1 = True"
| "NE_IS_QUANTIZED NE_TYPE_Q6_K = True" | "NE_IS_QUANTIZED NE_TYPE_Q8_K = False"
| "NE_IS_QUANTIZED NE_TYPE_I8 = False" | "NE_IS_QUANTIZED NE_TYPE_I16 = False"
| "NE_IS_QUANTIZED NE_TYPE_I32 = False" | "NE_IS_QUANTIZED NE_TYPE_BTLA = True"
| "NE_IS_QUANTIZED NE_TYPE_COUNT = False"

definition ne_blck_size :: "ne_type \<Rightarrow> nat" where "ne_blck_size t = NE_BLCK_SIZE t"
definition ne_type_size :: "ne_type \<Rightarrow> nat" where "ne_type_size t = NE_TYPE_SIZE t"
definition ne_type_name :: "ne_type \<Rightarrow> string option" where "ne_type_name t = NE_TYPE_NAME t"
definition ne_is_quantized :: "ne_type \<Rightarrow> bool" where "ne_is_quantized t = NE_IS_QUANTIZED t"

text \<open>
  \<^verbatim>\<open>ne_ftype_to_ne_type\<close>: the switch, then the assertion that some case matched.
  \<^verbatim>\<open>NE_FTYPE_MOSTLY_Q_BTLA\<close> has no case and falls through.
\<close>

fun ftype_wtype :: "ne_ftype \<Rightarrow> ne_type" where
  "ftype_wtype NE_FTYPE_ALL_F32 = NE_TYPE_F32"
| "ftype_wtype NE_FTYPE_MOSTLY_F16 = NE_TYPE_F16"
| "ftype_wtype NE_FTYPE_MOSTLY_Q4_0 = NE_TYPE_Q4_0"
| "ftype_wtype NE_FTYPE_MOSTLY_Q4_1 = NE_TYPE_Q4_1"
| "ftype_wtype NE_FTYPE_MOSTLY_Q5_0 = NE_TYPE_Q5_0"
| "ftype_wtype NE_FTYPE_MOSTLY_Q5_1 = NE_TYPE_Q5_1"
| "ftype_wtype NE_FTYPE_MOSTLY_Q8_0 = NE_TYPE_Q8_0"
| "ftype_wtype NE_FTYPE_UNKNOWN = NE_TYPE_COUNT"
| "ftype_wtype NE_FTYPE_MOSTLY_Q4_1_SOME_F16 = NE_TYPE_COUNT"
| "ftype_wtype NE_FTYPE_MOSTLY_Q_BTLA = NE_TYPE_COUNT"

definition ne_ftype_to_ne_type :: "ne_ftype \<Rightarrow> ne_type res" where
  "ne_ftype_to_ne_type f =
     (let wtype = ftype_wtype f
      in if wtype \<noteq> NE_TYPE_COUNT then Inr wtype else Inl NE_Assert)"

section \<open>Operations\<close>

datatype (plugins only: code size) ne_op =
    NE_OP_NONE | NE_OP_DUP | NE_OP_ADD | NE_OP_ADD1 | NE_OP_ACC | NE_OP_SUB | NE_OP_MUL |
    NE_OP_DIV | NE_OP_SQR | NE_OP_SQRT | NE_OP_LOG | NE_OP_SUM | NE_OP_SUM_ROWS | NE_OP_MEAN |
    NE_OP_REPEAT | NE_OP_ABS | NE_OP_SGN | NE_OP_NEG | NE_OP_STEP | NE_OP_RELU | NE_OP_GELU |
    NE_OP_SILU | NE_OP_SILU_BACK | NE_OP_NORM | NE_OP_RMS_NORM | NE_OP_RMS_NORM_BACK |
    NE_OP_MUL_MAT | NE_OP_MUL_MAT_BIAS | NE_OP_SCALE | NE_OP_SET | NE_OP_CPY | NE_OP_CONT |
    NE_OP_RESHAPE | NE_OP_VIEW | NE_OP_PERMUTE | NE_OP_TRANSPOSE | NE_OP_GET_ROWS |
    NE_OP_GET_ROWS_BACK | NE_OP_DIAG | NE_OP_DIAG_MASK_INF | NE_OP_DIAG_MASK_ZERO |
    NE_OP_PADDING_MASK_INF | NE_OP_SOFT_MAX | NE_OP_ROPE | NE_OP_ROPE_BACK | NE_OP_ALIBI |
    NE_OP_CLAMP | NE_OP_CONV_1D_1S | NE_OP_CONV_1D_2S | NE_OP_MUL_QKV | NE_OP_MUL_FFN_SILU |
    NE_OP_MUL_FFN_GELU | NE_OP_MUL_FFN_ADD_GELU | NE_OP_FLASH_ATTN | NE_OP_FLASH_ATTN_KV_UPDATE |
    NE_OP_FLASH_FF | NE_OP_MAP_UNARY | NE_OP_MAP_BINARY | NE_OP_SPLIT | NE_OP_ALL_REDUCE |
    NE_OP_TP_CONCAT | NE_OP_DUMP_TENSOR | NE_OP_DEBUG | NE_OP_CONV_1D | NE_OP_COUNT

fun ne_op_val :: "ne_op \<Rightarrow> nat" where
  "ne_op_val NE_OP_NONE = 0"
| "ne_op_val NE_OP_DUP = 1"
| "ne_op_val NE_OP_ADD = 2"
| "ne_op_val NE_OP_ADD1 = 3"
| "ne_op_val NE_OP_ACC = 4"
| "ne_op_val NE_OP_SUB = 5"
| "ne_op_val NE_OP_MUL = 6"
| "ne_op_val NE_OP_DIV = 7"
| "ne_op_val NE_OP_SQR = 8"
| "ne_op_val NE_OP_SQRT = 9"
| "ne_op_val NE_OP_LOG = 10"
| "ne_op_val NE_OP_SUM = 11"
| "ne_op_val NE_OP_SUM_ROWS = 12"
| "ne_op_val NE_OP_MEAN = 13"
| "ne_op_val NE_OP_REPEAT = 14"
| "ne_op_val NE_OP_ABS = 15"
| "ne_op_val NE_OP_SGN = 16"
| "ne_op_val NE_OP_NEG = 17"
| "ne_op_val NE_OP_STEP = 18"
| "ne_op_val NE_OP_RELU = 19"
| "ne_op_val NE_OP_GELU = 20"
| "ne_op_val NE_OP_SILU = 21"
| "ne_op_val NE_OP_SILU_BACK = 22"
| "ne_op_val NE_OP_NORM = 23"
| "ne_op_val NE_OP_RMS_NORM = 24"
| "ne_op_val NE_OP_RMS_NORM_BACK = 25"
| "ne_op_val NE_OP_MUL_MAT = 26"
| "ne_op_val NE_OP_MUL_MAT_BIAS = 27"
| "ne_op_val NE_OP_SCALE = 28"
| "ne_op_val NE_OP_SET = 29"
| "ne_op_val NE_OP_CPY = 30"
| "ne_op_val NE_OP_CONT = 31"
| "ne_op_val NE_OP_RESHAPE = 32"
| "ne_op_val NE_OP_VIEW = 33"
| "ne_op_val NE_OP_PERMUTE = 34"
| "ne_op_val NE_OP_TRANSPOSE = 35"
| "ne_op_val NE_OP_GET_ROWS = 36"
| "ne_op_val NE_OP_GET_ROWS_BACK = 37"
| "ne_op_val NE_OP_DIAG = 38"
| "ne_op_val NE_OP_DIAG_MASK_INF = 39"
| "ne_op_val NE_OP_DIAG_MASK_ZERO = 40"
| "ne_op_val NE_OP_PADDING_MASK_INF = 41"
| "ne_op_val NE_OP_SOFT_MAX = 42"
| "ne_op_val NE_OP_ROPE = 43"
| "ne_op_val NE_OP_ROPE_BACK = 44"
| "ne_op_val NE_OP_ALIBI = 45"
| "ne_op_val NE_OP_CLAMP = 46"
| "ne_op_val NE_OP_CONV_1D_1S = 47"
| "ne_op_val NE_OP_CONV_1D_2S = 48"
| "ne_op_val NE_OP_MUL_QKV = 49"
| "ne_op_val NE_OP_MUL_FFN_SILU = 50"
| "ne_op_val NE_OP_MUL_FFN_GELU = 51"
| "ne_op_val NE_OP_MUL_FFN_ADD_GELU = 52"
| "ne_op_val NE_OP_FLASH_ATTN = 53"
| "ne_op_val NE_OP_FLASH_ATTN_KV_UPDATE = 54"
| "ne_op_val NE_OP_FLASH_FF = 55"
| "ne_op_val NE_OP_MAP_UNARY = 56"
| "ne_op_val NE_OP_MAP_BINARY = 57"
| "ne_op_val NE_OP_SPLIT = 58"
| "ne_op_val NE_OP_ALL_REDUCE = 59"
| "ne_op_val NE_OP_TP_CONCAT = 60"
| "ne_op_val NE_OP_DUMP_TENSOR = 61"
| "ne_op_val NE_OP_DEBUG = 62"
| "ne_op_val NE_OP_CONV_1D = 63"
| "ne_op_val NE_OP_COUNT = 64"

definition NE_OP_LABEL :: "string list" where
  "NE_OP_LABEL =
    [''NONE'', ''DUP'', ''ADD'', ''ADD1'', ''ACC'', ''SUB'', ''MUL'', ''DIV'', ''SQR'', ''SQRT'',
     ''LOG'', ''SUM'', ''SUM_ROWS'', ''MEAN'', ''REPEAT'', ''ABS'', ''SGN'', ''NEG'', ''STEP'',
     ''RELU'', ''GELU'', ''SILU'', ''SILU_BACK'', ''NORM'', ''RMS_NORM'', ''RMS_NORM_BACK'',
     ''MUL_MAT'', ''MUL_MAT_WITH_BIAS'', ''SCALE'', ''SET'', ''CPY'', ''CONT'', ''RESHAPE'',
     ''VIEW'', ''PERMUTE'', ''TRANSPOSE'', ''GET_ROWS'', ''GET_ROWS_BACK'', ''DIAG'',
     ''DIAG_MASK_INF'', ''DIAG_MASK_ZERO'', ''PADDING_MASK_INF'', ''SOFT_MAX'', ''ROPE'',
     ''ROPE_BACK'', ''ALIBI'', ''CLAMP'', ''CONV_1D_1S'', ''CONV_1D_2S'', ''MUL_QKV'',
     ''FFN_SILU'', ''FFN_GeLU'', ''FFN_ADD_GeLU'', ''FLASH_ATTN'', ''FLASH_ATTN_KV_UPDATE'',
     ''FLASH_FF'', ''MAP_UNARY'', ''MAP_BINARY'', ''SPLIT'', ''ALL_REDUCE'', ''TP_CONCAT'',
     ''DUMP_TENSOR'', ''CONV_1D'', ''DEBUG'']"

text \<open>
  The symbol table has 60 initialisers for 64 entries; the strings are given as their UTF-8
  bytes.
\<close>

definition NE_OP_SYMBOL :: "string list" where
  "NE_OP_SYMBOL =
    [''none'', ''x'', ''x+y'', ''x+y'', ''view(x,nb,offset)+=y->x'', ''x-y'', ''x*y'', ''x/y'',
     ''x^2'', [CHR 0xE2, CHR 0x88, CHR 0x9A] @ ''x'', ''log(x)'', [CHR 0xCE, CHR 0xA3] @ ''x'',
     [CHR 0xCE, CHR 0xA3] @ ''x_k'', [CHR 0xCE, CHR 0xA3] @ ''x/n'', ''repeat(x)'', ''abs(x)'',
     ''sgn(x)'', ''-x'', ''step(x)'', ''relu(x)'', ''gelu(x)'', ''silu(x)'', ''silu_back(x)'',
     ''norm(x)'', ''rms_norm(x)'', ''rms_norm_back(x)'', ''X*Y'', ''X*Y+Z'', ''x*v'',
     ''y-'' @ [CHR 0x5C] @ ''>view(x)'', ''x-'' @ [CHR 0x5C] @ ''>y'', ''cont(x)'',
     ''reshape(x)'', ''view(x)'', ''permute(x)'', ''transpose(x)'', ''get_rows(x)'',
     ''get_rows_back(x)'', ''diag(x)'', ''diag_mask_inf(x)'', ''diag_mask_zero(x)'',
     ''padding_mask_inf(x)'', ''soft_max(x)'', ''rope(x)'', ''rope_back(x)'', ''alibi(x)'',
     ''clamp(x)'', ''conv_1d_1s(x)'', ''conv_1d_2s(x)'', ''QKV(x)'', ''ffn_silu(x)'',
     ''ffn_gelu(x)'', ''ffn_gelu_with_bias(x)'', ''flash_attn(x)'', ''flash_attn_kv_update(x)'',
     ''flash_ff(x)'', ''f(x)'', ''f(x,y)'', ''conv_1d(x)'', ''debug(x)'']"

section \<open>Facts on the tables\<close>

lemma NE_BLCK_SIZE_pos_iff: "0 < NE_BLCK_SIZE t \<longleftrightarrow> t \<noteq> NE_TYPE_BTLA \<and> t \<noteq> NE_TYPE_COUNT"
  by (cases t) (simp_all add: qk_defs)

lemma NE_BLCK_SIZE_zero_iff: "NE_BLCK_SIZE t = 0 \<longleftrightarrow> t = NE_TYPE_BTLA \<or> t = NE_TYPE_COUNT"
  by (cases t) (simp_all add: qk_defs)

lemma NE_BLCK_SIZE_le: "NE_BLCK_SIZE t \<le> 256"
  by (cases t) (simp_all add: qk_defs)

lemma NE_TYPE_SIZE_le: "NE_TYPE_SIZE t \<le> 292"
  by (cases t) (simp_all add: sizeof_block_defs)

lemma NE_TYPE_SIZE_pos_iff: "0 < NE_TYPE_SIZE t \<longleftrightarrow> t \<noteq> NE_TYPE_BTLA \<and> t \<noteq> NE_TYPE_COUNT"
  by (cases t) (simp_all add: sizeof_block_defs)

end
