(* ===== verification/NE_Tensor.thy ===== *)
theory NE_Tensor
  imports NE_Types
begin

text \<open>
  The tensor header (\<^verbatim>\<open>struct ne_tensor\<close> of \<^verbatim>\<open>core/ne.h\<close>) and the pure queries on it
  (\<^verbatim>\<open>ne_nelements\<close> to \<^verbatim>\<open>ne_up\<close> of \<^verbatim>\<open>core/ne_layers.c\<close>). A query that divides by a table
  entry or a dimension returns an error where the C expression traps. The lemmas relate the
  queries to an index specification: the byte offset of an element, the layout of a
  contiguous tensor, and the rounding helpers as least multiples.
\<close>

section \<open>The tensor record\<close>

text \<open>
  Pointers are addresses (\<open>0\<close> is null). \<open>ty\<close>, \<open>tsize\<close> and \<open>tname\<close> are the
  fields \<^verbatim>\<open>type\<close>, \<^verbatim>\<open>size\<close> and \<^verbatim>\<open>name\<close>; the name is the C string up to its terminator.
\<close>

record ne_tensor =
  ty :: ne_type
  backend :: ne_backend
  n_dims :: nat
  ne :: "int list"
  nb :: "nat list"
  op :: ne_op
  is_param :: bool
  op_params :: "32 word list"
  grad :: ptr
  src0 :: ptr
  src1 :: ptr
  opt :: "ptr list"
  n_tasks :: int
  perf_runs :: int
  perf_cycles :: int
  perf_time_us :: int
  data :: ptr
  tsize :: nat
  tname :: string
  padding :: "byte list"

definition NE_MAX_DIMS :: nat where "NE_MAX_DIMS = 4"
definition NE_MAX_OPT :: nat where "NE_MAX_OPT = 4"

text \<open>The fixed-size arrays of the struct have their declared lengths.\<close>

definition tensor_wf :: "ne_tensor \<Rightarrow> bool" where
  "tensor_wf t \<longleftrightarrow> length (ne t) = 4 \<and> length (nb t) = 4 \<and> length (opt t) = 4 \<and>
                   length (op_params t) = 8 \<and> length (padding t) = 8"

section \<open>Queries\<close>

definition ne_nelements :: "ne_tensor \<Rightarrow> int" where
  "ne_nelements t = to_int64 (ne t ! 0 * ne t ! 1 * ne t ! 2 * ne t ! 3)"

definition ne_nrows :: "ne_tensor \<Rightarrow> int" where
  "ne_nrows t = to_int32 (ne t ! 1 * ne t ! 2 * ne t ! 3)"

definition ne_nbytes :: "ne_tensor \<Rightarrow> nat res" where
  "ne_nbytes t = udiv (wrap64 (to_size (ne_nelements t) * NE_TYPE_SIZE (ty t))) (NE_BLCK_SIZE (ty t))"

definition ne_element_size :: "ne_tensor \<Rightarrow> nat" where
  "ne_element_size t = NE_TYPE_SIZE (ty t)"

definition ne_is_scalar :: "ne_tensor \<Rightarrow> bool" where
  "ne_is_scalar t \<longleftrightarrow> ne t ! 0 = 1 \<and> ne t ! 1 = 1 \<and> ne t ! 2 = 1 \<and> ne t ! 3 = 1"

definition ne_is_vector :: "ne_tensor \<Rightarrow> bool" where
  "ne_is_vector t \<longleftrightarrow> ne t ! 1 = 1 \<and> ne t ! 2 = 1 \<and> ne t ! 3 = 1"

definition ne_is_matrix :: "ne_tensor \<Rightarrow> bool" where
  "ne_is_matrix t \<longleftrightarrow> ne t ! 2 = 1 \<and> ne t ! 3 = 1"

definition ne_can_mul_mat :: "ne_tensor \<Rightarrow> ne_tensor \<Rightarrow> bool res" where
  "ne_can_mul_mat t0 t1 =
     andR (Inr (ne t0 ! 0 = ne t1 ! 0))
       (andR (cmod0 (ne t1 ! 2) (ne t0 ! 2)) (cmod0 (ne t1 ! 3) (ne t0 ! 3)))"

definition ne_is_transposed :: "ne_tensor \<Rightarrow> bool" where
  "ne_is_transposed t \<longleftrightarrow> nb t ! 0 > nb t ! 1"

definition ne_is_contiguous :: "ne_tensor \<Rightarrow> bool res" where
  "ne_is_contiguous t =
     andR (Inr (nb t ! 0 = NE_TYPE_SIZE (ty t)))
       (andR (rbind (udiv (wrap64 (nb t ! 0 * to_size (ne t ! 0))) (NE_BLCK_SIZE (ty t)))
               (\<lambda>q. Inr (nb t ! 1 = q)))
         (andR (Inr (nb t ! 2 = wrap64 (nb t ! 1 * to_size (ne t ! 1))))
           (Inr (nb t ! 3 = wrap64 (nb t ! 2 * to_size (ne t ! 2))))))"

definition ne_is_padded_1d :: "ne_tensor \<Rightarrow> bool" where
  "ne_is_padded_1d t \<longleftrightarrow>
     nb t ! 0 = NE_TYPE_SIZE (ty t) \<and> nb t ! 2 = wrap64 (nb t ! 1 * to_size (ne t ! 1)) \<and>
     nb t ! 3 = wrap64 (nb t ! 2 * to_size (ne t ! 2))"

definition ne_are_same_shape :: "ne_tensor \<Rightarrow> ne_tensor \<Rightarrow> bool" where
  "ne_are_same_shape t0 t1 \<longleftrightarrow>
     ne t0 ! 0 = ne t1 ! 0 \<and> ne t0 ! 1 = ne t1 ! 1 \<and> ne t0 ! 2 = ne t1 ! 2 \<and> ne t0 ! 3 = ne t1 ! 3"

definition ne_can_repeat :: "ne_tensor \<Rightarrow> ne_tensor \<Rightarrow> bool res" where
  "ne_can_repeat t0 t1 =
     andR (cmod0 (ne t1 ! 0) (ne t0 ! 0)) (andR (cmod0 (ne t1 ! 1) (ne t0 ! 1))
       (andR (cmod0 (ne t1 ! 2) (ne t0 ! 2)) (cmod0 (ne t1 ! 3) (ne t0 ! 3))))"

definition ne_can_repeat_rows :: "ne_tensor \<Rightarrow> ne_tensor \<Rightarrow> bool res" where
  "ne_can_repeat_rows t0 t1 = andR (Inr (ne t0 ! 0 = ne t1 ! 0)) (ne_can_repeat t0 t1)"

definition ne_up32 :: "int \<Rightarrow> int" where
  "ne_up32 n = (n + 31) AND NOT 31"

definition ne_up :: "int \<Rightarrow> int \<Rightarrow> int res" where
  "ne_up n m = (if m AND (m - 1) = 0 then Inr ((n + m - 1) AND NOT (m - 1)) else Inl NE_Assert)"

lemma all_less_4: "(\<forall>i < (4::nat). P i) \<longleftrightarrow> P 0 \<and> P 1 \<and> P 2 \<and> P 3"
proof -
  have "i < 4 \<longleftrightarrow> i = 0 \<or> i = 1 \<or> i = 2 \<or> i = (3::nat)" for i by linarith
  then show ?thesis by auto
qed

section \<open>Rounding\<close>

lemma and_not_mask: "(n::int) AND NOT (2 ^ k - 1) = n - n mod 2 ^ k"
proof -
  have "n - take_bit k n = n AND NOT (take_bit k n)"
    by (rule disjunctive_diff_eq_and_not) (auto simp: bit_eq_iff bit_simps)
  also have "\<dots> = n AND NOT (mask k)"
    by (auto simp: bit_eq_iff bit_simps)
  finally have "n AND NOT (mask k) = n - take_bit k n" ..
  then show ?thesis by (simp add: mask_eq_exp_minus_1 take_bit_eq_mod)
qed

lemma pow2_test:
  fixes m :: nat
  assumes "0 < m" and "int m AND (int m - 1) = 0"
  shows "\<exists>k. m = 2 ^ k"
  using assms
proof (induction m rule: less_induct)
  case (less m)
  show ?case
  proof (cases "even m")
    case True
    then obtain h where m: "m = 2 * h" by (elim evenE)
    with less.prems have h: "0 < h" "h < m" by auto
    have "int m AND (int m - 1) = 2 * (int h AND (int h - 1))"
    proof -
      have "(2 * int h - 1) div 2 = int h - 1" by presburger
      with m h show ?thesis by (simp add: and_int_rec [of "2 * int h"])
    qed
    with less.prems(2) have "int h AND (int h - 1) = 0" by simp
    with less.IH [OF h(2) h(1)] obtain k where "h = 2 ^ k" by blast
    with m have "m = 2 ^ Suc k" by simp
    then show ?thesis by blast
  next
    case False
    then obtain h where m: "m = 2 * h + 1" by (elim oddE)
    have "int m AND (int m - 1) = 2 * (int h AND int h)"
      using m by (simp add: and_int_rec [of "1 + 2 * int h"] del: and.idem)
    with less.prems(2) have "h = 0" by simp
    with m have "m = 2 ^ 0" by simp
    then show ?thesis by blast
  qed
qed

lemma round_down_least:
  assumes "0 < (m::int)"
  shows "m dvd (n + m - 1) - (n + m - 1) mod m"
    and "n \<le> (n + m - 1) - (n + m - 1) mod m"
    and "(n + m - 1) - (n + m - 1) mod m < n + m"
proof -
  have "0 \<le> (n + m - 1) mod m" "(n + m - 1) mod m < m" using assms by simp_all
  then show "n \<le> (n + m - 1) - (n + m - 1) mod m" "(n + m - 1) - (n + m - 1) mod m < n + m"
    by linarith+
qed (simp add: minus_mod_eq_mult_div)

section \<open>Shapes\<close>

lemma ne_can_mul_mat_True:
  "ne_can_mul_mat a b = Inr True \<longleftrightarrow>
     ne a ! 0 = ne b ! 0 \<and> ne a ! 2 \<noteq> 0 \<and> ne a ! 2 dvd ne b ! 2 \<and> ne a ! 3 \<noteq> 0 \<and> ne a ! 3 dvd ne b ! 3"
  by (auto simp: ne_can_mul_mat_def andR_True_iff cmod0_iff)

lemma ne_can_repeat_True:
  "ne_can_repeat a b = Inr True \<longleftrightarrow> (\<forall>i < 4. ne a ! i \<noteq> 0 \<and> ne a ! i dvd ne b ! i)"
  by (auto simp: ne_can_repeat_def andR_True_iff cmod0_iff numeral_eq_Suc less_Suc_eq)

lemma ne_can_repeat_rows_True:
  "ne_can_repeat_rows a b = Inr True \<longleftrightarrow>
     ne a ! 0 = ne b ! 0 \<and> (\<forall>i < 4. ne a ! i \<noteq> 0 \<and> ne a ! i dvd ne b ! i)"
  by (simp add: ne_can_repeat_rows_def andR_True_iff ne_can_repeat_True)

lemma ne_is_contiguous_True:
  "ne_is_contiguous t = Inr True \<longleftrightarrow>
     NE_BLCK_SIZE (ty t) \<noteq> 0 \<and> nb t ! 0 = NE_TYPE_SIZE (ty t) \<and>
     nb t ! 1 = wrap64 (nb t ! 0 * to_size (ne t ! 0)) div NE_BLCK_SIZE (ty t) \<and>
     nb t ! 2 = wrap64 (nb t ! 1 * to_size (ne t ! 1)) \<and>
     nb t ! 3 = wrap64 (nb t ! 2 * to_size (ne t ! 2))"
  by (auto simp: ne_is_contiguous_def andR_True_iff rbind_Inr_iff udiv_Inr_iff)

text \<open>The byte offset of the element with indices \<open>i0, i1, i2, i3\<close>, as every kernel computes it.\<close>

definition elem_offset :: "ne_tensor \<Rightarrow> nat \<Rightarrow> nat \<Rightarrow> nat \<Rightarrow> nat \<Rightarrow> nat" where
  "elem_offset t i0 i1 i2 i3 = i0 * nb t ! 0 + i1 * nb t ! 1 + i2 * nb t ! 2 + i3 * nb t ! 3"

text \<open>
  Dimensions that are not negative, whose product is an \<^verbatim>\<open>int64_t\<close> and whose total size in
  bytes is representable: what makes the products of the code exact.
\<close>

definition dims_fit :: "ne_tensor \<Rightarrow> bool" where
  "dims_fit t \<longleftrightarrow> (\<forall>i < 4. 0 < ne t ! i) \<and>
     ne t ! 0 * ne t ! 1 * ne t ! 2 * ne t ! 3 < 2 ^ 63 \<and>
     NE_TYPE_SIZE (ty t) * nat (ne_nelements t) < 2 ^ 64"

lemma dims_fit_nelements: "dims_fit t \<Longrightarrow> ne_nelements t = ne t ! 0 * ne t ! 1 * ne t ! 2 * ne t ! 3"
  unfolding ne_nelements_def dims_fit_def all_less_4
  by (intro to_int64_id order_trans [OF _ mult_nonneg_nonneg]) simp_all

lemma nat_prod_less:
  assumes "(k::nat) * (a * b) < M" "0 < b"
  shows "k * a < M"
proof -
  have "k * a \<le> k * (a * b)" using assms(2) by simp
  with assms(1) show ?thesis by linarith
qed

text \<open>
  For a contiguous tensor of an unblocked type the strides are the running products of the
  dimensions, computed without wrap-around.
\<close>

lemma contiguous_strides:
  assumes "ne_is_contiguous t = Inr True" "NE_BLCK_SIZE (ty t) = 1" "dims_fit t"
  shows "nb t ! 0 = NE_TYPE_SIZE (ty t)"
    and "nb t ! 1 = NE_TYPE_SIZE (ty t) * nat (ne t ! 0)"
    and "nb t ! 2 = NE_TYPE_SIZE (ty t) * nat (ne t ! 0) * nat (ne t ! 1)"
    and "nb t ! 3 = NE_TYPE_SIZE (ty t) * nat (ne t ! 0) * nat (ne t ! 1) * nat (ne t ! 2)"
proof -
  let ?s = "NE_TYPE_SIZE (ty t)" and ?d = "\<lambda>i. nat (ne t ! i)"
  have pos: "0 < ne t ! 0" "0 < ne t ! 1" "0 < ne t ! 2" "0 < ne t ! 3"
    using assms(3) by (auto simp: dims_fit_def)
  then have tot: "?s * (?d 0 * ?d 1 * ?d 2 * ?d 3) < 2 ^ 64"
    using assms(3) dims_fit_nelements [OF assms(3)] by (simp add: dims_fit_def nat_mult_distrib)
  have s0: "0 < ?s" using assms(2) NE_TYPE_SIZE_pos_iff NE_BLCK_SIZE_zero_iff by fastforce
  have b2: "?s * (?d 0 * ?d 1 * ?d 2) < 2 ^ 64" using nat_prod_less [OF tot] pos by simp
  have b1: "?s * (?d 0 * ?d 1) < 2 ^ 64" using nat_prod_less [OF b2] pos by simp
  have b0: "?s * ?d 0 < 2 ^ 64" using nat_prod_less [OF b1] pos by simp
  have sz: "to_size (ne t ! i) = ?d i" if "i < 4" "?d i < 2 ^ 64" for i
    using that assms(3) by (auto simp: dims_fit_def to_size_def)
  have d: "?d 0 < 2 ^ 64" "?d 1 < 2 ^ 64" "?d 2 < 2 ^ 64"
    using b0 b1 b2 s0 pos nat_prod_less [of 1 "?d 0" ?s] nat_prod_less [of 1 "?d 1" "?s * ?d 0"]
      nat_prod_less [of 1 "?d 2" "?s * ?d 0 * ?d 1"] by (simp_all add: ac_simps)
  show "nb t ! 0 = ?s" using assms(1) by (simp add: ne_is_contiguous_True)
  then show n1: "nb t ! 1 = ?s * ?d 0"
    using assms(1,2) b0 sz [of 0] d by (simp add: ne_is_contiguous_True)
  then show n2: "nb t ! 2 = ?s * ?d 0 * ?d 1"
    using assms(1) b1 sz [of 1] d by (simp add: ne_is_contiguous_True mult.assoc)
  then show "nb t ! 3 = ?s * ?d 0 * ?d 1 * ?d 2"
    using assms(1) b2 sz [of 2] d by (simp add: ne_is_contiguous_True mult.assoc)
qed

text \<open>The row-major position of an element.\<close>

definition linear_index :: "ne_tensor \<Rightarrow> nat \<Rightarrow> nat \<Rightarrow> nat \<Rightarrow> nat \<Rightarrow> nat" where
  "linear_index t i0 i1 i2 i3 =
     i0 + nat (ne t ! 0) * (i1 + nat (ne t ! 1) * (i2 + nat (ne t ! 2) * i3))"

lemma mixed_radix_less:
  assumes "(i::nat) < a" "j < b"
  shows "i + a * j < a * b"
proof -
  have "a * j + a \<le> a * b" using assms(2) by (metis Suc_leI mult_Suc_right mult_le_mono2 add.commute)
  with assms(1) show ?thesis by linarith
qed

lemma mixed_radix_inj:
  assumes "(i::nat) < a" "i' < a" "i + a * j = i' + a * j'"
  shows "i = i' \<and> j = j'"
proof -
  have "i = (i + a * j) mod a" "i' = (i' + a * j') mod a" using assms(1,2) by simp_all
  then have "i = i'" using assms(3) by simp
  with assms show ?thesis by simp
qed

text \<open>
  C19. In a contiguous tensor of an unblocked type whose byte size is representable, the byte
  offset that the kernels compute from the strides is the element size times the row-major
  index, and the whole element lies within \<^verbatim>\<open>ne_nbytes\<close> of the start of the data.
\<close>

theorem contiguous_elem_offset:
  assumes "ne_is_contiguous t = Inr True" "NE_BLCK_SIZE (ty t) = 1" "dims_fit t"
    and "int i0 < ne t ! 0" "int i1 < ne t ! 1" "int i2 < ne t ! 2" "int i3 < ne t ! 3"
  shows "elem_offset t i0 i1 i2 i3 = NE_TYPE_SIZE (ty t) * linear_index t i0 i1 i2 i3 \<and>
         ne_nbytes t = Inr (NE_TYPE_SIZE (ty t) * nat (ne_nelements t)) \<and>
         elem_offset t i0 i1 i2 i3 + NE_TYPE_SIZE (ty t) \<le> NE_TYPE_SIZE (ty t) * nat (ne_nelements t)"
proof -
  let ?s = "NE_TYPE_SIZE (ty t)" and ?d = "\<lambda>i. nat (ne t ! i)"
  have off: "elem_offset t i0 i1 i2 i3 = ?s * linear_index t i0 i1 i2 i3"
    by (simp add: elem_offset_def linear_index_def contiguous_strides [OF assms(1-3)] algebra_simps
        del: One_nat_def)
  have pos: "0 < ne t ! 0" "0 < ne t ! 1" "0 < ne t ! 2" "0 < ne t ! 3"
    using assms(3) by (auto simp: dims_fit_def)
  then have tot: "nat (ne_nelements t) = ?d 0 * (?d 1 * (?d 2 * ?d 3))"
    by (simp add: dims_fit_nelements [OF assms(3)] nat_mult_distrib mult.assoc)
  have i: "i0 < ?d 0" "i1 < ?d 1" "i2 < ?d 2" "i3 < ?d 3" using assms(4-7) by linarith+
  have "linear_index t i0 i1 i2 i3 < nat (ne_nelements t)"
    unfolding linear_index_def tot
    by (rule mixed_radix_less [OF i(1) mixed_radix_less [OF i(2) mixed_radix_less [OF i(3,4)]]])
  then have "?s * linear_index t i0 i1 i2 i3 + ?s \<le> ?s * nat (ne_nelements t)"
    by (metis Suc_leI mult_Suc_right mult_le_mono2 add.commute)
  moreover have "ne_nbytes t = Inr (?s * nat (ne_nelements t))"
  proof -
    have s0: "0 < ?s" using assms(2) NE_TYPE_SIZE_pos_iff NE_BLCK_SIZE_zero_iff by fastforce
    have lt: "?s * nat (ne_nelements t) < 2 ^ 64" using assms(3) by (simp add: dims_fit_def)
    have "nat (ne_nelements t) < 2 ^ 64" using nat_prod_less [of 1 _ ?s] lt s0 by (simp add: ac_simps)
    moreover have "0 < ne_nelements t" using pos by (simp add: dims_fit_nelements [OF assms(3)])
    ultimately show ?thesis
      using lt assms(2) by (simp add: ne_nbytes_def udiv_def to_size_def ac_simps)
  qed
  ultimately show ?thesis using off by simp
qed

text \<open>A contiguous 3 by 2 matrix of floats.\<close>

definition demo_matrix :: ne_tensor where
  "demo_matrix =
     \<lparr>ty = NE_TYPE_F32, backend = NE_BACKEND_CPU, n_dims = 2, ne = [3, 2, 1, 1], nb = [4, 12, 24, 24],
      op = NE_OP_NONE, is_param = False, op_params = replicate 8 0, grad = NULL, src0 = NULL,
      src1 = NULL, opt = replicate 4 NULL, n_tasks = 0, perf_runs = 0, perf_cycles = 0,
      perf_time_us = 0, data = 8192, tsize = 64, tname = [], padding = replicate 8 0\<rparr>"

theorem contiguous_elem_offset_witness:
  "elem_offset demo_matrix 2 1 0 0 = 4 * linear_index demo_matrix 2 1 0 0 \<and> ne_nbytes demo_matrix = Inr 24"
proof -
  have "ne_is_contiguous demo_matrix = Inr True" "NE_BLCK_SIZE (ty demo_matrix) = 1"
    by (simp_all add: ne_is_contiguous_True demo_matrix_def to_size_def)
  moreover have "dims_fit demo_matrix"
    by (simp add: dims_fit_def all_less_4 ne_nelements_def demo_matrix_def)
  moreover have "int 2 < ne demo_matrix ! 0" "int 1 < ne demo_matrix ! 1" "int 0 < ne demo_matrix ! 2"
    "int 0 < ne demo_matrix ! 3" by (simp_all add: demo_matrix_def)
  moreover have "NE_TYPE_SIZE (ty demo_matrix) = 4" "nat (ne_nelements demo_matrix) = 6"
    by (simp_all add: demo_matrix_def ne_nelements_def)
  ultimately show ?thesis using contiguous_elem_offset [of demo_matrix 2 1 0 0] by simp
qed

text \<open>
  \<^verbatim>\<open>ne_up(n, m)\<close> for a positive \<open>m\<close> either aborts, when \<open>m\<close> is no power of two, or
  returns the least multiple of \<open>m\<close> that is not below \<open>n\<close>.
\<close>

theorem ne_up_least_multiple:
  assumes "0 < m"
  shows "(case ne_up n m of
      Inl e \<Rightarrow> e = NE_Assert \<and> (\<nexists>k. m = 2 ^ k)
    | Inr r \<Rightarrow> (\<exists>k. m = 2 ^ k) \<and> m dvd r \<and> n \<le> r \<and> (\<forall>q. m dvd q \<longrightarrow> n \<le> q \<longrightarrow> r \<le> q))"
proof (cases "m AND (m - 1) = 0")
  case True
  then obtain k where "nat m = 2 ^ k" using pow2_test [of "nat m"] assms by auto
  then have k: "m = 2 ^ k" using assms by (metis int_nat_eq of_nat_numeral of_nat_power less_imp_le)
  have r: "ne_up n m = Inr ((n + m - 1) - (n + m - 1) mod m)"
    using True and_not_mask [of "n + m - 1" k] by (simp add: ne_up_def k)
  have "(n + m - 1) - (n + m - 1) mod m \<le> q" if "m dvd q" "n \<le> q" for q
  proof (rule ccontr)
    let ?r = "(n + m - 1) - (n + m - 1) mod m"
    assume "\<not> ?r \<le> q"
    moreover have "m dvd ?r - q" by (rule dvd_diff [OF round_down_least(1) [OF assms] that(1)])
    ultimately have "m \<le> ?r - q" using zdvd_imp_le by auto
    then show False using round_down_least(3) [OF assms, of n] that(2) by linarith
  qed
  then show ?thesis using r round_down_least [OF assms, of n] k by auto
next
  case False
  have "m \<noteq> 2 ^ k" for k
  proof
    assume k: "m = 2 ^ k"
    have "(2 ^ k :: int) AND (2 ^ k - 1) = take_bit k (2 ^ k)"
      by (simp add: take_bit_eq_mask mask_eq_exp_minus_1)
    then show False using False k by (simp add: take_bit_eq_mod)
  qed
  then show ?thesis using False by (simp add: ne_up_def)
qed

theorem ne_up_least_multiple_witness:
  "case ne_up 70 64 of Inl e \<Rightarrow> False | Inr r \<Rightarrow> 64 dvd r \<and> 70 \<le> r \<and> (\<forall>q. 64 dvd q \<longrightarrow> 70 \<le> q \<longrightarrow> r \<le> q)"
proof -
  have "ne_up 70 64 = Inr 128" by (simp add: ne_up_def)
  then show ?thesis using ne_up_least_multiple [of 64 70] by simp
qed

end
