(* ===== verification/NE_Context.thy ===== *)
theory NE_Context
  imports NE_Tensor
begin

text \<open>
  The memory pool of a context (\<^verbatim>\<open>struct ne_object\<close>, \<^verbatim>\<open>ne_scratch\<close>, \<^verbatim>\<open>ne_context\<close> of
  \<^verbatim>\<open>core/ne.h\<close>; \<^verbatim>\<open>ne_init\<close>, \<^verbatim>\<open>ne_free\<close>, the scratch functions and \<^verbatim>\<open>ne_new_tensor*\<close> of
  \<^verbatim>\<open>core/ne_layers.c\<close>). Objects are appended to one buffer, each a 64-byte object header, the
  256-byte tensor header and, unless it goes to the scratch buffer or is given by the caller,
  the tensor's data. The object headers and the tensor headers that the C code writes into the
  buffer are kept in typed maps from their address; the bytes of tensor data are in \<open>mem\<close>.
  The pool theorems show that the extents of distinct objects do not overlap, which is what
  makes that split sound.
\<close>

section \<open>State\<close>

definition NE_MEM_ALIGN :: nat where "NE_MEM_ALIGN = 64"
definition sizeof_ne_tensor :: nat where "sizeof_ne_tensor = 256"
definition NE_OBJECT_SIZE :: nat where "NE_OBJECT_SIZE = 64"
definition NE_MAX_CONTEXTS :: nat where "NE_MAX_CONTEXTS = 64"

lemmas pool_consts = NE_MEM_ALIGN_def sizeof_ne_tensor_def NE_OBJECT_SIZE_def

text \<open>\<^verbatim>\<open>NE_SIZE_CALC\<close> is \<^verbatim>\<open>-1\<close>, passed as a \<^verbatim>\<open>size_t\<close>.\<close>

definition NE_SIZE_CALC :: nat where "NE_SIZE_CALC = 2 ^ 64 - 1"

record ne_object =
  offs :: nat
  osize :: nat
  obj_next :: ptr

record ne_scratch =
  s_offs :: nat
  s_size :: nat
  s_data :: ptr

record ne_context =
  mem_size :: nat
  mem_buffer :: ptr
  mem_buffer_owned :: bool
  no_alloc :: bool
  n_objects :: int
  objects_begin :: ptr
  objects_end :: ptr
  scratch :: ne_scratch
  scratch_save :: ne_scratch

record ne_init_params =
  p_mem_size :: nat
  p_mem_buffer :: ptr
  p_no_alloc :: bool

record ne_context_container =
  used :: bool
  slot_ctx :: ne_context

text \<open>What a call with a context argument reads and writes: that context and the heap.\<close>

record ne_state =
  ctx :: ne_context
  objects :: "ptr \<rightharpoonup> ne_object"
  tensors :: "ptr \<rightharpoonup> ne_tensor"
  mem :: memory

type_synonym 'a neop = "(ne_state, 'a) op"

definition get_obj :: "ptr \<Rightarrow> ne_object neop" where
  "get_obj p s = (case objects s p of None \<Rightarrow> Inl Bad_Deref | Some ob \<Rightarrow> Inr (ob, s))"

definition get_t :: "ptr \<Rightarrow> ne_tensor neop" where
  "get_t p s = (case tensors s p of None \<Rightarrow> Inl Bad_Deref | Some t \<Rightarrow> Inr (t, s))"

definition upd_t :: "ptr \<Rightarrow> (ne_tensor \<Rightarrow> ne_tensor) \<Rightarrow> unit neop" where
  "upd_t p f s = (case tensors s p of None \<Rightarrow> Inl Bad_Deref
                  | Some t \<Rightarrow> Inr ((), s\<lparr>tensors := (tensors s)(p \<mapsto> f t)\<rparr>))"

section \<open>Contexts\<close>

text \<open>
  \<open>malloc_aligned\<close> stands for \<^verbatim>\<open>NE_ALIGNED_MALLOC\<close> (\<^verbatim>\<open>posix_memalign\<close>, null on failure).
  The one-time table and time initialisation of the first call does not touch the contexts
  beyond clearing them, which \<open>g_state_init\<close> is.
\<close>

definition scratch0 :: ne_scratch where
  "scratch0 = \<lparr>s_offs = 0, s_size = 0, s_data = NULL\<rparr>"

definition context0 :: ne_context where
  "context0 = \<lparr>mem_size = 0, mem_buffer = NULL, mem_buffer_owned = False, no_alloc = False,
     n_objects = 0, objects_begin = NULL, objects_end = NULL, scratch = scratch0,
     scratch_save = scratch0\<rparr>"

definition g_state_init :: "ne_context_container list" where
  "g_state_init = replicate NE_MAX_CONTEXTS \<lparr>used = False, slot_ctx = context0\<rparr>"

definition align_mem_size :: "nat \<Rightarrow> nat" where
  "align_mem_size n = unat ((word_of_nat n + word_of_nat NE_MEM_ALIGN - 1 :: 64 word) AND NOT 63)"

fun find_unused :: "ne_context_container list \<Rightarrow> nat option" where
  "find_unused [] = None"
| "find_unused (c # cs) = (if \<not> used c then Some 0 else map_option Suc (find_unused cs))"

text \<open>The index of the slot stands for the pointer that \<^verbatim>\<open>ne_init\<close> returns; \<open>None\<close> is null.\<close>

definition ne_init ::
  "(nat \<Rightarrow> ptr) \<Rightarrow> ne_init_params \<Rightarrow> ne_context_container list \<Rightarrow> (nat option \<times> ne_context_container list) res"
where
  "ne_init malloc_aligned params g =
    (case find_unused g of
       None \<Rightarrow> Inr (None, g)
     | Some i \<Rightarrow>
        (let msz = align_mem_size (p_mem_size params);
             buf = (if p_mem_buffer params \<noteq> NULL then p_mem_buffer params else malloc_aligned msz);
             c = \<lparr>mem_size = msz, mem_buffer = buf,
                  mem_buffer_owned = (if p_mem_buffer params \<noteq> NULL then False else True),
                  no_alloc = p_no_alloc params, n_objects = 0, objects_begin = NULL,
                  objects_end = NULL, scratch = scratch0, scratch_save = scratch0\<rparr>
         in if buf = NULL then Inl NE_Assert
            else if buf mod NE_MEM_ALIGN \<noteq> 0 then Inl NE_Assert
            else Inr (Some i, g[i := \<lparr>used = True, slot_ctx = c\<rparr>])))"

text \<open>
  \<^verbatim>\<open>ne_free\<close> searches the slot with the given address and clears its \<open>used\<close> flag; the
  second component is the buffer handed to \<^verbatim>\<open>NE_ALIGNED_FREE\<close>, if any. A pointer that is
  no slot is ignored.
\<close>

definition ne_free :: "nat \<Rightarrow> ne_context_container list \<Rightarrow> ne_context_container list \<times> ptr option" where
  "ne_free i g =
     (if i < length g
      then (g[i := (g ! i)\<lparr>used := False\<rparr>],
            if mem_buffer_owned (slot_ctx (g ! i)) then Some (mem_buffer (slot_ctx (g ! i))) else None)
      else (g, None))"

definition ne_used_mem :: "nat neop" where
  "ne_used_mem =
     sbind (gets ctx) (\<lambda>c.
     if objects_end c = NULL then ret 0
     else sbind (get_obj (objects_end c)) (\<lambda>ob. ret (wrap64 (offs ob + osize ob))))"

definition ne_set_scratch :: "ne_scratch \<Rightarrow> nat neop" where
  "ne_set_scratch sc =
     sbind (gets ctx) (\<lambda>c.
     let result = (if s_data (scratch c) \<noteq> NULL then s_offs (scratch c) else 0) in
     sseq (modify (\<lambda>s. s\<lparr>ctx := c\<lparr>scratch := sc\<rparr>\<rparr>)) (ret result))"

definition ne_scratch_save :: "unit neop" where
  "ne_scratch_save =
     modify (\<lambda>s. s\<lparr>ctx := (ctx s)\<lparr>scratch_save := scratch (ctx s),
                                 scratch := (scratch (ctx s))\<lparr>s_data := NULL\<rparr>\<rparr>\<rparr>)"

definition ne_scratch_load :: "unit neop" where
  "ne_scratch_load = modify (\<lambda>s. s\<lparr>ctx := (ctx s)\<lparr>scratch := scratch_save (ctx s)\<rparr>\<rparr>)"

section \<open>Allocation\<close>

text \<open>The product loop and the alignment of \<^verbatim>\<open>size_needed\<close>, every step modulo \<open>2 ^ 64\<close>.\<close>

definition data_size_raw :: "ne_type \<Rightarrow> nat \<Rightarrow> int list \<Rightarrow> nat res" where
  "data_size_raw type nd dims =
     rbind (cdiv (dims ! 0) (int (NE_BLCK_SIZE type))) (\<lambda>q.
     Inr (fold (\<lambda>i acc. wrap64 (acc * to_size (dims ! i))) [1..<nd]
            (wrap64 (NE_TYPE_SIZE type * to_size q))))"

definition data_size_needed :: "ne_type \<Rightarrow> nat \<Rightarrow> int list \<Rightarrow> nat \<Rightarrow> nat res" where
  "data_size_needed type nd dims nbytes =
     (if type = NE_TYPE_BTLA then Inr nbytes
      else rbind (data_size_raw type nd dims) (\<lambda>sz.
           Inr (wrap64 (wrap64 (sz + NE_MEM_ALIGN - 1) div NE_MEM_ALIGN * NE_MEM_ALIGN))))"

text \<open>The dimensions and strides that the initialisation loops write.\<close>

definition new_ne :: "nat \<Rightarrow> int list \<Rightarrow> int list" where
  "new_ne nd dims = map (\<lambda>i. if i < nd then dims ! i else 1) [0..<4]"

definition new_nb :: "ne_type \<Rightarrow> int list \<Rightarrow> nat list res" where
  "new_nb type nes =
     rbind (if type \<noteq> NE_TYPE_BTLA
            then rbind (cdiv (nes ! 0) (int (NE_BLCK_SIZE type)))
                   (\<lambda>q. Inr (wrap64 (NE_TYPE_SIZE type * to_size q)))
            else Inr 0) (\<lambda>b1.
     let b2 = wrap64 (b1 * to_size (nes ! 1)); b3 = wrap64 (b2 * to_size (nes ! 2))
     in Inr [NE_TYPE_SIZE type, b1, b2, b3])"

definition init_tensor ::
  "ne_type \<Rightarrow> nat \<Rightarrow> int list \<Rightarrow> nat list \<Rightarrow> ptr \<Rightarrow> nat \<Rightarrow> ne_tensor" where
  "init_tensor type nd nes nbs dat nbytes =
     \<lparr>ty = type, backend = NE_BACKEND_CPU, n_dims = nd, ne = nes, nb = nbs, op = NE_OP_NONE,
      is_param = False, op_params = replicate 8 0, grad = NULL, src0 = NULL, src1 = NULL,
      opt = replicate 4 NULL, n_tasks = 0, perf_runs = 0, perf_cycles = 0, perf_time_us = 0,
      data = dat, tsize = nbytes, tname = [], padding = replicate 8 0\<rparr>"

text \<open>
  The tail of \<^verbatim>\<open>ne_new_tensor_impl\<close>, shared by its two branches: write the object, append it
  to the context's list, initialise the tensor behind it and count it.
\<close>

definition link_object :: "ptr \<Rightarrow> ne_object \<Rightarrow> ptr \<Rightarrow> unit neop" where
  "link_object obj_new ob obj_cur =
     sseq (modify (\<lambda>s. s\<lparr>objects := (objects s)(obj_new \<mapsto> ob)\<rparr>))
    (sseq (if obj_cur \<noteq> NULL
           then sbind (get_obj obj_cur) (\<lambda>oc.
                modify (\<lambda>s. s\<lparr>objects := (objects s)(obj_cur \<mapsto> oc\<lparr>obj_next := obj_new\<rparr>)\<rparr>))
           else modify (\<lambda>s. s\<lparr>ctx := (ctx s)\<lparr>objects_begin := obj_new\<rparr>\<rparr>))
          (modify (\<lambda>s. s\<lparr>ctx := (ctx s)\<lparr>objects_end := obj_new\<rparr>\<rparr>)))"

definition place_tensor ::
  "ptr \<Rightarrow> ne_object \<Rightarrow> ptr \<Rightarrow> ne_type \<Rightarrow> nat \<Rightarrow> int list \<Rightarrow> ptr \<Rightarrow> nat \<Rightarrow> ptr neop" where
  "place_tensor obj_new ob obj_cur type nd dims dat nbytes =
     sseq (link_object obj_new ob obj_cur)
    (sbind (gets ctx) (\<lambda>c.
     let result = wrap64 (mem_buffer c + offs ob);
         d = (if dat = NULL \<and> \<not> no_alloc c then wrap64 (result + sizeof_ne_tensor) else dat) in
     if 4 < nd then fail Out_Of_Bounds
     else sbind (liftR (new_nb type (new_ne nd dims))) (\<lambda>nbs.
     sseq (modify (\<lambda>s. s\<lparr>tensors := (tensors s)(result \<mapsto> init_tensor type nd (new_ne nd dims) nbs d nbytes),
                         ctx := (ctx s)\<lparr>n_objects := n_objects (ctx s) + 1\<rparr>\<rparr>))
          (ret result))))"

definition ne_new_tensor_impl ::
  "ne_type \<Rightarrow> nat \<Rightarrow> int list \<Rightarrow> ptr \<Rightarrow> nat \<Rightarrow> ptr neop" where
  "ne_new_tensor_impl type nd dims dat nbytes =
     sbind (gets ctx) (\<lambda>c.
     let obj_cur = objects_end c in
     sbind (if obj_cur = NULL then ret 0
            else sbind (get_obj obj_cur) (\<lambda>ob. ret (wrap64 (offs ob + osize ob)))) (\<lambda>cur_end.
     sbind (if dat = NULL \<and> \<not> no_alloc c then liftR (data_size_needed type nd dims nbytes)
            else ret 0) (\<lambda>size_needed.
     let obj_new = wrap64 (mem_buffer c + cur_end) in
     if s_data (scratch c) = NULL \<or> dat \<noteq> NULL then
       (let sz = wrap64 (size_needed + sizeof_ne_tensor) in
        if wrap64 (cur_end + sz + NE_OBJECT_SIZE) > mem_size c then ret NULL
        else place_tensor obj_new
               \<lparr>offs = wrap64 (cur_end + NE_OBJECT_SIZE), osize = sz, obj_next = NULL\<rparr>
               obj_cur type nd dims dat sz)
     else if wrap64 (s_offs (scratch c) + size_needed) > s_size (scratch c) then ret NULL
     else if wrap64 (cur_end + sizeof_ne_tensor + NE_OBJECT_SIZE) > mem_size c then ret NULL
     else
       (let dat' = wrap64 (s_data (scratch c) + s_offs (scratch c)) in
        sseq (modify (\<lambda>s. s\<lparr>ctx := (ctx s)\<lparr>scratch := (scratch (ctx s))
                 \<lparr>s_offs := wrap64 (s_offs (scratch (ctx s)) + size_needed)\<rparr>\<rparr>\<rparr>))
          (place_tensor obj_new
             \<lparr>offs = wrap64 (cur_end + NE_OBJECT_SIZE), osize = sizeof_ne_tensor, obj_next = NULL\<rparr>
             obj_cur type nd dims dat' size_needed)))))"

definition ne_new_tensor :: "ne_type \<Rightarrow> nat \<Rightarrow> int list \<Rightarrow> nat \<Rightarrow> ptr neop" where
  "ne_new_tensor type nd dims nbytes = ne_new_tensor_impl type nd dims NULL nbytes"

definition ne_new_tensor_1d :: "ne_type \<Rightarrow> int \<Rightarrow> nat \<Rightarrow> ptr neop" where
  "ne_new_tensor_1d type ne0 nbytes = ne_new_tensor type 1 [ne0] nbytes"

definition ne_new_tensor_2d :: "ne_type \<Rightarrow> int \<Rightarrow> int \<Rightarrow> nat \<Rightarrow> ptr neop" where
  "ne_new_tensor_2d type ne0 ne1 nbytes = ne_new_tensor type 2 [ne0, ne1] nbytes"

definition ne_new_tensor_3d :: "ne_type \<Rightarrow> int \<Rightarrow> int \<Rightarrow> int \<Rightarrow> nat \<Rightarrow> ptr neop" where
  "ne_new_tensor_3d type ne0 ne1 ne2 nbytes = ne_new_tensor type 3 [ne0, ne1, ne2] nbytes"

definition ne_new_tensor_4d :: "ne_type \<Rightarrow> int \<Rightarrow> int \<Rightarrow> int \<Rightarrow> int \<Rightarrow> nat \<Rightarrow> ptr neop" where
  "ne_new_tensor_4d type ne0 ne1 ne2 ne3 nbytes = ne_new_tensor type 4 [ne0, ne1, ne2, ne3] nbytes"

definition ne_dup_tensor :: "ptr \<Rightarrow> ptr neop" where
  "ne_dup_tensor src =
     sbind (get_t src) (\<lambda>t. ne_new_tensor_impl (ty t) (n_dims t) (ne t) NULL (tsize t))"

definition ne_view_tensor :: "ptr \<Rightarrow> ptr neop" where
  "ne_view_tensor src =
     sbind (get_t src) (\<lambda>t.
     sbind (ne_new_tensor_impl (ty t) (n_dims t) (ne t) (data t) (tsize t)) (\<lambda>result.
     sseq (upd_t result (\<lambda>r. r\<lparr>nb := nb t\<rparr>)) (ret result)))"

definition ne_set_name :: "ptr \<Rightarrow> string \<Rightarrow> unit neop" where
  "ne_set_name p nm = upd_t p (\<lambda>t. t\<lparr>tname := take 31 (takeWhile (\<lambda>c. c \<noteq> CHR 0x00) nm)\<rparr>)"

definition ne_get_name :: "ptr \<Rightarrow> string neop" where
  "ne_get_name p = sbind (get_t p) (\<lambda>t. ret (tname t))"

definition ne_get_data :: "ptr \<Rightarrow> ptr neop" where
  "ne_get_data p = sbind (get_t p) (\<lambda>t. ret (data t))"

text \<open>\<^verbatim>\<open>ne_set_op_params\<close> copies whole 32-bit parameters to the front of \<^verbatim>\<open>op_params\<close>.\<close>

definition ne_set_op_params :: "ptr \<Rightarrow> 32 word list \<Rightarrow> unit neop" where
  "ne_set_op_params p ps =
     sseq (ne_assert (p \<noteq> NULL))
       (if 8 < length ps then fail Out_Of_Bounds
        else upd_t p (\<lambda>t. t\<lparr>op_params := ps @ drop (length ps) (op_params t)\<rparr>))"

section \<open>The heap primitives\<close>

lemma get_t_Inr_iff: "get_t p s = Inr (t, s') \<longleftrightarrow> tensors s p = Some t \<and> s' = s"
  by (auto simp: get_t_def split: option.splits)

lemma get_obj_Inr_iff: "get_obj p s = Inr (ob, s') \<longleftrightarrow> objects s p = Some ob \<and> s' = s"
  by (auto simp: get_obj_def split: option.splits)

lemma upd_t_Inr_iff:
  "upd_t p f s = Inr (u, s') \<longleftrightarrow>
     (\<exists>t. tensors s p = Some t \<and> s' = s\<lparr>tensors := (tensors s)(p \<mapsto> f t)\<rparr>)"
  by (auto simp: upd_t_def split: option.splits)

lemma get_t_Some [simp, ne_monad]: "tensors s p = Some t \<Longrightarrow> get_t p s = Inr (t, s)"
  by (simp add: get_t_def)

lemma get_t_None [simp, ne_monad]: "tensors s p = None \<Longrightarrow> get_t p s = Inl Bad_Deref"
  by (simp add: get_t_def)

lemma get_obj_Some [simp, ne_monad]: "objects s p = Some ob \<Longrightarrow> get_obj p s = Inr (ob, s)"
  by (simp add: get_obj_def)

lemma upd_t_Some [simp, ne_monad]:
  "tensors s p = Some t \<Longrightarrow> upd_t p f s = Inr ((), s\<lparr>tensors := (tensors s)(p \<mapsto> f t)\<rparr>)"
  by (simp add: upd_t_def)

lemma upd_t_None [simp, ne_monad]: "tensors s p = None \<Longrightarrow> upd_t p f s = Inl Bad_Deref"
  by (simp add: upd_t_def)

lemmas heap_Inr_iffs = op_Inr_iffs get_t_Inr_iff get_obj_Inr_iff upd_t_Inr_iff

section \<open>The pool as a list of object sizes\<close>

text \<open>
  The abstract pool is the list of the sizes of its objects, in allocation order; the object
  with number \<open>k\<close> starts at offset \<open>pool_off zs k\<close>.
\<close>

definition pool_off :: "nat list \<Rightarrow> nat \<Rightarrow> nat" where
  "pool_off zs k = sum_list (map (\<lambda>z. NE_OBJECT_SIZE + z) (take k zs))"

definition pool_end :: "nat list \<Rightarrow> nat" where
  "pool_end zs = pool_off zs (length zs)"

definition pool_alloc :: "nat \<Rightarrow> nat \<Rightarrow> nat list \<Rightarrow> nat list option" where
  "pool_alloc cap z zs =
     (if pool_end zs + NE_OBJECT_SIZE + z \<le> cap then Some (zs @ [z]) else None)"

definition obj_at :: "ptr \<Rightarrow> nat list \<Rightarrow> nat \<Rightarrow> ne_object" where
  "obj_at base zs k =
     \<lparr>offs = pool_off zs k + NE_OBJECT_SIZE, osize = zs ! k,
      obj_next = (if Suc k < length zs then base + pool_off zs (Suc k) else NULL)\<rparr>"

text \<open>
  The concrete state represents the abstract pool: the object headers form the linked list of
  the context, every object has its tensor header, and no other tensor lives in the buffer.
  Addresses are below \<open>2 ^ 63\<close>, as user-space addresses are.
\<close>

definition pool_rel :: "nat list \<Rightarrow> ne_state \<Rightarrow> bool" where
  "pool_rel zs s \<longleftrightarrow>
     (let c = ctx s; base = mem_buffer c in
      base \<noteq> NULL \<and> base + mem_size c < 2 ^ 63 \<and> pool_end zs \<le> mem_size c \<and>
      (\<forall>k < length zs. objects s (base + pool_off zs k) = Some (obj_at base zs k)) \<and>
      objects_begin c = (if zs = [] then NULL else base) \<and>
      objects_end c = (if zs = [] then NULL else base + pool_off zs (length zs - 1)) \<and>
      n_objects c = int (length zs) \<and>
      (\<forall>k < length zs. tensors s (base + pool_off zs k + NE_OBJECT_SIZE) \<noteq> None) \<and>
      (\<forall>p. tensors s p \<noteq> None \<longrightarrow> base \<le> p \<longrightarrow> p < base + mem_size c \<longrightarrow>
           (\<exists>k < length zs. p = base + pool_off zs k + NE_OBJECT_SIZE)))"

lemma pool_off_append [simp]: "k \<le> length zs \<Longrightarrow> pool_off (zs @ ys) k = pool_off zs k"
  by (simp add: pool_off_def)

lemma pool_off_0 [simp]: "pool_off zs 0 = 0"
  by (simp add: pool_off_def)

lemma pool_off_length [simp]: "pool_off zs (length zs) = pool_end zs"
  by (simp add: pool_end_def)

lemma pool_end_Nil [simp]: "pool_end [] = 0"
  by (simp add: pool_end_def pool_off_def)

lemma pool_off_Suc: "k < length zs \<Longrightarrow> pool_off zs (Suc k) = pool_off zs k + NE_OBJECT_SIZE + zs ! k"
  by (simp add: pool_off_def take_Suc_conv_app_nth)

lemma pool_end_snoc [simp]: "pool_end (zs @ [z]) = pool_end zs + NE_OBJECT_SIZE + z"
  by (metis append_eq_conv_conj length_append_singleton lessI nth_append_length pool_off_Suc pool_off_append pool_off_length order_refl)

lemma pool_off_step: "j < k \<Longrightarrow> k \<le> length zs \<Longrightarrow> pool_off zs j + NE_OBJECT_SIZE + zs ! j \<le> pool_off zs k"
proof (induction k)
  case 0
  then show ?case by simp
next
  case (Suc k)
  then show ?case by (cases "j = k") (auto simp: pool_off_Suc)
qed

lemma pool_off_less: "j < k \<Longrightarrow> k \<le> length zs \<Longrightarrow> pool_off zs j < pool_off zs k"
  using pool_off_step [of j k zs] by (simp add: pool_consts)

lemma pool_off_less_end: "k < length zs \<Longrightarrow> pool_off zs k < pool_end zs"
  using pool_off_less [of k "length zs" zs] by simp

lemma pool_off_inj: "j \<le> length zs \<Longrightarrow> k \<le> length zs \<Longrightarrow> pool_off zs j = pool_off zs k \<longleftrightarrow> j = k"
  using pool_off_less [of j k zs] pool_off_less [of k j zs] by (metis less_irrefl linorder_neqE_nat)

lemma pool_off_le_end: "k < length zs \<Longrightarrow> pool_off zs k + NE_OBJECT_SIZE + zs ! k \<le> pool_end zs"
  using pool_off_step [of k "length zs" zs] by simp

text \<open>The end of the last object, read through the list, is the abstract end of the pool.\<close>

lemma pool_cur_end:
  assumes "pool_rel zs s" "zs \<noteq> []"
  shows "\<exists>ob. objects s (objects_end (ctx s)) = Some ob \<and> offs ob + osize ob = pool_end zs \<and>
              ob = obj_at (mem_buffer (ctx s)) zs (length zs - 1)"
proof -
  let ?k = "length zs - 1"
  have k: "?k < length zs" using assms(2) by simp
  have "objects s (objects_end (ctx s)) = Some (obj_at (mem_buffer (ctx s)) zs ?k)"
    using assms k by (simp add: pool_rel_def Let_def)
  moreover have "pool_off zs ?k + NE_OBJECT_SIZE + zs ! ?k = pool_end zs"
    using pool_off_Suc [OF k] assms(2) by simp
  ultimately show ?thesis by (simp add: obj_at_def)
qed

text \<open>The state after \<^verbatim>\<open>ne_new_tensor_impl\<close> has appended an object and its tensor.\<close>

definition placed :: "ptr \<Rightarrow> ne_object \<Rightarrow> ptr \<Rightarrow> ptr \<Rightarrow> ne_tensor \<Rightarrow> ne_state \<Rightarrow> ne_state" where
  "placed obj_new ob obj_cur result t s =
     (let objs = (objects s)(obj_new \<mapsto> ob) in
      s\<lparr>ctx := (ctx s)\<lparr>n_objects := n_objects (ctx s) + 1,
          objects_begin := (if obj_cur = NULL then obj_new else objects_begin (ctx s)),
          objects_end := obj_new\<rparr>,
        objects := (if obj_cur = NULL then objs
                    else objs(obj_cur \<mapsto> (the (objs obj_cur))\<lparr>obj_next := obj_new\<rparr>)),
        tensors := (tensors s)(result \<mapsto> t)\<rparr>)"

lemma placed_simps [simp]:
  "tensors (placed a b c p t s) = (tensors s)(p \<mapsto> t)" "mem (placed a b c p t s) = mem s"
  "scratch (ctx (placed a b c p t s)) = scratch (ctx s)"
  "scratch_save (ctx (placed a b c p t s)) = scratch_save (ctx s)"
  "mem_buffer (ctx (placed a b c p t s)) = mem_buffer (ctx s)"
  "mem_size (ctx (placed a b c p t s)) = mem_size (ctx s)"
  "no_alloc (ctx (placed a b c p t s)) = no_alloc (ctx s)"
  by (simp_all add: placed_def Let_def)

lemma init_tensor_simps [simp]:
  "ty (init_tensor type nd nes nbs d z) = type" "n_dims (init_tensor type nd nes nbs d z) = nd"
  "ne (init_tensor type nd nes nbs d z) = nes" "nb (init_tensor type nd nes nbs d z) = nbs"
  "data (init_tensor type nd nes nbs d z) = d" "tsize (init_tensor type nd nes nbs d z) = z"
  "op (init_tensor type nd nes nbs d z) = NE_OP_NONE" "grad (init_tensor type nd nes nbs d z) = NULL"
  "src0 (init_tensor type nd nes nbs d z) = NULL" "src1 (init_tensor type nd nes nbs d z) = NULL"
  "opt (init_tensor type nd nes nbs d z) = replicate 4 NULL"
  "is_param (init_tensor type nd nes nbs d z) = False"
  by (simp_all add: init_tensor_def)

lemma place_tensor_Inr:
  assumes "place_tensor obj_new ob obj_cur type nd dims dat nbytes s = Inr (p, s')"
  shows "p = wrap64 (mem_buffer (ctx s) + offs ob) \<and> nd \<le> 4 \<and>
    (\<exists>nbs. new_nb type (new_ne nd dims) = Inr nbs \<and>
       s' = placed obj_new ob obj_cur p
              (init_tensor type nd (new_ne nd dims) nbs
                 (if dat = NULL \<and> \<not> no_alloc (ctx s) then wrap64 (p + sizeof_ne_tensor) else dat)
                 nbytes) s)"
  using assms
  by (cases "obj_cur = NULL")
     (auto simp: place_tensor_def link_object_def placed_def heap_Inr_iffs Let_def
           split: if_splits)

lemma place_tensor_ok:
  assumes "obj_cur = NULL \<or> objects s obj_cur \<noteq> None" "nd \<le> 4"
    and "new_nb type (new_ne nd dims) = Inr nbs"
    and "p = wrap64 (mem_buffer (ctx s) + offs ob)"
  shows "place_tensor obj_new ob obj_cur type nd dims dat nbytes s =
    Inr (p, placed obj_new ob obj_cur p
              (init_tensor type nd (new_ne nd dims) nbs
                 (if dat = NULL \<and> \<not> no_alloc (ctx s) then wrap64 (p + sizeof_ne_tensor) else dat)
                 nbytes) s)"
proof (cases "obj_cur = NULL")
  case True
  with assms show ?thesis
    by (simp add: place_tensor_def link_object_def placed_def Let_def not_less)
next
  case False
  then obtain oc where "((objects s)(obj_new \<mapsto> ob)) obj_cur = Some oc"
    using assms(1) by (cases "obj_cur = obj_new") auto
  with False assms(2-4) show ?thesis
    by (simp add: place_tensor_def link_object_def placed_def Let_def not_less)
qed

lemma obj_at_snoc:
  "k < length zs \<Longrightarrow> obj_at base (zs @ [z]) k =
     (obj_at base zs k)\<lparr>obj_next := if Suc k = length zs then base + pool_end zs
                                     else obj_next (obj_at base zs k)\<rparr>"
  by (auto simp: obj_at_def nth_append)

lemma obj_at_last: "obj_at base (zs @ [z]) (length zs) =
    \<lparr>offs = pool_end zs + NE_OBJECT_SIZE, osize = z, obj_next = NULL\<rparr>"
  by (simp add: obj_at_def)

text \<open>Appending an object that fits keeps the representation.\<close>

lemma pool_rel_placed:
  assumes rel: "pool_rel zs s" and fits: "pool_end zs + NE_OBJECT_SIZE + z \<le> mem_size (ctx s)"
    and z: "0 < z"
  defines "base \<equiv> mem_buffer (ctx s)"
  shows "pool_rel (zs @ [z])
           (placed (base + pool_end zs)
              \<lparr>offs = pool_end zs + NE_OBJECT_SIZE, osize = z, obj_next = NULL\<rparr>
              (objects_end (ctx s)) (base + pool_end zs + NE_OBJECT_SIZE) t s)"
    (is "pool_rel _ ?s'")
proof -
  let ?ob = "\<lparr>offs = pool_end zs + NE_OBJECT_SIZE, osize = z, obj_next = NULL\<rparr>"
  note r = rel [unfolded pool_rel_def Let_def, folded base_def]
  have b0: "base \<noteq> NULL" using r by simp
  have cur: "objects_end (ctx s) = (if zs = [] then NULL else base + pool_off zs (length zs - 1))"
    using r by simp
  have objs: "objects ?s' (base + pool_off (zs @ [z]) k) = Some (obj_at base (zs @ [z]) k)"
    if "k < length (zs @ [z])" for k
  proof (cases "k = length zs")
    case True
    have "pool_off zs (length zs - 1) \<noteq> pool_end zs" if "zs \<noteq> []"
      using pool_off_less_end [of "length zs - 1" zs] that by simp
    then show ?thesis
      using True cur b0 obj_at_last [of base zs z] by (auto simp: placed_def Let_def)
  next
    case False
    with that have k: "k < length zs" by simp
    then have ne: "zs \<noteq> []" by auto
    have last: "pool_off zs (length zs - 1) \<noteq> pool_end zs" and kn: "pool_off zs k \<noteq> pool_end zs"
      using pool_off_less_end [of "length zs - 1" zs] pool_off_less_end [of k zs] k ne by simp_all
    have eq: "pool_off zs k = pool_off zs (length zs - 1) \<longleftrightarrow> Suc k = length zs"
      using pool_off_inj [of k zs "length zs - 1"] k by auto
    have obs: "objects s (base + pool_off zs k) = Some (obj_at base zs k)" using r k by simp
    show ?thesis
      using k kn last cur b0 ne obs eq
      by (auto simp: placed_def Let_def obj_at_snoc [OF k])
  qed
  have own: "\<exists>k < length (zs @ [z]). p = base + pool_off (zs @ [z]) k + NE_OBJECT_SIZE"
    if "tensors ?s' p \<noteq> None" "base \<le> p" "p < base + mem_size (ctx s)" for p
  proof (cases "p = base + pool_end zs + NE_OBJECT_SIZE")
    case True
    then show ?thesis by (intro exI [of _ "length zs"]) simp
  next
    case False
    with that have "tensors s p \<noteq> None" by (auto simp: placed_def Let_def)
    with r that obtain k where "k < length zs" "p = base + pool_off zs k + NE_OBJECT_SIZE" by blast
    then show ?thesis by (intro exI [of _ k]) simp
  qed
  have hdr: "tensors ?s' (base + pool_off (zs @ [z]) k + NE_OBJECT_SIZE) \<noteq> None"
    if "k < length (zs @ [z])" for k
    using that r by (cases "k = length zs") (auto simp: placed_def Let_def less_Suc_eq)
  have ctx': "mem_buffer (ctx ?s') = base" "mem_size (ctx ?s') = mem_size (ctx s)"
    "objects_begin (ctx ?s') = base" "objects_end (ctx ?s') = base + pool_end zs"
    "n_objects (ctx ?s') = int (length (zs @ [z]))"
    using cur b0 r by (auto simp: placed_def Let_def base_def)
  show ?thesis
    unfolding pool_rel_def Let_def ctx' using objs own hdr r fits by auto
qed

section \<open>Allocation refines the abstract pool\<close>

definition request_size :: "ne_context \<Rightarrow> ne_type \<Rightarrow> nat \<Rightarrow> int list \<Rightarrow> ptr \<Rightarrow> nat \<Rightarrow> nat res" where
  "request_size c type nd dims dat nbytes =
     (if dat = NULL \<and> \<not> no_alloc c then data_size_needed type nd dims nbytes else Inr 0)"

text \<open>A request that the code can serve: at most four dimensions, a valid type, no huge size.\<close>

definition good_request :: "ne_context \<Rightarrow> ne_type \<Rightarrow> nat \<Rightarrow> int list \<Rightarrow> ptr \<Rightarrow> nat \<Rightarrow> bool" where
  "good_request c type nd dims dat nbytes \<longleftrightarrow>
     nd \<le> 4 \<and> type \<noteq> NE_TYPE_COUNT \<and>
     (\<exists>n. request_size c type nd dims dat nbytes = Inr n \<and> n < 2 ^ 62)"

definition scratch_ok :: "ne_scratch \<Rightarrow> bool" where
  "scratch_ok sc \<longleftrightarrow> s_offs sc \<le> s_size sc \<and> s_data sc + s_size sc < 2 ^ 62"

lemma new_nb_ok: "type \<noteq> NE_TYPE_COUNT \<Longrightarrow> \<exists>nbs. new_nb type nes = Inr nbs \<and> length nbs = 4"
  using NE_BLCK_SIZE_zero_iff [of type] by (auto simp: new_nb_def cdiv_def Let_def)

lemma pool_cur_end_read:
  assumes "pool_rel zs s" "objects_end (ctx s) = NULL \<longrightarrow> m = ret 0"
    "objects_end (ctx s) \<noteq> NULL \<longrightarrow>
       m = sbind (get_obj (objects_end (ctx s))) (\<lambda>ob. ret (wrap64 (offs ob + osize ob)))"
  shows "m s = Inr (pool_end zs, s)"
proof (cases "zs = []")
  case True
  with assms(1) have "objects_end (ctx s) = NULL" by (simp add: pool_rel_def Let_def)
  with assms(2) True show ?thesis by simp
next
  case False
  from assms(1) False have nn: "objects_end (ctx s) \<noteq> NULL" by (simp add: pool_rel_def Let_def)
  from pool_cur_end [OF assms(1) False] obtain ob where
    ob: "objects s (objects_end (ctx s)) = Some ob" "offs ob + osize ob = pool_end zs" by blast
  moreover have "pool_end zs < 2 ^ 64"
    using assms(1) by (simp add: pool_rel_def Let_def)
  ultimately show ?thesis using assms(3) nn by simp
qed

lemma pool_rel_cur:
  "pool_rel zs s \<Longrightarrow> objects_end (ctx s) = NULL \<or> objects s (objects_end (ctx s)) \<noteq> None"
  using pool_cur_end [of zs s] by (cases "zs = []") (auto simp: pool_rel_def Let_def)

lemma pool_rel_bounds:
  assumes "pool_rel zs s"
  shows "mem_buffer (ctx s) \<noteq> NULL" "mem_buffer (ctx s) + mem_size (ctx s) < 2 ^ 63"
    "pool_end zs \<le> mem_size (ctx s)"
  using assms by (simp_all add: pool_rel_def Let_def)

lemma pool_rel_own:
  "pool_rel zs s \<Longrightarrow> tensors s p \<noteq> None \<Longrightarrow> mem_buffer (ctx s) \<le> p \<Longrightarrow>
     p < mem_buffer (ctx s) + mem_size (ctx s) \<Longrightarrow>
     \<exists>k < length zs. p = mem_buffer (ctx s) + pool_off zs k + NE_OBJECT_SIZE"
  unfolding pool_rel_def Let_def by blast

text \<open>Without the scratch buffer: the request is served exactly when the object fits.\<close>

lemma new_tensor_pool:
  assumes rel: "pool_rel zs s" and sc: "s_data (scratch (ctx s)) = NULL \<or> dat \<noteq> NULL"
    and req: "request_size (ctx s) type nd dims dat nbytes = Inr n" "n < 2 ^ 62"
    and nd: "nd \<le> 4" and nbs: "new_nb type (new_ne nd dims) = Inr nbs"
  defines "base \<equiv> mem_buffer (ctx s)" and "z \<equiv> n + sizeof_ne_tensor"
  defines "p \<equiv> base + pool_end zs + NE_OBJECT_SIZE"
  shows "ne_new_tensor_impl type nd dims dat nbytes s =
    (if pool_end zs + NE_OBJECT_SIZE + z \<le> mem_size (ctx s)
     then Inr (p, placed (base + pool_end zs)
                    \<lparr>offs = pool_end zs + NE_OBJECT_SIZE, osize = z, obj_next = NULL\<rparr>
                    (objects_end (ctx s)) p
                    (init_tensor type nd (new_ne nd dims) nbs
                       (if dat = NULL \<and> \<not> no_alloc (ctx s) then p + sizeof_ne_tensor else dat) z) s)
     else Inr (NULL, s))"
proof -
  note b = pool_rel_bounds [OF rel, folded base_def]
  note cur = pool_cur_end_read [OF rel, of "if objects_end (ctx s) = NULL then ret 0 else
      sbind (get_obj (objects_end (ctx s))) (\<lambda>ob. ret (wrap64 (offs ob + osize ob)))", simplified]
  have rq: "(if dat = NULL \<and> \<not> no_alloc (ctx s) then liftR (data_size_needed type nd dims nbytes)
             else ret 0) s = Inr (n, s)"
    using req(1) by (auto simp: request_size_def split: if_splits)
  have w: "wrap64 (n + sizeof_ne_tensor) = z" "wrap64 (pool_end zs + z + NE_OBJECT_SIZE) =
      pool_end zs + z + NE_OBJECT_SIZE" "wrap64 (base + pool_end zs) = base + pool_end zs"
      "wrap64 (pool_end zs + NE_OBJECT_SIZE) = pool_end zs + NE_OBJECT_SIZE"
    using req(2) b by (simp_all add: z_def pool_consts)
  show ?thesis
  proof (cases "pool_end zs + NE_OBJECT_SIZE + z \<le> mem_size (ctx s)")
    case True
    have w2: "wrap64 (base + (pool_end zs + NE_OBJECT_SIZE)) = p"
      "wrap64 (p + sizeof_ne_tensor) = p + sizeof_ne_tensor"
      using True b by (simp_all add: p_def z_def pool_consts)
    from True show ?thesis
      unfolding ne_new_tensor_impl_def Let_def
      using cur rq sc w w2 place_tensor_ok [OF pool_rel_cur [OF rel] nd nbs, of p]
      by (simp add: base_def [symmetric])
  next
    case False
    then show ?thesis
      unfolding ne_new_tensor_impl_def Let_def
      using cur rq sc w by (simp add: base_def [symmetric])
  qed
qed

text \<open>With the scratch buffer: the data goes to the scratch area, only the header to the pool.\<close>

lemma new_tensor_scratch:
  assumes rel: "pool_rel zs s" and sc: "s_data (scratch (ctx s)) \<noteq> NULL" "dat = NULL"
    and sok: "scratch_ok (scratch (ctx s))"
    and req: "request_size (ctx s) type nd dims dat nbytes = Inr n" "n < 2 ^ 62"
    and nd: "nd \<le> 4" and nbs: "new_nb type (new_ne nd dims) = Inr nbs"
  defines "base \<equiv> mem_buffer (ctx s)"
  defines "p \<equiv> base + pool_end zs + NE_OBJECT_SIZE"
    and "s1 \<equiv> s\<lparr>ctx := (ctx s)\<lparr>scratch := (scratch (ctx s))
                  \<lparr>s_offs := s_offs (scratch (ctx s)) + n\<rparr>\<rparr>\<rparr>"
  shows "ne_new_tensor_impl type nd dims dat nbytes s =
    (if s_offs (scratch (ctx s)) + n \<le> s_size (scratch (ctx s)) \<and>
        pool_end zs + NE_OBJECT_SIZE + sizeof_ne_tensor \<le> mem_size (ctx s)
     then Inr (p, placed (base + pool_end zs)
                    \<lparr>offs = pool_end zs + NE_OBJECT_SIZE, osize = sizeof_ne_tensor, obj_next = NULL\<rparr>
                    (objects_end (ctx s)) p
                    (init_tensor type nd (new_ne nd dims) nbs
                       (s_data (scratch (ctx s)) + s_offs (scratch (ctx s))) n) s1)
     else Inr (NULL, s))"
proof -
  note b = pool_rel_bounds [OF rel, folded base_def]
  note cur = pool_cur_end_read [OF rel, of "if objects_end (ctx s) = NULL then ret 0 else
      sbind (get_obj (objects_end (ctx s))) (\<lambda>ob. ret (wrap64 (offs ob + osize ob)))", simplified]
  let ?sc = "scratch (ctx s)"
  have rq: "(if dat = NULL \<and> \<not> no_alloc (ctx s) then liftR (data_size_needed type nd dims nbytes)
             else ret 0) s = Inr (n, s)"
    using req(1) by (auto simp: request_size_def split: if_splits)
  have w: "wrap64 (s_offs ?sc + n) = s_offs ?sc + n"
      "wrap64 (pool_end zs + sizeof_ne_tensor + NE_OBJECT_SIZE) =
       pool_end zs + sizeof_ne_tensor + NE_OBJECT_SIZE"
      "wrap64 (base + pool_end zs) = base + pool_end zs"
      "wrap64 (pool_end zs + NE_OBJECT_SIZE) = pool_end zs + NE_OBJECT_SIZE"
      "wrap64 (s_data ?sc + s_offs ?sc) = s_data ?sc + s_offs ?sc"
    using req(2) b sok by (simp_all add: scratch_ok_def pool_consts)
  show ?thesis
  proof (cases "s_offs ?sc + n \<le> s_size ?sc \<and>
      pool_end zs + NE_OBJECT_SIZE + sizeof_ne_tensor \<le> mem_size (ctx s)")
    case True
    have w2: "wrap64 (base + (pool_end zs + NE_OBJECT_SIZE)) = p"
      using True b by (simp add: p_def pool_consts)
    have cur1: "objects_end (ctx s) = NULL \<or> objects s1 (objects_end (ctx s)) \<noteq> None"
      using pool_rel_cur [OF rel] by (simp add: s1_def)
    from True show ?thesis
      unfolding ne_new_tensor_impl_def Let_def
      using cur rq sc w w2 place_tensor_ok [OF cur1 nd nbs, of p] b
      by (simp add: base_def [symmetric] s1_def [symmetric])
         (simp add: s1_def base_def)
  next
    case False
    then show ?thesis
      unfolding ne_new_tensor_impl_def Let_def
      using cur rq sc w by (auto simp: base_def [symmetric])
  qed
qed

section \<open>Every reachable pool is well formed\<close>

definition pool_inv :: "ne_state \<Rightarrow> bool" where
  "pool_inv s \<longleftrightarrow> (\<exists>zs. pool_rel zs s) \<and> scratch_ok (scratch (ctx s)) \<and> scratch_ok (scratch_save (ctx s))"

text \<open>
  The steps of a program that works on one context: allocations, the three scratch functions,
  writes to the fields of existing tensors and writes to tensor data.
\<close>

inductive pool_step :: "ne_state \<Rightarrow> ne_state \<Rightarrow> bool" where
  p_alloc: "good_request (ctx s) type nd dims dat nbytes \<Longrightarrow>
     ne_new_tensor_impl type nd dims dat nbytes s = Inr (p, s') \<Longrightarrow> pool_step s s'"
| p_set_scratch: "scratch_ok sc \<Longrightarrow> ne_set_scratch sc s = Inr (r, s') \<Longrightarrow> pool_step s s'"
| p_save: "ne_scratch_save s = Inr (u, s') \<Longrightarrow> pool_step s s'"
| p_load: "ne_scratch_load s = Inr (u, s') \<Longrightarrow> pool_step s s'"
| p_field: "upd_t p f s = Inr (u, s') \<Longrightarrow> pool_step s s'"
| p_write: "pool_step s (s\<lparr>mem := m\<rparr>)"

definition pool_start :: "ne_state \<Rightarrow> bool" where
  "pool_start s \<longleftrightarrow> (\<exists>g malloc_aligned params i g'.
     ne_init malloc_aligned params g = Inr (Some i, g') \<and> i < length g' \<and> ctx s = slot_ctx (g' ! i)) \<and>
     mem_buffer (ctx s) + mem_size (ctx s) < 2 ^ 63 \<and>
     (\<forall>p. tensors s p \<noteq> None \<longrightarrow> p < mem_buffer (ctx s) \<or> mem_buffer (ctx s) + mem_size (ctx s) \<le> p)"

text \<open>A state machine with an invariant: what holds at the start and is kept by a step always holds.\<close>

locale inv_system =
  fixes start :: "'s \<Rightarrow> bool" and step :: "'s \<Rightarrow> 's \<Rightarrow> bool" and I :: "'s \<Rightarrow> bool"
  assumes inv_start: "start s \<Longrightarrow> I s"
    and inv_step: "I s \<Longrightarrow> step s t \<Longrightarrow> I t"
begin

lemma inv_star: "step\<^sup>*\<^sup>* s t \<Longrightarrow> I s \<Longrightarrow> I t"
  by (induction rule: rtranclp_induct) (auto intro: inv_step)

lemma inv_reachable: "start s \<Longrightarrow> step\<^sup>*\<^sup>* s t \<Longrightarrow> I t"
  by (rule inv_star [OF _ inv_start])

end

lemma find_unused_less: "find_unused g = Some i \<Longrightarrow> i < length g \<and> \<not> used (g ! i)"
  by (induction g arbitrary: i) (auto split: if_splits)

lemma ne_init_Some:
  assumes "ne_init al params g = Inr (Some i, g')"
  shows "i < length g \<and> \<not> used (g ! i) \<and> length g' = length g \<and> used (g' ! i) \<and>
    mem_buffer (slot_ctx (g' ! i)) \<noteq> NULL \<and> 64 dvd mem_buffer (slot_ctx (g' ! i)) \<and>
    mem_size (slot_ctx (g' ! i)) = align_mem_size (p_mem_size params) \<and>
    n_objects (slot_ctx (g' ! i)) = 0 \<and> objects_begin (slot_ctx (g' ! i)) = NULL \<and>
    objects_end (slot_ctx (g' ! i)) = NULL \<and> scratch (slot_ctx (g' ! i)) = scratch0 \<and>
    scratch_save (slot_ctx (g' ! i)) = scratch0 \<and> (\<forall>j. j \<noteq> i \<longrightarrow> g' ! j = g ! j)"
  using assms find_unused_less [of g i]
  by (auto simp: ne_init_def Let_def NE_MEM_ALIGN_def split: option.splits if_splits)

lemma pool_rel_ctx_cong:
  assumes "pool_rel zs s" "objects s' = objects s" "dom (tensors s') = dom (tensors s)"
    "mem_buffer (ctx s') = mem_buffer (ctx s)" "mem_size (ctx s') = mem_size (ctx s)"
    "n_objects (ctx s') = n_objects (ctx s)" "objects_begin (ctx s') = objects_begin (ctx s)"
    "objects_end (ctx s') = objects_end (ctx s)"
  shows "pool_rel zs s'"
proof -
  have "tensors s' p \<noteq> None \<longleftrightarrow> tensors s p \<noteq> None" for p using assms(3) by blast
  then show ?thesis using assms(1,2,4-) by (simp add: pool_rel_def Let_def)
qed

lemma pool_rel_frame [simp]:
  "pool_rel zs (s\<lparr>ctx := (ctx s)\<lparr>scratch := a\<rparr>\<rparr>) = pool_rel zs s"
  "pool_rel zs (s\<lparr>ctx := (ctx s)\<lparr>scratch_save := b, scratch := a\<rparr>\<rparr>) = pool_rel zs s"
  "pool_rel zs (s\<lparr>mem := m\<rparr>) = pool_rel zs s"
  by (simp_all add: pool_rel_def Let_def)

lemma pool_inv_alloc:
  assumes "pool_inv s" "good_request (ctx s) type nd dims dat nbytes"
    and "ne_new_tensor_impl type nd dims dat nbytes s = Inr (p, s')"
  shows "pool_inv s'"
proof -
  from assms(1) obtain zs where rel: "pool_rel zs s" by (auto simp: pool_inv_def)
  from assms(2) obtain n where n: "request_size (ctx s) type nd dims dat nbytes = Inr n" "n < 2 ^ 62"
    and nd: "nd \<le> 4" and "type \<noteq> NE_TYPE_COUNT" by (auto simp: good_request_def)
  then obtain nbs where nbs: "new_nb type (new_ne nd dims) = Inr nbs" using new_nb_ok by blast
  have sok: "scratch_ok (scratch (ctx s))" "scratch_ok (scratch_save (ctx s))"
    using assms(1) by (auto simp: pool_inv_def)
  show ?thesis
  proof (cases "s_data (scratch (ctx s)) = NULL \<or> dat \<noteq> NULL")
    case True
    let ?z = "n + sizeof_ne_tensor"
    have z: "0 < ?z" by (simp add: pool_consts)
    show ?thesis
      using assms(3) new_tensor_pool [OF rel True n nd nbs] pool_rel_placed [OF rel _ z] sok assms(1)
      by (auto simp: pool_inv_def placed_def Let_def split: if_splits)
  next
    case False
    let ?s1 = "s\<lparr>ctx := (ctx s)\<lparr>scratch := (scratch (ctx s))\<lparr>s_offs := s_offs (scratch (ctx s)) + n\<rparr>\<rparr>\<rparr>"
    have rel1: "pool_rel zs ?s1" by (rule pool_rel_ctx_cong [OF rel]) simp_all
    have z: "0 < sizeof_ne_tensor" by (simp add: pool_consts)
    show ?thesis
      using assms(3) False new_tensor_scratch [OF rel _ _ sok(1) n nd nbs]
        pool_rel_placed [OF rel1 _ z] sok assms(1)
      by (auto simp: pool_inv_def placed_def Let_def scratch_ok_def split: if_splits)
  qed
qed

lemma pool_inv_step:
  assumes "pool_inv s" "pool_step s s'"
  shows "pool_inv s'"
  using assms(2)
proof cases
  case (p_alloc type nd dims dat nbytes p)
  with assms(1) show ?thesis using pool_inv_alloc by blast
next
  case (p_field p f u)
  then obtain t where t: "tensors s p = Some t" "s' = s\<lparr>tensors := (tensors s)(p \<mapsto> f t)\<rparr>"
    by (auto simp: upd_t_Inr_iff)
  then have "dom (tensors s') = dom (tensors s)" by auto
  then have "pool_rel zs s \<Longrightarrow> pool_rel zs s'" for zs
    by (rule pool_rel_ctx_cong [rotated 2]) (simp_all add: t(2))
  with t(2) assms(1) show ?thesis by (auto simp: pool_inv_def)
qed (use assms(1) in \<open>auto simp: pool_inv_def ne_set_scratch_def ne_scratch_save_def
       ne_scratch_load_def Let_def sseq_Inr_iff scratch_ok_def\<close>)

lemma pool_inv_start:
  assumes "pool_start s"
  shows "pool_inv s"
proof -
  from assms obtain g al params i g' where
    init: "ne_init al params g = Inr (Some i, g')" "ctx s = slot_ctx (g' ! i)"
    by (auto simp: pool_start_def)
  have "pool_rel [] s"
    using ne_init_Some [OF init(1)] assms init(2)
    by (auto simp: pool_start_def pool_rel_def Let_def linorder_not_less)
  then show ?thesis
    using ne_init_Some [OF init(1)] init(2)
    by (auto simp: pool_inv_def scratch0_def scratch_ok_def)
qed

interpretation pool: inv_system pool_start pool_step pool_inv
  by unfold_locales (fact pool_inv_start, fact pool_inv_step)

section \<open>Walking the object list\<close>

text \<open>
  The loop of \<^verbatim>\<open>ne_print_objects\<close>: follow \<^verbatim>\<open>next\<close> from \<^verbatim>\<open>objects_begin\<close> to null. \<open>None\<close> is
  running out of steps (a cyclic list) or a dangling link.
\<close>

fun walk_objects :: "nat \<Rightarrow> ne_state \<Rightarrow> ptr \<Rightarrow> (ptr \<times> ne_object) list option" where
  "walk_objects fuel s p =
     (if p = NULL then Some []
      else case fuel of 0 \<Rightarrow> None
           | Suc f \<Rightarrow> (case objects s p of None \<Rightarrow> None
                      | Some ob \<Rightarrow> map_option ((#) (p, ob)) (walk_objects f s (obj_next ob))))"

declare walk_objects.simps [simp del]

lemma walk_objects_NULL [simp]: "walk_objects fuel s NULL = Some []"
  by (simp add: walk_objects.simps)

lemma walk_objects_Suc:
  "p \<noteq> NULL \<Longrightarrow> objects s p = Some ob \<Longrightarrow>
     walk_objects (Suc f) s p = map_option ((#) (p, ob)) (walk_objects f s (obj_next ob))"
  by (simp add: walk_objects.simps [of "Suc f"])

lemma walk_from:
  assumes rel: "pool_rel zs s" and "k < length zs"
  defines "base \<equiv> mem_buffer (ctx s)"
  shows "walk_objects (length zs - k) s (base + pool_off zs k) =
           Some (map (\<lambda>i. (base + pool_off zs i, obj_at base zs i)) [k..<length zs])"
  using assms(2)
proof (induction "length zs - k" arbitrary: k)
  case 0
  then show ?case by simp
next
  case (Suc n)
  have step: "walk_objects (Suc n) s (base + pool_off zs k) =
      map_option ((#) (base + pool_off zs k, obj_at base zs k))
        (walk_objects n s (obj_next (obj_at base zs k)))"
    using rel Suc.prems by (intro walk_objects_Suc) (auto simp: pool_rel_def Let_def base_def)
  have up: "[k..<length zs] = k # [Suc k..<length zs]" using Suc.prems by (simp add: upt_rec)
  show ?case
  proof (cases "Suc k < length zs")
    case True
    have n: "n = length zs - Suc k" using Suc.hyps(2) by simp
    show ?thesis
      unfolding Suc.hyps(2) [symmetric] step up using Suc.hyps(1) [OF n True] True n
      by (simp add: obj_at_def)
  next
    case False
    then show ?thesis
      unfolding Suc.hyps(2) [symmetric] step up using Suc.prems
      by (simp add: obj_at_def)
  qed
qed

text \<open>The objects of a list do not overlap and lie in the buffer, each before the next.\<close>

definition objects_separate :: "ne_context \<Rightarrow> (ptr \<times> ne_object) list \<Rightarrow> bool" where
  "objects_separate c xs \<longleftrightarrow>
     sorted_wrt (\<lambda>(p, a) (q, b). p + NE_OBJECT_SIZE + osize a \<le> q) xs \<and>
     (\<forall>(p, a) \<in> set xs. mem_buffer c \<le> p \<and> mem_buffer c + offs a = p + NE_OBJECT_SIZE \<and>
        p + NE_OBJECT_SIZE + osize a \<le> mem_buffer c + mem_size c)"

lemma sorted_wrt_map_upt:
  "(\<And>i j. a \<le> i \<Longrightarrow> i < j \<Longrightarrow> j < b \<Longrightarrow> P (f i) (f j)) \<Longrightarrow> sorted_wrt P (map f [a..<b])"
  by (auto simp: sorted_wrt_iff_nth_less)

lemma pool_walk:
  assumes rel: "pool_rel zs s"
  defines "base \<equiv> mem_buffer (ctx s)"
  defines "xs \<equiv> map (\<lambda>i. (base + pool_off zs i, obj_at base zs i)) [0..<length zs]"
  shows "walk_objects (nat (n_objects (ctx s))) s (objects_begin (ctx s)) = Some xs"
    and "objects_separate (ctx s) xs" and "length xs = nat (n_objects (ctx s))"
proof -
  have n: "nat (n_objects (ctx s)) = length zs" and b: "objects_begin (ctx s) = (if zs = [] then NULL else base)"
    and e: "pool_end zs \<le> mem_size (ctx s)"
    using rel by (auto simp: pool_rel_def Let_def base_def)
  show "walk_objects (nat (n_objects (ctx s))) s (objects_begin (ctx s)) = Some xs"
    using walk_from [OF rel, of 0] n b by (auto simp: base_def xs_def)
  show "length xs = nat (n_objects (ctx s))" using n by (simp add: xs_def)
  have "sorted_wrt (\<lambda>(p, a) (q, b). p + NE_OBJECT_SIZE + osize a \<le> q) xs"
    unfolding xs_def by (rule sorted_wrt_map_upt) (use pool_off_step in \<open>auto simp: obj_at_def add.assoc\<close>)
  moreover have "base + pool_off zs i + NE_OBJECT_SIZE + zs ! i \<le> base + mem_size (ctx s)"
    if "i < length zs" for i
    using pool_off_le_end [OF that] e by simp
  ultimately show "objects_separate (ctx s) xs"
    by (auto simp: objects_separate_def xs_def base_def [symmetric] obj_at_def)
qed

section \<open>The size of the buffer\<close>

lemma word_and_not_mask6: "(w :: 64 word) AND NOT 63 = w - take_bit 6 w"
proof -
  have m: "(63 :: 64 word) = mask 6" by (simp add: mask_eq_exp_minus_1)
  have "w - take_bit 6 w = w AND NOT (take_bit 6 w)"
    by (rule disjunctive_diff_eq_and_not) (auto simp: bit_eq_iff bit_simps)
  also have "\<dots> = w AND NOT (mask 6)"
    by (auto simp: bit_eq_iff bit_simps)
  finally show ?thesis by (simp add: m)
qed

lemma align_mem_size_eq:
  assumes "n + 63 < 2 ^ 64"
  shows "align_mem_size n = (n + 63) div 64 * 64"
proof -
  let ?w = "word_of_nat (n + 63) :: 64 word"
  have w: "word_of_nat n + word_of_nat NE_MEM_ALIGN - 1 = ?w"
    by (simp add: NE_MEM_ALIGN_def)
  have u: "unat ?w = n + 63" using assms by (simp add: unat_of_nat take_bit_eq_mod del: of_nat_add)
  have t: "unat (take_bit 6 ?w) = (n + 63) mod 64"
    by (simp only: unsigned_take_bit_eq u) (simp add: take_bit_eq_mod)
  then have "take_bit 6 ?w \<le> ?w" using u by (simp add: word_le_nat_alt del: of_nat_add)
  then have "unat (?w - take_bit 6 ?w) = (n + 63) - (n + 63) mod 64"
    using u t by (simp add: unat_sub del: of_nat_add)
  then show ?thesis
    by (simp only: align_mem_size_def w word_and_not_mask6 minus_mod_eq_div_mult)
qed

section \<open>A concrete context\<close>

text \<open>A context of 1024 bytes at address 4096, as \<^verbatim>\<open>ne_init\<close> returns it for a request of 1000.\<close>

definition demo_ctx :: ne_context where
  "demo_ctx = \<lparr>mem_size = 1024, mem_buffer = 4096, mem_buffer_owned = True, no_alloc = False,
     n_objects = 0, objects_begin = NULL, objects_end = NULL, scratch = scratch0,
     scratch_save = scratch0\<rparr>"

definition demo_state :: ne_state where
  "demo_state = \<lparr>ctx = demo_ctx, objects = Map.empty, tensors = Map.empty, mem = (\<lambda>_. 0)\<rparr>"

lemma find_unused_replicate:
  "find_unused (replicate n c) = (if n = 0 \<or> used c then None else Some 0)"
  by (induction n) auto

lemma demo_init:
  "ne_init (\<lambda>_. 4096) \<lparr>p_mem_size = 1000, p_mem_buffer = NULL, p_no_alloc = False\<rparr> g_state_init =
     Inr (Some 0, g_state_init[0 := \<lparr>used = True, slot_ctx = demo_ctx\<rparr>])"
  by (simp add: ne_init_def g_state_init_def find_unused_replicate NE_MAX_CONTEXTS_def Let_def
      align_mem_size_eq demo_ctx_def NE_MEM_ALIGN_def)

lemma demo_slot:
  "slot_ctx (g_state_init[0 := \<lparr>used = True, slot_ctx = demo_ctx\<rparr>] ! 0) = demo_ctx"
  "0 < length (g_state_init[0 := \<lparr>used = True, slot_ctx = demo_ctx\<rparr>])"
  by (simp_all add: g_state_init_def NE_MAX_CONTEXTS_def)

lemma demo_start: "pool_start demo_state"
proof -
  have "\<exists>g al params i g'. ne_init al params g = Inr (Some i, g') \<and> i < length g' \<and>
      demo_ctx = slot_ctx (g' ! i)"
    by (intro exI conjI) (rule demo_init, rule demo_slot(2), simp only: demo_slot(1))
  then show ?thesis
    by (simp add: pool_start_def demo_state_def) (simp add: demo_ctx_def)
qed

lemma demo_pool_rel: "pool_rel [] demo_state"
  by (simp add: pool_rel_def demo_state_def demo_ctx_def)

lemma demo_request:
  "request_size demo_ctx NE_TYPE_F32 2 [3, 5] NULL NE_SIZE_CALC = Inr 64"
  by (simp add: request_size_def demo_ctx_def data_size_needed_def data_size_raw_def cdiv_def
      to_size_def wrap64_def NE_MEM_ALIGN_def upt_rec)

lemma demo_good: "good_request demo_ctx NE_TYPE_F32 2 [3, 5] NULL NE_SIZE_CALC"
  by (simp add: good_request_def demo_request)

section \<open>Properties\<close>

text \<open>
  C11. In every state a program can reach on a context that \<^verbatim>\<open>ne_init\<close> returned, by
  allocations of representable size, scratch switches and writes to tensors and their data,
  the object list can be walked from its head in \<^verbatim>\<open>n_objects\<close> steps, and the objects found
  (header, tensor header and data together) lie in the buffer and never overlap.
\<close>

theorem reachable_objects_separate:
  assumes "pool_start s0" "pool_step\<^sup>*\<^sup>* s0 s"
  shows "\<exists>xs. walk_objects (nat (n_objects (ctx s))) s (objects_begin (ctx s)) = Some xs \<and>
              length xs = nat (n_objects (ctx s)) \<and> objects_separate (ctx s) xs"
proof -
  from pool.inv_reachable [OF assms] obtain zs where "pool_rel zs s" by (auto simp: pool_inv_def)
  then show ?thesis using pool_walk by blast
qed

text \<open>Two tensors of 15 floats from a pool of 1024 bytes: two allocating steps, two objects apart.\<close>

lemma demo_alloc_step:
  assumes "pool_rel zs s" "no_alloc (ctx s) = False" "s_data (scratch (ctx s)) = NULL"
    and "pool_end zs + NE_OBJECT_SIZE + (64 + sizeof_ne_tensor) \<le> mem_size (ctx s)"
  shows "\<exists>s'. pool_step s s' \<and> pool_rel (zs @ [64 + sizeof_ne_tensor]) s' \<and> no_alloc (ctx s') = False \<and>
    scratch (ctx s') = scratch (ctx s) \<and> mem_size (ctx s') = mem_size (ctx s)"
proof -
  have rq: "request_size (ctx s) NE_TYPE_F32 2 [3, 5] NULL NE_SIZE_CALC = Inr 64"
    using demo_request assms(2) by (simp add: request_size_def demo_ctx_def)
  then have good: "good_request (ctx s) NE_TYPE_F32 2 [3, 5] NULL NE_SIZE_CALC" by (simp add: good_request_def)
  obtain nbs where nbs: "new_nb NE_TYPE_F32 (new_ne 2 [3, 5]) = Inr nbs" using new_nb_ok [of NE_TYPE_F32] by auto
  from new_tensor_pool [OF assms(1) _ rq _ _ nbs] assms(3,4) have
    "ne_new_tensor_impl NE_TYPE_F32 2 [3, 5] NULL NE_SIZE_CALC s =
      Inr (mem_buffer (ctx s) + pool_end zs + NE_OBJECT_SIZE,
        placed (mem_buffer (ctx s) + pool_end zs)
          \<lparr>offs = pool_end zs + NE_OBJECT_SIZE, osize = 64 + sizeof_ne_tensor, obj_next = NULL\<rparr>
          (objects_end (ctx s)) (mem_buffer (ctx s) + pool_end zs + NE_OBJECT_SIZE)
          (init_tensor NE_TYPE_F32 2 (new_ne 2 [3, 5]) nbs
            (mem_buffer (ctx s) + pool_end zs + NE_OBJECT_SIZE + sizeof_ne_tensor) (64 + sizeof_ne_tensor)) s)"
    using assms(2) by simp
  from p_alloc [OF good this] pool_rel_placed [OF assms(1,4)] assms(2) show ?thesis
    by (intro exI conjI) (assumption, simp_all add: pool_consts placed_def Let_def)
qed

theorem reachable_objects_separate_witness:
  "\<exists>s1 s2 xs. pool_start demo_state \<and> pool_step demo_state s1 \<and> pool_step s1 s2 \<and> n_objects (ctx s2) = 2 \<and>
     walk_objects 2 s2 (objects_begin (ctx s2)) = Some xs \<and> length xs = 2 \<and> objects_separate (ctx s2) xs"
proof -
  have c: "no_alloc (ctx demo_state) = False" "s_data (scratch (ctx demo_state)) = NULL" "mem_size (ctx demo_state) = 1024"
    by (simp_all add: demo_state_def demo_ctx_def scratch0_def)
  have e: "pool_end [64 + sizeof_ne_tensor] = NE_OBJECT_SIZE + (64 + sizeof_ne_tensor)"
    using pool_end_snoc [of "[]" "64 + sizeof_ne_tensor"] by simp
  from demo_alloc_step [OF demo_pool_rel c(1,2)] c(3) obtain s1 where
    1: "pool_step demo_state s1" "pool_rel [64 + sizeof_ne_tensor] s1" "no_alloc (ctx s1) = False"
      "s_data (scratch (ctx s1)) = NULL" "mem_size (ctx s1) = 1024" using c by (auto simp: pool_consts)
  from demo_alloc_step [OF 1(2-4)] 1(5) obtain s2 where
    2: "pool_step s1 s2" "pool_rel ([64 + sizeof_ne_tensor] @ [64 + sizeof_ne_tensor]) s2" using e by (auto simp: pool_consts)
  have n: "n_objects (ctx s2) = 2" using 2(2) by (simp add: pool_rel_def Let_def)
  have "pool_step\<^sup>*\<^sup>* demo_state s2" using 1(1) 2(1) by (meson converse_rtranclp_into_rtranclp rtranclp.rtrancl_refl)
  from reachable_objects_separate [OF demo_start this] n 1(1) 2(1) demo_start show ?thesis by auto
qed

text \<open>
  C2. \<^verbatim>\<open>ne_new_tensor_impl\<close> outside the scratch buffer is exactly an allocation in the
  abstract pool: if the object (object header, tensor header and data) does not fit, null is
  returned and nothing changes; otherwise the returned tensor is new, has the requested type
  and dimensions, and no other tensor, nor any byte of data, is changed.
\<close>

theorem new_tensor_refines_pool:
  assumes "pool_rel zs s" "s_data (scratch (ctx s)) = NULL \<or> dat \<noteq> NULL"
    and "good_request (ctx s) type nd dims dat nbytes"
    and "request_size (ctx s) type nd dims dat nbytes = Inr n"
  shows "case pool_alloc (mem_size (ctx s)) (n + sizeof_ne_tensor) zs of
      None \<Rightarrow> ne_new_tensor_impl type nd dims dat nbytes s = Inr (NULL, s)
    | Some zs' \<Rightarrow> \<exists>p s' t. ne_new_tensor_impl type nd dims dat nbytes s = Inr (p, s') \<and>
        pool_rel zs' s' \<and> p \<noteq> NULL \<and> tensors s p = None \<and> tensors s' = (tensors s)(p \<mapsto> t) \<and>
        ty t = type \<and> ne t = new_ne nd dims \<and> mem s' = mem s \<and> scratch (ctx s') = scratch (ctx s) \<and>
        data t = (if dat = NULL \<and> \<not> no_alloc (ctx s) then p + sizeof_ne_tensor else dat)"
proof -
  from assms(3,4) have n: "n < 2 ^ 62" and nd: "nd \<le> 4" and "type \<noteq> NE_TYPE_COUNT"
    by (auto simp: good_request_def)
  then obtain nbs where nbs: "new_nb type (new_ne nd dims) = Inr nbs" using new_nb_ok by blast
  note eq = new_tensor_pool [OF assms(1,2,4) n nd nbs]
  let ?z = "n + sizeof_ne_tensor" and ?base = "mem_buffer (ctx s)"
  let ?p = "?base + pool_end zs + NE_OBJECT_SIZE"
  show ?thesis
  proof (cases "pool_end zs + NE_OBJECT_SIZE + ?z \<le> mem_size (ctx s)")
    case True
    have z: "0 < ?z" by (simp add: pool_consts)
    have "?p \<noteq> ?base + pool_off zs k + NE_OBJECT_SIZE" if "k < length zs" for k
      using pool_off_less_end [OF that] by simp
    moreover have "?base \<le> ?p" "?p < ?base + mem_size (ctx s)" using True z by linarith+
    ultimately have "tensors s ?p = None"
      using pool_rel_own [OF assms(1), of ?p] by blast
    moreover have "?p \<noteq> NULL" using pool_rel_bounds [OF assms(1)] by simp
    moreover note pool_rel_placed [OF assms(1) True z]
    ultimately show ?thesis
      unfolding pool_alloc_def eq using True by (simp, intro exI conjI) (auto intro: refl)
  next
    case False
    with eq show ?thesis by (simp add: pool_alloc_def)
  qed
qed

theorem new_tensor_refines_pool_witness:
  "pool_rel [] demo_state \<and> good_request (ctx demo_state) NE_TYPE_F32 2 [3, 5] NULL NE_SIZE_CALC \<and>
   (\<exists>p s' t. ne_new_tensor_impl NE_TYPE_F32 2 [3, 5] NULL NE_SIZE_CALC demo_state = Inr (p, s') \<and>
      pool_rel [320] s' \<and> tensors s' = [p \<mapsto> t] \<and> ne t = [3, 5, 1, 1] \<and> data t = p + 256)"
proof -
  have c: "ctx demo_state = demo_ctx" by (simp add: demo_state_def)
  have a: "pool_alloc (mem_size (ctx demo_state)) (64 + sizeof_ne_tensor) [] = Some [320]"
    by (simp add: pool_alloc_def c demo_ctx_def pool_consts)
  have sc: "s_data (scratch (ctx demo_state)) = NULL \<or> NULL \<noteq> NULL"
    by (simp add: c demo_ctx_def scratch0_def)
  have n: "new_ne 2 [3, 5] = [3, 5, 1, 1]" by (simp add: new_ne_def upt_rec)
  show ?thesis
    using new_tensor_refines_pool [OF demo_pool_rel sc demo_good [folded c] demo_request [folded c]]
      demo_pool_rel demo_good c
    unfolding a by (fastforce simp: n demo_state_def demo_ctx_def pool_consts)
qed

text \<open>
  \<^verbatim>\<open>ne_init\<close> returns null exactly when all the context slots are in use, and then changes
  nothing; otherwise, when it returns at all, it takes the first free slot, leaves every other
  slot alone, and the buffer of the new context is not null and aligned to 64 bytes.
\<close>

theorem ne_init_slots:
  "ne_init al params g = Inr r \<Longrightarrow>
   (case r of
      (None, g') \<Rightarrow> (\<forall>c \<in> set g. used c) \<and> g' = g
    | (Some i, g') \<Rightarrow> i < length g \<and> \<not> used (g ! i) \<and> (\<forall>j < i. used (g ! j)) \<and>
        used (g' ! i) \<and> (\<forall>j. j \<noteq> i \<longrightarrow> g' ! j = g ! j) \<and> length g' = length g \<and>
        mem_buffer (slot_ctx (g' ! i)) \<noteq> NULL \<and> 64 dvd mem_buffer (slot_ctx (g' ! i)) \<and>
        mem_buffer_owned (slot_ctx (g' ! i)) = (p_mem_buffer params = NULL))"
proof -
  assume r: "ne_init al params g = Inr r"
  have none: "find_unused g = None \<longleftrightarrow> (\<forall>c \<in> set g. used c)" for g
    by (induction g) auto
  have some: "find_unused g = Some i \<Longrightarrow> i < length g \<and> \<not> used (g ! i) \<and> (\<forall>j < i. used (g ! j))" for g i
  proof (induction g arbitrary: i)
    case (Cons c cs)
    then show ?case by (auto split: if_splits simp: less_Suc_eq_0_disj)
  qed simp
  show ?thesis
    using r none [of g] some [of g]
    by (auto simp: ne_init_def Let_def NE_MEM_ALIGN_def split: option.splits if_splits)
qed

theorem ne_init_slots_witness:
  "ne_init (\<lambda>_. 4096) \<lparr>p_mem_size = 1000, p_mem_buffer = NULL, p_no_alloc = False\<rparr> g_state_init =
     Inr (Some 0, g_state_init[0 := \<lparr>used = True, slot_ctx = demo_ctx\<rparr>]) \<and>
   mem_buffer_owned (slot_ctx (g_state_init[0 := \<lparr>used = True, slot_ctx = demo_ctx\<rparr>] ! 0))"
  using ne_init_slots [OF demo_init] demo_init by (simp only: prod.case option.case ne_init_params.simps simp_thms)

text \<open>
  A context returned by \<^verbatim>\<open>ne_init\<close> and then given to \<^verbatim>\<open>ne_free\<close>: the slot is free
  again, no other slot has changed, and the buffer is released exactly when \<^verbatim>\<open>ne_init\<close>
  allocated it, never when the caller supplied it.
\<close>

theorem ne_init_free:
  assumes "ne_init al params g = Inr (Some i, g')"
  shows "\<exists>g''. ne_free i g' = (g'', if p_mem_buffer params = NULL
                                    then Some (al (align_mem_size (p_mem_size params))) else None) \<and>
           \<not> used (g'' ! i) \<and> (\<forall>j. j \<noteq> i \<longrightarrow> g'' ! j = g ! j) \<and>
           find_unused g'' = find_unused g"
proof -
  from assms have fu: "find_unused g = Some i"
    by (auto simp: ne_init_def Let_def split: option.splits if_splits)
  have i: "i < length g" "\<not> used (g ! i)" using find_unused_less [OF fu] by auto
  have upd: "find_unused g = Some i \<Longrightarrow> \<not> used x \<Longrightarrow> find_unused (g[i := x]) = Some i" for g i x
    by (induction g arbitrary: i) (auto split: nat.splits if_splits)
  show ?thesis
    using assms fu i upd [OF fu]
    by (auto simp: ne_init_def ne_free_def Let_def split: if_splits)
qed

theorem ne_init_free_witness:
  "\<exists>g''. ne_free 0 (g_state_init[0 := \<lparr>used = True, slot_ctx = demo_ctx\<rparr>]) = (g'', Some 4096) \<and>
         \<not> used (g'' ! 0) \<and> find_unused g'' = find_unused g_state_init"
  using ne_init_free [OF demo_init] by auto







end
