(* ===== verification/NE_Data.thy ===== *)
theory NE_Data
  imports NE_Context
begin

text \<open>
  Reading and writing tensor data: \<^verbatim>\<open>ne_set_zero\<close>, \<^verbatim>\<open>ne_set_i32\<close>, \<^verbatim>\<open>ne_set_f32\<close>, the
  one-dimensional accessors and \<^verbatim>\<open>ne_new_i32\<close>/\<^verbatim>\<open>ne_new_f32\<close> of \<^verbatim>\<open>core/ne_layers.c\<close>, with
  the fill loops of \<^verbatim>\<open>core/layers/ele_wise.h\<close>. A \<^verbatim>\<open>float\<close> is its 32-bit pattern and an
  \<^verbatim>\<open>ne_fp16_t\<close> its 16-bit pattern; the conversions of the floating-point unit are the
  fields of \<open>fconv\<close>, of which nothing is assumed. The lemmas are round trips (what is set is
  read back, at the width of the element type) and frame properties (nothing else changes).
\<close>

section \<open>Conversions and element access\<close>

record fconv =
  i32_to_f32 :: "32 word \<Rightarrow> 32 word"
  f32_to_i32 :: "32 word \<Rightarrow> 32 word"
  fp16_to_fp32 :: "16 word \<Rightarrow> 32 word"
  fp32_to_fp16 :: "32 word \<Rightarrow> 16 word"

definition store8 :: "ptr \<Rightarrow> byte \<Rightarrow> memory \<Rightarrow> memory" where
  "store8 p v m = m(p := v)"

definition store16 :: "ptr \<Rightarrow> 16 word \<Rightarrow> memory \<Rightarrow> memory" where
  "store16 p v m = m(p := ucast v, p + 1 := ucast (drop_bit 8 v))"

definition load16 :: "memory \<Rightarrow> ptr \<Rightarrow> 16 word" where
  "load16 m p = ucast (m p) OR push_bit 8 (ucast (m (p + 1)))"

text \<open>\<^verbatim>\<open>((T*)p)[i]\<close> with \<open>k\<close> the size of \<^verbatim>\<open>T\<close> and \<open>i\<close> an \<^verbatim>\<open>int\<close>.\<close>

definition elem_addr :: "ptr \<Rightarrow> int \<Rightarrow> nat \<Rightarrow> ptr" where
  "elem_addr p i k = nat (int p + i * int k)"

text \<open>An access through the data pointer of a tensor: null traps.\<close>

definition with_data :: "ne_tensor \<Rightarrow> 'a neop \<Rightarrow> 'a neop" where
  "with_data t k = (if data t = NULL then fail Bad_Deref else k)"

definition mem_write :: "(memory \<Rightarrow> memory) \<Rightarrow> unit neop" where
  "mem_write f = modify (\<lambda>s. s\<lparr>mem := f (mem s)\<rparr>)"

section \<open>The fill loops\<close>

definition ne_vec_set_i8 :: "nat \<Rightarrow> ptr \<Rightarrow> byte \<Rightarrow> memory \<Rightarrow> memory" where
  "ne_vec_set_i8 n x v m = fold (\<lambda>i. store8 (x + i) v) [0..<n] m"

definition ne_vec_set_i16 :: "nat \<Rightarrow> ptr \<Rightarrow> 16 word \<Rightarrow> memory \<Rightarrow> memory" where
  "ne_vec_set_i16 n x v m = fold (\<lambda>i. store16 (x + 2 * i) v) [0..<n] m"

definition ne_vec_set_i32 :: "nat \<Rightarrow> ptr \<Rightarrow> 32 word \<Rightarrow> memory \<Rightarrow> memory" where
  "ne_vec_set_i32 n x v m = fold (\<lambda>i. store32 (x + 4 * i) v) [0..<n] m"

text \<open>The parameter is an \<^verbatim>\<open>int32_t\<close> that is assigned to a 16-bit cell without conversion to fp16.\<close>

definition ne_vec_set_f16 :: "nat \<Rightarrow> ptr \<Rightarrow> 32 word \<Rightarrow> memory \<Rightarrow> memory" where
  "ne_vec_set_f16 n x v m = fold (\<lambda>i. store16 (x + 2 * i) (ucast v)) [0..<n] m"

definition ne_vec_set_f32 :: "nat \<Rightarrow> ptr \<Rightarrow> 32 word \<Rightarrow> memory \<Rightarrow> memory" where
  "ne_vec_set_f32 n x v m = fold (\<lambda>i. store32 (x + 4 * i) v) [0..<n] m"

text \<open>The row loop of \<^verbatim>\<open>ne_set_i32\<close> and \<^verbatim>\<open>ne_set_f32\<close>: row \<open>i\<close> starts at \<^verbatim>\<open>data + i * n1\<close>.\<close>

definition fill_rows :: "ne_tensor \<Rightarrow> (nat \<Rightarrow> ptr \<Rightarrow> memory \<Rightarrow> memory) \<Rightarrow> unit neop" where
  "fill_rows t vec_set =
     (let n = nat (ne_nrows t); nc = nat (to_int32 (ne t ! 0)); n1 = nb t ! 1 in
      if n = 0 \<or> nc = 0 then ret ()
      else with_data t (mem_write (fold (\<lambda>i. vec_set nc (data t + wrap64 (i * n1))) [0..<n])))"

section \<open>Whole tensors\<close>

text \<open>\<^verbatim>\<open>memset\<close> of the first \<^verbatim>\<open>ne_nbytes\<close> bytes of the data.\<close>

definition ne_set_zero :: "ptr \<Rightarrow> ptr neop" where
  "ne_set_zero p =
     sbind (get_t p) (\<lambda>t.
     sbind (liftR (ne_nbytes t)) (\<lambda>n.
     sseq (if n = 0 then ret ()
           else with_data t (mem_write (\<lambda>m a. if data t \<le> a \<and> a < data t + n then 0 else m a)))
       (ret p)))"

definition ne_set_i32 :: "fconv \<Rightarrow> ptr \<Rightarrow> 32 word \<Rightarrow> ptr neop" where
  "ne_set_i32 fc p v =
     sbind (get_t p) (\<lambda>t.
     sseq (case ty t of
        NE_TYPE_I8 \<Rightarrow> fill_rows t (\<lambda>nc x. ne_vec_set_i8 nc x (ucast v))
      | NE_TYPE_I16 \<Rightarrow> fill_rows t (\<lambda>nc x. ne_vec_set_i16 nc x (ucast v))
      | NE_TYPE_I32 \<Rightarrow> fill_rows t (\<lambda>nc x. ne_vec_set_i32 nc x v)
      | NE_TYPE_F16 \<Rightarrow> fill_rows t (\<lambda>nc x. ne_vec_set_f16 nc x v)
      | NE_TYPE_F32 \<Rightarrow> fill_rows t (\<lambda>nc x. ne_vec_set_f32 nc x (i32_to_f32 fc v))
      | _ \<Rightarrow> fail NE_Assert)
       (ret p))"

definition ne_set_f32 :: "fconv \<Rightarrow> ptr \<Rightarrow> 32 word \<Rightarrow> ptr neop" where
  "ne_set_f32 fc p v =
     sbind (get_t p) (\<lambda>t.
     sseq (case ty t of
        NE_TYPE_I8 \<Rightarrow> fill_rows t (\<lambda>nc x. ne_vec_set_i8 nc x (ucast (f32_to_i32 fc v)))
      | NE_TYPE_I16 \<Rightarrow> fill_rows t (\<lambda>nc x. ne_vec_set_i16 nc x (ucast (f32_to_i32 fc v)))
      | NE_TYPE_I32 \<Rightarrow> fill_rows t (\<lambda>nc x. ne_vec_set_i32 nc x (f32_to_i32 fc v))
      | NE_TYPE_F16 \<Rightarrow> fill_rows t (\<lambda>nc x. ne_vec_set_f16 nc x (f32_to_i32 fc v))
      | NE_TYPE_F32 \<Rightarrow> fill_rows t (\<lambda>nc x. ne_vec_set_f32 nc x v)
      | _ \<Rightarrow> fail NE_Assert)
       (ret p))"

section \<open>Single elements\<close>

definition ne_get_i32_1d :: "fconv \<Rightarrow> ptr \<Rightarrow> int \<Rightarrow> (32 word) neop" where
  "ne_get_i32_1d fc p i =
     sbind (get_t p) (\<lambda>t. let a = elem_addr (data t) i in
     case ty t of
        NE_TYPE_I8 \<Rightarrow> sseq (ne_assert (nb t ! 0 = 1)) (with_data t (gets (\<lambda>s. scast (mem s (a 1)))))
      | NE_TYPE_I16 \<Rightarrow> sseq (ne_assert (nb t ! 0 = 2)) (with_data t (gets (\<lambda>s. scast (load16 (mem s) (a 2)))))
      | NE_TYPE_I32 \<Rightarrow> sseq (ne_assert (nb t ! 0 = 4)) (with_data t (gets (\<lambda>s. load32 (mem s) (a 4))))
      | NE_TYPE_F16 \<Rightarrow> sseq (ne_assert (nb t ! 0 = 2)) (with_data t
          (gets (\<lambda>s. f32_to_i32 fc (fp16_to_fp32 fc (load16 (mem s) (a 2))))))
      | NE_TYPE_F32 \<Rightarrow> sseq (ne_assert (nb t ! 0 = 4)) (with_data t
          (gets (\<lambda>s. f32_to_i32 fc (load32 (mem s) (a 4)))))
      | _ \<Rightarrow> fail NE_Assert)"

definition ne_set_i32_1d :: "fconv \<Rightarrow> ptr \<Rightarrow> int \<Rightarrow> 32 word \<Rightarrow> unit neop" where
  "ne_set_i32_1d fc p i v =
     sbind (get_t p) (\<lambda>t. let a = elem_addr (data t) i in
     case ty t of
        NE_TYPE_I8 \<Rightarrow> sseq (ne_assert (nb t ! 0 = 1)) (with_data t (mem_write (store8 (a 1) (ucast v))))
      | NE_TYPE_I16 \<Rightarrow> sseq (ne_assert (nb t ! 0 = 2)) (with_data t (mem_write (store16 (a 2) (ucast v))))
      | NE_TYPE_I32 \<Rightarrow> sseq (ne_assert (nb t ! 0 = 4)) (with_data t (mem_write (store32 (a 4) v)))
      | NE_TYPE_F16 \<Rightarrow> sseq (ne_assert (nb t ! 0 = 2)) (with_data t
          (mem_write (store16 (a 2) (fp32_to_fp16 fc (i32_to_f32 fc v)))))
      | NE_TYPE_F32 \<Rightarrow> sseq (ne_assert (nb t ! 0 = 4)) (with_data t
          (mem_write (store32 (a 4) (i32_to_f32 fc v))))
      | _ \<Rightarrow> fail NE_Assert)"

definition ne_get_f32_1d :: "fconv \<Rightarrow> ptr \<Rightarrow> int \<Rightarrow> (32 word) neop" where
  "ne_get_f32_1d fc p i =
     sbind (get_t p) (\<lambda>t. let a = elem_addr (data t) i in
     case ty t of
        NE_TYPE_I8 \<Rightarrow> sseq (ne_assert (nb t ! 0 = 1)) (with_data t
          (gets (\<lambda>s. i32_to_f32 fc (scast (mem s (a 1))))))
      | NE_TYPE_I16 \<Rightarrow> sseq (ne_assert (nb t ! 0 = 2)) (with_data t
          (gets (\<lambda>s. i32_to_f32 fc (scast (load16 (mem s) (a 2))))))
      | NE_TYPE_I32 \<Rightarrow> sseq (ne_assert (nb t ! 0 = 4)) (with_data t
          (gets (\<lambda>s. i32_to_f32 fc (load32 (mem s) (a 4)))))
      | NE_TYPE_F16 \<Rightarrow> sseq (ne_assert (nb t ! 0 = 2)) (with_data t
          (gets (\<lambda>s. fp16_to_fp32 fc (load16 (mem s) (a 2)))))
      | NE_TYPE_F32 \<Rightarrow> sseq (ne_assert (nb t ! 0 = 4)) (with_data t
          (gets (\<lambda>s. load32 (mem s) (a 4))))
      | _ \<Rightarrow> fail NE_Assert)"

definition ne_set_f32_1d :: "fconv \<Rightarrow> ptr \<Rightarrow> int \<Rightarrow> 32 word \<Rightarrow> unit neop" where
  "ne_set_f32_1d fc p i v =
     sbind (get_t p) (\<lambda>t. let a = elem_addr (data t) i in
     case ty t of
        NE_TYPE_I8 \<Rightarrow> sseq (ne_assert (nb t ! 0 = 1)) (with_data t
          (mem_write (store8 (a 1) (ucast (f32_to_i32 fc v)))))
      | NE_TYPE_I16 \<Rightarrow> sseq (ne_assert (nb t ! 0 = 2)) (with_data t
          (mem_write (store16 (a 2) (ucast (f32_to_i32 fc v)))))
      | NE_TYPE_I32 \<Rightarrow> sseq (ne_assert (nb t ! 0 = 4)) (with_data t
          (mem_write (store32 (a 4) (f32_to_i32 fc v))))
      | NE_TYPE_F16 \<Rightarrow> sseq (ne_assert (nb t ! 0 = 2)) (with_data t
          (mem_write (store16 (a 2) (fp32_to_fp16 fc v))))
      | NE_TYPE_F32 \<Rightarrow> sseq (ne_assert (nb t ! 0 = 4)) (with_data t (mem_write (store32 (a 4) v)))
      | _ \<Rightarrow> fail NE_Assert)"

section \<open>Scalars\<close>

definition ne_new_i32 :: "fconv \<Rightarrow> 32 word \<Rightarrow> ptr neop" where
  "ne_new_i32 fc v =
     sseq ne_scratch_save
    (sbind (ne_new_tensor_1d NE_TYPE_I32 1 NE_SIZE_CALC) (\<lambda>result.
     sseq ne_scratch_load
    (sbind (ne_set_i32 fc result v) (\<lambda>_. ret result))))"

definition ne_new_f32 :: "fconv \<Rightarrow> 32 word \<Rightarrow> ptr neop" where
  "ne_new_f32 fc v =
     sseq ne_scratch_save
    (sbind (ne_new_tensor_1d NE_TYPE_F32 1 NE_SIZE_CALC) (\<lambda>result.
     sseq ne_scratch_load
    (sbind (ne_set_f32 fc result v) (\<lambda>_. ret result))))"

section \<open>Loads after stores\<close>

lemma load16_store16_same [simp]: "load16 (store16 p v m) p = v"
proof (rule bit_word_eqI)
  fix n assume "n < LENGTH(16)"
  then have "n < 16" by simp
  then show "bit (load16 (store16 p v m) p) n = bit v n"
    by (cases "n < 8") (auto simp: load16_def store16_def bit_simps)
qed

lemma load16_store16_other: "q + 2 \<le> p \<or> p + 2 \<le> q \<Longrightarrow> load16 (store16 p v m) q = load16 m q"
  by (auto simp: load16_def store16_def)

lemma store16_frame: "q < p \<or> p + 2 \<le> q \<Longrightarrow> store16 p v m q = m q"
  by (auto simp: store16_def)

lemma store32_frame: "q < p \<or> p + 4 \<le> q \<Longrightarrow> store32 p v m q = m q"
  by (auto simp: store32_apply)

lemma elem_addr_nonneg [simp]: "elem_addr p (int i) k = p + i * k"
  by (simp add: elem_addr_def nat_int_add flip: of_nat_mult)

lemma elem_addr_0 [simp]: "elem_addr p 0 k = p"
  by (simp add: elem_addr_def)

lemma mem_write_eq [simp]: "mem_write f s = Inr ((), s\<lparr>mem := f (mem s)\<rparr>)"
  by (simp add: mem_write_def)

lemma with_data_simps [simp]:
  "data t \<noteq> NULL \<Longrightarrow> with_data t k = k" "data t = NULL \<Longrightarrow> with_data t k = fail Bad_Deref"
  by (simp_all add: with_data_def)

lemma spread_mult: "i \<noteq> j \<Longrightarrow> (p::nat) + i * k + k \<le> p + j * k \<or> p + j * k + k \<le> p + i * k"
proof -
  assume "i \<noteq> j"
  then have "Suc i \<le> j \<or> Suc j \<le> i" by linarith
  then have "Suc i * k \<le> j * k \<or> Suc j * k \<le> i * k" by (metis mult_le_mono1)
  then show ?thesis by simp linarith
qed

lemma load_other_index:
  assumes "j \<noteq> i"
  shows "load16 (store16 (d + i * 2) v m) (d + j * 2) = load16 m (d + j * 2)"
    and "load32 (store32 (d + i * 4) w m) (d + j * 4) = load32 m (d + j * 4)"
  using spread_mult [OF assms, of d 2] spread_mult [OF assms, of d 4]
  by (auto intro!: load16_store16_other load32_store32_other)

text \<open>
  A filled range: the pattern \<open>b\<close> of \<open>k\<close> bytes repeated \<open>n\<close> times from \<open>x\<close> on. The loop over the
  elements of a row writes one, for a store of \<open>k\<close> bytes, and the loop over the rows joins them.
\<close>

definition filled :: "nat \<Rightarrow> (nat \<Rightarrow> byte) \<Rightarrow> ptr \<Rightarrow> nat \<Rightarrow> memory \<Rightarrow> memory" where
  "filled k b x n m a = (if x \<le> a \<and> a < x + k * n then b ((a - x) mod k) else m a)"

lemma filled_0 [simp]: "filled k b x 0 m = m"
  by (rule ext) (auto simp: filled_def)

lemma filled_filled: "filled k b (x + k * n) l (filled k b x n m) = filled k b x (n + l) m"
proof
  fix a
  have "(a - (x + k * n)) mod k = (a - x) mod k" if "x + k * n \<le> a"
  proof -
    from that have "a - x = (a - (x + k * n)) + k * n" by simp
    then show ?thesis by (metis mod_mult_self2)
  qed
  then show "filled k b (x + k * n) l (filled k b x n m) a = filled k b x (n + l) m a"
    by (auto simp: filled_def algebra_simps)
qed

lemma fill_loop:
  assumes "\<And>p m. st p m = filled k b p 1 m"
  shows "fold (\<lambda>i. st (x + k * i)) [0..<n] m = filled k b x n m"
  by (induction n) (simp_all add: assms filled_filled)

lemma fill_rows_filled:
  "fold (\<lambda>i. filled k b (x + k * (i * nc)) nc) [0..<n] m = filled k b x (n * nc) m"
  by (induction n) (simp_all add: filled_filled add.commute)

lemma filled_one: "0 < k \<Longrightarrow> filled k b p 1 m a = (if p \<le> a \<and> a < p + k then b (a - p) else m a)"
  by (auto simp: filled_def)

definition bytes16 :: "16 word \<Rightarrow> nat \<Rightarrow> byte" where
  "bytes16 v i = (if i = 0 then ucast v else ucast (drop_bit 8 v))"

lemma stores_filled:
  "store8 p c m = filled 1 (\<lambda>_. c) p 1 m"
  "store16 p h m = filled 2 (bytes16 h) p 1 m"
  "store32 p v m = filled 4 (byte_of v) p 1 m"
proof -
  show "store8 p c m = filled 1 (\<lambda>_. c) p 1 m" by (rule ext) (auto simp: filled_def store8_def)
  show "store16 p h m = filled 2 (bytes16 h) p 1 m"
    by (rule ext) (auto simp: filled_one [simplified One_nat_def] store16_def bytes16_def)
  show "store32 p v m = filled 4 (byte_of v) p 1 m"
    by (rule ext) (simp add: filled_one [simplified One_nat_def] store32_apply)
qed

lemma vec_set_filled:
  "ne_vec_set_i8 n x c m = filled 1 (\<lambda>_. c) x n m"
  "ne_vec_set_i16 n x h m = filled 2 (bytes16 h) x n m"
  "ne_vec_set_i32 n x v m = filled 4 (byte_of v) x n m"
  "ne_vec_set_f16 n x v m = filled 2 (bytes16 (ucast v)) x n m"
  "ne_vec_set_f32 n x v m = filled 4 (byte_of v) x n m"
  using fill_loop [of "\<lambda>p. store8 p c", OF stores_filled(1)] fill_loop [of "\<lambda>p. store16 p h", OF stores_filled(2)]
    fill_loop [of "\<lambda>p. store16 p (ucast v)", OF stores_filled(2)] fill_loop [of "\<lambda>p. store32 p v", OF stores_filled(3)]
  by (simp_all add: ne_vec_set_i8_def ne_vec_set_i16_def ne_vec_set_i32_def ne_vec_set_f16_def ne_vec_set_f32_def)

text \<open>Every element of a filled range reads as the value.\<close>

lemma filled_elem_bytes:
  assumes "j < n" "i < k"
  shows "filled k b x n m (x + k * j + i) = b i"
proof -
  have "k * Suc j \<le> k * n" using assms(1) by (intro mult_le_mono2) simp
  with assms(2) show ?thesis by (simp add: filled_def add.assoc)
qed

lemma load_filled:
  assumes "j < n"
  shows "filled 1 (\<lambda>_. c) x n m (x + j) = c"
    and "load16 (filled 2 (bytes16 h) x n m) (x + 2 * j) = h"
    and "load32 (filled 4 (byte_of v) x n m) (x + 4 * j) = v"
proof -
  show "filled 1 (\<lambda>_. c) x n m (x + j) = c" using assms by (simp add: filled_def)
  have "load16 (filled 2 (bytes16 h) x n m) (x + 2 * j) = load16 (store16 (x + 2 * j) h m) (x + 2 * j)"
    using filled_elem_bytes [OF assms, of 0 2 "bytes16 h"] filled_elem_bytes [OF assms, of 1 2 "bytes16 h"]
    by (simp add: load16_def store16_def bytes16_def)
  then show "load16 (filled 2 (bytes16 h) x n m) (x + 2 * j) = h" by simp
  have "load32 (filled 4 (byte_of v) x n m) (x + 4 * j) = load32 (store32 (x + 4 * j) v m) (x + 4 * j)"
    using filled_elem_bytes [OF assms, of _ 4 "byte_of v"] by (intro load32_frame) (simp add: store32_apply)
  then show "load32 (filled 4 (byte_of v) x n m) (x + 4 * j) = v" by simp
qed

text \<open>
  Shapes on which the row loop is exact: contiguous, a positive number of
  elements whose rows and columns are each representable in the \<^verbatim>\<open>int\<close> counters.
\<close>

definition fill_ok :: "ne_tensor \<Rightarrow> bool" where
  "fill_ok t \<longleftrightarrow> ne_is_contiguous t = Inr True \<and> dims_fit t \<and> ne t ! 0 < 2 ^ 31 \<and>
     ne t ! 1 * ne t ! 2 * ne t ! 3 < 2 ^ 31 \<and> data t \<noteq> NULL"

lemma fill_rows_exact:
  assumes "fill_ok t" "NE_TYPE_SIZE (ty t) = k" "k \<le> 4" "NE_BLCK_SIZE (ty t) = 1"
    and vs: "\<And>nc x m. vec_set nc x m = filled k b x nc m"
  shows "fill_rows t vec_set s =
           Inr ((), s\<lparr>mem := filled k b (data t) (nat (ne_nelements t)) (mem s)\<rparr>)"
proof -
  let ?d = "\<lambda>i. nat (ne t ! i)"
  have ok: "ne_is_contiguous t = Inr True" "dims_fit t" "ne t ! 0 < 2 ^ 31"
    "ne t ! 1 * ne t ! 2 * ne t ! 3 < 2 ^ 31" "data t \<noteq> NULL"
    using assms(1) by (auto simp: fill_ok_def)
  have pos: "0 < ne t ! 0" "0 < ne t ! 1" "0 < ne t ! 2" "0 < ne t ! 3"
    using ok(2) by (auto simp: dims_fit_def)
  define R where "R = ?d 1 * ?d 2 * ?d 3"
  have R: "ne t ! 1 * ne t ! 2 * ne t ! 3 = int R" "0 < R"
    using pos by (simp_all add: R_def)
  have nr: "nat (ne_nrows t) = R"
    using ok(4) R by (simp add: ne_nrows_def to_int32_id)
  have nc: "nat (to_int32 (ne t ! 0)) = ?d 0" "0 < ?d 0"
    using ok(3) pos by (simp_all add: to_int32_id)
  have nel: "nat (ne_nelements t) = R * ?d 0"
    using pos by (simp add: dims_fit_nelements [OF ok(2)] R_def nat_mult_distrib ac_simps)
  have nb1: "nb t ! 1 = k * ?d 0"
    using contiguous_strides(2) [OF ok(1) assms(4) ok(2)] assms(2) by simp
  have small: "R < 2 ^ 31" "?d 0 < 2 ^ 31" using ok(3,4) R pos by simp_all
  have w: "wrap64 (i * (k * ?d 0)) = k * (i * ?d 0)" if "i < R" for i
  proof -
    have "i * ?d 0 < 2 ^ 31 * 2 ^ 31" using that small by (intro mult_strict_mono') simp_all
    moreover have "k * (i * ?d 0) \<le> 4 * (i * ?d 0)" using assms(3) by (rule mult_le_mono1)
    ultimately have "k * (i * ?d 0) < 2 ^ 64" by (elim le_less_trans) simp
    then show ?thesis by (simp add: mult.left_commute [of i k])
  qed
  have "fold (\<lambda>i. filled k b (data t + wrap64 (i * (k * ?d 0))) (?d 0)) [0..<R] (mem s) =
        fold (\<lambda>i. filled k b (data t + k * (i * ?d 0)) (?d 0)) [0..<R] (mem s)"
    using w by (intro fold_cong) auto
  moreover have "vec_set = (\<lambda>nc x. filled k b x nc)" by (intro ext) (simp add: vs)
  ultimately show ?thesis
    using R(2) nc ok(5) by (simp add: fill_rows_def nr nb1 fill_rows_filled nel Let_def
        del: One_nat_def)
qed

section \<open>A scalar in the pool\<close>

lemma pool_fresh:
  assumes "pool_rel zs s" "pool_end zs + NE_OBJECT_SIZE < mem_size (ctx s)"
  shows "tensors s (mem_buffer (ctx s) + pool_end zs + NE_OBJECT_SIZE) = None"
proof -
  let ?p = "mem_buffer (ctx s) + pool_end zs + NE_OBJECT_SIZE"
  have "?p \<noteq> mem_buffer (ctx s) + pool_off zs k + NE_OBJECT_SIZE" if "k < length zs" for k
    using pool_off_less_end [OF that] by simp
  moreover have "mem_buffer (ctx s) \<le> ?p" "?p < mem_buffer (ctx s) + mem_size (ctx s)"
    using assms(2) by simp_all
  ultimately show ?thesis using pool_rel_own [OF assms(1), of ?p] by blast
qed

definition scalar_i32 :: "ptr \<Rightarrow> ne_tensor" where
  "scalar_i32 p = init_tensor NE_TYPE_I32 1 [1, 1, 1, 1] [4, 4, 4, 4] (p + sizeof_ne_tensor)
                    (64 + sizeof_ne_tensor)"

lemma scalar_i32_fill_ok: "fill_ok (scalar_i32 p)"
  by (simp add: fill_ok_def scalar_i32_def ne_is_contiguous_True dims_fit_def all_less_4
      ne_nelements_def to_size_def pool_consts)

lemma alloc_scalar_i32:
  assumes "pool_rel zs s" "s_data (scratch (ctx s)) = NULL" "\<not> no_alloc (ctx s)"
    and fits: "pool_end zs + NE_OBJECT_SIZE + (64 + sizeof_ne_tensor) \<le> mem_size (ctx s)"
  shows "\<exists>p s'. ne_new_tensor_1d NE_TYPE_I32 1 NE_SIZE_CALC s = Inr (p, s') \<and> tensors s p = None \<and>
     pool_rel (zs @ [64 + sizeof_ne_tensor]) s' \<and> tensors s' = (tensors s)(p \<mapsto> scalar_i32 p) \<and>
     scratch_save (ctx s') = scratch_save (ctx s)"
proof -
  let ?p = "mem_buffer (ctx s) + pool_end zs + NE_OBJECT_SIZE"
  have rq: "request_size (ctx s) NE_TYPE_I32 1 [1] NULL NE_SIZE_CALC = Inr 64"
    using assms(3) by (simp add: request_size_def data_size_needed_def data_size_raw_def
        cdiv_def to_size_def wrap64_def NE_MEM_ALIGN_def)
  have new1: "new_ne 1 [1] = [1, 1, 1, 1]" by (simp add: new_ne_def upt_rec)
  have nbs: "new_nb NE_TYPE_I32 (new_ne 1 [1]) = Inr [4, 4, 4, 4]"
    by (simp only: new1) (simp add: new_nb_def cdiv_def to_size_def wrap64_def)
  have "ne_new_tensor_1d NE_TYPE_I32 1 NE_SIZE_CALC s =
      Inr (?p, placed (mem_buffer (ctx s) + pool_end zs)
        \<lparr>offs = pool_end zs + NE_OBJECT_SIZE, osize = 64 + sizeof_ne_tensor, obj_next = NULL\<rparr>
        (objects_end (ctx s)) ?p (scalar_i32 ?p) s)"
    using new_tensor_pool [OF assms(1) _ rq _ _ nbs] fits assms(2,3)
    by (simp add: ne_new_tensor_1d_def ne_new_tensor_def new1 [simplified] scalar_i32_def)
  moreover have "0 < 64 + sizeof_ne_tensor" by simp
  note pool_rel_placed [OF assms(1) fits this]
  moreover have "tensors s ?p = None"
    using pool_fresh [OF assms(1)] fits by (simp add: pool_consts)
  ultimately show ?thesis by (intro exI conjI) (assumption, assumption, assumption, simp_all)
qed

section \<open>A concrete tensor\<close>

definition demo_tensor :: "ne_type \<Rightarrow> ne_tensor" where
  "demo_tensor type = init_tensor type 2 [3, 2, 1, 1]
     [NE_TYPE_SIZE type, 3 * NE_TYPE_SIZE type, 6 * NE_TYPE_SIZE type, 6 * NE_TYPE_SIZE type] 8192 64"

definition demo_heap :: "ne_type \<Rightarrow> ne_state" where
  "demo_heap type = demo_state\<lparr>tensors := [4160 \<mapsto> demo_tensor type]\<rparr>"

lemma demo_heap_simps [simp]: "tensors (demo_heap type) = [4160 \<mapsto> demo_tensor type]"
  "mem (demo_heap type) = (\<lambda>_. 0)"
  by (simp_all add: demo_heap_def demo_state_def)

lemma demo_tensor_simps [simp]:
  "ty (demo_tensor type) = type" "data (demo_tensor type) = 8192" "ne (demo_tensor type) = [3, 2, 1, 1]"
  "nb (demo_tensor type) ! 0 = NE_TYPE_SIZE type"
  by (simp_all add: demo_tensor_def)

lemma demo_fill_ok: "type \<in> {NE_TYPE_F32, NE_TYPE_F16} \<Longrightarrow> fill_ok (demo_tensor type)"
  by (auto simp: fill_ok_def dims_fit_def all_less_4 ne_nelements_def)
    (simp_all add: ne_is_contiguous_True demo_tensor_def to_size_def)

text \<open>Some conversions: the theorems hold for all of them.\<close>

definition demo_fc :: fconv where
  "demo_fc = \<lparr>i32_to_f32 = id, f32_to_i32 = id, fp16_to_fp32 = ucast, fp32_to_fp16 = ucast\<rparr>"

section \<open>Properties\<close>

text \<open>What an integer element of the given type keeps of a 32-bit value.\<close>

definition trunc_to :: "ne_type \<Rightarrow> 32 word \<Rightarrow> 32 word" where
  "trunc_to type v = (if type = NE_TYPE_I8 then scast (ucast v :: byte)
     else if type = NE_TYPE_I16 then scast (ucast v :: 16 word) else v)"

definition value_of :: "ne_error + ('a \<times> 's) \<Rightarrow> 'a res" where
  "value_of r = (case r of Inl e \<Rightarrow> Inl e | Inr (x, _) \<Rightarrow> Inr x)"

lemma value_of_simps [simp]: "value_of (Inl e) = Inl e" "value_of (Inr (x, s)) = Inr x"
  by (simp_all add: value_of_def)

text \<open>
  C18. Writing an element of an integer tensor and reading it back gives the value truncated
  to the width of the element type; every other element of the tensor reads as before, and no
  byte outside the element is touched.
\<close>

theorem set_get_i32_1d:
  assumes "tensors s p = Some t" "ty t \<in> {NE_TYPE_I8, NE_TYPE_I16, NE_TYPE_I32}"
    and "nb t ! 0 = NE_TYPE_SIZE (ty t)" "data t \<noteq> NULL"
  shows "\<exists>m'. ne_set_i32_1d fc p (int i) v s = Inr ((), s\<lparr>mem := m'\<rparr>) \<and>
      (\<forall>j. value_of (ne_get_i32_1d fc p (int j) (s\<lparr>mem := m'\<rparr>)) =
           (if j = i then Inr (trunc_to (ty t) v) else value_of (ne_get_i32_1d fc p (int j) s))) \<and>
      (\<forall>a. a < data t + i * NE_TYPE_SIZE (ty t) \<or> data t + (i + 1) * NE_TYPE_SIZE (ty t) \<le> a \<longrightarrow>
           m' a = mem s a)"
proof -
  consider "ty t = NE_TYPE_I8" | "ty t = NE_TYPE_I16" | "ty t = NE_TYPE_I32" using assms(2) by auto
  then show ?thesis
  proof cases
    case 1
    then show ?thesis using assms
      by (auto simp: ne_set_i32_1d_def ne_get_i32_1d_def trunc_to_def Let_def store8_def)
  next
    case 2
    then show ?thesis using assms
      by (intro exI [of _ "store16 (data t + i * 2) (ucast v) (mem s)"])
         (auto simp: ne_set_i32_1d_def ne_get_i32_1d_def trunc_to_def Let_def load_other_index
          store16_frame)
  next
    case 3
    then show ?thesis using assms
      by (intro exI [of _ "store32 (data t + i * 4) v (mem s)"])
         (auto simp: ne_set_i32_1d_def ne_get_i32_1d_def trunc_to_def Let_def load_other_index
          store32_frame)
  qed
qed

theorem set_get_i32_1d_witness:
  "\<exists>m'. ne_set_i32_1d demo_fc 4160 (int 2) 300 (demo_heap NE_TYPE_I8) = Inr ((), (demo_heap NE_TYPE_I8)\<lparr>mem := m'\<rparr>) \<and>
     value_of (ne_get_i32_1d demo_fc 4160 (int 2) ((demo_heap NE_TYPE_I8)\<lparr>mem := m'\<rparr>)) = Inr 44 \<and>
     value_of (ne_get_i32_1d demo_fc 4160 (int 1) ((demo_heap NE_TYPE_I8)\<lparr>mem := m'\<rparr>)) =
     value_of (ne_get_i32_1d demo_fc 4160 (int 1) (demo_heap NE_TYPE_I8))"
proof -
  have v: "trunc_to NE_TYPE_I8 300 = 44" by (simp add: trunc_to_def)
  obtain m' where m: "ne_set_i32_1d demo_fc 4160 (int 2) 300 (demo_heap NE_TYPE_I8) =
      Inr ((), (demo_heap NE_TYPE_I8)\<lparr>mem := m'\<rparr>)"
    and g: "\<And>j. value_of (ne_get_i32_1d demo_fc 4160 (int j) ((demo_heap NE_TYPE_I8)\<lparr>mem := m'\<rparr>)) =
      (if j = 2 then Inr 44 else value_of (ne_get_i32_1d demo_fc 4160 (int j) (demo_heap NE_TYPE_I8)))"
    using set_get_i32_1d [of "demo_heap NE_TYPE_I8" 4160 "demo_tensor NE_TYPE_I8" demo_fc 2 300] v by auto
  show ?thesis using m g [of 2] g [of 1] by auto
qed

text \<open>
  \<^verbatim>\<open>ne_set_f32\<close> on a contiguous \<^verbatim>\<open>float\<close> tensor makes every element read back as the
  value, and changes no byte outside the tensor's data.
\<close>

theorem set_f32_fills:
  assumes "tensors s p = Some t" "ty t = NE_TYPE_F32" "fill_ok t"
  shows "\<exists>m'. ne_set_f32 fc p v s = Inr (p, s\<lparr>mem := m'\<rparr>) \<and>
      (\<forall>j < nat (ne_nelements t). value_of (ne_get_f32_1d fc p (int j) (s\<lparr>mem := m'\<rparr>)) = Inr v) \<and>
      (\<forall>a. a < data t \<or> data t + 4 * nat (ne_nelements t) \<le> a \<longrightarrow> m' a = mem s a)"
proof -
  let ?m = "filled 4 (byte_of v) (data t) (nat (ne_nelements t)) (mem s)"
  have "fill_rows t (\<lambda>nc x. ne_vec_set_f32 nc x v) s = Inr ((), s\<lparr>mem := ?m\<rparr>)"
    using assms by (intro fill_rows_exact) (auto simp: vec_set_filled)
  moreover have "nb t ! 0 = 4" "data t \<noteq> NULL"
    using assms by (auto simp: fill_ok_def ne_is_contiguous_True)
  ultimately show ?thesis
    using assms(1,2)
    by (intro exI [of _ ?m])
       (auto simp: ne_set_f32_def ne_get_f32_1d_def Let_def load_filled mult.commute [of _ 4]
         filled_def)
qed

theorem set_f32_fills_witness:
  "\<exists>m'. ne_set_f32 demo_fc 4160 7 (demo_heap NE_TYPE_F32) = Inr (4160, (demo_heap NE_TYPE_F32)\<lparr>mem := m'\<rparr>) \<and>
     value_of (ne_get_f32_1d demo_fc 4160 (int 5) ((demo_heap NE_TYPE_F32)\<lparr>mem := m'\<rparr>)) = Inr 7"
proof -
  have n: "nat (ne_nelements (demo_tensor NE_TYPE_F32)) = 6" by (simp add: ne_nelements_def)
  have "(5::nat) < 6" by simp
  then show ?thesis
    using set_f32_fills [OF _ _ demo_fill_ok [of NE_TYPE_F32], of "demo_heap NE_TYPE_F32" 4160 demo_fc 7]
    unfolding n by (auto simp del: of_nat_numeral)
qed

text \<open>
  \<^verbatim>\<open>ne_new_i32\<close> in a context with room for it: the scalar is allocated in the pool
  even when a scratch buffer is active, the scratch buffer is afterwards as it was, and the new
  tensor reads back the value.
\<close>

theorem new_i32_ok:
  assumes "pool_rel zs s" "\<not> no_alloc (ctx s)"
    and "pool_end zs + NE_OBJECT_SIZE + (64 + sizeof_ne_tensor) \<le> mem_size (ctx s)"
  shows "\<exists>p s' t. ne_new_i32 fc v s = Inr (p, s') \<and> tensors s p = None \<and> tensors s' = (tensors s)(p \<mapsto> t) \<and>
     ne_is_scalar t \<and> ty t = NE_TYPE_I32 \<and> scratch (ctx s') = scratch (ctx s) \<and>
     pool_rel (zs @ [64 + sizeof_ne_tensor]) s' \<and> value_of (ne_get_i32_1d fc p 0 s') = Inr v"
proof -
  define s1 where "s1 = s\<lparr>ctx := (ctx s)\<lparr>scratch_save := scratch (ctx s),
                            scratch := (scratch (ctx s))\<lparr>s_data := NULL\<rparr>\<rparr>\<rparr>"
  have s1: "pool_rel zs s1" "s_data (scratch (ctx s1)) = NULL" "\<not> no_alloc (ctx s1)"
    "pool_end zs + NE_OBJECT_SIZE + (64 + sizeof_ne_tensor) \<le> mem_size (ctx s1)"
    using assms by (simp_all add: s1_def)
  from alloc_scalar_i32 [OF s1] obtain p s2 where
    alloc: "ne_new_tensor_1d NE_TYPE_I32 1 NE_SIZE_CALC s1 = Inr (p, s2)" "tensors s1 p = None"
      "pool_rel (zs @ [64 + sizeof_ne_tensor]) s2" "tensors s2 = (tensors s1)(p \<mapsto> scalar_i32 p)"
    and sc: "scratch_save (ctx s2) = scratch_save (ctx s1)" by blast
  define s3 where "s3 = s2\<lparr>ctx := (ctx s2)\<lparr>scratch := scratch_save (ctx s2)\<rparr>\<rparr>"
  have t3: "tensors s3 p = Some (scalar_i32 p)" using alloc(4) by (simp add: s3_def)
  define m where "m = filled 4 (byte_of v) (data (scalar_i32 p)) 1 (mem s3)"
  have "fill_rows (scalar_i32 p) (\<lambda>nc x. ne_vec_set_i32 nc x v) s3 = Inr ((), s3\<lparr>mem := m\<rparr>)"
  proof -
    have "fill_rows (scalar_i32 p) (\<lambda>nc x. ne_vec_set_i32 nc x v) s3 =
        Inr ((), s3\<lparr>mem := filled 4 (byte_of v) (data (scalar_i32 p)) (nat (ne_nelements (scalar_i32 p))) (mem s3)\<rparr>)"
      by (rule fill_rows_exact [OF scalar_i32_fill_ok]) (simp_all add: scalar_i32_def vec_set_filled)
    then show ?thesis by (simp add: m_def) (simp add: scalar_i32_def ne_nelements_def)
  qed
  then have "ne_set_i32 fc p v s3 = Inr (p, s3\<lparr>mem := m\<rparr>)"
    using t3 by (simp add: ne_set_i32_def scalar_i32_def)
  then have run: "ne_new_i32 fc v s = Inr (p, s3\<lparr>mem := m\<rparr>)"
    using alloc(1) by (simp add: ne_new_i32_def ne_scratch_save_def ne_scratch_load_def
        s1_def [symmetric] s3_def [symmetric])
  have get: "value_of (ne_get_i32_1d fc p 0 (s3\<lparr>mem := m\<rparr>)) = Inr v"
    using t3 load_filled(3) [of 0 1 v "data (scalar_i32 p)" "mem s3"] scalar_i32_fill_ok [of p]
    by (simp add: ne_get_i32_1d_def Let_def m_def fill_ok_def) (simp add: scalar_i32_def)
  have "tensors s = tensors s1" "scratch (ctx s3) = scratch (ctx s)" "tensors s3 = tensors s2"
    "pool_rel (zs @ [64 + sizeof_ne_tensor]) (s3\<lparr>mem := m\<rparr>)"
    using sc alloc(3) by (simp_all add: s1_def s3_def)
  moreover have "ne_is_scalar (scalar_i32 p)" "ty (scalar_i32 p) = NE_TYPE_I32"
    by (simp_all add: ne_is_scalar_def scalar_i32_def)
  ultimately show ?thesis
    using run get alloc(2,4)
    by (intro exI [of _ p] exI [of _ "s3\<lparr>mem := m\<rparr>"] exI [of _ "scalar_i32 p"]) simp
qed

theorem new_i32_ok_witness:
  "\<exists>p s'. ne_new_i32 demo_fc 42 demo_state = Inr (p, s') \<and> pool_rel [64 + sizeof_ne_tensor] s' \<and>
     value_of (ne_get_i32_1d demo_fc p 0 s') = Inr 42"
proof -
  have "\<not> no_alloc (ctx demo_state)"
    "pool_end [] + NE_OBJECT_SIZE + (64 + sizeof_ne_tensor) \<le> mem_size (ctx demo_state)"
    by (simp_all add: demo_state_def demo_ctx_def pool_consts)
  from new_i32_ok [OF demo_pool_rel this, of demo_fc 42] show ?thesis by auto
qed

text \<open>The element that \<^verbatim>\<open>ne_set_i32\<close> leaves at an address, by element type.\<close>

definition elem_filled :: "fconv \<Rightarrow> ne_type \<Rightarrow> 32 word \<Rightarrow> memory \<Rightarrow> ptr \<Rightarrow> bool" where
  "elem_filled fc type v m a =
     (case type of
        NE_TYPE_I8 \<Rightarrow> m a = ucast v
      | NE_TYPE_I16 \<Rightarrow> load16 m a = ucast v
      | NE_TYPE_I32 \<Rightarrow> load32 m a = v
      | NE_TYPE_F16 \<Rightarrow> load16 m a = ucast v
      | NE_TYPE_F32 \<Rightarrow> load32 m a = i32_to_f32 fc v
      | _ \<Rightarrow> False)"

text \<open>
  C28. \<^verbatim>\<open>ne_set_i32\<close> on a contiguous tensor writes every element and no byte outside the data. The
  elements hold the number truncated to an integer type or converted to a float, but a half-precision
  element holds the low 16 bits of the integer as they are, whatever the conversion functions are:
  \<^verbatim>\<open>ne_vec_set_f16\<close> takes the number as an \<^verbatim>\<open>int32_t\<close>. On the same element
  \<^verbatim>\<open>ne_set_i32_1d\<close> stores the converted value.
\<close>

theorem set_i32_fills:
  assumes "tensors s p = Some t" "ty t \<in> {NE_TYPE_I8, NE_TYPE_I16, NE_TYPE_I32, NE_TYPE_F16, NE_TYPE_F32}" "fill_ok t"
  shows "\<exists>m. ne_set_i32 fc p v s = Inr (p, s\<lparr>mem := m\<rparr>) \<and>
      (\<forall>j < nat (ne_nelements t). elem_filled fc (ty t) v m (data t + NE_TYPE_SIZE (ty t) * j)) \<and>
      (\<forall>a. a < data t \<or> data t + NE_TYPE_SIZE (ty t) * nat (ne_nelements t) \<le> a \<longrightarrow> m a = mem s a) \<and>
      (ty t = NE_TYPE_F16 \<longrightarrow> (\<forall>j < nat (ne_nelements t). \<exists>m'.
         ne_set_i32_1d fc p (int j) v s = Inr ((), s\<lparr>mem := m'\<rparr>) \<and>
         load16 m' (data t + 2 * j) = fp32_to_fp16 fc (i32_to_f32 fc v)))"
proof -
  define k where "k = NE_TYPE_SIZE (ty t)"
  define b where "b = (case ty t of NE_TYPE_I8 \<Rightarrow> \<lambda>_. ucast v | NE_TYPE_I16 \<Rightarrow> bytes16 (ucast v)
    | NE_TYPE_F16 \<Rightarrow> bytes16 (ucast v) | NE_TYPE_F32 \<Rightarrow> byte_of (i32_to_f32 fc v) | _ \<Rightarrow> byte_of v)"
  define m where "m = filled k b (data t) (nat (ne_nelements t)) (mem s)"
  have "NE_BLCK_SIZE (ty t) = 1" "k \<le> 4" using assms(2) by (auto simp: k_def)
  note fill = fill_rows_exact [OF assms(3) k_def [symmetric] this(2,1), of _ b s, folded m_def]
  have "ne_set_i32 fc p v s = Inr (p, s\<lparr>mem := m\<rparr>)"
    using assms(1,2) by (auto simp: ne_set_i32_def fill vec_set_filled k_def b_def)
  moreover have "elem_filled fc (ty t) v m (data t + k * j)" if "j < nat (ne_nelements t)" for j
    using that assms(2) by (auto simp: elem_filled_def m_def k_def b_def load_filled load_filled(1) [unfolded One_nat_def])
  moreover have "nb t ! 0 = k" "data t \<noteq> NULL" using assms(3) by (auto simp: fill_ok_def ne_is_contiguous_True k_def)
  ultimately show ?thesis
    using assms(1) unfolding k_def
    by (intro exI [of _ m]) (auto simp: m_def k_def filled_def ne_set_i32_1d_def Let_def mult.commute [of 2])
qed

theorem set_i32_fills_witness:
  "\<exists>m. ne_set_i32 demo_fc 4160 1 (demo_heap NE_TYPE_F16) = Inr (4160, (demo_heap NE_TYPE_F16)\<lparr>mem := m\<rparr>) \<and>
     load16 m (8192 + 2 * 5) = 1 \<and> m (8192 + 12) = 0"
proof -
  have n: "nat (ne_nelements (demo_tensor NE_TYPE_F16)) = 6" by (simp add: ne_nelements_def)
  obtain m where m: "ne_set_i32 demo_fc 4160 1 (demo_heap NE_TYPE_F16) = Inr (4160, (demo_heap NE_TYPE_F16)\<lparr>mem := m\<rparr>)"
      "\<forall>j < 6. load16 m (8192 + 2 * j) = 1" "\<forall>a \<ge> 8204. m a = 0"
    using set_i32_fills [OF _ _ demo_fill_ok [of NE_TYPE_F16], of "demo_heap NE_TYPE_F16" 4160 demo_fc 1]
    unfolding n by (auto simp: elem_filled_def)
  from m(2) have "load16 m (8192 + 2 * 5) = 1" by (rule allE [of _ 5]) simp
  with m show ?thesis by (intro exI [of _ m]) simp
qed

end
