(* ===== verification/NE_Ops_Elem.thy ===== *)
theory NE_Ops_Elem
  imports NE_Data
begin

text \<open>
  The constructors of the element-wise graph nodes, \<^verbatim>\<open>ne_dup\<close> to \<^verbatim>\<open>ne_rms_norm_back\<close> of
  \<^verbatim>\<open>core/ne_layers.c\<close>, in the order of the file. A constructor checks its arguments,
  allocates a result (a view of its first argument when it works in place), an optional
  gradient and an optional parameter tensor, and records the operation and its operands; no
  arithmetic is done. The tensor-parallel constructors take the number of ranks and the rank,
  which the C code asks of the parallel runtime, as arguments.
\<close>

section \<open>Steps the constructors share\<close>

text \<open>\<^verbatim>\<open>a->grad || b->grad || ...\<close>, read from left to right until one is not null.\<close>

fun any_grad :: "ptr list \<Rightarrow> bool neop" where
  "any_grad [] = ret False"
| "any_grad (p # ps) = sbind (get_t p) (\<lambda>t. if grad t \<noteq> NULL then ret True else any_grad ps)"

text \<open>\<^verbatim>\<open>is_node\<close>: set when some operand has a gradient and the operation is not in place.\<close>

definition node_unless :: "bool \<Rightarrow> ptr list \<Rightarrow> bool neop" where
  "node_unless inplace ps = (if inplace then ret False else any_grad ps)"

definition view_or_dup :: "bool \<Rightarrow> ptr \<Rightarrow> ptr neop" where
  "view_or_dup inplace a = (if inplace then ne_view_tensor a else ne_dup_tensor a)"

text \<open>
  The tail of every constructor: \<^verbatim>\<open>result->op = opc\<close>, then the gradient, a duplicate of the
  result if it is a node, then the operands, and the result is returned.
\<close>

definition finish :: "ne_op \<Rightarrow> bool \<Rightarrow> (ne_tensor \<Rightarrow> ne_tensor) \<Rightarrow> ptr \<Rightarrow> ptr neop" where
  "finish opc is_node operands result =
     sseq (upd_t result (\<lambda>t. t\<lparr>op := opc\<rparr>))
    (sbind (if is_node then ne_dup_tensor result else ret NULL) (\<lambda>g.
     sseq (upd_t result (\<lambda>t. operands (t\<lparr>grad := g\<rparr>))) (ret result)))"

text \<open>
  A tensor of \<open>n\<close> 32-bit integers for the parameters of an operation, allocated outside the
  scratch buffer, with its first elements set to \<open>vs\<close>.
\<close>

definition param_tensor :: "int \<Rightarrow> 32 word list \<Rightarrow> ptr neop" where
  "param_tensor n vs =
     sseq ne_scratch_save
    (sbind (ne_new_tensor_1d NE_TYPE_I32 n NE_SIZE_CALC) (\<lambda>c.
     sbind (get_t c) (\<lambda>t.
     sseq (with_data t (mem_write (store32_list (data t) vs)))
    (sseq ne_scratch_load (ret c)))))"

abbreviation (input) bool32 :: "bool \<Rightarrow> 32 word" where
  "bool32 b \<equiv> (if b then 1 else 0)"

section \<open>Copies and debugging\<close>

definition ne_dump_tensor :: "ptr \<Rightarrow> ptr neop" where
  "ne_dump_tensor a =
     sbind (any_grad [a]) (\<lambda>is_node.
     sbind (ne_view_tensor a)
       (finish NE_OP_DUMP_TENSOR is_node (\<lambda>t. t\<lparr>src0 := a, src1 := NULL\<rparr>)))"

definition ne_dup_impl :: "ptr \<Rightarrow> bool \<Rightarrow> ptr neop" where
  "ne_dup_impl a inplace =
     sbind (node_unless inplace [a]) (\<lambda>is_node.
     sbind (view_or_dup inplace a)
       (finish NE_OP_DUP is_node (\<lambda>t. t\<lparr>src0 := a, src1 := NULL\<rparr>)))"

definition ne_dup :: "ptr \<Rightarrow> ptr neop" where "ne_dup a = ne_dup_impl a False"
definition ne_dup_inplace :: "ptr \<Rightarrow> ptr neop" where "ne_dup_inplace a = ne_dup_impl a True"

text \<open>The callback is a pointer; its eight bytes go to the padding of the tensor.\<close>

definition le_bytes :: "nat \<Rightarrow> nat \<Rightarrow> byte list" where
  "le_bytes k n = map (\<lambda>i. word_of_nat (n div 2 ^ (8 * i))) [0..<k]"

definition ne_debug_op :: "ptr \<Rightarrow> nat \<Rightarrow> ptr neop" where
  "ne_debug_op a cb =
     sbind (ne_view_tensor a) (\<lambda>result.
     sseq (upd_t result (\<lambda>t. t\<lparr>op := NE_OP_DEBUG, src0 := a, padding := le_bytes 8 cb\<rparr>))
       (ret result))"

section \<open>Addition\<close>

definition ne_add_impl :: "ptr \<Rightarrow> ptr \<Rightarrow> bool \<Rightarrow> ptr neop" where
  "ne_add_impl a b inplace =
     sbind (get_t a) (\<lambda>ta. sbind (get_t b) (\<lambda>tb.
     sseq (ne_assertR (ne_can_repeat_rows tb ta))
    (sbind (node_unless inplace [a, b]) (\<lambda>is_node.
     sbind (view_or_dup inplace a)
       (finish NE_OP_ADD is_node (\<lambda>t. t\<lparr>src0 := a, src1 := b\<rparr>))))))"

definition ne_add :: "ptr \<Rightarrow> ptr \<Rightarrow> ptr neop" where "ne_add a b = ne_add_impl a b False"
definition ne_add_inplace :: "ptr \<Rightarrow> ptr \<Rightarrow> ptr neop" where "ne_add_inplace a b = ne_add_impl a b True"

definition ne_add1_impl :: "ptr \<Rightarrow> ptr \<Rightarrow> bool \<Rightarrow> ptr neop" where
  "ne_add1_impl a b inplace =
     sbind (get_t a) (\<lambda>ta. sbind (get_t b) (\<lambda>tb.
     sseq (ne_assert (ne_is_scalar tb))
    (sseq (ne_assert (ne_is_padded_1d ta))
    (sbind (node_unless inplace [a, b]) (\<lambda>is_node.
     sbind (view_or_dup inplace a)
       (finish NE_OP_ADD1 is_node (\<lambda>t. t\<lparr>src0 := a, src1 := b\<rparr>)))))))"

definition ne_add1 :: "ptr \<Rightarrow> ptr \<Rightarrow> ptr neop" where "ne_add1 a b = ne_add1_impl a b False"
definition ne_add1_inplace :: "ptr \<Rightarrow> ptr \<Rightarrow> ptr neop" where "ne_add1_inplace a b = ne_add1_impl a b True"

text \<open>The strides and the offset are \<^verbatim>\<open>size_t\<close>, stored as 32-bit integers.\<close>

definition view_params :: "nat \<Rightarrow> nat \<Rightarrow> nat \<Rightarrow> nat \<Rightarrow> bool \<Rightarrow> 32 word list" where
  "view_params nb1 nb2 nb3 offset inplace =
     [word_of_nat nb1, word_of_nat nb2, word_of_nat nb3, word_of_nat offset, bool32 inplace]"

definition ne_acc_impl :: "ptr \<Rightarrow> ptr \<Rightarrow> nat \<Rightarrow> nat \<Rightarrow> nat \<Rightarrow> nat \<Rightarrow> bool \<Rightarrow> ptr neop" where
  "ne_acc_impl a b nb1 nb2 nb3 offset inplace =
     sbind (get_t a) (\<lambda>ta. sbind (get_t b) (\<lambda>tb.
     sseq (ne_assert (ne_nelements tb \<le> ne_nelements ta))
    (sseq (ne_assertR (ne_is_contiguous ta))
    (sseq (ne_assert (ty ta = NE_TYPE_F32))
    (sseq (ne_assert (ty tb = NE_TYPE_F32))
    (sbind (node_unless inplace [a, b]) (\<lambda>is_node.
     sbind (view_or_dup inplace a) (\<lambda>result.
     sbind (param_tensor 5 (view_params nb1 nb2 nb3 offset inplace)) (\<lambda>c.
       finish NE_OP_ACC is_node (\<lambda>t. t\<lparr>src0 := a, src1 := b, opt := (opt t)[0 := c]\<rparr>) result))))))))) "

definition ne_acc :: "ptr \<Rightarrow> ptr \<Rightarrow> nat \<Rightarrow> nat \<Rightarrow> nat \<Rightarrow> nat \<Rightarrow> ptr neop" where
  "ne_acc a b nb1 nb2 nb3 offset = ne_acc_impl a b nb1 nb2 nb3 offset False"

definition ne_acc_inplace :: "ptr \<Rightarrow> ptr \<Rightarrow> nat \<Rightarrow> nat \<Rightarrow> nat \<Rightarrow> nat \<Rightarrow> ptr neop" where
  "ne_acc_inplace a b nb1 nb2 nb3 offset = ne_acc_impl a b nb1 nb2 nb3 offset True"

section \<open>Tensor-parallel operations\<close>

datatype parallel_mode = TENSOR_NO_CHANGE | TENSOR_1D_ROW | TENSOR_1D_COL | TENSOR_2D_ROW
  | TENSOR_2D_COL | TENSOR_3D_INPUT | TENSOR_3D_WEIGHT | TENSOR_3D_OUTPUT
  | TENSOR_3D_INPUT_X_WEIGHT | TENSOR_3D_OUTPUT_X_WEIGHT | TENSOR_2P5D_ROW | TENSOR_2P5D_COL
  | TENSOR_2P5D_DEP

fun parallel_mode_val :: "parallel_mode \<Rightarrow> 32 word" where
  "parallel_mode_val TENSOR_NO_CHANGE = 0"
| "parallel_mode_val TENSOR_1D_ROW = 1"
| "parallel_mode_val TENSOR_1D_COL = 2"
| "parallel_mode_val TENSOR_2D_ROW = 3"
| "parallel_mode_val TENSOR_2D_COL = 4"
| "parallel_mode_val TENSOR_3D_INPUT = 5"
| "parallel_mode_val TENSOR_3D_WEIGHT = 6"
| "parallel_mode_val TENSOR_3D_OUTPUT = 7"
| "parallel_mode_val TENSOR_3D_INPUT_X_WEIGHT = 8"
| "parallel_mode_val TENSOR_3D_OUTPUT_X_WEIGHT = 9"
| "parallel_mode_val TENSOR_2P5D_ROW = 10"
| "parallel_mode_val TENSOR_2P5D_COL = 11"
| "parallel_mode_val TENSOR_2P5D_DEP = 12"

definition ne_tp_concat :: "int \<Rightarrow> int \<Rightarrow> ptr \<Rightarrow> parallel_mode \<Rightarrow> ptr neop" where
  "ne_tp_concat world_size rank a p_mode =
     sbind (any_grad [a]) (\<lambda>is_node.
     sbind (get_t a) (\<lambda>ta.
     sbind (case p_mode of
         TENSOR_1D_COL \<Rightarrow> ne_new_tensor (ty ta) (n_dims ta)
           [ne ta ! 0 * world_size, ne ta ! 1, ne ta ! 2, ne ta ! 3] NE_SIZE_CALC
       | TENSOR_1D_ROW \<Rightarrow> ne_new_tensor (ty ta) (n_dims ta)
           [ne ta ! 0, ne ta ! 1 * world_size, ne ta ! 2, ne ta ! 3] NE_SIZE_CALC
       | _ \<Rightarrow> fail NE_Assert) (\<lambda>result.
     sbind (param_tensor 3 [word_of_int world_size, word_of_int rank, parallel_mode_val p_mode]) (\<lambda>c.
       finish NE_OP_TP_CONCAT is_node (\<lambda>t. t\<lparr>src0 := a, src1 := NULL, opt := (opt t)[0 := c]\<rparr>) result))))"

definition ne_all_reduce :: "ptr \<Rightarrow> ptr neop" where
  "ne_all_reduce a =
     sbind (any_grad [a]) (\<lambda>is_node.
     sbind (ne_view_tensor a)
       (finish NE_OP_ALL_REDUCE is_node (\<lambda>t. t\<lparr>src0 := a, src1 := NULL\<rparr>)))"

text \<open>
  For row mode the result is a view of this rank's rows. For a type that is neither a float
  nor quantized the C variable \<^verbatim>\<open>result\<close> stays uninitialised and is then dereferenced.
\<close>

definition split_rows :: "int \<Rightarrow> int \<Rightarrow> ne_tensor \<Rightarrow> ptr neop" where
  "split_rows world_size rank ta =
     sbind (liftR (cdiv (ne ta ! 1) world_size)) (\<lambda>n1.
     let dims = [ne ta ! 0, n1, ne ta ! 2, ne ta ! 3];
         offset = ne ta ! 0 * n1 * ne ta ! 2 * ne ta ! 3 * rank;
         at = (\<lambda>bytes. to_size (int (data ta) + bytes))
     in if ty ta = NE_TYPE_F32 then
          ne_new_tensor_impl (ty ta) (n_dims ta) dims (at (offset * 4)) NE_SIZE_CALC
        else if ty ta = NE_TYPE_F16 then
          ne_new_tensor_impl (ty ta) (n_dims ta) dims (at (offset * 2)) NE_SIZE_CALC
        else if ne_is_quantized (ty ta) then
          sbind (liftR (udiv (wrap64 (to_size offset * NE_TYPE_SIZE (ty ta))) (NE_BLCK_SIZE (ty ta)))) (\<lambda>q_offset.
          ne_new_tensor_impl (ty ta) (n_dims ta) dims (at (int q_offset)) NE_SIZE_CALC)
        else fail Bad_Deref)"

definition ne_split :: "int \<Rightarrow> int \<Rightarrow> ptr \<Rightarrow> parallel_mode \<Rightarrow> bool \<Rightarrow> ptr neop" where
  "ne_split world_size rank a p_mode trans_flag =
     sbind (any_grad [a]) (\<lambda>is_node.
     sbind (get_t a) (\<lambda>ta.
     sbind (case p_mode of
         TENSOR_1D_COL \<Rightarrow>
           sbind (liftR (cdiv (ne ta ! 0) world_size)) (\<lambda>n0.
           ne_new_tensor (ty ta) (n_dims ta) [n0, ne ta ! 1, ne ta ! 2, ne ta ! 3] NE_SIZE_CALC)
       | TENSOR_1D_ROW \<Rightarrow> split_rows world_size rank ta
       | _ \<Rightarrow> fail NE_Assert) (\<lambda>result.
     sbind (param_tensor 4 [word_of_int world_size, word_of_int rank, bool32 trans_flag,
                            parallel_mode_val p_mode]) (\<lambda>c.
       finish NE_OP_SPLIT is_node (\<lambda>t. t\<lparr>src0 := a, src1 := NULL, opt := (opt t)[0 := c]\<rparr>) result))))"

section \<open>Binary operations\<close>

definition ne_sub_impl :: "ptr \<Rightarrow> ptr \<Rightarrow> bool \<Rightarrow> ptr neop" where
  "ne_sub_impl a b inplace =
     sbind (get_t a) (\<lambda>ta. sbind (get_t b) (\<lambda>tb.
     sseq (ne_assert (ne_are_same_shape ta tb))
    (sbind (node_unless inplace [a, b]) (\<lambda>is_node.
     sbind (view_or_dup inplace a)
       (finish NE_OP_SUB is_node (\<lambda>t. t\<lparr>src0 := a, src1 := b\<rparr>))))))"

definition ne_sub :: "ptr \<Rightarrow> ptr \<Rightarrow> ptr neop" where "ne_sub a b = ne_sub_impl a b False"
definition ne_sub_inplace :: "ptr \<Rightarrow> ptr \<Rightarrow> ptr neop" where "ne_sub_inplace a b = ne_sub_impl a b True"

definition ne_mul_impl :: "ptr \<Rightarrow> ptr \<Rightarrow> bool \<Rightarrow> ptr neop" where
  "ne_mul_impl a b inplace =
     sbind (get_t a) (\<lambda>ta. sbind (get_t b) (\<lambda>tb.
     sseq (ne_assertR (ne_can_repeat_rows tb ta))
    (sbind (node_unless inplace [a, b]) (\<lambda>is_node.
     sseq (if is_node then ne_assert (ne_are_same_shape ta tb) else ret ())
    (sseq (if inplace then ne_assert (\<not> is_node) else ret ())
    (sbind (view_or_dup inplace a)
       (finish NE_OP_MUL is_node (\<lambda>t. t\<lparr>src0 := a, src1 := b\<rparr>))))))))"

definition ne_mul :: "ptr \<Rightarrow> ptr \<Rightarrow> ptr neop" where "ne_mul a b = ne_mul_impl a b False"
definition ne_mul_inplace :: "ptr \<Rightarrow> ptr \<Rightarrow> ptr neop" where "ne_mul_inplace a b = ne_mul_impl a b True"

definition ne_div_impl :: "ptr \<Rightarrow> ptr \<Rightarrow> bool \<Rightarrow> ptr neop" where
  "ne_div_impl a b inplace =
     sbind (get_t a) (\<lambda>ta. sbind (get_t b) (\<lambda>tb.
     sseq (ne_assert (ne_are_same_shape ta tb))
    (sbind (node_unless inplace [a, b]) (\<lambda>is_node.
     sseq (if inplace then ne_assert (\<not> is_node) else ret ())
    (sbind (view_or_dup inplace a)
       (finish NE_OP_DIV is_node (\<lambda>t. t\<lparr>src0 := a, src1 := b\<rparr>)))))))"

definition ne_div :: "ptr \<Rightarrow> ptr \<Rightarrow> ptr neop" where "ne_div a b = ne_div_impl a b False"
definition ne_div_inplace :: "ptr \<Rightarrow> ptr \<Rightarrow> ptr neop" where "ne_div_inplace a b = ne_div_impl a b True"

section \<open>Unary operations\<close>

definition ne_sqr_impl :: "ptr \<Rightarrow> bool \<Rightarrow> ptr neop" where
  "ne_sqr_impl a inplace =
     sbind (node_unless inplace [a]) (\<lambda>is_node.
     sbind (view_or_dup inplace a)
       (finish NE_OP_SQR is_node (\<lambda>t. t\<lparr>src0 := a, src1 := NULL\<rparr>)))"

definition ne_sqr :: "ptr \<Rightarrow> ptr neop" where "ne_sqr a = ne_sqr_impl a False"
definition ne_sqr_inplace :: "ptr \<Rightarrow> ptr neop" where "ne_sqr_inplace a = ne_sqr_impl a True"

definition ne_sqrt_impl :: "ptr \<Rightarrow> bool \<Rightarrow> ptr neop" where
  "ne_sqrt_impl a inplace =
     sbind (node_unless inplace [a]) (\<lambda>is_node.
     sbind (view_or_dup inplace a)
       (finish NE_OP_SQRT is_node (\<lambda>t. t\<lparr>src0 := a, src1 := NULL\<rparr>)))"

definition ne_sqrt :: "ptr \<Rightarrow> ptr neop" where "ne_sqrt a = ne_sqrt_impl a False"
definition ne_sqrt_inplace :: "ptr \<Rightarrow> ptr neop" where "ne_sqrt_inplace a = ne_sqrt_impl a True"

definition ne_log_impl :: "ptr \<Rightarrow> bool \<Rightarrow> ptr neop" where
  "ne_log_impl a inplace =
     sbind (node_unless inplace [a]) (\<lambda>is_node.
     sbind (view_or_dup inplace a)
       (finish NE_OP_LOG is_node (\<lambda>t. t\<lparr>src0 := a, src1 := NULL\<rparr>)))"

definition ne_log :: "ptr \<Rightarrow> ptr neop" where "ne_log a = ne_log_impl a False"
definition ne_log_inplace :: "ptr \<Rightarrow> ptr neop" where "ne_log_inplace a = ne_log_impl a True"

section \<open>Reductions\<close>

definition ne_sum :: "ptr \<Rightarrow> ptr neop" where
  "ne_sum a =
     sbind (any_grad [a]) (\<lambda>is_node.
     sbind (get_t a) (\<lambda>ta.
     sbind (ne_new_tensor_1d (ty ta) 1 NE_SIZE_CALC)
       (finish NE_OP_SUM is_node (\<lambda>t. t\<lparr>src0 := a, src1 := NULL\<rparr>))))"

definition ne_sum_rows :: "ptr \<Rightarrow> ptr neop" where
  "ne_sum_rows a =
     sbind (any_grad [a]) (\<lambda>is_node.
     sbind (get_t a) (\<lambda>ta.
     if 4 < n_dims ta then fail Out_Of_Bounds
     else sbind (ne_new_tensor (ty ta) (n_dims ta)
                   (map (\<lambda>i. if 1 \<le> i \<and> i < n_dims ta then ne ta ! i else 1) [0..<4]) (tsize ta))
       (finish NE_OP_SUM_ROWS is_node (\<lambda>t. t\<lparr>src0 := a, src1 := NULL\<rparr>))))"

definition ne_mean :: "ptr \<Rightarrow> ptr neop" where
  "ne_mean a =
     sbind (any_grad [a]) (\<lambda>is_node.
     sseq (ne_assert (\<not> is_node))
    (sbind (get_t a) (\<lambda>ta.
     sbind (ne_new_tensor NE_TYPE_F32 (n_dims ta) [1, ne ta ! 1, ne ta ! 2, ne ta ! 3] NE_SIZE_CALC)
       (finish NE_OP_MEAN is_node (\<lambda>t. t\<lparr>src0 := a, src1 := NULL\<rparr>)))))"

text \<open>\<^verbatim>\<open>ne_repeat\<close> returns its argument when there is nothing to repeat and no gradient to keep.\<close>

definition ne_repeat :: "ptr \<Rightarrow> ptr \<Rightarrow> ptr neop" where
  "ne_repeat a b =
     sbind (get_t a) (\<lambda>ta. sbind (get_t b) (\<lambda>tb.
     sseq (ne_assertR (ne_can_repeat ta tb))
    (sbind (any_grad [a]) (\<lambda>is_node.
     if ne_are_same_shape ta tb \<and> \<not> is_node then ret a
     else sbind (ne_new_tensor (ty ta) (n_dims tb) (ne tb) NE_SIZE_CALC)
       (finish NE_OP_REPEAT is_node (\<lambda>t. t\<lparr>src0 := a, src1 := b\<rparr>))))))"

section \<open>Activations\<close>

definition ne_abs_impl :: "ptr \<Rightarrow> bool \<Rightarrow> ptr neop" where
  "ne_abs_impl a inplace =
     sbind (node_unless inplace [a]) (\<lambda>is_node.
     sbind (view_or_dup inplace a)
       (finish NE_OP_ABS is_node (\<lambda>t. t\<lparr>src0 := a, src1 := NULL\<rparr>)))"

definition ne_abs :: "ptr \<Rightarrow> ptr neop" where "ne_abs a = ne_abs_impl a False"
definition ne_abs_inplace :: "ptr \<Rightarrow> ptr neop" where "ne_abs_inplace a = ne_abs_impl a True"

definition ne_sgn_impl :: "ptr \<Rightarrow> bool \<Rightarrow> ptr neop" where
  "ne_sgn_impl a inplace =
     sbind (node_unless inplace [a]) (\<lambda>is_node.
     sbind (view_or_dup inplace a)
       (finish NE_OP_SGN is_node (\<lambda>t. t\<lparr>src0 := a, src1 := NULL\<rparr>)))"

definition ne_sgn :: "ptr \<Rightarrow> ptr neop" where "ne_sgn a = ne_sgn_impl a False"
definition ne_sgn_inplace :: "ptr \<Rightarrow> ptr neop" where "ne_sgn_inplace a = ne_sgn_impl a True"

definition ne_neg_impl :: "ptr \<Rightarrow> bool \<Rightarrow> ptr neop" where
  "ne_neg_impl a inplace =
     sbind (node_unless inplace [a]) (\<lambda>is_node.
     sbind (view_or_dup inplace a)
       (finish NE_OP_NEG is_node (\<lambda>t. t\<lparr>src0 := a, src1 := NULL\<rparr>)))"

definition ne_neg :: "ptr \<Rightarrow> ptr neop" where "ne_neg a = ne_neg_impl a False"
definition ne_neg_inplace :: "ptr \<Rightarrow> ptr neop" where "ne_neg_inplace a = ne_neg_impl a True"

definition ne_step_impl :: "ptr \<Rightarrow> bool \<Rightarrow> ptr neop" where
  "ne_step_impl a inplace =
     sbind (node_unless inplace [a]) (\<lambda>is_node.
     sbind (view_or_dup inplace a)
       (finish NE_OP_STEP is_node (\<lambda>t. t\<lparr>src0 := a, src1 := NULL\<rparr>)))"

definition ne_step :: "ptr \<Rightarrow> ptr neop" where "ne_step a = ne_step_impl a False"
definition ne_step_inplace :: "ptr \<Rightarrow> ptr neop" where "ne_step_inplace a = ne_step_impl a True"

definition ne_relu_impl :: "ptr \<Rightarrow> bool \<Rightarrow> ptr neop" where
  "ne_relu_impl a inplace =
     sbind (node_unless inplace [a]) (\<lambda>is_node.
     sbind (view_or_dup inplace a)
       (finish NE_OP_RELU is_node (\<lambda>t. t\<lparr>src0 := a, src1 := NULL\<rparr>)))"

definition ne_relu :: "ptr \<Rightarrow> ptr neop" where "ne_relu a = ne_relu_impl a False"
definition ne_relu_inplace :: "ptr \<Rightarrow> ptr neop" where "ne_relu_inplace a = ne_relu_impl a True"

definition ne_gelu_impl :: "ptr \<Rightarrow> bool \<Rightarrow> ptr neop" where
  "ne_gelu_impl a inplace =
     sbind (node_unless inplace [a]) (\<lambda>is_node.
     sbind (view_or_dup inplace a)
       (finish NE_OP_GELU is_node (\<lambda>t. t\<lparr>src0 := a, src1 := NULL\<rparr>)))"

definition ne_gelu :: "ptr \<Rightarrow> ptr neop" where "ne_gelu a = ne_gelu_impl a False"
definition ne_gelu_inplace :: "ptr \<Rightarrow> ptr neop" where "ne_gelu_inplace a = ne_gelu_impl a True"

definition ne_silu_impl :: "ptr \<Rightarrow> bool \<Rightarrow> ptr neop" where
  "ne_silu_impl a inplace =
     sbind (node_unless inplace [a]) (\<lambda>is_node.
     sbind (view_or_dup inplace a)
       (finish NE_OP_SILU is_node (\<lambda>t. t\<lparr>src0 := a, src1 := NULL\<rparr>)))"

definition ne_silu :: "ptr \<Rightarrow> ptr neop" where "ne_silu a = ne_silu_impl a False"
definition ne_silu_inplace :: "ptr \<Rightarrow> ptr neop" where "ne_silu_inplace a = ne_silu_impl a True"

definition ne_silu_back :: "ptr \<Rightarrow> ptr \<Rightarrow> ptr neop" where
  "ne_silu_back a b =
     sbind (any_grad [a, b]) (\<lambda>is_node.
     sbind (ne_dup_tensor a)
       (finish NE_OP_SILU_BACK is_node (\<lambda>t. t\<lparr>src0 := a, src1 := b\<rparr>)))"

section \<open>Normalisation\<close>

definition ne_norm_impl :: "ptr \<Rightarrow> bool \<Rightarrow> ptr neop" where
  "ne_norm_impl a inplace =
     sbind (node_unless inplace [a]) (\<lambda>is_node.
     sseq (ne_assert (\<not> is_node))
    (sbind (view_or_dup inplace a)
       (finish NE_OP_NORM is_node (\<lambda>t. t\<lparr>src0 := a, src1 := NULL\<rparr>))))"

definition ne_norm :: "ptr \<Rightarrow> ptr neop" where "ne_norm a = ne_norm_impl a False"
definition ne_norm_inplace :: "ptr \<Rightarrow> ptr neop" where "ne_norm_inplace a = ne_norm_impl a True"

text \<open>The epsilon is a float, kept as its bits in the first operation parameter.\<close>

definition ne_rms_norm_impl :: "ptr \<Rightarrow> bool \<Rightarrow> 32 word \<Rightarrow> ptr neop" where
  "ne_rms_norm_impl a inplace eps =
     sbind (node_unless inplace [a]) (\<lambda>is_node.
     sbind (view_or_dup inplace a) (\<lambda>result.
     sseq (ne_set_op_params result [eps])
       (finish NE_OP_RMS_NORM is_node (\<lambda>t. t\<lparr>src0 := a\<rparr>) result)))"

definition ne_rms_norm :: "ptr \<Rightarrow> 32 word \<Rightarrow> ptr neop" where
  "ne_rms_norm a eps = ne_rms_norm_impl a False eps"

definition ne_rms_norm_inplace :: "ptr \<Rightarrow> 32 word \<Rightarrow> ptr neop" where
  "ne_rms_norm_inplace a eps = ne_rms_norm_impl a True eps"

definition ne_rms_norm_back :: "ptr \<Rightarrow> ptr \<Rightarrow> ptr neop" where
  "ne_rms_norm_back a b =
     sbind (any_grad [a]) (\<lambda>is_node.
     sbind (ne_dup_tensor a)
       (finish NE_OP_RMS_NORM_BACK is_node (\<lambda>t. t\<lparr>src0 := a, src1 := b\<rparr>)))"

end
