(* ===== verification/NE_Ops_Mat.thy ===== *)
theory NE_Ops_Mat
  imports NE_Ops_Elem
begin

text \<open>
  The constructors of the matrix products and of the fused feed-forward blocks
  (\<^verbatim>\<open>ne_mul_mat\<close> to \<^verbatim>\<open>ne_ffn_gelu\<close> of \<^verbatim>\<open>core/ne_layers.c\<close>) and \<^verbatim>\<open>ne_scale\<close>.
\<close>

section \<open>Matrix products\<close>

definition ne_mul_mat :: "ptr \<Rightarrow> ptr \<Rightarrow> ptr neop" where
  "ne_mul_mat a b =
     sbind (get_t a) (\<lambda>ta. sbind (get_t b) (\<lambda>tb.
     sseq (ne_assertR (ne_can_mul_mat ta tb))
    (sseq (ne_assert (\<not> ne_is_transposed ta))
    (sbind (any_grad [a, b]) (\<lambda>is_node.
     sbind (ne_new_tensor NE_TYPE_F32 (max (n_dims ta) (n_dims tb))
              [ne ta ! 1, ne tb ! 1, ne tb ! 2, ne tb ! 3] NE_SIZE_CALC)
       (finish NE_OP_MUL_MAT is_node (\<lambda>t. t\<lparr>src0 := a, src1 := b\<rparr>)))))))"

definition ne_mul_mat_with_bias :: "ptr \<Rightarrow> ptr \<Rightarrow> ptr \<Rightarrow> ptr neop" where
  "ne_mul_mat_with_bias w b a =
     sbind (get_t w) (\<lambda>tw. sbind (get_t a) (\<lambda>ta.
     sseq (ne_assertR (ne_can_mul_mat tw ta))
    (sseq (ne_assert (\<not> ne_is_transposed tw))
    (sbind (any_grad [w, b, a]) (\<lambda>is_node.
     sbind (ne_new_tensor (ty ta) (min (n_dims tw) (n_dims ta))
              [ne tw ! 1, ne ta ! 1, ne tw ! 2, ne ta ! 3] NE_SIZE_CALC)
       (finish NE_OP_MUL_MAT_BIAS is_node
          (\<lambda>t. t\<lparr>src0 := w, src1 := a, opt := (opt t)[0 := b]\<rparr>)))))))"

definition ne_mul_qkv :: "ptr \<Rightarrow> ptr \<Rightarrow> ptr \<Rightarrow> ptr \<Rightarrow> ptr neop" where
  "ne_mul_qkv qw kw vw src =
     sbind (get_t qw) (\<lambda>tq. sbind (get_t kw) (\<lambda>tk. sbind (get_t vw) (\<lambda>tv. sbind (get_t src) (\<lambda>ts.
     sseq (ne_assertR (ne_can_mul_mat ts tq))
    (sseq (ne_assertR (ne_can_mul_mat ts tk))
    (sseq (ne_assertR (ne_can_mul_mat ts tv))
    (sseq (ne_assert (ne_are_same_shape tq tk))
    (sseq (ne_assert (ne_are_same_shape tq tv))
    (sseq (ne_assert (\<not> ne_is_transposed ts))
    (sbind (any_grad [src, qw, vw, kw]) (\<lambda>is_node.
     sbind (ne_new_tensor NE_TYPE_F32 (min (n_dims ts) (n_dims tq))
              [ne tq ! 1, ne ts ! 1, ne ts ! 2 * 3, ne ts ! 3] NE_SIZE_CALC)
       (finish NE_OP_MUL_QKV is_node
          (\<lambda>t. t\<lparr>src0 := src, src1 := qw, opt := (opt t)[0 := kw, 1 := vw]\<rparr>)))))))))))))"

section \<open>Feed-forward blocks\<close>

text \<open>The dimensions of a product of the weights \<open>w\<close> with \<open>src\<close>.\<close>

definition ffn_dims :: "ne_tensor \<Rightarrow> ne_tensor \<Rightarrow> int list" where
  "ffn_dims w s = [ne w ! 1, ne s ! 1, ne s ! 2, ne s ! 3]"

definition ne_ffn_silu :: "ptr \<Rightarrow> ptr \<Rightarrow> ptr \<Rightarrow> ptr \<Rightarrow> ptr neop" where
  "ne_ffn_silu w1 w2 w3 src =
     sbind (get_t w1) (\<lambda>t1. sbind (get_t w2) (\<lambda>t2. sbind (get_t w3) (\<lambda>t3.
     sseq (ne_assert (ne_are_same_shape t1 t3))
    (sseq (ne_assert (ne t2 ! 0 = ne t1 ! 1))
    (sbind (any_grad [src, w1, w2, w3]) (\<lambda>is_node.
     sbind (get_t src) (\<lambda>ts.
     sbind (ne_new_tensor NE_TYPE_F32 (n_dims ts) (ffn_dims t2 ts) NE_SIZE_CALC) (\<lambda>result.
     sbind (ne_new_tensor NE_TYPE_F32 (n_dims ts) (ffn_dims t1 ts) NE_SIZE_CALC) (\<lambda>tmp.
     sbind (ne_new_tensor NE_TYPE_F32 (n_dims ts) (ffn_dims t1 ts) NE_SIZE_CALC) (\<lambda>tmp1.
       finish NE_OP_MUL_FFN_SILU is_node
         (\<lambda>t. t\<lparr>src0 := src, src1 := w1, opt := (opt t)[0 := w2, 1 := w3, 2 := tmp, 3 := tmp1]\<rparr>)
         result))))))))))"

definition ne_ffn_add_gelu :: "ptr \<Rightarrow> ptr \<Rightarrow> ptr \<Rightarrow> ptr \<Rightarrow> ptr \<Rightarrow> ptr neop" where
  "ne_ffn_add_gelu w1 w2 b1 b2 src =
     sbind (get_t w1) (\<lambda>t1. sbind (get_t w2) (\<lambda>t2.
     sseq (ne_assert (ne t2 ! 0 = ne t1 ! 1))
    (sbind (any_grad [src, w1, w2, b1, b2]) (\<lambda>is_node.
     sbind (get_t src) (\<lambda>ts.
     sbind (ne_new_tensor NE_TYPE_F32 (n_dims ts) (ffn_dims t2 ts) NE_SIZE_CALC) (\<lambda>result.
     sbind (ne_new_tensor NE_TYPE_F32 (n_dims ts) (ffn_dims t1 ts) NE_SIZE_CALC) (\<lambda>tmp.
       finish NE_OP_MUL_FFN_ADD_GELU is_node
         (\<lambda>t. t\<lparr>src0 := src, src1 := w1, opt := (opt t)[0 := w2, 1 := b1, 2 := b2, 3 := tmp]\<rparr>)
         result)))))))"

definition ne_ffn_gelu :: "ptr \<Rightarrow> ptr \<Rightarrow> ptr \<Rightarrow> ptr neop" where
  "ne_ffn_gelu w1 w2 src =
     sbind (get_t w1) (\<lambda>t1. sbind (get_t w2) (\<lambda>t2.
     sseq (ne_assert (ne t2 ! 0 = ne t1 ! 1))
    (sbind (any_grad [src, w1, w2]) (\<lambda>is_node.
     sbind (get_t src) (\<lambda>ts.
     sbind (ne_new_tensor NE_TYPE_F32 (n_dims ts) (ffn_dims t2 ts) NE_SIZE_CALC) (\<lambda>result.
     sbind (ne_new_tensor NE_TYPE_F32 (n_dims ts) (ffn_dims t1 ts) NE_SIZE_CALC) (\<lambda>tmp.
       finish NE_OP_MUL_FFN_GELU is_node
         (\<lambda>t. t\<lparr>src0 := src, src1 := w1, opt := (opt t)[0 := w2, 1 := tmp]\<rparr>) result)))))))"

section \<open>Scaling\<close>

definition ne_scale_impl :: "ptr \<Rightarrow> ptr \<Rightarrow> bool \<Rightarrow> ptr neop" where
  "ne_scale_impl a b inplace =
     sbind (get_t a) (\<lambda>ta. sbind (get_t b) (\<lambda>tb.
     sseq (ne_assert (ne_is_scalar tb))
    (sseq (ne_assert (ne_is_padded_1d ta))
    (sbind (node_unless inplace [a, b]) (\<lambda>is_node.
     sbind (view_or_dup inplace a)
       (finish NE_OP_SCALE is_node (\<lambda>t. t\<lparr>src0 := a, src1 := b\<rparr>)))))))"

definition ne_scale :: "ptr \<Rightarrow> ptr \<Rightarrow> ptr neop" where "ne_scale a b = ne_scale_impl a b False"
definition ne_scale_inplace :: "ptr \<Rightarrow> ptr \<Rightarrow> ptr neop" where "ne_scale_inplace a b = ne_scale_impl a b True"

end
