(* ===== verification/NE_Ops_Shape.thy ===== *)
theory NE_Ops_Shape
  imports NE_Ops_Mat
begin

text \<open>
  The constructors that move or reinterpret data: \<^verbatim>\<open>ne_set\<close>, \<^verbatim>\<open>ne_cpy\<close>, \<^verbatim>\<open>ne_cont\<close>,
  \<^verbatim>\<open>ne_reshape\<close>, the views, \<^verbatim>\<open>ne_permute\<close>, \<^verbatim>\<open>ne_transpose\<close>, \<^verbatim>\<open>ne_get_rows\<close> and \<^verbatim>\<open>ne_diag\<close>.
\<close>

section \<open>Writing into a part of a tensor\<close>

definition ne_set_impl :: "ptr \<Rightarrow> ptr \<Rightarrow> nat \<Rightarrow> nat \<Rightarrow> nat \<Rightarrow> nat \<Rightarrow> bool \<Rightarrow> ptr neop" where
  "ne_set_impl a b nb1 nb2 nb3 offset inplace =
     sbind (get_t a) (\<lambda>ta. sbind (get_t b) (\<lambda>tb.
     sseq (ne_assert (ne_nelements ta \<ge> ne_nelements tb))
    (sbind (node_unless inplace [a, b]) (\<lambda>is_node.
     sbind (view_or_dup inplace a) (\<lambda>result.
     sbind (param_tensor 5 (view_params nb1 nb2 nb3 offset inplace)) (\<lambda>c.
       finish NE_OP_SET is_node (\<lambda>t. t\<lparr>src0 := a, src1 := b, opt := (opt t)[0 := c]\<rparr>) result))))))"

definition ne_set :: "ptr \<Rightarrow> ptr \<Rightarrow> nat \<Rightarrow> nat \<Rightarrow> nat \<Rightarrow> nat \<Rightarrow> ptr neop" where
  "ne_set a b nb1 nb2 nb3 offset = ne_set_impl a b nb1 nb2 nb3 offset False"

definition ne_set_inplace :: "ptr \<Rightarrow> ptr \<Rightarrow> nat \<Rightarrow> nat \<Rightarrow> nat \<Rightarrow> nat \<Rightarrow> ptr neop" where
  "ne_set_inplace a b nb1 nb2 nb3 offset = ne_set_impl a b nb1 nb2 nb3 offset True"

definition ne_set_1d :: "ptr \<Rightarrow> ptr \<Rightarrow> nat \<Rightarrow> ptr neop" where
  "ne_set_1d a b offset =
     sbind (get_t a) (\<lambda>ta. ne_set_impl a b (nb ta ! 1) (nb ta ! 2) (nb ta ! 3) offset False)"

definition ne_set_1d_inplace :: "ptr \<Rightarrow> ptr \<Rightarrow> nat \<Rightarrow> ptr neop" where
  "ne_set_1d_inplace a b offset =
     sbind (get_t a) (\<lambda>ta. ne_set_impl a b (nb ta ! 1) (nb ta ! 2) (nb ta ! 3) offset True)"

definition ne_set_2d :: "ptr \<Rightarrow> ptr \<Rightarrow> nat \<Rightarrow> nat \<Rightarrow> ptr neop" where
  "ne_set_2d a b nb1 offset =
     sbind (get_t a) (\<lambda>ta. ne_set_impl a b nb1 (nb ta ! 2) (nb ta ! 3) offset False)"

text \<open>The code passes \<^verbatim>\<open>false\<close> here too.\<close>

definition ne_set_2d_inplace :: "ptr \<Rightarrow> ptr \<Rightarrow> nat \<Rightarrow> nat \<Rightarrow> ptr neop" where
  "ne_set_2d_inplace a b nb1 offset =
     sbind (get_t a) (\<lambda>ta. ne_set_impl a b nb1 (nb ta ! 2) (nb ta ! 3) offset False)"

section \<open>Copies\<close>

definition ne_cpy_impl :: "ptr \<Rightarrow> ptr \<Rightarrow> bool \<Rightarrow> ptr neop" where
  "ne_cpy_impl a b inplace =
     sbind (get_t a) (\<lambda>ta. sbind (get_t b) (\<lambda>tb.
     sseq (ne_assert (ne_nelements ta = ne_nelements tb))
    (sbind (node_unless inplace [a, b]) (\<lambda>is_node.
     sbind (ne_view_tensor b)
       (finish NE_OP_CPY is_node (\<lambda>t. t\<lparr>src0 := a, src1 := b\<rparr>))))))"

definition ne_cpy :: "ptr \<Rightarrow> ptr \<Rightarrow> ptr neop" where "ne_cpy a b = ne_cpy_impl a b False"
definition ne_cpy_inplace :: "ptr \<Rightarrow> ptr \<Rightarrow> ptr neop" where "ne_cpy_inplace a b = ne_cpy_impl a b True"

definition ne_cont_impl :: "ptr \<Rightarrow> bool \<Rightarrow> ptr neop" where
  "ne_cont_impl a inplace =
     sbind (node_unless inplace [a]) (\<lambda>is_node.
     sbind (view_or_dup inplace a)
       (finish NE_OP_CONT is_node (\<lambda>t. t\<lparr>src0 := a, src1 := NULL\<rparr>)))"

definition ne_cont :: "ptr \<Rightarrow> ptr neop" where "ne_cont a = ne_cont_impl a False"
definition ne_cont_inplace :: "ptr \<Rightarrow> ptr neop" where "ne_cont_inplace a = ne_cont_impl a True"

section \<open>Reshaping\<close>

definition ne_reshape :: "ptr \<Rightarrow> ptr \<Rightarrow> ptr neop" where
  "ne_reshape a b =
     sbind (get_t a) (\<lambda>ta. sbind (get_t b) (\<lambda>tb.
     sseq (ne_assertR (ne_is_contiguous ta))
    (sseq (ne_assertR (ne_is_contiguous tb))
    (sseq (ne_assert (ne_nelements ta = ne_nelements tb))
    (sbind (any_grad [a]) (\<lambda>is_node.
     sbind (ne_new_tensor_impl (ty ta) (n_dims tb) (ne tb) (data ta) NE_SIZE_CALC)
       (finish NE_OP_RESHAPE is_node (\<lambda>t. t\<lparr>src0 := a, src1 := NULL\<rparr>))))))))"

definition ne_reshape_1d :: "ptr \<Rightarrow> int \<Rightarrow> ptr neop" where
  "ne_reshape_1d a ne0 =
     sbind (get_t a) (\<lambda>ta.
     sseq (ne_assertR (ne_is_contiguous ta))
    (sseq (ne_assert (ne_nelements ta = ne0))
    (sbind (any_grad [a]) (\<lambda>is_node.
     sbind (ne_new_tensor_impl (ty ta) 1 [ne0] (data ta) NE_SIZE_CALC)
       (finish NE_OP_RESHAPE is_node (\<lambda>t. t\<lparr>src0 := a, src1 := NULL\<rparr>))))))"

definition ne_reshape_2d :: "ptr \<Rightarrow> int \<Rightarrow> int \<Rightarrow> ptr neop" where
  "ne_reshape_2d a ne0 ne1 =
     sbind (get_t a) (\<lambda>ta.
     sseq (ne_assertR (ne_is_contiguous ta))
    (sseq (ne_assert (ne_nelements ta = to_int64 (ne0 * ne1)))
    (sbind (any_grad [a]) (\<lambda>is_node.
     sbind (ne_new_tensor_impl (ty ta) 2 [ne0, ne1] (data ta) NE_SIZE_CALC)
       (finish NE_OP_RESHAPE is_node (\<lambda>t. t\<lparr>src0 := a, src1 := NULL\<rparr>))))))"

definition ne_reshape_3d :: "ptr \<Rightarrow> int \<Rightarrow> int \<Rightarrow> int \<Rightarrow> ptr neop" where
  "ne_reshape_3d a ne0 ne1 ne2 =
     sbind (get_t a) (\<lambda>ta.
     sseq (ne_assertR (ne_is_contiguous ta))
    (sseq (ne_assert (ne_nelements ta = to_int64 (ne0 * ne1 * ne2)))
    (sbind (any_grad [a]) (\<lambda>is_node.
     sbind (ne_new_tensor_impl (ty ta) 3 [ne0, ne1, ne2] (data ta) NE_SIZE_CALC)
       (finish NE_OP_RESHAPE is_node (\<lambda>t. t\<lparr>src0 := a, src1 := NULL\<rparr>))))))"

definition ne_reshape_4d :: "ptr \<Rightarrow> int \<Rightarrow> int \<Rightarrow> int \<Rightarrow> int \<Rightarrow> ptr neop" where
  "ne_reshape_4d a ne0 ne1 ne2 ne3 =
     sbind (get_t a) (\<lambda>ta.
     sseq (ne_assertR (ne_is_contiguous ta))
    (sseq (ne_assert (ne_nelements ta = to_int64 (ne0 * ne1 * ne2 * ne3)))
    (sbind (any_grad [a]) (\<lambda>is_node.
     sbind (ne_new_tensor_impl (ty ta) 4 [ne0, ne1, ne2, ne3] (data ta) NE_SIZE_CALC)
       (finish NE_OP_RESHAPE is_node (\<lambda>t. t\<lparr>src0 := a, src1 := NULL\<rparr>))))))"

section \<open>Views\<close>

text \<open>
  \<^verbatim>\<open>memcpy(result->padding, &offset, sizeof(offset))\<close>, done only for a node: the backward
  pass reads the offset from there.
\<close>

definition view_operands :: "bool \<Rightarrow> ptr \<Rightarrow> nat \<Rightarrow> ne_tensor \<Rightarrow> ne_tensor" where
  "view_operands is_node a offset t =
     t\<lparr>src0 := a, src1 := NULL, padding := (if is_node then le_bytes 8 offset else padding t)\<rparr>"

definition ne_view_1d :: "ptr \<Rightarrow> int \<Rightarrow> nat \<Rightarrow> ptr neop" where
  "ne_view_1d a ne0 offset =
     sbind (any_grad [a]) (\<lambda>is_node.
     sbind (get_t a) (\<lambda>ta.
     sbind (ne_new_tensor_impl (ty ta) 1 [ne0] (wrap64 (data ta + offset)) NE_SIZE_CALC)
       (finish NE_OP_VIEW is_node (view_operands is_node a offset))))"

definition ne_view_2d :: "ptr \<Rightarrow> int \<Rightarrow> int \<Rightarrow> nat \<Rightarrow> nat \<Rightarrow> ptr neop" where
  "ne_view_2d a ne0 ne1 nb1 offset =
     sbind (any_grad [a]) (\<lambda>is_node.
     sbind (get_t a) (\<lambda>ta.
     sbind (ne_new_tensor_impl (ty ta) 2 [ne0, ne1, 1, 1] (wrap64 (data ta + offset)) NE_SIZE_CALC) (\<lambda>result.
     sseq (upd_t result (\<lambda>t. t\<lparr>nb := [nb t ! 0, nb1, wrap64 (nb1 * to_size ne1), wrap64 (nb1 * to_size ne1)]\<rparr>))
       (finish NE_OP_VIEW is_node (view_operands is_node a offset) result))))"

definition ne_view_3d :: "ptr \<Rightarrow> int \<Rightarrow> int \<Rightarrow> int \<Rightarrow> nat \<Rightarrow> nat \<Rightarrow> nat \<Rightarrow> ptr neop" where
  "ne_view_3d a ne0 ne1 ne2 nb1 nb2 offset =
     sbind (any_grad [a]) (\<lambda>is_node.
     sbind (get_t a) (\<lambda>ta.
     sbind (ne_new_tensor_impl (ty ta) 3 [ne0, ne1, ne2, 1] (wrap64 (data ta + offset)) NE_SIZE_CALC) (\<lambda>result.
     sseq (upd_t result (\<lambda>t. t\<lparr>nb := [nb t ! 0, nb1, nb2, wrap64 (nb2 * to_size ne2)]\<rparr>))
       (finish NE_OP_VIEW is_node (view_operands is_node a offset) result))))"

definition ne_view_4d :: "ptr \<Rightarrow> int \<Rightarrow> int \<Rightarrow> int \<Rightarrow> int \<Rightarrow> nat \<Rightarrow> nat \<Rightarrow> nat \<Rightarrow> nat \<Rightarrow> ptr neop" where
  "ne_view_4d a ne0 ne1 ne2 ne3 nb1 nb2 nb3 offset =
     sbind (any_grad [a]) (\<lambda>is_node.
     sbind (get_t a) (\<lambda>ta.
     sbind (ne_new_tensor_impl (ty ta) 4 [ne0, ne1, ne2, ne3] (wrap64 (data ta + offset)) NE_SIZE_CALC) (\<lambda>result.
     sseq (upd_t result (\<lambda>t. t\<lparr>nb := [nb t ! 0, nb1, nb2, nb3]\<rparr>))
       (finish NE_OP_VIEW is_node (view_operands is_node a offset) result))))"

section \<open>Permutations\<close>

text \<open>
  \<^verbatim>\<open>x[axis0] = y[0]; ...; x[axis3] = y[3]\<close> for four distinct axes.
\<close>

definition scatter4 :: "nat \<Rightarrow> nat \<Rightarrow> nat \<Rightarrow> nat \<Rightarrow> 'a list \<Rightarrow> 'a list" where
  "scatter4 ax0 ax1 ax2 ax3 y =
     (replicate 4 (y ! 0))[ax0 := y ! 0, ax1 := y ! 1, ax2 := y ! 2, ax3 := y ! 3]"

text \<open>
  The dimensions and the strides pass through local arrays of \<^verbatim>\<open>int\<close>, so both are truncated
  to 32 bits; a stride is then sign-extended to \<^verbatim>\<open>size_t\<close>.
\<close>

definition ne_permute :: "ptr \<Rightarrow> int \<Rightarrow> int \<Rightarrow> int \<Rightarrow> int \<Rightarrow> ptr neop" where
  "ne_permute a axis0 axis1 axis2 axis3 =
     sseq (ne_assert (axis0 \<ge> 0 \<and> axis0 < 4))
    (sseq (ne_assert (axis1 \<ge> 0 \<and> axis1 < 4))
    (sseq (ne_assert (axis2 \<ge> 0 \<and> axis2 < 4))
    (sseq (ne_assert (axis3 \<ge> 0 \<and> axis3 < 4))
    (sseq (ne_assert (axis0 \<noteq> axis1))
    (sseq (ne_assert (axis0 \<noteq> axis2))
    (sseq (ne_assert (axis0 \<noteq> axis3))
    (sseq (ne_assert (axis1 \<noteq> axis2))
    (sseq (ne_assert (axis1 \<noteq> axis3))
    (sseq (ne_assert (axis2 \<noteq> axis3))
    (sbind (any_grad [a]) (\<lambda>is_node.
     sbind (ne_view_tensor a) (\<lambda>result.
     sbind (get_t a) (\<lambda>ta.
     let sc = scatter4 (nat axis0) (nat axis1) (nat axis2) (nat axis3) in
     sseq (upd_t result (\<lambda>t. t\<lparr>ne := sc (map to_int32 (ne ta)),
                               nb := map to_size (sc (map (\<lambda>b. to_int32 (int b)) (nb ta)))\<rparr>))
       (finish NE_OP_PERMUTE is_node
          (\<lambda>t. t\<lparr>src0 := a, src1 := NULL,
                 padding := (if is_node
                   then [word_of_int axis0, word_of_int axis1, word_of_int axis2, word_of_int axis3]
                        @ drop 4 (padding t)
                   else padding t)\<rparr>) result))))))))))))))"

definition ne_transpose :: "ptr \<Rightarrow> ptr neop" where
  "ne_transpose a =
     sbind (any_grad [a]) (\<lambda>is_node.
     sbind (ne_view_tensor a) (\<lambda>result.
     sbind (get_t a) (\<lambda>ta.
     sseq (upd_t result (\<lambda>t. t\<lparr>ne := (ne t)[0 := ne ta ! 1, 1 := ne ta ! 0],
                               nb := (nb t)[0 := nb ta ! 1, 1 := nb ta ! 0]\<rparr>))
       (finish NE_OP_TRANSPOSE is_node (\<lambda>t. t\<lparr>src0 := a, src1 := NULL\<rparr>) result))))"

section \<open>Rows and diagonals\<close>

definition ne_get_rows :: "ptr \<Rightarrow> ptr \<Rightarrow> ptr neop" where
  "ne_get_rows a b =
     sbind (get_t a) (\<lambda>ta. sbind (get_t b) (\<lambda>tb.
     sseq (ne_assert (ne_is_matrix ta \<and> ne_is_vector tb \<and> ty tb = NE_TYPE_I32))
    (sbind (any_grad [a, b]) (\<lambda>is_node.
     sbind (ne_new_tensor_2d NE_TYPE_F32 (ne ta ! 0) (ne tb ! 0) NE_SIZE_CALC)
       (finish NE_OP_GET_ROWS is_node (\<lambda>t. t\<lparr>src0 := a, src1 := b\<rparr>))))))"

definition ne_get_rows_back :: "ptr \<Rightarrow> ptr \<Rightarrow> ptr \<Rightarrow> ptr neop" where
  "ne_get_rows_back a b c =
     sbind (get_t a) (\<lambda>ta. sbind (get_t b) (\<lambda>tb.
     sseq (ne_assert (ne_is_matrix ta \<and> ne_is_vector tb \<and> ty tb = NE_TYPE_I32))
    (sbind (get_t c) (\<lambda>tc.
     sseq (ne_assert (ne_is_matrix tc \<and> ne ta ! 0 = ne tc ! 0))
    (sbind (any_grad [a, b]) (\<lambda>is_node.
     sbind (ne_new_tensor_2d NE_TYPE_F32 (ne tc ! 0) (ne tc ! 1) NE_SIZE_CALC)
       (finish NE_OP_GET_ROWS_BACK is_node
          (\<lambda>t. t\<lparr>src0 := a, src1 := b, opt := (opt t)[0 := c]\<rparr>))))))))"

definition ne_diag :: "ptr \<Rightarrow> ptr neop" where
  "ne_diag a =
     sbind (get_t a) (\<lambda>ta.
     sseq (ne_assert (ne ta ! 1 = 1))
    (sbind (any_grad [a]) (\<lambda>is_node.
     sbind (ne_new_tensor (ty ta) (max (n_dims ta) 2) [ne ta ! 0, ne ta ! 0, ne ta ! 2, ne ta ! 3] NE_SIZE_CALC)
       (finish NE_OP_DIAG is_node (\<lambda>t. t\<lparr>src0 := a, src1 := NULL\<rparr>)))))"

end
