(* ===== verification/NE_Ops_Attn.thy ===== *)
theory NE_Ops_Attn
  imports NE_Ops_Shape
begin

text \<open>
  The constructors of masks, soft-max, rotary embedding, ALiBi, clamping, convolution, fused
  attention and user-defined maps (\<^verbatim>\<open>ne_diag_mask_inf\<close> to \<^verbatim>\<open>ne_map_binary_inplace_f32\<close> of
  \<^verbatim>\<open>core/ne_layers.c\<close>) and \<^verbatim>\<open>ne_set_param\<close>. The workspace size of the fused attention kernel
  comes from the bestla library and is an argument of \<open>ne_flash_attn\<close>.
\<close>

section \<open>Masks\<close>

text \<open>
  An \<^verbatim>\<open>int* n_padding\<close> argument is null or an array with one entry per batch; the entries
  follow the fixed parameters, zero where there is no array.
\<close>

type_synonym paddings = "(nat \<Rightarrow> 32 word) option"

definition padding_entries :: "paddings \<Rightarrow> int \<Rightarrow> 32 word list" where
  "padding_entries n_padding bs =
     map (\<lambda>i. case n_padding of None \<Rightarrow> 0 | Some f \<Rightarrow> f i) [0..<nat bs]"

definition ne_diag_mask_inf_impl :: "ptr \<Rightarrow> int \<Rightarrow> bool \<Rightarrow> paddings \<Rightarrow> bool \<Rightarrow> ptr neop" where
  "ne_diag_mask_inf_impl a n_past inplace n_padding padding_left =
     sseq (ne_assert padding_left)
    (sbind (any_grad [a]) (\<lambda>is_node.
     sbind (view_or_dup inplace a) (\<lambda>result.
     sbind (get_t a) (\<lambda>ta.
     let bs = to_int32 (ne ta ! 3) in
     sbind (param_tensor (2 + bs)
              ([word_of_int n_past, bool32 inplace] @ padding_entries n_padding bs)) (\<lambda>b.
       finish NE_OP_DIAG_MASK_INF is_node (\<lambda>t. t\<lparr>src0 := a, src1 := b\<rparr>) result)))))"

definition ne_diag_mask_inf :: "ptr \<Rightarrow> int \<Rightarrow> ptr neop" where
  "ne_diag_mask_inf a n_past = ne_diag_mask_inf_impl a n_past False None True"

definition ne_diag_mask_inf_inplace :: "ptr \<Rightarrow> int \<Rightarrow> ptr neop" where
  "ne_diag_mask_inf_inplace a n_past = ne_diag_mask_inf_impl a n_past True None True"

definition ne_diag_mask_inf_with_padding :: "ptr \<Rightarrow> int \<Rightarrow> paddings \<Rightarrow> ptr neop" where
  "ne_diag_mask_inf_with_padding a n_past n_padding =
     ne_diag_mask_inf_impl a n_past False n_padding True"

definition ne_diag_mask_inf_with_padding_inplace :: "ptr \<Rightarrow> int \<Rightarrow> paddings \<Rightarrow> ptr neop" where
  "ne_diag_mask_inf_with_padding_inplace a n_past n_padding =
     ne_diag_mask_inf_impl a n_past True n_padding True"

text \<open>A parameter tensor that is also named, before its elements are set.\<close>

definition named_param_tensor :: "int \<Rightarrow> string \<Rightarrow> 32 word list \<Rightarrow> ptr neop" where
  "named_param_tensor n nm vs =
     sseq ne_scratch_save
    (sbind (ne_new_tensor_1d NE_TYPE_I32 n NE_SIZE_CALC) (\<lambda>b.
     sseq (ne_set_name b nm)
    (sbind (get_t b) (\<lambda>t.
     sseq (with_data t (mem_write (store32_list (data t) vs)))
    (sseq ne_scratch_load (ret b))))))"

definition ne_diag_mask_zero_impl :: "ptr \<Rightarrow> int \<Rightarrow> bool \<Rightarrow> ptr neop" where
  "ne_diag_mask_zero_impl a n_past inplace =
     sbind (any_grad [a]) (\<lambda>is_node.
     sbind (view_or_dup inplace a) (\<lambda>result.
     sbind (named_param_tensor 2 ''n_past, inplace'' [word_of_int n_past, bool32 inplace]) (\<lambda>b.
       finish NE_OP_DIAG_MASK_ZERO is_node (\<lambda>t. t\<lparr>src0 := a, src1 := b\<rparr>) result)))"

definition ne_diag_mask_zero :: "ptr \<Rightarrow> int \<Rightarrow> ptr neop" where
  "ne_diag_mask_zero a n_past = ne_diag_mask_zero_impl a n_past False"

definition ne_diag_mask_zero_inplace :: "ptr \<Rightarrow> int \<Rightarrow> ptr neop" where
  "ne_diag_mask_zero_inplace a n_past = ne_diag_mask_zero_impl a n_past True"

definition ne_padding_mask_inf_impl :: "ptr \<Rightarrow> int \<Rightarrow> paddings \<Rightarrow> bool \<Rightarrow> bool \<Rightarrow> ptr neop" where
  "ne_padding_mask_inf_impl a n_past n_padding padding_left inplace =
     sseq (ne_assert padding_left)
    (sbind (any_grad [a]) (\<lambda>is_node.
     sbind (view_or_dup inplace a) (\<lambda>result.
     sbind (get_t a) (\<lambda>ta.
     let bs = to_int32 (ne ta ! 3) in
     sbind (param_tensor (2 + bs)
              ([word_of_int n_past, bool32 inplace] @ padding_entries n_padding bs)) (\<lambda>b.
       finish NE_OP_PADDING_MASK_INF is_node (\<lambda>t. t\<lparr>src0 := a, src1 := b\<rparr>) result)))))"

definition ne_padding_left_mask_inf :: "ptr \<Rightarrow> paddings \<Rightarrow> ptr neop" where
  "ne_padding_left_mask_inf a n_padding = ne_padding_mask_inf_impl a 0 n_padding True False"

definition ne_padding_left_mask_inf_inplace :: "ptr \<Rightarrow> paddings \<Rightarrow> ptr neop" where
  "ne_padding_left_mask_inf_inplace a n_padding = ne_padding_mask_inf_impl a 0 n_padding True True"

section \<open>Soft-max\<close>

text \<open>Here a gradient is kept for the in-place variant as well.\<close>

definition ne_soft_max_impl :: "ptr \<Rightarrow> bool \<Rightarrow> ptr neop" where
  "ne_soft_max_impl a inplace =
     sbind (any_grad [a]) (\<lambda>is_node.
     sbind (view_or_dup inplace a)
       (finish NE_OP_SOFT_MAX is_node (\<lambda>t. t\<lparr>src0 := a, src1 := NULL\<rparr>)))"

definition ne_soft_max :: "ptr \<Rightarrow> ptr neop" where "ne_soft_max a = ne_soft_max_impl a False"
definition ne_soft_max_inplace :: "ptr \<Rightarrow> ptr neop" where "ne_soft_max_inplace a = ne_soft_max_impl a True"

section \<open>Rotary embedding\<close>

definition ne_rope_impl ::
  "ptr \<Rightarrow> int \<Rightarrow> int \<Rightarrow> int \<Rightarrow> int \<Rightarrow> bool \<Rightarrow> int \<Rightarrow> ptr \<Rightarrow> paddings \<Rightarrow> bool \<Rightarrow> 32 word \<Rightarrow> 32 word \<Rightarrow> ptr neop"
where
  "ne_rope_impl a n_past nd mode prompt_size inplace n_keep cossin n_padding padding_left freq_base freq_scale =
     sseq (ne_assert (n_past \<ge> 0 \<or> n_keep \<ge> 0))
    (sseq (ne_assert padding_left)
    (sbind (node_unless inplace [a]) (\<lambda>is_node.
     sbind (view_or_dup inplace a) (\<lambda>result.
     sbind (get_t a) (\<lambda>ta.
     let bs = to_int32 (ne ta ! 3) in
     sbind (param_tensor (5 + bs)
              ([word_of_int n_past, word_of_int nd, word_of_int mode, word_of_int prompt_size,
                word_of_int n_keep] @ padding_entries n_padding bs)) (\<lambda>b.
     sseq (ne_set_op_params result [freq_base, freq_scale])
       (finish NE_OP_ROPE is_node
          (\<lambda>t. t\<lparr>src0 := a, src1 := b, opt := (opt t)[0 := cossin]\<rparr>) result)))))))"

definition ne_rope :: "ptr \<Rightarrow> int \<Rightarrow> int \<Rightarrow> int \<Rightarrow> int \<Rightarrow> 32 word \<Rightarrow> 32 word \<Rightarrow> ptr neop" where
  "ne_rope a n_past nd mode prompt_size freq_base freq_scale =
     ne_rope_impl a n_past nd mode prompt_size False (-1) NULL None True freq_base freq_scale"

definition ne_rope_inplace :: "ptr \<Rightarrow> int \<Rightarrow> int \<Rightarrow> int \<Rightarrow> int \<Rightarrow> 32 word \<Rightarrow> 32 word \<Rightarrow> ptr neop" where
  "ne_rope_inplace a n_past nd mode prompt_size freq_base freq_scale =
     ne_rope_impl a n_past nd mode prompt_size True (-1) NULL None True freq_base freq_scale"

definition ne_rope_shift_inplace ::
  "ptr \<Rightarrow> int \<Rightarrow> int \<Rightarrow> int \<Rightarrow> int \<Rightarrow> int \<Rightarrow> ptr \<Rightarrow> 32 word \<Rightarrow> 32 word \<Rightarrow> ptr neop" where
  "ne_rope_shift_inplace a n_shift nd mode prompt_size n_keep cossin freq_base freq_scale =
     ne_rope_impl a n_shift nd mode prompt_size True n_keep cossin None True freq_base freq_scale"

definition ne_rope_back :: "ptr \<Rightarrow> int \<Rightarrow> int \<Rightarrow> int \<Rightarrow> ptr neop" where
  "ne_rope_back a n_past nd mode =
     sseq (ne_assert (n_past \<ge> 0))
    (sbind (any_grad [a]) (\<lambda>is_node.
     sseq (ne_assert (\<not> is_node))
    (sbind (ne_dup_tensor a) (\<lambda>result.
     sbind (named_param_tensor 3 ''n_past, n_dims, mode''
              [word_of_int n_past, word_of_int nd, word_of_int mode]) (\<lambda>b.
       finish NE_OP_ROPE_BACK is_node (\<lambda>t. t\<lparr>src0 := a, src1 := b\<rparr>) result)))))"

definition ne_rope_with_padding ::
  "ptr \<Rightarrow> int \<Rightarrow> int \<Rightarrow> int \<Rightarrow> int \<Rightarrow> paddings \<Rightarrow> 32 word \<Rightarrow> 32 word \<Rightarrow> ptr neop" where
  "ne_rope_with_padding a n_past nd mode prompt_size n_padding freq_base freq_scale =
     ne_rope_impl a n_past nd mode prompt_size False (-1) NULL n_padding True freq_base freq_scale"

definition ne_rope_with_padding_inplace ::
  "ptr \<Rightarrow> int \<Rightarrow> int \<Rightarrow> int \<Rightarrow> int \<Rightarrow> paddings \<Rightarrow> 32 word \<Rightarrow> 32 word \<Rightarrow> ptr neop" where
  "ne_rope_with_padding_inplace a n_past nd mode prompt_size n_padding freq_base freq_scale =
     ne_rope_impl a n_past nd mode prompt_size True (-1) NULL n_padding True freq_base freq_scale"

section \<open>ALiBi and clamping\<close>

definition ne_alibi :: "ptr \<Rightarrow> int \<Rightarrow> int \<Rightarrow> 32 word \<Rightarrow> ptr neop" where
  "ne_alibi a n_past n_head bias_max =
     sseq (ne_assert (n_past \<ge> 0))
    (sbind (any_grad [a]) (\<lambda>is_node.
     sseq (ne_assert (\<not> is_node))
    (sbind (ne_view_tensor a) (\<lambda>result.
     sbind (param_tensor 3 [word_of_int n_past, word_of_int n_head, bias_max]) (\<lambda>b.
       finish NE_OP_ALIBI is_node (\<lambda>t. t\<lparr>src0 := a, src1 := b\<rparr>) result)))))"

text \<open>Three elements are allocated and two are set.\<close>

definition ne_clamp :: "ptr \<Rightarrow> 32 word \<Rightarrow> 32 word \<Rightarrow> ptr neop" where
  "ne_clamp a vmin vmax =
     sbind (any_grad [a]) (\<lambda>is_node.
     sseq (ne_assert (\<not> is_node))
    (sbind (ne_view_tensor a) (\<lambda>result.
     sbind (param_tensor 3 [vmin, vmax]) (\<lambda>b.
       finish NE_OP_CLAMP is_node (\<lambda>t. t\<lparr>src0 := a, src1 := b\<rparr>) result))))"

section \<open>Convolution\<close>

definition ne_conv_1d_1s :: "ptr \<Rightarrow> ptr \<Rightarrow> ptr neop" where
  "ne_conv_1d_1s a b =
     sbind (get_t b) (\<lambda>tb.
     sseq (ne_assert (ne_is_matrix tb))
    (sbind (get_t a) (\<lambda>ta.
     sseq (ne_assert (ne ta ! 1 = ne tb ! 1))
    (sseq (ne_assert (ne ta ! 3 = 1))
    (sbind (any_grad [a, b]) (\<lambda>is_node.
     sseq (ne_assert (\<not> is_node))
    (sbind (ne_new_tensor NE_TYPE_F32 2 [ne tb ! 0, ne ta ! 2, 1, 1] NE_SIZE_CALC)
       (finish NE_OP_CONV_1D_1S is_node (\<lambda>t. t\<lparr>src0 := a, src1 := b\<rparr>))))))))) "

definition ne_conv_1d_2s :: "ptr \<Rightarrow> ptr \<Rightarrow> ptr neop" where
  "ne_conv_1d_2s a b =
     sbind (get_t b) (\<lambda>tb.
     sseq (ne_assert (ne_is_matrix tb))
    (sbind (get_t a) (\<lambda>ta.
     sseq (ne_assert (ne ta ! 1 = ne tb ! 1))
    (sseq (ne_assert (ne ta ! 3 = 1))
    (sbind (any_grad [a, b]) (\<lambda>is_node.
     sseq (ne_assert (\<not> is_node))
    (sbind (liftR (cdiv (ne tb ! 0) 2)) (\<lambda>n0.
     sbind (ne_new_tensor NE_TYPE_F32 2 [n0, ne ta ! 2, 1, 1] NE_SIZE_CALC)
       (finish NE_OP_CONV_1D_2S is_node (\<lambda>t. t\<lparr>src0 := a, src1 := b\<rparr>)))))))))) "

definition ne_calc_conv_output_size :: "int \<Rightarrow> int \<Rightarrow> int \<Rightarrow> int \<Rightarrow> int \<Rightarrow> int res" where
  "ne_calc_conv_output_size ins ks s p d =
     rbind (cdiv (ins + 2 * p - d * (ks - 1) - 1) s) (\<lambda>q. Inr (q + 1))"

definition ne_conv_1d :: "ptr \<Rightarrow> ptr \<Rightarrow> int \<Rightarrow> int \<Rightarrow> int \<Rightarrow> ptr neop" where
  "ne_conv_1d a b s0 p0 d0 =
     sbind (get_t b) (\<lambda>tb.
     sseq (ne_assert (ne_is_matrix tb))
    (sbind (get_t a) (\<lambda>ta.
     sseq (ne_assert (ne ta ! 1 = ne tb ! 1))
    (sbind (any_grad [a, b]) (\<lambda>is_node.
     sseq (ne_assert (\<not> is_node))
    (sbind (liftR (ne_calc_conv_output_size (ne tb ! 0) (ne ta ! 0) s0 p0 d0)) (\<lambda>n0.
     sbind (ne_new_tensor NE_TYPE_F32 2 [n0, ne ta ! 2, 1, 1] NE_SIZE_CALC) (\<lambda>result.
     sseq (ne_set_op_params result [word_of_int s0, word_of_int p0, word_of_int d0])
       (finish NE_OP_CONV_1D is_node (\<lambda>t. t\<lparr>src0 := a, src1 := b\<rparr>) result))))))))) "

definition ne_conv_1d_ph :: "ptr \<Rightarrow> ptr \<Rightarrow> int \<Rightarrow> int \<Rightarrow> ptr neop" where
  "ne_conv_1d_ph a b s d =
     sbind (get_t a) (\<lambda>ta.
     sbind (liftR (cdiv (ne ta ! 0) 2)) (\<lambda>half. ne_conv_1d a b s (to_int32 half) d))"

section \<open>Fused attention\<close>

text \<open>The \<^verbatim>\<open>size_t\<close> result of the workspace query is passed as an \<^verbatim>\<open>int64_t\<close> dimension.\<close>

definition size_to_i64 :: "nat \<Rightarrow> int" where
  "size_to_i64 n = (if n < 2 ^ 63 then int n else int n - 2 ^ 64)"

text \<open>
  The shape checks. The head sizes, counts and lengths are first truncated to \<^verbatim>\<open>int\<close>.
\<close>

definition flash_attn_checks :: "ne_tensor \<Rightarrow> ne_tensor \<Rightarrow> ne_tensor \<Rightarrow> unit neop" where
  "flash_attn_checks tq tk tv =
     (let batch = to_int32 (ne tq ! 3); headnum = to_int32 (ne tq ! 2); heads_kv = to_int32 (ne tk ! 2);
          headsize = to_int32 (ne tq ! 0); seq_all = to_int32 (ne tk ! 1) in
      sseq (ne_assertR (ne_can_mul_mat tk tq))
     (sseq (ne_assertR (cmod0 headnum heads_kv))
     (sseq (ne_assert (headsize = ne tk ! 0))
     (sseq (ne_assert (headsize = ne tv ! 1))
     (sseq (ne_assert (seq_all = ne tv ! 0))
     (sseq (ne_assert (ne tk ! 2 = ne tv ! 2))
     (sseq (ne_assert (batch = ne tk ! 3))
           (ne_assert (batch = ne tv ! 3)))))))))"

text \<open>
  The struct of \<^verbatim>\<open>mha_dense.h\<close> has six fields; the initialiser in \<^verbatim>\<open>ne_flash_attn\<close> lists five
  values (batch, heads, head size, query length, key length), so C assigns them to the first
  five fields in order and sets the last, \<^verbatim>\<open>sl_kv\<close>, to zero.
\<close>

record attn_shape_t =
  batch_size :: int
  head_num :: int
  heads_kv :: int
  head_size :: int
  sl_q :: int
  sl_kv :: int

text \<open>The workspace query of \<^verbatim>\<open>mha_dense.cpp\<close>, for \<open>nthr\<close> threads.\<close>

definition padto :: "int \<Rightarrow> int \<Rightarrow> int res" where
  "padto a b = rbind (cdiv (a + b - 1) b) (\<lambda>k. Inr (k * b))"

definition bestla_fusion_attn_workspace_size :: "int \<Rightarrow> attn_shape_t \<Rightarrow> nat" where
  "bestla_fusion_attn_workspace_size nthr p =
     (case rbind (padto (sl_kv p) 48) (\<lambda>x. padto x 64) of
        Inl _ \<Rightarrow> 0
      | Inr x \<Rightarrow> wrap64 (wrap64 (wrap64 (to_size nthr * 4) * 16) * to_size x))"

definition ne_flash_attn ::
  "(attn_shape_t \<Rightarrow> nat) \<Rightarrow> ptr \<Rightarrow> ptr \<Rightarrow> ptr \<Rightarrow> 32 word \<Rightarrow> 32 word \<Rightarrow> ptr neop" where
  "ne_flash_attn attn_workspace_size q k v scale flags =
     sbind (get_t q) (\<lambda>tq. sbind (get_t k) (\<lambda>tk. sbind (get_t v) (\<lambda>tv.
     sseq (flash_attn_checks tq tk tv)
    (let batch = to_int32 (ne tq ! 3); headnum = to_int32 (ne tq ! 2);
         seq_cur = to_int32 (ne tq ! 1); headsize = to_int32 (ne tq ! 0); seq_all = to_int32 (ne tk ! 1);
         shape = \<lparr>batch_size = batch, head_num = headnum, heads_kv = headsize, head_size = seq_cur,
                  sl_q = seq_all, sl_kv = 0\<rparr> in
     sbind (ne_new_tensor_4d NE_TYPE_F32 headsize headnum seq_cur batch NE_SIZE_CALC) (\<lambda>result.
     sbind (ne_new_tensor_1d NE_TYPE_I8 (size_to_i64 (attn_workspace_size shape)) NE_SIZE_CALC) (\<lambda>tmp_t.
     sseq (upd_t result (\<lambda>t. t\<lparr>op := NE_OP_FLASH_ATTN, grad := NULL, src0 := q, src1 := k,
                               opt := (opt t)[0 := v, 1 := tmp_t],
                               padding := le_bytes 4 (unat scale) @ le_bytes 4 (unat flags)\<rparr>))
       (ret result)))))))"

definition ne_flash_attn_kv_update :: "ptr \<Rightarrow> ptr \<Rightarrow> int \<Rightarrow> bool \<Rightarrow> bool \<Rightarrow> ptr neop" where
  "ne_flash_attn_kv_update cache cur n_past no_zeroing is_v =
     sbind (any_grad [cache, cur]) (\<lambda>g.
     sseq (ne_assert (\<not> g))
    (sbind (ne_view_tensor cache) (\<lambda>result.
     sbind (param_tensor 3 [word_of_int n_past, bool32 is_v, bool32 no_zeroing]) (\<lambda>params.
     sseq (upd_t result (\<lambda>t. t\<lparr>op := NE_OP_FLASH_ATTN_KV_UPDATE, grad := NULL, src0 := cache,
                               src1 := cur, opt := (opt t)[0 := params]\<rparr>))
       (ret result)))))"

definition ne_flash_attn_update_k :: "ptr \<Rightarrow> ptr \<Rightarrow> int \<Rightarrow> bool \<Rightarrow> ptr neop" where
  "ne_flash_attn_update_k cache cur n_past no_zeroing =
     ne_flash_attn_kv_update cache cur n_past no_zeroing False"

definition ne_flash_attn_update_v :: "ptr \<Rightarrow> ptr \<Rightarrow> int \<Rightarrow> bool \<Rightarrow> ptr neop" where
  "ne_flash_attn_update_v cache cur n_past no_zeroing =
     ne_flash_attn_kv_update cache cur n_past no_zeroing True"

definition ne_flash_ff :: "ptr \<Rightarrow> ptr \<Rightarrow> ptr \<Rightarrow> ptr \<Rightarrow> ptr \<Rightarrow> ptr neop" where
  "ne_flash_ff a b0 b1 c0 c1 =
     sbind (get_t b0) (\<lambda>tb. sbind (get_t a) (\<lambda>ta.
     sseq (ne_assertR (ne_can_mul_mat tb ta))
    (sbind (any_grad [a, b0, b1, c0, c1]) (\<lambda>is_node.
     sseq (ne_assert (\<not> is_node))
    (sbind (ne_new_tensor NE_TYPE_F32 4 (ne ta) NE_SIZE_CALC)
       (finish NE_OP_FLASH_FF is_node
          (\<lambda>t. t\<lparr>src0 := a, src1 := b0, opt := (opt t)[0 := b1, 1 := c0, 2 := c1]\<rparr>)))))))"

section \<open>User-defined maps\<close>

text \<open>
  The address of the function goes, as eight bytes, into the data of a tensor of two 32-bit
  integers, which is allocated without saving the scratch buffer.
\<close>

definition addr_tensor :: "nat \<Rightarrow> ptr neop" where
  "addr_tensor f =
     sbind (ne_new_tensor_1d NE_TYPE_I32 2 NE_SIZE_CALC) (\<lambda>c.
     sbind (get_t c) (\<lambda>t.
     sseq (with_data t (mem_write (store32_list (data t) [word_of_nat f, word_of_nat (f div 2 ^ 32)])))
       (ret c)))"

definition ne_map_unary_impl_f32 :: "ptr \<Rightarrow> nat \<Rightarrow> bool \<Rightarrow> ptr neop" where
  "ne_map_unary_impl_f32 a f inplace =
     sbind (node_unless inplace [a]) (\<lambda>is_node.
     sbind (addr_tensor f) (\<lambda>c.
     sbind (view_or_dup inplace a)
       (finish NE_OP_MAP_UNARY is_node (\<lambda>t. t\<lparr>src0 := a, opt := (opt t)[0 := c]\<rparr>))))"

definition ne_map_unary_f32 :: "ptr \<Rightarrow> nat \<Rightarrow> ptr neop" where
  "ne_map_unary_f32 a f = ne_map_unary_impl_f32 a f False"

definition ne_map_unary_inplace_f32 :: "ptr \<Rightarrow> nat \<Rightarrow> ptr neop" where
  "ne_map_unary_inplace_f32 a f = ne_map_unary_impl_f32 a f True"

definition ne_map_binary_impl_f32 :: "ptr \<Rightarrow> ptr \<Rightarrow> nat \<Rightarrow> bool \<Rightarrow> ptr neop" where
  "ne_map_binary_impl_f32 a b f inplace =
     sbind (get_t a) (\<lambda>ta. sbind (get_t b) (\<lambda>tb.
     sseq (ne_assert (ne_are_same_shape ta tb))
    (sbind (node_unless inplace [a, b]) (\<lambda>is_node.
     sbind (addr_tensor f) (\<lambda>c.
     sbind (view_or_dup inplace a)
       (finish NE_OP_MAP_BINARY is_node (\<lambda>t. t\<lparr>src0 := a, src1 := b, opt := (opt t)[0 := c]\<rparr>)))))))"

definition ne_map_binary_f32 :: "ptr \<Rightarrow> ptr \<Rightarrow> nat \<Rightarrow> ptr neop" where
  "ne_map_binary_f32 a b f = ne_map_binary_impl_f32 a b f False"

definition ne_map_binary_inplace_f32 :: "ptr \<Rightarrow> ptr \<Rightarrow> nat \<Rightarrow> ptr neop" where
  "ne_map_binary_inplace_f32 a b f = ne_map_binary_impl_f32 a b f True"

section \<open>Trainable parameters\<close>

definition ne_set_param :: "ptr \<Rightarrow> unit neop" where
  "ne_set_param p =
     sseq (upd_t p (\<lambda>t. t\<lparr>is_param := True\<rparr>))
    (sbind (get_t p) (\<lambda>t.
     sseq (ne_assert (grad t = NULL))
    (sbind (ne_dup_tensor p) (\<lambda>g. upd_t p (\<lambda>t. t\<lparr>grad := g\<rparr>)))))"

end
