(* ===== verification/NE_Node.thy ===== *)
theory NE_Node
  imports NE_Ops_Attn
begin

text \<open>
  The contract of the graph-node constructors. A constructor only adds to the heap: tensors
  that exist keep their headers, memory that was in use keeps its bytes, and the pool stays
  well formed. The tensors it adds are leaves (gradients, parameters, temporaries) but for the
  result, whose operands are tensors that existed before or leaves it has just added. The
  rules below follow the statements of a constructor; the theorems on graphs rest on the
  consequence that operands never form a cycle.
\<close>

section \<open>Well-formed heaps\<close>

definition operands :: "ne_tensor \<Rightarrow> ptr set" where
  "operands t = ({src0 t, src1 t} \<union> set (opt t)) - {NULL}"

definition t_ok :: "ne_context \<Rightarrow> ne_tensor \<Rightarrow> bool" where
  "t_ok c t \<longleftrightarrow> tensor_wf t \<and> good_request c (ty t) (n_dims t) (ne t) NULL (tsize t)"

definition heap_ok :: "ne_state \<Rightarrow> bool" where
  "heap_ok s \<longleftrightarrow> pool_inv s \<and> mem_size (ctx s) < 2 ^ 61 \<and> tensors s NULL = None \<and>
     finite (dom (tensors s)) \<and> (\<forall>p t. tensors s p = Some t \<longrightarrow> t_ok (ctx s) t)"

text \<open>The bytes of the pool in use, as \<^verbatim>\<open>ne_used_mem\<close> reports them.\<close>

definition used_end :: "ne_state \<Rightarrow> nat" where
  "used_end s = (case ne_used_mem s of Inl _ \<Rightarrow> 0 | Inr (n, _) \<Rightarrow> n)"

definition grows :: "ne_state \<Rightarrow> ne_state \<Rightarrow> bool" where
  "grows s0 s \<longleftrightarrow> heap_ok s \<and> no_alloc (ctx s) = no_alloc (ctx s0) \<and>
     mem_buffer (ctx s) = mem_buffer (ctx s0) \<and> mem_size (ctx s) = mem_size (ctx s0) \<and>
     tensors s0 \<subseteq>\<^sub>m tensors s \<and> used_end s0 \<le> used_end s \<and>
     (\<forall>a. a < mem_buffer (ctx s0) + used_end s0 \<or> mem_buffer (ctx s0) + mem_size (ctx s0) \<le> a \<longrightarrow>
          mem s a = mem s0 a)"

text \<open>
  During a constructor that started in \<open>s0\<close>: every tensor added so far is a leaf, and each
  pointer in \<open>F\<close> is null or one of the added tensors.
\<close>

definition building :: "ne_state \<Rightarrow> ptr set \<Rightarrow> ne_state \<Rightarrow> bool" where
  "building s0 F s \<longleftrightarrow> grows s0 s \<and>
     (\<forall>p t. tensors s p = Some t \<longrightarrow> tensors s0 p = None \<longrightarrow> operands t = {}) \<and>
     (\<forall>p \<in> F. p = NULL \<or> tensors s0 p = None \<and> tensors s p \<noteq> None)"

text \<open>After the allocation of \<open>p\<close>, which is null or different from what was allocated before.\<close>

definition added :: "ne_state \<Rightarrow> ptr set \<Rightarrow> ptr \<Rightarrow> ne_state \<Rightarrow> bool" where
  "added s0 F p s \<longleftrightarrow> building s0 (insert p F) s \<and> (p = NULL \<or> p \<notin> F)"

text \<open>After a constructor with result \<open>r\<close>.\<close>

definition extends :: "ne_state \<Rightarrow> ptr \<Rightarrow> ne_state \<Rightarrow> bool" where
  "extends s0 r s \<longleftrightarrow> grows s0 s \<and> tensors s r \<noteq> None \<and>
     (\<forall>p t q. tensors s p = Some t \<longrightarrow> tensors s0 p = None \<longrightarrow> q \<in> operands t \<longrightarrow>
        p = r \<and> q \<noteq> r \<and> tensors s q \<noteq> None)"

section \<open>Contracts\<close>

definition trip :: "(ne_state \<Rightarrow> bool) \<Rightarrow> 'a neop \<Rightarrow> ('a \<Rightarrow> ne_state \<Rightarrow> bool) \<Rightarrow> bool" where
  "trip P m Q \<longleftrightarrow> (\<forall>s x s'. P s \<longrightarrow> m s = Inr (x, s') \<longrightarrow> Q x s')"

lemma tripD: "trip P m Q \<Longrightarrow> P s \<Longrightarrow> m s = Inr (x, s') \<Longrightarrow> Q x s'"
  by (auto simp: trip_def)

lemma tripI: "(\<And>s x s'. P s \<Longrightarrow> m s = Inr (x, s') \<Longrightarrow> Q x s') \<Longrightarrow> trip P m Q"
  by (auto simp: trip_def)

lemma trip_sbind: "trip P m R \<Longrightarrow> (\<And>x. trip (R x) (f x) Q) \<Longrightarrow> trip P (sbind m f) Q"
  by (auto simp: trip_def sbind_Inr_iff)

lemma trip_sseq: "trip P m (\<lambda>_. R) \<Longrightarrow> trip R k Q \<Longrightarrow> trip P (sseq m k) Q"
  by (auto simp: trip_def sseq_Inr_iff)

lemma trip_if: "(b \<Longrightarrow> trip P m Q) \<Longrightarrow> (\<not> b \<Longrightarrow> trip P k Q) \<Longrightarrow> trip P (if b then m else k) Q"
  by auto

lemma trip_ret: "(\<And>s. P s \<Longrightarrow> Q x s) \<Longrightarrow> trip P (ret x) Q"
  by (auto simp: trip_def)

lemma trip_fail: "trip P (fail e) Q"
  by (auto simp: trip_def)

lemma trip_assert: "(b \<Longrightarrow> trip P k Q) \<Longrightarrow> trip P (sseq (ne_assert b) k) Q"
  by (auto simp: trip_def sseq_Inr_iff ne_assert_Inr_iff)

lemma trip_assertR: "(r = Inr True \<Longrightarrow> trip P k Q) \<Longrightarrow> trip P (sseq (ne_assertR r) k) Q"
  by (auto simp: trip_def sseq_Inr_iff ne_assertR_Inr_iff)

lemma trip_liftR: "(\<And>x. r = Inr x \<Longrightarrow> trip P (f x) Q) \<Longrightarrow> trip P (sbind (liftR r) f) Q"
  by (auto simp: trip_def sbind_Inr_iff liftR_Inr_iff)

text \<open>Reading the header of a tensor that existed at the start gives its header then.\<close>

lemma building_old:
  "building s0 F s \<Longrightarrow> tensors s0 p = Some t \<Longrightarrow> tensors s p = Some t"
  by (auto simp: building_def grows_def map_le_def dom_def)

lemma trip_get:
  assumes "tensors s0 a = Some t" "trip (building s0 F) (f t) Q"
  shows "trip (building s0 F) (sbind (get_t a) f) Q"
  using assms building_old [of s0 F] by (auto simp: trip_def sbind_Inr_iff get_t_Inr_iff)

lemma any_grad_state: "any_grad ps s = Inr (b, s') \<Longrightarrow> s' = s"
  by (induction ps) (auto simp: heap_Inr_iffs split: if_splits)

declare any_grad.simps [simp del]

lemma trip_any_grad: "(\<And>b. trip P (f b) Q) \<Longrightarrow> trip P (sbind (any_grad ps) f) Q"
  unfolding trip_def sbind_Inr_iff using any_grad_state by blast

lemma trip_node_unless: "(\<And>b. trip P (f b) Q) \<Longrightarrow> trip P (sbind (node_unless inplace ps) f) Q"
  using trip_any_grad [of P f Q ps] by (auto simp: node_unless_def trip_def sbind_Inr_iff)

section \<open>Allocation\<close>

lemma used_end_pool: "pool_rel zs s \<Longrightarrow> used_end s = pool_end zs"
  using pool_cur_end_read [of zs s "if objects_end (ctx s) = NULL then ret 0 else
      sbind (get_obj (objects_end (ctx s))) (\<lambda>ob. ret (wrap64 (offs ob + osize ob)))"]
  by (simp add: used_end_def ne_used_mem_def)

lemma new_ne_length [simp]: "length (new_ne nd dims) = 4"
  by (simp add: new_ne_def)

lemma new_ne_nth: "i < 4 \<Longrightarrow> new_ne nd dims ! i = (if i < nd then dims ! i else 1)"
  by (simp add: new_ne_def)

lemma new_nb_length: "new_nb type nes = Inr nbs \<Longrightarrow> length nbs = 4"
  by (auto simp: new_nb_def rbind_Inr_iff Let_def split: if_splits)

lemma data_size_raw_new_ne:
  assumes "0 < nd" "nd \<le> 4"
  shows "data_size_raw type nd (new_ne nd dims) = data_size_raw type nd dims"
proof -
  have "fold (\<lambda>i acc. wrap64 (acc * to_size (new_ne nd dims ! i))) [1..<nd] z =
        fold (\<lambda>i acc. wrap64 (acc * to_size (dims ! i))) [1..<nd] z" for z
    using assms(2) by (intro fold_cong) (auto simp: new_ne_nth)
  then show ?thesis using assms by (simp add: data_size_raw_def new_ne_nth)
qed

lemma align_small:
  assumes "x < 2 ^ 61"
  shows "wrap64 (wrap64 (x + NE_MEM_ALIGN - 1) div NE_MEM_ALIGN * NE_MEM_ALIGN) < 2 ^ 62"
proof -
  have "(x + 63) div 64 * 64 \<le> x + 63" by simp
  with assms show ?thesis by (simp add: NE_MEM_ALIGN_def)
qed

text \<open>The header of a new tensor asks again for what it was given.\<close>

lemma good_request_new_ne:
  assumes "good_request c type nd dims NULL nbytes" "z < 2 ^ 62"
  shows "good_request c type nd (new_ne nd dims) NULL z"
proof (cases "type = NE_TYPE_BTLA \<or> no_alloc c")
  case True
  with assms show ?thesis by (auto simp: good_request_def request_size_def data_size_needed_def)
next
  case False
  have nd: "nd \<le> 4" "type \<noteq> NE_TYPE_COUNT" using assms(1) by (auto simp: good_request_def)
  show ?thesis
  proof (cases "nd = 0")
    case True
    have b: "NE_BLCK_SIZE type \<noteq> 0" using False nd(2) NE_BLCK_SIZE_zero_iff by auto
    have "data_size_raw type 0 (new_ne 0 dims) =
        Inr (wrap64 (NE_TYPE_SIZE type * to_size (1 div int (NE_BLCK_SIZE type))))"
      using b by (simp add: data_size_raw_def new_ne_nth cdiv_nonneg)
    moreover have "to_size (1 div int (NE_BLCK_SIZE type)) \<le> 1"
      using b by (cases "NE_BLCK_SIZE type = 1") (auto simp: to_size_def zdiv_eq_0_iff)
    then have "NE_TYPE_SIZE type * to_size (1 div int (NE_BLCK_SIZE type)) \<le> NE_TYPE_SIZE type * 1"
      by (rule mult_le_mono2)
    moreover have "NE_TYPE_SIZE type < 1000" by (cases type) (simp_all add: sizeof_block_defs)
    ultimately obtain x where "data_size_raw type 0 (new_ne 0 dims) = Inr x" "x < 1000"
      by fastforce
    then show ?thesis
      using True False nd align_small [of x]
      by (simp add: good_request_def request_size_def data_size_needed_def)
  next
    case False': False
    with assms nd show ?thesis
      by (simp add: good_request_def request_size_def data_size_needed_def data_size_raw_new_ne
          split: if_splits)
  qed
qed

text \<open>What \<^verbatim>\<open>ne_new_tensor_impl\<close> does to a well-formed heap.\<close>

definition allocated :: "ne_state \<Rightarrow> ptr \<Rightarrow> ne_tensor \<Rightarrow> ne_state \<Rightarrow> bool" where
  "allocated s p t s' \<longleftrightarrow> p \<noteq> NULL \<and> tensors s p = None \<and> tensors s' = (tensors s)(p \<mapsto> t) \<and>
     mem s' = mem s \<and> no_alloc (ctx s') = no_alloc (ctx s) \<and> mem_buffer (ctx s') = mem_buffer (ctx s) \<and>
     mem_size (ctx s') = mem_size (ctx s) \<and> used_end s \<le> used_end s' \<and> heap_ok s'"

lemma init_tensor_t_ok:
  assumes "good_request c type nd dims NULL nbytes" "z < 2 ^ 62" "new_nb type (new_ne nd dims) = Inr nbs"
  shows "t_ok c (init_tensor type nd (new_ne nd dims) nbs d z)"
  using good_request_new_ne [OF assms(1,2)] new_nb_length [OF assms(3)]
  by (simp add: t_ok_def tensor_wf_def init_tensor_def)

lemma t_ok_cong: "no_alloc c' = no_alloc c \<Longrightarrow> t_ok c' t = t_ok c t"
  by (simp add: t_ok_def good_request_def request_size_def)

lemma good_request_data:
  "good_request c type nd dims NULL nbytes \<Longrightarrow> good_request c type nd dims dat nbytes"
  by (auto simp: good_request_def request_size_def)

lemma placed_heap_ok:
  assumes ok: "heap_ok s" and rel: "pool_rel zs s" and sc: "scratch_ok (scratch c)"
    and c: "c = (ctx s)\<lparr>scratch := scratch c\<rparr>"
    and fits: "pool_end zs + NE_OBJECT_SIZE + z \<le> mem_size (ctx s)" "0 < z" and t: "t_ok (ctx s) t"
  defines "p \<equiv> mem_buffer (ctx s) + pool_end zs + NE_OBJECT_SIZE"
  defines "s' \<equiv> placed (mem_buffer (ctx s) + pool_end zs)
      \<lparr>offs = pool_end zs + NE_OBJECT_SIZE, osize = z, obj_next = NULL\<rparr>
      (objects_end (ctx s)) p t (s\<lparr>ctx := c\<rparr>)"
  shows "allocated s p t s'" "pool_rel (zs @ [z]) s'"
proof -
  have same: "mem_buffer c = mem_buffer (ctx s)" "mem_size c = mem_size (ctx s)"
    "objects_end c = objects_end (ctx s)" "no_alloc c = no_alloc (ctx s)"
    "scratch_save c = scratch_save (ctx s)"
    by (subst c; simp)+
  have rel1: "pool_rel zs (s\<lparr>ctx := c\<rparr>)"
    by (rule pool_rel_ctx_cong [OF rel]) (simp_all, (subst c; simp)+)
  show rel': "pool_rel (zs @ [z]) s'"
    using pool_rel_placed [OF rel1] fits unfolding s'_def p_def by (simp add: same)
  have "pool_inv s'"
    using rel' ok sc by (auto simp: pool_inv_def heap_ok_def s'_def same)
  moreover have fresh: "tensors s p = None" "p \<noteq> NULL"
    using pool_fresh [OF rel] fits pool_rel_bounds [OF rel] by (simp_all add: p_def pool_consts)
  moreover have "t_ok c u = t_ok (ctx s) u" for u by (rule t_ok_cong) (simp add: same)
  moreover have "t_ok (ctx s') u = t_ok c u" for u by (rule t_ok_cong) (simp add: s'_def)
  ultimately have "heap_ok s'"
    using ok t by (auto simp: heap_ok_def s'_def same)
  then show "allocated s p t s'"
    using fresh used_end_pool [OF rel] used_end_pool [OF rel']
    by (auto simp: allocated_def s'_def same)
qed

lemma new_tensor_allocated:
  assumes ok: "heap_ok s" and good: "good_request (ctx s) type nd dims NULL nbytes"
    and run: "ne_new_tensor_impl type nd dims dat nbytes s = Inr (p, s')"
  shows "p = NULL \<and> s' = s \<or>
    (\<exists>nbs d z. new_nb type (new_ne nd dims) = Inr nbs \<and> (dat \<noteq> NULL \<longrightarrow> d = dat) \<and>
       allocated s p (init_tensor type nd (new_ne nd dims) nbs d z) s')"
proof -
  obtain zs where rel: "pool_rel zs s" and sok: "scratch_ok (scratch (ctx s))"
    and small: "mem_size (ctx s) < 2 ^ 61"
    using ok by (auto simp: heap_ok_def pool_inv_def)
  from good_request_data [OF good, of dat] obtain n where
    n: "request_size (ctx s) type nd dims dat nbytes = Inr n" "n < 2 ^ 62"
    and nd: "nd \<le> 4" and "type \<noteq> NE_TYPE_COUNT" by (auto simp: good_request_def)
  then obtain nbs where nbs: "new_nb type (new_ne nd dims) = Inr nbs" using new_nb_ok by blast
  note tok = init_tensor_t_ok [OF good _ nbs]
  show ?thesis
  proof (cases "s_data (scratch (ctx s)) = NULL \<or> dat \<noteq> NULL")
    case True
    note eq = new_tensor_pool [OF rel True n nd nbs]
    show ?thesis
    proof (cases "p = NULL \<and> s' = s")
      case False
      with run eq have fits: "pool_end zs + NE_OBJECT_SIZE + (n + sizeof_ne_tensor) \<le> mem_size (ctx s)"
        by (auto split: if_splits)
      then have "n + sizeof_ne_tensor < 2 ^ 62" using small by simp
      note t = tok [OF this]
      let ?p = "mem_buffer (ctx s) + pool_end zs + NE_OBJECT_SIZE"
      define d where "d = (if dat = NULL \<and> \<not> no_alloc (ctx s) then ?p + sizeof_ne_tensor else dat)"
      have "0 < n + sizeof_ne_tensor" by (simp add: pool_consts)
      from placed_heap_ok(1) [OF ok rel sok _ fits this t, of d] run eq [folded d_def] fits
      have "allocated s p (init_tensor type nd (new_ne nd dims) nbs d (n + sizeof_ne_tensor)) s'"
        by auto
      moreover have "dat \<noteq> NULL \<longrightarrow> d = dat" by (simp add: d_def)
      ultimately show ?thesis using nbs by blast
    qed simp
  next
    case False
    then have sc: "s_data (scratch (ctx s)) \<noteq> NULL" "dat = NULL" by auto
    note eq = new_tensor_scratch [OF rel sc sok n nd nbs]
    let ?c = "(ctx s)\<lparr>scratch := (scratch (ctx s))\<lparr>s_offs := s_offs (scratch (ctx s)) + n\<rparr>\<rparr>"
    show ?thesis
    proof (cases "p = NULL \<and> s' = s")
      case False
      with run eq have fits: "pool_end zs + NE_OBJECT_SIZE + sizeof_ne_tensor \<le> mem_size (ctx s)"
        and sfit: "s_offs (scratch (ctx s)) + n \<le> s_size (scratch (ctx s))"
        by (auto split: if_splits)
      have sc': "scratch_ok (scratch ?c)" using sok sfit by (simp add: scratch_ok_def)
      let ?d = "s_data (scratch (ctx s)) + s_offs (scratch (ctx s))"
      have "0 < sizeof_ne_tensor" by (simp add: pool_consts)
      from placed_heap_ok(1) [OF ok rel sc' _ fits this tok [OF n(2), of ?d]] run eq fits sfit
      have "allocated s p (init_tensor type nd (new_ne nd dims) nbs ?d n) s'" by auto
      then show ?thesis using nbs sc(2) by blast
    qed simp
  qed
qed

lemma init_tensor_operands [simp]: "operands (init_tensor type nd nes nbs d z) = {}"
  by (simp add: operands_def)

text \<open>Adding a leaf during a constructor.\<close>

lemma building_allocated:
  assumes "building s0 F s" "allocated s p t s'" "operands t = {}"
  shows "added s0 F p s'"
  using assms
  by (auto simp: added_def building_def allocated_def grows_def map_le_def dom_def split: if_splits)

lemma building_mono: "building s0 F s \<Longrightarrow> added s0 F NULL s"
  by (simp add: added_def building_def)

lemma building_heap_ok: "building s0 F s \<Longrightarrow> heap_ok s"
  by (simp add: building_def grows_def)

lemma building_good:
  assumes "building s0 F s"
  shows "good_request (ctx s) type nd dims dat nbytes = good_request (ctx s0) type nd dims dat nbytes"
  using assms by (simp add: building_def grows_def good_request_def request_size_def)

lemma trip_new_impl:
  assumes "good_request (ctx s0) type nd dims NULL nbytes"
  shows "trip (building s0 F) (ne_new_tensor_impl type nd dims dat nbytes)
           (added s0 F)"
proof (rule tripI)
  fix s p s'
  assume b: "building s0 F s" and run: "ne_new_tensor_impl type nd dims dat nbytes s = Inr (p, s')"
  from new_tensor_allocated [OF building_heap_ok [OF b] _ run] assms building_good [OF b]
  show "added s0 F p s'"
    using building_allocated [OF b] building_mono [OF b] init_tensor_operands by blast
qed

lemma trip_new:
  assumes "good_request (ctx s0) type nd dims NULL nbytes"
  shows "trip (building s0 F) (ne_new_tensor type nd dims nbytes) (added s0 F)"
  using trip_new_impl [OF assms] by (simp add: ne_new_tensor_def)

lemma trip_dup:
  "trip (building s0 F) (ne_dup_tensor a) (added s0 F)"
proof (rule tripI)
  fix s p s'
  assume b: "building s0 F s" and run: "ne_dup_tensor a s = Inr (p, s')"
  then obtain t where t: "tensors s a = Some t"
    "ne_new_tensor_impl (ty t) (n_dims t) (ne t) NULL (tsize t) s = Inr (p, s')"
    by (auto simp: ne_dup_tensor_def heap_Inr_iffs)
  have "good_request (ctx s0) (ty t) (n_dims t) (ne t) NULL (tsize t)"
    using building_heap_ok [OF b] t(1) by (auto simp: heap_ok_def t_ok_def building_good [OF b, symmetric])
  from tripD [OF trip_new_impl [OF this] b t(2)] show "added s0 F p s'" .
qed

text \<open>A write to a field of a tensor the constructor has added, that leaves it a leaf.\<close>

definition soft :: "(ne_tensor \<Rightarrow> ne_tensor) \<Rightarrow> bool" where
  "soft f \<longleftrightarrow> (\<forall>t. ty (f t) = ty t \<and> n_dims (f t) = n_dims t \<and> ne (f t) = ne t \<and> tsize (f t) = tsize t \<and>
     (tensor_wf t \<longrightarrow> tensor_wf (f t)))"

definition leafy :: "(ne_tensor \<Rightarrow> ne_tensor) \<Rightarrow> bool" where
  "leafy f \<longleftrightarrow> (\<forall>t. src0 (f t) = src0 t \<and> src1 (f t) = src1 t \<and> opt (f t) = opt t)"

lemma soft_t_ok: "soft f \<Longrightarrow> t_ok c t \<Longrightarrow> t_ok c (f t)"
  by (simp add: soft_def t_ok_def)

lemma heap_ok_upd:
  assumes "heap_ok s" "tensors s p = Some t" "t_ok (ctx s) t'"
  shows "heap_ok (s\<lparr>tensors := (tensors s)(p \<mapsto> t')\<rparr>)"
proof -
  let ?s = "s\<lparr>tensors := (tensors s)(p \<mapsto> t')\<rparr>"
  have "insert p (dom (tensors s)) = dom (tensors s)" using assms(2) by auto
  then have "pool_rel zs ?s" if "pool_rel zs s" for zs
    by (intro pool_rel_ctx_cong [OF that]) simp_all
  then have "pool_inv ?s" using assms(1) by (auto simp: heap_ok_def pool_inv_def)
  with assms show ?thesis by (auto simp: heap_ok_def intro: gr0I)
qed

lemma used_end_tensors [simp]: "used_end (s\<lparr>tensors := m\<rparr>) = used_end s"
  by (auto simp: used_end_def ne_used_mem_def sbind_def get_obj_def split: option.splits)

lemma grows_upd:
  assumes "grows s0 s" "tensors s0 p = None" "tensors s p = Some t" "t_ok (ctx s) t'"
  shows "grows s0 (s\<lparr>tensors := (tensors s)(p \<mapsto> t')\<rparr>)"
  using assms heap_ok_upd [of s p t t'] by (auto simp: grows_def map_le_def dom_def)

lemma building_t_ok: "building s0 F s \<Longrightarrow> tensors s p = Some t \<Longrightarrow> t_ok (ctx s) t"
  using building_heap_ok [of s0 F s] by (auto simp: heap_ok_def)

lemma building_upd:
  assumes b: "building s0 F s" and "p \<in> F" "leafy f" and t: "tensors s p = Some t" "t_ok (ctx s) (f t)"
  shows "building s0 F (s\<lparr>tensors := (tensors s)(p \<mapsto> f t)\<rparr>)"
proof -
  let ?s = "s\<lparr>tensors := (tensors s)(p \<mapsto> f t)\<rparr>"
  have "p \<noteq> NULL" using building_heap_ok [OF b] t(1) by (auto simp: heap_ok_def intro: gr0I)
  then have new: "tensors s0 p = None" using b assms(2) by (auto simp: building_def)
  then have "grows s0 ?s" using grows_upd [OF _ _ t] b by (simp add: building_def)
  moreover have "operands (f t) = {}"
    using b t(1) new assms(3) by (auto simp: building_def leafy_def operands_def)
  ultimately show ?thesis using b by (auto simp: building_def)
qed

lemma trip_upd_gen:
  assumes "p \<in> F" "leafy f" "\<And>s t. building s0 F s \<Longrightarrow> tensors s p = Some t \<Longrightarrow> t_ok (ctx s) (f t)"
  shows "trip (building s0 F) (upd_t p f) (\<lambda>_. building s0 F)"
  using building_upd [OF _ assms(1,2) _ assms(3)] by (auto simp: trip_def upd_t_Inr_iff)

lemma trip_upd:
  assumes "p \<in> F" "leafy f" "soft f"
  shows "trip (building s0 F) (upd_t p f) (\<lambda>_. building s0 F)"
  using assms(1,2) soft_t_ok [OF assms(3)] building_t_ok by (intro trip_upd_gen) blast+

lemma trip_view:
  "trip (building s0 F) (ne_view_tensor a) (added s0 F)"
proof (rule tripI)
  fix s p s'
  assume b: "building s0 F s" and run: "ne_view_tensor a s = Inr (p, s')"
  then obtain t s1 where t: "tensors s a = Some t"
    "ne_new_tensor_impl (ty t) (n_dims t) (ne t) (data t) (tsize t) s = Inr (p, s1)"
    "upd_t p (\<lambda>r. r\<lparr>nb := nb t\<rparr>) s1 = Inr ((), s')"
    by (auto simp: ne_view_tensor_def sbind_Inr_iff sseq_Inr_iff get_t_Inr_iff)
  have tok: "t_ok (ctx s) t" by (rule building_t_ok [OF b t(1)])
  then have "good_request (ctx s0) (ty t) (n_dims t) (ne t) NULL (tsize t)"
    by (simp add: t_ok_def building_good [OF b])
  from tripD [OF trip_new_impl [OF this] b t(2)] have b1: "building s0 (insert p F) s1" and new: "p = NULL \<or> p \<notin> F"
    by (auto simp: added_def)
  have "t_ok (ctx s2) (u\<lparr>nb := nb t\<rparr>)" if "t_ok (ctx s2) u" for s2 u
    using that tok by (simp add: t_ok_def tensor_wf_def)
  then have "trip (building s0 (insert p F)) (upd_t p (\<lambda>r. r\<lparr>nb := nb t\<rparr>)) (\<lambda>_. building s0 (insert p F))"
    by (intro trip_upd_gen) (auto simp: leafy_def dest: building_t_ok)
  from tripD [OF this b1 t(3)] new show "added s0 F p s'" by (simp add: added_def)
qed

lemma trip_view_or_dup:
  "trip (building s0 F) (view_or_dup inplace a) (added s0 F)"
  using trip_view trip_dup by (simp add: view_or_dup_def)

text \<open>
  The end of a constructor: the result gets its operands, which are old tensors, null, or
  other tensors the constructor has added.
\<close>

definition links :: "ne_state \<Rightarrow> ptr set \<Rightarrow> ptr \<Rightarrow> (ne_tensor \<Rightarrow> ne_tensor) \<Rightarrow> bool" where
  "links s0 F r f \<longleftrightarrow> soft f \<and>
     (\<forall>t. operands t = {} \<longrightarrow> operands (f t) \<subseteq> dom (tensors s0) \<union> (F - {r}))"

lemma trip_link:
  assumes "r \<in> F" "links s0 F r f"
  shows "trip (building s0 F) (sseq (upd_t r f) (ret r)) (extends s0)"
proof (rule tripI)
  fix s x s'
  assume b: "building s0 F s" and run: "sseq (upd_t r f) (ret r) s = Inr (x, s')"
  from run obtain t where t: "tensors s r = Some t" "s' = s\<lparr>tensors := (tensors s)(r \<mapsto> f t)\<rparr>" "x = r"
    unfolding sseq_Inr_iff upd_t_Inr_iff ret_eq by blast
  have "r \<noteq> NULL" using building_heap_ok [OF b] t(1) by (auto simp: heap_ok_def intro: gr0I)
  then have new: "tensors s0 r = None" using b assms(1) by (auto simp: building_def)
  have "t_ok (ctx s) (f t)"
    using assms(2) soft_t_ok building_t_ok [OF b t(1)] by (auto simp: links_def)
  then have g: "grows s0 s'" using grows_upd [OF _ new t(1)] b t(2) by (simp add: building_def)
  have "operands t = {}" using b t(1) new by (auto simp: building_def)
  then have op: "operands (f t) \<subseteq> dom (tensors s0) \<union> (F - {r})" using assms(2) by (simp add: links_def)
  have live: "tensors s q \<noteq> None" if "q \<in> operands (f t)" for q
  proof -
    have "q \<noteq> NULL" using that by (simp add: operands_def)
    with op that b show ?thesis by (auto simp: building_def grows_def map_le_def dom_def)
  qed
  have other: "operands u = {}" if "tensors s p = Some u" "tensors s0 p = None" for p u
    using b that by (auto simp: building_def)
  show "extends s0 x s'"
    unfolding extends_def t(3)
  proof (intro conjI allI impI)
    show "grows s0 s'" "tensors s' r \<noteq> None" using g t(2) by simp_all
  next
    fix p u q
    assume u: "tensors s' p = Some u" "tensors s0 p = None" "q \<in> operands u"
    show p: "p = r" using u other [of p u] t(2) by (cases "p = r") auto
    then have q: "q \<in> operands (f t)" using u t(2) by simp
    then show "q \<noteq> r" using op new by auto
    show "tensors s' q \<noteq> None" using live [OF q] t(2) by simp
  qed
qed

lemma links_finish: "links s0 F r f \<Longrightarrow> links s0 (insert g F) r f"
  by (auto simp: links_def)

lemma trip_finish:
  assumes "r \<in> F" "links s0 F r f"
  shows "trip (building s0 F) (finish opc is_node f r) (extends s0)"
  unfolding finish_def
proof (rule trip_sseq [where R = "building s0 F"])
  show "trip (building s0 F) (upd_t r (\<lambda>t. t\<lparr>op := opc\<rparr>)) (\<lambda>_. building s0 F)"
    using assms(1) by (intro trip_upd) (auto simp: leafy_def soft_def tensor_wf_def)
  have g: "trip (building s0 F) (if is_node then ne_dup_tensor r else ret NULL) (added s0 F)"
    using trip_dup by (auto intro: trip_ret building_mono)
  show "trip (building s0 F) (sbind (if is_node then ne_dup_tensor r else ret NULL)
      (\<lambda>g. sseq (upd_t r (\<lambda>t. f (t\<lparr>grad := g\<rparr>))) (ret r))) (extends s0)"
  proof (rule trip_sbind [OF g])
    fix g
    have mono: "added s0 F g s \<Longrightarrow> building s0 (insert g F) s" for s by (simp add: added_def)
    have "soft f" using assms(2) by (simp add: links_def)
    then have "soft (\<lambda>t. f (t\<lparr>grad := g\<rparr>))" by (simp add: soft_def tensor_wf_def)
    then have "links s0 (insert g F) r (\<lambda>t. f (t\<lparr>grad := g\<rparr>))"
      using links_finish [OF assms(2), of g] by (auto simp: links_def operands_def)
    then have "trip (building s0 (insert g F)) (sseq (upd_t r (\<lambda>t. f (t\<lparr>grad := g\<rparr>))) (ret r)) (extends s0)"
      using assms(1) by (intro trip_link) auto
    with mono show "trip (added s0 F g) (sseq (upd_t r (\<lambda>t. f (t\<lparr>grad := g\<rparr>))) (ret r)) (extends s0)"
      by (auto simp: trip_def)
  qed
qed

section \<open>Parameter tensors\<close>

lemma used_end_simps [simp]:
  "used_end (s\<lparr>mem := m\<rparr>) = used_end s"
  "used_end (s\<lparr>ctx := (ctx s)\<lparr>scratch := a\<rparr>\<rparr>) = used_end s"
  "used_end (s\<lparr>ctx := (ctx s)\<lparr>scratch_save := b, scratch := a\<rparr>\<rparr>) = used_end s"
  by (auto simp: used_end_def ne_used_mem_def sbind_def get_obj_def split: option.splits)

lemma t_ok_scratch [simp]:
  "t_ok ((ctx s)\<lparr>scratch := a\<rparr>) t = t_ok (ctx s) t"
  "t_ok ((ctx s)\<lparr>scratch_save := b, scratch := a\<rparr>) t = t_ok (ctx s) t"
  by (rule t_ok_cong, simp)+

lemma pool_inv_scratch:
  "pool_inv s \<Longrightarrow> pool_inv (s\<lparr>ctx := (ctx s)\<lparr>scratch := scratch_save (ctx s)\<rparr>\<rparr>)"
  "pool_inv s \<Longrightarrow> pool_inv (s\<lparr>ctx := (ctx s)\<lparr>scratch_save := scratch (ctx s),
                                 scratch := (scratch (ctx s))\<lparr>s_data := NULL\<rparr>\<rparr>\<rparr>)"
  by (auto simp: pool_inv_def scratch_ok_def)

lemma trip_scratch_save:
  "trip (building s0 F) ne_scratch_save (\<lambda>_ s. building s0 F s \<and> s_data (scratch (ctx s)) = NULL)"
  by (rule tripI) (auto simp: ne_scratch_save_def building_def grows_def heap_ok_def pool_inv_scratch)

lemma trip_scratch_load: "trip (building s0 F) ne_scratch_load (\<lambda>_. building s0 F)"
  by (rule tripI) (auto simp: ne_scratch_load_def building_def grows_def heap_ok_def pool_inv_scratch)

text \<open>A request for \<open>n\<close> 32-bit integers is served with at least that much room behind the header.\<close>

definition int_count :: "int \<Rightarrow> bool" where
  "int_count n \<longleftrightarrow> 0 \<le> n \<and> n < 2 ^ 32"

lemma request_i32:
  assumes "int_count n"
  shows "\<exists>z. request_size c NE_TYPE_I32 1 [n] NULL NE_SIZE_CALC = Inr (if no_alloc c then 0 else z) \<and>
             4 * nat n \<le> z \<and> z < 2 ^ 62"
proof -
  let ?z = "(4 * nat n + 64 - 1) div 64 * 64"
  have sz: "to_size n = nat n" "4 * nat n < 2 ^ 34" using assms by (auto simp: int_count_def to_size_def)
  then have "data_size_needed NE_TYPE_I32 1 [n] NE_SIZE_CALC = Inr ?z"
    using assms sz round_up_less [of 64 "4 * nat n"]
    by (simp add: data_size_needed_def data_size_raw_def cdiv_nonneg int_count_def NE_MEM_ALIGN_def)
  moreover have "4 * nat n \<le> ?z" by (rule round_up_ge) simp
  moreover have "?z < 2 ^ 62"
    by (rule less_trans [OF round_up_less]) (use sz(2) in simp_all)
  ultimately show ?thesis by (auto simp: request_size_def)
qed

lemma good_i32: "int_count n \<Longrightarrow> good_request c NE_TYPE_I32 1 [n] NULL NE_SIZE_CALC"
  using request_i32 [of n c] by (auto simp: good_request_def)

text \<open>The data of such a tensor lies in pool memory that was free.\<close>

lemma i32_data_free:
  assumes ok: "heap_ok s" and n: "int_count n" and sc: "s_data (scratch (ctx s)) = NULL"
    and run: "ne_new_tensor_1d NE_TYPE_I32 n NE_SIZE_CALC s = Inr (p, s')"
    and t: "tensors s' p = Some t" "data t \<noteq> NULL"
  shows "mem_buffer (ctx s) + used_end s \<le> data t \<and>
         data t + 4 * nat n \<le> mem_buffer (ctx s) + mem_size (ctx s)"
proof -
  obtain zs where rel: "pool_rel zs s" using ok by (auto simp: heap_ok_def pool_inv_def)
  obtain z where z: "request_size (ctx s) NE_TYPE_I32 1 [n] NULL NE_SIZE_CALC =
      Inr (if no_alloc (ctx s) then 0 else z)" "4 * nat n \<le> z" "z < 2 ^ 62"
    using request_i32 [OF n] by blast
  obtain nbs where nbs: "new_nb NE_TYPE_I32 (new_ne 1 [n]) = Inr nbs" using new_nb_ok by blast
  have lt: "(if no_alloc (ctx s) then 0 else z) < 2 ^ 62" using z(3) by simp
  note eq = new_tensor_pool [OF rel _ z(1) lt _ nbs]
  have run': "ne_new_tensor_impl NE_TYPE_I32 1 [n] NULL NE_SIZE_CALC s = Inr (p, s')"
    using run by (simp add: ne_new_tensor_1d_def ne_new_tensor_def)
  have "p \<noteq> NULL \<or> s' \<noteq> s" using ok t(1) by (auto simp: heap_ok_def)
  then show ?thesis
    using run' eq sc t z(2) used_end_pool [OF rel]
    by (auto simp: pool_consts split: if_splits)
qed

lemma building_write:
  assumes b: "building s0 F s"
    and free: "mem_buffer (ctx s) + used_end s0 \<le> d" "d + 4 * length vs \<le> mem_buffer (ctx s) + mem_size (ctx s)"
  shows "building s0 F (s\<lparr>mem := store32_list d vs (mem s)\<rparr>)"
proof -
  have "store32_list d vs (mem s) a = mem s a"
    if "a < mem_buffer (ctx s) + used_end s0 \<or> mem_buffer (ctx s) + mem_size (ctx s) \<le> a" for a
    by (rule store32_list_frame) (use that free in linarith)
  then show ?thesis
    using b by (auto simp: building_def grows_def heap_ok_def pool_inv_def)
qed

lemma i32_write_building:
  assumes b: "building s0 F s" and sc: "s_data (scratch (ctx s)) = NULL"
    and n: "int_count n" "length vs \<le> nat n"
    and run: "ne_new_tensor_1d NE_TYPE_I32 n NE_SIZE_CALC s = Inr (p, s')"
    and t: "tensors s' p = Some t" "data t \<noteq> NULL"
  shows "added s0 F p (s'\<lparr>mem := store32_list (data t) vs (mem s')\<rparr>)"
proof -
  have a: "added s0 F p s'"
    using tripD [OF trip_new_impl [OF good_i32 [OF n(1)]] b] run
    by (simp add: ne_new_tensor_1d_def ne_new_tensor_def)
  then have b': "building s0 (insert p F) s'" by (simp add: added_def)
  have "mem_buffer (ctx s') = mem_buffer (ctx s)" "mem_size (ctx s') = mem_size (ctx s)"
    "used_end s0 \<le> used_end s"
    using b b' by (simp_all add: building_def grows_def)
  with i32_data_free [OF building_heap_ok [OF b] n(1) sc run t] n(2) b'
  have "building s0 (insert p F) (s'\<lparr>mem := store32_list (data t) vs (mem s')\<rparr>)"
    by (intro building_write) auto
  with a show ?thesis by (simp add: added_def)
qed

lemma trip_scratch_load_added: "trip (added s0 F p) ne_scratch_load (\<lambda>_. added s0 F p)"
  using trip_scratch_load [of s0 "insert p F"] by (auto simp: trip_def added_def)

lemma trip_param_tensor:
  assumes "int_count n" "length vs \<le> nat n"
  shows "trip (building s0 F) (param_tensor n vs) (added s0 F)"
  unfolding param_tensor_def
proof (rule trip_sseq [OF trip_scratch_save], rule tripI)
  fix s x s'
  assume b: "building s0 F s \<and> s_data (scratch (ctx s)) = NULL"
    and run: "sbind (ne_new_tensor_1d NE_TYPE_I32 n NE_SIZE_CALC) (\<lambda>c. sbind (get_t c) (\<lambda>t.
      sseq (with_data t (mem_write (store32_list (data t) vs))) (sseq ne_scratch_load (ret c)))) s = Inr (x, s')"
  from run obtain s1 t where r: "ne_new_tensor_1d NE_TYPE_I32 n NE_SIZE_CALC s = Inr (x, s1)"
    "tensors s1 x = Some t" "data t \<noteq> NULL"
    "ne_scratch_load (s1\<lparr>mem := store32_list (data t) vs (mem s1)\<rparr>) = Inr ((), s')"
    by (auto simp: sbind_Inr_iff sseq_Inr_iff get_t_Inr_iff with_data_def split: if_splits)
  show "added s0 F x s'"
    using tripD [OF trip_scratch_load_added i32_write_building [OF _ _ assms r(1-3)] r(4)] b by blast
qed

lemma trip_named_param_tensor:
  assumes "int_count n" "length vs \<le> nat n"
  shows "trip (building s0 F) (named_param_tensor n nm vs) (added s0 F)"
  unfolding named_param_tensor_def
proof (rule trip_sseq [OF trip_scratch_save], rule tripI)
  let ?nm = "\<lambda>t. t\<lparr>tname := take 31 (takeWhile (\<lambda>c. c \<noteq> CHR 0x00) nm)\<rparr>"
  fix s x s'
  assume b: "building s0 F s \<and> s_data (scratch (ctx s)) = NULL"
    and run: "sbind (ne_new_tensor_1d NE_TYPE_I32 n NE_SIZE_CALC) (\<lambda>b. sseq (ne_set_name b nm)
      (sbind (get_t b) (\<lambda>t. sseq (with_data t (mem_write (store32_list (data t) vs)))
        (sseq ne_scratch_load (ret b))))) s = Inr (x, s')"
  from run obtain s1 t where r: "ne_new_tensor_1d NE_TYPE_I32 n NE_SIZE_CALC s = Inr (x, s1)"
    "tensors s1 x = Some t" "data t \<noteq> NULL" and l:
    "ne_scratch_load (s1\<lparr>tensors := (tensors s1)(x \<mapsto> ?nm t),
        mem := store32_list (data t) vs (mem s1)\<rparr>) = Inr ((), s')"
    by (auto simp: sbind_Inr_iff sseq_Inr_iff get_t_Inr_iff upd_t_Inr_iff ne_set_name_def with_data_def
        split: if_splits)
  let ?s2 = "s1\<lparr>mem := store32_list (data t) vs (mem s1)\<rparr>"
  from b have a: "added s0 F x ?s2" using i32_write_building [OF _ _ assms r] by blast
  have "upd_t x ?nm ?s2 = Inr ((), ?s2\<lparr>tensors := (tensors s1)(x \<mapsto> ?nm t)\<rparr>)" using r(2) by simp
  moreover have "trip (building s0 (insert x F)) (upd_t x ?nm) (\<lambda>_. building s0 (insert x F))"
    by (rule trip_upd) (auto simp: leafy_def soft_def tensor_wf_def)
  ultimately have "added s0 F x (?s2\<lparr>tensors := (tensors s1)(x \<mapsto> ?nm t)\<rparr>)"
    using a by (auto simp: added_def trip_def)
  moreover have "?s2\<lparr>tensors := (tensors s1)(x \<mapsto> ?nm t)\<rparr> =
      s1\<lparr>tensors := (tensors s1)(x \<mapsto> ?nm t), mem := store32_list (data t) vs (mem s1)\<rparr>" by simp
  ultimately show "added s0 F x s'" using tripD [OF trip_scratch_load_added _ l] by simp
qed

lemma trip_addr_tensor:
  "trip (\<lambda>s. building s0 F s \<and> s_data (scratch (ctx s)) = NULL) (addr_tensor f) (added s0 F)"
proof (rule tripI)
  fix s x s'
  assume b: "building s0 F s \<and> s_data (scratch (ctx s)) = NULL" and run: "addr_tensor f s = Inr (x, s')"
  let ?vs = "[word_of_nat f, word_of_nat (f div 2 ^ 32)] :: 32 word list"
  from run obtain s1 t where r: "ne_new_tensor_1d NE_TYPE_I32 2 NE_SIZE_CALC s = Inr (x, s1)"
    "tensors s1 x = Some t" "data t \<noteq> NULL" "s' = s1\<lparr>mem := store32_list (data t) ?vs (mem s1)\<rparr>"
    by (auto simp: addr_tensor_def sbind_Inr_iff sseq_Inr_iff get_t_Inr_iff with_data_def split: if_splits)
  have "int_count 2" "length ?vs \<le> nat 2" by (simp_all add: int_count_def)
  from i32_write_building [OF _ _ this r(1-3)] b r(4) show "added s0 F x s'" by blast
qed

section \<open>Rules for constructors\<close>

text \<open>\<open>ctor s0 F m\<close>: the rest \<open>m\<close> of a constructor that started in \<open>s0\<close> and has added \<open>F\<close>.\<close>

definition ctor :: "ne_state \<Rightarrow> ptr set \<Rightarrow> ptr neop \<Rightarrow> bool" where
  "ctor s0 F m \<longleftrightarrow> trip (building s0 F) m (extends s0)"

lemma ctor_after:
  assumes "trip (building s0 F) m (added s0 F)" "\<And>p. p = NULL \<or> p \<notin> F \<Longrightarrow> ctor s0 (insert p F) (f p)"
  shows "ctor s0 F (sbind m f)"
  unfolding ctor_def
proof (rule trip_sbind [OF assms(1)])
  fix p
  show "trip (added s0 F p) (f p) (extends s0)"
    using assms(2) [of p] by (auto simp: ctor_def trip_def added_def)
qed

lemma ctor_get: "tensors s0 a = Some t \<Longrightarrow> ctor s0 F (f t) \<Longrightarrow> ctor s0 F (sbind (get_t a) f)"
  unfolding ctor_def by (rule trip_get)

lemma ctor_any_grad: "(\<And>b. ctor s0 F (f b)) \<Longrightarrow> ctor s0 F (sbind (any_grad ps) f)"
  unfolding ctor_def by (rule trip_any_grad)

lemma ctor_node_unless: "(\<And>b. ctor s0 F (f b)) \<Longrightarrow> ctor s0 F (sbind (node_unless i ps) f)"
  unfolding ctor_def by (rule trip_node_unless)

lemma ctor_assert: "(b \<Longrightarrow> ctor s0 F k) \<Longrightarrow> ctor s0 F (sseq (ne_assert b) k)"
  unfolding ctor_def by (rule trip_assert)

lemma ctor_assertR: "(r = Inr True \<Longrightarrow> ctor s0 F k) \<Longrightarrow> ctor s0 F (sseq (ne_assertR r) k)"
  unfolding ctor_def by (rule trip_assertR)

lemma ctor_assert_if:
  "ctor s0 F k \<Longrightarrow> ctor s0 F (sseq (if b then ne_assert c else ret ()) k)"
  by (auto simp: ctor_def trip_def sseq_Inr_iff ne_assert_Inr_iff split: if_splits)

lemma ctor_liftR: "(\<And>x. r = Inr x \<Longrightarrow> ctor s0 F (f x)) \<Longrightarrow> ctor s0 F (sbind (liftR r) f)"
  unfolding ctor_def by (rule trip_liftR)

lemma ctor_fail: "ctor s0 F (fail e)"
  unfolding ctor_def by (rule trip_fail)

lemma ctor_if:
  "(b \<Longrightarrow> ctor s0 F m) \<Longrightarrow> (\<not> b \<Longrightarrow> ctor s0 F k) \<Longrightarrow> ctor s0 F (if b then m else k)"
  by simp

lemmas ctor_view = ctor_after [OF trip_view]
  and ctor_dup = ctor_after [OF trip_dup]
  and ctor_view_or_dup = ctor_after [OF trip_view_or_dup]
  and ctor_param = ctor_after [OF trip_param_tensor]
  and ctor_named_param = ctor_after [OF trip_named_param_tensor]
  and ctor_new_impl = ctor_after [OF trip_new_impl]
  and ctor_new = ctor_after [OF trip_new]

lemma ctor_upd:
  assumes "p \<in> F" "leafy f" "soft f" "ctor s0 F k"
  shows "ctor s0 F (sseq (upd_t p f) k)"
  using trip_sseq [OF trip_upd [OF assms(1-3)]] assms(4) by (simp add: ctor_def)

lemma ctor_set_op_params:
  assumes "p \<in> F" "length ps \<le> 8" "ctor s0 F k"
  shows "ctor s0 F (sseq (ne_set_op_params p ps) k)"
proof -
  have "ctor s0 F (sseq (upd_t p (\<lambda>t. t\<lparr>op_params := ps @ drop (length ps) (op_params t)\<rparr>)) k)"
    using assms by (intro ctor_upd) (auto simp: leafy_def soft_def tensor_wf_def)
  then show ?thesis
    using assms(2)
    by (auto simp: ne_set_op_params_def ctor_def trip_def sseq_Inr_iff ne_assert_Inr_iff not_less)
qed

lemma ctor_finish: "r \<in> F \<Longrightarrow> links s0 F r f \<Longrightarrow> ctor s0 F (finish opc is_node f r)"
  unfolding ctor_def by (rule trip_finish)

lemma ctor_link: "r \<in> F \<Longrightarrow> links s0 F r f \<Longrightarrow> ctor s0 F (sseq (upd_t r f) (ret r))"
  unfolding ctor_def by (rule trip_link)

lemmas ctor_rules = ctor_any_grad ctor_node_unless ctor_assert ctor_assertR ctor_assert_if
  ctor_liftR ctor_view ctor_dup ctor_view_or_dup ctor_param ctor_named_param ctor_new_impl ctor_new
  ctor_set_op_params ctor_finish ctor_if ctor_fail

text \<open>Operands: null, old, or another new tensor.\<close>

definition may_link :: "ne_state \<Rightarrow> ptr set \<Rightarrow> ptr \<Rightarrow> ptr \<Rightarrow> bool" where
  "may_link s0 F r q \<longleftrightarrow> q = NULL \<or> tensors s0 q \<noteq> None \<or> q \<in> F - {r}"

lemma may_link_simps [simp]:
  "may_link s0 F r NULL" "tensors s0 q = Some t \<Longrightarrow> may_link s0 F r q"
  by (simp_all add: may_link_def)

lemma may_link_new: "c = NULL \<or> c \<notin> F \<Longrightarrow> r \<in> F \<Longrightarrow> may_link s0 (insert c F) r c"
  by (auto simp: may_link_def)

lemma may_link_insert: "may_link s0 F r q \<Longrightarrow> may_link s0 (insert c F) r q"
  by (auto simp: may_link_def)

lemma linksI:
  assumes "soft f" "\<And>t q. q \<in> operands (f t) \<Longrightarrow> q \<in> operands t \<or> may_link s0 F r q"
  shows "links s0 F r f"
  unfolding links_def
proof (intro conjI allI impI subsetI)
  fix t q assume "operands t = {}" "q \<in> operands (f t)"
  then have "may_link s0 F r q" "q \<noteq> NULL" using assms(2) [of q t] by (auto simp: operands_def)
  then show "q \<in> dom (tensors s0) \<union> (F - {r})" by (auto simp: may_link_def)
qed (rule assms(1))

lemma links_rules:
  assumes "may_link s0 F r a"
  shows "links s0 F r (\<lambda>t. t\<lparr>src0 := a\<rparr>)"
    and "may_link s0 F r b \<Longrightarrow> links s0 F r (\<lambda>t. t\<lparr>src0 := a, src1 := b\<rparr>)"
    and "may_link s0 F r c \<Longrightarrow> links s0 F r (\<lambda>t. t\<lparr>src0 := a, opt := (opt t)[i := c]\<rparr>)"
    and "may_link s0 F r b \<Longrightarrow> may_link s0 F r c \<Longrightarrow>
           links s0 F r (\<lambda>t. t\<lparr>src0 := a, src1 := b, opt := (opt t)[i := c]\<rparr>)"
    and "may_link s0 F r b \<Longrightarrow> may_link s0 F r c \<Longrightarrow> may_link s0 F r d \<Longrightarrow>
           links s0 F r (\<lambda>t. t\<lparr>src0 := a, src1 := b, opt := (opt t)[i := c, j := d]\<rparr>)"
    and "may_link s0 F r b \<Longrightarrow> may_link s0 F r c \<Longrightarrow> may_link s0 F r d \<Longrightarrow> may_link s0 F r e \<Longrightarrow>
           links s0 F r (\<lambda>t. t\<lparr>src0 := a, src1 := b, opt := (opt t)[i := c, j := d, k := e]\<rparr>)"
    and "may_link s0 F r b \<Longrightarrow> may_link s0 F r c \<Longrightarrow> may_link s0 F r d \<Longrightarrow> may_link s0 F r e \<Longrightarrow>
         may_link s0 F r g \<Longrightarrow>
           links s0 F r (\<lambda>t. t\<lparr>src0 := a, src1 := b, opt := (opt t)[i := c, j := d, k := e, l := g]\<rparr>)"
  using assms
  by (auto intro!: linksI simp: soft_def tensor_wf_def operands_def
      dest!: set_update_subset_insert [THEN subsetD])

section \<open>The constructors keep the contract\<close>

text \<open>Operations with one operand.\<close>

lemma links1: "tensors s0 a = Some ta \<Longrightarrow> links s0 F r (\<lambda>t. t\<lparr>src0 := a, src1 := NULL\<rparr>)"
  by (rule links_rules) simp_all

lemma links2:
  "tensors s0 a = Some ta \<Longrightarrow> tensors s0 b = Some tb \<Longrightarrow> links s0 F r (\<lambda>t. t\<lparr>src0 := a, src1 := b\<rparr>)"
  by (rule links_rules) simp_all

text \<open>
  Constructors with one operand and an optional in-place variant share one body.
\<close>

locale unary_op =
  fixes mk :: "ptr \<Rightarrow> bool \<Rightarrow> ptr neop" and opc :: ne_op
  assumes mk_eq: "mk a inplace = sbind (node_unless inplace [a]) (\<lambda>is_node.
     sbind (view_or_dup inplace a) (finish opc is_node (\<lambda>t. t\<lparr>src0 := a, src1 := NULL\<rparr>)))"
begin

lemma contract: "tensors s a = Some ta \<Longrightarrow> ctor s {} (mk a inplace)"
  unfolding mk_eq by (intro ctor_rules links1) auto

end

interpretation u_dup: unary_op ne_dup_impl NE_OP_DUP by unfold_locales (simp add: ne_dup_impl_def)
interpretation u_sqr: unary_op ne_sqr_impl NE_OP_SQR by unfold_locales (simp add: ne_sqr_impl_def)
interpretation u_sqrt: unary_op ne_sqrt_impl NE_OP_SQRT by unfold_locales (simp add: ne_sqrt_impl_def)
interpretation u_log: unary_op ne_log_impl NE_OP_LOG by unfold_locales (simp add: ne_log_impl_def)
interpretation u_abs: unary_op ne_abs_impl NE_OP_ABS by unfold_locales (simp add: ne_abs_impl_def)
interpretation u_sgn: unary_op ne_sgn_impl NE_OP_SGN by unfold_locales (simp add: ne_sgn_impl_def)
interpretation u_neg: unary_op ne_neg_impl NE_OP_NEG by unfold_locales (simp add: ne_neg_impl_def)
interpretation u_step: unary_op ne_step_impl NE_OP_STEP by unfold_locales (simp add: ne_step_impl_def)
interpretation u_relu: unary_op ne_relu_impl NE_OP_RELU by unfold_locales (simp add: ne_relu_impl_def)
interpretation u_gelu: unary_op ne_gelu_impl NE_OP_GELU by unfold_locales (simp add: ne_gelu_impl_def)
interpretation u_silu: unary_op ne_silu_impl NE_OP_SILU by unfold_locales (simp add: ne_silu_impl_def)
interpretation u_cont: unary_op ne_cont_impl NE_OP_CONT by unfold_locales (simp add: ne_cont_impl_def)

text \<open>Binary operations whose result has the shape of the first operand.\<close>

lemma binary_contracts:
  assumes "tensors s a = Some ta" "tensors s b = Some tb"
  shows "ctor s {} (ne_add_impl a b inplace)" "ctor s {} (ne_add1_impl a b inplace)"
    "ctor s {} (ne_sub_impl a b inplace)" "ctor s {} (ne_mul_impl a b inplace)"
    "ctor s {} (ne_div_impl a b inplace)" "ctor s {} (ne_scale_impl a b inplace)"
    "ctor s {} (ne_cpy_impl a b inplace)" "ctor s {} (ne_silu_back a b)"
    "ctor s {} (ne_rms_norm_back a b)"
  unfolding ne_add_impl_def ne_add1_impl_def ne_sub_impl_def ne_mul_impl_def ne_div_impl_def
    ne_scale_impl_def ne_cpy_impl_def ne_silu_back_def ne_rms_norm_back_def
  by (intro ctor_rules assms [THEN ctor_get] links2 [OF assms] insertI1)+

lemma unary_contracts:
  assumes "tensors s a = Some ta"
  shows "ctor s {} (ne_dump_tensor a)" "ctor s {} (ne_all_reduce a)" "ctor s {} (ne_norm_impl a inplace)"
    "ctor s {} (ne_soft_max_impl a inplace)" "ctor s {} (ne_rms_norm_impl a inplace eps)"
  unfolding ne_dump_tensor_def ne_all_reduce_def ne_norm_impl_def ne_soft_max_impl_def ne_rms_norm_impl_def
  by (intro ctor_rules links1 [OF assms] links_rules insertI1; simp add: assms)+

end
