(* ===== verification/NE_Contracts.thy ===== *)
theory NE_Contracts
  imports NE_Node
begin

text \<open>
  The contract of \<open>NE_Node\<close> for the constructors whose result has a shape of its own, and for
  those with a parameter tensor, and its consequence for the heap as a graph: whatever sequence
  of constructor calls a program makes, the operand pointers stay valid and never form a cycle.
\<close>

section \<open>Results with a shape of their own\<close>

text \<open>The shape asked for can be represented.\<close>

abbreviation (input) fits :: "ne_state \<Rightarrow> ne_type \<Rightarrow> nat \<Rightarrow> int list \<Rightarrow> bool" where
  "fits s type nd dims \<equiv> good_request (ctx s) type nd dims NULL NE_SIZE_CALC"

lemmas new_dims_defs = ne_new_tensor_1d_def ne_new_tensor_2d_def ne_new_tensor_3d_def ne_new_tensor_4d_def

lemma reduction_contracts:
  assumes a: "tensors s a = Some ta"
  shows "fits s (ty ta) 1 [1] \<Longrightarrow> ctor s {} (ne_sum a)"
    and "good_request (ctx s) (ty ta) (n_dims ta)
           (map (\<lambda>i. if 1 \<le> i \<and> i < n_dims ta then ne ta ! i else 1) [0..<4]) NULL (tsize ta) \<Longrightarrow>
         ctor s {} (ne_sum_rows a)"
    and "fits s NE_TYPE_F32 (n_dims ta) [1, ne ta ! 1, ne ta ! 2, ne ta ! 3] \<Longrightarrow> ctor s {} (ne_mean a)"
    and "fits s (ty ta) (max (n_dims ta) 2) [ne ta ! 0, ne ta ! 0, ne ta ! 2, ne ta ! 3] \<Longrightarrow>
         ctor s {} (ne_diag a)"
  unfolding ne_sum_def ne_sum_rows_def ne_mean_def ne_diag_def new_dims_defs
  by ((intro ctor_rules ctor_get [OF a] links1 [OF a] insertI1; assumption)+)

lemma ctor_ret_old: "tensors s0 a = Some t \<Longrightarrow> ctor s0 F (ret a)"
  unfolding ctor_def
  by (rule trip_ret) (auto simp: extends_def building_def grows_def map_le_def dom_def)

lemma product_contracts:
  assumes a: "tensors s a = Some ta" and b: "tensors s b = Some tb"
  shows "fits s NE_TYPE_F32 (max (n_dims ta) (n_dims tb)) [ne ta ! 1, ne tb ! 1, ne tb ! 2, ne tb ! 3] \<Longrightarrow>
           ctor s {} (ne_mul_mat a b)"
    and "fits s (ty ta) (n_dims tb) (ne tb) \<Longrightarrow> ctor s {} (ne_repeat a b)"
    and "fits s NE_TYPE_F32 2 [ne ta ! 0, ne tb ! 0] \<Longrightarrow> ctor s {} (ne_get_rows a b)"
  unfolding ne_mul_mat_def ne_repeat_def ne_get_rows_def new_dims_defs
  by ((intro ctor_rules ctor_get [OF a] ctor_get [OF b] links2 [OF a b] ctor_ret_old [OF a] insertI1; assumption)+)

lemmas link_simps = may_link_def insert_iff

lemma product3_contracts:
  assumes a: "tensors s a = Some ta" and b: "tensors s b = Some tb" and c: "tensors s c = Some tc"
  shows "fits s (ty tc) (min (n_dims ta) (n_dims tc)) [ne ta ! 1, ne tc ! 1, ne ta ! 2, ne tc ! 3] \<Longrightarrow>
           ctor s {} (ne_mul_mat_with_bias a b c)"
    and "fits s NE_TYPE_F32 2 [ne tc ! 0, ne tc ! 1] \<Longrightarrow> ctor s {} (ne_get_rows_back a b c)"
    and "fits s NE_TYPE_F32 (n_dims tc) (ffn_dims tb tc) \<Longrightarrow> fits s NE_TYPE_F32 (n_dims tc) (ffn_dims ta tc) \<Longrightarrow>
           ctor s {} (ne_ffn_gelu a b c)"
  unfolding ne_mul_mat_with_bias_def ne_get_rows_back_def ne_ffn_gelu_def new_dims_defs
  by ((intro ctor_rules ctor_get [OF a] ctor_get [OF b] ctor_get [OF c] links_rules;
       (assumption | auto simp: link_simps a b c; fail))+)

lemma product4_contracts:
  assumes a: "tensors s a = Some ta" and b: "tensors s b = Some tb" and c: "tensors s c = Some tc"
    and d: "tensors s d = Some td"
  shows "fits s NE_TYPE_F32 (min (n_dims td) (n_dims ta)) [ne ta ! 1, ne td ! 1, ne td ! 2 * 3, ne td ! 3] \<Longrightarrow>
           ctor s {} (ne_mul_qkv a b c d)"
    and "fits s NE_TYPE_F32 (n_dims td) (ffn_dims tb td) \<Longrightarrow> fits s NE_TYPE_F32 (n_dims td) (ffn_dims ta td) \<Longrightarrow>
           ctor s {} (ne_ffn_silu a b c d)"
  unfolding ne_mul_qkv_def ne_ffn_silu_def
  by ((intro ctor_rules ctor_get [OF a] ctor_get [OF b] ctor_get [OF c] ctor_get [OF d] links_rules;
       (assumption | auto simp: link_simps a b c d; fail))+)

lemma product5_contracts:
  assumes a: "tensors s a = Some ta" and b: "tensors s b = Some tb" and c: "tensors s c = Some tc"
    and d: "tensors s d = Some td" and e: "tensors s e = Some te"
  shows "fits s NE_TYPE_F32 (n_dims te) (ffn_dims tb te) \<Longrightarrow> fits s NE_TYPE_F32 (n_dims te) (ffn_dims ta te) \<Longrightarrow>
           ctor s {} (ne_ffn_add_gelu a b c d e)"
    and "fits s NE_TYPE_F32 4 (ne ta) \<Longrightarrow> ctor s {} (ne_flash_ff a b c d e)"
  unfolding ne_ffn_add_gelu_def ne_flash_ff_def
  by ((intro ctor_rules ctor_get [OF a] ctor_get [OF b] ctor_get [OF e] links_rules;
       (assumption | auto simp: link_simps a b c d e; fail))+)

text \<open>Reshaping and views: the new header must describe a representable shape.\<close>

lemma reshape_contracts:
  assumes a: "tensors s a = Some ta" and b: "tensors s b = Some tb"
  shows "fits s (ty ta) (n_dims tb) (ne tb) \<Longrightarrow> ctor s {} (ne_reshape a b)"
    and "fits s (ty ta) 1 [n0] \<Longrightarrow> ctor s {} (ne_reshape_1d a n0)"
    and "fits s (ty ta) 2 [n0, n1] \<Longrightarrow> ctor s {} (ne_reshape_2d a n0 n1)"
    and "fits s (ty ta) 3 [n0, n1, n2] \<Longrightarrow> ctor s {} (ne_reshape_3d a n0 n1 n2)"
    and "fits s (ty ta) 4 [n0, n1, n2, n3] \<Longrightarrow> ctor s {} (ne_reshape_4d a n0 n1 n2 n3)"
  unfolding ne_reshape_def ne_reshape_1d_def ne_reshape_2d_def ne_reshape_3d_def ne_reshape_4d_def
  by ((intro ctor_rules ctor_get [OF a] ctor_get [OF b] links1 [OF a] insertI1; assumption)+)

lemma le_bytes_length [simp]: "length (le_bytes k n) = k"
  by (simp add: le_bytes_def)

lemma links_view: "tensors s0 a = Some ta \<Longrightarrow> links s0 F r (view_operands is_node a offset)"
  by (auto intro!: linksI simp: view_operands_def soft_def tensor_wf_def operands_def)

lemma leafy_nb [simp]: "leafy (\<lambda>t. t\<lparr>nb := f t\<rparr>)"
  by (simp add: leafy_def)

lemma soft_nb [simp]: "soft (\<lambda>t. t\<lparr>nb := [g t, x, y, z]\<rparr>)"
  by (simp add: soft_def tensor_wf_def)

lemma view_contracts:
  assumes a: "tensors s a = Some ta"
  shows "fits s (ty ta) 1 [n0] \<Longrightarrow> ctor s {} (ne_view_1d a n0 offset)"
    and "fits s (ty ta) 2 [n0, n1, 1, 1] \<Longrightarrow> ctor s {} (ne_view_2d a n0 n1 nb1 offset)"
    and "fits s (ty ta) 3 [n0, n1, n2, 1] \<Longrightarrow> ctor s {} (ne_view_3d a n0 n1 n2 nb1 nb2 offset)"
    and "fits s (ty ta) 4 [n0, n1, n2, n3] \<Longrightarrow> ctor s {} (ne_view_4d a n0 n1 n2 n3 nb1 nb2 nb3 offset)"
  unfolding ne_view_1d_def ne_view_2d_def ne_view_3d_def ne_view_4d_def
  by ((intro ctor_rules ctor_upd ctor_get [OF a] links_view [OF a] insertI1 leafy_nb soft_nb; assumption)+)

section \<open>Operations with a parameter tensor\<close>

lemma padding_entries_length [simp]: "length (padding_entries n_padding bs) = nat bs"
  by (simp add: padding_entries_def)

lemma ctor_Let: "ctor s0 F (f x) \<Longrightarrow> ctor s0 F (let y = x in f y)"
  by simp

lemma int_count_simps [simp]: "int_count 2" "int_count 3" "int_count 4" "int_count 5"
  by (simp_all add: int_count_def)

lemma int_count_batch: "0 \<le> to_int32 n \<Longrightarrow> 0 \<le> k \<Longrightarrow> k \<le> 8 \<Longrightarrow> int_count (k + to_int32 n)"
  using to_int32_range [of n] by (simp add: int_count_def)

lemma mask_contracts:
  assumes a: "tensors s a = Some ta"
  shows "0 \<le> to_int32 (ne ta ! 3) \<Longrightarrow> ctor s {} (ne_diag_mask_inf_impl a n_past inplace n_padding pl)"
    and "0 \<le> to_int32 (ne ta ! 3) \<Longrightarrow> ctor s {} (ne_padding_mask_inf_impl a n_past n_padding pl inplace)"
    and "ctor s {} (ne_diag_mask_zero_impl a n_past inplace)"
    and "ctor s {} (ne_rope_back a n_past nd mode)"
    and "ctor s {} (ne_alibi a n_past n_head bias_max)"
    and "ctor s {} (ne_clamp a vmin vmax)"
  unfolding ne_diag_mask_inf_impl_def ne_padding_mask_inf_impl_def ne_diag_mask_zero_impl_def
    ne_rope_back_def ne_alibi_def ne_clamp_def
  by ((intro ctor_rules ctor_Let ctor_get [OF a] links_rules int_count_batch int_count_simps;
       (assumption | auto simp: link_simps a; fail))+)

lemma view_params_length [simp]: "length (view_params nb1 nb2 nb3 offset inplace) = 5"
  by (simp add: view_params_def)

lemma param_contracts:
  assumes a: "tensors s a = Some ta" and b: "tensors s b = Some tb"
  shows "ctor s {} (ne_acc_impl a b nb1 nb2 nb3 offset inplace)"
    and "ctor s {} (ne_set_impl a b nb1 nb2 nb3 offset inplace)"
    and "ctor s {} (ne_flash_attn_kv_update a b n_past no_zeroing is_v)"
  unfolding ne_acc_impl_def ne_set_impl_def ne_flash_attn_kv_update_def
  subgoal
    by (intro ctor_rules ctor_get [OF a] ctor_get [OF b] links_rules int_count_simps; auto simp: link_simps a b)
  subgoal
    by (intro ctor_rules ctor_get [OF a] ctor_get [OF b] links_rules int_count_simps; auto simp: link_simps a b)
  subgoal
    by (intro ctor_rules ctor_link linksI int_count_simps)
       (auto simp: soft_def tensor_wf_def operands_def link_simps a b
        dest!: set_update_subset_insert [THEN subsetD])
  done

lemma rope_contract:
  assumes a: "tensors s a = Some ta" and c: "cossin = NULL \<or> tensors s cossin \<noteq> None"
    and "0 \<le> to_int32 (ne ta ! 3)"
  shows "ctor s {} (ne_rope_impl a n_past nd mode prompt_size inplace n_keep cossin n_padding pl fb fs)"
  unfolding ne_rope_impl_def using assms(3) c
  by (intro ctor_rules ctor_Let ctor_get [OF a] links_rules int_count_batch) (auto simp: link_simps a)

lemma conv_contracts:
  assumes a: "tensors s a = Some ta" and b: "tensors s b = Some tb"
  shows "fits s NE_TYPE_F32 2 [ne tb ! 0, ne ta ! 2, 1, 1] \<Longrightarrow> ctor s {} (ne_conv_1d_1s a b)"
    and "(\<And>n0. cdiv (ne tb ! 0) 2 = Inr n0 \<Longrightarrow> fits s NE_TYPE_F32 2 [n0, ne ta ! 2, 1, 1]) \<Longrightarrow>
         ctor s {} (ne_conv_1d_2s a b)"
    and "(\<And>n0. ne_calc_conv_output_size (ne tb ! 0) (ne ta ! 0) s0 p0 d0 = Inr n0 \<Longrightarrow>
            fits s NE_TYPE_F32 2 [n0, ne ta ! 2, 1, 1]) \<Longrightarrow>
         ctor s {} (ne_conv_1d a b s0 p0 d0)"
  unfolding ne_conv_1d_1s_def ne_conv_1d_2s_def ne_conv_1d_def
  by ((intro ctor_rules ctor_get [OF a] ctor_get [OF b] links2 [OF a b];
       (assumption | auto; fail))+)

lemma debug_contract:
  assumes a: "tensors s a = Some ta"
  shows "ctor s {} (ne_debug_op a cb)"
  unfolding ne_debug_op_def
  by (intro ctor_rules ctor_link linksI) (auto simp: soft_def tensor_wf_def operands_def link_simps a)

lemma ctor_flash_checks:
  "ctor s0 F k \<Longrightarrow> ctor s0 F (sseq (flash_attn_checks tq tk tv) k)"
  by (auto simp: ctor_def trip_def flash_attn_checks_def sseq_Inr_iff ne_assert_Inr_iff ne_assertR_Inr_iff
      Let_def)

definition attn_shape_of :: "ne_tensor \<Rightarrow> ne_tensor \<Rightarrow> attn_shape_t" where
  "attn_shape_of tq tk = \<lparr>batch_size = to_int32 (ne tq ! 3), head_num = to_int32 (ne tq ! 2),
     heads_kv = to_int32 (ne tq ! 0), head_size = to_int32 (ne tq ! 1), sl_q = to_int32 (ne tk ! 1), sl_kv = 0\<rparr>"

lemma flash_attn_contract:
  assumes q: "tensors s q = Some tq" and k: "tensors s k = Some tk" and v: "tensors s v = Some tv"
    and f1: "fits s NE_TYPE_F32 4 [to_int32 (ne tq ! 0), to_int32 (ne tq ! 2), to_int32 (ne tq ! 1), to_int32 (ne tq ! 3)]"
    and f2: "fits s NE_TYPE_I8 1 [size_to_i64 (ws (attn_shape_of tq tk))]"
  shows "ctor s {} (ne_flash_attn ws q k v scale flags)"
  unfolding ne_flash_attn_def Let_def new_dims_defs
  by (intro ctor_rules ctor_flash_checks ctor_get [OF q] ctor_get [OF k] ctor_get [OF v] ctor_link linksI f1
      f2 [unfolded attn_shape_of_def])
     (auto simp: soft_def tensor_wf_def operands_def link_simps q k v
      dest!: set_update_subset_insert [THEN subsetD])

text \<open>The tensor-parallel operations.\<close>

lemma tp_concat_contract:
  assumes a: "tensors s a = Some ta"
    and f: "fits s (ty ta) (n_dims ta) [ne ta ! 0 * world_size, ne ta ! 1, ne ta ! 2, ne ta ! 3]"
      "fits s (ty ta) (n_dims ta) [ne ta ! 0, ne ta ! 1 * world_size, ne ta ! 2, ne ta ! 3]"
  shows "ctor s {} (ne_tp_concat world_size rank a p_mode)"
proof -
  have "trip (building s {}) (case p_mode of
         TENSOR_1D_COL \<Rightarrow> ne_new_tensor (ty ta) (n_dims ta)
           [ne ta ! 0 * world_size, ne ta ! 1, ne ta ! 2, ne ta ! 3] NE_SIZE_CALC
       | TENSOR_1D_ROW \<Rightarrow> ne_new_tensor (ty ta) (n_dims ta)
           [ne ta ! 0, ne ta ! 1 * world_size, ne ta ! 2, ne ta ! 3] NE_SIZE_CALC
       | _ \<Rightarrow> fail NE_Assert) (added s {})"
    using trip_new [OF f(1)] trip_new [OF f(2)] by (cases p_mode) (simp_all add: trip_fail)
  then show ?thesis
    unfolding ne_tp_concat_def
    by (intro ctor_rules ctor_after ctor_get [OF a] links_rules int_count_simps) (auto simp: link_simps a)
qed

text \<open>User-defined maps keep the contract when no scratch buffer is active.\<close>

lemma ctor_addr:
  assumes "\<And>c. ctor s0 (insert c F) (f c)"
  shows "trip (\<lambda>s. building s0 F s \<and> s_data (scratch (ctx s)) = NULL) (sbind (addr_tensor g) f) (extends s0)"
proof (rule trip_sbind [OF trip_addr_tensor])
  fix c show "trip (added s0 F c) (f c) (extends s0)"
    using assms [of c] by (auto simp: ctor_def trip_def added_def)
qed

lemma trip_read: "(\<And>t. trip P (f t) Q) \<Longrightarrow> trip P (sbind (get_t a) f) Q"
  unfolding trip_def sbind_Inr_iff get_t_Inr_iff by blast

lemma map_contracts:
  assumes a: "tensors s a = Some ta" and b: "tensors s b = Some tb"
  defines "P \<equiv> \<lambda>s'. building s {} s' \<and> s_data (scratch (ctx s')) = NULL"
  shows "trip P (ne_map_unary_impl_f32 a f inplace) (extends s)"
    and "trip P (ne_map_binary_impl_f32 a b f inplace) (extends s)"
proof -
  show "trip P (ne_map_unary_impl_f32 a f inplace) (extends s)"
    unfolding ne_map_unary_impl_f32_def P_def
    by (intro trip_node_unless ctor_addr ctor_rules links_rules) (auto simp: link_simps a)
  show "trip P (ne_map_binary_impl_f32 a b f inplace) (extends s)"
    unfolding ne_map_binary_impl_f32_def P_def
    by (intro trip_read trip_assert trip_node_unless ctor_addr ctor_rules links_rules)
       (auto simp: link_simps a b)
qed

section \<open>Permuted views\<close>

text \<open>The header of a view, before its dimensions are rearranged.\<close>

definition view_header :: "ne_tensor \<Rightarrow> ne_tensor \<Rightarrow> bool" where
  "view_header ta t \<longleftrightarrow> ty t = ty ta \<and> n_dims t = n_dims ta \<and> ne t = new_ne (n_dims ta) (ne ta) \<and> nb t = nb ta"

lemma trip_view_header:
  assumes a: "tensors s0 a = Some ta"
  shows "trip (building s0 F) (ne_view_tensor a)
           (\<lambda>p s. added s0 F p s \<and> (\<forall>t. tensors s p = Some t \<longrightarrow> view_header ta t))"
proof (rule tripI)
  fix s p s'
  assume b: "building s0 F s" and run: "ne_view_tensor a s = Inr (p, s')"
  have t: "tensors s a = Some ta" by (rule building_old [OF b a])
  from run t obtain s1 where r: "ne_new_tensor_impl (ty ta) (n_dims ta) (ne ta) (data ta) (tsize ta) s = Inr (p, s1)"
    "upd_t p (\<lambda>r. r\<lparr>nb := nb ta\<rparr>) s1 = Inr ((), s')"
    by (auto simp: ne_view_tensor_def sbind_Inr_iff sseq_Inr_iff get_t_Inr_iff)
  have "good_request (ctx s) (ty ta) (n_dims ta) (ne ta) NULL (tsize ta)"
    using building_t_ok [OF b t] by (simp add: t_ok_def)
  from new_tensor_allocated [OF building_heap_ok [OF b] this r(1)] r(2) building_heap_ok [OF b]
  have "view_header ta t" if "tensors s' p = Some t" for t
    using that by (auto simp: upd_t_Inr_iff allocated_def heap_ok_def view_header_def)
  with tripD [OF trip_view b run]
  show "added s0 F p s' \<and> (\<forall>t. tensors s' p = Some t \<longrightarrow> view_header ta t)" by blast
qed

text \<open>Only the block types depend on the given byte count, and they do not depend on the dimensions.\<close>

lemma good_request_dims:
  "good_request c type nd dims NULL n \<Longrightarrow> good_request c type nd dims' NULL n' \<Longrightarrow>
     good_request c type nd dims NULL n'"
  by (auto simp: good_request_def request_size_def data_size_needed_def split: if_splits)

lemma ctor_rearranged:
  assumes a: "tensors s0 a = Some ta" and g: "fits s0 (ty ta) (n_dims ta) dims"
    and f: "\<And>t. tensor_wf t \<Longrightarrow> view_header ta t \<Longrightarrow> tensor_wf (f ta t) \<and> ne (f ta t) = dims \<and> ty (f ta t) = ty t \<and>
              n_dims (f ta t) = n_dims t \<and> tsize (f ta t) = tsize t"
    and l: "leafy (f ta)" and k: "\<And>p. ctor s0 (insert p F) (k ta p)"
  shows "ctor s0 F (sbind (ne_view_tensor a) (\<lambda>p. sbind (get_t a) (\<lambda>ta. sseq (upd_t p (f ta)) (k ta p))))"
  unfolding ctor_def
proof (rule trip_sbind [OF trip_view_header [OF a]], rule tripI)
  fix p s x s'
  assume b: "added s0 F p s \<and> (\<forall>t. tensors s p = Some t \<longrightarrow> view_header ta t)"
    and run: "sbind (get_t a) (\<lambda>ta. sseq (upd_t p (f ta)) (k ta p)) s = Inr (x, s')"
  from b have bu: "building s0 (insert p F) s" by (simp add: added_def)
  from run obtain u t where u: "tensors s a = Some u" and t: "tensors s p = Some t"
    and r: "k u p (s\<lparr>tensors := (tensors s)(p \<mapsto> f u t)\<rparr>) = Inr (x, s')"
    unfolding sseq_Inr_iff sbind_Inr_iff get_t_Inr_iff upd_t_Inr_iff by blast
  have [simp]: "u = ta" using building_old [OF bu a] u by simp
  have vh: "view_header ta t" using b t by blast
  have tok: "t_ok (ctx s) t" by (rule building_t_ok [OF bu t])
  have "good_request (ctx s) (ty t) (n_dims t) dims NULL (tsize t)"
    using good_request_dims [OF g [folded building_good [OF bu]]] tok vh by (auto simp: t_ok_def view_header_def)
  then have "t_ok (ctx s) (f ta t)" using f [of t] tok vh by (simp add: t_ok_def)
  from building_upd [where f = "f ta", OF bu insertI1 l t this] k [of p] r
  show "extends s0 x s'" by (auto simp: ctor_def trip_def)
qed

lemma scatter4_length [simp]: "length (scatter4 i j k l y) = 4"
  by (simp add: scatter4_def)

lemma permute_contract:
  assumes a: "tensors s a = Some ta"
    and g: "fits s (ty ta) (n_dims ta)
      (scatter4 (nat axis0) (nat axis1) (nat axis2) (nat axis3) (map to_int32 (ne ta)))"
  shows "ctor s {} (ne_permute a axis0 axis1 axis2 axis3)"
  unfolding ne_permute_def Let_def
  by (intro ctor_rules ctor_rearranged [OF a g] linksI)
     (auto simp: leafy_def soft_def tensor_wf_def operands_def link_simps a)

lemma transpose_contract:
  assumes a: "tensors s a = Some ta"
    and g: "fits s (ty ta) (n_dims ta) ((new_ne (n_dims ta) (ne ta))[0 := ne ta ! 1, 1 := ne ta ! 0])"
  shows "ctor s {} (ne_transpose a)"
  unfolding ne_transpose_def
  by (intro ctor_rules ctor_rearranged [OF a g] links1 [OF a])
     (auto simp: leafy_def soft_def tensor_wf_def view_header_def)

lemma split_contract:
  assumes a: "tensors s a = Some ta"
    and f: "\<And>n0. cdiv (ne ta ! 0) world_size = Inr n0 \<Longrightarrow> fits s (ty ta) (n_dims ta) [n0, ne ta ! 1, ne ta ! 2, ne ta ! 3]"
      "\<And>n1. cdiv (ne ta ! 1) world_size = Inr n1 \<Longrightarrow> fits s (ty ta) (n_dims ta) [ne ta ! 0, n1, ne ta ! 2, ne ta ! 3]"
  shows "ctor s {} (ne_split world_size rank a p_mode tr)"
proof -
  have rows: "trip (building s {}) (split_rows world_size rank ta) (added s {})"
    unfolding split_rows_def Let_def
    by (intro trip_liftR trip_if trip_new_impl f trip_fail)
  have cols: "trip (building s {}) (sbind (liftR (cdiv (ne ta ! 0) world_size)) (\<lambda>n0.
      ne_new_tensor (ty ta) (n_dims ta) [n0, ne ta ! 1, ne ta ! 2, ne ta ! 3] NE_SIZE_CALC)) (added s {})"
    by (intro trip_liftR trip_new f)
  have "trip (building s {}) (case p_mode of
         TENSOR_1D_COL \<Rightarrow>
           sbind (liftR (cdiv (ne ta ! 0) world_size)) (\<lambda>n0.
           ne_new_tensor (ty ta) (n_dims ta) [n0, ne ta ! 1, ne ta ! 2, ne ta ! 3] NE_SIZE_CALC)
       | TENSOR_1D_ROW \<Rightarrow> split_rows world_size rank ta
       | _ \<Rightarrow> fail NE_Assert) (added s {})"
    using rows cols by (cases p_mode) (simp_all add: trip_fail)
  then show ?thesis
    unfolding ne_split_def
    by (intro ctor_rules ctor_after ctor_get [OF a] links_rules int_count_simps) (auto simp: link_simps a)
qed

section \<open>The heap as a graph\<close>

text \<open>
  Operand pointers are valid, and some ranking decreases along them.
\<close>

definition closed_heap :: "ne_state \<Rightarrow> bool" where
  "closed_heap s \<longleftrightarrow> (\<forall>p t q. tensors s p = Some t \<longrightarrow> q \<in> operands t \<longrightarrow> tensors s q \<noteq> None)"

definition ranked :: "(ptr \<Rightarrow> nat) \<Rightarrow> ne_state \<Rightarrow> bool" where
  "ranked rk s \<longleftrightarrow> (\<forall>p t q. tensors s p = Some t \<longrightarrow> q \<in> operands t \<longrightarrow> rk q < rk p)"

definition graph_ok :: "ne_state \<Rightarrow> bool" where
  "graph_ok s \<longleftrightarrow> heap_ok s \<and> closed_heap s \<and> (\<exists>rk. ranked rk s)"

lemma finite_operands [simp]: "finite (operands t)"
  by (simp add: operands_def)

lemma extends_ranked:
  assumes e: "extends s0 r s" and c: "closed_heap s0" and rk: "ranked rk s0"
  shows "\<exists>rk'. ranked rk' s"
proof -
  define rk0 where "rk0 p = (if tensors s0 p = None then 0 else Suc (rk p))" for p
  define ops where "ops = (case tensors s r of None \<Rightarrow> {} | Some t \<Rightarrow> operands t)"
  define rk' where "rk' p = (if p = r \<and> tensors s0 p = None then Suc (Max (insert 0 (rk0 ` ops))) else rk0 p)" for p
  have fin: "finite ops" by (simp add: ops_def split: option.split)
  have old: "tensors s p = Some t" if "tensors s0 p = Some t" for p t
    using e that by (auto simp: extends_def grows_def map_le_def dom_def)
  have "rk' q < rk' p" if t: "tensors s p = Some t" "q \<in> operands t" for p t q
  proof (cases "tensors s0 p")
    case None
    with e t have p: "p = r" and q: "q \<noteq> r" by (auto simp: extends_def)
    have "rk0 q \<le> Max (insert 0 (rk0 ` ops))" using t p fin by (intro Max_ge) (auto simp: ops_def)
    then show ?thesis using p q None by (simp add: rk'_def)
  next
    case (Some t0)
    with old t have t0: "t0 = t" by auto
    have "rk q < rk p" "tensors s0 q \<noteq> None"
      using rk c Some t t0 by (auto simp: ranked_def closed_heap_def)
    then show ?thesis using Some by (auto simp: rk'_def rk0_def)
  qed
  then show ?thesis by (auto simp: ranked_def)
qed

lemma extends_closed:
  assumes e: "extends s0 r s" and c: "closed_heap s0"
  shows "closed_heap s"
  unfolding closed_heap_def
proof (intro allI impI)
  fix p t q assume t: "tensors s p = Some t" "q \<in> operands t"
  have old: "tensors s p' = Some u" if "tensors s0 p' = Some u" for p' u
    using e that by (auto simp: extends_def grows_def map_le_def dom_def)
  show "tensors s q \<noteq> None"
  proof (cases "tensors s0 p")
    case None
    with e t show ?thesis unfolding extends_def by blast
  next
    case (Some u)
    with old t have "u = t" by auto
    with Some c t obtain v where "tensors s0 q = Some v"
      unfolding closed_heap_def by blast
    then show ?thesis using old by auto
  qed
qed

lemma building_start: "heap_ok s \<Longrightarrow> building s {} s"
  by (simp add: building_def grows_def map_le_def)

lemma ctor_extends: "heap_ok s \<Longrightarrow> ctor s {} m \<Longrightarrow> m s = Inr (r, s') \<Longrightarrow> extends s r s'"
  by (auto simp: ctor_def dest: tripD building_start)

text \<open>A call that keeps the contract keeps the graph.\<close>

lemma graph_ok_extends:
  assumes "graph_ok s" "extends s r s'"
  shows "graph_ok s'"
  using assms extends_closed [OF assms(2)] extends_ranked [OF assms(2)]
  by (auto simp: graph_ok_def extends_def grows_def)

section \<open>Programs that build graphs\<close>

text \<open>
  The calls of the constructors, grouped by their arguments. Pointer arguments are valid; where
  a constructor asks for a shape of its own, the shape is representable.
\<close>

definition unary_inplace :: "(ptr \<Rightarrow> bool \<Rightarrow> ptr neop) set" where
  "unary_inplace = {ne_dup_impl, ne_sqr_impl, ne_sqrt_impl, ne_log_impl, ne_abs_impl, ne_sgn_impl,
     ne_neg_impl, ne_step_impl, ne_relu_impl, ne_gelu_impl, ne_silu_impl, ne_cont_impl, ne_norm_impl,
     ne_soft_max_impl}"

definition binary_inplace :: "(ptr \<Rightarrow> ptr \<Rightarrow> bool \<Rightarrow> ptr neop) set" where
  "binary_inplace = {ne_add_impl, ne_add1_impl, ne_sub_impl, ne_mul_impl, ne_div_impl, ne_scale_impl,
     ne_cpy_impl}"

definition region_inplace :: "(ptr \<Rightarrow> ptr \<Rightarrow> nat \<Rightarrow> nat \<Rightarrow> nat \<Rightarrow> nat \<Rightarrow> bool \<Rightarrow> ptr neop) set" where
  "region_inplace = {ne_acc_impl, ne_set_impl}"

inductive node_call :: "ne_state \<Rightarrow> ptr \<Rightarrow> ne_state \<Rightarrow> bool" where
  c_unary: "mk \<in> unary_inplace \<Longrightarrow> tensors s a = Some ta \<Longrightarrow> mk a inplace s = Inr (r, s') \<Longrightarrow> node_call s r s'"
| c_simple: "mk \<in> {ne_dump_tensor, ne_all_reduce} \<Longrightarrow> tensors s a = Some ta \<Longrightarrow> mk a s = Inr (r, s') \<Longrightarrow>
    node_call s r s'"
| c_debug: "tensors s a = Some ta \<Longrightarrow> ne_debug_op a cb s = Inr (r, s') \<Longrightarrow> node_call s r s'"
| c_rms_norm: "tensors s a = Some ta \<Longrightarrow> ne_rms_norm_impl a inplace eps s = Inr (r, s') \<Longrightarrow> node_call s r s'"
| c_binary: "mk \<in> binary_inplace \<Longrightarrow> tensors s a = Some ta \<Longrightarrow> tensors s b = Some tb \<Longrightarrow>
    mk a b inplace s = Inr (r, s') \<Longrightarrow> node_call s r s'"
| c_back: "mk \<in> {ne_silu_back, ne_rms_norm_back} \<Longrightarrow> tensors s a = Some ta \<Longrightarrow> tensors s b = Some tb \<Longrightarrow>
    mk a b s = Inr (r, s') \<Longrightarrow> node_call s r s'"
| c_region: "mk \<in> region_inplace \<Longrightarrow> tensors s a = Some ta \<Longrightarrow> tensors s b = Some tb \<Longrightarrow>
    mk a b nb1 nb2 nb3 offset inplace s = Inr (r, s') \<Longrightarrow> node_call s r s'"
| c_kv_update: "tensors s a = Some ta \<Longrightarrow> tensors s b = Some tb \<Longrightarrow>
    ne_flash_attn_kv_update a b n_past no_zeroing is_v s = Inr (r, s') \<Longrightarrow> node_call s r s'"
| c_sum: "tensors s a = Some ta \<Longrightarrow> fits s (ty ta) 1 [1] \<Longrightarrow> ne_sum a s = Inr (r, s') \<Longrightarrow> node_call s r s'"
| c_sum_rows: "tensors s a = Some ta \<Longrightarrow>
    good_request (ctx s) (ty ta) (n_dims ta)
      (map (\<lambda>i. if 1 \<le> i \<and> i < n_dims ta then ne ta ! i else 1) [0..<4]) NULL (tsize ta) \<Longrightarrow>
    ne_sum_rows a s = Inr (r, s') \<Longrightarrow> node_call s r s'"
| c_mean: "tensors s a = Some ta \<Longrightarrow> fits s NE_TYPE_F32 (n_dims ta) [1, ne ta ! 1, ne ta ! 2, ne ta ! 3] \<Longrightarrow>
    ne_mean a s = Inr (r, s') \<Longrightarrow> node_call s r s'"
| c_diag: "tensors s a = Some ta \<Longrightarrow>
    fits s (ty ta) (max (n_dims ta) 2) [ne ta ! 0, ne ta ! 0, ne ta ! 2, ne ta ! 3] \<Longrightarrow>
    ne_diag a s = Inr (r, s') \<Longrightarrow> node_call s r s'"
| c_mul_mat: "tensors s a = Some ta \<Longrightarrow> tensors s b = Some tb \<Longrightarrow>
    fits s NE_TYPE_F32 (max (n_dims ta) (n_dims tb)) [ne ta ! 1, ne tb ! 1, ne tb ! 2, ne tb ! 3] \<Longrightarrow>
    ne_mul_mat a b s = Inr (r, s') \<Longrightarrow> node_call s r s'"
| c_repeat: "tensors s a = Some ta \<Longrightarrow> tensors s b = Some tb \<Longrightarrow> fits s (ty ta) (n_dims tb) (ne tb) \<Longrightarrow>
    ne_repeat a b s = Inr (r, s') \<Longrightarrow> node_call s r s'"
| c_get_rows: "tensors s a = Some ta \<Longrightarrow> tensors s b = Some tb \<Longrightarrow> fits s NE_TYPE_F32 2 [ne ta ! 0, ne tb ! 0] \<Longrightarrow>
    ne_get_rows a b s = Inr (r, s') \<Longrightarrow> node_call s r s'"
| c_bias: "tensors s a = Some ta \<Longrightarrow> tensors s b = Some tb \<Longrightarrow> tensors s c = Some tc \<Longrightarrow>
    fits s (ty tc) (min (n_dims ta) (n_dims tc)) [ne ta ! 1, ne tc ! 1, ne ta ! 2, ne tc ! 3] \<Longrightarrow>
    ne_mul_mat_with_bias a b c s = Inr (r, s') \<Longrightarrow> node_call s r s'"
| c_get_rows_back: "tensors s a = Some ta \<Longrightarrow> tensors s b = Some tb \<Longrightarrow> tensors s c = Some tc \<Longrightarrow>
    fits s NE_TYPE_F32 2 [ne tc ! 0, ne tc ! 1] \<Longrightarrow>
    ne_get_rows_back a b c s = Inr (r, s') \<Longrightarrow> node_call s r s'"
| c_ffn_gelu: "tensors s a = Some ta \<Longrightarrow> tensors s b = Some tb \<Longrightarrow> tensors s c = Some tc \<Longrightarrow>
    fits s NE_TYPE_F32 (n_dims tc) (ffn_dims tb tc) \<Longrightarrow> fits s NE_TYPE_F32 (n_dims tc) (ffn_dims ta tc) \<Longrightarrow>
    ne_ffn_gelu a b c s = Inr (r, s') \<Longrightarrow> node_call s r s'"
| c_qkv: "tensors s a = Some ta \<Longrightarrow> tensors s b = Some tb \<Longrightarrow> tensors s c = Some tc \<Longrightarrow> tensors s d = Some td \<Longrightarrow>
    fits s NE_TYPE_F32 (min (n_dims td) (n_dims ta)) [ne ta ! 1, ne td ! 1, ne td ! 2 * 3, ne td ! 3] \<Longrightarrow>
    ne_mul_qkv a b c d s = Inr (r, s') \<Longrightarrow> node_call s r s'"
| c_ffn_silu: "tensors s a = Some ta \<Longrightarrow> tensors s b = Some tb \<Longrightarrow> tensors s c = Some tc \<Longrightarrow> tensors s d = Some td \<Longrightarrow>
    fits s NE_TYPE_F32 (n_dims td) (ffn_dims tb td) \<Longrightarrow> fits s NE_TYPE_F32 (n_dims td) (ffn_dims ta td) \<Longrightarrow>
    ne_ffn_silu a b c d s = Inr (r, s') \<Longrightarrow> node_call s r s'"
| c_ffn_add_gelu: "tensors s a = Some ta \<Longrightarrow> tensors s b = Some tb \<Longrightarrow> tensors s c = Some tc \<Longrightarrow>
    tensors s d = Some td \<Longrightarrow> tensors s e = Some te \<Longrightarrow>
    fits s NE_TYPE_F32 (n_dims te) (ffn_dims tb te) \<Longrightarrow> fits s NE_TYPE_F32 (n_dims te) (ffn_dims ta te) \<Longrightarrow>
    ne_ffn_add_gelu a b c d e s = Inr (r, s') \<Longrightarrow> node_call s r s'"
| c_flash_ff: "tensors s a = Some ta \<Longrightarrow> tensors s b = Some tb \<Longrightarrow> tensors s c = Some tc \<Longrightarrow>
    tensors s d = Some td \<Longrightarrow> tensors s e = Some te \<Longrightarrow> fits s NE_TYPE_F32 4 (ne ta) \<Longrightarrow>
    ne_flash_ff a b c d e s = Inr (r, s') \<Longrightarrow> node_call s r s'"
| c_reshape: "tensors s a = Some ta \<Longrightarrow> tensors s b = Some tb \<Longrightarrow> fits s (ty ta) (n_dims tb) (ne tb) \<Longrightarrow>
    ne_reshape a b s = Inr (r, s') \<Longrightarrow> node_call s r s'"
| c_reshape_1d: "tensors s a = Some ta \<Longrightarrow> fits s (ty ta) 1 [n0] \<Longrightarrow>
    ne_reshape_1d a n0 s = Inr (r, s') \<Longrightarrow> node_call s r s'"
| c_reshape_2d: "tensors s a = Some ta \<Longrightarrow> fits s (ty ta) 2 [n0, n1] \<Longrightarrow>
    ne_reshape_2d a n0 n1 s = Inr (r, s') \<Longrightarrow> node_call s r s'"
| c_reshape_3d: "tensors s a = Some ta \<Longrightarrow> fits s (ty ta) 3 [n0, n1, n2] \<Longrightarrow>
    ne_reshape_3d a n0 n1 n2 s = Inr (r, s') \<Longrightarrow> node_call s r s'"
| c_reshape_4d: "tensors s a = Some ta \<Longrightarrow> fits s (ty ta) 4 [n0, n1, n2, n3] \<Longrightarrow>
    ne_reshape_4d a n0 n1 n2 n3 s = Inr (r, s') \<Longrightarrow> node_call s r s'"
| c_view_1d: "tensors s a = Some ta \<Longrightarrow> fits s (ty ta) 1 [n0] \<Longrightarrow>
    ne_view_1d a n0 offset s = Inr (r, s') \<Longrightarrow> node_call s r s'"
| c_view_2d: "tensors s a = Some ta \<Longrightarrow> fits s (ty ta) 2 [n0, n1, 1, 1] \<Longrightarrow>
    ne_view_2d a n0 n1 nb1 offset s = Inr (r, s') \<Longrightarrow> node_call s r s'"
| c_view_3d: "tensors s a = Some ta \<Longrightarrow> fits s (ty ta) 3 [n0, n1, n2, 1] \<Longrightarrow>
    ne_view_3d a n0 n1 n2 nb1 nb2 offset s = Inr (r, s') \<Longrightarrow> node_call s r s'"
| c_view_4d: "tensors s a = Some ta \<Longrightarrow> fits s (ty ta) 4 [n0, n1, n2, n3] \<Longrightarrow>
    ne_view_4d a n0 n1 n2 n3 nb1 nb2 nb3 offset s = Inr (r, s') \<Longrightarrow> node_call s r s'"
| c_permute: "tensors s a = Some ta \<Longrightarrow>
    fits s (ty ta) (n_dims ta) (scatter4 (nat i) (nat j) (nat k) (nat l) (map to_int32 (ne ta))) \<Longrightarrow>
    ne_permute a i j k l s = Inr (r, s') \<Longrightarrow> node_call s r s'"
| c_transpose: "tensors s a = Some ta \<Longrightarrow>
    fits s (ty ta) (n_dims ta) ((new_ne (n_dims ta) (ne ta))[0 := ne ta ! 1, 1 := ne ta ! 0]) \<Longrightarrow>
    ne_transpose a s = Inr (r, s') \<Longrightarrow> node_call s r s'"
| c_mask_inf: "tensors s a = Some ta \<Longrightarrow> 0 \<le> to_int32 (ne ta ! 3) \<Longrightarrow>
    ne_diag_mask_inf_impl a n_past inplace n_padding pl s = Inr (r, s') \<Longrightarrow> node_call s r s'"
| c_padding_mask: "tensors s a = Some ta \<Longrightarrow> 0 \<le> to_int32 (ne ta ! 3) \<Longrightarrow>
    ne_padding_mask_inf_impl a n_past n_padding pl inplace s = Inr (r, s') \<Longrightarrow> node_call s r s'"
| c_mask_zero: "tensors s a = Some ta \<Longrightarrow> ne_diag_mask_zero_impl a n_past inplace s = Inr (r, s') \<Longrightarrow>
    node_call s r s'"
| c_rope: "tensors s a = Some ta \<Longrightarrow> cossin = NULL \<or> tensors s cossin \<noteq> None \<Longrightarrow> 0 \<le> to_int32 (ne ta ! 3) \<Longrightarrow>
    ne_rope_impl a n_past nd mode prompt_size inplace n_keep cossin n_padding pl fb fs s = Inr (r, s') \<Longrightarrow>
    node_call s r s'"
| c_rope_back: "tensors s a = Some ta \<Longrightarrow> ne_rope_back a n_past nd mode s = Inr (r, s') \<Longrightarrow> node_call s r s'"
| c_alibi: "tensors s a = Some ta \<Longrightarrow> ne_alibi a n_past n_head bias_max s = Inr (r, s') \<Longrightarrow> node_call s r s'"
| c_clamp: "tensors s a = Some ta \<Longrightarrow> ne_clamp a vmin vmax s = Inr (r, s') \<Longrightarrow> node_call s r s'"
| c_conv_1s: "tensors s a = Some ta \<Longrightarrow> tensors s b = Some tb \<Longrightarrow>
    fits s NE_TYPE_F32 2 [ne tb ! 0, ne ta ! 2, 1, 1] \<Longrightarrow> ne_conv_1d_1s a b s = Inr (r, s') \<Longrightarrow> node_call s r s'"
| c_conv_2s: "tensors s a = Some ta \<Longrightarrow> tensors s b = Some tb \<Longrightarrow> cdiv (ne tb ! 0) 2 = Inr n0 \<Longrightarrow>
    fits s NE_TYPE_F32 2 [n0, ne ta ! 2, 1, 1] \<Longrightarrow> ne_conv_1d_2s a b s = Inr (r, s') \<Longrightarrow> node_call s r s'"
| c_conv: "tensors s a = Some ta \<Longrightarrow> tensors s b = Some tb \<Longrightarrow>
    ne_calc_conv_output_size (ne tb ! 0) (ne ta ! 0) s0 p0 d0 = Inr n0 \<Longrightarrow>
    fits s NE_TYPE_F32 2 [n0, ne ta ! 2, 1, 1] \<Longrightarrow> ne_conv_1d a b s0 p0 d0 s = Inr (r, s') \<Longrightarrow> node_call s r s'"
| c_flash_attn: "tensors s q = Some tq \<Longrightarrow> tensors s k = Some tk \<Longrightarrow> tensors s v = Some tv \<Longrightarrow>
    fits s NE_TYPE_F32 4 [to_int32 (ne tq ! 0), to_int32 (ne tq ! 2), to_int32 (ne tq ! 1), to_int32 (ne tq ! 3)] \<Longrightarrow>
    fits s NE_TYPE_I8 1 [size_to_i64 (ws (attn_shape_of tq tk))] \<Longrightarrow>
    ne_flash_attn ws q k v scale flags s = Inr (r, s') \<Longrightarrow> node_call s r s'"
| c_tp_concat: "tensors s a = Some ta \<Longrightarrow>
    fits s (ty ta) (n_dims ta) [ne ta ! 0 * world_size, ne ta ! 1, ne ta ! 2, ne ta ! 3] \<Longrightarrow>
    fits s (ty ta) (n_dims ta) [ne ta ! 0, ne ta ! 1 * world_size, ne ta ! 2, ne ta ! 3] \<Longrightarrow>
    ne_tp_concat world_size rank a p_mode s = Inr (r, s') \<Longrightarrow> node_call s r s'"
| c_split: "tensors s a = Some ta \<Longrightarrow> cdiv (ne ta ! 0) world_size = Inr n0 \<Longrightarrow> cdiv (ne ta ! 1) world_size = Inr n1 \<Longrightarrow>
    fits s (ty ta) (n_dims ta) [n0, ne ta ! 1, ne ta ! 2, ne ta ! 3] \<Longrightarrow>
    fits s (ty ta) (n_dims ta) [ne ta ! 0, n1, ne ta ! 2, ne ta ! 3] \<Longrightarrow>
    ne_split world_size rank a p_mode tr s = Inr (r, s') \<Longrightarrow> node_call s r s'"
| c_map_unary: "tensors s a = Some ta \<Longrightarrow> s_data (scratch (ctx s)) = NULL \<Longrightarrow>
    ne_map_unary_impl_f32 a f inplace s = Inr (r, s') \<Longrightarrow> node_call s r s'"
| c_map_binary: "tensors s a = Some ta \<Longrightarrow> tensors s b = Some tb \<Longrightarrow> s_data (scratch (ctx s)) = NULL \<Longrightarrow>
    ne_map_binary_impl_f32 a b f inplace s = Inr (r, s') \<Longrightarrow> node_call s r s'"

lemma unary_inplace_contract:
  "mk \<in> unary_inplace \<Longrightarrow> tensors s a = Some ta \<Longrightarrow> ctor s {} (mk a inplace)"
  unfolding unary_inplace_def
  by (elim insertE emptyE; hypsubst)
     (rule u_dup.contract u_sqr.contract u_sqrt.contract u_log.contract u_abs.contract u_sgn.contract
        u_neg.contract u_step.contract u_relu.contract u_gelu.contract u_silu.contract u_cont.contract
        unary_contracts; assumption)+

lemma binary_inplace_contract:
  "mk \<in> binary_inplace \<Longrightarrow> tensors s a = Some ta \<Longrightarrow> tensors s b = Some tb \<Longrightarrow> ctor s {} (mk a b inplace)"
  unfolding binary_inplace_def
  by (elim insertE emptyE; hypsubst) (rule binary_contracts; assumption)+

lemma region_inplace_contract:
  "mk \<in> region_inplace \<Longrightarrow> tensors s a = Some ta \<Longrightarrow> tensors s b = Some tb \<Longrightarrow>
     ctor s {} (mk a b nb1 nb2 nb3 offset inplace)"
  unfolding region_inplace_def
  by (elim insertE emptyE; hypsubst) (rule param_contracts; assumption)+

lemma node_call_extends:
  assumes "heap_ok s" "node_call s r s'"
  shows "extends s r s'"
  using assms(2)
proof cases
  case (c_map_unary a ta f inplace)
  show ?thesis
    using tripD [OF map_contracts(1) [OF c_map_unary(1) c_map_unary(1)] _ c_map_unary(3)] c_map_unary(2)
      building_start [OF assms(1)] by blast
next
  case (c_map_binary a ta b tb f inplace)
  show ?thesis
    using tripD [OF map_contracts(2) [OF c_map_binary(1,2)] _ c_map_binary(4)] c_map_binary(3)
      building_start [OF assms(1)] by blast
next
  case (c_simple mk a ta)
  then have "ctor s {} (mk a)" using unary_contracts(1,2) by auto
  then show ?thesis using ctor_extends [OF assms(1)] c_simple(3) by blast
next
  case (c_back mk a ta b tb)
  then have "ctor s {} (mk a b)" using binary_contracts(8,9) by auto
  then show ?thesis using ctor_extends [OF assms(1)] c_back(4) by blast
next
  case (c_conv_2s a ta b tb n0)
  have "ctor s {} (ne_conv_1d_2s a b)"
    by (rule conv_contracts(2) [OF c_conv_2s(1,2)]) (use c_conv_2s(3,4) in simp)
  then show ?thesis using ctor_extends [OF assms(1)] c_conv_2s(5) by blast
next
  case (c_conv a ta b tb s0 p0 d0 n0)
  have "ctor s {} (ne_conv_1d a b s0 p0 d0)"
    by (rule conv_contracts(3) [OF c_conv(1,2)]) (use c_conv(3,4) in simp)
  then show ?thesis using ctor_extends [OF assms(1)] c_conv(5) by blast
next
  case (c_split a ta world_size n0 n1 rank p_mode tr)
  have "ctor s {} (ne_split world_size rank a p_mode tr)"
    by (rule split_contract [OF c_split(1)]) (use c_split(2-5) in simp_all)
  then show ?thesis using ctor_extends [OF assms(1)] c_split(6) by blast
qed (rule ctor_extends [OF assms(1)];
     (rule unary_inplace_contract binary_inplace_contract region_inplace_contract debug_contract
        unary_contracts param_contracts reduction_contracts product_contracts product3_contracts
        product4_contracts product5_contracts reshape_contracts view_contracts permute_contract
        transpose_contract mask_contracts rope_contract conv_contracts flash_attn_contract
        tp_concat_contract; assumption)?; assumption)+

section \<open>Reachable graphs\<close>

text \<open>
  What a program does to a context besides constructor calls: new leaf tensors, trainable
  parameters (a leaf with a gradient tensor), scratch switches, names, and writes to tensor data.
\<close>

inductive node_step :: "ne_state \<Rightarrow> ne_state \<Rightarrow> bool" where
  s_call: "node_call s r s' \<Longrightarrow> node_step s s'"
| s_new: "good_request (ctx s) type nd dims NULL nbytes \<Longrightarrow>
    ne_new_tensor_impl type nd dims dat nbytes s = Inr (p, s') \<Longrightarrow> node_step s s'"
| s_set_scratch: "scratch_ok sc \<Longrightarrow> ne_set_scratch sc s = Inr (n, s') \<Longrightarrow> node_step s s'"
| s_param: "ne_set_param p s = Inr (u, s') \<Longrightarrow> node_step s s'"
| s_name: "ne_set_name p nm s = Inr (u, s') \<Longrightarrow> node_step s s'"
| s_write: "node_step s (s\<lparr>mem := m\<rparr>)"

definition graph_start :: "ne_state \<Rightarrow> bool" where
  "graph_start s \<longleftrightarrow> pool_start s \<and> mem_size (ctx s) < 2 ^ 61 \<and> tensors s = Map.empty"

lemma graph_ok_start: "graph_start s \<Longrightarrow> graph_ok s"
  using pool_inv_start [of s]
  by (auto simp: graph_start_def graph_ok_def heap_ok_def closed_heap_def ranked_def)

lemma graph_ok_upd:
  assumes g: "graph_ok s" and t: "tensors s p = Some t" and f: "soft f" "leafy f"
  shows "graph_ok (s\<lparr>tensors := (tensors s)(p \<mapsto> f t)\<rparr>)" (is "graph_ok ?s")
proof -
  have "heap_ok ?s"
    using g t f(1) heap_ok_upd [of s p t "f t"] soft_t_ok by (auto simp: graph_ok_def heap_ok_def)
  moreover have ops: "operands (f t) = operands t" using f(2) by (simp add: leafy_def operands_def)
  then have "closed_heap ?s" using g t by (auto simp: graph_ok_def closed_heap_def)
  moreover from g obtain rk where "ranked rk s" by (auto simp: graph_ok_def)
  then have "ranked rk ?s" using ops t by (auto simp: ranked_def)
  ultimately show ?thesis by (auto simp: graph_ok_def)
qed

lemma graph_ok_new:
  assumes "graph_ok s" "good_request (ctx s) type nd dims NULL nbytes"
    and "ne_new_tensor_impl type nd dims dat nbytes s = Inr (p, s')"
  shows "graph_ok s'"
proof (cases "p = NULL \<and> s' = s")
  case False
  have ok: "heap_ok s" using assms(1) by (simp add: graph_ok_def)
  from new_tensor_allocated [OF ok assms(2,3)] False obtain t where
    "allocated s p t s'" "operands t = {}" by auto
  then have "extends s p s'"
    using building_allocated [OF building_start [OF ok]]
    by (auto simp: extends_def added_def building_def allocated_def)
  then show ?thesis by (rule graph_ok_extends [OF assms(1)])
qed (use assms(1) in simp)

lemma graph_ok_frame:
  assumes "graph_ok s" "tensors s' = tensors s" "no_alloc (ctx s') = no_alloc (ctx s)"
    "mem_size (ctx s') = mem_size (ctx s)" "pool_inv s'"
  shows "graph_ok s'"
  using assms t_ok_cong [OF assms(3)]
  by (auto simp: graph_ok_def heap_ok_def closed_heap_def ranked_def)

lemma graph_ok_set_param:
  assumes "graph_ok s" "ne_set_param p s = Inr (u, s')"
  shows "graph_ok s'"
proof -
  from assms(2) obtain t s1 g where t: "tensors s p = Some t"
    and d: "ne_dup_tensor p (s\<lparr>tensors := (tensors s)(p \<mapsto> t\<lparr>is_param := True\<rparr>)\<rparr>) = Inr (g, s1)"
    and u: "upd_t p (\<lambda>t. t\<lparr>grad := g\<rparr>) s1 = Inr (u, s')"
    unfolding ne_set_param_def by (auto simp: op_Inr_iffs upd_t_Inr_iff)
  let ?t = "t\<lparr>is_param := True\<rparr>"
  let ?s = "s\<lparr>tensors := (tensors s)(p \<mapsto> ?t)\<rparr>"
  have ok: "graph_ok ?s"
    by (rule graph_ok_upd [OF assms(1) t]) (simp_all add: soft_def leafy_def tensor_wf_def)
  have "t_ok (ctx s) t" using assms(1) t by (auto simp: graph_ok_def heap_ok_def)
  then have "good_request (ctx ?s) (ty ?t) (n_dims ?t) (ne ?t) NULL (tsize ?t)" by (simp add: t_ok_def)
  moreover have "ne_new_tensor_impl (ty ?t) (n_dims ?t) (ne ?t) NULL (tsize ?t) ?s = Inr (g, s1)"
    using d by (simp add: ne_dup_tensor_def sbind_def)
  ultimately have ok1: "graph_ok s1" using graph_ok_new [OF ok] by blast
  from u obtain t1 where t1: "tensors s1 p = Some t1" "s' = s1\<lparr>tensors := (tensors s1)(p \<mapsto> t1\<lparr>grad := g\<rparr>)\<rparr>"
    unfolding upd_t_Inr_iff by blast
  show ?thesis
    unfolding t1(2) by (rule graph_ok_upd [OF ok1 t1(1)]) (simp_all add: soft_def leafy_def tensor_wf_def)
qed

lemma graph_ok_step:
  assumes "graph_ok s" "node_step s s'"
  shows "graph_ok s'"
  using assms(2)
proof cases
  case (s_call r)
  have "heap_ok s" using assms(1) by (simp add: graph_ok_def)
  from graph_ok_extends [OF assms(1) node_call_extends [OF this s_call]] show ?thesis .
next
  case (s_new type nd dims nbytes dat p)
  with assms(1) show ?thesis using graph_ok_new by blast
next
  case (s_set_scratch sc n)
  from s_set_scratch(2) have "s' = s\<lparr>ctx := (ctx s)\<lparr>scratch := sc\<rparr>\<rparr>"
    by (simp add: ne_set_scratch_def)
  moreover have "pool_step s s'" using s_set_scratch by (rule pool_step.p_set_scratch)
  moreover have "pool_inv s" using assms(1) by (simp add: graph_ok_def heap_ok_def)
  ultimately show ?thesis using pool_inv_step by (intro graph_ok_frame [OF assms(1)]) auto
next
  case (s_param p u)
  with assms(1) show ?thesis using graph_ok_set_param by blast
next
  case (s_name p nm u)
  then obtain t where t: "tensors s p = Some t"
    and s': "s' = s\<lparr>tensors := (tensors s)(p \<mapsto> t\<lparr>tname := take 31 (takeWhile (\<lambda>c. c \<noteq> CHR 0x00) nm)\<rparr>)\<rparr>"
    unfolding ne_set_name_def upd_t_Inr_iff by blast
  show ?thesis
    unfolding s' by (rule graph_ok_upd [OF assms(1) t]) (simp_all add: soft_def leafy_def tensor_wf_def)
next
  case (s_write m)
  have "pool_inv s" using assms(1) by (simp add: graph_ok_def heap_ok_def)
  then have "pool_inv s'" using s_write by (auto simp: pool_inv_def)
  then show ?thesis using s_write by (intro graph_ok_frame [OF assms(1)]) auto
qed

interpretation graph: inv_system graph_start node_step graph_ok
  by unfold_locales (fact graph_ok_start, fact graph_ok_step)

definition operand_edges :: "ne_state \<Rightarrow> (ptr \<times> ptr) set" where
  "operand_edges s = {(p, q). \<exists>t. tensors s p = Some t \<and> q \<in> operands t}"

lemma ranked_acyclic: "ranked rk s \<Longrightarrow> acyclic (operand_edges s)"
proof -
  assume "ranked rk s"
  then have "operand_edges s \<subseteq> (measure rk)\<inverse>" by (auto simp: operand_edges_def ranked_def)
  then show ?thesis
    by (rule acyclic_subset [rotated]) (simp add: wf_acyclic)
qed

end
