(* ===== verification/NE_Results.thy ===== *)
theory NE_Results
  imports NE_Contracts
begin

text \<open>
  What the constructors return: the operation, operands, shape, strides and data of the result,
  on well-formed heaps. With room in the pool the element-wise constructors do return; the
  others are described for the calls that return.
\<close>

section \<open>Allocation with room\<close>

lemma new_tensor_room:
  assumes ok: "heap_ok s" and sc: "s_data (scratch (ctx s)) = NULL \<or> dat \<noteq> NULL"
    and good: "good_request (ctx s) type nd dims NULL nbytes"
    and req: "request_size (ctx s) type nd dims dat nbytes = Inr n"
    and room: "used_end s + NE_OBJECT_SIZE + (n + sizeof_ne_tensor) \<le> mem_size (ctx s)"
  shows "\<exists>p s' nbs. ne_new_tensor_impl type nd dims dat nbytes s = Inr (p, s') \<and>
     new_nb type (new_ne nd dims) = Inr nbs \<and> scratch (ctx s') = scratch (ctx s) \<and>
     used_end s' = used_end s + NE_OBJECT_SIZE + (n + sizeof_ne_tensor) \<and>
     allocated s p (init_tensor type nd (new_ne nd dims) nbs
       (if dat = NULL \<and> \<not> no_alloc (ctx s) then p + sizeof_ne_tensor else dat) (n + sizeof_ne_tensor)) s'"
proof -
  obtain zs where rel: "pool_rel zs s" and sok: "scratch_ok (scratch (ctx s))"
    and small: "mem_size (ctx s) < 2 ^ 61"
    using ok by (auto simp: heap_ok_def pool_inv_def)
  have u: "used_end s = pool_end zs" by (rule used_end_pool [OF rel])
  have nd: "nd \<le> 4" and n: "n < 2 ^ 62" and ty: "type \<noteq> NE_TYPE_COUNT"
    using good good_request_data [OF good, of dat] req by (auto simp: good_request_def)
  obtain nbs where nbs: "new_nb type (new_ne nd dims) = Inr nbs" using new_nb_ok [OF ty] by blast
  let ?p = "mem_buffer (ctx s) + pool_end zs + NE_OBJECT_SIZE"
  define d where "d = (if dat = NULL \<and> \<not> no_alloc (ctx s) then ?p + sizeof_ne_tensor else dat)"
  note eq = new_tensor_pool [OF rel sc req n nd nbs, folded d_def]
  have fits: "pool_end zs + NE_OBJECT_SIZE + (n + sizeof_ne_tensor) \<le> mem_size (ctx s)"
    using room u by simp
  have z: "n + sizeof_ne_tensor < 2 ^ 62" "0 < n + sizeof_ne_tensor"
    using fits small by (simp_all add: pool_consts)
  have tok: "t_ok (ctx s) (init_tensor type nd (new_ne nd dims) nbs d (n + sizeof_ne_tensor))"
    by (rule init_tensor_t_ok [OF good z(1) nbs])
  have cc: "ctx s = (ctx s)\<lparr>scratch := scratch (ctx s)\<rparr>" by simp
  note al = placed_heap_ok [OF ok rel sok cc fits z(2) tok]
  show ?thesis
    using eq fits al used_end_pool [OF al(2)] u nbs by (simp add: d_def)
qed

section \<open>The end of a constructor\<close>

lemma finish_leaf:
  "tensors s r = Some t \<Longrightarrow>
     finish opc False f r s = Inr (r, s\<lparr>tensors := (tensors s)(r \<mapsto> f (t\<lparr>op := opc, grad := NULL\<rparr>))\<rparr>)"
  by (simp add: finish_def)

lemma finish_result:
  assumes "heap_ok s" "tensors s r = Some t" "finish opc is_node f r s = Inr (x, s')"
  shows "x = r \<and> (\<exists>g. tensors s' r = Some (f (t\<lparr>op := opc, grad := g\<rparr>)) \<and> (\<not> is_node \<longrightarrow> g = NULL))"
proof (cases is_node)
  case False
  with assms(2,3) finish_leaf show ?thesis by fastforce
next
  case True
  let ?s1 = "s\<lparr>tensors := (tensors s)(r \<mapsto> t\<lparr>op := opc\<rparr>)\<rparr>"
  from assms(2,3) True obtain g s2 where d: "ne_dup_tensor r ?s1 = Inr (g, s2)"
    and u: "upd_t r (\<lambda>t. f (t\<lparr>grad := g\<rparr>)) s2 = Inr ((), s')" and x: "x = r"
    unfolding finish_def sseq_Inr_iff sbind_Inr_iff by (auto simp: ret_def)
  have ok1: "heap_ok ?s1"
    using assms(1,2) by (intro heap_ok_upd) (auto simp: heap_ok_def t_ok_def tensor_wf_def)
  have b: "building ?s1 {} ?s1" by (rule building_start [OF ok1])
  have "tensors s2 r = Some (t\<lparr>op := opc\<rparr>)"
  proof (rule building_old)
    show "building ?s1 {g} s2" using tripD [OF trip_dup b d] by (simp only: added_def)
  qed simp
  then show ?thesis using u x True by (auto simp: upd_t_Inr_iff)
qed

section \<open>Element-wise operations\<close>

context unary_op
begin

lemma builds:
  assumes ok: "heap_ok s" and a: "tensors s a = Some ta" "data ta \<noteq> NULL" and g: "inplace \<or> grad ta = NULL"
    and sc: "s_data (scratch (ctx s)) = NULL"
    and req: "request_size (ctx s) (ty ta) (n_dims ta) (ne ta) NULL (tsize ta) = Inr n"
    and room: "used_end s + NE_OBJECT_SIZE + (n + sizeof_ne_tensor) \<le> mem_size (ctx s)"
  shows "\<exists>r s' t. mk a inplace s = Inr (r, s') \<and> tensors s r = None \<and> tensors s' = (tensors s)(r \<mapsto> t) \<and>
     mem s' = mem s \<and> op t = opc \<and> src0 t = a \<and> src1 t = NULL \<and> grad t = NULL \<and> ty t = ty ta \<and>
     ne t = new_ne (n_dims ta) (ne ta) \<and>
     (if inplace then data t = data ta \<and> nb t = nb ta
      else \<not> no_alloc (ctx s) \<longrightarrow> data t = r + sizeof_ne_tensor)"
proof -
  have good: "good_request (ctx s) (ty ta) (n_dims ta) (ne ta) NULL (tsize ta)"
    using ok a by (auto simp: heap_ok_def t_ok_def)
  have "node_unless inplace [a] s = Inr (False, s)"
    using a g by (auto simp: node_unless_def any_grad.simps)
  then have nu: "sbind (node_unless inplace [a]) k s = k False s" for k :: "bool \<Rightarrow> ptr neop"
    by (simp add: sbind_def)
  let ?f = "\<lambda>t. t\<lparr>src0 := a, src1 := NULL\<rparr>"
  show ?thesis
  proof (cases inplace)
    case True
    have "request_size (ctx s) (ty ta) (n_dims ta) (ne ta) (data ta) (tsize ta) = Inr 0"
      using a(2) by (simp add: request_size_def)
    from new_tensor_room [OF ok _ good this] room a(2) obtain p s1 nbs where
      n: "ne_new_tensor_impl (ty ta) (n_dims ta) (ne ta) (data ta) (tsize ta) s = Inr (p, s1)"
      and al: "allocated s p (init_tensor (ty ta) (n_dims ta) (new_ne (n_dims ta) (ne ta)) nbs (data ta) sizeof_ne_tensor) s1"
      by auto
    let ?t = "init_tensor (ty ta) (n_dims ta) (new_ne (n_dims ta) (ne ta)) nbs (data ta) sizeof_ne_tensor"
    have "ne_view_tensor a s = Inr (p, s1\<lparr>tensors := (tensors s)(p \<mapsto> ?t\<lparr>nb := nb ta\<rparr>)\<rparr>)"
      using a n al by (simp add: ne_view_tensor_def allocated_def)
    then have "mk a inplace s = finish opc False ?f p (s1\<lparr>tensors := (tensors s)(p \<mapsto> ?t\<lparr>nb := nb ta\<rparr>)\<rparr>)"
      unfolding mk_eq nu using True by (simp add: view_or_dup_def)
    then show ?thesis using al True
      by (simp add: finish_leaf allocated_def) (intro exI conjI, rule refl, simp_all)
  next
    case False
    from new_tensor_room [OF ok _ good req room] sc obtain p s1 nbs where
      n: "ne_new_tensor_impl (ty ta) (n_dims ta) (ne ta) NULL (tsize ta) s = Inr (p, s1)"
      and al: "allocated s p (init_tensor (ty ta) (n_dims ta) (new_ne (n_dims ta) (ne ta)) nbs
        (if \<not> no_alloc (ctx s) then p + sizeof_ne_tensor else NULL) (n + sizeof_ne_tensor)) s1"
      by auto
    have "ne_dup_tensor a s = Inr (p, s1)" using a n by (simp add: ne_dup_tensor_def)
    then have "mk a inplace s = finish opc False ?f p s1"
      unfolding mk_eq nu using False by (simp add: view_or_dup_def)
    then show ?thesis using al False by (auto simp: finish_leaf allocated_def)
  qed
qed

end

definition unary_table :: "((ptr \<Rightarrow> bool \<Rightarrow> ptr neop) \<times> ne_op) list" where
  "unary_table = [(ne_dup_impl, NE_OP_DUP), (ne_sqr_impl, NE_OP_SQR), (ne_sqrt_impl, NE_OP_SQRT),
     (ne_log_impl, NE_OP_LOG), (ne_abs_impl, NE_OP_ABS), (ne_sgn_impl, NE_OP_SGN),
     (ne_neg_impl, NE_OP_NEG), (ne_step_impl, NE_OP_STEP), (ne_relu_impl, NE_OP_RELU),
     (ne_gelu_impl, NE_OP_GELU), (ne_silu_impl, NE_OP_SILU), (ne_cont_impl, NE_OP_CONT)]"

lemma unary_table_op: "(mk, opc) \<in> set unary_table \<Longrightarrow> unary_op mk opc"
  unfolding unary_table_def
  using u_dup.unary_op_axioms u_sqr.unary_op_axioms u_sqrt.unary_op_axioms u_log.unary_op_axioms
    u_abs.unary_op_axioms u_sgn.unary_op_axioms u_neg.unary_op_axioms u_step.unary_op_axioms
    u_relu.unary_op_axioms u_gelu.unary_op_axioms u_silu.unary_op_axioms u_cont.unary_op_axioms
  by auto

section \<open>Shapes of other results\<close>

text \<open>A constructor that allocates its result and finishes it.\<close>

lemma new_finish_result:
  assumes ok: "heap_ok s" and good: "good_request (ctx s) type nd dims NULL nbytes"
    and run: "sbind (ne_new_tensor_impl type nd dims dat nbytes) (finish opc is_node f) s = Inr (r, s')"
  shows "\<exists>nbs d z g. new_nb type (new_ne nd dims) = Inr nbs \<and> (dat \<noteq> NULL \<longrightarrow> d = dat) \<and>
     tensors s r = None \<and>
     tensors s' r = Some (f ((init_tensor type nd (new_ne nd dims) nbs d z)\<lparr>op := opc, grad := g\<rparr>))"
proof -
  from run obtain p s1 where n: "ne_new_tensor_impl type nd dims dat nbytes s = Inr (p, s1)"
    and f: "finish opc is_node f p s1 = Inr (r, s')" by (auto simp: sbind_Inr_iff)
  have "tensors s NULL = None" using ok by (simp add: heap_ok_def)
  then have "\<not> (p = NULL \<and> s1 = s)" using f by (auto simp: finish_def sseq_Inr_iff upd_t_Inr_iff)
  with new_tensor_allocated [OF ok good n] obtain nbs d z where
    a: "new_nb type (new_ne nd dims) = Inr nbs" "dat \<noteq> NULL \<longrightarrow> d = dat"
      "allocated s p (init_tensor type nd (new_ne nd dims) nbs d z) s1" by blast
  then have "heap_ok s1" "tensors s1 p = Some (init_tensor type nd (new_ne nd dims) nbs d z)"
    "tensors s p = None" by (auto simp: allocated_def)
  with finish_result [OF this(1,2) f] a show ?thesis by blast
qed

lemma view_finish_result:
  assumes ok: "heap_ok s" and a: "tensors s a = Some ta" "data ta \<noteq> NULL"
    and run: "sbind (ne_view_tensor a) (\<lambda>r. sbind (get_t a) (\<lambda>ta.
        sseq (upd_t r (h' ta)) (finish opc is_node f r))) s = Inr (r, s')" and h: "h' ta = h"
    and good: "\<And>t. t_ok (ctx s) t \<Longrightarrow> view_header ta t \<Longrightarrow> t_ok (ctx s) (h t)"
  shows "\<exists>t g. view_header ta t \<and> data t = data ta \<and> tensors s r = None \<and>
     tensors s' r = Some (f ((h t)\<lparr>op := opc, grad := g\<rparr>))"
proof -
  from run obtain s1 u x where v: "ne_view_tensor a s = Inr (x, s1)" and u: "tensors s1 a = Some u"
    and r: "sseq (upd_t x (h' u)) (finish opc is_node f x) s1 = Inr (r, s')"
    by (auto simp: sbind_Inr_iff get_t_Inr_iff)
  have b: "building s {} s" by (rule building_start [OF ok])
  from tripD [OF trip_view_header [OF a(1)] b v] have
    ad: "building s {x} s1" and vh: "\<And>t. tensors s1 x = Some t \<Longrightarrow> view_header ta t"
    by (auto simp: added_def)
  have hu: "h' u = h" using building_old [OF ad a(1)] u h by simp
  from r hu obtain t where t: "tensors s1 x = Some t"
    and f: "finish opc is_node f x (s1\<lparr>tensors := (tensors s1)(x \<mapsto> h t)\<rparr>) = Inr (r, s')"
    unfolding sseq_Inr_iff upd_t_Inr_iff by blast
  have c: "no_alloc (ctx s1) = no_alloc (ctx s)" using ad by (simp add: building_def grows_def)
  have "t_ok (ctx s1) (h t)"
    using good [of t] vh [OF t] building_t_ok [OF ad t] t_ok_cong [OF c] by simp
  then have ok2: "heap_ok (s1\<lparr>tensors := (tensors s1)(x \<mapsto> h t)\<rparr>)"
    using building_heap_ok [OF ad] t by (intro heap_ok_upd)
  from v a have "data t = data ta"
    using t new_tensor_allocated [OF ok] ok
    by (auto simp: ne_view_tensor_def sbind_Inr_iff sseq_Inr_iff get_t_Inr_iff upd_t_Inr_iff allocated_def
        heap_ok_def t_ok_def dest!: new_tensor_allocated [OF ok, rotated])
  moreover have "x \<noteq> NULL" using building_heap_ok [OF ad] t by (auto simp: heap_ok_def intro: gr0I)
  then have "tensors s x = None" using ad by (auto simp: building_def)
  moreover from finish_result [OF ok2 _ f, of "h t"] obtain g where
    "r = x" "tensors s' x = Some (f ((h t)\<lparr>op := opc, grad := g\<rparr>))" by auto
  ultimately show ?thesis using vh [OF t] by blast
qed

lemma any_grad_bind:
  "sbind (any_grad ps) k s = Inr (x, s') \<Longrightarrow> \<exists>b. k b s = Inr (x, s')"
  unfolding sbind_Inr_iff using any_grad_state by blast

lemma assert_bind: "sseq (ne_assert b) k s = Inr (x, s') \<Longrightarrow> b \<and> k s = Inr (x, s')"
  by (auto simp: sseq_Inr_iff ne_assert_Inr_iff)

lemma assertR_bind: "sseq (ne_assertR r) k s = Inr (x, s') \<Longrightarrow> r = Inr True \<and> k s = Inr (x, s')"
  by (auto simp: sseq_Inr_iff ne_assertR_Inr_iff)

lemma get_bind: "tensors s a = Some t \<Longrightarrow> sbind (get_t a) k s = k t s"
  by (simp add: sbind_def)

text \<open>A reshaped tensor: another header for the same data.\<close>

definition reshaped :: "ne_state \<Rightarrow> ptr \<Rightarrow> ptr \<Rightarrow> ne_state \<Rightarrow> int list \<Rightarrow> bool" where
  "reshaped s a r s' dims \<longleftrightarrow> (\<exists>ta t. tensors s a = Some ta \<and> tensors s' r = Some t \<and> tensors s r = None \<and>
     op t = NE_OP_RESHAPE \<and> src0 t = a \<and> data t = data ta \<and> ty t = ty ta \<and> ne t = dims \<and>
     ne_nelements t = ne_nelements ta)"

lemma reshape_result:
  assumes ok: "heap_ok s" and a: "tensors s a = Some ta" "data ta \<noteq> NULL"
    and good: "good_request (ctx s) (ty ta) nd dims NULL NE_SIZE_CALC"
    and n: "ne_nelements ta = to_int64 (prod_list (new_ne nd dims))"
    and run: "sbind (any_grad [a]) (\<lambda>is_node.
      sbind (ne_new_tensor_impl (ty ta) nd dims (data ta) NE_SIZE_CALC)
       (finish NE_OP_RESHAPE is_node (\<lambda>t. t\<lparr>src0 := a, src1 := NULL\<rparr>))) s = Inr (r, s')"
  shows "reshaped s a r s' (new_ne nd dims)"
proof -
  from any_grad_bind [OF run] obtain b where
    "sbind (ne_new_tensor_impl (ty ta) nd dims (data ta) NE_SIZE_CALC)
       (finish NE_OP_RESHAPE b (\<lambda>t. t\<lparr>src0 := a, src1 := NULL\<rparr>)) s = Inr (r, s')" by blast
  from new_finish_result [OF ok good this] a(2) obtain nbs z g where
    t: "tensors s r = None" "tensors s' r = Some ((init_tensor (ty ta) nd (new_ne nd dims) nbs (data ta) z)
        \<lparr>op := NE_OP_RESHAPE, grad := g, src0 := a, src1 := NULL\<rparr>)" by auto
  have "new_ne nd dims = [new_ne nd dims ! 0, new_ne nd dims ! 1, new_ne nd dims ! 2, new_ne nd dims ! 3]"
    by (simp add: new_ne_def upt_rec)
  then have "prod_list (new_ne nd dims) = new_ne nd dims ! 0 * new_ne nd dims ! 1 * new_ne nd dims ! 2 * new_ne nd dims ! 3"
    by (metis (no_types, lifting) mult.assoc mult.right_neutral prod_list.Cons prod_list.Nil)
  with t a n show ?thesis by (auto simp: reshaped_def ne_nelements_def)
qed

lemma new_ne_explicit:
  "new_ne 1 [a] = [a, 1, 1, 1]" "new_ne 2 [a, b] = [a, b, 1, 1]" "new_ne 3 [a, b, c] = [a, b, c, 1]"
  "new_ne 4 [a, b, c, d] = [a, b, c, d]" "new_ne 2 [a, b, 1, 1] = [a, b, 1, 1]"
  "new_ne 3 [a, b, c, 1] = [a, b, c, 1]"
  by (simp_all add: new_ne_def upt_rec numeral_2_eq_2 numeral_3_eq_3)

text \<open>Axes.\<close>

lemma scatter4_nth:
  assumes "i < 4" "j < 4" "k < 4" "l < 4" "distinct [i, j, k, l]"
  shows "scatter4 i j k l y ! i = y ! 0" "scatter4 i j k l y ! j = y ! 1"
    "scatter4 i j k l y ! k = y ! 2" "scatter4 i j k l y ! l = y ! 3"
  using assms by (auto simp: scatter4_def)

lemma scatter4_map: "length y = 4 \<Longrightarrow> map f (scatter4 i j k l y) = scatter4 i j k l (map f y)"
  by (simp add: scatter4_def map_update map_replicate_const map_replicate)

lemma four_axes_sum:
  assumes "i < 4" "j < 4" "k < 4" "l < 4" "distinct [i, j, k, l]"
  shows "(\<Sum>m < (4::nat). f m) = (f i + f j + f k + f l :: nat)"
proof -
  have "{i, j, k, l} = {..< (4::nat)}" using assms by (intro card_subset_eq) auto
  then have "(\<Sum>m < 4. f m) = sum f {i, j, k, l}" by simp
  also have "\<dots> = f i + f j + f k + f l" using assms by simp
  finally show ?thesis .
qed

lemma elem_offset_sum: "elem_offset t (x 0) (x 1) (x 2) (x 3) = (\<Sum>m < (4::nat). x m * nb t ! m)"
  by (simp add: elem_offset_def numeral_eq_Suc lessThan_Suc)

lemma scatter4_offset:
  assumes "i < 4" "j < 4" "k < 4" "l < 4" "distinct [i, j, k, l]" "nb t = scatter4 i j k l (nb u)"
  shows "elem_offset t (x 0) (x 1) (x 2) (x 3) = elem_offset u (x i) (x j) (x k) (x l)"
  unfolding elem_offset_sum [of t x] four_axes_sum [OF assms(1-5)] assms(6) scatter4_nth [OF assms(1-5)]
  by (simp add: elem_offset_def)

lemma view_room:
  assumes ok: "heap_ok s" and a: "tensors s a = Some ta" "data ta \<noteq> NULL"
    and room: "used_end s + NE_OBJECT_SIZE + sizeof_ne_tensor \<le> mem_size (ctx s)"
  shows "\<exists>p s1 t. ne_view_tensor a s = Inr (p, s1) \<and> tensors s p = None \<and> tensors s1 = (tensors s)(p \<mapsto> t) \<and>
     used_end s1 = used_end s + NE_OBJECT_SIZE + sizeof_ne_tensor \<and> mem_size (ctx s1) = mem_size (ctx s)"
proof -
  have good: "good_request (ctx s) (ty ta) (n_dims ta) (ne ta) NULL (tsize ta)"
    using ok a by (auto simp: heap_ok_def t_ok_def)
  have req: "request_size (ctx s) (ty ta) (n_dims ta) (ne ta) (data ta) (tsize ta) = Inr 0"
    using a(2) by (simp add: request_size_def)
  have "used_end s + NE_OBJECT_SIZE + (0 + sizeof_ne_tensor) \<le> mem_size (ctx s)" using room by simp
  from new_tensor_room [OF ok _ good req this] a(2) obtain p s1 nbs where
    n: "ne_new_tensor_impl (ty ta) (n_dims ta) (ne ta) (data ta) (tsize ta) s = Inr (p, s1)"
    and al: "allocated s p (init_tensor (ty ta) (n_dims ta) (new_ne (n_dims ta) (ne ta)) nbs (data ta) sizeof_ne_tensor) s1"
    and u: "used_end s1 = used_end s + NE_OBJECT_SIZE + sizeof_ne_tensor"
    by auto
  then show ?thesis using a by (simp add: ne_view_tensor_def allocated_def) blast
qed

lemma transpose_room:
  assumes ok: "heap_ok s" and a: "tensors s a = Some ta" "data ta \<noteq> NULL" "grad ta = NULL"
    and room: "used_end s + NE_OBJECT_SIZE + sizeof_ne_tensor \<le> mem_size (ctx s)"
  shows "\<exists>r s' t. ne_transpose a s = Inr (r, s') \<and> tensors s' r = Some t \<and> grad t = NULL \<and>
     used_end s' = used_end s + NE_OBJECT_SIZE + sizeof_ne_tensor \<and> mem_size (ctx s') = mem_size (ctx s)"
proof -
  from view_room [OF ok a(1,2) room] obtain p s1 t where
    v: "ne_view_tensor a s = Inr (p, s1)" "tensors s p = None" "tensors s1 = (tensors s)(p \<mapsto> t)"
      "used_end s1 = used_end s + NE_OBJECT_SIZE + sizeof_ne_tensor" "mem_size (ctx s1) = mem_size (ctx s)"
    by blast
  then have "tensors s1 a = Some ta" "tensors s1 p = Some t" using a(1) by auto
  with v a show ?thesis
    by (simp add: ne_transpose_def any_grad.simps sbind_def sseq_def finish_leaf)
qed

text \<open>The first two dimensions and strides of a view exchanged.\<close>

definition swapped :: "ne_tensor \<Rightarrow> ne_tensor \<Rightarrow> ne_tensor" where
  "swapped u t = t\<lparr>ne := (ne t)[0 := ne u ! 1, 1 := ne u ! 0], nb := (nb t)[0 := nb u ! 1, 1 := nb u ! 0]\<rparr>"

lemma transpose_result:
  assumes ok: "heap_ok s" and a: "tensors s a = Some u" "data u \<noteq> NULL" and run: "ne_transpose a s = Inr (x, s')"
    and f: "fits s (ty u) (n_dims u) ((new_ne (n_dims u) (ne u))[0 := ne u ! 1, 1 := ne u ! 0])"
  shows "\<exists>t g. view_header u t \<and> data t = data u \<and>
      tensors s' x = Some ((swapped u t)\<lparr>op := NE_OP_TRANSPOSE, grad := g, src0 := a, src1 := NULL\<rparr>)"
proof -
  from run obtain b where r: "sbind (ne_view_tensor a) (\<lambda>r. sbind (get_t a) (\<lambda>u.
      sseq (upd_t r (swapped u)) (finish NE_OP_TRANSPOSE b (\<lambda>t. t\<lparr>src0 := a, src1 := NULL\<rparr>) r))) s = Inr (x, s')"
    unfolding ne_transpose_def swapped_def [abs_def] by (blast dest: any_grad_bind)
  have "t_ok (ctx s) (swapped u t)" if "t_ok (ctx s) t" "view_header u t" for t
    using that good_request_dims [OF f] by (auto simp: t_ok_def view_header_def swapped_def tensor_wf_def)
  from view_finish_result [OF ok a r refl this] show ?thesis by simp blast
qed

section \<open>A concrete graph\<close>

lemma demo_heap_ok: "heap_ok demo_state"
  using pool_inv_start [OF demo_start]
  by (simp add: heap_ok_def) (simp add: demo_state_def demo_ctx_def)

lemma demo_graph_start: "graph_start demo_state"
  using demo_start by (simp add: graph_start_def) (simp add: demo_state_def demo_ctx_def)

text \<open>A vector of four floats, allocated in the demonstration context.\<close>

definition demo_vec :: ne_tensor where
  "demo_vec = init_tensor NE_TYPE_F32 1 [4, 1, 1, 1] [4, 16, 16, 16] 4416 320"

lemma demo_vec_request:
  "request_size c NE_TYPE_F32 1 [4] NULL NE_SIZE_CALC = Inr (if no_alloc c then 0 else 64)"
  "request_size c NE_TYPE_F32 1 [4, 1, 1, 1] NULL n = Inr (if no_alloc c then 0 else 64)"
  by (simp_all add: request_size_def data_size_needed_def data_size_raw_def cdiv_def to_size_def
      wrap64_def NE_MEM_ALIGN_def)

lemma demo_vec_good: "good_request c NE_TYPE_F32 1 [4] NULL NE_SIZE_CALC"
  using demo_vec_request(1) [of c] by (simp add: good_request_def)

lemma demo_used: "used_end demo_state = 0"
  by (rule used_end_pool [OF demo_pool_rel, simplified])

definition demo_s :: ne_state where
  "demo_s = placed 4096 \<lparr>offs = 64, osize = 320, obj_next = NULL\<rparr> NULL 4160 demo_vec demo_state"

lemma demo_alloc: "ne_new_tensor_impl NE_TYPE_F32 1 [4] NULL NE_SIZE_CALC demo_state = Inr (4160, demo_s)"
proof -
  have c: "ctx demo_state = demo_ctx" by (simp add: demo_state_def)
  have d: "s_data (scratch demo_ctx) = NULL" "\<not> no_alloc demo_ctx" "mem_size demo_ctx = 1024" "mem_buffer demo_ctx = 4096"
    by (simp_all add: demo_ctx_def scratch0_def)
  have req: "request_size (ctx demo_state) NE_TYPE_F32 1 [4] NULL NE_SIZE_CALC = Inr 64"
    using demo_vec_request(1) d c by simp
  have ne4: "new_ne 1 [4] = [4, 1, 1, 1]" by (simp add: new_ne_def upt_rec)
  have nb4: "new_nb NE_TYPE_F32 [4, 1, 1, 1] = Inr [4, 16, 16, 16]"
    by (simp add: new_nb_def cdiv_def to_size_def wrap64_def)
  have lt: "(64::nat) < 2 ^ 62" "1 \<le> (4::nat)" by simp_all
  show ?thesis
    using new_tensor_pool [OF demo_pool_rel _ req lt(1) lt(2), of "[4, 16, 16, 16]"] c d ne4 nb4
    by (simp add: pool_consts demo_vec_def demo_s_def del: One_nat_def) (simp add: demo_ctx_def)
qed

lemma demo_s_facts:
  "heap_ok demo_s" "used_end demo_s = 384" "tensors demo_s 4160 = Some demo_vec"
  "s_data (scratch (ctx demo_s)) = NULL" "mem_size (ctx demo_s) = 1024" "\<not> no_alloc (ctx demo_s)"
proof -
  have c: "ctx demo_state = demo_ctx" by (simp add: demo_state_def)
  have d: "s_data (scratch demo_ctx) = NULL" "\<not> no_alloc demo_ctx" "mem_size demo_ctx = 1024"
    by (simp_all add: demo_ctx_def scratch0_def)
  have req: "request_size (ctx demo_state) NE_TYPE_F32 1 [4] NULL NE_SIZE_CALC = Inr 64"
    using demo_vec_request(1) d c by simp
  have sc: "s_data (scratch (ctx demo_state)) = NULL \<or> NULL \<noteq> NULL" using c d by simp
  have room: "used_end demo_state + NE_OBJECT_SIZE + (64 + sizeof_ne_tensor) \<le> mem_size (ctx demo_state)"
    using demo_used c d by (simp add: pool_consts)
  from new_tensor_room [OF demo_heap_ok sc demo_vec_good req room] demo_alloc demo_used
  show "heap_ok demo_s" "used_end demo_s = 384" by (auto simp: allocated_def pool_consts)
  show "tensors demo_s 4160 = Some demo_vec" "s_data (scratch (ctx demo_s)) = NULL"
    "mem_size (ctx demo_s) = 1024" "\<not> no_alloc (ctx demo_s)"
    using c d by (simp_all add: demo_s_def)
qed

lemma demo_vec_simps [simp]:
  "data demo_vec = 4416" "grad demo_vec = NULL" "ty demo_vec = NE_TYPE_F32" "n_dims demo_vec = 1"
  "ne demo_vec = [4, 1, 1, 1]" "nb demo_vec = [4, 16, 16, 16]" "tsize demo_vec = 320"
  by (simp_all add: demo_vec_def)

lemma demo_s_room:
  "used_end demo_s + NE_OBJECT_SIZE + (64 + sizeof_ne_tensor) \<le> mem_size (ctx demo_s)"
  "request_size (ctx demo_s) (ty demo_vec) (n_dims demo_vec) (ne demo_vec) NULL (tsize demo_vec) = Inr 64"
  using demo_s_facts demo_vec_request(2) [of "ctx demo_s"] by (simp_all add: pool_consts)

lemma demo_graph:
  "\<exists>r s' t. node_step demo_state demo_s \<and> node_call demo_s r s' \<and> tensors s' r = Some t \<and> src0 t = 4160"
proof -
  have t: "data demo_vec \<noteq> NULL" "False \<or> grad demo_vec = NULL" by simp_all
  from u_sqr.builds [OF demo_s_facts(1,3) t demo_s_facts(4) demo_s_room(2,1)] obtain r s' t' where
    r: "ne_sqr_impl 4160 False demo_s = Inr (r, s')" "tensors s' = (tensors demo_s)(r \<mapsto> t')" "src0 t' = 4160"
    by blast
  have r': "tensors s' r = Some t'" using r(2) by simp
  have "ne_sqr_impl \<in> unary_inplace" by (simp add: unary_inplace_def)
  then have "node_call demo_s r s'" using demo_s_facts(3) r(1) by (rule node_call.c_unary)
  moreover have "node_step demo_state demo_s" by (rule node_step.s_new [OF demo_vec_good demo_alloc])
  ultimately show ?thesis using r r' by blast
qed

section \<open>Properties\<close>

text \<open>
  C21. The twelve element-wise constructors with one operand (\<^verbatim>\<open>ne_dup\<close>, \<^verbatim>\<open>ne_sqr\<close>, \<^verbatim>\<open>ne_sqrt\<close>,
  \<^verbatim>\<open>ne_log\<close>, \<^verbatim>\<open>ne_abs\<close>, \<^verbatim>\<open>ne_sgn\<close>, \<^verbatim>\<open>ne_neg\<close>, \<^verbatim>\<open>ne_step\<close>, \<^verbatim>\<open>ne_relu\<close>, \<^verbatim>\<open>ne_gelu\<close>,
  \<^verbatim>\<open>ne_silu\<close>, \<^verbatim>\<open>ne_cont\<close>) on an operand without gradient, with room in the pool: the call
  returns a new tensor with the right operation code and operand, the operand's type and shape,
  and, in place, the operand's data and strides; no other tensor and no data change.
\<close>

theorem unary_ops_build:
  assumes "(mk, opc) \<in> set unary_table" "heap_ok s" "tensors s a = Some ta" "data ta \<noteq> NULL"
    and "inplace \<or> grad ta = NULL" "s_data (scratch (ctx s)) = NULL"
    and "request_size (ctx s) (ty ta) (n_dims ta) (ne ta) NULL (tsize ta) = Inr n"
    and "used_end s + NE_OBJECT_SIZE + (n + sizeof_ne_tensor) \<le> mem_size (ctx s)"
  shows "\<exists>r s' t. mk a inplace s = Inr (r, s') \<and> tensors s r = None \<and> tensors s' = (tensors s)(r \<mapsto> t) \<and>
     mem s' = mem s \<and> op t = opc \<and> src0 t = a \<and> src1 t = NULL \<and> grad t = NULL \<and> ty t = ty ta \<and>
     ne t = new_ne (n_dims ta) (ne ta) \<and>
     (if inplace then data t = data ta \<and> nb t = nb ta
      else \<not> no_alloc (ctx s) \<longrightarrow> data t = r + sizeof_ne_tensor)"
  by (rule unary_op.builds [OF unary_table_op [OF assms(1)] assms(2-)])

theorem unary_ops_build_witness:
  "\<exists>r s' t. ne_sqr_impl 4160 False demo_s = Inr (r, s') \<and> tensors s' = (tensors demo_s)(r \<mapsto> t) \<and>
     op t = NE_OP_SQR \<and> src0 t = 4160 \<and> ne t = [4, 1, 1, 1]"
proof -
  have sqr: "(ne_sqr_impl, NE_OP_SQR) \<in> set unary_table" by (simp add: unary_table_def)
  have ne4: "new_ne 1 [4, 1, 1, 1] = [4, 1, 1, 1]" by (simp add: new_ne_def upt_rec)
  have t: "data demo_vec \<noteq> NULL" "False \<or> grad demo_vec = NULL" by simp_all
  show ?thesis
    using unary_ops_build [OF sqr demo_s_facts(1,3) t demo_s_facts(4) demo_s_room(2,1)] ne4
    by (simp del: One_nat_def) blast
qed

text \<open>
  C10. Whatever sequence of constructor calls, allocations, declarations of parameters with
  their gradients, scratch switches, names and data writes a program makes on a fresh context, the operand pointers of every tensor are null or valid, and
  following them never leads back to the same tensor.
\<close>

theorem reachable_graph_acyclic:
  assumes "graph_start s0" "node_step\<^sup>*\<^sup>* s0 s"
  shows "(\<forall>(p, q) \<in> operand_edges s. tensors s q \<noteq> None) \<and> acyclic (operand_edges s)"
  using graph.inv_reachable [OF assms] ranked_acyclic
  by (auto simp: graph_ok_def closed_heap_def operand_edges_def)

theorem reachable_graph_acyclic_witness:
  "\<exists>s r. graph_start demo_state \<and> node_step\<^sup>*\<^sup>* demo_state s \<and> (r, 4160) \<in> operand_edges s \<and>
     acyclic (operand_edges s)"
proof -
  from demo_graph obtain r s t where g: "node_step demo_state demo_s" "node_call demo_s r s"
    "tensors s r = Some t" "src0 t = 4160" by blast
  then have "node_step\<^sup>*\<^sup>* demo_state s"
    by (meson node_step.s_call r_into_rtranclp rtranclp.rtrancl_into_rtrancl)
  moreover have "(r, 4160) \<in> operand_edges s" using g(3,4) by (auto simp: operand_edges_def operands_def)
  ultimately show ?thesis
    using demo_graph_start reachable_graph_acyclic [OF demo_graph_start] by blast
qed

text \<open>
  C20. A constructor call changes nothing that existed: every tensor header, and every byte of
  memory outside the part of the pool that was free, is as before; the pool stays well formed.
\<close>

theorem constructor_frame:
  assumes "graph_start s0" "node_step\<^sup>*\<^sup>* s0 s" "node_call s r s'"
  shows "tensors s' r \<noteq> None \<and> (\<forall>p t. tensors s p = Some t \<longrightarrow> tensors s' p = Some t) \<and>
    (\<forall>a. a < mem_buffer (ctx s) + used_end s \<or> mem_buffer (ctx s) + mem_size (ctx s) \<le> a \<longrightarrow> mem s' a = mem s a) \<and>
    pool_inv s'"
proof -
  have "heap_ok s" using graph.inv_reachable [OF assms(1,2)] by (simp add: graph_ok_def)
  from node_call_extends [OF this assms(3)] show ?thesis
    by (auto simp: extends_def grows_def heap_ok_def map_le_def dom_def)
qed

theorem constructor_frame_witness:
  "\<exists>s r s'. graph_start demo_state \<and> node_step\<^sup>*\<^sup>* demo_state s \<and> node_call s r s' \<and>
     tensors s' r \<noteq> None \<and> tensors s' 4160 = Some demo_vec"
proof -
  from demo_graph obtain r s where g: "node_step demo_state demo_s" "node_call demo_s r s" by blast
  from g(1) have "node_step\<^sup>*\<^sup>* demo_state demo_s" by blast
  with constructor_frame [OF demo_graph_start this g(2)] g demo_s_facts(3) show ?thesis
    using demo_graph_start by blast
qed

text \<open>
  When a reshape returns, the source is contiguous and has exactly as many elements as the
  new shape, and the result is a new header of that shape over the same data.
\<close>

theorem reshape_same_elements:
  assumes "heap_ok s" "tensors s a = Some ta" "data ta \<noteq> NULL"
  shows "(ne_reshape_1d a n0 s = Inr (r, s') \<longrightarrow> fits s (ty ta) 1 [n0] \<longrightarrow>
           ne_is_contiguous ta = Inr True \<and> reshaped s a r s' [n0, 1, 1, 1]) \<and>
         (ne_reshape_2d a n0 n1 s = Inr (r, s') \<longrightarrow> fits s (ty ta) 2 [n0, n1] \<longrightarrow>
           ne_is_contiguous ta = Inr True \<and> reshaped s a r s' [n0, n1, 1, 1]) \<and>
         (ne_reshape_3d a n0 n1 n2 s = Inr (r, s') \<longrightarrow> fits s (ty ta) 3 [n0, n1, n2] \<longrightarrow>
           ne_is_contiguous ta = Inr True \<and> reshaped s a r s' [n0, n1, n2, 1]) \<and>
         (ne_reshape_4d a n0 n1 n2 n3 s = Inr (r, s') \<longrightarrow> fits s (ty ta) 4 [n0, n1, n2, n3] \<longrightarrow>
           ne_is_contiguous ta = Inr True \<and> reshaped s a r s' [n0, n1, n2, n3])"
  unfolding ne_reshape_1d_def ne_reshape_2d_def ne_reshape_3d_def ne_reshape_4d_def get_bind [OF assms(2)]
  by (intro conjI impI; drule assertR_bind; elim conjE; drule assert_bind; elim conjE; (assumption | rule
        reshape_result [OF assms, of 1 "[n0]", unfolded new_ne_explicit]
        reshape_result [OF assms, of 2 "[n0, n1]", unfolded new_ne_explicit]
        reshape_result [OF assms, of 3 "[n0, n1, n2]", unfolded new_ne_explicit]
        reshape_result [OF assms, of 4 "[n0, n1, n2, n3]", unfolded new_ne_explicit]; auto simp: mult.assoc ne_nelements_def)?)

lemma demo_no_grad: "any_grad [4160] demo_s = Inr (False, demo_s)"
  using demo_s_facts(3) by (simp add: any_grad.simps)

lemma demo_reshape: "\<exists>r s'. ne_reshape_2d 4160 2 2 demo_s = Inr (r, s')"
proof -
  have f: "fits demo_s NE_TYPE_F32 2 [2, 2]"
    by (simp add: good_request_def request_size_def data_size_needed_def data_size_raw_def cdiv_def
        to_size_def wrap64_def NE_MEM_ALIGN_def upt_rec)
  have req: "request_size (ctx demo_s) NE_TYPE_F32 2 [2, 2] 4416 NE_SIZE_CALC = Inr 0"
    by (simp add: request_size_def)
  have room: "used_end demo_s + NE_OBJECT_SIZE + (0 + sizeof_ne_tensor) \<le> mem_size (ctx demo_s)"
    using demo_s_facts by (simp add: pool_consts)
  from new_tensor_room [OF demo_s_facts(1) _ f req room] obtain p s1 t where
    n: "ne_new_tensor_impl NE_TYPE_F32 2 [2, 2] 4416 NE_SIZE_CALC demo_s = Inr (p, s1)"
    and a: "tensors s1 p = Some t" by (auto simp: allocated_def)
  have "ne_is_contiguous demo_vec = Inr True" "ne_nelements demo_vec = 2 * 2"
    by (simp_all add: ne_is_contiguous_True ne_nelements_def to_size_def)
  with n a demo_no_grad show ?thesis
    by (simp add: ne_reshape_2d_def demo_s_facts(3) sbind_def sseq_def ne_assertR_def finish_leaf)
qed

theorem reshape_same_elements_witness:
  "\<exists>r s'. ne_reshape_2d 4160 2 2 demo_s = Inr (r, s') \<and> reshaped demo_s 4160 r s' [2, 2, 1, 1]"
proof -
  have f: "fits demo_s (ty demo_vec) 2 [2, 2]"
    by (simp add: good_request_def request_size_def data_size_needed_def data_size_raw_def cdiv_def
        to_size_def wrap64_def NE_MEM_ALIGN_def upt_rec)
  obtain r s' where r: "ne_reshape_2d 4160 2 2 demo_s = Inr (r, s')" using demo_reshape by blast
  have d: "data demo_vec \<noteq> NULL" by simp
  show ?thesis using reshape_same_elements [OF demo_s_facts(1,3) d, of _ r s' 2 2] r f by blast
qed

text \<open>
  C26. When \<^verbatim>\<open>ne_permute\<close> returns, the axes were distinct and in range, and for dimensions and
  strides below \<open>2 ^ 31\<close> the result is a view of the same data in which dimension and stride
  \<open>k\<close> of the source have become those of the axis given for \<open>k\<close>: the element at
  coordinates \<open>j\<close> of the result is the element of the source at \<open>j\<close> read along the axes.
\<close>

theorem permute_axes:
  assumes ok: "heap_ok s" and a: "tensors s a = Some ta" "data ta \<noteq> NULL"
    and small: "\<forall>k < 4. 0 \<le> ne ta ! k \<and> ne ta ! k < 2 ^ 31 \<and> nb ta ! k < 2 ^ 31"
    and good: "fits s (ty ta) (n_dims ta)
      (scatter4 (nat i) (nat j) (nat k) (nat l) (map to_int32 (ne ta)))"
    and run: "ne_permute a i j k l s = Inr (r, s')"
  shows "distinct [i, j, k, l] \<and> {i, j, k, l} = {0..3} \<and>
    (\<exists>t. tensors s' r = Some t \<and> op t = NE_OP_PERMUTE \<and> src0 t = a \<and> data t = data ta \<and> ty t = ty ta \<and>
       ne t ! nat i = ne ta ! 0 \<and> ne t ! nat j = ne ta ! 1 \<and> ne t ! nat k = ne ta ! 2 \<and> ne t ! nat l = ne ta ! 3 \<and>
       (\<forall>x :: nat \<Rightarrow> nat. elem_offset t (x 0) (x 1) (x 2) (x 3) =
                            elem_offset ta (x (nat i)) (x (nat j)) (x (nat k)) (x (nat l))))"
proof -
  have wf: "tensor_wf ta" using ok a by (auto simp: heap_ok_def t_ok_def)
  then obtain n0 n1 n2 n3 b0 b1 b2 b3 where nb: "ne ta = [n0, n1, n2, n3]" "nb ta = [b0, b1, b2, b3]"
    by (auto simp: tensor_wf_def length_Suc_conv numeral_eq_Suc)
  have sm: "0 \<le> n0" "0 \<le> n1" "0 \<le> n2" "0 \<le> n3" "n0 < 2 ^ 31" "n1 < 2 ^ 31" "n2 < 2 ^ 31" "n3 < 2 ^ 31"
    "b0 < 2 ^ 31" "b1 < 2 ^ 31" "b2 < 2 ^ 31" "b3 < 2 ^ 31"
    using small nb by (simp_all add: all_less_4)
  let ?sc = "scatter4 (nat i) (nat j) (nat k) (nat l)"
  define h where "h u t = t\<lparr>ne := ?sc (map to_int32 (ne u)),
      nb := map to_size (?sc (map (\<lambda>b. to_int32 (int b)) (nb u)))\<rparr>" for u t :: ne_tensor
  define pf where "pf is_node t = t\<lparr>src0 := a, src1 := NULL, padding := (if is_node
      then [word_of_int i, word_of_int j, word_of_int k, word_of_int l] @ drop 4 (padding t)
      else padding t)\<rparr>" for is_node and t :: ne_tensor
  from run have ax: "0 \<le> i" "i < 4" "0 \<le> j" "j < 4" "0 \<le> k" "k < 4" "0 \<le> l" "l < 4"
      "i \<noteq> j" "i \<noteq> k" "i \<noteq> l" "j \<noteq> k" "j \<noteq> l" "k \<noteq> l"
    and r1: "\<exists>is_node. sbind (ne_view_tensor a) (\<lambda>result. sbind (get_t a) (\<lambda>u.
        sseq (upd_t result (h u)) (finish NE_OP_PERMUTE is_node (pf is_node) result))) s = Inr (r, s')"
    unfolding ne_permute_def Let_def h_def pf_def by (auto dest!: assert_bind any_grad_bind)
  have hok: "t_ok (ctx s) (h ta t)" if "t_ok (ctx s) t" "view_header ta t" for t
    using that good_request_dims [OF good] by (auto simp: t_ok_def view_header_def h_def tensor_wf_def)
  from r1 obtain is_node where r2: "sbind (ne_view_tensor a) (\<lambda>result. sbind (get_t a) (\<lambda>u.
        sseq (upd_t result (h u)) (finish NE_OP_PERMUTE is_node (pf is_node) result))) s = Inr (r, s')" by blast
  define f where "f = pf is_node"
  have f: "src0 (f t) = a \<and> ne (f t) = ne t \<and> nb (f t) = nb t \<and> data (f t) = data t \<and> ty (f t) = ty t \<and>
      op (f t) = op t" for t by (simp add: f_def pf_def)
  note r2 = r2 [folded f_def]
  from view_finish_result [OF ok a r2 refl hok] obtain t g where
    t: "view_header ta t" "data t = data ta" "tensors s' r = Some (f ((h ta t)\<lparr>op := NE_OP_PERMUTE, grad := g\<rparr>))"
    by blast
  let ?t = "f ((h ta t)\<lparr>op := NE_OP_PERMUTE, grad := g\<rparr>)"
  have ax': "nat i < 4" "nat j < 4" "nat k < 4" "nat l < 4" "distinct [nat i, nat j, nat k, nat l]"
    using ax by auto
  have ne': "ne ?t = ?sc [n0, n1, n2, n3]"
    using f sm by (simp add: h_def nb to_int32_id)
  have nb': "nb ?t = ?sc [b0, b1, b2, b3]"
    using f sm by (simp add: h_def nb to_int32_id to_size_def scatter4_map)
  have off: "elem_offset ?t (x 0) (x 1) (x 2) (x 3) =
      elem_offset ta (x (nat i)) (x (nat j)) (x (nat k)) (x (nat l))" for x :: "nat \<Rightarrow> nat"
    by (rule scatter4_offset [OF ax']) (simp add: nb' nb)
  have N: "ne ?t ! nat i = ne ta ! 0" "ne ?t ! nat j = ne ta ! 1" "ne ?t ! nat k = ne ta ! 2" "ne ?t ! nat l = ne ta ! 3"
    unfolding ne' nb scatter4_nth [OF ax'] by simp_all
  have T: "op ?t = NE_OP_PERMUTE" "src0 ?t = a" "data ?t = data ta" "ty ?t = ty ta"
    using f t(1,2) by (simp_all add: h_def view_header_def)
  have "{i, j, k, l} = {0..3}" using ax by (intro card_subset_eq) auto
  moreover have "distinct [i, j, k, l]" using ax by simp
  ultimately show ?thesis using t(3) N T off by blast
qed

lemma demo_permute: "\<exists>r s'. ne_permute 4160 1 0 2 3 demo_s = Inr (r, s')"
proof -
  have room: "used_end demo_s + NE_OBJECT_SIZE + sizeof_ne_tensor \<le> mem_size (ctx demo_s)"
    using demo_s_facts by (simp add: pool_consts)
  have "data demo_vec \<noteq> NULL" by simp
  from view_room [OF demo_s_facts(1,3) this room] obtain p s1 t where
    v: "ne_view_tensor 4160 demo_s = Inr (p, s1)" "tensors demo_s p = None" "tensors s1 = (tensors demo_s)(p \<mapsto> t)"
    by blast
  then have "tensors s1 4160 = Some demo_vec" "tensors s1 p = Some t" using demo_s_facts(3) by auto
  with v demo_no_grad show ?thesis
    by (simp add: ne_permute_def sbind_def sseq_def Let_def finish_leaf)
qed

theorem permute_axes_witness:
  "\<exists>r s' t. ne_permute 4160 1 0 2 3 demo_s = Inr (r, s') \<and> tensors s' r = Some t \<and> ne t ! 1 = 4 \<and> data t = 4416"
proof -
  obtain r s' where r: "ne_permute 4160 1 0 2 3 demo_s = Inr (r, s')" using demo_permute by blast
  have d: "data demo_vec \<noteq> NULL" by simp
  have small: "\<forall>k<4. 0 \<le> ne demo_vec ! k \<and> ne demo_vec ! k < 2 ^ 31 \<and> nb demo_vec ! k < 2 ^ 31"
    by (simp add: all_less_4)
  have f: "fits demo_s (ty demo_vec) (n_dims demo_vec)
      (scatter4 (nat 1) (nat 0) (nat 2) (nat 3) (map to_int32 (ne demo_vec)))"
    by (simp add: scatter4_def good_request_def request_size_def data_size_needed_def data_size_raw_def
        cdiv_def to_size_def wrap64_def NE_MEM_ALIGN_def to_int32_def)
  from permute_axes [OF demo_s_facts(1,3) d small f r] r show ?thesis by auto
qed

text \<open>
  C17. Transposing twice gives a view with the dimensions, the strides and the data of the
  original tensor (its unused dimensions being 1).
\<close>

theorem transpose_twice:
  assumes ok: "heap_ok s" and a: "tensors s a = Some ta" "data ta \<noteq> NULL"
    and pad: "\<forall>i < 4. n_dims ta \<le> i \<longrightarrow> ne ta ! i = 1"
    and f1: "fits s (ty ta) (n_dims ta) ((new_ne (n_dims ta) (ne ta))[0 := ne ta ! 1, 1 := ne ta ! 0])"
    and r1: "ne_transpose a s = Inr (r, s1)" and r2: "ne_transpose r s1 = Inr (q, s2)"
  shows "\<exists>t. tensors s2 q = Some t \<and> ne t = ne ta \<and> nb t = nb ta \<and> data t = data ta \<and> ty t = ty ta"
proof -
  have wf: "tensor_wf ta" and ga: "good_request (ctx s) (ty ta) (n_dims ta) (ne ta) NULL (tsize ta)"
    using ok a by (auto simp: heap_ok_def t_ok_def)
  then obtain n0 n1 n2 n3 b0 b1 b2 b3 where nb: "ne ta = [n0, n1, n2, n3]" "nb ta = [b0, b1, b2, b3]"
    by (auto simp: tensor_wf_def length_Suc_conv numeral_eq_Suc)
  have p: "2 < n_dims ta \<or> n2 = 1" "3 < n_dims ta \<or> n3 = 1" "0 < n_dims ta \<or> n0 = 1" "1 < n_dims ta \<or> n1 = 1"
    using pad by (auto simp: all_less_4 nb not_less)
  have nn: "new_ne (n_dims ta) [n0, n1, n2, n3] = [n0, n1, n2, n3]"
    "(new_ne (n_dims ta) [n1, n0, n2, n3])[0 := n0, Suc 0 := n1] = [n0, n1, n2, n3]"
    using p by (auto simp: new_ne_def upt_rec numeral_2_eq_2 numeral_3_eq_3)
  from transpose_result [OF ok a r1 f1] obtain t g where
    t: "view_header ta t" "data t = data ta"
       "tensors s1 r = Some ((swapped ta t)\<lparr>op := NE_OP_TRANSPOSE, grad := g, src0 := a, src1 := NULL\<rparr>)" by blast
  let ?u = "(swapped ta t)\<lparr>op := NE_OP_TRANSPOSE, grad := g, src0 := a, src1 := NULL\<rparr>"
  have u: "ne ?u = [n1, n0, n2, n3]" "nb ?u = [b1, b0, b2, b3]" "ty ?u = ty ta" "n_dims ?u = n_dims ta" "data ?u = data ta"
    using t(1,2) nn by (simp_all add: swapped_def view_header_def nb)
  have e: "extends s r s1" by (rule ctor_extends [OF ok transpose_contract [OF a(1) f1] r1])
  then have ok1: "heap_ok s1" and c: "no_alloc (ctx s1) = no_alloc (ctx s)"
    by (simp_all add: extends_def grows_def)
  have "fits s (ty ta) (n_dims ta) [n0, n1, n2, n3]" using good_request_dims [OF ga f1] by (simp add: nb)
  then have f2: "fits s1 (ty ?u) (n_dims ?u) ((new_ne (n_dims ?u) (ne ?u))[0 := ne ?u ! 1, 1 := ne ?u ! 0])"
    unfolding u using c nn(2) by (simp add: good_request_def request_size_def)
  have d: "data ?u \<noteq> NULL" using u(5) a(2) by simp
  from transpose_result [OF ok1 t(3) d r2 f2] obtain v g' where
    v: "view_header ?u v" "data v = data ?u"
       "tensors s2 q = Some ((swapped ?u v)\<lparr>op := NE_OP_TRANSPOSE, grad := g', src0 := r, src1 := NULL\<rparr>)" by blast
  let ?w = "(swapped ?u v)\<lparr>op := NE_OP_TRANSPOSE, grad := g', src0 := r, src1 := NULL\<rparr>"
  have "ne ?w = ne ta" "nb ?w = nb ta" "data ?w = data ta" "ty ?w = ty ta"
    using v(1,2) u nn(2) by (simp_all add: swapped_def view_header_def nb)
  with v(3) show ?thesis by blast
qed

theorem transpose_twice_witness:
  "\<exists>r s1 q s2 t. ne_transpose 4160 demo_s = Inr (r, s1) \<and> ne_transpose r s1 = Inr (q, s2) \<and>
     tensors s2 q = Some t \<and> ne t = [4, 1, 1, 1] \<and> nb t = [4, 16, 16, 16] \<and> data t = 4416"
proof -
  have d: "data demo_vec \<noteq> NULL" "grad demo_vec = NULL" by simp_all
  have room: "used_end demo_s + NE_OBJECT_SIZE + sizeof_ne_tensor \<le> mem_size (ctx demo_s)"
    using demo_s_facts by (simp add: pool_consts)
  from transpose_room [OF demo_s_facts(1,3) d room] obtain r s1 t where
    r: "ne_transpose 4160 demo_s = Inr (r, s1)" "tensors s1 r = Some t" "grad t = NULL"
      "used_end s1 = used_end demo_s + NE_OBJECT_SIZE + sizeof_ne_tensor" "mem_size (ctx s1) = mem_size (ctx demo_s)"
    by blast
  have f: "fits demo_s (ty demo_vec) (n_dims demo_vec)
      ((new_ne (n_dims demo_vec) (ne demo_vec))[0 := ne demo_vec ! 1, 1 := ne demo_vec ! 0])"
    by (simp add: new_ne_def upt_rec good_request_def request_size_def data_size_needed_def
        data_size_raw_def cdiv_def to_size_def wrap64_def NE_MEM_ALIGN_def)
  have ok1: "heap_ok s1"
    using ctor_extends [OF demo_s_facts(1) transpose_contract [OF demo_s_facts(3) f] r(1)]
    by (simp add: extends_def grows_def)
  from transpose_result [OF demo_s_facts(1,3) d(1) r(1) f] r(2) have "data t \<noteq> NULL"
    by (auto simp: swapped_def)
  moreover have "used_end s1 + NE_OBJECT_SIZE + sizeof_ne_tensor \<le> mem_size (ctx s1)"
    using r(4,5) demo_s_facts by (simp add: pool_consts)
  ultimately obtain q s2 where q: "ne_transpose r s1 = Inr (q, s2)"
    using transpose_room [OF ok1 r(2) _ r(3)] by blast
  have pad: "\<forall>i < 4. n_dims demo_vec \<le> i \<longrightarrow> ne demo_vec ! i = 1" by (simp add: all_less_4)
  from transpose_twice [OF demo_s_facts(1,3) d(1) pad f r(1) q] r(1) q show ?thesis by auto
qed

text \<open>
  C24. The workspace of \<^verbatim>\<open>ne_flash_attn\<close> is empty: since the shape it passes to
  \<^verbatim>\<open>bestla_fusion_attn_workspace_size\<close> has a key length of zero, the constructor behaves, for
  every number of threads and all operands, as if the query returned zero bytes; for the real
  key length (here 8 keys, 4 threads) it returns 16384 bytes.
\<close>

theorem flash_attn_workspace_zero:
  "ne_flash_attn (bestla_fusion_attn_workspace_size nthr) q k v scale flags = ne_flash_attn (\<lambda>_. 0) q k v scale flags \<and>
   bestla_fusion_attn_workspace_size 4 \<lparr>batch_size = 1, head_num = 1, heads_kv = 1, head_size = 4, sl_q = 8, sl_kv = 8\<rparr> = 16384"
proof -
  have z: "bestla_fusion_attn_workspace_size nthr p = 0" if "sl_kv p = 0" for p :: attn_shape_t
    using that by (simp add: bestla_fusion_attn_workspace_size_def padto_def cdiv_def to_size_def wrap64_def)
  have "ne_flash_attn (bestla_fusion_attn_workspace_size nthr) q k v scale flags = ne_flash_attn (\<lambda>_. 0) q k v scale flags"
    by (simp add: ne_flash_attn_def Let_def z)
  moreover have "bestla_fusion_attn_workspace_size 4 \<lparr>batch_size = 1, head_num = 1, heads_kv = 1, head_size = 4, sl_q = 8, sl_kv = 8\<rparr> = 16384"
    by (simp add: bestla_fusion_attn_workspace_size_def padto_def cdiv_def to_size_def wrap64_def)
  ultimately show ?thesis by blast
qed

end
