(* ===== verification/NE_Graph.thy ===== *)
theory NE_Graph
  imports NE_Results
begin

text \<open>
  Computation graphs (\<^verbatim>\<open>struct ne_cgraph\<close>): the depth-first traversal
  \<^verbatim>\<open>ne_visit_parents\<close> that linearises the tensors below a result, and the functions
  that start it. On the heaps that the constructors build the recursion ends, the nodes come
  out in an order in which every operand stands before its users, no tensor is listed twice,
  and the tensors listed are exactly the ones below the result.
\<close>

section \<open>The graph and its construction\<close>

definition NE_MAX_NODES :: nat where "NE_MAX_NODES = 16384"
definition NE_DEFAULT_N_THREADS :: int where "NE_DEFAULT_N_THREADS = 4"

text \<open>
  The arrays \<open>nodes\<close>, \<open>grads\<close> and \<open>leafs\<close> are the prefixes in use, so
  \<^verbatim>\<open>n_nodes\<close> and \<^verbatim>\<open>n_leafs\<close> are their lengths.
\<close>

record ne_cgraph =
  n_threads :: int
  work_size :: nat
  work :: ptr
  nodes :: "ptr list"
  grads :: "ptr list"
  leafs :: "ptr list"
  g_perf_runs :: int
  g_perf_cycles :: int
  g_perf_time_us :: int

type_synonym 'a gop = "(ne_cgraph, 'a) op"

text \<open>\<open>ne_visit_parents\<close> on each of a list of pointers, null pointers apart.\<close>

primrec visit_all :: "(ptr \<Rightarrow> unit gop) \<Rightarrow> ptr list \<Rightarrow> unit gop" where
  "visit_all visit [] = ret ()"
| "visit_all visit (q # qs) = sseq (if q = NULL then ret () else visit q) (visit_all visit qs)"

text \<open>The end of \<^verbatim>\<open>ne_visit_parents\<close>: the node is listed as a leaf or as a node.\<close>

definition list_node :: "ptr \<Rightarrow> ne_tensor \<Rightarrow> unit gop" where
  "list_node p t =
     (if op t = NE_OP_NONE \<and> grad t = NULL then
        sbind (gets (length \<circ> leafs)) (\<lambda>n.
        sseq (ne_assert (n < NE_MAX_NODES))
          (modify (\<lambda>g. g\<lparr>leafs := leafs g @ [p]\<rparr>)))
      else
        sbind (gets (length \<circ> nodes)) (\<lambda>n.
        sseq (ne_assert (n < NE_MAX_NODES))
          (modify (\<lambda>g. g\<lparr>nodes := nodes g @ [p], grads := grads g @ [grad t]\<rparr>))))"

text \<open>The fuel is the depth of the C stack: one unit for each active call.\<close>

primrec ne_visit_parents :: "nat \<Rightarrow> ne_state \<Rightarrow> ptr \<Rightarrow> unit gop" where
  "ne_visit_parents 0 s p = fail Stack_Overflow"
| "ne_visit_parents (Suc k) s p =
     (case tensors s p of
        None \<Rightarrow> fail Bad_Deref
      | Some t \<Rightarrow>
          sbind (gets (\<lambda>g. p \<in> set (nodes g) \<or> p \<in> set (leafs g))) (\<lambda>seen.
          if seen then ret ()
          else sseq (visit_all (ne_visit_parents k s) (src0 t # src1 t # opt t)) (list_node p t)))"

definition clear_graph :: "ne_cgraph \<Rightarrow> ne_cgraph" where
  "clear_graph g = g\<lparr>nodes := [], grads := [], leafs := []\<rparr>"

definition ne_build_forward_impl :: "nat \<Rightarrow> ne_state \<Rightarrow> ptr \<Rightarrow> bool \<Rightarrow> unit gop" where
  "ne_build_forward_impl k s p expand =
     sseq (if expand then ret () else modify clear_graph)
    (sbind (gets (length \<circ> nodes)) (\<lambda>n0.
     sseq (ne_visit_parents k s p)
    (sbind (gets nodes) (\<lambda>ns.
     if n0 < length ns then ne_assert (ns ! (length ns - 1) = p) else ret ()))))"

definition ne_build_forward_expand :: "nat \<Rightarrow> ne_state \<Rightarrow> ptr \<Rightarrow> unit gop" where
  "ne_build_forward_expand k s p = ne_build_forward_impl k s p True"

definition empty_graph :: ne_cgraph where
  "empty_graph = \<lparr>n_threads = NE_DEFAULT_N_THREADS, work_size = 0, work = NULL, nodes = [], grads = [],
     leafs = [], g_perf_runs = 0, g_perf_cycles = 0, g_perf_time_us = 0\<rparr>"

definition ne_build_forward :: "nat \<Rightarrow> ne_state \<Rightarrow> ptr \<Rightarrow> ne_cgraph res" where
  "ne_build_forward k s p =
     (case ne_build_forward_impl k s p False empty_graph of Inl e \<Rightarrow> Inl e | Inr (_, g) \<Rightarrow> Inr g)"

section \<open>Queries and reset\<close>

text \<open>The argument of \<^verbatim>\<open>ne_graph_find\<close> may be null; every node is part of no graph at all.\<close>

definition ne_graph_find :: "ne_cgraph option \<Rightarrow> ptr \<Rightarrow> bool" where
  "ne_graph_find cg p = (case cg of None \<Rightarrow> True | Some g \<Rightarrow> p \<in> set (nodes g))"

fun find_parent :: "ptr list \<Rightarrow> ptr \<Rightarrow> ptr neop" where
  "find_parent [] p = ret NULL"
| "find_parent (q # qs) p = sbind (get_t q) (\<lambda>t. if grad t = p then ret q else find_parent qs p)"

definition ne_graph_get_parent :: "ne_cgraph \<Rightarrow> ptr \<Rightarrow> ptr neop" where
  "ne_graph_get_parent g p = find_parent (nodes g) p"

fun zero_all :: "ptr list \<Rightarrow> unit neop" where
  "zero_all [] = ret ()"
| "zero_all (q # qs) =
     (if q = NULL then zero_all qs else sbind (ne_set_zero q) (\<lambda>_. zero_all qs))"

definition ne_graph_reset :: "ne_cgraph \<Rightarrow> unit neop" where
  "ne_graph_reset g = zero_all (grads g)"

section \<open>Well-formed graphs\<close>

lemma sbind_gets [simp, ne_monad]: "sbind (gets f) k g = k (f g) g"
  by (simp add: sbind_def)

definition seen :: "ne_cgraph \<Rightarrow> ptr set" where
  "seen g = set (nodes g) \<union> set (leafs g)"

definition leaf_ptr :: "ne_state \<Rightarrow> ptr \<Rightarrow> bool" where
  "leaf_ptr s p = (case tensors s p of None \<Rightarrow> False | Some t \<Rightarrow> op t = NE_OP_NONE \<and> grad t = NULL)"

definition grad_of :: "ne_state \<Rightarrow> ptr \<Rightarrow> ptr" where
  "grad_of s p = (case tensors s p of None \<Rightarrow> NULL | Some t \<Rightarrow> grad t)"

definition ops_of :: "ne_state \<Rightarrow> ptr \<Rightarrow> ptr set" where
  "ops_of s p = (case tensors s p of None \<Rightarrow> {} | Some t \<Rightarrow> operands t)"

text \<open>
  Listed tensors exist, none is listed twice, leaves and nodes are told apart the way the code
  does, \<open>grads\<close> holds their gradients, and the operands of a node are leaves or earlier nodes.
\<close>

definition cgraph_ok :: "ne_state \<Rightarrow> ne_cgraph \<Rightarrow> bool" where
  "cgraph_ok s g \<longleftrightarrow> distinct (nodes g) \<and> distinct (leafs g) \<and> seen g \<subseteq> dom (tensors s) \<and>
     (\<forall>p \<in> set (nodes g). \<not> leaf_ptr s p) \<and> (\<forall>p \<in> set (leafs g). leaf_ptr s p) \<and>
     grads g = map (grad_of s) (nodes g) \<and>
     (\<forall>p \<in> set (leafs g). ops_of s p \<subseteq> seen g) \<and>
     (\<forall>i < length (nodes g). ops_of s (nodes g ! i) \<subseteq> set (take i (nodes g)) \<union> set (leafs g))"

text \<open>The tensors below \<open>p\<close>, itself included.\<close>

definition below :: "ne_state \<Rightarrow> ptr \<Rightarrow> ptr set" where
  "below s p = (operand_edges s)\<^sup>* `` {p}"

text \<open>The arrays of the graph have room for a set of tensors.\<close>

definition graph_room :: "ne_state \<Rightarrow> ptr set \<Rightarrow> bool" where
  "graph_room s A \<longleftrightarrow> finite A \<and> card {p \<in> A. leaf_ptr s p} \<le> NE_MAX_NODES \<and>
     card {p \<in> A. \<not> leaf_ptr s p} \<le> NE_MAX_NODES"

text \<open>The traversal has added everything below the tensors of \<open>A\<close>, behind what was listed before.\<close>

definition visited :: "ne_state \<Rightarrow> ne_cgraph \<Rightarrow> ptr set \<Rightarrow> ne_cgraph \<Rightarrow> bool" where
  "visited s g A g' \<longleftrightarrow> cgraph_ok s g' \<and> seen g' = seen g \<union> \<Union> (below s ` A) \<and>
     (\<exists>ns. nodes g' = nodes g @ ns) \<and> (\<exists>ls. leafs g' = leafs g @ ls) \<and> clear_graph g' = clear_graph g"

lemma operand_edges_iff: "(p, q) \<in> operand_edges s \<longleftrightarrow> q \<in> ops_of s p"
  by (auto simp: operand_edges_def ops_of_def split: option.splits)

lemma below_self [simp]: "p \<in> below s p"
  by (simp add: below_def)

lemma below_unfold: "below s p = insert p (\<Union> (below s ` ops_of s p))"
proof -
  have "(p, q) \<in> (operand_edges s)\<^sup>* \<longleftrightarrow> q = p \<or> (\<exists>r. r \<in> ops_of s p \<and> (r, q) \<in> (operand_edges s)\<^sup>*)" for q
    by (metis converse_rtranclE converse_rtrancl_into_rtrancl operand_edges_iff rtrancl.rtrancl_refl)
  then show ?thesis by (auto simp: below_def)
qed

lemma below_op_subset: "q \<in> ops_of s p \<Longrightarrow> below s q \<subseteq> below s p"
  by (subst (2) below_unfold) auto

lemma below_op_not: "acyclic (operand_edges s) \<Longrightarrow> q \<in> ops_of s p \<Longrightarrow> p \<notin> below s q"
  unfolding below_def acyclic_def
  by (metis Image_singleton_iff operand_edges_iff r_into_trancl rtrancl_into_trancl2)

lemma below_closed:
  assumes "closed_heap s" "p \<in> dom (tensors s)"
  shows "below s p \<subseteq> dom (tensors s)"
proof
  fix q assume "q \<in> below s p"
  then have "(p, q) \<in> (operand_edges s)\<^sup>*" by (simp add: below_def)
  then show "q \<in> dom (tensors s)"
    by induction (use assms in \<open>auto simp: closed_heap_def operand_edges_def\<close>)
qed

text \<open>A set of listed tensors that contains the operands of its members contains everything below them.\<close>

lemma below_seen:
  assumes g: "cgraph_ok s g" and p: "p \<in> seen g"
  shows "below s p \<subseteq> seen g"
proof
  have step: "ops_of s q \<subseteq> seen g" if q: "q \<in> seen g" for q
  proof (cases "q \<in> set (nodes g)")
    case True
    then obtain i where "i < length (nodes g)" "nodes g ! i = q" by (auto simp: in_set_conv_nth)
    with g have "ops_of s q \<subseteq> set (take i (nodes g)) \<union> set (leafs g)" by (auto simp: cgraph_ok_def)
    then show ?thesis using set_take_subset [of i "nodes g"] unfolding seen_def by blast
  qed (use g q in \<open>auto simp: cgraph_ok_def seen_def\<close>)
  fix q assume "q \<in> below s p"
  then have "(p, q) \<in> (operand_edges s)\<^sup>*" by (simp add: below_def)
  then show "q \<in> seen g"
    by induction (use p step in \<open>auto simp: operand_edges_iff\<close>)
qed

lemma graph_room_mono:
  assumes "graph_room s B" "A \<subseteq> B"
  shows "graph_room s A"
proof -
  have B: "finite B" using assms(1) by (simp add: graph_room_def)
  have "card {p \<in> A. P p} \<le> card {p \<in> B. P p}" for P
    by (rule card_mono) (use B assms(2) in auto)
  from this [of "leaf_ptr s"] this [of "\<lambda>p. \<not> leaf_ptr s p"] finite_subset [OF assms(2) B] assms(1)
  show ?thesis unfolding graph_room_def by linarith
qed

lemma visited_refl: "cgraph_ok s g \<Longrightarrow> \<Union> (below s ` A) \<subseteq> seen g \<Longrightarrow> visited s g A g"
  by (auto simp: visited_def)

lemma visited_trans: "visited s g A g1 \<Longrightarrow> visited s g1 B g2 \<Longrightarrow> visited s g (A \<union> B) g2"
  by (auto simp: visited_def)

text \<open>A visitor that does its work for each operand does it for the list of them.\<close>

lemma visit_all_ok:
  assumes "\<And>q g. q \<in> set qs \<Longrightarrow> q \<noteq> NULL \<Longrightarrow> cgraph_ok s g \<Longrightarrow> graph_room s (seen g \<union> below s q) \<Longrightarrow>
      \<exists>g'. visit q g = Inr ((), g') \<and> visited s g {q} g'"
    and "cgraph_ok s g" "graph_room s (seen g \<union> \<Union> (below s ` (set qs - {NULL})))"
  shows "\<exists>g'. visit_all visit qs g = Inr ((), g') \<and> visited s g (set qs - {NULL}) g'"
  using assms
proof (induction qs arbitrary: g)
  case Nil
  then show ?case by (simp add: visited_refl)
next
  case (Cons q qs)
  show ?case
  proof (cases "q = NULL")
    case True
    with Cons show ?thesis by simp
  next
    case False
    have "graph_room s (seen g \<union> below s q)"
      by (rule graph_room_mono [OF Cons.prems(3)]) (use False in auto)
    then obtain g1 where g1: "visit q g = Inr ((), g1)" "visited s g {q} g1"
      using Cons.prems(1) [of q g] Cons.prems(2) False by auto
    then have ok: "cgraph_ok s g1" and sn: "seen g1 = seen g \<union> below s q" by (auto simp: visited_def)
    have "graph_room s (seen g1 \<union> \<Union> (below s ` (set qs - {NULL})))"
      by (rule graph_room_mono [OF Cons.prems(3)]) (use sn False in auto)
    with Cons.IH [of g1] Cons.prems(1) ok obtain g2 where
      g2: "visit_all visit qs g1 = Inr ((), g2)" "visited s g1 (set qs - {NULL}) g2" by auto
    have "set (q # qs) - {NULL} = {q} \<union> (set qs - {NULL})" using False by auto
    with g1 g2 False visited_trans [OF g1(2) g2(2)] show ?thesis by simp
  qed
qed

text \<open>Listing a tensor whose operands are all listed keeps the graph well formed.\<close>

lemma list_node_ok:
  assumes g: "cgraph_ok s g" and t: "tensors s p = Some t" and new: "p \<notin> seen g"
    and ops: "operands t \<subseteq> seen g" and room: "graph_room s (insert p (seen g))"
  shows "\<exists>g'. list_node p t g = Inr ((), g') \<and> cgraph_ok s g' \<and> seen g' = insert p (seen g) \<and>
    (if leaf_ptr s p then g' = g\<lparr>leafs := leafs g @ [p]\<rparr>
     else g' = g\<lparr>nodes := nodes g @ [p], grads := grads g @ [grad t]\<rparr>)"
proof (cases "leaf_ptr s p")
  case True
  have "set (leafs g) \<subset> {q \<in> insert p (seen g). leaf_ptr s q}"
    using g new True by (auto simp: cgraph_ok_def seen_def)
  then have "card (set (leafs g)) < NE_MAX_NODES"
    using room by (intro less_le_trans [OF psubset_card_mono]) (auto simp: graph_room_def)
  then have "length (leafs g) < NE_MAX_NODES" using g by (simp add: cgraph_ok_def distinct_card)
  moreover have "op t = NE_OP_NONE \<and> grad t = NULL" using True t by (simp add: leaf_ptr_def)
  moreover have "cgraph_ok s (g\<lparr>leafs := leafs g @ [p]\<rparr>)"
    using g t new ops True by (auto simp: cgraph_ok_def seen_def ops_of_def)
  ultimately show ?thesis using True by (auto simp: list_node_def seen_def)
next
  case False
  have "set (nodes g) \<subset> {q \<in> insert p (seen g). \<not> leaf_ptr s q}"
    using g new False by (auto simp: cgraph_ok_def seen_def)
  then have "card (set (nodes g)) < NE_MAX_NODES"
    using room by (intro less_le_trans [OF psubset_card_mono]) (auto simp: graph_room_def)
  then have "length (nodes g) < NE_MAX_NODES" using g by (simp add: cgraph_ok_def distinct_card)
  moreover have "\<not> (op t = NE_OP_NONE \<and> grad t = NULL)" using False t by (simp add: leaf_ptr_def)
  moreover have "cgraph_ok s (g\<lparr>nodes := nodes g @ [p], grads := grads g @ [grad t]\<rparr>)"
    using g t new ops False
    by (auto simp: cgraph_ok_def seen_def ops_of_def grad_of_def nth_append less_Suc_eq)
  ultimately show ?thesis using False by (auto simp: list_node_def seen_def)
qed

section \<open>The traversal\<close>

lemma below_card_less:
  assumes "acyclic (operand_edges s)" "finite (below s p)" "q \<in> ops_of s p"
  shows "card (below s q) < card (below s p)"
proof (rule psubset_card_mono [OF assms(2)])
  show "below s q \<subset> below s p"
    using below_op_subset [OF assms(3)] below_op_not [OF assms(1,3)] below_self by blast
qed

lemma visit_all_null: "set qs \<subseteq> {NULL} \<Longrightarrow> visit_all visit qs g = Inr ((), g)"
  by (induction qs) auto

text \<open>The end of a visit: the operands are listed, then the tensor itself.\<close>

lemma visited_list_node:
  assumes acyc: "acyclic (operand_edges s)" and t: "tensors s p = Some t" and new: "p \<notin> seen g"
    and room: "graph_room s (seen g \<union> below s p)" and v: "visited s g (operands t) g1"
  shows "\<exists>g2. list_node p t g1 = Inr ((), g2) \<and> visited s g {p} g2 \<and>
    (if leaf_ptr s p then last (leafs g2) = p \<and> nodes g2 = nodes g1 else last (nodes g2) = p)"
proof -
  have ops: "ops_of s p = operands t" using t by (simp add: ops_of_def)
  have bp: "below s p = insert p (\<Union> (below s ` operands t))" by (subst below_unfold) (simp add: ops)
  have ok1: "cgraph_ok s g1" and sn1: "seen g1 = seen g \<union> \<Union> (below s ` operands t)"
    using v by (auto simp: visited_def)
  have new1: "p \<notin> seen g1" using sn1 new below_op_not [OF acyc] ops by auto
  have ops1: "operands t \<subseteq> seen g1" using sn1 by auto
  have "graph_room s (insert p (seen g1))" by (rule graph_room_mono [OF room]) (use sn1 bp in auto)
  from list_node_ok [OF ok1 t new1 ops1 this] obtain g2 where g2:
    "list_node p t g1 = Inr ((), g2)" "cgraph_ok s g2" "seen g2 = insert p (seen g1)"
    "if leaf_ptr s p then g2 = g1\<lparr>leafs := leafs g1 @ [p]\<rparr>
     else g2 = g1\<lparr>nodes := nodes g1 @ [p], grads := grads g1 @ [grad t]\<rparr>" by blast
  have "(\<exists>ns. nodes g2 = nodes g @ ns) \<and> (\<exists>ls. leafs g2 = leafs g @ ls) \<and> clear_graph g2 = clear_graph g"
    using v g2(4) by (auto simp: visited_def clear_graph_def split: if_splits)
  moreover have "seen g2 = seen g \<union> \<Union> (below s ` {p})" using g2(3) sn1 bp by auto
  ultimately have "visited s g {p} g2" using g2(2) unfolding visited_def by blast
  with g2(1,4) show ?thesis by (auto split: if_splits)
qed

text \<open>
  The traversal returns, with fuel for the number of tensors below the start, and lists exactly
  these; the start itself comes last.
\<close>

lemma visit_parents_ok:
  assumes acyc: "acyclic (operand_edges s)" and closed: "closed_heap s" and fin: "finite (dom (tensors s))"
    and p: "p \<in> dom (tensors s)" and k: "card (below s p) \<le> k"
    and g: "cgraph_ok s g" and room: "graph_room s (seen g \<union> below s p)"
  shows "\<exists>g'. ne_visit_parents k s p g = Inr ((), g') \<and> visited s g {p} g' \<and>
    (p \<notin> seen g \<longrightarrow> (if leaf_ptr s p then last (leafs g') = p \<and> (ops_of s p = {} \<longrightarrow> nodes g' = nodes g)
                       else last (nodes g') = p))"
  using p k g room
proof (induction k arbitrary: p g)
  case 0
  have "finite (below s p)" using below_closed [OF closed 0(1)] fin by (rule finite_subset)
  with 0 below_self [of p s] show ?case by auto
next
  case (Suc k)
  then obtain t where t: "tensors s p = Some t" by auto
  then have ops: "ops_of s p = operands t" by (simp add: ops_of_def)
  have finp: "finite (below s p)" using below_closed [OF closed Suc.prems(1)] fin by (rule finite_subset)
  show ?case
  proof (cases "p \<in> seen g")
    case True
    then have "visited s g {p} g" using Suc.prems(3) below_seen visited_refl by auto
    with True t show ?thesis by (auto simp: seen_def)
  next
    case False
    define qs where "qs = src0 t # src1 t # opt t"
    have qs: "set qs - {NULL} = operands t" by (auto simp: qs_def operands_def)
    have one: "\<exists>g'. ne_visit_parents k s q h = Inr ((), g') \<and> visited s h {q} g'"
      if q: "q \<in> set qs" "q \<noteq> NULL" "cgraph_ok s h" "graph_room s (seen h \<union> below s q)" for q h
    proof -
      have qo: "q \<in> ops_of s p" using q qs ops by blast
      have "q \<in> dom (tensors s)" using closed t qo ops by (auto simp: closed_heap_def)
      with Suc.IH [of q h] below_card_less [OF acyc finp qo] Suc.prems(2) q show ?thesis by auto
    qed
    have rm: "graph_room s (seen g \<union> \<Union> (below s ` (set qs - {NULL})))"
      by (rule graph_room_mono [OF Suc.prems(4)]) (use qs ops below_op_subset [of _ s p] in auto)
    from visit_all_ok [of qs s "ne_visit_parents k s" g, OF one Suc.prems(3) rm]
    obtain g1 where g1: "visit_all (ne_visit_parents k s) qs g = Inr ((), g1)" "visited s g (operands t) g1"
      unfolding qs by blast
    from visited_list_node [OF acyc t False Suc.prems(4) g1(2)] obtain g2 where
      g2: "list_node p t g1 = Inr ((), g2)" "visited s g {p} g2"
      "if leaf_ptr s p then last (leafs g2) = p \<and> nodes g2 = nodes g1 else last (nodes g2) = p" by blast
    have "ne_visit_parents (Suc k) s p g = Inr ((), g2)"
      using t False g1(1) g2(1) by (simp add: seen_def qs_def [symmetric])
    moreover have "g1 = g" if "operands t = {}"
      using g1(1) visit_all_null [of qs "ne_visit_parents k s" g] qs that by auto
    ultimately show ?thesis using g2(2,3) ops by (auto split: if_splits)
  qed
qed

section \<open>Forward graphs\<close>

lemma graph_ok_acyclic: "graph_ok s \<Longrightarrow> acyclic (operand_edges s) \<and> closed_heap s \<and> finite (dom (tensors s))"
  using ranked_acyclic by (auto simp: graph_ok_def heap_ok_def)

text \<open>
  \<open>ne_build_forward_impl\<close> returns: the traversal ends and the final check on the last node holds.
  A tensor without operation is a leaf of the heap, so it has no operands.
\<close>

lemma build_forward_impl_ok:
  assumes s: "graph_ok s" and t: "tensors s p = Some t" and leaf: "op t = NE_OP_NONE \<Longrightarrow> operands t = {}"
    and k: "card (below s p) \<le> k" and g: "cgraph_ok s g" and room: "graph_room s (seen g \<union> below s p)"
  shows "\<exists>g'. ne_build_forward_impl k s p True g = Inr ((), g') \<and> visited s g {p} g'"
proof -
  note gr = graph_ok_acyclic [OF s]
  have p: "p \<in> dom (tensors s)" using t by auto
  obtain g' where g': "ne_visit_parents k s p g = Inr ((), g')" "visited s g {p} g'"
    "p \<notin> seen g \<Longrightarrow> if leaf_ptr s p then last (leafs g') = p \<and> (ops_of s p = {} \<longrightarrow> nodes g' = nodes g)
       else last (nodes g') = p"
    using visit_parents_ok [OF _ _ _ p k g room] gr by blast
  have "length (nodes g) < length (nodes g') \<longrightarrow> nodes g' ! (length (nodes g') - 1) = p"
  proof (cases "p \<in> seen g")
    case True
    obtain k' where "k = Suc k'" using g'(1) by (cases k) auto
    with True t g'(1) have "g' = g" by (auto simp: seen_def)
    then show ?thesis by simp
  next
    case False
    have "leaf_ptr s p \<Longrightarrow> ops_of s p = {}" using t leaf by (auto simp: leaf_ptr_def ops_of_def)
    then show ?thesis using g'(3) [OF False]
      by (cases "nodes g' = []") (auto simp: last_conv_nth split: if_splits)
  qed
  then show ?thesis using g'(1,2) by (auto simp: ne_build_forward_impl_def)
qed

lemma cgraph_ok_empty: "cgraph_ok s (clear_graph g)"
  by (simp add: cgraph_ok_def seen_def clear_graph_def)

lemma build_forward_ok:
  assumes s: "graph_ok s" and t: "tensors s p = Some t" and leaf: "op t = NE_OP_NONE \<Longrightarrow> operands t = {}"
    and k: "card (below s p) \<le> k" and room: "graph_room s (below s p)"
  shows "\<exists>g. ne_build_forward k s p = Inr g \<and> visited s empty_graph {p} g"
proof -
  have e: "clear_graph empty_graph = empty_graph" by (simp add: clear_graph_def empty_graph_def)
  have "cgraph_ok s empty_graph" "seen empty_graph = {}"
    using cgraph_ok_empty [of s empty_graph] e by (simp_all add: seen_def empty_graph_def)
  with build_forward_impl_ok [OF s t leaf k, of empty_graph] room obtain g where
    "ne_build_forward_impl k s p True empty_graph = Inr ((), g)" "visited s empty_graph {p} g" by auto
  moreover have "ne_build_forward_impl k s p False empty_graph = ne_build_forward_impl k s p True empty_graph"
    by (simp add: ne_build_forward_impl_def e)
  ultimately show ?thesis by (simp add: ne_build_forward_def)
qed

text \<open>The square of the demonstration vector, and the tensors below it.\<close>

lemma demo_sqr:
  "\<exists>s r t. node_step\<^sup>*\<^sup>* demo_state s \<and> tensors s r = Some t \<and> op t = NE_OP_SQR \<and> src0 t = 4160 \<and>
     dom (tensors s) = {4160, r} \<and> tensors s 4160 = Some demo_vec"
proof -
  have t: "data demo_vec \<noteq> NULL" "False \<or> grad demo_vec = NULL" by simp_all
  from u_sqr.builds [OF demo_s_facts(1,3) t demo_s_facts(4) demo_s_room(2,1)] obtain r s' t' where
    r: "ne_sqr_impl 4160 False demo_s = Inr (r, s')" "tensors s' = (tensors demo_s)(r \<mapsto> t')"
    "src0 t' = 4160" "op t' = NE_OP_SQR" "tensors demo_s r = None" by blast
  have "ne_sqr_impl \<in> unary_inplace" by (simp add: unary_inplace_def)
  then have "node_call demo_s r s'" using demo_s_facts(3) r(1) by (rule node_call.c_unary)
  moreover have "node_step demo_state demo_s" by (rule node_step.s_new [OF demo_vec_good demo_alloc])
  ultimately have "node_step\<^sup>*\<^sup>* demo_state s'"
    by (meson node_step.s_call r_into_rtranclp rtranclp.rtrancl_into_rtrancl)
  moreover have "r \<noteq> 4160" using r(5) demo_s_facts(3) by auto
  moreover have "dom (tensors demo_s) = {4160}" by (auto simp: demo_s_def demo_state_def)
  ultimately show ?thesis using r demo_s_facts(3) by (intro exI [of _ s'] exI [of _ r] exI [of _ t']) auto
qed

lemma two_room: "A \<subseteq> {a, b} \<Longrightarrow> card A \<le> 2 \<and> graph_room s A"
proof -
  assume A: "A \<subseteq> {a, b}"
  have "card B \<le> 2" if "B \<subseteq> {a, b}" for B
    using card_mono [OF _ that] by (auto simp: card_insert_if split: if_splits)
  from this [OF subset_trans [OF _ A]] have "card {p \<in> A. P p} \<le> 2" for P by simp
  then have "card {p \<in> A. P p} \<le> NE_MAX_NODES" for P
    by (rule order_trans) (simp add: NE_MAX_NODES_def)
  moreover have "card A \<le> 2" "finite A" using \<open>\<And>B. B \<subseteq> {a, b} \<Longrightarrow> card B \<le> 2\<close> [OF A] finite_subset [OF A] by simp_all
  ultimately show ?thesis by (simp add: graph_room_def)
qed

text \<open>
  C3. For every heap that a program can reach with constructor calls and every tensor of it,
  \<^verbatim>\<open>ne_build_forward\<close> returns a graph, with stack depth at most the number of tensors below
  the start and as long as the arrays have room for them: no tensor is listed twice, every
  operand of a node is a leaf or an earlier node, the listed tensors are exactly those from
  which the result is computed, and \<open>grads\<close> lines up with \<open>nodes\<close>.
\<close>

theorem build_forward_topological:
  assumes "graph_start s0" "node_step\<^sup>*\<^sup>* s0 s" "tensors s p = Some t"
    and "op t = NE_OP_NONE \<Longrightarrow> operands t = {}"
    and "card (below s p) \<le> k" "graph_room s (below s p)"
  shows "\<exists>g. ne_build_forward k s p = Inr g \<and> set (nodes g) \<union> set (leafs g) = below s p \<and>
     distinct (nodes g @ leafs g) \<and> grads g = map (grad_of s) (nodes g) \<and>
     (\<forall>i < length (nodes g). ops_of s (nodes g ! i) \<subseteq> set (take i (nodes g)) \<union> set (leafs g))"
proof -
  from build_forward_ok [OF graph.inv_reachable [OF assms(1,2)] assms(3-6)] obtain g where
    g: "ne_build_forward k s p = Inr g" "cgraph_ok s g" "seen g = below s p"
    by (auto simp: visited_def seen_def empty_graph_def)
  then show ?thesis by (auto simp: cgraph_ok_def seen_def)
qed

theorem build_forward_topological_witness:
  "\<exists>s r g. node_step\<^sup>*\<^sup>* demo_state s \<and> ne_build_forward 2 s r = Inr g \<and> r \<in> set (nodes g) \<union> set (leafs g) \<and>
     4160 \<in> set (nodes g) \<union> set (leafs g) \<and> distinct (nodes g @ leafs g)"
proof -
  from demo_sqr obtain s r t where s: "node_step\<^sup>*\<^sup>* demo_state s" "tensors s r = Some t" "op t = NE_OP_SQR"
    "src0 t = 4160" "dom (tensors s) = {4160, r}" by blast
  have "closed_heap s" using graph.inv_reachable [OF demo_graph_start s(1)] by (simp add: graph_ok_def)
  then have "below s r \<subseteq> {4160, r}" using below_closed s(2,5) by blast
  then have b: "card (below s r) \<le> 2" "graph_room s (below s r)" using two_room by blast+
  have "4160 \<in> below s r"
    by (subst below_unfold) (use s(2,4) in \<open>auto simp: ops_of_def operands_def intro!: bexI [of _ 4160]\<close>)
  moreover have "op t = NE_OP_NONE \<Longrightarrow> operands t = {}" using s(3) by simp
  ultimately show ?thesis
    using build_forward_topological [OF demo_graph_start s(1,2) _ b] s(1) below_self [of r s] by blast
qed

text \<open>
  C25. Expanding a graph keeps what it lists, in place, and adds exactly the missing tensors
  below the new result.
\<close>

theorem build_forward_expand_extends:
  assumes "graph_start s0" "node_step\<^sup>*\<^sup>* s0 s" "tensors s p = Some t"
    and "op t = NE_OP_NONE \<Longrightarrow> operands t = {}" "card (below s p) \<le> k"
    and "cgraph_ok s g" "graph_room s (seen g \<union> below s p)"
  shows "\<exists>g' ns ls. ne_build_forward_expand k s p g = Inr ((), g') \<and> cgraph_ok s g' \<and>
     nodes g' = nodes g @ ns \<and> leafs g' = leafs g @ ls \<and> set ns \<union> set ls = below s p - seen g"
proof -
  from build_forward_impl_ok [OF graph.inv_reachable [OF assms(1,2)] assms(3-7)] obtain g' where
    g': "ne_build_forward_expand k s p g = Inr ((), g')" "visited s g {p} g'"
    by (auto simp: ne_build_forward_expand_def)
  then obtain ns ls where n: "nodes g' = nodes g @ ns" "leafs g' = leafs g @ ls" by (auto simp: visited_def)
  have ok: "cgraph_ok s g'" and sn: "seen g' = seen g \<union> below s p" using g'(2) by (auto simp: visited_def)
  have "x \<notin> seen g" if "x \<in> set ns \<union> set ls" for x
    using that ok assms(6) n by (auto simp: cgraph_ok_def seen_def)
  then have "set ns \<union> set ls = below s p - seen g" using sn n by (auto simp: seen_def)
  with g'(1) ok n show ?thesis by blast
qed

theorem build_forward_expand_extends_witness:
  "\<exists>s r g ns. node_step\<^sup>*\<^sup>* demo_state s \<and>
     ne_build_forward_expand 2 s r (empty_graph\<lparr>leafs := [4160]\<rparr>) = Inr ((), g) \<and> nodes g = ns \<and> cgraph_ok s g"
proof -
  let ?g = "empty_graph\<lparr>leafs := [4160]\<rparr>"
  from demo_sqr obtain s r t where s: "node_step\<^sup>*\<^sup>* demo_state s" "tensors s r = Some t" "op t = NE_OP_SQR"
    "src0 t = 4160" "dom (tensors s) = {4160, r}" "tensors s 4160 = Some demo_vec" by blast
  have "closed_heap s" using graph.inv_reachable [OF demo_graph_start s(1)] by (simp add: graph_ok_def)
  then have bl: "below s r \<subseteq> {4160, r}" using below_closed s(2,5) by blast
  have sn: "seen ?g = {4160}" by (simp add: seen_def empty_graph_def)
  have b: "card (below s r) \<le> 2" "graph_room s (seen ?g \<union> below s r)" using two_room bl sn by blast+
  have "operands demo_vec = {}" "op demo_vec = NE_OP_NONE" by (simp_all add: demo_vec_def init_tensor_def operands_def)
  then have "cgraph_ok s ?g"
    using s(6) sn by (auto simp: cgraph_ok_def ops_of_def leaf_ptr_def empty_graph_def)
  moreover have "op t = NE_OP_NONE \<Longrightarrow> operands t = {}" using s(3) by simp
  ultimately show ?thesis
    using build_forward_expand_extends [OF demo_graph_start s(1,2) _ b(1) _ b(2)] s(1) by blast
qed

end
