(* ===== verification/NE_Backward.thy ===== *)
theory NE_Backward
  imports NE_Graph
begin

text \<open>
  Automatic differentiation: \<^verbatim>\<open>ne_compute_backward\<close>, which extends the graph by the nodes that
  carry a gradient from a tensor to its operands, and \<^verbatim>\<open>ne_build_backward\<close>, which applies it to
  a forward graph in reverse order. Where an expression of the code calls constructors in
  several arguments of a call, C leaves their order open; they are evaluated here from left to
  right, on which only the addresses of the new tensors depend.
\<close>

section \<open>Accumulating a gradient\<close>

text \<open>\<^verbatim>\<open>if (src->grad) { src->grad = f(src->grad); }\<close>\<close>

definition to_grad :: "ptr \<Rightarrow> (ptr \<Rightarrow> ptr neop) \<Rightarrow> unit neop" where
  "to_grad src f =
     sbind (get_t src) (\<lambda>t.
     if grad t = NULL then ret ()
     else sbind (f (grad t)) (\<lambda>g. upd_t src (\<lambda>t. t\<lparr>grad := g\<rparr>)))"

text \<open>The gradient plus, or minus, the tensor that \<open>m\<close> builds.\<close>

definition plus_grad :: "bool \<Rightarrow> ptr \<Rightarrow> ptr neop \<Rightarrow> unit neop" where
  "plus_grad inplace src m = to_grad src (\<lambda>g. sbind m (\<lambda>d. ne_add_impl g d inplace))"

definition minus_grad :: "bool \<Rightarrow> ptr \<Rightarrow> ptr neop \<Rightarrow> unit neop" where
  "minus_grad inplace src m = to_grad src (\<lambda>g. sbind m (\<lambda>d. ne_sub_impl g d inplace))"

text \<open>A constructor applied to tensors that are themselves built first.\<close>

definition ap1 :: "(ptr \<Rightarrow> ptr neop) \<Rightarrow> ptr neop \<Rightarrow> ptr neop" where
  "ap1 f m = sbind m f"

definition ap2 :: "(ptr \<Rightarrow> ptr \<Rightarrow> ptr neop) \<Rightarrow> ptr neop \<Rightarrow> ptr neop \<Rightarrow> ptr neop" where
  "ap2 f m n = sbind m (\<lambda>a. sbind n (f a))"

text \<open>\<^verbatim>\<open>((int32_t*)p->data)[k]\<close>, as \<^verbatim>\<open>int\<close> and converted to \<^verbatim>\<open>size_t\<close>.\<close>

definition i32_at :: "ne_tensor \<Rightarrow> nat \<Rightarrow> int neop" where
  "i32_at t k = with_data t (gets (\<lambda>s. sint (load32 (mem s) (data t + 4 * k))))"

text \<open>The four strides and offset parameters of \<^verbatim>\<open>ne_acc\<close> and \<^verbatim>\<open>ne_set\<close>.\<close>

definition region_params :: "ptr \<Rightarrow> (nat \<times> nat \<times> nat \<times> nat) neop" where
  "region_params c =
     sbind (get_t c) (\<lambda>tc.
     sseq (ne_assert (ne_nelements tc = 5))
    (sseq (ne_assert (ty tc = NE_TYPE_I32))
    (sbind (i32_at tc 0) (\<lambda>nb1.
     sbind (i32_at tc 1) (\<lambda>nb2.
     sbind (i32_at tc 2) (\<lambda>nb3.
     sbind (i32_at tc 3) (\<lambda>offset.
     ret (to_size nb1, to_size nb2, to_size nb3, to_size offset))))))))"

definition f32_half :: "32 word" where "f32_half = 0x3F000000"
definition f32_one :: "32 word" where "f32_one = 0x3F800000"
definition f32_two :: "32 word" where "f32_two = 0x40000000"
definition f32_10000 :: "32 word" where "f32_10000 = 0x461C4000"

section \<open>Operation by operation\<close>

text \<open>
  \<open>t\<close> is the header of the tensor \<open>p\<close> and \<open>tg\<close> its gradient, which is not null when the
  function is called.
\<close>

definition bw_add :: "bool \<Rightarrow> ne_tensor \<Rightarrow> ptr \<Rightarrow> unit neop" where
  "bw_add inplace t tg = sseq (plus_grad inplace (src0 t) (ret tg)) (plus_grad inplace (src1 t) (ret tg))"

definition bw_add1 :: "bool \<Rightarrow> ne_tensor \<Rightarrow> ptr \<Rightarrow> unit neop" where
  "bw_add1 inplace t tg = sseq (plus_grad inplace (src0 t) (ret tg)) (plus_grad inplace (src1 t) (ne_mean tg))"

text \<open>\<^verbatim>\<open>ne_view_4d\<close> of the gradient, in the shape of another tensor.\<close>

definition grad_region :: "ptr \<Rightarrow> ptr \<Rightarrow> nat \<times> nat \<times> nat \<times> nat \<Rightarrow> ptr neop" where
  "grad_region tg g = (\<lambda>(nb1, nb2, nb3, offset). sbind (get_t g) (\<lambda>u.
     ne_view_4d tg (ne u ! 0) (ne u ! 1) (ne u ! 2) (ne u ! 3) nb1 nb2 nb3 offset))"

definition bw_acc :: "bool \<Rightarrow> ne_tensor \<Rightarrow> ptr \<Rightarrow> unit neop" where
  "bw_acc inplace t tg =
     sseq (plus_grad inplace (src0 t) (ret tg))
       (to_grad (src1 t) (\<lambda>g.
          sbind (region_params (opt t ! 0)) (\<lambda>ps.
          sbind (grad_region tg g ps) (\<lambda>v.
          sbind (ap1 (\<lambda>c. ne_reshape c g) (ne_cont v)) (\<lambda>d. ne_add_impl g d inplace)))))"

definition bw_sub :: "bool \<Rightarrow> ne_tensor \<Rightarrow> ptr \<Rightarrow> unit neop" where
  "bw_sub inplace t tg = sseq (plus_grad inplace (src0 t) (ret tg)) (minus_grad inplace (src1 t) (ret tg))"

definition bw_mul :: "bool \<Rightarrow> ne_tensor \<Rightarrow> ptr \<Rightarrow> unit neop" where
  "bw_mul inplace t tg =
     sseq (plus_grad inplace (src0 t) (ne_mul (src1 t) tg)) (plus_grad inplace (src1 t) (ne_mul (src0 t) tg))"

definition bw_div :: "bool \<Rightarrow> ptr \<Rightarrow> ne_tensor \<Rightarrow> ptr \<Rightarrow> unit neop" where
  "bw_div inplace p t tg =
     sseq (plus_grad inplace (src0 t) (ne_div tg (src1 t)))
       (minus_grad inplace (src1 t) (ap1 (ne_mul tg) (ne_div p (src1 t))))"

definition bw_sqr :: "fconv \<Rightarrow> bool \<Rightarrow> ne_tensor \<Rightarrow> ptr \<Rightarrow> unit neop" where
  "bw_sqr fc inplace t tg =
     plus_grad inplace (src0 t) (ap2 ne_scale (ne_mul (src0 t) tg) (ne_new_f32 fc f32_two))"

definition bw_sqrt :: "fconv \<Rightarrow> bool \<Rightarrow> ptr \<Rightarrow> ne_tensor \<Rightarrow> ptr \<Rightarrow> unit neop" where
  "bw_sqrt fc inplace p t tg =
     plus_grad inplace (src0 t)
       (ap1 (ne_mul tg) (ap1 (\<lambda>h. ne_div h p) (ap1 (\<lambda>c. ne_repeat c p) (ne_new_f32 fc f32_half))))"

definition bw_log :: "bool \<Rightarrow> ne_tensor \<Rightarrow> ptr \<Rightarrow> unit neop" where
  "bw_log inplace t tg = plus_grad inplace (src0 t) (ne_div tg (src0 t))"

definition bw_sum :: "bool \<Rightarrow> ne_tensor \<Rightarrow> ptr \<Rightarrow> unit neop" where
  "bw_sum inplace t tg = to_grad (src0 t) (\<lambda>g. ne_add1_impl g tg inplace)"

definition bw_sum_rows :: "bool \<Rightarrow> ne_tensor \<Rightarrow> ptr \<Rightarrow> unit neop" where
  "bw_sum_rows inplace t tg = to_grad (src0 t) (\<lambda>g. sbind (ne_repeat tg g) (\<lambda>d. ne_add_impl g d inplace))"

text \<open>\<open>ne_repeat\<close>: the repetitions are moved to rows of their own and summed.\<close>

definition bw_repeat :: "bool \<Rightarrow> ne_tensor \<Rightarrow> ptr \<Rightarrow> unit neop" where
  "bw_repeat inplace t tg =
     to_grad (src0 t) (\<lambda>g.
     sbind (get_t (src0 t)) (\<lambda>a.
     sseq (ne_assert (n_dims a = 1 \<or> n_dims a = 2))
    (let nc = to_int32 (ne t ! 0); nr = to_int32 (ne t ! 1);
         nc0 = to_int32 (ne a ! 0); nr0 = to_int32 (ne a ! 1) in
     sbind (liftR (cdiv nc nc0)) (\<lambda>ncr.
     sbind (liftR (cdiv nr nr0)) (\<lambda>nrr.
     sbind (get_t tg) (\<lambda>u.
     sbind (ap1 (ne_reshape tg) (ne_new_tensor (ty u) 4 [nc0, ncr, nr0, nrr] NE_SIZE_CALC)) (\<lambda>F01.
     sbind (ne_permute F01 0 2 1 3) (\<lambda>F02.
     sbind (ne_cont F02) (\<lambda>F03.
     sbind (ne_reshape_2d F03 (nc0 * nr0) (ncr * nrr)) (\<lambda>F04.
     sbind (ne_transpose F04) (\<lambda>F05.
     sbind (ne_cont F05) (\<lambda>F06.
     sbind (ne_sum_rows F06) (\<lambda>F07.
     sbind (ne_transpose F07) (\<lambda>F08.
     sbind (ne_cont F08) (\<lambda>F09.
     sbind (ne_reshape F09 g) (\<lambda>F10.
     ne_add_impl g F10 inplace))))))))))))))))"

definition bw_abs :: "bool \<Rightarrow> ne_tensor \<Rightarrow> ptr \<Rightarrow> unit neop" where
  "bw_abs inplace t tg = plus_grad inplace (src0 t) (ap1 (\<lambda>c. ne_mul c tg) (ne_sgn (src0 t)))"

definition bw_neg :: "bool \<Rightarrow> ne_tensor \<Rightarrow> ptr \<Rightarrow> unit neop" where
  "bw_neg inplace t tg = minus_grad inplace (src0 t) (ret tg)"

definition bw_relu :: "bool \<Rightarrow> ne_tensor \<Rightarrow> ptr \<Rightarrow> unit neop" where
  "bw_relu inplace t tg = minus_grad inplace (src0 t) (ap1 (\<lambda>c. ne_mul c tg) (ne_step (src0 t)))"

definition bw_silu :: "bool \<Rightarrow> ne_tensor \<Rightarrow> ptr \<Rightarrow> unit neop" where
  "bw_silu inplace t tg = plus_grad inplace (src0 t) (ne_silu_back (src0 t) tg)"

definition bw_rms_norm :: "bool \<Rightarrow> ne_tensor \<Rightarrow> ptr \<Rightarrow> unit neop" where
  "bw_rms_norm inplace t tg = plus_grad inplace (src0 t) (ne_rms_norm_back (src0 t) tg)"

definition bw_mul_mat :: "bool \<Rightarrow> ne_tensor \<Rightarrow> ptr \<Rightarrow> unit neop" where
  "bw_mul_mat inplace t tg =
     sseq (plus_grad inplace (src0 t)
             (ap1 ne_cont (ap1 ne_transpose
               (ap2 ne_mul_mat (ap1 ne_cont (ne_transpose tg)) (ap1 ne_cont (ne_transpose (src1 t)))))))
       (plus_grad inplace (src1 t) (ap1 (\<lambda>c. ne_mul_mat c tg) (ap1 ne_cont (ne_transpose (src0 t)))))"

definition bw_scale :: "bool \<Rightarrow> ne_tensor \<Rightarrow> ptr \<Rightarrow> unit neop" where
  "bw_scale inplace t tg =
     sseq (plus_grad inplace (src0 t) (ne_scale_impl tg (src1 t) False))
       (plus_grad inplace (src1 t) (ap1 ne_sum (ne_mul_impl tg (src0 t) False)))"

text \<open>The two updates of \<open>ne_set\<close>, from the view \<open>tv\<close> of the gradient.\<close>

definition set_updates :: "bool \<Rightarrow> ne_tensor \<Rightarrow> ptr \<Rightarrow> nat \<times> nat \<times> nat \<times> nat \<Rightarrow> ptr \<Rightarrow> unit neop" where
  "set_updates inplace t tg ps tv =
     sseq (plus_grad inplace (src0 t)
             (case ps of (nb1, nb2, nb3, offset) \<Rightarrow>
                ap1 (\<lambda>n. ne_acc_impl tg n nb1 nb2 nb3 offset False) (ne_neg tv)))
       (to_grad (src1 t) (\<lambda>g.
          sbind (ap1 (\<lambda>c. ne_reshape c g) (ne_cont tv)) (\<lambda>d. ne_add_impl g d inplace)))"

text \<open>
  \<open>ne_set\<close>: the checks read \<^verbatim>\<open>src1->grad->type\<close> as soon as one of the two operands has a
  gradient.
\<close>

definition bw_set :: "bool \<Rightarrow> ne_tensor \<Rightarrow> ptr \<Rightarrow> unit neop" where
  "bw_set inplace t tg =
     sbind (region_params (opt t ! 0)) (\<lambda>ps.
     sbind (get_t (src0 t)) (\<lambda>a.
     sbind (if grad a \<noteq> NULL then ret True else sbind (get_t (src1 t)) (\<lambda>b. ret (grad b \<noteq> NULL))) (\<lambda>any.
     sbind (if any then
              sseq (ne_assert (ty a = ty t))
             (sbind (get_t tg) (\<lambda>u.
              sseq (ne_assert (ty u = ty t))
             (sbind (get_t (src1 t)) (\<lambda>b.
              sbind (get_t (grad b)) (\<lambda>v.
              sseq (ne_assert (ty u = ty v)) (grad_region tg (grad b) ps))))))
            else ret NULL) (\<lambda>tv.
     set_updates inplace t tg ps tv))))"

definition bw_cpy :: "bool \<Rightarrow> ne_tensor \<Rightarrow> ptr \<Rightarrow> unit neop" where
  "bw_cpy inplace t tg = plus_grad inplace (src0 t) (ret tg)"

definition bw_cont :: "bool \<Rightarrow> ne_tensor \<Rightarrow> ptr \<Rightarrow> unit neop" where
  "bw_cont inplace t tg =
     to_grad (src0 t) (\<lambda>g.
       sbind (get_t g) (\<lambda>v. sseq (ne_assertR (ne_is_contiguous v))
      (sbind (get_t tg) (\<lambda>u. sseq (ne_assertR (ne_is_contiguous u))
         (ne_add_impl g tg inplace)))))"

definition bw_reshape :: "bool \<Rightarrow> ne_tensor \<Rightarrow> ptr \<Rightarrow> unit neop" where
  "bw_reshape inplace t tg = to_grad (src0 t) (\<lambda>g. sbind (ne_reshape tg g) (\<lambda>d. ne_add_impl g d inplace))"

text \<open>A little-endian number, as \<^verbatim>\<open>memcpy\<close> of the padding into a \<^verbatim>\<open>size_t\<close> reads it.\<close>

definition le_nat :: "byte list \<Rightarrow> nat" where
  "le_nat bs = foldr (\<lambda>b n. unat b + 256 * n) bs 0"

text \<open>\<^verbatim>\<open>NE_ASSERT(x % n0 == 0)\<close> and \<^verbatim>\<open>(x / n0) * ng\<close>, for an element size that may be zero.\<close>

definition rescale :: "nat \<Rightarrow> nat \<Rightarrow> nat \<Rightarrow> nat neop" where
  "rescale n0 ng x = sbind (liftR (udiv x n0)) (\<lambda>q. ret (wrap64 (q * ng)))"

definition bw_view :: "bool \<Rightarrow> ne_tensor \<Rightarrow> ptr \<Rightarrow> unit neop" where
  "bw_view inplace t tg =
     to_grad (src0 t) (\<lambda>g.
     sbind (get_t (src0 t)) (\<lambda>a.
     sbind (get_t g) (\<lambda>v.
     let offset = le_nat (take 8 (padding t)); nb1 = nb t ! 1; nb2 = nb t ! 2; nb3 = nb t ! 3;
         ng = ne_element_size v; n0 = ne_element_size a in
     if ty a \<noteq> ty v then
       sseq (ne_assertR (cmod0 (int offset) (int n0)))
      (sseq (ne_assertR (cmod0 (int nb1) (int n0)))
      (sseq (ne_assertR (cmod0 (int nb2) (int n0)))
      (sseq (ne_assertR (cmod0 (int nb3) (int n0)))
      (sbind (rescale n0 ng offset) (\<lambda>offset'.
       sbind (rescale n0 ng nb1) (\<lambda>nb1'.
       sbind (rescale n0 ng nb2) (\<lambda>nb2'.
       sbind (rescale n0 ng nb3) (\<lambda>nb3'.
         ne_acc_impl g tg nb1' nb2' nb3' offset' inplace))))))))
     else ne_acc_impl g tg nb1 nb2 nb3 offset inplace)))"

text \<open>The axes of the inverse permutation, from the axes that \<^verbatim>\<open>ne_permute\<close> left in the padding.\<close>

definition axes_backward :: "ne_tensor \<Rightarrow> nat list" where
  "axes_backward t =
     (let ax = (\<lambda>k. unat (padding t ! k AND 3)) in
      [0, 0, 0, 0][ax 0 := 0, ax 1 := 1, ax 2 := 2, ax 3 := 3])"

definition bw_permute :: "bool \<Rightarrow> ne_tensor \<Rightarrow> ptr \<Rightarrow> unit neop" where
  "bw_permute inplace t tg =
     plus_grad inplace (src0 t)
       (let ax = (\<lambda>k. int (axes_backward t ! k)) in ne_permute tg (ax 0) (ax 1) (ax 2) (ax 3))"

definition bw_transpose :: "bool \<Rightarrow> ne_tensor \<Rightarrow> ptr \<Rightarrow> unit neop" where
  "bw_transpose inplace t tg = plus_grad inplace (src0 t) (ne_transpose tg)"

definition bw_get_rows :: "bool \<Rightarrow> ne_tensor \<Rightarrow> ptr \<Rightarrow> unit neop" where
  "bw_get_rows inplace t tg =
     to_grad (src0 t) (\<lambda>g. sbind (ne_get_rows_back tg (src1 t) g) (\<lambda>d. ne_add_impl g d inplace))"

text \<open>Both masks have the mask with zeroes as their derivative.\<close>

definition bw_diag_mask :: "bool \<Rightarrow> ne_tensor \<Rightarrow> ptr \<Rightarrow> unit neop" where
  "bw_diag_mask inplace t tg =
     plus_grad inplace (src0 t)
       (sbind (get_t (src1 t)) (\<lambda>b. sbind (i32_at b 0) (\<lambda>n_past. ne_diag_mask_zero_impl tg n_past False)))"

definition bw_soft_max :: "bool \<Rightarrow> ptr \<Rightarrow> ne_tensor \<Rightarrow> ptr \<Rightarrow> unit neop" where
  "bw_soft_max inplace p t tg =
     to_grad (src0 t) (\<lambda>g.
     let n0 = ne t ! 0; n2 = ne t ! 1 * ne t ! 2; n3 = ne t ! 3;
         flat = (\<lambda>x. ap1 ne_cont (ap1 (\<lambda>c. ne_reshape_4d c n0 1 n2 n3) (ne_cont x))) in
     sbind (flat p) (\<lambda>tensor2.
     sbind (flat tg) (\<lambda>grad2.
     sbind (ap1 ne_cont (ne_permute tensor2 1 0 2 3)) (\<lambda>tensor2_t.
     sbind (ap1 (\<lambda>m. ne_reshape m g)
              (ap1 (\<lambda>j. ne_mul_mat j grad2)
                (ap2 ne_sub (ne_diag tensor2) (ne_mul_mat tensor2_t tensor2_t)))) (\<lambda>d.
     ne_add_impl g d inplace)))))"

definition bw_rope :: "bool \<Rightarrow> ne_tensor \<Rightarrow> ptr \<Rightarrow> unit neop" where
  "bw_rope inplace t tg =
     plus_grad inplace (src0 t)
       (sbind (get_t (src1 t)) (\<lambda>b.
        sbind (i32_at b 0) (\<lambda>n_past. sbind (i32_at b 1) (\<lambda>nd. sbind (i32_at b 2) (\<lambda>mode.
        ne_rope_back tg n_past nd mode)))))"

definition bw_rope_back :: "bool \<Rightarrow> ne_tensor \<Rightarrow> ptr \<Rightarrow> unit neop" where
  "bw_rope_back inplace t tg =
     plus_grad inplace (src0 t)
       (sbind (get_t (src1 t)) (\<lambda>b.
        sbind (i32_at b 0) (\<lambda>n_past. sbind (i32_at b 1) (\<lambda>nd. sbind (i32_at b 2) (\<lambda>mode.
        ne_rope tg n_past nd mode 0 f32_10000 f32_one)))))"

section \<open>The switch\<close>

text \<open>Operations whose derivative is not implemented abort; the last two groups do nothing.\<close>

definition no_backward :: "ne_op list" where
  "no_backward = [NE_OP_MEAN, NE_OP_GELU, NE_OP_ALIBI, NE_OP_CLAMP, NE_OP_SILU_BACK, NE_OP_NORM,
     NE_OP_RMS_NORM_BACK, NE_OP_GET_ROWS_BACK, NE_OP_DIAG, NE_OP_CONV_1D_1S, NE_OP_CONV_1D_2S,
     NE_OP_FLASH_ATTN_KV_UPDATE, NE_OP_FLASH_ATTN, NE_OP_FLASH_FF, NE_OP_MAP_UNARY, NE_OP_MAP_BINARY, NE_OP_COUNT]"


definition ne_compute_backward :: "fconv \<Rightarrow> ptr \<Rightarrow> bool \<Rightarrow> unit neop" where
  "ne_compute_backward fc p inplace =
     sbind (get_t p) (\<lambda>t. let tg = grad t; o1 = op t in
     if o1 = NE_OP_DUP then plus_grad inplace (src0 t) (ret tg)
     else if o1 = NE_OP_ADD then bw_add inplace t tg
     else if o1 = NE_OP_ADD1 then bw_add1 inplace t tg
     else if o1 = NE_OP_ACC then bw_acc inplace t tg
     else if o1 = NE_OP_SUB then bw_sub inplace t tg
     else if o1 = NE_OP_MUL then bw_mul inplace t tg
     else if o1 = NE_OP_DIV then bw_div inplace p t tg
     else if o1 = NE_OP_SQR then bw_sqr fc inplace t tg
     else if o1 = NE_OP_SQRT then bw_sqrt fc inplace p t tg
     else if o1 = NE_OP_LOG then bw_log inplace t tg
     else if o1 = NE_OP_SUM then bw_sum inplace t tg
     else if o1 = NE_OP_SUM_ROWS then bw_sum_rows inplace t tg
     else if o1 = NE_OP_REPEAT then bw_repeat inplace t tg
     else if o1 = NE_OP_ABS then bw_abs inplace t tg
     else if o1 = NE_OP_NEG then bw_neg inplace t tg
     else if o1 = NE_OP_RELU then bw_relu inplace t tg
     else if o1 = NE_OP_SILU then bw_silu inplace t tg
     else if o1 = NE_OP_RMS_NORM then bw_rms_norm inplace t tg
     else if o1 = NE_OP_MUL_MAT then bw_mul_mat inplace t tg
     else if o1 = NE_OP_SCALE then bw_scale inplace t tg
     else if o1 = NE_OP_SET then bw_set inplace t tg
     else if o1 = NE_OP_CPY then bw_cpy inplace t tg
     else if o1 = NE_OP_CONT then bw_cont inplace t tg
     else if o1 = NE_OP_RESHAPE then bw_reshape inplace t tg
     else if o1 = NE_OP_VIEW then bw_view inplace t tg
     else if o1 = NE_OP_PERMUTE then bw_permute inplace t tg
     else if o1 = NE_OP_TRANSPOSE then bw_transpose inplace t tg
     else if o1 = NE_OP_GET_ROWS then bw_get_rows inplace t tg
     else if o1 \<in> {NE_OP_DIAG_MASK_INF, NE_OP_DIAG_MASK_ZERO} then bw_diag_mask inplace t tg
     else if o1 = NE_OP_SOFT_MAX then bw_soft_max inplace p t tg
     else if o1 = NE_OP_ROPE then bw_rope inplace t tg
     else if o1 = NE_OP_ROPE_BACK then bw_rope_back inplace t tg
     else if o1 \<in> set no_backward then fail NE_Assert
     else if o1 \<in> {NE_OP_SGN, NE_OP_STEP, NE_OP_DEBUG, NE_OP_NONE} then ret ()
     else ret ())"

section \<open>Backward graphs\<close>

text \<open>With \<open>keep\<close>, every node of the forward graph gets a gradient tensor of its own.\<close>

fun detach_grads :: "ptr list \<Rightarrow> ptr list \<Rightarrow> ptr list neop" where
  "detach_grads (p # ps) (g # gs) =
     sbind (get_t p) (\<lambda>t.
     sbind (if grad t = NULL then ret g
            else sbind (ne_dup_tensor p) (\<lambda>d. sseq (upd_t p (\<lambda>t. t\<lparr>grad := d\<rparr>)) (ret d))) (\<lambda>g'.
     sbind (detach_grads ps gs) (\<lambda>gs'. ret (g' # gs'))))"
| "detach_grads _ gs = ret gs"

fun backward_all :: "fconv \<Rightarrow> bool \<Rightarrow> ptr list \<Rightarrow> unit neop" where
  "backward_all fc keep [] = ret ()"
| "backward_all fc keep (p # ps) =
     sseq (sbind (get_t p) (\<lambda>t. if grad t = NULL then ret () else ne_compute_backward fc p keep))
       (backward_all fc keep ps)"

text \<open>The gradients of the parameters are added to the graph; the heap is only read.\<close>

fun expand_params :: "nat \<Rightarrow> ptr list \<Rightarrow> ne_cgraph \<Rightarrow> ne_cgraph neop" where
  "expand_params k [] g = ret g"
| "expand_params k (p # ps) g =
     sbind (get_t p) (\<lambda>t.
     sbind (if is_param t
            then (\<lambda>s. case ne_build_forward_impl k s (grad t) True g of Inl e \<Rightarrow> Inl e | Inr (_, g') \<Rightarrow> Inr (g', s))
            else ret g) (\<lambda>g'.
     expand_params k ps g'))"

text \<open>The result is the copy of the forward graph that was made before the gradients were detached.\<close>

definition ne_build_backward :: "fconv \<Rightarrow> nat \<Rightarrow> ne_cgraph \<Rightarrow> bool \<Rightarrow> (ne_cgraph \<times> ne_cgraph) neop" where
  "ne_build_backward fc k gf keep =
     sseq (ne_assert (nodes gf \<noteq> []))
    (sbind (if keep then detach_grads (nodes gf) (grads gf) else ret (grads gf)) (\<lambda>gs.
     sseq (backward_all fc keep (rev (nodes gf)))
    (sbind (expand_params k (rev (nodes gf)) gf) (\<lambda>result.
     ret (result, gf\<lparr>grads := gs\<rparr>)))))"

section \<open>Differentiation keeps the graph\<close>

text \<open>
  \<open>builds V m\<close>: with the pointers of \<open>V\<close> valid, \<open>m\<close> only adds tensors to a well-formed heap and
  returns a valid one. \<open>grads_only A V m\<close>: of the tensors that existed, at most the gradient
  pointers of those in \<open>A\<close> change.
\<close>

definition valid :: "ptr set \<Rightarrow> ne_state \<Rightarrow> bool" where
  "valid V s \<longleftrightarrow> (\<forall>p \<in> V. tensors s p \<noteq> None)"

definition builds :: "ptr set \<Rightarrow> ptr neop \<Rightarrow> bool" where
  "builds V m \<longleftrightarrow> (\<forall>s r s'. graph_ok s \<longrightarrow> valid V s \<longrightarrow> m s = Inr (r, s') \<longrightarrow>
     graph_ok s' \<and> tensors s \<subseteq>\<^sub>m tensors s' \<and> tensors s' r \<noteq> None)"

definition grad_frame :: "ptr set \<Rightarrow> ne_state \<Rightarrow> ne_state \<Rightarrow> bool" where
  "grad_frame A s s' \<longleftrightarrow> (\<forall>q t. tensors s q = Some t \<longrightarrow>
     (\<exists>g. tensors s' q = Some (t\<lparr>grad := g\<rparr>) \<and> (q \<notin> A \<longrightarrow> g = grad t)))"

definition grads_only :: "ptr set \<Rightarrow> ptr set \<Rightarrow> unit neop \<Rightarrow> bool" where
  "grads_only A V m \<longleftrightarrow> (\<forall>s s'. graph_ok s \<longrightarrow> valid V s \<longrightarrow> m s = Inr ((), s') \<longrightarrow> graph_ok s' \<and> grad_frame A s s')"

lemma valid_mono: "valid V s \<Longrightarrow> tensors s \<subseteq>\<^sub>m tensors s' \<Longrightarrow> valid V s'"
  by (fastforce simp: valid_def map_le_def dom_def)

lemma grad_frame_le:
  assumes "tensors s \<subseteq>\<^sub>m tensors s'"
  shows "grad_frame A s s'"
  unfolding grad_frame_def
proof (intro allI impI)
  fix q t assume "tensors s q = Some t"
  then have "tensors s' q = Some (t\<lparr>grad := grad t\<rparr>)" using assms by (auto simp: map_le_def dom_def)
  then show "\<exists>g. tensors s' q = Some (t\<lparr>grad := g\<rparr>) \<and> (q \<notin> A \<longrightarrow> g = grad t)" by blast
qed

lemma builds_call:
  assumes "\<And>s r s'. graph_ok s \<Longrightarrow> valid V s \<Longrightarrow> m s = Inr (r, s') \<Longrightarrow> node_call s r s'"
  shows "builds V m"
  unfolding builds_def
proof (intro allI impI)
  fix s r s' assume s: "graph_ok s" "valid V s" "m s = Inr (r, s')"
  have "heap_ok s" using s(1) by (simp add: graph_ok_def)
  then have e: "extends s r s'" by (rule node_call_extends) (rule assms [OF s])
  then show "graph_ok s' \<and> tensors s \<subseteq>\<^sub>m tensors s' \<and> tensors s' r \<noteq> None"
    using graph_ok_extends [OF s(1) e] by (simp add: extends_def grows_def)
qed

lemma builds_ret: "r \<in> V \<Longrightarrow> builds V (ret r)"
  by (auto simp: builds_def valid_def)

lemma builds_bind:
  assumes "builds V m" "\<And>r. builds (insert r V) (f r)"
  shows "builds V (sbind m f)"
  unfolding builds_def
proof (intro allI impI)
  fix s r s' assume s: "graph_ok s" "valid V s" "sbind m f s = Inr (r, s')"
  then obtain q s1 where q: "m s = Inr (q, s1)" "f q s1 = Inr (r, s')" by (auto simp: sbind_Inr_iff)
  with assms(1) s have 1: "graph_ok s1" "tensors s \<subseteq>\<^sub>m tensors s1" "tensors s1 q \<noteq> None"
    by (auto simp: builds_def)
  then have "valid (insert q V) s1" using valid_mono [OF s(2)] by (simp add: valid_def)
  with assms(2) [of q] 1 q(2) show "graph_ok s' \<and> tensors s \<subseteq>\<^sub>m tensors s' \<and> tensors s' r \<noteq> None"
    by (auto simp: builds_def intro: map_le_trans)
qed

lemma builds_get:
  assumes "\<And>t. builds V (f t)"
  shows "builds V (sbind (get_t p) f)"
  using assms by (auto simp: builds_def sbind_Inr_iff get_t_def split: option.splits)

lemma builds_assert: "builds V m \<Longrightarrow> builds V (sseq (ne_assertR b) m)"
  by (auto simp: builds_def sseq_Inr_iff ne_assertR_Inr_iff)

lemma binary_exists:
  assumes "mk a b ip s = Inr (r, s')" "mk \<in> {ne_add_impl, ne_add1_impl, ne_sub_impl, ne_mul_impl, ne_div_impl}"
  shows "\<exists>ta tb. tensors s a = Some ta \<and> tensors s b = Some tb"
  using assms by (auto simp: ne_add_impl_def ne_add1_impl_def ne_sub_impl_def ne_mul_impl_def ne_div_impl_def
      op_Inr_iffs get_t_def split: option.splits)

lemma builds_binary:
  "mk \<in> {ne_add_impl, ne_add1_impl, ne_sub_impl, ne_mul_impl, ne_div_impl} \<Longrightarrow> builds V (mk a b ip)"
  by (rule builds_call) (use binary_exists in \<open>fastforce simp: binary_inplace_def intro: node_call.c_binary\<close>)

lemma builds_unary:
  assumes "mk \<in> unary_inplace" "a \<in> V"
  shows "builds V (mk a ip)"
proof (rule builds_call)
  fix s r s' assume "valid V s" "mk a ip s = Inr (r, s')"
  moreover from \<open>valid V s\<close> assms(2) obtain ta where "tensors s a = Some ta" by (auto simp: valid_def)
  ultimately show "node_call s r s'" using assms(1) by (blast intro: node_call.c_unary)
qed

lemma builds_back:
  assumes "mk \<in> {ne_silu_back, ne_rms_norm_back}" "a \<in> V" "b \<in> V"
  shows "builds V (mk a b)"
proof (rule builds_call)
  fix s r s' assume "valid V s" and r: "mk a b s = Inr (r, s')"
  with assms(2,3) obtain ta tb where "tensors s a = Some ta" "tensors s b = Some tb" by (fastforce simp: valid_def)
  then show "node_call s r s'" using node_call.c_back [OF assms(1) _ _ r] by blast
qed

lemma builds_acc: "builds V (ne_acc_impl a b nb1 nb2 nb3 offset ip)"
proof (rule builds_call)
  fix s r s' assume r: "ne_acc_impl a b nb1 nb2 nb3 offset ip s = Inr (r, s')"
  then obtain ta tb where "tensors s a = Some ta" "tensors s b = Some tb"
    by (auto simp: ne_acc_impl_def op_Inr_iffs get_t_Inr_iff)
  then show "node_call s r s'" using node_call.c_region [of ne_acc_impl, OF _ _ _ r] by (simp add: region_inplace_def)
qed

lemma grads_only_to_grad:
  assumes "\<And>g. builds (insert src V) (f g)"
  shows "grads_only {src} V (to_grad src f)"
  unfolding grads_only_def
proof (intro allI impI)
  fix s s' assume s: "graph_ok s" "valid V s" "to_grad src f s = Inr ((), s')"
  then obtain t where t: "tensors s src = Some t" by (auto simp: to_grad_def heap_Inr_iffs)
  show "graph_ok s' \<and> grad_frame {src} s s'"
  proof (cases "grad t = NULL")
    case True
    with s t have "s' = s" by (simp add: to_grad_def sbind_def get_t_def)
    then show ?thesis using s(1) grad_frame_le [of s s] by (simp add: map_le_def)
  next
    case False
    with s(3) t obtain g s1 where g: "f (grad t) s = Inr (g, s1)" "upd_t src (\<lambda>t. t\<lparr>grad := g\<rparr>) s1 = Inr ((), s')"
      by (auto simp: to_grad_def heap_Inr_iffs)
    have "valid (insert src V) s" using s(2) t by (simp add: valid_def)
    with assms [of "grad t"] s(1) g(1) have s1: "graph_ok s1" "tensors s \<subseteq>\<^sub>m tensors s1" by (auto simp: builds_def)
    have t1: "tensors s1 src = Some t" using s1(2) t by (auto simp: map_le_def dom_def)
    with g(2) have s': "s' = s1\<lparr>tensors := (tensors s1)(src \<mapsto> t\<lparr>grad := g\<rparr>)\<rparr>" by (auto simp: upd_t_Inr_iff)
    have "graph_ok s'" unfolding s'
      by (rule graph_ok_upd [OF s1(1) t1]) (simp_all add: soft_def leafy_def tensor_wf_def)
    moreover have "grad_frame {src} s s'"
      using s1(2) t by (fastforce simp: grad_frame_def s' map_le_def dom_def)
    ultimately show ?thesis by simp
  qed
qed

lemma grads_only_seq:
  assumes "grads_only A V m" "grads_only B V k"
  shows "grads_only (A \<union> B) V (sseq m k)"
  unfolding grads_only_def
proof (intro allI impI)
  fix s s' assume s: "graph_ok s" "valid V s" "sseq m k s = Inr ((), s')"
  then obtain s1 where s1: "m s = Inr ((), s1)" "k s1 = Inr ((), s')" by (auto simp: sseq_Inr_iff)
  with assms(1) s have 1: "graph_ok s1" "grad_frame A s s1" by (auto simp: grads_only_def)
  then have "valid V s1" using s(2) by (fastforce simp: valid_def grad_frame_def)
  with assms(2) 1(1) s1(2) have "graph_ok s'" "grad_frame B s1 s'" by (auto simp: grads_only_def)
  moreover have "grad_frame (A \<union> B) s s'"
    unfolding grad_frame_def
  proof (intro allI impI)
    fix q t assume "tensors s q = Some t"
    with 1(2) obtain g where g: "tensors s1 q = Some (t\<lparr>grad := g\<rparr>)" "q \<notin> A \<longrightarrow> g = grad t" by (auto simp: grad_frame_def)
    with \<open>grad_frame B s1 s'\<close> obtain h where "tensors s' q = Some (t\<lparr>grad := g\<rparr>\<lparr>grad := h\<rparr>)" "q \<notin> B \<longrightarrow> h = g"
      by (fastforce simp: grad_frame_def)
    with g(2) show "\<exists>g. tensors s' q = Some (t\<lparr>grad := g\<rparr>) \<and> (q \<notin> A \<union> B \<longrightarrow> g = grad t)" by auto
  qed
  ultimately show "graph_ok s' \<and> grad_frame (A \<union> B) s s'" by simp
qed

lemma grads_only_pair: "grads_only {a} V m \<Longrightarrow> grads_only {b} V k \<Longrightarrow> grads_only {a, b} V (sseq m k)"
  using grads_only_seq [of "{a}" V m "{b}" k] by (simp add: insert_commute)

lemma grads_only_mono: "grads_only A V m \<Longrightarrow> A \<subseteq> B \<Longrightarrow> grads_only B V m"
  unfolding grads_only_def grad_frame_def by blast

lemma builds_calls:
  "builds V (ne_add_impl a b ip)" "builds V (ne_add1_impl a b ip)" "builds V (ne_sub_impl a b ip)"
  "builds V (ne_mul_impl a b ip)" "builds V (ne_div_impl a b ip)"
  "a \<in> V \<Longrightarrow> builds V (ne_sgn_impl a ip)" "a \<in> V \<Longrightarrow> builds V (ne_step_impl a ip)"
  "a \<in> V \<Longrightarrow> b \<in> V \<Longrightarrow> builds V (ne_silu_back a b)" "a \<in> V \<Longrightarrow> b \<in> V \<Longrightarrow> builds V (ne_rms_norm_back a b)"
  by (simp_all add: builds_binary builds_unary builds_back unary_inplace_def)

lemmas builds_rules = builds_calls builds_ret builds_bind builds_get builds_assert

lemmas to_grad_rules = grads_only_pair grads_only_to_grad

section \<open>Operations without a shape of their own\<close>

definition simple_backward :: "ne_op list" where
  "simple_backward = [NE_OP_DUP, NE_OP_ADD, NE_OP_SUB, NE_OP_MUL, NE_OP_DIV, NE_OP_LOG, NE_OP_SUM, NE_OP_ABS,
     NE_OP_NEG, NE_OP_RELU, NE_OP_SILU, NE_OP_RMS_NORM, NE_OP_CPY, NE_OP_CONT]"

lemma bw_grads_only:
  assumes "tg \<in> V"
  shows "grads_only {src0 t} V (plus_grad ip (src0 t) (ret tg))" "grads_only {src0 t, src1 t} V (bw_add ip t tg)"
    "grads_only {src0 t, src1 t} V (bw_sub ip t tg)" "grads_only {src0 t, src1 t} V (bw_mul ip t tg)"
    "grads_only {src0 t, src1 t} V (bw_div ip p t tg)" "grads_only {src0 t} V (bw_log ip t tg)"
    "grads_only {src0 t} V (bw_sum ip t tg)" "grads_only {src0 t} V (bw_abs ip t tg)"
    "grads_only {src0 t} V (bw_neg ip t tg)" "grads_only {src0 t} V (bw_relu ip t tg)"
    "grads_only {src0 t} V (bw_silu ip t tg)" "grads_only {src0 t} V (bw_rms_norm ip t tg)"
    "grads_only {src0 t} V (bw_cpy ip t tg)" "grads_only {src0 t} V (bw_cont ip t tg)"
  unfolding bw_add_def bw_sub_def bw_mul_def bw_div_def bw_log_def bw_sum_def bw_abs_def bw_neg_def bw_relu_def
    bw_silu_def bw_rms_norm_def bw_cpy_def bw_cont_def plus_grad_def minus_grad_def ap1_def ne_mul_def ne_div_def
    ne_sgn_def ne_step_def
  by ((rule to_grad_rules builds_rules | (simp add: assms; fail))+)

lemma compute_backward_grads_only:
  assumes "tensors s p = Some t" "op t \<in> set simple_backward" "ne_compute_backward fc p ip s = Inr ((), s')"
    "graph_ok s" "tensors s (grad t) \<noteq> None"
  shows "graph_ok s' \<and> grad_frame {src0 t, src1 t} s s'"
proof -
  have tg: "grad t \<in> {grad t}" by simp
  note bw = bw_grads_only [OF tg, of t ip]
  note pair = bw(2-4) bw(5) [of p]
  note single = bw(1,6-14) [THEN grads_only_mono, of "{src0 t, src1 t}", simplified]
  obtain m where m: "grads_only {src0 t, src1 t} {grad t} m" "m s = Inr ((), s')"
    using assms(1-3) pair single
    by (auto simp: simple_backward_def ne_compute_backward_def sbind_def get_t_def Let_def no_backward_def)
  then show ?thesis using assms(4,5) by (auto simp: grads_only_def valid_def)
qed

section \<open>A heap with gradients\<close>

text \<open>A vector at 16 with its gradient at 32, its negation at 48 with the gradient at 64.\<close>

definition demo_grad_t :: "ne_op \<Rightarrow> ptr \<Rightarrow> ne_tensor option" where
  "demo_grad_t o1 p =
     (let v = (\<lambda>d. init_tensor NE_TYPE_F32 1 [4, 1, 1, 1] [4, 16, 16, 16] d 320) in
      if p = 16 then Some ((v 70000)\<lparr>grad := 32\<rparr>)
      else if p = 32 then Some (v 71000)
      else if p = 48 then Some ((v 72000)\<lparr>op := o1, src0 := 16, grad := 64\<rparr>)
      else if p = 64 then Some (v 73000)
      else None)"

definition demo_grad :: "ne_op \<Rightarrow> ne_state" where
  "demo_grad o1 = demo_state\<lparr>ctx := demo_ctx\<lparr>mem_size := 65536\<rparr>, tensors := demo_grad_t o1\<rparr>"

lemma demo_grad_tensors:
  "tensors (demo_grad o1) 16 = Some ((init_tensor NE_TYPE_F32 1 [4, 1, 1, 1] [4, 16, 16, 16] 70000 320)\<lparr>grad := 32\<rparr>)"
  "tensors (demo_grad o1) 32 = Some (init_tensor NE_TYPE_F32 1 [4, 1, 1, 1] [4, 16, 16, 16] 71000 320)"
  "tensors (demo_grad o1) 48 =
     Some ((init_tensor NE_TYPE_F32 1 [4, 1, 1, 1] [4, 16, 16, 16] 72000 320)\<lparr>op := o1, src0 := 16, grad := 64\<rparr>)"
  "tensors (demo_grad o1) 64 = Some (init_tensor NE_TYPE_F32 1 [4, 1, 1, 1] [4, 16, 16, 16] 73000 320)"
  "ctx (demo_grad o1) = demo_ctx\<lparr>mem_size := 65536\<rparr>" "dom (tensors (demo_grad o1)) = {16, 32, 48, 64}"
  by (auto simp: demo_grad_def demo_grad_t_def demo_state_def Let_def split: if_splits)

lemma demo_grad_cases:
  "tensors (demo_grad o1) p = Some t \<Longrightarrow>
     p \<in> {16, 32, 48, 64} \<and> tensor_wf t \<and> ty t = NE_TYPE_F32 \<and> n_dims t = 1 \<and> ne t = [4, 1, 1, 1] \<and> tsize t = 320 \<and>
     operands t = (if p = 48 then {16} else {})"
  by (auto simp: demo_grad_def demo_grad_t_def Let_def init_tensor_def tensor_wf_def operands_def split: if_splits)

lemma demo_grad_ok: "graph_ok (demo_grad o1)"
proof -
  have rel: "pool_rel [] (demo_grad o1)"
    using demo_grad_cases [of o1] by (fastforce simp: pool_rel_def demo_grad_tensors demo_ctx_def)
  have "pool_inv (demo_grad o1)"
    using rel pool_inv_start [OF demo_start]
    by (auto simp: pool_inv_def demo_grad_tensors demo_state_def)
  moreover have "t_ok (demo_ctx\<lparr>mem_size := 65536\<rparr>) t" if "tensors (demo_grad o1) p = Some t" for p t
    using demo_grad_cases [OF that] demo_vec_request(2) [of "demo_ctx\<lparr>mem_size := 65536\<rparr>" 320] by (simp add: t_ok_def good_request_def)
  ultimately have "heap_ok (demo_grad o1)"
    by (auto simp: heap_ok_def demo_grad_tensors) (simp_all add: demo_ctx_def demo_grad_def demo_grad_t_def Let_def)
  moreover have "closed_heap (demo_grad o1)"
    using demo_grad_cases [of o1] by (fastforce simp: closed_heap_def demo_grad_tensors split: if_splits)
  moreover have "ranked (\<lambda>p. p) (demo_grad o1)"
    using demo_grad_cases [of o1] by (fastforce simp: ranked_def split: if_splits)
  ultimately show ?thesis by (auto simp: graph_ok_def)
qed

text \<open>The negation is differentiated: the gradient of its operand becomes a difference node.\<close>

lemma demo_grad_view:
  "\<exists>r s'. ne_view_tensor 32 (demo_grad o1) = Inr (r, s') \<and> tensors s' r \<noteq> None \<and> tensors (demo_grad o1) \<subseteq>\<^sub>m tensors s'"
proof -
  let ?s = "demo_grad o1"
  have ok: "heap_ok ?s" using demo_grad_ok by (simp add: graph_ok_def)
  have rel: "pool_rel [] ?s"
    using demo_grad_cases [of o1] by (fastforce simp: pool_rel_def demo_grad_tensors demo_ctx_def)
  have u: "used_end ?s = 0" by (rule used_end_pool [OF rel, simplified])
  have good: "good_request (ctx ?s) NE_TYPE_F32 1 [4, 1, 1, 1] NULL 320"
    using demo_vec_request(2) by (simp add: good_request_def)
  have req: "request_size (ctx ?s) NE_TYPE_F32 1 [4, 1, 1, 1] 71000 320 = Inr 0" by (simp add: request_size_def)
  have room: "used_end ?s + NE_OBJECT_SIZE + (0 + sizeof_ne_tensor) \<le> mem_size (ctx ?s)"
    by (simp add: u demo_grad_tensors demo_ctx_def pool_consts)
  from new_tensor_room [OF ok _ good req room] obtain p s1 t where
    n: "ne_new_tensor_impl NE_TYPE_F32 1 [4, 1, 1, 1] 71000 320 ?s = Inr (p, s1)" and al: "allocated ?s p t s1" by auto
  have f: "ty (init_tensor a b c d e f) = a" "n_dims (init_tensor a b c d e f) = b" "ne (init_tensor a b c d e f) = c"
    "nb (init_tensor a b c d e f) = d" "data (init_tensor a b c d e f) = e" "tsize (init_tensor a b c d e f) = f"
    for a b c d e f by (simp_all add: init_tensor_def)
  show ?thesis
    using n al by (simp add: ne_view_tensor_def sbind_def sseq_def get_t_def upd_t_def demo_grad_tensors f allocated_def)
      (auto simp: map_le_def dom_def)
qed

lemma demo_backward:
  assumes "o1 \<in> {NE_OP_NEG, NE_OP_DUP}"
  shows "\<exists>s'. ne_compute_backward demo_fc 48 True (demo_grad o1) = Inr ((), s')"
proof -
  let ?s = "demo_grad o1"
  obtain r s1 t1 where v: "ne_view_tensor 32 ?s = Inr (r, s1)" "tensors s1 r = Some t1" "tensors ?s \<subseteq>\<^sub>m tensors s1"
    using demo_grad_view [of o1] by auto
  have 16: "tensors s1 16 \<noteq> None" using v(3) demo_grad_tensors(1) [of o1] by (fastforce simp: map_le_def dom_def)
  have f: "ne (init_tensor a b c d e f) = c" for a b c d e f by (simp add: init_tensor_def)
  have rep: "ne_can_repeat_rows (init_tensor NE_TYPE_F32 1 [4, 1, 1, 1] [4, 16, 16, 16] 73000 320)
      (init_tensor NE_TYPE_F32 1 [4, 1, 1, 1] [4, 16, 16, 16] 71000 320) = Inr True"
    by (simp add: ne_can_repeat_rows_def ne_can_repeat_def cmod0_def f)
  have same: "ne_are_same_shape (init_tensor NE_TYPE_F32 1 [4, 1, 1, 1] [4, 16, 16, 16] 71000 320)
      (init_tensor NE_TYPE_F32 1 [4, 1, 1, 1] [4, 16, 16, 16] 73000 320)"
    by (simp add: ne_are_same_shape_def f)
  have g: "grad (init_tensor a b c d e f) = NULL" for a b c d e f by (simp add: init_tensor_def)
  have "\<exists>x s2. ne_sub_impl 32 64 True ?s = Inr (x, s2) \<and> tensors s2 16 \<noteq> None"
    "\<exists>x s2. ne_add_impl 32 64 True ?s = Inr (x, s2) \<and> tensors s2 16 \<noteq> None"
    using v(1,2) 16 same rep
    by (simp_all add: ne_sub_impl_def ne_add_impl_def sbind_def sseq_def get_t_def demo_grad_tensors node_unless_def
        view_or_dup_def finish_leaf ne_assertR_def)
  then obtain x s2 y s3 where
    "ne_sub_impl 32 64 True ?s = Inr (x, s2)" "tensors s2 16 \<noteq> None"
    "ne_add_impl 32 64 True ?s = Inr (y, s3)" "tensors s3 16 \<noteq> None" by blast
  then show ?thesis using assms
    by (auto simp: ne_compute_backward_def bw_neg_def minus_grad_def plus_grad_def to_grad_def sbind_def get_t_def
        demo_grad_tensors g upd_t_def Let_def split: option.splits)
qed

section \<open>Properties\<close>

text \<open>
  C14. Differentiating an element-wise operation keeps the heap a well-formed acyclic graph, and of
  the tensors that existed it changes nothing but the gradient pointers of the two operands.
\<close>

theorem backward_keeps_graph:
  assumes "graph_ok s" "tensors s p = Some t" "op t \<in> set simple_backward" "tensors s (grad t) \<noteq> None"
    and "ne_compute_backward fc p inplace s = Inr ((), s')"
  shows "graph_ok s' \<and> (\<forall>q u. tensors s q = Some u \<longrightarrow>
     (\<exists>g. tensors s' q = Some (u\<lparr>grad := g\<rparr>) \<and> (q \<noteq> src0 t \<and> q \<noteq> src1 t \<longrightarrow> g = grad u)))"
  using compute_backward_grads_only [OF assms(2,3,5,1,4)] by (auto simp: grad_frame_def)

theorem backward_keeps_graph_witness:
  "\<exists>s' g. ne_compute_backward demo_fc 48 True (demo_grad NE_OP_NEG) = Inr ((), s') \<and> graph_ok s' \<and>
     tensors s' 64 = Some ((init_tensor NE_TYPE_F32 1 [4, 1, 1, 1] [4, 16, 16, 16] 73000 320)\<lparr>grad := g\<rparr>)"
proof -
  obtain s' where r: "ne_compute_backward demo_fc 48 True (demo_grad NE_OP_NEG) = Inr ((), s')"
    using demo_backward by blast
  show ?thesis
    using backward_keeps_graph [OF demo_grad_ok demo_grad_tensors(3) _ _ r] r demo_grad_tensors(4) [of NE_OP_NEG]
    by (simp add: simple_backward_def) blast
qed














section \<open>The chain rule on the graph\<close>

text \<open>
  What a tensor of the graph stands for: an expression over other tensors, read off the operations
  and operands of the nodes.
\<close>

datatype gexp = At ptr | Op1 ne_op gexp | Op2 ne_op gexp gexp

fun denotes :: "ne_state \<Rightarrow> gexp \<Rightarrow> ptr \<Rightarrow> bool" where
  "denotes s (At q) p \<longleftrightarrow> p = q"
| "denotes s (Op1 o1 e) p \<longleftrightarrow> (\<exists>t. tensors s p = Some t \<and> op t = o1 \<and> denotes s e (src0 t))"
| "denotes s (Op2 o1 e f) p \<longleftrightarrow> (\<exists>t. tensors s p = Some t \<and> op t = o1 \<and> denotes s e (src0 t) \<and> denotes s f (src1 t))"

lemma denotes_frame: "grad_frame A s s' \<Longrightarrow> denotes s e p \<Longrightarrow> denotes s' e p"
  by (induction e arbitrary: p) (fastforce simp: grad_frame_def)+

text \<open>\<open>produces V m e\<close>: with the pointers of \<open>V\<close> valid, \<open>m\<close> builds a tensor that stands for \<open>e\<close>.\<close>

definition produces :: "ptr set \<Rightarrow> ptr neop \<Rightarrow> gexp \<Rightarrow> bool" where
  "produces V m e \<longleftrightarrow> builds V m \<and>
     (\<forall>s r s'. graph_ok s \<longrightarrow> valid V s \<longrightarrow> m s = Inr (r, s') \<longrightarrow> denotes s' e r)"

lemma alloc_finish_node:
  assumes "heap_ok s" "sbind (view_or_dup ip a) (finish opc b f) s = Inr (r, s')"
  shows "\<exists>t g. tensors s' r = Some (f (t\<lparr>op := opc, grad := g\<rparr>))"
proof -
  from assms(2) obtain q s1 where q: "view_or_dup ip a s = Inr (q, s1)" "finish opc b f q s1 = Inr (r, s')"
    by (auto simp: sbind_Inr_iff)
  have "building s {q} s1"
    using tripD [OF trip_view_or_dup building_start [OF assms(1)] q(1)] by (simp add: added_def)
  moreover obtain t where "tensors s1 q = Some t" using q(2) by (auto simp: finish_def sseq_Inr_iff upd_t_Inr_iff)
  ultimately show ?thesis using finish_result [OF building_heap_ok _ q(2)] by blast
qed

lemma node_unless_bind: "sbind (node_unless ip ps) k s = Inr (x, s') \<Longrightarrow> \<exists>b. k b s = Inr (x, s')"
  unfolding node_unless_def using any_grad_bind [of ps k s x s'] by (cases ip) (auto simp: sbind_def)

lemma binary_node:
  assumes "heap_ok s" "mk a b ip s = Inr (r, s')" "(mk, opc) \<in> {(ne_add_impl, NE_OP_ADD), (ne_add1_impl, NE_OP_ADD1),
    (ne_sub_impl, NE_OP_SUB), (ne_mul_impl, NE_OP_MUL), (ne_div_impl, NE_OP_DIV)}"
  shows "denotes s' (Op2 opc (At a) (At b)) r"
proof -
  obtain n where "sbind (view_or_dup ip a) (finish opc n (\<lambda>t. t\<lparr>src0 := a, src1 := b\<rparr>)) s = Inr (r, s')"
    using assms(2,3) unfolding ne_add_impl_def ne_add1_impl_def ne_sub_impl_def ne_mul_impl_def ne_div_impl_def
    by (auto simp: sbind_Inr_iff [of "get_t _"] get_t_Inr_iff sseq_Inr_iff ne_assert_Inr_iff ne_assertR_Inr_iff
        split: if_splits dest!: node_unless_bind)
  from alloc_finish_node [OF assms(1) this] show ?thesis by auto
qed

lemma produces_binary:
  assumes "(mk, opc) \<in> {(ne_add_impl, NE_OP_ADD), (ne_add1_impl, NE_OP_ADD1),
    (ne_sub_impl, NE_OP_SUB), (ne_mul_impl, NE_OP_MUL), (ne_div_impl, NE_OP_DIV)}"
  shows "produces V (mk a b ip) (Op2 opc (At a) (At b))"
  using builds_binary [of mk V a b ip] binary_node [OF _ _ assms, of _ a b ip] assms
  by (auto simp: produces_def graph_ok_def)

lemma produces_unary:
  assumes "(mk, opc) \<in> {(ne_sgn_impl, NE_OP_SGN), (ne_step_impl, NE_OP_STEP)}" "a \<in> V"
  shows "produces V (mk a ip) (Op1 opc (At a))"
proof -
  have "denotes s' (Op1 opc (At a)) r" if h: "heap_ok s" "mk a ip s = Inr (r, s')" for s r s'
  proof -
    obtain n where "sbind (view_or_dup ip a) (finish opc n (\<lambda>t. t\<lparr>src0 := a, src1 := NULL\<rparr>)) s = Inr (r, s')"
      using h(2) assms(1) unfolding ne_sgn_impl_def ne_step_impl_def by (auto dest!: node_unless_bind)
    from alloc_finish_node [OF h(1) this] show ?thesis by auto
  qed
  then show ?thesis using builds_unary [of mk a V ip] assms by (auto simp: produces_def graph_ok_def unary_inplace_def)
qed

lemma produces_back:
  assumes "(mk, opc) \<in> {(ne_silu_back, NE_OP_SILU_BACK), (ne_rms_norm_back, NE_OP_RMS_NORM_BACK)}" "a \<in> V" "b \<in> V"
  shows "produces V (mk a b) (Op2 opc (At a) (At b))"
proof -
  have "denotes s' (Op2 opc (At a) (At b)) r" if h: "heap_ok s" "mk a b s = Inr (r, s')" for s r s'
  proof -
    obtain n where "sbind (view_or_dup False a) (finish opc n (\<lambda>t. t\<lparr>src0 := a, src1 := b\<rparr>)) s = Inr (r, s')"
      using h(2) assms(1) unfolding ne_silu_back_def ne_rms_norm_back_def view_or_dup_def
      by (auto dest!: any_grad_bind)
    from alloc_finish_node [OF h(1) this] show ?thesis by auto
  qed
  then show ?thesis using builds_back [of mk a V b] assms by (auto simp: produces_def graph_ok_def)
qed

lemma produces_ret: "q \<in> V \<Longrightarrow> produces V (ret q) (At q)"
  by (simp add: produces_def builds_ret)

lemma produces_bind:
  assumes "produces V m e" "\<And>r. produces (insert r V) (f r) (K (At r))"
    and "\<And>s r q. denotes s e r \<Longrightarrow> denotes s (K (At r)) q \<Longrightarrow> denotes s (K e) q"
  shows "produces V (sbind m f) (K e)"
proof -
  have m: "builds V m" and f: "\<And>r. builds (insert r V) (f r)" using assms(1,2) by (simp_all add: produces_def)
  have "denotes s' (K e) q" if s: "graph_ok s" "valid V s" "sbind m f s = Inr (q, s')" for s q s'
  proof -
    obtain r s1 where r: "m s = Inr (r, s1)" "f r s1 = Inr (q, s')" using s(3) by (auto simp: sbind_Inr_iff)
    with m s have s1: "graph_ok s1" "tensors s \<subseteq>\<^sub>m tensors s1" "tensors s1 r \<noteq> None" by (auto simp: builds_def)
    then have v: "valid (insert r V) s1" using valid_mono [OF s(2)] by (simp add: valid_def)
    have "denotes s1 e r" using assms(1) s r(1) by (auto simp: produces_def)
    moreover have "tensors s1 \<subseteq>\<^sub>m tensors s'" using f [of r] s1(1) v r(2) by (auto simp: builds_def)
    ultimately have "denotes s' e r" using denotes_frame [OF grad_frame_le] by blast
    moreover have "denotes s' (K (At r)) q" using assms(2) [of r] s1(1) v r(2) by (auto simp: produces_def)
    ultimately show ?thesis by (rule assms(3))
  qed
  with builds_bind [OF m f] show ?thesis by (auto simp: produces_def)
qed

lemma produces_assert: "produces V m e \<Longrightarrow> produces V (sseq (ne_assertR b) m) e"
  by (auto simp: produces_def builds_assert sseq_Inr_iff ne_assertR_Inr_iff)

lemma produces_get: "(\<And>t. produces V (f t) e) \<Longrightarrow> produces V (sbind (get_t p) f) e"
  unfolding produces_def by (auto simp: sbind_Inr_iff get_t_Inr_iff intro: builds_get)

text \<open>
  What a step of differentiation does to the gradient of one operand: nothing without a rule or
  without a gradient; otherwise the new gradient is the old one combined with the term of the rule.
\<close>

definition follows :: "ne_state \<Rightarrow> ne_state \<Rightarrow> ptr \<Rightarrow> (ne_op \<times> gexp) option \<Rightarrow> bool" where
  "follows s s' x rule \<longleftrightarrow> (\<forall>a. tensors s x = Some a \<longrightarrow> (\<exists>a'. tensors s' x = Some a' \<and>
     (case rule of None \<Rightarrow> grad a' = grad a
      | Some (acc, e) \<Rightarrow> if grad a = NULL then grad a' = NULL else denotes s' (Op2 acc (At (grad a)) e) (grad a'))))"

definition chain :: "ptr set \<Rightarrow> ptr \<Rightarrow> ptr \<Rightarrow> (ne_op \<times> gexp) option \<Rightarrow> (ne_op \<times> gexp) option \<Rightarrow> unit neop \<Rightarrow> bool" where
  "chain V x y r0 r1 m \<longleftrightarrow> (\<forall>s s'. graph_ok s \<longrightarrow> valid V s \<longrightarrow> m s = Inr ((), s') \<longrightarrow>
     follows s s' x r0 \<and> follows s s' y r1)"

lemma follows_frame:
  assumes "follows s s1 x r" "grad_frame A s1 s2" "x \<notin> A"
  shows "follows s s2 x r"
  unfolding follows_def
proof (intro allI impI)
  fix a assume "tensors s x = Some a"
  with assms(1) obtain a1 where a1: "tensors s1 x = Some a1" "case r of None \<Rightarrow> grad a1 = grad a
      | Some (acc, e) \<Rightarrow> if grad a = NULL then grad a1 = NULL else denotes s1 (Op2 acc (At (grad a)) e) (grad a1)"
    by (auto simp: follows_def)
  then obtain g where g: "tensors s2 x = Some (a1\<lparr>grad := g\<rparr>)" "g = grad a1"
    using assms(2,3) by (force simp: grad_frame_def)
  with a1(2) denotes_frame [OF assms(2)] show "\<exists>a'. tensors s2 x = Some a' \<and> (case r of None \<Rightarrow> grad a' = grad a
      | Some (acc, e) \<Rightarrow> if grad a = NULL then grad a' = NULL else denotes s2 (Op2 acc (At (grad a)) e) (grad a'))"
    by (auto split: option.splits if_splits simp del: denotes.simps)
qed

lemma follows_from:
  assumes "follows s1 s' x r" "\<And>a. tensors s x = Some a \<Longrightarrow> \<exists>a1. tensors s1 x = Some a1 \<and> grad a1 = grad a"
  shows "follows s s' x r"
  unfolding follows_def
proof (intro allI impI)
  fix a assume "tensors s x = Some a"
  then obtain a1 where a1: "tensors s1 x = Some a1" "grad a1 = grad a" using assms(2) by blast
  from assms(1) [unfolded follows_def, rule_format, OF a1(1), unfolded a1(2)]
  show "\<exists>a'. tensors s' x = Some a' \<and> (case r of None \<Rightarrow> grad a' = grad a
      | Some (acc, e) \<Rightarrow> if grad a = NULL then grad a' = NULL else denotes s' (Op2 acc (At (grad a)) e) (grad a'))" .
qed

lemma follows_unchanged: "grad_frame A s s' \<Longrightarrow> x \<notin> A \<Longrightarrow> follows s s' x None"
  unfolding follows_def grad_frame_def by fastforce

lemma to_grad_follows:
  assumes "\<And>g. produces (insert x V) (f g) (Op2 acc (At g) e)"
    and "graph_ok s" "valid V s" "to_grad x f s = Inr ((), s')"
  shows "follows s s' x (Some (acc, e))"
  unfolding follows_def
proof (intro allI impI)
  fix a assume a: "tensors s x = Some a"
  have fr: "graph_ok s' \<and> grad_frame {x} s s'"
    using grads_only_to_grad [of x V f] assms by (auto simp: produces_def grads_only_def)
  show "\<exists>a'. tensors s' x = Some a' \<and> (case Some (acc, e) of None \<Rightarrow> grad a' = grad a
      | Some (acc, e) \<Rightarrow> if grad a = NULL then grad a' = NULL else denotes s' (Op2 acc (At (grad a)) e) (grad a'))"
  proof (cases "grad a = NULL")
    case True
    with assms(4) a have "s' = s" by (simp add: to_grad_def sbind_def get_t_def)
    with a True show ?thesis by simp
  next
    case False
    with assms(4) a obtain g s1 where g: "f (grad a) s = Inr (g, s1)" "upd_t x (\<lambda>t. t\<lparr>grad := g\<rparr>) s1 = Inr ((), s')"
      by (auto simp: to_grad_def heap_Inr_iffs)
    have "valid (insert x V) s" using assms(3) a by (simp add: valid_def)
    then have d: "denotes s1 (Op2 acc (At (grad a)) e) g" using assms(1,2) g(1) by (auto simp: produces_def simp del: denotes.simps)
    from g(2) obtain t1 where t1: "tensors s1 x = Some t1" "s' = s1\<lparr>tensors := (tensors s1)(x \<mapsto> t1\<lparr>grad := g\<rparr>)\<rparr>"
      unfolding upd_t_Inr_iff by blast
    have "grad_frame {x} s1 s'"
      unfolding grad_frame_def
    proof (intro allI impI)
      fix q t assume "tensors s1 q = Some t"
      then have "tensors s' q = Some (t\<lparr>grad := (if q = x then g else grad t)\<rparr>)" using t1 by (cases "q = x") auto
      then show "\<exists>g. tensors s' q = Some (t\<lparr>grad := g\<rparr>) \<and> (q \<notin> {x} \<longrightarrow> g = grad t)" by (intro exI conjI) auto
    qed
    from denotes_frame [OF this d] t1 False show ?thesis by (simp del: denotes.simps)
  qed
qed

lemma chain_single:
  assumes "x \<noteq> y" "\<And>g. produces (insert x V) (f g) (Op2 acc (At g) e)"
  shows "chain V x y (Some (acc, e)) None (to_grad x f)"
proof -
  have "grads_only {x} V (to_grad x f)" using assms(2) by (intro grads_only_to_grad) (simp add: produces_def)
  with assms(1) show ?thesis
    unfolding chain_def using to_grad_follows [OF assms(2)] follows_unchanged [of "{x}" _ _ y] by (auto simp: grads_only_def)
qed

lemma chain_pair:
  assumes "x \<noteq> y" "\<And>g. produces (insert x V) (f g) (Op2 acc (At g) e)" "\<And>g. produces (insert y V) (h g) (Op2 acc' (At g) e')"
  shows "chain V x y (Some (acc, e)) (Some (acc', e')) (sseq (to_grad x f) (to_grad y h))"
  unfolding chain_def
proof (intro allI impI)
  fix s s' assume s: "graph_ok s" "valid V s" "sseq (to_grad x f) (to_grad y h) s = Inr ((), s')"
  then obtain s1 where s1: "to_grad x f s = Inr ((), s1)" "to_grad y h s1 = Inr ((), s')" by (auto simp: sseq_Inr_iff)
  have g: "grads_only {x} V (to_grad x f)" "grads_only {y} V (to_grad y h)"
    using assms(2,3) by (auto intro!: grads_only_to_grad simp: produces_def)
  from g(1) s(1,2) s1(1) have 1: "graph_ok s1" "grad_frame {x} s s1" unfolding grads_only_def by blast+
  then have v: "valid V s1" using s(2) by (fastforce simp: valid_def grad_frame_def)
  from g(2) 1(1) v s1(2) have 2: "grad_frame {y} s1 s'" unfolding grads_only_def by blast
  have fx: "follows s s' x (Some (acc, e))"
    using follows_frame [OF to_grad_follows [OF assms(2) s(1,2) s1(1)] 2] assms(1) by simp
  have "follows s1 s' y (Some (acc', e'))" by (rule to_grad_follows [OF assms(3) 1(1) v s1(2)])
  moreover have "\<exists>a1. tensors s1 y = Some a1 \<and> grad a1 = grad a" if "tensors s y = Some a" for a
  proof -
    from 1(2) that obtain g where "tensors s1 y = Some (a\<lparr>grad := g\<rparr>)" "y \<notin> {x} \<longrightarrow> g = grad a"
      unfolding grad_frame_def by blast
    with assms(1) show ?thesis by simp
  qed
  ultimately have "follows s s' y (Some (acc', e'))" using follows_from by blast
  with fx show "follows s s' x (Some (acc, e)) \<and> follows s s' y (Some (acc', e'))" by simp
qed

text \<open>
  The rules of the simple operations for their operands \<open>x\<close> and \<open>y\<close>: how the term is accumulated,
  and the term, in terms of the operands, the result \<open>p\<close> and its gradient \<open>tg\<close>.
\<close>

definition grad_rule0 :: "ne_op \<Rightarrow> ptr \<Rightarrow> ptr \<Rightarrow> ptr \<Rightarrow> (ne_op \<times> gexp) option" where
  "grad_rule0 o1 x y tg = (case o1 of
     NE_OP_MUL \<Rightarrow> Some (NE_OP_ADD, Op2 NE_OP_MUL (At y) (At tg))
   | NE_OP_DIV \<Rightarrow> Some (NE_OP_ADD, Op2 NE_OP_DIV (At tg) (At y))
   | NE_OP_LOG \<Rightarrow> Some (NE_OP_ADD, Op2 NE_OP_DIV (At tg) (At x))
   | NE_OP_SUM \<Rightarrow> Some (NE_OP_ADD1, At tg)
   | NE_OP_ABS \<Rightarrow> Some (NE_OP_ADD, Op2 NE_OP_MUL (Op1 NE_OP_SGN (At x)) (At tg))
   | NE_OP_NEG \<Rightarrow> Some (NE_OP_SUB, At tg)
   | NE_OP_RELU \<Rightarrow> Some (NE_OP_SUB, Op2 NE_OP_MUL (Op1 NE_OP_STEP (At x)) (At tg))
   | NE_OP_SILU \<Rightarrow> Some (NE_OP_ADD, Op2 NE_OP_SILU_BACK (At x) (At tg))
   | NE_OP_RMS_NORM \<Rightarrow> Some (NE_OP_ADD, Op2 NE_OP_RMS_NORM_BACK (At x) (At tg))
   | _ \<Rightarrow> Some (NE_OP_ADD, At tg))"

definition grad_rule1 :: "ne_op \<Rightarrow> ptr \<Rightarrow> ptr \<Rightarrow> ptr \<Rightarrow> ptr \<Rightarrow> (ne_op \<times> gexp) option" where
  "grad_rule1 o1 x y p tg = (case o1 of
     NE_OP_ADD \<Rightarrow> Some (NE_OP_ADD, At tg)
   | NE_OP_SUB \<Rightarrow> Some (NE_OP_SUB, At tg)
   | NE_OP_MUL \<Rightarrow> Some (NE_OP_ADD, Op2 NE_OP_MUL (At x) (At tg))
   | NE_OP_DIV \<Rightarrow> Some (NE_OP_SUB, Op2 NE_OP_MUL (At tg) (Op2 NE_OP_DIV (At p) (At y)))
   | _ \<Rightarrow> None)"

lemmas produces_calls = produces_binary [of ne_add_impl NE_OP_ADD, simplified] produces_binary [of ne_add1_impl NE_OP_ADD1, simplified]
  produces_binary [of ne_sub_impl NE_OP_SUB, simplified] produces_binary [of ne_mul_impl NE_OP_MUL, simplified]
  produces_binary [of ne_div_impl NE_OP_DIV, simplified] produces_unary [of ne_sgn_impl NE_OP_SGN, simplified]
  produces_unary [of ne_step_impl NE_OP_STEP, simplified] produces_back [of ne_silu_back NE_OP_SILU_BACK, simplified]
  produces_back [of ne_rms_norm_back NE_OP_RMS_NORM_BACK, simplified]

lemma produces_left:
  assumes "produces V m e" "\<And>r. produces (insert r V) (f r) (Op2 o1 (At r) e')"
  shows "produces V (sbind m f) (Op2 o1 e e')"
  by (rule produces_bind [where K = "\<lambda>x. Op2 o1 x e'", OF assms]) auto

lemma produces_right:
  assumes "produces V m e" "\<And>r. produces (insert r V) (f r) (Op2 o1 e' (At r))"
  shows "produces V (sbind m f) (Op2 o1 e' e)"
  by (rule produces_bind [where K = "\<lambda>x. Op2 o1 e' x", OF assms]) auto

lemma chain_cases:
  assumes xy: "src0 t \<noteq> src1 t" and tg: "tg \<in> V"
  shows "chain V (src0 t) (src1 t) (Some (NE_OP_ADD, At tg)) None (plus_grad ip (src0 t) (ret tg))"
    "chain V (src0 t) (src1 t) (Some (NE_OP_ADD, At tg)) (Some (NE_OP_ADD, At tg)) (bw_add ip t tg)"
    "chain V (src0 t) (src1 t) (Some (NE_OP_ADD, At tg)) (Some (NE_OP_SUB, At tg)) (bw_sub ip t tg)"
    "chain V (src0 t) (src1 t) (Some (NE_OP_ADD, Op2 NE_OP_MUL (At (src1 t)) (At tg)))
       (Some (NE_OP_ADD, Op2 NE_OP_MUL (At (src0 t)) (At tg))) (bw_mul ip t tg)"
    "chain V (src0 t) (src1 t) (Some (NE_OP_ADD, Op2 NE_OP_DIV (At tg) (At (src1 t))))
       (Some (NE_OP_SUB, Op2 NE_OP_MUL (At tg) (Op2 NE_OP_DIV (At p) (At (src1 t))))) (bw_div ip p t tg)"
    "chain V (src0 t) (src1 t) (Some (NE_OP_ADD, Op2 NE_OP_DIV (At tg) (At (src0 t)))) None (bw_log ip t tg)"
    "chain V (src0 t) (src1 t) (Some (NE_OP_ADD1, At tg)) None (bw_sum ip t tg)"
    "chain V (src0 t) (src1 t) (Some (NE_OP_ADD, Op2 NE_OP_MUL (Op1 NE_OP_SGN (At (src0 t))) (At tg))) None (bw_abs ip t tg)"
    "chain V (src0 t) (src1 t) (Some (NE_OP_SUB, At tg)) None (bw_neg ip t tg)"
    "chain V (src0 t) (src1 t) (Some (NE_OP_SUB, Op2 NE_OP_MUL (Op1 NE_OP_STEP (At (src0 t))) (At tg))) None (bw_relu ip t tg)"
    "chain V (src0 t) (src1 t) (Some (NE_OP_ADD, Op2 NE_OP_SILU_BACK (At (src0 t)) (At tg))) None (bw_silu ip t tg)"
    "chain V (src0 t) (src1 t) (Some (NE_OP_ADD, Op2 NE_OP_RMS_NORM_BACK (At (src0 t)) (At tg))) None (bw_rms_norm ip t tg)"
    "chain V (src0 t) (src1 t) (Some (NE_OP_ADD, At tg)) None (bw_cpy ip t tg)"
    "chain V (src0 t) (src1 t) (Some (NE_OP_ADD, At tg)) None (bw_cont ip t tg)"
  unfolding bw_add_def bw_sub_def bw_mul_def bw_div_def bw_log_def bw_sum_def bw_abs_def bw_neg_def bw_relu_def
    bw_silu_def bw_rms_norm_def bw_cpy_def bw_cont_def plus_grad_def minus_grad_def ap1_def ne_mul_def ne_div_def
    ne_sgn_def ne_step_def
  by ((rule chain_pair chain_single produces_get produces_assert produces_calls produces_ret produces_right produces_left
      | (use xy tg in \<open>simp; fail\<close>))+)

text \<open>
  C15. The chain rule on the graph, for the fourteen operations without a shape of their own, with
  and without in-place accumulation. When differentiation of \<open>p\<close> returns, the gradient of each operand that had one
  is a new node that adds the derivative, built from the operands, \<open>p\<close> and the gradient of \<open>p\<close>, to
  the old gradient, as \<open>grad_rule0\<close> and \<open>grad_rule1\<close> list it (\<open>y * g\<close> and \<open>x * g\<close> for a product, \<open>g / y\<close> and
  minus \<open>g * (p / y)\<close> for a quotient, and so on); an operand without a gradient gets none. The rectified
  unit is the exception that the code makes: its derivative \<open>step x * g\<close> is subtracted.
\<close>

theorem backward_chain_rule:
  assumes "graph_ok s" "tensors s p = Some t" "op t \<in> set simple_backward" "tensors s (grad t) \<noteq> None" "src0 t \<noteq> src1 t"
    and "ne_compute_backward fc p inplace s = Inr ((), s')"
  shows "follows s s' (src0 t) (grad_rule0 (op t) (src0 t) (src1 t) (grad t)) \<and>
    follows s s' (src1 t) (grad_rule1 (op t) (src0 t) (src1 t) p (grad t))"
proof -
  have tg: "grad t \<in> {grad t}" by simp
  note c = chain_cases [OF assms(5) tg, where ip = inplace] and d = chain_cases(5) [OF assms(5) tg, where ip = inplace and p = p]
  obtain m where m: "chain {grad t} (src0 t) (src1 t) (grad_rule0 (op t) (src0 t) (src1 t) (grad t))
      (grad_rule1 (op t) (src0 t) (src1 t) p (grad t)) m" "m s = Inr ((), s')"
    using assms(2,3,6) c(1-4,6-) d
    by (auto simp: simple_backward_def grad_rule0_def grad_rule1_def ne_compute_backward_def sbind_def get_t_def Let_def no_backward_def)
  then show ?thesis using assms(1,4) by (auto simp: chain_def valid_def)
qed

text \<open>Heaps of four-element vectors with room for \<open>n\<close> more of them, on which constructors succeed.\<close>

definition vec4 :: "ne_tensor \<Rightarrow> bool" where
  "vec4 t \<longleftrightarrow> tensor_wf t \<and> ty t = NE_TYPE_F32 \<and> n_dims t = 1 \<and> ne t = [4, 1, 1, 1] \<and> tsize t < 2 ^ 62 \<and> data t \<noteq> NULL"

definition vec_heap :: "ne_state \<Rightarrow> nat \<Rightarrow> bool" where
  "vec_heap s n \<longleftrightarrow> heap_ok s \<and> s_data (scratch (ctx s)) = NULL \<and> \<not> no_alloc (ctx s) \<and>
     used_end s + n * 384 \<le> mem_size (ctx s)"

lemma vec4_t_ok: "vec4 t \<Longrightarrow> t_ok c t"
  using demo_vec_request(2) by (simp add: vec4_def t_ok_def good_request_def)

lemma vec_new:
  assumes h: "vec_heap s (Suc n)" and d: "d = NULL \<or> d = dat" and dat: "dat \<noteq> NULL"
  shows "\<exists>p s' t. ne_new_tensor_impl NE_TYPE_F32 1 [4, 1, 1, 1] d nbytes s = Inr (p, s') \<and> vec_heap s' n \<and>
    tensors s p = None \<and> tensors s' = (tensors s)(p \<mapsto> t) \<and> vec4 t \<and> grad t = NULL"
proof -
  let ?n = "if d = NULL then 64 else 0 :: nat"
  have ok: "heap_ok s" and sc: "s_data (scratch (ctx s)) = NULL \<or> d \<noteq> NULL" and na: "\<not> no_alloc (ctx s)"
    and room: "used_end s + Suc n * 384 \<le> mem_size (ctx s)" using h by (simp_all add: vec_heap_def)
  have good: "good_request (ctx s) NE_TYPE_F32 1 [4, 1, 1, 1] NULL nbytes"
    using demo_vec_request(2) by (simp add: good_request_def)
  have req: "request_size (ctx s) NE_TYPE_F32 1 [4, 1, 1, 1] d nbytes = Inr ?n"
    using demo_vec_request(2) [of "ctx s" nbytes] na by (auto simp: request_size_def)
  have r: "used_end s + NE_OBJECT_SIZE + (?n + sizeof_ne_tensor) \<le> mem_size (ctx s)"
    using room by (simp add: pool_consts)
  have ne4: "new_ne 1 [4, 1, 1, 1] = [4, 1, 1, 1]" by (simp add: new_ne_def upt_rec)
  from new_tensor_room [OF ok sc good req r] obtain p s' nbs where
    p: "ne_new_tensor_impl NE_TYPE_F32 1 [4, 1, 1, 1] d nbytes s = Inr (p, s')" "new_nb NE_TYPE_F32 [4, 1, 1, 1] = Inr nbs"
      "scratch (ctx s') = scratch (ctx s)" "used_end s' = used_end s + NE_OBJECT_SIZE + (?n + sizeof_ne_tensor)"
      "allocated s p (init_tensor NE_TYPE_F32 1 [4, 1, 1, 1] nbs
         (if d = NULL \<and> \<not> no_alloc (ctx s) then p + sizeof_ne_tensor else d) (?n + sizeof_ne_tensor)) s'"
    unfolding ne4 by blast
  have "length nbs = 4" using new_nb_length [OF p(2)] .
  then have "vec4 (init_tensor NE_TYPE_F32 1 [4, 1, 1, 1] nbs
         (if d = NULL \<and> \<not> no_alloc (ctx s) then p + sizeof_ne_tensor else d) (?n + sizeof_ne_tensor))"
    using na d dat by (simp add: vec4_def init_tensor_def tensor_wf_def pool_consts)
  moreover have "vec_heap s' n"
    using p(3-5) h room by (auto simp: vec_heap_def allocated_def pool_consts)
  ultimately show ?thesis using p(1,5) by (auto simp: allocated_def)
qed

lemma vec_dup:
  assumes "vec_heap s (Suc n)" "tensors s a = Some ta" "vec4 ta"
  shows "\<exists>p s' t. ne_dup_tensor a s = Inr (p, s') \<and> vec_heap s' n \<and> tensors s p = None \<and>
    tensors s' = (tensors s)(p \<mapsto> t) \<and> vec4 t \<and> grad t = NULL"
  using vec_new [OF assms(1), of NULL 1 "tsize ta"] assms(2,3) by (simp add: ne_dup_tensor_def get_t_def vec4_def)

lemma vec_upd:
  assumes "vec_heap s n" "tensors s r = Some t" "vec4 u"
  shows "vec_heap (s\<lparr>tensors := (tensors s)(r \<mapsto> u)\<rparr>) n"
  using assms heap_ok_upd [OF _ assms(2) vec4_t_ok [OF assms(3)]] by (simp add: vec_heap_def)

lemma vec_finish:
  assumes h: "vec_heap s (Suc n)" and t: "tensors s r = Some t" "vec4 t" and f: "\<And>t. vec4 t \<Longrightarrow> vec4 (f t)"
  shows "\<exists>s' u. finish opc b f r s = Inr (r, s') \<and> vec_heap s' n \<and> tensors s' r = Some u \<and> vec4 u \<and>
    (\<forall>q x. q \<noteq> r \<longrightarrow> tensors s q = Some x \<longrightarrow> tensors s' q = Some x)"
proof -
  let ?s1 = "s\<lparr>tensors := (tensors s)(r \<mapsto> t\<lparr>op := opc\<rparr>)\<rparr>"
  have t1: "vec4 (t\<lparr>op := opc\<rparr>)" using t(2) by (simp add: vec4_def tensor_wf_def)
  have h1: "vec_heap ?s1 (Suc n)" by (rule vec_upd [OF h t(1) t1])
  show ?thesis
  proof (cases b)
    case False
    have u: "vec4 (f (t\<lparr>op := opc, grad := NULL\<rparr>))" by (rule f) (use t(2) in \<open>simp add: vec4_def tensor_wf_def\<close>)
    have "vec_heap s n" using h by (simp add: vec_heap_def)
    from vec_upd [OF this t(1) u] u False show ?thesis by (simp add: finish_leaf [OF t(1)])
  next
    case True
    from vec_dup [OF h1 _ t1, of r] obtain p s2 v where p: "ne_dup_tensor r ?s1 = Inr (p, s2)" "vec_heap s2 n"
      "tensors ?s1 p = None" "tensors s2 = (tensors ?s1)(p \<mapsto> v)" by auto
    then have r2: "tensors s2 r = Some (t\<lparr>op := opc\<rparr>)" by auto
    have u: "vec4 (f (t\<lparr>op := opc, grad := p\<rparr>))" by (rule f) (use t(2) in \<open>simp add: vec4_def tensor_wf_def\<close>)
    have "finish opc b f r s = Inr (r, s2\<lparr>tensors := (tensors s2)(r \<mapsto> f (t\<lparr>op := opc, grad := p\<rparr>))\<rparr>)"
      using t(1) p(1) r2 True by (simp add: finish_def sseq_def sbind_def upd_t_def)
    with vec_upd [OF p(2) r2 u] u p(3,4) show ?thesis by auto
  qed
qed

lemma vec_any_grad: "\<forall>p \<in> set ps. tensors s p \<noteq> None \<Longrightarrow> \<exists>b. any_grad ps s = Inr (b, s)"
  by (induction ps) (auto simp: any_grad.simps sbind_def get_t_def split: option.split)

lemma vec_dup_finish:
  assumes "vec_heap s (Suc (Suc n))" "tensors s a = Some ta" "vec4 ta" and f: "\<And>t. vec4 t \<Longrightarrow> vec4 (f t)"
  shows "\<exists>p s1 s' u. ne_dup_tensor a s = Inr (p, s1) \<and> finish opc b f p s1 = Inr (p, s') \<and> vec_heap s' n \<and>
    tensors s p = None \<and> tensors s' p = Some u \<and> vec4 u \<and> (\<forall>q x. tensors s q = Some x \<longrightarrow> tensors s' q = Some x)"
proof -
  from vec_dup [OF assms(1-3)] obtain p s1 t where p: "ne_dup_tensor a s = Inr (p, s1)" "vec_heap s1 (Suc n)"
    "tensors s p = None" "tensors s1 = (tensors s)(p \<mapsto> t)" "vec4 t" by blast
  have "tensors s1 p = Some t" using p(4) by simp
  from vec_finish [where f = f and opc = opc and b = b, OF p(2) this p(5) f] obtain s' u where
    u: "finish opc b f p s1 = Inr (p, s')" "vec_heap s' n" "tensors s' p = Some u" "vec4 u"
    "\<forall>q x. q \<noteq> p \<longrightarrow> tensors s1 q = Some x \<longrightarrow> tensors s' q = Some x" by blast
  have "tensors s' q = Some x" if "tensors s q = Some x" for q x
    using that u(5) p(3,4) by (cases "q = p") auto
  with p u show ?thesis by blast
qed

lemma vec_step:
  assumes "vec_heap s (Suc (Suc n))" "tensors s a = Some ta" "vec4 ta"
  shows "\<exists>r s' u. ne_step a s = Inr (r, s') \<and> vec_heap s' n \<and> tensors s' r = Some u \<and> vec4 u \<and>
    (\<forall>q x. tensors s q = Some x \<longrightarrow> tensors s' q = Some x)"
proof -
  obtain b where b: "node_unless False [a] s = Inr (b, s)"
    using assms(2) vec_any_grad [of "[a]" s] by (auto simp: node_unless_def)
  have "vec4 (t\<lparr>src0 := a, src1 := NULL\<rparr>)" if "vec4 t" for t using that by (simp add: vec4_def tensor_wf_def)
  from vec_dup_finish [where f = "\<lambda>t. t\<lparr>src0 := a, src1 := NULL\<rparr>" and opc = NE_OP_STEP and b = b, OF assms this] b show ?thesis
    by (fastforce simp: ne_step_def ne_step_impl_def sbind_def view_or_dup_def)
qed

lemma vec4_shapes: "vec4 a \<Longrightarrow> vec4 b \<Longrightarrow> ne_can_repeat_rows b a = Inr True \<and> ne_are_same_shape a b"
  by (simp add: vec4_def ne_can_repeat_rows_def ne_can_repeat_def cmod0_def ne_are_same_shape_def)

lemma vec_mul:
  assumes "vec_heap s (Suc (Suc n))" "tensors s a = Some ta" "vec4 ta" "tensors s c = Some tc" "vec4 tc"
  shows "\<exists>r s' u. ne_mul a c s = Inr (r, s') \<and> vec_heap s' n \<and> tensors s' r = Some u \<and> vec4 u \<and>
    (\<forall>q x. tensors s q = Some x \<longrightarrow> tensors s' q = Some x)"
proof -
  obtain b where b: "node_unless False [a, c] s = Inr (b, s)"
    using assms(2,4) vec_any_grad [of "[a, c]" s] by (auto simp: node_unless_def)
  have "vec4 (t\<lparr>src0 := a, src1 := c\<rparr>)" if "vec4 t" for t using that by (simp add: vec4_def tensor_wf_def)
  from vec_dup_finish [where f = "\<lambda>t. t\<lparr>src0 := a, src1 := c\<rparr>" and opc = NE_OP_MUL and b = b, OF assms(1-3) this] obtain p s1 s' u where
    u: "ne_dup_tensor a s = Inr (p, s1)" "finish NE_OP_MUL b (\<lambda>t. t\<lparr>src0 := a, src1 := c\<rparr>) p s1 = Inr (p, s')"
    "vec_heap s' n" "tensors s' p = Some u" "vec4 u" "\<forall>q x. tensors s q = Some x \<longrightarrow> tensors s' q = Some x" by blast
  have "ne_mul a c s = Inr (p, s')" using u(1,2) b assms(2,4) vec4_shapes [OF assms(3,5)]
    by (cases b) (simp_all add: ne_mul_def ne_mul_impl_def sbind_def sseq_def view_or_dup_def get_t_def ne_assertR_def)
  with u(3-) show ?thesis by blast
qed

lemma vec_sub_inplace:
  assumes "vec_heap s (Suc (Suc n))" "tensors s a = Some ta" "vec4 ta" "tensors s c = Some tc" "vec4 tc"
  shows "\<exists>r s'. ne_sub_impl a c True s = Inr (r, s') \<and> (\<forall>q x. tensors s q = Some x \<longrightarrow> tensors s' q = Some x)"
proof -
  have d: "data ta \<noteq> NULL" using assms(3) by (simp add: vec4_def)
  from vec_new [OF assms(1) disjI2 [OF refl] d] obtain p s1 t where
    p: "ne_new_tensor_impl NE_TYPE_F32 1 [4, 1, 1, 1] (data ta) (tsize ta) s = Inr (p, s1)"
    "tensors s p = None" "tensors s1 = (tensors s)(p \<mapsto> t)" by blast
  then show ?thesis using assms(2-5) vec4_shapes [OF assms(3,5)]
    by (auto simp: ne_sub_impl_def sbind_def sseq_def view_or_dup_def get_t_def node_unless_def ne_view_tensor_def
        upd_t_def finish_leaf vec4_def simp del: One_nat_def)
qed

lemma demo_relu: "\<exists>s'. ne_compute_backward demo_fc 48 True (demo_grad NE_OP_RELU) = Inr ((), s')"
proof -
  let ?s = "demo_grad NE_OP_RELU"
  have v: "vec4 t" if "tensors ?s q = Some t" for q t
    using that by (auto simp: demo_grad_def demo_grad_t_def Let_def vec4_def init_tensor_def tensor_wf_def split: if_splits)
  have rel: "pool_rel [] ?s"
    using demo_grad_cases [of NE_OP_RELU] by (fastforce simp: pool_rel_def demo_grad_tensors demo_ctx_def)
  have "used_end ?s = 0" by (rule used_end_pool [OF rel, simplified])
  then have h: "vec_heap ?s (Suc (Suc (Suc (Suc (Suc (Suc 0))))))"
    using demo_grad_ok [of NE_OP_RELU]
    by (simp add: vec_heap_def graph_ok_def demo_grad_tensors) (simp add: demo_ctx_def scratch0_def)
  obtain r1 s1 u1 where 1: "ne_step 16 ?s = Inr (r1, s1)" "vec_heap s1 (Suc (Suc (Suc (Suc 0))))" "tensors s1 r1 = Some u1"
    "vec4 u1" "\<And>q x. tensors ?s q = Some x \<Longrightarrow> tensors s1 q = Some x"
    using vec_step [OF h demo_grad_tensors(1) v [OF demo_grad_tensors(1)]] by blast
  obtain r2 s2 u2 where 2: "ne_mul r1 64 s1 = Inr (r2, s2)" "vec_heap s2 (Suc (Suc 0))" "tensors s2 r2 = Some u2" "vec4 u2"
    "\<And>q x. tensors s1 q = Some x \<Longrightarrow> tensors s2 q = Some x"
    using vec_mul [OF 1(2-4) 1(5) [OF demo_grad_tensors(4)] v [OF demo_grad_tensors(4)]] by blast
  obtain r3 s3 where 3: "ne_sub_impl 32 r2 True s2 = Inr (r3, s3)" "\<And>q x. tensors s2 q = Some x \<Longrightarrow> tensors s3 q = Some x"
    using vec_sub_inplace [OF 2(2) 2(5) [OF 1(5) [OF demo_grad_tensors(2)]] v [OF demo_grad_tensors(2)] 2(3,4)] by blast
  have "tensors s3 16 \<noteq> None" using 3(2) [OF 2(5) [OF 1(5) [OF demo_grad_tensors(1)]]] by simp
  then show ?thesis using 1(1) 2(1) 3(1) demo_grad_tensors [of NE_OP_RELU]
    by (auto simp: ne_compute_backward_def bw_relu_def minus_grad_def to_grad_def ap1_def sbind_def get_t_def upd_t_def Let_def)
qed

theorem backward_chain_rule_witness:
  "\<exists>s' a'. ne_compute_backward demo_fc 48 True (demo_grad NE_OP_RELU) = Inr ((), s') \<and> tensors s' 16 = Some a' \<and>
     denotes s' (Op2 NE_OP_SUB (At 32) (Op2 NE_OP_MUL (Op1 NE_OP_STEP (At 16)) (At 64))) (grad a')"
proof -
  obtain s' where r: "ne_compute_backward demo_fc 48 True (demo_grad NE_OP_RELU) = Inr ((), s')" using demo_relu by blast
  show ?thesis
    using backward_chain_rule [OF demo_grad_ok demo_grad_tensors(3) _ _ _ r] r demo_grad_tensors(1,4) [of NE_OP_RELU]
    by (simp add: simple_backward_def follows_def grad_rule0_def init_tensor_def)
qed

lemma le_bytes_Suc: "le_bytes (Suc k) n = word_of_nat n # le_bytes k (n div 256)"
proof -
  have "n div 2 ^ (8 * Suc i) = n div 256 div 2 ^ (8 * i)" for i
    by (simp add: div_mult2_eq [symmetric] mult.commute power_add)
  then show ?thesis by (simp add: le_bytes_def upt_conv_Cons map_Suc_upt [symmetric] del: upt_Suc)
qed

lemma le_nat_le_bytes: "le_nat (le_bytes k n) = n mod 256 ^ k"
proof (induction k arbitrary: n)
  case 0
  then show ?case by (simp add: le_nat_def le_bytes_def)
next
  case (Suc k)
  have "le_nat (le_bytes (Suc k) n) = n mod 256 + 256 * le_nat (le_bytes k (n div 256))"
    by (simp add: le_bytes_Suc le_nat_def unat_of_nat)
  also have "\<dots> = n mod 256 ^ Suc k" by (simp add: Suc mod_mult2_eq mult.commute)
  finally show ?case .
qed

text \<open>
  The offset that \<^verbatim>\<open>ne_view_4d\<close> and its siblings leave in the padding of a view is the one
  that differentiation reads back.
\<close>

theorem view_offset_roundtrip:
  assumes "offset < 2 ^ 64"
  shows "le_nat (take 8 (padding (view_operands True a offset t))) = offset"
proof -
  have "length (le_bytes 8 offset) = 8" by (simp add: le_bytes_def)
  then show ?thesis using assms by (simp add: view_operands_def le_nat_le_bytes)
qed

theorem view_offset_roundtrip_witness:
  "le_nat (take 8 (padding (view_operands True 16 4294967299 demo_vec))) = 4294967299"
  using view_offset_roundtrip [of 4294967299 16 demo_vec] by simp

lemma less4_cases: "(a::nat) < 4 \<Longrightarrow> a = 0 \<or> a = 1 \<or> a = 2 \<or> a = 3"
  by linarith

text \<open>
  C29. The derivative of a permutation is the inverse permutation: with the axes read from the
  padding that \<^verbatim>\<open>ne_permute\<close> writes, permuting forwards and then backwards restores every list
  of four dimensions or strides.
\<close>

theorem permute_backward_inverts:
  assumes "distinct [a0, a1, a2, a3]" "a0 < 4" "a1 < 4" "a2 < 4" "a3 < 4" "length y = 4"
    and "padding t = map word_of_nat [a0, a1, a2, a3] @ rest" "ab = axes_backward t"
  shows "scatter4 (ab ! 0) (ab ! 1) (ab ! 2) (ab ! 3) (scatter4 a0 a1 a2 a3 y) = y"
proof -
  obtain y0 y1 y2 y3 where y: "y = [y0, y1, y2, y3]"
    using assms(6) by (auto simp: numeral_eq_Suc length_Suc_conv)
  have m: "unat ((word_of_nat a :: byte) AND 3) = a" if "a < 4" for a
    using less4_cases [OF that] by auto
  have ab: "ab = [0, 0, 0, 0][a0 := 0, a1 := 1, a2 := 2, a3 := 3]"
    using assms(2-5,7,8) by (simp add: axes_backward_def m Let_def del: list_update.simps)
  show ?thesis
    using assms(1) less4_cases [OF assms(2)] less4_cases [OF assms(3)] less4_cases [OF assms(4)] less4_cases [OF assms(5)]
    unfolding ab y scatter4_def
    by (elim disjE) (simp_all add: numeral_eq_Suc)
qed

theorem permute_backward_inverts_witness:
  "axes_backward (demo_vec\<lparr>padding := [2, 0, 1, 3, 0, 0, 0, 0]\<rparr>) = [1, 2, 0, 3] \<and>
   scatter4 1 2 0 3 (scatter4 2 0 1 3 [10, 20, 30, 40 :: int]) = [10, 20, 30, 40]"
proof -
  have ab: "axes_backward (demo_vec\<lparr>padding := [2, 0, 1, 3, 0, 0, 0, 0]\<rparr>) = [1, 2, 0, 3]"
    by (simp add: axes_backward_def Let_def)
  show ?thesis
    using permute_backward_inverts [of 2 0 1 3 "[10, 20, 30, 40 :: int]"
        "demo_vec\<lparr>padding := [2, 0, 1, 3, 0, 0, 0, 0]\<rparr>" "[0, 0, 0, 0]" "[1, 2, 0, 3]"] ab by simp
qed

text \<open>
  C30. Differentiating \<^verbatim>\<open>ne_set\<close> crashes when only the tensor that is written into needs a
  gradient. With valid parameters and gradients of the right type, the checks reach
  \<^verbatim>\<open>src1->grad->type\<close>, and the gradient of the written part is null there: the call dereferences it
  whenever \<^verbatim>\<open>src0\<close> has a gradient and \<^verbatim>\<open>src1\<close> has none, and passes the check when \<^verbatim>\<open>src1\<close>
  has a gradient of the same type (it goes on to view the gradient in that shape).
\<close>

theorem set_backward_null:
  assumes "tensors s p = Some t" "op t = NE_OP_SET" "tensors s NULL = None"
    and "tensors s (opt t ! 0) = Some c" "ne_nelements c = 5" "ty c = NE_TYPE_I32" "data c \<noteq> NULL"
    and "tensors s (src0 t) = Some a" "grad a \<noteq> NULL" "ty a = ty t" "tensors s (src1 t) = Some b"
    and "tensors s (grad t) = Some u" "ty u = ty t"
  shows "(grad b = NULL \<longrightarrow> ne_compute_backward fc p inplace s = Inl Bad_Deref) \<and>
    (\<forall>v e. tensors s (grad b) = Some v \<longrightarrow> ty v = ty t \<longrightarrow>
       (\<exists>ps. region_params (opt t ! 0) s = Inr (ps, s) \<and>
         (grad_region (grad t) (grad b) ps s = Inl e \<longrightarrow> ne_compute_backward fc p inplace s = Inl e) \<and>
         (\<forall>w s'. grad_region (grad t) (grad b) ps s = Inr (w, s') \<longrightarrow>
            ne_compute_backward fc p inplace s = set_updates inplace t (grad t) ps w s')))"
proof -
  define ps where "ps = (let n = (\<lambda>k. to_size (sint (load32 (mem s) (data c + 4 * k)))) in (n 0, n 1, n 2, n 3))"
  have ps: "region_params (opt t ! 0) s = Inr (ps, s)"
    using assms(4-7) by (simp add: region_params_def i32_at_def ps_def Let_def sbind_def sseq_def get_t_def)
  have run: "ne_compute_backward fc p inplace s = bw_set inplace t (grad t) s"
    using assms(1,2) by (simp add: ne_compute_backward_def sbind_def get_t_def Let_def)
  have "bw_set inplace t (grad t) s = Inl Bad_Deref" if "grad b = NULL"
    using that assms(3,8-13) ps by (simp add: bw_set_def sbind_def sseq_def get_t_def)
  moreover have "(grad_region (grad t) (grad b) ps s = Inl e \<longrightarrow> bw_set inplace t (grad t) s = Inl e) \<and>
      (\<forall>w s'. grad_region (grad t) (grad b) ps s = Inr (w, s') \<longrightarrow>
         bw_set inplace t (grad t) s = set_updates inplace t (grad t) ps w s')"
    if "tensors s (grad b) = Some v" "ty v = ty t" for v e
    using that assms(8-13) ps by (simp add: bw_set_def set_updates_def sbind_def sseq_def get_t_def)
  ultimately show ?thesis using ps run by auto
qed

text \<open>The vector at 16 is set to the vector at 64, with the parameters in a tensor of five integers at 80.\<close>

definition demo_set :: ne_state where
  "demo_set = (demo_grad NE_OP_SET)\<lparr>tensors := (tensors (demo_grad NE_OP_SET))
     (48 \<mapsto> (the (demo_grad_t NE_OP_SET 48))\<lparr>src1 := 64, opt := [80, 0, 0, 0]\<rparr>,
      80 \<mapsto> init_tensor NE_TYPE_I32 1 [5, 1, 1, 1] [4, 20, 20, 20] 74000 320)\<rparr>"

theorem set_backward_null_witness: "ne_compute_backward demo_fc 48 True demo_set = Inl Bad_Deref"
proof -
  let ?t = "(the (demo_grad_t NE_OP_SET 48))\<lparr>src1 := 64, opt := [80, 0, 0, 0]\<rparr>"
  have t: "tensors demo_set 48 = Some ?t" "src0 ?t = 16" "src1 ?t = 64" "opt ?t ! 0 = 80" "grad ?t = 64" "op ?t = NE_OP_SET"
    "ty ?t = NE_TYPE_F32" by (simp_all add: demo_set_def demo_grad_t_def Let_def init_tensor_def)
  have h: "tensors demo_set NULL = None"
    "tensors demo_set 80 = Some (init_tensor NE_TYPE_I32 1 [5, 1, 1, 1] [4, 20, 20, 20] 74000 320)"
    "tensors demo_set 16 = Some ((init_tensor NE_TYPE_F32 1 [4, 1, 1, 1] [4, 16, 16, 16] 70000 320)\<lparr>grad := 32\<rparr>)"
    "tensors demo_set 64 = Some (init_tensor NE_TYPE_F32 1 [4, 1, 1, 1] [4, 16, 16, 16] 73000 320)"
    by (simp_all add: demo_set_def demo_grad_def demo_grad_t_def Let_def)
  show ?thesis
    using set_backward_null [OF t(1,6) h(1), unfolded t(2-5,7), OF h(2) _ _ _ h(3) _ _ h(4) h(4)]
    by (simp add: init_tensor_def ne_nelements_def)
qed

end
