(* ===== verification/NE_Plan.thy ===== *)
theory NE_Plan
  imports NE_Graph
begin

text \<open>
  The first half of \<^verbatim>\<open>ne_graph_compute\<close>: how many tasks every node of a graph is cut into,
  how large the shared work buffer has to be, its allocation, and the calls of the forward
  kernels that are then made for each node. The kernels' own row and buffer slices are here
  too, since the sizes chosen by the planner are what keeps them apart.
\<close>

section \<open>Planning one node\<close>

text \<open>\<^verbatim>\<open>quantize_fns[type].vec_dot_type\<close>; entries that the table leaves out are zero, which is \<^verbatim>\<open>NE_TYPE_F32\<close>.\<close>

fun vec_dot_type :: "ne_type \<Rightarrow> ne_type" where
  "vec_dot_type NE_TYPE_Q4_0 = NE_TYPE_Q8_0" | "vec_dot_type NE_TYPE_Q4_1 = NE_TYPE_Q8_1"
| "vec_dot_type NE_TYPE_Q5_0 = NE_TYPE_Q8_0" | "vec_dot_type NE_TYPE_Q5_1 = NE_TYPE_Q8_1"
| "vec_dot_type NE_TYPE_Q8_0 = NE_TYPE_Q8_0" | "vec_dot_type NE_TYPE_Q8_1 = NE_TYPE_Q8_1"
| "vec_dot_type NE_TYPE_Q6_K = NE_TYPE_Q8_K" | "vec_dot_type _ = NE_TYPE_F32"

definition CACHE_LINE_SIZE :: nat where "CACHE_LINE_SIZE = 64"
definition CACHE_LINE_SIZE_F32 :: nat where "CACHE_LINE_SIZE_F32 = CACHE_LINE_SIZE div 4"

text \<open>
  The workspace sizes that the C++ matrix library reports (\<^verbatim>\<open>bestla_f32f32_get_workspace_size\<close>,
  \<^verbatim>\<open>bestla_fusion_FFN_f32f32_get_workspace_size\<close>, \<^verbatim>\<open>bestla_fusion_QKV_f32f32_get_workspace_size\<close>),
  as functions of their arguments.
\<close>

record bestla_ws =
  ws_f32f32 :: "int \<Rightarrow> int \<Rightarrow> int \<Rightarrow> ptr \<Rightarrow> nat"
  ws_ffn :: "int \<Rightarrow> int \<Rightarrow> int \<Rightarrow> int \<Rightarrow> ptr \<Rightarrow> ptr \<Rightarrow> nat"
  ws_qkv :: "int \<Rightarrow> int \<Rightarrow> int \<Rightarrow> ptr \<Rightarrow> nat"

text \<open>
  A planned node is its number of tasks and its buffer size; \<open>None\<close> for the size is the
  assignment \<^verbatim>\<open>work_size = 0LL\<close>, and \<open>Some 0\<close> leaves the running maximum alone.
\<close>

type_synonym node_plan = "int \<times> nat option"

text \<open>\<^verbatim>\<open>NE_TYPE_SIZE[NE_TYPE_F32] * n * n_threads\<close> in \<^verbatim>\<open>size_t\<close>.\<close>

definition f32_rows :: "int \<Rightarrow> int \<Rightarrow> nat" where
  "f32_rows n nt = wrap64 (wrap64 (NE_TYPE_SIZE NE_TYPE_F32 * to_size n) * to_size nt)"

definition plan_copy :: "int \<Rightarrow> ne_tensor \<Rightarrow> node_plan neop" where
  "plan_copy nt t = ret (nt, Some (if ne_is_quantized (ty t) then f32_rows (ne t ! 0) nt else 0))"

definition row_tasks :: "int \<Rightarrow> ne_tensor \<Rightarrow> int" where
  "row_tasks nt a = (if 4 < ne a ! 1 then nt else 1)"

definition plan_add :: "int \<Rightarrow> ne_tensor \<Rightarrow> node_plan neop" where
  "plan_add nt t = sbind (get_t (src0 t)) (\<lambda>a.
     ret (row_tasks nt a, Some (if ne_is_quantized (ty a) then f32_rows (ne a ! 0) nt else 0)))"

definition plan_acc :: "int \<Rightarrow> ne_tensor \<Rightarrow> node_plan neop" where
  "plan_acc nt t = sbind (get_t (src0 t)) (\<lambda>a.
     if ne_is_quantized (ty a) then sbind (get_t (src1 t)) (\<lambda>b. ret (nt, Some (f32_rows (ne b ! 0) nt)))
     else ret (nt, Some 0))"

definition plan_rows :: "int \<Rightarrow> ne_tensor \<Rightarrow> node_plan neop" where
  "plan_rows nt t = sbind (get_t (src0 t)) (\<lambda>a. ret (row_tasks nt a, Some 0))"

definition plan_norm :: "int \<Rightarrow> ne_tensor \<Rightarrow> node_plan neop" where
  "plan_norm nt t = sbind (get_t (src0 t)) (\<lambda>a.
     sbind (liftR (ne_is_contiguous a)) (\<lambda>c. ret (if c then 1 else row_tasks nt a, Some 0)))"

definition plan_mul_mat :: "bestla_ws \<Rightarrow> int \<Rightarrow> ne_tensor \<Rightarrow> node_plan neop" where
  "plan_mul_mat bw nt t =
     sbind (get_t (src0 t)) (\<lambda>a.
     if ty a \<notin> {NE_TYPE_BTLA, NE_TYPE_F16, NE_TYPE_F32} \<and> \<not> ne_is_quantized (ty a) then fail NE_Assert
     else sbind (get_t (src1 t)) (\<lambda>b.
     if ty a = NE_TYPE_BTLA then
       ret (1, Some (wrap64 (ws_f32f32 bw (to_int32 (ne b ! 1)) (to_int32 (ne a ! 1)) (to_int32 (ne b ! 0)) (data a))))
     else if ty a = NE_TYPE_F16 \<and> ty b = NE_TYPE_F32 then
       ret (nt, Some (wrap64 (NE_TYPE_SIZE NE_TYPE_F16 * to_size (ne_nelements b))))
     else if ty a = NE_TYPE_F32 \<and> ty b = NE_TYPE_F32 then ret (nt, Some 0)
     else if ne_is_quantized (ty a) \<and> ty b = NE_TYPE_F32 then
       (let type_q = vec_dot_type (ty a) in
        sbind (liftR (udiv (wrap64 (NE_TYPE_SIZE type_q * to_size (ne_nelements b))) (NE_BLCK_SIZE type_q)))
          (\<lambda>cur. ret (nt, Some cur)))
     else fail NE_Assert))"

definition plan_ffn :: "bestla_ws \<Rightarrow> ne_tensor \<Rightarrow> node_plan neop" where
  "plan_ffn bw t =
     sbind (get_t (src0 t)) (\<lambda>x.
     sbind (get_t (src1 t)) (\<lambda>w1.
     sbind (get_t (opt t ! 0)) (\<lambda>w2.
     ret (1, Some (wrap64 (ws_ffn bw (to_int32 (ne x ! 1)) (to_int32 (ne x ! 0)) (to_int32 (ne w1 ! 1))
                             (to_int32 (ne w2 ! 1)) (data w1) (data w2)))))))"

definition plan_qkv :: "bestla_ws \<Rightarrow> ne_tensor \<Rightarrow> node_plan neop" where
  "plan_qkv bw t =
     sbind (get_t (src0 t)) (\<lambda>x.
     sbind (get_t (src1 t)) (\<lambda>w.
     ret (1, Some (wrap64 (ws_qkv bw (to_int32 (ne x ! 1)) (to_int32 (ne w ! 1)) (to_int32 (ne w ! 0)) (data w))))))"

definition plan_mask :: "int \<Rightarrow> ne_tensor \<Rightarrow> node_plan neop" where
  "plan_mask nt t = (if ty t = NE_TYPE_BTLA then ret (1, Some 0) else plan_rows nt t)"

definition plan_soft_max :: "int \<Rightarrow> ne_tensor \<Rightarrow> node_plan neop" where
  "plan_soft_max nt t = sbind (get_t (src0 t)) (\<lambda>a.
     ret (if 1 < to_size (ne_nrows a) then nt else 1, Some 0))"

text \<open>The element count of the two packed operands of a 1-d convolution.\<close>

definition conv_elems :: "ne_tensor \<Rightarrow> ne_tensor \<Rightarrow> int res" where
  "conv_elems a b = (let nk = to_int32 (ne a ! 0) in
     rbind (cdiv nk 2) (\<lambda>h.
       Inr (nk * ne_up32 (to_int32 (ne a ! 1)) * ne a ! 2 + (2 * h + ne b ! 0) * ne b ! 1)))"

definition plan_conv :: "int \<Rightarrow> ne_tensor \<Rightarrow> node_plan neop" where
  "plan_conv nt t =
     sbind (get_t (src0 t)) (\<lambda>a.
     sseq (ne_assert (ne a ! 3 = 1))
    (sbind (get_t (src1 t)) (\<lambda>b.
     sseq (ne_assert (ne b ! 2 = 1))
    (sseq (ne_assert (ne b ! 3 = 1))
    (if (ty a = NE_TYPE_F16 \<or> ty a = NE_TYPE_F32) \<and> ty b = NE_TYPE_F32 then
       sbind (liftR (conv_elems a b)) (\<lambda>n. ret (nt, Some (wrap64 (NE_TYPE_SIZE (ty a) * to_size n))))
     else fail NE_Assert)))))"

definition plan_flash_ff :: "int \<Rightarrow> ne_tensor \<Rightarrow> node_plan neop" where
  "plan_flash_ff nt t = sbind (get_t (src1 t)) (\<lambda>b.
     ret (nt, Some (if ty b = NE_TYPE_F32 \<or> ty b = NE_TYPE_F16
                    then wrap64 (f32_rows (ne b ! 1) nt + f32_rows (ne b ! 1) nt) else 0)))"

definition row_ops :: "ne_op list" where
  "row_ops = [NE_OP_SUB, NE_OP_DIV, NE_OP_SQR, NE_OP_SQRT, NE_OP_LOG, NE_OP_SUM, NE_OP_SUM_ROWS, NE_OP_MEAN,
     NE_OP_ABS, NE_OP_SGN, NE_OP_NEG, NE_OP_STEP, NE_OP_MUL, NE_OP_RELU]"

definition single_ops :: "ne_op list" where
  "single_ops = [NE_OP_SCALE, NE_OP_SET, NE_OP_CONT, NE_OP_RESHAPE, NE_OP_VIEW, NE_OP_PERMUTE,
     NE_OP_TRANSPOSE, NE_OP_GET_ROWS, NE_OP_GET_ROWS_BACK, NE_OP_REPEAT, NE_OP_DIAG, NE_OP_DIAG_MASK_ZERO,
     NE_OP_ALIBI, NE_OP_CLAMP, NE_OP_MAP_UNARY, NE_OP_MAP_BINARY, NE_OP_NONE, NE_OP_SPLIT,
     NE_OP_ALL_REDUCE, NE_OP_TP_CONCAT, NE_OP_DEBUG, NE_OP_DUMP_TENSOR]"

text \<open>The switch on the operation.\<close>

definition plan_node :: "bestla_ws \<Rightarrow> int \<Rightarrow> ne_tensor \<Rightarrow> node_plan neop" where
  "plan_node bw nt t =
     (let o1 = op t in
      if o1 \<in> {NE_OP_CPY, NE_OP_DUP} then plan_copy nt t
      else if o1 \<in> {NE_OP_ADD, NE_OP_ADD1} then plan_add nt t
      else if o1 = NE_OP_ACC then plan_acc nt t
      else if o1 \<in> set row_ops then plan_rows nt t
      else if o1 \<in> {NE_OP_NORM, NE_OP_RMS_NORM} then plan_norm nt t
      else if o1 \<in> {NE_OP_GELU, NE_OP_SILU, NE_OP_SILU_BACK, NE_OP_RMS_NORM_BACK, NE_OP_ROPE_BACK} then ret (nt, Some 0)
      else if o1 \<in> {NE_OP_MUL_MAT_BIAS, NE_OP_CONV_1D, NE_OP_MUL_MAT} then plan_mul_mat bw nt t
      else if o1 \<in> {NE_OP_MUL_FFN_SILU, NE_OP_MUL_FFN_GELU, NE_OP_MUL_FFN_ADD_GELU} then plan_ffn bw t
      else if o1 = NE_OP_MUL_QKV then plan_qkv bw t
      else if o1 \<in> {NE_OP_DIAG_MASK_INF, NE_OP_PADDING_MASK_INF, NE_OP_ROPE} then plan_mask nt t
      else if o1 = NE_OP_SOFT_MAX then plan_soft_max nt t
      else if o1 \<in> {NE_OP_CONV_1D_1S, NE_OP_CONV_1D_2S} then plan_conv nt t
      else if o1 \<in> {NE_OP_FLASH_ATTN_KV_UPDATE, NE_OP_FLASH_ATTN} then ret (1, None)
      else if o1 = NE_OP_FLASH_FF then plan_flash_ff nt t
      else if o1 \<in> set single_ops then ret (1, Some 0)
      else fail NE_Assert)"

section \<open>Planning a graph\<close>

fun plan_nodes :: "bestla_ws \<Rightarrow> int \<Rightarrow> ptr list \<Rightarrow> nat \<Rightarrow> nat neop" where
  "plan_nodes bw nt [] w = ret w"
| "plan_nodes bw nt (p # ps) w =
     sbind (get_t p) (\<lambda>t.
     sbind (plan_node bw nt t) (\<lambda>(tasks, cur).
     sseq (upd_t p (\<lambda>t. t\<lparr>n_tasks := tasks\<rparr>))
       (plan_nodes bw nt ps (case cur of None \<Rightarrow> 0 | Some c \<Rightarrow> max w c))))"

text \<open>
  \<open>nt\<close> is the number of threads after \<^verbatim>\<open>bestla_set_threads\<close>. A work buffer from an earlier
  run is kept if it is large enough.
\<close>

definition plan_graph :: "bestla_ws \<Rightarrow> int \<Rightarrow> ne_cgraph \<Rightarrow> ne_cgraph neop" where
  "plan_graph bw nt g =
     sbind (plan_nodes bw nt (nodes g) 0) (\<lambda>ws.
     sseq (ne_assert (\<not> (work g \<noteq> NULL \<and> work_size g < ws)))
    (if 0 < ws \<and> work g = NULL then
       (let total = wrap64 (ws + to_size (int CACHE_LINE_SIZE * (nt - 1))) in
        sbind (ne_new_tensor_1d NE_TYPE_I8 (size_to_i64 total) NE_SIZE_CALC) (\<lambda>w.
        ret (g\<lparr>work_size := total, work := w\<rparr>)))
     else ret g))"

section \<open>Running a node\<close>

record ne_compute_params =
  task :: ne_task_type
  ith :: int
  nth :: int
  wsize :: nat
  wdata :: ptr

text \<open>
  The calls of \<^verbatim>\<open>ne_compute_forward\<close> for one node, in the OpenMP build: a list of phases that
  run one after the other, separated by the start, the barrier and the end of the parallel
  region; the calls of a phase run concurrently. \<open>team\<close> is the number of threads of the
  parallel region.
\<close>

definition node_calls :: "nat \<Rightarrow> nat \<Rightarrow> ptr \<Rightarrow> ne_tensor \<Rightarrow> ne_compute_params list list" where
  "node_calls team wsz wdat t =
     (let call = (\<lambda>k i. \<lparr>task = k, ith = i, nth = n_tasks t, wsize = wsz, wdata = wdat\<rparr>);
          team_calls = (\<lambda>k. map (\<lambda>i. call k (int i)) (filter (\<lambda>i. int i < n_tasks t) [0..<team])) in
      [call NE_TASK_INIT 0] #
      (if n_tasks t = 1 then [[call NE_TASK_COMPUTE 0], [call NE_TASK_FINALIZE 0]]
       else [team_calls NE_TASK_COMPUTE, team_calls NE_TASK_FINALIZE]))"

text \<open>
  The rows that a kernel gives to one task (\<^verbatim>\<open>dr\<close>, \<^verbatim>\<open>ir0\<close>, \<^verbatim>\<open>ir1\<close> in the kernels), and the
  part of the work buffer in which it unpacks a quantized row, as byte offsets.
\<close>

definition task_rows :: "int \<Rightarrow> int \<Rightarrow> int \<Rightarrow> int set" where
  "task_rows nr nt i = (let dr = (nr + nt - 1) div nt in {dr * i ..< min (dr * i + dr) nr})"

definition row_slice :: "nat \<Rightarrow> nat \<Rightarrow> nat set" where
  "row_slice n i = {4 * ((n + CACHE_LINE_SIZE_F32) * i) ..< 4 * ((n + CACHE_LINE_SIZE_F32) * i) + 4 * n}"

section \<open>The plan of a graph\<close>

text \<open>Two heaps that differ at most in the task counts, which planning writes and does not read.\<close>

definition untasked :: "ne_state \<Rightarrow> ne_state" where
  "untasked s = s\<lparr>tensors := (\<lambda>q. map_option (n_tasks_update (\<lambda>_. 0)) (tensors s q))\<rparr>"

lemma untasked_upd [simp]: "untasked (s\<lparr>tensors := (tensors s)(p \<mapsto> t\<lparr>n_tasks := k\<rparr>)\<rparr>) =
    untasked (s\<lparr>tensors := (tensors s)(p \<mapsto> t)\<rparr>)"
  by (simp add: untasked_def fun_upd_def fun_eq_iff)

lemma untasked_get:
  assumes "untasked s' = untasked s" "tensors s p = Some t"
  shows "\<exists>k. tensors s' p = Some (t\<lparr>n_tasks := k\<rparr>)"
proof -
  have "map_option (n_tasks_update (\<lambda>_. 0)) (tensors s' p) = Some (t\<lparr>n_tasks := 0\<rparr>)"
    using arg_cong [OF assms(1), of "\<lambda>s. tensors s p"] assms(2) by (simp add: untasked_def)
  then obtain t' where t': "tensors s' p = Some t'" "t'\<lparr>n_tasks := 0\<rparr> = t\<lparr>n_tasks := 0\<rparr>" by auto
  have "t' = t'\<lparr>n_tasks := 0, n_tasks := n_tasks t'\<rparr>" by simp
  also have "\<dots> = t\<lparr>n_tasks := n_tasks t'\<rparr>" unfolding t'(2) by simp
  finally show ?thesis using t'(1) by auto
qed

lemmas plan_defs = plan_copy_def plan_add_def plan_acc_def plan_rows_def plan_norm_def plan_mul_mat_def
  plan_ffn_def plan_qkv_def plan_mask_def plan_soft_max_def plan_conv_def plan_flash_ff_def

text \<open>A step of a plan only reads: the same result on a heap with other task counts.\<close>

definition reads :: "node_plan neop \<Rightarrow> ne_state \<Rightarrow> ne_state \<Rightarrow> node_plan neop \<Rightarrow> bool" where
  "reads m s s' m' \<longleftrightarrow> (\<forall>x s1. m s = Inr (x, s1) \<longrightarrow> s1 = s \<and> m' s' = Inr (x, s'))"

lemma reads_get:
  assumes "untasked s' = untasked s"
    and "\<And>a k. tensors s p = Some a \<Longrightarrow> tensors s' p = Some (a\<lparr>n_tasks := k\<rparr>) \<Longrightarrow> reads (f a) s s' (f' (a\<lparr>n_tasks := k\<rparr>))"
  shows "reads (sbind (get_t p) f) s s' (sbind (get_t p) f')"
  unfolding reads_def
proof (intro allI impI)
  fix x s1 assume r: "sbind (get_t p) f s = Inr (x, s1)"
  then obtain a where a: "tensors s p = Some a" "f a s = Inr (x, s1)"
    by (auto simp: sbind_Inr_iff get_t_def split: option.splits)
  with untasked_get [OF assms(1)] obtain k where k: "tensors s' p = Some (a\<lparr>n_tasks := k\<rparr>)" by blast
  from assms(2) [OF a(1) k] a(2) k show "s1 = s \<and> sbind (get_t p) f' s' = Inr (x, s')"
    by (simp add: reads_def get_t_def)
qed

lemma reads_lift: "(\<And>y. r = Inr y \<Longrightarrow> reads (f y) s s' (f' y)) \<Longrightarrow> reads (sbind (liftR r) f) s s' (sbind (liftR r) f')"
  by (cases r) (auto simp: reads_def)

lemma reads_assert: "reads m s s' m' \<Longrightarrow> reads (sseq (ne_assert b) m) s s' (sseq (ne_assert b) m')"
  by (cases b) (auto simp: reads_def)

lemma reads_ret: "reads (ret x) s s' (ret x)"
  by (simp add: reads_def)

lemma reads_fail: "reads (fail e) s s' m"
  by (simp add: reads_def)

lemma reads_if: "(b \<Longrightarrow> reads m s s' m') \<Longrightarrow> (\<not> b \<Longrightarrow> reads n s s' n') \<Longrightarrow>
    reads (if b then m else n) s s' (if b then m' else n')"
  by simp

lemmas reads_rules = reads_if reads_get reads_lift reads_assert reads_ret reads_fail

lemma header_n_tasks:
  "ne_nelements (t\<lparr>n_tasks := k\<rparr>) = ne_nelements t" "ne_nrows (t\<lparr>n_tasks := k\<rparr>) = ne_nrows t"
  "ne_is_contiguous (t\<lparr>n_tasks := k\<rparr>) = ne_is_contiguous t" "row_tasks nt (t\<lparr>n_tasks := k\<rparr>) = row_tasks nt t"
  "conv_elems (t\<lparr>n_tasks := k\<rparr>) b = conv_elems t b" "conv_elems a (t\<lparr>n_tasks := k\<rparr>) = conv_elems a t"
  by (simp_all add: ne_nelements_def ne_nrows_def ne_is_contiguous_def row_tasks_def conv_elems_def)

lemma plan_n_tasks:
  "plan_copy nt (t\<lparr>n_tasks := k\<rparr>) = plan_copy nt t" "plan_add nt (t\<lparr>n_tasks := k\<rparr>) = plan_add nt t"
  "plan_acc nt (t\<lparr>n_tasks := k\<rparr>) = plan_acc nt t" "plan_rows nt (t\<lparr>n_tasks := k\<rparr>) = plan_rows nt t"
  "plan_norm nt (t\<lparr>n_tasks := k\<rparr>) = plan_norm nt t" "plan_mul_mat bw nt (t\<lparr>n_tasks := k\<rparr>) = plan_mul_mat bw nt t"
  "plan_ffn bw (t\<lparr>n_tasks := k\<rparr>) = plan_ffn bw t" "plan_qkv bw (t\<lparr>n_tasks := k\<rparr>) = plan_qkv bw t"
  "plan_mask nt (t\<lparr>n_tasks := k\<rparr>) = plan_mask nt t" "plan_soft_max nt (t\<lparr>n_tasks := k\<rparr>) = plan_soft_max nt t"
  "plan_conv nt (t\<lparr>n_tasks := k\<rparr>) = plan_conv nt t" "plan_flash_ff nt (t\<lparr>n_tasks := k\<rparr>) = plan_flash_ff nt t"
  "op (t\<lparr>n_tasks := k\<rparr>) = op t"
  by (simp_all add: plan_defs Let_def cong: if_cong)

lemma plan_node_n_tasks: "plan_node bw nt (t\<lparr>n_tasks := k\<rparr>) = plan_node bw nt t"
  unfolding plan_node_def plan_n_tasks ..

lemma plan_reads:
  assumes u: "untasked s' = untasked s"
  shows "reads (plan_copy nt t) s s' (plan_copy nt t)" "reads (plan_add nt t) s s' (plan_add nt t)"
    "reads (plan_acc nt t) s s' (plan_acc nt t)" "reads (plan_rows nt t) s s' (plan_rows nt t)"
    "reads (plan_norm nt t) s s' (plan_norm nt t)" "reads (plan_mul_mat bw nt t) s s' (plan_mul_mat bw nt t)"
    "reads (plan_ffn bw t) s s' (plan_ffn bw t)" "reads (plan_qkv bw t) s s' (plan_qkv bw t)"
    "reads (plan_soft_max nt t) s s' (plan_soft_max nt t)" "reads (plan_conv nt t) s s' (plan_conv nt t)"
    "reads (plan_flash_ff nt t) s s' (plan_flash_ff nt t)"
  unfolding plan_defs Let_def
  by (auto intro!: reads_lift reads_if reads_assert reads_get [OF u] reads_ret reads_fail
      simp: header_n_tasks simp del: if_split)

lemma plan_node_reads: "untasked s' = untasked s \<Longrightarrow> reads (plan_node bw nt t) s s' (plan_node bw nt t)"
  unfolding plan_node_def Let_def plan_mask_def
  by (intro reads_if plan_reads reads_ret reads_fail)

text \<open>A node is cut into one task or into as many as there are threads; only attention resets the buffer size.\<close>

lemma plan_node_result:
  assumes "plan_node bw nt t s = Inr ((k, c), s1)"
  shows "s1 = s" "k = 1 \<or> k = nt" "c = None \<longleftrightarrow> op t \<in> {NE_OP_FLASH_ATTN_KV_UPDATE, NE_OP_FLASH_ATTN}"
proof -
  show "s1 = s" using plan_node_reads [OF refl, of bw nt t s] assms by (auto simp: reads_def)
  have flash: "plan_node bw nt t = ret (1, None)" if "op t \<in> {NE_OP_FLASH_ATTN_KV_UPDATE, NE_OP_FLASH_ATTN}"
    using that by (auto simp: plan_node_def row_ops_def)
  have tasks: "(k = 1 \<or> k = nt) \<and> c \<noteq> None" if "op t \<notin> {NE_OP_FLASH_ATTN_KV_UPDATE, NE_OP_FLASH_ATTN}"
    using assms that
    by (auto simp: plan_node_def plan_defs Let_def row_tasks_def op_Inr_iffs split: if_splits)
  show "k = 1 \<or> k = nt" "c = None \<longleftrightarrow> op t \<in> {NE_OP_FLASH_ATTN_KV_UPDATE, NE_OP_FLASH_ATTN}"
    by (cases "op t \<in> {NE_OP_FLASH_ATTN_KV_UPDATE, NE_OP_FLASH_ATTN}"; use flash tasks assms in simp)+
qed

definition planned :: "bestla_ws \<Rightarrow> int \<Rightarrow> ne_state \<Rightarrow> ptr \<Rightarrow> node_plan \<Rightarrow> bool" where
  "planned bw nt s p pl \<longleftrightarrow> (\<exists>t. tensors s p = Some t \<and> plan_node bw nt t s = Inr (pl, s))"

lemma planned_untasked:
  assumes "untasked s' = untasked s" "planned bw nt s p pl"
  shows "planned bw nt s' p pl"
proof -
  obtain t where t: "tensors s p = Some t" "plan_node bw nt t s = Inr (pl, s)" using assms(2) by (auto simp: planned_def)
  obtain k where "tensors s' p = Some (t\<lparr>n_tasks := k\<rparr>)" using untasked_get [OF assms(1) t(1)] by blast
  moreover have "plan_node bw nt (t\<lparr>n_tasks := k\<rparr>) s' = Inr (pl, s')"
    using plan_node_reads [OF assms(1), of bw nt t] t(2) by (simp add: reads_def plan_node_n_tasks)
  ultimately show ?thesis by (auto simp: planned_def)
qed

lemma plan_nodes_append:
  "plan_nodes bw nt (ps @ qs) w s = sbind (plan_nodes bw nt ps w) (plan_nodes bw nt qs) s"
  by (induction ps arbitrary: w s) (simp_all add: sbind_def sseq_def split: sum.split prod.split)

text \<open>The running maximum of the buffer sizes.\<close>

definition work_step :: "node_plan \<Rightarrow> nat \<Rightarrow> nat" where
  "work_step pl w = (case snd pl of None \<Rightarrow> 0 | Some c \<Rightarrow> max w c)"

text \<open>
  Planning the nodes of a graph: each node's plan is the one the original heap gives it, the
  buffer size is folded over the plans, and nothing but task counts changes.
\<close>

lemma plan_nodes_plans:
  assumes "plan_nodes bw nt ps w s = Inr (w', s')"
  shows "\<exists>plans. list_all2 (planned bw nt s) ps plans \<and> w' = fold work_step plans w \<and> untasked s' = untasked s \<and>
    (\<forall>p \<in> set ps. \<exists>t. tensors s' p = Some t \<and> n_tasks t \<in> {1, nt}) \<and>
    (\<forall>q. q \<notin> set ps \<longrightarrow> tensors s' q = tensors s q)"
  using assms
proof (induction ps arbitrary: w s)
  case Nil
  then show ?case by auto
next
  case (Cons p ps)
  then obtain t pl where t: "tensors s p = Some t" and pl: "plan_node bw nt t s = Inr (pl, s)"
    and rest: "plan_nodes bw nt ps (work_step pl w) (s\<lparr>tensors := (tensors s)(p \<mapsto> t\<lparr>n_tasks := fst pl\<rparr>)\<rparr>) = Inr (w', s')"
    using plan_node_result(1)
    by (fastforce simp: op_Inr_iffs get_t_def upd_t_def work_step_def split: option.splits)
  let ?s = "s\<lparr>tensors := (tensors s)(p \<mapsto> t\<lparr>n_tasks := fst pl\<rparr>)\<rparr>"
  have "(tensors s)(p \<mapsto> t) = tensors s" using t by auto
  then have u: "untasked ?s = untasked s" by simp
  from Cons.IH [OF rest] obtain plans where plans: "list_all2 (planned bw nt ?s) ps plans"
    "w' = fold work_step plans (work_step pl w)" "untasked s' = untasked ?s"
    "\<forall>p \<in> set ps. \<exists>t. tensors s' p = Some t \<and> n_tasks t \<in> {1, nt}"
    "\<forall>q. q \<notin> set ps \<longrightarrow> tensors s' q = tensors ?s q" by blast
  have "list_all2 (planned bw nt s) (p # ps) (pl # plans)"
    using plans(1) t pl planned_untasked [OF u [symmetric]] by (auto simp: planned_def elim: list_all2_mono)
  moreover have "\<exists>u. tensors s' p = Some u \<and> n_tasks u \<in> {1, nt}"
    using plans(4,5) plan_node_result(2) [of bw nt t s "fst pl" "snd pl" s] pl by (cases "p \<in> set ps") auto
  ultimately show ?case using plans u by (intro exI [of _ "pl # plans"]) auto
qed

lemma fold_work:
  assumes "\<forall>pl \<in> set plans. \<exists>c. snd pl = Some c \<and> c < B" "w < B"
  shows "fold work_step plans w < B \<and> w \<le> fold work_step plans w \<and>
    (\<forall>(k, c) \<in> set plans. the c \<le> fold work_step plans w)"
  using assms
proof (induction plans arbitrary: w)
  case (Cons pl plans)
  then obtain c where c: "snd pl = Some c" "c < B" by auto
  with Cons.IH [of "max w c"] Cons.prems show ?case by (auto simp: work_step_def)
qed simp

lemma f32_rows_exact: "0 \<le> n \<Longrightarrow> n < 2 ^ 40 \<Longrightarrow> 0 \<le> nt \<Longrightarrow> nt < 2 ^ 20 \<Longrightarrow> f32_rows n nt = 4 * nat n * nat nt"
proof -
  assume n: "0 \<le> n" "n < 2 ^ 40" and nt: "0 \<le> nt" "nt < 2 ^ 20"
  have "nat n < 2 ^ 40" "nat nt < 2 ^ 20" using n nt by (simp_all add: nat_less_iff)
  moreover from this have "nat n * nat nt < 2 ^ 40 * 2 ^ 20" by (rule mult_strict_mono) auto
  ultimately show ?thesis using n nt by (simp add: f32_rows_def to_size_nonneg)
qed

text \<open>The buffer that the planner asks for: the largest request and a cache line for each further thread.\<close>

lemma plan_graph_work:
  assumes run: "plan_graph bw nt g s = Inr (g', s')" and new: "work g = NULL" and nt: "1 \<le> nt" "nt < 2 ^ 20"
    and flash: "\<forall>p \<in> set (nodes g). \<forall>t. tensors s p = Some t \<longrightarrow> op t \<notin> {NE_OP_FLASH_ATTN_KV_UPDATE, NE_OP_FLASH_ATTN}"
    and small: "\<forall>p \<in> set (nodes g). \<forall>k c. planned bw nt s p (k, Some c) \<longrightarrow> c < 2 ^ 63"
    and p: "p \<in> set (nodes g)" and pl: "planned bw nt s p (k, Some c)" and c: "0 < c"
  shows "c + CACHE_LINE_SIZE * (nat nt - 1) \<le> work_size g'"
proof -
  from run obtain ws s1 where ws: "plan_nodes bw nt (nodes g) 0 s = Inr (ws, s1)"
    by (auto simp: plan_graph_def op_Inr_iffs)
  from plan_nodes_plans [OF ws] obtain plans where
    plans: "list_all2 (planned bw nt s) (nodes g) plans" "ws = fold work_step plans 0" by blast
  have all: "\<exists>c. snd q = Some c \<and> c < 2 ^ 63" if q: "q \<in> set plans" for q
  proof -
    obtain i where i: "i < length plans" "q = plans ! i" using q by (auto simp: in_set_conv_nth)
    with plans(1) have m: "nodes g ! i \<in> set (nodes g)" "planned bw nt s (nodes g ! i) (fst q, snd q)"
      by (auto simp: list_all2_conv_all_nth)
    with flash plan_node_result(3) [of bw nt _ s "fst q" "snd q"] obtain c where "snd q = Some c"
      by (fastforce simp: planned_def)
    with small m show ?thesis by auto
  qed
  obtain i where i: "i < length (nodes g)" "nodes g ! i = p" using p by (auto simp: in_set_conv_nth)
  then have "planned bw nt s p (plans ! i)" "plans ! i \<in> set plans" using plans(1) by (auto simp: list_all2_conv_all_nth)
  then have "(k, Some c) \<in> set plans" using pl by (auto simp: planned_def)
  then have w: "c \<le> ws" "ws < 2 ^ 63" using fold_work [of plans "2 ^ 63" 0] all plans(2) by fastforce+
  have nt': "to_size (int CACHE_LINE_SIZE * (nt - 1)) = CACHE_LINE_SIZE * (nat nt - 1)"
    using nt by (subst to_size_nonneg) (simp_all add: CACHE_LINE_SIZE_def nat_mult_distrib nat_diff_distrib)
  have "CACHE_LINE_SIZE * (nat nt - 1) < 2 ^ 62" using nt by (simp add: CACHE_LINE_SIZE_def nat_less_iff)
  then have "work_size g' = ws + CACHE_LINE_SIZE * (nat nt - 1)"
    using run ws new w c nt' by (auto simp: plan_graph_def op_Inr_iffs Let_def)
  with w show ?thesis by simp
qed

section \<open>Slices\<close>

lemma row_slice_disjoint: "i \<noteq> j \<Longrightarrow> row_slice n i \<inter> row_slice n j = {}"
proof -
  have "row_slice n i \<inter> row_slice n j = {}" if "i < j" for i j
  proof -
    have "(n + CACHE_LINE_SIZE_F32) * i + n \<le> (n + CACHE_LINE_SIZE_F32) * Suc i" by simp
    also have "\<dots> \<le> (n + CACHE_LINE_SIZE_F32) * j" using that by (intro mult_le_mono2) simp
    finally show ?thesis by (auto simp: row_slice_def)
  qed
  then show "i \<noteq> j \<Longrightarrow> row_slice n i \<inter> row_slice n j = {}" by (metis Int_commute nat_neq_iff)
qed

lemma row_slice_bound:
  assumes "i < m"
  shows "row_slice n i \<subseteq> {0 ..< 4 * n * m + CACHE_LINE_SIZE * (m - 1)}"
proof -
  have "(n + 16) * i \<le> (n + 16) * (m - 1)" using assms by (intro mult_le_mono2) simp
  then have "4 * ((n + 16) * i) + 4 * n \<le> 4 * ((n + 16) * (m - 1)) + 4 * n" by simp
  also have "\<dots> = 4 * n * m + 64 * (m - 1)" using assms by (cases m) (auto simp: algebra_simps)
  finally show ?thesis by (auto simp: row_slice_def CACHE_LINE_SIZE_F32_def CACHE_LINE_SIZE_def)
qed

lemma planned_add:
  assumes "tensors s p = Some t" "op t \<in> {NE_OP_ADD, NE_OP_ADD1}" "tensors s (src0 t) = Some a" "ne_is_quantized (ty a)"
  shows "planned bw nt s p (row_tasks nt a, Some (f32_rows (ne a ! 0) nt))"
  using assms by (auto simp: planned_def plan_node_def plan_add_def get_t_def)

text \<open>A heap with a quantized matrix at 16, a float matrix at 32, their sum at 48 and attention at 64.\<close>

definition demo_plan_t :: "ptr \<Rightarrow> ne_tensor option" where
  "demo_plan_t p =
     (if p = 16 then Some (init_tensor NE_TYPE_Q8_0 2 [32, 8, 1, 1] [34, 34, 272, 272] 70000 0)
      else if p = 32 then Some (init_tensor NE_TYPE_F32 2 [32, 8, 1, 1] [4, 128, 1024, 1024] 80000 0)
      else if p = 48 then Some ((init_tensor NE_TYPE_Q8_0 2 [32, 8, 1, 1] [34, 34, 272, 272] 90000 0)
                                 \<lparr>op := NE_OP_ADD, src0 := 16, src1 := 32\<rparr>)
      else if p = 64 then Some ((init_tensor NE_TYPE_F32 2 [32, 8, 1, 1] [4, 128, 1024, 1024] 95000 0)
                                 \<lparr>op := NE_OP_FLASH_ATTN, src0 := 48\<rparr>)
      else None)"

definition demo_plan :: ne_state where
  "demo_plan = demo_state\<lparr>tensors := demo_plan_t\<rparr>"

definition demo_bw :: bestla_ws where
  "demo_bw = \<lparr>ws_f32f32 = (\<lambda>_ _ _ _. 0), ws_ffn = (\<lambda>_ _ _ _ _ _. 0), ws_qkv = (\<lambda>_ _ _ _. 0)\<rparr>"

lemma demo_plan_t_simps [simp]:
  "demo_plan_t 16 = Some (init_tensor NE_TYPE_Q8_0 2 [32, 8, 1, 1] [34, 34, 272, 272] 70000 0)"
  "demo_plan_t 48 = Some ((init_tensor NE_TYPE_Q8_0 2 [32, 8, 1, 1] [34, 34, 272, 272] 90000 0)
                                 \<lparr>op := NE_OP_ADD, src0 := 16, src1 := 32\<rparr>)"
  "demo_plan_t 64 = Some ((init_tensor NE_TYPE_F32 2 [32, 8, 1, 1] [4, 128, 1024, 1024] 95000 0)
                                 \<lparr>op := NE_OP_FLASH_ATTN, src0 := 48\<rparr>)"
  by (simp_all add: demo_plan_t_def)

lemma demo_plan_tensors [simp]: "tensors demo_plan = demo_plan_t" "ctx demo_plan = demo_ctx"
  by (simp_all add: demo_plan_def demo_state_def)

lemma demo_f32_rows: "f32_rows 32 2 = 256"
  by (simp add: f32_rows_exact)

lemma demo_planned: "planned demo_bw 2 demo_plan 48 (2, Some 256)"
  using planned_add [of demo_plan 48 "the (demo_plan_t 48)" "the (demo_plan_t 16)" demo_bw 2] by (simp add: init_tensor_def row_tasks_def ne_is_quantized_def demo_f32_rows)

lemma demo_plan_nodes: "\<exists>s'. plan_nodes demo_bw 2 [48] 0 demo_plan = Inr (256, s') \<and> untasked s' = untasked demo_plan
    \<and> ctx s' = demo_ctx \<and> dom (tensors s') = dom demo_plan_t"
proof -
  from demo_planned have "plan_node demo_bw 2 (the (demo_plan_t 48)) demo_plan = Inr ((2, Some 256), demo_plan)"
    by (auto simp: planned_def)
  moreover obtain t where t: "demo_plan_t 48 = Some t" by simp
  moreover have "demo_plan_t(48 \<mapsto> t) = demo_plan_t" using t by auto
  ultimately show ?thesis
    by (simp add: sbind_def get_t_def upd_t_def sseq_def del: demo_plan_t_simps)
      (auto simp: demo_plan_def demo_state_def untasked_def fun_eq_iff)
qed

lemma demo_plan_graph: "\<exists>g' s'. plan_graph demo_bw 2 (empty_graph\<lparr>nodes := [48]\<rparr>) demo_plan = Inr (g', s')"
proof -
  obtain s' where s': "plan_nodes demo_bw 2 [48] 0 demo_plan = Inr (256, s')" "ctx s' = demo_ctx"
    "dom (tensors s') = dom demo_plan_t" using demo_plan_nodes by blast
  have "p < 4096" if "p \<in> dom (tensors s')" for p
    using that unfolding s'(3) by (auto simp: demo_plan_t_def split: if_splits)
  then have rel: "pool_rel [] s'" using s'(2) by (force simp: pool_rel_def demo_ctx_def)
  have sc: "s_data (scratch (ctx s')) = NULL \<or> NULL \<noteq> NULL" by (simp add: s'(2) demo_ctx_def scratch0_def)
  have req: "request_size (ctx s') NE_TYPE_I8 1 [320] NULL NE_SIZE_CALC = Inr 320"
    by (simp add: s'(2) request_size_def demo_ctx_def data_size_needed_def data_size_raw_def cdiv_def
        to_size_def wrap64_def NE_MEM_ALIGN_def)
  have nb: "new_nb NE_TYPE_I8 (new_ne 1 [320]) = Inr [1, 320, 320, 320]"
    by (simp add: new_nb_def new_ne_def upt_rec cdiv_def to_size_def wrap64_def)
  have "\<exists>w s''. ne_new_tensor_1d NE_TYPE_I8 320 NE_SIZE_CALC s' = Inr (w, s'')"
    using new_tensor_pool [OF rel sc req _ _ nb]
    by (simp add: ne_new_tensor_1d_def ne_new_tensor_def split: if_splits)
  then show ?thesis using s'(1)
    by (auto simp: plan_graph_def empty_graph_def CACHE_LINE_SIZE_def to_size_def size_to_i64_def)
qed

section \<open>Properties\<close>

text \<open>
  C22. Planning gives every node of the graph one task or exactly one per thread, and changes
  nothing of the heap but the task counts.
\<close>

theorem plan_task_counts:
  assumes "plan_nodes bw nt ps w s = Inr (w', s')"
  shows "untasked s' = untasked s \<and> (\<forall>p. p \<in> set ps \<longrightarrow> (\<exists>t. tensors s' p = Some t \<and> (n_tasks t = 1 \<or> n_tasks t = nt)))"
  using plan_nodes_plans [OF assms] by blast

theorem plan_task_counts_witness:
  "\<exists>s' t. plan_nodes demo_bw 2 [48] 0 demo_plan = Inr (256, s') \<and> untasked s' = untasked demo_plan \<and>
     tensors s' 48 = Some t \<and> (n_tasks t = 1 \<or> n_tasks t = 2)"
  using demo_plan_nodes plan_task_counts [of demo_bw 2 "[48]" 0 demo_plan 256] by fastforce

text \<open>
  C13. The work buffer is large enough for quantized additions: for every addition node of a
  graph without attention, the buffer slices in which the tasks unpack their rows lie inside
  the planned buffer, and the slices of different tasks do not overlap.
\<close>

theorem quantized_add_slices_fit:
  assumes "plan_graph bw nt g s = Inr (g', s')" "work g = NULL" "1 \<le> nt" "nt < 2 ^ 20"
    and "\<forall>q \<in> set (nodes g). \<forall>t. tensors s q = Some t \<longrightarrow> op t \<notin> {NE_OP_FLASH_ATTN_KV_UPDATE, NE_OP_FLASH_ATTN}"
    and "\<forall>q \<in> set (nodes g). \<forall>k c. planned bw nt s q (k, Some c) \<longrightarrow> c < 2 ^ 63"
    and "p \<in> set (nodes g)" "tensors s p = Some t" "op t \<in> {NE_OP_ADD, NE_OP_ADD1}"
    and "tensors s (src0 t) = Some a" "ne_is_quantized (ty a)" "0 < ne a ! 0" "ne a ! 0 < 2 ^ 40"
    and "i < nat nt" "j < nat nt" "i \<noteq> j"
  shows "row_slice (nat (ne a ! 0)) i \<subseteq> {0 ..< work_size g'} \<and>
         row_slice (nat (ne a ! 0)) i \<inter> row_slice (nat (ne a ! 0)) j = {}"
proof -
  have f: "f32_rows (ne a ! 0) nt = 4 * nat (ne a ! 0) * nat nt" using assms(3,4,12,13) by (intro f32_rows_exact) auto
  have "4 * nat (ne a ! 0) * nat nt + CACHE_LINE_SIZE * (nat nt - 1) \<le> work_size g'"
    using plan_graph_work [OF assms(1-7) planned_add [OF assms(8-11)]] f assms(3,12) by simp
  with row_slice_bound [OF assms(14), of "nat (ne a ! 0)"] row_slice_disjoint [OF assms(16)] show ?thesis by fastforce
qed

theorem quantized_add_slices_fit_witness:
  "\<exists>g' s'. plan_graph demo_bw 2 (empty_graph\<lparr>nodes := [48]\<rparr>) demo_plan = Inr (g', s') \<and>
     row_slice 32 1 \<subseteq> {0 ..< work_size g'} \<and> row_slice 32 1 \<inter> row_slice 32 0 = {}"
proof -
  let ?g = "empty_graph\<lparr>nodes := [48]\<rparr>"
  obtain g' s' where r: "plan_graph demo_bw 2 ?g demo_plan = Inr (g', s')" using demo_plan_graph by blast
  have g: "nodes ?g = [48]" "work ?g = NULL" by (simp_all add: empty_graph_def)
  have small: "\<forall>q \<in> set (nodes ?g). \<forall>k c. planned demo_bw 2 demo_plan q (k, Some c) \<longrightarrow> c < 2 ^ 63"
    using demo_planned by (auto simp: g planned_def)
  show ?thesis
    using quantized_add_slices_fit [OF r g(2) _ _ _ small, of 48 "the (demo_plan_t 48)" "the (demo_plan_t 16)" 1 0] r
    by (simp add: g init_tensor_def ne_is_quantized_def)
qed

text \<open>
  C23. An attention node at the end of a graph discards the buffer size collected so far: the
  planned size is zero whatever the other nodes need.
\<close>

theorem flash_attn_discards_work:
  assumes "plan_nodes bw nt (ps @ [p]) w s = Inr (w', s')" "tensors s p = Some t"
    and "op t = NE_OP_FLASH_ATTN \<or> op t = NE_OP_FLASH_ATTN_KV_UPDATE"
  shows "w' = 0"
proof -
  from plan_nodes_plans [OF assms(1)] obtain plans where
    l: "list_all2 (planned bw nt s) (ps @ [p]) plans" "w' = fold work_step plans w" by blast
  then obtain qs pl where q: "plans = qs @ [pl]" "planned bw nt s p pl" by (auto simp: list_all2_append1 list_all2_Cons1)
  with assms(2) have "plan_node bw nt t s = Inr ((fst pl, snd pl), s)" by (auto simp: planned_def)
  from plan_node_result(3) [OF this] assms(3) l q show ?thesis by (auto simp: work_step_def)
qed

theorem flash_attn_discards_work_witness:
  "planned demo_bw 2 demo_plan 48 (2, Some 256) \<and> (\<exists>s'. plan_nodes demo_bw 2 ([48] @ [64]) 0 demo_plan = Inr (0, s'))"
proof -
  obtain s' where s': "plan_nodes demo_bw 2 [48] 0 demo_plan = Inr (256, s')" "untasked s' = untasked demo_plan"
    using demo_plan_nodes by blast
  obtain k where k: "tensors s' 64 = Some ((the (demo_plan_t 64))\<lparr>n_tasks := k\<rparr>)"
    using untasked_get [OF s'(2), of 64 "the (demo_plan_t 64)"] by auto
  have "\<exists>s'' v. plan_nodes demo_bw 2 ([48] @ [64]) 0 demo_plan = Inr (v, s'')"
    unfolding plan_nodes_append sbind_step(1) [where m = "plan_nodes demo_bw 2 [48] 0", OF s'(1)] using k
    by (simp add: sbind_def get_t_def upd_t_def sseq_def plan_node_def row_ops_def)
  then show ?thesis
    using demo_planned flash_attn_discards_work [of demo_bw 2 "[48]" 64 0 demo_plan _ _ "the (demo_plan_t 64)"] by fastforce
qed

text \<open>
  The row ranges that the kernels give to their tasks partition the rows: every row is
  handled by exactly one task, also when the number of rows is not a multiple of the number
  of tasks or smaller than it.
\<close>

theorem task_rows_partition:
  assumes "0 < nt" "0 \<le> nr"
  shows "(\<Union>i \<in> {0 ..< nt}. task_rows nr nt i) = {0 ..< nr} \<and>
    (i \<noteq> j \<longrightarrow> task_rows nr nt i \<inter> task_rows nr nt j = {})"
proof -
  define dr where "dr = (nr + nt - 1) div nt"
  have tr: "task_rows nr nt k = {dr * k ..< min (dr * k + dr) nr}" for k by (simp add: task_rows_def dr_def Let_def)
  have dr: "0 \<le> dr" using assms by (simp add: dr_def pos_imp_zdiv_nonneg_iff)
  have "nt * dr + (nr + nt - 1) mod nt = nr + nt - 1" unfolding dr_def by (rule mult_div_mod_eq)
  moreover have "(nr + nt - 1) mod nt < nt" using assms(1) by simp
  ultimately have ge: "nr \<le> dr * nt" by (simp add: mult.commute)
  have cover: "\<exists>k \<in> {0 ..< nt}. r \<in> task_rows nr nt k" if r: "0 \<le> r" "r < nr" for r
  proof -
    have d: "0 < dr" using ge r assms dr by (cases "dr = 0") auto
    have "dr * (r div dr) + r mod dr = r" "0 \<le> r mod dr" "r mod dr < dr" using d by simp_all
    then have "r \<in> task_rows nr nt (r div dr)" using r(2) unfolding tr atLeastLessThan_iff min_less_iff_conj by linarith
    moreover have "dr * (r div dr) < dr * nt" using r(2) ge \<open>dr * (r div dr) + r mod dr = r\<close> \<open>0 \<le> r mod dr\<close> by linarith
    then have "r div dr < nt" using d by simp
    moreover have "0 \<le> r div dr" using r(1) d by (simp add: pos_imp_zdiv_nonneg_iff)
    ultimately show ?thesis by auto
  qed
  have disj: "task_rows nr nt k \<inter> task_rows nr nt l = {}" if "k < l" for k l
  proof -
    have "dr * (k + 1) \<le> dr * l" using that dr by (intro mult_left_mono) auto
    then show ?thesis unfolding tr by (auto simp: algebra_simps)
  qed
  have "task_rows nr nt k \<subseteq> {0 ..< nr}" if "0 \<le> k" for k
    using mult_nonneg_nonneg [OF dr that] unfolding tr by auto
  then show ?thesis using cover disj [of i j] disj [of j i] by (fastforce simp: neq_iff)
qed

theorem task_rows_partition_witness:
  "(\<Union>i \<in> {0 ..< 4}. task_rows 10 4 i) = {0 ..< 10} \<and> task_rows 10 4 1 \<inter> task_rows 10 4 3 = {}"
  using task_rows_partition [of 4 10 1 3] by simp

text \<open>
  A node with one task, or with as many as the parallel region has threads, is run in
  three phases: one initialisation call, then each task computes exactly once, then each task
  finalises exactly once.
\<close>

theorem node_calls_phases:
  assumes "n_tasks t = 1 \<or> n_tasks t = int team" "0 < team"
  shows "\<exists>ini com fin. node_calls team wsz wdat t = [ini, com, fin] \<and>
    map task ini = [NE_TASK_INIT] \<and> map ith com = map int [0 ..< nat (n_tasks t)] \<and>
    map ith fin = map int [0 ..< nat (n_tasks t)] \<and> set (map task com) = {NE_TASK_COMPUTE} \<and>
    set (map task fin) = {NE_TASK_FINALIZE} \<and>
    set (map nth (ini @ com @ fin)) = {n_tasks t} \<and> set (map wdata (ini @ com @ fin)) = {wdat}"
proof (cases "n_tasks t = 1")
  case True
  then show ?thesis by (simp add: node_calls_def)
next
  case False
  with assms have n: "n_tasks t = int team" "team \<noteq> 1" by auto
  have f: "filter (\<lambda>i. int i < int team) [0..<team] = [0..<team]" by (simp add: filter_id_conv)
  show ?thesis using n assms(2) by (auto simp: node_calls_def f comp_def image_image)
qed

theorem node_calls_phases_witness:
  "\<exists>ini com fin. node_calls 3 0 0 ((the (demo_plan_t 48))\<lparr>n_tasks := 3\<rparr>) = [ini, com, fin] \<and> map ith com = [0, 1, 2]"
  using node_calls_phases [of "(the (demo_plan_t 48))\<lparr>n_tasks := 3\<rparr>" 3 0 0] by (auto simp: upt_rec)

end
