(* ===== verification/NE_Kernels.thy ===== *)
theory NE_Kernels
  imports NE_Plan
begin

text \<open>
  Forward kernels of \<^verbatim>\<open>core/ne_layers.c\<close> on 32-bit floats, with the vector loops of
  \<^verbatim>\<open>core/layers/ele_wise.h\<close>: element-wise operations, broadcasting addition and product,
  scaling, region updates, row gathering, repetition, masks. A kernel is a function on the byte
  memory; the headers of its tensors and the parameters of the task are its arguments. Floats are
  bit patterns: signs and comparisons with zero are computed on them, the arithmetic of the
  floating-point unit and the C math library is a parameter of which nothing is assumed.
\<close>

section \<open>Loops and addresses\<close>

type_synonym kop = "(memory, unit) op"

primrec for_list :: "'i list \<Rightarrow> ('i \<Rightarrow> ('s, unit) op) \<Rightarrow> ('s, unit) op" where
  "for_list [] body = ret ()"
| "for_list (i # is) body = sseq (body i) (for_list is body)"

text \<open>The remainder of C, with the sign of the dividend.\<close>

definition cmod :: "int \<Rightarrow> int \<Rightarrow> int res" where
  "cmod a b = rbind (cdiv a b) (\<lambda>q. Inr (a - q * b))"

text \<open>
  The loop \<^verbatim>\<open>for (ir = ith; ir < nr; ir += nth)\<close>: the values of \<^verbatim>\<open>ir\<close>. A step that is not
  positive would never end; the task count of a planned node is at least one.
\<close>

definition strided :: "int \<Rightarrow> int \<Rightarrow> int \<Rightarrow> int list res" where
  "strided i nt nr =
     (if nr \<le> i then Inr []
      else if nt \<le> 0 then Inl Stack_Overflow
      else Inr (map (\<lambda>k. i + int k * nt) [0 ..< nat ((nr - i + nt - 1) div nt)]))"

text \<open>
  The rows of a task, \<^verbatim>\<open>ir0\<close> to \<^verbatim>\<open>ir1\<close> with \<^verbatim>\<open>dr\<close> rows per task. The code computes them in \<^verbatim>\<open>int\<close>;
  they are exact here, as there unless the rows and tasks together reach \<open>2 ^ 31\<close>.
\<close>

definition block_rows :: "int \<Rightarrow> int \<Rightarrow> int \<Rightarrow> int list res" where
  "block_rows nr i nt = rbind (cdiv (nr + nt - 1) nt) (\<lambda>dr. Inr [dr * i .. min (dr * i + dr) nr - 1])"

text \<open>The indices of row \<open>ir\<close>, and the address of a row from its byte offset.\<close>

definition row_index :: "int \<Rightarrow> int \<Rightarrow> int \<Rightarrow> (int \<times> int \<times> int) res" where
  "row_index ne1 ne2 ir =
     rbind (cdiv ir (ne2 * ne1)) (\<lambda>i3.
     rbind (cdiv (ir - i3 * ne2 * ne1) ne1) (\<lambda>i2.
     Inr (ir - i3 * ne2 * ne1 - i2 * ne1, i2, i3)))"

definition off3 :: "nat list \<Rightarrow> int \<times> int \<times> int \<Rightarrow> nat" where
  "off3 strides i = (case i of (i1, i2, i3) \<Rightarrow>
     to_size i3 * strides ! 3 + to_size i2 * strides ! 2 + to_size i1 * strides ! 1)"

text \<open>A row pointer; a row of \<open>n\<close> elements is only dereferenced when \<open>n\<close> is positive.\<close>

definition row_ptr :: "ne_tensor \<Rightarrow> nat \<Rightarrow> nat \<Rightarrow> (memory, ptr) op" where
  "row_ptr t n off = (if n = 0 \<or> data t \<noteq> NULL then ret (wrap64 (data t + off)) else fail Bad_Deref)"

definition is_init_or_finalize :: "ne_compute_params \<Rightarrow> bool" where
  "is_init_or_finalize ps \<longleftrightarrow> task ps = NE_TASK_INIT \<or> task ps = NE_TASK_FINALIZE"

section \<open>Floats\<close>

record farith =
  f_add :: "32 word \<Rightarrow> 32 word \<Rightarrow> 32 word"
  f_sub :: "32 word \<Rightarrow> 32 word \<Rightarrow> 32 word"
  f_mul :: "32 word \<Rightarrow> 32 word \<Rightarrow> 32 word"
  f_div :: "32 word \<Rightarrow> 32 word \<Rightarrow> 32 word"
  f_sqrt :: "32 word \<Rightarrow> 32 word"
  f_log :: "32 word \<Rightarrow> 32 word"
  f_exp :: "32 word \<Rightarrow> 32 word"
  f_less :: "32 word \<Rightarrow> 32 word \<Rightarrow> bool"

definition f32_0 :: "32 word" where "f32_0 = 0"
definition f32_1 :: "32 word" where "f32_1 = 0x3F800000"
definition f32_minus_1 :: "32 word" where "f32_minus_1 = 0xBF800000"
definition f32_minus_inf :: "32 word" where "f32_minus_inf = 0xFF800000"

text \<open>\<^verbatim>\<open>x > 0.f\<close> and \<^verbatim>\<open>x < 0.f\<close> on bit patterns: not zero, not a NaN, and the sign.\<close>

definition f32_pos :: "32 word \<Rightarrow> bool" where "f32_pos x \<longleftrightarrow> 0 < x \<and> x \<le> 0x7F800000"
definition f32_neg :: "32 word \<Rightarrow> bool" where "f32_neg x \<longleftrightarrow> 0x80000000 < x \<and> x \<le> 0xFF800000"

definition f_neg :: "32 word \<Rightarrow> 32 word" where "f_neg x = x XOR 0x80000000"
definition f_abs :: "32 word \<Rightarrow> 32 word" where "f_abs x = x AND 0x7FFFFFFF"

section \<open>Vector loops\<close>

definition vec_map1 :: "(32 word \<Rightarrow> 32 word) \<Rightarrow> nat \<Rightarrow> ptr \<Rightarrow> ptr \<Rightarrow> memory \<Rightarrow> memory" where
  "vec_map1 f n y x = fold (\<lambda>i m. store32 (y + 4 * i) (f (load32 m (x + 4 * i))) m) [0..<n]"

definition vec_map2 :: "(32 word \<Rightarrow> 32 word \<Rightarrow> 32 word) \<Rightarrow> nat \<Rightarrow> ptr \<Rightarrow> ptr \<Rightarrow> ptr \<Rightarrow> memory \<Rightarrow> memory" where
  "vec_map2 f n z x y = fold (\<lambda>i m. store32 (z + 4 * i) (f (load32 m (x + 4 * i)) (load32 m (y + 4 * i))) m) [0..<n]"

definition ne_vec_add_f32 :: "farith \<Rightarrow> nat \<Rightarrow> ptr \<Rightarrow> ptr \<Rightarrow> ptr \<Rightarrow> memory \<Rightarrow> memory" where
  "ne_vec_add_f32 fa = vec_map2 (f_add fa)"
definition ne_vec_sub_f32 :: "farith \<Rightarrow> nat \<Rightarrow> ptr \<Rightarrow> ptr \<Rightarrow> ptr \<Rightarrow> memory \<Rightarrow> memory" where
  "ne_vec_sub_f32 fa = vec_map2 (f_sub fa)"
definition ne_vec_mul_f32 :: "farith \<Rightarrow> nat \<Rightarrow> ptr \<Rightarrow> ptr \<Rightarrow> ptr \<Rightarrow> memory \<Rightarrow> memory" where
  "ne_vec_mul_f32 fa = vec_map2 (f_mul fa)"
definition ne_vec_div_f32 :: "farith \<Rightarrow> nat \<Rightarrow> ptr \<Rightarrow> ptr \<Rightarrow> ptr \<Rightarrow> memory \<Rightarrow> memory" where
  "ne_vec_div_f32 fa = vec_map2 (f_div fa)"
definition ne_vec_add1_f32 :: "farith \<Rightarrow> nat \<Rightarrow> ptr \<Rightarrow> ptr \<Rightarrow> 32 word \<Rightarrow> memory \<Rightarrow> memory" where
  "ne_vec_add1_f32 fa n z x v = vec_map1 (\<lambda>a. f_add fa a v) n z x"
definition ne_vec_cpy_f32 :: "nat \<Rightarrow> ptr \<Rightarrow> ptr \<Rightarrow> memory \<Rightarrow> memory" where
  "ne_vec_cpy_f32 = vec_map1 (\<lambda>x. x)"

text \<open>\<^verbatim>\<open>y[i] *= v\<close>; the vectorised path multiplies the same elements in the same way.\<close>

definition ne_vec_scale_f32 :: "farith \<Rightarrow> nat \<Rightarrow> ptr \<Rightarrow> 32 word \<Rightarrow> memory \<Rightarrow> memory" where
  "ne_vec_scale_f32 fa n y v = vec_map1 (\<lambda>a. f_mul fa a v) n y y"

definition ne_vec_neg_f32 :: "nat \<Rightarrow> ptr \<Rightarrow> ptr \<Rightarrow> memory \<Rightarrow> memory" where
  "ne_vec_neg_f32 = vec_map1 f_neg"
definition ne_vec_sqr_f32 :: "farith \<Rightarrow> nat \<Rightarrow> ptr \<Rightarrow> ptr \<Rightarrow> memory \<Rightarrow> memory" where
  "ne_vec_sqr_f32 fa = vec_map1 (\<lambda>x. f_mul fa x x)"
definition ne_vec_sqrt_f32 :: "farith \<Rightarrow> nat \<Rightarrow> ptr \<Rightarrow> ptr \<Rightarrow> memory \<Rightarrow> memory" where
  "ne_vec_sqrt_f32 fa = vec_map1 (f_sqrt fa)"
definition ne_vec_log_f32 :: "farith \<Rightarrow> nat \<Rightarrow> ptr \<Rightarrow> ptr \<Rightarrow> memory \<Rightarrow> memory" where
  "ne_vec_log_f32 fa = vec_map1 (f_log fa)"
definition ne_vec_abs_f32 :: "nat \<Rightarrow> ptr \<Rightarrow> ptr \<Rightarrow> memory \<Rightarrow> memory" where
  "ne_vec_abs_f32 = vec_map1 f_abs"
definition ne_vec_sgn_f32 :: "nat \<Rightarrow> ptr \<Rightarrow> ptr \<Rightarrow> memory \<Rightarrow> memory" where
  "ne_vec_sgn_f32 = vec_map1 (\<lambda>x. if f32_pos x then f32_1 else if f32_neg x then f32_minus_1 else f32_0)"
definition ne_vec_step_f32 :: "nat \<Rightarrow> ptr \<Rightarrow> ptr \<Rightarrow> memory \<Rightarrow> memory" where
  "ne_vec_step_f32 = vec_map1 (\<lambda>x. if f32_pos x then f32_1 else f32_0)"
definition ne_vec_relu_f32 :: "nat \<Rightarrow> ptr \<Rightarrow> ptr \<Rightarrow> memory \<Rightarrow> memory" where
  "ne_vec_relu_f32 = vec_map1 (\<lambda>x. if f32_pos x then x else f32_0)"

text \<open>
  The header is included before \<^verbatim>\<open>NE_SILU_FP16\<close> is defined, so the variants without the table are
  compiled.
\<close>

definition ne_silu_f32 :: "farith \<Rightarrow> 32 word \<Rightarrow> 32 word" where
  "ne_silu_f32 fa x = f_div fa x (f_add fa f32_1 (f_exp fa (f_neg x)))"

definition ne_vec_silu_f32 :: "farith \<Rightarrow> nat \<Rightarrow> ptr \<Rightarrow> ptr \<Rightarrow> memory \<Rightarrow> memory" where
  "ne_vec_silu_f32 fa = vec_map1 (ne_silu_f32 fa)"

definition ne_silu_backward_f32 :: "farith \<Rightarrow> 32 word \<Rightarrow> 32 word \<Rightarrow> 32 word" where
  "ne_silu_backward_f32 fa x dy =
     (let s = f_div fa f32_1 (f_add fa f32_1 (f_exp fa (f_neg x))) in
      f_mul fa (f_mul fa dy s) (f_add fa f32_1 (f_mul fa x (f_sub fa f32_1 s))))"

definition ne_vec_silu_backward_f32 :: "farith \<Rightarrow> nat \<Rightarrow> ptr \<Rightarrow> ptr \<Rightarrow> ptr \<Rightarrow> memory \<Rightarrow> memory" where
  "ne_vec_silu_backward_f32 fa = vec_map2 (ne_silu_backward_f32 fa)"

section \<open>Unary kernels\<close>

text \<open>
  The kernels of the unary operations differ in the vector loop only. Row \<open>i\<close> is taken at
  \<^verbatim>\<open>i * nb[1]\<close> for every row of the tensor. The condition on \<^verbatim>\<open>params->ith\<close> and the shape are
  plain assertions, which the release build does not check.
\<close>

definition unary_row :: "(nat \<Rightarrow> ptr \<Rightarrow> ptr \<Rightarrow> memory \<Rightarrow> memory) \<Rightarrow> ne_tensor \<Rightarrow> ne_tensor \<Rightarrow> int \<Rightarrow> kop" where
  "unary_row vec src dst i =
     (let nc = nat (to_int32 (ne src ! 0)) in
      sbind (row_ptr dst nc (to_size i * nb dst ! 1)) (\<lambda>y.
      sbind (row_ptr src nc (to_size i * nb src ! 1)) (\<lambda>x.
      modify (vec nc y x))))"

definition unary_f32 :: "(nat \<Rightarrow> ptr \<Rightarrow> ptr \<Rightarrow> memory \<Rightarrow> memory) \<Rightarrow> ne_compute_params \<Rightarrow> ne_tensor \<Rightarrow> ne_tensor \<Rightarrow> kop" where
  "unary_f32 vec ps src dst =
     (if is_init_or_finalize ps then ret ()
      else for_list [0 .. ne_nrows src - 1] (unary_row vec src dst))"

definition switch_f32 :: "ne_tensor \<Rightarrow> kop \<Rightarrow> kop" where
  "switch_f32 src k = (case ty src of NE_TYPE_F32 \<Rightarrow> k | _ \<Rightarrow> fail NE_Assert)"

definition ne_compute_forward_sqr_f32 :: "farith \<Rightarrow> ne_compute_params \<Rightarrow> ne_tensor \<Rightarrow> ne_tensor \<Rightarrow> kop" where
  "ne_compute_forward_sqr_f32 fa = unary_f32 (ne_vec_sqr_f32 fa)"
definition ne_compute_forward_sqr :: "farith \<Rightarrow> ne_compute_params \<Rightarrow> ne_tensor \<Rightarrow> ne_tensor \<Rightarrow> kop" where
  "ne_compute_forward_sqr fa ps src dst = switch_f32 src (ne_compute_forward_sqr_f32 fa ps src dst)"
definition ne_compute_forward_sqrt_f32 :: "farith \<Rightarrow> ne_compute_params \<Rightarrow> ne_tensor \<Rightarrow> ne_tensor \<Rightarrow> kop" where
  "ne_compute_forward_sqrt_f32 fa = unary_f32 (ne_vec_sqrt_f32 fa)"
definition ne_compute_forward_sqrt :: "farith \<Rightarrow> ne_compute_params \<Rightarrow> ne_tensor \<Rightarrow> ne_tensor \<Rightarrow> kop" where
  "ne_compute_forward_sqrt fa ps src dst = switch_f32 src (ne_compute_forward_sqrt_f32 fa ps src dst)"
definition ne_compute_forward_log_f32 :: "farith \<Rightarrow> ne_compute_params \<Rightarrow> ne_tensor \<Rightarrow> ne_tensor \<Rightarrow> kop" where
  "ne_compute_forward_log_f32 fa = unary_f32 (ne_vec_log_f32 fa)"
definition ne_compute_forward_log :: "farith \<Rightarrow> ne_compute_params \<Rightarrow> ne_tensor \<Rightarrow> ne_tensor \<Rightarrow> kop" where
  "ne_compute_forward_log fa ps src dst = switch_f32 src (ne_compute_forward_log_f32 fa ps src dst)"
definition ne_compute_forward_abs_f32 :: "ne_compute_params \<Rightarrow> ne_tensor \<Rightarrow> ne_tensor \<Rightarrow> kop" where
  "ne_compute_forward_abs_f32 = unary_f32 ne_vec_abs_f32"
definition ne_compute_forward_abs :: "ne_compute_params \<Rightarrow> ne_tensor \<Rightarrow> ne_tensor \<Rightarrow> kop" where
  "ne_compute_forward_abs ps src dst = switch_f32 src (ne_compute_forward_abs_f32 ps src dst)"
definition ne_compute_forward_sgn_f32 :: "ne_compute_params \<Rightarrow> ne_tensor \<Rightarrow> ne_tensor \<Rightarrow> kop" where
  "ne_compute_forward_sgn_f32 = unary_f32 ne_vec_sgn_f32"
definition ne_compute_forward_sgn :: "ne_compute_params \<Rightarrow> ne_tensor \<Rightarrow> ne_tensor \<Rightarrow> kop" where
  "ne_compute_forward_sgn ps src dst = switch_f32 src (ne_compute_forward_sgn_f32 ps src dst)"
definition ne_compute_forward_neg_f32 :: "ne_compute_params \<Rightarrow> ne_tensor \<Rightarrow> ne_tensor \<Rightarrow> kop" where
  "ne_compute_forward_neg_f32 = unary_f32 ne_vec_neg_f32"
definition ne_compute_forward_neg :: "ne_compute_params \<Rightarrow> ne_tensor \<Rightarrow> ne_tensor \<Rightarrow> kop" where
  "ne_compute_forward_neg ps src dst = switch_f32 src (ne_compute_forward_neg_f32 ps src dst)"
definition ne_compute_forward_step_f32 :: "ne_compute_params \<Rightarrow> ne_tensor \<Rightarrow> ne_tensor \<Rightarrow> kop" where
  "ne_compute_forward_step_f32 = unary_f32 ne_vec_step_f32"
definition ne_compute_forward_step :: "ne_compute_params \<Rightarrow> ne_tensor \<Rightarrow> ne_tensor \<Rightarrow> kop" where
  "ne_compute_forward_step ps src dst = switch_f32 src (ne_compute_forward_step_f32 ps src dst)"
definition ne_compute_forward_relu_f32 :: "ne_compute_params \<Rightarrow> ne_tensor \<Rightarrow> ne_tensor \<Rightarrow> kop" where
  "ne_compute_forward_relu_f32 = unary_f32 ne_vec_relu_f32"
definition ne_compute_forward_relu :: "ne_compute_params \<Rightarrow> ne_tensor \<Rightarrow> ne_tensor \<Rightarrow> kop" where
  "ne_compute_forward_relu ps src dst = switch_f32 src (ne_compute_forward_relu_f32 ps src dst)"

section \<open>Kernels that share rows among tasks\<close>

definition ne_is_contiguous_except_dim_1 :: "ne_tensor \<Rightarrow> bool" where
  "ne_is_contiguous_except_dim_1 t \<longleftrightarrow>
     nb t ! 0 = NE_TYPE_SIZE (ty t) \<and> nb t ! 2 = wrap64 (nb t ! 1 * to_size (ne t ! 1)) \<and>
     nb t ! 3 = wrap64 (nb t ! 2 * to_size (ne t ! 2))"

definition ne_compute_forward_silu_f32 :: "farith \<Rightarrow> ne_compute_params \<Rightarrow> ne_tensor \<Rightarrow> ne_tensor \<Rightarrow> kop" where
  "ne_compute_forward_silu_f32 fa ps src dst =
     sseq (ne_assert (ne_is_contiguous_except_dim_1 src))
    (sseq (ne_assert (ne_is_contiguous_except_dim_1 dst))
    (sseq (ne_assert (ne_are_same_shape src dst))
    (if is_init_or_finalize ps then ret ()
     else sbind (liftR (block_rows (ne_nrows src) (ith ps) (nth ps))) (\<lambda>rs.
          for_list rs (unary_row (ne_vec_silu_f32 fa) src dst)))))"

definition ne_compute_forward_silu :: "farith \<Rightarrow> ne_compute_params \<Rightarrow> ne_tensor \<Rightarrow> ne_tensor \<Rightarrow> kop" where
  "ne_compute_forward_silu fa ps src dst = switch_f32 src (ne_compute_forward_silu_f32 fa ps src dst)"

definition ne_compute_forward_silu_back_f32 ::
  "farith \<Rightarrow> ne_compute_params \<Rightarrow> ne_tensor \<Rightarrow> ne_tensor \<Rightarrow> ne_tensor \<Rightarrow> kop" where
  "ne_compute_forward_silu_back_f32 fa ps src gr dst =
     sseq (ne_assertR (ne_is_contiguous gr))
    (sseq (ne_assertR (ne_is_contiguous src))
    (sseq (ne_assertR (ne_is_contiguous dst))
    (sseq (ne_assert (ne_are_same_shape src dst))
    (sseq (ne_assert (ne_are_same_shape src gr))
    (if is_init_or_finalize ps then ret ()
     else
      (let nc = nat (to_int32 (ne src ! 0)) in
       sbind (liftR (block_rows (ne_nrows src) (ith ps) (nth ps))) (\<lambda>rs.
       for_list rs (\<lambda>i.
         sbind (row_ptr dst nc (to_size i * nb dst ! 1)) (\<lambda>z.
         sbind (row_ptr src nc (to_size i * nb src ! 1)) (\<lambda>x.
         sbind (row_ptr gr nc (to_size i * nb gr ! 1)) (\<lambda>y.
         modify (ne_vec_silu_backward_f32 fa nc z x y))))))))))))"

definition ne_compute_forward_silu_back ::
  "farith \<Rightarrow> ne_compute_params \<Rightarrow> ne_tensor \<Rightarrow> ne_tensor \<Rightarrow> ne_tensor \<Rightarrow> kop" where
  "ne_compute_forward_silu_back fa ps src gr dst = switch_f32 src (ne_compute_forward_silu_back_f32 fa ps src gr dst)"

text \<open>
  \<^verbatim>\<open>memcpy\<close> of \<open>n\<close> bytes. The copy reads the memory before it, which is what C defines for ranges
  that do not overlap; for ranges that do C leaves the result open, and this is one of the results.
\<close>

definition copy_bytes :: "nat \<Rightarrow> ptr \<Rightarrow> ptr \<Rightarrow> memory \<Rightarrow> memory" where
  "copy_bytes n d s m a = (if d \<le> a \<and> a < d + n then m (s + (a - d)) else m a)"

definition ne_compute_forward_scale_f32 ::
  "farith \<Rightarrow> ne_compute_params \<Rightarrow> ne_tensor \<Rightarrow> ne_tensor \<Rightarrow> ne_tensor \<Rightarrow> kop" where
  "ne_compute_forward_scale_f32 fa ps a b dst =
     sseq (ne_assertR (ne_is_contiguous a))
    (sseq (ne_assertR (ne_is_contiguous dst))
    (sseq (ne_assert (ne_are_same_shape a dst))
    (sseq (ne_assert (ne_is_scalar b))
    (if is_init_or_finalize ps then ret ()
     else
       sbind (row_ptr b 1 0) (\<lambda>vp.
       sbind (gets (\<lambda>m. load32 m vp)) (\<lambda>v.
       let nc = nat (to_int32 (ne a ! 0)) in
       sbind (liftR (block_rows (ne_nrows a) (ith ps) (nth ps))) (\<lambda>rs.
       for_list rs (\<lambda>i1.
         sbind (row_ptr dst nc (to_size i1 * nb dst ! 1)) (\<lambda>y.
         sseq (if data dst \<noteq> data a
               then sbind (row_ptr a nc (to_size i1 * nb a ! 1)) (\<lambda>x. modify (copy_bytes (4 * nc) y x))
               else ret ())
           (modify (ne_vec_scale_f32 fa nc y v)))))))))))"

definition ne_compute_forward_scale ::
  "farith \<Rightarrow> ne_compute_params \<Rightarrow> ne_tensor \<Rightarrow> ne_tensor \<Rightarrow> ne_tensor \<Rightarrow> kop" where
  "ne_compute_forward_scale fa ps a b dst = switch_f32 a (ne_compute_forward_scale_f32 fa ps a b dst)"

definition ne_compute_forward_add1_f32 ::
  "farith \<Rightarrow> ne_compute_params \<Rightarrow> ne_tensor \<Rightarrow> ne_tensor \<Rightarrow> ne_tensor \<Rightarrow> kop" where
  "ne_compute_forward_add1_f32 fa ps a b dst =
     sseq (ne_assert (ne_are_same_shape a dst))
    (sseq (ne_assert (ne_is_scalar b))
    (if is_init_or_finalize ps then ret ()
     else
       sseq (ne_assert (nb dst ! 0 = 4))
      (sseq (ne_assert (nb a ! 0 = 4))
      (sbind (liftR (block_rows (ne_nrows a) (ith ps) (nth ps))) (\<lambda>rs.
       let nc = nat (to_int32 (ne a ! 0)) in
       for_list rs (\<lambda>ir.
         sbind (liftR (row_index (ne a ! 1) (ne a ! 2) ir)) (\<lambda>i.
         sbind (row_ptr dst nc (off3 (nb dst) i)) (\<lambda>z.
         sbind (row_ptr a nc (off3 (nb a) i)) (\<lambda>x.
         sbind (row_ptr b 1 0) (\<lambda>vp.
         modify (\<lambda>m. ne_vec_add1_f32 fa nc z x (load32 m vp) m)))))))))))"

section \<open>Broadcasting kernels\<close>

text \<open>
  \<^verbatim>\<open>ne_compute_forward_add_f32\<close> and \<^verbatim>\<open>ne_compute_forward_mul_f32\<close>: the rows of \<^verbatim>\<open>src1\<close> are
  repeated along those of \<^verbatim>\<open>src0\<close>; a dimension of size one has stride zero. The two functions
  differ in the vector loop and the scalar operation only. Rows are dealt out to the tasks in
  turn.
\<close>

definition repeat_strides :: "ne_tensor \<Rightarrow> nat list" where
  "repeat_strides t = [nb t ! 0, if ne t ! 1 = 1 then 0 else nb t ! 1, if ne t ! 2 = 1 then 0 else nb t ! 2,
     if ne t ! 3 = 1 then 0 else nb t ! 3]"

definition wrapped_index :: "ne_tensor \<Rightarrow> int \<times> int \<times> int \<Rightarrow> (int \<times> int \<times> int) res" where
  "wrapped_index t i = (case i of (i1, i2, i3) \<Rightarrow>
     rbind (cmod i3 (ne t ! 3)) (\<lambda>k3. rbind (cmod i2 (ne t ! 2)) (\<lambda>k2. rbind (cmod i1 (ne t ! 1)) (\<lambda>k1.
     Inr (k1, k2, k3)))))"

definition strided_map2 ::
  "(32 word \<Rightarrow> 32 word \<Rightarrow> 32 word) \<Rightarrow> nat \<Rightarrow> nat \<Rightarrow> ptr \<Rightarrow> ptr \<Rightarrow> ptr \<Rightarrow> memory \<Rightarrow> memory" where
  "strided_map2 f n step z x y =
     fold (\<lambda>i m. store32 (z + 4 * i) (f (load32 m (x + 4 * i)) (load32 m (y + i * step))) m) [0..<n]"

definition broadcast_row ::
  "(nat \<Rightarrow> ptr \<Rightarrow> ptr \<Rightarrow> ptr \<Rightarrow> memory \<Rightarrow> memory) \<Rightarrow> (32 word \<Rightarrow> 32 word \<Rightarrow> 32 word) \<Rightarrow>
   ne_tensor \<Rightarrow> ne_tensor \<Rightarrow> ne_tensor \<Rightarrow> int \<Rightarrow> kop" where
  "broadcast_row vec f a b dst ir =
     sbind (liftR (row_index (ne a ! 1) (ne a ! 2) ir)) (\<lambda>i.
     sbind (liftR (wrapped_index b i)) (\<lambda>k.
     let nc = nat (ne a ! 0) in
     sbind (row_ptr dst nc (off3 (nb dst) i)) (\<lambda>z.
     sbind (row_ptr a nc (off3 (nb a) i)) (\<lambda>x.
     sbind (row_ptr b nc (off3 (repeat_strides b) k)) (\<lambda>y.
     if nb b ! 0 = 4 then modify (vec (nat (to_int32 (ne a ! 0))) z x y)
     else modify (strided_map2 f nc (nb b ! 0) z x y))))))"

definition broadcast_f32 ::
  "(nat \<Rightarrow> ptr \<Rightarrow> ptr \<Rightarrow> ptr \<Rightarrow> memory \<Rightarrow> memory) \<Rightarrow> (32 word \<Rightarrow> 32 word \<Rightarrow> 32 word) \<Rightarrow>
   ne_compute_params \<Rightarrow> ne_tensor \<Rightarrow> ne_tensor \<Rightarrow> ne_tensor \<Rightarrow> kop" where
  "broadcast_f32 vec f ps a b dst =
     sseq (ne_assertR (andR (ne_can_repeat_rows b a) (Inr (ne_are_same_shape a dst))))
    (if is_init_or_finalize ps then ret ()
     else
       sseq (ne_assert (nb dst ! 0 = 4))
      (sseq (ne_assert (nb a ! 0 = 4))
      (sseq (ne_assert (ne a ! 0 = ne b ! 0))
      (sbind (liftR (strided (ith ps) (nth ps) (ne_nrows a))) (\<lambda>rs.
       for_list rs (broadcast_row vec f a b dst))))))"

definition ne_compute_forward_add_f32 ::
  "farith \<Rightarrow> ne_compute_params \<Rightarrow> ne_tensor \<Rightarrow> ne_tensor \<Rightarrow> ne_tensor \<Rightarrow> kop" where
  "ne_compute_forward_add_f32 fa = broadcast_f32 (ne_vec_add_f32 fa) (f_add fa)"

definition ne_compute_forward_mul_f32 ::
  "farith \<Rightarrow> ne_compute_params \<Rightarrow> ne_tensor \<Rightarrow> ne_tensor \<Rightarrow> ne_tensor \<Rightarrow> kop" where
  "ne_compute_forward_mul_f32 fa = broadcast_f32 (ne_vec_mul_f32 fa) (f_mul fa)"

definition ne_compute_forward_mul ::
  "farith \<Rightarrow> ne_compute_params \<Rightarrow> ne_tensor \<Rightarrow> ne_tensor \<Rightarrow> ne_tensor \<Rightarrow> kop" where
  "ne_compute_forward_mul fa ps a b dst = switch_f32 a (ne_compute_forward_mul_f32 fa ps a b dst)"

text \<open>\<^verbatim>\<open>ne_compute_forward_sub_f32\<close> and \<^verbatim>\<open>ne_compute_forward_div_f32\<close>: one task, the shapes are the same.\<close>

definition same_row ::
  "(nat \<Rightarrow> ptr \<Rightarrow> ptr \<Rightarrow> ptr \<Rightarrow> memory \<Rightarrow> memory) \<Rightarrow> (32 word \<Rightarrow> 32 word \<Rightarrow> 32 word) \<Rightarrow>
   ne_tensor \<Rightarrow> ne_tensor \<Rightarrow> ne_tensor \<Rightarrow> int \<Rightarrow> kop" where
  "same_row vec f a b dst ir =
     sbind (liftR (row_index (ne a ! 1) (ne a ! 2) ir)) (\<lambda>i.
     let nc = nat (ne a ! 0) in
     sbind (row_ptr dst nc (off3 (nb dst) i)) (\<lambda>z.
     sbind (row_ptr a nc (off3 (nb a) i)) (\<lambda>x.
     sbind (row_ptr b nc (off3 (nb b) i)) (\<lambda>y.
     if nb b ! 0 = 4 then modify (vec (nat (to_int32 (ne a ! 0))) z x y)
     else modify (strided_map2 f nc (nb b ! 0) z x y)))))"

definition same_f32 ::
  "(nat \<Rightarrow> ptr \<Rightarrow> ptr \<Rightarrow> ptr \<Rightarrow> memory \<Rightarrow> memory) \<Rightarrow> (32 word \<Rightarrow> 32 word \<Rightarrow> 32 word) \<Rightarrow>
   ne_compute_params \<Rightarrow> ne_tensor \<Rightarrow> ne_tensor \<Rightarrow> ne_tensor \<Rightarrow> kop" where
  "same_f32 vec f ps a b dst =
     (if is_init_or_finalize ps then ret ()
      else
        sseq (ne_assert (nb dst ! 0 = 4))
       (sseq (ne_assert (nb a ! 0 = 4))
         (for_list [0 .. ne_nrows a - 1] (same_row vec f a b dst))))"

definition ne_compute_forward_sub_f32 ::
  "farith \<Rightarrow> ne_compute_params \<Rightarrow> ne_tensor \<Rightarrow> ne_tensor \<Rightarrow> ne_tensor \<Rightarrow> kop" where
  "ne_compute_forward_sub_f32 fa = same_f32 (ne_vec_sub_f32 fa) (f_sub fa)"

definition ne_compute_forward_sub ::
  "farith \<Rightarrow> ne_compute_params \<Rightarrow> ne_tensor \<Rightarrow> ne_tensor \<Rightarrow> ne_tensor \<Rightarrow> kop" where
  "ne_compute_forward_sub fa ps a b dst = switch_f32 a (ne_compute_forward_sub_f32 fa ps a b dst)"

definition ne_compute_forward_div_f32 ::
  "farith \<Rightarrow> ne_compute_params \<Rightarrow> ne_tensor \<Rightarrow> ne_tensor \<Rightarrow> ne_tensor \<Rightarrow> kop" where
  "ne_compute_forward_div_f32 fa = same_f32 (ne_vec_div_f32 fa) (f_div fa)"

definition ne_compute_forward_div ::
  "farith \<Rightarrow> ne_compute_params \<Rightarrow> ne_tensor \<Rightarrow> ne_tensor \<Rightarrow> ne_tensor \<Rightarrow> kop" where
  "ne_compute_forward_div fa ps a b dst = switch_f32 a (ne_compute_forward_div_f32 fa ps a b dst)"

section \<open>Copies and gathered rows\<close>

text \<open>
  \<^verbatim>\<open>ne_compute_forward_dup_same_cont\<close> copies \<^verbatim>\<open>(ie1 - ie0) * NE_TYPE_SIZE\<close> bytes of the elements of
  its task; the size of a block is the size of an element of a type that is not quantized only.
\<close>

definition ne_compute_forward_dup_same_cont :: "ne_compute_params \<Rightarrow> ne_tensor \<Rightarrow> ne_tensor \<Rightarrow> kop" where
  "ne_compute_forward_dup_same_cont ps src dst =
     sseq (ne_assert (ne_nelements dst = ne_nelements src))
    (sseq (ne_assertR (andR (ne_is_contiguous dst) (ne_is_contiguous src)))
    (sseq (ne_assert (ty src = ty dst))
    (if is_init_or_finalize ps then ret ()
     else
       let n = to_int32 (ne_nelements dst) in
       sbind (liftR (cdiv (n + nth ps - 1) (nth ps))) (\<lambda>dr.
       let ie0 = dr * ith ps; ie1 = min (ie0 + dr) n in
       if ie0 < ie1 then
         let k = wrap64 (nat (ie1 - ie0) * NE_TYPE_SIZE (ty src)) in
         sbind (row_ptr dst k (to_size ie0 * nb dst ! 0)) (\<lambda>d.
         sbind (row_ptr src k (to_size ie0 * nb src ! 0)) (\<lambda>s.
         modify (copy_bytes k d s)))
       else ret ()))))"

text \<open>Element \<open>i\<close> of an integer parameter tensor, an \<^verbatim>\<open>int32_t\<close>.\<close>

definition read_i32 :: "ne_tensor \<Rightarrow> nat \<Rightarrow> (memory, int) op" where
  "read_i32 t i = sbind (row_ptr t 1 0) (\<lambda>p. gets (\<lambda>m. sint (load32 m (p + 4 * i))))"

definition ne_compute_forward_get_rows_f32 ::
  "ne_compute_params \<Rightarrow> ne_tensor \<Rightarrow> ne_tensor \<Rightarrow> ne_tensor \<Rightarrow> kop" where
  "ne_compute_forward_get_rows_f32 ps a b dst =
     (if is_init_or_finalize ps then ret ()
      else
        let nc = nat (to_int32 (ne a ! 0)) in
        for_list [0 .. to_int32 (ne_nelements b) - 1] (\<lambda>i.
          sbind (read_i32 b (nat i)) (\<lambda>r.
          sbind (row_ptr dst nc (to_size i * nb dst ! 1)) (\<lambda>y.
          sbind (row_ptr a nc (to_size r * nb a ! 1)) (\<lambda>x.
          modify (ne_vec_cpy_f32 nc y x))))))"

definition ne_compute_forward_get_rows_f16 ::
  "fconv \<Rightarrow> ne_compute_params \<Rightarrow> ne_tensor \<Rightarrow> ne_tensor \<Rightarrow> ne_tensor \<Rightarrow> kop" where
  "ne_compute_forward_get_rows_f16 fc ps a b dst =
     (if is_init_or_finalize ps then ret ()
      else
        let nc = nat (to_int32 (ne a ! 0)) in
        for_list [0 .. to_int32 (ne_nelements b) - 1] (\<lambda>i.
          sbind (read_i32 b (nat i)) (\<lambda>r.
          sbind (row_ptr a nc (to_size r * nb a ! 1)) (\<lambda>x.
          sbind (row_ptr dst nc (to_size i * nb dst ! 1)) (\<lambda>y.
          modify (fold (\<lambda>j m. store32 (y + 4 * j) (fp16_to_fp32 fc (load16 m (x + 2 * j))) m) [0..<nc]))))))"

definition ne_compute_forward_get_rows_back_f32 ::
  "farith \<Rightarrow> ne_compute_params \<Rightarrow> ne_tensor \<Rightarrow> ne_tensor \<Rightarrow> ne_tensor \<Rightarrow> ne_tensor \<Rightarrow> kop" where
  "ne_compute_forward_get_rows_back_f32 fa ps a b o0 dst =
     sseq (ne_assert (ith ps = 0))
    (sseq (ne_assert (ne_are_same_shape o0 dst))
    (sseq (ne_assertR (ne_is_contiguous o0))
    (sseq (ne_assertR (ne_is_contiguous dst))
    (sseq (ne_compute_forward_dup_same_cont ps o0 dst)
    (if is_init_or_finalize ps then ret ()
     else
       sseq (ne_assert (ne dst ! 0 = to_int32 (ne a ! 0)))
      (sseq (ne_assert (nb a ! 0 = 4))
      (let nc = nat (to_int32 (ne a ! 0)) in
       for_list [0 .. to_int32 (ne_nelements b) - 1] (\<lambda>i.
          sbind (read_i32 b (nat i)) (\<lambda>r.
          sbind (row_ptr dst nc (to_size r * nb dst ! 1)) (\<lambda>y.
          sbind (row_ptr a nc (to_size i * nb a ! 1)) (\<lambda>x.
          modify (ne_vec_add_f32 fa nc y y x))))))))))))"

definition ne_compute_forward_get_rows_back_f32_f16 ::
  "fconv \<Rightarrow> farith \<Rightarrow> ne_compute_params \<Rightarrow> ne_tensor \<Rightarrow> ne_tensor \<Rightarrow> ne_tensor \<Rightarrow> ne_tensor \<Rightarrow> kop" where
  "ne_compute_forward_get_rows_back_f32_f16 fc fa ps a b o0 dst =
     sseq (ne_assert (ith ps = 0))
    (sseq (ne_assert (ne_are_same_shape o0 dst))
    (sseq (ne_assertR (ne_is_contiguous o0))
    (sseq (ne_assertR (ne_is_contiguous dst))
    (sseq (ne_compute_forward_dup_same_cont ps o0 dst)
    (if is_init_or_finalize ps then ret ()
     else
       sseq (ne_assert (ne dst ! 0 = to_int32 (ne a ! 0)))
      (sseq (ne_assert (nb a ! 0 = 2))
      (let nc = nat (to_int32 (ne a ! 0)) in
       for_list [0 .. to_int32 (ne_nelements b) - 1] (\<lambda>i.
          sbind (read_i32 b (nat i)) (\<lambda>r.
          sbind (row_ptr a nc (to_size i * nb a ! 1)) (\<lambda>x.
          sbind (row_ptr dst nc (to_size r * nb dst ! 1)) (\<lambda>y.
          modify (fold (\<lambda>j m. store32 (y + 4 * j)
             (f_add fa (load32 m (y + 4 * j)) (fp16_to_fp32 fc (load16 m (x + 2 * j)))) m) [0..<nc]))))))))))))"

definition ne_compute_forward_get_rows_back ::
  "fconv \<Rightarrow> farith \<Rightarrow> ne_compute_params \<Rightarrow> ne_tensor \<Rightarrow> ne_tensor \<Rightarrow> ne_tensor \<Rightarrow> ne_tensor \<Rightarrow> kop" where
  "ne_compute_forward_get_rows_back fc fa ps a b o0 dst =
     (case ty a of
        NE_TYPE_F16 \<Rightarrow> ne_compute_forward_get_rows_back_f32_f16 fc fa ps a b o0 dst
      | NE_TYPE_F32 \<Rightarrow> ne_compute_forward_get_rows_back_f32 fa ps a b o0 dst
      | _ \<Rightarrow> fail NE_Assert)"

section \<open>Region updates\<close>

text \<open>
  \<^verbatim>\<open>ne_compute_forward_set_f32\<close> and \<^verbatim>\<open>ne_compute_forward_acc_f32\<close>: the region of \<^verbatim>\<open>dst\<close> is described
  by five integers in \<^verbatim>\<open>opt0\<close>, its strides, the offset and whether the operation is in place. The
  result is initialised from \<^verbatim>\<open>src0\<close> in the phase before the tasks run.
\<close>

definition region_opts :: "ne_tensor \<Rightarrow> (memory, nat list \<times> nat \<times> bool) op" where
  "region_opts o0 =
     sbind (read_i32 o0 0) (\<lambda>nb1. sbind (read_i32 o0 1) (\<lambda>nb2. sbind (read_i32 o0 2) (\<lambda>nb3.
     sbind (read_i32 o0 3) (\<lambda>offset. sbind (read_i32 o0 4) (\<lambda>inplace.
     ret ([0, to_size nb1, to_size nb2, to_size nb3], to_size offset, inplace \<noteq> 0))))))"

definition region_init :: "bool \<Rightarrow> ne_compute_params \<Rightarrow> ne_tensor \<Rightarrow> ne_tensor \<Rightarrow> kop" where
  "region_init inplace ps a dst =
     (if \<not> inplace \<and> task ps = NE_TASK_INIT then
        sbind (liftR (ne_nbytes dst)) (\<lambda>n.
        sbind (row_ptr dst n 0) (\<lambda>d. sbind (row_ptr a n 0) (\<lambda>s. modify (copy_bytes n d s))))
      else ret ())"

definition last_index :: "int \<Rightarrow> int" where "last_index n = (if n = 0 then 0 else n - 1)"

definition region_end :: "nat \<Rightarrow> nat list \<Rightarrow> nat \<Rightarrow> int list \<Rightarrow> nat" where
  "region_end offset st nb0 im = wrap64 (offset + to_size (im ! 0) * nb0 + to_size (im ! 1) * st ! 1 +
     to_size (im ! 2) * st ! 2 + to_size (im ! 3) * st ! 3)"

definition ne_compute_forward_set_f32 ::
  "ne_compute_params \<Rightarrow> ne_tensor \<Rightarrow> ne_tensor \<Rightarrow> ne_tensor \<Rightarrow> ne_tensor \<Rightarrow> kop" where
  "ne_compute_forward_set_f32 ps a b o0 dst =
     sseq (ne_assert (ne_are_same_shape a dst))
    (sseq (ne_assertR (andR (ne_is_contiguous dst) (ne_is_contiguous a)))
    (sseq (ne_assert (ty o0 = NE_TYPE_I32))
    (sseq (ne_assert (ne_nelements o0 = 5))
    (sbind (region_opts o0) (\<lambda>(st, offset, inplace).
     sseq (region_init inplace ps a dst)
    (if is_init_or_finalize ps then ret ()
     else
       sbind (liftR (ne_nbytes dst)) (\<lambda>size.
       sseq (ne_assert (region_end offset st (ne_element_size a) (map (to_int32 \<circ> last_index) (ne b)) < size))
      (sseq (ne_assert (nb b ! 0 = 4))
      (let nc = nat (to_int32 (ne b ! 0)) in
       sbind (liftR (block_rows (ne_nrows b) (ith ps) (nth ps))) (\<lambda>rs.
       for_list rs (\<lambda>ir.
         sbind (liftR (row_index (ne b ! 1) (ne b ! 2) ir)) (\<lambda>i.
         sbind (row_ptr dst nc (off3 st i + offset)) (\<lambda>y.
         sbind (row_ptr b nc (off3 (nb b) i)) (\<lambda>x.
         modify (ne_vec_cpy_f32 nc y x)))))))))))))))"

definition ne_compute_forward_set ::
  "ne_compute_params \<Rightarrow> ne_tensor \<Rightarrow> ne_tensor \<Rightarrow> ne_tensor \<Rightarrow> ne_tensor \<Rightarrow> kop" where
  "ne_compute_forward_set ps a b o0 dst = switch_f32 a (ne_compute_forward_set_f32 ps a b o0 dst)"

definition ne_compute_forward_acc_f32 ::
  "farith \<Rightarrow> ne_compute_params \<Rightarrow> ne_tensor \<Rightarrow> ne_tensor \<Rightarrow> ne_tensor \<Rightarrow> ne_tensor \<Rightarrow> kop" where
  "ne_compute_forward_acc_f32 fa ps a b o0 dst =
     sseq (ne_assert (ne_are_same_shape a dst))
    (sseq (ne_assertR (andR (ne_is_contiguous dst) (ne_is_contiguous a)))
    (sseq (ne_assert (ty o0 = NE_TYPE_I32))
    (sseq (ne_assert (ne_nelements o0 = 5))
    (sbind (region_opts o0) (\<lambda>(st, offset, inplace).
     sseq (region_init inplace ps a dst)
    (if is_init_or_finalize ps then ret ()
     else
       let nc = nat (to_int32 (ne b ! 0)); stop = region_end offset st (ne_element_size a) (map last_index (ne b)) in
       sbind (liftR (ne_nbytes dst)) (\<lambda>size.
       sseq (ne_assert (stop < size))
      (sbind (liftR (ne_nbytes a)) (\<lambda>size0.
       sseq (ne_assert (stop < size0))
      (sseq (ne_assert (nb b ! 0 = 4))
      (sbind (liftR (block_rows (ne_nrows b) (ith ps) (nth ps))) (\<lambda>rs.
       for_list rs (\<lambda>ir.
         sbind (liftR (row_index (ne b ! 1) (ne b ! 2) ir)) (\<lambda>i.
         sbind (row_ptr dst nc (off3 st i + offset)) (\<lambda>z.
         sbind (row_ptr a nc (off3 st i + offset)) (\<lambda>x.
         sbind (row_ptr b nc (off3 (nb b) i)) (\<lambda>y.
         modify (ne_vec_add_f32 fa nc z x y))))))))))))))))))"

definition ne_compute_forward_acc ::
  "farith \<Rightarrow> ne_compute_params \<Rightarrow> ne_tensor \<Rightarrow> ne_tensor \<Rightarrow> ne_tensor \<Rightarrow> ne_tensor \<Rightarrow> kop" where
  "ne_compute_forward_acc fa ps a b o0 dst = switch_f32 a (ne_compute_forward_acc_f32 fa ps a b o0 dst)"

section \<open>Repetition, diagonals and masks\<close>

definition ne_compute_forward_repeat_f32 :: "ne_compute_params \<Rightarrow> ne_tensor \<Rightarrow> ne_tensor \<Rightarrow> kop" where
  "ne_compute_forward_repeat_f32 ps a dst =
     sseq (ne_assert (ith ps = 0))
    (sseq (ne_assertR (ne_can_repeat a dst))
    (if is_init_or_finalize ps then ret ()
     else
       sbind (liftR (cdiv (ne dst ! 0) (ne a ! 0))) (\<lambda>nr0. sbind (liftR (cdiv (ne dst ! 1) (ne a ! 1))) (\<lambda>nr1.
       sbind (liftR (cdiv (ne dst ! 2) (ne a ! 2))) (\<lambda>nr2. sbind (liftR (cdiv (ne dst ! 3) (ne a ! 3))) (\<lambda>nr3.
       sseq (ne_assert (nb dst ! 0 = 4))
      (sseq (ne_assert (nb a ! 0 = 4))
      (let n = nat (to_int32 (ne a ! 0)) in
       for_list [0 .. to_int32 nr3 - 1] (\<lambda>i3. for_list [0 .. ne a ! 3 - 1] (\<lambda>k3.
       for_list [0 .. to_int32 nr2 - 1] (\<lambda>i2. for_list [0 .. ne a ! 2 - 1] (\<lambda>k2.
       for_list [0 .. to_int32 nr1 - 1] (\<lambda>i1. for_list [0 .. ne a ! 1 - 1] (\<lambda>k1.
       for_list [0 .. to_int32 nr0 - 1] (\<lambda>i0.
         sbind (row_ptr dst n (off3 (nb dst) (i1 * ne a ! 1 + k1, i2 * ne a ! 2 + k2, i3 * ne a ! 3 + k3) +
           to_size (i0 * ne a ! 0) * nb dst ! 0)) (\<lambda>y.
         sbind (row_ptr a n (off3 (nb a) (k1, k2, k3))) (\<lambda>x.
         modify (ne_vec_cpy_f32 n y x))))))))))))))))))"

definition ne_compute_forward_repeat :: "ne_compute_params \<Rightarrow> ne_tensor \<Rightarrow> ne_tensor \<Rightarrow> kop" where
  "ne_compute_forward_repeat ps a dst = switch_f32 a (ne_compute_forward_repeat_f32 ps a dst)"

definition diag_row :: "nat \<Rightarrow> nat \<Rightarrow> ptr \<Rightarrow> ptr \<Rightarrow> memory \<Rightarrow> memory" where
  "diag_row n i1 d s m =
     fold (\<lambda>i0. store32 (d + 4 * i0) f32_0) [i1 + 1..<n]
       ((\<lambda>m. store32 (d + 4 * i1) (load32 m (s + 4 * i1)) m)
         (fold (\<lambda>i0. store32 (d + 4 * i0) f32_0) [0..<i1] m))"

definition ne_compute_forward_diag_f32 :: "ne_compute_params \<Rightarrow> ne_tensor \<Rightarrow> ne_tensor \<Rightarrow> kop" where
  "ne_compute_forward_diag_f32 ps a dst =
     sseq (ne_assert (ith ps = 0))
    (if is_init_or_finalize ps then ret ()
     else
       let ne00 = to_int32 (ne a ! 0); ne0 = to_int32 (ne dst ! 0); ne1 = to_int32 (ne dst ! 1);
           ne2 = to_int32 (ne dst ! 2); ne3 = to_int32 (ne dst ! 3) in
       sseq (ne_assert (ne00 = ne0))
      (sseq (ne_assert (ne00 = ne1))
      (sseq (ne_assert (to_int32 (ne a ! 1) = 1))
      (sseq (ne_assert (to_int32 (ne a ! 2) = ne2))
      (sseq (ne_assert (to_int32 (ne a ! 3) = ne3))
      (sseq (ne_assert (nb a ! 0 = 4))
      (sseq (ne_assert (nb dst ! 0 = 4))
      (for_list [0 .. ne3 - 1] (\<lambda>i3. for_list [0 .. ne2 - 1] (\<lambda>i2. for_list [0 .. ne1 - 1] (\<lambda>i1.
         sbind (row_ptr dst 1 (off3 (nb dst) (i1, i2, i3))) (\<lambda>d.
         sbind (row_ptr a 1 (off3 (nb a) (0, i2, i3))) (\<lambda>s.
         modify (diag_row (nat ne0) (nat i1) d s))))))))))))))"

definition ne_compute_forward_diag :: "ne_compute_params \<Rightarrow> ne_tensor \<Rightarrow> ne_tensor \<Rightarrow> kop" where
  "ne_compute_forward_diag ps a dst = switch_f32 a (ne_compute_forward_diag_f32 ps a dst)"

text \<open>The left-padding part and the causal part of the mask, for the rows of one task.\<close>

definition mask_padding :: "int list \<Rightarrow> int \<Rightarrow> int \<Rightarrow> ne_tensor \<Rightarrow> ne_tensor \<Rightarrow> 32 word \<Rightarrow> kop" where
  "mask_padding js bs nz b dst v =
     for_list [0 .. bs - 1] (\<lambda>bi.
       sbind (read_i32 b (2 + nat bi)) (\<lambda>n_padding.
       if n_padding = 0 then ret ()
       else
         sbind (liftR (cdiv nz bs)) (\<lambda>kn.
         for_list [0 .. kn - 1] (\<lambda>k. for_list js (\<lambda>j.
           sbind (row_ptr dst (nat n_padding) (off3 (nb dst) (j, k, bi))) (\<lambda>y.
           modify (ne_vec_set_f32 (nat n_padding) y v)))))))"

definition mask_causal :: "int list \<Rightarrow> int \<Rightarrow> int \<Rightarrow> int \<Rightarrow> ne_tensor \<Rightarrow> 32 word \<Rightarrow> kop" where
  "mask_causal js nz nc n_past dst v =
     for_list [0 .. nz - 1] (\<lambda>k. for_list js (\<lambda>j. for_list [n_past .. nc - 1] (\<lambda>i.
       if n_past + j < i then
         sbind (row_ptr dst 1 (off3 (nb dst) (j, k, 0) + to_size i * nb dst ! 0)) (\<lambda>y. modify (store32 y v))
       else ret ())))"

definition ne_compute_forward_diag_mask_f32 ::
  "ne_compute_params \<Rightarrow> ne_tensor \<Rightarrow> ne_tensor \<Rightarrow> ne_tensor \<Rightarrow> 32 word \<Rightarrow> kop" where
  "ne_compute_forward_diag_mask_f32 ps a b dst v =
     sbind (read_i32 b 0) (\<lambda>n_past.
     sbind (read_i32 b 1) (\<lambda>inplace.
     sseq (if inplace = 0 \<and> task ps = NE_TASK_INIT
           then sseq (ne_assert (ne_nelements dst = ne_nelements a))
               (sseq (ne_assertR (andR (ne_is_contiguous dst) (ne_is_contiguous a)))
                 (region_init False ps a dst))
           else ret ())
    (if is_init_or_finalize ps then ret ()
     else
       let bs = to_int32 (ne a ! 3); nc = to_int32 (ne a ! 0); nr = to_int32 (ne a ! 1) in
       sbind (liftR (cdiv (ne_nrows a) nr)) (\<lambda>nz.
       sbind (liftR (strided (ith ps) (nth ps) nr)) (\<lambda>js.
       sseq (mask_padding js bs nz b dst v)
         (mask_causal js nz nc n_past dst v))))))"

definition ne_compute_forward_diag_mask_inf :: "ne_compute_params \<Rightarrow> ne_tensor \<Rightarrow> ne_tensor \<Rightarrow> ne_tensor \<Rightarrow> kop" where
  "ne_compute_forward_diag_mask_inf ps a b dst = switch_f32 a (ne_compute_forward_diag_mask_f32 ps a b dst f32_minus_inf)"

definition ne_compute_forward_diag_mask_zero :: "ne_compute_params \<Rightarrow> ne_tensor \<Rightarrow> ne_tensor \<Rightarrow> ne_tensor \<Rightarrow> kop" where
  "ne_compute_forward_diag_mask_zero ps a b dst = switch_f32 a (ne_compute_forward_diag_mask_f32 ps a b dst f32_0)"

text \<open>
  \<^verbatim>\<open>ne_compute_forward_clamp_f32\<close>: the bounds are read as floats and kept in variables of type
  \<^verbatim>\<open>int\<close>; they go back to floats in the comparisons. The types the switch does not name fall
  through.
\<close>

definition clamp1 :: "farith \<Rightarrow> 32 word \<Rightarrow> 32 word \<Rightarrow> 32 word \<Rightarrow> 32 word" where
  "clamp1 fa lo hi x = (let y = (if f_less fa x hi then x else hi) in if f_less fa lo y then y else lo)"

definition ne_compute_forward_clamp_f32 ::
  "fconv \<Rightarrow> farith \<Rightarrow> ne_compute_params \<Rightarrow> ne_tensor \<Rightarrow> ne_tensor \<Rightarrow> ne_tensor \<Rightarrow> kop" where
  "ne_compute_forward_clamp_f32 fc fa ps a b dst =
     (if is_init_or_finalize ps then ret ()
      else
        sbind (row_ptr b 1 0) (\<lambda>p.
        sbind (gets (\<lambda>m. f32_to_i32 fc (load32 m p))) (\<lambda>lo.
        sbind (gets (\<lambda>m. f32_to_i32 fc (load32 m (p + 4)))) (\<lambda>hi.
        let nc = nat (to_int32 (ne a ! 0)) in
        sseq (ne_assert (nb dst ! 0 = 4))
       (sseq (ne_assert (nb a ! 0 = 4))
       (sbind (liftR (strided (ith ps) (nth ps) (ne_nrows a))) (\<lambda>js.
        for_list js (\<lambda>j.
          sbind (row_ptr dst nc (to_size j * nb dst ! 1)) (\<lambda>y.
          sbind (row_ptr a nc (to_size j * nb a ! 1)) (\<lambda>x.
          modify (vec_map1 (clamp1 fa (i32_to_f32 fc lo) (i32_to_f32 fc hi)) nc y x)))))))))))"

definition ne_compute_forward_clamp ::
  "fconv \<Rightarrow> farith \<Rightarrow> ne_compute_params \<Rightarrow> ne_tensor \<Rightarrow> ne_tensor \<Rightarrow> ne_tensor \<Rightarrow> kop" where
  "ne_compute_forward_clamp fc fa ps a b dst =
     (if ty a = NE_TYPE_F32 then ne_compute_forward_clamp_f32 fc fa ps a b dst
      else if ty a \<in> {NE_TYPE_F16, NE_TYPE_Q4_0, NE_TYPE_Q4_1, NE_TYPE_Q5_0, NE_TYPE_Q5_1, NE_TYPE_Q8_0,
        NE_TYPE_Q8_1, NE_TYPE_I8, NE_TYPE_I16, NE_TYPE_I32, NE_TYPE_COUNT} then fail NE_Assert
      else ret ())"

section \<open>Callbacks and operations without work\<close>

definition ne_compute_forward_map_unary_f32 ::
  "ne_compute_params \<Rightarrow> ne_tensor \<Rightarrow> ne_tensor \<Rightarrow> (nat \<Rightarrow> ptr \<Rightarrow> ptr \<Rightarrow> memory \<Rightarrow> memory) \<Rightarrow> kop" where
  "ne_compute_forward_map_unary_f32 ps a dst f =
     sseq (ne_assert (ne_are_same_shape a dst)) (unary_f32 f ps a dst)"

definition ne_compute_forward_map_unary ::
  "ne_compute_params \<Rightarrow> ne_tensor \<Rightarrow> ne_tensor \<Rightarrow> (nat \<Rightarrow> ptr \<Rightarrow> ptr \<Rightarrow> memory \<Rightarrow> memory) \<Rightarrow> kop" where
  "ne_compute_forward_map_unary ps a dst f = switch_f32 a (ne_compute_forward_map_unary_f32 ps a dst f)"

definition ne_compute_forward_map_binary_f32 ::
  "ne_compute_params \<Rightarrow> ne_tensor \<Rightarrow> ne_tensor \<Rightarrow> ne_tensor \<Rightarrow> (nat \<Rightarrow> ptr \<Rightarrow> ptr \<Rightarrow> ptr \<Rightarrow> memory \<Rightarrow> memory) \<Rightarrow> kop" where
  "ne_compute_forward_map_binary_f32 ps a b dst f =
     (if is_init_or_finalize ps then ret ()
      else
        let nc = nat (to_int32 (ne a ! 0)) in
        for_list [0 .. ne_nrows a - 1] (\<lambda>i.
          sbind (row_ptr dst nc (to_size i * nb dst ! 1)) (\<lambda>z.
          sbind (row_ptr a nc (to_size i * nb a ! 1)) (\<lambda>x.
          sbind (row_ptr b nc (to_size i * nb b ! 1)) (\<lambda>y.
          modify (f nc z x y))))))"

definition ne_compute_forward_map_binary ::
  "ne_compute_params \<Rightarrow> ne_tensor \<Rightarrow> ne_tensor \<Rightarrow> ne_tensor \<Rightarrow> (nat \<Rightarrow> ptr \<Rightarrow> ptr \<Rightarrow> ptr \<Rightarrow> memory \<Rightarrow> memory) \<Rightarrow> kop" where
  "ne_compute_forward_map_binary ps a b dst f = switch_f32 a (ne_compute_forward_map_binary_f32 ps a b dst f)"

definition ne_compute_forward_reshape :: "ne_compute_params \<Rightarrow> ne_tensor \<Rightarrow> ne_tensor \<Rightarrow> kop" where
  "ne_compute_forward_reshape ps a dst = ret ()"
definition ne_compute_forward_view :: "ne_compute_params \<Rightarrow> ne_tensor \<Rightarrow> kop" where
  "ne_compute_forward_view ps a = ret ()"
definition ne_compute_forward_permute :: "ne_compute_params \<Rightarrow> ne_tensor \<Rightarrow> kop" where
  "ne_compute_forward_permute ps a = ret ()"
definition ne_compute_forward_transpose :: "ne_compute_params \<Rightarrow> ne_tensor \<Rightarrow> kop" where
  "ne_compute_forward_transpose ps a = ret ()"

end
