(* ===== verification/NE_Quant.thy ===== *)
theory NE_Quant
  imports NE_Kernels
begin

text \<open>
  The block formats of \<^verbatim>\<open>vectors/cpu/quantize.h\<close>: quantizing and dequantizing rows of 32-bit
  floats, in the portable code (the reference functions, which the vector paths replace on
  processors that have them). A block is a record with the arrays of the C structure; its bytes in
  memory follow the layout of \<^verbatim>\<open>data_types.h\<close>. Float arithmetic and conversions are parameters; the
  integer codes and how they are packed are computed. A row and its blocks do not overlap.
\<close>

section \<open>Floats\<close>

record qenv =
  q_fa :: farith
  q_fc :: fconv
  f_to_i8 :: "32 word \<Rightarrow> 8 word"
  f_to_u8 :: "32 word \<Rightarrow> 8 word"
  f_round :: "32 word \<Rightarrow> 32 word"

definition of_i32 :: "qenv \<Rightarrow> int \<Rightarrow> 32 word" where
  "of_i32 e n = i32_to_f32 (q_fc e) (word_of_int n)"

abbreviation fmul :: "qenv \<Rightarrow> 32 word \<Rightarrow> 32 word \<Rightarrow> 32 word" where "fmul e \<equiv> f_mul (q_fa e)"
abbreviation fdiv :: "qenv \<Rightarrow> 32 word \<Rightarrow> 32 word \<Rightarrow> 32 word" where "fdiv e \<equiv> f_div (q_fa e)"
abbreviation fadd :: "qenv \<Rightarrow> 32 word \<Rightarrow> 32 word \<Rightarrow> 32 word" where "fadd e \<equiv> f_add (q_fa e)"
abbreviation fsub :: "qenv \<Rightarrow> 32 word \<Rightarrow> 32 word \<Rightarrow> 32 word" where "fsub e \<equiv> f_sub (q_fa e)"
abbreviation fless :: "qenv \<Rightarrow> 32 word \<Rightarrow> 32 word \<Rightarrow> bool" where "fless e \<equiv> f_less (q_fa e)"
abbreviation to_f16 :: "qenv \<Rightarrow> 32 word \<Rightarrow> 16 word" where "to_f16 e \<equiv> fp32_to_fp16 (q_fc e)"
abbreviation of_f16 :: "qenv \<Rightarrow> 16 word \<Rightarrow> 32 word" where "of_f16 e \<equiv> fp16_to_fp32 (q_fc e)"

definition f32_half :: "32 word" where "f32_half = 0x3F000000"
definition f32_8_5 :: "32 word" where "f32_8_5 = 0x41080000"
definition f32_16_5 :: "32 word" where "f32_16_5 = 0x41840000"
definition f32_FLT_MAX :: "32 word" where "f32_FLT_MAX = 0x7F7FFFFF"
definition f32_minus_FLT_MAX :: "32 word" where "f32_minus_FLT_MAX = 0xFF7FFFFF"
definition f32_0_1 :: "32 word" where "f32_0_1 = 0x3DCCCCCD"
definition f32_1e_30 :: "32 word" where "f32_1e_30 = 0x0DA24260"
definition f32_12582912 :: "32 word" where "f32_12582912 = 0x4B400000"
definition f32_minus_128 :: "32 word" where "f32_minus_128 = 0xC3000000"

text \<open>A float as a condition: neither of the two zeros.\<close>

definition f32_true :: "32 word \<Rightarrow> bool" where "f32_true x \<longleftrightarrow> x AND 0x7FFFFFFF \<noteq> 0"

text \<open>The element of largest magnitude (\<^verbatim>\<open>amax\<close>, \<^verbatim>\<open>max\<close>), the magnitude alone, and the range.\<close>

definition abs_max :: "qenv \<Rightarrow> 32 word list \<Rightarrow> 32 word \<times> 32 word" where
  "abs_max e xs = fold (\<lambda>v (amax, mx). if fless e amax (f_abs v) then (f_abs v, v) else (amax, mx)) xs (f32_0, f32_0)"

definition magnitude :: "qenv \<Rightarrow> 32 word list \<Rightarrow> 32 word" where
  "magnitude e xs = fold (\<lambda>v amax. if fless e (f_abs v) amax then amax else f_abs v) xs f32_0"

definition min_max :: "qenv \<Rightarrow> 32 word list \<Rightarrow> 32 word \<times> 32 word" where
  "min_max e xs = fold (\<lambda>v (mn, mx). (if fless e v mn then v else mn, if fless e mx v then v else mx)) xs
     (f32_FLT_MAX, f32_minus_FLT_MAX)"

definition inverse_of :: "qenv \<Rightarrow> 32 word \<Rightarrow> 32 word" where
  "inverse_of e d = (if f32_true d then fdiv e f32_1 d else f32_0)"

section \<open>Blocks\<close>

record block_q4_0 =
  q4_0_d :: "16 word"
  q4_0_qs :: "byte list"

record block_q4_1 =
  q4_1_d :: "16 word"
  q4_1_m :: "16 word"
  q4_1_qs :: "byte list"

record block_q5_0 =
  q5_0_d :: "16 word"
  q5_0_qh :: "32 word"
  q5_0_qs :: "byte list"

record block_q5_1 =
  q5_1_d :: "16 word"
  q5_1_m :: "16 word"
  q5_1_qh :: "32 word"
  q5_1_qs :: "byte list"

record block_q8_0 =
  q8_0_d :: "16 word"
  q8_0_qs :: "byte list"

record block_q8_1 =
  q8_1_d :: "32 word"
  q8_1_s :: "32 word"
  q8_1_qs :: "byte list"

record block_q6_K =
  q6_K_ql :: "byte list"
  q6_K_qh :: "byte list"
  q6_K_scales :: "byte list"
  q6_K_d :: "16 word"

record block_q8_K =
  q8_K_d :: "32 word"
  q8_K_qs :: "byte list"
  q8_K_bsums :: "16 word list"

text \<open>\<^verbatim>\<open>MIN(n, (int8_t)v)\<close> in a \<^verbatim>\<open>uint8_t\<close>.\<close>

definition min_code :: "int \<Rightarrow> 8 word \<Rightarrow> byte" where
  "min_code n v = word_of_int (min n (sint v))"

text \<open>Two codes in a byte, for the codes \<open>xi\<close> of a block of \<open>2 * h\<close>; the fifth bits of 32 codes.\<close>

definition pack_nibbles :: "nat \<Rightarrow> (nat \<Rightarrow> byte) \<Rightarrow> byte list" where
  "pack_nibbles h xi = map (\<lambda>j. xi j OR push_bit 4 (xi (h + j))) [0..<h]"

definition pack_low_nibbles :: "nat \<Rightarrow> (nat \<Rightarrow> byte) \<Rightarrow> byte list" where
  "pack_low_nibbles h xi = map (\<lambda>j. (xi j AND 0x0F) OR push_bit 4 (xi (h + j) AND 0x0F)) [0..<h]"

definition fifth_bit :: "byte \<Rightarrow> 32 word" where
  "fifth_bit c = drop_bit 4 (ucast c AND 0x10)"

definition pack_fifth_bits :: "(nat \<Rightarrow> byte) \<Rightarrow> 32 word" where
  "pack_fifth_bits xi =
     fold (\<lambda>j qh. (qh OR push_bit j (fifth_bit (xi j))) OR push_bit (j + 16) (fifth_bit (xi (j + 16)))) [0..<16] 0"

text \<open>\<^verbatim>\<open>xh_0\<close> and \<^verbatim>\<open>xh_1\<close>: the fifth bit of code \<open>j\<close> and of code \<open>16 + j\<close>, at its place.\<close>

definition xh_0 :: "32 word \<Rightarrow> nat \<Rightarrow> byte" where
  "xh_0 qh j = ucast (push_bit 4 (drop_bit j qh) AND 0x10)"

definition xh_1 :: "32 word \<Rightarrow> nat \<Rightarrow> byte" where
  "xh_1 qh j = ucast (drop_bit (j + 12) qh AND 0x10)"

section \<open>Quantizing a block\<close>

definition q4_0_code :: "qenv \<Rightarrow> 32 word \<Rightarrow> 32 word \<Rightarrow> byte" where
  "q4_0_code e inv_d v = min_code 15 (f_to_i8 e (fadd e (fmul e v inv_d) f32_8_5))"

definition quantize_block_q4_0 :: "qenv \<Rightarrow> 32 word list \<Rightarrow> block_q4_0" where
  "quantize_block_q4_0 e xs =
     (let d = fdiv e (snd (abs_max e xs)) (of_i32 e (- 8)); inv_d = inverse_of e d in
      \<lparr>q4_0_d = to_f16 e d, q4_0_qs = pack_nibbles 16 (\<lambda>j. q4_0_code e inv_d (xs ! j))\<rparr>)"

definition q4_1_code :: "qenv \<Rightarrow> 32 word \<Rightarrow> 32 word \<Rightarrow> 32 word \<Rightarrow> byte" where
  "q4_1_code e mn inv_d v = min_code 15 (f_to_i8 e (fadd e (fmul e (fsub e v mn) inv_d) f32_half))"

definition quantize_block_q4_1 :: "qenv \<Rightarrow> 32 word list \<Rightarrow> block_q4_1" where
  "quantize_block_q4_1 e xs =
     (case min_max e xs of (mn, mx) \<Rightarrow>
      let d = fdiv e (fsub e mx mn) (of_i32 e 15); inv_d = inverse_of e d in
      \<lparr>q4_1_d = to_f16 e d, q4_1_m = to_f16 e mn, q4_1_qs = pack_nibbles 16 (\<lambda>j. q4_1_code e mn inv_d (xs ! j))\<rparr>)"

definition q5_0_code :: "qenv \<Rightarrow> 32 word \<Rightarrow> 32 word \<Rightarrow> byte" where
  "q5_0_code e inv_d v = min_code 31 (f_to_i8 e (fadd e (fmul e v inv_d) f32_16_5))"

definition quantize_block_q5_0 :: "qenv \<Rightarrow> 32 word list \<Rightarrow> block_q5_0" where
  "quantize_block_q5_0 e xs =
     (let d = fdiv e (snd (abs_max e xs)) (of_i32 e (- 16)); inv_d = inverse_of e d;
          xi = (\<lambda>j. q5_0_code e inv_d (xs ! j)) in
      \<lparr>q5_0_d = to_f16 e d, q5_0_qh = pack_fifth_bits xi, q5_0_qs = pack_low_nibbles 16 xi\<rparr>)"

definition q5_1_code :: "qenv \<Rightarrow> 32 word \<Rightarrow> 32 word \<Rightarrow> 32 word \<Rightarrow> byte" where
  "q5_1_code e mn inv_d v = f_to_u8 e (fadd e (fmul e (fsub e v mn) inv_d) f32_half)"

definition quantize_block_q5_1 :: "qenv \<Rightarrow> 32 word list \<Rightarrow> block_q5_1" where
  "quantize_block_q5_1 e xs =
     (case min_max e xs of (mn, mx) \<Rightarrow>
      let d = fdiv e (fsub e mx mn) (of_i32 e 31); inv_d = inverse_of e d;
          xi = (\<lambda>j. q5_1_code e mn inv_d (xs ! j)) in
      \<lparr>q5_1_d = to_f16 e d, q5_1_m = to_f16 e mn, q5_1_qh = pack_fifth_bits xi, q5_1_qs = pack_low_nibbles 16 xi\<rparr>)"

definition q8_code :: "qenv \<Rightarrow> 32 word \<Rightarrow> 32 word \<Rightarrow> byte" where
  "q8_code e inv_d v = f_to_i8 e (f_round e (fmul e v inv_d))"

definition quantize_block_q8_0 :: "qenv \<Rightarrow> 32 word list \<Rightarrow> block_q8_0" where
  "quantize_block_q8_0 e xs =
     (let d = fdiv e (magnitude e xs) (of_i32 e 127); inv_d = inverse_of e d in
      \<lparr>q8_0_d = to_f16 e d, q8_0_qs = map (\<lambda>j. q8_code e inv_d (xs ! j)) [0..<32]\<rparr>)"

text \<open>The sum of the codes, in the order of the loop.\<close>

definition q8_1_sum :: "byte list \<Rightarrow> int" where
  "q8_1_sum qs = fold (\<lambda>j acc. acc + sint (qs ! j) + sint (qs ! (16 + j))) [0..<16] 0"

definition quantize_block_q8_1 :: "qenv \<Rightarrow> 32 word list \<Rightarrow> block_q8_1" where
  "quantize_block_q8_1 e xs =
     (let d = fdiv e (magnitude e xs) (of_i32 e 127); inv_d = inverse_of e d;
          qs = map (\<lambda>j. q8_code e inv_d (xs ! j)) [0..<32] in
      \<lparr>q8_1_d = d, q8_1_s = fmul e (of_i32 e (q8_1_sum qs)) d, q8_1_qs = qs\<rparr>)"

section \<open>Dequantizing a block\<close>

definition dequantize_block_q4_0 :: "qenv \<Rightarrow> block_q4_0 \<Rightarrow> 32 word list" where
  "dequantize_block_q4_0 e b =
     (let d = of_f16 e (q4_0_d b) in
      map (\<lambda>j. fmul e (of_i32 e (uint (q4_0_qs b ! j AND 0x0F) - 8)) d) [0..<16] @
      map (\<lambda>j. fmul e (of_i32 e (uint (drop_bit 4 (q4_0_qs b ! j)) - 8)) d) [0..<16])"

definition dequantize_block_q4_1 :: "qenv \<Rightarrow> block_q4_1 \<Rightarrow> 32 word list" where
  "dequantize_block_q4_1 e b =
     (let d = of_f16 e (q4_1_d b); mn = of_f16 e (q4_1_m b) in
      map (\<lambda>j. fadd e (fmul e (of_i32 e (uint (q4_1_qs b ! j AND 0x0F))) d) mn) [0..<16] @
      map (\<lambda>j. fadd e (fmul e (of_i32 e (uint (drop_bit 4 (q4_1_qs b ! j)))) d) mn) [0..<16])"

definition dequantize_block_q5_0 :: "qenv \<Rightarrow> block_q5_0 \<Rightarrow> 32 word list" where
  "dequantize_block_q5_0 e b =
     (let d = of_f16 e (q5_0_d b) in
      map (\<lambda>j. fmul e (of_i32 e (uint ((q5_0_qs b ! j AND 0x0F) OR xh_0 (q5_0_qh b) j) - 16)) d) [0..<16] @
      map (\<lambda>j. fmul e (of_i32 e (uint (drop_bit 4 (q5_0_qs b ! j) OR xh_1 (q5_0_qh b) j) - 16)) d) [0..<16])"

definition dequantize_block_q5_1 :: "qenv \<Rightarrow> block_q5_1 \<Rightarrow> 32 word list" where
  "dequantize_block_q5_1 e b =
     (let d = of_f16 e (q5_1_d b); mn = of_f16 e (q5_1_m b) in
      map (\<lambda>j. fadd e (fmul e (of_i32 e (uint ((q5_1_qs b ! j AND 0x0F) OR xh_0 (q5_1_qh b) j))) d) mn) [0..<16] @
      map (\<lambda>j. fadd e (fmul e (of_i32 e (uint (drop_bit 4 (q5_1_qs b ! j) OR xh_1 (q5_1_qh b) j))) d) mn) [0..<16])"

definition dequantize_block_q8_0 :: "qenv \<Rightarrow> block_q8_0 \<Rightarrow> 32 word list" where
  "dequantize_block_q8_0 e b = map (\<lambda>j. fmul e (of_i32 e (sint (q8_0_qs b ! j))) (of_f16 e (q8_0_d b))) [0..<32]"

section \<open>Super-blocks\<close>

text \<open>\<^verbatim>\<open>nearest_int\<close> reads the rounded value from the mantissa of a float.\<close>

definition nearest_int :: "qenv \<Rightarrow> 32 word \<Rightarrow> int" where
  "nearest_int e v = uint (fadd e v f32_12582912 AND 0x007FFFFF) - 0x00400000"

definition clip_code :: "int \<Rightarrow> int \<Rightarrow> int" where
  "clip_code nmax l = max (- nmax) (min (nmax - 1) l)"

definition qx_code :: "qenv \<Rightarrow> int \<Rightarrow> 32 word \<Rightarrow> 32 word \<Rightarrow> int" where
  "qx_code e nmax iscale v = clip_code nmax (nearest_int e (fmul e iscale v))"

text \<open>\<^verbatim>\<open>sumlx\<close> and \<^verbatim>\<open>suml2\<close> of one candidate scale.\<close>

definition qx_sums :: "qenv \<Rightarrow> int \<Rightarrow> bool \<Rightarrow> 32 word list \<Rightarrow> 32 word \<Rightarrow> 32 word \<times> 32 word" where
  "qx_sums e nmax weighted xs iscale =
     fold (\<lambda>v (sumlx, suml2).
       let l = of_i32 e (qx_code e nmax iscale v); w = (if weighted then fmul e v v else of_i32 e 1) in
       (fadd e sumlx (fmul e (fmul e w v) l), fadd e suml2 (fmul e (fmul e w l) l))) xs (f32_0, f32_0)"

definition qx_try :: "qenv \<Rightarrow> int \<Rightarrow> bool \<Rightarrow> 32 word list \<Rightarrow> 32 word \<Rightarrow> int \<Rightarrow>
    int list \<times> 32 word \<times> 32 word \<Rightarrow> int list \<times> 32 word \<times> 32 word" where
  "qx_try e nmax weighted xs mx is st = (case st of (ls, scale, best) \<Rightarrow>
     if is = 0 then st
     else
       let iscale = fdiv e (f_neg (fadd e (of_i32 e nmax) (fmul e f32_0_1 (of_i32 e is)))) mx in
       case qx_sums e nmax weighted xs iscale of (sumlx, suml2) \<Rightarrow>
       if f32_pos suml2 \<and> fless e (fmul e best suml2) (fmul e sumlx sumlx) then
         let scale' = fdiv e sumlx suml2 in
         (map (\<lambda>v. nmax + qx_code e nmax iscale v) xs, scale', fmul e scale' sumlx)
       else st)"

definition qx_candidates :: "int list" where "qx_candidates = [-9..9]"

definition make_qx_quants :: "qenv \<Rightarrow> int \<Rightarrow> 32 word list \<Rightarrow> int \<Rightarrow> int list \<times> 32 word" where
  "make_qx_quants e nmax xs rmse_type =
     (case abs_max e xs of (amax, mx) \<Rightarrow>
      if fless e amax f32_1e_30 then (map (\<lambda>_. 0) xs, f32_0)
      else
        let iscale = fdiv e (of_i32 e (- nmax)) mx;
            ls = map (\<lambda>v. nmax + qx_code e nmax iscale v) xs;
            weighted = (\<bar>rmse_type\<bar> mod 2 = 1) in
        if rmse_type = 0 then (ls, fdiv e (of_i32 e 1) iscale)
        else
          case qx_sums e nmax weighted xs iscale of (sumlx, suml2) \<Rightarrow>
          let scale = fdiv e sumlx suml2 in
          if rmse_type < 0 then
            (ls, if f32_pos suml2 then fmul e f32_half (fadd e scale (fdiv e (of_i32 e 1) iscale))
                 else fdiv e (of_i32 e 1) iscale)
          else
            case fold (qx_try e nmax weighted xs mx) qx_candidates (ls, scale, fmul e scale sumlx) of
              (ls, scale, _) \<Rightarrow> (ls, scale))"

text \<open>
  Six bits per code: the low four in \<^verbatim>\<open>ql\<close>, two codes to a byte, the high two in \<^verbatim>\<open>qh\<close>, four codes to a
  byte, for each half of 128 codes.
\<close>

definition pack_ql :: "(nat \<Rightarrow> byte) \<Rightarrow> byte list" where
  "pack_ql ls = concat (map (\<lambda>j.
     map (\<lambda>l. (ls (j + l) AND 0xF) OR push_bit 4 (ls (j + l + 64) AND 0xF)) [0..<32] @
     map (\<lambda>l. (ls (j + l + 32) AND 0xF) OR push_bit 4 (ls (j + l + 96) AND 0xF)) [0..<32]) [0, 128])"

definition pack_qh :: "(nat \<Rightarrow> byte) \<Rightarrow> byte list" where
  "pack_qh ls = concat (map (\<lambda>j. map (\<lambda>l.
     ((signed_drop_bit 4 (ls (j + l)) OR push_bit 2 (signed_drop_bit 4 (ls (j + l + 32)))) OR
      push_bit 4 (signed_drop_bit 4 (ls (j + l + 64)))) OR push_bit 6 (signed_drop_bit 4 (ls (j + l + 96)))) [0..<32])
     [0, 128])"

text \<open>The largest scale, and the second pass that rounds the codes for the stored scale.\<close>

definition max_scale :: "qenv \<Rightarrow> 32 word list \<Rightarrow> 32 word \<times> 32 word" where
  "max_scale e scales = fold (\<lambda>s (mabs, mx). if fless e mabs (f_abs s) then (f_abs s, s) else (mabs, mx)) scales (f32_0, f32_0)"

definition requantize :: "qenv \<Rightarrow> 32 word \<Rightarrow> 32 word list \<Rightarrow> int list \<Rightarrow> int list" where
  "requantize e d xs ls = (if f32_true d then map (\<lambda>v. clip_code 32 (nearest_int e (fdiv e v d)) + 32) xs else ls)"

definition q6_K_part :: "32 word list \<Rightarrow> nat \<Rightarrow> 32 word list" where
  "q6_K_part xs ib = take 16 (drop (16 * ib) xs)"

definition q6_K_codes :: "qenv \<Rightarrow> 32 word list \<Rightarrow> 16 word \<Rightarrow> byte list \<Rightarrow> int list" where
  "q6_K_codes e xs d sc = concat (map (\<lambda>j. requantize e (fmul e (of_f16 e d) (of_i32 e (sint (sc ! j)))) (q6_K_part xs j)
     (fst (make_qx_quants e 32 (q6_K_part xs j) 1))) [0..<16])"

definition quantize_block_q6_K :: "qenv \<Rightarrow> 32 word list \<Rightarrow> block_q6_K" where
  "quantize_block_q6_K e xs =
     (let scales = map (\<lambda>ib. snd (make_qx_quants e 32 (q6_K_part xs ib) 1)) [0..<16] in
      case max_scale e scales of (mabs, mx) \<Rightarrow>
      if \<not> f32_true mabs then
        \<lparr>q6_K_ql = replicate 128 0, q6_K_qh = replicate 64 0, q6_K_scales = replicate 16 0, q6_K_d = to_f16 e f32_0\<rparr>
      else
        let iscale = fdiv e f32_minus_128 mx;
            d = to_f16 e (fdiv e (of_i32 e 1) iscale);
            sc = map (\<lambda>s. word_of_int (min 127 (nearest_int e (fmul e iscale s)))) scales;
            code = (\<lambda>i. word_of_int (q6_K_codes e xs d sc ! i)) in
        \<lparr>q6_K_ql = pack_ql code, q6_K_qh = pack_qh code, q6_K_scales = sc, q6_K_d = d\<rparr>)"

text \<open>Code \<open>k\<close> of the four that share the bytes at \<open>l\<close> in the half with offsets \<open>lo\<close> and \<open>hi\<close>.\<close>

definition q6_code :: "byte list \<Rightarrow> byte list \<Rightarrow> nat \<Rightarrow> nat \<Rightarrow> nat \<Rightarrow> nat \<Rightarrow> int" where
  "q6_code ql qh lo hi k l =
     (let low = (if k < 2 then ql ! (lo + 32 * k + l) AND 0xF else drop_bit 4 (ql ! (lo + 32 * (k - 2) + l)));
          high = drop_bit (2 * k) (qh ! (hi + l)) AND 3 in
      sint (low OR push_bit 4 high) - 32)"

definition dequantize_block_q6_K :: "qenv \<Rightarrow> block_q6_K \<Rightarrow> 32 word list" where
  "dequantize_block_q6_K e b =
     (let d = of_f16 e (q6_K_d b) in
      concat (map (\<lambda>n. concat (map (\<lambda>k. map (\<lambda>l.
        fmul e (fmul e d (of_i32 e (sint (q6_K_scales b ! (8 * n + l div 16 + 2 * k)))))
          (of_i32 e (q6_code (q6_K_ql b) (q6_K_qh b) (64 * n) (32 * n) k l))) [0..<32]) [0..<4])) [0..<2]))"

definition quantize_block_q8_K :: "qenv \<Rightarrow> 32 word list \<Rightarrow> block_q8_K \<Rightarrow> block_q8_K" where
  "quantize_block_q8_K e xs b =
     (case abs_max e xs of (amax, mx) \<Rightarrow>
      if \<not> f32_true amax then b\<lparr>q8_K_d := f32_0, q8_K_qs := replicate 256 0\<rparr>
      else
        let iscale = fdiv e f32_minus_128 mx;
            qs = map (\<lambda>v. word_of_int (min 127 (nearest_int e (fmul e iscale v))) :: byte) xs in
        \<lparr>q8_K_d = fdiv e (of_i32 e 1) iscale, q8_K_qs = qs,
         q8_K_bsums = map (\<lambda>j. word_of_int (sum_list (map (\<lambda>ii. sint (qs ! (j * 16 + ii))) [0..<16]))) [0..<16]\<rparr>)"

definition dequantize_block_q8_K :: "qenv \<Rightarrow> block_q8_K \<Rightarrow> 32 word list" where
  "dequantize_block_q8_K e b = map (\<lambda>q. fmul e (q8_K_d b) (of_i32 e (sint q))) (q8_K_qs b)"

section \<open>Blocks in memory\<close>

definition load_bytes :: "memory \<Rightarrow> ptr \<Rightarrow> nat \<Rightarrow> byte list" where
  "load_bytes m p n = map (\<lambda>k. m (p + k)) [0..<n]"

definition store_bytes :: "ptr \<Rightarrow> byte list \<Rightarrow> memory \<Rightarrow> memory" where
  "store_bytes p bs m = (\<lambda>a. if p \<le> a \<and> a < p + length bs then bs ! (a - p) else m a)"

definition load_floats :: "memory \<Rightarrow> ptr \<Rightarrow> nat \<Rightarrow> 32 word list" where
  "load_floats m p n = map (\<lambda>j. load32 m (p + 4 * j)) [0..<n]"

definition bytes16 :: "16 word \<Rightarrow> byte list" where
  "bytes16 w = [ucast w, ucast (drop_bit 8 w)]"

definition bytes32 :: "32 word \<Rightarrow> byte list" where
  "bytes32 w = map (byte_of w) [0..<4]"

definition word16_at :: "byte list \<Rightarrow> nat \<Rightarrow> 16 word" where
  "word16_at bs k = ucast (bs ! k) OR push_bit 8 (ucast (bs ! (k + 1)))"

definition word32_at :: "byte list \<Rightarrow> nat \<Rightarrow> 32 word" where
  "word32_at bs k = load32 (\<lambda>a. bs ! a) k"

definition field :: "byte list \<Rightarrow> nat \<Rightarrow> nat \<Rightarrow> byte list" where
  "field bs k n = take n (drop k bs)"

definition bytes_q4_0 :: "block_q4_0 \<Rightarrow> byte list" where
  "bytes_q4_0 b = bytes16 (q4_0_d b) @ q4_0_qs b"
definition block_q4_0_at :: "byte list \<Rightarrow> block_q4_0" where
  "block_q4_0_at bs = \<lparr>q4_0_d = word16_at bs 0, q4_0_qs = field bs 2 16\<rparr>"

definition bytes_q4_1 :: "block_q4_1 \<Rightarrow> byte list" where
  "bytes_q4_1 b = bytes16 (q4_1_d b) @ bytes16 (q4_1_m b) @ q4_1_qs b"
definition block_q4_1_at :: "byte list \<Rightarrow> block_q4_1" where
  "block_q4_1_at bs = \<lparr>q4_1_d = word16_at bs 0, q4_1_m = word16_at bs 2, q4_1_qs = field bs 4 16\<rparr>"

definition bytes_q5_0 :: "block_q5_0 \<Rightarrow> byte list" where
  "bytes_q5_0 b = bytes16 (q5_0_d b) @ bytes32 (q5_0_qh b) @ q5_0_qs b"
definition block_q5_0_at :: "byte list \<Rightarrow> block_q5_0" where
  "block_q5_0_at bs = \<lparr>q5_0_d = word16_at bs 0, q5_0_qh = word32_at bs 2, q5_0_qs = field bs 6 16\<rparr>"

definition bytes_q5_1 :: "block_q5_1 \<Rightarrow> byte list" where
  "bytes_q5_1 b = bytes16 (q5_1_d b) @ bytes16 (q5_1_m b) @ bytes32 (q5_1_qh b) @ q5_1_qs b"
definition block_q5_1_at :: "byte list \<Rightarrow> block_q5_1" where
  "block_q5_1_at bs = \<lparr>q5_1_d = word16_at bs 0, q5_1_m = word16_at bs 2, q5_1_qh = word32_at bs 4, q5_1_qs = field bs 8 16\<rparr>"

definition bytes_q8_0 :: "block_q8_0 \<Rightarrow> byte list" where
  "bytes_q8_0 b = bytes16 (q8_0_d b) @ q8_0_qs b"
definition block_q8_0_at :: "byte list \<Rightarrow> block_q8_0" where
  "block_q8_0_at bs = \<lparr>q8_0_d = word16_at bs 0, q8_0_qs = field bs 2 32\<rparr>"

definition bytes_q8_1 :: "block_q8_1 \<Rightarrow> byte list" where
  "bytes_q8_1 b = bytes32 (q8_1_d b) @ bytes32 (q8_1_s b) @ q8_1_qs b"
definition block_q8_1_at :: "byte list \<Rightarrow> block_q8_1" where
  "block_q8_1_at bs = \<lparr>q8_1_d = word32_at bs 0, q8_1_s = word32_at bs 4, q8_1_qs = field bs 8 32\<rparr>"

definition bytes_q6_K :: "block_q6_K \<Rightarrow> byte list" where
  "bytes_q6_K b = q6_K_ql b @ q6_K_qh b @ q6_K_scales b @ bytes16 (q6_K_d b)"
definition block_q6_K_at :: "byte list \<Rightarrow> block_q6_K" where
  "block_q6_K_at bs = \<lparr>q6_K_ql = field bs 0 128, q6_K_qh = field bs 128 64, q6_K_scales = field bs 192 16, q6_K_d = word16_at bs 208\<rparr>"

definition bytes_q8_K :: "block_q8_K \<Rightarrow> byte list" where
  "bytes_q8_K b = bytes32 (q8_K_d b) @ q8_K_qs b @ concat (map bytes16 (q8_K_bsums b))"
definition block_q8_K_at :: "byte list \<Rightarrow> block_q8_K" where
  "block_q8_K_at bs = \<lparr>q8_K_d = word32_at bs 0, q8_K_qs = field bs 4 256, q8_K_bsums = map (\<lambda>j. word16_at bs (260 + 2 * j)) [0..<16]\<rparr>"

section \<open>Rows\<close>

text \<open>
  The loop over the blocks of a row of \<open>k\<close> elements: \<open>qk\<close> elements and \<open>sz\<close> bytes per block. The
  encoder of \<^verbatim>\<open>Q8_K\<close> leaves some bytes of a block as they are, so encoders see the old bytes.
\<close>

type_synonym row_fn = "nat \<Rightarrow> ptr \<Rightarrow> ptr \<Rightarrow> memory \<Rightarrow> memory"

definition quantize_blocks :: "nat \<Rightarrow> nat \<Rightarrow> (32 word list \<Rightarrow> byte list \<Rightarrow> byte list) \<Rightarrow> row_fn" where
  "quantize_blocks qk sz enc k x y = fold (\<lambda>i m.
     store_bytes (y + sz * i) (enc (load_floats m (x + 4 * (qk * i)) qk) (load_bytes m (y + sz * i) sz)) m) [0..<k div qk]"

definition dequantize_blocks :: "nat \<Rightarrow> nat \<Rightarrow> (byte list \<Rightarrow> 32 word list) \<Rightarrow> row_fn" where
  "dequantize_blocks qk sz dec k x y = fold (\<lambda>i m.
     store32_list (y + 4 * (qk * i)) (dec (load_bytes m (x + sz * i) sz)) m) [0..<k div qk]"

definition quantize_row_q4_0_reference :: "qenv \<Rightarrow> row_fn" where
  "quantize_row_q4_0_reference e = quantize_blocks QK4_0 sizeof_block_q4_0 (\<lambda>xs _. bytes_q4_0 (quantize_block_q4_0 e xs))"

definition quantize_row_q4_0 :: "qenv \<Rightarrow> row_fn" where
  "quantize_row_q4_0 = quantize_row_q4_0_reference"

definition quantize_row_q4_1_reference :: "qenv \<Rightarrow> row_fn" where
  "quantize_row_q4_1_reference e = quantize_blocks QK4_1 sizeof_block_q4_1 (\<lambda>xs _. bytes_q4_1 (quantize_block_q4_1 e xs))"

definition quantize_row_q4_1 :: "qenv \<Rightarrow> row_fn" where
  "quantize_row_q4_1 = quantize_row_q4_1_reference"

definition quantize_row_q5_0_reference :: "qenv \<Rightarrow> row_fn" where
  "quantize_row_q5_0_reference e = quantize_blocks QK5_0 sizeof_block_q5_0 (\<lambda>xs _. bytes_q5_0 (quantize_block_q5_0 e xs))"

definition quantize_row_q5_0 :: "qenv \<Rightarrow> row_fn" where
  "quantize_row_q5_0 = quantize_row_q5_0_reference"

definition quantize_row_q5_1_reference :: "qenv \<Rightarrow> row_fn" where
  "quantize_row_q5_1_reference e = quantize_blocks QK5_1 sizeof_block_q5_1 (\<lambda>xs _. bytes_q5_1 (quantize_block_q5_1 e xs))"

definition quantize_row_q5_1 :: "qenv \<Rightarrow> row_fn" where
  "quantize_row_q5_1 = quantize_row_q5_1_reference"

definition quantize_row_q8_0_reference :: "qenv \<Rightarrow> row_fn" where
  "quantize_row_q8_0_reference e = quantize_blocks QK8_0 sizeof_block_q8_0 (\<lambda>xs _. bytes_q8_0 (quantize_block_q8_0 e xs))"

definition quantize_row_q8_1_reference :: "qenv \<Rightarrow> row_fn" where
  "quantize_row_q8_1_reference e = quantize_blocks QK8_1 sizeof_block_q8_1 (\<lambda>xs _. bytes_q8_1 (quantize_block_q8_1 e xs))"

definition quantize_row_q6_K_reference :: "qenv \<Rightarrow> row_fn" where
  "quantize_row_q6_K_reference e = quantize_blocks QK_K sizeof_block_q6_K (\<lambda>xs _. bytes_q6_K (quantize_block_q6_K e xs))"

definition quantize_row_q6_K :: "qenv \<Rightarrow> row_fn" where
  "quantize_row_q6_K = quantize_row_q6_K_reference"

definition quantize_row_q8_K_reference :: "qenv \<Rightarrow> row_fn" where
  "quantize_row_q8_K_reference e = quantize_blocks QK_K sizeof_block_q8_K
     (\<lambda>xs old. bytes_q8_K (quantize_block_q8_K e xs (block_q8_K_at old)))"

definition quantize_row_q8_K :: "qenv \<Rightarrow> row_fn" where
  "quantize_row_q8_K = quantize_row_q8_K_reference"

text \<open>The portable branches, which call the reference functions.\<close>

definition quantize_row_q8_0 :: "qenv \<Rightarrow> row_fn" where
  "quantize_row_q8_0 = quantize_row_q8_0_reference"

definition quantize_row_q8_1 :: "qenv \<Rightarrow> row_fn" where
  "quantize_row_q8_1 = quantize_row_q8_1_reference"

definition dequantize_row_q4_0 :: "qenv \<Rightarrow> row_fn" where
  "dequantize_row_q4_0 e = dequantize_blocks QK4_0 sizeof_block_q4_0 (\<lambda>bs. dequantize_block_q4_0 e (block_q4_0_at bs))"

definition dequantize_row_q4_1 :: "qenv \<Rightarrow> row_fn" where
  "dequantize_row_q4_1 e = dequantize_blocks QK4_1 sizeof_block_q4_1 (\<lambda>bs. dequantize_block_q4_1 e (block_q4_1_at bs))"

definition dequantize_row_q5_0 :: "qenv \<Rightarrow> row_fn" where
  "dequantize_row_q5_0 e = dequantize_blocks QK5_0 sizeof_block_q5_0 (\<lambda>bs. dequantize_block_q5_0 e (block_q5_0_at bs))"

definition dequantize_row_q5_1 :: "qenv \<Rightarrow> row_fn" where
  "dequantize_row_q5_1 e = dequantize_blocks QK5_1 sizeof_block_q5_1 (\<lambda>bs. dequantize_block_q5_1 e (block_q5_1_at bs))"

definition dequantize_row_q8_0 :: "qenv \<Rightarrow> row_fn" where
  "dequantize_row_q8_0 e = dequantize_blocks QK8_0 sizeof_block_q8_0 (\<lambda>bs. dequantize_block_q8_0 e (block_q8_0_at bs))"

definition dequantize_row_q6_K :: "qenv \<Rightarrow> row_fn" where
  "dequantize_row_q6_K e = dequantize_blocks QK_K sizeof_block_q6_K (\<lambda>bs. dequantize_block_q6_K e (block_q6_K_at bs))"

definition dequantize_row_q8_K :: "qenv \<Rightarrow> row_fn" where
  "dequantize_row_q8_K e = dequantize_blocks QK_K sizeof_block_q8_K (\<lambda>bs. dequantize_block_q8_K e (block_q8_K_at bs))"

text \<open>The table of row functions; an entry that the code leaves out is a null pointer.\<close>

record quantize_fns_t =
  fn_dequantize_row :: "row_fn option"
  fn_quantize_row :: "row_fn option"
  fn_quantize_row_dot :: "row_fn option"

definition quantize_fns :: "qenv \<Rightarrow> ne_type \<Rightarrow> quantize_fns_t" where
  "quantize_fns e type = (case type of
     NE_TYPE_Q4_0 \<Rightarrow> \<lparr>fn_dequantize_row = Some (dequantize_row_q4_0 e), fn_quantize_row = Some (quantize_row_q4_0 e), fn_quantize_row_dot = Some (quantize_row_q8_0 e)\<rparr>
   | NE_TYPE_Q4_1 \<Rightarrow> \<lparr>fn_dequantize_row = Some (dequantize_row_q4_1 e), fn_quantize_row = Some (quantize_row_q4_1 e), fn_quantize_row_dot = Some (quantize_row_q8_1 e)\<rparr>
   | NE_TYPE_Q5_0 \<Rightarrow> \<lparr>fn_dequantize_row = Some (dequantize_row_q5_0 e), fn_quantize_row = Some (quantize_row_q5_0 e), fn_quantize_row_dot = Some (quantize_row_q8_0 e)\<rparr>
   | NE_TYPE_Q5_1 \<Rightarrow> \<lparr>fn_dequantize_row = Some (dequantize_row_q5_1 e), fn_quantize_row = Some (quantize_row_q5_1 e), fn_quantize_row_dot = Some (quantize_row_q8_1 e)\<rparr>
   | NE_TYPE_Q8_0 \<Rightarrow> \<lparr>fn_dequantize_row = Some (dequantize_row_q8_0 e), fn_quantize_row = Some (quantize_row_q8_0 e), fn_quantize_row_dot = Some (quantize_row_q8_0 e)\<rparr>
   | NE_TYPE_Q8_1 \<Rightarrow> \<lparr>fn_dequantize_row = None, fn_quantize_row = Some (quantize_row_q8_1 e), fn_quantize_row_dot = Some (quantize_row_q8_1 e)\<rparr>
   | NE_TYPE_Q6_K \<Rightarrow> \<lparr>fn_dequantize_row = Some (dequantize_row_q6_K e), fn_quantize_row = Some (quantize_row_q6_K e), fn_quantize_row_dot = Some (quantize_row_q8_K e)\<rparr>
   | _ \<Rightarrow> \<lparr>fn_dequantize_row = None, fn_quantize_row = None, fn_quantize_row_dot = None\<rparr>)"

end
