(* ===== verification/NE_Quant_Laws.thy ===== *)
theory NE_Quant_Laws
  imports NE_Quant
begin

text \<open>
  What survives the packing of a block. Codes of four, five and six bits are read back at their own
  positions, blocks are read back from their bytes, and rows of blocks are written and read back in
  memory (interface \<open>block_format\<close>, interpreted on every format that can be dequantized).
\<close>

section \<open>Codes in bytes\<close>

text \<open>A code of \<open>n\<close> bits.\<close>

definition code_bits :: "nat \<Rightarrow> byte \<Rightarrow> bool" where
  "code_bits n c \<longleftrightarrow> take_bit n c = c"

lemma code_bits_iff: "code_bits n c \<longleftrightarrow> (\<forall>k. bit c k \<longrightarrow> k < n)"
proof -
  have "bit c k \<Longrightarrow> k < 8" for k using bit_imp_le_length [of c k] by simp
  then show ?thesis by (auto simp: code_bits_def bit_eq_iff bit_take_bit_iff)
qed

lemma byte_masks: "(0x0F::byte) = mask 4" "(0xF::byte) = mask 4" "(3::byte) = mask 2"
  by (simp_all add: mask_eq_exp_minus_1)

lemma bit_16: "bit (0x10::32 word) k \<longleftrightarrow> k = 4"
  using bit_exp_iff [of 4 k, where 'a = "32 word"] by auto

lemma nibble_low: "code_bits 4 a \<Longrightarrow> (a OR push_bit 4 b) AND 0x0F = (a::byte)"
  unfolding byte_masks by (rule bit_word_eqI) (auto simp: bit_simps code_bits_iff)

lemma nibble_high: "code_bits 4 a \<Longrightarrow> code_bits 4 b \<Longrightarrow> drop_bit 4 (a OR push_bit 4 b) = (b::byte)"
  by (rule bit_word_eqI) (auto simp: bit_simps code_bits_iff)

lemma uint_min_code:
  assumes "0 \<le> sint v" "0 \<le> n" "n < 128"
  shows "uint (min_code n v) = min n (sint v)"
  using assms by (simp add: min_code_def uint_word_of_int take_bit_int_eq_self)

lemma code_bits_uint: "uint c < 2 ^ n \<Longrightarrow> code_bits n c"
  unfolding code_bits_def by (rule word_uint_eqI) (simp add: unsigned_take_bit_eq take_bit_int_eq_self)

lemma fifth_bit_iff: "bit (fifth_bit c) k \<longleftrightarrow> k = 0 \<and> bit c 4"
  unfolding fifth_bit_def by (auto simp: bit_simps bit_16)

lemma pack_fifth_bits_iff:
  assumes "k < 32"
  shows "bit (pack_fifth_bits xi) k \<longleftrightarrow> bit (xi k) 4"
proof -
  let ?f = "\<lambda>j qh. (qh OR push_bit j (fifth_bit (xi j))) OR push_bit (j + 16) (fifth_bit (xi (j + 16)))"
  have "bit (fold ?f [0..<n] 0) k \<longleftrightarrow> (k < n \<or> 16 \<le> k \<and> k < 16 + n) \<and> bit (xi k) 4" if "n \<le> 16" for n
    using that
  proof (induction n)
    case (Suc n)
    consider "k = n" | "k = n + 16" | "k \<noteq> n" "k \<noteq> n + 16" by blast
    then show ?case
    proof cases
      case 3
      then have "k < Suc n \<longleftrightarrow> k < n" "k < 16 + Suc n \<longleftrightarrow> k < 16 + n" by auto
      with 3 Suc assms show ?thesis by (auto simp: bit_simps fifth_bit_iff)
    qed (use Suc assms in \<open>auto simp: bit_simps fifth_bit_iff\<close>)
  qed simp
  from this [of 16] show ?thesis unfolding pack_fifth_bits_def using assms by auto
qed

lemma five_bits:
  assumes "code_bits 5 a" "code_bits 5 b" "bit qh j \<longleftrightarrow> bit a 4" "bit qh (j + 16) \<longleftrightarrow> bit b 4" "j < 16"
  shows "(((a AND 0x0F) OR push_bit 4 (b AND 0x0F)) AND 0x0F) OR xh_0 qh j = (a::byte)"
    and "drop_bit 4 ((a AND 0x0F) OR push_bit 4 (b AND 0x0F)) OR xh_1 qh j = b"
proof -
  have b0: "bit (xh_0 qh j) k \<longleftrightarrow> k = 4 \<and> bit a 4" for k
    unfolding xh_0_def bit_unsigned_iff bit_and_iff bit_16 using assms(3,5) by (auto simp: bit_simps)
  have b1: "bit (xh_1 qh j) k \<longleftrightarrow> k = 4 \<and> bit b 4" for k
    unfolding xh_1_def bit_unsigned_iff bit_and_iff bit_16 using assms(4,5) by (auto simp: bit_simps ac_simps)
  have five: "k < 4 \<or> k = 4" if "k < 5" for k :: nat using that by auto
  show "(((a AND 0x0F) OR push_bit 4 (b AND 0x0F)) AND 0x0F) OR xh_0 qh j = a"
    unfolding byte_masks using assms(1) by (intro bit_word_eqI) (auto simp: bit_simps b0 code_bits_iff dest!: five)
  show "drop_bit 4 ((a AND 0x0F) OR push_bit 4 (b AND 0x0F)) OR xh_1 qh j = b"
    unfolding byte_masks using assms(2) by (intro bit_word_eqI) (auto simp: bit_simps b1 code_bits_iff dest!: five)
qed

lemma pack_nibbles_nth:
  assumes "j < h" "code_bits 4 (xi j)" "code_bits 4 (xi (h + j))"
  shows "pack_nibbles h xi ! j AND 0x0F = xi j" "drop_bit 4 (pack_nibbles h xi ! j) = xi (h + j)"
  using assms nibble_low [of "xi j"] nibble_high [of "xi j"] by (simp_all add: pack_nibbles_def)

lemma pack_low_nibbles_nth:
  assumes "j < 16" "code_bits 5 (xi j)" "code_bits 5 (xi (16 + j))"
  shows "(pack_low_nibbles 16 xi ! j AND 0x0F) OR xh_0 (pack_fifth_bits xi) j = xi j"
    and "drop_bit 4 (pack_low_nibbles 16 xi ! j) OR xh_1 (pack_fifth_bits xi) j = xi (16 + j)"
proof -
  have "bit (pack_fifth_bits xi) j \<longleftrightarrow> bit (xi j) 4" "bit (pack_fifth_bits xi) (j + 16) \<longleftrightarrow> bit (xi (16 + j)) 4"
    using assms(1) by (simp_all add: pack_fifth_bits_iff add.commute)
  note five_bits [OF assms(2,3) this assms(1)]
  then show "(pack_low_nibbles 16 xi ! j AND 0x0F) OR xh_0 (pack_fifth_bits xi) j = xi j"
    and "drop_bit 4 (pack_low_nibbles 16 xi ! j) OR xh_1 (pack_fifth_bits xi) j = xi (16 + j)"
    using assms(1) by (simp_all add: pack_low_nibbles_def)
qed

text \<open>Six bits: the low nibble and the two high bits of each of four codes.\<close>

lemma signed_drop_code: "code_bits 6 c \<Longrightarrow> signed_drop_bit 4 c = drop_bit 4 (c::byte)"
  by (rule bit_word_eqI) (auto simp: bit_simps code_bits_iff)

lemma two_bits:
  fixes a b c d :: byte
  assumes "code_bits 2 a" "code_bits 2 b" "code_bits 2 c" "code_bits 2 d"
  shows "(((a OR push_bit 2 b) OR push_bit 4 c) OR push_bit 6 d) AND 3 = a"
    and "drop_bit 2 (((a OR push_bit 2 b) OR push_bit 4 c) OR push_bit 6 d) AND 3 = b"
    and "drop_bit 4 (((a OR push_bit 2 b) OR push_bit 4 c) OR push_bit 6 d) AND 3 = c"
    and "drop_bit 6 (((a OR push_bit 2 b) OR push_bit 4 c) OR push_bit 6 d) AND 3 = d"
  unfolding byte_masks using assms by (intro bit_word_eqI; auto simp: bit_simps code_bits_iff)+

lemma high_bits:
  fixes a b c d :: byte
  assumes "code_bits 6 a" "code_bits 6 b" "code_bits 6 c" "code_bits 6 d" "k < 4"
  shows "drop_bit (2 * k) (((signed_drop_bit 4 a OR push_bit 2 (signed_drop_bit 4 b)) OR push_bit 4 (signed_drop_bit 4 c)) OR
      push_bit 6 (signed_drop_bit 4 d)) AND 3 = drop_bit 4 ([a, b, c, d] ! k)"
proof -
  have two: "code_bits 2 (drop_bit 4 x)" if "code_bits 6 x" for x
    using that by (fastforce simp: code_bits_iff bit_simps)
  have "k = 0 \<or> k = 1 \<or> k = 2 \<or> k = 3" using assms(5) by auto
  then show ?thesis
    unfolding signed_drop_code [OF assms(1)] signed_drop_code [OF assms(2)] signed_drop_code [OF assms(3)]
      signed_drop_code [OF assms(4)]
    using two_bits [OF two [OF assms(1)] two [OF assms(2)] two [OF assms(3)] two [OF assms(4)]]
    by (elim disjE) (simp_all only: mult_0_right drop_bit_0 mult_1_right mult_2_right, simp_all)
qed

lemma low_bits:
  fixes a b :: byte
  shows "((a AND 0xF) OR push_bit 4 (b AND 0xF)) AND 0xF = a AND 0xF"
    and "drop_bit 4 ((a AND 0xF) OR push_bit 4 (b AND 0xF)) = b AND 0xF"
    and "drop_bit 4 (push_bit 4 (b AND 0xF)) = b AND 0xF"
  unfolding byte_masks by (intro bit_word_eqI; auto simp: bit_simps)+

lemma join_bits: "((c::byte) AND 0xF) OR push_bit 4 (drop_bit 4 c) = c"
proof (rule bit_word_eqI)
  fix n assume "n < LENGTH(8)"
  then show "bit ((c AND 0xF) OR push_bit 4 (drop_bit 4 c)) n \<longleftrightarrow> bit c n"
    unfolding byte_masks by (cases "n < 4") (simp_all add: bit_simps)
qed

lemma sint_code:
  assumes "code_bits 6 c"
  shows "sint c = uint c"
proof -
  have "uint c = take_bit 6 (uint c)" using assms unfolding code_bits_def by (metis unsigned_take_bit_eq)
  then have "uint c < 2 ^ 6" by (metis take_bit_int_less_exp)
  then have "uint c < 2 ^ 7" by simp
  moreover have "- (2 ^ 7) \<le> uint c" by (rule order_trans [of _ 0]) simp_all
  ultimately show ?thesis unfolding sint_uint by (simp add: signed_take_bit_int_eq_self)
qed

lemma q6_code_pack:
  assumes c: "\<And>i. i < 256 \<Longrightarrow> code_bits 6 (ls i)" and i: "n < 2" "k < 4" "l < 32"
  shows "q6_code (pack_ql ls) (pack_qh ls) (64 * n) (32 * n) k l = uint (ls (128 * n + 32 * k + l)) - 32"
proof -
  let ?j = "128 * n"
  have b: "?j + l + 96 < 256" using i by auto
  then have cs: "code_bits 6 (ls (?j + l))" "code_bits 6 (ls (?j + l + 32))" "code_bits 6 (ls (?j + l + 64))" "code_bits 6 (ls (?j + l + 96))"
    by (auto intro: c)
  have n: "n = 0 \<or> n = 1" using i(1) by auto
  have qh: "pack_qh ls ! (32 * n + l) =
      ((signed_drop_bit 4 (ls (?j + l)) OR push_bit 2 (signed_drop_bit 4 (ls (?j + l + 32)))) OR
      push_bit 4 (signed_drop_bit 4 (ls (?j + l + 64)))) OR push_bit 6 (signed_drop_bit 4 (ls (?j + l + 96)))"
    using n i(3) by (elim disjE) (simp_all add: pack_qh_def nth_append)
  have ql: "pack_ql ls ! (64 * n + l) = (ls (?j + l) AND 0xF) OR push_bit 4 (ls (?j + l + 64) AND 0xF)"
      "pack_ql ls ! (64 * n + 32 + l) = (ls (?j + l + 32) AND 0xF) OR push_bit 4 (ls (?j + l + 96) AND 0xF)"
    using n i(3) by (auto simp: pack_ql_def nth_append)
  have k: "k = 0 \<or> k = 1 \<or> k = 2 \<or> k = 3" using i(2) by auto
  have "(if k < 2 then pack_ql ls ! (64 * n + 32 * k + l) AND 0xF else drop_bit 4 (pack_ql ls ! (64 * n + 32 * (k - 2) + l)))
      = [ls (?j + l), ls (?j + l + 32), ls (?j + l + 64), ls (?j + l + 96)] ! k AND 0xF"
    using k by (elim disjE) (simp_all add: ql del: push_bit_and, simp_all only: low_bits)
  moreover have "drop_bit (2 * k) (pack_qh ls ! (32 * n + l)) AND 3 =
      drop_bit 4 ([ls (?j + l), ls (?j + l + 32), ls (?j + l + 64), ls (?j + l + 96)] ! k)"
    unfolding qh by (rule high_bits [OF cs i(2)])
  moreover have "[ls (?j + l), ls (?j + l + 32), ls (?j + l + 64), ls (?j + l + 96)] ! k = ls (?j + 32 * k + l)"
    using k by (elim disjE) (simp_all add: ac_simps)
  moreover have "code_bits 6 (ls (?j + 32 * k + l))" using i by (intro c) auto
  ultimately show ?thesis unfolding q6_code_def Let_def by (simp only: join_bits sint_code)
qed

section \<open>The codes of the super-blocks\<close>

lemma nearest_int_bounds: "- 0x400000 \<le> nearest_int e v" "nearest_int e v < 0x400000"
proof -
  have "(0x007FFFFF :: 32 word) = mask 23" by (simp add: mask_eq_exp_minus_1)
  then have "fadd e v f32_12582912 AND 0x007FFFFF = take_bit 23 (fadd e v f32_12582912)" by (simp add: take_bit_eq_mask)
  then have "uint (fadd e v f32_12582912 AND 0x007FFFFF) = take_bit 23 (uint (fadd e v f32_12582912))"
    by (simp add: unsigned_take_bit_eq)
  moreover have "0 \<le> take_bit 23 x" "take_bit 23 x < 0x800000" for x :: int using take_bit_int_less_exp [of 23 x] by simp_all
  ultimately show "- 0x400000 \<le> nearest_int e v" "nearest_int e v < 0x400000" unfolding nearest_int_def by simp_all
qed

definition codes_below :: "int \<Rightarrow> nat \<Rightarrow> int list \<Rightarrow> bool" where
  "codes_below n len ls \<longleftrightarrow> length ls = len \<and> (\<forall>l \<in> set ls. 0 \<le> l \<and> l < n)"

lemma clip_bounds: "0 < n \<Longrightarrow> 0 \<le> n + clip_code n l \<and> n + clip_code n l < 2 * n"
  by (auto simp: clip_code_def)

lemma codes_map: "0 < n \<Longrightarrow> codes_below (2 * n) (length xs) (map (\<lambda>v. n + qx_code e n s v) xs)"
  using clip_bounds by (auto simp: codes_below_def qx_code_def)

lemma qx_try_codes:
  assumes "0 < n" "codes_below (2 * n) (length xs) (fst st)"
  shows "codes_below (2 * n) (length xs) (fst (qx_try e n w xs mx is st))"
  using assms codes_map [OF assms(1)] by (auto simp: qx_try_def Let_def split: prod.splits)

lemma make_qx_codes:
  assumes "0 < n"
  shows "codes_below (2 * n) (length xs) (fst (make_qx_quants e n xs rt))"
proof -
  have f: "codes_below (2 * n) (length xs) (fst (fold (qx_try e n w xs mx) is st))"
    if "codes_below (2 * n) (length xs) (fst st)" for w mx "is" st
    using that by (induction "is" arbitrary: st) (simp_all add: qx_try_codes [OF assms])
  have z: "codes_below (2 * n) (length xs) (map (\<lambda>_. 0) xs)" using assms by (simp add: codes_below_def)
  obtain amax mx where a: "abs_max e xs = (amax, mx)" by (cases "abs_max e xs")
  let ?iscale = "fdiv e (of_i32 e (- n)) mx"
  let ?ls = "map (\<lambda>v. n + qx_code e n ?iscale v) xs" and ?w = "\<bar>rt\<bar> mod 2 = 1"
  obtain sx s2 where q: "qx_sums e n ?w xs ?iscale = (sx, s2)" by (cases "qx_sums e n ?w xs ?iscale")
  show ?thesis
  proof (cases "fless e amax f32_1e_30 \<or> rt \<le> 0")
    case True
    then show ?thesis using z codes_map [OF assms] by (auto simp: make_qx_quants_def a q Let_def)
  next
    case False
    then have "fst (make_qx_quants e n xs rt) = fst (fold (qx_try e n ?w xs mx) qx_candidates (?ls, fdiv e sx s2, fmul e (fdiv e sx s2) sx))"
      using q by (simp add: make_qx_quants_def a Let_def split: prod.split)
    also have "codes_below (2 * n) (length xs) \<dots>" by (rule f) (simp add: codes_map [OF assms])
    finally show ?thesis .
  qed
qed

lemma q6_K_codes_below:
  assumes "length xs = 256"
  shows "codes_below 64 256 (q6_K_codes e xs d sc)"
proof -
  have r: "codes_below 64 16 (requantize e v (q6_K_part xs j) (fst (make_qx_quants e 32 (q6_K_part xs j) 1)))" if "j < 16" for j v
  proof -
    have "length (q6_K_part xs j) = 16" using assms that by (simp add: q6_K_part_def)
    then have "codes_below 64 16 (fst (make_qx_quants e 32 (q6_K_part xs j) 1))"
        "codes_below 64 16 (map (\<lambda>v'. clip_code 32 (nearest_int e (fdiv e v' v)) + 32) (q6_K_part xs j))"
      using make_qx_codes [of 32 "q6_K_part xs j" e 1] clip_bounds [of 32]
      by (auto simp: codes_below_def add.commute [of _ "32::int"])
    then show ?thesis by (simp add: requantize_def)
  qed
  have "codes_below 64 (16 * n) (concat (map (\<lambda>j. requantize e (v j) (q6_K_part xs j) (fst (make_qx_quants e 32 (q6_K_part xs j) 1))) [0..<n]))"
    if "n \<le> 16" for n v
    using that
  proof (induction n)
    case (Suc n)
    then show ?case using r [of n "v n"] by (auto simp: codes_below_def)
  qed (simp add: codes_below_def)
  from this [of 16] show ?thesis unfolding q6_K_codes_def by simp
qed

section \<open>Blocks and their bytes\<close>

lemma word16_bytes: "ucast (ucast w :: byte) OR push_bit 8 (ucast (ucast (drop_bit 8 w) :: byte)) = (w :: 16 word)"
proof (rule bit_word_eqI)
  fix n assume "n < LENGTH(16)"
  then show "bit (ucast (ucast w :: byte) OR push_bit 8 (ucast (ucast (drop_bit 8 w) :: byte)) :: 16 word) n \<longleftrightarrow> bit w n"
    by (cases "n < 8") (auto simp: bit_simps)
qed

lemma word16_at_bytes: "k = length xs \<Longrightarrow> word16_at (xs @ bytes16 w @ ys) k = w"
  by (simp add: word16_at_def bytes16_def nth_append word16_bytes)

lemma word32_at_bytes:
  assumes "k = length xs"
  shows "word32_at (xs @ bytes32 w @ ys) k = w"
proof -
  have "load32 (\<lambda>a. (xs @ bytes32 w @ ys) ! a) k = load32 (store32 k w (\<lambda>_. 0)) k"
    using assms by (intro load32_frame) (auto simp: bytes32_def nth_append store32_apply)
  then show ?thesis by (simp add: word32_at_def)
qed

lemma field_bytes: "k = length xs \<Longrightarrow> n = length ys \<Longrightarrow> field (xs @ ys @ zs) k n = ys"
  by (simp add: field_def)

lemma bytes_length [simp]: "length (bytes16 w) = 2" "length (bytes32 v) = 4"
  by (simp_all add: bytes16_def bytes32_def)

lemma q4_0_bytes: "length (q4_0_qs b) = 16 \<Longrightarrow> block_q4_0_at (bytes_q4_0 b) = b"
  using word16_at_bytes [of 0 "[]" "q4_0_d b" "q4_0_qs b"] field_bytes [of 2 "bytes16 (q4_0_d b)" 16 "q4_0_qs b" "[]"]
  by (simp add: block_q4_0_at_def bytes_q4_0_def)

lemma q4_1_bytes: "length (q4_1_qs b) = 16 \<Longrightarrow> block_q4_1_at (bytes_q4_1 b) = b"
  using word16_at_bytes [of 0 "[]" "q4_1_d b" "bytes16 (q4_1_m b) @ q4_1_qs b"]
    word16_at_bytes [of 2 "bytes16 (q4_1_d b)" "q4_1_m b" "q4_1_qs b"]
    field_bytes [of 4 "bytes16 (q4_1_d b) @ bytes16 (q4_1_m b)" 16 "q4_1_qs b" "[]"]
  by (simp add: block_q4_1_at_def bytes_q4_1_def)

lemma q5_0_bytes: "length (q5_0_qs b) = 16 \<Longrightarrow> block_q5_0_at (bytes_q5_0 b) = b"
  using word16_at_bytes [of 0 "[]" "q5_0_d b" "bytes32 (q5_0_qh b) @ q5_0_qs b"]
    word32_at_bytes [of 2 "bytes16 (q5_0_d b)" "q5_0_qh b" "q5_0_qs b"]
    field_bytes [of 6 "bytes16 (q5_0_d b) @ bytes32 (q5_0_qh b)" 16 "q5_0_qs b" "[]"]
  by (simp add: block_q5_0_at_def bytes_q5_0_def)

lemma q5_1_bytes: "length (q5_1_qs b) = 16 \<Longrightarrow> block_q5_1_at (bytes_q5_1 b) = b"
  using word16_at_bytes [of 0 "[]" "q5_1_d b" "bytes16 (q5_1_m b) @ bytes32 (q5_1_qh b) @ q5_1_qs b"]
    word16_at_bytes [of 2 "bytes16 (q5_1_d b)" "q5_1_m b" "bytes32 (q5_1_qh b) @ q5_1_qs b"]
    word32_at_bytes [of 4 "bytes16 (q5_1_d b) @ bytes16 (q5_1_m b)" "q5_1_qh b" "q5_1_qs b"]
    field_bytes [of 8 "bytes16 (q5_1_d b) @ bytes16 (q5_1_m b) @ bytes32 (q5_1_qh b)" 16 "q5_1_qs b" "[]"]
  by (simp add: block_q5_1_at_def bytes_q5_1_def)

lemma q8_0_bytes: "length (q8_0_qs b) = 32 \<Longrightarrow> block_q8_0_at (bytes_q8_0 b) = b"
  using word16_at_bytes [of 0 "[]" "q8_0_d b" "q8_0_qs b"] field_bytes [of 2 "bytes16 (q8_0_d b)" 32 "q8_0_qs b" "[]"]
  by (simp add: block_q8_0_at_def bytes_q8_0_def)

lemma q6_K_bytes:
  "length (q6_K_ql b) = 128 \<Longrightarrow> length (q6_K_qh b) = 64 \<Longrightarrow> length (q6_K_scales b) = 16 \<Longrightarrow> block_q6_K_at (bytes_q6_K b) = b"
  using field_bytes [of 0 "[]" 128 "q6_K_ql b" "q6_K_qh b @ q6_K_scales b @ bytes16 (q6_K_d b)"]
    field_bytes [of 128 "q6_K_ql b" 64 "q6_K_qh b" "q6_K_scales b @ bytes16 (q6_K_d b)"]
    field_bytes [of 192 "q6_K_ql b @ q6_K_qh b" 16 "q6_K_scales b" "bytes16 (q6_K_d b)"]
    word16_at_bytes [of 208 "q6_K_ql b @ q6_K_qh b @ q6_K_scales b" "q6_K_d b" "[]"]
  by (simp add: block_q6_K_at_def bytes_q6_K_def)

section \<open>Rows of blocks in memory\<close>

lemma store_bytes_frame: "a < p \<or> p + length bs \<le> a \<Longrightarrow> store_bytes p bs m a = m a"
  by (auto simp: store_bytes_def)

lemma load_bytes_cong: "(\<And>k. k < n \<Longrightarrow> m (p + k) = m' (p + k)) \<Longrightarrow> load_bytes m p n = load_bytes m' p n"
  by (simp add: load_bytes_def)

lemma load_store_bytes: "load_bytes (store_bytes p bs m) p (length bs) = bs"
  by (rule nth_equalityI) (simp_all add: load_bytes_def store_bytes_def)

lemma load_floats_cong: "(\<And>k. k < 4 * n \<Longrightarrow> m (p + k) = m' (p + k)) \<Longrightarrow> load_floats m p n = load_floats m' p n"
  unfolding load_floats_def by (intro map_cong refl load32_frame) (auto simp: add.assoc)

lemma loaded_length [simp]: "length (load_floats m p n) = n" "length (load_bytes m p n) = n"
  by (simp_all add: load_floats_def load_bytes_def)

lemma load_store_floats: "load_floats (store32_list p vs m) p (length vs) = vs"
  by (rule nth_equalityI) (simp_all add: load_floats_def load32_store32_list)

text \<open>\<open>gap p n q k\<close>: the ranges of \<open>n\<close> bytes at \<open>p\<close> and of \<open>k\<close> bytes at \<open>q\<close> are apart.\<close>

definition gap :: "ptr \<Rightarrow> nat \<Rightarrow> ptr \<Rightarrow> nat \<Rightarrow> bool" where
  "gap p n q k \<longleftrightarrow> p + n \<le> q \<or> q + k \<le> p"

lemma block_in_row:
  assumes "i < (n::nat)"
  shows "sz * i + sz \<le> sz * n"
  using mult_le_mono2 [of "Suc i" n sz] assms by simp

lemma blocks_disjoint:
  assumes "i \<noteq> (j::nat)"
  shows "sz * i + sz \<le> sz * j \<or> sz * j + sz \<le> sz * i"
  using block_in_row [of i j sz] block_in_row [of j i sz] assms by (cases "i < j") auto

locale block_writer =
  fixes qk sz :: nat
    and enc :: "32 word list \<Rightarrow> byte list \<Rightarrow> byte list"
  assumes block_elems: "0 < qk"
    and enc_length: "length xs = qk \<Longrightarrow> length old = sz \<Longrightarrow> length (enc xs old) = sz"
    and enc_fresh: "length xs = qk \<Longrightarrow> enc xs old = enc xs old'"
begin

definition written :: "32 word list \<Rightarrow> byte list" where "written xs = enc xs []"

lemma enc_written: "length xs = qk \<Longrightarrow> enc xs old = written xs"
  unfolding written_def by (rule enc_fresh)

lemma written_length: "length xs = qk \<Longrightarrow> length (written xs) = sz"
  using enc_length [of xs "replicate sz 0"] enc_written [of xs "replicate sz 0"] by simp

lemma quantized_rows:
  assumes g: "gap x (4 * (qk * n)) y (sz * n)"
  shows "\<forall>a. a < y \<or> y + sz * n \<le> a \<longrightarrow> quantize_blocks qk sz enc (qk * n) x y m a = m a"
    and "\<forall>i < n. load_bytes (quantize_blocks qk sz enc (qk * n) x y m) (y + sz * i) sz =
      written (load_floats m (x + 4 * (qk * i)) qk)"
proof -
  let ?f = "\<lambda>i m. store_bytes (y + sz * i) (enc (load_floats m (x + 4 * (qk * i)) qk) (load_bytes m (y + sz * i) sz)) m"
  have len: "length (enc (load_floats m (x + 4 * (qk * i)) qk) (load_bytes m (y + sz * i) sz)) = sz" for i m
    by (intro enc_length) simp_all
  have inv: "(\<forall>a. a < y \<or> y + sz * k \<le> a \<longrightarrow> fold ?f [0..<k] m a = m a) \<and>
      (\<forall>i < k. load_bytes (fold ?f [0..<k] m) (y + sz * i) sz = written (load_floats m (x + 4 * (qk * i)) qk))"
    if "k \<le> n" for k
    using that
  proof (induction k)
    case (Suc k)
    let ?m = "fold ?f [0..<k] m"
    have row: "sz * k + sz \<le> sz * n" "4 * (qk * k) + 4 * qk \<le> 4 * (qk * n)"
      using block_in_row [of k n sz] block_in_row [of k n qk] Suc.prems by simp_all
    have frame: "?m a = m a" if "a < y \<or> y + sz * k \<le> a" for a using Suc that by auto
    have x: "load_floats ?m (x + 4 * (qk * k)) qk = load_floats m (x + 4 * (qk * k)) qk"
    proof (rule load_floats_cong)
      fix j assume "j < 4 * qk"
      then show "?m (x + 4 * (qk * k) + j) = m (x + 4 * (qk * k) + j)"
        using g row unfolding gap_def by (intro frame) linarith
    qed
    have e: "enc (load_floats ?m (x + 4 * (qk * k)) qk) (load_bytes ?m (y + sz * k) sz) = written (load_floats m (x + 4 * (qk * k)) qk)"
      unfolding x by (rule enc_written) simp
    have b: "load_bytes (?f k ?m) (y + sz * k) sz = written (load_floats m (x + 4 * (qk * k)) qk)"
      unfolding e using load_store_bytes [of "y + sz * k" "written (load_floats m (x + 4 * (qk * k)) qk)" ?m]
      by (simp only: written_length loaded_length)
    have old: "load_bytes (?f k ?m) (y + sz * i) sz = load_bytes ?m (y + sz * i) sz" if "i < k" for i
      using blocks_disjoint [of i k sz] block_in_row [OF that, of sz] len [of ?m k] that
      by (intro load_bytes_cong store_bytes_frame) auto
    have "?f k ?m a = m a" if "a < y \<or> y + sz * Suc k \<le> a" for a
      using that len [of ?m k] frame [of a] store_bytes_frame [of a "y + sz * k"] by auto
    moreover have "load_bytes (?f k ?m) (y + sz * i) sz = written (load_floats m (x + 4 * (qk * i)) qk)" if "i < Suc k" for i
      using that b old [of i] Suc by (cases "i = k") auto
    ultimately show ?case by simp
  qed simp
  from inv [of n] block_elems show "\<forall>a. a < y \<or> y + sz * n \<le> a \<longrightarrow> quantize_blocks qk sz enc (qk * n) x y m a = m a"
    and "\<forall>i < n. load_bytes (quantize_blocks qk sz enc (qk * n) x y m) (y + sz * i) sz = written (load_floats m (x + 4 * (qk * i)) qk)"
    by (simp_all add: quantize_blocks_def)
qed

end

text \<open>A format that is read back as well.\<close>

locale block_format = block_writer +
  fixes dec :: "byte list \<Rightarrow> 32 word list"
  assumes dec_length: "length bs = sz \<Longrightarrow> length (dec bs) = qk"
begin

lemma dequantized_rows:
  assumes g: "gap x (sz * n) y (4 * (qk * n))"
  shows "\<forall>a. a < y \<or> y + 4 * (qk * n) \<le> a \<longrightarrow> dequantize_blocks qk sz dec (qk * n) x y m a = m a"
    and "\<forall>i < n. load_floats (dequantize_blocks qk sz dec (qk * n) x y m) (y + 4 * (qk * i)) qk =
      dec (load_bytes m (x + sz * i) sz)"
proof -
  let ?f = "\<lambda>i m. store32_list (y + 4 * (qk * i)) (dec (load_bytes m (x + sz * i) sz)) m"
  have len: "length (dec (load_bytes m (x + sz * i) sz)) = qk" for i m by (intro dec_length) simp
  have inv: "(\<forall>a. a < y \<or> y + 4 * (qk * k) \<le> a \<longrightarrow> fold ?f [0..<k] m a = m a) \<and>
      (\<forall>i < k. load_floats (fold ?f [0..<k] m) (y + 4 * (qk * i)) qk = dec (load_bytes m (x + sz * i) sz))"
    if "k \<le> n" for k
    using that
  proof (induction k)
    case (Suc k)
    let ?m = "fold ?f [0..<k] m"
    have row: "sz * k + sz \<le> sz * n" "4 * (qk * k) + 4 * qk \<le> 4 * (qk * n)"
      using block_in_row [of k n sz] block_in_row [of k n qk] Suc.prems by simp_all
    have frame: "?m a = m a" if "a < y \<or> y + 4 * (qk * k) \<le> a" for a using Suc that by auto
    have x: "load_bytes ?m (x + sz * k) sz = load_bytes m (x + sz * k) sz"
    proof (rule load_bytes_cong)
      fix j assume "j < sz"
      then show "?m (x + sz * k + j) = m (x + sz * k + j)"
        using g row unfolding gap_def by (intro frame) linarith
    qed
    have b: "load_floats (?f k ?m) (y + 4 * (qk * k)) qk = dec (load_bytes m (x + sz * k) sz)"
      using load_store_floats [of "y + 4 * (qk * k)" "dec (load_bytes ?m (x + sz * k) sz)" ?m] len [of ?m k]
      by (simp add: x)
    have old: "load_floats (?f k ?m) (y + 4 * (qk * i)) qk = load_floats ?m (y + 4 * (qk * i)) qk" if "i < k" for i
    proof (rule load_floats_cong)
      fix j assume "j < 4 * qk"
      then show "?f k ?m (y + 4 * (qk * i) + j) = ?m (y + 4 * (qk * i) + j)"
        using block_in_row [OF that, of qk] len [of ?m k] by (intro store32_list_frame) auto
    qed
    have "?f k ?m a = m a" if "a < y \<or> y + 4 * (qk * Suc k) \<le> a" for a
      using that len [of ?m k] frame [of a] store32_list_frame [of a "y + 4 * (qk * k)"] by auto
    moreover have "load_floats (?f k ?m) (y + 4 * (qk * i)) qk = dec (load_bytes m (x + sz * i) sz)" if "i < Suc k" for i
      using that b old [of i] Suc by (cases "i = k") auto
    ultimately show ?case by simp
  qed simp
  from inv [of n] block_elems show "\<forall>a. a < y \<or> y + 4 * (qk * n) \<le> a \<longrightarrow> dequantize_blocks qk sz dec (qk * n) x y m a = m a"
    and "\<forall>i < n. load_floats (dequantize_blocks qk sz dec (qk * n) x y m) (y + 4 * (qk * i)) qk = dec (load_bytes m (x + sz * i) sz)"
    by (simp_all add: dequantize_blocks_def)
qed

text \<open>A row written and read back.\<close>

lemma row_read_back:
  assumes "gap x (4 * (qk * n)) y (sz * n)" "gap y (sz * n) z (4 * (qk * n))" "i < qk * n"
  shows "load32 (dequantize_blocks qk sz dec (qk * n) y z (quantize_blocks qk sz enc (qk * n) x y m)) (z + 4 * i) =
    dec (written (load_floats m (x + 4 * (qk * (i div qk))) qk)) ! (i mod qk)"
proof -
  let ?m = "quantize_blocks qk sz enc (qk * n) x y m"
  let ?m' = "dequantize_blocks qk sz dec (qk * n) y z ?m"
  have i: "i div qk < n" "i mod qk < qk" using assms(3) block_elems by (simp_all add: less_mult_imp_div_less mult.commute)
  have "load_floats ?m' (z + 4 * (qk * (i div qk))) qk ! (i mod qk) = load32 ?m' (z + 4 * (qk * (i div qk)) + 4 * (i mod qk))"
    using i(2) by (simp add: load_floats_def)
  also have "z + 4 * (qk * (i div qk)) + 4 * (i mod qk) = z + 4 * i" using mult_div_mod_eq [of qk i] by linarith
  finally show ?thesis using dequantized_rows(2) [OF assms(2), of ?m] quantized_rows(2) [OF assms(1), of m] i by simp
qed

end

section \<open>The formats\<close>

lemma pack_length [simp]: "length (pack_nibbles h xi) = h" "length (pack_low_nibbles h xi) = h"
    "length (pack_ql ls) = 128" "length (pack_qh ls) = 64"
  by (simp_all add: pack_nibbles_def pack_low_nibbles_def pack_ql_def pack_qh_def)

lemma quantized_lengths [simp]:
  "length (q4_0_qs (quantize_block_q4_0 e xs)) = 16" "length (q4_1_qs (quantize_block_q4_1 e xs)) = 16"
  "length (q5_0_qs (quantize_block_q5_0 e xs)) = 16" "length (q5_1_qs (quantize_block_q5_1 e xs)) = 16"
  "length (q8_0_qs (quantize_block_q8_0 e xs)) = 32" "length (q8_1_qs (quantize_block_q8_1 e xs)) = 32"
  "length (q6_K_ql (quantize_block_q6_K e xs)) = 128" "length (q6_K_qh (quantize_block_q6_K e xs)) = 64"
  "length (q6_K_scales (quantize_block_q6_K e xs)) = 16"
  by (simp_all add: quantize_block_q4_0_def quantize_block_q4_1_def quantize_block_q5_0_def quantize_block_q5_1_def
      quantize_block_q8_0_def quantize_block_q8_1_def quantize_block_q6_K_def Let_def split: prod.split)

lemmas block_sizes = qk_defs sizeof_block_defs

lemma dequantized_q6_K_length: "length (dequantize_block_q6_K e b) = 256"
  by (simp add: dequantize_block_q6_K_def Let_def length_concat comp_def sum_list_triv)

interpretation q4_0: block_format QK4_0 sizeof_block_q4_0 "\<lambda>xs _. bytes_q4_0 (quantize_block_q4_0 e xs)"
  "\<lambda>bs. dequantize_block_q4_0 e (block_q4_0_at bs)" for e
  by unfold_locales (simp_all add: block_sizes bytes_q4_0_def dequantize_block_q4_0_def Let_def)

interpretation q4_1: block_format QK4_1 sizeof_block_q4_1 "\<lambda>xs _. bytes_q4_1 (quantize_block_q4_1 e xs)"
  "\<lambda>bs. dequantize_block_q4_1 e (block_q4_1_at bs)" for e
  by unfold_locales (simp_all add: block_sizes bytes_q4_1_def dequantize_block_q4_1_def Let_def)

interpretation q5_0: block_format QK5_0 sizeof_block_q5_0 "\<lambda>xs _. bytes_q5_0 (quantize_block_q5_0 e xs)"
  "\<lambda>bs. dequantize_block_q5_0 e (block_q5_0_at bs)" for e
  by unfold_locales (simp_all add: block_sizes bytes_q5_0_def dequantize_block_q5_0_def Let_def)

interpretation q5_1: block_format QK5_1 sizeof_block_q5_1 "\<lambda>xs _. bytes_q5_1 (quantize_block_q5_1 e xs)"
  "\<lambda>bs. dequantize_block_q5_1 e (block_q5_1_at bs)" for e
  by unfold_locales (simp_all add: block_sizes bytes_q5_1_def dequantize_block_q5_1_def Let_def)

interpretation q8_0: block_format QK8_0 sizeof_block_q8_0 "\<lambda>xs _. bytes_q8_0 (quantize_block_q8_0 e xs)"
  "\<lambda>bs. dequantize_block_q8_0 e (block_q8_0_at bs)" for e
  by unfold_locales (simp_all add: block_sizes bytes_q8_0_def dequantize_block_q8_0_def)

interpretation q8_1: block_writer QK8_1 sizeof_block_q8_1 "\<lambda>xs _. bytes_q8_1 (quantize_block_q8_1 e xs)" for e
  by unfold_locales (simp_all add: block_sizes bytes_q8_1_def)

interpretation q6_K: block_format QK_K sizeof_block_q6_K "\<lambda>xs _. bytes_q6_K (quantize_block_q6_K e xs)"
  "\<lambda>bs. dequantize_block_q6_K e (block_q6_K_at bs)" for e
  by unfold_locales (simp_all add: block_sizes bytes_q6_K_def dequantized_q6_K_length)

end
