(* ===== verification/NE_Kernel_Laws.thy ===== *)
theory NE_Kernel_Laws
  imports NE_Kernels "HOL-Library.Multiset"
begin

text \<open>
  What the kernels compute. The loops of a kernel are sequences of 32-bit stores whose targets do
  not overlap and whose values do not depend on each other; the first section shows that such a
  sequence computes every value from the memory before it, changes nothing else, and does so in
  every order. The interfaces \<open>unary_kernel\<close> and \<open>broadcast_kernel\<close> carry that to the kernels.
\<close>

section \<open>Independent stores\<close>

definition run_writes :: "('i \<Rightarrow> ptr) \<Rightarrow> ('i \<Rightarrow> memory \<Rightarrow> 32 word) \<Rightarrow> 'i list \<Rightarrow> memory \<Rightarrow> memory" where
  "run_writes addr val is = fold (\<lambda>i m. store32 (addr i) (val i m) m) is"

definition independent :: "('i \<Rightarrow> ptr) \<Rightarrow> ('i \<Rightarrow> memory \<Rightarrow> 32 word) \<Rightarrow> 'i set \<Rightarrow> bool" where
  "independent addr val I \<longleftrightarrow> (\<forall>i\<in>I. \<forall>j\<in>I. i \<noteq> j \<longrightarrow>
     (addr i + 4 \<le> addr j \<or> addr j + 4 \<le> addr i) \<and> (\<forall>v m. val i (store32 (addr j) v m) = val i m))"

lemma run_writes_simps [simp]:
  "run_writes addr val [] m = m"
  "run_writes addr val (i # is) m = run_writes addr val is (store32 (addr i) (val i m) m)"
  by (simp_all add: run_writes_def)

lemma run_writes_append: "run_writes addr val (is @ js) m = run_writes addr val js (run_writes addr val is m)"
  by (simp add: run_writes_def)

lemma run_writes_concat: "fold (\<lambda>r. run_writes addr val (es r)) rs m = run_writes addr val (concat (map es rs)) m"
  by (induction rs arbitrary: m) (simp_all add: run_writes_append)

lemma run_writes_cong:
  assumes "\<And>i. i \<in> set is \<Longrightarrow> addr i = addr' i" "\<And>i. i \<in> set is \<Longrightarrow> val i = val' i"
  shows "run_writes addr val is m = run_writes addr' val' is m"
  using assms by (induction "is" arbitrary: m) simp_all

lemma run_writes_map: "run_writes addr val (map h is) m = run_writes (addr \<circ> h) (val \<circ> h) is m"
  by (induction "is" arbitrary: m) simp_all

lemma run_writes_frame:
  "(\<And>i. i \<in> set is \<Longrightarrow> a < addr i \<or> addr i + 4 \<le> a) \<Longrightarrow> run_writes addr val is m a = m a"
proof (induction "is" arbitrary: m)
  case (Cons j js)
  have "a < addr j \<or> addr j + 4 \<le> a" by (rule Cons.prems) simp
  then have "store32 (addr j) (val j m) m a = m a" by (auto simp: store32_apply)
  moreover have "run_writes addr val js m' a = m' a" for m' by (rule Cons.IH) (simp add: Cons.prems)
  ultimately show ?case by simp
qed simp

lemma run_writes_val:
  assumes "independent addr val I" "i \<in> I" "set is \<subseteq> I" "i \<notin> set is"
  shows "val i (run_writes addr val is m) = val i m"
  using assms(3,4)
proof (induction "is" arbitrary: m)
  case (Cons j js)
  then have "val i (store32 (addr j) (val j m) m) = val i m"
    using assms(1,2) unfolding independent_def by auto
  with Cons show ?case by simp
qed simp

lemma run_writes_byte:
  assumes "independent addr val I" "set is \<subseteq> I" "distinct is" "i \<in> set is" "k < 4"
  shows "run_writes addr val is m (addr i + k) = byte_of (val i m) k"
proof -
  from assms(4) obtain xs ys where ws: "is = xs @ i # ys" by (meson split_list)
  let ?m = "run_writes addr val xs m"
  have v: "val i ?m = val i m" using assms(2,3) by (intro run_writes_val [OF assms(1)]) (auto simp: ws)
  have "run_writes addr val is m (addr i + k) = store32 (addr i) (val i ?m) ?m (addr i + k)"
    unfolding ws run_writes_append run_writes_simps
  proof (rule run_writes_frame)
    fix j assume j: "j \<in> set ys"
    then have "addr i + 4 \<le> addr j \<or> addr j + 4 \<le> addr i"
      using assms(1,2,3) unfolding independent_def ws by auto
    then show "addr i + k < addr j \<or> addr j + 4 \<le> addr i + k" using assms(5) by linarith
  qed
  then show ?thesis using assms(5) v by (simp add: store32_apply)
qed

lemma run_writes_load:
  assumes "independent addr val I" "set is \<subseteq> I" "distinct is" "i \<in> set is"
  shows "load32 (run_writes addr val is m) (addr i) = val i m"
proof -
  have "load32 (run_writes addr val is m) (addr i) = load32 (store32 (addr i) (val i m) m) (addr i)"
    by (rule load32_frame) (simp add: run_writes_byte [OF assms] store32_apply)
  then show ?thesis by simp
qed

lemma run_writes_order:
  assumes "independent addr val I" "set is \<subseteq> I" "distinct is" "distinct js" "set js = set is"
  shows "run_writes addr val js m = run_writes addr val is m"
proof
  fix a
  show "run_writes addr val js m a = run_writes addr val is m a"
  proof (cases "\<exists>i \<in> set is. addr i \<le> a \<and> a < addr i + 4")
    case True
    then obtain i where i: "i \<in> set is" "addr i \<le> a" "a < addr i + 4" by blast
    then obtain k where "a = addr i + k" "k < 4" by (metis le_Suc_ex nat_add_left_cancel_less)
    with i(1) assms show ?thesis by (simp add: run_writes_byte)
  next
    case False
    then have "a < addr i \<or> addr i + 4 \<le> a" if "i \<in> set is" for i using that by (meson not_less)
    then have "run_writes addr val js m a = m a" "run_writes addr val is m a = m a"
      using assms(5) by (auto intro!: run_writes_frame)
    then show ?thesis by simp
  qed
qed

section \<open>Loops\<close>

lemma for_list_fold_inv:
  assumes "\<And>i m. i \<in> set is \<Longrightarrow> keep m \<Longrightarrow> body i m = Inr ((), g i m) \<and> keep (g i m)" "keep m"
  shows "for_list is body m = Inr ((), fold g is m) \<and> keep (fold g is m)"
  using assms
proof (induction "is" arbitrary: m)
  case (Cons i "is")
  then have "body i m = Inr ((), g i m)" "keep (g i m)" by auto
  with Cons show ?case by simp
qed simp

lemma for_list_fold:
  "(\<And>i m. i \<in> set is \<Longrightarrow> body i m = Inr ((), g i m)) \<Longrightarrow> for_list is body m = Inr ((), fold g is m)"
  using for_list_fold_inv [of "is" "\<lambda>_. True" body g m] by simp

lemma for_list_writes_inv:
  assumes "\<And>r m. r \<in> set rs \<Longrightarrow> keep m \<Longrightarrow>
      body r m = Inr ((), run_writes addr val (es r) m) \<and> keep (run_writes addr val (es r) m)" "keep m"
  shows "for_list rs body m = Inr ((), run_writes addr val (concat (map es rs)) m) \<and>
    keep (run_writes addr val (concat (map es rs)) m)"
  using for_list_fold_inv [of rs keep body "\<lambda>r. run_writes addr val (es r)"] assms by (simp add: run_writes_concat)

lemma for_list_writes:
  assumes "\<And>r m. r \<in> set rs \<Longrightarrow> body r m = Inr ((), run_writes addr val (es r) m)"
  shows "for_list rs body m = Inr ((), run_writes addr val (concat (map es rs)) m)"
  using for_list_writes_inv [of rs "\<lambda>_. True" body addr val es m] assms by simp

lemma strided_rows:
  assumes "0 \<le> i" "i < nt" "0 \<le> nr"
  obtains rs where "strided i nt nr = Inr rs" "distinct rs" "set rs = {r \<in> {0 ..< nr}. r mod nt = i}"
proof (cases "nr \<le> i")
  case True
  have "r mod nt = r" if "0 \<le> r" "r < nr" for r using that True assms by (simp add: mod_pos_pos_trivial)
  then have "{r \<in> {0 ..< nr}. r mod nt = i} = {}" using True by auto
  with True that show ?thesis by (simp add: strided_def)
next
  case False
  let ?n = "nat ((nr - i + nt - 1) div nt)" and ?f = "\<lambda>k. i + int k * nt"
  have "inj_on ?f A" for A using assms by (auto simp: inj_on_def)
  then have d: "distinct (map ?f [0..<?n])" by (simp add: distinct_map)
  have less: "k < ?n \<longleftrightarrow> ?f k < nr" for k
  proof -
    have "k < ?n \<longleftrightarrow> int k < (nr - i + nt - 1) div nt" by linarith
    also have "\<dots> \<longleftrightarrow> 0 < (nr - i + nt - 1 + (- int k) * nt) div nt"
      using assms by (simp only: div_mult_self1) simp
    also have "\<dots> \<longleftrightarrow> nt \<le> nr - i + nt - 1 + (- int k) * nt" using assms by (simp add: pos_imp_zdiv_pos_iff)
    also have "\<dots> \<longleftrightarrow> ?f k < nr" by (simp only: mult_minus_left) linarith
    finally show ?thesis .
  qed
  have "set (map ?f [0..<?n]) = {r \<in> {0 ..< nr}. r mod nt = i}"
  proof (intro set_eqI iffI)
    fix r assume "r \<in> set (map ?f [0..<?n])"
    then obtain k where "r = ?f k" "k < ?n" unfolding set_map image_iff set_upt by force
    then show "r \<in> {r \<in> {0 ..< nr}. r mod nt = i}" using less [of k] assms by simp
  next
    fix r assume r: "r \<in> {r \<in> {0 ..< nr}. r mod nt = i}"
    then have "r = ?f (nat (r div nt))" using assms by (auto simp: pos_imp_zdiv_nonneg_iff)
    moreover from this r have "nat (r div nt) < ?n" unfolding less by simp
    ultimately show "r \<in> set (map ?f [0..<?n])" unfolding set_map set_upt image_iff
      by (intro bexI [of _ "nat (r div nt)"]) (assumption, simp only: atLeastLessThan_iff zero_le)
  qed
  with d False assms that show ?thesis by (simp add: strided_def)
qed


section \<open>Tensors in memory\<close>

text \<open>
  The elements of a tensor, and how far its last element reaches. \<open>rows_apart\<close> describes the
  layouts a destination may have: rows do not overlap, the address range is representable and the
  row count fits an \<^verbatim>\<open>int\<close>. Contiguous tensors of 32-bit floats are of this kind.
\<close>

definition in_range :: "ne_tensor \<Rightarrow> nat \<Rightarrow> nat \<Rightarrow> nat \<Rightarrow> nat \<Rightarrow> bool" where
  "in_range t i0 i1 i2 i3 \<longleftrightarrow> i0 < nat (ne t ! 0) \<and> i1 < nat (ne t ! 1) \<and> i2 < nat (ne t ! 2) \<and> i3 < nat (ne t ! 3)"

definition elem :: "memory \<Rightarrow> ne_tensor \<Rightarrow> nat \<Rightarrow> nat \<Rightarrow> nat \<Rightarrow> nat \<Rightarrow> 32 word" where
  "elem m t i0 i1 i2 i3 = load32 m (data t + elem_offset t i0 i1 i2 i3)"

definition span :: "ne_tensor \<Rightarrow> nat" where
  "span t = elem_offset t (nat (ne t ! 0) - 1) (nat (ne t ! 1) - 1) (nat (ne t ! 2) - 1) (nat (ne t ! 3) - 1) + 4"

definition addressable :: "ne_tensor \<Rightarrow> bool" where
  "addressable t \<longleftrightarrow> data t \<noteq> NULL \<and> 0 < ne t ! 0 \<and> 0 < ne t ! 1 \<and> 0 < ne t ! 2 \<and> 0 < ne t ! 3 \<and>
     data t + span t \<le> 2 ^ 64 \<and> ne t ! 0 < 2 ^ 31 \<and> ne t ! 1 * ne t ! 2 * ne t ! 3 < 2 ^ 31"

definition rows_apart :: "ne_tensor \<Rightarrow> bool" where
  "rows_apart t \<longleftrightarrow> addressable t \<and> nb t ! 0 = 4 \<and> 4 * nat (ne t ! 0) \<le> nb t ! 1 \<and>
     nat (ne t ! 1) * nb t ! 1 \<le> nb t ! 2 \<and> nat (ne t ! 2) * nb t ! 2 \<le> nb t ! 3"

definition apart :: "ne_tensor \<Rightarrow> ne_tensor \<Rightarrow> bool" where
  "apart a d \<longleftrightarrow> data a + span a \<le> data d \<or> data d + span d \<le> data a"

text \<open>An operand of an element-wise operation is the destination itself or apart from it.\<close>

definition operand :: "ne_tensor \<Rightarrow> ne_tensor \<Rightarrow> bool" where
  "operand a d \<longleftrightarrow> data a = data d \<and> nb a = nb d \<or> apart a d"

text \<open>The result of a kernel: every element of \<open>d\<close> has its value, every other byte is as before.\<close>

definition result_is :: "ne_tensor \<Rightarrow> (nat \<Rightarrow> nat \<Rightarrow> nat \<Rightarrow> nat \<Rightarrow> 32 word) \<Rightarrow> memory \<Rightarrow> memory \<Rightarrow> bool" where
  "result_is d g m m' \<longleftrightarrow>
     (\<forall>i0 i1 i2 i3. in_range d i0 i1 i2 i3 \<longrightarrow> elem m' d i0 i1 i2 i3 = g i0 i1 i2 i3) \<and>
     (\<forall>p. (\<forall>i0 i1 i2 i3. in_range d i0 i1 i2 i3 \<longrightarrow>
        p < data d + elem_offset d i0 i1 i2 i3 \<or> data d + elem_offset d i0 i1 i2 i3 + 4 \<le> p) \<longrightarrow> m' p = m p)"

lemma elem_in_span: "in_range t i0 i1 i2 i3 \<Longrightarrow> elem_offset t i0 i1 i2 i3 + 4 \<le> span t"
  unfolding in_range_def span_def elem_offset_def
  by (intro add_mono mult_le_mono) auto

lemma offset_sep:
  fixes w :: nat
  assumes "w \<le> s1" "n1 * s1 \<le> s2" "n2 * s2 \<le> s3" "i1 < n1" "i2 < n2" "j1 < n1" "j2 < n2"
    and "(i1, i2, i3) \<noteq> (j1, j2, j3)"
  shows "i1 * s1 + i2 * s2 + i3 * s3 + w \<le> j1 * s1 + j2 * s2 + j3 * s3 \<or>
         j1 * s1 + j2 * s2 + j3 * s3 + w \<le> i1 * s1 + i2 * s2 + i3 * s3"
proof -
  have step: "i * s + s \<le> j * s" if "i < j" for i j s :: nat
    using mult_le_mono1 [of "Suc i" j s] that by simp
  have row: "i * s1 + w \<le> s2" if "i < n1" for i
    using step [OF that, of s1] assms(1,2) by linarith
  have plane: "i * s1 + k * s2 + w \<le> s3" if "i < n1" "k < n2" for i k
    using row [OF that(1)] step [OF that(2), of s2] assms(3) by linarith
  consider "i3 < j3" | "j3 < i3" | "i3 = j3" "i2 < j2" | "i3 = j3" "j2 < i2"
    | "i3 = j3" "i2 = j2" "i1 < j1" | "i3 = j3" "i2 = j2" "j1 < i1" using assms(8) by force
  then show ?thesis
  proof cases
    case 1 then show ?thesis using plane [OF assms(4,5)] step [of i3 j3 s3] by linarith
  next
    case 2 then show ?thesis using plane [OF assms(6,7)] step [of j3 i3 s3] by linarith
  next
    case 3 then show ?thesis using row [OF assms(4)] step [of i2 j2 s2] by simp
  next
    case 4 then show ?thesis using row [OF assms(6)] step [of j2 i2 s2] by simp
  next
    case 5 then show ?thesis using step [of i1 j1 s1] assms(1) by simp
  next
    case 6 then show ?thesis using step [of j1 i1 s1] assms(1) by simp
  qed
qed

lemma elems_sep:
  assumes "rows_apart t" "in_range t i0 i1 i2 i3" "in_range t j0 j1 j2 j3"
    and "(i0, i1, i2, i3) \<noteq> (j0, j1, j2, j3)"
  shows "elem_offset t i0 i1 i2 i3 + 4 \<le> elem_offset t j0 j1 j2 j3 \<or>
         elem_offset t j0 j1 j2 j3 + 4 \<le> elem_offset t i0 i1 i2 i3"
proof (cases "(i1, i2, i3) = (j1, j2, j3)")
  case True
  with assms(4) have "i0 < j0 \<or> j0 < i0" by auto
  then have "i0 * 4 + 4 \<le> j0 * 4 \<or> j0 * 4 + 4 \<le> i0 * 4" by linarith
  with True assms(1) show ?thesis by (auto simp: elem_offset_def rows_apart_def)
next
  case False
  let ?w = "4 * nat (ne t ! 0)"
  have "i1 * nb t ! 1 + i2 * nb t ! 2 + i3 * nb t ! 3 + ?w \<le> j1 * nb t ! 1 + j2 * nb t ! 2 + j3 * nb t ! 3 \<or>
        j1 * nb t ! 1 + j2 * nb t ! 2 + j3 * nb t ! 3 + ?w \<le> i1 * nb t ! 1 + i2 * nb t ! 2 + i3 * nb t ! 3"
    using assms(1-3) False by (intro offset_sep) (auto simp: rows_apart_def in_range_def)
  moreover have "i0 * 4 + 4 \<le> ?w" "j0 * 4 + 4 \<le> ?w" using assms(2,3) by (simp_all add: in_range_def)
  ultimately show ?thesis using assms(1) by (auto simp: elem_offset_def rows_apart_def)
qed

text \<open>Reading an operand is not affected by a store to another element of the destination.\<close>

lemma operand_store:
  assumes "rows_apart d" "operand a d" "in_range a i0 i1 i2 i3" "in_range d i0 i1 i2 i3" "in_range d j0 j1 j2 j3"
    and "(i0, i1, i2, i3) \<noteq> (j0, j1, j2, j3)"
  shows "elem (store32 (data d + elem_offset d j0 j1 j2 j3) v m) a i0 i1 i2 i3 = elem m a i0 i1 i2 i3"
proof -
  let ?p = "data a + elem_offset a i0 i1 i2 i3" and ?q = "data d + elem_offset d j0 j1 j2 j3"
  consider "data a = data d" "nb a = nb d" | "apart a d" using assms(2) by (auto simp: operand_def)
  then have "?p + 4 \<le> ?q \<or> ?q + 4 \<le> ?p"
  proof cases
    case 1
    then have "elem_offset a = elem_offset d" by (intro ext) (simp add: elem_offset_def)
    with 1 elems_sep [OF assms(1,4,5,6)] show ?thesis by auto
  next
    case 2
    then show ?thesis using elem_in_span [OF assms(3)] elem_in_span [OF assms(5)] unfolding apart_def by linarith
  qed
  then show ?thesis unfolding elem_def by (rule load32_store32_other)
qed

lemma apart_store:
  assumes "apart a d" "in_range a i0 i1 i2 i3" "in_range d j0 j1 j2 j3"
  shows "elem (store32 (data d + elem_offset d j0 j1 j2 j3) v m) a i0 i1 i2 i3 = elem m a i0 i1 i2 i3"
  using elem_in_span [OF assms(2)] elem_in_span [OF assms(3)] assms(1)
  unfolding elem_def apart_def by (intro load32_store32_other) linarith


section \<open>Rows\<close>

definition row_of :: "ne_tensor \<Rightarrow> int \<Rightarrow> nat \<times> nat \<times> nat" where
  "row_of t r = (nat (r mod ne t ! 1), nat (r div ne t ! 1 mod ne t ! 2), nat (r div (ne t ! 1 * ne t ! 2)))"

definition row_elems :: "ne_tensor \<Rightarrow> int \<Rightarrow> (nat \<times> nat \<times> nat \<times> nat) list" where
  "row_elems t r = (case row_of t r of (i1, i2, i3) \<Rightarrow> map (\<lambda>j. (j, i1, i2, i3)) [0..<nat (ne t ! 0)])"

definition addr_of :: "ne_tensor \<Rightarrow> nat \<times> nat \<times> nat \<times> nat \<Rightarrow> ptr" where
  "addr_of t q = (case q of (i0, i1, i2, i3) \<Rightarrow> data t + elem_offset t i0 i1 i2 i3)"

definition elems_of :: "ne_tensor \<Rightarrow> (nat \<times> nat \<times> nat \<times> nat) set" where
  "elems_of t = {(i0, i1, i2, i3). in_range t i0 i1 i2 i3}"

definition row_range :: "ne_tensor \<Rightarrow> int set" where
  "row_range t = {0 ..< ne t ! 1 * ne t ! 2 * ne t ! 3}"

lemma int_div_bound:
  assumes "0 < (c::int)" "r < c * b"
  shows "r div c < b"
proof -
  have "(r + (- b) * c) div c < 0" using assms by (simp add: pos_imp_zdiv_neg_iff mult.commute)
  moreover have "(r + (- b) * c) div c = - b + r div c" using assms(1) by (intro div_mult_self1) simp
  ultimately show ?thesis by linarith
qed

lemma row_of_range:
  assumes "addressable t" "r \<in> row_range t" "row_of t r = (i1, i2, i3)"
  shows "i1 < nat (ne t ! 1)" "i2 < nat (ne t ! 2)" "i3 < nat (ne t ! 3)"
    and "r = int i1 + ne t ! 1 * (int i2 + ne t ! 2 * int i3)"
proof -
  have p: "0 < ne t ! 1" "0 < ne t ! 2" "0 < ne t ! 3" "0 \<le> r" using assms(1,2) by (auto simp: addressable_def row_range_def)
  have i: "int i1 = r mod ne t ! 1" "int i2 = r div ne t ! 1 mod ne t ! 2" "int i3 = r div ne t ! 1 div ne t ! 2"
    using assms(3) p unfolding row_of_def
    by (auto simp: zdiv_zmult2_eq pos_imp_zdiv_nonneg_iff)
  have "r div (ne t ! 1 * ne t ! 2) < ne t ! 3"
    using assms(2) p by (intro int_div_bound) (auto simp: row_range_def)
  then show "i1 < nat (ne t ! 1)" "i2 < nat (ne t ! 2)" "i3 < nat (ne t ! 3)"
    using i p by (simp_all add: zless_nat_eq_int_zless zdiv_zmult2_eq)
  show "r = int i1 + ne t ! 1 * (int i2 + ne t ! 2 * int i3)"
    unfolding i by (metis add.commute mult_div_mod_eq)
qed


lemma row_of_exists:
  assumes "addressable t" "i1 < nat (ne t ! 1)" "i2 < nat (ne t ! 2)" "i3 < nat (ne t ! 3)"
  shows "\<exists>r \<in> row_range t. row_of t r = (i1, i2, i3)"
proof -
  let ?q = "int i2 + ne t ! 2 * int i3"
  let ?r = "int i1 + ne t ! 1 * ?q"
  have p: "0 < ne t ! 1" "0 < ne t ! 2" "0 < ne t ! 3" using assms(1) by (auto simp: addressable_def)
  have i: "int i1 < ne t ! 1" "int i2 < ne t ! 2" "int i3 < ne t ! 3" using assms(2-4) by auto
  have "?q < ne t ! 2 * (int i3 + 1)" using i by (simp add: algebra_simps)
  also have "\<dots> \<le> ne t ! 2 * ne t ! 3" using i p by (intro mult_left_mono) auto
  finally have "?q + 1 \<le> ne t ! 2 * ne t ! 3" by simp
  then have "ne t ! 1 * (?q + 1) \<le> ne t ! 1 * (ne t ! 2 * ne t ! 3)" using p by (intro mult_left_mono) auto
  then have "?r \<in> row_range t" using i p by (simp add: row_range_def algebra_simps)
  moreover have "?r div ne t ! 1 = ?q" "?r mod ne t ! 1 = int i1" using i p by simp_all
  moreover have "?q div ne t ! 2 = int i3" "?q mod ne t ! 2 = int i2" using i p by simp_all
  ultimately have "row_of t ?r = (i1, i2, i3)" using p by (simp add: row_of_def zdiv_zmult2_eq)
  with \<open>?r \<in> row_range t\<close> show ?thesis by blast
qed

lemma row_of_inj: "addressable t \<Longrightarrow> inj_on (row_of t) (row_range t)"
  by (rule inj_onI) (metis prod_cases3 row_of_range(4))

lemma set_row_elems: "addressable t \<Longrightarrow> (\<Union>r \<in> row_range t. set (row_elems t r)) = elems_of t"
proof (intro set_eqI iffI)
  fix q assume t: "addressable t" and "q \<in> (\<Union>r \<in> row_range t. set (row_elems t r))"
  then obtain r where "r \<in> row_range t" "q \<in> set (row_elems t r)" by blast
  with row_of_range [OF t] show "q \<in> elems_of t"
    by (cases "row_of t r") (auto simp: row_elems_def elems_of_def in_range_def)
next
  fix q assume t: "addressable t" and q: "q \<in> elems_of t"
  obtain i0 i1 i2 i3 where e: "q = (i0, i1, i2, i3)" by (rule prod_cases4)
  with q row_of_exists [OF t, of i1 i2 i3] obtain r where "r \<in> row_range t" "row_of t r = (i1, i2, i3)"
    by (auto simp: elems_of_def in_range_def)
  with q e show "q \<in> (\<Union>r \<in> row_range t. set (row_elems t r))"
    by (auto simp: elems_of_def in_range_def row_elems_def intro!: bexI [of _ r])
qed

lemma distinct_row_elems:
  assumes "addressable t" "distinct rs" "set rs \<subseteq> row_range t"
  shows "distinct (concat (map (row_elems t) rs))"
  using assms(2,3)
proof (induction rs)
  case (Cons r rs)
  have "set (row_elems t r) \<inter> set (row_elems t r') = {}" if "r' \<in> set rs" for r'
  proof -
    have "row_of t r \<noteq> row_of t r'"
      using that Cons.prems inj_onD [OF row_of_inj [OF assms(1)], of r r'] by auto
    then show ?thesis by (auto simp: row_elems_def split: prod.splits)
  qed
  moreover have "distinct (row_elems t r)" by (auto simp: row_elems_def distinct_map inj_on_def split: prod.splits)
  ultimately show ?case using Cons by auto
qed simp

text \<open>
  A kernel whose row \<open>r\<close> stores \<open>val q\<close> to each element \<open>q\<close> of the row: run over all rows, in any
  order, it has the result \<open>val\<close>.
\<close>

definition stable :: "ne_tensor \<Rightarrow> (nat \<times> nat \<times> nat \<times> nat \<Rightarrow> memory \<Rightarrow> 32 word) \<Rightarrow> bool" where
  "stable d val \<longleftrightarrow> (\<forall>q \<in> elems_of d. \<forall>q' \<in> elems_of d. q \<noteq> q' \<longrightarrow>
     (\<forall>v m. val q (store32 (addr_of d q') v m) = val q m))"

definition all_rows :: "ne_tensor \<Rightarrow> (nat \<times> nat \<times> nat \<times> nat \<Rightarrow> memory \<Rightarrow> 32 word) \<Rightarrow> int list \<Rightarrow> memory \<Rightarrow> memory" where
  "all_rows d val rs = run_writes (addr_of d) val (concat (map (row_elems d) rs))"

definition elems_apart :: "ne_tensor \<Rightarrow> bool" where
  "elems_apart d \<longleftrightarrow> addressable d \<and> (\<forall>q \<in> elems_of d. \<forall>q' \<in> elems_of d. q \<noteq> q' \<longrightarrow>
     addr_of d q + 4 \<le> addr_of d q' \<or> addr_of d q' + 4 \<le> addr_of d q)"

lemma rows_apart_elems: "rows_apart d \<Longrightarrow> elems_apart d"
  unfolding elems_apart_def
proof (intro conjI ballI impI)
  fix q q' assume d: "rows_apart d" and q: "q \<in> elems_of d" "q' \<in> elems_of d" "q \<noteq> q'"
  show "addr_of d q + 4 \<le> addr_of d q' \<or> addr_of d q' + 4 \<le> addr_of d q"
    using q elems_sep [OF d] by (cases q; cases q') (fastforce simp: elems_of_def addr_of_def)
qed (simp add: rows_apart_def)

lemma independent_elems:
  assumes "elems_apart d" "stable d val"
  shows "independent (addr_of d) val (elems_of d)"
  using assms unfolding independent_def elems_apart_def stable_def by blast

lemma writes_result:
  assumes "elems_apart d" "stable d val" "distinct qs" "set qs = elems_of d"
  shows "result_is d (\<lambda>i0 i1 i2 i3. val (i0, i1, i2, i3) m) m (run_writes (addr_of d) val qs m)"
proof -
  let ?m = "run_writes (addr_of d) val qs m"
  have "elem ?m d i0 i1 i2 i3 = val (i0, i1, i2, i3) m" if "in_range d i0 i1 i2 i3" for i0 i1 i2 i3
    using run_writes_load [OF independent_elems [OF assms(1,2)] equalityD1 [OF assms(4)] assms(3), of "(i0, i1, i2, i3)" m] that
    by (simp add: assms(4) elems_of_def elem_def addr_of_def)
  moreover have "?m p = m p"
    if "\<And>i0 i1 i2 i3. in_range d i0 i1 i2 i3 \<Longrightarrow>
      p < data d + elem_offset d i0 i1 i2 i3 \<or> data d + elem_offset d i0 i1 i2 i3 + 4 \<le> p" for p
    using that assms(4) by (intro run_writes_frame) (auto simp: elems_of_def addr_of_def)
  ultimately show ?thesis unfolding result_is_def by blast
qed

lemma all_rows_append: "all_rows d val rs' (all_rows d val rs m) = all_rows d val (rs @ rs') m"
  by (simp add: all_rows_def run_writes_append)


section \<open>Schedules of a node\<close>

text \<open>
  The calls for one node, phase after phase, those of one phase in any order.
\<close>

definition schedule :: "ne_compute_params list \<Rightarrow> ne_compute_params list list \<Rightarrow> bool" where
  "schedule calls phases \<longleftrightarrow> (\<exists>cs. calls = concat cs \<and> list_all2 (\<lambda>c p. mset c = mset p) cs phases)"

lemma schedule_phases:
  assumes "schedule calls (node_calls team wsz wdat t)" "0 < n_tasks t" "n_tasks t \<le> int team"
  obtains ini c1 c2 where "calls = ini # c1 @ c2" "task ini = NE_TASK_INIT"
    "\<And>ps. ps \<in> set c2 \<Longrightarrow> task ps = NE_TASK_FINALIZE"
    "\<And>ps. ps \<in> set c1 \<Longrightarrow> task ps = NE_TASK_COMPUTE \<and> nth ps = n_tasks t"
    "distinct (map ith c1)" "set (map ith c1) = {0 ..< n_tasks t}"
proof -
  let ?call = "\<lambda>k i. \<lparr>task = k, ith = i, nth = n_tasks t, wsize = wsz, wdata = wdat\<rparr>"
  let ?calls = "\<lambda>k. map (?call k \<circ> int) [0..<nat (n_tasks t)]"
  have f: "filter (\<lambda>i. int i < n_tasks t) [0..<team] = [0..<nat (n_tasks t)]"
  proof -
    have "[0..<team] = [0..<nat (n_tasks t)] @ [nat (n_tasks t)..<team]"
      using assms(3) upt_add_eq_append [of 0 "nat (n_tasks t)" "team - nat (n_tasks t)"] by simp
    moreover have "filter (\<lambda>i. int i < n_tasks t) [0..<nat (n_tasks t)] = [0..<nat (n_tasks t)]"
      using assms(2) by (auto simp: filter_id_conv)
    moreover have "filter (\<lambda>i. int i < n_tasks t) [nat (n_tasks t)..<team] = []"
      by (auto simp: filter_empty_conv)
    ultimately show ?thesis by simp
  qed
  have "node_calls team wsz wdat t = [[?call NE_TASK_INIT 0], ?calls NE_TASK_COMPUTE,
      if n_tasks t = 1 then [?call NE_TASK_FINALIZE 0] else ?calls NE_TASK_FINALIZE]"
    using f by (auto simp: node_calls_def Let_def comp_def)
  with assms(1) obtain c0 c1 c2 where c: "calls = c0 @ c1 @ c2" "mset c0 = mset [?call NE_TASK_INIT 0]"
      "mset c1 = mset (?calls NE_TASK_COMPUTE)"
      "mset c2 = mset (if n_tasks t = 1 then [?call NE_TASK_FINALIZE 0] else ?calls NE_TASK_FINALIZE)"
    by (auto simp: schedule_def list_all2_Cons2)
  have s: "set c1 = set (?calls NE_TASK_COMPUTE)" "set c2 \<subseteq> range (?call NE_TASK_FINALIZE)"
    using c(3,4) [THEN mset_eq_setD] by (auto split: if_splits)
  have c0: "c0 = [?call NE_TASK_INIT 0]" using c(2) by simp
  have "mset (map ith c1) = mset (map int [0..<nat (n_tasks t)])"
    using c(3) by (simp add: mset_map comp_def multiset.map_comp)
  then have "set (map ith c1) = set (map int [0..<nat (n_tasks t)])"
      "distinct (map ith c1) = distinct (map int [0..<nat (n_tasks t)])"
    by (metis mset_eq_setD, metis mset_eq_imp_distinct_iff)
  then have i: "set (map ith c1) = {0 ..< n_tasks t}" "distinct (map ith c1)"
    by (auto simp: image_int_atLeastLessThan distinct_map)
  show ?thesis by (rule that [of "?call NE_TASK_INIT 0" c1 c2, OF _ _ _ _ i(2,1)]) (use s c(1) c0 in auto)
qed

lemma for_list_append: "for_list (is @ js) body m = sseq (for_list is body) (for_list js body) m"
proof (induction "is" arbitrary: m)
  case (Cons i "is")
  then show ?case by (cases "body i m") (auto simp: sseq_def sbind_def)
qed simp

lemma fold_concat_map: "fold f (concat (map g xs)) m = fold (\<lambda>x. fold f (g x)) xs m"
  by (induction xs arbitrary: m) simp_all

text \<open>
  The initialising call may prepare the memory (\<open>g\<close>), the tasks share the steps out (\<open>part\<close>, \<open>owner\<close>)
  and rely on a condition on the memory that the stores keep (\<open>keep\<close>).
\<close>

lemma schedule_fold:
  assumes "0 < n_tasks d" "n_tasks d \<le> int team" "schedule calls (node_calls team wsz wdat d)"
    and init: "\<And>ps. task ps = NE_TASK_INIT \<Longrightarrow> kern ps m = Inr ((), g m)" "keep (g m)"
    and fin: "\<And>ps m. task ps = NE_TASK_FINALIZE \<Longrightarrow> keep m \<Longrightarrow> kern ps m = Inr ((), m)"
    and busy: "\<And>ps m. task ps = NE_TASK_COMPUTE \<Longrightarrow> nth ps = n_tasks d \<Longrightarrow> 0 \<le> ith ps \<Longrightarrow> ith ps < n_tasks d \<Longrightarrow>
      keep m \<Longrightarrow> kern ps m = Inr ((), fold step (part (ith ps)) m) \<and> keep (fold step (part (ith ps)) m)"
    and part: "\<And>i. 0 \<le> i \<Longrightarrow> i < n_tasks d \<Longrightarrow> distinct (part i) \<and> set (part i) = {x \<in> I. owner x = i}"
    and owner: "\<And>x. x \<in> I \<Longrightarrow> owner x \<in> {0 ..< n_tasks d}"
  shows "\<exists>qs. distinct qs \<and> set qs = I \<and> for_list calls kern m = Inr ((), fold step qs (g m))"
proof -
  obtain ini c1 c2 where c: "calls = ini # c1 @ c2" "task ini = NE_TASK_INIT"
      "\<And>ps. ps \<in> set c2 \<Longrightarrow> task ps = NE_TASK_FINALIZE"
      "\<And>ps. ps \<in> set c1 \<Longrightarrow> task ps = NE_TASK_COMPUTE \<and> nth ps = n_tasks d"
      "distinct (map ith c1)" "set (map ith c1) = {0 ..< n_tasks d}"
    using schedule_phases [OF assms(3,1,2)] by metis
  have i: "0 \<le> ith ps \<and> ith ps < n_tasks d" if "ps \<in> set c1" for ps using that c(6) by (force simp: set_eq_iff)
  let ?qs = "concat (map (part \<circ> ith) c1)"
  have run: "for_list c1 kern (g m) = Inr ((), fold step ?qs (g m))" and keep: "keep (fold step ?qs (g m))"
    using for_list_fold_inv [of c1 keep kern "\<lambda>ps. fold step (part (ith ps))" "g m"] c(4) i busy init(2)
    by (simp_all add: fold_concat_map comp_def)
  have end_idle: "for_list c2 kern m' = Inr ((), m')" if "keep m'" for m'
    using for_list_fold_inv [of c2 keep kern "\<lambda>_ m. m" m'] c(3) fin that
    by (simp add: fold_invariant [of c2 "\<lambda>_. True" "\<lambda>m. m = m'"])
  have "distinct (concat (map (part \<circ> ith) cs))" if "distinct (map ith cs)" "set cs \<subseteq> set c1" for cs
    using that
  proof (induction cs)
    case (Cons ps cs)
    have own: "owner x = ith p" if "p \<in> set (ps # cs)" "x \<in> set (part (ith p))" for p x
      using that Cons.prems(2) part [of "ith p"] i [of p] by auto
    have "set (part (ith ps)) \<inter> (\<Union>p \<in> set cs. set (part (ith p))) = {}"
    proof (rule equals0I)
      fix x assume "x \<in> set (part (ith ps)) \<inter> (\<Union>p \<in> set cs. set (part (ith p)))"
      then obtain p where "p \<in> set cs" "ith p = ith ps" using own by (metis IntE UN_E list.set_intros)
      with Cons.prems(1) show False by (metis distinct.simps(2) image_eqI list.simps(9) set_map)
    qed
    with Cons part [of "ith ps"] i [of ps] show ?case by auto
  qed simp
  then have "distinct ?qs" using c(5) by blast
  moreover have "set ?qs = (\<Union>i \<in> set (map ith c1). set (part i))" by auto
  then have "set ?qs = I" using part owner unfolding c(6) by auto
  moreover have "for_list calls kern m = Inr ((), fold step ?qs (g m))"
    using init(1) [OF c(2)] run end_idle [OF keep] by (simp add: c(1) for_list_append sseq_def)
  ultimately show ?thesis by blast
qed

lemma schedule_writes:
  assumes "0 < n_tasks d" "n_tasks d \<le> int team" "schedule calls (node_calls team wsz wdat d)"
    and "\<And>ps. task ps = NE_TASK_INIT \<Longrightarrow> kern ps m = Inr ((), g m)" "keep (g m)"
    and "\<And>ps m. task ps = NE_TASK_FINALIZE \<Longrightarrow> keep m \<Longrightarrow> kern ps m = Inr ((), m)"
    and "\<And>ps m. task ps = NE_TASK_COMPUTE \<Longrightarrow> nth ps = n_tasks d \<Longrightarrow> 0 \<le> ith ps \<Longrightarrow> ith ps < n_tasks d \<Longrightarrow>
      keep m \<Longrightarrow> kern ps m = Inr ((), run_writes addr val (part (ith ps)) m) \<and> keep (run_writes addr val (part (ith ps)) m)"
    and "\<And>i. 0 \<le> i \<Longrightarrow> i < n_tasks d \<Longrightarrow> distinct (part i) \<and> set (part i) = {x \<in> I. owner x = i}"
    and "\<And>x. x \<in> I \<Longrightarrow> owner x \<in> {0 ..< n_tasks d}"
  shows "\<exists>qs. distinct qs \<and> set qs = I \<and> for_list calls kern m = Inr ((), run_writes addr val qs (g m))"
  using schedule_fold [of d team calls wsz wdat kern m g keep "\<lambda>i m. store32 (addr i) (val i m) m" part I owner] assms
  unfolding run_writes_def by blast

text \<open>The same for kernels that share out the rows of \<open>d\<close>.\<close>

lemma schedule_result_inv:
  assumes "rows_apart d" "stable d val" "0 < n_tasks d" "n_tasks d \<le> int team"
    and "schedule calls (node_calls team wsz wdat d)"
    and init: "\<And>ps. task ps = NE_TASK_INIT \<Longrightarrow> kern ps m = Inr ((), g m)" "keep (g m)"
    and fin: "\<And>ps m. task ps = NE_TASK_FINALIZE \<Longrightarrow> keep m \<Longrightarrow> kern ps m = Inr ((), m)"
    and busy: "\<And>ps m. task ps = NE_TASK_COMPUTE \<Longrightarrow> nth ps = n_tasks d \<Longrightarrow> 0 \<le> ith ps \<Longrightarrow> ith ps < n_tasks d \<Longrightarrow>
      keep m \<Longrightarrow> kern ps m = Inr ((), all_rows d val (rows (ith ps)) m) \<and> keep (all_rows d val (rows (ith ps)) m)"
    and rows: "\<And>i. 0 \<le> i \<Longrightarrow> i < n_tasks d \<Longrightarrow> distinct (rows i) \<and> set (rows i) = {r \<in> row_range d. owner r = i}"
    and owner: "\<And>r. r \<in> row_range d \<Longrightarrow> owner r \<in> {0 ..< n_tasks d}"
  shows "\<exists>m'. for_list calls kern m = Inr ((), m') \<and> result_is d (\<lambda>i0 i1 i2 i3. val (i0, i1, i2, i3) (g m)) (g m) m'"
proof -
  have ad: "addressable d" using assms(1) by (simp add: rows_apart_def)
  let ?row = "\<lambda>(i0::nat, i1, i2, i3). int i1 + ne d ! 1 * (int i2 + ne d ! 2 * int i3)"
  have row: "?row q = r" if "r \<in> row_range d" "q \<in> set (row_elems d r)" for q r
    using that row_of_range(4) [OF ad that(1)] by (cases "row_of d r") (auto simp: row_elems_def)
  have parts: "set (concat (map (row_elems d) (rows i))) = {q \<in> elems_of d. owner (?row q) = i}"
    if "0 \<le> i" "i < n_tasks d" for i
    using rows [OF that] row set_row_elems [OF ad] by fastforce
  have "\<exists>qs. distinct qs \<and> set qs = elems_of d \<and> for_list calls kern m = Inr ((), run_writes (addr_of d) val qs (g m))"
  proof (rule schedule_writes [where part = "\<lambda>i. concat (map (row_elems d) (rows i))" and owner = "owner \<circ> ?row"])
    show "kern ps m' = Inr ((), run_writes (addr_of d) val (concat (map (row_elems d) (rows (ith ps)))) m') \<and>
        keep (run_writes (addr_of d) val (concat (map (row_elems d) (rows (ith ps)))) m')"
      if "task ps = NE_TASK_COMPUTE" "nth ps = n_tasks d" "0 \<le> ith ps" "ith ps < n_tasks d" "keep m'" for ps m'
      using busy [OF that] by (simp add: all_rows_def)
    show "distinct (concat (map (row_elems d) (rows i))) \<and>
        set (concat (map (row_elems d) (rows i))) = {q \<in> elems_of d. (owner \<circ> ?row) q = i}" if "0 \<le> i" "i < n_tasks d" for i
      using rows [OF that] parts [OF that] distinct_row_elems [OF ad] by auto
    show "(owner \<circ> ?row) q \<in> {0 ..< n_tasks d}" if q: "q \<in> elems_of d" for q
    proof -
      from q obtain r where "r \<in> row_range d" "q \<in> set (row_elems d r)" using set_row_elems [OF ad] by blast
      then show ?thesis using owner [of r] row by (simp only: comp_def)
    qed
  qed (use assms(3-5) init fin in auto)
  with writes_result [OF rows_apart_elems [OF assms(1)] assms(2)] show ?thesis by blast
qed

lemma schedule_result:
  assumes "rows_apart d" "stable d val" "0 < n_tasks d" "n_tasks d \<le> int team"
    and "schedule calls (node_calls team wsz wdat d)"
    and "\<And>ps m. task ps \<noteq> NE_TASK_COMPUTE \<Longrightarrow> kern ps m = Inr ((), m)"
    and "\<And>ps m. task ps = NE_TASK_COMPUTE \<Longrightarrow> nth ps = n_tasks d \<Longrightarrow> 0 \<le> ith ps \<Longrightarrow> ith ps < n_tasks d \<Longrightarrow>
      kern ps m = Inr ((), all_rows d val (rows (ith ps)) m)"
    and "\<And>i. 0 \<le> i \<Longrightarrow> i < n_tasks d \<Longrightarrow> distinct (rows i) \<and> set (rows i) = {r \<in> row_range d. owner r = i}"
    and "\<And>r. r \<in> row_range d \<Longrightarrow> owner r \<in> {0 ..< n_tasks d}"
  shows "\<exists>m'. for_list calls kern m = Inr ((), m') \<and> result_is d (\<lambda>i0 i1 i2 i3. val (i0, i1, i2, i3) m) m m'"
  by (rule schedule_result_inv [OF assms(1-5), where g = "\<lambda>m. m" and keep = "\<lambda>_. True" and rows = rows and owner = owner])
    (use assms(6-9) in auto)

end
