(* ===== verification/NE_Kernel_Results.thy ===== *)
theory NE_Kernel_Results
  imports NE_Kernel_Laws
begin

text \<open>
  The kernels compute their operations: the interfaces \<open>broadcast_kernel\<close> and \<open>unary_kernel\<close> are
  the contracts of the element-wise kernels, interpreted on each of them. The results hold for
  every schedule of the calls that the execution of a node makes.
\<close>

section \<open>Evaluating rows\<close>

lemma addressable_bounds:
  assumes "addressable t"
  shows "0 < ne t ! 0" "0 < ne t ! 1" "0 < ne t ! 2" "0 < ne t ! 3" "data t \<noteq> NULL"
    and "ne t ! 0 < 2 ^ 31" "ne t ! 1 < 2 ^ 31" "ne t ! 2 < 2 ^ 31" "ne t ! 3 < 2 ^ 31"
    and "ne_nrows t = ne t ! 1 * ne t ! 2 * ne t ! 3"
proof -
  show p: "0 < ne t ! 0" "0 < ne t ! 1" "0 < ne t ! 2" "0 < ne t ! 3" "data t \<noteq> NULL" and "ne t ! 0 < 2 ^ 31"
    using assms by (auto simp: addressable_def)
  have b: "ne t ! 1 * ne t ! 2 * ne t ! 3 < 2 ^ 31" using assms by (simp add: addressable_def)
  have le: "x \<le> x * y" if "0 < x" "0 < y" for x y :: int using that mult_left_mono [of 1 y x] by simp
  have p12: "0 < ne t ! 1 * ne t ! 2" using p by simp
  show "ne t ! 1 < 2 ^ 31" using b le [OF p12 p(4)] le [OF p(2,3)] by linarith
  show "ne t ! 2 < 2 ^ 31" using b le [OF p12 p(4)] le [OF p(3,2)] unfolding mult.commute [of "ne t ! 2"] by linarith
  show "ne t ! 3 < 2 ^ 31" using b le [OF p(4) p12] unfolding mult.commute [of "ne t ! 3"] by linarith
  show "ne_nrows t = ne t ! 1 * ne t ! 2 * ne t ! 3"
    unfolding ne_nrows_def using b mult_pos_pos [OF p12 p(4)] by (intro to_int32_id) auto
qed

lemma addressable_nelements:
  assumes "addressable t"
  shows "ne_nelements t = ne t ! 0 * ne t ! 1 * ne t ! 2 * ne t ! 3"
    and "ne t ! 0 * ne t ! 1 * ne t ! 2 * ne t ! 3 < 2 ^ 63"
proof -
  note b = addressable_bounds [OF assms]
  have "ne t ! 0 * (ne t ! 1 * ne t ! 2 * ne t ! 3) < 2 ^ 31 * 2 ^ 31"
    using assms b by (intro mult_strict_mono) (auto simp: addressable_def)
  then show lt: "ne t ! 0 * ne t ! 1 * ne t ! 2 * ne t ! 3 < 2 ^ 63" by (simp add: mult.assoc)
  have "0 \<le> ne t ! 0 * ne t ! 1 * ne t ! 2 * ne t ! 3" using b by simp
  then show "ne_nelements t = ne t ! 0 * ne t ! 1 * ne t ! 2 * ne t ! 3"
    unfolding ne_nelements_def using lt by (intro to_int64_id) simp_all
qed

lemma row_index_of:
  assumes "addressable t" "r \<in> row_range t" "row_of t r = (i1, i2, i3)"
  shows "row_index (ne t ! 1) (ne t ! 2) r = Inr (int i1, int i2, int i3)"
proof -
  let ?n1 = "ne t ! 1" and ?n2 = "ne t ! 2"
  have p: "0 < ?n1" "0 < ?n2" using addressable_bounds [OF assms(1)] by auto
  note i = row_of_range [OF assms]
  have i12: "int i1 < ?n1" "int i2 < ?n2" using i by auto
  have q: "r div ?n1 = int i2 + ?n2 * int i3" "(int i2 + ?n2 * int i3) div ?n2 = int i3"
    unfolding i(4) using p i12 by simp_all
  have d3: "r div (?n2 * ?n1) = int i3" using p q by (simp add: mult.commute [of ?n2] zdiv_zmult2_eq)
  have d2: "(r - int i3 * ?n2 * ?n1) div ?n1 = int i2"
    using div_mult_self1 [of ?n1 r "- (int i3 * ?n2)"] p q by (simp add: algebra_simps)
  have "r - int i3 * ?n2 * ?n1 \<ge> 0" "0 \<le> r" using i(4) p by (simp_all add: algebra_simps)
  then show ?thesis using p d3 d2 i(4)
    by (simp add: row_index_def cdiv_nonneg) (simp add: algebra_simps)
qed

lemma to_size_int: "int i < 2 ^ 31 \<Longrightarrow> to_size (int i) = i"
  by (simp add: to_size_def)

lemma off3_int:
  assumes "addressable t" "in_range t i0 i1 i2 i3"
  shows "to_size (int i1) = i1" "to_size (int i2) = i2" "to_size (int i3) = i3"
    and "off3 (nb t) (int i1, int i2, int i3) = elem_offset t 0 i1 i2 i3"
proof -
  have "int i1 < ne t ! 1" "int i2 < ne t ! 2" "int i3 < ne t ! 3" using assms(2) by (auto simp: in_range_def)
  then show "to_size (int i1) = i1" "to_size (int i2) = i2" "to_size (int i3) = i3"
    using addressable_bounds [OF assms(1)] by (intro to_size_int, linarith)+
  then show "off3 (nb t) (int i1, int i2, int i3) = elem_offset t 0 i1 i2 i3"
    by (simp add: off3_def elem_offset_def)
qed

lemma row_ptr_elem:
  assumes "addressable t" "in_range t i0 i1 i2 i3"
  shows "row_ptr t n (elem_offset t 0 i1 i2 i3) m = Inr (data t + elem_offset t 0 i1 i2 i3, m)"
proof -
  have "in_range t 0 i1 i2 i3" using assms(2) by (auto simp: in_range_def)
  from elem_in_span [OF this] have "data t + elem_offset t 0 i1 i2 i3 < 2 ^ 64"
    using assms(1) by (auto simp: addressable_def)
  then show ?thesis using assms(1) by (simp add: row_ptr_def addressable_def)
qed

lemma cmod_nonneg: "0 \<le> a \<Longrightarrow> 0 < b \<Longrightarrow> cmod a b = Inr (a mod b)"
  by (simp add: cmod_def cdiv_nonneg minus_div_mult_eq_mod)

section \<open>Broadcasting kernels\<close>

definition wrap_index :: "ne_tensor \<Rightarrow> nat \<Rightarrow> nat \<Rightarrow> nat" where
  "wrap_index b k i = i mod nat (ne b ! k)"

definition broadcast_val ::
  "(32 word \<Rightarrow> 32 word \<Rightarrow> 32 word) \<Rightarrow> ne_tensor \<Rightarrow> ne_tensor \<Rightarrow> nat \<times> nat \<times> nat \<times> nat \<Rightarrow> memory \<Rightarrow> 32 word" where
  "broadcast_val f a b q m = (case q of (i0, i1, i2, i3) \<Rightarrow>
     f (elem m a i0 i1 i2 i3) (elem m b i0 (wrap_index b 1 i1) (wrap_index b 2 i2) (wrap_index b 3 i3)))"

lemma wrapped_index_int:
  assumes "addressable b"
  shows "wrapped_index b (int i1, int i2, int i3) =
    Inr (int (wrap_index b 1 i1), int (wrap_index b 2 i2), int (wrap_index b 3 i3))"
  using addressable_bounds [OF assms]
  by (simp add: wrapped_index_def cmod_nonneg wrap_index_def zmod_int)

lemma off3_repeat:
  assumes "addressable b" "in_range b i0 k1 k2 k3"
  shows "off3 (repeat_strides b) (int k1, int k2, int k3) = elem_offset b 0 k1 k2 k3"
  using assms(2) addressable_bounds [OF assms(1)] off3_int(1-3) [OF assms]
  by (auto simp: off3_def repeat_strides_def in_range_def elem_offset_def)

lemma broadcast_row_writes:
  assumes ad: "addressable a" "addressable b" "addressable d" and sh: "ne_are_same_shape a d" "ne b ! 0 = ne a ! 0"
    and nb4: "nb a ! 0 = 4" "nb d ! 0 = 4" and r: "r \<in> row_range d"
  shows "broadcast_row (vec_map2 f) f a b d r m =
    Inr ((), run_writes (addr_of d) (broadcast_val f a b) (row_elems d r) m)"
proof -
  obtain i1 i2 i3 where i: "row_of d r = (i1, i2, i3)" by (cases "row_of d r")
  let ?k1 = "wrap_index b 1 i1" and ?k2 = "wrap_index b 2 i2" and ?k3 = "wrap_index b 3 i3"
  let ?n = "nat (ne a ! 0)"
  note bd = addressable_bounds [OF ad(3)] and bb = addressable_bounds [OF ad(2)]
  have sh': "ne a ! 0 = ne d ! 0" "ne a ! 1 = ne d ! 1" "ne a ! 2 = ne d ! 2" "ne a ! 3 = ne d ! 3"
    using sh by (simp_all add: ne_are_same_shape_def)
  have rd: "in_range d 0 i1 i2 i3" and ra: "in_range a 0 i1 i2 i3"
    using row_of_range [OF ad(3) r i] bd sh' by (auto simp: in_range_def)
  have rb: "in_range b 0 ?k1 ?k2 ?k3" using bb by (simp add: in_range_def wrap_index_def)
  have idx: "row_index (ne a ! 1) (ne a ! 2) r = Inr (int i1, int i2, int i3)" and n: "nat (to_int32 (ne a ! 0)) = ?n"
    using row_index_of [OF ad(3) r i] sh' bd by (simp_all add: to_int32_id)
  let ?run = "run_writes (\<lambda>j. data d + elem_offset d 0 i1 i2 i3 + 4 * j)
    (\<lambda>j m. f (load32 m (data a + elem_offset a 0 i1 i2 i3 + 4 * j))
       (load32 m (data b + elem_offset b 0 ?k1 ?k2 ?k3 + j * nb b ! 0))) [0..<?n]"
  have "broadcast_row (vec_map2 f) f a b d r m = Inr ((), ?run m)"
    unfolding broadcast_row_def idx Let_def n
    by (simp add: row_ptr_elem [OF ad(3) rd] row_ptr_elem [OF ad(1) ra] row_ptr_elem [OF ad(2) rb, simplified]
        off3_repeat [OF ad(2) rb, simplified] off3_int(4) [OF ad(3) rd] off3_int(4) [OF ad(1) ra]
        vec_map2_def strided_map2_def run_writes_def idx wrapped_index_int [OF ad(2)])
      (simp add: mult.commute)
  moreover have "?run m = run_writes (addr_of d) (broadcast_val f a b) (row_elems d r) m"
    using sh' nb4 unfolding row_elems_def i prod.case run_writes_map
    by (simp add: comp_def addr_of_def broadcast_val_def [abs_def] elem_def elem_offset_def ac_simps)
  ultimately show ?thesis by simp
qed


text \<open>What the operands of a broadcasting operation look like.\<close>

definition broadcast_operands :: "ne_tensor \<Rightarrow> ne_tensor \<Rightarrow> ne_tensor \<Rightarrow> bool" where
  "broadcast_operands a b d \<longleftrightarrow> addressable a \<and> addressable b \<and> rows_apart d \<and> ne_are_same_shape a d \<and>
     ne_can_repeat_rows b a = Inr True \<and> nb a ! 0 = 4 \<and> operand a d \<and> apart b d"

lemma broadcast_stable:
  assumes "broadcast_operands a b d"
  shows "stable d (broadcast_val f a b)"
  unfolding stable_def
proof (intro ballI impI allI)
  fix q q' v m assume q: "q \<in> elems_of d" "q' \<in> elems_of d" "q \<noteq> q'"
  obtain i0 i1 i2 i3 j0 j1 j2 j3 where e: "q = (i0, i1, i2, i3)" "q' = (j0, j1, j2, j3)" by (metis prod_cases4)
  have o: "rows_apart d" "operand a d" "apart b d" "ne_are_same_shape a d" "addressable b" "ne b ! 0 = ne a ! 0"
    using assms by (auto simp: broadcast_operands_def ne_can_repeat_rows_def andR_True_iff)
  have r: "in_range d i0 i1 i2 i3" "in_range d j0 j1 j2 j3" "in_range a i0 i1 i2 i3"
    using q e o(4) by (auto simp: elems_of_def in_range_def ne_are_same_shape_def)
  moreover have "in_range b i0 (wrap_index b 1 i1) (wrap_index b 2 i2) (wrap_index b 3 i3)"
    using r(3) o(6) addressable_bounds [OF o(5)] by (auto simp: in_range_def wrap_index_def)
  ultimately show "broadcast_val f a b q (store32 (addr_of d q') v m) = broadcast_val f a b q m"
    using operand_store [OF o(1,2) r(3,1,2)] apart_store [OF o(3)] q(3)
    by (simp add: e broadcast_val_def addr_of_def)
qed

lemma broadcast_call:
  assumes "broadcast_operands a b d" "task ps = NE_TASK_COMPUTE"
    and "strided (ith ps) (nth ps) (ne_nrows d) = Inr rs" "set rs \<subseteq> row_range d"
  shows "broadcast_f32 (vec_map2 f) f ps a b d m = Inr ((), all_rows d (broadcast_val f a b) rs m)"
proof -
  have o: "addressable a" "addressable b" "addressable d" "ne_are_same_shape a d" "ne b ! 0 = ne a ! 0"
      "nb a ! 0 = 4" "nb d ! 0 = 4" "ne_can_repeat_rows b a = Inr True"
    using assms(1) by (auto simp: broadcast_operands_def rows_apart_def ne_can_repeat_rows_def andR_True_iff)
  have "ne_nrows a = ne_nrows d" using o(4) by (simp add: ne_nrows_def ne_are_same_shape_def)
  moreover have "for_list rs (broadcast_row (vec_map2 f) f a b d) m = Inr ((), all_rows d (broadcast_val f a b) rs m)"
    unfolding all_rows_def using broadcast_row_writes [OF o(1-7)] assms(4) by (intro for_list_writes) auto
  ultimately show ?thesis using assms(2,3) o
    by (simp add: broadcast_f32_def is_init_or_finalize_def ne_assertR_def)
qed

locale broadcast_kernel =
  fixes kern :: "ne_compute_params \<Rightarrow> ne_tensor \<Rightarrow> ne_tensor \<Rightarrow> ne_tensor \<Rightarrow> kop"
    and f :: "32 word \<Rightarrow> 32 word \<Rightarrow> 32 word"
  assumes kern_rows: "kern ps a b d = broadcast_f32 (vec_map2 f) f ps a b d"
begin

lemma idle:
  assumes "broadcast_operands a b d" "task ps \<noteq> NE_TASK_COMPUTE"
  shows "kern ps a b d m = Inr ((), m)"
proof -
  have "is_init_or_finalize ps" using assms(2) by (cases "task ps") (simp_all add: is_init_or_finalize_def)
  with assms(1) show ?thesis
    by (simp add: kern_rows broadcast_f32_def broadcast_operands_def ne_assertR_def)
qed

lemma scheduled:
  assumes o: "broadcast_operands a b d" and n: "0 < n_tasks d" "n_tasks d \<le> int team"
    and sch: "schedule calls (node_calls team wsz wdat d)"
  shows "\<exists>m'. for_list calls (\<lambda>ps. kern ps a b d) m = Inr ((), m') \<and>
    result_is d (\<lambda>i0 i1 i2 i3. f (elem m a i0 i1 i2 i3)
      (elem m b i0 (wrap_index b 1 i1) (wrap_index b 2 i2) (wrap_index b 3 i3))) m m'"
proof -
  have ra: "rows_apart d" and ad: "addressable d" using o by (auto simp: broadcast_operands_def rows_apart_def)
  let ?rows = "\<lambda>i. projr (strided i (n_tasks d) (ne_nrows d))"
  have rr: "row_range d = {0 ..< ne_nrows d}" "0 \<le> ne_nrows d"
    using addressable_bounds [OF ad] by (auto simp: row_range_def)
  have st: "strided i (n_tasks d) (ne_nrows d) = Inr (?rows i) \<and> distinct (?rows i) \<and>
      set (?rows i) = {r \<in> row_range d. r mod n_tasks d = i}" if "0 \<le> i" "i < n_tasks d" for i
    using strided_rows [OF that rr(2)] unfolding rr(1) by (metis sum.sel(2))
  have "\<exists>m'. for_list calls (\<lambda>ps. kern ps a b d) m = Inr ((), m') \<and>
      result_is d (\<lambda>i0 i1 i2 i3. broadcast_val f a b (i0, i1, i2, i3) m) m m'"
  proof (rule schedule_result [OF ra broadcast_stable [OF o] n sch])
    show "kern ps a b d m = Inr ((), m)" if "task ps \<noteq> NE_TASK_COMPUTE" for ps m using idle [OF o that] .
    show "kern ps a b d m = Inr ((), all_rows d (broadcast_val f a b) (?rows (ith ps)) m)"
      if "task ps = NE_TASK_COMPUTE" "nth ps = n_tasks d" "0 \<le> ith ps" "ith ps < n_tasks d" for ps m
      unfolding kern_rows using that st [OF that(3,4)] by (intro broadcast_call [OF o that(1)]) auto
    show "distinct (?rows i) \<and> set (?rows i) = {r \<in> row_range d. r mod n_tasks d = i}"
      if "0 \<le> i" "i < n_tasks d" for i using st [OF that] by blast
    show "r mod n_tasks d \<in> {0 ..< n_tasks d}" for r using n by simp
  qed
  then show ?thesis by (simp add: broadcast_val_def)
qed

end

interpretation add_f32: broadcast_kernel "ne_compute_forward_add_f32 fa" "f_add fa" for fa
  by unfold_locales (simp add: ne_compute_forward_add_f32_def ne_vec_add_f32_def)

interpretation mul_f32: broadcast_kernel "ne_compute_forward_mul_f32 fa" "f_mul fa" for fa
  by unfold_locales (simp add: ne_compute_forward_mul_f32_def ne_vec_mul_f32_def)


section \<open>Unary kernels\<close>

text \<open>Rows that lie at multiples of the row stride, which the unary kernels rely on.\<close>

definition even_rows :: "ne_tensor \<Rightarrow> bool" where
  "even_rows t \<longleftrightarrow> nb t ! 2 = nat (ne t ! 1) * nb t ! 1 \<and> nb t ! 3 = nat (ne t ! 2) * nb t ! 2"

definition unary_val :: "(32 word \<Rightarrow> 32 word) \<Rightarrow> ne_tensor \<Rightarrow> nat \<times> nat \<times> nat \<times> nat \<Rightarrow> memory \<Rightarrow> 32 word" where
  "unary_val f a q m = (case q of (i0, i1, i2, i3) \<Rightarrow> f (elem m a i0 i1 i2 i3))"

definition unary_operands :: "ne_tensor \<Rightarrow> ne_tensor \<Rightarrow> bool" where
  "unary_operands a d \<longleftrightarrow> addressable a \<and> rows_apart d \<and> ne_are_same_shape a d \<and> nb a ! 0 = 4 \<and>
     even_rows a \<and> even_rows d \<and> operand a d"

lemma even_row_offset:
  assumes "addressable t" "even_rows t" "r \<in> row_range t" "row_of t r = (i1, i2, i3)"
  shows "to_size r * nb t ! 1 = elem_offset t 0 i1 i2 i3"
proof -
  note i = row_of_range [OF assms(1,3,4)] and b = addressable_bounds [OF assms(1)]
  have "0 \<le> r" "r < 2 ^ 31" using assms(1,3) by (auto simp: row_range_def addressable_def)
  then have "to_size r = nat r" by (simp add: to_size_nonneg)
  moreover have "int (nat r) = int (i1 + nat (ne t ! 1) * (i2 + nat (ne t ! 2) * i3))"
    using \<open>0 \<le> r\<close> i(4) b by simp
  ultimately have "to_size r = i1 + nat (ne t ! 1) * (i2 + nat (ne t ! 2) * i3)" by (simp only: of_nat_eq_iff)
  then show ?thesis using assms(2) by (simp add: even_rows_def elem_offset_def algebra_simps)
qed

lemma unary_row_writes:
  assumes o: "unary_operands a d" and r: "r \<in> row_range d"
  shows "unary_row (vec_map1 f) a d r m = Inr ((), run_writes (addr_of d) (unary_val f a) (row_elems d r) m)"
proof -
  have ad: "addressable a" "addressable d" and nb4: "nb a ! 0 = 4" "nb d ! 0 = 4" and ev: "even_rows a" "even_rows d"
    and sh: "ne_are_same_shape a d"
    using o by (auto simp: unary_operands_def rows_apart_def)
  have sh': "ne a ! 0 = ne d ! 0" "ne a ! 1 = ne d ! 1" "ne a ! 2 = ne d ! 2" "ne a ! 3 = ne d ! 3"
    using sh by (simp_all add: ne_are_same_shape_def)
  obtain i1 i2 i3 where i: "row_of d r = (i1, i2, i3)" by (cases "row_of d r")
  then have ia: "row_of a r = (i1, i2, i3)" using sh' by (simp add: row_of_def)
  have ra: "r \<in> row_range a" using r sh' by (simp add: row_range_def)
  note bd = addressable_bounds [OF ad(2)]
  have rd: "in_range d 0 i1 i2 i3" and rra: "in_range a 0 i1 i2 i3"
    using row_of_range [OF ad(2) r i] bd sh' by (auto simp: in_range_def)
  let ?n = "nat (ne a ! 0)"
  have n: "nat (to_int32 (ne a ! 0)) = ?n" using bd sh' by (simp add: to_int32_id)
  let ?run = "run_writes (\<lambda>j. data d + elem_offset d 0 i1 i2 i3 + 4 * j)
    (\<lambda>j m. f (load32 m (data a + elem_offset a 0 i1 i2 i3 + 4 * j))) [0..<?n]"
  have "unary_row (vec_map1 f) a d r m = Inr ((), ?run m)"
    unfolding unary_row_def n Let_def even_row_offset [OF ad(2) ev(2) r i] even_row_offset [OF ad(1) ev(1) ra ia]
    by (simp add: row_ptr_elem [OF ad(2) rd] row_ptr_elem [OF ad(1) rra] vec_map1_def run_writes_def)
  moreover have "?run m = run_writes (addr_of d) (unary_val f a) (row_elems d r) m"
    using sh' nb4 unfolding row_elems_def i prod.case run_writes_map
    by (simp add: comp_def addr_of_def unary_val_def [abs_def] elem_def elem_offset_def ac_simps)
  ultimately show ?thesis by simp
qed

lemma unary_rows_writes:
  assumes "unary_operands a d" "set rs \<subseteq> row_range d"
  shows "for_list rs (unary_row (vec_map1 f) a d) m = Inr ((), all_rows d (unary_val f a) rs m)"
  unfolding all_rows_def using unary_row_writes [OF assms(1)] assms(2) by (intro for_list_writes) auto

lemma unary_stable:
  assumes "unary_operands a d"
  shows "stable d (unary_val f a)"
  unfolding stable_def
proof (intro ballI impI allI)
  fix q q' v m assume q: "q \<in> elems_of d" "q' \<in> elems_of d" "q \<noteq> q'"
  obtain i0 i1 i2 i3 j0 j1 j2 j3 where e: "q = (i0, i1, i2, i3)" "q' = (j0, j1, j2, j3)" by (metis prod_cases4)
  have o: "rows_apart d" "operand a d" "ne_are_same_shape a d" using assms by (auto simp: unary_operands_def)
  have "in_range d i0 i1 i2 i3" "in_range d j0 j1 j2 j3" "in_range a i0 i1 i2 i3"
    using q e o(3) by (auto simp: elems_of_def in_range_def ne_are_same_shape_def)
  then show "unary_val f a q (store32 (addr_of d q') v m) = unary_val f a q m"
    using operand_store [OF o(1,2)] q(3) by (simp add: e unary_val_def addr_of_def)
qed

lemma not_compute: "task ps \<noteq> NE_TASK_COMPUTE \<Longrightarrow> is_init_or_finalize ps"
  by (cases "task ps") (simp_all add: is_init_or_finalize_def)

text \<open>
  Every task of a unary kernel runs over all rows: the tasks write the same values again when the
  operand is apart from the result, and apply the function again when the result replaces it.
\<close>

definition repeats :: "ne_tensor \<Rightarrow> ne_tensor \<Rightarrow> nat \<Rightarrow> nat" where
  "repeats a d n = (if apart a d then 1 else n)"

lemma result_is_apart:
  assumes "apart a d" "in_range a i0 i1 i2 i3" "result_is d g m m'"
  shows "elem m' a i0 i1 i2 i3 = elem m a i0 i1 i2 i3"
  unfolding elem_def
proof (rule load32_frame)
  fix k :: nat assume k: "k < 4"
  let ?p = "data a + elem_offset a i0 i1 i2 i3 + k"
  have "?p < data d + elem_offset d j0 j1 j2 j3 \<or> data d + elem_offset d j0 j1 j2 j3 + 4 \<le> ?p"
    if "in_range d j0 j1 j2 j3" for j0 j1 j2 j3
    using elem_in_span [OF assms(2)] elem_in_span [OF that] assms(1) k unfolding apart_def by linarith
  then show "m' ?p = m ?p" using assms(3) by (simp add: result_is_def)
qed

lemma unary_repeated:
  assumes o: "unary_operands a d" and rs: "distinct rs" "set rs = row_range d"
  shows "result_is d (\<lambda>i0 i1 i2 i3. (f ^^ repeats a d (Suc k)) (elem m a i0 i1 i2 i3)) m
    ((all_rows d (unary_val f a) rs ^^ Suc k) m)"
proof -
  let ?g = "all_rows d (unary_val f a) rs"
  have ra: "rows_apart d" and ad: "addressable d" and sh: "ne_are_same_shape a d" and op: "operand a d"
    using o by (auto simp: unary_operands_def rows_apart_def)
  have one: "result_is d (\<lambda>i0 i1 i2 i3. f (elem m a i0 i1 i2 i3)) m (?g m)" for m
    using writes_result [OF rows_apart_elems [OF ra] unary_stable [OF o], of "concat (map (row_elems d) rs)" f m]
      distinct_row_elems [OF ad rs(1)] set_row_elems [OF ad] rs(2) by (simp add: all_rows_def unary_val_def)
  show ?thesis
  proof (induction k)
    case 0
    show ?case using one [of m] by (simp add: repeats_def)
  next
    case (Suc k)
    let ?m = "(?g ^^ Suc k) m"
    have "f (elem ?m a i0 i1 i2 i3) = (f ^^ repeats a d (Suc (Suc k))) (elem m a i0 i1 i2 i3)"
      if i: "in_range d i0 i1 i2 i3" for i0 i1 i2 i3
    proof (cases "apart a d")
      case True
      have "in_range a i0 i1 i2 i3" using i sh by (simp add: in_range_def ne_are_same_shape_def)
      from result_is_apart [OF True this Suc] True show ?thesis by (simp add: repeats_def)
    next
      case False
      then have "elem ?m a i0 i1 i2 i3 = elem ?m d i0 i1 i2 i3" using op by (simp add: operand_def elem_def elem_offset_def)
      with Suc i False show ?thesis by (simp add: result_is_def repeats_def)
    qed
    with one [of ?m] Suc show ?case by (simp add: result_is_def)
  qed
qed

locale unary_kernel =
  fixes kern :: "ne_compute_params \<Rightarrow> ne_tensor \<Rightarrow> ne_tensor \<Rightarrow> kop"
    and f :: "32 word \<Rightarrow> 32 word"
  assumes kern_rows: "kern ps a d = unary_f32 (vec_map1 f) ps a d"
begin

lemma idle: "task ps \<noteq> NE_TASK_COMPUTE \<Longrightarrow> kern ps a d m = Inr ((), m)"
  using not_compute [of ps] by (simp add: kern_rows unary_f32_def)

lemma scheduled:
  assumes o: "unary_operands a d" and n: "0 < n_tasks d" "n_tasks d \<le> int team"
    and sch: "schedule calls (node_calls team wsz wdat d)"
  shows "\<exists>m'. for_list calls (\<lambda>ps. kern ps a d) m = Inr ((), m') \<and>
    result_is d (\<lambda>i0 i1 i2 i3. (f ^^ repeats a d (nat (n_tasks d))) (elem m a i0 i1 i2 i3)) m m'"
proof -
  have ad: "addressable d" and sh: "ne_are_same_shape a d" using o by (auto simp: unary_operands_def rows_apart_def)
  let ?rs = "[0 .. ne_nrows a - 1]"
  have nr: "ne_nrows a = ne_nrows d" using sh by (simp add: ne_nrows_def ne_are_same_shape_def)
  have rr: "set ?rs = row_range d" using addressable_bounds [OF ad] by (auto simp: row_range_def nr)
  let ?g = "all_rows d (unary_val f a) ?rs"
  have busy: "kern ps a d m = Inr ((), ?g m)" if "task ps = NE_TASK_COMPUTE" for ps m
    using that unary_rows_writes [OF o] rr by (simp add: kern_rows unary_f32_def is_init_or_finalize_def)
  obtain ini c1 c2 where c: "calls = ini # c1 @ c2" "task ini = NE_TASK_INIT"
      "\<And>ps. ps \<in> set c2 \<Longrightarrow> task ps = NE_TASK_FINALIZE"
      "\<And>ps. ps \<in> set c1 \<Longrightarrow> task ps = NE_TASK_COMPUTE \<and> nth ps = n_tasks d"
      "distinct (map ith c1)" "set (map ith c1) = {0 ..< n_tasks d}"
    using schedule_phases [OF sch n] by metis
  have "length (map ith c1) = nat (n_tasks d)" using distinct_card [OF c(5)] unfolding c(6) by simp
  then have l: "length c1 = nat (n_tasks d)" by simp
  have "for_list c1 (\<lambda>ps. kern ps a d) m' = Inr ((), fold (\<lambda>_. ?g) c1 m')" for m'
    using c(4) busy by (intro for_list_fold) auto
  moreover have "for_list c2 (\<lambda>ps. kern ps a d) m' = Inr ((), fold (\<lambda>_ m. m) c2 m')" for m'
    using c(3) idle by (intro for_list_fold) auto
  moreover have "fold (\<lambda>_ m. m) c2 m' = m'" for m' :: memory by (induction c2) simp_all
  moreover have "fold (\<lambda>_. ?g) xs m' = (?g ^^ length xs) m'" for xs :: "ne_compute_params list" and m'
    by (induction xs arbitrary: m') (simp_all add: funpow_swap1)
  ultimately have "for_list calls (\<lambda>ps. kern ps a d) m = Inr ((), (?g ^^ nat (n_tasks d)) m)"
    using idle [of ini a d m] c(2) by (simp add: c(1) for_list_append sseq_def l)
  moreover have "distinct ?rs" by simp
  moreover have "nat (n_tasks d) = Suc (nat (n_tasks d) - 1)" using n(1) by simp
  ultimately show ?thesis using unary_repeated [OF o _ rr, where f = f and k = "nat (n_tasks d) - 1" and m = m] by metis
qed

text \<open>With one task, or an operand apart from the result, the result is the function of each element.\<close>

lemma scheduled_once:
  assumes "unary_operands a d" "0 < n_tasks d" "n_tasks d \<le> int team" "apart a d \<or> n_tasks d = 1"
    and "schedule calls (node_calls team wsz wdat d)"
  shows "\<exists>m'. for_list calls (\<lambda>ps. kern ps a d) m = Inr ((), m') \<and>
    result_is d (\<lambda>i0 i1 i2 i3. f (elem m a i0 i1 i2 i3)) m m'"
proof -
  have "repeats a d (nat (n_tasks d)) = 1" using assms(4) by (auto simp: repeats_def)
  with scheduled [OF assms(1-3,5), of m] show ?thesis by simp
qed

end

interpretation sqr_f32: unary_kernel "ne_compute_forward_sqr_f32 fa" "\<lambda>x. f_mul fa x x" for fa
  by unfold_locales (simp add: ne_compute_forward_sqr_f32_def ne_vec_sqr_f32_def)
interpretation sqrt_f32: unary_kernel "ne_compute_forward_sqrt_f32 fa" "f_sqrt fa" for fa
  by unfold_locales (simp add: ne_compute_forward_sqrt_f32_def ne_vec_sqrt_f32_def)
interpretation log_f32: unary_kernel "ne_compute_forward_log_f32 fa" "f_log fa" for fa
  by unfold_locales (simp add: ne_compute_forward_log_f32_def ne_vec_log_f32_def)
interpretation abs_f32: unary_kernel ne_compute_forward_abs_f32 f_abs
  by unfold_locales (simp add: ne_compute_forward_abs_f32_def ne_vec_abs_f32_def)
interpretation neg_f32: unary_kernel ne_compute_forward_neg_f32 f_neg
  by unfold_locales (simp add: ne_compute_forward_neg_f32_def ne_vec_neg_f32_def)
interpretation sgn_f32: unary_kernel ne_compute_forward_sgn_f32
    "\<lambda>x. if f32_pos x then f32_1 else if f32_neg x then f32_minus_1 else f32_0"
  by unfold_locales (simp add: ne_compute_forward_sgn_f32_def ne_vec_sgn_f32_def)
interpretation step_f32: unary_kernel ne_compute_forward_step_f32 "\<lambda>x. if f32_pos x then f32_1 else f32_0"
  by unfold_locales (simp add: ne_compute_forward_step_f32_def ne_vec_step_f32_def)
interpretation relu_f32: unary_kernel ne_compute_forward_relu_f32 "\<lambda>x. if f32_pos x then x else f32_0"
  by unfold_locales (simp add: ne_compute_forward_relu_f32_def ne_vec_relu_f32_def)

lemmas unary_kernels = sqr_f32.unary_kernel_axioms sqrt_f32.unary_kernel_axioms log_f32.unary_kernel_axioms
  abs_f32.unary_kernel_axioms neg_f32.unary_kernel_axioms sgn_f32.unary_kernel_axioms step_f32.unary_kernel_axioms
  relu_f32.unary_kernel_axioms

section \<open>Blocks of rows\<close>

lemma int_div_eq_iff:
  assumes "0 < (d::int)"
  shows "r div d = i \<longleftrightarrow> d * i \<le> r \<and> r < d * i + d"
proof
  assume "r div d = i"
  then have "r = d * i + r mod d" by (metis mult_div_mod_eq)
  with pos_mod_bound [OF assms, of r] pos_mod_sign [OF assms, of r] show "d * i \<le> r \<and> r < d * i + d" by linarith
next
  assume "d * i \<le> r \<and> r < d * i + d"
  then show "r div d = i" by (intro int_div_pos_eq [where r = "r - d * i"]) auto
qed

lemma rows_per_task_pos: "0 < nr \<Longrightarrow> 0 < nt \<Longrightarrow> 0 < (nr + nt - 1) div (nt::int)"
  by (simp add: pos_imp_zdiv_pos_iff)

lemma block_rows_owner:
  assumes "0 < nr" "0 < nt" "0 \<le> i"
  shows "\<exists>rs. block_rows nr i nt = Inr rs \<and> distinct rs \<and>
    set rs = {r \<in> {0 ..< nr}. r div ((nr + nt - 1) div nt) = i}"
proof -
  define d where "d = (nr + nt - 1) div nt"
  have d: "0 < d" unfolding d_def by (rule rows_per_task_pos [OF assms(1,2)])
  then have "0 \<le> d * i" using assms(3) by simp
  then have "set [d * i .. min (d * i + d) nr - 1] = {r \<in> {0 ..< nr}. r div d = i}"
    unfolding int_div_eq_iff [OF d] by auto
  then show ?thesis using assms unfolding d_def by (simp add: block_rows_def cdiv_nonneg)
qed

lemma block_owner_range:
  assumes "0 < (nt::int)" "0 \<le> r" "r < nr"
  shows "r div ((nr + nt - 1) div nt) \<in> {0 ..< nt}"
proof -
  define d where "d = (nr + nt - 1) div nt"
  have d: "0 < d" unfolding d_def using assms by (intro rows_per_task_pos) auto
  have "nt * d + (nr + nt - 1) mod nt = nr + nt - 1" unfolding d_def by simp
  then have "r < d * nt" using pos_mod_bound [OF assms(1), of "nr + nt - 1"] assms(3)
    unfolding mult.commute [of nt] by linarith
  then show ?thesis using int_div_bound [OF d, of r nt] d assms(2) unfolding d_def [symmetric]
    by (simp add: pos_imp_zdiv_nonneg_iff)
qed

text \<open>\<^verbatim>\<open>ne_compute_forward_silu_f32\<close>, whose tasks take blocks of rows.\<close>

lemma silu_scheduled:
  assumes o: "unary_operands a d" "ne_is_contiguous_except_dim_1 a" "ne_is_contiguous_except_dim_1 d"
    and n: "0 < n_tasks d" "n_tasks d \<le> int team" and sch: "schedule calls (node_calls team wsz wdat d)"
  shows "\<exists>m'. for_list calls (\<lambda>ps. ne_compute_forward_silu_f32 fa ps a d) m = Inr ((), m') \<and>
    result_is d (\<lambda>i0 i1 i2 i3. ne_silu_f32 fa (elem m a i0 i1 i2 i3)) m m'"
proof -
  have ra: "rows_apart d" and ad: "addressable d" and sh: "ne_are_same_shape a d"
    using o by (auto simp: unary_operands_def rows_apart_def)
  have nr: "ne_nrows a = ne_nrows d" using sh by (simp add: ne_nrows_def ne_are_same_shape_def)
  have rr: "row_range d = {0 ..< ne_nrows d}" and pos: "0 < ne_nrows d"
    using addressable_bounds [OF ad] by (auto simp: row_range_def)
  let ?rows = "\<lambda>i. projr (block_rows (ne_nrows d) i (n_tasks d))"
  let ?owner = "\<lambda>r. r div ((ne_nrows d + n_tasks d - 1) div n_tasks d)"
  have st: "block_rows (ne_nrows d) i (n_tasks d) = Inr (?rows i) \<and> distinct (?rows i) \<and>
      set (?rows i) = {r \<in> row_range d. ?owner r = i}" if "0 \<le> i" for i
    using block_rows_owner [OF pos n(1) that] unfolding rr by (metis sum.sel(2))
  have "\<exists>m'. for_list calls (\<lambda>ps. ne_compute_forward_silu_f32 fa ps a d) m = Inr ((), m') \<and>
      result_is d (\<lambda>i0 i1 i2 i3. unary_val (ne_silu_f32 fa) a (i0, i1, i2, i3) m) m m'"
  proof (rule schedule_result [OF ra unary_stable [OF o(1)] n sch])
    show "ne_compute_forward_silu_f32 fa ps a d m = Inr ((), m)" if "task ps \<noteq> NE_TASK_COMPUTE" for ps m
      using not_compute [OF that] o sh by (simp add: ne_compute_forward_silu_f32_def)
    show "ne_compute_forward_silu_f32 fa ps a d m = Inr ((), all_rows d (unary_val (ne_silu_f32 fa) a) (?rows (ith ps)) m)"
      if "task ps = NE_TASK_COMPUTE" "nth ps = n_tasks d" "0 \<le> ith ps" "ith ps < n_tasks d" for ps m
    proof -
      note t = that
      obtain rs where rs: "block_rows (ne_nrows d) (ith ps) (n_tasks d) = Inr rs" "set rs \<subseteq> row_range d"
        using st [OF t(3)] by blast
      have "for_list rs (unary_row (ne_vec_silu_f32 fa) a d) m = Inr ((), all_rows d (unary_val (ne_silu_f32 fa) a) rs m)"
        unfolding ne_vec_silu_f32_def by (rule unary_rows_writes [OF o(1) rs(2)])
      then show ?thesis using that(1,2) rs(1) o(2,3) sh
        by (simp add: ne_compute_forward_silu_f32_def is_init_or_finalize_def nr)
    qed
    show "distinct (?rows i) \<and> set (?rows i) = {r \<in> row_range d. ?owner r = i}" if "0 \<le> i" for i
      using st [OF that] by blast
    show "?owner r \<in> {0 ..< n_tasks d}" if "r \<in> row_range d" for r
      using that n unfolding rr by (intro block_owner_range) auto
  qed
  then show ?thesis by (simp add: unary_val_def)
qed


section \<open>Gathering rows\<close>

lemma run_writes_apart:
  assumes "apart b d" "in_range b i0 i1 i2 i3" "set qs \<subseteq> elems_of d"
  shows "elem (run_writes (addr_of d) val qs m) b i0 i1 i2 i3 = elem m b i0 i1 i2 i3"
  using assms(3)
proof (induction qs arbitrary: m)
  case (Cons q qs)
  obtain j0 j1 j2 j3 where q: "q = (j0, j1, j2, j3)" by (rule prod_cases4)
  with Cons.prems have "in_range d j0 j1 j2 j3" by (simp add: elems_of_def)
  from apart_store [OF assms(1,2) this] Cons q show ?case by (simp add: addr_of_def)
qed simp

definition row_number :: "memory \<Rightarrow> ne_tensor \<Rightarrow> nat \<Rightarrow> int" where
  "row_number m b i = sint (elem m b i 0 0 0)"

definition gather_operands :: "memory \<Rightarrow> ne_tensor \<Rightarrow> ne_tensor \<Rightarrow> ne_tensor \<Rightarrow> bool" where
  "gather_operands m a b d \<longleftrightarrow> addressable a \<and> addressable b \<and> rows_apart d \<and> nb a ! 0 = 4 \<and> nb b ! 0 = 4 \<and>
     ne_is_vector b \<and> ne_is_matrix d \<and> ne d ! 0 = ne a ! 0 \<and> ne d ! 1 = ne b ! 0 \<and> apart a d \<and> apart b d \<and>
     (\<forall>i < nat (ne b ! 0). 0 \<le> row_number m b i \<and> row_number m b i < ne a ! 1)"

definition gather_val :: "memory \<Rightarrow> ne_tensor \<Rightarrow> ne_tensor \<Rightarrow> nat \<times> nat \<times> nat \<times> nat \<Rightarrow> memory \<Rightarrow> 32 word" where
  "gather_val m0 a b q m = (case q of (i0, i1, i2, i3) \<Rightarrow> elem m a i0 (nat (row_number m0 b i1)) 0 0)"

lemma gather_range:
  assumes "gather_operands m a b d" "in_range d i0 i1 i2 i3"
  shows "in_range a i0 (nat (row_number m b i1)) 0 0" "in_range b i1 0 0 0" "i2 = 0" "i3 = 0"
  using assms addressable_bounds [of a] addressable_bounds [of b]
  by (auto simp: gather_operands_def in_range_def ne_is_vector_def ne_is_matrix_def)

lemma gather_stable:
  assumes "gather_operands m a b d"
  shows "stable d (gather_val m a b)"
  unfolding stable_def
proof (intro ballI impI allI)
  fix q q' v m' assume q: "q \<in> elems_of d" "q' \<in> elems_of d"
  obtain i0 i1 i2 i3 j0 j1 j2 j3 where e: "q = (i0, i1, i2, i3)" "q' = (j0, j1, j2, j3)" by (metis prod_cases4)
  with q have "in_range d i0 i1 i2 i3" "in_range d j0 j1 j2 j3" by (auto simp: elems_of_def)
  then show "gather_val m a b q (store32 (addr_of d q') v m') = gather_val m a b q m'"
    using apart_store gather_range(1) [OF assms] assms by (simp add: e gather_val_def addr_of_def gather_operands_def)
qed

definition same_numbers :: "memory \<Rightarrow> ne_tensor \<Rightarrow> memory \<Rightarrow> bool" where
  "same_numbers m b m' \<longleftrightarrow> (\<forall>i < nat (ne b ! 0). row_number m' b i = row_number m b i)"

lemma gather_row:
  assumes o: "gather_operands m0 a b d" and i: "0 \<le> i" "i < ne b ! 0" and k: "same_numbers m0 b m"
  shows "row_elems d i = map (\<lambda>j. (j, nat i, 0, 0)) [0..<nat (ne a ! 0)]"
    and "sbind (read_i32 b (nat i)) (\<lambda>r. sbind (row_ptr d n (to_size i * nb d ! 1)) (\<lambda>y.
        sbind (row_ptr a n (to_size r * nb a ! 1)) (\<lambda>x. modify (F y x)))) m =
      Inr ((), F (data d + elem_offset d 0 (nat i) 0 0) (data a + elem_offset a 0 (nat (row_number m0 b (nat i))) 0 0) m)"
proof -
  have ad: "addressable a" "addressable b" "addressable d" and nb4: "nb a ! 0 = 4" "nb b ! 0 = 4"
    and dm: "ne d ! 0 = ne a ! 0" "ne d ! 1 = ne b ! 0" "ne d ! 2 = 1"
    using o by (auto simp: gather_operands_def rows_apart_def ne_is_matrix_def)
  note ba = addressable_bounds [OF ad(1)] and bb = addressable_bounds [OF ad(2)] and bd = addressable_bounds [OF ad(3)]
  show "row_elems d i = map (\<lambda>j. (j, nat i, 0, 0)) [0..<nat (ne a ! 0)]"
    using i dm by (simp add: row_elems_def row_of_def)
  let ?r = "row_number m0 b (nat i)"
  have rd: "in_range d 0 (nat i) 0 0" using i dm bd by (auto simp: in_range_def)
  have ra: "in_range a 0 (nat ?r) 0 0" "in_range b (nat i) 0 0 0" using gather_range [OF o rd] ba by auto
  have rr: "0 \<le> ?r" "?r < ne a ! 1" using o i by (auto simp: gather_operands_def)
  have "sint (load32 m (data b + 4 * nat i)) = ?r"
    using k i nb4 by (simp add: same_numbers_def row_number_def elem_def elem_offset_def mult.commute)
  moreover have "row_ptr b 1 0 m = Inr (data b, m)" for m
    using row_ptr_elem [OF ad(2), of 0 0 0 0] bb by (simp add: in_range_def elem_offset_def)
  ultimately have "read_i32 b (nat i) m = Inr (?r, m)" by (simp add: read_i32_def)
  moreover have "to_size i * nb d ! 1 = elem_offset d 0 (nat i) 0 0" "to_size ?r * nb a ! 1 = elem_offset a 0 (nat ?r) 0 0"
    using i rr dm bd ba by (simp_all add: elem_offset_def to_size_nonneg)
  ultimately show "sbind (read_i32 b (nat i)) (\<lambda>r. sbind (row_ptr d n (to_size i * nb d ! 1)) (\<lambda>y.
        sbind (row_ptr a n (to_size r * nb a ! 1)) (\<lambda>x. modify (F y x)))) m =
      Inr ((), F (data d + elem_offset d 0 (nat i) 0 0) (data a + elem_offset a 0 (nat ?r) 0 0) m)"
    by (simp add: row_ptr_elem [OF ad(3) rd] row_ptr_elem [OF ad(1) ra(1)])
qed

lemma gather_call:
  assumes o: "gather_operands m0 a b d" and k: "same_numbers m0 b m" and t: "task ps = NE_TASK_COMPUTE"
  shows "ne_compute_forward_get_rows_f32 ps a b d m = Inr ((), all_rows d (gather_val m0 a b) [0 .. ne b ! 0 - 1] m) \<and>
    same_numbers m0 b (all_rows d (gather_val m0 a b) [0 .. ne b ! 0 - 1] m)"
proof -
  have ad: "addressable a" "addressable b" "addressable d" and nb4: "nb a ! 0 = 4" "nb d ! 0 = 4" and ap: "apart b d"
    and rr: "row_range d = {0 ..< ne b ! 0}"
    using o by (auto simp: gather_operands_def rows_apart_def ne_is_matrix_def ne_is_vector_def row_range_def)
  have n: "ne_nelements b = ne b ! 0"
    using addressable_nelements(1) [OF ad(2)] o by (simp add: gather_operands_def ne_is_vector_def)
  note ba = addressable_bounds [OF ad(1)] and bb = addressable_bounds [OF ad(2)]
  have keep: "same_numbers m0 b (run_writes (addr_of d) val (row_elems d i) m)"
    if "same_numbers m0 b m" "i \<in> row_range d" for i val m
  proof -
    have "set (row_elems d i) \<subseteq> elems_of d" using set_row_elems [OF ad(3)] that(2) by blast
    moreover have "in_range b j 0 0 0" if "j < nat (ne b ! 0)" for j using that bb by (simp add: in_range_def)
    ultimately show ?thesis using run_writes_apart [OF ap] that(1) by (simp add: same_numbers_def row_number_def)
  qed
  have nc: "nat (to_int32 (ne a ! 0)) = nat (ne a ! 0)" "to_int32 (ne_nelements b) = ne b ! 0"
    using ba bb n by (simp_all add: to_int32_id)
  have cpy: "ne_vec_cpy_f32 (nat (ne a ! 0)) (data d + elem_offset d 0 (nat i) 0 0)
        (data a + elem_offset a 0 (nat (row_number m0 b (nat i))) 0 0) m =
      run_writes (addr_of d) (gather_val m0 a b) (row_elems d i) m" if "0 \<le> i" "i < ne b ! 0" for i m
    unfolding gather_row(1) [OF o that k] run_writes_map using nb4
    by (simp add: comp_def addr_of_def gather_val_def [abs_def] elem_def elem_offset_def ne_vec_cpy_f32_def vec_map1_def
        run_writes_def ac_simps)
  let ?body = "\<lambda>i. sbind (read_i32 b (nat i)) (\<lambda>r. sbind (row_ptr d (nat (ne a ! 0)) (to_size i * nb d ! 1)) (\<lambda>y.
      sbind (row_ptr a (nat (ne a ! 0)) (to_size r * nb a ! 1)) (\<lambda>x. modify (ne_vec_cpy_f32 (nat (ne a ! 0)) y x))))"
  have "?body i m = Inr ((), run_writes (addr_of d) (gather_val m0 a b) (row_elems d i) m)"
    if "0 \<le> i" "i < ne b ! 0" "same_numbers m0 b m" for i m
    using gather_row(2) [OF o that] cpy [OF that(1,2)] by simp
  then have "for_list [0 .. ne b ! 0 - 1] ?body m =
      Inr ((), run_writes (addr_of d) (gather_val m0 a b) (concat (map (row_elems d) [0 .. ne b ! 0 - 1])) m) \<and>
      same_numbers m0 b (run_writes (addr_of d) (gather_val m0 a b) (concat (map (row_elems d) [0 .. ne b ! 0 - 1])) m)"
    using keep rr k by (intro for_list_writes_inv) auto
  then show ?thesis
    unfolding ne_compute_forward_get_rows_f32_def all_rows_def Let_def nc using t by (simp add: is_init_or_finalize_def)
qed

lemma gather_scheduled:
  assumes o: "gather_operands m a b d" and n: "n_tasks d = 1" "0 < team"
    and sch: "schedule calls (node_calls team wsz wdat d)"
  shows "\<exists>m'. for_list calls (\<lambda>ps. ne_compute_forward_get_rows_f32 ps a b d) m = Inr ((), m') \<and>
    result_is d (\<lambda>i0 i1 i2 i3. elem m a i0 (nat (row_number m b i1)) 0 0) m m'"
proof -
  have ra: "rows_apart d" using o by (simp add: gather_operands_def)
  let ?rs = "[0 .. ne b ! 0 - 1]"
  have rr: "set ?rs = row_range d" using o by (auto simp: gather_operands_def ne_is_matrix_def row_range_def)
  have "\<exists>m'. for_list calls (\<lambda>ps. ne_compute_forward_get_rows_f32 ps a b d) m = Inr ((), m') \<and>
      result_is d (\<lambda>i0 i1 i2 i3. gather_val m a b (i0, i1, i2, i3) m) m m'"
  proof (rule schedule_result_inv [OF ra gather_stable [OF o] _ _ sch, where keep = "same_numbers m b"
        and g = "\<lambda>m. m" and rows = "\<lambda>_. ?rs" and owner = "\<lambda>_. 0"])
    show "ne_compute_forward_get_rows_f32 ps a b d m' = Inr ((), m')" if "task ps = NE_TASK_FINALIZE" for ps m'
      using that by (simp add: ne_compute_forward_get_rows_f32_def is_init_or_finalize_def)
    show "ne_compute_forward_get_rows_f32 ps a b d m = Inr ((), m)" if "task ps = NE_TASK_INIT" for ps
      using that by (simp add: ne_compute_forward_get_rows_f32_def is_init_or_finalize_def)
    show "distinct ?rs \<and> set ?rs = {r \<in> row_range d. 0 = i}" if "0 \<le> i" "i < n_tasks d" for i
      using that n rr by auto
  qed (use n gather_call [OF o] in \<open>auto simp: same_numbers_def\<close>)
  then show ?thesis by (simp add: gather_val_def)
qed


section \<open>Setting a region\<close>

text \<open>The region of \<open>d\<close> that the five integers of \<^verbatim>\<open>opt0\<close> describe, as a view with the shape of \<open>b\<close>.\<close>

definition region_view :: "ne_tensor \<Rightarrow> ne_tensor \<Rightarrow> int list \<Rightarrow> ne_tensor" where
  "region_view d b os = d\<lparr>ne := ne b, nb := [4, nat (os ! 0), nat (os ! 1), nat (os ! 2)], data := data d + nat (os ! 3)\<rparr>"

definition opt_ints :: "memory \<Rightarrow> ne_tensor \<Rightarrow> int list" where
  "opt_ints m o0 = map (\<lambda>k. sint (load32 m (data o0 + 4 * k))) [0..<5]"

definition clear_of :: "ptr \<Rightarrow> nat \<Rightarrow> ptr \<Rightarrow> nat \<Rightarrow> bool" where
  "clear_of p n q k \<longleftrightarrow> p + n \<le> q \<or> q + k \<le> p"

definition set_operands :: "memory \<Rightarrow> ne_tensor \<Rightarrow> ne_tensor \<Rightarrow> ne_tensor \<Rightarrow> ne_tensor \<Rightarrow> nat \<Rightarrow> bool" where
  "set_operands m a b o0 d n \<longleftrightarrow>
     ne_are_same_shape a d \<and> ne_is_contiguous d = Inr True \<and> ne_is_contiguous a = Inr True \<and> ty a = NE_TYPE_F32 \<and>
     ty o0 = NE_TYPE_I32 \<and> ne_nelements o0 = 5 \<and> ne_nbytes d = Inr n \<and> nb b ! 0 = 4 \<and> length (ne b) = 4 \<and>
     data a \<noteq> NULL \<and> data d \<noteq> NULL \<and> data o0 \<noteq> NULL \<and> data a < 2 ^ 64 \<and> data d < 2 ^ 64 \<and> data o0 < 2 ^ 64 \<and>
     addressable b \<and> rows_apart (region_view d b (opt_ints m o0)) \<and>
     nat (opt_ints m o0 ! 3) + span (region_view d b (opt_ints m o0)) \<le> n \<and>
     (\<forall>k < 4. 0 \<le> opt_ints m o0 ! k) \<and> opt_ints m o0 ! 4 = 0 \<and>
     clear_of (data b) (span b) (data d) n \<and> clear_of (data o0) 20 (data d) n"

definition set_val :: "ne_tensor \<Rightarrow> nat \<times> nat \<times> nat \<times> nat \<Rightarrow> memory \<Rightarrow> 32 word" where
  "set_val b q m = (case q of (i0, i1, i2, i3) \<Rightarrow> elem m b i0 i1 i2 i3)"

lemma region_view_sel [simp]:
  "ne (region_view d b os) = ne b" "data (region_view d b os) = data d + nat (os ! 3)"
  "nb (region_view d b os) = [4, nat (os ! 0), nat (os ! 1), nat (os ! 2)]" "n_tasks (region_view d b os) = n_tasks d"
  by (simp_all add: region_view_def)

lemma node_calls_cong: "n_tasks t = n_tasks t' \<Longrightarrow> node_calls team wsz wdat t = node_calls team wsz wdat t'"
  by (simp add: node_calls_def)

lemma load32_clear:
  "(\<And>x. x < p \<or> p + n \<le> x \<Longrightarrow> m' x = m x) \<Longrightarrow> q + 4 \<le> p \<or> p + n \<le> q \<Longrightarrow> load32 m' q = load32 m q"
  by (rule load32_frame) auto

lemma opt_ints_clear:
  assumes "\<And>x. x < p \<or> p + n \<le> x \<Longrightarrow> m' x = m x" "clear_of (data o0) 20 p n"
  shows "opt_ints m' o0 = opt_ints m o0"
  unfolding opt_ints_def
proof (rule map_cong [OF refl])
  fix k assume "k \<in> set [0..<5]"
  then have "data o0 + 4 * k + 4 \<le> p \<or> p + n \<le> data o0 + 4 * k" using assms(2) by (auto simp: clear_of_def)
  from load32_clear [OF assms(1) this] show "sint (load32 m' (data o0 + 4 * k)) = sint (load32 m (data o0 + 4 * k))" by simp
qed

lemma read_opt_int:
  "data o0 \<noteq> NULL \<Longrightarrow> data o0 < 2 ^ 64 \<Longrightarrow> k < 5 \<Longrightarrow> read_i32 o0 k m = Inr (opt_ints m o0 ! k, m)"
  by (simp add: read_i32_def row_ptr_def opt_ints_def)

lemma region_opts_eval:
  assumes "data o0 \<noteq> NULL" "data o0 < 2 ^ 64"
  shows "region_opts o0 m = Inr (([0, to_size (opt_ints m o0 ! 0), to_size (opt_ints m o0 ! 1), to_size (opt_ints m o0 ! 2)],
    to_size (opt_ints m o0 ! 3), opt_ints m o0 ! 4 \<noteq> 0), m)"
  using read_opt_int [OF assms] by (simp add: region_opts_def)


lemma opt_ints_size:
  assumes "k < 5" "0 \<le> opt_ints m o0 ! k"
  shows "to_size (opt_ints m o0 ! k) = nat (opt_ints m o0 ! k)"
proof -
  have "opt_ints m o0 ! k < 2 ^ 31" using assms(1) sint_lt [of "load32 m (data o0 + 4 * k)"] by (simp add: opt_ints_def)
  then show ?thesis using assms(2) by (simp add: to_size_nonneg)
qed

lemma region_end_eval:
  assumes "addressable v" "length (ne v) = 4" "nb v ! 0 = 4" "data v = p + off"
  shows "region_end off (nb v) 4 (map (to_int32 \<circ> last_index) (ne v)) + 4 = off + span v"
proof -
  note b = addressable_bounds [OF assms(1)]
  have li: "to_size (map (to_int32 \<circ> last_index) (ne v) ! k) = nat (ne v ! k) - 1"
    if "k < 4" "0 < ne v ! k" "ne v ! k < 2 ^ 31" for k
    using that assms(2) by (simp add: last_index_def to_int32_id to_size_nonneg nat_diff_distrib)
  have l: "to_size (map (to_int32 \<circ> last_index) (ne v) ! 0) = nat (ne v ! 0) - 1"
      "to_size (map (to_int32 \<circ> last_index) (ne v) ! 1) = nat (ne v ! 1) - 1"
      "to_size (map (to_int32 \<circ> last_index) (ne v) ! 2) = nat (ne v ! 2) - 1"
      "to_size (map (to_int32 \<circ> last_index) (ne v) ! 3) = nat (ne v ! 3) - 1"
    by (rule li [OF _ b(1,6)] li [OF _ b(2,7)] li [OF _ b(3,8)] li [OF _ b(4,9)], simp)+
  let ?x = "off + (nat (ne v ! 0) - 1) * 4 + (nat (ne v ! 1) - 1) * nb v ! 1 + (nat (ne v ! 2) - 1) * nb v ! 2 +
    (nat (ne v ! 3) - 1) * nb v ! 3"
  have x: "?x + 4 = off + span v" using assms(3) by (simp add: span_def elem_offset_def)
  moreover have "off + span v \<le> 2 ^ 64" using assms(1,4) by (simp add: addressable_def)
  ultimately have "?x < 2 ^ 64" by linarith
  then have "region_end off (nb v) 4 (map (to_int32 \<circ> last_index) (ne v)) = ?x"
    unfolding region_end_def l by (rule wrap64_id)
  with x show ?thesis by linarith
qed

text \<open>The loop body of \<^verbatim>\<open>ne_compute_forward_set_f32\<close>, and the state of the memory it relies on.\<close>

definition set_body :: "ne_tensor \<Rightarrow> ne_tensor \<Rightarrow> nat list \<Rightarrow> nat \<Rightarrow> int \<Rightarrow> kop" where
  "set_body b d st off ir =
     sbind (liftR (row_index (ne b ! 1) (ne b ! 2) ir)) (\<lambda>i.
     sbind (row_ptr d (nat (to_int32 (ne b ! 0))) (off3 st i + off)) (\<lambda>y.
     sbind (row_ptr b (nat (to_int32 (ne b ! 0))) (off3 (nb b) i)) (\<lambda>x.
     modify (ne_vec_cpy_f32 (nat (to_int32 (ne b ! 0))) y x))))"

lemma set_row_writes:
  assumes v: "v = d\<lparr>ne := ne b, nb := nbs, data := data d + off\<rparr>" "nbs ! 0 = 4" "nb b ! 0 = 4" "data d \<noteq> NULL"
    and ad: "addressable v" "addressable b" and r: "r \<in> row_range v"
    and st: "st ! 1 = nbs ! 1" "st ! 2 = nbs ! 2" "st ! 3 = nbs ! 3"
  shows "set_body b d st off r m = Inr ((), run_writes (addr_of v) (set_val b) (row_elems v r) m)"
proof -
  have sel: "ne v = ne b" "nb v = nbs" "data v = data d + off" using v(1) by simp_all
  obtain i1 i2 i3 where i: "row_of v r = (i1, i2, i3)" by (cases "row_of v r")
  note bv = addressable_bounds [OF ad(1)]
  have rv: "in_range v 0 i1 i2 i3" using row_of_range [OF ad(1) r i] bv by (auto simp: in_range_def)
  then have rb: "in_range b 0 i1 i2 i3" by (simp add: in_range_def sel)
  have idx: "row_index (ne b ! 1) (ne b ! 2) r = Inr (int i1, int i2, int i3)"
    using row_index_of [OF ad(1) r i] by (simp add: sel)
  have n: "nat (to_int32 (ne b ! 0)) = nat (ne b ! 0)" using bv by (simp add: sel to_int32_id)
  have off: "off3 st (int i1, int i2, int i3) = elem_offset v 0 i1 i2 i3"
    using off3_int [OF ad(1) rv] st by (simp add: off3_def sel)
  have ptr: "row_ptr d k (elem_offset v 0 i1 i2 i3 + off) m = Inr (data v + elem_offset v 0 i1 i2 i3, m)" for k m
    using row_ptr_elem [OF ad(1) rv, of k m] v(4) by (auto simp: row_ptr_def sel ac_simps split: if_splits)
  let ?run = "run_writes (\<lambda>j. data v + elem_offset v 0 i1 i2 i3 + 4 * j)
    (\<lambda>j m. load32 m (data b + elem_offset b 0 i1 i2 i3 + 4 * j)) [0..<nat (ne b ! 0)]"
  have "set_body b d st off r m = Inr ((), ?run m)"
    unfolding set_body_def idx n
    by (simp add: off off3_int(4) [OF ad(2) rb] ptr row_ptr_elem [OF ad(2) rb] ne_vec_cpy_f32_def vec_map1_def run_writes_def)
  moreover have "?run m = run_writes (addr_of v) (set_val b) (row_elems v r) m"
    using v(2,3) unfolding row_elems_def i prod.case run_writes_map sel(1)
    by (simp add: comp_def addr_of_def set_val_def [abs_def] elem_def elem_offset_def sel ac_simps)
  ultimately show ?thesis by simp
qed

lemma set_stable:
  assumes "apart b v" "ne v = ne b"
  shows "stable v (set_val b)"
  unfolding stable_def
proof (intro ballI impI allI)
  fix q q' w m' assume q: "q \<in> elems_of v" "q' \<in> elems_of v"
  obtain i0 i1 i2 i3 j0 j1 j2 j3 where e: "q = (i0, i1, i2, i3)" "q' = (j0, j1, j2, j3)" by (metis prod_cases4)
  with q have "in_range b i0 i1 i2 i3" "in_range v j0 j1 j2 j3" using assms(2) by (auto simp: elems_of_def in_range_def)
  then show "set_val b q (store32 (addr_of v q') w m') = set_val b q m'"
    using apart_store [OF assms(1)] by (simp add: e set_val_def addr_of_def)
qed

lemma all_rows_outside:
  assumes "addressable v" "set rs \<subseteq> row_range v" "x < data v \<or> data v + span v \<le> x"
  shows "all_rows v val rs m x = m x"
  unfolding all_rows_def
proof (rule run_writes_frame)
  fix q assume "q \<in> set (concat (map (row_elems v) rs))"
  then have "q \<in> elems_of v" using set_row_elems [OF assms(1)] assms(2) by auto
  moreover obtain i0 i1 i2 i3 where e: "q = (i0, i1, i2, i3)" by (rule prod_cases4)
  ultimately have "in_range v i0 i1 i2 i3" by (simp add: elems_of_def)
  from elem_in_span [OF this] assms(3) show "x < addr_of v q \<or> addr_of v q + 4 \<le> x" by (auto simp: e addr_of_def)
qed


lemma set_operandsD:
  assumes "set_operands m a b o0 d n"
  shows "ne_are_same_shape a d" "ne_is_contiguous d = Inr True" "ne_is_contiguous a = Inr True" "ty a = NE_TYPE_F32"
    "ty o0 = NE_TYPE_I32" "ne_nelements o0 = 5" "ne_nbytes d = Inr n" "nb b ! 0 = 4" "length (ne b) = 4"
    "data a \<noteq> NULL" "data d \<noteq> NULL" "data o0 \<noteq> NULL" "data a < 2 ^ 64" "data d < 2 ^ 64" "data o0 < 2 ^ 64"
    "addressable b" "rows_apart (region_view d b (opt_ints m o0))" "addressable (region_view d b (opt_ints m o0))"
    "nat (opt_ints m o0 ! 3) + span (region_view d b (opt_ints m o0)) \<le> n" "opt_ints m o0 ! 4 = 0"
    "clear_of (data b) (span b) (data d) n" "clear_of (data o0) 20 (data d) n"
    "k < 4 \<Longrightarrow> to_size (opt_ints m o0 ! k) = nat (opt_ints m o0 ! k)"
  using assms opt_ints_size [of k m o0] unfolding set_operands_def rows_apart_def by auto

definition region_strides :: "int list \<Rightarrow> nat list" where
  "region_strides os = [0, nat (os ! 0), nat (os ! 1), nat (os ! 2)]"

lemma set_opts:
  assumes "set_operands m a b o0 d n" "opt_ints m' o0 = opt_ints m o0"
  shows "region_opts o0 m' = Inr ((region_strides (opt_ints m o0), nat (opt_ints m o0 ! 3), False), m')"
  using region_opts_eval [of o0 m'] set_operandsD [OF assms(1)] assms(2) by (simp add: region_strides_def)

lemma set_quiet:
  assumes o: "set_operands m a b o0 d n" and k: "opt_ints m' o0 = opt_ints m o0"
  shows "task ps = NE_TASK_INIT \<Longrightarrow> ne_compute_forward_set_f32 ps a b o0 d m' = Inr ((), copy_bytes n (data d) (data a) m')"
    and "task ps = NE_TASK_FINALIZE \<Longrightarrow> ne_compute_forward_set_f32 ps a b o0 d m' = Inr ((), m')"
  using set_operandsD [OF o] set_opts [OF o k]
  by (simp_all add: ne_compute_forward_set_f32_def is_init_or_finalize_def region_init_def row_ptr_def ne_assertR_def)

lemma set_call:
  assumes o: "set_operands m a b o0 d n" and k: "opt_ints m' o0 = opt_ints m o0" and t: "task ps = NE_TASK_COMPUTE"
    and rs: "block_rows (ne_nrows b) (ith ps) (nth ps) = Inr rs" "set rs \<subseteq> row_range (region_view d b (opt_ints m o0))"
  shows "ne_compute_forward_set_f32 ps a b o0 d m' =
      Inr ((), all_rows (region_view d b (opt_ints m o0)) (set_val b) rs m')"
    and "opt_ints (all_rows (region_view d b (opt_ints m o0)) (set_val b) rs m') o0 = opt_ints m o0"
proof -
  let ?os = "opt_ints m o0"
  let ?v = "region_view d b ?os" and ?off = "nat (?os ! 3)"
  note h = set_operandsD [OF o]
  have re: "region_end ?off (region_strides ?os) 4 (map (to_int32 \<circ> last_index) (ne b)) < n"
    using region_end_eval [OF h(18), of "data d" ?off] h(9,19) by (simp add: region_end_def region_strides_def)
  have "for_list rs (set_body b d (region_strides ?os) ?off) m' = Inr ((), all_rows ?v (set_val b) rs m')"
    unfolding all_rows_def using rs(2) h(8,11,16,18)
    by (intro for_list_writes set_row_writes [where nbs = "nb ?v"]) (auto simp: region_view_def region_strides_def)
  moreover have "ne_compute_forward_set_f32 ps a b o0 d m' = for_list rs (set_body b d (region_strides ?os) ?off) m'"
    using h t set_opts [OF o k] rs(1) re
    by (simp add: ne_compute_forward_set_f32_def is_init_or_finalize_def region_init_def ne_assertR_def
        ne_element_size_def Let_def set_body_def [abs_def])
  ultimately show "ne_compute_forward_set_f32 ps a b o0 d m' = Inr ((), all_rows ?v (set_val b) rs m')" by simp
  show "opt_ints (all_rows ?v (set_val b) rs m') o0 = ?os"
    unfolding k [symmetric]
  proof (rule opt_ints_clear [OF _ h(22)])
    fix x assume "x < data d \<or> data d + n \<le> x"
    then show "all_rows (region_view d b (opt_ints m' o0)) (set_val b) rs m' x = m' x"
      using h(18,19) rs(2) unfolding k by (intro all_rows_outside) auto
  qed
qed

lemma set_scheduled:
  assumes o: "set_operands m a b o0 d n" and t: "0 < n_tasks d" "n_tasks d \<le> int team"
    and sch: "schedule calls (node_calls team wsz wdat d)"
  shows "\<exists>m'. for_list calls (\<lambda>ps. ne_compute_forward_set_f32 ps a b o0 d) m = Inr ((), m') \<and>
    result_is (region_view d b (opt_ints m o0)) (elem m b) (copy_bytes n (data d) (data a) m) m'"
proof -
  let ?v = "region_view d b (opt_ints m o0)" and ?kern = "\<lambda>ps. ne_compute_forward_set_f32 ps a b o0 d"
  let ?g = "copy_bytes n (data d) (data a)"
  note h = set_operandsD [OF o]
  have out: "?g m x = m x" if "x < data d \<or> data d + n \<le> x" for x using that by (auto simp: copy_bytes_def)
  have ap: "apart b ?v" using h(19,21) unfolding apart_def clear_of_def region_view_sel by linarith
  have rows: "row_range ?v = {0 ..< ne_nrows b}" and nr: "0 < ne_nrows b"
    using addressable_bounds [OF h(18)] by (auto simp: row_range_def ne_nrows_def)
  let ?rows = "\<lambda>i. projr (block_rows (ne_nrows b) i (n_tasks d))"
  let ?owner = "\<lambda>r. r div ((ne_nrows b + n_tasks d - 1) div n_tasks d)"
  have st: "block_rows (ne_nrows b) i (n_tasks d) = Inr (?rows i) \<and> distinct (?rows i) \<and>
      set (?rows i) = {r \<in> row_range ?v. ?owner r = i}" if "0 \<le> i" for i
    using block_rows_owner [OF nr t(1) that] unfolding rows by (metis sum.sel(2))
  have "\<exists>m'. for_list calls ?kern m = Inr ((), m') \<and> result_is ?v (\<lambda>i0 i1 i2 i3. set_val b (i0, i1, i2, i3) (?g m)) (?g m) m'"
  proof (rule schedule_result_inv [where keep = "\<lambda>m'. opt_ints m' o0 = opt_ints m o0" and rows = ?rows and owner = ?owner])
    show "stable ?v (set_val b)" by (rule set_stable [OF ap]) simp
    show "schedule calls (node_calls team wsz wdat ?v)" using sch node_calls_cong [of ?v d] by simp
    show "opt_ints (?g m) o0 = opt_ints m o0" by (rule opt_ints_clear [OF out h(22)])
    show "?kern ps m' = Inr ((), all_rows ?v (set_val b) (?rows (ith ps)) m') \<and>
        opt_ints (all_rows ?v (set_val b) (?rows (ith ps)) m') o0 = opt_ints m o0"
      if "task ps = NE_TASK_COMPUTE" "nth ps = n_tasks ?v" "0 \<le> ith ps" "opt_ints m' o0 = opt_ints m o0" for ps m'
      using st [OF that(3)] that(2) set_call [OF o that(4,1)] by auto
    show "?owner r \<in> {0 ..< n_tasks ?v}" if "r \<in> row_range ?v" for r
      using that t block_owner_range [of "n_tasks d" r "ne_nrows b"] unfolding rows by simp
  qed (use t h(17) set_quiet [OF o] st in auto)
  then obtain m' where m': "for_list calls ?kern m = Inr ((), m')"
      "result_is ?v (\<lambda>i0 i1 i2 i3. elem (?g m) b i0 i1 i2 i3) (?g m) m'" by (auto simp: set_val_def)
  have "elem (?g m) b i0 i1 i2 i3 = elem m b i0 i1 i2 i3" if "in_range ?v i0 i1 i2 i3" for i0 i1 i2 i3
  proof -
    have "in_range b i0 i1 i2 i3" using that by (simp add: in_range_def)
    from elem_in_span [OF this] h(21) show ?thesis unfolding elem_def
      by (intro load32_clear [OF out]) (auto simp: clear_of_def)
  qed
  with m' show ?thesis unfolding result_is_def by auto
qed


section \<open>Concrete tensors\<close>

definition demo_f32 :: "int list \<Rightarrow> nat list \<Rightarrow> ptr \<Rightarrow> ne_tensor" where
  "demo_f32 dims strides p = (demo_tensor NE_TYPE_F32)\<lparr>ne := dims, nb := strides, data := p, n_tasks := 2\<rparr>"

definition demo_src :: ne_tensor where "demo_src = demo_f32 [2, 2, 1, 1] [4, 8, 16, 16] 4096"
definition demo_row :: ne_tensor where "demo_row = demo_f32 [2, 1, 1, 1] [4, 8, 8, 8] 8192"
definition demo_dst :: ne_tensor where "demo_dst = demo_f32 [2, 2, 1, 1] [4, 8, 16, 16] 12288"
definition demo_opt :: ne_tensor where
  "demo_opt = (demo_f32 [5, 1, 1, 1] [4, 20, 20, 20] 16384)\<lparr>ty := NE_TYPE_I32\<rparr>"

definition demo_fa :: farith where
  "demo_fa = \<lparr>f_add = (+), f_sub = (-), f_mul = (*), f_div = (div), f_sqrt = id, f_log = id, f_exp = id, f_less = (<)\<rparr>"

definition demo_mem :: memory where "demo_mem p = (if p < 8192 then word_of_nat p else if p = 16384 then 8 else 0)"

lemmas demo_kernel_defs = demo_src_def demo_row_def demo_dst_def demo_opt_def demo_f32_def

lemma result_is_elem: "result_is d g m m' \<Longrightarrow> in_range d i0 i1 i2 i3 \<Longrightarrow> elem m' d i0 i1 i2 i3 = g i0 i1 i2 i3"
  by (simp add: result_is_def)

lemma schedule_in_order: "schedule (concat phases) phases"
  by (auto simp: schedule_def list_all2_same)

lemma demo_layout:
  "addressable demo_src" "addressable demo_row" "rows_apart demo_dst" "rows_apart demo_src" "apart demo_row demo_dst"
  "apart demo_src demo_dst" "ne_are_same_shape demo_src demo_dst" "even_rows demo_src" "even_rows demo_dst"
  "operand demo_src demo_dst"
  by (simp_all add: demo_kernel_defs addressable_def rows_apart_def apart_def span_def elem_offset_def
      ne_are_same_shape_def even_rows_def operand_def)

section \<open>Properties\<close>

text \<open>
  C8. Addition and multiplication of 32-bit floats with broadcasting. For every number of tasks, and
  for every schedule of the calls of a node (initialisation, then the tasks in any order, then
  finalisation), the kernel succeeds, element \<open>(i0, i1, i2, i3)\<close> of the result is the operation
  applied to that element of \<^verbatim>\<open>src0\<close> and to the element of \<^verbatim>\<open>src1\<close> whose row indices are taken modulo
  its dimensions, both as they were before the node, and no other byte of the memory changes. The
  destination may be \<^verbatim>\<open>src0\<close> itself.
\<close>

theorem broadcast_any_schedule:
  assumes "(kern, f) \<in> {(ne_compute_forward_add_f32 fa, f_add fa), (ne_compute_forward_mul_f32 fa, f_mul fa)}"
    and "broadcast_operands a b d" "0 < n_tasks d" "n_tasks d \<le> int team" "schedule calls (node_calls team wsz wdat d)"
  shows "\<exists>m'. for_list calls (\<lambda>ps. kern ps a b d) m = Inr ((), m') \<and>
    result_is d (\<lambda>i0 i1 i2 i3. f (elem m a i0 i1 i2 i3)
      (elem m b i0 (wrap_index b 1 i1) (wrap_index b 2 i2) (wrap_index b 3 i3))) m m'"
proof -
  consider "kern = ne_compute_forward_add_f32 fa" "f = f_add fa" | "kern = ne_compute_forward_mul_f32 fa" "f = f_mul fa"
    using assms(1) by auto
  then show ?thesis by cases (simp_all only: add_f32.scheduled [OF assms(2-5)] mul_f32.scheduled [OF assms(2-5)])
qed

lemma demo_broadcast_operands: "broadcast_operands demo_src demo_row demo_dst"
  using demo_layout by (simp add: broadcast_operands_def ne_can_repeat_rows_def ne_can_repeat_def andR_True_iff cmod0_iff)
    (simp add: demo_kernel_defs)

theorem broadcast_any_schedule_witness:
  "\<exists>m'. for_list (concat (node_calls 2 0 0 demo_dst)) (\<lambda>ps. ne_compute_forward_add_f32 demo_fa ps demo_src demo_row demo_dst) demo_mem
      = Inr ((), m') \<and> load32 m' (12288 + 12) = load32 demo_mem (4096 + 12) + load32 demo_mem (8192 + 4)"
proof -
  have "n_tasks demo_dst = 2" by (simp add: demo_kernel_defs)
  then obtain m' where m': "for_list (concat (node_calls 2 0 0 demo_dst))
        (\<lambda>ps. ne_compute_forward_add_f32 demo_fa ps demo_src demo_row demo_dst) demo_mem = Inr ((), m')"
      "result_is demo_dst (\<lambda>i0 i1 i2 i3. f_add demo_fa (elem demo_mem demo_src i0 i1 i2 i3)
        (elem demo_mem demo_row i0 (wrap_index demo_row 1 i1) (wrap_index demo_row 2 i2) (wrap_index demo_row 3 i3))) demo_mem m'"
    using broadcast_any_schedule [of "ne_compute_forward_add_f32 demo_fa" "f_add demo_fa" demo_fa demo_src demo_row demo_dst 2
        "concat (node_calls 2 0 0 demo_dst)" 0 0 demo_mem] demo_broadcast_operands schedule_in_order by auto
  have "in_range demo_dst 1 1 0 0" by (simp add: in_range_def demo_kernel_defs)
  from m'(1) result_is_elem [OF m'(2) this] show ?thesis
    by (simp add: elem_def elem_offset_def demo_kernel_defs demo_fa_def wrap_index_def)
qed

text \<open>
  C33. The unary kernels on 32-bit floats (square, square root, logarithm, absolute value, sign,
  negation, step, rectifier), for every number of tasks, operands with evenly spaced rows and every
  order of the calls. When the operand is apart from the result, each element of the result is the
  function of the element of the operand. In place every task applies the function again, since the
  kernels do not share the rows out: with the \<open>n\<close> tasks that the planner gives them when
  \<^verbatim>\<open>ne[1] > 4\<close>, the element is the function applied \<open>n\<close> times. Nothing else changes.
\<close>

theorem unary_any_schedule:
  assumes "(kern, f) \<in> {(ne_compute_forward_sqr_f32 fa, \<lambda>x. f_mul fa x x), (ne_compute_forward_sqrt_f32 fa, f_sqrt fa),
      (ne_compute_forward_log_f32 fa, f_log fa), (ne_compute_forward_abs_f32, f_abs), (ne_compute_forward_neg_f32, f_neg),
      (ne_compute_forward_sgn_f32, \<lambda>x. if f32_pos x then f32_1 else if f32_neg x then f32_minus_1 else f32_0),
      (ne_compute_forward_step_f32, \<lambda>x. if f32_pos x then f32_1 else f32_0),
      (ne_compute_forward_relu_f32, \<lambda>x. if f32_pos x then x else f32_0)}"
    and "unary_operands a d" "0 < n_tasks d" "n_tasks d \<le> int team" "schedule calls (node_calls team wsz wdat d)"
  shows "\<exists>m'. for_list calls (\<lambda>ps. kern ps a d) m = Inr ((), m') \<and>
    result_is d (\<lambda>i0 i1 i2 i3. if apart a d then f (elem m a i0 i1 i2 i3)
      else (f ^^ nat (n_tasks d)) (elem m a i0 i1 i2 i3)) m m'"
proof -
  note sch = assms(2-5)
  have "unary_kernel kern f" using assms(1) unary_kernels by auto
  from unary_kernel.scheduled [OF this sch, of m] show ?thesis by (cases "apart a d") (simp_all add: repeats_def)
qed

text \<open>
  Negation in place with two tasks leaves every element as it was; with a result apart from the
  operand it negates.
\<close>

theorem unary_any_schedule_witness:
  "(\<exists>m'. for_list (concat (node_calls 2 0 0 (demo_src\<lparr>n_tasks := 2\<rparr>)))
      (\<lambda>ps. ne_compute_forward_neg_f32 ps demo_src (demo_src\<lparr>n_tasks := 2\<rparr>)) demo_mem = Inr ((), m') \<and>
    load32 m' (4096 + 12) = load32 demo_mem (4096 + 12)) \<and>
   (\<exists>m'. for_list (concat (node_calls 2 0 0 demo_dst))
      (\<lambda>ps. ne_compute_forward_neg_f32 ps demo_src demo_dst) demo_mem = Inr ((), m') \<and>
    load32 m' (12288 + 12) = load32 demo_mem (4096 + 12) XOR 0x80000000)"
proof (intro conjI)
  let ?d = "demo_src\<lparr>n_tasks := 2\<rparr>"
  have o: "unary_operands demo_src ?d" "unary_operands demo_src demo_dst"
    using demo_layout by (simp_all add: unary_operands_def rows_apart_def addressable_def even_rows_def operand_def apart_def
        ne_are_same_shape_def span_def elem_offset_def demo_kernel_defs)
  have ap: "\<not> apart demo_src ?d" "apart demo_src demo_dst"
    by (simp_all add: apart_def span_def elem_offset_def demo_kernel_defs)
  have nt: "n_tasks demo_dst = 2" by (simp add: demo_kernel_defs)
  have r: "in_range ?d 1 1 0 0" "in_range demo_dst 1 1 0 0" by (simp_all add: in_range_def demo_kernel_defs)
  obtain m1 where m1: "for_list (concat (node_calls 2 0 0 ?d)) (\<lambda>ps. ne_compute_forward_neg_f32 ps demo_src ?d) demo_mem = Inr ((), m1)"
      "result_is ?d (\<lambda>i0 i1 i2 i3. (f_neg ^^ 2) (elem demo_mem demo_src i0 i1 i2 i3)) demo_mem m1"
    using unary_any_schedule [of ne_compute_forward_neg_f32 f_neg demo_fa demo_src ?d 2 "concat (node_calls 2 0 0 ?d)" 0 0 demo_mem]
      schedule_in_order o(1) ap(1) by auto
  then show "\<exists>m'. for_list (concat (node_calls 2 0 0 ?d)) (\<lambda>ps. ne_compute_forward_neg_f32 ps demo_src ?d) demo_mem = Inr ((), m') \<and>
      load32 m' (4096 + 12) = load32 demo_mem (4096 + 12)"
    using result_is_elem [OF m1(2) r(1)]
    by (simp add: elem_def elem_offset_def demo_kernel_defs f_neg_def numeral_2_eq_2 xor.assoc)
  obtain m2 where m2: "for_list (concat (node_calls 2 0 0 demo_dst)) (\<lambda>ps. ne_compute_forward_neg_f32 ps demo_src demo_dst) demo_mem = Inr ((), m2)"
      "result_is demo_dst (\<lambda>i0 i1 i2 i3. f_neg (elem demo_mem demo_src i0 i1 i2 i3)) demo_mem m2"
    using unary_any_schedule [of ne_compute_forward_neg_f32 f_neg demo_fa demo_src demo_dst 2 "concat (node_calls 2 0 0 demo_dst)" 0 0 demo_mem]
      schedule_in_order o(2) ap(2) nt by auto
  then show "\<exists>m'. for_list (concat (node_calls 2 0 0 demo_dst)) (\<lambda>ps. ne_compute_forward_neg_f32 ps demo_src demo_dst) demo_mem = Inr ((), m') \<and>
      load32 m' (12288 + 12) = load32 demo_mem (4096 + 12) XOR 0x80000000"
    using result_is_elem [OF m2(2) r(2)] by (simp add: elem_def elem_offset_def demo_kernel_defs f_neg_def)
qed


text \<open>
  C34. \<^verbatim>\<open>ne_compute_forward_get_rows_f32\<close>: when the row numbers in \<^verbatim>\<open>src1\<close> are rows of \<^verbatim>\<open>src0\<close>, row
  \<open>i\<close> of the result is the row of \<^verbatim>\<open>src0\<close> whose number is element \<open>i\<close> of \<^verbatim>\<open>src1\<close>, and nothing else
  changes.
\<close>

theorem get_rows_gathers:
  assumes "gather_operands m a b d" "n_tasks d = 1" "0 < team" "schedule calls (node_calls team wsz wdat d)"
  shows "\<exists>m'. for_list calls (\<lambda>ps. ne_compute_forward_get_rows_f32 ps a b d) m = Inr ((), m') \<and>
    result_is d (\<lambda>i0 i1 i2 i3. elem m a i0 (nat (row_number m b i1)) 0 0) m m'"
  by (rule gather_scheduled [OF assms])

theorem get_rows_gathers_witness:
  "\<exists>m'. for_list (concat (node_calls 1 0 0 (demo_dst\<lparr>n_tasks := 1\<rparr>)))
      (\<lambda>ps. ne_compute_forward_get_rows_f32 ps demo_src demo_row (demo_dst\<lparr>n_tasks := 1\<rparr>)) (store32 8196 1 demo_mem) = Inr ((), m') \<and>
    load32 m' (12288 + 12) = load32 (store32 8196 1 demo_mem) (4096 + 12) \<and> load32 m' (12288 + 4) = load32 (store32 8196 1 demo_mem) (4096 + 4)"
proof -
  let ?d = "demo_dst\<lparr>n_tasks := 1\<rparr>" and ?m = "store32 8196 1 demo_mem"
  have r0: "row_number ?m demo_row 0 = 0"
    by (simp add: row_number_def elem_def elem_offset_def demo_kernel_defs load32_store32_other)
      (simp add: load32_def demo_mem_def)
  have r1: "row_number ?m demo_row 1 = 1"
    by (simp add: row_number_def elem_def elem_offset_def demo_kernel_defs)
  have "nat (ne demo_row ! 0) = Suc (Suc 0)" "ne demo_src ! 1 = 2" by (simp_all add: demo_kernel_defs)
  then have "\<forall>i < nat (ne demo_row ! 0). 0 \<le> row_number ?m demo_row i \<and> row_number ?m demo_row i < ne demo_src ! 1"
    using r0 r1 by (simp add: All_less_Suc)
  then have o: "gather_operands ?m demo_src demo_row ?d"
    by (simp add: gather_operands_def) (simp add: demo_kernel_defs addressable_def rows_apart_def apart_def span_def
        elem_offset_def ne_is_vector_def ne_is_matrix_def)
  then obtain m' where m': "for_list (concat (node_calls 1 0 0 ?d)) (\<lambda>ps. ne_compute_forward_get_rows_f32 ps demo_src demo_row ?d) ?m = Inr ((), m')"
      "result_is ?d (\<lambda>i0 i1 i2 i3. elem ?m demo_src i0 (nat (row_number ?m demo_row i1)) 0 0) ?m m'"
    using get_rows_gathers [of ?m demo_src demo_row ?d 1 "concat (node_calls 1 0 0 ?d)" 0 0] schedule_in_order by auto
  have rng: "in_range ?d 1 1 0 0" "in_range ?d 1 0 0 0" by (simp_all add: in_range_def demo_kernel_defs)
  have "elem m' ?d 1 1 0 0 = elem ?m demo_src 1 1 0 0" "elem m' ?d 1 0 0 0 = elem ?m demo_src 1 0 0 0"
    using result_is_elem [OF m'(2) rng(1)] result_is_elem [OF m'(2) rng(2)] r0 r1 by simp_all
  with m'(1) show ?thesis by (simp add: elem_def elem_offset_def demo_kernel_defs)
qed

text \<open>
  C16. \<^verbatim>\<open>ne_compute_forward_set_f32\<close>, not in place: for every schedule of the node, the result is a copy of
  \<^verbatim>\<open>src0\<close> (made while the node is initialised) in which the elements of the region that \<^verbatim>\<open>opt0\<close>
  describes are those of \<^verbatim>\<open>src1\<close>; nothing outside the result changes.
\<close>

theorem set_any_schedule:
  assumes "set_operands m a b o0 d n" "0 < n_tasks d" "n_tasks d \<le> int team" "schedule calls (node_calls team wsz wdat d)"
  shows "\<exists>m'. for_list calls (\<lambda>ps. ne_compute_forward_set_f32 ps a b o0 d) m = Inr ((), m') \<and>
    result_is (region_view d b (opt_ints m o0)) (elem m b) (copy_bytes n (data d) (data a) m) m'"
  by (rule set_scheduled [OF assms])

definition demo_set_mem :: memory where
  "demo_set_mem = store32_list 16384 [8, 16, 16, 8, 0] demo_mem"

lemma demo_opt_ints: "opt_ints demo_set_mem demo_opt = [8, 16, 16, 8, 0]"
proof -
  have "load32 demo_set_mem (16384 + 4 * k) = [8, 16, 16, 8, 0] ! k" if "k < 5" for k
    unfolding demo_set_mem_def using that by (intro load32_store32_list) simp
  then have "opt_ints demo_set_mem demo_opt = map (\<lambda>k. sint (([8, 16, 16, 8, 0] :: 32 word list) ! k)) [0..<5]"
    unfolding opt_ints_def by (intro map_cong) (auto simp: demo_kernel_defs)
  then show ?thesis by (simp add: upt_rec numeral_nat)
qed

lemma demo_set_operands: "set_operands demo_set_mem demo_src demo_row demo_opt demo_dst 16"
  unfolding set_operands_def demo_opt_ints
  by (simp add: demo_kernel_defs addressable_def rows_apart_def span_def elem_offset_def ne_are_same_shape_def
      ne_is_contiguous_True ne_nbytes_def ne_nelements_def udiv_def to_size_def clear_of_def all_less_4 region_view_def)

theorem set_any_schedule_witness:
  "\<exists>m'. for_list (concat (node_calls 2 0 0 demo_dst))
      (\<lambda>ps. ne_compute_forward_set_f32 ps demo_src demo_row demo_opt demo_dst) demo_set_mem = Inr ((), m') \<and>
    load32 m' (12288 + 12) = load32 demo_set_mem (8192 + 4)"
proof -
  have "n_tasks demo_dst = 2" by (simp add: demo_kernel_defs)
  then obtain m' where m': "for_list (concat (node_calls 2 0 0 demo_dst))
        (\<lambda>ps. ne_compute_forward_set_f32 ps demo_src demo_row demo_opt demo_dst) demo_set_mem = Inr ((), m')"
      "result_is (region_view demo_dst demo_row [8, 16, 16, 8, 0]) (elem demo_set_mem demo_row)
        (copy_bytes 16 (data demo_dst) (data demo_src) demo_set_mem) m'"
    using set_any_schedule [OF demo_set_operands, of 2 "concat (node_calls 2 0 0 demo_dst)" 0 0] schedule_in_order
    unfolding demo_opt_ints by auto
  have "in_range (region_view demo_dst demo_row [8, 16, 16, 8, 0]) 1 0 0 0" by (simp add: in_range_def demo_kernel_defs)
  from m'(1) result_is_elem [OF m'(2) this] show ?thesis
    by (simp add: elem_def elem_offset_def demo_kernel_defs)
qed

end
