(* ===== verification/NE_Quant_Results.thy ===== *)
theory NE_Quant_Results
  imports NE_Quant_Laws NE_Kernel_Results
begin

text \<open>
  Quantized rows: the value of every element after a row has been quantized and dequantized, the
  bytes that the row functions write, and the range of the codes of the super-blocks.
\<close>

section \<open>Codes and values\<close>

text \<open>A super-block whose scales are all zero is written as zeros.\<close>

definition q6_K_zero :: "qenv \<Rightarrow> 32 word list \<Rightarrow> bool" where
  "q6_K_zero e xs \<longleftrightarrow> \<not> f32_true (fst (max_scale e (map (\<lambda>ib. snd (make_qx_quants e 32 (q6_K_part xs ib) 1)) [0..<16])))"

text \<open>The code of element \<open>j\<close> of a block, before packing, and the number of bits it is packed into.\<close>

definition block_code :: "qenv \<Rightarrow> ne_type \<Rightarrow> 32 word list \<Rightarrow> nat \<Rightarrow> byte" where
  "block_code e type xs j = (case type of
     NE_TYPE_Q4_0 \<Rightarrow> q4_0_code e (inverse_of e (fdiv e (snd (abs_max e xs)) (of_i32 e (- 8)))) (xs ! j)
   | NE_TYPE_Q4_1 \<Rightarrow> q4_1_code e (fst (min_max e xs))
       (inverse_of e (fdiv e (fsub e (snd (min_max e xs)) (fst (min_max e xs))) (of_i32 e 15))) (xs ! j)
   | NE_TYPE_Q5_0 \<Rightarrow> q5_0_code e (inverse_of e (fdiv e (snd (abs_max e xs)) (of_i32 e (- 16)))) (xs ! j)
   | NE_TYPE_Q5_1 \<Rightarrow> q5_1_code e (fst (min_max e xs))
       (inverse_of e (fdiv e (fsub e (snd (min_max e xs)) (fst (min_max e xs))) (of_i32 e 31))) (xs ! j)
   | NE_TYPE_Q8_0 \<Rightarrow> q8_code e (inverse_of e (fdiv e (magnitude e xs) (of_i32 e 127))) (xs ! j)
   | _ \<Rightarrow> if q6_K_zero e xs then 0 else word_of_int (q6_K_codes e xs (q6_K_d (quantize_block_q6_K e xs)) (q6_K_scales (quantize_block_q6_K e xs)) ! j))"

definition code_width :: "ne_type \<Rightarrow> nat" where
  "code_width type = (case type of NE_TYPE_Q4_0 \<Rightarrow> 4 | NE_TYPE_Q4_1 \<Rightarrow> 4 | NE_TYPE_Q5_0 \<Rightarrow> 5 | NE_TYPE_Q5_1 \<Rightarrow> 5
     | NE_TYPE_Q6_K \<Rightarrow> 6 | _ \<Rightarrow> 8)"

text \<open>The value of element \<open>j\<close>: its code, moved and scaled by the factors that the block stores.\<close>

definition block_value :: "qenv \<Rightarrow> ne_type \<Rightarrow> 32 word list \<Rightarrow> nat \<Rightarrow> 32 word" where
  "block_value e type xs j = (let c = block_code e type xs j in case type of
     NE_TYPE_Q4_0 \<Rightarrow> fmul e (of_i32 e (uint c - 8)) (of_f16 e (q4_0_d (quantize_block_q4_0 e xs)))
   | NE_TYPE_Q4_1 \<Rightarrow> fadd e (fmul e (of_i32 e (uint c)) (of_f16 e (q4_1_d (quantize_block_q4_1 e xs))))
       (of_f16 e (q4_1_m (quantize_block_q4_1 e xs)))
   | NE_TYPE_Q5_0 \<Rightarrow> fmul e (of_i32 e (uint c - 16)) (of_f16 e (q5_0_d (quantize_block_q5_0 e xs)))
   | NE_TYPE_Q5_1 \<Rightarrow> fadd e (fmul e (of_i32 e (uint c)) (of_f16 e (q5_1_d (quantize_block_q5_1 e xs))))
       (of_f16 e (q5_1_m (quantize_block_q5_1 e xs)))
   | NE_TYPE_Q8_0 \<Rightarrow> fmul e (of_i32 e (sint c)) (of_f16 e (q8_0_d (quantize_block_q8_0 e xs)))
   | _ \<Rightarrow> fmul e (fmul e (of_f16 e (q6_K_d (quantize_block_q6_K e xs)))
         (of_i32 e (sint (q6_K_scales (quantize_block_q6_K e xs) ! (j div 16)))))
       (of_i32 e (uint c - 32)))"

lemma halves:
  assumes "\<And>j. j < 16 \<Longrightarrow> P j" "\<And>j. j < 16 \<Longrightarrow> P (16 + j)" "i < (32::nat)"
  shows "P i"
proof (cases "i < 16")
  case False
  then have "i - 16 < 16" "16 + (i - 16) = i" using assms(3) by auto
  with assms(2) [of "i - 16"] show ?thesis by simp
qed (rule assms(1))

lemma q4_0_value:
  assumes "\<forall>j < 32. code_bits 4 (block_code e NE_TYPE_Q4_0 xs j)" "i < 32"
  shows "dequantize_block_q4_0 e (quantize_block_q4_0 e xs) ! i = block_value e NE_TYPE_Q4_0 xs i"
proof -
  let ?xi = "block_code e NE_TYPE_Q4_0 xs"
  have qs: "q4_0_qs (quantize_block_q4_0 e xs) = pack_nibbles 16 ?xi"
    by (simp add: quantize_block_q4_0_def block_code_def [abs_def] Let_def)
  have low: "pack_nibbles 16 ?xi ! j AND 0x0F = ?xi j" "drop_bit 4 (pack_nibbles 16 ?xi ! j) = ?xi (16 + j)" if "j < 16" for j
    using pack_nibbles_nth [of j 16 ?xi] assms(1) that by simp_all
  show ?thesis
    by (rule halves [OF _ _ assms(2)]) (simp_all add: dequantize_block_q4_0_def block_value_def Let_def nth_append qs low)
qed

lemma q4_1_value:
  assumes "\<forall>j < 32. code_bits 4 (block_code e NE_TYPE_Q4_1 xs j)" "i < 32"
  shows "dequantize_block_q4_1 e (quantize_block_q4_1 e xs) ! i = block_value e NE_TYPE_Q4_1 xs i"
proof -
  let ?xi = "block_code e NE_TYPE_Q4_1 xs"
  have qs: "q4_1_qs (quantize_block_q4_1 e xs) = pack_nibbles 16 ?xi"
    by (simp add: quantize_block_q4_1_def block_code_def [abs_def] Let_def split: prod.split)
  have low: "pack_nibbles 16 ?xi ! j AND 0x0F = ?xi j" "drop_bit 4 (pack_nibbles 16 ?xi ! j) = ?xi (16 + j)" if "j < 16" for j
    using pack_nibbles_nth [of j 16 ?xi] assms(1) that by simp_all
  show ?thesis
    by (rule halves [OF _ _ assms(2)]) (simp_all add: dequantize_block_q4_1_def block_value_def Let_def nth_append qs low)
qed

lemma q5_0_value:
  assumes "\<forall>j < 32. code_bits 5 (block_code e NE_TYPE_Q5_0 xs j)" "i < 32"
  shows "dequantize_block_q5_0 e (quantize_block_q5_0 e xs) ! i = block_value e NE_TYPE_Q5_0 xs i"
proof -
  let ?xi = "block_code e NE_TYPE_Q5_0 xs"
  have qs: "q5_0_qs (quantize_block_q5_0 e xs) = pack_low_nibbles 16 ?xi" "q5_0_qh (quantize_block_q5_0 e xs) = pack_fifth_bits ?xi"
    by (simp_all add: quantize_block_q5_0_def block_code_def [abs_def] Let_def)
  have low: "(pack_low_nibbles 16 ?xi ! j AND 0x0F) OR xh_0 (pack_fifth_bits ?xi) j = ?xi j"
      "drop_bit 4 (pack_low_nibbles 16 ?xi ! j) OR xh_1 (pack_fifth_bits ?xi) j = ?xi (16 + j)" if "j < 16" for j
    using pack_low_nibbles_nth [of j ?xi] assms(1) that by simp_all
  show ?thesis
    by (rule halves [OF _ _ assms(2)]) (simp_all add: dequantize_block_q5_0_def block_value_def Let_def nth_append qs low)
qed

lemma q5_1_value:
  assumes "\<forall>j < 32. code_bits 5 (block_code e NE_TYPE_Q5_1 xs j)" "i < 32"
  shows "dequantize_block_q5_1 e (quantize_block_q5_1 e xs) ! i = block_value e NE_TYPE_Q5_1 xs i"
proof -
  let ?xi = "block_code e NE_TYPE_Q5_1 xs"
  have qs: "q5_1_qs (quantize_block_q5_1 e xs) = pack_low_nibbles 16 ?xi" "q5_1_qh (quantize_block_q5_1 e xs) = pack_fifth_bits ?xi"
    by (simp_all add: quantize_block_q5_1_def block_code_def [abs_def] Let_def split: prod.split)
  have low: "(pack_low_nibbles 16 ?xi ! j AND 0x0F) OR xh_0 (pack_fifth_bits ?xi) j = ?xi j"
      "drop_bit 4 (pack_low_nibbles 16 ?xi ! j) OR xh_1 (pack_fifth_bits ?xi) j = ?xi (16 + j)" if "j < 16" for j
    using pack_low_nibbles_nth [of j ?xi] assms(1) that by simp_all
  show ?thesis
    by (rule halves [OF _ _ assms(2)]) (simp_all add: dequantize_block_q5_1_def block_value_def Let_def nth_append qs low)
qed

lemma q8_0_value: "i < 32 \<Longrightarrow> dequantize_block_q8_0 e (quantize_block_q8_0 e xs) ! i = block_value e NE_TYPE_Q8_0 xs i"
  by (simp add: dequantize_block_q8_0_def quantize_block_q8_0_def block_value_def block_code_def [abs_def] Let_def)

text \<open>The 256 elements of a super-block, in the order in which they are written.\<close>

lemma super_index:
  assumes "i < (256::nat)"
  obtains n k l where "n < 2" "k < 4" "l < 32" "i = 128 * n + 32 * k + l" "i div 16 = 8 * n + l div 16 + 2 * k"
proof
  have "i mod 128 = 32 * (i mod 128 div 32) + i mod 128 mod 32" by simp
  moreover have "i mod 128 mod 32 = i mod 32" by (simp add: mod_mod_cancel)
  ultimately show e: "i = 128 * (i div 128) + 32 * (i mod 128 div 32) + i mod 32" by (metis add.assoc mult_div_mod_eq)
  show "i div 128 < 2" "i mod 32 < 32" using assms by (simp_all add: less_mult_imp_div_less)
  show "i mod 128 div 32 < 4" by (simp add: less_mult_imp_div_less)
  have "i = i mod 32 + (8 * (i div 128) + 2 * (i mod 128 div 32)) * 16" by (subst e) simp
  then have "i div 16 = (i mod 32 + (8 * (i div 128) + 2 * (i mod 128 div 32)) * 16) div 16" by simp
  also have "\<dots> = (8 * (i div 128) + 2 * (i mod 128 div 32)) + i mod 32 div 16" by (rule div_mult_self1) simp
  finally show "i div 16 = 8 * (i div 128) + i mod 32 div 16 + 2 * (i mod 128 div 32)" by simp
qed

lemma concat_map_nth:
  assumes "\<And>k. k < n \<Longrightarrow> length (f k) = w" "k < n" "l < w"
  shows "concat (map f [0..<n]) ! (w * k + l) = f k ! l"
  using assms
proof (induction n)
  case (Suc n)
  have len: "length (concat (map f [0..<n])) = w * n"
    using Suc.prems(1) by (subst length_concat, subst map_map, subst map_cong [OF refl, of _ _ "\<lambda>_. w"]) (simp_all add: sum_list_triv)
  show ?case
  proof (cases "k = n")
    case True
    then show ?thesis using len by (simp add: nth_append)
  next
    case False
    then have "k < n" using Suc.prems(2) by simp
    then have "w * k + l < w * n" using mult_le_mono2 [of "Suc k" n w] Suc.prems(3) by simp
    with \<open>k < n\<close> Suc len show ?thesis by (simp add: nth_append)
  qed
qed simp

lemma dequantized_q6_K_nth:
  assumes "n < 2" "k < 4" "l < 32"
  shows "dequantize_block_q6_K e b ! (128 * n + 32 * k + l) =
    fmul e (fmul e (of_f16 e (q6_K_d b)) (of_i32 e (sint (q6_K_scales b ! (8 * n + l div 16 + 2 * k)))))
      (of_i32 e (q6_code (q6_K_ql b) (q6_K_qh b) (64 * n) (32 * n) k l))"
proof -
  let ?g = "\<lambda>n k l. fmul e (fmul e (of_f16 e (q6_K_d b)) (of_i32 e (sint (q6_K_scales b ! (8 * n + l div 16 + 2 * k)))))
      (of_i32 e (q6_code (q6_K_ql b) (q6_K_qh b) (64 * n) (32 * n) k l))"
  let ?f = "\<lambda>n. concat (map (\<lambda>k. map (?g n k) [0..<32]) [0..<4])"
  have "length (?f n) = 128" for n by (simp add: length_concat comp_def sum_list_triv)
  moreover have "32 * k + l < 128" using assms by simp
  ultimately have "concat (map ?f [0..<2]) ! (128 * n + (32 * k + l)) = ?f n ! (32 * k + l)"
    using assms(1) by (intro concat_map_nth) simp_all
  also have "\<dots> = ?g n k l" using assms by (subst concat_map_nth) simp_all
  finally show ?thesis by (simp only: dequantize_block_q6_K_def Let_def add.assoc)
qed

lemma q6_K_value:
  assumes "length xs = 256" "i < 256"
  shows "dequantize_block_q6_K e (quantize_block_q6_K e xs) ! i = block_value e NE_TYPE_Q6_K xs i"
proof -
  let ?b = "quantize_block_q6_K e xs"
  let ?cs = "q6_K_codes e xs (q6_K_d ?b) (q6_K_scales ?b)"
  let ?ls = "\<lambda>i. word_of_int (?cs ! i) :: byte"
  obtain n k l where i: "n < 2" "k < 4" "l < 32" "i = 128 * n + 32 * k + l" "i div 16 = 8 * n + l div 16 + 2 * k"
    using super_index [OF assms(2)] by metis
  obtain mabs mx where mm: "max_scale e (map (\<lambda>ib. snd (make_qx_quants e 32 (q6_K_part xs ib) 1)) [0..<16]) = (mabs, mx)"
    by fastforce
  have "q6_code (q6_K_ql ?b) (q6_K_qh ?b) (64 * n) (32 * n) k l = uint (block_code e NE_TYPE_Q6_K xs i) - 32"
  proof (cases "q6_K_zero e xs")
    case True
    then have "q6_K_ql ?b = replicate 128 0" "q6_K_qh ?b = replicate 64 0"
      by (simp_all add: quantize_block_q6_K_def q6_K_zero_def Let_def mm)
    moreover have "64 * n + 32 * k + l < 128 \<or> 2 \<le> k" "64 * n + 32 * (k - 2) + l < 128" "32 * n + l < 64" using i by auto
    ultimately show ?thesis using True by (auto simp: q6_code_def block_code_def Let_def)
  next
    case False
    then have b: "q6_K_ql ?b = pack_ql ?ls" "q6_K_qh ?b = pack_qh ?ls"
      by (simp_all add: quantize_block_q6_K_def q6_K_zero_def Let_def mm)
    have codes: "codes_below 64 256 ?cs" by (rule q6_K_codes_below [OF assms(1)])
    have bits: "code_bits 6 (?ls j)" if "j < 256" for j
    proof (rule code_bits_uint)
      have "?cs ! j \<in> set ?cs" using codes that by (simp add: codes_below_def)
      then have "0 \<le> ?cs ! j" "?cs ! j < 64" using codes by (auto simp: codes_below_def)
      then show "uint (?ls j) < 2 ^ 6" by (simp add: uint_word_of_int take_bit_int_eq_self)
    qed
    have "q6_code (q6_K_ql ?b) (q6_K_qh ?b) (64 * n) (32 * n) k l = uint (?ls i) - 32"
      unfolding b i(4) by (rule q6_code_pack [OF bits i(1-3)])
    with False show ?thesis by (simp add: block_code_def)
  qed
  then show ?thesis using dequantized_q6_K_nth [OF i(1-3), of e ?b]
    by (simp add: i(4,5) [symmetric] block_value_def Let_def)
qed

section \<open>Row functions\<close>

lemmas row_fn_defs = quantize_row_q4_0_def quantize_row_q4_0_reference_def quantize_row_q4_1_def quantize_row_q4_1_reference_def
  quantize_row_q5_0_def quantize_row_q5_0_reference_def quantize_row_q5_1_def quantize_row_q5_1_reference_def
  quantize_row_q8_0_def quantize_row_q8_0_reference_def quantize_row_q8_1_def quantize_row_q8_1_reference_def
  quantize_row_q6_K_def quantize_row_q6_K_reference_def dequantize_row_q4_0_def dequantize_row_q4_1_def
  dequantize_row_q5_0_def dequantize_row_q5_1_def dequantize_row_q8_0_def dequantize_row_q6_K_def

lemma code_fits:
  assumes "\<forall>j < 32. uint (block_code e type xs j) < 2 ^ code_width type" "code_width type = n"
  shows "\<forall>j < 32. code_bits n (block_code e type xs j)"
  using assms by (auto intro: code_bits_uint)

lemma table_row_read_back:
  assumes q: "fn_quantize_row (quantize_fns e type) = Some quantize" "fn_dequantize_row (quantize_fns e type) = Some dequantize"
    and k: "k = NE_BLCK_SIZE type * n" and g: "gap x (4 * k) y (NE_TYPE_SIZE type * n)" "gap y (NE_TYPE_SIZE type * n) z (4 * k)" and i: "i < k"
    and xs: "xs = load_floats m (x + 4 * (NE_BLCK_SIZE type * (i div NE_BLCK_SIZE type))) (NE_BLCK_SIZE type)"
    and fit: "\<forall>j < NE_BLCK_SIZE type. uint (block_code e type xs j) < 2 ^ code_width type"
  shows "load32 (dequantize k y z (quantize k x y m)) (z + 4 * i) = block_value e type xs (i mod NE_BLCK_SIZE type)"
proof -
  have t: "type \<in> {NE_TYPE_Q4_0, NE_TYPE_Q4_1, NE_TYPE_Q5_0, NE_TYPE_Q5_1, NE_TYPE_Q8_0, NE_TYPE_Q6_K}"
    using q by (cases type) (simp_all add: quantize_fns_def)
  then consider "type = NE_TYPE_Q4_0" | "type = NE_TYPE_Q4_1" | "type = NE_TYPE_Q5_0" | "type = NE_TYPE_Q5_1"
    | "type = NE_TYPE_Q8_0" | "type = NE_TYPE_Q6_K" by blast
  then show ?thesis
  proof cases
    case 1
    have "\<forall>j < 32. code_bits 4 (block_code e NE_TYPE_Q4_0 xs j)"
      using fit 1 by (intro code_fits) (simp_all add: code_width_def QK4_0_def)
    from q4_0_value [OF this] show ?thesis
      using 1 q k i xs q4_0.row_read_back [of x n y z i e m] g q4_0_bytes [of "quantize_block_q4_0 e xs"]
      by (simp add: quantize_fns_def row_fn_defs q4_0.written_def QK4_0_def)
  next
    case 2
    have "\<forall>j < 32. code_bits 4 (block_code e NE_TYPE_Q4_1 xs j)"
      using fit 2 by (intro code_fits) (simp_all add: code_width_def QK4_1_def)
    from q4_1_value [OF this] show ?thesis
      using 2 q k i xs q4_1.row_read_back [of x n y z i e m] g q4_1_bytes [of "quantize_block_q4_1 e xs"]
      by (simp add: quantize_fns_def row_fn_defs q4_1.written_def QK4_1_def)
  next
    case 3
    have "\<forall>j < 32. code_bits 5 (block_code e NE_TYPE_Q5_0 xs j)"
      using fit 3 by (intro code_fits) (simp_all add: code_width_def QK5_0_def)
    from q5_0_value [OF this] show ?thesis
      using 3 q k i xs q5_0.row_read_back [of x n y z i e m] g q5_0_bytes [of "quantize_block_q5_0 e xs"]
      by (simp add: quantize_fns_def row_fn_defs q5_0.written_def QK5_0_def)
  next
    case 4
    have "\<forall>j < 32. code_bits 5 (block_code e NE_TYPE_Q5_1 xs j)"
      using fit 4 by (intro code_fits) (simp_all add: code_width_def QK5_1_def)
    from q5_1_value [OF this] show ?thesis
      using 4 q k i xs q5_1.row_read_back [of x n y z i e m] g q5_1_bytes [of "quantize_block_q5_1 e xs"]
      by (simp add: quantize_fns_def row_fn_defs q5_1.written_def QK5_1_def)
  next
    case 5
    then show ?thesis
      using q k i xs q8_0.row_read_back [of x n y z i e m] g q8_0_value q8_0_bytes [of "quantize_block_q8_0 e xs"]
      by (simp add: quantize_fns_def row_fn_defs q8_0.written_def QK8_0_def)
  next
    case 6
    then show ?thesis
      using q k i xs q6_K.row_read_back [of x n y z i e m] g q6_K_value [of xs] q6_K_bytes [of "quantize_block_q6_K e xs"]
      by (simp add: quantize_fns_def row_fn_defs q6_K.written_def QK_K_def)
  qed
qed

lemma table_quantize_extent:
  assumes "fn_quantize_row (quantize_fns e type) = Some quantize" "k = NE_BLCK_SIZE type * n" "gap x (4 * k) y (NE_TYPE_SIZE type * n)"
    and "a < y \<or> y + NE_TYPE_SIZE type * n \<le> a"
  shows "quantize k x y m a = m a"
  using assms by (cases type) (auto simp: quantize_fns_def row_fn_defs intro: q4_0.quantized_rows(1) [rule_format] q4_1.quantized_rows(1) [rule_format] q5_0.quantized_rows(1) [rule_format] q5_1.quantized_rows(1) [rule_format] q8_0.quantized_rows(1) [rule_format] q8_1.quantized_rows(1) [rule_format] q6_K.quantized_rows(1) [rule_format])

lemma table_dequantize_extent:
  assumes "fn_dequantize_row (quantize_fns e type) = Some dequantize" "k = NE_BLCK_SIZE type * n" "gap y (NE_TYPE_SIZE type * n) z (4 * k)"
    and "a < z \<or> z + 4 * k \<le> a"
  shows "dequantize k y z m a = m a"
  using assms by (cases type) (auto simp: quantize_fns_def row_fn_defs intro: q4_0.dequantized_rows(1) [rule_format] q4_1.dequantized_rows(1) [rule_format] q5_0.dequantized_rows(1) [rule_format] q5_1.dequantized_rows(1) [rule_format] q8_0.dequantized_rows(1) [rule_format] q6_K.dequantized_rows(1) [rule_format])

text \<open>The bytes of a block of floats and the floats of a block of bytes, by type.\<close>

definition block_bytes :: "qenv \<Rightarrow> ne_type \<Rightarrow> 32 word list \<Rightarrow> byte list" where
  "block_bytes e type xs = (case type of
     NE_TYPE_Q4_0 \<Rightarrow> bytes_q4_0 (quantize_block_q4_0 e xs)
   | NE_TYPE_Q4_1 \<Rightarrow> bytes_q4_1 (quantize_block_q4_1 e xs)
   | NE_TYPE_Q5_0 \<Rightarrow> bytes_q5_0 (quantize_block_q5_0 e xs)
   | NE_TYPE_Q5_1 \<Rightarrow> bytes_q5_1 (quantize_block_q5_1 e xs)
   | NE_TYPE_Q8_0 \<Rightarrow> bytes_q8_0 (quantize_block_q8_0 e xs)
   | NE_TYPE_Q8_1 \<Rightarrow> bytes_q8_1 (quantize_block_q8_1 e xs)
   | NE_TYPE_Q6_K \<Rightarrow> bytes_q6_K (quantize_block_q6_K e xs)
   | _ \<Rightarrow> [])"

definition block_floats :: "qenv \<Rightarrow> ne_type \<Rightarrow> byte list \<Rightarrow> 32 word list" where
  "block_floats e type bs = (case type of
     NE_TYPE_Q4_0 \<Rightarrow> dequantize_block_q4_0 e (block_q4_0_at bs)
   | NE_TYPE_Q4_1 \<Rightarrow> dequantize_block_q4_1 e (block_q4_1_at bs)
   | NE_TYPE_Q5_0 \<Rightarrow> dequantize_block_q5_0 e (block_q5_0_at bs)
   | NE_TYPE_Q5_1 \<Rightarrow> dequantize_block_q5_1 e (block_q5_1_at bs)
   | NE_TYPE_Q8_0 \<Rightarrow> dequantize_block_q8_0 e (block_q8_0_at bs)
   | NE_TYPE_Q6_K \<Rightarrow> dequantize_block_q6_K e (block_q6_K_at bs)
   | _ \<Rightarrow> [])"

lemma table_quantize_blocks:
  assumes "fn_quantize_row (quantize_fns e type) = Some quantize" "k = NE_BLCK_SIZE type * n" "gap x (4 * k) y (NE_TYPE_SIZE type * n)"
    and "i < n"
  shows "load_bytes (quantize k x y m) (y + NE_TYPE_SIZE type * i) (NE_TYPE_SIZE type) =
    block_bytes e type (load_floats m (x + 4 * (NE_BLCK_SIZE type * i)) (NE_BLCK_SIZE type))"
  using assms by (cases type) (auto simp: quantize_fns_def row_fn_defs block_bytes_def
      q4_0.quantized_rows(2) q4_1.quantized_rows(2) q5_0.quantized_rows(2) q5_1.quantized_rows(2) q8_0.quantized_rows(2)
      q8_1.quantized_rows(2) q6_K.quantized_rows(2) q4_0.written_def q4_1.written_def q5_0.written_def q5_1.written_def
      q8_0.written_def q8_1.written_def q6_K.written_def)

lemma table_dequantize_blocks:
  assumes "fn_dequantize_row (quantize_fns e type) = Some dequantize" "k = NE_BLCK_SIZE type * n" "gap y (NE_TYPE_SIZE type * n) z (4 * k)"
    and "i < n"
  shows "load_floats (dequantize k y z m) (z + 4 * (NE_BLCK_SIZE type * i)) (NE_BLCK_SIZE type) =
    block_floats e type (load_bytes m (y + NE_TYPE_SIZE type * i) (NE_TYPE_SIZE type))"
  using assms by (cases type) (auto simp: quantize_fns_def row_fn_defs block_floats_def
      q4_0.dequantized_rows(2) q4_1.dequantized_rows(2) q5_0.dequantized_rows(2) q5_1.dequantized_rows(2)
      q8_0.dequantized_rows(2) q6_K.dequantized_rows(2))

section \<open>Properties\<close>

text \<open>Some arithmetic: the theorems hold for all of it.\<close>

definition demo_env :: qenv where
  "demo_env = \<lparr>q_fa = demo_fa, q_fc = demo_fc, f_to_i8 = (\<lambda>v. if v = 0 then 3 else 5), f_to_u8 = (\<lambda>v. 7), f_round = id\<rparr>"

text \<open>
  C9. Rows of the block formats (\<^verbatim>\<open>quantize_fns\<close>): a row of floats that is quantized and dequantized
  through the functions of the table for its type (Q4_0, Q4_1, Q5_0, Q5_1, Q8_0, Q6_K) has at every
  position the value of the code of that very element, with the factors of its block: the nibbles,
  the fifth bits and the high bits of the codes are read back from where they were packed. The codes
  of the formats with four and five bits have to fit these bits; for whatever the float arithmetic
  computes, codes of eight bits and of super-blocks do.
\<close>

theorem quantized_row_roundtrip:
  assumes "fn_quantize_row (quantize_fns e type) = Some quantize" "fn_dequantize_row (quantize_fns e type) = Some dequantize"
    and "k = NE_BLCK_SIZE type * n" "gap x (4 * k) y (NE_TYPE_SIZE type * n)" "gap y (NE_TYPE_SIZE type * n) z (4 * k)" "i < k"
    and "xs = load_floats m (x + 4 * (NE_BLCK_SIZE type * (i div NE_BLCK_SIZE type))) (NE_BLCK_SIZE type)"
    and "\<forall>j < NE_BLCK_SIZE type. uint (block_code e type xs j) < 2 ^ code_width type"
  shows "load32 (dequantize k y z (quantize k x y m)) (z + 4 * i) = block_value e type xs (i mod NE_BLCK_SIZE type)"
  by (rule table_row_read_back [OF assms])

lemma demo_code: "uint (block_code demo_env NE_TYPE_Q4_0 xs j) < 16"
  by (simp add: block_code_def q4_0_code_def demo_env_def min_code_def)

theorem quantized_row_roundtrip_witness:
  "load32 (dequantize_row_q4_0 demo_env 64 8192 12288 (quantize_row_q4_0 demo_env 64 4096 8192 demo_mem)) (12288 + 4 * 49) =
    block_value demo_env NE_TYPE_Q4_0 (load_floats demo_mem (4096 + 4 * 32) 32) 17"
  using quantized_row_roundtrip [of demo_env NE_TYPE_Q4_0 "quantize_row_q4_0 demo_env" "dequantize_row_q4_0 demo_env" 64 2 4096 8192 12288 49
      "load_floats demo_mem (4096 + 4 * 32) 32" demo_mem] demo_code
  by (simp add: quantize_fns_def gap_def block_sizes code_width_def)

text \<open>
  C35. The row functions of the table of every block format (Q4_0, Q4_1, Q5_0, Q5_1, Q8_0, Q8_1, Q6_K) for
  a row of \<open>n\<close> blocks. Quantizing fills each of the \<open>n\<close> blocks with the block of its own
  floats, whatever the memory held before, and changes no byte outside the \<open>n * NE_TYPE_SIZE\<close> bytes of
  the row; dequantizing fills all floats of each block with the values of its bytes and
  changes no byte outside the \<open>4 * n * NE_BLCK_SIZE\<close> bytes of the floats.
\<close>

theorem quantized_row_blocks:
  assumes "fn_quantize_row (quantize_fns e type) = Some quantize" "k = NE_BLCK_SIZE type * n"
    and "gap x (4 * k) y (NE_TYPE_SIZE type * n)"
  shows "(\<forall>i < n. load_bytes (quantize k x y m) (y + NE_TYPE_SIZE type * i) (NE_TYPE_SIZE type) =
        block_bytes e type (load_floats m (x + 4 * (NE_BLCK_SIZE type * i)) (NE_BLCK_SIZE type))) \<and>
    (\<forall>a. a < y \<or> y + NE_TYPE_SIZE type * n \<le> a \<longrightarrow> quantize k x y m a = m a) \<and>
    (\<forall>dequantize. fn_dequantize_row (quantize_fns e type) = Some dequantize \<longrightarrow>
      (\<forall>i < n. load_floats (dequantize k y x m) (x + 4 * (NE_BLCK_SIZE type * i)) (NE_BLCK_SIZE type) =
        block_floats e type (load_bytes m (y + NE_TYPE_SIZE type * i) (NE_TYPE_SIZE type))) \<and>
      (\<forall>a. a < x \<or> x + 4 * k \<le> a \<longrightarrow> dequantize k y x m a = m a))"
proof -
  have g: "gap y (NE_TYPE_SIZE type * n) x (4 * k)" using assms(3) by (auto simp: gap_def)
  show ?thesis
    using table_quantize_extent [OF assms] table_dequantize_extent [OF _ assms(2) g]
      table_quantize_blocks [OF assms] table_dequantize_blocks [OF _ assms(2) g] by blast
qed

text \<open>Two blocks of 32 floats: the second one is written too, and nothing behind it.\<close>

theorem quantized_row_blocks_witness:
  "load_bytes (quantize_row_q8_1 demo_env 64 4096 8192 demo_mem) (8192 + 40) 40 =
     bytes_q8_1 (quantize_block_q8_1 demo_env (load_floats demo_mem (4096 + 128) 32)) \<and>
   quantize_row_q8_1 demo_env 64 4096 8192 demo_mem (8192 + 80) = demo_mem (8192 + 80)"
proof -
  have t: "fn_quantize_row (quantize_fns demo_env NE_TYPE_Q8_1) = Some (quantize_row_q8_1 demo_env)"
    "64 = NE_BLCK_SIZE NE_TYPE_Q8_1 * 2" "gap 4096 (4 * 64) 8192 (NE_TYPE_SIZE NE_TYPE_Q8_1 * 2)"
    by (simp_all add: quantize_fns_def gap_def block_sizes)
  note b = quantized_row_blocks [OF t, of demo_mem, THEN conjunct1, rule_format, of 1]
    and f = quantized_row_blocks [OF t, of demo_mem, THEN conjunct2, THEN conjunct1, rule_format, of "8192 + 80"]
  from b f show ?thesis by (simp add: block_bytes_def block_sizes)
qed

text \<open>
  The codes of the super-blocks are in range whatever the floats are: \<^verbatim>\<open>nearest_int\<close> returns a
  value of 23 bits, and \<^verbatim>\<open>make_qx_quants\<close>, on every path (all zero, no search, early return, search over
  the candidate scales), returns one code per element, between zero and \<open>2 * nmax - 1\<close>, as the packing
  of six bits needs for \<open>nmax = 32\<close>.
\<close>

theorem qx_codes_in_range:
  assumes "0 < nmax"
  shows "length (fst (make_qx_quants e nmax xs rmse_type)) = length xs \<and>
    (\<forall>l \<in> set (fst (make_qx_quants e nmax xs rmse_type)). 0 \<le> l \<and> l < 2 * nmax) \<and>
    - (2 ^ 22) \<le> nearest_int e v \<and> nearest_int e v < 2 ^ 22"
  using make_qx_codes [OF assms, of xs e rmse_type] nearest_int_bounds [of e v] by (simp add: codes_below_def)

theorem qx_codes_in_range_witness:
  "length (fst (make_qx_quants demo_env 32 [1, 2, 3] 1)) = 3 \<and> nearest_int demo_env 7 < 2 ^ 22"
  using qx_codes_in_range [of 32 demo_env "[1, 2, 3]" 1 7] by simp

end
