(* ===== verification/NE_Dot.thy ===== *)
theory NE_Dot
  imports NE_Quant_Results
begin

text \<open>
  Dot products of \<^verbatim>\<open>core/layers/vec_dot.h\<close>, in the portable branches: of floats, of half-precision
  floats, and of quantized rows with rows of 8-bit blocks. The products of quantized blocks are
  computed on integers and scaled once per block; the lemmas show that the integers are those that
  dequantizing multiplies, in the order of the elements, and that the sums do not overflow.
\<close>

section \<open>Floats\<close>

text \<open>Sums of floats are accumulated in a \<^verbatim>\<open>double\<close> (\<^verbatim>\<open>ne_float\<close>).\<close>

record dacc =
  d_add :: "64 word \<Rightarrow> 64 word \<Rightarrow> 64 word"
  f32_to_f64 :: "32 word \<Rightarrow> 64 word"
  f64_to_f32 :: "64 word \<Rightarrow> 32 word"

definition ne_vec_dot_f32 :: "dacc \<Rightarrow> farith \<Rightarrow> nat \<Rightarrow> ptr \<Rightarrow> ptr \<Rightarrow> ptr \<Rightarrow> memory \<Rightarrow> memory" where
  "ne_vec_dot_f32 da fa n s x y m =
     store32 s (f64_to_f32 da (fold (\<lambda>i sumf. d_add da sumf (f32_to_f64 da (f_mul fa (load32 m (x + 4 * i)) (load32 m (y + 4 * i)))))
       [0..<n] 0)) m"

definition ne_vec_dot_f16 :: "dacc \<Rightarrow> farith \<Rightarrow> fconv \<Rightarrow> nat \<Rightarrow> ptr \<Rightarrow> ptr \<Rightarrow> ptr \<Rightarrow> memory \<Rightarrow> memory" where
  "ne_vec_dot_f16 da fa fc n s x y m =
     store32 s (f64_to_f32 da (fold (\<lambda>i sumf. d_add da sumf (f32_to_f64 da
       (f_mul fa (fp16_to_fp32 fc (load16 m (x + 2 * i))) (fp16_to_fp32 fc (load16 m (y + 2 * i)))))) [0..<n] 0)) m"

definition NE_VEC_DOT_UNROLL :: nat where "NE_VEC_DOT_UNROLL = 2"

definition ne_vec_dot_f16_unroll :: "dacc \<Rightarrow> farith \<Rightarrow> fconv \<Rightarrow> nat \<Rightarrow> nat \<Rightarrow> ptr \<Rightarrow> ptr \<Rightarrow> ptr \<Rightarrow> memory \<Rightarrow> memory" where
  "ne_vec_dot_f16_unroll da fa fc n xs s xv y m =
     (let sumf = (\<lambda>j. fold (\<lambda>i sumf. d_add da sumf (f32_to_f64 da
        (f_mul fa (fp16_to_fp32 fc (load16 m (xv + j * xs + 2 * i))) (fp16_to_fp32 fc (load16 m (y + 2 * i)))))) [0..<n] 0) in
      fold (\<lambda>j. store32 (s + 4 * j) (f64_to_f32 da (sumf j))) [0..<NE_VEC_DOT_UNROLL] m)"

section \<open>The integer sums of a block\<close>

definition dot_pairs :: "(nat \<Rightarrow> int) \<Rightarrow> (nat \<Rightarrow> int) \<Rightarrow> byte list \<Rightarrow> int" where
  "dot_pairs v0 v1 qs = fold (\<lambda>j sumi. sumi + (v0 j * sint (qs ! j) + v1 j * sint (qs ! (j + 16)))) [0..<16] 0"

definition sumi_q4_0_q8_0 :: "block_q4_0 \<Rightarrow> block_q8_0 \<Rightarrow> int" where
  "sumi_q4_0_q8_0 x y = dot_pairs (\<lambda>j. uint (q4_0_qs x ! j AND 0x0F) - 8) (\<lambda>j. uint (drop_bit 4 (q4_0_qs x ! j)) - 8) (q8_0_qs y)"

definition sumi_q4_1_q8_1 :: "block_q4_1 \<Rightarrow> block_q8_1 \<Rightarrow> int" where
  "sumi_q4_1_q8_1 x y = dot_pairs (\<lambda>j. uint (q4_1_qs x ! j AND 0x0F)) (\<lambda>j. uint (drop_bit 4 (q4_1_qs x ! j))) (q8_1_qs y)"

text \<open>Here the fifth bits are isolated with a shifted mask, not as in the dequantizing functions.\<close>

definition dot_xh_0 :: "32 word \<Rightarrow> nat \<Rightarrow> byte" where
  "dot_xh_0 qh j = ucast (push_bit 4 (drop_bit j (qh AND push_bit j 1)))"

definition dot_xh_1 :: "32 word \<Rightarrow> nat \<Rightarrow> byte" where
  "dot_xh_1 qh j = ucast (drop_bit (j + 12) (qh AND push_bit (j + 16) 1))"

definition sumi_q5_0_q8_0 :: "block_q5_0 \<Rightarrow> block_q8_0 \<Rightarrow> int" where
  "sumi_q5_0_q8_0 x y = dot_pairs (\<lambda>j. uint ((q5_0_qs x ! j AND 0x0F) OR dot_xh_0 (q5_0_qh x) j) - 16)
     (\<lambda>j. uint (drop_bit 4 (q5_0_qs x ! j) OR dot_xh_1 (q5_0_qh x) j) - 16) (q8_0_qs y)"

definition sumi_q5_1_q8_1 :: "block_q5_1 \<Rightarrow> block_q8_1 \<Rightarrow> int" where
  "sumi_q5_1_q8_1 x y = dot_pairs (\<lambda>j. uint ((q5_1_qs x ! j AND 0xF) OR xh_0 (q5_1_qh x) j))
     (\<lambda>j. uint (drop_bit 4 (q5_1_qs x ! j) OR xh_1 (q5_1_qh x) j)) (q8_1_qs y)"

definition sumi_q8_0_q8_0 :: "block_q8_0 \<Rightarrow> block_q8_0 \<Rightarrow> int" where
  "sumi_q8_0_q8_0 x y = fold (\<lambda>j sumi. sumi + sint (q8_0_qs x ! j) * sint (q8_0_qs y ! j)) [0..<32] 0"

text \<open>
  The super-blocks: \<^verbatim>\<open>aux8\<close> are the unpacked codes, \<^verbatim>\<open>aux32\<close> eight sums, each of every eighth element,
  scaled by the group of sixteen that the element is in.
\<close>

definition aux8 :: "block_q6_K \<Rightarrow> int list" where
  "aux8 x = concat (map (\<lambda>n. concat (map (\<lambda>k. map (\<lambda>l. q6_code (q6_K_ql x) (q6_K_qh x) (64 * n) (32 * n) k l) [0..<32]) [0..<4])) [0..<2])"

definition aux32 :: "block_q6_K \<Rightarrow> block_q8_K \<Rightarrow> nat \<Rightarrow> int" where
  "aux32 x y l = fold (\<lambda>j acc.
     let scale = sint (q6_K_scales x ! j) in
     acc + scale * (sint (q8_K_qs y ! (16 * j + l)) * aux8 x ! (16 * j + l))
         + scale * (sint (q8_K_qs y ! (16 * j + 8 + l)) * aux8 x ! (16 * j + 8 + l))) [0..<16] 0"

section \<open>Rows\<close>

definition dot_blocks :: "nat \<Rightarrow> nat \<Rightarrow> nat \<Rightarrow> (byte list \<Rightarrow> byte list \<Rightarrow> 'f \<Rightarrow> 'f) \<Rightarrow> 'f \<Rightarrow> nat \<Rightarrow> ptr \<Rightarrow> ptr \<Rightarrow> memory \<Rightarrow> 'f" where
  "dot_blocks qk szx szy step acc n x y m =
     fold (\<lambda>i. step (load_bytes m (x + szx * i) szx) (load_bytes m (y + szy * i) szy)) [0..<n div qk] acc"

definition ne_vec_dot_q4_0_q8_0 :: "qenv \<Rightarrow> nat \<Rightarrow> ptr \<Rightarrow> ptr \<Rightarrow> ptr \<Rightarrow> memory \<Rightarrow> memory" where
  "ne_vec_dot_q4_0_q8_0 e n s vx vy m = store32 s (dot_blocks QK8_0 sizeof_block_q4_0 sizeof_block_q8_0 (\<lambda>bx by sumf.
     let x = block_q4_0_at bx; y = block_q8_0_at by in
     fadd e sumf (fmul e (fmul e (of_i32 e (sumi_q4_0_q8_0 x y)) (of_f16 e (q4_0_d x))) (of_f16 e (q8_0_d y)))) f32_0 n vx vy m) m"

definition ne_vec_dot_q4_1_q8_1 :: "qenv \<Rightarrow> nat \<Rightarrow> ptr \<Rightarrow> ptr \<Rightarrow> ptr \<Rightarrow> memory \<Rightarrow> memory" where
  "ne_vec_dot_q4_1_q8_1 e n s vx vy m = store32 s (dot_blocks QK8_1 sizeof_block_q4_1 sizeof_block_q8_1 (\<lambda>bx by sumf.
     let x = block_q4_1_at bx; y = block_q8_1_at by in
     fadd e sumf (fadd e (fmul e (fmul e (of_f16 e (q4_1_d x)) (q8_1_d y)) (of_i32 e (sumi_q4_1_q8_1 x y)))
       (fmul e (of_f16 e (q4_1_m x)) (q8_1_s y)))) f32_0 n vx vy m) m"

definition ne_vec_dot_q5_0_q8_0 :: "qenv \<Rightarrow> nat \<Rightarrow> ptr \<Rightarrow> ptr \<Rightarrow> ptr \<Rightarrow> memory \<Rightarrow> memory" where
  "ne_vec_dot_q5_0_q8_0 e n s vx vy m = store32 s (dot_blocks QK8_0 sizeof_block_q5_0 sizeof_block_q8_0 (\<lambda>bx by sumf.
     let x = block_q5_0_at bx; y = block_q8_0_at by in
     fadd e sumf (fmul e (fmul e (of_f16 e (q5_0_d x)) (of_f16 e (q8_0_d y))) (of_i32 e (sumi_q5_0_q8_0 x y)))) f32_0 n vx vy m) m"

definition ne_vec_dot_q5_1_q8_1 :: "qenv \<Rightarrow> nat \<Rightarrow> ptr \<Rightarrow> ptr \<Rightarrow> ptr \<Rightarrow> memory \<Rightarrow> memory" where
  "ne_vec_dot_q5_1_q8_1 e n s vx vy m = store32 s (dot_blocks QK8_1 sizeof_block_q5_1 sizeof_block_q8_1 (\<lambda>bx by sumf.
     let x = block_q5_1_at bx; y = block_q8_1_at by in
     fadd e sumf (fadd e (fmul e (fmul e (of_f16 e (q5_1_d x)) (q8_1_d y)) (of_i32 e (sumi_q5_1_q8_1 x y)))
       (fmul e (of_f16 e (q5_1_m x)) (q8_1_s y)))) f32_0 n vx vy m) m"

definition ne_vec_dot_q8_0_q8_0 :: "qenv \<Rightarrow> nat \<Rightarrow> ptr \<Rightarrow> ptr \<Rightarrow> ptr \<Rightarrow> memory \<Rightarrow> memory" where
  "ne_vec_dot_q8_0_q8_0 e n s vx vy m = store32 s (dot_blocks QK8_0 sizeof_block_q8_0 sizeof_block_q8_0 (\<lambda>bx by sumf.
     let x = block_q8_0_at bx; y = block_q8_0_at by in
     fadd e sumf (fmul e (of_i32 e (sumi_q8_0_q8_0 x y)) (fmul e (of_f16 e (q8_0_d x)) (of_f16 e (q8_0_d y))))) f32_0 n vx vy m) m"

text \<open>The eight sums of the super-blocks are added at the end.\<close>

definition ggml_vec_dot_q6_K_q8_K :: "qenv \<Rightarrow> nat \<Rightarrow> ptr \<Rightarrow> ptr \<Rightarrow> ptr \<Rightarrow> memory \<Rightarrow> memory" where
  "ggml_vec_dot_q6_K_q8_K e n s vx vy m =
     (let sums = dot_blocks QK_K sizeof_block_q6_K sizeof_block_q8_K (\<lambda>bx by sums.
        let x = block_q6_K_at bx; y = block_q8_K_at by; d = fmul e (of_f16 e (q6_K_d x)) (q8_K_d y) in
        map (\<lambda>l. fadd e (sums ! l) (fmul e d (of_i32 e (aux32 x y l)))) [0..<8]) (replicate 8 f32_0) n vx vy m in
      store32 s (fold (\<lambda>l sumf. fadd e sumf (sums ! l)) [0..<8] f32_0) m)"

text \<open>The entries \<^verbatim>\<open>vec_dot_q\<close> of the table \<^verbatim>\<open>quantize_fns\<close>.\<close>

definition fn_vec_dot :: "qenv \<Rightarrow> ne_type \<Rightarrow> (nat \<Rightarrow> ptr \<Rightarrow> ptr \<Rightarrow> ptr \<Rightarrow> memory \<Rightarrow> memory) option" where
  "fn_vec_dot e type = (case type of
     NE_TYPE_Q4_0 \<Rightarrow> Some (ne_vec_dot_q4_0_q8_0 e)
   | NE_TYPE_Q4_1 \<Rightarrow> Some (ne_vec_dot_q4_1_q8_1 e)
   | NE_TYPE_Q5_0 \<Rightarrow> Some (ne_vec_dot_q5_0_q8_0 e)
   | NE_TYPE_Q5_1 \<Rightarrow> Some (ne_vec_dot_q5_1_q8_1 e)
   | NE_TYPE_Q8_0 \<Rightarrow> Some (ne_vec_dot_q8_0_q8_0 e)
   | NE_TYPE_Q6_K \<Rightarrow> Some (ggml_vec_dot_q6_K_q8_K e)
   | _ \<Rightarrow> None)"

section \<open>The integers of a block\<close>

lemma fold_add: "fold (\<lambda>j acc. acc + f j) [0..<n] a = a + (\<Sum>j<n. f j :: int)"
  by (induction n) simp_all

lemma sum_halves:
  fixes f :: "nat \<Rightarrow> int"
  shows "(\<Sum>j<32. f j) = (\<Sum>j<16. f j + f (j + 16))"
proof -
  have "(\<Sum>j<32. f j) = (\<Sum>j \<in> {..<16}. f j) + (\<Sum>j \<in> {16..<32}. f j)"
    by (subst sum.union_disjoint [symmetric]) (auto intro: sum.cong)
  also have "(\<Sum>j \<in> {16..<32}. f j) = (\<Sum>j<16. f (j + 16))"
    using sum.shift_bounds_nat_ivl [of f 0 16 16] by (simp add: lessThan_atLeast0)
  finally show ?thesis by (simp add: sum.distrib)
qed

definition halves_of :: "(nat \<Rightarrow> int) \<Rightarrow> (nat \<Rightarrow> int) \<Rightarrow> int list" where
  "halves_of v0 v1 = map v0 [0..<16] @ map v1 [0..<16]"

lemma halves_of_nth [simp]: "j < 16 \<Longrightarrow> halves_of v0 v1 ! j = v0 j" "j < 16 \<Longrightarrow> halves_of v0 v1 ! (j + 16) = v1 j"
  by (simp_all add: halves_of_def nth_append)

lemma dot_pairs_sum: "dot_pairs v0 v1 qs = (\<Sum>j<32. halves_of v0 v1 ! j * sint (qs ! j))"
  unfolding dot_pairs_def fold_add sum_halves by simp

lemma dot_xh:
  assumes "j < 16"
  shows "dot_xh_0 qh j = xh_0 qh j" "dot_xh_1 qh j = xh_1 qh j"
proof -
  have b: "bit (2 ^ n :: 32 word) k \<longleftrightarrow> k = n" if "n < 32" for n k
    using that by (auto simp: bit_simps)
  have c: "bit (push_bit 4 (drop_bit j (qh AND push_bit j 1)) :: 32 word) k \<longleftrightarrow> k = 4 \<and> bit qh j" for k
    using assms by (auto simp: bit_push_bit_iff bit_drop_bit_eq bit_and_iff b)
  have d: "bit (drop_bit (j + 12) (qh AND push_bit (j + 16) 1) :: 32 word) k \<longleftrightarrow> k = 4 \<and> bit qh (16 + j)" for k
    using assms by (auto simp: bit_drop_bit_eq bit_and_iff b add.commute [of j])
  show "dot_xh_0 qh j = xh_0 qh j"
  proof (rule bit_word_eqI)
    show "bit (dot_xh_0 qh j) n \<longleftrightarrow> bit (xh_0 qh j) n" for n
      unfolding dot_xh_0_def xh_0_def bit_unsigned_iff c bit_and_iff bit_16 by (auto simp: bit_simps)
  qed
  show "dot_xh_1 qh j = xh_1 qh j"
  proof (rule bit_word_eqI)
    show "bit (dot_xh_1 qh j) n \<longleftrightarrow> bit (xh_1 qh j) n" for n
      unfolding dot_xh_1_def xh_1_def bit_unsigned_iff d bit_and_iff bit_16 by (auto simp: bit_simps ac_simps)
  qed
qed

text \<open>The integers that a block stores, as the dequantizing functions read them, and their 8-bit partners.\<close>

definition block_ints :: "ne_type \<Rightarrow> byte list \<Rightarrow> int list" where
  "block_ints type bs = (case type of
     NE_TYPE_Q4_0 \<Rightarrow> let qs = q4_0_qs (block_q4_0_at bs) in halves_of (\<lambda>j. uint (qs ! j AND 0x0F) - 8) (\<lambda>j. uint (drop_bit 4 (qs ! j)) - 8)
   | NE_TYPE_Q4_1 \<Rightarrow> let qs = q4_1_qs (block_q4_1_at bs) in halves_of (\<lambda>j. uint (qs ! j AND 0x0F)) (\<lambda>j. uint (drop_bit 4 (qs ! j)))
   | NE_TYPE_Q5_0 \<Rightarrow> let qs = q5_0_qs (block_q5_0_at bs); qh = q5_0_qh (block_q5_0_at bs) in
       halves_of (\<lambda>j. uint ((qs ! j AND 0x0F) OR xh_0 qh j) - 16) (\<lambda>j. uint (drop_bit 4 (qs ! j) OR xh_1 qh j) - 16)
   | NE_TYPE_Q5_1 \<Rightarrow> let qs = q5_1_qs (block_q5_1_at bs); qh = q5_1_qh (block_q5_1_at bs) in
       halves_of (\<lambda>j. uint ((qs ! j AND 0x0F) OR xh_0 qh j)) (\<lambda>j. uint (drop_bit 4 (qs ! j) OR xh_1 qh j))
   | _ \<Rightarrow> map sint (q8_0_qs (block_q8_0_at bs)))"

definition partner_ints :: "ne_type \<Rightarrow> byte list \<Rightarrow> int list" where
  "partner_ints type bs = map sint (if type = NE_TYPE_Q4_1 \<or> type = NE_TYPE_Q5_1 then q8_1_qs (block_q8_1_at bs) else q8_0_qs (block_q8_0_at bs))"

definition dot_sumi :: "ne_type \<Rightarrow> byte list \<Rightarrow> byte list \<Rightarrow> int" where
  "dot_sumi type bx by = (case type of
     NE_TYPE_Q4_0 \<Rightarrow> sumi_q4_0_q8_0 (block_q4_0_at bx) (block_q8_0_at by)
   | NE_TYPE_Q4_1 \<Rightarrow> sumi_q4_1_q8_1 (block_q4_1_at bx) (block_q8_1_at by)
   | NE_TYPE_Q5_0 \<Rightarrow> sumi_q5_0_q8_0 (block_q5_0_at bx) (block_q8_0_at by)
   | NE_TYPE_Q5_1 \<Rightarrow> sumi_q5_1_q8_1 (block_q5_1_at bx) (block_q8_1_at by)
   | _ \<Rightarrow> sumi_q8_0_q8_0 (block_q8_0_at bx) (block_q8_0_at by))"

definition dequantized_block :: "qenv \<Rightarrow> ne_type \<Rightarrow> byte list \<Rightarrow> 32 word list" where
  "dequantized_block e type bs = (case type of
     NE_TYPE_Q4_0 \<Rightarrow> dequantize_block_q4_0 e (block_q4_0_at bs)
   | NE_TYPE_Q4_1 \<Rightarrow> dequantize_block_q4_1 e (block_q4_1_at bs)
   | NE_TYPE_Q5_0 \<Rightarrow> dequantize_block_q5_0 e (block_q5_0_at bs)
   | NE_TYPE_Q5_1 \<Rightarrow> dequantize_block_q5_1 e (block_q5_1_at bs)
   | _ \<Rightarrow> dequantize_block_q8_0 e (block_q8_0_at bs))"

definition scaled_int :: "qenv \<Rightarrow> ne_type \<Rightarrow> byte list \<Rightarrow> int \<Rightarrow> 32 word" where
  "scaled_int e type bs v = (case type of
     NE_TYPE_Q4_1 \<Rightarrow> fadd e (fmul e (of_i32 e v) (of_f16 e (q4_1_d (block_q4_1_at bs)))) (of_f16 e (q4_1_m (block_q4_1_at bs)))
   | NE_TYPE_Q5_1 \<Rightarrow> fadd e (fmul e (of_i32 e v) (of_f16 e (q5_1_d (block_q5_1_at bs)))) (of_f16 e (q5_1_m (block_q5_1_at bs)))
   | _ \<Rightarrow> fmul e (of_i32 e v) (of_f16 e (word16_at bs 0)))"

definition dot_types :: "ne_type set" where
  "dot_types = {NE_TYPE_Q4_0, NE_TYPE_Q4_1, NE_TYPE_Q5_0, NE_TYPE_Q5_1, NE_TYPE_Q8_0}"

lemma field_nth: "length bs = k + n \<Longrightarrow> j < n \<Longrightarrow> field bs k n ! j = bs ! (k + j)" "length bs = k + n \<Longrightarrow> length (field bs k n) = n"
  by (simp_all add: field_def)

lemma dequantized_ints:
  assumes "type \<in> dot_types" "j < 32" "length bs = NE_TYPE_SIZE type"
  shows "dequantized_block e type bs ! j = scaled_int e type bs (block_ints type bs ! j)"
proof -
  have q8: "length (field bs 2 32) = 32" if "type = NE_TYPE_Q8_0" using assms(3) that by (simp add: field_def block_sizes)
  have "\<And>j. j < 16 \<Longrightarrow> dequantized_block e type bs ! j = scaled_int e type bs (block_ints type bs ! j)"
    and "\<And>j. j < 16 \<Longrightarrow> dequantized_block e type bs ! (16 + j) = scaled_int e type bs (block_ints type bs ! (16 + j))"
    using assms(1) q8 unfolding add.commute [of 16]
    by (auto simp: dot_types_def dequantized_block_def scaled_int_def block_ints_def Let_def nth_append
        dequantize_block_q4_0_def dequantize_block_q4_1_def dequantize_block_q5_0_def dequantize_block_q5_1_def
        dequantize_block_q8_0_def block_q4_0_at_def block_q5_0_at_def block_q8_0_at_def)
  from halves [of "\<lambda>j. dequantized_block e type bs ! j = scaled_int e type bs (block_ints type bs ! j)", OF this assms(2)] show ?thesis .
qed

lemma dot_pairs_cong:
  "(\<And>j. j < 16 \<Longrightarrow> v0 j = v0' j) \<Longrightarrow> (\<And>j. j < 16 \<Longrightarrow> v1 j = v1' j) \<Longrightarrow> dot_pairs v0 v1 qs = dot_pairs v0' v1' qs"
  unfolding dot_pairs_def by (intro fold_cong refl) auto

lemma partner_nth:
  assumes "type \<in> dot_types" "length bs = NE_TYPE_SIZE (vec_dot_type type)" "j < 32"
  shows "type = NE_TYPE_Q4_1 \<or> type = NE_TYPE_Q5_1 \<Longrightarrow> partner_ints type bs ! j = sint (q8_1_qs (block_q8_1_at bs) ! j)"
    and "type \<noteq> NE_TYPE_Q4_1 \<Longrightarrow> type \<noteq> NE_TYPE_Q5_1 \<Longrightarrow> partner_ints type bs ! j = sint (q8_0_qs (block_q8_0_at bs) ! j)"
  using assms by (auto simp: dot_types_def partner_ints_def block_q8_1_at_def block_q8_0_at_def field_def block_sizes)

lemma dot_sumi_sum:
  assumes t: "type \<in> dot_types" and l: "length bx = NE_TYPE_SIZE type" "length by = NE_TYPE_SIZE (vec_dot_type type)"
  shows "dot_sumi type bx by = (\<Sum>j<32. block_ints type bx ! j * partner_ints type by ! j)"
proof -
  have p1: "(\<Sum>j<32. f j * partner_ints type by ! j) = (\<Sum>j<32. f j * sint (q8_1_qs (block_q8_1_at by) ! j))"
    if "type = NE_TYPE_Q4_1 \<or> type = NE_TYPE_Q5_1" for f
    using partner_nth(1) [OF t l(2) _ that] by (intro sum.cong) auto
  have p0: "(\<Sum>j<32. f j * partner_ints type by ! j) = (\<Sum>j<32. f j * sint (q8_0_qs (block_q8_0_at by) ! j))"
    if "type \<noteq> NE_TYPE_Q4_1" "type \<noteq> NE_TYPE_Q5_1" for f
    using partner_nth(2) [OF t l(2) _ that] by (intro sum.cong) auto
  consider "type = NE_TYPE_Q4_0" | "type = NE_TYPE_Q4_1" | "type = NE_TYPE_Q5_0" | "type = NE_TYPE_Q5_1" | "type = NE_TYPE_Q8_0"
    using t by (auto simp: dot_types_def)
  then show ?thesis
  proof cases
    case 1
    with p0 show ?thesis by (simp add: dot_sumi_def sumi_q4_0_q8_0_def dot_pairs_sum block_ints_def Let_def)
  next
    case 2
    with p1 show ?thesis by (simp add: dot_sumi_def sumi_q4_1_q8_1_def dot_pairs_sum block_ints_def Let_def)
  next
    case 3
    let ?x = "block_q5_0_at bx"
    have "sumi_q5_0_q8_0 ?x (block_q8_0_at by) = dot_pairs (\<lambda>j. uint ((q5_0_qs ?x ! j AND 0x0F) OR xh_0 (q5_0_qh ?x) j) - 16)
        (\<lambda>j. uint (drop_bit 4 (q5_0_qs ?x ! j) OR xh_1 (q5_0_qh ?x) j) - 16) (q8_0_qs (block_q8_0_at by))"
      unfolding sumi_q5_0_q8_0_def by (rule dot_pairs_cong) (simp_all add: dot_xh)
    with 3 p0 show ?thesis by (simp add: dot_sumi_def dot_pairs_sum block_ints_def Let_def)
  next
    case 4
    with p1 show ?thesis by (simp add: dot_sumi_def sumi_q5_1_q8_1_def dot_pairs_sum block_ints_def Let_def)
  next
    case 5
    have "length (q8_0_qs (block_q8_0_at bx)) = 32" using l(1) 5 by (simp add: block_q8_0_at_def field_def block_sizes)
    with 5 p0 show ?thesis
      by (simp add: dot_sumi_def sumi_q8_0_q8_0_def fold_add block_ints_def)
  qed
qed

lemma sint_byte_bound: "\<bar>sint (w::byte)\<bar> \<le> 128"
  using sint_greater_eq [of w] sint_less [of w] by simp

lemma uint_byte_bound: "\<bar>uint (w::byte) - k\<bar> \<le> 256" if "0 \<le> k" "k \<le> 32"
proof -
  have "0 \<le> uint w" "uint w < 256" using uint_lt2p [of w] by simp_all
  with that show ?thesis by linarith
qed

lemma halves_bound:
  assumes "\<And>j. \<bar>v0 j\<bar> \<le> 256" "\<And>j. \<bar>v1 j\<bar> \<le> 256" "j < 32"
  shows "\<bar>halves_of v0 v1 ! j\<bar> \<le> 256"
  by (rule halves [OF _ _ assms(3)]) (simp_all add: assms(1,2) add.commute [of 16])

lemma block_ints_bound:
  assumes "type \<in> dot_types" "j < 32" "length bs = NE_TYPE_SIZE type"
  shows "\<bar>block_ints type bs ! j\<bar> \<le> 256"
proof -
  have s: "\<bar>sint (w::byte)\<bar> \<le> 256" for w using sint_byte_bound [of w] by linarith
  have u: "\<bar>uint (w::byte)\<bar> \<le> 256" for w using uint_byte_bound [of 0 w] by simp
  have "length (field bs 2 32) = 32" if "type = NE_TYPE_Q8_0" using assms(3) that by (simp add: field_def block_sizes)
  then show ?thesis using assms(1,2) s u uint_byte_bound
    by (auto simp: dot_types_def block_ints_def Let_def block_q8_0_at_def intro!: halves_bound)
qed

lemma dot_sumi_bound:
  assumes "type \<in> dot_types" "length bx = NE_TYPE_SIZE type" "length by = NE_TYPE_SIZE (vec_dot_type type)"
  shows "\<bar>dot_sumi type bx by\<bar> < 2 ^ 31"
proof -
  have "\<bar>block_ints type bx ! j * partner_ints type by ! j\<bar> \<le> 256 * 128" if "j < 32" for j
  proof -
    have "\<bar>partner_ints type by ! j\<bar> \<le> 128"
      using partner_nth [OF assms(1,3) that] sint_byte_bound by (cases "type = NE_TYPE_Q4_1 \<or> type = NE_TYPE_Q5_1") auto
    then show ?thesis unfolding abs_mult using block_ints_bound [OF assms(1) that assms(2)] by (intro mult_mono) auto
  qed
  then have "\<bar>dot_sumi type bx by\<bar> \<le> (\<Sum>j<(32::nat). 256 * 128)"
    unfolding dot_sumi_sum [OF assms] by (intro order_trans [OF sum_abs] sum_mono) auto
  then show ?thesis by simp
qed

text \<open>The super-blocks.\<close>

lemma sum_groups:
  fixes h :: "nat \<Rightarrow> int"
  shows "(\<Sum>i<w * n. h i) = (\<Sum>j<n. \<Sum>l<w. h (w * j + l))"
proof (induction n)
  case (Suc n)
  have "(\<Sum>i<a + k. h i) = (\<Sum>i<a. h i) + (\<Sum>l<k. h (a + l))" for a k by (induction k) simp_all
  from this [of "w * n" w] Suc show ?case by (simp add: add.commute)
qed simp

definition super_term :: "block_q6_K \<Rightarrow> block_q8_K \<Rightarrow> nat \<Rightarrow> int" where
  "super_term x y i = sint (q6_K_scales x ! (i div 16)) * (sint (q8_K_qs y ! i) * aux8 x ! i)"

lemma aux32_sum: "aux32 x y l = (\<Sum>j<16. super_term x y (16 * j + l) + super_term x y (16 * j + 8 + l))" if "l < 8"
proof -
  have "(16 * j + l) div 16 = j" "(16 * j + 8 + l) div 16 = j" for j using that by simp_all
  then show ?thesis using fold_add [of _ 16 0] by (simp add: aux32_def Let_def super_term_def add.assoc)
qed

lemma aux32_total: "(\<Sum>l<8. aux32 x y l) = (\<Sum>i<256. super_term x y i)"
proof -
  have split: "(\<Sum>l<16. h l) = (\<Sum>l<8. h l + h (8 + l))" for h :: "nat \<Rightarrow> int"
    using sum_groups [of h 8 2] by (simp add: sum.distrib lessThan_Suc numeral_2_eq_2 add.commute)
  have "(\<Sum>l<8. aux32 x y l) = (\<Sum>l<8. \<Sum>j<16. super_term x y (16 * j + l) + super_term x y (16 * j + 8 + l))"
    by (intro sum.cong) (simp_all add: aux32_sum)
  also have "\<dots> = (\<Sum>j<16. \<Sum>l<8. super_term x y (16 * j + l) + super_term x y (16 * j + (8 + l)))"
    by (subst sum.swap) (simp add: add.assoc)
  also have "\<dots> = (\<Sum>j<16. \<Sum>l<16. super_term x y (16 * j + l))" by (simp only: split)
  also have "\<dots> = (\<Sum>i<256. super_term x y i)" using sum_groups [of "super_term x y" 16 16] by simp
  finally show ?thesis .
qed

lemma aux8_bound: "length (aux8 x) = 256" "i < 256 \<Longrightarrow> \<bar>aux8 x ! i\<bar> \<le> 160"
proof -
  show l: "length (aux8 x) = 256" by (simp add: aux8_def length_concat comp_def sum_list_triv)
  have "\<bar>q6_code ql qh lo hi k l\<bar> \<le> 160" for ql qh lo hi k l
    unfolding q6_code_def Let_def using sint_byte_bound [of "(if k < 2 then ql ! (lo + 32 * k + l) AND 0xF
      else drop_bit 4 (ql ! (lo + 32 * (k - 2) + l))) OR push_bit 4 (drop_bit (2 * k) (qh ! (hi + l)) AND 3)"] by linarith
  then have "\<bar>v\<bar> \<le> 160" if "v \<in> set (aux8 x)" for v using that by (auto simp: aux8_def)
  then show "i < 256 \<Longrightarrow> \<bar>aux8 x ! i\<bar> \<le> 160" using l by simp
qed

lemma super_term_bound: "i < 256 \<Longrightarrow> \<bar>super_term x y i\<bar> \<le> 128 * (128 * 160)"
  unfolding super_term_def abs_mult by (intro mult_mono sint_byte_bound aux8_bound) auto

lemma aux32_bound:
  assumes "l < 8"
  shows "\<bar>aux32 x y l\<bar> < 2 ^ 31"
proof -
  have "\<bar>super_term x y (16 * j + l) + super_term x y (16 * j + 8 + l)\<bar> \<le> 2 * (128 * (128 * 160))" if "j < 16" for j
    using super_term_bound [of "16 * j + l" x y] super_term_bound [of "16 * j + 8 + l" x y] that assms by simp
  then have "\<bar>aux32 x y l\<bar> \<le> (\<Sum>j<(16::nat). 2 * (128 * (128 * 160)))"
    unfolding aux32_sum [OF assms] by (intro order_trans [OF sum_abs] sum_mono) auto
  then show ?thesis by simp
qed

section \<open>Properties\<close>

text \<open>The term that a block contributes: the scales applied to the sum of products of its integers.\<close>

definition block_term :: "qenv \<Rightarrow> ne_type \<Rightarrow> byte list \<Rightarrow> byte list \<Rightarrow> 32 word" where
  "block_term e type bx by =
     (let s = of_i32 e (\<Sum>j<32. block_ints type bx ! j * partner_ints type by ! j); dx = of_f16 e (word16_at bx 0) in
      case type of
        NE_TYPE_Q4_0 \<Rightarrow> fmul e (fmul e s dx) (of_f16 e (word16_at by 0))
      | NE_TYPE_Q5_0 \<Rightarrow> fmul e (fmul e dx (of_f16 e (word16_at by 0))) s
      | NE_TYPE_Q8_0 \<Rightarrow> fmul e s (fmul e dx (of_f16 e (word16_at by 0)))
      | _ \<Rightarrow> fadd e (fmul e (fmul e dx (word32_at by 0)) s) (fmul e (of_f16 e (word16_at bx 2)) (word32_at by 4)))"

definition row_block :: "memory \<Rightarrow> ptr \<Rightarrow> ne_type \<Rightarrow> nat \<Rightarrow> byte list" where
  "row_block m p type i = load_bytes m (p + NE_TYPE_SIZE type * i) (NE_TYPE_SIZE type)"

lemma fn_vec_dot_terms:
  assumes "type \<in> dot_types" "fn_vec_dot e type = Some dot"
  shows "dot n s vx vy m = store32 s (fold (\<lambda>i sumf. fadd e sumf (block_term e type (row_block m vx type i)
    (row_block m vy (vec_dot_type type) i))) [0..<n div 32] f32_0) m"
proof -
  have l: "length (row_block m p t i) = NE_TYPE_SIZE t" for p t i by (simp add: row_block_def)
  note sumi = dot_sumi_sum [OF assms(1) l l, of vx _ vy _, symmetric]
  have "dot n s vx vy m = store32 s (fold (\<lambda>i sumf. fadd e sumf (let bx = row_block m vx type i; by = row_block m vy (vec_dot_type type) i;
      s = of_i32 e (dot_sumi type bx by); dx = of_f16 e (word16_at bx 0) in
      case type of
        NE_TYPE_Q4_0 \<Rightarrow> fmul e (fmul e s dx) (of_f16 e (word16_at by 0))
      | NE_TYPE_Q5_0 \<Rightarrow> fmul e (fmul e dx (of_f16 e (word16_at by 0))) s
      | NE_TYPE_Q8_0 \<Rightarrow> fmul e s (fmul e dx (of_f16 e (word16_at by 0)))
      | _ \<Rightarrow> fadd e (fmul e (fmul e dx (word32_at by 0)) s) (fmul e (of_f16 e (word16_at bx 2)) (word32_at by 4)))) [0..<n div 32] f32_0) m"
    using assms
    by (auto simp: dot_types_def fn_vec_dot_def ne_vec_dot_q4_0_q8_0_def ne_vec_dot_q4_1_q8_1_def ne_vec_dot_q5_0_q8_0_def
        ne_vec_dot_q5_1_q8_1_def ne_vec_dot_q8_0_q8_0_def dot_blocks_def dot_sumi_def row_block_def Let_def qk_defs
        block_q4_0_at_def block_q4_1_at_def block_q5_0_at_def block_q5_1_at_def block_q8_0_at_def block_q8_1_at_def)
  then show ?thesis unfolding block_term_def Let_def sumi .
qed

text \<open>
  C36. Dot products of quantized rows (\<^verbatim>\<open>ne_vec_dot_q4_0_q8_0\<close> and the other entries \<^verbatim>\<open>vec_dot_q\<close> of the
  table, portable branches). Every block contributes its scales applied to one integer, the sum over
  the 32 elements in their order of the integer that dequantizing reads for the element times its
  8-bit partner, although the code works on packed halves and isolates the fifth bits in another
  way; the integer fits an \<^verbatim>\<open>int\<close>. For super-blocks the eight integer sums add up to that of all
  256 products scaled by the group of the element, and fit as well.
\<close>

theorem vec_dot_integers:
  assumes "type \<in> dot_types" "fn_vec_dot e type = Some dot"
  shows "dot n s vx vy m = store32 s (fold (\<lambda>i sumf. fadd e sumf (block_term e type (row_block m vx type i)
      (row_block m vy (vec_dot_type type) i))) [0..<n div 32] f32_0) m \<and>
    (\<forall>i. \<bar>dot_sumi type (row_block m vx type i) (row_block m vy (vec_dot_type type) i)\<bar> < 2 ^ 31) \<and>
    (\<forall>i j. j < 32 \<longrightarrow> dequantized_block e type (row_block m vx type i) ! j =
      scaled_int e type (row_block m vx type i) (block_ints type (row_block m vx type i) ! j)) \<and>
    (\<forall>x y. (\<Sum>l<8. aux32 x y l) = (\<Sum>i<256. super_term x y i) \<and> (\<forall>l < 8. \<bar>aux32 x y l\<bar> < 2 ^ 31))"
  using fn_vec_dot_terms [OF assms] dot_sumi_bound [OF assms(1)] dequantized_ints [OF assms(1)] aux32_total aux32_bound
  by (simp add: row_block_def)

theorem vec_dot_integers_witness:
  "ne_vec_dot_q5_0_q8_0 demo_env 32 12288 4096 8192 demo_mem = store32 12288 (fadd demo_env f32_0
    (block_term demo_env NE_TYPE_Q5_0 (row_block demo_mem 4096 NE_TYPE_Q5_0 0) (row_block demo_mem 8192 NE_TYPE_Q8_0 0))) demo_mem"
  using vec_dot_integers [of NE_TYPE_Q5_0 demo_env "ne_vec_dot_q5_0_q8_0 demo_env" 32 12288 4096 8192 demo_mem]
  by (simp add: dot_types_def fn_vec_dot_def)

end
