(* ===== verification/NE_Matmul.thy ===== *)
theory NE_Matmul
  imports NE_Dot
begin

text \<open>
  The matrix products of \<^verbatim>\<open>core/ne_layers.c\<close>: on 32-bit floats, on 16-bit floats and on quantized
  weights, where the second operand is first converted into the work buffer. The three kernels share
  their loops: tasks split the rows of \<^verbatim>\<open>src0\<close>, and every task goes through all rows of \<^verbatim>\<open>src1\<close>.
\<close>

section \<open>Kernels\<close>

definition mul_mat_shapes :: "ne_tensor \<Rightarrow> ne_tensor \<Rightarrow> ne_tensor \<Rightarrow> kop" where
  "mul_mat_shapes a b dst =
     sseq (ne_assert (ne dst ! 0 = ne a ! 1))
    (sseq (ne_assert (ne dst ! 1 = ne b ! 1))
    (sseq (ne_assert (ne dst ! 2 = ne b ! 2))
          (ne_assert (ne dst ! 3 = ne b ! 3))))"

text \<open>The destination cannot be transposed or permuted.\<close>

definition mul_mat_dst :: "ne_tensor \<Rightarrow> kop" where
  "mul_mat_dst dst =
     sseq (ne_assert (nb dst ! 0 = 4))
    (sseq (ne_assert (nb dst ! 0 \<le> nb dst ! 1))
    (sseq (ne_assert (nb dst ! 1 \<le> nb dst ! 2))
          (ne_assert (nb dst ! 2 \<le> nb dst ! 3))))"

text \<open>The plane of \<^verbatim>\<open>src0\<close> that row \<open>ir1\<close> of \<^verbatim>\<open>src1\<close>, in plane \<open>i12\<close>, is multiplied with: \<^verbatim>\<open>i02\<close> and \<^verbatim>\<open>i03\<close>.\<close>

definition src0_plane :: "ne_tensor \<Rightarrow> ne_tensor \<Rightarrow> int \<Rightarrow> int \<Rightarrow> (int \<times> int) res" where
  "src0_plane a b ir1 i12 =
     rbind (cdiv ir1 (ne b ! 1)) (\<lambda>q.
     rbind (cmod q (ne a ! 2 * ne a ! 3)) (\<lambda>ir0.
     rbind (cdiv ir0 (ne a ! 2)) (\<lambda>i03.
     rbind (cdiv (ne b ! 2) (ne a ! 2)) (\<lambda>k.
     rbind (cdiv i12 k) (\<lambda>i02. Inr (i02, i03))))))"

text \<open>
  The loops of a task; \<open>dot\<close> is the dot product of a row of \<^verbatim>\<open>src0\<close> with a column at \<open>col\<close>.
\<close>

definition mul_mat_rows ::
  "(nat \<Rightarrow> ptr \<Rightarrow> ptr \<Rightarrow> ptr \<Rightarrow> memory \<Rightarrow> memory) \<Rightarrow> (nat \<Rightarrow> int \<times> int \<times> int \<Rightarrow> (memory, ptr) op) \<Rightarrow>
   ne_compute_params \<Rightarrow> ne_tensor \<Rightarrow> ne_tensor \<Rightarrow> ne_tensor \<Rightarrow> kop" where
  "mul_mat_rows dot col ps a b dst =
     (let n = nat (to_int32 (ne a ! 0)) in
      sbind (liftR (block_rows (ne a ! 1) (ith ps) (nth ps))) (\<lambda>rs.
      for_list [0 .. ne b ! 1 * ne b ! 2 * ne b ! 3 - 1] (\<lambda>ir1.
        sbind (liftR (row_index (ne b ! 1) (ne b ! 2) ir1)) (\<lambda>i.
        sbind (liftR (src0_plane a b ir1 (fst (snd i)))) (\<lambda>(i02, i03).
        for_list rs (\<lambda>ir.
          sbind (row_ptr dst 1 (off3 (nb dst) i + 4 * to_size ir)) (\<lambda>s.
          sbind (row_ptr a n (off3 (nb a) (ir, i02, i03))) (\<lambda>x.
          sbind (col n i) (\<lambda>y.
          modify (dot n s x y))))))))))"

text \<open>Addresses in the work buffer; the converted rows of \<^verbatim>\<open>src1\<close> follow each other there.\<close>

definition work_ptr :: "ne_compute_params \<Rightarrow> nat \<Rightarrow> nat \<Rightarrow> (memory, ptr) op" where
  "work_ptr ps n off = (if n = 0 \<or> wdata ps \<noteq> NULL then ret (wrap64 (wdata ps + off)) else fail Bad_Deref)"

definition work_col :: "ne_compute_params \<Rightarrow> ne_tensor \<Rightarrow> nat \<Rightarrow> nat \<Rightarrow> int \<times> int \<times> int \<Rightarrow> (memory, ptr) op" where
  "work_col ps b rs n i = (case i of (i11, i12, i13) \<Rightarrow>
     work_ptr ps n (to_size (i11 + i12 * ne b ! 1 + i13 * ne b ! 2 * ne b ! 1) * rs))"

text \<open>The rows and the elements of \<^verbatim>\<open>src1\<close> in the order of the nested loops.\<close>

definition loop_rows :: "ne_tensor \<Rightarrow> (int \<times> int \<times> int) list" where
  "loop_rows b = concat (map (\<lambda>i3. concat (map (\<lambda>i2. map (\<lambda>i1. (i1, i2, i3)) [0 .. ne b ! 1 - 1])
     [0 .. ne b ! 2 - 1])) [0 .. ne b ! 3 - 1])"

definition loop_elems :: "ne_tensor \<Rightarrow> (int \<times> int \<times> int \<times> int) list" where
  "loop_elems b = concat (map (\<lambda>i. map (\<lambda>i0. (i0, i)) [0 .. ne b ! 0 - 1]) (loop_rows b))"

definition ne_compute_forward_mul_mat_f32 ::
  "dacc \<Rightarrow> farith \<Rightarrow> ne_compute_params \<Rightarrow> ne_tensor \<Rightarrow> ne_tensor \<Rightarrow> ne_tensor \<Rightarrow> kop" where
  "ne_compute_forward_mul_mat_f32 da fa ps a b dst =
     sseq (mul_mat_shapes a b dst)
    (sseq (ne_assert (nb a ! 0 = 4))
    (sseq (ne_assert (nb b ! 0 = 4))
    (sseq (mul_mat_dst dst)
    (if is_init_or_finalize ps then ret ()
     else mul_mat_rows (ne_vec_dot_f32 da fa) (\<lambda>n i. row_ptr b n (off3 (nb b) i)) ps a b dst))))"

text \<open>\<^verbatim>\<open>id\<close> counts the elements as they are converted.\<close>

definition mul_mat_to_f16 :: "fconv \<Rightarrow> ne_compute_params \<Rightarrow> ne_tensor \<Rightarrow> kop" where
  "mul_mat_to_f16 fc ps b =
     sseq (for_list (enumerate 0 (loop_elems b)) (\<lambda>(id, i0, i).
       sbind (work_ptr ps 1 (2 * id)) (\<lambda>y.
       sbind (row_ptr b 1 (off3 (nb b) i + to_size i0 * nb b ! 0)) (\<lambda>x.
       modify (\<lambda>m. store16 y (fp32_to_fp16 fc (load32 m x)) m)))))
      (ne_assert (wrap64 (length (loop_elems b) * 2) \<le> wsize ps))"

definition ne_compute_forward_mul_mat_f16_f32 ::
  "dacc \<Rightarrow> farith \<Rightarrow> fconv \<Rightarrow> ne_compute_params \<Rightarrow> ne_tensor \<Rightarrow> ne_tensor \<Rightarrow> ne_tensor \<Rightarrow> kop" where
  "ne_compute_forward_mul_mat_f16_f32 da fa fc ps a b dst =
     sseq (mul_mat_shapes a b dst)
    (sseq (ne_assert (nb a ! 0 = 2))
    (sseq (mul_mat_dst dst)
    (case task ps of
       NE_TASK_INIT \<Rightarrow> mul_mat_to_f16 fc ps b
     | NE_TASK_FINALIZE \<Rightarrow> ret ()
     | NE_TASK_COMPUTE \<Rightarrow> mul_mat_rows (ne_vec_dot_f16 da fa fc)
         (work_col ps b (wrap64 (to_size (ne b ! 0) * NE_TYPE_SIZE NE_TYPE_F16))) ps a b dst)))"

text \<open>The row size of the type that the rows of \<^verbatim>\<open>src1\<close> are quantized to.\<close>

definition dot_row_size :: "ne_tensor \<Rightarrow> ne_type \<Rightarrow> nat res" where
  "dot_row_size b type = udiv (wrap64 (to_size (ne b ! 0) * NE_TYPE_SIZE type)) (NE_BLCK_SIZE type)"

definition mul_mat_quantize :: "row_fn option \<Rightarrow> nat \<Rightarrow> ne_compute_params \<Rightarrow> ne_tensor \<Rightarrow> kop" where
  "mul_mat_quantize quantize_row_q_dot rs ps b =
     for_list (enumerate 0 (loop_rows b)) (\<lambda>(k, i).
       case quantize_row_q_dot of
         None \<Rightarrow> fail Bad_Deref
       | Some quantize \<Rightarrow>
           let n = nat (to_int32 (ne b ! 0)) in
           sbind (row_ptr b n (off3 (nb b) i)) (\<lambda>x.
           sbind (work_ptr ps n (k * rs)) (\<lambda>y.
           modify (quantize n x y))))"

definition ne_compute_forward_mul_mat_q_f32 ::
  "qenv \<Rightarrow> ne_compute_params \<Rightarrow> ne_tensor \<Rightarrow> ne_tensor \<Rightarrow> ne_tensor \<Rightarrow> kop" where
  "ne_compute_forward_mul_mat_q_f32 e ps a b dst =
     sseq (mul_mat_shapes a b dst)
    (sseq (ne_assert (nb a ! 0 = NE_TYPE_SIZE (ty a)))
    (sseq (ne_assert (nb b ! 0 = 4))
    (sseq (mul_mat_dst dst)
    (case task ps of
       NE_TASK_INIT \<Rightarrow>
         sbind (liftR (dot_row_size b (vec_dot_type (ty a)))) (\<lambda>rs.
         mul_mat_quantize (fn_quantize_row_dot (quantize_fns e (ty a))) rs ps b)
     | NE_TASK_FINALIZE \<Rightarrow> ret ()
     | NE_TASK_COMPUTE \<Rightarrow>
         sbind (liftR (dot_row_size b (vec_dot_type (ty a)))) (\<lambda>rs.
         case fn_vec_dot e (ty a) of
           None \<Rightarrow> mul_mat_rows (\<lambda>_ _ _ _ m. m) (\<lambda>_ _. fail Bad_Deref) ps a b dst
         | Some vec_dot_q \<Rightarrow> mul_mat_rows vec_dot_q (work_col ps b rs) ps a b dst)))))"

text \<open>The product with weights in the format of the BesTLA library, which is called once.\<close>

type_synonym bestla_gemm = "ptr \<Rightarrow> ptr \<Rightarrow> ptr \<Rightarrow> int \<Rightarrow> int \<Rightarrow> int \<Rightarrow> int \<Rightarrow> int \<Rightarrow> ptr \<Rightarrow> memory \<Rightarrow> memory"

definition ne_compute_forward_mul_mat_q_f32_bestla ::
  "bestla_gemm \<Rightarrow> ne_compute_params \<Rightarrow> ne_tensor \<Rightarrow> ne_tensor \<Rightarrow> ne_tensor \<Rightarrow> kop" where
  "ne_compute_forward_mul_mat_q_f32_bestla bestla_f32f32_forward ps a b dst =
     sseq (ne_assert (ne a ! 2 = ne b ! 2))
    (sseq (ne_assert (ne a ! 3 = ne b ! 3))
    (sseq (ne_assert (ne dst ! 2 = ne b ! 2))
    (sseq (ne_assert (ne dst ! 3 = ne b ! 3))
    (sseq (ne_assert (nb a ! 0 = NE_TYPE_SIZE (ty a)))
    (sseq (ne_assert (nb b ! 0 = 4))
    (sseq (mul_mat_dst dst)
    (sseq (ne_assert (ne dst ! 0 = ne a ! 1))
    (sseq (ne_assert (ne dst ! 1 = ne b ! 1))
    (sseq (ne_assert (ne dst ! 2 = ne a ! 2))
    (sseq (ne_assert (ne dst ! 3 = ne a ! 3))
    (if is_init_or_finalize ps then ret ()
     else
       sbind (liftR (udiv (nb b ! 1) (ne_element_size b))) (\<lambda>lda.
       sbind (liftR (udiv (nb dst ! 1) (ne_element_size dst))) (\<lambda>ldo.
       modify (bestla_f32f32_forward (data b) (data a) (data dst) (to_int32 (ne dst ! 1)) (to_int32 (ne dst ! 0))
         (to_int32 (ne b ! 0)) (to_int32 (int lda)) (to_int32 (int ldo)) (wdata ps)))))))))))))))"

definition ne_compute_forward_mul_mat ::
  "dacc \<Rightarrow> qenv \<Rightarrow> bestla_gemm \<Rightarrow> ne_compute_params \<Rightarrow> ne_tensor \<Rightarrow> ne_tensor \<Rightarrow> ne_tensor \<Rightarrow> kop" where
  "ne_compute_forward_mul_mat da e gemm ps a b dst =
     (if ty a \<in> {NE_TYPE_Q4_0, NE_TYPE_Q4_1, NE_TYPE_Q5_0, NE_TYPE_Q5_1, NE_TYPE_Q8_0, NE_TYPE_Q6_K, NE_TYPE_Q8_1}
      then ne_compute_forward_mul_mat_q_f32 e ps a b dst
      else case ty a of
        NE_TYPE_BTLA \<Rightarrow> ne_compute_forward_mul_mat_q_f32_bestla gemm ps a b dst
      | NE_TYPE_F16 \<Rightarrow> ne_compute_forward_mul_mat_f16_f32 da (q_fa e) (q_fc e) ps a b dst
      | NE_TYPE_F32 \<Rightarrow> ne_compute_forward_mul_mat_f32 da (q_fa e) ps a b dst
      | _ \<Rightarrow> fail NE_Assert)"

end
