(* ===== verification/NE_Rows.thy ===== *)
theory NE_Rows
  imports NE_Matmul
begin

text \<open>
  Kernels of \<^verbatim>\<open>core/ne_layers.c\<close> that work on whole rows: sums and means, normalisation, soft-max and
  gathering of quantized rows, with the loops of \<^verbatim>\<open>core/layers/ele_reduce.h\<close>. Double-precision
  arithmetic and conversions are parameters, as is the normalisation of the BesTLA library.
\<close>

section \<open>Arithmetic\<close>

record renv =
  r_env :: qenv
  r_acc :: dacc
  d_div :: "64 word \<Rightarrow> 64 word \<Rightarrow> 64 word"
  i64_to_f64 :: "int \<Rightarrow> 64 word"
  i64_to_f32 :: "int \<Rightarrow> 32 word"

abbreviation r_fa :: "renv \<Rightarrow> farith" where "r_fa e \<equiv> q_fa (r_env e)"

definition f64_0 :: "64 word" where "f64_0 = 0"
definition f64_1 :: "64 word" where "f64_1 = 0x3FF0000000000000"
definition d_neg :: "64 word \<Rightarrow> 64 word" where "d_neg x = x XOR 0x8000000000000000"

definition dadd :: "renv \<Rightarrow> 64 word \<Rightarrow> 32 word \<Rightarrow> 64 word" where
  "dadd e sumf x = d_add (r_acc e) sumf (f32_to_f64 (r_acc e) x)"

definition dround :: "renv \<Rightarrow> 64 word \<Rightarrow> 32 word" where
  "dround e = f64_to_f32 (r_acc e)"

text \<open>\<^verbatim>\<open>1e-5f\<close> and \<^verbatim>\<open>1e-6f\<close>.\<close>

definition f32_1e_5 :: "32 word" where "f32_1e_5 = 0x3727C5AC"
definition f32_1e_6 :: "32 word" where "f32_1e_6 = 0x358637BD"

section \<open>Reductions\<close>

definition ne_vec_sum_ggf :: "renv \<Rightarrow> nat \<Rightarrow> ptr \<Rightarrow> memory \<Rightarrow> 64 word" where
  "ne_vec_sum_ggf e n x m = fold (\<lambda>i sumf. dadd e sumf (load32 m (x + 4 * i))) [0..<n] f64_0"

definition ne_vec_sum_f32 :: "renv \<Rightarrow> nat \<Rightarrow> ptr \<Rightarrow> ptr \<Rightarrow> memory \<Rightarrow> memory" where
  "ne_vec_sum_f32 e n s x m = store32 s (dround e (fold (\<lambda>i sumf. dadd e sumf (load32 m (x + 4 * i))) [0..<n] f64_0)) m"

definition ne_vec_max_f32 :: "renv \<Rightarrow> nat \<Rightarrow> ptr \<Rightarrow> memory \<Rightarrow> 32 word" where
  "ne_vec_max_f32 e n x m =
     fold (\<lambda>i mx. if f_less (r_fa e) mx (load32 m (x + 4 * i)) then load32 m (x + 4 * i) else mx) [0..<n] f32_minus_inf"

definition ne_vec_acc_f32 :: "farith \<Rightarrow> nat \<Rightarrow> ptr \<Rightarrow> ptr \<Rightarrow> memory \<Rightarrow> memory" where
  "ne_vec_acc_f32 fa n y x = vec_map2 (f_add fa) n y y x"

primrec sum_rows_loop :: "renv \<Rightarrow> ne_tensor \<Rightarrow> (int \<times> int \<times> int) list \<Rightarrow> 64 word \<Rightarrow> (memory, 64 word) op" where
  "sum_rows_loop e a [] sumf = ret sumf"
| "sum_rows_loop e a (i # is) sumf =
     (let n = nat (to_int32 (ne a ! 0)) in
      sbind (row_ptr a n (off3 (nb a) i)) (\<lambda>x.
      sbind (gets (ne_vec_sum_ggf e n x)) (\<lambda>row_sum.
      sum_rows_loop e a is (d_add (r_acc e) sumf row_sum))))"

definition ne_compute_forward_sum_f32 :: "renv \<Rightarrow> ne_compute_params \<Rightarrow> ne_tensor \<Rightarrow> ne_tensor \<Rightarrow> kop" where
  "ne_compute_forward_sum_f32 e ps a dst =
     (if is_init_or_finalize ps then ret ()
      else
        sbind (sum_rows_loop e a (loop_rows a) f64_0) (\<lambda>sumf.
        sbind (row_ptr dst 1 0) (\<lambda>p. modify (store32 p (dround e sumf)))))"

definition ne_compute_forward_sum :: "renv \<Rightarrow> ne_compute_params \<Rightarrow> ne_tensor \<Rightarrow> ne_tensor \<Rightarrow> kop" where
  "ne_compute_forward_sum e ps a dst = switch_f32 a (ne_compute_forward_sum_f32 e ps a dst)"

definition ne_compute_forward_sum_rows_f32 :: "renv \<Rightarrow> ne_compute_params \<Rightarrow> ne_tensor \<Rightarrow> ne_tensor \<Rightarrow> kop" where
  "ne_compute_forward_sum_rows_f32 e ps a dst =
     sseq (ne_assert (ith ps = 0))
    (if is_init_or_finalize ps then ret ()
     else
       sseq (ne_assert (nb a ! 0 = 4))
      (sseq (ne_assert (nb dst ! 0 = 4))
      (sseq (ne_assert (ne dst ! 0 = 1))
      (sseq (ne_assert (ne dst ! 1 = ne a ! 1))
      (sseq (ne_assert (ne dst ! 2 = ne a ! 2))
      (sseq (ne_assert (ne dst ! 3 = ne a ! 3))
      (let n = nat (to_int32 (ne a ! 0)) in
       for_list (loop_rows a) (\<lambda>i.
         sbind (row_ptr a n (off3 (nb a) i)) (\<lambda>x.
         sbind (row_ptr dst 1 (off3 (nb dst) i)) (\<lambda>y.
         modify (ne_vec_sum_f32 e n y x)))))))))))"

definition ne_compute_forward_sum_rows :: "renv \<Rightarrow> ne_compute_params \<Rightarrow> ne_tensor \<Rightarrow> ne_tensor \<Rightarrow> kop" where
  "ne_compute_forward_sum_rows e ps a dst = switch_f32 a (ne_compute_forward_sum_rows_f32 e ps a dst)"

definition ne_compute_forward_mean_f32 :: "renv \<Rightarrow> ne_compute_params \<Rightarrow> ne_tensor \<Rightarrow> ne_tensor \<Rightarrow> kop" where
  "ne_compute_forward_mean_f32 e ps a dst =
     (if is_init_or_finalize ps then ret ()
      else
        let n = nat (to_int32 (ne a ! 0)) in
        for_list (loop_rows a) (\<lambda>i.
          sbind (row_ptr dst 1 (off3 (nb dst) i)) (\<lambda>y.
          sbind (row_ptr a n (off3 (nb a) i)) (\<lambda>x.
          sseq (modify (ne_vec_sum_f32 e n y x))
            (modify (\<lambda>m. store32 y (f_div (r_fa e) (load32 m y) (i64_to_f32 e (ne a ! 0))) m))))))"

definition ne_compute_forward_mean :: "renv \<Rightarrow> ne_compute_params \<Rightarrow> ne_tensor \<Rightarrow> ne_tensor \<Rightarrow> kop" where
  "ne_compute_forward_mean e ps a dst = switch_f32 a (ne_compute_forward_mean_f32 e ps a dst)"

section \<open>Normalisation\<close>

text \<open>One row of \<open>n\<close> elements, from \<open>x\<close> to \<open>y\<close>.\<close>

definition norm_row :: "renv \<Rightarrow> 32 word \<Rightarrow> nat \<Rightarrow> ptr \<Rightarrow> ptr \<Rightarrow> memory \<Rightarrow> memory" where
  "norm_row e eps n y x m =
     (let mean = dround e (d_div e (ne_vec_sum_ggf e n x m) (i64_to_f64 e (int n)));
          (m1, sum2) = fold (\<lambda>i (m, sum2).
             let v = f_sub (r_fa e) (load32 m (x + 4 * i)) mean in
             (store32 (y + 4 * i) v m, dadd e sum2 (f_mul (r_fa e) v v))) [0..<n] (m, f64_0);
          variance = dround e (d_div e sum2 (i64_to_f64 e (int n)));
          scale = f_div (r_fa e) f32_1 (f_sqrt (r_fa e) (f_add (r_fa e) variance eps)) in
      ne_vec_scale_f32 (r_fa e) n y scale m1)"

definition rms_norm_row :: "renv \<Rightarrow> 32 word \<Rightarrow> nat \<Rightarrow> ptr \<Rightarrow> ptr \<Rightarrow> memory \<Rightarrow> memory" where
  "rms_norm_row e eps n y x m =
     (let sumf = fold (\<lambda>i sumf. dadd e sumf (f_mul (r_fa e) (load32 m (x + 4 * i)) (load32 m (x + 4 * i)))) [0..<n] f64_0;
          mean = dround e (d_div e sumf (i64_to_f64 e (int n)));
          scale = f_div (r_fa e) f32_1 (f_sqrt (r_fa e) (f_add (r_fa e) mean eps)) in
      ne_vec_scale_f32 (r_fa e) n y scale (copy_bytes (4 * n) y x m))"

type_synonym bestla_norm = "int \<Rightarrow> int \<Rightarrow> bool \<Rightarrow> 32 word \<Rightarrow> ptr \<Rightarrow> ptr \<Rightarrow> memory \<Rightarrow> memory"

text \<open>
  The rows of a task: in every plane, the rows \<^verbatim>\<open>ith\<close>, \<^verbatim>\<open>ith + nth\<close> and so on. Contiguous tensors are
  handed to the library as a whole.
\<close>

definition norm_rows :: "(nat \<Rightarrow> ptr \<Rightarrow> ptr \<Rightarrow> memory \<Rightarrow> memory) \<Rightarrow> ne_compute_params \<Rightarrow> ne_tensor \<Rightarrow> ne_tensor \<Rightarrow> kop" where
  "norm_rows row ps a dst =
     (let n = nat (ne a ! 0) in
      for_list [0 .. ne a ! 3 - 1] (\<lambda>i03. for_list [0 .. ne a ! 2 - 1] (\<lambda>i02.
      sbind (liftR (strided (ith ps) (nth ps) (ne a ! 1))) (\<lambda>rs.
      for_list rs (\<lambda>i01.
        sbind (row_ptr a n (off3 (nb a) (i01, i02, i03))) (\<lambda>x.
        sbind (row_ptr dst n (off3 (nb dst) (i01, i02, i03))) (\<lambda>y.
        modify (row n y x))))))))"

definition norm_f32 :: "bestla_norm \<Rightarrow> (nat \<Rightarrow> ptr \<Rightarrow> ptr \<Rightarrow> memory \<Rightarrow> memory) \<Rightarrow> bool \<Rightarrow> 32 word \<Rightarrow>
   ne_compute_params \<Rightarrow> ne_tensor \<Rightarrow> ne_tensor \<Rightarrow> kop" where
  "norm_f32 bestla_layernormalization row isrms eps ps a dst =
     sseq (ne_assert (ne_are_same_shape a dst))
    (if is_init_or_finalize ps then ret ()
     else
       sseq (ne_assert (nb a ! 0 = 4))
      (sbind (liftR (andR (ne_is_contiguous a) (ne_is_contiguous dst))) (\<lambda>cont.
       if cont then modify (bestla_layernormalization (to_int32 (ne a ! 3 * ne a ! 2 * ne a ! 1)) (to_int32 (ne a ! 0)) isrms eps (data a) (data dst))
       else norm_rows row ps a dst)))"

definition ne_compute_forward_norm_f32 :: "bestla_norm \<Rightarrow> renv \<Rightarrow> ne_compute_params \<Rightarrow> ne_tensor \<Rightarrow> ne_tensor \<Rightarrow> kop" where
  "ne_compute_forward_norm_f32 ln e = norm_f32 ln (norm_row e f32_1e_5) False f32_1e_5"

definition ne_compute_forward_norm :: "bestla_norm \<Rightarrow> renv \<Rightarrow> ne_compute_params \<Rightarrow> ne_tensor \<Rightarrow> ne_tensor \<Rightarrow> kop" where
  "ne_compute_forward_norm ln e ps a dst = switch_f32 a (ne_compute_forward_norm_f32 ln e ps a dst)"

definition ne_compute_forward_rms_norm_f32 :: "bestla_norm \<Rightarrow> renv \<Rightarrow> ne_compute_params \<Rightarrow> ne_tensor \<Rightarrow> ne_tensor \<Rightarrow> kop" where
  "ne_compute_forward_rms_norm_f32 ln e ps a dst =
     norm_f32 ln (rms_norm_row e (op_params dst ! 0)) True (op_params dst ! 0) ps a dst"

definition ne_compute_forward_rms_norm :: "bestla_norm \<Rightarrow> renv \<Rightarrow> ne_compute_params \<Rightarrow> ne_tensor \<Rightarrow> ne_tensor \<Rightarrow> kop" where
  "ne_compute_forward_rms_norm ln e ps a dst = switch_f32 a (ne_compute_forward_rms_norm_f32 ln e ps a dst)"

definition rms_norm_back_row :: "renv \<Rightarrow> nat \<Rightarrow> ptr \<Rightarrow> ptr \<Rightarrow> ptr \<Rightarrow> memory \<Rightarrow> memory" where
  "rms_norm_back_row e n dx x dz m =
     (let fa = r_fa e; ne00 = i64_to_f32 e (int n);
          sum_xx = fold (\<lambda>i s. dadd e s (f_mul fa (load32 m (x + 4 * i)) (load32 m (x + 4 * i)))) [0..<n] f64_0;
          sum_xdz = fold (\<lambda>i s. dadd e s (f_mul fa (load32 m (x + 4 * i)) (load32 m (dz + 4 * i)))) [0..<n] f64_0;
          mean_eps = f_add fa (f_div fa (dround e sum_xx) ne00) f32_1e_6;
          sum_eps = f_add fa (dround e sum_xx) (f_mul fa f32_1e_6 ne00);
          rrms = f_div fa f32_1 (f_sqrt fa mean_eps) in
      ne_vec_scale_f32 fa n dx rrms (ne_vec_acc_f32 fa n dx dz
        (ne_vec_scale_f32 fa n dx (f_div fa (dround e (d_neg sum_xdz)) sum_eps) (ne_vec_cpy_f32 n dx x m))))"

definition ne_compute_forward_rms_norm_back_f32 :: "renv \<Rightarrow> ne_compute_params \<Rightarrow> ne_tensor \<Rightarrow> ne_tensor \<Rightarrow> ne_tensor \<Rightarrow> kop" where
  "ne_compute_forward_rms_norm_back_f32 e ps a b dst =
     sseq (ne_assert (ne_are_same_shape a dst \<and> ne_are_same_shape a b))
    (if is_init_or_finalize ps then ret ()
     else
       sseq (ne_assert (nb a ! 0 = 4))
      (let n = nat (ne a ! 0) in
       for_list [0 .. ne a ! 3 - 1] (\<lambda>i03. for_list [0 .. ne a ! 2 - 1] (\<lambda>i02.
       sbind (liftR (strided (ith ps) (nth ps) (ne a ! 1))) (\<lambda>rs.
       for_list rs (\<lambda>i01.
         sbind (row_ptr a n (off3 (nb a) (i01, i02, i03))) (\<lambda>x.
         sbind (row_ptr b n (off3 (nb b) (i01, i02, i03))) (\<lambda>dz.
         sbind (row_ptr dst n (off3 (nb dst) (i01, i02, i03))) (\<lambda>dx.
         modify (rms_norm_back_row e n dx x dz))))))))))"

definition ne_compute_forward_rms_norm_back :: "renv \<Rightarrow> ne_compute_params \<Rightarrow> ne_tensor \<Rightarrow> ne_tensor \<Rightarrow> ne_tensor \<Rightarrow> kop" where
  "ne_compute_forward_rms_norm_back e ps a b dst = switch_f32 a (ne_compute_forward_rms_norm_back_f32 e ps a b dst)"

section \<open>Soft-max\<close>

text \<open>The exponentials come from a table of 16-bit floats, which \<^verbatim>\<open>ne_init\<close> fills on the first call.\<close>

definition table_exp_f16 :: "renv \<Rightarrow> 16 word \<Rightarrow> 16 word" where
  "table_exp_f16 e i = to_f16 (r_env e) (f_exp (r_fa e) (of_f16 (r_env e) i))"

definition exp_val :: "renv \<Rightarrow> 32 word \<Rightarrow> 32 word \<Rightarrow> 32 word" where
  "exp_val e mx v = of_f16 (r_env e) (table_exp_f16 e (to_f16 (r_env e) (f_sub (r_fa e) v mx)))"

definition soft_max_row :: "renv \<Rightarrow> nat \<Rightarrow> ptr \<Rightarrow> ptr \<Rightarrow> memory \<Rightarrow> memory" where
  "soft_max_row e nc dp sp m =
     (let mx = ne_vec_max_f32 e nc sp m;
          (m1, sumf) = fold (\<lambda>i (m, sumf).
             if load32 m (sp + 4 * i) = f32_minus_inf then (store32 (dp + 4 * i) f32_0 m, sumf)
             else let v = exp_val e mx (load32 m (sp + 4 * i)) in (store32 (dp + 4 * i) v m, dadd e sumf v)) [0..<nc]
             (m, if mx = f32_minus_inf then i64_to_f64 e (int nc) else f64_0) in
      ne_vec_scale_f32 (r_fa e) nc dp (dround e (d_div e f64_1 sumf)) m1)"

definition ne_compute_forward_soft_max_f32 :: "renv \<Rightarrow> ne_compute_params \<Rightarrow> ne_tensor \<Rightarrow> ne_tensor \<Rightarrow> kop" where
  "ne_compute_forward_soft_max_f32 e ps a dst =
     sseq (ne_assertR (ne_is_contiguous a))
    (sseq (ne_assertR (ne_is_contiguous dst))
    (sseq (ne_assert (ne_are_same_shape a dst))
    (if is_init_or_finalize ps then ret ()
     else
       let nc = nat (to_int32 (ne a ! 0)) in
       sbind (liftR (block_rows (ne_nrows a) (ith ps) (nth ps))) (\<lambda>rs.
       for_list rs (\<lambda>i1.
         sbind (row_ptr a nc (to_size i1 * nb a ! 1)) (\<lambda>sp.
         sbind (row_ptr dst nc (to_size i1 * nb dst ! 1)) (\<lambda>dp.
         modify (soft_max_row e nc dp sp))))))))"

definition ne_compute_forward_soft_max :: "renv \<Rightarrow> ne_compute_params \<Rightarrow> ne_tensor \<Rightarrow> ne_tensor \<Rightarrow> kop" where
  "ne_compute_forward_soft_max e ps a dst = switch_f32 a (ne_compute_forward_soft_max_f32 e ps a dst)"

section \<open>Gathering quantized rows\<close>

definition ne_compute_forward_get_rows_q :: "qenv \<Rightarrow> ne_compute_params \<Rightarrow> ne_tensor \<Rightarrow> ne_tensor \<Rightarrow> ne_tensor \<Rightarrow> kop" where
  "ne_compute_forward_get_rows_q e ps a b dst =
     (if is_init_or_finalize ps then ret ()
      else
        let nc = nat (to_int32 (ne a ! 0)) in
        for_list [0 .. to_int32 (ne_nelements b) - 1] (\<lambda>i.
          sbind (read_i32 b (nat i)) (\<lambda>r.
          case fn_dequantize_row (quantize_fns e (ty a)) of
            None \<Rightarrow> fail Bad_Deref
          | Some dequantize_row_q \<Rightarrow>
              sbind (row_ptr a nc (to_size r * nb a ! 1)) (\<lambda>x.
              sbind (row_ptr dst nc (to_size i * nb dst ! 1)) (\<lambda>y.
              modify (dequantize_row_q nc x y))))))"

definition ne_compute_forward_get_rows :: "qenv \<Rightarrow> ne_compute_params \<Rightarrow> ne_tensor \<Rightarrow> ne_tensor \<Rightarrow> ne_tensor \<Rightarrow> kop" where
  "ne_compute_forward_get_rows e ps a b dst =
     (if ty a \<in> {NE_TYPE_Q4_0, NE_TYPE_Q4_1, NE_TYPE_Q5_0, NE_TYPE_Q5_1, NE_TYPE_Q8_0, NE_TYPE_Q8_1}
      then ne_compute_forward_get_rows_q e ps a b dst
      else case ty a of
        NE_TYPE_F16 \<Rightarrow> ne_compute_forward_get_rows_f16 (q_fc e) ps a b dst
      | NE_TYPE_F32 \<Rightarrow> ne_compute_forward_get_rows_f32 ps a b dst
      | _ \<Rightarrow> fail NE_Assert)"

end
