(* ===== verification/NE_Mixed.thy ===== *)
theory NE_Mixed
  imports NE_Rows
begin

text \<open>
  Kernels of \<^verbatim>\<open>core/ne_layers.c\<close> on half-precision and quantized tensors (\<^verbatim>\<open>ne_compute_forward_add\<close>,
  \<^verbatim>\<open>ne_compute_forward_add1\<close>), the Gaussian error unit and the linear position bias of attention scores.
\<close>

section \<open>Functions of the math library\<close>

record menv =
  m_renv :: renv
  f_pow :: "32 word \<Rightarrow> 32 word \<Rightarrow> 32 word"
  f_cos :: "32 word \<Rightarrow> 32 word"
  f_sin :: "32 word \<Rightarrow> 32 word"
  f_tanh :: "32 word \<Rightarrow> 32 word"
  floor_log2 :: "int \<Rightarrow> int"

abbreviation m_fa :: "menv \<Rightarrow> farith" where "m_fa e \<equiv> r_fa (m_renv e)"
abbreviation m_env :: "menv \<Rightarrow> qenv" where "m_env e \<equiv> r_env (m_renv e)"
abbreviation of_int64 :: "menv \<Rightarrow> int \<Rightarrow> 32 word" where "of_int64 e \<equiv> i64_to_f32 (m_renv e)"

definition f32_2 :: "32 word" where "f32_2 = 0x40000000"

section \<open>Addition on half precision\<close>

text \<open>The loop over the rows of a task, with the pointers of a row in tensors of the same shape.\<close>

definition add_rows :: "ne_compute_params \<Rightarrow> ne_tensor \<Rightarrow> (int \<times> int \<times> int \<Rightarrow> kop) \<Rightarrow> kop" where
  "add_rows ps a body =
     sbind (liftR (block_rows (ne_nrows a) (ith ps) (nth ps))) (\<lambda>rs.
     for_list rs (\<lambda>ir. sbind (liftR (row_index (ne a ! 1) (ne a ! 2) ir)) body))"

definition add_f16_rows :: "qenv \<Rightarrow> nat \<Rightarrow> (memory \<Rightarrow> ptr \<Rightarrow> nat \<Rightarrow> 32 word) \<Rightarrow> ne_compute_params \<Rightarrow> ne_tensor \<Rightarrow> ne_tensor \<Rightarrow> ne_tensor \<Rightarrow> kop" where
  "add_f16_rows e w rd ps a b dst =
     (let nc = nat (ne a ! 0) in
      sbind (liftR (cdiv (ne_nrows a + nth ps - 1) (nth ps))) (\<lambda>_.
      if nb b ! 0 = w then
        add_rows ps a (\<lambda>i.
          sbind (row_ptr dst nc (off3 (nb dst) i)) (\<lambda>z.
          sbind (row_ptr a nc (off3 (nb a) i)) (\<lambda>x.
          sbind (row_ptr b nc (off3 (nb b) i)) (\<lambda>y.
          modify (fold (\<lambda>k m. store16 (z + 2 * k) (to_f16 e (fadd e (of_f16 e (load16 m (x + 2 * k))) (rd m y k))) m) [0..<nc])))))
      else fail NE_Assert))"

definition add_f16_checks :: "ne_type \<Rightarrow> ne_tensor \<Rightarrow> ne_tensor \<Rightarrow> ne_tensor \<Rightarrow> kop" where
  "add_f16_checks tb a b dst =
     sseq (ne_assert (ty a = NE_TYPE_F16))
    (sseq (ne_assert (ty b = tb))
    (sseq (ne_assert (ty dst = NE_TYPE_F16))
    (sseq (ne_assert (nb dst ! 0 = 2))
          (ne_assert (nb a ! 0 = 2)))))"

definition ne_compute_forward_add_f16_f32 :: "qenv \<Rightarrow> ne_compute_params \<Rightarrow> ne_tensor \<Rightarrow> ne_tensor \<Rightarrow> ne_tensor \<Rightarrow> kop" where
  "ne_compute_forward_add_f16_f32 e ps a b dst =
     sseq (ne_assert (ne_are_same_shape a b \<and> ne_are_same_shape a dst))
    (if is_init_or_finalize ps then ret ()
     else sseq (add_f16_checks NE_TYPE_F32 a b dst)
       (add_f16_rows e 4 (\<lambda>m y k. load32 m (y + 4 * k)) ps a b dst))"

definition ne_compute_forward_add_f16_f16 :: "qenv \<Rightarrow> ne_compute_params \<Rightarrow> ne_tensor \<Rightarrow> ne_tensor \<Rightarrow> ne_tensor \<Rightarrow> kop" where
  "ne_compute_forward_add_f16_f16 e ps a b dst =
     sseq (ne_assert (ne_are_same_shape a b \<and> ne_are_same_shape a dst))
    (if is_init_or_finalize ps then ret ()
     else sseq (add_f16_checks NE_TYPE_F16 a b dst)
       (add_f16_rows e 2 (\<lambda>m y k. of_f16 e (load16 m (y + 2 * k))) ps a b dst))"

section \<open>Addition on quantized tensors\<close>

text \<open>
  A row is unpacked into the slice of the work buffer that belongs to the task, changed there and
  packed again. The offset of a destination row takes \<^verbatim>\<open>nb0\<close> for the last dimension.
\<close>

definition q_slice :: "ne_compute_params \<Rightarrow> ne_tensor \<Rightarrow> nat" where
  "q_slice ps a = 4 * ((to_size (ne a ! 0) + CACHE_LINE_SIZE_F32) * to_size (ith ps))"

definition q_dst_off :: "ne_tensor \<Rightarrow> int \<times> int \<times> int \<Rightarrow> nat" where
  "q_dst_off dst i = (case i of (i1, i2, i3) \<Rightarrow>
     to_size i1 * nb dst ! 1 + to_size i2 * nb dst ! 2 + to_size i3 * nb dst ! 0)"

definition q_row :: "qenv \<Rightarrow> ne_compute_params \<Rightarrow> ne_tensor \<Rightarrow> ne_tensor \<Rightarrow> (ptr \<Rightarrow> kop) \<Rightarrow> int \<times> int \<times> int \<Rightarrow> kop" where
  "q_row e ps a dst change i =
     (let nc = nat (ne a ! 0) in
      case fn_dequantize_row (quantize_fns e (ty a)) of
        None \<Rightarrow> fail Bad_Deref
      | Some dequantize_row_q \<Rightarrow>
          sbind (row_ptr a nc (off3 (nb a) i)) (\<lambda>x.
          sbind (work_ptr ps nc (q_slice ps a)) (\<lambda>w.
          sbind (row_ptr dst nc (q_dst_off dst i)) (\<lambda>y.
          sseq (modify (dequantize_row_q nc x w))
         (sseq (change w)
         (case fn_quantize_row (quantize_fns e (ty a)) of
            None \<Rightarrow> fail Bad_Deref
          | Some quantize_row_q \<Rightarrow> modify (quantize_row_q nc w y)))))))"

definition q_checks :: "ne_tensor \<Rightarrow> ne_tensor \<Rightarrow> ne_tensor \<Rightarrow> kop" where
  "q_checks a b dst =
     sseq (ne_assert (nb dst ! 0 \<le> nb dst ! 1))
    (sseq (ne_assert (nb dst ! 1 \<le> nb dst ! 2))
    (sseq (ne_assert (nb dst ! 2 \<le> nb dst ! 3))
    (sseq (ne_assert (ne_is_quantized (ty a)))
    (sseq (ne_assert (ty dst = ty a))
          (ne_assert (ty b = NE_TYPE_F32))))))"

definition ne_compute_forward_add_q_f32 :: "qenv \<Rightarrow> ne_compute_params \<Rightarrow> ne_tensor \<Rightarrow> ne_tensor \<Rightarrow> ne_tensor \<Rightarrow> kop" where
  "ne_compute_forward_add_q_f32 e ps a b dst =
     sseq (ne_assert (ne_are_same_shape a b \<and> ne_are_same_shape a dst))
    (if is_init_or_finalize ps then ret ()
     else
       sseq (ne_assert (nb a ! 0 = NE_TYPE_SIZE (ty a)))
      (sseq (ne_assert (nb b ! 0 = 4))
      (sseq (q_checks a b dst)
      (add_rows ps a (\<lambda>i.
         sbind (row_ptr b (nat (ne a ! 0)) (off3 (nb b) i)) (\<lambda>y.
         q_row e ps a dst (\<lambda>w. modify (ne_vec_acc_f32 (q_fa e) (nat (ne a ! 0)) w y)) i))))))"

definition ne_compute_forward_add :: "qenv \<Rightarrow> ne_compute_params \<Rightarrow> ne_tensor \<Rightarrow> ne_tensor \<Rightarrow> ne_tensor \<Rightarrow> kop" where
  "ne_compute_forward_add e ps a b dst =
     (if ty a \<in> {NE_TYPE_Q4_0, NE_TYPE_Q4_1, NE_TYPE_Q5_0, NE_TYPE_Q5_1, NE_TYPE_Q8_0}
      then ne_compute_forward_add_q_f32 e ps a b dst
      else case ty a of
        NE_TYPE_F32 \<Rightarrow> ne_compute_forward_add_f32 (q_fa e) ps a b dst
      | NE_TYPE_F16 \<Rightarrow>
          if ty b = NE_TYPE_F16 then ne_compute_forward_add_f16_f16 e ps a b dst
          else if ty b = NE_TYPE_F32 then ne_compute_forward_add_f16_f32 e ps a b dst
          else fail NE_Assert
      | _ \<Rightarrow> fail NE_Assert)"

section \<open>Addition of a scalar\<close>

definition add1_f16 :: "qenv \<Rightarrow> ne_type \<Rightarrow> (memory \<Rightarrow> ptr \<Rightarrow> 32 word) \<Rightarrow> ne_compute_params \<Rightarrow> ne_tensor \<Rightarrow> ne_tensor \<Rightarrow> ne_tensor \<Rightarrow> kop" where
  "add1_f16 e tb rd ps a b dst =
     sseq (ne_assert (ne_are_same_shape a dst))
    (sseq (ne_assert (ne_is_scalar b))
    (if is_init_or_finalize ps then ret ()
     else
       let nc = nat (ne a ! 0) in
       sbind (row_ptr b 1 0) (\<lambda>p.
       sbind (gets (\<lambda>m. rd m p)) (\<lambda>v.
       sseq (add_f16_checks tb a b dst)
      (add_rows ps a (\<lambda>i.
         sbind (row_ptr dst nc (off3 (nb dst) i)) (\<lambda>z.
         sbind (row_ptr a nc (off3 (nb a) i)) (\<lambda>x.
         modify (fold (\<lambda>k m. store16 (z + 2 * k) (to_f16 e (fadd e (of_f16 e (load16 m (x + 2 * k))) v)) m) [0..<nc])))))))))"

definition ne_compute_forward_add1_f16_f32 :: "qenv \<Rightarrow> ne_compute_params \<Rightarrow> ne_tensor \<Rightarrow> ne_tensor \<Rightarrow> ne_tensor \<Rightarrow> kop" where
  "ne_compute_forward_add1_f16_f32 e = add1_f16 e NE_TYPE_F32 load32"

definition ne_compute_forward_add1_f16_f16 :: "qenv \<Rightarrow> ne_compute_params \<Rightarrow> ne_tensor \<Rightarrow> ne_tensor \<Rightarrow> ne_tensor \<Rightarrow> kop" where
  "ne_compute_forward_add1_f16_f16 e = add1_f16 e NE_TYPE_F16 (\<lambda>m p. of_f16 e (load16 m p))"

definition ne_vec_acc1_f32 :: "farith \<Rightarrow> nat \<Rightarrow> ptr \<Rightarrow> 32 word \<Rightarrow> memory \<Rightarrow> memory" where
  "ne_vec_acc1_f32 fa n y v = vec_map1 (\<lambda>a. f_add fa a v) n y y"

definition ne_compute_forward_add1_q_f32 :: "qenv \<Rightarrow> ne_compute_params \<Rightarrow> ne_tensor \<Rightarrow> ne_tensor \<Rightarrow> ne_tensor \<Rightarrow> kop" where
  "ne_compute_forward_add1_q_f32 e ps a b dst =
     sseq (ne_assert (ne_are_same_shape a dst))
    (sseq (ne_assert (ne_is_scalar b))
    (if is_init_or_finalize ps then ret ()
     else
       sbind (row_ptr b 1 0) (\<lambda>p.
       sbind (gets (\<lambda>m. load32 m p)) (\<lambda>v.
       sseq (ne_assert (nb a ! 0 = NE_TYPE_SIZE (ty a)))
      (sseq (q_checks a b dst)
      (add_rows ps a (q_row e ps a dst (\<lambda>w. modify (ne_vec_acc1_f32 (q_fa e) (nat (ne a ! 0)) w v)))))))))"

definition ne_compute_forward_add1 :: "qenv \<Rightarrow> ne_compute_params \<Rightarrow> ne_tensor \<Rightarrow> ne_tensor \<Rightarrow> ne_tensor \<Rightarrow> kop" where
  "ne_compute_forward_add1 e ps a b dst =
     (if ty a \<in> {NE_TYPE_Q4_0, NE_TYPE_Q4_1, NE_TYPE_Q5_0, NE_TYPE_Q5_1, NE_TYPE_Q8_0, NE_TYPE_Q8_1}
      then ne_compute_forward_add1_q_f32 e ps a b dst
      else case ty a of
        NE_TYPE_F32 \<Rightarrow> ne_compute_forward_add1_f32 (q_fa e) ps a b dst
      | NE_TYPE_F16 \<Rightarrow>
          if ty b = NE_TYPE_F16 then ne_compute_forward_add1_f16_f16 e ps a b dst
          else if ty b = NE_TYPE_F32 then ne_compute_forward_add1_f16_f32 e ps a b dst
          else fail NE_Assert
      | _ \<Rightarrow> fail NE_Assert)"

section \<open>Gaussian error unit\<close>

definition GELU_COEF_A :: "32 word" where "GELU_COEF_A = 0x3D372713"
definition SQRT_2_OVER_PI :: "32 word" where "SQRT_2_OVER_PI = 0x3F4C422A"

definition ne_gelu_f32 :: "menv \<Rightarrow> 32 word \<Rightarrow> 32 word" where
  "ne_gelu_f32 e x =
     (let fa = m_fa e; g = f_mul fa (f_mul fa SQRT_2_OVER_PI x) (f_add fa f32_1 (f_mul fa (f_mul fa GELU_COEF_A x) x)) in
      f_mul fa (f_mul fa f32_half x) (f_add fa f32_1 (f_tanh e g)))"

definition ne_vec_gelu_f32 :: "menv \<Rightarrow> nat \<Rightarrow> ptr \<Rightarrow> ptr \<Rightarrow> memory \<Rightarrow> memory" where
  "ne_vec_gelu_f32 e = vec_map1 (ne_gelu_f32 e)"

definition ne_compute_forward_gelu_f32 :: "menv \<Rightarrow> ne_compute_params \<Rightarrow> ne_tensor \<Rightarrow> ne_tensor \<Rightarrow> kop" where
  "ne_compute_forward_gelu_f32 e ps a dst =
     sseq (ne_assertR (ne_is_contiguous a))
    (sseq (ne_assertR (ne_is_contiguous dst))
    (sseq (ne_assert (ne_are_same_shape a dst))
    (if is_init_or_finalize ps then ret ()
     else
       let nc = nat (to_int32 (ne a ! 0)) in
       sbind (liftR (block_rows (ne_nrows a) (ith ps) (nth ps))) (\<lambda>rs.
       for_list rs (\<lambda>i1.
         sbind (row_ptr a nc (to_size i1 * nb a ! 1)) (\<lambda>x.
         sbind (row_ptr dst nc (to_size i1 * nb dst ! 1)) (\<lambda>y.
         modify (ne_vec_gelu_f32 e nc y x))))))))"

definition ne_compute_forward_gelu :: "menv \<Rightarrow> ne_compute_params \<Rightarrow> ne_tensor \<Rightarrow> ne_tensor \<Rightarrow> kop" where
  "ne_compute_forward_gelu e ps a dst = switch_f32 a (ne_compute_forward_gelu_f32 e ps a dst)"

section \<open>Linear position bias\<close>

text \<open>The slope of head \<open>k\<close>; \<^verbatim>\<open>n_heads_log2_floor\<close> is the largest power of two below the number of heads.\<close>

definition alibi_slope :: "menv \<Rightarrow> int \<Rightarrow> 32 word \<Rightarrow> int \<Rightarrow> 32 word" where
  "alibi_slope e n_head max_bias k =
     (let n_heads_log2_floor = to_int32 (2 ^ nat (floor_log2 e n_head));
          m0 = f_pow e f32_2 (f_div (m_fa e) (f_neg max_bias) (of_int64 e n_heads_log2_floor));
          m1 = f_pow e f32_2 (f_div (m_fa e) (f_neg (f_div (m_fa e) max_bias f32_2)) (of_int64 e n_heads_log2_floor)) in
      if k < n_heads_log2_floor then f_pow e m0 (of_int64 e (k + 1))
      else f_pow e m1 (of_int64 e (2 * (k - n_heads_log2_floor) + 1)))"

definition alibi_loop :: "menv \<Rightarrow> (memory \<Rightarrow> ptr \<Rightarrow> 32 word) \<Rightarrow> ne_tensor \<Rightarrow> ne_tensor \<Rightarrow> int \<Rightarrow> int \<Rightarrow> 32 word \<Rightarrow> kop" where
  "alibi_loop e rd a dst ne2_ne3 n_head max_bias =
     (let ne0 = to_int32 (ne a ! 0); ne1 = to_int32 (ne a ! 1) in
      for_list [0 .. ne0 - 1] (\<lambda>i. for_list [0 .. ne1 - 1] (\<lambda>j. for_list [0 .. ne2_ne3 - 1] (\<lambda>k.
        let off = to_size i * nb a ! 0 + to_size j * nb a ! 1 + to_size k * nb a ! 2 in
        sbind (row_ptr a 1 off) (\<lambda>src.
        sbind (row_ptr dst 1 off) (\<lambda>pdst.
        modify (\<lambda>m. store32 pdst (f_add (m_fa e)
          (f_mul (m_fa e) (of_int64 e (i - ne0 + 1)) (alibi_slope e n_head max_bias k)) (rd m src)) m)))))))"

definition ne_compute_forward_alibi_f32 :: "menv \<Rightarrow> ne_compute_params \<Rightarrow> ne_tensor \<Rightarrow> ne_tensor \<Rightarrow> ne_tensor \<Rightarrow> kop" where
  "ne_compute_forward_alibi_f32 e ps a b dst =
     (if is_init_or_finalize ps then ret ()
      else
        sbind (read_i32 b 0) (\<lambda>n_past.
        sbind (read_i32 b 1) (\<lambda>n_head.
        sbind (row_ptr b 1 0) (\<lambda>p. sbind (gets (\<lambda>m. load32 m (p + 8))) (\<lambda>max_bias.
        sbind (liftR (cdiv (ne_nrows a) (to_int32 (ne a ! 1)))) (\<lambda>ne2_ne3.
        alibi_loop e load32 a dst ne2_ne3 n_head max_bias))))))"

definition ne_compute_forward_alibi_f16 :: "menv \<Rightarrow> ne_compute_params \<Rightarrow> ne_tensor \<Rightarrow> ne_tensor \<Rightarrow> ne_tensor \<Rightarrow> kop" where
  "ne_compute_forward_alibi_f16 e ps a b dst =
     (if is_init_or_finalize ps then ret ()
      else
        sbind (read_i32 b 0) (\<lambda>n_past.
        sbind (read_i32 b 1) (\<lambda>n_head.
        sbind (row_ptr b 1 0) (\<lambda>p. sbind (gets (\<lambda>m. load32 m (p + 8))) (\<lambda>max_bias.
        sbind (liftR (cdiv (ne_nrows a) (to_int32 (ne a ! 1)))) (\<lambda>ne2_ne3.
        sseq (ne_assert (ne a ! 3 = 1))
          (alibi_loop e (\<lambda>m q. of_f16 (m_env e) (load16 m q)) a dst ne2_ne3 n_head max_bias)))))))"

text \<open>The types that the switch does not name fall through.\<close>

definition ne_compute_forward_alibi :: "menv \<Rightarrow> ne_compute_params \<Rightarrow> ne_tensor \<Rightarrow> ne_tensor \<Rightarrow> ne_tensor \<Rightarrow> kop" where
  "ne_compute_forward_alibi e ps a b dst =
     (if ty a = NE_TYPE_F16 then ne_compute_forward_alibi_f16 e ps a b dst
      else if ty a = NE_TYPE_F32 then ne_compute_forward_alibi_f32 e ps a b dst
      else if ty a \<in> {NE_TYPE_Q4_0, NE_TYPE_Q4_1, NE_TYPE_Q5_0, NE_TYPE_Q5_1, NE_TYPE_Q8_0, NE_TYPE_Q8_1,
        NE_TYPE_I8, NE_TYPE_I16, NE_TYPE_I32, NE_TYPE_COUNT} then fail NE_Assert
      else ret ())"

end
