(* ===== verification/NE_Rope.thy ===== *)
theory NE_Rope
  imports NE_Mixed
begin

text \<open>
  Rotary position embedding (\<^verbatim>\<open>ne_compute_forward_rope\<close> and its inverse \<^verbatim>\<open>ne_compute_forward_rope_back\<close> in
  \<^verbatim>\<open>core/ne_layers.c\<close>). Pairs of elements of a row are turned by an angle that depends on the position of
  the row and shrinks along it. The tasks count the rows they pass and leave those of the others.
\<close>

section \<open>Rows\<close>

text \<open>
  One level of the loops with the counter \<^verbatim>\<open>ir\<close>: \<^verbatim>\<open>if (ir++ < ir0) continue; if (ir > ir1) break;\<close>. The break
  leaves the loop over the rows of a plane only; the counter is past \<^verbatim>\<open>ir1\<close> then.
\<close>

primrec rope_i1 :: "int \<Rightarrow> int \<Rightarrow> (int \<Rightarrow> kop) \<Rightarrow> int list \<Rightarrow> int \<Rightarrow> (memory, int) op" where
  "rope_i1 ir0 ir1 body [] ir = ret ir"
| "rope_i1 ir0 ir1 body (i1 # is) ir =
     (if ir < ir0 then rope_i1 ir0 ir1 body is (ir + 1)
      else if ir1 < ir + 1 then ret (ir + 1)
      else sseq (body i1) (rope_i1 ir0 ir1 body is (ir + 1)))"

primrec rope_planes :: "int \<Rightarrow> int \<Rightarrow> (int \<times> int \<times> int \<Rightarrow> kop) \<Rightarrow> int list \<Rightarrow> (int \<times> int) list \<Rightarrow> int \<Rightarrow> (memory, int) op" where
  "rope_planes ir0 ir1 body i1s [] ir = ret ir"
| "rope_planes ir0 ir1 body i1s (p # pl) ir =
     (case p of (i2, i3) \<Rightarrow>
        sbind (rope_i1 ir0 ir1 (\<lambda>i1. body (i1, i2, i3)) i1s ir) (rope_planes ir0 ir1 body i1s pl))"

definition plane_list :: "int \<Rightarrow> ne_tensor \<Rightarrow> (int \<times> int) list" where
  "plane_list start dst = concat (map (\<lambda>i3. map (\<lambda>i2. (i2, i3)) [start .. ne dst ! 2 - 1]) [0 .. ne dst ! 3 - 1])"

definition rope_rows :: "ne_compute_params \<Rightarrow> int \<Rightarrow> ne_tensor \<Rightarrow> (int \<times> int \<times> int \<Rightarrow> kop) \<Rightarrow> kop" where
  "rope_rows ps start dst body =
     sbind (liftR (cdiv (ne_nrows dst + nth ps - 1) (nth ps))) (\<lambda>dr.
     let ir0 = dr * ith ps; ir1 = min (ir0 + dr) (ne_nrows dst) in
     sbind (rope_planes ir0 ir1 body [0 .. ne dst ! 1 - 1] (plane_list start dst) 0) (\<lambda>_. ret ()))"

text \<open>\<^verbatim>\<open>&((T*)t->data)[...]\<close> for element \<open>i0\<close> of a row.\<close>

definition cell :: "ne_tensor \<Rightarrow> int \<times> int \<times> int \<Rightarrow> int \<Rightarrow> (memory, ptr) op" where
  "cell t i i0 = row_ptr t 1 (off3 (nb t) i + to_size i0 * nb t ! 0)"

text \<open>The first elements of the pairs, in steps of two.\<close>

definition evens :: "int \<Rightarrow> int list" where
  "evens n = map (\<lambda>k. 2 * int k) [0..<nat ((n + 1) div 2)]"

section \<open>Turning a pair\<close>

text \<open>
  The elements at \<open>src\<close> and \<open>src + d\<close> are turned and go to \<open>dst\<close> and \<open>dst + d\<close>; both are read before the
  first is written.
\<close>

record pair_io =
  get :: "memory \<Rightarrow> ptr \<Rightarrow> 32 word"
  put_at :: "ptr \<Rightarrow> 32 word \<Rightarrow> memory \<Rightarrow> memory"
  width :: nat

definition io_f32 :: pair_io where "io_f32 = \<lparr>get = load32, put_at = store32, width = 4\<rparr>"
definition io_f16 :: "qenv \<Rightarrow> pair_io" where
  "io_f16 e = \<lparr>get = (\<lambda>m p. of_f16 e (load16 m p)), put_at = (\<lambda>p v. store16 p (to_f16 e v)), width = 2\<rparr>"

definition turn_fwd :: "farith \<Rightarrow> 32 word \<Rightarrow> 32 word \<Rightarrow> 32 word \<Rightarrow> 32 word \<Rightarrow> 32 word \<times> 32 word" where
  "turn_fwd fa c s x0 x1 = (f_sub fa (f_mul fa x0 c) (f_mul fa x1 s), f_add fa (f_mul fa x0 s) (f_mul fa x1 c))"

definition turn_shift :: "farith \<Rightarrow> 32 word \<Rightarrow> 32 word \<Rightarrow> 32 word \<Rightarrow> 32 word \<Rightarrow> 32 word \<times> 32 word" where
  "turn_shift fa c s x0 x1 = (f_sub fa (f_mul fa x0 c) (f_mul fa x1 s), f_add fa (f_mul fa x1 c) (f_mul fa x0 s))"

definition turn_back :: "farith \<Rightarrow> 32 word \<Rightarrow> 32 word \<Rightarrow> 32 word \<Rightarrow> 32 word \<Rightarrow> 32 word \<times> 32 word" where
  "turn_back fa c s dy0 dy1 = (f_add fa (f_mul fa dy0 c) (f_mul fa dy1 s), f_add fa (f_mul fa (f_neg dy0) s) (f_mul fa dy1 c))"

definition turn_pair :: "pair_io \<Rightarrow> (32 word \<Rightarrow> 32 word \<Rightarrow> 32 word \<times> 32 word) \<Rightarrow> int \<Rightarrow> ptr \<Rightarrow> ptr \<Rightarrow> memory \<Rightarrow> memory" where
  "turn_pair io turn d y x m =
     (let k = nat d * width io; (v0, v1) = turn (get io m x) (get io m (x + k)) in put_at io (y + k) v1 (put_at io y v0 m))"

text \<open>\<^verbatim>\<open>theta\<close> is multiplied with \<^verbatim>\<open>theta_scale\<close> after every pair.\<close>

primrec turn_row :: "menv \<Rightarrow> 32 word \<Rightarrow> (32 word \<Rightarrow> 32 word \<Rightarrow> int \<Rightarrow> kop) \<Rightarrow> int list \<Rightarrow> 32 word \<Rightarrow> kop" where
  "turn_row e theta_scale turn [] theta = ret ()"
| "turn_row e theta_scale turn (i0 # is) theta =
     sseq (turn (f_cos e theta) (f_sin e theta) i0) (turn_row e theta_scale turn is (f_mul (m_fa e) theta theta_scale))"

definition turn_cells :: "pair_io \<Rightarrow> (32 word \<Rightarrow> 32 word \<Rightarrow> 32 word \<Rightarrow> 32 word \<Rightarrow> 32 word \<times> 32 word) \<Rightarrow> int \<Rightarrow>
   ne_tensor \<Rightarrow> ne_tensor \<Rightarrow> int \<times> int \<times> int \<Rightarrow> 32 word \<Rightarrow> 32 word \<Rightarrow> int \<Rightarrow> kop" where
  "turn_cells io turn d a dst i c s i0 =
     sbind (cell a i i0) (\<lambda>x. sbind (cell dst i i0) (\<lambda>y. modify (turn_pair io (turn c s) d y x)))"

text \<open>The positions \<^verbatim>\<open>ib * n_dims + ic / 2\<close> of the first elements in the layout of GPT-NeoX.\<close>

definition neox_starts :: "int \<Rightarrow> int \<Rightarrow> int list res" where
  "neox_starts ne0 nd =
     rbind (cdiv ne0 nd) (\<lambda>nblocks. Inr (concat (map (\<lambda>ib. map (\<lambda>ic. ib * nd + ic div 2) (evens nd)) [0 .. nblocks - 1])))"

definition rope_row :: "menv \<Rightarrow> pair_io \<Rightarrow> (32 word \<Rightarrow> 32 word \<Rightarrow> 32 word \<Rightarrow> 32 word \<Rightarrow> 32 word \<times> 32 word) \<Rightarrow> bool \<Rightarrow> int \<Rightarrow> 32 word \<Rightarrow>
   ne_tensor \<Rightarrow> ne_tensor \<Rightarrow> int \<times> int \<times> int \<Rightarrow> 32 word \<Rightarrow> kop" where
  "rope_row e io turn is_neox nd theta_scale a dst i theta =
     (if \<not> is_neox then turn_row e theta_scale (turn_cells io turn 1 a dst i) (evens (ne dst ! 0)) theta
      else sbind (liftR (neox_starts (ne dst ! 0) nd)) (\<lambda>starts.
        turn_row e theta_scale (turn_cells io turn (nd div 2) a dst i) starts theta))"

text \<open>The layout of GLM turns two pairs at a time, by the position and by the position inside the block.\<close>

primrec glm_row :: "menv \<Rightarrow> 32 word \<Rightarrow> int \<Rightarrow> ne_tensor \<Rightarrow> ne_tensor \<Rightarrow> int \<times> int \<times> int \<Rightarrow> int list \<Rightarrow> 32 word \<Rightarrow> 32 word \<Rightarrow> kop" where
  "glm_row e theta_scale nd a dst i [] theta block_theta = ret ()"
| "glm_row e theta_scale nd a dst i (i0 # is) theta block_theta =
     sseq (sbind (cell a i i0) (\<lambda>x. sbind (cell dst i i0) (\<lambda>y. modify (\<lambda>m.
       let fa = m_fa e; h = 4 * nat (nd div 2); d = 4 * nat nd; t = 4 * nat (nd div 2 * 3);
           (v0, v1) = turn_fwd fa (f_cos e theta) (f_sin e theta) (load32 m x) (load32 m (x + h));
           (v2, v3) = turn_fwd fa (f_cos e block_theta) (f_sin e block_theta) (load32 m (x + d)) (load32 m (x + t)) in
       store32 (y + t) v3 (store32 (y + d) v2 (store32 (y + h) v1 (store32 y v0 m)))))))
     (glm_row e theta_scale nd a dst i is (f_mul (m_fa e) theta theta_scale) (f_mul (m_fa e) block_theta theta_scale))"

section \<open>Kernels\<close>

definition f32_minus_2 :: "32 word" where "f32_minus_2 = 0xC0000000"
definition f32_10000 :: "32 word" where "f32_10000 = 0x461C4000"

definition rope_theta_scale :: "menv \<Rightarrow> 32 word \<Rightarrow> int \<Rightarrow> 32 word" where
  "rope_theta_scale e freq_base nd = f_pow e freq_base (f_div (m_fa e) f32_minus_2 (of_int64 e nd))"

definition ROPE_PARAMS_NUM :: nat where "ROPE_PARAMS_NUM = 5"

definition glm_thetas :: "ne_tensor \<Rightarrow> int \<Rightarrow> int \<Rightarrow> int \<Rightarrow> (memory, int \<times> int) op" where
  "glm_thetas b prompt_size p i3 =
     sbind (read_i32 b (ROPE_PARAMS_NUM + nat i3)) (\<lambda>n_padding.
     ret (min (max (p - n_padding) 0) (prompt_size - 2 - n_padding), max (p - (prompt_size - 2)) 0))"

definition ne_compute_forward_rope_f32 :: "menv \<Rightarrow> ne_compute_params \<Rightarrow> ne_tensor \<Rightarrow> ne_tensor \<Rightarrow> ne_tensor \<Rightarrow> kop" where
  "ne_compute_forward_rope_f32 e ps a b dst =
     (if is_init_or_finalize ps then ret ()
      else
        let bs = to_int32 (ne a ! 3); freq_base = op_params dst ! 0; freq_scale = f_div (m_fa e) f32_1 (op_params dst ! 1) in
        sseq (ne_assert (ty b = NE_TYPE_I32))
       (sseq (ne_assert (ne_nelements b = 5 + bs))
       (sbind (read_i32 b 0) (\<lambda>n_past. sbind (read_i32 b 1) (\<lambda>nd. sbind (read_i32 b 2) (\<lambda>mode.
        sbind (read_i32 b 3) (\<lambda>prompt_size. sbind (read_i32 b 4) (\<lambda>n_keep.
        sseq (ne_assert (nb a ! 0 = 4))
       (sseq (ne_assert (nd \<le> ne dst ! 0))
       (sseq (ne_assert (even nd))
       (sbind (liftR (cdiv (ne_nrows dst + nth ps - 1) (nth ps))) (\<lambda>_.
        let theta_scale = rope_theta_scale e freq_base nd; skip = bit mode 0; is_neox = bit mode 1; is_glm = bit mode 2 in
        sseq (ne_assert (\<not> 0 \<le> n_keep))
       (sseq (ne_assert (ne dst ! 3 = bs))
       (rope_rows ps (if skip then n_past else 0) dst (\<lambda>(i1, i2, i3).
          let p = (if skip then i2 else n_past + i2) in
          if is_glm then
            sbind (glm_thetas b prompt_size p i3) (\<lambda>(theta, block_theta).
            glm_row e theta_scale nd a dst (i1, i2, i3) [0 .. ne dst ! 0 div 4 - 1] (of_int64 e theta) (of_int64 e block_theta))
          else rope_row e io_f32 (turn_fwd (m_fa e)) is_neox nd theta_scale a dst (i1, i2, i3)
            (f_mul (m_fa e) freq_scale (of_int64 e p)))))))))))))))))"

text \<open>
  The table of cosines and sines of a shift: the data of \<^verbatim>\<open>opt[0]\<close> if there is one, otherwise filled here.
\<close>

primrec cossin_list :: "menv \<Rightarrow> 32 word \<Rightarrow> nat \<Rightarrow> 32 word \<Rightarrow> (16 word \<times> 16 word) list" where
  "cossin_list e theta_scale 0 theta = []"
| "cossin_list e theta_scale (Suc k) theta =
     (to_f16 (m_env e) (f_cos e theta), to_f16 (m_env e) (f_sin e theta)) # cossin_list e theta_scale k (f_mul (m_fa e) theta theta_scale)"

definition cossin_at :: "ne_tensor option \<Rightarrow> (16 word \<times> 16 word) list \<Rightarrow> memory \<Rightarrow> int \<Rightarrow> 16 word \<times> 16 word" where
  "cossin_at o0 table m i0 = (case o0 of
     Some t \<Rightarrow> if data t \<noteq> NULL then (load16 m (data t + 2 * nat i0), load16 m (data t + 2 * nat i0 + 2)) else table ! nat (i0 div 2)
   | None \<Rightarrow> table ! nat (i0 div 2))"

definition shift_row :: "menv \<Rightarrow> ne_tensor option \<Rightarrow> (16 word \<times> 16 word) list \<Rightarrow> int \<Rightarrow> ne_tensor \<Rightarrow> ne_tensor \<Rightarrow> int \<times> int \<times> int \<Rightarrow> kop" where
  "shift_row e o0 table n_keep a dst i =
     (if fst (snd i) < n_keep then ret ()
      else for_list (evens (ne dst ! 0)) (\<lambda>i0.
        sbind (cell a i i0) (\<lambda>x. sbind (cell dst i i0) (\<lambda>y.
        modify (\<lambda>m. case cossin_at o0 table m i0 of (c, s) \<Rightarrow>
          turn_pair (io_f16 (m_env e)) (turn_shift (m_fa e) (of_f16 (m_env e) c) (of_f16 (m_env e) s)) 1 y x m)))))"

definition ne_compute_forward_rope_f16 :: "menv \<Rightarrow> ne_compute_params \<Rightarrow> ne_tensor \<Rightarrow> ne_tensor \<Rightarrow> ne_tensor option \<Rightarrow> ne_tensor \<Rightarrow> kop" where
  "ne_compute_forward_rope_f16 e ps a b o0 dst =
     (if is_init_or_finalize ps then ret ()
      else
        sseq (ne_assert (ty b = NE_TYPE_I32))
       (sseq (ne_assert (ne_nelements b = 5))
       (sbind (read_i32 b 0) (\<lambda>n_past. sbind (read_i32 b 1) (\<lambda>nd. sbind (read_i32 b 2) (\<lambda>mode.
        sbind (read_i32 b 3) (\<lambda>prompt_size. sbind (read_i32 b 4) (\<lambda>n_keep.
        sseq (ne_assert (nb dst ! 0 = 2))
       (sseq (ne_assert (nd \<le> ne dst ! 0))
       (sseq (ne_assert (even nd))
       (sbind (liftR (cdiv (ne_nrows dst + nth ps - 1) (nth ps))) (\<lambda>_.
        let freq_base = op_params dst ! 0; freq_scale = f_div (m_fa e) f32_1 (op_params dst ! 1);
            theta_scale = rope_theta_scale e freq_base nd; skip = bit mode 0; is_neox = bit mode 1; is_glm = bit mode 2;
            is_shift = (0 \<le> n_keep) in
        sseq (ne_assert (\<not> is_glm))
       (sseq (ne_assert (\<not> is_shift \<or> \<not> (is_glm \<or> is_neox \<or> skip)))
       (if is_shift then
          let table = cossin_list e theta_scale (length (evens (ne dst ! 0))) (f_mul (m_fa e) (of_int64 e n_past) freq_scale) in
          rope_rows ps 0 dst (shift_row e o0 table n_keep a dst)
        else
          rope_rows ps (if skip then n_past else 0) dst (\<lambda>(i1, i2, i3).
            rope_row e (io_f16 (m_env e)) (turn_fwd (m_fa e)) is_neox nd theta_scale a dst (i1, i2, i3)
              (f_mul (m_fa e) freq_scale (of_int64 e (if skip then i2 else n_past + i2))))))))))))))))))"

text \<open>
  Keys in the layout of the library are only shifted, by the library.
\<close>

type_synonym bestla_shift_rope = "ptr \<Rightarrow> (memory \<Rightarrow> int \<Rightarrow> 16 word \<times> 16 word) \<Rightarrow> int \<Rightarrow> int \<Rightarrow> int \<Rightarrow> int \<Rightarrow> int \<Rightarrow> memory \<Rightarrow> memory"

definition ne_compute_forward_rope_bestla ::
  "bestla_shift_rope \<Rightarrow> menv \<Rightarrow> ne_compute_params \<Rightarrow> ne_tensor \<Rightarrow> ne_tensor \<Rightarrow> ne_tensor option \<Rightarrow> ne_tensor \<Rightarrow> kop" where
  "ne_compute_forward_rope_bestla bestla_reordered_attn_fp32_shift_rope_k e ps a b o0 dst =
     (if is_init_or_finalize ps then ret ()
      else
        sseq (ne_assert (nth ps = 1))
       (sseq (ne_assert (ty b = NE_TYPE_I32))
       (sseq (ne_assert (ne_nelements b = 5))
       (sbind (read_i32 b 0) (\<lambda>n_past. sbind (read_i32 b 1) (\<lambda>nd. sbind (read_i32 b 2) (\<lambda>mode.
        sbind (read_i32 b 3) (\<lambda>prompt_size. sbind (read_i32 b 4) (\<lambda>n_keep.
        let skip = bit mode 0; is_neox = bit mode 1; is_glm = bit mode 2; is_shift = (0 \<le> n_keep);
            batch_size = to_int32 (ne dst ! 3); head_num = to_int32 (ne dst ! 2); seq_len = to_int32 (ne dst ! 1);
            head_size = to_int32 (ne dst ! 0);
            freq_base = op_params dst ! 0; freq_scale = f_div (m_fa e) f32_1 (op_params dst ! 1) in
        sseq (ne_assert (\<not> is_glm))
       (sseq (ne_assert (\<not> is_shift \<or> \<not> (is_glm \<or> is_neox \<or> skip)))
       (if is_shift then
          let table = cossin_list e (rope_theta_scale e freq_base nd) (length (evens head_size)) (f_mul (m_fa e) (of_int64 e n_past) freq_scale) in
          modify (bestla_reordered_attn_fp32_shift_rope_k (data dst) (cossin_at o0 table) batch_size head_num head_size seq_len n_keep)
        else fail NE_Assert)))))))))))"

definition ne_compute_forward_rope ::
  "bestla_shift_rope \<Rightarrow> menv \<Rightarrow> ne_compute_params \<Rightarrow> ne_tensor \<Rightarrow> ne_tensor \<Rightarrow> ne_tensor option \<Rightarrow> ne_tensor \<Rightarrow> kop" where
  "ne_compute_forward_rope shift e ps a b o0 dst = (case ty a of
     NE_TYPE_F16 \<Rightarrow> ne_compute_forward_rope_f16 e ps a b o0 dst
   | NE_TYPE_F32 \<Rightarrow> ne_compute_forward_rope_f32 e ps a b dst
   | NE_TYPE_BTLA \<Rightarrow> ne_compute_forward_rope_bestla shift e ps a b o0 dst
   | _ \<Rightarrow> fail NE_Assert)"

definition rope_back :: "menv \<Rightarrow> pair_io \<Rightarrow> ne_compute_params \<Rightarrow> ne_tensor \<Rightarrow> ne_tensor \<Rightarrow> ne_tensor \<Rightarrow> kop" where
  "rope_back e io ps a b dst =
     (if is_init_or_finalize ps then ret ()
      else
        sbind (read_i32 b 0) (\<lambda>n_past. sbind (read_i32 b 1) (\<lambda>nd. sbind (read_i32 b 2) (\<lambda>mode.
        let theta_scale = rope_theta_scale e f32_10000 nd; skip = bit mode 0 in
        rope_rows ps (if \<not> skip then 0 else n_past) dst (\<lambda>(i1, i2, i3).
          rope_row e io (turn_back (m_fa e)) (bit mode 1) nd theta_scale a dst (i1, i2, i3)
            (of_int64 e (if \<not> skip then n_past + i2 else i2)))))))"

definition ne_compute_forward_rope_back_f32 :: "menv \<Rightarrow> ne_compute_params \<Rightarrow> ne_tensor \<Rightarrow> ne_tensor \<Rightarrow> ne_tensor \<Rightarrow> kop" where
  "ne_compute_forward_rope_back_f32 e = rope_back e io_f32"

definition ne_compute_forward_rope_back_f16 :: "menv \<Rightarrow> ne_compute_params \<Rightarrow> ne_tensor \<Rightarrow> ne_tensor \<Rightarrow> ne_tensor \<Rightarrow> kop" where
  "ne_compute_forward_rope_back_f16 e = rope_back e (io_f16 (m_env e))"

definition ne_compute_forward_rope_back :: "menv \<Rightarrow> ne_compute_params \<Rightarrow> ne_tensor \<Rightarrow> ne_tensor \<Rightarrow> ne_tensor \<Rightarrow> kop" where
  "ne_compute_forward_rope_back e ps a b dst = (case ty a of
     NE_TYPE_F16 \<Rightarrow> ne_compute_forward_rope_back_f16 e ps a b dst
   | NE_TYPE_F32 \<Rightarrow> ne_compute_forward_rope_back_f32 e ps a b dst
   | _ \<Rightarrow> fail NE_Assert)"

end
