(* ===== verification/NE_Fused.thy ===== *)
theory NE_Fused
  imports NE_Rope
begin

text \<open>
  Kernels of \<^verbatim>\<open>core/ne_layers.c\<close> that prepare a call of the BesTLA library: fused products and feed-forward
  layers, attention and the update of its caches. The library is a parameter: a function on the memory
  for each entry point. The feed-forward kernel on half precision and the padding mask are computed here.
\<close>

section \<open>Fused products\<close>

type_synonym lib = "memory \<Rightarrow> memory"

record bestla =
  bestla_f32f32_forward :: bestla_gemm
  bestla_fusion_add_f32f32_forward :: "ptr \<Rightarrow> ptr \<Rightarrow> ptr \<Rightarrow> ptr \<Rightarrow> int \<Rightarrow> int \<Rightarrow> int \<Rightarrow> int \<Rightarrow> int \<Rightarrow> bool \<Rightarrow> ptr \<Rightarrow> lib"
  bestla_fusion_QKV_f32f32_forward :: "ptr \<Rightarrow> ptr \<Rightarrow> ptr \<Rightarrow> ptr \<Rightarrow> ptr \<Rightarrow> int \<Rightarrow> int \<Rightarrow> int \<Rightarrow> int \<Rightarrow> int \<Rightarrow> ptr \<Rightarrow> lib"
  bestla_fusion_FFN_SiLu_f32f32_forward :: "ptr \<Rightarrow> ptr \<Rightarrow> ptr \<Rightarrow> ptr \<Rightarrow> ptr \<Rightarrow> ptr \<Rightarrow> ptr \<Rightarrow> int \<Rightarrow> int \<Rightarrow> int \<Rightarrow> int \<Rightarrow> ptr \<Rightarrow> lib"
  bestla_fusion_FFN_Add_GeLu_f32f32_forward ::
    "ptr \<Rightarrow> ptr \<Rightarrow> ptr \<Rightarrow> ptr \<Rightarrow> ptr \<Rightarrow> ptr \<Rightarrow> ptr \<Rightarrow> int \<Rightarrow> int \<Rightarrow> int \<Rightarrow> int \<Rightarrow> bool \<Rightarrow> ptr \<Rightarrow> lib"
  bestla_fusion_FFN_GeLu_f32f32_forward :: "ptr \<Rightarrow> ptr \<Rightarrow> ptr \<Rightarrow> ptr \<Rightarrow> ptr \<Rightarrow> int \<Rightarrow> int \<Rightarrow> int \<Rightarrow> int \<Rightarrow> ptr \<Rightarrow> lib"

definition ne_compute_forward_mul_mat_bias_q_f32_bestla ::
  "bestla \<Rightarrow> ne_compute_params \<Rightarrow> ne_tensor \<Rightarrow> ne_tensor \<Rightarrow> ne_tensor \<Rightarrow> ne_tensor \<Rightarrow> kop" where
  "ne_compute_forward_mul_mat_bias_q_f32_bestla l ps a b bias dst =
     sseq (ne_assert (ne a ! 2 = ne b ! 2))
    (sseq (ne_assert (ne a ! 3 = ne b ! 3))
    (sseq (ne_assert (ne dst ! 2 = ne b ! 2))
    (sseq (ne_assert (ne dst ! 3 = ne b ! 3))
    (sseq (ne_assert (nb a ! 0 = NE_TYPE_SIZE (ty a)))
    (sseq (ne_assert (nb b ! 0 = 4))
    (sseq (mul_mat_dst dst)
    (sseq (ne_assert (ne dst ! 0 = ne a ! 1))
    (sseq (ne_assert (ne dst ! 1 = ne b ! 1))
    (sseq (ne_assert (ne dst ! 2 = ne a ! 2))
    (sseq (ne_assert (ne dst ! 3 = ne a ! 3))
    (if is_init_or_finalize ps then ret ()
     else
       let broadcast_bias = (ne bias ! 1 = 1) in
       modify (bestla_fusion_add_f32f32_forward l (data b) (data a) (data bias) (data dst) (to_int32 (ne dst ! 1))
         (to_int32 (ne dst ! 0)) (to_int32 (ne b ! 0)) (to_int32 (ne b ! 0)) (to_int32 (ne dst ! 0)) broadcast_bias (wdata ps)))))))))))))"

definition ne_compute_forward_mul_mat_bias ::
  "bestla \<Rightarrow> ne_compute_params \<Rightarrow> ne_tensor \<Rightarrow> ne_tensor \<Rightarrow> ne_tensor \<Rightarrow> ne_tensor \<Rightarrow> kop" where
  "ne_compute_forward_mul_mat_bias l ps a b bias dst =
     (if ty a = NE_TYPE_BTLA then ne_compute_forward_mul_mat_bias_q_f32_bestla l ps a b bias dst else fail NE_Assert)"

definition ne_compute_forward_mul_qkv ::
  "bestla \<Rightarrow> ne_compute_params \<Rightarrow> ne_tensor \<Rightarrow> ne_tensor \<Rightarrow> ne_tensor \<Rightarrow> ne_tensor \<Rightarrow> ne_tensor \<Rightarrow> kop" where
  "ne_compute_forward_mul_qkv l ps src qw kw vw dst =
     (if is_init_or_finalize ps then ret ()
      else
        let n = to_int32 (ne dst ! 0); m = to_int32 (ne dst ! 1); k = to_int32 (ne src ! 0) in
        modify (bestla_fusion_QKV_f32f32_forward l (data src) (data qw) (data kw) (data vw) (data dst) m n k k n (wdata ps)))"

definition ne_compute_forward_ffn_silu ::
  "bestla \<Rightarrow> ne_compute_params \<Rightarrow> ne_tensor \<Rightarrow> ne_tensor \<Rightarrow> ne_tensor \<Rightarrow> ne_tensor \<Rightarrow> ne_tensor \<Rightarrow> ne_tensor \<Rightarrow> ne_tensor \<Rightarrow> kop" where
  "ne_compute_forward_ffn_silu l ps src w1 w2 w3 tmp tmp1 dst =
     (if is_init_or_finalize ps then ret ()
      else
        let fin = to_int32 (ne src ! 0); fout = to_int32 (ne dst ! 0); fmid = to_int32 (ne w1 ! 1); seq = to_int32 (ne dst ! 1) in
        modify (bestla_fusion_FFN_SiLu_f32f32_forward l (data src) (data w1) (data w2) (data w3) (data tmp) (data tmp1) (data dst)
          seq fin fmid fout (wdata ps)))"

definition ne_compute_forward_ffn_add_gelu ::
  "bestla \<Rightarrow> ne_compute_params \<Rightarrow> ne_tensor \<Rightarrow> ne_tensor \<Rightarrow> ne_tensor \<Rightarrow> ne_tensor \<Rightarrow> ne_tensor \<Rightarrow> ne_tensor \<Rightarrow> ne_tensor \<Rightarrow> kop" where
  "ne_compute_forward_ffn_add_gelu l ps src w1 w2 b1 b2 tmp dst =
     (if is_init_or_finalize ps then ret ()
      else
        let fin = to_int32 (ne src ! 0); fout = to_int32 (ne dst ! 0); fmid = to_int32 (ne w1 ! 1); seq = to_int32 (ne dst ! 1);
            broadcast_bias = (ne b1 ! 1 = 1 \<or> ne b2 ! 1 = 1) in
        modify (bestla_fusion_FFN_Add_GeLu_f32f32_forward l (data src) (data w1) (data w2) (data b1) (data b2) (data tmp) (data dst)
          seq fin fmid fout broadcast_bias (wdata ps)))"

definition ne_compute_forward_ffn_gelu ::
  "bestla \<Rightarrow> ne_compute_params \<Rightarrow> ne_tensor \<Rightarrow> ne_tensor \<Rightarrow> ne_tensor \<Rightarrow> ne_tensor \<Rightarrow> ne_tensor \<Rightarrow> kop" where
  "ne_compute_forward_ffn_gelu l ps src w1 w2 tmp dst =
     (if is_init_or_finalize ps then ret ()
      else
        let fin = to_int32 (ne src ! 0); fout = to_int32 (ne dst ! 0); fmid = to_int32 (ne w1 ! 1); seq = to_int32 (ne dst ! 1) in
        modify (bestla_fusion_FFN_GeLu_f32f32_forward l (data src) (data w1) (data w2) (data tmp) (data dst) seq fin fmid fout (wdata ps)))"

section \<open>Attention\<close>

datatype ATTN_FWD_LAYOUT = ATTN_FWD_LAYOUT_PLAIN | ATTN_FWD_LAYOUT_NTILE48_ROWPACK4 | ATTN_FWD_LAYOUT_NTILE48_ROWPACK2

record attn_args =
  aQ :: ptr
  aK :: ptr
  aV :: ptr
  adst :: ptr
  atmp :: ptr
  QK_scale :: "32 word"
  attn_flags :: "32 word"
  a_batch_size :: int
  a_head_num :: int
  a_heads_kv :: int
  a_head_size :: int
  a_sl_q :: int
  a_sl_kv :: int
  K_layout :: ATTN_FWD_LAYOUT
  V_layout :: ATTN_FWD_LAYOUT
  step_q :: "int list"
  step_k :: "int list"
  step_v :: "int list"
  step_dst :: "int list"

text \<open>
  Scale and flags lie in the padding bytes of the node. The first kernel reads the flags as one \<^verbatim>\<open>bool\<close>,
  and takes the batch stride of the values from the keys.
\<close>

definition attn_scale :: "ne_tensor \<Rightarrow> 32 word" where "attn_scale dst = word32_at (padding dst) 0"
definition attn_flag_bool :: "ne_tensor \<Rightarrow> 32 word" where "attn_flag_bool dst = (if padding dst ! 4 = 0 then 0 else 1)"
definition attn_flag_word :: "ne_tensor \<Rightarrow> 32 word" where "attn_flag_word dst = word32_at (padding dst) 4"

definition steps :: "ne_tensor \<Rightarrow> ne_type \<Rightarrow> nat list \<Rightarrow> int list res" where
  "steps t type idx =
     (if NE_TYPE_SIZE type = 0 then Inl Div_Zero else Inr (map (\<lambda>i. to_int32 (int (nb t ! i div NE_TYPE_SIZE type))) idx))"

definition ne_compute_forward_flash_attn_f32_f16_f16 ::
  "(attn_args \<Rightarrow> lib) \<Rightarrow> ne_compute_params \<Rightarrow> ne_tensor \<Rightarrow> ne_tensor \<Rightarrow> ne_tensor \<Rightarrow> ne_tensor \<Rightarrow> ne_tensor \<Rightarrow> kop" where
  "ne_compute_forward_flash_attn_f32_f16_f16 bestla_fusion_attn_fp32_fp16_fp16_fp32_forward ps q k v tmp dst =
     (if is_init_or_finalize ps then ret ()
      else
        let headsize = ne q ! 0; headnum = ne q ! 2; embedsize = headnum * headsize; seq_cur = ne q ! 1 in
        sbind (liftR (steps k (ty k) [3, 2, 1, 0])) (\<lambda>ks.
        sbind (liftR (steps v (ty v) [2, 0])) (\<lambda>vs.
        sbind (liftR (steps k (ty v) [3])) (\<lambda>vb.
        modify (bestla_fusion_attn_fp32_fp16_fp16_fp32_forward \<lparr>aQ = data q, aK = data k, aV = data v, adst = data dst, atmp = data tmp,
          QK_scale = attn_scale dst, attn_flags = attn_flag_bool dst, a_batch_size = to_int32 (ne q ! 3), a_head_num = to_int32 headnum,
          a_heads_kv = to_int32 (ne k ! 2), a_head_size = to_int32 headsize, a_sl_q = to_int32 seq_cur, a_sl_kv = to_int32 (ne k ! 1),
          K_layout = ATTN_FWD_LAYOUT_PLAIN, V_layout = ATTN_FWD_LAYOUT_PLAIN,
          step_q = [to_int32 (seq_cur * embedsize), to_int32 headsize, to_int32 embedsize], step_k = ks, step_v = vb @ vs @ [1],
          step_dst = [to_int32 (seq_cur * embedsize), to_int32 headsize, to_int32 embedsize]\<rparr>)))))"

definition layout_of :: "nat \<Rightarrow> ATTN_FWD_LAYOUT" where
  "layout_of n = (if n mod 2 ^ 32 = 1 then ATTN_FWD_LAYOUT_NTILE48_ROWPACK4
     else if n mod 2 ^ 32 = 2 then ATTN_FWD_LAYOUT_NTILE48_ROWPACK2 else ATTN_FWD_LAYOUT_PLAIN)"

definition ne_compute_forward_flash_attn_reordered ::
  "(attn_args \<Rightarrow> lib) \<Rightarrow> ne_compute_params \<Rightarrow> ne_tensor \<Rightarrow> ne_tensor \<Rightarrow> ne_tensor \<Rightarrow> ne_tensor \<Rightarrow> ne_tensor \<Rightarrow> kop" where
  "ne_compute_forward_flash_attn_reordered bestla_reordered_attn_fp32_forward ps q k v tmp dst =
     (if task ps \<noteq> NE_TASK_COMPUTE then ret ()
      else
        sseq (ne_assert (ty k = NE_TYPE_BTLA \<and> ty v = NE_TYPE_BTLA))
       (sbind (liftR (steps q (ty q) [3, 2, 1])) (\<lambda>qs.
        sbind (liftR (steps dst (ty dst) [3, 1, 2])) (\<lambda>ds.
        modify (bestla_reordered_attn_fp32_forward \<lparr>aQ = data q, aK = data k, aV = data v, adst = data dst, atmp = data tmp,
          QK_scale = attn_scale dst, attn_flags = attn_flag_word dst, a_batch_size = to_int32 (ne q ! 3), a_head_num = to_int32 (ne q ! 2),
          a_heads_kv = to_int32 (ne k ! 2), a_head_size = to_int32 (ne q ! 0), a_sl_q = to_int32 (ne q ! 1), a_sl_kv = to_int32 (ne k ! 1),
          K_layout = layout_of (nb k ! 0), V_layout = layout_of (nb v ! 0), step_q = qs,
          step_k = [to_int32 (int (nb k ! 3)), to_int32 (int (nb k ! 2)), to_int32 (int (nb k ! 1)), 0],
          step_v = [to_int32 (int (nb v ! 3)), to_int32 (int (nb v ! 2)), 0, to_int32 (int (nb v ! 1))], step_dst = ds\<rparr>)))))"

definition ne_compute_forward_flash_attn ::
  "(attn_args \<Rightarrow> lib) \<Rightarrow> (attn_args \<Rightarrow> lib) \<Rightarrow> ne_compute_params \<Rightarrow> ne_tensor \<Rightarrow> ne_tensor \<Rightarrow> ne_tensor \<Rightarrow> ne_tensor \<Rightarrow> ne_tensor \<Rightarrow> kop" where
  "ne_compute_forward_flash_attn plain reordered ps q k v tmp dst =
     (if ty q = NE_TYPE_F32 then
        if ty k = NE_TYPE_F16 then ne_compute_forward_flash_attn_f32_f16_f16 plain ps q k v tmp dst
        else if ty k = NE_TYPE_BTLA \<and> ty v = NE_TYPE_BTLA then ne_compute_forward_flash_attn_reordered reordered ps q k v tmp dst
        else fail NE_Assert
      else fail NE_Assert)"

record kv_args =
  kv_src :: ptr
  kv_cache :: ptr
  kv_batch_size :: int
  kv_heads :: int
  kv_head_size :: int
  kv_seq_off :: int
  kv_seq_size :: int
  kv_seq_max :: int
  kv_steps :: "int list"
  kv_no_zeroing :: bool

definition ne_compute_forward_flash_attn_kv_update ::
  "(bool \<Rightarrow> kv_args \<Rightarrow> lib) \<Rightarrow> ne_compute_params \<Rightarrow> ne_tensor \<Rightarrow> ne_tensor \<Rightarrow> ne_tensor \<Rightarrow> kop" where
  "ne_compute_forward_flash_attn_kv_update bestla_reordered_attn_fp32_update ps cache cur o0 =
     (if task ps \<noteq> NE_TASK_COMPUTE then ret ()
      else
        sseq (ne_assert (ne_nelements o0 = 3))
       (sbind (read_i32 o0 0) (\<lambda>n_past. sbind (read_i32 o0 1) (\<lambda>is_v. sbind (read_i32 o0 2) (\<lambda>no_zeroing.
        sseq (ne_assert (ty cur = NE_TYPE_F32))
       (sbind (liftR (steps cur (ty cur) [3, 1, 2, 0])) (\<lambda>st.
        modify (bestla_reordered_attn_fp32_update (is_v \<noteq> 0) \<lparr>kv_src = data cur, kv_cache = data cache, kv_batch_size = to_int32 (ne cur ! 3),
          kv_heads = to_int32 (ne cur ! 1), kv_head_size = to_int32 (ne cur ! 0), kv_seq_off = n_past, kv_seq_size = to_int32 (ne cur ! 2),
          kv_seq_max = to_int32 (ne cache ! 1), kv_steps = st, kv_no_zeroing = (no_zeroing \<noteq> 0)\<rparr>))))))))"

section \<open>Feed-forward on half precision\<close>

definition ne_vec_gelu_f16 :: "menv \<Rightarrow> nat \<Rightarrow> ptr \<Rightarrow> ptr \<Rightarrow> memory \<Rightarrow> memory" where
  "ne_vec_gelu_f16 e n y x = fold (\<lambda>i m. store16 (y + 2 * i) (to_f16 (m_env e) (ne_gelu_f32 e (of_f16 (m_env e) (load16 m (x + 2 * i))))) m) [0..<n]"

definition flash_ff_checks :: "ne_tensor \<Rightarrow> ne_tensor \<Rightarrow> ne_tensor \<Rightarrow> ne_tensor \<Rightarrow> ne_tensor \<Rightarrow> ne_tensor \<Rightarrow> bool list" where
  "flash_ff_checks a b0 b1 c0 c1 dst =
     (let D = ne a ! 0; M = ne b0 ! 1 in
      [ne dst ! 0 = ne a ! 0, ne dst ! 1 = ne a ! 1, ne dst ! 2 = ne a ! 2,
       nb a ! 0 = 2, nb b0 ! 0 = 2, nb b1 ! 0 = 4, nb c0 ! 0 = 2, nb c1 ! 0 = 4,
       ne b0 ! 0 = D, ne b0 ! 1 = M, ne b1 ! 0 = M, ne b1 ! 1 = 1,
       ne c0 ! 0 = M, ne c0 ! 1 = D, ne c1 ! 0 = D, ne c1 ! 1 = 1,
       nb dst ! 0 = 4, nb dst ! 0 \<le> nb dst ! 1, nb dst ! 1 \<le> nb dst ! 2, nb dst ! 2 \<le> nb dst ! 3])"

definition ne_compute_forward_flash_ff_f16 ::
  "menv \<Rightarrow> ne_compute_params \<Rightarrow> ne_tensor \<Rightarrow> ne_tensor \<Rightarrow> ne_tensor \<Rightarrow> ne_tensor \<Rightarrow> ne_tensor \<Rightarrow> ne_tensor \<Rightarrow> kop" where
  "ne_compute_forward_flash_ff_f16 e ps a b0 b1 c0 c1 dst =
     sseq (for_list (flash_ff_checks a b0 b1 c0 c1 dst) ne_assert)
    (if is_init_or_finalize ps then ret ()
     else
       let n = nat (ne a ! 0); M = nat (ne b0 ! 1); D = nat (ne c0 ! 1);
           dot = ne_vec_dot_f16 (r_acc (m_renv e)) (m_fa e) (q_fc (m_env e));
           slice = 4 * (to_size (ith ps) * (2 * M + CACHE_LINE_SIZE_F32)) in
       add_rows ps a (\<lambda>(ia1, ia2, ia3).
         sbind (work_ptr ps 1 slice) (\<lambda>S.
         sbind (row_ptr a n (off3 (nb a) (ia1, ia2, ia3))) (\<lambda>pa.
         sseq (for_list [0 .. ne b0 ! 1 - 1] (\<lambda>ic.
           sbind (row_ptr b0 n (off3 (nb b0) (ic, ia2, ia3))) (\<lambda>pb. modify (dot n (S + 4 * nat ic) pb pa))))
        (sbind (row_ptr b1 M 0) (\<lambda>pb1.
         sseq (modify (ne_vec_add_f32 (m_fa e) M S S pb1))
        (sseq (modify (fold (\<lambda>i m. store16 (S + 4 * M + 2 * i) (to_f16 (m_env e) (load32 m (S + 4 * i))) m) [0..<M]))
        (sseq (modify (ne_vec_gelu_f16 e M (S + 4 * M) (S + 4 * M)))
        (sseq (for_list [0 .. ne c0 ! 1 - 1] (\<lambda>ic.
           sbind (row_ptr dst 1 (to_size ic * nb dst ! 0 + off3 (nb dst) (ia1, ia2, ia3))) (\<lambda>y.
           sbind (row_ptr c0 M (off3 (nb c0) (ic, ia2, ia3))) (\<lambda>pc. modify (dot M y pc (S + 4 * M))))))
        (sbind (row_ptr dst D (off3 (nb dst) (ia1, ia2, ia3))) (\<lambda>y.
         sbind (row_ptr c1 D 0) (\<lambda>pc1.
         modify (ne_vec_add_f32 (m_fa e) D y y pc1)))))))))))))"

definition ne_compute_forward_flash_ff ::
  "menv \<Rightarrow> ne_compute_params \<Rightarrow> ne_tensor \<Rightarrow> ne_tensor \<Rightarrow> ne_tensor \<Rightarrow> ne_tensor \<Rightarrow> ne_tensor \<Rightarrow> ne_tensor \<Rightarrow> kop" where
  "ne_compute_forward_flash_ff e ps a b0 b1 c0 c1 dst =
     (if ty b0 = NE_TYPE_F16 then ne_compute_forward_flash_ff_f16 e ps a b0 b1 c0 c1 dst else fail NE_Assert)"

section \<open>Padding mask\<close>

definition ne_attention_padding_mask_f32_forward :: "int \<Rightarrow> int \<Rightarrow> int \<Rightarrow> ne_compute_params \<Rightarrow> ne_tensor \<Rightarrow> 32 word \<Rightarrow> ne_tensor \<Rightarrow> kop" where
  "ne_attention_padding_mask_f32_forward bs nr_qk qlen ps b p_value dst =
     sbind (liftR (strided (ith ps) (nth ps) qlen)) (\<lambda>js. mask_padding js bs nr_qk b dst p_value)"

definition ne_compute_forward_padding_mask_f32 :: "ne_compute_params \<Rightarrow> ne_tensor \<Rightarrow> ne_tensor \<Rightarrow> ne_tensor \<Rightarrow> 32 word \<Rightarrow> kop" where
  "ne_compute_forward_padding_mask_f32 ps a b dst v =
     (let bs = to_int32 (ne a ! 3) in
      sbind (read_i32 b 0) (\<lambda>n_past.
      sbind (read_i32 b 1) (\<lambda>inplace.
      sseq (if inplace = 0 \<and> task ps = NE_TASK_INIT
            then sseq (ne_assert (ne_nelements dst = ne_nelements a))
                (sseq (ne_assertR (andR (ne_is_contiguous dst) (ne_is_contiguous a)))
                  (region_init False ps a dst))
            else ret ())
     (if is_init_or_finalize ps then ret ()
      else
        let nr = to_int32 (ne a ! 1) in
        sbind (liftR (cdiv (ne_nrows a) nr)) (\<lambda>nz.
        ne_attention_padding_mask_f32_forward bs nz nr ps b v dst)))))"

definition ne_compute_forward_padding_mask_inf :: "ne_compute_params \<Rightarrow> ne_tensor \<Rightarrow> ne_tensor \<Rightarrow> ne_tensor \<Rightarrow> kop" where
  "ne_compute_forward_padding_mask_inf ps a b dst = switch_f32 a (ne_compute_forward_padding_mask_f32 ps a b dst f32_minus_inf)"

end
