(* ===== verification/NE_Dup.thy ===== *)
theory NE_Dup
  imports NE_Kernel_Results
begin

text \<open>
  Copies of \<^verbatim>\<open>core/ne_layers.c\<close> between layouts and element types: \<^verbatim>\<open>ne_compute_forward_dup_f32\<close>,
  \<^verbatim>\<open>ne_compute_forward_dup_f16\<close> and the operations that call them (\<^verbatim>\<open>dup\<close>, \<^verbatim>\<open>cpy\<close>, \<^verbatim>\<open>cont\<close>). The rows of
  \<^verbatim>\<open>src0\<close> are shared out among the tasks; the destination is addressed by rows, by a running
  offset or by four counters that run through its indices. The row quantizers, which the code
  calls through the table \<^verbatim>\<open>quantize_fns\<close>, are a parameter.
\<close>

section \<open>Row ranges and the running offset\<close>

text \<open>As in \<open>block_rows\<close>, the \<^verbatim>\<open>int\<close> arithmetic of the range is exact.\<close>

definition dup_range :: "ne_compute_params \<Rightarrow> ne_tensor \<Rightarrow> (int \<times> int) res" where
  "dup_range ps a =
     (let nr = to_int32 (ne a ! 1) in
      rbind (cdiv (nr + nth ps - 1) (nth ps)) (\<lambda>dr. let ir0 = dr * ith ps in Inr (ir0, min (ir0 + dr) nr)))"

definition planes :: "ne_tensor \<Rightarrow> (int \<times> int) list" where
  "planes a = concat (map (\<lambda>i03. map (\<lambda>i02. (i02, i03)) [0 .. ne a ! 2 - 1]) [0 .. ne a ! 3 - 1])"

definition off4 :: "nat list \<Rightarrow> int \<times> int \<times> int \<times> int \<Rightarrow> nat" where
  "off4 strides i = (case i of (i0, r) \<Rightarrow> to_size i0 * strides ! 0 + off3 strides r)"

definition dup_by_rows :: "ne_tensor \<Rightarrow> ne_tensor \<Rightarrow> int \<Rightarrow> int \<Rightarrow> kop" where
  "dup_by_rows a dst ir0 ir1 =
     (let rs = wrap64 (to_size (ne a ! 0) * nb a ! 0) in
      for_list (planes a) (\<lambda>(i02, i03). for_list [ir0 .. ir1 - 1] (\<lambda>i01.
        sbind (row_ptr dst rs (off3 (nb dst) (i01, i02, i03))) (\<lambda>y.
        sbind (row_ptr a rs (off3 (nb a) (i01, i02, i03))) (\<lambda>x.
        modify (copy_bytes rs y x))))))"

text \<open>
  A contiguous destination: \<open>pos\<close> is the running position, \<open>rs\<close> what a row advances it by; the rows
  of the other tasks are skipped before and after those of this task.
\<close>

primrec packed_rows :: "nat \<Rightarrow> (nat \<Rightarrow> int \<Rightarrow> kop) \<Rightarrow> int list \<Rightarrow> nat \<Rightarrow> (memory, nat) op" where
  "packed_rows rs body [] pos = ret pos"
| "packed_rows rs body (i01 # is) pos = sseq (body pos i01) (packed_rows rs body is (wrap64 (pos + rs)))"

primrec packed_planes ::
  "nat \<Rightarrow> int \<Rightarrow> int \<Rightarrow> int \<Rightarrow> (nat \<Rightarrow> int \<times> int \<times> int \<Rightarrow> kop) \<Rightarrow> (int \<times> int) list \<Rightarrow> nat \<Rightarrow> kop" where
  "packed_planes rs ir0 ir1 n1 body [] pos = ret ()"
| "packed_planes rs ir0 ir1 n1 body (p # pl) pos =
     sbind (packed_rows rs (\<lambda>pos i01. body pos (i01, p)) [ir0 .. ir1 - 1] (wrap64 (pos + rs * to_size ir0))) (\<lambda>pos.
     packed_planes rs ir0 ir1 n1 body pl (wrap64 (pos + rs * to_size (n1 - ir1))))"

definition dup_packed :: "nat \<Rightarrow> ne_tensor \<Rightarrow> int \<Rightarrow> int \<Rightarrow> (nat \<Rightarrow> int \<times> int \<times> int \<Rightarrow> kop) \<Rightarrow> kop" where
  "dup_packed rs a ir0 ir1 body = packed_planes rs ir0 ir1 (ne a ! 1) body (planes a) 0"

text \<open>
  The bodies: a row copied as bytes, elements converted one by one, a row given to the quantizer
  of the type. In the element loops \<open>pos\<close> counts elements; it advances by one with each of them.
\<close>

definition packed_bytes :: "nat \<Rightarrow> ne_tensor \<Rightarrow> ne_tensor \<Rightarrow> nat \<Rightarrow> int \<times> int \<times> int \<Rightarrow> kop" where
  "packed_bytes rs a dst pos i =
     sbind (row_ptr dst rs pos) (\<lambda>y. sbind (row_ptr a rs (off3 (nb a) i)) (\<lambda>x. modify (copy_bytes rs y x)))"

definition packed_elems ::
  "nat \<Rightarrow> (ptr \<Rightarrow> ptr \<Rightarrow> memory \<Rightarrow> memory) \<Rightarrow> ne_tensor \<Rightarrow> ne_tensor \<Rightarrow> nat \<Rightarrow> int \<times> int \<times> int \<Rightarrow> kop" where
  "packed_elems sz conv a dst pos i =
     for_list [0 .. ne a ! 0 - 1] (\<lambda>i00.
       sbind (row_ptr a 1 (off4 (nb a) (i00, i))) (\<lambda>x.
       sbind (row_ptr dst 1 (sz * (pos + nat i00))) (\<lambda>y. modify (conv y x))))"

type_synonym quantizer = "ne_type \<Rightarrow> ptr \<Rightarrow> ptr \<Rightarrow> nat \<Rightarrow> memory \<Rightarrow> memory"

definition packed_quant :: "quantizer \<Rightarrow> nat \<Rightarrow> ne_tensor \<Rightarrow> ne_tensor \<Rightarrow> nat \<Rightarrow> int \<times> int \<times> int \<Rightarrow> kop" where
  "packed_quant qf n a dst pos i =
     sbind (row_ptr a n (off3 (nb a) i)) (\<lambda>x. sbind (row_ptr dst n pos) (\<lambda>y. modify (qf (ty dst) x y n)))"

text \<open>The same from half precision: the row is converted into the work buffer of the task first.\<close>

definition packed_quant_f16 ::
  "fconv \<Rightarrow> quantizer \<Rightarrow> ptr \<Rightarrow> nat \<Rightarrow> ne_tensor \<Rightarrow> ne_tensor \<Rightarrow> nat \<Rightarrow> int \<times> int \<times> int \<Rightarrow> kop" where
  "packed_quant_f16 fc qf wp n a dst pos i =
     sbind (row_ptr a n (off3 (nb a) i)) (\<lambda>x.
     sseq (modify (fold (\<lambda>j m. store32 (wp + 4 * j) (fp16_to_fp32 fc (load16 m (x + 2 * j))) m) [0..<n]))
    (sbind (row_ptr dst n pos) (\<lambda>y. modify (qf (ty dst) wp y n))))"

section \<open>Counters\<close>

text \<open>The four counters of the destination, and what \<^verbatim>\<open>if (++i10 == ne0) { ... }\<close> does to them.\<close>

type_synonym counters = "int \<times> int \<times> int \<times> int"

fun carry :: "int list \<Rightarrow> int \<times> int \<times> int \<Rightarrow> int \<times> int \<times> int" where
  "carry e (i11, i12, i13) =
     (if i11 + 1 = e ! 1 then
        (if i12 + 1 = e ! 2 then (0, 0, if i13 + 1 = e ! 3 then 0 else i13 + 1) else (0, i12 + 1, i13))
      else (i11 + 1, i12, i13))"

fun bump :: "int list \<Rightarrow> counters \<Rightarrow> counters" where
  "bump e (i10, r) = (if i10 + 1 = e ! 0 then (0, carry e r) else (i10 + 1, r))"

text \<open>\<^verbatim>\<open>while (i10 >= ne0) { i10 -= ne0; ... }\<close>, which never ends when \<^verbatim>\<open>ne0\<close> is not positive.\<close>

function settle :: "int list \<Rightarrow> int \<Rightarrow> int \<times> int \<times> int \<Rightarrow> counters res" where
  "settle e i10 r = (if i10 < e ! 0 then Inr (i10, r) else if e ! 0 \<le> 0 then Inl Stack_Overflow
     else settle e (i10 - e ! 0) (carry e r))"
  by pat_completeness auto
termination by (relation "measure (\<lambda>(e, i10, r). nat i10)") auto

declare settle.simps [simp del]

definition skip_elems :: "int list \<Rightarrow> int \<Rightarrow> counters \<Rightarrow> counters res" where
  "skip_elems e k c = (case c of (i10, r) \<Rightarrow> settle e (i10 + k) r)"

text \<open>\<open>e\<close> are the dimensions that the skips use, \<open>w\<close> those that the element loop wraps at.\<close>

primrec counted_cols ::
  "int list \<Rightarrow> (counters \<Rightarrow> int \<Rightarrow> kop) \<Rightarrow> int list \<Rightarrow> counters \<Rightarrow> (memory, counters) op" where
  "counted_cols w body [] c = ret c"
| "counted_cols w body (i00 # is) c = sseq (body c i00) (counted_cols w body is (bump w c))"

primrec counted_rows ::
  "int list \<Rightarrow> int \<Rightarrow> (counters \<Rightarrow> int \<Rightarrow> int \<Rightarrow> kop) \<Rightarrow> int list \<Rightarrow> counters \<Rightarrow> (memory, counters) op" where
  "counted_rows w n0 body [] c = ret c"
| "counted_rows w n0 body (i01 # is) c =
     sbind (counted_cols w (\<lambda>c i00. body c i00 i01) [0 .. n0 - 1] c) (\<lambda>c. counted_rows w n0 body is c)"

primrec counted_planes ::
  "int list \<Rightarrow> int list \<Rightarrow> int \<Rightarrow> int \<Rightarrow> ne_tensor \<Rightarrow> (counters \<Rightarrow> counters \<Rightarrow> kop) \<Rightarrow> (int \<times> int) list \<Rightarrow> counters \<Rightarrow> kop" where
  "counted_planes e w ir0 ir1 a body [] c = ret ()"
| "counted_planes e w ir0 ir1 a body (p # pl) c =
     sbind (liftR (skip_elems e (ne a ! 0 * ir0) c)) (\<lambda>c.
     sbind (counted_rows w (ne a ! 0) (\<lambda>c i00 i01. body c (i00, i01, p)) [ir0 .. ir1 - 1] c) (\<lambda>c.
     sbind (liftR (skip_elems e (ne a ! 0 * (ne a ! 1 - ir1)) c)) (\<lambda>c.
     counted_planes e w ir0 ir1 a body pl c)))"

definition counted_elem :: "(ptr \<Rightarrow> ptr \<Rightarrow> memory \<Rightarrow> memory) \<Rightarrow> ne_tensor \<Rightarrow> ne_tensor \<Rightarrow> counters \<Rightarrow> counters \<Rightarrow> kop" where
  "counted_elem conv a dst c i =
     sbind (row_ptr a 1 (off4 (nb a) i)) (\<lambda>x. sbind (row_ptr dst 1 (off4 (nb dst) c)) (\<lambda>y. modify (conv y x)))"

text \<open>With \<^verbatim>\<open>NE_ASSERT(dst_ptr != NULL)\<close>, which the branches that copy bytes have.\<close>

definition counted_bytes :: "nat \<Rightarrow> ne_tensor \<Rightarrow> ne_tensor \<Rightarrow> counters \<Rightarrow> counters \<Rightarrow> kop" where
  "counted_bytes n a dst c i =
     sseq (ne_assert (wrap64 (data dst + off4 (nb dst) c) \<noteq> NULL)) (counted_elem (copy_bytes n) a dst c i)"

definition dup_counted ::
  "int list \<Rightarrow> ne_tensor \<Rightarrow> ne_tensor \<Rightarrow> int \<Rightarrow> int \<Rightarrow> (ne_tensor \<Rightarrow> ne_tensor \<Rightarrow> counters \<Rightarrow> counters \<Rightarrow> kop) \<Rightarrow> kop" where
  "dup_counted w a dst ir0 ir1 body = counted_planes (ne dst) w ir0 ir1 a (body a dst) (planes a) (0, 0, 0, 0)"

section \<open>The kernels\<close>

definition conv_f32 :: "ptr \<Rightarrow> ptr \<Rightarrow> memory \<Rightarrow> memory" where
  "conv_f32 y x m = store32 y (load32 m x) m"
definition conv_f16 :: "ptr \<Rightarrow> ptr \<Rightarrow> memory \<Rightarrow> memory" where
  "conv_f16 y x m = store16 y (load16 m x) m"
definition conv_f32_f16 :: "fconv \<Rightarrow> ptr \<Rightarrow> ptr \<Rightarrow> memory \<Rightarrow> memory" where
  "conv_f32_f16 fc y x m = store16 y (fp32_to_fp16 fc (load32 m x)) m"
definition conv_f16_f32 :: "fconv \<Rightarrow> ptr \<Rightarrow> ptr \<Rightarrow> memory \<Rightarrow> memory" where
  "conv_f16_f32 fc y x m = store32 y (fp16_to_fp32 fc (load16 m x)) m"

text \<open>\<^verbatim>\<open>rs\<close> of a quantized row: \<^verbatim>\<open>nb0 * (ne00 / NE_BLCK_SIZE[type])\<close>.\<close>

definition quant_row_size :: "ne_tensor \<Rightarrow> ne_tensor \<Rightarrow> nat res" where
  "quant_row_size a dst = rbind (cdiv (ne a ! 0) (int (NE_BLCK_SIZE (ty dst)))) (\<lambda>q. Inr (wrap64 (nb dst ! 0 * to_size q)))"

definition dup_f32_packed :: "fconv \<Rightarrow> quantizer \<Rightarrow> ne_tensor \<Rightarrow> ne_tensor \<Rightarrow> int \<Rightarrow> int \<Rightarrow> kop" where
  "dup_f32_packed fc qf a dst ir0 ir1 =
     (let rs = wrap64 (to_size (ne a ! 0) * nb a ! 0); n = to_size (ne a ! 0) in
      if nb a ! 0 = 4 then
        (if ty dst = NE_TYPE_F32 then dup_packed rs a ir0 ir1 (packed_bytes rs a dst)
         else if ty dst = NE_TYPE_F16 then dup_packed n a ir0 ir1 (packed_elems 2 (conv_f32_f16 fc) a dst)
         else if ne_is_quantized (ty dst) then
           sbind (liftR (quant_row_size a dst)) (\<lambda>rs. dup_packed rs a ir0 ir1 (packed_quant qf n a dst))
         else fail NE_Assert)
      else
        (if ty dst = NE_TYPE_F32 then dup_packed n a ir0 ir1 (packed_elems 4 conv_f32 a dst)
         else if ty dst = NE_TYPE_F16 then dup_packed n a ir0 ir1 (packed_elems 2 (conv_f32_f16 fc) a dst)
         else fail NE_Assert))"

definition ne_compute_forward_dup_f32 :: "fconv \<Rightarrow> quantizer \<Rightarrow> ne_compute_params \<Rightarrow> ne_tensor \<Rightarrow> ne_tensor \<Rightarrow> kop" where
  "ne_compute_forward_dup_f32 fc qf ps a dst =
     sseq (ne_assert (ne_nelements dst = ne_nelements a))
    (if is_init_or_finalize ps then ret ()
     else
       sbind (liftR (andR (ne_is_contiguous a) (andR (ne_is_contiguous dst) (Inr (ty a = ty dst))))) (\<lambda>same.
       if same then ne_compute_forward_dup_same_cont ps a dst
       else
         sbind (liftR (dup_range ps a)) (\<lambda>(ir0, ir1).
         if ty a = ty dst \<and> ne a ! 0 = ne dst ! 0 \<and> nb a ! 0 = NE_TYPE_SIZE (ty a) \<and> nb dst ! 0 = NE_TYPE_SIZE (ty dst)
         then dup_by_rows a dst ir0 ir1
         else
           sbind (liftR (ne_is_contiguous dst)) (\<lambda>cont.
           if cont then dup_f32_packed fc qf a dst ir0 ir1
           else if ty dst = NE_TYPE_F32 then dup_counted (ne dst) a dst ir0 ir1 (counted_bytes 4)
           else if ty dst = NE_TYPE_F16 then dup_counted (ne dst) a dst ir0 ir1 (counted_elem (conv_f32_f16 fc))
           else fail NE_Assert))))"

definition dup_f16_packed ::
  "fconv \<Rightarrow> quantizer \<Rightarrow> ne_compute_params \<Rightarrow> ne_tensor \<Rightarrow> ne_tensor \<Rightarrow> int \<Rightarrow> int \<Rightarrow> kop" where
  "dup_f16_packed fc qf ps a dst ir0 ir1 =
     (let rs = wrap64 (to_size (ne a ! 0) * nb a ! 0); n = to_size (ne a ! 0);
          wp = wrap64 (wdata ps + 4 * ((n + CACHE_LINE_SIZE_F32) * to_size (ith ps))) in
      if nb a ! 0 = 2 then
        (if ty dst = NE_TYPE_F16 then dup_packed rs a ir0 ir1 (packed_bytes rs a dst)
         else if ty dst = NE_TYPE_F32 then dup_packed n a ir0 ir1 (packed_elems 4 (conv_f16_f32 fc) a dst)
         else if ne_is_quantized (ty dst) then
           sbind (liftR (quant_row_size a dst)) (\<lambda>rs. dup_packed rs a ir0 ir1 (packed_quant_f16 fc qf wp n a dst))
         else fail NE_Assert)
      else
        (if ty dst = NE_TYPE_F32 then dup_packed n a ir0 ir1 (packed_elems 4 (conv_f16_f32 fc) a dst)
         else if ty dst = NE_TYPE_F16 then dup_packed n a ir0 ir1 (packed_elems 2 conv_f16 a dst)
         else fail NE_Assert))"

text \<open>The element loop of the copy from half to half precision wraps at the dimensions of \<^verbatim>\<open>src0\<close>.\<close>

definition ne_compute_forward_dup_f16 :: "fconv \<Rightarrow> quantizer \<Rightarrow> ne_compute_params \<Rightarrow> ne_tensor \<Rightarrow> ne_tensor \<Rightarrow> kop" where
  "ne_compute_forward_dup_f16 fc qf ps a dst =
     sseq (ne_assert (ne_nelements dst = ne_nelements a))
    (if is_init_or_finalize ps then ret ()
     else
       sbind (liftR (andR (ne_is_contiguous a) (andR (ne_is_contiguous dst) (Inr (ty a = ty dst))))) (\<lambda>same.
       if same then ne_compute_forward_dup_same_cont ps a dst
       else
         sbind (liftR (dup_range ps a)) (\<lambda>(ir0, ir1).
         if ty a = ty dst \<and> ne a ! 0 = ne dst ! 0 \<and> nb a ! 0 = NE_TYPE_SIZE (ty a) \<and> nb dst ! 0 = NE_TYPE_SIZE (ty dst)
         then dup_by_rows a dst ir0 ir1
         else
           sbind (liftR (ne_is_contiguous dst)) (\<lambda>cont.
           if cont then dup_f16_packed fc qf ps a dst ir0 ir1
           else if ty dst = NE_TYPE_F16 then dup_counted (ne a) a dst ir0 ir1 (counted_bytes 2)
           else if ty dst = NE_TYPE_F32 then dup_counted (ne dst) a dst ir0 ir1 (counted_elem (conv_f16_f32 fc))
           else fail NE_Assert))))"

definition ne_compute_forward_dup :: "fconv \<Rightarrow> quantizer \<Rightarrow> ne_compute_params \<Rightarrow> ne_tensor \<Rightarrow> ne_tensor \<Rightarrow> kop" where
  "ne_compute_forward_dup fc qf ps a dst =
     sbind (liftR (andR (ne_is_contiguous a) (andR (ne_is_contiguous dst) (Inr (ty a = ty dst))))) (\<lambda>same.
     if same then ne_compute_forward_dup_same_cont ps a dst
     else case ty a of
       NE_TYPE_F16 \<Rightarrow> ne_compute_forward_dup_f16 fc qf ps a dst
     | NE_TYPE_F32 \<Rightarrow> ne_compute_forward_dup_f32 fc qf ps a dst
     | _ \<Rightarrow> fail NE_Assert)"

definition ne_compute_forward_cpy :: "fconv \<Rightarrow> quantizer \<Rightarrow> ne_compute_params \<Rightarrow> ne_tensor \<Rightarrow> ne_tensor \<Rightarrow> kop" where
  "ne_compute_forward_cpy fc qf ps a dst = ne_compute_forward_dup fc qf ps a dst"
definition ne_compute_forward_cont :: "fconv \<Rightarrow> quantizer \<Rightarrow> ne_compute_params \<Rightarrow> ne_tensor \<Rightarrow> ne_tensor \<Rightarrow> kop" where
  "ne_compute_forward_cont fc qf ps a dst = ne_compute_forward_dup fc qf ps a dst"

end
