(* ===== verification/NE_Forward.thy ===== *)
theory NE_Forward
  imports NE_Fused NE_Dup
begin

text \<open>
  \<^verbatim>\<open>ne_compute_forward\<close>: the switch on the operation of a node that calls its kernel, in the build
  without tensor parallelism. The headers of the operands are looked up in the heap of tensors.
\<close>

section \<open>The environment of the kernels\<close>

text \<open>
  What the kernels call and the C core does not define: the math functions, the library BesTLA, the
  convolutions of \<^verbatim>\<open>layers/conv.cpp\<close>, and the functions of the program that nodes may point to.
\<close>

record fenv =
  fe_math :: menv
  fe_lib :: bestla
  fe_norm :: bestla_norm
  fe_attn :: "attn_args \<Rightarrow> lib"
  fe_attn_reordered :: "attn_args \<Rightarrow> lib"
  fe_update_kv :: "bool \<Rightarrow> kv_args \<Rightarrow> lib"
  fe_shift_rope :: bestla_shift_rope
  fe_conv_1d_1s :: "ne_compute_params \<Rightarrow> ne_tensor \<Rightarrow> ne_tensor \<Rightarrow> ne_tensor \<Rightarrow> kop"
  fe_conv_1d_2s :: "ne_compute_params \<Rightarrow> ne_tensor \<Rightarrow> ne_tensor \<Rightarrow> ne_tensor \<Rightarrow> kop"
  fe_conv_1d :: "ne_compute_params \<Rightarrow> ne_tensor \<Rightarrow> ne_tensor \<Rightarrow> ne_tensor \<Rightarrow> kop"
  fe_unary :: "64 word \<Rightarrow> nat \<Rightarrow> ptr \<Rightarrow> ptr \<Rightarrow> memory \<Rightarrow> memory"
  fe_binary :: "64 word \<Rightarrow> nat \<Rightarrow> ptr \<Rightarrow> ptr \<Rightarrow> ptr \<Rightarrow> memory \<Rightarrow> memory"
  fe_debug :: "byte list \<Rightarrow> ne_tensor \<Rightarrow> kop"

abbreviation fe_q :: "fenv \<Rightarrow> qenv" where "fe_q e \<equiv> m_env (fe_math e)"
abbreviation fe_fa :: "fenv \<Rightarrow> farith" where "fe_fa e \<equiv> q_fa (fe_q e)"
abbreviation fe_r :: "fenv \<Rightarrow> renv" where "fe_r e \<equiv> m_renv (fe_math e)"

definition row_quantizer :: "qenv \<Rightarrow> quantizer" where
  "row_quantizer e type x y n = (case fn_quantize_row (quantize_fns e type) of Some f \<Rightarrow> f n x y | None \<Rightarrow> (\<lambda>m. m))"

definition with_t :: "(ptr \<Rightarrow> ne_tensor option) \<Rightarrow> ptr \<Rightarrow> (ne_tensor \<Rightarrow> kop) \<Rightarrow> kop" where
  "with_t h p k = (case h p of None \<Rightarrow> fail Bad_Deref | Some t \<Rightarrow> k t)"

text \<open>A function pointer in the data of a tensor.\<close>

definition load64 :: "memory \<Rightarrow> ptr \<Rightarrow> 64 word" where
  "load64 m p = ucast (load32 m p) OR push_bit 32 (ucast (load32 m (p + 4)))"

definition with_fun :: "ne_tensor \<Rightarrow> (64 word \<Rightarrow> kop) \<Rightarrow> kop" where
  "with_fun o0 k = sbind (row_ptr o0 1 0) (\<lambda>p. sbind (gets (\<lambda>m. load64 m p)) k)"

definition ne_compute_forward_debug :: "fenv \<Rightarrow> ne_compute_params \<Rightarrow> ne_tensor \<Rightarrow> ne_tensor \<Rightarrow> kop" where
  "ne_compute_forward_debug e ps a dst = (if is_init_or_finalize ps then ret () else fe_debug e (padding dst) a)"

section \<open>The switch\<close>

definition ne_compute_forward :: "fenv \<Rightarrow> (ptr \<Rightarrow> ne_tensor option) \<Rightarrow> ne_compute_params \<Rightarrow> ne_tensor \<Rightarrow> kop" where
  "ne_compute_forward e h ps t =
     (let s0 = with_t h (src0 t); s1 = with_t h (src1 t); op_t = (\<lambda>i. with_t h (opt t ! i));
          q = fe_q e; fa = fe_fa e; fc = q_fc q; r = fe_r e; me = fe_math e; l = fe_lib e; qf = row_quantizer q in
      case op t of
        NE_OP_DUP \<Rightarrow> s0 (\<lambda>a. ne_compute_forward_dup fc qf ps a t)
      | NE_OP_ADD \<Rightarrow> s0 (\<lambda>a. s1 (\<lambda>b. ne_compute_forward_add q ps a b t))
      | NE_OP_ADD1 \<Rightarrow> s0 (\<lambda>a. s1 (\<lambda>b. ne_compute_forward_add1 q ps a b t))
      | NE_OP_ACC \<Rightarrow> s0 (\<lambda>a. s1 (\<lambda>b. op_t 0 (\<lambda>c. ne_compute_forward_acc fa ps a b c t)))
      | NE_OP_SUB \<Rightarrow> s0 (\<lambda>a. s1 (\<lambda>b. ne_compute_forward_sub fa ps a b t))
      | NE_OP_MUL \<Rightarrow> s0 (\<lambda>a. s1 (\<lambda>b. ne_compute_forward_mul fa ps a b t))
      | NE_OP_DIV \<Rightarrow> s0 (\<lambda>a. s1 (\<lambda>b. ne_compute_forward_div fa ps a b t))
      | NE_OP_SQR \<Rightarrow> s0 (\<lambda>a. ne_compute_forward_sqr fa ps a t)
      | NE_OP_SQRT \<Rightarrow> s0 (\<lambda>a. ne_compute_forward_sqrt fa ps a t)
      | NE_OP_LOG \<Rightarrow> s0 (\<lambda>a. ne_compute_forward_log fa ps a t)
      | NE_OP_SUM \<Rightarrow> s0 (\<lambda>a. ne_compute_forward_sum r ps a t)
      | NE_OP_SUM_ROWS \<Rightarrow> s0 (\<lambda>a. ne_compute_forward_sum_rows r ps a t)
      | NE_OP_MEAN \<Rightarrow> s0 (\<lambda>a. ne_compute_forward_mean r ps a t)
      | NE_OP_REPEAT \<Rightarrow> s0 (\<lambda>a. ne_compute_forward_repeat ps a t)
      | NE_OP_ABS \<Rightarrow> s0 (\<lambda>a. ne_compute_forward_abs ps a t)
      | NE_OP_SGN \<Rightarrow> s0 (\<lambda>a. ne_compute_forward_sgn ps a t)
      | NE_OP_NEG \<Rightarrow> s0 (\<lambda>a. ne_compute_forward_neg ps a t)
      | NE_OP_STEP \<Rightarrow> s0 (\<lambda>a. ne_compute_forward_step ps a t)
      | NE_OP_RELU \<Rightarrow> s0 (\<lambda>a. ne_compute_forward_relu ps a t)
      | NE_OP_GELU \<Rightarrow> s0 (\<lambda>a. ne_compute_forward_gelu me ps a t)
      | NE_OP_SILU \<Rightarrow> s0 (\<lambda>a. ne_compute_forward_silu fa ps a t)
      | NE_OP_SILU_BACK \<Rightarrow> s0 (\<lambda>a. s1 (\<lambda>b. ne_compute_forward_silu_back fa ps a b t))
      | NE_OP_NORM \<Rightarrow> s0 (\<lambda>a. ne_compute_forward_norm (fe_norm e) r ps a t)
      | NE_OP_RMS_NORM \<Rightarrow> s0 (\<lambda>a. ne_compute_forward_rms_norm (fe_norm e) r ps a t)
      | NE_OP_RMS_NORM_BACK \<Rightarrow> s0 (\<lambda>a. s1 (\<lambda>b. ne_compute_forward_rms_norm_back r ps a b t))
      | NE_OP_MUL_MAT_BIAS \<Rightarrow> s0 (\<lambda>a. s1 (\<lambda>b. op_t 0 (\<lambda>c. ne_compute_forward_mul_mat_bias l ps a b c t)))
      | NE_OP_MUL_MAT \<Rightarrow> s0 (\<lambda>a. s1 (\<lambda>b. ne_compute_forward_mul_mat (r_acc r) q (bestla_f32f32_forward l) ps a b t))
      | NE_OP_MUL_QKV \<Rightarrow> s0 (\<lambda>a. s1 (\<lambda>b. op_t 0 (\<lambda>c. op_t 1 (\<lambda>d. ne_compute_forward_mul_qkv l ps a b c d t))))
      | NE_OP_MUL_FFN_SILU \<Rightarrow>
          s0 (\<lambda>a. s1 (\<lambda>b. op_t 0 (\<lambda>c. op_t 1 (\<lambda>d. op_t 2 (\<lambda>u. op_t 3 (\<lambda>v. ne_compute_forward_ffn_silu l ps a b c d u v t))))))
      | NE_OP_MUL_FFN_ADD_GELU \<Rightarrow>
          s0 (\<lambda>a. s1 (\<lambda>b. op_t 0 (\<lambda>c. op_t 1 (\<lambda>d. op_t 2 (\<lambda>u. op_t 3 (\<lambda>v. ne_compute_forward_ffn_add_gelu l ps a b c d u v t))))))
      | NE_OP_MUL_FFN_GELU \<Rightarrow> s0 (\<lambda>a. s1 (\<lambda>b. op_t 0 (\<lambda>c. op_t 1 (\<lambda>d. ne_compute_forward_ffn_gelu l ps a b c d t))))
      | NE_OP_SCALE \<Rightarrow> s0 (\<lambda>a. s1 (\<lambda>b. ne_compute_forward_scale fa ps a b t))
      | NE_OP_SET \<Rightarrow> s0 (\<lambda>a. s1 (\<lambda>b. op_t 0 (\<lambda>c. ne_compute_forward_set ps a b c t)))
      | NE_OP_CPY \<Rightarrow> s0 (\<lambda>a. ne_compute_forward_cpy fc qf ps a t)
      | NE_OP_CONT \<Rightarrow> s0 (\<lambda>a. ne_compute_forward_cont fc qf ps a t)
      | NE_OP_RESHAPE \<Rightarrow> ret ()
      | NE_OP_VIEW \<Rightarrow> ret ()
      | NE_OP_PERMUTE \<Rightarrow> ret ()
      | NE_OP_TRANSPOSE \<Rightarrow> ret ()
      | NE_OP_GET_ROWS \<Rightarrow> s0 (\<lambda>a. s1 (\<lambda>b. ne_compute_forward_get_rows q ps a b t))
      | NE_OP_GET_ROWS_BACK \<Rightarrow> s0 (\<lambda>a. s1 (\<lambda>b. op_t 0 (\<lambda>c. ne_compute_forward_get_rows_back fc fa ps a b c t)))
      | NE_OP_DIAG \<Rightarrow> s0 (\<lambda>a. ne_compute_forward_diag ps a t)
      | NE_OP_DIAG_MASK_INF \<Rightarrow> s0 (\<lambda>a. s1 (\<lambda>b. ne_compute_forward_diag_mask_inf ps a b t))
      | NE_OP_DIAG_MASK_ZERO \<Rightarrow> s0 (\<lambda>a. s1 (\<lambda>b. ne_compute_forward_diag_mask_zero ps a b t))
      | NE_OP_PADDING_MASK_INF \<Rightarrow> s0 (\<lambda>a. s1 (\<lambda>b. ne_compute_forward_padding_mask_inf ps a b t))
      | NE_OP_SOFT_MAX \<Rightarrow> s0 (\<lambda>a. ne_compute_forward_soft_max r ps a t)
      | NE_OP_ROPE \<Rightarrow> s0 (\<lambda>a. s1 (\<lambda>b. ne_compute_forward_rope (fe_shift_rope e) me ps a b (h (opt t ! 0)) t))
      | NE_OP_ROPE_BACK \<Rightarrow> s0 (\<lambda>a. s1 (\<lambda>b. ne_compute_forward_rope_back me ps a b t))
      | NE_OP_ALIBI \<Rightarrow> s0 (\<lambda>a. s1 (\<lambda>b. ne_compute_forward_alibi me ps a b t))
      | NE_OP_CLAMP \<Rightarrow> s0 (\<lambda>a. s1 (\<lambda>b. ne_compute_forward_clamp fc fa ps a b t))
      | NE_OP_CONV_1D_1S \<Rightarrow> s0 (\<lambda>a. s1 (\<lambda>b. fe_conv_1d_1s e ps a b t))
      | NE_OP_CONV_1D_2S \<Rightarrow> s0 (\<lambda>a. s1 (\<lambda>b. fe_conv_1d_2s e ps a b t))
      | NE_OP_CONV_1D \<Rightarrow> s0 (\<lambda>a. s1 (\<lambda>b. fe_conv_1d e ps a b t))
      | NE_OP_FLASH_ATTN \<Rightarrow>
          s0 (\<lambda>a. s1 (\<lambda>b. op_t 0 (\<lambda>c. op_t 1 (\<lambda>d. ne_compute_forward_flash_attn (fe_attn e) (fe_attn_reordered e) ps a b c d t))))
      | NE_OP_FLASH_ATTN_KV_UPDATE \<Rightarrow> s0 (\<lambda>a. s1 (\<lambda>b. op_t 0 (\<lambda>c. ne_compute_forward_flash_attn_kv_update (fe_update_kv e) ps a b c)))
      | NE_OP_FLASH_FF \<Rightarrow> s0 (\<lambda>a. s1 (\<lambda>b. op_t 0 (\<lambda>c. op_t 1 (\<lambda>d. op_t 2 (\<lambda>u. ne_compute_forward_flash_ff me ps a b c d u t)))))
      | NE_OP_MAP_UNARY \<Rightarrow> op_t 0 (\<lambda>c. with_fun c (\<lambda>f. s0 (\<lambda>a. ne_compute_forward_map_unary ps a t (fe_unary e f))))
      | NE_OP_MAP_BINARY \<Rightarrow> op_t 0 (\<lambda>c. with_fun c (\<lambda>f. s0 (\<lambda>a. s1 (\<lambda>b. ne_compute_forward_map_binary ps a b t (fe_binary e f)))))
      | NE_OP_NONE \<Rightarrow> ret ()
      | NE_OP_DEBUG \<Rightarrow> s0 (\<lambda>a. ne_compute_forward_debug e ps a t)
      | NE_OP_COUNT \<Rightarrow> fail NE_Assert
      | _ \<Rightarrow> ret ())"

end
