(* ===== verification/NE_Dup_Laws.thy ===== *)
theory NE_Dup_Laws
  imports NE_Dup
begin

text \<open>
  What the copies compute. The element at row-major position \<open>l\<close> of \<^verbatim>\<open>src0\<close> goes to the element at
  position \<open>l\<close> of the destination: the running offsets and the counters of the code are shown to
  follow that position, for every branch of \<^verbatim>\<open>ne_compute_forward_dup_f32\<close> with a destination of
  32-bit floats and for every sharing of the rows among tasks.
\<close>

section \<open>Counters\<close>

definition row_counters :: "int list \<Rightarrow> int \<Rightarrow> int \<times> int \<times> int" where
  "row_counters e x = (x mod e ! 1, x div e ! 1 mod e ! 2, x div e ! 1 div e ! 2 mod e ! 3)"

definition counters_at :: "int list \<Rightarrow> int \<Rightarrow> counters" where
  "counters_at e l = (l mod e ! 0, row_counters e (l div e ! 0))"

definition dims_pos :: "int list \<Rightarrow> bool" where
  "dims_pos e \<longleftrightarrow> 0 < e ! 0 \<and> 0 < e ! 1 \<and> 0 < e ! 2 \<and> 0 < e ! 3"

lemma div_mod_Suc:
  assumes "0 < (n::int)"
  shows "(x + 1) mod n = (if x mod n + 1 = n then 0 else x mod n + 1)"
    and "(x + 1) div n = (if x mod n + 1 = n then x div n + 1 else x div n)"
proof -
  have b: "0 \<le> x mod n" "x mod n < n" using assms by simp_all
  have x: "x + 1 = n * (x div n) + (x mod n + 1)" by (simp add: algebra_simps)
  have *: "(x + 1) mod n = (x mod n + 1) mod n" by (simp add: mod_add_left_eq)
  have "(n * (x div n) + (x mod n + 1)) div n = x div n + (x mod n + 1) div n"
    using assms by (intro div_mult_self4) simp
  then have **: "(x + 1) div n = x div n + (x mod n + 1) div n" by (simp only: x [symmetric])
  show "(x + 1) mod n = (if x mod n + 1 = n then 0 else x mod n + 1)" unfolding * using b by auto
  show "(x + 1) div n = (if x mod n + 1 = n then x div n + 1 else x div n)" unfolding **
  proof (cases "x mod n + 1 = n")
    case False
    have "(x mod n + 1) div n = 0" by (rule div_pos_pos_trivial) (use b False in linarith)+
    with False show "x div n + (x mod n + 1) div n = (if x mod n + 1 = n then x div n + 1 else x div n)" by simp
  qed (use assms in simp)
qed

lemma carry_row_counters: "dims_pos e \<Longrightarrow> carry e (row_counters e x) = row_counters e (x + 1)"
  by (simp add: row_counters_def dims_pos_def div_mod_Suc)

lemma bump_counters_at: "dims_pos e \<Longrightarrow> bump e (counters_at e l) = counters_at e (l + 1)"
  by (simp add: counters_at_def carry_row_counters) (simp add: dims_pos_def div_mod_Suc)

lemma settle_counters:
  assumes "dims_pos e" "0 \<le> i"
  shows "settle e i (row_counters e x) = Inr (i mod e ! 0, row_counters e (x + i div e ! 0))"
  using assms(2)
proof (induction "nat i" arbitrary: i x rule: less_induct)
  case less
  have p: "0 < e ! 0" using assms(1) by (simp add: dims_pos_def)
  show ?case
  proof (cases "i < e ! 0")
    case True
    with less.prems show ?thesis by (subst settle.simps) simp
  next
    case False
    let ?i = "i - e ! 0"
    have im: "?i mod e ! 0 = i mod e ! 0" and ix: "x + 1 + ?i div e ! 0 = x + i div e ! 0"
      using p div_add_self2 [of "e ! 0" ?i] by simp_all
    have "settle e ?i (row_counters e (x + 1)) = Inr (?i mod e ! 0, row_counters e (x + 1 + ?i div e ! 0))"
      using False p by (intro less.hyps) auto
    then have "settle e ?i (row_counters e (x + 1)) = Inr (i mod e ! 0, row_counters e (x + i div e ! 0))"
      unfolding im ix .
    then show ?thesis using False p by (subst settle.simps) (simp add: carry_row_counters [OF assms(1)])
  qed
qed

lemma skip_counters_at:
  assumes "dims_pos e" "0 \<le> l" "0 \<le> k"
  shows "skip_elems e k (counters_at e l) = Inr (counters_at e (l + k))"
proof -
  have p: "0 < e ! 0" using assms(1) by (simp add: dims_pos_def)
  have "(l mod e ! 0 + k) mod e ! 0 = (l + k) mod e ! 0" by (simp add: mod_add_left_eq)
  moreover have "(l + k) div e ! 0 = l div e ! 0 + (l mod e ! 0 + k) div e ! 0"
    using p div_mult_self4 [of "e ! 0" "l div e ! 0" "l mod e ! 0 + k"] by (simp add: algebra_simps)
  ultimately show ?thesis
    using settle_counters [OF assms(1), of "l mod e ! 0 + k" "l div e ! 0"] assms p
    by (simp add: skip_elems_def counters_at_def)
qed

lemma settle_returns: "dims_pos e \<Longrightarrow> \<exists>c. settle e i r = Inr c"
proof (induction e i r rule: settle.induct)
  case (1 e i r)
  then show ?case by (cases r, subst settle.simps) (auto simp: dims_pos_def)
qed

section \<open>Positions\<close>

definition elem_at :: "ne_tensor \<Rightarrow> nat \<Rightarrow> nat \<times> nat \<times> nat \<times> nat" where
  "elem_at t l = (l mod nat (ne t ! 0), l div nat (ne t ! 0) mod nat (ne t ! 1),
     l div nat (ne t ! 0) div nat (ne t ! 1) mod nat (ne t ! 2), l div nat (ne t ! 0) div nat (ne t ! 1) div nat (ne t ! 2))"

definition pos_of :: "ne_tensor \<Rightarrow> nat \<times> nat \<times> nat \<times> nat \<Rightarrow> nat" where
  "pos_of t q = (case q of (i0, i1, i2, i3) \<Rightarrow> linear_index t i0 i1 i2 i3)"

definition n_elems :: "ne_tensor \<Rightarrow> nat" where
  "n_elems t = nat (ne t ! 0) * nat (ne t ! 1) * nat (ne t ! 2) * nat (ne t ! 3)"

lemma pos_of_elem_at: "pos_of t (elem_at t l) = l"
  by (simp add: pos_of_def elem_at_def linear_index_def)

lemma elem_at_in:
  assumes "addressable t" "l < n_elems t"
  shows "elem_at t l \<in> elems_of t"
proof -
  have "l div nat (ne t ! 0) div nat (ne t ! 1) div nat (ne t ! 2) < nat (ne t ! 3)"
    using assms addressable_bounds [OF assms(1)]
    by (simp add: n_elems_def div_mult2_eq [symmetric] less_mult_imp_div_less mult.commute mult.left_commute)
  then show ?thesis using addressable_bounds [OF assms(1)] by (simp add: elems_of_def elem_at_def in_range_def)
qed

lemma elem_at_pos_of:
  assumes "q \<in> elems_of t"
  shows "elem_at t (pos_of t q) = q" "pos_of t q < n_elems t"
proof -
  obtain i0 i1 i2 i3 where q: "q = (i0, i1, i2, i3)" by (rule prod_cases4)
  with assms have r: "i0 < nat (ne t ! 0)" "i1 < nat (ne t ! 1)" "i2 < nat (ne t ! 2)" "i3 < nat (ne t ! 3)"
    by (auto simp: elems_of_def in_range_def)
  then show "elem_at t (pos_of t q) = q" by (simp add: q pos_of_def elem_at_def linear_index_def)
  have step: "a + n * b < n * c" if "a < n" "b < c" for a b c n :: nat
  proof -
    have "a + n * b < n * Suc b" using that(1) by simp
    also have "\<dots> \<le> n * c" using that(2) by (intro mult_le_mono) auto
    finally show ?thesis .
  qed
  show "pos_of t q < n_elems t"
    using step [OF r(1) step [OF r(2) step [OF r(3,4)]]] by (simp add: q pos_of_def linear_index_def n_elems_def mult.assoc)
qed

lemma counters_elem_at:
  assumes "addressable t" "l < n_elems t" "elem_at t l = (i0, i1, i2, i3)"
  shows "counters_at (ne t) (int l) = (int i0, int i1, int i2, int i3)"
proof -
  note b = addressable_bounds [OF assms(1)]
  have "i3 < nat (ne t ! 3)" using elem_at_in [OF assms(1,2)] assms(3) by (simp add: elems_of_def in_range_def)
  then have "int i0 = int l mod ne t ! 0" "int i1 = int l div ne t ! 0 mod ne t ! 1"
      "int i2 = int l div ne t ! 0 div ne t ! 1 mod ne t ! 2"
      "int i3 = int l div ne t ! 0 div ne t ! 1 div ne t ! 2" "int i3 < ne t ! 3"
    using assms(3) b by (auto simp: elem_at_def of_nat_mod of_nat_div)
  then show ?thesis by (simp add: counters_at_def row_counters_def)
qed


section \<open>Loops that copy positions\<close>

lemma upto_int: "[int k .. int n - 1] = map int [k..<n]"
  by (rule nth_equalityI) (simp_all add: nth_upto)

lemma upto_int_0: "0 \<le> n \<Longrightarrow> [0 .. n - 1] = map int [0..<nat n]"
  using upto_int [of 0 "nat n"] by simp

lemma planes_upt:
  assumes "0 < ne a ! 2" "0 \<le> ne a ! 3"
  shows "planes a = map (\<lambda>p. (int (p mod nat (ne a ! 2)), int (p div nat (ne a ! 2)))) [0..<nat (ne a ! 2) * nat (ne a ! 3)]"
proof -
  let ?n = "nat (ne a ! 2)" and ?f = "\<lambda>p. (int (p mod nat (ne a ! 2)), int (p div nat (ne a ! 2)))"
  have n: "0 < ?n" "[0 .. ne a ! 2 - 1] = map int [0..<?n]" using assms upto_int_0 [of "ne a ! 2"] by auto
  have "concat (map (\<lambda>i03. map (\<lambda>i02. (i02, i03)) (map int [0..<?n])) (map int [0..<k])) = map ?f [0..<?n * k]" for k
  proof (induction k)
    case (Suc k)
    have "map ?f [?n * k..<?n * k + ?n] = map (?f \<circ> (+) (?n * k)) [0..<?n]"
      by (simp add: map_add_upt [symmetric] add.commute del: map_map) (simp add: comp_def add.commute)
    also have "\<dots> = map (\<lambda>i. (int i, int k)) [0..<?n]" using n(1) by (intro map_cong) auto
    finally have "map ?f [0..<?n * k + ?n] = map ?f [0..<?n * k] @ map (\<lambda>i. (int i, int k)) [0..<?n]"
      using upt_add_eq_append [of 0 "?n * k" ?n] by simp
    moreover have "?n * Suc k = ?n * k + ?n" by simp
    ultimately show ?case using Suc by (simp only: upt_Suc_append concat_append map_append) (simp add: comp_def)
  qed simp
  then show ?thesis using n(2) upto_int_0 [OF assms(2)] by (simp add: planes_def)
qed

lemma counted_cols_puts:
  assumes "dims_pos e" "k \<le> n"
    and "\<And>j m. j < n \<Longrightarrow> body (counters_at e (int (l + j))) (int j) m = Inr ((), f (l + j) m)"
  shows "counted_cols e body (map int [k..<n]) (counters_at e (int (l + k))) m =
    Inr (counters_at e (int (l + n)), fold f [l + k..<l + n] m)"
  using assms(2)
proof (induction "n - k" arbitrary: k m)
  case (Suc x)
  then have k: "k < n" "[k..<n] = k # [Suc k..<n]" "[l + k..<l + n] = (l + k) # [Suc (l + k)..<l + n]"
    by (auto simp: upt_conv_Cons)
  have b: "bump e (counters_at e (int (l + k))) = counters_at e (int (l + Suc k))"
    using bump_counters_at [OF assms(1), of "int (l + k)"] by (simp add: ac_simps)
  show ?case using Suc(1) [of "Suc k"] Suc(2) k assms(3) [OF k(1)] b by simp
qed simp

lemma counted_rows_puts:
  assumes "dims_pos e" "k \<le> n1"
    and "\<And>r j m. r < n1 \<Longrightarrow> j < n0 \<Longrightarrow>
      body (counters_at e (int (l + r * n0 + j))) (int j) (int r) m = Inr ((), f (l + r * n0 + j) m)"
  shows "counted_rows e (int n0) body (map int [k..<n1]) (counters_at e (int (l + k * n0))) m =
    Inr (counters_at e (int (l + n1 * n0)), fold f [l + k * n0..<l + n1 * n0] m)"
  using assms(2)
proof (induction "n1 - k" arbitrary: k m)
  case (Suc x)
  then have k: "k < n1" "[k..<n1] = k # [Suc k..<n1]" by (auto simp: upt_conv_Cons)
  have le: "Suc k * n0 \<le> n1 * n0" using k(1) by (intro mult_le_mono1) simp
  then have sp: "[l + k * n0..<l + n1 * n0] = [l + k * n0..<l + Suc k * n0] @ [l + Suc k * n0..<l + n1 * n0]"
    using upt_add_eq_append [of "l + k * n0" "l + Suc k * n0" "n1 * n0 - Suc k * n0"] by simp
  have "counted_cols e (\<lambda>c i00. body c i00 (int k)) (map int [0..<n0]) (counters_at e (int (l + k * n0))) m =
      Inr (counters_at e (int (l + Suc k * n0)), fold f [l + k * n0..<l + Suc k * n0] m)"
    using counted_cols_puts [OF assms(1), of 0 n0 "\<lambda>c i00. body c i00 (int k)" "l + k * n0" f m] assms(3) [OF k(1)]
    by (simp add: ac_simps)
  then show ?case using Suc(1) [of "Suc k"] Suc(2) k upto_int [of 0 n0] unfolding sp by simp
qed simp

lemma counted_planes_puts:
  assumes e: "dims_pos e" and r: "ir0 \<le> ir1" "ir1 \<le> n1" and n: "ne a ! 0 = int n0" "ne a ! 1 = int n1"
    and b: "\<And>p r j m. p < P \<Longrightarrow> r < n1 \<Longrightarrow> j < n0 \<Longrightarrow>
      body (counters_at e (int (p * n1 * n0 + r * n0 + j))) (int j, int r, g p) m = Inr ((), f (p * n1 * n0 + r * n0 + j) m)"
    and "p \<le> P"
  shows "counted_planes e e (int ir0) (int ir1) a body (map g [p..<P]) (counters_at e (int (p * n1 * n0))) m =
    Inr ((), fold (\<lambda>p. fold f [p * n1 * n0 + ir0 * n0..<p * n1 * n0 + ir1 * n0]) [p..<P] m)"
  using assms(7)
proof (induction "P - p" arbitrary: p m)
  case (Suc x)
  then have p: "p < P" "[p..<P] = p # [Suc p..<P]" by (auto simp: upt_conv_Cons)
  let ?l = "p * n1 * n0"
  have s0: "skip_elems e (int n0 * int ir0) (counters_at e (int ?l)) = Inr (counters_at e (int (?l + ir0 * n0)))"
    using skip_counters_at [OF e, of "int ?l" "int n0 * int ir0"] by (simp add: ac_simps)
  obtain k where "n1 = ir1 + k" using r(2) le_Suc_ex by blast
  then have "Suc p * n1 * n0 = ?l + ir1 * n0 + n0 * (n1 - ir1)" by (simp add: algebra_simps)
  then have s1: "skip_elems e (int n0 * (int n1 - int ir1)) (counters_at e (int (?l + ir1 * n0))) = Inr (counters_at e (int (Suc p * n1 * n0)))"
    using skip_counters_at [OF e, of "int (?l + ir1 * n0)" "int n0 * (int n1 - int ir1)"] r(2) by (simp add: of_nat_diff)
  have rows: "counted_rows e (int n0) (\<lambda>c i00 i01. body c (i00, i01, g p)) (map int [ir0..<ir1]) (counters_at e (int (?l + ir0 * n0))) m =
      Inr (counters_at e (int (?l + ir1 * n0)), fold f [?l + ir0 * n0..<?l + ir1 * n0] m)"
    using r b [OF p(1)] by (intro counted_rows_puts [OF e r(1)]) auto
  show ?case using Suc(1) [of "Suc p"] Suc(2) p s0 s1 rows upto_int [of ir0 ir1] by (simp add: n n(2) [unfolded One_nat_def])
qed simp

text \<open>A task without rows: the counters move, nothing is copied.\<close>

lemma skip_returns: "dims_pos e \<Longrightarrow> \<exists>c'. skip_elems e k c = Inr c'"
  by (cases c) (simp only: skip_elems_def prod.case settle_returns)

lemma counted_planes_idle:
  assumes "dims_pos e" "ir1 \<le> ir0"
  shows "counted_planes e w ir0 ir1 a body pl c m = Inr ((), m)"
proof (induction pl arbitrary: c)
  case (Cons p pl)
  obtain c1 where c1: "skip_elems e (ne a ! 0 * ir0) c = Inr c1"
    using skip_returns [OF assms(1)] by blast
  obtain c2 where "skip_elems e (ne a ! 0 * (ne a ! 1 - ir1)) c1 = Inr c2"
    using skip_returns [OF assms(1)] by blast
  with Cons c1 assms(2) show ?case by simp
qed simp


lemma packed_rows_puts:
  assumes "k \<le> n1" "l + n1 * rs < 2 ^ 64"
    and "\<And>r m. k \<le> r \<Longrightarrow> r < n1 \<Longrightarrow> body (l + r * rs) (int r) m = Inr ((), f r m)"
  shows "packed_rows rs body (map int [k..<n1]) (l + k * rs) m = Inr (l + n1 * rs, fold f [k..<n1] m)"
  using assms(1,3)
proof (induction "n1 - k" arbitrary: k m)
  case (Suc x)
  then have k: "k < n1" "[k..<n1] = k # [Suc k..<n1]" by (auto simp: upt_conv_Cons)
  have "Suc k * rs \<le> n1 * rs" using k(1) by (intro mult_le_mono1) simp
  then have w: "wrap64 (l + k * rs + rs) = l + Suc k * rs" using assms(2) by simp
  show ?case using Suc.hyps(1) [of "Suc k"] Suc.hyps(2) Suc.prems k w by simp
qed simp

lemma packed_planes_puts:
  assumes r: "ir0 \<le> ir1" "ir1 \<le> n1" and n: "n1 < 2 ^ 31" "P * n1 * rs < 2 ^ 64"
    and b: "\<And>p r m. p < P \<Longrightarrow> ir0 \<le> r \<Longrightarrow> r < ir1 \<Longrightarrow> body (p * n1 * rs + r * rs) (int r, g p) m = Inr ((), f p r m)"
    and "p \<le> P"
  shows "packed_planes rs (int ir0) (int ir1) (int n1) body (map g [p..<P]) (p * n1 * rs) m =
    Inr ((), fold (\<lambda>p. fold (f p) [ir0..<ir1]) [p..<P] m)"
  using assms(6)
proof (induction "P - p" arbitrary: p m)
  case (Suc x)
  then have p: "p < P" "[p..<P] = p # [Suc p..<P]" by (auto simp: upt_conv_Cons)
  let ?l = "p * n1 * rs"
  have "Suc p * (n1 * rs) \<le> P * (n1 * rs)" using p(1) by (intro mult_le_mono1) simp
  then have top: "?l + n1 * rs < 2 ^ 64" using n(2) by (simp add: mult.assoc)
  have "ir1 * rs \<le> n1 * rs" "ir0 * rs \<le> ir1 * rs" using r by (auto intro: mult_le_mono1)
  then have t: "?l + ir1 * rs < 2 ^ 64" "?l + ir0 * rs < 2 ^ 64" using top by linarith+
  have i: "to_size (int ir0) = ir0" "to_size (int n1 - int ir1) = n1 - ir1"
    using r n(1) to_size_nonneg [of "int n1 - int ir1"] by (auto simp: to_size_int)
  have w0: "wrap64 (?l + rs * to_size (int ir0)) = ?l + ir0 * rs" using t by (simp add: i mult.commute [of rs])
  obtain k where k: "n1 = ir1 + k" using r(2) le_Suc_ex by blast
  then have "?l + ir1 * rs + rs * (n1 - ir1) = Suc p * n1 * rs" by (simp add: algebra_simps)
  moreover have "Suc p * n1 * rs < 2 ^ 64" using top by (simp add: algebra_simps)
  ultimately have w1: "wrap64 (?l + ir1 * rs + rs * to_size (int n1 - int ir1)) = Suc p * n1 * rs" by (simp only: i wrap64_id)
  have rows: "packed_rows rs (\<lambda>pos i01. body pos (i01, g p)) (map int [ir0..<ir1]) (?l + ir0 * rs) m =
      Inr (?l + ir1 * rs, fold (f p) [ir0..<ir1] m)"
    by (rule packed_rows_puts [OF r(1) t(1)]) (rule b [OF p(1)])
  show ?case using Suc(1) [of "Suc p"] Suc(2) p rows by (simp only: upto_int list.map packed_planes.simps w0 w1 sbind_step fold_simps comp_def)
qed simp

lemma packed_planes_idle: "ir1 \<le> ir0 \<Longrightarrow> packed_planes rs ir0 ir1 n1 body pl pos m = Inr ((), m)"
  by (induction pl arbitrary: pos) simp_all


section \<open>Copying one position\<close>

lemma byte_of_load32: "k < 4 \<Longrightarrow> byte_of (load32 m p) k = m (p + k)"
proof (rule bit_word_eqI)
  fix n assume k: "k < 4" and "n < LENGTH(8)"
  then have n: "n < 8" by simp
  then have "8 * k + n < 32" "(8 * k + n) div 8 = k" "(8 * k + n) mod 8 = n" using k by simp_all
  then show "bit (byte_of (load32 m p) k) n = bit (m (p + k)) n" using n by (simp add: bit_byte_of bit_load32)
qed

lemma copy_bytes_4: "copy_bytes 4 y x m = store32 y (load32 m x) m"
proof
  fix q
  show "copy_bytes 4 y x m q = store32 y (load32 m x) m q"
  proof (cases "y \<le> q \<and> q < y + 4")
    case True
    then have "byte_of (load32 m x) (q - y) = m (x + (q - y))" by (intro byte_of_load32) linarith
    with True show ?thesis by (simp add: copy_bytes_def store32_apply)
  qed (auto simp: copy_bytes_def store32_apply)
qed

lemma copy_bytes_words:
  assumes "y + 4 * n \<le> x \<or> x + 4 * n \<le> y"
  shows "copy_bytes (4 * n) y x m = fold (\<lambda>j m. store32 (y + 4 * j) (load32 m (x + 4 * j)) m) [0..<n] m"
  using assms
proof (induction n)
  case (Suc n)
  let ?m = "copy_bytes (4 * n) y x m"
  have "load32 ?m (x + 4 * n) = load32 m (x + 4 * n)"
    using Suc.prems by (intro load32_frame) (auto simp: copy_bytes_def)
  then have "store32 (y + 4 * n) (load32 ?m (x + 4 * n)) ?m = copy_bytes 4 (y + 4 * n) (x + 4 * n) ?m"
    by (simp only: copy_bytes_4)
  also have "\<dots> = copy_bytes (4 * Suc n) y x m"
    using Suc.prems by (intro ext) (auto simp: copy_bytes_def)
  finally have "copy_bytes (4 * Suc n) y x m = store32 (y + 4 * n) (load32 ?m (x + 4 * n)) ?m" by simp
  moreover have "?m = fold (\<lambda>j m. store32 (y + 4 * j) (load32 m (x + 4 * j)) m) [0..<n] m"
    using Suc.prems by (intro Suc.IH) auto
  ultimately show ?case by simp
qed (auto simp: copy_bytes_def fun_eq_iff)

definition put :: "ne_tensor \<Rightarrow> ne_tensor \<Rightarrow> nat \<Rightarrow> memory \<Rightarrow> memory" where
  "put a d l m = store32 (addr_of d (elem_at d l)) (load32 m (addr_of a (elem_at a l))) m"

definition dup_val :: "ne_tensor \<Rightarrow> ne_tensor \<Rightarrow> nat \<times> nat \<times> nat \<times> nat \<Rightarrow> memory \<Rightarrow> 32 word" where
  "dup_val a d q m = load32 m (addr_of a (elem_at a (pos_of d q)))"

lemma fold_put: "fold (put a d) ls m = run_writes (addr_of d) (dup_val a d) (map (elem_at d) ls) m"
  by (induction ls arbitrary: m) (simp_all add: put_def dup_val_def pos_of_elem_at)

text \<open>
  The operands of a copy between tensors of 32-bit floats. The destination may be permuted. When the
  first dimensions agree and rows are packed, the code copies row by row with the indices of
  \<^verbatim>\<open>src0\<close>; the shapes have to agree then, which the code does not check.
\<close>

definition dup_operands :: "ne_tensor \<Rightarrow> ne_tensor \<Rightarrow> bool" where
  "dup_operands a d \<longleftrightarrow> addressable a \<and> elems_apart d \<and> apart a d \<and> ty a = NE_TYPE_F32 \<and> ty d = NE_TYPE_F32 \<and>
     ne_nelements a = ne_nelements d \<and> ne_nelements a < 2 ^ 31 \<and>
     (ne a ! 0 = ne d ! 0 \<and> nb a ! 0 = 4 \<and> nb d ! 0 = 4 \<longrightarrow> ne_are_same_shape a d)"

lemma count_nelements: "addressable t \<Longrightarrow> int (n_elems t) = ne_nelements t"
  using addressable_bounds [of t] by (simp add: n_elems_def addressable_nelements)

lemma dup_operandsD:
  assumes "dup_operands a d"
  shows "addressable a" "addressable d" "elems_apart d" "apart a d" "ty a = NE_TYPE_F32" "ty d = NE_TYPE_F32"
    "ne_nelements d = ne_nelements a" "n_elems d = n_elems a" "int (n_elems a) < 2 ^ 31" "dims_fit a" "dims_fit d"
proof -
  show h: "addressable a" "addressable d" "elems_apart d" "apart a d" "ty a = NE_TYPE_F32" "ty d = NE_TYPE_F32"
      "ne_nelements d = ne_nelements a"
    using assms by (auto simp: dup_operands_def elems_apart_def)
  then show "n_elems d = n_elems a" "int (n_elems a) < 2 ^ 31"
    using count_nelements [of a] count_nelements [of d] assms by (simp_all add: dup_operands_def)
  have "ne_nelements a < 2 ^ 31" using assms by (simp add: dup_operands_def)
  then have "nat (ne_nelements a) < 2 ^ 31" by (simp add: nat_less_iff)
  then show "dims_fit a" "dims_fit d"
    using addressable_bounds [OF h(1)] addressable_bounds [OF h(2)] addressable_nelements(2) [OF h(1)]
      addressable_nelements(2) [OF h(2)] h by (auto simp: dims_fit_def all_less_4)
qed

lemma dup_stable: "dup_operands a d \<Longrightarrow> stable d (dup_val a d)"
  unfolding stable_def
proof (intro ballI impI allI)
  fix q q' v m assume o: "dup_operands a d" and q: "q \<in> elems_of d" "q' \<in> elems_of d"
  note h = dup_operandsD [OF o]
  have "elem_at a (pos_of d q) \<in> elems_of a" using elem_at_pos_of [OF q(1)] h by (intro elem_at_in) simp_all
  moreover obtain i0 i1 i2 i3 j0 j1 j2 j3 where e: "elem_at a (pos_of d q) = (i0, i1, i2, i3)" "q' = (j0, j1, j2, j3)"
    by (metis prod_cases4)
  ultimately have "in_range a i0 i1 i2 i3" "in_range d j0 j1 j2 j3" using q by (auto simp: elems_of_def)
  from apart_store [OF h(4) this] show "dup_val a d q (store32 (addr_of d q') v m) = dup_val a d q m"
    by (simp add: dup_val_def e addr_of_def elem_def)
qed

lemma ptr_elem:
  assumes "addressable t" "q \<in> elems_of t" "q = (i0, i1, i2, i3)"
  shows "row_ptr t n (off4 (nb t) (int i0, int i1, int i2, int i3)) m = Inr (addr_of t q, m)"
    and "wrap64 (data t + off4 (nb t) (int i0, int i1, int i2, int i3)) \<noteq> NULL"
proof -
  have r: "in_range t i0 i1 i2 i3" using assms(2,3) by (simp add: elems_of_def)
  have "int i0 < ne t ! 0" using r by (auto simp: in_range_def)
  then have "to_size (int i0) = i0" using addressable_bounds [OF assms(1)] by (intro to_size_int) linarith
  then have o: "off4 (nb t) (int i0, int i1, int i2, int i3) = elem_offset t i0 i1 i2 i3"
    using off3_int(4) [OF assms(1) r] by (simp add: off4_def elem_offset_def)
  have "data t + elem_offset t i0 i1 i2 i3 < 2 ^ 64"
    using elem_in_span [OF r] assms(1) by (auto simp: addressable_def)
  then show "row_ptr t n (off4 (nb t) (int i0, int i1, int i2, int i3)) m = Inr (addr_of t q, m)"
    "wrap64 (data t + off4 (nb t) (int i0, int i1, int i2, int i3)) \<noteq> NULL"
    using assms(1,3) by (simp_all add: row_ptr_def o addr_of_def addressable_def)
qed

lemma elem_at_row:
  assumes "addressable a" "p < nat (ne a ! 2) * nat (ne a ! 3)" "r < nat (ne a ! 1)" "j < nat (ne a ! 0)"
  shows "elem_at a (p * nat (ne a ! 1) * nat (ne a ! 0) + r * nat (ne a ! 0) + j) = (j, r, p mod nat (ne a ! 2), p div nat (ne a ! 2))"
    and "p * nat (ne a ! 1) * nat (ne a ! 0) + r * nat (ne a ! 0) + j < n_elems a"
proof -
  let ?n0 = "nat (ne a ! 0)" and ?n1 = "nat (ne a ! 1)"
  have l: "p * ?n1 * ?n0 + r * ?n0 + j = j + ?n0 * (r + ?n1 * p)" by (simp add: algebra_simps)
  show e: "elem_at a (p * ?n1 * ?n0 + r * ?n0 + j) = (j, r, p mod nat (ne a ! 2), p div nat (ne a ! 2))"
    unfolding l using assms(3,4) by (simp add: elem_at_def)
  have "p div nat (ne a ! 2) < nat (ne a ! 3)" using assms(2) by (simp add: less_mult_imp_div_less mult.commute)
  then have "(j, r, p mod nat (ne a ! 2), p div nat (ne a ! 2)) \<in> elems_of a"
    using assms addressable_bounds [OF assms(1)] by (auto simp: elems_of_def in_range_def)
  from elem_at_pos_of(2) [OF this] show "p * ?n1 * ?n0 + r * ?n0 + j < n_elems a"
    unfolding e [symmetric] by (simp add: pos_of_elem_at)
qed


section \<open>The branches\<close>

definition row_share :: "ne_tensor \<Rightarrow> nat \<Rightarrow> nat \<Rightarrow> nat list" where
  "row_share a ir0 ir1 = concat (map (\<lambda>p. [p * nat (ne a ! 1) * nat (ne a ! 0) + ir0 * nat (ne a ! 0)
     ..<p * nat (ne a ! 1) * nat (ne a ! 0) + ir1 * nat (ne a ! 0)]) [0..<nat (ne a ! 2) * nat (ne a ! 3)])"

lemma fold_shift: "fold (\<lambda>j. f (l + j)) [0..<n] m = fold f [l..<l + n] m"
  by (induction n) simp_all

lemma fold_rows:
  assumes "r0 \<le> r1"
  shows "fold (\<lambda>r. fold f [l + r * n..<l + r * n + n]) [r0..<r1] m = fold f [l + r0 * n..<l + r1 * n] m"
  using assms
proof (induction r1)
  case (Suc r1)
  show ?case
  proof (cases "r0 \<le> r1")
    case True
    then have "r0 * n \<le> r1 * n" by (rule mult_le_mono1)
    then have "[l + r0 * n..<l + r1 * n + n] = [l + r0 * n..<l + r1 * n] @ [l + r1 * n..<l + r1 * n + n]"
      using upt_add_eq_append [of "l + r0 * n" "l + r1 * n" n] by simp
    with Suc True show ?thesis by (simp add: add.commute [of n] add.assoc)
  next
    case False
    with Suc.prems show ?thesis by (simp add: le_Suc_eq)
  qed
qed simp

lemma fold_planes_share:
  assumes "ir0 \<le> ir1"
  shows "fold (\<lambda>p. fold (\<lambda>r. fold f [p * nat (ne a ! 1) * nat (ne a ! 0) + r * nat (ne a ! 0)
      ..<p * nat (ne a ! 1) * nat (ne a ! 0) + r * nat (ne a ! 0) + nat (ne a ! 0)]) [ir0..<ir1])
    [0..<nat (ne a ! 2) * nat (ne a ! 3)] m = fold f (row_share a ir0 ir1) m"
proof -
  have "fold (\<lambda>r. fold f [l + r * nat (ne a ! 0)..<l + r * nat (ne a ! 0) + nat (ne a ! 0)]) [ir0..<ir1] =
      fold f [l + ir0 * nat (ne a ! 0)..<l + ir1 * nat (ne a ! 0)]" for l
    by (rule ext) (rule fold_rows [OF assms])
  then show ?thesis by (simp add: row_share_def fold_concat_map)
qed

lemma planes_of: "addressable a \<Longrightarrow> planes a = map (\<lambda>p. (int (p mod nat (ne a ! 2)), int (p div nat (ne a ! 2))))
    [0..<nat (ne a ! 2) * nat (ne a ! 3)]"
  using addressable_bounds [of a] by (intro planes_upt) auto

text \<open>The counters.\<close>

lemma counted_bytes_put:
  assumes o: "dup_operands a d" and l: "l < n_elems a" and e: "elem_at a l = (i0, i1, i2, i3)"
  shows "counted_bytes 4 a d (counters_at (ne d) (int l)) (int i0, int i1, int i2, int i3) m = Inr ((), put a d l m)"
proof -
  note h = dup_operandsD [OF o]
  obtain j0 j1 j2 j3 where j: "elem_at d l = (j0, j1, j2, j3)" by (rule prod_cases4)
  have c: "counters_at (ne d) (int l) = (int j0, int j1, int j2, int j3)"
    using counters_elem_at [OF h(2) _ j] l h(8) by simp
  have "elem_at d l \<in> elems_of d" "elem_at a l \<in> elems_of a" using elem_at_in h(1,2,8) l by auto
  note pd = ptr_elem [OF h(2) this(1) j] and pa = ptr_elem [OF h(1) this(2) e]
  show ?thesis unfolding c using pd pa by (simp add: counted_bytes_def counted_elem_def put_def copy_bytes_4 [abs_def])
qed

lemma dup_counted_share:
  assumes o: "dup_operands a d" and r: "ir0 \<le> ir1" "ir1 \<le> nat (ne a ! 1)"
  shows "dup_counted (ne d) a d (int ir0) (int ir1) (counted_bytes 4) m = Inr ((), fold (put a d) (row_share a ir0 ir1) m)"
proof -
  note h = dup_operandsD [OF o]
  note ba = addressable_bounds [OF h(1)] and bd = addressable_bounds [OF h(2)]
  let ?n0 = "nat (ne a ! 0)" and ?n1 = "nat (ne a ! 1)" and ?n2 = "nat (ne a ! 2)" and ?P = "nat (ne a ! 2) * nat (ne a ! 3)"
  let ?g = "\<lambda>p. (int (p mod ?n2), int (p div ?n2))"
  have dp: "dims_pos (ne d)" using bd by (simp add: dims_pos_def)
  have b: "counted_bytes 4 a d (counters_at (ne d) (int (p * ?n1 * ?n0 + r * ?n0 + j))) (int j, int r, ?g p) m =
      Inr ((), put a d (p * ?n1 * ?n0 + r * ?n0 + j) m)" if "p < ?P" "r < ?n1" "j < ?n0" for p r j m
    using counted_bytes_put [OF o elem_at_row(2) [OF h(1) that] elem_at_row(1) [OF h(1) that]] .
  have "counters_at (ne d) (int (0 * ?n1 * ?n0)) = (0, 0, 0, 0)" by (simp add: counters_at_def row_counters_def)
  moreover have "counted_planes (ne d) (ne d) (int ir0) (int ir1) a (counted_bytes 4 a d) (map ?g [0..<?P])
      (counters_at (ne d) (int (0 * ?n1 * ?n0))) m =
      Inr ((), fold (\<lambda>p. fold (put a d) [p * ?n1 * ?n0 + ir0 * ?n0..<p * ?n1 * ?n0 + ir1 * ?n0]) [0..<?P] m)"
    using dp r ba b by (intro counted_planes_puts) simp_all
  ultimately show ?thesis using planes_of [OF h(1)] by (simp add: dup_counted_def row_share_def fold_concat_map)
qed

text \<open>The running offset: positions of a contiguous destination are consecutive.\<close>

lemma contiguous_addr:
  assumes "dims_fit t" "ty t = NE_TYPE_F32" "ne_is_contiguous t = Inr True"
  shows "addr_of t (elem_at t l) = data t + 4 * l"
proof -
  have "NE_BLCK_SIZE (ty t) = 1" "NE_TYPE_SIZE (ty t) = 4" using assms(2) by simp_all
  note st = contiguous_strides [OF assms(3) this(1) assms(1), unfolded this(2)]
  obtain i0 i1 i2 i3 where e: "elem_at t l = (i0, i1, i2, i3)" by (rule prod_cases4)
  then have "elem_offset t i0 i1 i2 i3 = 4 * pos_of t (elem_at t l)"
    by (simp add: elem_offset_def st st(2) [unfolded One_nat_def] pos_of_def linear_index_def algebra_simps)
  then show ?thesis by (simp add: e addr_of_def pos_of_elem_at [of t l, unfolded e])
qed


lemma row_ptr_at:
  assumes "addressable d" "ne_is_contiguous d = Inr True" "dims_fit d" "ty d = NE_TYPE_F32" "l < n_elems d"
  shows "row_ptr d n (4 * l) m = Inr (addr_of d (elem_at d l), m)"
proof -
  note e = contiguous_addr [OF assms(3,4,2)]
  obtain i0 i1 i2 i3 where i: "elem_at d l = (i0, i1, i2, i3)" by (rule prod_cases4)
  then have "in_range d i0 i1 i2 i3" using elem_at_in [OF assms(1,5)] by (simp add: elems_of_def)
  from elem_in_span [OF this] have "addr_of d (elem_at d l) < 2 ^ 64"
    using assms(1) by (simp add: i addr_of_def addressable_def)
  then show ?thesis using assms(1) by (simp add: row_ptr_def e addressable_def)
qed

lemma packed_elems_puts:
  assumes o: "dup_operands a d" "ne_is_contiguous d = Inr True"
    and p: "p < nat (ne a ! 2) * nat (ne a ! 3)" "r < nat (ne a ! 1)"
    and l: "l = p * nat (ne a ! 1) * nat (ne a ! 0) + r * nat (ne a ! 0)"
  shows "packed_elems 4 conv_f32 a d l (int r, int (p mod nat (ne a ! 2)), int (p div nat (ne a ! 2))) m =
    Inr ((), fold (put a d) [l..<l + nat (ne a ! 0)] m)"
proof -
  note h = dup_operandsD [OF o(1)]
  let ?n = "nat (ne a ! 0)"
  let ?i = "(int r, int (p mod nat (ne a ! 2)), int (p div nat (ne a ! 2)))"
  let ?body = "\<lambda>i00. sbind (row_ptr a 1 (off4 (nb a) (i00, ?i))) (\<lambda>x.
      sbind (row_ptr d 1 (4 * (l + nat i00))) (\<lambda>y. modify (conv_f32 y x)))"
  have b: "?body (int j) m = Inr ((), put a d (l + j) m)" if "j < ?n" for j m
  proof -
    have e: "elem_at a (l + j) = (j, r, p mod nat (ne a ! 2), p div nat (ne a ! 2))" "l + j < n_elems a"
      using elem_at_row [OF h(1) p that] by (simp_all add: l)
    note pa = ptr_elem(1) [OF h(1) elem_at_in [OF h(1) e(2)] e(1)]
    have "row_ptr d 1 (4 * (l + j)) m = Inr (addr_of d (elem_at d (l + j)), m)" for m
      using e(2) h(8) by (intro row_ptr_at [OF h(2) o(2) h(11,6)]) simp
    then show ?thesis using pa by (simp add: conv_f32_def put_def)
  qed
  have "for_list (map int [0..<?n]) ?body m = Inr ((), fold (\<lambda>i. put a d (l + nat i)) (map int [0..<?n]) m)"
    using b by (intro for_list_fold) auto
  moreover have "fold (\<lambda>i. put a d (l + nat i)) (map int [0..<?n]) m = fold (put a d) [l..<l + ?n] m"
    by (simp add: fold_map comp_def fold_shift)
  moreover have "[0 .. ne a ! 0 - 1] = map int [0..<?n]" using addressable_bounds(1) [OF h(1)] by (simp add: upto_int_0)
  ultimately show ?thesis by (simp only: packed_elems_def)
qed

lemma dup_packed_share:
  assumes o: "dup_operands a d" and r: "ir0 \<le> ir1" "ir1 \<le> nat (ne a ! 1)" and k: "k * n_elems a < 2 ^ 64"
    and body: "\<And>p r l m. p < nat (ne a ! 2) * nat (ne a ! 3) \<Longrightarrow> r < nat (ne a ! 1) \<Longrightarrow>
      l = p * nat (ne a ! 1) * nat (ne a ! 0) + r * nat (ne a ! 0) \<Longrightarrow>
      body (k * l) (int r, int (p mod nat (ne a ! 2)), int (p div nat (ne a ! 2))) m =
        Inr ((), fold (put a d) [l..<l + nat (ne a ! 0)] m)"
  shows "dup_packed (k * nat (ne a ! 0)) a (int ir0) (int ir1) body m = Inr ((), fold (put a d) (row_share a ir0 ir1) m)"
proof -
  note h = dup_operandsD [OF o]
  note ba = addressable_bounds [OF h(1)]
  let ?n0 = "nat (ne a ! 0)" and ?n1 = "nat (ne a ! 1)" and ?n2 = "nat (ne a ! 2)" and ?P = "nat (ne a ! 2) * nat (ne a ! 3)"
  let ?g = "\<lambda>p. (int (p mod ?n2), int (p div ?n2))" and ?rs = "k * nat (ne a ! 0)"
  have "packed_planes ?rs (int ir0) (int ir1) (int ?n1) body (map ?g [0..<?P]) (0 * ?n1 * ?rs) m =
      Inr ((), fold (\<lambda>p. fold (\<lambda>r. fold (put a d) [p * ?n1 * ?n0 + r * ?n0..<p * ?n1 * ?n0 + r * ?n0 + ?n0]) [ir0..<ir1]) [0..<?P] m)"
  proof (rule packed_planes_puts [OF r])
    show "?n1 < 2 ^ 31" using ba(7) by (simp add: nat_less_iff)
    show "?P * ?n1 * ?rs < 2 ^ 64" using k by (simp add: n_elems_def ac_simps)
    show "body (p * ?n1 * ?rs + r * ?rs) (int r, ?g p) m =
        Inr ((), fold (put a d) [p * ?n1 * ?n0 + r * ?n0..<p * ?n1 * ?n0 + r * ?n0 + ?n0] m)"
      if "p < ?P" "ir0 \<le> r" "r < ir1" for p r m
    proof -
      have "p * ?n1 * ?rs + r * ?rs = k * (p * ?n1 * ?n0 + r * ?n0)" by (simp add: algebra_simps)
      then show ?thesis using body [OF that(1), of r] that(3) assms(3) by simp
    qed
  qed simp
  then show ?thesis using ba planes_of [OF h(1)] fold_planes_share [OF r(1)] by (simp add: dup_packed_def)
qed

text \<open>A row copied as bytes.\<close>

lemma range_bytes_puts:
  assumes o: "dup_operands a d" and n: "0 < n" "l + n \<le> n_elems a"
    and x: "\<And>j. j < n \<Longrightarrow> addr_of a (elem_at a (l + j)) = x + 4 * j"
    and y: "\<And>j. j < n \<Longrightarrow> addr_of d (elem_at d (l + j)) = y + 4 * j"
  shows "copy_bytes (4 * n) y x m = fold (put a d) [l..<l + n] m"
proof -
  note h = dup_operandsD [OF o]
  have last: "addr_of t (elem_at t (l + (n - 1))) + 4 \<le> data t + span t \<and> data t \<le> addr_of t (elem_at t l)"
    if "addressable t" "n_elems t = n_elems a" for t
  proof -
    obtain i0 i1 i2 i3 where i: "elem_at t (l + (n - 1)) = (i0, i1, i2, i3)" by (rule prod_cases4)
    have "l + (n - 1) < n_elems t" using n that(2) by simp
    from elem_at_in [OF that(1) this] have "in_range t i0 i1 i2 i3" unfolding i by (simp add: elems_of_def)
    from elem_in_span [OF this] show ?thesis unfolding i by (simp add: addr_of_def split: prod.split)
  qed
  have n4: "4 * n = 4 * (n - 1) + 4" using n(1) by simp
  have "y + 4 * n \<le> data d + span d" "data d \<le> y" "x + 4 * n \<le> data a + span a" "data a \<le> x"
    unfolding n4 using last [OF h(2) h(8)] last [OF h(1) refl] y [of "n - 1"] y [of 0] x [of "n - 1"] x [of 0] n(1) by simp_all
  then have "y + 4 * n \<le> x \<or> x + 4 * n \<le> y" using h(4) unfolding apart_def by linarith
  from copy_bytes_words [OF this] have "copy_bytes (4 * n) y x m =
      fold (\<lambda>j m. store32 (y + 4 * j) (load32 m (x + 4 * j)) m) [0..<n] m" .
  also have "\<dots> = fold (\<lambda>j. put a d (l + j)) [0..<n] m"
    using x y by (intro fold_cong) (auto simp: put_def)
  also have "\<dots> = fold (put a d) [l..<l + n] m" by (rule fold_shift)
  finally show ?thesis .
qed

lemma row_bytes_puts:
  assumes o: "dup_operands a d" and nb4: "nb a ! 0 = 4"
    and p: "p < nat (ne a ! 2) * nat (ne a ! 3)" "r < nat (ne a ! 1)"
    and l: "l = p * nat (ne a ! 1) * nat (ne a ! 0) + r * nat (ne a ! 0)"
    and y: "\<And>j. j < nat (ne a ! 0) \<Longrightarrow> addr_of d (elem_at d (l + j)) = y + 4 * j"
  shows "copy_bytes (4 * nat (ne a ! 0)) y (addr_of a (elem_at a l)) m = fold (put a d) [l..<l + nat (ne a ! 0)] m"
proof -
  note h = dup_operandsD [OF o]
  let ?n = "nat (ne a ! 0)"
  have n: "0 < ?n" using addressable_bounds [OF h(1)] by simp
  have e: "elem_at a (l + j) = (j, r, p mod nat (ne a ! 2), p div nat (ne a ! 2))" "l + j < n_elems a" if "j < ?n" for j
    using elem_at_row [OF h(1) p that] by (simp_all add: l)
  have "addr_of a (elem_at a (l + j)) = addr_of a (elem_at a l) + 4 * j" if "j < ?n" for j
    using e(1) [OF that] e(1) [OF n] nb4 by (simp add: addr_of_def elem_offset_def)
  moreover have "l + ?n \<le> n_elems a" using e(2) [of "?n - 1"] n by simp
  ultimately show ?thesis using y by (intro range_bytes_puts [OF o n])
qed

lemma row_size:
  assumes "dup_operands a d" "nb a ! 0 = 4"
  shows "wrap64 (to_size (ne a ! 0) * nb a ! 0) = 4 * nat (ne a ! 0)"
proof -
  note b = addressable_bounds [OF dup_operandsD(1) [OF assms(1)]]
  have "to_size (ne a ! 0) = nat (ne a ! 0)" using b by (simp add: to_size_nonneg)
  moreover have "nat (ne a ! 0) < 2 ^ 31" using b(6) by (simp add: nat_less_iff)
  ultimately show ?thesis using assms(2) by (simp add: mult.commute)
qed

lemma row_start:
  assumes "addressable a" "p < nat (ne a ! 2) * nat (ne a ! 3)" "r < nat (ne a ! 1)"
    and "l = p * nat (ne a ! 1) * nat (ne a ! 0) + r * nat (ne a ! 0)"
  shows "row_ptr a n (off3 (nb a) (int r, int (p mod nat (ne a ! 2)), int (p div nat (ne a ! 2)))) m = Inr (addr_of a (elem_at a l), m)"
    and "l < n_elems a"
proof -
  have n: "0 < nat (ne a ! 0)" using addressable_bounds [OF assms(1)] by simp
  have e: "elem_at a l = (0, r, p mod nat (ne a ! 2), p div nat (ne a ! 2))" and l: "l < n_elems a"
    using elem_at_row [OF assms(1-3) n] assms(4) by simp_all
  have "off3 (nb a) i = off4 (nb a) (0, i)" for i by (simp add: off4_def to_size_def)
  then show "row_ptr a n (off3 (nb a) (int r, int (p mod nat (ne a ! 2)), int (p div nat (ne a ! 2)))) m = Inr (addr_of a (elem_at a l), m)"
    using ptr_elem(1) [OF assms(1) elem_at_in [OF assms(1) l] e, of n m] by simp
  show "l < n_elems a" by (fact l)
qed

lemma packed_bytes_puts:
  assumes o: "dup_operands a d" "ne_is_contiguous d = Inr True" "nb a ! 0 = 4"
    and p: "p < nat (ne a ! 2) * nat (ne a ! 3)" "r < nat (ne a ! 1)"
    and l: "l = p * nat (ne a ! 1) * nat (ne a ! 0) + r * nat (ne a ! 0)"
  shows "packed_bytes (4 * nat (ne a ! 0)) a d (4 * l) (int r, int (p mod nat (ne a ! 2)), int (p div nat (ne a ! 2))) m =
    Inr ((), fold (put a d) [l..<l + nat (ne a ! 0)] m)"
proof -
  note h = dup_operandsD [OF o(1)]
  note s = row_start [OF h(1) p l]
  have "addr_of d (elem_at d (l + j)) = addr_of d (elem_at d l) + 4 * j" for j
    by (simp add: contiguous_addr [OF h(11,6) o(2)])
  then have "copy_bytes (4 * nat (ne a ! 0)) (addr_of d (elem_at d l)) (addr_of a (elem_at a l)) m =
      fold (put a d) [l..<l + nat (ne a ! 0)] m" by (intro row_bytes_puts [OF o(1,3) p l])
  then show ?thesis using s row_ptr_at [OF h(2) o(2) h(11,6)] h(8) by (simp add: packed_bytes_def)
qed

lemma for_list_map: "for_list (map h is) body = for_list is (body \<circ> h)"
  by (induction "is") simp_all

lemma dup_by_rows_share:
  assumes o: "dup_operands a d" and nb4: "nb a ! 0 = 4" "nb d ! 0 = 4" and sh: "ne_are_same_shape a d"
    and r: "ir0 \<le> ir1" "ir1 \<le> nat (ne a ! 1)"
  shows "dup_by_rows a d (int ir0) (int ir1) m = Inr ((), fold (put a d) (row_share a ir0 ir1) m)"
proof -
  note h = dup_operandsD [OF o]
  let ?n0 = "nat (ne a ! 0)" and ?n1 = "nat (ne a ! 1)" and ?n2 = "nat (ne a ! 2)" and ?P = "nat (ne a ! 2) * nat (ne a ! 3)"
  have dims: "ne d ! 0 = ne a ! 0" "ne d ! 1 = ne a ! 1" "ne d ! 2 = ne a ! 2" "ne d ! 3 = ne a ! 3"
    using sh by (simp_all add: ne_are_same_shape_def)
  let ?l = "\<lambda>p r. p * ?n1 * ?n0 + r * ?n0"
  let ?body = "\<lambda>p r. sbind (row_ptr d (4 * ?n0) (off3 (nb d) (int r, int (p mod ?n2), int (p div ?n2)))) (\<lambda>y.
      sbind (row_ptr a (4 * ?n0) (off3 (nb a) (int r, int (p mod ?n2), int (p div ?n2)))) (\<lambda>x. modify (copy_bytes (4 * ?n0) y x)))"
  have body: "?body p r m = Inr ((), fold (put a d) [?l p r..<?l p r + ?n0] m)" if "p < ?P" "r < ?n1" for p r m
  proof -
    have "row_ptr d n (off3 (nb d) (int r, int (p mod ?n2), int (p div ?n2))) m = Inr (addr_of d (elem_at d (?l p r)), m)" for n m
      using row_start(1) [OF h(2), of p r "?l p r" n m] that dims by simp
    moreover have "addr_of d (elem_at d (?l p r + j)) = addr_of d (elem_at d (?l p r)) + 4 * j" if "j < ?n0" for j
    proof -
      have "0 < ?n0" using that by simp
      with \<open>p < ?P\<close> \<open>r < ?n1\<close> that show ?thesis
        using elem_at_row(1) [OF h(2), of p r j] elem_at_row(1) [OF h(2), of p r 0] dims nb4(2)
        by (simp add: addr_of_def elem_offset_def)
    qed
    ultimately show ?thesis
      using row_start(1) [OF h(1) that refl] row_bytes_puts [OF o nb4(1) that refl] by simp
  qed
  let ?row = "\<lambda>i02 i03 i01. sbind (row_ptr d (4 * ?n0) (off3 (nb d) (i01, i02, i03))) (\<lambda>y.
      sbind (row_ptr a (4 * ?n0) (off3 (nb a) (i01, i02, i03))) (\<lambda>x. modify (copy_bytes (4 * ?n0) y x)))"
  have rows: "for_list (map int [ir0..<ir1]) (?row (int (p mod ?n2)) (int (p div ?n2))) m =
      Inr ((), fold (\<lambda>r. fold (put a d) [?l p r..<?l p r + ?n0]) [ir0..<ir1] m)" if "p < ?P" for p m
  proof -
    have "for_list [ir0..<ir1] (?body p) m = Inr ((), fold (\<lambda>r. fold (put a d) [?l p r..<?l p r + ?n0]) [ir0..<ir1] m)"
      using body [OF that] r(2) by (intro for_list_fold) auto
    then show ?thesis unfolding for_list_map comp_def .
  qed
  have "for_list (map (\<lambda>p. (int (p mod ?n2), int (p div ?n2))) [0..<?P])
      (\<lambda>(i02, i03). for_list (map int [ir0..<ir1]) (?row i02 i03)) m =
      Inr ((), fold (\<lambda>p. fold (\<lambda>r. fold (put a d) [?l p r..<?l p r + ?n0]) [ir0..<ir1]) [0..<?P] m)"
    by (subst for_list_map, unfold comp_def prod.case, rule for_list_fold, rule rows) simp
  then show ?thesis
    unfolding dup_by_rows_def row_size [OF o nb4(1)] planes_of [OF h(1)] fold_planes_share [OF r(1)] upto_int Let_def .
qed

end
