(* ===== verification/NE_Dup_Results.thy ===== *)
theory NE_Dup_Results
  imports NE_Dup_Laws
begin

text \<open>
  The copy of a tensor of 32-bit floats into another layout: what every task copies in each branch
  of \<^verbatim>\<open>ne_compute_forward_dup_f32\<close>, and the result of a copying node for every schedule of its calls.
\<close>

section \<open>The share of a task\<close>

definition per_task :: "int \<Rightarrow> int \<Rightarrow> int" where
  "per_task n nt = (n + nt - 1) div nt"

definition block_lo :: "int \<Rightarrow> int \<Rightarrow> int \<Rightarrow> nat" where
  "block_lo n nt i = nat (per_task n nt * i)"

definition block_hi :: "int \<Rightarrow> int \<Rightarrow> int \<Rightarrow> nat" where
  "block_hi n nt i = nat (min (per_task n nt * i + per_task n nt) n)"

definition flat_copy :: "ne_tensor \<Rightarrow> ne_tensor \<Rightarrow> bool" where
  "flat_copy a d \<longleftrightarrow> ne_is_contiguous a = Inr True \<and> ne_is_contiguous d = Inr True"

definition dup_share :: "ne_tensor \<Rightarrow> ne_tensor \<Rightarrow> int \<Rightarrow> int \<Rightarrow> nat list" where
  "dup_share a d nt i =
     (if flat_copy a d then [block_lo (ne_nelements a) nt i ..< block_hi (ne_nelements a) nt i]
      else row_share a (block_lo (ne a ! 1) nt i) (block_hi (ne a ! 1) nt i))"

definition dup_owner :: "ne_tensor \<Rightarrow> ne_tensor \<Rightarrow> int \<Rightarrow> nat \<Rightarrow> int" where
  "dup_owner a d nt l =
     (if flat_copy a d then int l div per_task (ne_nelements a) nt
      else int (l div nat (ne a ! 0) mod nat (ne a ! 1)) div per_task (ne a ! 1) nt)"

lemma block_bounds:
  assumes "0 < n" "0 < nt" "0 \<le> i"
  shows "0 < per_task n nt" "int (block_lo n nt i) = per_task n nt * i" "block_hi n nt i \<le> nat n"
    and "int (block_hi n nt i) = min (per_task n nt * i + per_task n nt) n"
    and "block_lo n nt i \<le> l \<and> l < block_hi n nt i \<longleftrightarrow> int l < n \<and> int l div per_task n nt = i"
proof -
  show p: "0 < per_task n nt" unfolding per_task_def by (rule rows_per_task_pos [OF assms(1,2)])
  then have q: "0 \<le> per_task n nt * i" using assms(3) by simp
  then show lo: "int (block_lo n nt i) = per_task n nt * i" by (simp add: block_lo_def)
  show "block_hi n nt i \<le> nat n" by (simp add: block_hi_def)
  show hi: "int (block_hi n nt i) = min (per_task n nt * i + per_task n nt) n"
    using p q assms(1) by (simp add: block_hi_def)
  have "block_lo n nt i \<le> l \<and> l < block_hi n nt i \<longleftrightarrow> int (block_lo n nt i) \<le> int l \<and> int l < int (block_hi n nt i)" by simp
  also have "\<dots> \<longleftrightarrow> int l < n \<and> int l div per_task n nt = i" unfolding lo hi int_div_eq_iff [OF p] by auto
  finally show "block_lo n nt i \<le> l \<and> l < block_hi n nt i \<longleftrightarrow> int l < n \<and> int l div per_task n nt = i" .
qed

lemma plane_row:
  assumes "0 < n0" "0 < n1" "r1 \<le> n1"
  shows "p * n1 * n0 + r0 * n0 \<le> l \<and> l < p * n1 * n0 + r1 * n0 \<longleftrightarrow>
    p = l div n0 div n1 \<and> r0 \<le> l div n0 mod n1 \<and> l div n0 mod n1 < (r1::nat)"
proof -
  have "p * n1 * n0 + r * n0 = (p * n1 + r) * n0" for r by (simp add: algebra_simps)
  then have "p * n1 * n0 + r0 * n0 \<le> l \<and> l < p * n1 * n0 + r1 * n0 \<longleftrightarrow> p * n1 + r0 \<le> l div n0 \<and> l div n0 < p * n1 + r1"
    using assms(1) by (simp only: less_eq_div_iff_mult_less_eq div_less_iff_less_mult)
  also have "\<dots> \<longleftrightarrow> p = l div n0 div n1 \<and> r0 \<le> l div n0 mod n1 \<and> l div n0 mod n1 < r1" (is "?L \<longleftrightarrow> ?R")
  proof
    assume h: ?L
    then obtain r where r: "l div n0 = r + p * n1" "r0 \<le> r" "r < r1" by (metis add.commute add_le_cancel_right add_less_cancel_right le_Suc_ex nat_add_left_cancel_le le_trans le_add1)
    then show ?R using assms by simp
  next
    assume h: ?R
    have "l div n0 = l div n0 div n1 * n1 + l div n0 mod n1" by simp
    with h show ?L by (metis add_left_mono nat_add_left_cancel_less)
  qed
  finally show ?thesis .
qed

lemma row_share_positions:
  assumes "addressable a" "r1 \<le> nat (ne a ! 1)"
  shows "set (row_share a r0 r1) = {l. l < n_elems a \<and> r0 \<le> l div nat (ne a ! 0) mod nat (ne a ! 1) \<and>
      l div nat (ne a ! 0) mod nat (ne a ! 1) < r1}"
    and "distinct (row_share a r0 r1)"
proof -
  let ?n0 = "nat (ne a ! 0)" and ?n1 = "nat (ne a ! 1)" and ?P = "nat (ne a ! 2) * nat (ne a ! 3)"
  have n: "0 < ?n0" "0 < ?n1" using addressable_bounds [OF assms(1)] by auto
  have "l div ?n0 div ?n1 < ?P \<longleftrightarrow> l < n_elems a" for l
    using n by (simp add: div_less_iff_less_mult n_elems_def ac_simps)
  then show "set (row_share a r0 r1) = {l. l < n_elems a \<and> r0 \<le> l div ?n0 mod ?n1 \<and> l div ?n0 mod ?n1 < r1}"
    using plane_row [OF n assms(2)] by (auto simp: row_share_def)
  have "distinct (concat (map (\<lambda>p. [p * ?n1 * ?n0 + r0 * ?n0 ..< p * ?n1 * ?n0 + r1 * ?n0]) [0..<k]))" for k
  proof (induction k)
    case (Suc k)
    then show ?case using plane_row [OF n assms(2)] by auto
  qed simp
  then show "distinct (row_share a r0 r1)" unfolding row_share_def .
qed

lemma dup_share_owner:
  assumes o: "dup_operands a d" and t: "0 < nt" "0 \<le> i"
  shows "distinct (dup_share a d nt i) \<and> set (dup_share a d nt i) = {l. l < n_elems a \<and> dup_owner a d nt l = i}"
proof -
  note h = dup_operandsD [OF o]
  have n1: "0 < ne a ! 1" and n0: "0 < nat (ne a ! 1)" using addressable_bounds [OF h(1)] by auto
  have N: "ne_nelements a = int (n_elems a)" using count_nelements [OF h(1)] by simp
  have "0 < n_elems a" using addressable_bounds [OF h(1)] by (simp add: n_elems_def)
  then have e: "0 < ne_nelements a" using N by simp
  have r: "int (l div nat (ne a ! 0) mod nat (ne a ! 1)) < ne a ! 1" for l
    using mod_less_divisor [OF n0, of "l div nat (ne a ! 0)"] by linarith
  show ?thesis
  proof (cases "flat_copy a d")
    case True
    then have "set (dup_share a d nt i) = {l. block_lo (ne_nelements a) nt i \<le> l \<and> l < block_hi (ne_nelements a) nt i}"
        "distinct (dup_share a d nt i)" by (auto simp: dup_share_def)
    then show ?thesis unfolding block_bounds(5) [OF e t] dup_owner_def if_P [OF True] by (simp add: N)
  next
    case False
    have "set (dup_share a d nt i) = {l. l < n_elems a \<and> block_lo (ne a ! 1) nt i \<le> l div nat (ne a ! 0) mod nat (ne a ! 1) \<and>
        l div nat (ne a ! 0) mod nat (ne a ! 1) < block_hi (ne a ! 1) nt i}" and "distinct (dup_share a d nt i)"
      using False row_share_positions [OF h(1) block_bounds(3) [OF n1 t]] by (simp_all only: dup_share_def if_False)
    then show ?thesis unfolding block_bounds(5) [OF n1 t] dup_owner_def if_not_P [OF False] using r by simp
  qed
qed

lemma dup_owner_range:
  assumes o: "dup_operands a d" and t: "0 < nt" and l: "l < n_elems a"
  shows "dup_owner a d nt l \<in> {0 ..< nt}"
proof -
  note h = dup_operandsD [OF o]
  have n0: "0 < nat (ne a ! 1)" using addressable_bounds [OF h(1)] by auto
  have "int (l div nat (ne a ! 0) mod nat (ne a ! 1)) < ne a ! 1"
    using mod_less_divisor [OF n0, of "l div nat (ne a ! 0)"] by linarith
  then show ?thesis using l t count_nelements [OF h(1)] unfolding dup_owner_def per_task_def
    by (cases "flat_copy a d") (simp_all only: if_True if_False, (intro block_owner_range; simp)+)
qed

section \<open>The calls\<close>

lemma contiguous_f32: "ty t = NE_TYPE_F32 \<Longrightarrow> ne_is_contiguous t = Inr (ne_is_contiguous t = Inr True)"
  by (auto simp: ne_is_contiguous_def udiv_def andR_def)

lemma sbind_liftR: "sbind (liftR (Inr x)) f m = f x m"
  by (simp add: sbind_def)

lemma flat_call:
  assumes o: "dup_operands a d" and c: "flat_copy a d" and t: "task ps = NE_TASK_COMPUTE" "0 < nth ps" "0 \<le> ith ps"
  shows "ne_compute_forward_dup_same_cont ps a d m = Inr ((), fold (put a d) (dup_share a d (nth ps) (ith ps)) m)"
proof -
  note h = dup_operandsD [OF o]
  let ?N = "ne_nelements a" and ?lo = "block_lo (ne_nelements a) (nth ps) (ith ps)" and ?hi = "block_hi (ne_nelements a) (nth ps) (ith ps)"
  have N: "?N = int (n_elems a)" using count_nelements [OF h(1)] by simp
  have "0 < n_elems a" using addressable_bounds [OF h(1)] by (simp add: n_elems_def)
  then have N0: "0 < ?N" "to_int32 ?N = ?N" using h(9) by (simp_all add: N to_int32_id)
  note b = block_bounds [OF N0(1) t(2,3)]
  have cont: "ne_is_contiguous a = Inr True" "ne_is_contiguous d = Inr True" using c by (simp_all add: flat_copy_def)
  then have nb4: "nb a ! 0 = 4" "nb d ! 0 = 4" using h(5,6) by (simp_all add: ne_is_contiguous_True)
  have dr: "cdiv (?N + nth ps - 1) (nth ps) = Inr (per_task ?N (nth ps))"
    using N0 t(2) by (simp add: cdiv_nonneg per_task_def)
  have hi: "min (int ?lo + per_task ?N (nth ps)) ?N = int ?hi" unfolding b(2,4) ..
  have run: "copy_bytes (4 * (?hi - ?lo)) (addr_of d (elem_at d ?lo)) (addr_of a (elem_at a ?lo)) m = fold (put a d) [?lo..<?hi] m"
    if "?lo < ?hi" for m
  proof -
    have "?lo + (?hi - ?lo) \<le> n_elems a" using b(3) that N by simp
    from range_bytes_puts [OF o _ this] show ?thesis
      using that contiguous_addr [OF h(10,5) cont(1)] contiguous_addr [OF h(11,6) cont(2)] by simp
  qed
  show ?thesis
  proof (cases "?lo < ?hi")
    case True
    have lt: "?lo < n_elems a" and lo: "int ?lo < ?N" using b(3) True N by simp_all
    have sz: "wrap64 (nat (int ?hi - int ?lo) * 4) = 4 * (?hi - ?lo)" "to_size (int ?lo) = ?lo"
      using True b(3) N h(9) by (simp_all add: nat_diff_distrib to_size_int)
    have pd: "row_ptr d k (?lo * nb d ! 0) m = Inr (addr_of d (elem_at d ?lo), m)" for k m
      using row_ptr_at [OF h(2) cont(2) h(11,6), of ?lo k m] lt h(8) unfolding nb4 mult.commute [of _ 4] by simp
    have pa: "row_ptr a k (?lo * nb a ! 0) m = Inr (addr_of a (elem_at a ?lo), m)" for k m
      using row_ptr_at [OF h(1) cont(1) h(10,5) lt, of k m] unfolding nb4 mult.commute [of _ 4] .
    show ?thesis
      using True cont h(5-7) t(1) N0 dr sz run [OF True] c lo b(1)
      by (simp add: ne_compute_forward_dup_same_cont_def ne_assertR_def is_init_or_finalize_def Let_def
          b(2) [symmetric] hi pd pa dup_share_def)
  next
    case False
    then have "\<not> int ?lo < ?N" using hi b(1) by linarith
    with False show ?thesis using cont h(5-7) t(1) N0 dr c
      by (simp add: ne_compute_forward_dup_same_cont_def ne_assertR_def is_init_or_finalize_def Let_def
          b(2) [symmetric] hi dup_share_def)
  qed
qed

lemma row_share_empty: "ir1 \<le> ir0 \<Longrightarrow> row_share a ir0 ir1 = []"
  by (auto simp: row_share_def concat_eq_Nil_conv)

lemma fold_idle: "fold (\<lambda>_ m. m) xs m = m"
  by (induction xs) simp_all

lemma idle_rows:
  assumes "ir1 \<le> ir0"
  shows "dup_by_rows a d (int ir0) (int ir1) m = Inr ((), m)"
    and "dup_packed rs a (int ir0) (int ir1) body m = Inr ((), m)"
    and "dims_pos (ne d) \<Longrightarrow> dup_counted w a d (int ir0) (int ir1) cbody m = Inr ((), m)"
proof -
  have "for_list (planes a) (\<lambda>(i02, i03). ret ()) m = Inr ((), m)"
    using for_list_fold [of "planes a" "\<lambda>(i02, i03). ret ()" "\<lambda>_ m. m" m] by (auto simp: fold_idle)
  with assms show "dup_by_rows a d (int ir0) (int ir1) m = Inr ((), m)" by (simp add: dup_by_rows_def)
  show "dup_packed rs a (int ir0) (int ir1) body m = Inr ((), m)"
    using assms by (simp add: dup_packed_def packed_planes_idle)
  show "dims_pos (ne d) \<Longrightarrow> dup_counted w a d (int ir0) (int ir1) cbody m = Inr ((), m)"
    using assms by (simp add: dup_counted_def counted_planes_idle)
qed

lemma dup_packed_rows:
  assumes o: "dup_operands a d" "ne_is_contiguous d = Inr True" and r: "ir0 \<le> ir1" "ir1 \<le> nat (ne a ! 1)"
  shows "dup_f32_packed fc qf a d (int ir0) (int ir1) m = Inr ((), fold (put a d) (row_share a ir0 ir1) m)"
proof (cases "nb a ! 0 = 4")
  case True
  note h = dup_operandsD [OF o(1)]
  have "4 * n_elems a < 2 ^ 64" using h(9) by simp
  then have "dup_packed (4 * nat (ne a ! 0)) a (int ir0) (int ir1) (packed_bytes (4 * nat (ne a ! 0)) a d) m =
      Inr ((), fold (put a d) (row_share a ir0 ir1) m)"
    by (rule dup_packed_share [OF o(1) r]) (rule packed_bytes_puts [OF o True])
  then show ?thesis using True h(6) by (simp add: dup_f32_packed_def Let_def row_size [OF o(1) True, unfolded True])
next
  case False
  note h = dup_operandsD [OF o(1)]
  have "1 * n_elems a < 2 ^ 64" using h(9) by simp
  then have "dup_packed (1 * nat (ne a ! 0)) a (int ir0) (int ir1) (packed_elems 4 conv_f32 a d) m =
      Inr ((), fold (put a d) (row_share a ir0 ir1) m)"
    by (rule dup_packed_share [OF o(1) r]) (unfold mult_1, rule packed_elems_puts [OF o])
  moreover have "to_size (ne a ! 0) = nat (ne a ! 0)" using addressable_bounds [OF h(1)] by (simp add: to_size_nonneg)
  ultimately show ?thesis using False h(6) by (simp add: dup_f32_packed_def)
qed

lemma dup_range_blocks:
  assumes "addressable a" "0 < nth ps" "0 \<le> ith ps"
  shows "dup_range ps a = Inr (int (block_lo (ne a ! 1) (nth ps) (ith ps)), int (block_hi (ne a ! 1) (nth ps) (ith ps)))"
proof -
  note b = addressable_bounds [OF assms(1)]
  have "to_int32 (ne a ! 1) = ne a ! 1" using b by (intro to_int32_id) auto
  then show ?thesis using b(2) assms(2) block_bounds(2,4) [OF b(2) assms(2,3)]
    by (simp add: dup_range_def cdiv_nonneg per_task_def Let_def)
qed

lemma dup_call:
  assumes o: "dup_operands a d" and t: "task ps = NE_TASK_COMPUTE" "0 < nth ps" "0 \<le> ith ps"
  shows "ne_compute_forward_dup_f32 fc qf ps a d m = Inr ((), fold (put a d) (dup_share a d (nth ps) (ith ps)) m)"
proof (cases "flat_copy a d")
  case True
  then show ?thesis using flat_call [OF o True t] dup_operandsD [OF o] t(1)
    by (simp add: ne_compute_forward_dup_f32_def is_init_or_finalize_def flat_copy_def)
next
  case False
  note h = dup_operandsD [OF o]
  note ba = addressable_bounds [OF h(1)]
  let ?lo = "block_lo (ne a ! 1) (nth ps) (ith ps)" and ?hi = "block_hi (ne a ! 1) (nth ps) (ith ps)"
  have hi: "?hi \<le> nat (ne a ! 1)" by (rule block_bounds(3) [OF ba(2) t(2,3)])
  have dp: "dims_pos (ne d)" using addressable_bounds [OF h(2)] by (simp add: dims_pos_def)
  have share: "dup_share a d (nth ps) (ith ps) = row_share a ?lo ?hi" using False by (simp add: dup_share_def)
  have idle: "row_share a ?lo ?hi = []" if "\<not> ?lo \<le> ?hi" using that by (simp add: row_share_empty)
  have cont: "\<not> (ne_is_contiguous a = Inr True \<and> ne_is_contiguous d = Inr True)" using False by (simp add: flat_copy_def)
  have head: "ne_compute_forward_dup_f32 fc qf ps a d m =
     (if ne a ! 0 = ne d ! 0 \<and> nb a ! 0 = 4 \<and> nb d ! 0 = 4 then dup_by_rows a d (int ?lo) (int ?hi) m
      else if ne_is_contiguous d = Inr True then dup_f32_packed fc qf a d (int ?lo) (int ?hi) m
      else dup_counted (ne d) a d (int ?lo) (int ?hi) (counted_bytes 4) m)"
  proof -
    obtain c' c where c: "ne_is_contiguous a = Inr c'" "ne_is_contiguous d = Inr c"
      using contiguous_f32 [OF h(5)] contiguous_f32 [OF h(6)] by blast
    with cont have same: "andR (ne_is_contiguous a) (andR (ne_is_contiguous d) (Inr True)) = Inr False"
      by (auto simp: andR_def)
    from c(2) h(5-7) t(1) same dup_range_blocks [OF h(1) t(2,3)] show ?thesis
      by (simp add: ne_compute_forward_dup_f32_def is_init_or_finalize_def sbind_liftR)
  qed
  have shape: "ne_are_same_shape a d" if "ne a ! 0 = ne d ! 0 \<and> nb a ! 0 = 4 \<and> nb d ! 0 = 4"
    using o that by (simp add: dup_operands_def)
  show ?thesis
  proof (cases "?lo \<le> ?hi")
    case True
    then show ?thesis unfolding head share
      using dup_by_rows_share [OF o _ _ shape True hi] dup_packed_rows [OF o _ True hi] dup_counted_share [OF o True hi]
      by simp
  next
    case False
    then have "dup_f32_packed fc qf a d (int ?lo) (int ?hi) m = Inr ((), m)"
      using h(6) by (simp add: dup_f32_packed_def Let_def idle_rows(2))
    with False show ?thesis unfolding head share idle [OF False]
      using idle_rows(1,3) [of ?hi ?lo] dp by simp
  qed
qed

section \<open>The node\<close>

lemma dup_scheduled:
  assumes o: "dup_operands a d" and n: "0 < n_tasks d" "n_tasks d \<le> int team"
    and sch: "schedule calls (node_calls team wsz wdat d)"
  shows "\<exists>m'. for_list calls (\<lambda>ps. ne_compute_forward_dup_f32 fc qf ps a d) m = Inr ((), m') \<and>
    result_is d (\<lambda>i0 i1 i2 i3. dup_val a d (i0, i1, i2, i3) m) m m'"
proof -
  note h = dup_operandsD [OF o]
  let ?kern = "\<lambda>ps. ne_compute_forward_dup_f32 fc qf ps a d"
  let ?part = "\<lambda>i. map (elem_at d) (dup_share a d (n_tasks d) i)" and ?owner = "\<lambda>q. dup_owner a d (n_tasks d) (pos_of d q)"
  have inj: "inj_on (elem_at d) A" for A by (rule inj_on_inverseI [where g = "pos_of d"]) (rule pos_of_elem_at)
  have quiet: "?kern ps m = Inr ((), m)" if "task ps = NE_TASK_INIT \<or> task ps = NE_TASK_FINALIZE" for ps m
    using that h(7) by (simp add: ne_compute_forward_dup_f32_def is_init_or_finalize_def)
  have "\<exists>qs. distinct qs \<and> set qs = elems_of d \<and> for_list calls ?kern m = Inr ((), run_writes (addr_of d) (dup_val a d) qs m)"
  proof (rule schedule_writes [OF n sch, where g = "\<lambda>m. m" and keep = "\<lambda>_. True" and part = ?part and owner = ?owner])
    show "?kern ps m = Inr ((), run_writes (addr_of d) (dup_val a d) (?part (ith ps)) m) \<and> True"
      if "task ps = NE_TASK_COMPUTE" "nth ps = n_tasks d" "0 \<le> ith ps" for ps m
      using dup_call [OF o that(1) _ that(3)] that(2) n(1) by (simp add: fold_put)
    show "distinct (?part i) \<and> set (?part i) = {q \<in> elems_of d. ?owner q = i}" if "0 \<le> i" "i < n_tasks d" for i
    proof -
      have s: "distinct (dup_share a d (n_tasks d) i)"
          "set (dup_share a d (n_tasks d) i) = {l. l < n_elems d \<and> dup_owner a d (n_tasks d) l = i}"
        using dup_share_owner [OF o n(1) that(1)] h(8) by auto
      have "elem_at d ` {l. l < n_elems d \<and> dup_owner a d (n_tasks d) l = i} = {q \<in> elems_of d. ?owner q = i}"
      proof (intro equalityI subsetI)
        fix q assume "q \<in> elem_at d ` {l. l < n_elems d \<and> dup_owner a d (n_tasks d) l = i}"
        then show "q \<in> {q \<in> elems_of d. ?owner q = i}" using elem_at_in [OF h(2)] by (auto simp: pos_of_elem_at)
      next
        fix q assume "q \<in> {q \<in> elems_of d. ?owner q = i}"
        with elem_at_pos_of [of q d] show "q \<in> elem_at d ` {l. l < n_elems d \<and> dup_owner a d (n_tasks d) l = i}"
          by (intro image_eqI [of _ _ "pos_of d q"]) auto
      qed
      with s inj show ?thesis by (simp add: distinct_map)
    qed
    show "?owner q \<in> {0 ..< n_tasks d}" if "q \<in> elems_of d" for q
      using elem_at_pos_of(2) [OF that] h(8) by (intro dup_owner_range [OF o n(1)]) simp
  qed (use quiet in auto)
  then obtain qs where "distinct qs" "set qs = elems_of d"
      "for_list calls ?kern m = Inr ((), run_writes (addr_of d) (dup_val a d) qs m)" by blast
  with writes_result [OF h(3) dup_stable [OF o]] show ?thesis by blast
qed

lemma dup_dispatch:
  assumes o: "dup_operands a d"
  shows "ne_compute_forward_dup fc qf ps a d m = ne_compute_forward_dup_f32 fc qf ps a d m"
proof -
  note h = dup_operandsD [OF o]
  obtain c' c where c: "ne_is_contiguous a = Inr c'" "ne_is_contiguous d = Inr c"
    using contiguous_f32 [OF h(5)] contiguous_f32 [OF h(6)] by blast
  show ?thesis
  proof (cases "c' \<and> c")
    case True
    then show ?thesis using c h(5-7)
      by (simp add: ne_compute_forward_dup_def ne_compute_forward_dup_f32_def ne_compute_forward_dup_same_cont_def ne_assertR_def)
  next
    case False
    then have "andR (ne_is_contiguous a) (andR (ne_is_contiguous d) (Inr True)) = Inr False" using c by (auto simp: andR_def)
    then show ?thesis using h(5,6) by (simp add: ne_compute_forward_dup_def sbind_liftR)
  qed
qed

section \<open>Properties\<close>

text \<open>
  C7. Copies between layouts (\<^verbatim>\<open>ne_compute_forward_dup\<close>, \<^verbatim>\<open>_cpy\<close>, \<^verbatim>\<open>_cont\<close>) of 32-bit floats. Source and
  destination may be permuted views of different shapes with the same number of elements; whichever
  of its five branches the code takes (one block, row by row, packed rows, packed elements or running
  counters), for every number of tasks and every schedule of the calls of the node the copy succeeds,
  the element of the destination at a position of the linear order is the element of the source at
  the same position, and no other byte of the memory changes. Row by row copies need equal shapes.
\<close>

theorem dup_any_schedule:
  assumes "kern \<in> {ne_compute_forward_dup fc qf, ne_compute_forward_cpy fc qf, ne_compute_forward_cont fc qf}"
    and "dup_operands a d" "0 < n_tasks d" "n_tasks d \<le> int team" "schedule calls (node_calls team wsz wdat d)"
  shows "\<exists>m'. for_list calls (\<lambda>ps. kern ps a d) m = Inr ((), m') \<and>
    result_is d (\<lambda>i0 i1 i2 i3. case elem_at a (linear_index d i0 i1 i2 i3) of (j0, j1, j2, j3) \<Rightarrow> elem m a j0 j1 j2 j3) m m'"
proof -
  have "kern ps a d = ne_compute_forward_dup_f32 fc qf ps a d" for ps
    using assms(1) dup_dispatch [OF assms(2)] by (auto simp: ne_compute_forward_cpy_def ne_compute_forward_cont_def)
  moreover have "dup_val a d (i0, i1, i2, i3) m =
      (case elem_at a (linear_index d i0 i1 i2 i3) of (j0, j1, j2, j3) \<Rightarrow> elem m a j0 j1 j2 j3)" for i0 i1 i2 i3
    by (simp add: dup_val_def pos_of_def addr_of_def elem_def split: prod.split)
  ultimately show ?thesis using dup_scheduled [OF assms(2-5), of fc qf m] by simp
qed

definition demo_turned :: ne_tensor where "demo_turned = demo_f32 [2, 2, 1, 1] [8, 4, 16, 16] 4096"

lemma demo_dup_operands: "dup_operands demo_turned demo_dst"
  using rows_apart_elems [OF demo_layout(3)]
  by (simp add: dup_operands_def) (simp add: demo_turned_def demo_kernel_defs addressable_def apart_def span_def
      elem_offset_def ne_nelements_def)

theorem dup_any_schedule_witness:
  "\<exists>m'. for_list (concat (node_calls 2 0 0 demo_dst))
      (\<lambda>ps. ne_compute_forward_cont demo_fc (\<lambda>_ _ _ _ m. m) ps demo_turned demo_dst) demo_mem = Inr ((), m') \<and>
    load32 m' (12288 + 4) = load32 demo_mem (4096 + 8)"
proof -
  have "n_tasks demo_dst = 2" by (simp add: demo_kernel_defs)
  then obtain m' where m': "for_list (concat (node_calls 2 0 0 demo_dst))
        (\<lambda>ps. ne_compute_forward_cont demo_fc (\<lambda>_ _ _ _ m. m) ps demo_turned demo_dst) demo_mem = Inr ((), m')"
      "result_is demo_dst (\<lambda>i0 i1 i2 i3. case elem_at demo_turned (linear_index demo_dst i0 i1 i2 i3) of
        (j0, j1, j2, j3) \<Rightarrow> elem demo_mem demo_turned j0 j1 j2 j3) demo_mem m'"
    using dup_any_schedule [of "ne_compute_forward_cont demo_fc (\<lambda>_ _ _ _ m. m)" demo_fc "\<lambda>_ _ _ _ m. m"
        demo_turned demo_dst 2 "concat (node_calls 2 0 0 demo_dst)" 0 0 demo_mem] demo_dup_operands schedule_in_order by auto
  have "in_range demo_dst 1 0 0 0" by (simp add: in_range_def demo_kernel_defs)
  from m'(1) result_is_elem [OF m'(2) this] show ?thesis
    by (simp add: elem_def elem_offset_def demo_turned_def demo_kernel_defs elem_at_def linear_index_def)
qed

end
