(* ===== verification/NE_Matmul_Results.thy ===== *)
theory NE_Matmul_Results
  imports NE_Matmul NE_Dup_Results
begin

text \<open>
  Matrix products are computed as specified, for every schedule of the calls of a node. The interface
  \<open>row_dot\<close> states what the kernels need of a dot product; it is interpreted on the dot products of
  32-bit and 16-bit floats, and the dot products of the block formats satisfy it. The conversion of
  the second operand into the work buffer is a sequence of rows written one after the other.
\<close>

section \<open>Operands\<close>

text \<open>
  A tensor whose rows have \<open>w\<close> bytes, whatever its type, and what the operands of a product look
  like. Planes of \<^verbatim>\<open>src0\<close> are shared by consecutive planes of \<^verbatim>\<open>src1\<close> in the third dimension or repeated
  in the fourth; the index computation is right for one of the two at a time.
\<close>

definition row_span :: "ne_tensor \<Rightarrow> nat \<Rightarrow> nat" where
  "row_span t w = elem_offset t 0 (nat (ne t ! 1) - 1) (nat (ne t ! 2) - 1) (nat (ne t ! 3) - 1) + w"

definition rows_fit :: "ne_tensor \<Rightarrow> nat \<Rightarrow> bool" where
  "rows_fit t w \<longleftrightarrow> data t \<noteq> NULL \<and> 0 < w \<and> data t + row_span t w \<le> 2 ^ 64 \<and>
     0 < ne t ! 0 \<and> 0 < ne t ! 1 \<and> 0 < ne t ! 2 \<and> 0 < ne t ! 3 \<and>
     ne t ! 0 < 2 ^ 31 \<and> ne t ! 1 < 2 ^ 31 \<and> ne t ! 2 < 2 ^ 31 \<and> ne t ! 3 < 2 ^ 31"

definition mul_mat_operands :: "ne_tensor \<Rightarrow> ne_tensor \<Rightarrow> ne_tensor \<Rightarrow> nat \<Rightarrow> bool" where
  "mul_mat_operands a b d w \<longleftrightarrow> rows_apart d \<and> rows_fit a w \<and> gap (data a) (row_span a w) (data d) (span d) \<and>
     ne_can_mul_mat a b = Inr True \<and> ne d ! 0 = ne a ! 1 \<and> ne d ! 1 = ne b ! 1 \<and> ne d ! 2 = ne b ! 2 \<and> ne d ! 3 = ne b ! 3 \<and>
     (ne a ! 2 = ne b ! 2 \<or> ne a ! 3 = 1)"

definition plane2 :: "ne_tensor \<Rightarrow> ne_tensor \<Rightarrow> nat \<Rightarrow> nat" where
  "plane2 a b i2 = i2 div (nat (ne b ! 2) div nat (ne a ! 2))"

definition plane3 :: "ne_tensor \<Rightarrow> nat \<Rightarrow> nat" where
  "plane3 a i3 = i3 mod nat (ne a ! 3)"

definition row_at :: "ne_tensor \<Rightarrow> nat \<Rightarrow> nat \<Rightarrow> nat \<Rightarrow> ptr" where
  "row_at t i1 i2 i3 = data t + elem_offset t 0 i1 i2 i3"

lemma row_in_span:
  "i1 < nat (ne t ! 1) \<Longrightarrow> i2 < nat (ne t ! 2) \<Longrightarrow> i3 < nat (ne t ! 3) \<Longrightarrow> elem_offset t 0 i1 i2 i3 + w \<le> row_span t w"
  unfolding row_span_def elem_offset_def by (intro add_mono mult_le_mono) auto

lemma row_ptr_row:
  assumes "rows_fit t w" "i1 < nat (ne t ! 1)" "i2 < nat (ne t ! 2)" "i3 < nat (ne t ! 3)"
  shows "row_ptr t k (off3 (nb t) (int i1, int i2, int i3)) m = Inr (row_at t i1 i2 i3, m)"
proof -
  have b: "int i1 < 2 ^ 31" "int i2 < 2 ^ 31" "int i3 < 2 ^ 31" using assms by (auto simp: rows_fit_def)
  have "off3 (nb t) (int i1, int i2, int i3) = elem_offset t 0 i1 i2 i3"
    unfolding off3_def prod.case to_size_int [OF b(1)] to_size_int [OF b(2)] to_size_int [OF b(3)]
    by (simp add: elem_offset_def)
  moreover have "data t + elem_offset t 0 i1 i2 i3 < 2 ^ 64" "data t \<noteq> NULL"
    using row_in_span [OF assms(2-4), of w] assms(1) by (auto simp: rows_fit_def)
  ultimately show ?thesis by (simp add: row_ptr_def row_at_def)
qed

lemma plane_div_mod: "0 < (A::int) \<Longrightarrow> 0 < B \<Longrightarrow> x mod (A * B) div A = x div A mod B"
  by (simp add: zmod_zmult2_eq)

lemma operand_dims:
  assumes "mul_mat_operands a b d w"
  shows "0 < ne a ! 0" "0 < ne a ! 1" "0 < ne a ! 2" "0 < ne a ! 3" "0 < ne b ! 1" "0 < ne b ! 2" "0 < ne b ! 3"
    and "ne a ! 2 dvd ne b ! 2" "ne b ! 0 = ne a ! 0" "addressable d"
  using assms by (auto simp: mul_mat_operands_def rows_fit_def rows_apart_def addressable_def ne_can_mul_mat_True)

lemma plane_bounds:
  assumes "mul_mat_operands a b d w" "i2 < nat (ne b ! 2)"
  shows "plane2 a b i2 < nat (ne a ! 2)" "plane3 a i3 < nat (ne a ! 3)" "0 < nat (ne b ! 2) div nat (ne a ! 2)"
proof -
  note p = operand_dims [OF assms(1)]
  obtain c where c: "ne b ! 2 = ne a ! 2 * c" using p(8) by (auto elim: dvdE)
  then have "0 < c" using p(3,6) by (simp add: zero_less_mult_iff)
  then have n: "nat (ne b ! 2) = nat c * nat (ne a ! 2)" unfolding c using p(3) by (simp add: nat_mult_distrib mult.commute)
  then have q: "nat (ne b ! 2) div nat (ne a ! 2) = nat c" using p(3) by simp
  show "0 < nat (ne b ! 2) div nat (ne a ! 2)" unfolding q using \<open>0 < c\<close> by simp
  show "plane2 a b i2 < nat (ne a ! 2)"
    unfolding plane2_def q using assms(2) \<open>0 < c\<close> unfolding n by (simp add: less_mult_imp_div_less mult.commute)
  show "plane3 a i3 < nat (ne a ! 3)" unfolding plane3_def using p(4) by simp
qed

lemma src0_plane_eq:
  assumes "mul_mat_operands a b d w" "i1 < nat (ne b ! 1)" "i2 < nat (ne b ! 2)"
    and "r = int i1 + ne b ! 1 * (int i2 + ne b ! 2 * int i3)"
  shows "src0_plane a b r (int i2) = Inr (int (plane2 a b i2), int (plane3 a i3))"
proof -
  note p = operand_dims [OF assms(1)]
  let ?x = "int i2 + ne b ! 2 * int i3"
  have x: "r div ne b ! 1 = ?x" "0 \<le> r" "0 \<le> ?x" using assms(2,4) p by simp_all
  have "?x mod (ne a ! 2 * ne a ! 3) div ne a ! 2 = int (plane3 a i3)"
  proof (cases "ne a ! 3 = 1")
    case True
    then show ?thesis using plane_div_mod [OF p(3,4), of ?x] by (simp add: plane3_def)
  next
    case False
    then have "ne a ! 2 = ne b ! 2" using assms(1) by (simp add: mul_mat_operands_def)
    then have "?x div ne a ! 2 = int i3" using assms(3) p by simp
    then show ?thesis using plane_div_mod [OF p(3,4), of ?x] p(4) by (simp add: plane3_def zmod_int)
  qed
  moreover have "int i2 div (ne b ! 2 div ne a ! 2) = int (plane2 a b i2)"
    using p by (simp add: plane2_def zdiv_int)
  moreover have "0 < ne b ! 2 div ne a ! 2" using p(3,6,8) by (simp add: pos_imp_zdiv_pos_iff zdvd_imp_le)
  moreover have "0 < ne a ! 2 * ne a ! 3" "0 \<le> ?x mod (ne a ! 2 * ne a ! 3)" using p by simp_all
  ultimately show ?thesis using p x
    by (simp add: src0_plane_def cdiv_nonneg cmod_nonneg)
qed

section \<open>Any schedule\<close>

text \<open>The elements that a task with the rows \<open>rs\<close> of \<^verbatim>\<open>src0\<close> writes, in its order.\<close>

definition mul_mat_part :: "ne_tensor \<Rightarrow> int list \<Rightarrow> (nat \<times> nat \<times> nat \<times> nat) list" where
  "mul_mat_part d rs = concat (map (\<lambda>r. map (\<lambda>ir. (nat ir, row_of d r)) rs)
     [0 .. ne d ! 1 * ne d ! 2 * ne d ! 3 - 1])"

lemma mul_mat_part_set:
  assumes "addressable d" "set rs = {r \<in> {0 ..< ne d ! 0}. P r}"
  shows "set (mul_mat_part d rs) = {q \<in> elems_of d. P (int (fst q))}"
proof (intro set_eqI iffI)
  fix q assume "q \<in> set (mul_mat_part d rs)"
  then obtain r ir where r: "r \<in> row_range d" "ir \<in> set rs" "q = (nat ir, row_of d r)"
    by (auto simp: mul_mat_part_def row_range_def split: prod.splits)
  moreover obtain i1 i2 i3 where "row_of d r = (i1, i2, i3)" by (cases "row_of d r")
  ultimately have q: "r \<in> row_range d" "row_of d r = (i1, i2, i3)" "ir \<in> set rs" "q = (nat ir, i1, i2, i3)" by auto
  with row_of_range [OF assms(1) q(1,2)] assms(2) show "q \<in> {q \<in> elems_of d. P (int (fst q))}"
    by (auto simp: elems_of_def in_range_def)
next
  fix q assume q: "q \<in> {q \<in> elems_of d. P (int (fst q))}"
  obtain i0 i1 i2 i3 where e: "q = (i0, i1, i2, i3)" by (rule prod_cases4)
  with q have i: "i0 < nat (ne d ! 0)" "i1 < nat (ne d ! 1)" "i2 < nat (ne d ! 2)" "i3 < nat (ne d ! 3)" "P (int i0)"
    by (auto simp: elems_of_def in_range_def)
  from row_of_exists [OF assms(1) i(2-4)] obtain r where "r \<in> row_range d" "row_of d r = (i1, i2, i3)" by blast
  moreover have "int i0 \<in> set rs" using i(1,5) assms(2) by auto
  then have "(i0, i1, i2, i3) \<in> (\<lambda>ir. (nat ir, i1, i2, i3)) ` set rs" by (intro image_eqI [of _ _ "int i0"]) auto
  ultimately show "q \<in> set (mul_mat_part d rs)" unfolding mul_mat_part_def e
    by (auto simp: row_range_def intro!: bexI [of _ r])
qed

lemma mul_mat_part_distinct:
  assumes "addressable d" "distinct rs" "set rs \<subseteq> {0 ..< ne d ! 0}"
  shows "distinct (mul_mat_part d rs)"
proof -
  let ?f = "\<lambda>r. map (\<lambda>ir. (nat ir, row_of d r)) rs"
  have inj: "inj_on nat (set rs)" by (rule inj_on_subset [OF _ assms(3)]) (auto simp: inj_on_def)
  have "distinct (?f r)" for r
    using assms(2) inj by (auto simp: distinct_map inj_on_def split: prod.splits)
  moreover have "row_of d r \<noteq> row_of d r'" if "r \<in> row_range d" "r' \<in> row_range d" "r \<noteq> r'" for r r'
    using that inj_onD [OF row_of_inj [OF assms(1)], of r r'] by auto
  ultimately have "distinct js \<Longrightarrow> set js \<subseteq> row_range d \<Longrightarrow> distinct (concat (map ?f js))" for js
  proof (induction js)
    case (Cons j js)
    then have "row_of d j \<noteq> row_of d r" if "r \<in> set js" for r using that by auto
    with Cons show ?case by (auto simp del: distinct_map) metis
  qed simp
  moreover have "set [0 .. ne d ! 1 * ne d ! 2 * ne d ! 3 - 1] \<subseteq> row_range d" by (auto simp: row_range_def)
  ultimately show ?thesis unfolding mul_mat_part_def using distinct_upto by blast
qed

lemma for_list_cong: "(\<And>i. i \<in> set is \<Longrightarrow> body i = body' i) \<Longrightarrow> for_list is body m = for_list is body' m"
proof (induction "is" arbitrary: m)
  case (Cons i "is")
  then show ?case by (cases "body' i m") (auto simp: sseq_def sbind_def)
qed simp

lemma schedule_params:
  assumes "schedule calls (node_calls team wsz wdat t)" "ps \<in> set calls"
  shows "ps\<lparr>wsize := wsz, wdata := wdat\<rparr> = ps"
proof -
  obtain cs where cs: "calls = concat cs" "list_all2 (\<lambda>c p. mset c = mset p) cs (node_calls team wsz wdat t)"
    using assms(1) by (auto simp: schedule_def)
  have "list_all2 (\<lambda>c p. mset c = mset p) cs phases \<Longrightarrow> set (concat cs) = set (concat phases)" for phases
    by (induction rule: list_all2_induct) (auto dest: mset_eq_setD)
  with cs assms(2) have "ps \<in> set (concat (node_calls team wsz wdat t))" by blast
  then show ?thesis by (auto simp: node_calls_def Let_def split: if_splits)
qed

text \<open>An element of the product, from the dot product \<open>val\<close> and the columns at \<open>colp\<close>.\<close>

definition mul_val ::
  "(nat \<Rightarrow> ptr \<Rightarrow> ptr \<Rightarrow> memory \<Rightarrow> 32 word) \<Rightarrow> ne_tensor \<Rightarrow> ne_tensor \<Rightarrow> (nat \<Rightarrow> nat \<Rightarrow> nat \<Rightarrow> ptr) \<Rightarrow> nat \<times> nat \<times> nat \<times> nat \<Rightarrow> memory \<Rightarrow> 32 word" where
  "mul_val val a b colp q m = (case q of (i0, i1, i2, i3) \<Rightarrow>
     val (nat (ne a ! 0)) (row_at a i0 (plane2 a b i2) (plane3 a i3)) (colp i1 i2 i3) m)"

text \<open>Columns that the destination does not overlap.\<close>

definition cols_apart :: "ne_tensor \<Rightarrow> (nat \<Rightarrow> nat \<Rightarrow> nat \<Rightarrow> ptr) \<Rightarrow> nat \<Rightarrow> bool" where
  "cols_apart d colp w \<longleftrightarrow> (\<forall>i1 i2 i3. i1 < nat (ne d ! 1) \<longrightarrow> i2 < nat (ne d ! 2) \<longrightarrow> i3 < nat (ne d ! 3) \<longrightarrow>
     gap (colp i1 i2 i3) w (data d) (span d))"

text \<open>
  A dot product: it stores one value, which depends on the \<open>wx n\<close> bytes of its first and the \<open>wy n\<close>
  bytes of its second operand only.
\<close>

locale row_dot =
  fixes dot :: "nat \<Rightarrow> ptr \<Rightarrow> ptr \<Rightarrow> ptr \<Rightarrow> memory \<Rightarrow> memory" and val :: "nat \<Rightarrow> ptr \<Rightarrow> ptr \<Rightarrow> memory \<Rightarrow> 32 word"
    and wx wy :: "nat \<Rightarrow> nat"
  assumes dot_store: "dot n s x y m = store32 s (val n x y m) m"
    and dot_local: "(\<And>k. k < wx n \<Longrightarrow> m' (x + k) = m (x + k)) \<Longrightarrow> (\<And>k. k < wy n \<Longrightarrow> m' (y + k) = m (y + k)) \<Longrightarrow>
      val n x y m' = val n x y m"
begin

lemma rows_write:
  assumes o: "mul_mat_operands a b d (wx (nat (ne a ! 0)))"
    and col: "\<And>i1 i2 i3 m. i1 < nat (ne b ! 1) \<Longrightarrow> i2 < nat (ne b ! 2) \<Longrightarrow> i3 < nat (ne b ! 3) \<Longrightarrow>
      col (nat (ne a ! 0)) (int i1, int i2, int i3) m = Inr (colp i1 i2 i3, m)"
    and rs: "block_rows (ne a ! 1) (ith ps) (nth ps) = Inr rs" "set rs \<subseteq> {0 ..< ne d ! 0}"
  shows "mul_mat_rows dot col ps a b d m = Inr ((), run_writes (addr_of d) (mul_val val a b colp) (mul_mat_part d rs) m)"
proof -
  let ?n = "nat (ne a ! 0)"
  note p = operand_dims [OF o] and ad = operand_dims(10) [OF o]
  have sh: "ne d ! 0 = ne a ! 1" "ne d ! 1 = ne b ! 1" "ne d ! 2 = ne b ! 2" "ne d ! 3 = ne b ! 3"
    and fit: "rows_fit a (wx ?n)" and d4: "nb d ! 0 = 4"
    using o by (auto simp: mul_mat_operands_def rows_apart_def)
  have n: "nat (to_int32 (ne a ! 0)) = ?n" using fit p by (simp add: rows_fit_def to_int32_id)
  let ?f = "\<lambda>r. map (\<lambda>ir. (nat ir, row_of d r)) rs"
  let ?body = "\<lambda>ir1. sbind (liftR (row_index (ne b ! 1) (ne b ! 2) ir1)) (\<lambda>i.
        sbind (liftR (src0_plane a b ir1 (fst (snd i)))) (\<lambda>(i02, i03).
        for_list rs (\<lambda>ir.
          sbind (row_ptr d 1 (off3 (nb d) i + 4 * to_size ir)) (\<lambda>s.
          sbind (row_ptr a ?n (off3 (nb a) (ir, i02, i03))) (\<lambda>x.
          sbind (col ?n i) (\<lambda>y. modify (dot ?n s x y)))))))"
  have row: "?body r m = Inr ((), run_writes (addr_of d) (mul_val val a b colp) (?f r) m)" if r: "r \<in> row_range d" for r m
  proof -
    obtain i1 i2 i3 where i: "row_of d r = (i1, i2, i3)" by (cases "row_of d r")
    note ri = row_of_range [OF ad r i, unfolded sh]
    have idx: "row_index (ne b ! 1) (ne b ! 2) r = Inr (int i1, int i2, int i3)"
      using row_index_of [OF ad r i] sh by simp
    have pl: "src0_plane a b r (int i2) = Inr (int (plane2 a b i2), int (plane3 a i3))"
      using src0_plane_eq [OF o ri(1,2), of r i3] ri(4) by simp
    have elt: "sbind (row_ptr d 1 (off3 (nb d) (int i1, int i2, int i3) + 4 * to_size ir)) (\<lambda>s.
          sbind (row_ptr a ?n (off3 (nb a) (ir, int (plane2 a b i2), int (plane3 a i3)))) (\<lambda>x.
          sbind (col ?n (int i1, int i2, int i3)) (\<lambda>y. modify (dot ?n s x y)))) m =
        Inr ((), run_writes (addr_of d) (mul_val val a b colp) [(nat ir, i1, i2, i3)] m)" if ir: "ir \<in> set rs" for ir m
    proof -
      have k: "0 \<le> ir" "ir < ne d ! 0" "ir < 2 ^ 31" "nat ir < nat (ne a ! 1)" using ir rs(2) sh addressable_bounds(6) [OF ad] by auto
      then have ts: "to_size ir = nat ir" by (simp add: to_size_nonneg)
      have in_d: "in_range d (nat ir) i1 i2 i3" using k ri sh by (auto simp: in_range_def)
      have od: "off3 (nb d) (int i1, int i2, int i3) + 4 * nat ir = elem_offset d (nat ir) i1 i2 i3"
        using off3_int(4) [OF ad in_d] d4 by (simp add: elem_offset_def)
      have "data d + elem_offset d (nat ir) i1 i2 i3 < 2 ^ 64" "data d \<noteq> NULL"
        using elem_in_span [OF in_d] ad by (auto simp: addressable_def)
      then have pd: "row_ptr d 1 (elem_offset d (nat ir) i1 i2 i3) m = Inr (addr_of d (nat ir, i1, i2, i3), m)"
        by (simp add: row_ptr_def addr_of_def)
      have pa: "row_ptr a ?n (off3 (nb a) (ir, int (plane2 a b i2), int (plane3 a i3))) m =
          Inr (row_at a (nat ir) (plane2 a b i2) (plane3 a i3), m)"
        using row_ptr_row [OF fit k(4) plane_bounds(1,2) [OF o ri(2)], of ?n i3 m] k(1) by simp
      show ?thesis unfolding ts od
        by (simp add: pd [simplified] pa col [OF ri(1-3)] dot_store mul_val_def)
    qed
    have "for_list rs (\<lambda>ir. sbind (row_ptr d 1 (off3 (nb d) (int i1, int i2, int i3) + 4 * to_size ir)) (\<lambda>s.
          sbind (row_ptr a ?n (off3 (nb a) (ir, int (plane2 a b i2), int (plane3 a i3)))) (\<lambda>x.
          sbind (col ?n (int i1, int i2, int i3)) (\<lambda>y. modify (dot ?n s x y))))) m =
        Inr ((), run_writes (addr_of d) (mul_val val a b colp) (concat (map (\<lambda>ir. [(nat ir, i1, i2, i3)]) rs)) m)"
      by (rule for_list_writes) (rule elt)
    then show ?thesis by (simp add: i idx [simplified] pl concat_map_singleton)
  qed
  have "for_list [0 .. ne b ! 1 * ne b ! 2 * ne b ! 3 - 1] ?body m =
      Inr ((), run_writes (addr_of d) (mul_val val a b colp) (mul_mat_part d rs) m)"
    unfolding mul_mat_part_def sh by (rule for_list_writes [OF row]) (use sh in \<open>auto simp: row_range_def\<close>)
  then show ?thesis unfolding mul_mat_rows_def Let_def n by (simp only: rs(1) sbind_liftR)
qed

lemma mul_stable:
  assumes o: "mul_mat_operands a b d (wx (nat (ne a ! 0)))" and c: "cols_apart d colp (wy (nat (ne a ! 0)))"
  shows "stable d (mul_val val a b colp)"
  unfolding stable_def
proof (intro ballI impI allI)
  fix q q' v m assume q: "q \<in> elems_of d" "q' \<in> elems_of d" "q \<noteq> q'"
  obtain i0 i1 i2 i3 j0 j1 j2 j3 where e: "q = (i0, i1, i2, i3)" "q' = (j0, j1, j2, j3)" by (metis prod_cases4)
  have r: "in_range d i0 i1 i2 i3" "in_range d j0 j1 j2 j3" using q e by (simp_all add: elems_of_def)
  have sh: "ne d ! 0 = ne a ! 1" "ne d ! 2 = ne b ! 2" and g: "gap (data a) (row_span a (wx (nat (ne a ! 0)))) (data d) (span d)"
    using o by (auto simp: mul_mat_operands_def)
  have s: "elem_offset d j0 j1 j2 j3 + 4 \<le> span d" by (rule elem_in_span [OF r(2)])
  have x: "elem_offset a 0 i0 (plane2 a b i2) (plane3 a i3) + w \<le> row_span a w" for w
    using r(1) sh plane_bounds(1,2) [OF o, of i2] by (intro row_in_span) (auto simp: in_range_def)
  have y: "gap (colp i1 i2 i3) (wy (nat (ne a ! 0))) (data d) (span d)"
    using c r(1) by (simp add: cols_apart_def in_range_def)
  show "mul_val val a b colp q (store32 (addr_of d q') v m) = mul_val val a b colp q m"
    unfolding mul_val_def e addr_of_def prod.case row_at_def
  proof (rule dot_local; rule store32_frame)
    fix k assume "k < wx (nat (ne a ! 0))"
    then show "data a + elem_offset a 0 i0 (plane2 a b i2) (plane3 a i3) + k < data d + elem_offset d j0 j1 j2 j3 \<or>
        data d + elem_offset d j0 j1 j2 j3 + 4 \<le> data a + elem_offset a 0 i0 (plane2 a b i2) (plane3 a i3) + k"
      using g s x [of "wx (nat (ne a ! 0))"] unfolding gap_def by linarith
  next
    fix k assume "k < wy (nat (ne a ! 0))"
    then show "colp i1 i2 i3 + k < data d + elem_offset d j0 j1 j2 j3 \<or> data d + elem_offset d j0 j1 j2 j3 + 4 \<le> colp i1 i2 i3 + k"
      using y s unfolding gap_def by linarith
  qed
qed

text \<open>The initialising call may convert \<^verbatim>\<open>src1\<close> (\<open>g\<close>).\<close>

lemma scheduled:
  assumes o: "mul_mat_operands a b d (wx (nat (ne a ! 0)))" and c: "cols_apart d colp (wy (nat (ne a ! 0)))"
    and n: "0 < n_tasks d" "n_tasks d \<le> int team" and sch: "schedule calls (node_calls team wsz wdat d)"
    and init: "\<And>ps. task ps = NE_TASK_INIT \<Longrightarrow> wsize ps = wsz \<Longrightarrow> wdata ps = wdat \<Longrightarrow> kern ps m = Inr ((), g m)"
    and fin: "\<And>ps m. task ps = NE_TASK_FINALIZE \<Longrightarrow> kern ps m = Inr ((), m)"
    and busy: "\<And>ps m. task ps = NE_TASK_COMPUTE \<Longrightarrow> wsize ps = wsz \<Longrightarrow> wdata ps = wdat \<Longrightarrow> kern ps m = mul_mat_rows dot (col ps) ps a b d m"
    and col: "\<And>ps i1 i2 i3 m. wdata ps = wdat \<Longrightarrow> i1 < nat (ne b ! 1) \<Longrightarrow> i2 < nat (ne b ! 2) \<Longrightarrow> i3 < nat (ne b ! 3) \<Longrightarrow>
      col ps (nat (ne a ! 0)) (int i1, int i2, int i3) m = Inr (colp i1 i2 i3, m)"
  shows "\<exists>m'. for_list calls kern m = Inr ((), m') \<and>
    result_is d (\<lambda>i0 i1 i2 i3. mul_val val a b colp (i0, i1, i2, i3) (g m)) (g m) m'"
proof -
  note ad = operand_dims(10) [OF o]
  have ra: "rows_apart d" and sh: "ne d ! 0 = ne a ! 1" using o by (auto simp: mul_mat_operands_def)
  let ?kern = "\<lambda>ps. kern (ps\<lparr>wsize := wsz, wdata := wdat\<rparr>)"
  have same: "for_list calls kern m = for_list calls ?kern m"
    by (intro for_list_cong) (simp add: schedule_params [OF sch])
  have pos: "0 < ne a ! 1" using operand_dims [OF o] by simp
  let ?rows = "\<lambda>i. projr (block_rows (ne a ! 1) i (n_tasks d))"
  let ?owner = "\<lambda>r. r div ((ne a ! 1 + n_tasks d - 1) div n_tasks d)"
  have st: "block_rows (ne a ! 1) i (n_tasks d) = Inr (?rows i)" "distinct (?rows i)"
      "set (?rows i) = {r \<in> {0 ..< ne d ! 0}. ?owner r = i}" if "0 \<le> i" for i
    using block_rows_owner [OF pos n(1) that] unfolding sh by (metis sum.sel(2))+
  have "\<exists>qs. distinct qs \<and> set qs = elems_of d \<and>
      for_list calls ?kern m = Inr ((), run_writes (addr_of d) (mul_val val a b colp) qs (g m))"
  proof (rule schedule_writes [OF n sch, where part = "\<lambda>i. mul_mat_part d (?rows i)" and owner = "\<lambda>q. ?owner (int (fst q))"
        and keep = "\<lambda>_. True"])
    show "?kern ps m' = Inr ((), run_writes (addr_of d) (mul_val val a b colp) (mul_mat_part d (?rows (ith ps))) m') \<and> True"
      if "task ps = NE_TASK_COMPUTE" "nth ps = n_tasks d" "0 \<le> ith ps" for ps m'
    proof -
      let ?ps = "ps\<lparr>wsize := wsz, wdata := wdat\<rparr>"
      have "mul_mat_rows dot (col ?ps) ?ps a b d m' = Inr ((), run_writes (addr_of d) (mul_val val a b colp) (mul_mat_part d (?rows (ith ps))) m')"
      proof (rule rows_write [OF o])
        show "block_rows (ne a ! 1) (ith ?ps) (nth ?ps) = Inr (?rows (ith ps))" using st(1) [OF that(3)] that(2) by simp
        show "set (?rows (ith ps)) \<subseteq> {0 ..< ne d ! 0}" unfolding st(3) [OF that(3)] by blast
      qed (rule col, simp)
      then show ?thesis using that by (simp add: busy)
    qed
    show "distinct (mul_mat_part d (?rows i)) \<and> set (mul_mat_part d (?rows i)) = {q \<in> elems_of d. ?owner (int (fst q)) = i}"
      if "0 \<le> i" for i
    proof -
      have "set (?rows i) \<subseteq> {0 ..< ne d ! 0}" unfolding st(3) [OF that] by blast
      with mul_mat_part_distinct [OF ad st(2) [OF that]] mul_mat_part_set [OF ad st(3) [OF that]] show ?thesis by blast
    qed
    show "?owner (int (fst q)) \<in> {0 ..< n_tasks d}" if "q \<in> elems_of d" for q
      using that sh n(1) by (intro block_owner_range) (auto simp: elems_of_def in_range_def)
  qed (use init fin in auto)
  then show ?thesis unfolding same
    using writes_result [OF rows_apart_elems [OF ra] mul_stable [OF o c]] by blast
qed

end

section \<open>Floats\<close>

definition dot_f32 :: "dacc \<Rightarrow> farith \<Rightarrow> nat \<Rightarrow> ptr \<Rightarrow> ptr \<Rightarrow> memory \<Rightarrow> 32 word" where
  "dot_f32 da fa n x y m = f64_to_f32 da (fold (\<lambda>i sumf.
     d_add da sumf (f32_to_f64 da (f_mul fa (load32 m (x + 4 * i)) (load32 m (y + 4 * i))))) [0..<n] 0)"

definition dot_f16 :: "dacc \<Rightarrow> farith \<Rightarrow> fconv \<Rightarrow> nat \<Rightarrow> ptr \<Rightarrow> ptr \<Rightarrow> memory \<Rightarrow> 32 word" where
  "dot_f16 da fa fc n x y m = f64_to_f32 da (fold (\<lambda>i sumf. d_add da sumf (f32_to_f64 da
     (f_mul fa (fp16_to_fp32 fc (load16 m (x + 2 * i))) (fp16_to_fp32 fc (load16 m (y + 2 * i)))))) [0..<n] 0)"

lemma load16_cong: "m' p = m p \<Longrightarrow> m' (p + 1) = m (p + 1) \<Longrightarrow> load16 m' p = load16 m p"
  by (simp add: load16_def)

lemma load32_local:
  assumes "\<And>k. k < 4 * n \<Longrightarrow> m' (p + k) = m (p + k)" "i < (n::nat)"
  shows "load32 m' (p + 4 * i) = load32 m (p + 4 * i)"
proof (rule load32_frame)
  fix k assume "k < (4::nat)"
  then have "4 * i + k < 4 * n" using assms(2) by linarith
  from assms(1) [OF this] show "m' (p + 4 * i + k) = m (p + 4 * i + k)" by (simp add: add.assoc)
qed

lemma load16_local:
  assumes "\<And>k. k < 2 * n \<Longrightarrow> m' (p + k) = m (p + k)" "i < (n::nat)"
  shows "load16 m' (p + 2 * i) = load16 m (p + 2 * i)"
  using assms(1) [of "2 * i"] assms(1) [of "2 * i + 1"] assms(2) by (intro load16_cong) (simp_all add: add.assoc)

interpretation f32_dot: row_dot "ne_vec_dot_f32 da fa" "dot_f32 da fa" "\<lambda>n. 4 * n" "\<lambda>n. 4 * n" for da fa
proof unfold_locales
  show "ne_vec_dot_f32 da fa n s x y m = store32 s (dot_f32 da fa n x y m) m" for n s x y m
    by (simp add: ne_vec_dot_f32_def dot_f32_def)
  show "dot_f32 da fa n x y m' = dot_f32 da fa n x y m"
    if "\<And>k. k < 4 * n \<Longrightarrow> m' (x + k) = m (x + k)" "\<And>k. k < 4 * n \<Longrightarrow> m' (y + k) = m (y + k)" for n x y m m'
    unfolding dot_f32_def
    by (intro arg_cong [where f = "f64_to_f32 da"] fold_cong refl)
      (simp add: load32_local [of n m' x m, OF that(1)] load32_local [of n m' y m, OF that(2)])
qed

interpretation f16_dot: row_dot "ne_vec_dot_f16 da fa fc" "dot_f16 da fa fc" "\<lambda>n. 2 * n" "\<lambda>n. 2 * n" for da fa fc
proof unfold_locales
  show "ne_vec_dot_f16 da fa fc n s x y m = store32 s (dot_f16 da fa fc n x y m) m" for n s x y m
    by (simp add: ne_vec_dot_f16_def dot_f16_def)
  show "dot_f16 da fa fc n x y m' = dot_f16 da fa fc n x y m"
    if "\<And>k. k < 2 * n \<Longrightarrow> m' (x + k) = m (x + k)" "\<And>k. k < 2 * n \<Longrightarrow> m' (y + k) = m (y + k)" for n x y m m'
    unfolding dot_f16_def
    by (intro arg_cong [where f = "f64_to_f32 da"] fold_cong refl)
      (simp add: load16_local [of n m' x m, OF that(1)] load16_local [of n m' y m, OF that(2)])
qed

lemma mul_mat_asserts:
  assumes "mul_mat_operands a b d w"
  shows "mul_mat_shapes a b d m = Inr ((), m)" "mul_mat_dst d m = Inr ((), m)"
proof -
  have sh: "ne d ! 0 = ne a ! 1" "ne d ! 1 = ne b ! 1" "ne d ! 2 = ne b ! 2" "ne d ! 3 = ne b ! 3" and ra: "rows_apart d"
    using assms by (auto simp: mul_mat_operands_def)
  then show "mul_mat_shapes a b d m = Inr ((), m)" by (simp add: mul_mat_shapes_def)
  have p: "0 < nat (ne d ! 0)" "0 < nat (ne d ! 1)" "0 < nat (ne d ! 2)" using ra by (auto simp: rows_apart_def addressable_def)
  have le: "x \<le> k * x" if "0 < k" for k x :: nat using that by simp
  have "4 \<le> nb d ! 1" "nb d ! 1 \<le> nb d ! 2" "nb d ! 2 \<le> nb d ! 3" "nb d ! 0 = 4"
    using ra p(1) le [OF p(2), of "nb d ! 1"] le [OF p(3), of "nb d ! 2"] unfolding rows_apart_def by linarith+
  then show "mul_mat_dst d m = Inr ((), m)" by (simp add: mul_mat_dst_def)
qed

text \<open>The second operand where it is in memory, apart from the destination.\<close>

definition second_operand :: "ne_tensor \<Rightarrow> ne_tensor \<Rightarrow> bool" where
  "second_operand b d \<longleftrightarrow> rows_fit b (4 * nat (ne b ! 0)) \<and> nb b ! 0 = 4 \<and>
     gap (data b) (row_span b (4 * nat (ne b ! 0))) (data d) (span d)"

lemma second_cols_apart:
  assumes "mul_mat_operands a b d w" "second_operand b d"
  shows "cols_apart d (row_at b) (4 * nat (ne a ! 0))"
  unfolding cols_apart_def
proof (intro allI impI)
  fix i1 i2 i3 assume i: "i1 < nat (ne d ! 1)" "i2 < nat (ne d ! 2)" "i3 < nat (ne d ! 3)"
  have sh: "ne d ! 1 = ne b ! 1" "ne d ! 2 = ne b ! 2" "ne d ! 3 = ne b ! 3" "ne b ! 0 = ne a ! 0"
    using assms(1) operand_dims(9) [OF assms(1)] by (auto simp: mul_mat_operands_def)
  have "elem_offset b 0 i1 i2 i3 + 4 * nat (ne a ! 0) \<le> row_span b (4 * nat (ne a ! 0))"
    using i sh by (intro row_in_span) auto
  then show "gap (row_at b i1 i2 i3) (4 * nat (ne a ! 0)) (data d) (span d)"
    using assms(2) sh(4) unfolding second_operand_def gap_def row_at_def by auto
qed

definition f32_elem :: "dacc \<Rightarrow> farith \<Rightarrow> memory \<Rightarrow> ne_tensor \<Rightarrow> ne_tensor \<Rightarrow> nat \<Rightarrow> nat \<Rightarrow> nat \<Rightarrow> nat \<Rightarrow> 32 word" where
  "f32_elem da fa m a b i0 i1 i2 i3 = f64_to_f32 da (fold (\<lambda>k sumf. d_add da sumf (f32_to_f64 da
     (f_mul fa (elem m a k i0 (plane2 a b i2) (plane3 a i3)) (elem m b k i1 i2 i3)))) [0..<nat (ne a ! 0)] 0)"

lemma mul_mat_f32_scheduled:
  assumes o: "mul_mat_operands a b d (4 * nat (ne a ! 0))" "second_operand b d" "nb a ! 0 = 4"
    and n: "0 < n_tasks d" "n_tasks d \<le> int team" and sch: "schedule calls (node_calls team wsz wdat d)"
  shows "\<exists>m'. for_list calls (\<lambda>ps. ne_compute_forward_mul_mat_f32 da fa ps a b d) m = Inr ((), m') \<and>
    result_is d (f32_elem da fa m a b) m m'"
proof -
  have b4: "nb b ! 0 = 4" "rows_fit b (4 * nat (ne b ! 0))" using o(2) by (auto simp: second_operand_def)
  have "\<exists>m'. for_list calls (\<lambda>ps. ne_compute_forward_mul_mat_f32 da fa ps a b d) m = Inr ((), m') \<and>
    result_is d (\<lambda>i0 i1 i2 i3. mul_val (dot_f32 da fa) a b (row_at b) (i0, i1, i2, i3) m) m m'"
  proof (rule f32_dot.scheduled [OF o(1) second_cols_apart [OF o(1,2)] n sch, where g = "\<lambda>m. m" and
        col = "\<lambda>ps n i. row_ptr b n (off3 (nb b) i)"])
    show "ne_compute_forward_mul_mat_f32 da fa ps a b d m = Inr ((), m)" if "task ps = NE_TASK_INIT" for ps m
      using that o(3) b4 by (simp add: ne_compute_forward_mul_mat_f32_def mul_mat_asserts [OF o(1)] is_init_or_finalize_def)
    show "ne_compute_forward_mul_mat_f32 da fa ps a b d m = Inr ((), m)" if "task ps = NE_TASK_FINALIZE" for ps m
      using that o(3) b4 by (simp add: ne_compute_forward_mul_mat_f32_def mul_mat_asserts [OF o(1)] is_init_or_finalize_def)
    show "ne_compute_forward_mul_mat_f32 da fa ps a b d m =
        mul_mat_rows (ne_vec_dot_f32 da fa) (\<lambda>n i. row_ptr b n (off3 (nb b) i)) ps a b d m" if "task ps = NE_TASK_COMPUTE" for ps m
      using that o(3) b4 by (simp add: ne_compute_forward_mul_mat_f32_def mul_mat_asserts [OF o(1)] is_init_or_finalize_def)
  qed (rule row_ptr_row [OF b4(2)])
  moreover have "mul_val (dot_f32 da fa) a b (row_at b) (i0, i1, i2, i3) m = f32_elem da fa m a b i0 i1 i2 i3" for i0 i1 i2 i3
    using o(3) b4(1) by (simp add: mul_val_def dot_f32_def f32_elem_def elem_def row_at_def elem_offset_def ac_simps)
  ultimately show ?thesis by simp
qed

section \<open>Converting the second operand\<close>

text \<open>
  Rows written one after the other, each into its own range of \<open>w\<close> bytes, from sources that none of
  them changes.
\<close>

lemma rows_written:
  assumes frame: "\<And>k m a. k < N \<Longrightarrow> a < p + w * k \<or> p + w * k + w \<le> a \<Longrightarrow> W k m a = m a"
    and local: "\<And>k m m' j. k < N \<Longrightarrow> j < w \<Longrightarrow> (\<And>a. a < p \<or> p + w * N \<le> a \<Longrightarrow> m' a = m a) \<Longrightarrow>
      W k m' (p + w * k + j) = W k m (p + w * k + j)"
  shows "k < N \<Longrightarrow> j < w \<Longrightarrow> fold W [0..<N] m (p + w * k + j) = W k m (p + w * k + j)"
    and "a < p \<or> p + w * N \<le> a \<Longrightarrow> fold W [0..<N] m a = m a"
proof -
  have inv: "(\<forall>k j. k < n \<longrightarrow> j < w \<longrightarrow> fold W [0..<n] m (p + w * k + j) = W k m (p + w * k + j)) \<and>
      (\<forall>a. a < p \<or> p + w * n \<le> a \<longrightarrow> fold W [0..<n] m a = m a)" if "n \<le> N" for n
    using that
  proof (induction n)
    case (Suc n)
    let ?m = "fold W [0..<n] m"
    have n: "n < N" and fold: "fold W [0..<Suc n] m = W n ?m" using Suc.prems by simp_all
    have le: "w * n \<le> w * N" using n by simp
    have out: "?m a = m a" if "a < p \<or> p + w * N \<le> a" for a
    proof -
      have "a < p \<or> p + w * n \<le> a" using that le by linarith
      with Suc show ?thesis by auto
    qed
    have "W n ?m (p + w * k + j) = W k m (p + w * k + j)" if "k < Suc n" "j < w" for k j
    proof (cases "k = n")
      case True
      then show ?thesis using local [OF n that(2), of ?m m] out by simp
    next
      case False
      then have "w * k + w \<le> w * n" using that(1) by (intro block_in_row) simp
      then have "W n ?m (p + w * k + j) = ?m (p + w * k + j)" using that(2) by (intro frame [OF n]) linarith
      then show ?thesis using Suc False that by auto
    qed
    moreover have "W n ?m a = m a" if "a < p \<or> p + w * Suc n \<le> a" for a
      using that frame [OF n, of a ?m] Suc by auto
    ultimately show ?case unfolding fold by blast
  qed simp
  from inv [of N] show "k < N \<Longrightarrow> j < w \<Longrightarrow> fold W [0..<N] m (p + w * k + j) = W k m (p + w * k + j)"
    and "a < p \<or> p + w * N \<le> a \<Longrightarrow> fold W [0..<N] m a = m a" by auto
qed

text \<open>The nested loops count the rows.\<close>

lemma nested_upt: "concat (map (\<lambda>i. map (f i) [0..<n]) [0..<k]) = map (\<lambda>r. f (r div n) (r mod n)) [0..<n * k]" if "0 < n"
proof (induction k)
  case (Suc k)
  have "[0..<n * Suc k] = [0..<n * k] @ map (\<lambda>i. n * k + i) [0..<n]"
    using upt_add_eq_append [of 0 "n * k" n] map_add_upt [of "n * k" n] by (simp add: add.commute)
  with Suc that show ?case by (simp add: comp_def)
qed simp

definition nat_row :: "ne_tensor \<Rightarrow> nat \<Rightarrow> nat \<times> nat \<times> nat" where
  "nat_row t r = (r mod nat (ne t ! 1), r div nat (ne t ! 1) mod nat (ne t ! 2), r div nat (ne t ! 1) div nat (ne t ! 2))"

definition int3 :: "nat \<times> nat \<times> nat \<Rightarrow> int \<times> int \<times> int" where
  "int3 i = (case i of (i1, i2, i3) \<Rightarrow> (int i1, int i2, int i3))"

abbreviation row_count :: "ne_tensor \<Rightarrow> nat" where
  "row_count t \<equiv> nat (ne t ! 1) * nat (ne t ! 2) * nat (ne t ! 3)"

lemma loop_rows_nat:
  assumes "0 < ne b ! 1" "0 < ne b ! 2" "0 < ne b ! 3"
  shows "loop_rows b = map (\<lambda>r. int3 (nat_row b r)) [0..<row_count b]"
proof -
  let ?n1 = "nat (ne b ! 1)" and ?n2 = "nat (ne b ! 2)" and ?n3 = "nat (ne b ! 3)"
  have u: "[0 .. ne b ! 1 - 1] = map int [0..<?n1]" "[0 .. ne b ! 2 - 1] = map int [0..<?n2]" "[0 .. ne b ! 3 - 1] = map int [0..<?n3]"
    using assms by (simp_all add: upto_int_0)
  have "loop_rows b = concat (map (\<lambda>i3. concat (map (\<lambda>i2. map (\<lambda>i1. int3 (i1, i2, i3)) [0..<?n1]) [0..<?n2])) [0..<?n3])"
    unfolding loop_rows_def u by (simp add: comp_def int3_def)
  also have "\<dots> = map (\<lambda>r. int3 (nat_row b r)) [0..<?n1 * ?n2 * ?n3]"
    using assms by (simp add: nested_upt nat_row_def div_mult2_eq mod_mult2_eq)
  finally show ?thesis .
qed

lemma nat_row_bounds:
  assumes "0 < ne t ! 1" "0 < ne t ! 2" "0 < ne t ! 3" "r < row_count t" "nat_row t r = (i1, i2, i3)"
  shows "i1 < nat (ne t ! 1)" "i2 < nat (ne t ! 2)" "i3 < nat (ne t ! 3)" "i1 + nat (ne t ! 1) * (i2 + nat (ne t ! 2) * i3) = r"
proof -
  have i: "i1 = r mod nat (ne t ! 1)" "i2 = r div nat (ne t ! 1) mod nat (ne t ! 2)" "i3 = r div nat (ne t ! 1) div nat (ne t ! 2)"
    using assms(5) by (simp_all add: nat_row_def)
  show "i1 < nat (ne t ! 1)" "i2 < nat (ne t ! 2)" unfolding i using assms(1,2) by simp_all
  show "i3 < nat (ne t ! 3)" unfolding i div_mult2_eq [symmetric] using assms(4)
    by (intro less_mult_imp_div_less) (simp add: mult.commute)
  show "i1 + nat (ne t ! 1) * (i2 + nat (ne t ! 2) * i3) = r" unfolding i by simp
qed

section \<open>Quantized weights\<close>

text \<open>A block of the second operand as it is quantized, and the dot product of two rows in memory.\<close>

definition encoded_block :: "qenv \<Rightarrow> ne_type \<Rightarrow> 32 word list \<Rightarrow> byte list" where
  "encoded_block e type xs = (if type = NE_TYPE_Q4_1 \<or> type = NE_TYPE_Q5_1 then bytes_q8_1 (quantize_block_q8_1 e xs)
     else bytes_q8_0 (quantize_block_q8_0 e xs))"

definition quant_dot :: "qenv \<Rightarrow> ne_type \<Rightarrow> nat \<Rightarrow> ptr \<Rightarrow> ptr \<Rightarrow> memory \<Rightarrow> 32 word" where
  "quant_dot e type n x y m = fold (\<lambda>i sumf. fadd e sumf (block_term e type (row_block m x type i)
     (row_block m y (vec_dot_type type) i))) [0..<n div 32] f32_0"

lemma quantized_row:
  assumes t: "type \<in> dot_types" and q: "fn_quantize_row_dot (quantize_fns e type) = Some quantize"
    and g: "gap x (4 * (32 * n)) y (NE_TYPE_SIZE (vec_dot_type type) * n)"
  shows "a < y \<or> y + NE_TYPE_SIZE (vec_dot_type type) * n \<le> a \<Longrightarrow> quantize (32 * n) x y m a = m a"
    and "i < n \<Longrightarrow> row_block (quantize (32 * n) x y m) y (vec_dot_type type) i = encoded_block e type (load_floats m (x + 128 * i) 32)"
proof -
  consider (q8_0) "quantize = quantize_row_q8_0 e" "vec_dot_type type = NE_TYPE_Q8_0" "type \<noteq> NE_TYPE_Q4_1" "type \<noteq> NE_TYPE_Q5_1"
    | (q8_1) "quantize = quantize_row_q8_1 e" "vec_dot_type type = NE_TYPE_Q8_1" "type = NE_TYPE_Q4_1 \<or> type = NE_TYPE_Q5_1"
    using t q by (auto simp: dot_types_def quantize_fns_def)
  note cases = this
  show "quantize (32 * n) x y m a = m a" if "a < y \<or> y + NE_TYPE_SIZE (vec_dot_type type) * n \<le> a"
  proof (cases rule: cases)
    case q8_0
    then show ?thesis using q8_0.quantized_rows(1) [of x n y e m] g that by (auto simp: row_fn_defs block_sizes)
  next
    case q8_1
    then show ?thesis using q8_1.quantized_rows(1) [of x n y e m] g that by (auto simp: row_fn_defs block_sizes)
  qed
  show "row_block (quantize (32 * n) x y m) y (vec_dot_type type) i = encoded_block e type (load_floats m (x + 128 * i) 32)" if "i < n"
  proof (cases rule: cases)
    case q8_0
    then show ?thesis using q8_0.quantized_rows(2) [of x n y e m] g that
      by (simp add: row_fn_defs block_sizes row_block_def encoded_block_def q8_0.written_def)
  next
    case q8_1
    then show ?thesis using q8_1.quantized_rows(2) [of x n y e m] g that
      by (simp add: row_fn_defs block_sizes row_block_def encoded_block_def q8_1.written_def)
  qed
qed

lemma row_block_cong:
  assumes "\<And>k. k < NE_TYPE_SIZE type * n \<Longrightarrow> m' (p' + k) = m (p + k)" "i < n"
  shows "row_block m' p' type i = row_block m p type i"
proof -
  have "m' (p' + (NE_TYPE_SIZE type * i + k)) = m (p + (NE_TYPE_SIZE type * i + k))" if "k < NE_TYPE_SIZE type" for k
    using block_in_row [OF assms(2), of "NE_TYPE_SIZE type"] that by (intro assms(1)) linarith
  then show ?thesis by (simp add: row_block_def load_bytes_def add.assoc)
qed

lemma row_block_byte: "0 < NE_TYPE_SIZE type \<Longrightarrow> m (p + j) = row_block m p type (j div NE_TYPE_SIZE type) ! (j mod NE_TYPE_SIZE type)"
  by (simp add: row_block_def load_bytes_def add.assoc)

lemma quant_row_dot:
  assumes "type \<in> dot_types" "fn_vec_dot e type = Some dot"
  shows "row_dot dot (quant_dot e type) (\<lambda>n. NE_TYPE_SIZE type * (n div 32)) (\<lambda>n. NE_TYPE_SIZE (vec_dot_type type) * (n div 32))"
proof
  show "dot n s x y m = store32 s (quant_dot e type n x y m) m" for n s x y m
    by (simp add: fn_vec_dot_terms [OF assms] quant_dot_def)
  show "quant_dot e type n x y m' = quant_dot e type n x y m"
    if "\<And>k. k < NE_TYPE_SIZE type * (n div 32) \<Longrightarrow> m' (x + k) = m (x + k)"
      "\<And>k. k < NE_TYPE_SIZE (vec_dot_type type) * (n div 32) \<Longrightarrow> m' (y + k) = m (y + k)" for n x y m m'
    unfolding quant_dot_def
    by (intro fold_cong refl) (simp add: row_block_cong [of type "n div 32" m' x m x, OF that(1)]
        row_block_cong [of "vec_dot_type type" "n div 32" m' y m y, OF that(2)])
qed

text \<open>
  The work buffer: the converted rows of \<^verbatim>\<open>src1\<close> with \<open>w\<close> bytes each, apart from the tensors; \<open>wa\<close> is
  the size of a row of \<^verbatim>\<open>src0\<close>.
\<close>

definition work_buffer :: "ptr \<Rightarrow> nat \<Rightarrow> ne_tensor \<Rightarrow> ne_tensor \<Rightarrow> ne_tensor \<Rightarrow> nat \<Rightarrow> bool" where
  "work_buffer p w a b d wa \<longleftrightarrow> p \<noteq> NULL \<and> p + w * row_count b \<le> 2 ^ 64 \<and>
     gap p (w * row_count b) (data d) (span d) \<and> gap p (w * row_count b) (data a) (row_span a wa) \<and>
     gap p (w * row_count b) (data b) (row_span b (4 * nat (ne b ! 0)))"

definition row_number_of :: "ne_tensor \<Rightarrow> nat \<Rightarrow> nat \<Rightarrow> nat \<Rightarrow> nat" where
  "row_number_of b i1 i2 i3 = i1 + nat (ne b ! 1) * (i2 + nat (ne b ! 2) * i3)"

definition work_row :: "ptr \<Rightarrow> nat \<Rightarrow> ne_tensor \<Rightarrow> nat \<Rightarrow> nat \<Rightarrow> nat \<Rightarrow> ptr" where
  "work_row p w b i1 i2 i3 = p + w * row_number_of b i1 i2 i3"

lemma row_number_bound:
  assumes "i1 < nat (ne b ! 1)" "i2 < nat (ne b ! 2)" "i3 < nat (ne b ! 3)"
  shows "row_number_of b i1 i2 i3 < row_count b" "nat_row b (row_number_of b i1 i2 i3) = (i1, i2, i3)"
proof -
  have "i2 + nat (ne b ! 2) * i3 + 1 \<le> nat (ne b ! 2) * nat (ne b ! 3)"
    using block_in_row [OF assms(3), of "nat (ne b ! 2)"] assms(2) by linarith
  then have "nat (ne b ! 1) * (i2 + nat (ne b ! 2) * i3) + nat (ne b ! 1) \<le> nat (ne b ! 1) * (nat (ne b ! 2) * nat (ne b ! 3))"
    using block_in_row [of "i2 + nat (ne b ! 2) * i3" "nat (ne b ! 2) * nat (ne b ! 3)" "nat (ne b ! 1)"] by simp
  then show "row_number_of b i1 i2 i3 < row_count b" using assms(1) by (simp add: row_number_of_def mult.assoc)
  show "nat_row b (row_number_of b i1 i2 i3) = (i1, i2, i3)" using assms by (simp add: nat_row_def row_number_of_def)
qed

lemma row_count_bound:
  assumes "mul_mat_operands a b d w"
  shows "int (row_count b) < 2 ^ 31"
proof -
  have "ne b ! 1 * ne b ! 2 * ne b ! 3 < 2 ^ 31" using assms by (auto simp: mul_mat_operands_def rows_apart_def addressable_def)
  then show ?thesis using operand_dims(5-7) [OF assms] by simp
qed

lemma work_col_row:
  assumes o: "mul_mat_operands a b d wa" and w: "work_buffer (wdata ps) w a b d wa" "0 < w"
    and i: "i1 < nat (ne b ! 1)" "i2 < nat (ne b ! 2)" "i3 < nat (ne b ! 3)"
  shows "work_col ps b w k (int i1, int i2, int i3) m = Inr (work_row (wdata ps) w b i1 i2 i3, m)"
proof -
  note p = operand_dims [OF o] and r = row_number_bound [OF i]
  have "int i1 + int i2 * ne b ! 1 + int i3 * ne b ! 2 * ne b ! 1 = int (row_number_of b i1 i2 i3)"
    using p by (simp add: row_number_of_def algebra_simps)
  moreover have "int (row_number_of b i1 i2 i3) < 2 ^ 31" using r(1) row_count_bound [OF o] by linarith
  ultimately have "to_size (int i1 + int i2 * ne b ! 1 + int i3 * ne b ! 2 * ne b ! 1) = row_number_of b i1 i2 i3"
    by (simp only: to_size_int)
  moreover have "wdata ps + w * row_number_of b i1 i2 i3 < 2 ^ 64" "wdata ps \<noteq> NULL"
    using block_in_row [OF r(1), of w] w by (auto simp: work_buffer_def)
  ultimately show ?thesis by (simp add: work_col_def work_ptr_def work_row_def mult.commute)
qed

lemma work_cols_apart:
  assumes "mul_mat_operands a b d wa" "work_buffer p w a b d wa"
  shows "cols_apart d (work_row p w b) w"
  unfolding cols_apart_def
proof (intro allI impI)
  fix i1 i2 i3 assume "i1 < nat (ne d ! 1)" "i2 < nat (ne d ! 2)" "i3 < nat (ne d ! 3)"
  then have "row_number_of b i1 i2 i3 < row_count b"
    using assms(1) by (intro row_number_bound) (auto simp: mul_mat_operands_def)
  from block_in_row [OF this, of w] assms(2) show "gap (work_row p w b i1 i2 i3) w (data d) (span d)"
    unfolding work_buffer_def work_row_def gap_def by linarith
qed

text \<open>Row \<open>r\<close> of \<^verbatim>\<open>src1\<close> in memory.\<close>

definition source_row :: "ne_tensor \<Rightarrow> nat \<Rightarrow> ptr" where
  "source_row b r = (case nat_row b r of (i1, i2, i3) \<Rightarrow> row_at b i1 i2 i3)"

lemma source_row_gap:
  assumes "mul_mat_operands a b d wa" "work_buffer p w a b d wa" "r < row_count b"
  shows "gap (source_row b r) (4 * nat (ne b ! 0)) p (w * row_count b)"
proof -
  obtain i1 i2 i3 where i: "nat_row b r = (i1, i2, i3)" by (cases "nat_row b r")
  have "elem_offset b 0 i1 i2 i3 + 4 * nat (ne b ! 0) \<le> row_span b (4 * nat (ne b ! 0))"
    using nat_row_bounds [OF operand_dims(5-7) [OF assms(1)] assms(3) i] by (intro row_in_span)
  with assms(2) show ?thesis unfolding work_buffer_def gap_def source_row_def i row_at_def prod.case by linarith
qed

lemma quantize_init:
  assumes o: "mul_mat_operands a b d wa" "second_operand b d" and w: "work_buffer (wdata ps) w a b d wa" "0 < w"
  shows "mul_mat_quantize (Some quantize) w ps b m =
    Inr ((), fold (\<lambda>r. quantize (nat (ne b ! 0)) (source_row b r) (wdata ps + w * r)) [0..<row_count b] m)"
proof -
  note p = operand_dims [OF o(1)]
  have fit: "rows_fit b (4 * nat (ne b ! 0))" using o(2) by (simp add: second_operand_def)
  have n: "nat (to_int32 (ne b ! 0)) = nat (ne b ! 0)" using fit by (simp add: rows_fit_def to_int32_id)
  have e: "enumerate 0 (loop_rows b) = map (\<lambda>r. (r, int3 (nat_row b r))) [0..<row_count b]"
    unfolding loop_rows_nat [OF p(5-7)] by (rule enumerate_map_upt)
  let ?body = "\<lambda>(k, i). sbind (row_ptr b (nat (ne b ! 0)) (off3 (nb b) i)) (\<lambda>x.
      sbind (work_ptr ps (nat (ne b ! 0)) (k * w)) (\<lambda>y. modify (quantize (nat (ne b ! 0)) x y)))"
  have "for_list (enumerate 0 (loop_rows b)) ?body m = Inr ((), fold (\<lambda>(k, i). quantize (nat (ne b ! 0)) (source_row b k) (wdata ps + w * k))
      (enumerate 0 (loop_rows b)) m)"
  proof (rule for_list_fold)
    fix q m assume "q \<in> set (enumerate 0 (loop_rows b))"
    then obtain r where r: "r < row_count b" "q = (r, int3 (nat_row b r))" unfolding e by auto
    obtain i1 i2 i3 where i: "nat_row b r = (i1, i2, i3)" by (cases "nat_row b r")
    have "row_ptr b k (off3 (nb b) (int3 (nat_row b r))) m = Inr (source_row b r, m)" for k
      unfolding i int3_def source_row_def prod.case using nat_row_bounds(1-3) [OF p(5-7) r(1) i] by (rule row_ptr_row [OF fit])
    moreover have "work_ptr ps k (r * w) m = Inr (wdata ps + w * r, m)" for k
      using block_in_row [OF r(1), of w] w by (auto simp: work_ptr_def work_buffer_def mult.commute)
    ultimately show "?body q m = Inr ((), (case q of (k, i) \<Rightarrow> quantize (nat (ne b ! 0)) (source_row b k) (wdata ps + w * k)) m)"
      unfolding r(2) by simp
  qed
  then show ?thesis unfolding mul_mat_quantize_def option.case Let_def n by (simp add: e fold_map comp_def)
qed

lemma quantize_fold:
  assumes o: "mul_mat_operands a b d wa" and t: "type \<in> dot_types" "fn_quantize_row_dot (quantize_fns e type) = Some quantize"
    and n: "nat (ne b ! 0) = 32 * k" and w: "w = NE_TYPE_SIZE (vec_dot_type type) * k" "work_buffer p w a b d wa"
  shows "i < k \<Longrightarrow> r < row_count b \<Longrightarrow> row_block (fold (\<lambda>r. quantize (32 * k) (source_row b r) (p + w * r)) [0..<row_count b] m)
      (p + w * r) (vec_dot_type type) i = encoded_block e type (load_floats m (source_row b r + 128 * i) 32)"
    and "q < p \<or> p + w * row_count b \<le> q \<Longrightarrow> fold (\<lambda>r. quantize (32 * k) (source_row b r) (p + w * r)) [0..<row_count b] m q = m q"
proof -
  let ?W = "\<lambda>r. quantize (32 * k) (source_row b r) (p + w * r)" and ?vt = "vec_dot_type type"
  have sz: "0 < NE_TYPE_SIZE ?vt" using t(1) by (auto simp: dot_types_def block_sizes)
  have g: "gap (source_row b r) (4 * (32 * k)) (p + w * r) (NE_TYPE_SIZE ?vt * k)" if "r < row_count b" for r
    using source_row_gap [OF o w(2) that] block_in_row [OF that, of w] unfolding n w(1) gap_def by linarith
  have frame: "?W r m q = m q" if "r < row_count b" "q < p + w * r \<or> p + w * r + w \<le> q" for r m q
    using that(2) unfolding w(1) by (rule quantized_row(1) [OF t g [OF that(1), unfolded w(1)]])
  have block: "row_block (?W r m) (p + w * r) ?vt i = encoded_block e type (load_floats m (source_row b r + 128 * i) 32)"
    if "r < row_count b" "i < k" for r m i using that(2) by (rule quantized_row(2) [OF t g [OF that(1)]])
  have local: "?W r m' (p + w * r + j) = ?W r m (p + w * r + j)"
    if "r < row_count b" "j < w" "\<And>q. q < p \<or> p + w * row_count b \<le> q \<Longrightarrow> m' q = m q" for r m m' j
  proof -
    let ?i = "j div NE_TYPE_SIZE ?vt"
    have i: "?i < k" using that(2) sz unfolding w(1) by (simp add: less_mult_imp_div_less mult.commute)
    have "load_floats m' (source_row b r + 128 * ?i) 32 = load_floats m (source_row b r + 128 * ?i) 32"
    proof (rule load_floats_cong)
      fix l assume "l < 4 * (32::nat)"
      then have "128 * ?i + l < 4 * nat (ne b ! 0)" unfolding n using block_in_row [OF i, of 128] by simp
      then show "m' (source_row b r + 128 * ?i + l) = m (source_row b r + 128 * ?i + l)"
        using source_row_gap [OF o w(2) that(1)] unfolding gap_def by (intro that(3)) linarith
    qed
    then show ?thesis unfolding row_block_byte [OF sz, of _ "p + w * r"] block [OF that(1) i] by simp
  qed
  show "fold ?W [0..<row_count b] m q = m q" if "q < p \<or> p + w * row_count b \<le> q"
    using that by (intro rows_written(2) [of "row_count b" p w ?W, OF frame local])
  show "row_block (fold ?W [0..<row_count b] m) (p + w * r) ?vt i = encoded_block e type (load_floats m (source_row b r + 128 * i) 32)"
    if "i < k" "r < row_count b"
  proof -
    have "fold ?W [0..<row_count b] m (p + w * r + j) = ?W r m (p + w * r + j)" if "j < NE_TYPE_SIZE ?vt * k" for j
      using that \<open>r < row_count b\<close> unfolding w(1) [symmetric] by (intro rows_written(1) [of "row_count b" p w ?W, OF frame local])
    then have "row_block (fold ?W [0..<row_count b] m) (p + w * r) ?vt i = row_block (?W r m) (p + w * r) ?vt i"
      using that(1) by (intro row_block_cong [of "vec_dot_type type" k]) simp_all
    with block [OF that(2,1)] show ?thesis by simp
  qed
qed

text \<open>The operands of a product with quantized weights.\<close>

definition quantized_operands :: "ptr \<Rightarrow> ne_tensor \<Rightarrow> ne_tensor \<Rightarrow> ne_tensor \<Rightarrow> bool" where
  "quantized_operands p a b d \<longleftrightarrow> ty a \<in> dot_types \<and> 32 dvd nat (ne a ! 0) \<and> nb a ! 0 = NE_TYPE_SIZE (ty a) \<and>
     mul_mat_operands a b d (NE_TYPE_SIZE (ty a) * (nat (ne a ! 0) div 32)) \<and> second_operand b d \<and>
     work_buffer p (NE_TYPE_SIZE (vec_dot_type (ty a)) * (nat (ne a ! 0) div 32)) a b d (NE_TYPE_SIZE (ty a) * (nat (ne a ! 0) div 32))"

definition quantized_elem :: "qenv \<Rightarrow> memory \<Rightarrow> ne_tensor \<Rightarrow> ne_tensor \<Rightarrow> nat \<Rightarrow> nat \<Rightarrow> nat \<Rightarrow> nat \<Rightarrow> 32 word" where
  "quantized_elem e m a b i0 i1 i2 i3 = fold (\<lambda>k sumf. fadd e sumf (block_term e (ty a)
     (row_block m (row_at a i0 (plane2 a b i2) (plane3 a i3)) (ty a) k)
     (encoded_block e (ty a) (load_floats m (row_at b i1 i2 i3 + 128 * k) 32)))) [0..<nat (ne a ! 0) div 32] f32_0"

lemma dot_row_size_eq:
  assumes "type \<in> dot_types" "nat (ne b ! 0) = 32 * k" "0 < ne b ! 0" "ne b ! 0 < 2 ^ 31"
  shows "dot_row_size b (vec_dot_type type) = Inr (NE_TYPE_SIZE (vec_dot_type type) * k)"
proof -
  have s: "NE_TYPE_SIZE (vec_dot_type type) \<le> 40" "NE_BLCK_SIZE (vec_dot_type type) = 32"
    using assms(1) by (auto simp: dot_types_def block_sizes)
  have z: "to_size (ne b ! 0) = 32 * k" using assms(2-4) to_size_nonneg [of "ne b ! 0"] by simp
  have "32 * k < 2 ^ 31" unfolding assms(2) [symmetric] using assms(3,4) by (simp add: nat_less_iff)
  then have "32 * k * NE_TYPE_SIZE (vec_dot_type type) < 2 ^ 64"
    using mult_mono [of "32 * k" "2 ^ 31" "NE_TYPE_SIZE (vec_dot_type type)" 40] s(1) by simp
  then show ?thesis unfolding dot_row_size_def s(2) z by (simp add: udiv_def)
qed

lemma quantized_value:
  assumes o: "quantized_operands wdat a b d" and f: "fn_quantize_row_dot (quantize_fns e (ty a)) = Some quantize"
    and r: "in_range d i0 i1 i2 i3"
  shows "mul_val (quant_dot e (ty a)) a b (work_row wdat (NE_TYPE_SIZE (vec_dot_type (ty a)) * (nat (ne a ! 0) div 32)) b) (i0, i1, i2, i3)
    (fold (\<lambda>r. quantize (32 * (nat (ne a ! 0) div 32)) (source_row b r)
      (wdat + NE_TYPE_SIZE (vec_dot_type (ty a)) * (nat (ne a ! 0) div 32) * r)) [0..<row_count b] m) = quantized_elem e m a b i0 i1 i2 i3"
proof -
  let ?t = "ty a" and ?k = "nat (ne a ! 0) div 32"
  let ?wa = "NE_TYPE_SIZE ?t * ?k" and ?w = "NE_TYPE_SIZE (vec_dot_type ?t) * ?k"
  let ?g = "fold (\<lambda>r. quantize (32 * ?k) (source_row b r) (wdat + ?w * r)) [0..<row_count b]"
  let ?x = "row_at a i0 (plane2 a b i2) (plane3 a i3)"
  have h: "?t \<in> dot_types" "nat (ne a ! 0) = 32 * ?k" "mul_mat_operands a b d ?wa" "work_buffer wdat ?w a b d ?wa"
    using o by (auto simp: quantized_operands_def)
  have nb: "nat (ne b ! 0) = 32 * ?k" using h(2) operand_dims(9) [OF h(3)] by simp
  have i: "i1 < nat (ne b ! 1)" "i2 < nat (ne b ! 2)" "i3 < nat (ne b ! 3)" "i0 < nat (ne a ! 1)"
    using r h(3) by (auto simp: in_range_def mul_mat_operands_def)
  have "row_block (?g m) ?x ?t k = row_block m ?x ?t k" if "k < ?k" for k
  proof (rule row_block_cong [OF _ that])
    fix j assume "j < ?wa"
    then show "?g m (?x + j) = m (?x + j)"
      using row_in_span [OF i(4) plane_bounds(1,2) [OF h(3) i(2)], of i3 ?wa] h(4)
      unfolding work_buffer_def gap_def row_at_def by (intro quantize_fold(2) [OF h(3,1) f nb refl h(4)]) linarith
  qed
  moreover have "row_block (?g m) (work_row wdat ?w b i1 i2 i3) (vec_dot_type ?t) k =
      encoded_block e ?t (load_floats m (row_at b i1 i2 i3 + 128 * k) 32)" if "k < ?k" for k
    using quantize_fold(1) [OF h(3,1) f nb refl h(4) that, of "row_number_of b i1 i2 i3" m] row_number_bound [OF i(1-3)]
    by (simp add: work_row_def source_row_def)
  ultimately show ?thesis unfolding mul_val_def quant_dot_def quantized_elem_def prod.case by (intro fold_cong refl) simp
qed

lemma mul_mat_q_scheduled:
  assumes o: "quantized_operands wdat a b d"
    and n: "0 < n_tasks d" "n_tasks d \<le> int team" and sch: "schedule calls (node_calls team wsz wdat d)"
  shows "\<exists>m1 m'. for_list calls (\<lambda>ps. ne_compute_forward_mul_mat_q_f32 e ps a b d) m = Inr ((), m') \<and>
    result_is d (quantized_elem e m a b) m1 m' \<and>
    (\<forall>q. q < wdat \<or> wdat + NE_TYPE_SIZE (vec_dot_type (ty a)) * (nat (ne a ! 0) div 32) * row_count b \<le> q \<longrightarrow> m1 q = m q)"
proof -
  let ?t = "ty a" and ?k = "nat (ne a ! 0) div 32" and ?n = "nat (ne a ! 0)"
  let ?wa = "NE_TYPE_SIZE ?t * ?k" and ?w = "NE_TYPE_SIZE (vec_dot_type ?t) * ?k"
  have h: "?t \<in> dot_types" "?n = 32 * ?k" "nb a ! 0 = NE_TYPE_SIZE ?t" "mul_mat_operands a b d ?wa" "second_operand b d"
      "work_buffer wdat ?w a b d ?wa"
    using o by (auto simp: quantized_operands_def)
  note p = operand_dims [OF h(4)]
  have nb: "nat (ne b ! 0) = 32 * ?k" and b4: "nb b ! 0 = 4" and bb: "ne b ! 0 < 2 ^ 31"
    using h(2,5) p(9) by (auto simp: second_operand_def rows_fit_def)
  obtain dot quantize where f: "fn_vec_dot e ?t = Some dot" "fn_quantize_row_dot (quantize_fns e ?t) = Some quantize"
    using h(1) by (auto simp: dot_types_def fn_vec_dot_def quantize_fns_def)
  have w: "0 < ?w" using h(1,2) p(1) by (auto simp: dot_types_def block_sizes)
  have rs: "dot_row_size b (vec_dot_type ?t) = Inr ?w" using dot_row_size_eq [OF h(1) nb] p(1,9) bb by simp
  let ?g = "fold (\<lambda>r. quantize (32 * ?k) (source_row b r) (wdat + ?w * r)) [0..<row_count b]"
  let ?kern = "\<lambda>ps. ne_compute_forward_mul_mat_q_f32 e ps a b d"
  note kern_def = ne_compute_forward_mul_mat_q_f32_def mul_mat_asserts [OF h(4)]
  have "\<exists>m'. for_list calls ?kern m = Inr ((), m') \<and>
    result_is d (\<lambda>i0 i1 i2 i3. mul_val (quant_dot e ?t) a b (work_row wdat ?w b) (i0, i1, i2, i3) (?g m)) (?g m) m'"
  proof (rule row_dot.scheduled [OF quant_row_dot [OF h(1) f(1)] h(4) work_cols_apart [OF h(4,6)] n sch,
        where col = "\<lambda>ps. work_col ps b ?w" and g = ?g])
    show "?kern ps m = Inr ((), ?g m)" if "task ps = NE_TASK_INIT" "wdata ps = wdat" for ps
      using that h(3,6) b4 w quantize_init [OF h(4,5), of ps ?w quantize m] by (simp add: kern_def rs f nb)
    show "?kern ps m = Inr ((), m)" if "task ps = NE_TASK_FINALIZE" for ps m using that h(3) b4 by (simp add: kern_def)
    show "?kern ps m = mul_mat_rows dot (work_col ps b ?w) ps a b d m" if "task ps = NE_TASK_COMPUTE" for ps m
      using that h(3) b4 by (simp add: kern_def rs f)
    show "work_col ps b ?w ?n (int i1, int i2, int i3) m = Inr (work_row wdat ?w b i1 i2 i3, m)"
      if "wdata ps = wdat" "i1 < nat (ne b ! 1)" "i2 < nat (ne b ! 2)" "i3 < nat (ne b ! 3)" for ps i1 i2 i3 m
      using work_col_row [OF h(4) _ w that(2-4), of ps] that(1) h(6) by simp
  qed
  moreover have "mul_val (quant_dot e ?t) a b (work_row wdat ?w b) (i0, i1, i2, i3) (?g m) = quantized_elem e m a b i0 i1 i2 i3"
    if "in_range d i0 i1 i2 i3" for i0 i1 i2 i3
    using quantized_value [OF o f(2) that, of m] .
  ultimately obtain m' where m': "for_list calls ?kern m = Inr ((), m')" "result_is d (quantized_elem e m a b) (?g m) m'"
    unfolding result_is_def by auto
  then show ?thesis using quantize_fold(2) [OF h(4,1) f(2) nb refl h(6), of _ m] by blast
qed

section \<open>Half precision\<close>

lemma loop_elems_nat:
  assumes "0 < ne b ! 0" "0 < ne b ! 1" "0 < ne b ! 2" "0 < ne b ! 3"
  shows "loop_elems b = map (\<lambda>k. (int (k mod nat (ne b ! 0)), int3 (nat_row b (k div nat (ne b ! 0))))) [0..<nat (ne b ! 0) * row_count b]"
proof -
  have "loop_elems b = concat (map (\<lambda>r. map (\<lambda>i0. (int i0, int3 (nat_row b r))) [0..<nat (ne b ! 0)]) [0..<row_count b])"
    unfolding loop_elems_def loop_rows_nat [OF assms(2-4)] using assms(1) by (simp add: upto_int_0 comp_def)
  then show ?thesis using assms(1) by (simp add: nested_upt)
qed

definition to_f16_step :: "fconv \<Rightarrow> ptr \<Rightarrow> ne_tensor \<Rightarrow> nat \<Rightarrow> memory \<Rightarrow> memory" where
  "to_f16_step fc p b k m = store16 (p + 2 * k)
     (fp32_to_fp16 fc (load32 m (source_row b (k div nat (ne b ! 0)) + 4 * (k mod nat (ne b ! 0))))) m"

lemma to_f16_init:
  assumes o: "mul_mat_operands a b d wa" "second_operand b d" and w: "work_buffer (wdata ps) (2 * nat (ne b ! 0)) a b d wa"
    and ws: "2 * nat (ne b ! 0) * row_count b \<le> wsize ps"
  shows "mul_mat_to_f16 fc ps b m = Inr ((), fold (to_f16_step fc (wdata ps) b) [0..<nat (ne b ! 0) * row_count b] m)"
proof -
  let ?n = "nat (ne b ! 0)" and ?N = "nat (ne b ! 0) * row_count b"
  note p = operand_dims [OF o(1)]
  have fit: "rows_fit b (4 * ?n)" "nb b ! 0 = 4" "0 < ?n" "ne b ! 0 < 2 ^ 31" using o(2) by (auto simp: second_operand_def rows_fit_def)
  have le: "loop_elems b = map (\<lambda>k. (int (k mod ?n), int3 (nat_row b (k div ?n)))) [0..<?N]"
    using loop_elems_nat [of b] p fit by simp
  then have e: "enumerate 0 (loop_elems b) = map (\<lambda>k. (k, int (k mod ?n), int3 (nat_row b (k div ?n)))) [0..<?N]"
    by (simp only: enumerate_map_upt)
  let ?body = "\<lambda>(id, i0, i). sbind (work_ptr ps 1 (2 * id)) (\<lambda>y. sbind (row_ptr b 1 (off3 (nb b) i + to_size i0 * nb b ! 0)) (\<lambda>x.
       modify (\<lambda>m. store16 y (fp32_to_fp16 fc (load32 m x)) m)))"
  have "for_list (enumerate 0 (loop_elems b)) ?body m = Inr ((), fold (\<lambda>(k, _). to_f16_step fc (wdata ps) b k) (enumerate 0 (loop_elems b)) m)"
  proof (rule for_list_fold)
    fix q m assume "q \<in> set (enumerate 0 (loop_elems b))"
    then obtain k where k: "k < ?N" "q = (k, int (k mod ?n), int3 (nat_row b (k div ?n)))" unfolding e by auto
    have r: "k div ?n < row_count b" "k mod ?n < ?n" using k(1) fit(3) by (simp_all add: less_mult_imp_div_less mult.commute)
    obtain i1 i2 i3 where i: "nat_row b (k div ?n) = (i1, i2, i3)" by (cases "nat_row b (k div ?n)")
    have rg: "in_range b (k mod ?n) i1 i2 i3" using nat_row_bounds [OF p(5-7) r(1) i] r(2) by (simp add: in_range_def)
    have b31: "int i1 < 2 ^ 31" "int i2 < 2 ^ 31" "int i3 < 2 ^ 31" using rg fit by (auto simp: in_range_def rows_fit_def)
    have k31: "int (k mod ?n) < 2 ^ 31" by (rule order.strict_trans [of _ "int ?n"]) (simp only: of_nat_less_iff r(2), use fit(3,4) in simp)
    have off: "off3 (nb b) (int3 (i1, i2, i3)) + to_size (int (k mod ?n)) * nb b ! 0 = elem_offset b 0 i1 i2 i3 + 4 * (k mod ?n)"
      unfolding off3_def int3_def prod.case to_size_int [OF b31(1)] to_size_int [OF b31(2)] to_size_int [OF b31(3)] to_size_int [OF k31]
      by (simp add: elem_offset_def fit(2))
    have "data b + (elem_offset b 0 i1 i2 i3 + 4 * (k mod ?n)) < 2 ^ 64" "data b \<noteq> NULL"
    proof -
      have "elem_offset b 0 i1 i2 i3 + 4 * ?n \<le> row_span b (4 * ?n)" using rg by (intro row_in_span) (auto simp: in_range_def)
      moreover have "data b + row_span b (4 * ?n) \<le> 2 ^ 64" "data b \<noteq> NULL" using fit(1) by (auto simp: rows_fit_def)
      ultimately show "data b + (elem_offset b 0 i1 i2 i3 + 4 * (k mod ?n)) < 2 ^ 64" "data b \<noteq> NULL" using r(2) by linarith+
    qed
    moreover have "wdata ps + 2 * k < 2 ^ 64" "wdata ps \<noteq> NULL" using w k(1) by (auto simp: work_buffer_def mult.assoc)
    ultimately show "?body q m = Inr ((), (case q of (k, _) \<Rightarrow> to_f16_step fc (wdata ps) b k) m)"
      unfolding k(2) i prod.case off by (simp add: row_ptr_def work_ptr_def to_f16_step_def source_row_def i row_at_def add.assoc)
  qed
  moreover have "wrap64 (length (loop_elems b) * 2) \<le> wsize ps"
    using ws le_trans [OF mod_less_eq_dividend] unfolding le by (simp add: wrap64_def mult_ac)
  ultimately show ?thesis unfolding mul_mat_to_f16_def by (simp add: e fold_map comp_def)
qed

lemma to_f16_fold:
  assumes o: "mul_mat_operands a b d wa" "second_operand b d" and w: "work_buffer p (2 * nat (ne b ! 0)) a b d wa"
  shows "r < row_count b \<Longrightarrow> j < nat (ne b ! 0) \<Longrightarrow>
      load16 (fold (to_f16_step fc p b) [0..<nat (ne b ! 0) * row_count b] m) (p + 2 * nat (ne b ! 0) * r + 2 * j) =
        fp32_to_fp16 fc (load32 m (source_row b r + 4 * j))"
    and "q < p \<or> p + 2 * (nat (ne b ! 0) * row_count b) \<le> q \<Longrightarrow>
      fold (to_f16_step fc p b) [0..<nat (ne b ! 0) * row_count b] m q = m q"
proof -
  let ?n = "nat (ne b ! 0)" and ?N = "nat (ne b ! 0) * row_count b" and ?W = "to_f16_step fc p b"
  have n: "0 < ?n" using o(2) by (auto simp: second_operand_def rows_fit_def)
  have frame: "?W k m q = m q" if "q < p + 2 * k \<or> p + 2 * k + 2 \<le> q" for k m q
    using that by (auto simp: to_f16_step_def store16_def)
  have local: "?W k m' (p + 2 * k + j) = ?W k m (p + 2 * k + j)"
    if "k < ?N" "j < 2" "\<And>q. q < p \<or> p + 2 * ?N \<le> q \<Longrightarrow> m' q = m q" for k m m' j
  proof -
    have r: "k div ?n < row_count b" "k mod ?n < ?n" using that(1) n by (simp_all add: less_mult_imp_div_less mult.commute)
    have "load32 m' (source_row b (k div ?n) + 4 * (k mod ?n)) = load32 m (source_row b (k div ?n) + 4 * (k mod ?n))"
      using source_row_gap [OF o(1) w r(1)]
      by (intro load32_local [OF _ r(2)] that(3)) (auto simp: gap_def mult.assoc)
    then show ?thesis using that(2) by (auto simp: to_f16_step_def store16_def less_2_cases_iff)
  qed
  show "fold ?W [0..<?N] m q = m q" if "q < p \<or> p + 2 * ?N \<le> q"
    using that by (intro rows_written(2) [of ?N p 2 ?W, OF frame local])
  show "load16 (fold ?W [0..<?N] m) (p + 2 * ?n * r + 2 * j) = fp32_to_fp16 fc (load32 m (source_row b r + 4 * j))"
    if "r < row_count b" "j < ?n"
  proof -
    let ?k = "?n * r + j"
    have k: "?k < ?N" using block_in_row [OF that(1), of ?n] that(2) by linarith
    have b: "fold ?W [0..<?N] m (p + 2 * ?k + l) = ?W ?k m (p + 2 * ?k + l)" if "l < 2" for l
      using that k by (intro rows_written(1) [of ?N p 2 ?W, OF frame local])
    have "load16 (fold ?W [0..<?N] m) (p + 2 * ?k) = load16 (?W ?k m) (p + 2 * ?k)"
      using b [of 0] b [of 1] by (intro load16_cong) simp_all
    moreover have "?k div ?n = r" "?k mod ?n = j" using that(2) by simp_all
    ultimately show ?thesis
      by (simp add: to_f16_step_def distrib_left add.assoc mult.assoc)
  qed
qed

text \<open>The operands of a product with weights in half precision.\<close>

definition f16_operands :: "ptr \<Rightarrow> nat \<Rightarrow> ne_tensor \<Rightarrow> ne_tensor \<Rightarrow> ne_tensor \<Rightarrow> bool" where
  "f16_operands p wsz a b d \<longleftrightarrow> mul_mat_operands a b d (2 * nat (ne a ! 0)) \<and> nb a ! 0 = 2 \<and> second_operand b d \<and>
     work_buffer p (2 * nat (ne a ! 0)) a b d (2 * nat (ne a ! 0)) \<and> 2 * nat (ne a ! 0) * row_count b \<le> wsz"

definition f16_elem :: "dacc \<Rightarrow> farith \<Rightarrow> fconv \<Rightarrow> memory \<Rightarrow> ne_tensor \<Rightarrow> ne_tensor \<Rightarrow> nat \<Rightarrow> nat \<Rightarrow> nat \<Rightarrow> nat \<Rightarrow> 32 word" where
  "f16_elem da fa fc m a b i0 i1 i2 i3 = f64_to_f32 da (fold (\<lambda>k sumf. d_add da sumf (f32_to_f64 da
     (f_mul fa (fp16_to_fp32 fc (load16 m (row_at a i0 (plane2 a b i2) (plane3 a i3) + 2 * k)))
       (fp16_to_fp32 fc (fp32_to_fp16 fc (elem m b k i1 i2 i3)))))) [0..<nat (ne a ! 0)] 0)"

lemma f16_value:
  assumes o: "f16_operands wdat wsz a b d" and r: "in_range d i0 i1 i2 i3"
  shows "mul_val (dot_f16 da fa fc) a b (work_row wdat (2 * nat (ne a ! 0)) b) (i0, i1, i2, i3)
    (fold (to_f16_step fc wdat b) [0..<nat (ne b ! 0) * row_count b] m) = f16_elem da fa fc m a b i0 i1 i2 i3"
proof -
  let ?n = "nat (ne a ! 0)" and ?g = "fold (to_f16_step fc wdat b) [0..<nat (ne b ! 0) * row_count b]"
  let ?x = "row_at a i0 (plane2 a b i2) (plane3 a i3)"
  have h: "mul_mat_operands a b d (2 * ?n)" "second_operand b d" "work_buffer wdat (2 * ?n) a b d (2 * ?n)"
    using o by (auto simp: f16_operands_def)
  have nb: "ne b ! 0 = ne a ! 0" "nb b ! 0 = 4" using operand_dims(9) [OF h(1)] h(2) by (auto simp: second_operand_def)
  note fold = to_f16_fold [OF h(1) [folded nb(1)] h(2) h(3) [folded nb(1)]]
  have i: "i1 < nat (ne b ! 1)" "i2 < nat (ne b ! 2)" "i3 < nat (ne b ! 3)" "i0 < nat (ne a ! 1)"
    using r h(1) by (auto simp: in_range_def mul_mat_operands_def)
  have "load16 (?g m) (?x + 2 * k) = load16 m (?x + 2 * k)" if "k < ?n" for k
  proof (rule load16_local [OF _ that])
    fix j assume "j < 2 * ?n"
    then show "?g m (?x + j) = m (?x + j)"
      using row_in_span [OF i(4) plane_bounds(1,2) [OF h(1) i(2)], of i3 "2 * ?n"] h(3)
      unfolding work_buffer_def gap_def row_at_def by (intro fold(2)) (simp only: nb(1) mult.assoc, linarith)
  qed
  moreover have "load16 (?g m) (work_row wdat (2 * ?n) b i1 i2 i3 + 2 * k) = fp32_to_fp16 fc (elem m b k i1 i2 i3)" if "k < ?n" for k
    using fold(1) [of "row_number_of b i1 i2 i3" k fc m] row_number_bound [OF i(1-3)] that nb
    by (simp add: work_row_def source_row_def elem_def row_at_def elem_offset_def ac_simps)
  ultimately show ?thesis unfolding mul_val_def dot_f16_def f16_elem_def prod.case
    by (intro arg_cong [where f = "f64_to_f32 da"] fold_cong refl) simp
qed

lemma mul_mat_f16_scheduled:
  assumes o: "f16_operands wdat wsz a b d"
    and n: "0 < n_tasks d" "n_tasks d \<le> int team" and sch: "schedule calls (node_calls team wsz wdat d)"
  shows "\<exists>m1 m'. for_list calls (\<lambda>ps. ne_compute_forward_mul_mat_f16_f32 da fa fc ps a b d) m = Inr ((), m') \<and>
    result_is d (f16_elem da fa fc m a b) m1 m' \<and>
    (\<forall>q. q < wdat \<or> wdat + 2 * nat (ne a ! 0) * row_count b \<le> q \<longrightarrow> m1 q = m q)"
proof -
  let ?n = "nat (ne a ! 0)" and ?g = "fold (to_f16_step fc wdat b) [0..<nat (ne b ! 0) * row_count b]"
  let ?kern = "\<lambda>ps. ne_compute_forward_mul_mat_f16_f32 da fa fc ps a b d"
  have h: "mul_mat_operands a b d (2 * ?n)" "nb a ! 0 = 2" "second_operand b d" "work_buffer wdat (2 * ?n) a b d (2 * ?n)"
      "2 * ?n * row_count b \<le> wsz"
    using o by (auto simp: f16_operands_def)
  have nb: "ne b ! 0 = ne a ! 0" "0 < ?n" "ne b ! 0 < 2 ^ 31" "0 < ne b ! 0"
    using operand_dims(9) [OF h(1)] h(3) by (auto simp: second_operand_def rows_fit_def)
  have "to_size (ne b ! 0) = ?n" using to_size_nonneg [of "ne b ! 0"] nb by simp
  moreover have "?n < 2 ^ 31" using nb by (simp add: nat_less_iff)
  ultimately have rs: "wrap64 (to_size (ne b ! 0) * NE_TYPE_SIZE NE_TYPE_F16) = 2 * ?n" by simp
  note kern_def = ne_compute_forward_mul_mat_f16_f32_def mul_mat_asserts [OF h(1)]
  have "\<exists>m'. for_list calls ?kern m = Inr ((), m') \<and>
    result_is d (\<lambda>i0 i1 i2 i3. mul_val (dot_f16 da fa fc) a b (work_row wdat (2 * ?n) b) (i0, i1, i2, i3) (?g m)) (?g m) m'"
  proof (rule f16_dot.scheduled [OF h(1) work_cols_apart [OF h(1,4)] n sch, where col = "\<lambda>ps. work_col ps b (2 * ?n)" and g = ?g])
    show "?kern ps m = Inr ((), ?g m)" if "task ps = NE_TASK_INIT" "wsize ps = wsz" "wdata ps = wdat" for ps
      using that h(2,4,5) nb to_f16_init [OF h(1,3), of ps fc m] by (simp add: kern_def)
    show "?kern ps m = Inr ((), m)" if "task ps = NE_TASK_FINALIZE" for ps m using that h(2) by (simp add: kern_def)
    show "?kern ps m = mul_mat_rows (ne_vec_dot_f16 da fa fc) (work_col ps b (2 * ?n)) ps a b d m" if "task ps = NE_TASK_COMPUTE" for ps m
      unfolding ne_compute_forward_mul_mat_f16_f32_def rs using that h(2) by (simp add: mul_mat_asserts [OF h(1)])
    show "work_col ps b (2 * ?n) ?n (int i1, int i2, int i3) m = Inr (work_row wdat (2 * ?n) b i1 i2 i3, m)"
      if "wdata ps = wdat" "i1 < nat (ne b ! 1)" "i2 < nat (ne b ! 2)" "i3 < nat (ne b ! 3)" for ps i1 i2 i3 m
      using work_col_row [OF h(1) _ _ that(2-4), of ps "2 * ?n"] that(1) h(4) nb(2) by simp
  qed
  then obtain m' where "for_list calls ?kern m = Inr ((), m')" "result_is d (f16_elem da fa fc m a b) (?g m) m'"
    using f16_value [OF o, of _ _ _ _ da fa fc m] unfolding result_is_def by auto
  moreover have "?g m q = m q" if "q < wdat \<or> wdat + 2 * ?n * row_count b \<le> q" for q
    using to_f16_fold(2) [OF h(1) [folded nb(1)] h(3) h(4) [folded nb(1)], of q fc m] that nb(1) by (simp add: mult.assoc)
  ultimately show ?thesis by blast
qed

section \<open>Properties\<close>

text \<open>
  What an element of the product is, by the type of the weights, and where the operands are: for
  weights that are not 32-bit floats there is room for the converted rows in the work buffer.
\<close>

definition product_elem :: "dacc \<Rightarrow> qenv \<Rightarrow> memory \<Rightarrow> ne_tensor \<Rightarrow> ne_tensor \<Rightarrow> nat \<Rightarrow> nat \<Rightarrow> nat \<Rightarrow> nat \<Rightarrow> 32 word" where
  "product_elem da e m a b = (case ty a of
     NE_TYPE_F32 \<Rightarrow> f32_elem da (q_fa e) m a b
   | NE_TYPE_F16 \<Rightarrow> f16_elem da (q_fa e) (q_fc e) m a b
   | _ \<Rightarrow> quantized_elem e m a b)"

definition product_operands :: "ptr \<Rightarrow> nat \<Rightarrow> ne_tensor \<Rightarrow> ne_tensor \<Rightarrow> ne_tensor \<Rightarrow> bool" where
  "product_operands p wsz a b d \<longleftrightarrow> (case ty a of
     NE_TYPE_F32 \<Rightarrow> mul_mat_operands a b d (4 * nat (ne a ! 0)) \<and> second_operand b d \<and> nb a ! 0 = 4
   | NE_TYPE_F16 \<Rightarrow> f16_operands p wsz a b d
   | _ \<Rightarrow> quantized_operands p a b d)"

definition converted_bytes :: "ne_tensor \<Rightarrow> ne_tensor \<Rightarrow> nat" where
  "converted_bytes a b = (case ty a of
     NE_TYPE_F32 \<Rightarrow> 0
   | NE_TYPE_F16 \<Rightarrow> 2 * nat (ne a ! 0) * row_count b
   | _ \<Rightarrow> NE_TYPE_SIZE (vec_dot_type (ty a)) * (nat (ne a ! 0) div 32) * row_count b)"

lemma mul_mat_scheduled:
  assumes "ty a \<in> dot_types \<union> {NE_TYPE_F32, NE_TYPE_F16}" "product_operands wdat wsz a b d"
    and "0 < n_tasks d" "n_tasks d \<le> int team" "schedule calls (node_calls team wsz wdat d)"
  shows "\<exists>m1 m'. for_list calls (\<lambda>ps. ne_compute_forward_mul_mat da e gemm ps a b d) m = Inr ((), m') \<and>
    result_is d (product_elem da e m a b) m1 m' \<and>
    (\<forall>q. q < wdat \<or> wdat + converted_bytes a b \<le> q \<longrightarrow> m1 q = m q)"
proof -
  consider "ty a = NE_TYPE_F32" | "ty a = NE_TYPE_F16" | "ty a \<in> dot_types" using assms(1) by auto
  then show ?thesis
  proof cases
    case 1
    then obtain m' where "for_list calls (\<lambda>ps. ne_compute_forward_mul_mat_f32 da (q_fa e) ps a b d) m = Inr ((), m')"
        "result_is d (f32_elem da (q_fa e) m a b) m m'"
      using mul_mat_f32_scheduled [OF _ _ _ assms(3-5), of a b da "q_fa e" m] assms(2) by (auto simp: product_operands_def)
    with 1 show ?thesis by (intro exI [of _ m] exI [of _ m']) (simp add: ne_compute_forward_mul_mat_def product_elem_def)
  next
    case 2
    then have "f16_operands wdat wsz a b d" using assms(2) by (simp add: product_operands_def)
    from mul_mat_f16_scheduled [OF this assms(3-5), of da "q_fa e" "q_fc e" m] 2 show ?thesis
      by (simp add: ne_compute_forward_mul_mat_def product_elem_def converted_bytes_def)
  next
    case 3
    then have q: "quantized_operands wdat a b d" "product_elem da e m a b = quantized_elem e m a b"
        "converted_bytes a b = NE_TYPE_SIZE (vec_dot_type (ty a)) * (nat (ne a ! 0) div 32) * row_count b"
        "ne_compute_forward_mul_mat da e gemm ps a b d = ne_compute_forward_mul_mat_q_f32 e ps a b d" for ps
      using assms(2) by (auto simp: product_operands_def product_elem_def converted_bytes_def ne_compute_forward_mul_mat_def dot_types_def)
    from mul_mat_q_scheduled [OF q(1) assms(3-5), of e m] show ?thesis unfolding q(2-4) .
  qed
qed

text \<open>
  C4. Matrix products (\<^verbatim>\<open>ne_compute_forward_mul_mat\<close>) with weights in 32-bit floats, in 16-bit floats and
  in the formats Q4_0, Q4_1, Q5_0, Q5_1, Q8_0. For every number of tasks and every schedule of the
  calls of a node, the kernel succeeds, and element \<open>(i0, i1, i2, i3)\<close> is the dot product of row \<open>i0\<close> of
  the plane of \<^verbatim>\<open>src0\<close> that serves plane \<open>(i2, i3)\<close> with row \<open>i1\<close> of that plane of \<^verbatim>\<open>src1\<close>, both as they
  were before the node: for half-precision weights with the second row rounded to half precision, for
  quantized weights with its blocks quantized to the partner format. Beside the destination only the
  converted rows in the work buffer are written.
\<close>

theorem mul_mat_any_schedule:
  assumes "ty a \<in> dot_types \<union> {NE_TYPE_F32, NE_TYPE_F16}" "product_operands wdat wsz a b d"
    and "0 < n_tasks d" "n_tasks d \<le> int team" "schedule calls (node_calls team wsz wdat d)"
  shows "\<exists>m1 m'. for_list calls (\<lambda>ps. ne_compute_forward_mul_mat da e gemm ps a b d) m = Inr ((), m') \<and>
    result_is d (product_elem da e m a b) m1 m' \<and>
    (\<forall>q. q < wdat \<or> wdat + converted_bytes a b \<le> q \<longrightarrow> m1 q = m q)"
  by (rule mul_mat_scheduled [OF assms])

definition demo_weights :: ne_tensor where
  "demo_weights = (demo_f32 [32, 2, 1, 1] [18, 18, 36, 36] 4096)\<lparr>ty := NE_TYPE_Q4_0\<rparr>"
definition demo_column :: ne_tensor where "demo_column = demo_f32 [32, 1, 1, 1] [4, 128, 128, 128] 8192"
definition demo_product :: ne_tensor where "demo_product = demo_f32 [2, 1, 1, 1] [4, 8, 8, 8] 12288"
definition demo_da :: dacc where "demo_da = \<lparr>d_add = (+), f32_to_f64 = ucast, f64_to_f32 = ucast\<rparr>"

lemmas demo_product_defs = demo_weights_def demo_column_def demo_product_def demo_f32_def

lemma demo_product_operands: "product_operands 16384 64 demo_weights demo_column demo_product"
  by (simp add: product_operands_def quantized_operands_def dot_types_def mul_mat_operands_def second_operand_def rows_fit_def
      work_buffer_def gap_def row_span_def rows_apart_def addressable_def span_def elem_offset_def ne_can_mul_mat_True
      demo_product_defs block_sizes)

theorem mul_mat_any_schedule_witness:
  "\<exists>m'. for_list (concat (node_calls 2 64 16384 demo_product))
      (\<lambda>ps. ne_compute_forward_mul_mat demo_da demo_env (\<lambda>_ _ _ _ _ _ _ _ _ m. m) ps demo_weights demo_column demo_product) demo_mem = Inr ((), m') \<and>
    load32 m' (12288 + 4) = fadd demo_env f32_0 (block_term demo_env NE_TYPE_Q4_0 (row_block demo_mem 4114 NE_TYPE_Q4_0 0)
      (encoded_block demo_env NE_TYPE_Q4_0 (load_floats demo_mem 8192 32)))"
proof -
  have "n_tasks demo_product = 2" "ty demo_weights \<in> dot_types" by (simp_all add: demo_product_defs dot_types_def)
  then obtain m1 m' where m': "for_list (concat (node_calls 2 64 16384 demo_product))
        (\<lambda>ps. ne_compute_forward_mul_mat demo_da demo_env (\<lambda>_ _ _ _ _ _ _ _ _ m. m) ps demo_weights demo_column demo_product) demo_mem = Inr ((), m')"
      "result_is demo_product (product_elem demo_da demo_env demo_mem demo_weights demo_column) m1 m'"
    using mul_mat_any_schedule [of demo_weights 16384 64 demo_column demo_product 2 "concat (node_calls 2 64 16384 demo_product)"
        demo_da demo_env "\<lambda>_ _ _ _ _ _ _ _ _ m. m" demo_mem] demo_product_operands schedule_in_order by auto
  have "in_range demo_product 1 0 0 0" by (simp add: in_range_def demo_product_defs)
  from m'(1) result_is_elem [OF m'(2) this] show ?thesis
    by (simp add: elem_def elem_offset_def product_elem_def quantized_elem_def row_at_def plane2_def plane3_def demo_product_defs)
qed

text \<open>
  Planes that are shared in the third dimension and repeated in the fourth at the same time are mixed
  up: row 0 of plane \<open>(1, 0)\<close> of \<^verbatim>\<open>src1\<close> gets plane \<open>(0, 1)\<close> of \<^verbatim>\<open>src0\<close>, although the shapes are
  accepted.
\<close>

lemma mixed_planes:
  "ne_can_mul_mat (demo_f32 [1, 1, 1, 2] s p) (demo_f32 [1, 1, 2, 2] s' p') = Inr True \<and>
   src0_plane (demo_f32 [1, 1, 1, 2] s p) (demo_f32 [1, 1, 2, 2] s' p') 1 1 = Inr (0, 1)"
  by (simp add: ne_can_mul_mat_True demo_f32_def src0_plane_def cdiv_nonneg cmod_nonneg)

end
