(* ===== verification/NE_Rows_Results.thy ===== *)
theory NE_Rows_Results
  imports NE_Rows NE_Matmul_Results
begin

text \<open>
  Kernels that turn rows into rows, in place or not: the row loops compute functions on lists of
  floats (interface \<open>row_function\<close>), rows do not disturb each other, and so every schedule of the
  calls of a node gives the function of every row.
\<close>

section \<open>Rows as lists\<close>

lemma store32_list_snoc: "store32_list p (vs @ [v]) m = store32 (p + 4 * length vs) v (store32_list p vs m)"
  by (induction p vs m rule: store32_list.induct) (simp_all add: add.assoc)

lemma store32_list_byte:
  assumes "i < length vs" "k < 4"
  shows "store32_list p vs m (p + 4 * i + k) = byte_of (vs ! i) k"
  using byte_of_load32 [OF assms(2), of "store32_list p vs m" "p + 4 * i"] load32_store32_list [OF assms(1), of p m] by simp

lemma store32_list_again:
  assumes "length vs = length us"
  shows "store32_list p vs (store32_list p us m) = store32_list p vs m"
proof
  fix q
  show "store32_list p vs (store32_list p us m) q = store32_list p vs m q"
  proof (cases "q < p \<or> p + 4 * length vs \<le> q")
    case True
    then show ?thesis using assms by (simp add: store32_list_frame)
  next
    case False
    then have "q = p + 4 * ((q - p) div 4) + (q - p) mod 4" "(q - p) div 4 < length vs" by (auto simp: div_less_iff_less_mult)
    then show ?thesis by (metis mod_less_divisor store32_list_byte zero_less_numeral)
  qed
qed

definition from_or_apart :: "ptr \<Rightarrow> ptr \<Rightarrow> nat \<Rightarrow> bool" where
  "from_or_apart x y n \<longleftrightarrow> x = y \<or> gap x (4 * n) y (4 * n)"

text \<open>One pass over a row that stores a function of every element and accumulates another.\<close>

lemma row_pass:
  assumes "from_or_apart x y n"
  shows "fold (\<lambda>i (m, s). (store32 (y + 4 * i) (g (load32 m (x + 4 * i))) m, h s (load32 m (x + 4 * i)))) [0..<n] (m, s) =
    (store32_list y (map g (load_floats m x n)) m, fold (\<lambda>v s. h s v) (load_floats m x n) s)"
proof -
  have "k \<le> n \<Longrightarrow> fold (\<lambda>i (m, s). (store32 (y + 4 * i) (g (load32 m (x + 4 * i))) m, h s (load32 m (x + 4 * i)))) [0..<k] (m, s) =
    (store32_list y (map g (load_floats m x k)) m, fold (\<lambda>v s. h s v) (load_floats m x k) s)" for k
  proof (induction k)
    case 0
    then show ?case by (simp add: load_floats_def)
  next
    case (Suc k)
    let ?m = "store32_list y (map g (load_floats m x k)) m"
    have "load32 ?m (x + 4 * k) = load32 m (x + 4 * k)"
      using assms Suc.prems unfolding from_or_apart_def gap_def by (intro load32_frame store32_list_frame) auto
    moreover have "load_floats m x (Suc k) = load_floats m x k @ [load32 m (x + 4 * k)]" by (simp add: load_floats_def)
    ultimately show ?case using Suc by (simp add: store32_list_snoc)
  qed
  from this [of n] show ?thesis by simp
qed

lemma row_map:
  assumes "from_or_apart x y n"
  shows "vec_map1 g n y x m = store32_list y (map g (load_floats m x n)) m"
proof -
  let ?f = "\<lambda>i (m, s :: unit). (store32 (y + 4 * i) (g (load32 m (x + 4 * i))) m, s)"
  have "fold ?f is (m, ()) = (fold (\<lambda>i m. store32 (y + 4 * i) (g (load32 m (x + 4 * i))) m) is m, ())" for "is"
    by (induction "is" arbitrary: m) simp_all
  moreover have "fold ?f [0..<n] (m, ()) = (store32_list y (map g (load_floats m x n)) m, ())"
    using row_pass [OF assms, of g "\<lambda>s _. s" m "()"] by simp
  ultimately show ?thesis by (simp add: vec_map1_def)
qed

lemma scale_list: "length vs = n \<Longrightarrow> ne_vec_scale_f32 fa n y v (store32_list y vs m) = store32_list y (map (\<lambda>a. f_mul fa a v) vs) m"
  unfolding ne_vec_scale_f32_def using row_map [of y y n "\<lambda>a. f_mul fa a v"] load_store_floats [of y vs m]
  by (simp add: from_or_apart_def store32_list_again)

lemma copy_list: "copy_bytes (4 * n) y x m = store32_list y (load_floats m x n) m"
proof
  fix q
  show "copy_bytes (4 * n) y x m q = store32_list y (load_floats m x n) m q"
  proof (cases "q < y \<or> y + 4 * n \<le> q")
    case True
    then show ?thesis by (auto simp: store32_list_frame copy_bytes_def)
  next
    case False
    define i k where "i = (q - y) div 4" and "k = (q - y) mod 4"
    have q: "q = y + 4 * i + k" "i < n" "k < 4" using False by (auto simp: i_def k_def div_less_iff_less_mult)
    then have "store32_list y (load_floats m x n) m q = m (x + 4 * i + k)"
      using store32_list_byte [of i "load_floats m x n" k y m] byte_of_load32 [of k m "x + 4 * i"] by (simp add: load_floats_def)
    then show ?thesis using False q(1) by (simp add: copy_bytes_def add.assoc)
  qed
qed

lemma fold_floats: "fold (\<lambda>i s. h s (load32 m (x + 4 * i))) [0..<n] s = fold (\<lambda>v s. h s v) (load_floats m x n) s"
  by (simp add: load_floats_def fold_map comp_def)

section \<open>Row functions\<close>

definition list_sum :: "renv \<Rightarrow> 32 word list \<Rightarrow> 64 word" where
  "list_sum e xs = fold (\<lambda>v s. dadd e s v) xs f64_0"

definition norm_list :: "renv \<Rightarrow> 32 word \<Rightarrow> 32 word list \<Rightarrow> 32 word list" where
  "norm_list e eps xs =
     (let n = i64_to_f64 e (int (length xs)); mean = dround e (d_div e (list_sum e xs) n);
          vs = map (\<lambda>x. f_sub (r_fa e) x mean) xs; variance = dround e (d_div e (list_sum e (map (\<lambda>v. f_mul (r_fa e) v v) vs)) n) in
      map (\<lambda>v. f_mul (r_fa e) v (f_div (r_fa e) f32_1 (f_sqrt (r_fa e) (f_add (r_fa e) variance eps)))) vs)"

definition rms_norm_list :: "renv \<Rightarrow> 32 word \<Rightarrow> 32 word list \<Rightarrow> 32 word list" where
  "rms_norm_list e eps xs =
     (let mean = dround e (d_div e (list_sum e (map (\<lambda>v. f_mul (r_fa e) v v) xs)) (i64_to_f64 e (int (length xs)))) in
      map (\<lambda>v. f_mul (r_fa e) v (f_div (r_fa e) f32_1 (f_sqrt (r_fa e) (f_add (r_fa e) mean eps)))) xs)"

text \<open>
  Elements that are minus infinity count nothing; a row of them only is left at zero, its sum is taken
  to be the number of elements.
\<close>

definition list_max :: "renv \<Rightarrow> 32 word list \<Rightarrow> 32 word" where
  "list_max e xs = fold (\<lambda>v mx. if f_less (r_fa e) mx v then v else mx) xs f32_minus_inf"

definition soft_max_list :: "renv \<Rightarrow> 32 word list \<Rightarrow> 32 word list" where
  "soft_max_list e xs =
     (let mx = list_max e xs;
          weights = map (\<lambda>x. if x = f32_minus_inf then f32_0 else exp_val e mx x) xs;
          sumf = fold (\<lambda>x s. if x = f32_minus_inf then s else dadd e s (exp_val e mx x)) xs
            (if mx = f32_minus_inf then i64_to_f64 e (int (length xs)) else f64_0) in
      map (\<lambda>w. f_mul (r_fa e) w (dround e (d_div e f64_1 sumf))) weights)"

text \<open>Steps on disjoint ranges that only depend on their own range and on what no step changes.\<close>

lemma fold_disjoint:
  assumes frame: "\<And>r m p. r \<in> I \<Longrightarrow> p \<notin> rng r \<Longrightarrow> step r m p = m p"
    and local: "\<And>r m m' p. r \<in> I \<Longrightarrow> \<forall>q. (\<forall>s \<in> I. s \<noteq> r \<longrightarrow> q \<notin> rng s) \<longrightarrow> m' q = m q \<Longrightarrow>
      p \<in> rng r \<Longrightarrow> step r m' p = step r m p"
    and disj: "\<And>r s. r \<in> I \<Longrightarrow> s \<in> I \<Longrightarrow> r \<noteq> s \<Longrightarrow> rng r \<inter> rng s = {}"
    and rs: "distinct rs" "set rs \<subseteq> I"
  shows "r \<in> set rs \<Longrightarrow> p \<in> rng r \<Longrightarrow> fold step rs m p = step r m p"
    and "(\<And>r. r \<in> set rs \<Longrightarrow> p \<notin> rng r) \<Longrightarrow> fold step rs m p = m p"
proof -
  have out: "set xs \<subseteq> I \<Longrightarrow> (\<And>r. r \<in> set xs \<Longrightarrow> p \<notin> rng r) \<Longrightarrow> fold step xs m p = m p" for xs m p
    by (induction xs arbitrary: m) (simp_all add: frame)
  show "fold step rs m p = m p" if "\<And>r. r \<in> set rs \<Longrightarrow> p \<notin> rng r" using out [OF rs(2)] that by blast
  show "fold step rs m p = step r m p" if r: "r \<in> set rs" "p \<in> rng r"
  proof -
    obtain xs ys where s: "rs = xs @ r # ys" using r(1) by (meson split_list)
    have i: "r \<in> I" "set xs \<subseteq> I" "set ys \<subseteq> I" "r \<notin> set xs" "r \<notin> set ys" using rs by (auto simp: s)
    have "p \<notin> rng t" if "t \<in> set ys" for t using that i r(2) disj [of r t] by blast
    then have "fold step rs m p = step r (fold step xs m) p" unfolding s by (simp add: out [OF i(3)])
    also have "\<dots> = step r m p"
      using i by (intro local [OF i(1) _ r(2)] allI impI out) auto
    finally show ?thesis .
  qed
qed

section \<open>Any schedule\<close>

definition row_operands :: "ne_tensor \<Rightarrow> ne_tensor \<Rightarrow> bool" where
  "row_operands a d \<longleftrightarrow> addressable a \<and> rows_apart d \<and> ne_are_same_shape a d \<and> nb a ! 0 = 4 \<and> operand a d"

definition row_range_of :: "ne_tensor \<Rightarrow> int \<Rightarrow> ptr set" where
  "row_range_of d r = (case row_of d r of (i1, i2, i3) \<Rightarrow> {row_at d i1 i2 i3 ..< row_at d i1 i2 i3 + 4 * nat (ne d ! 0)})"

definition row_int :: "ne_tensor \<Rightarrow> int \<Rightarrow> int \<Rightarrow> int \<Rightarrow> int" where
  "row_int d i1 i2 i3 = i1 + ne d ! 1 * (i2 + ne d ! 2 * i3)"

definition row_step :: "(int \<Rightarrow> nat \<Rightarrow> ptr \<Rightarrow> ptr \<Rightarrow> memory \<Rightarrow> memory) \<Rightarrow> ne_tensor \<Rightarrow> ne_tensor \<Rightarrow> int \<Rightarrow> memory \<Rightarrow> memory" where
  "row_step row a d r = (case row_of d r of (i1, i2, i3) \<Rightarrow> row r (nat (ne d ! 0)) (row_at d i1 i2 i3) (row_at a i1 i2 i3))"

text \<open>The memory outside the rows of a tensor.\<close>

definition elsewhere :: "ne_tensor \<Rightarrow> memory \<Rightarrow> memory \<Rightarrow> bool" where
  "elsewhere d m m' \<longleftrightarrow> (\<forall>q. (\<forall>r \<in> row_range d. q \<notin> row_range_of d r) \<longrightarrow> m' q = m q)"

lemma row_ranges_disjoint:
  assumes "rows_apart d" "r \<in> row_range d" "s \<in> row_range d" "r \<noteq> s"
  shows "row_range_of d r \<inter> row_range_of d s = {}"
proof -
  have ad: "addressable d" using assms(1) by (simp add: rows_apart_def)
  obtain i1 i2 i3 j1 j2 j3 where e: "row_of d r = (i1, i2, i3)" "row_of d s = (j1, j2, j3)" by (metis prod_cases3)
  note i = row_of_range [OF ad assms(2) e(1)] and j = row_of_range [OF ad assms(3) e(2)]
  have "(i1, i2, i3) \<noteq> (j1, j2, j3)" using i(4) j(4) assms(4) by auto
  with i j assms(1) have "i1 * nb d ! 1 + i2 * nb d ! 2 + i3 * nb d ! 3 + 4 * nat (ne d ! 0) \<le> j1 * nb d ! 1 + j2 * nb d ! 2 + j3 * nb d ! 3 \<or>
      j1 * nb d ! 1 + j2 * nb d ! 2 + j3 * nb d ! 3 + 4 * nat (ne d ! 0) \<le> i1 * nb d ! 1 + i2 * nb d ! 2 + i3 * nb d ! 3"
    by (intro offset_sep) (auto simp: rows_apart_def)
  then show ?thesis by (auto simp: row_range_of_def e row_at_def elem_offset_def)
qed

text \<open>A row of the operand is the row of the destination itself or apart from all of them.\<close>

lemma operand_row:
  assumes o: "row_operands a d" and r: "r \<in> row_range d" "row_of d r = (i1, i2, i3)"
  shows "from_or_apart (row_at a i1 i2 i3) (row_at d i1 i2 i3) (nat (ne d ! 0))"
    and "s \<in> row_range d \<Longrightarrow> s \<noteq> r \<Longrightarrow> k < 4 * nat (ne d ! 0) \<Longrightarrow> row_at a i1 i2 i3 + k \<notin> row_range_of d s"
proof -
  have ra: "rows_apart d" and op: "operand a d" and a4: "nb a ! 0 = 4" and sh: "ne a ! 0 = ne d ! 0" "ne a ! 1 = ne d ! 1" "ne a ! 2 = ne d ! 2" "ne a ! 3 = ne d ! 3"
    using o by (auto simp: row_operands_def ne_are_same_shape_def)
  have ad: "addressable d" and p: "0 < ne d ! 0" and d4: "nb d ! 0 = 4" using ra by (auto simp: rows_apart_def addressable_def)
  let ?n = "nat (ne d ! 0)"
  have row_end: "row_at t j1 j2 j3 + 4 * ?n \<le> data t + span t"
    if "nb t ! 0 = 4" "ne t ! 0 = ne d ! 0" "in_range t (?n - 1) j1 j2 j3" for t j1 j2 j3
    using elem_in_span [OF that(3)] that(1,2) p by (simp add: row_at_def elem_offset_def)
  have in_d: "in_range d (?n - 1) j1 j2 j3" if "s \<in> row_range d" "row_of d s = (j1, j2, j3)" for s j1 j2 j3
    using row_of_range [OF ad that] p by (simp add: in_range_def)
  have a_end: "row_at a i1 i2 i3 + 4 * ?n \<le> data a + span a"
    using row_end [OF a4 sh(1)] in_d [OF r] sh by (simp add: in_range_def)
  consider (same) "row_at a i1 i2 i3 = row_at d i1 i2 i3" | (apart) "apart a d"
    using op by (auto simp: operand_def row_at_def elem_offset_def)
  note cases = this
  show "from_or_apart (row_at a i1 i2 i3) (row_at d i1 i2 i3) ?n"
  proof (cases rule: cases)
    case apart
    then show ?thesis using a_end row_end [OF d4 refl in_d [OF r]] unfolding from_or_apart_def gap_def apart_def row_at_def by linarith
  qed (simp add: from_or_apart_def)
  show "row_at a i1 i2 i3 + k \<notin> row_range_of d s" if s: "s \<in> row_range d" "s \<noteq> r" and k: "k < 4 * ?n"
  proof (cases rule: cases)
    case same
    then have "row_at a i1 i2 i3 + k \<in> row_range_of d r" using k by (simp add: row_range_of_def r(2))
    then show ?thesis using row_ranges_disjoint [OF ra r(1) s(1)] s(2) by blast
  next
    case apart
    obtain j1 j2 j3 where j: "row_of d s = (j1, j2, j3)" by (cases "row_of d s")
    show ?thesis using apart k a_end row_end [OF d4 refl in_d [OF s(1) j]]
      by (auto simp: row_range_of_def j apart_def row_at_def)
  qed
qed

locale row_function =
  fixes row :: "int \<Rightarrow> nat \<Rightarrow> ptr \<Rightarrow> ptr \<Rightarrow> memory \<Rightarrow> memory" and f :: "int \<Rightarrow> 32 word list \<Rightarrow> 32 word list"
    and fits :: "nat \<Rightarrow> bool"
  assumes row_store: "fits n \<Longrightarrow> from_or_apart x y n \<Longrightarrow> row r n y x m = store32_list y (f r (load_floats m x n)) m"
    and f_length: "fits (length xs) \<Longrightarrow> length (f r xs) = length xs"
begin

lemma step_frame:
  assumes "fits (nat (ne d ! 0))" "row_operands a d" "r \<in> row_range d" "p \<notin> row_range_of d r"
  shows "row_step row a d r m p = m p"
proof -
  obtain i1 i2 i3 where i: "row_of d r = (i1, i2, i3)" by (cases "row_of d r")
  show ?thesis using assms(4) row_store [OF assms(1) operand_row(1) [OF assms(2,3) i]]
    by (auto simp: row_step_def i row_range_of_def f_length assms(1) load_floats_def intro!: store32_list_frame)
qed

lemma step_local:
  assumes fit: "fits (nat (ne d ! 0))" and o: "row_operands a d" "r \<in> row_range d"
    and m: "\<forall>q. (\<forall>s \<in> row_range d. s \<noteq> r \<longrightarrow> q \<notin> row_range_of d s) \<longrightarrow> m' q = m q" and p: "p \<in> row_range_of d r"
  shows "row_step row a d r m' p = row_step row a d r m p"
proof -
  obtain i1 i2 i3 where i: "row_of d r = (i1, i2, i3)" by (cases "row_of d r")
  let ?n = "nat (ne d ! 0)" and ?y = "row_at d i1 i2 i3" and ?x = "row_at a i1 i2 i3"
  have x: "load_floats m' ?x ?n = load_floats m ?x ?n"
    by (intro load_floats_cong m [rule_format] ballI impI operand_row(2) [OF o i])
  define k l where "k = (p - ?y) div 4" and "l = (p - ?y) mod 4"
  have "p = ?y + 4 * k + l" "k < ?n" "l < 4" using p by (auto simp: row_range_of_def i k_def l_def div_less_iff_less_mult)
  moreover have "length (f r (load_floats m ?x ?n)) = ?n" using fit by (simp add: f_length load_floats_def)
  ultimately show ?thesis by (simp add: row_step_def i row_store [OF fit operand_row(1) [OF o i]] x store32_list_byte)
qed

lemma scheduled:
  assumes fit: "fits (nat (ne d ! 0))" and o: "row_operands a d" and n: "0 < n_tasks d" "n_tasks d \<le> int team"
    and sch: "schedule calls (node_calls team wsz wdat d)"
    and idle: "\<And>ps m. task ps \<noteq> NE_TASK_COMPUTE \<Longrightarrow> kern ps m = Inr ((), m)"
    and busy: "\<And>ps m'. task ps = NE_TASK_COMPUTE \<Longrightarrow> nth ps = n_tasks d \<Longrightarrow> 0 \<le> ith ps \<Longrightarrow> ith ps < n_tasks d \<Longrightarrow>
      elsewhere d m m' \<Longrightarrow> kern ps m' = Inr ((), fold (row_step row a d) (rows (ith ps)) m')"
    and rows: "\<And>i. 0 \<le> i \<Longrightarrow> i < n_tasks d \<Longrightarrow> distinct (rows i) \<and> set (rows i) = {r \<in> row_range d. owner r = i}"
    and owner: "\<And>r. r \<in> row_range d \<Longrightarrow> owner r \<in> {0 ..< n_tasks d}"
  shows "\<exists>m'. for_list calls kern m = Inr ((), m') \<and>
    result_is d (\<lambda>i0 i1 i2 i3. f (row_int d (int i1) (int i2) (int i3)) (map (\<lambda>k. elem m a k i1 i2 i3) [0..<nat (ne d ! 0)]) ! i0) m m'"
proof -
  have ra: "rows_apart d" and ad: "addressable d" and a4: "nb a ! 0 = 4" and d4: "nb d ! 0 = 4"
    using o by (auto simp: row_operands_def rows_apart_def)
  let ?n = "nat (ne d ! 0)" and ?step = "row_step row a d"
  have keep: "elsewhere d m (fold ?step (rows i) m')" if "0 \<le> i" "i < n_tasks d" "elsewhere d m m'" for i m'
  proof -
    have "set xs \<subseteq> row_range d \<Longrightarrow> elsewhere d m (fold ?step xs m')" for xs using that(3)
      by (induction xs arbitrary: m') (auto simp: elsewhere_def step_frame [OF fit o])
    then show ?thesis using rows [OF that(1,2)] by blast
  qed
  obtain rs where rs: "distinct rs" "set rs = row_range d" "for_list calls kern m = Inr ((), fold ?step rs m)"
    using schedule_fold [OF n sch, of kern m "\<lambda>m. m" "elsewhere d m" ?step rows "row_range d" owner] idle busy keep rows owner
    by (auto simp: elsewhere_def)
  note fold = fold_disjoint [where step = ?step and I = "row_range d" and rng = "row_range_of d",
      OF step_frame [OF fit o] step_local [OF fit o] row_ranges_disjoint [OF ra] rs(1) equalityD1 [OF rs(2)]]
  have "elem (fold ?step rs m) d i0 i1 i2 i3 = f (row_int d (int i1) (int i2) (int i3)) (map (\<lambda>k. elem m a k i1 i2 i3) [0..<?n]) ! i0" if i: "in_range d i0 i1 i2 i3" for i0 i1 i2 i3
  proof -
    obtain r where r: "r \<in> row_range d" "row_of d r = (i1, i2, i3)" using row_of_exists [OF ad, of i1 i2 i3] i by (auto simp: in_range_def)
    have i0: "i0 < ?n" using i by (simp add: in_range_def)
    let ?y = "row_at d i1 i2 i3"
    have "elem (fold ?step rs m) d i0 i1 i2 i3 = load32 (fold ?step rs m) (?y + 4 * i0)"
      using d4 by (simp add: elem_def row_at_def elem_offset_def ac_simps)
    also have "\<dots> = load32 (?step r m) (?y + 4 * i0)"
    proof (rule load32_frame, rule fold(1))
      show "?y + 4 * i0 + k \<in> row_range_of d r" if "k < 4" for k using that i0 by (simp add: row_range_of_def r(2))
    qed (use r rs in auto)
    also have "\<dots> = f r (load_floats m (row_at a i1 i2 i3) ?n) ! i0"
      using i0 by (simp add: row_step_def r(2) row_store [OF fit operand_row(1) [OF o r]] load32_store32_list f_length fit load_floats_def)
    also have "r = row_int d (int i1) (int i2) (int i3)" using row_of_range(4) [OF ad r] by (simp add: row_int_def)
    also have "load_floats m (row_at a i1 i2 i3) ?n = map (\<lambda>k. elem m a k i1 i2 i3) [0..<?n]"
      using a4 by (simp add: load_floats_def elem_def row_at_def elem_offset_def ac_simps)
    finally show ?thesis .
  qed
  moreover have "fold ?step rs m p = m p"
    if p: "\<And>i0 i1 i2 i3. in_range d i0 i1 i2 i3 \<Longrightarrow> p < data d + elem_offset d i0 i1 i2 i3 \<or> data d + elem_offset d i0 i1 i2 i3 + 4 \<le> p" for p
  proof (rule fold(2))
    fix r assume r: "r \<in> set rs"
    obtain i1 i2 i3 where i: "row_of d r = (i1, i2, i3)" by (cases "row_of d r")
    note b = row_of_range [OF ad _ i]
    show "p \<notin> row_range_of d r"
    proof
      assume q: "p \<in> row_range_of d r"
      define k where "k = (p - row_at d i1 i2 i3) div 4"
      have "k < ?n" "row_at d i1 i2 i3 + 4 * k \<le> p" "p < row_at d i1 i2 i3 + 4 * k + 4"
        using q by (auto simp: row_range_of_def i k_def div_less_iff_less_mult)
      with p [of k i1 i2 i3] b r rs(2) d4 show False by (auto simp: in_range_def row_at_def elem_offset_def)
    qed
  qed
  ultimately show ?thesis unfolding result_is_def using rs(3) by auto
qed

end

interpretation norm_fun: row_function "\<lambda>_. norm_row e eps" "\<lambda>_. norm_list e eps" "\<lambda>_. True" for e eps
proof
  fix x y :: ptr and n :: nat and m :: memory assume o: "from_or_apart x y n"
  let ?mean = "dround e (d_div e (ne_vec_sum_ggf e n x m) (i64_to_f64 e (int n)))"
  show "norm_row e eps n y x m = store32_list y (norm_list e eps (load_floats m x n)) m"
    using row_pass [OF o, of "\<lambda>v. f_sub (r_fa e) v ?mean" "\<lambda>s v. dadd e s (f_mul (r_fa e) (f_sub (r_fa e) v ?mean) (f_sub (r_fa e) v ?mean))" m f64_0]
    by (simp add: norm_row_def norm_list_def Let_def scale_list ne_vec_sum_ggf_def fold_floats list_sum_def fold_map comp_def)
qed (simp add: norm_list_def Let_def)

interpretation rms_norm_fun: row_function "\<lambda>_. rms_norm_row e eps" "\<lambda>_. rms_norm_list e eps" "\<lambda>_. True" for e eps
proof
  fix x y :: ptr and n :: nat and m :: memory
  show "rms_norm_row e eps n y x m = store32_list y (rms_norm_list e eps (load_floats m x n)) m"
    using fold_floats [of "\<lambda>s v. dadd e s (f_mul (r_fa e) v v)" m x n f64_0]
    by (simp add: rms_norm_row_def rms_norm_list_def Let_def copy_list scale_list list_sum_def fold_map comp_def)
qed (simp add: rms_norm_list_def Let_def)

interpretation soft_max_fun: row_function "\<lambda>_. soft_max_row e" "\<lambda>_. soft_max_list e" "\<lambda>_. True" for e
proof
  fix x y :: ptr and n :: nat and m :: memory assume o: "from_or_apart x y n"
  let ?mx = "ne_vec_max_f32 e n x m"
  have mx: "?mx = list_max e (load_floats m x n)"
    using fold_floats [of "\<lambda>mx v. if f_less (r_fa e) mx v then v else mx" m x n f32_minus_inf] by (simp add: ne_vec_max_f32_def list_max_def)
  let ?g = "\<lambda>mx v. if v = f32_minus_inf then f32_0 else exp_val e mx v"
  let ?h = "\<lambda>mx s v. if v = f32_minus_inf then s else dadd e s (exp_val e mx v)"
  have step: "(\<lambda>i (m, sumf). if load32 m (x + 4 * i) = f32_minus_inf then (store32 (y + 4 * i) f32_0 m, sumf)
      else (store32 (y + 4 * i) (exp_val e mx (load32 m (x + 4 * i))) m, dadd e sumf (exp_val e mx (load32 m (x + 4 * i))))) =
    (\<lambda>i (m, s). (store32 (y + 4 * i) (?g mx (load32 m (x + 4 * i))) m, ?h mx s (load32 m (x + 4 * i))))" for mx
    by (auto simp: fun_eq_iff)
  show "soft_max_row e n y x m = store32_list y (soft_max_list e (load_floats m x n)) m"
    unfolding soft_max_row_def Let_def mx step row_pass [OF o, of "?g mx" "?h mx" for mx]
    by (simp add: scale_list soft_max_list_def Let_def)
qed (simp add: soft_max_list_def Let_def)

section \<open>Kernels\<close>

lemma row_ptr_addressable:
  assumes "addressable t" "in_range t i0 i1 i2 i3"
  shows "row_ptr t n (off3 (nb t) (int i1, int i2, int i3)) m = Inr (row_at t i1 i2 i3, m)"
  unfolding off3_int(4) [OF assms] row_at_def by (rule row_ptr_elem [OF assms])

lemma operand_range:
  assumes "row_operands a d" "r \<in> row_range d" "row_of d r = (i1, i2, i3)"
  shows "addressable a" "addressable d" "in_range a 0 i1 i2 i3" "in_range d 0 i1 i2 i3"
proof -
  show d: "addressable d" and "addressable a" using assms(1) by (auto simp: row_operands_def rows_apart_def)
  show "in_range d 0 i1 i2 i3" using row_of_range [OF d assms(2,3)] addressable_bounds [OF d] by (simp add: in_range_def)
  then show "in_range a 0 i1 i2 i3" using assms(1) by (simp add: in_range_def row_operands_def ne_are_same_shape_def)
qed

lemma soft_max_call:
  assumes o: "row_operands a d" "even_rows a" "even_rows d" and rs: "set rs \<subseteq> row_range d"
  shows "for_list rs (\<lambda>i1. sbind (row_ptr a (nat (ne d ! 0)) (to_size i1 * nb a ! 1)) (\<lambda>sp.
      sbind (row_ptr d (nat (ne d ! 0)) (to_size i1 * nb d ! 1)) (\<lambda>dp. modify (row (nat (ne d ! 0)) dp sp)))) m =
    Inr ((), fold (row_step (\<lambda>_. row) a d) rs m)"
proof (rule for_list_fold)
  fix r m assume "r \<in> set rs"
  then have r: "r \<in> row_range d" using rs by blast
  obtain i1 i2 i3 where i: "row_of d r = (i1, i2, i3)" by (cases "row_of d r")
  note g = operand_range [OF o(1) r i]
  have sh: "ne a ! 1 = ne d ! 1" "ne a ! 2 = ne d ! 2" "ne a ! 3 = ne d ! 3"
    using o(1) by (auto simp: row_operands_def ne_are_same_shape_def)
  then have ra: "r \<in> row_range a" "row_of a r = (i1, i2, i3)" using r i by (simp_all add: row_range_def row_of_def)
  show "sbind (row_ptr a (nat (ne d ! 0)) (to_size r * nb a ! 1)) (\<lambda>sp.
      sbind (row_ptr d (nat (ne d ! 0)) (to_size r * nb d ! 1)) (\<lambda>dp. modify (row (nat (ne d ! 0)) dp sp))) m = Inr ((), row_step (\<lambda>_. row) a d r m)"
    unfolding even_row_offset [OF g(1) o(2) ra] even_row_offset [OF g(2) o(3) r i]
    by (simp add: row_ptr_elem [OF g(1,3)] row_ptr_elem [OF g(2,4)] row_step_def i row_at_def)
qed

lemma soft_max_scheduled:
  assumes o: "row_operands a d" "even_rows a" "even_rows d" "ne_is_contiguous a = Inr True" "ne_is_contiguous d = Inr True"
    and n: "0 < n_tasks d" "n_tasks d \<le> int team" and sch: "schedule calls (node_calls team wsz wdat d)"
  shows "\<exists>m'. for_list calls (\<lambda>ps. ne_compute_forward_soft_max_f32 e ps a d) m = Inr ((), m') \<and>
    result_is d (\<lambda>i0 i1 i2 i3. soft_max_list e (map (\<lambda>k. elem m a k i1 i2 i3) [0..<nat (ne d ! 0)]) ! i0) m m'"
proof -
  have ad: "addressable d" and sh: "ne_are_same_shape a d" using o(1) by (auto simp: row_operands_def rows_apart_def)
  have nr: "ne_nrows a = ne_nrows d" and nc: "nat (to_int32 (ne a ! 0)) = nat (ne d ! 0)"
    using sh addressable_bounds [OF ad] by (simp_all add: ne_nrows_def ne_are_same_shape_def to_int32_id)
  have rr: "row_range d = {0 ..< ne_nrows d}" "0 < ne_nrows d" using addressable_bounds [OF ad] by (auto simp: row_range_def)
  let ?rows = "\<lambda>i. projr (block_rows (ne_nrows d) i (n_tasks d))"
  let ?owner = "\<lambda>r. r div ((ne_nrows d + n_tasks d - 1) div n_tasks d)"
  have st: "block_rows (ne_nrows d) i (n_tasks d) = Inr (?rows i)" "distinct (?rows i)"
      "set (?rows i) = {r \<in> row_range d. ?owner r = i}" if "0 \<le> i" for i
    using block_rows_owner [OF rr(2) n(1) that] unfolding rr(1) by (metis sum.sel(2))+
  show ?thesis
  proof (rule soft_max_fun.scheduled [OF TrueI o(1) n sch])
    show "ne_compute_forward_soft_max_f32 e ps a d m = Inr ((), m)" if "task ps \<noteq> NE_TASK_COMPUTE" for ps m
      using not_compute [OF that] o(4,5) sh by (simp add: ne_compute_forward_soft_max_f32_def ne_assertR_def)
    show "ne_compute_forward_soft_max_f32 e ps a d m = Inr ((), fold (row_step (\<lambda>_. soft_max_row e) a d) (?rows (ith ps)) m)"
      if "task ps = NE_TASK_COMPUTE" "nth ps = n_tasks d" "0 \<le> ith ps" for ps m
    proof -
      note t = that
      have sub: "set (?rows (ith ps)) \<subseteq> row_range d" unfolding st(3) [OF t(3)] by blast
      obtain rs where rs: "block_rows (ne_nrows d) (ith ps) (n_tasks d) = Inr rs" using st(1) [OF t(3)] by blast
      from soft_max_call [OF o(1-3) sub, of "soft_max_row e" m] show ?thesis using t(1,2) o(4,5) sh
        by (simp add: ne_compute_forward_soft_max_f32_def is_init_or_finalize_def ne_assertR_def Let_def nr nc rs)
    qed
    show "distinct (?rows i) \<and> set (?rows i) = {r \<in> row_range d. ?owner r = i}" if "0 \<le> i" for i using st(2,3) [OF that] by blast
    show "?owner r \<in> {0 ..< n_tasks d}" if "r \<in> row_range d" for r
      using that n unfolding rr by (intro block_owner_range) auto
  qed
qed

text \<open>The rows of a task of the normalising kernels.\<close>

definition plane_rows :: "ne_tensor \<Rightarrow> int list \<Rightarrow> int list" where
  "plane_rows d rs = concat (map (\<lambda>i3. concat (map (\<lambda>i2. map (\<lambda>i1. row_int d i1 i2 i3) rs) [0 .. ne d ! 2 - 1])) [0 .. ne d ! 3 - 1])"

lemma distinct_concat_map:
  assumes "distinct xs" "\<And>x. x \<in> set xs \<Longrightarrow> distinct (g x)" "\<And>x y. x \<in> set xs \<Longrightarrow> y \<in> set xs \<Longrightarrow> x \<noteq> y \<Longrightarrow> set (g x) \<inter> set (g y) = {}"
  shows "distinct (concat (map g xs))"
  using assms
proof (induction xs)
  case (Cons x xs)
  then have "set (g x) \<inter> set (g y) = {}" if "y \<in> set xs" for y using that by (metis distinct.simps(2) list.set_intros)
  with Cons show ?case by auto
qed simp

lemma row_int_of:
  assumes "addressable d" "0 \<le> i1" "i1 < ne d ! 1" "0 \<le> i2" "i2 < ne d ! 2" "0 \<le> i3" "i3 < ne d ! 3"
  shows "row_int d i1 i2 i3 \<in> row_range d" "row_of d (row_int d i1 i2 i3) = (nat i1, nat i2, nat i3)"
proof -
  obtain r where r: "r \<in> row_range d" "row_of d r = (nat i1, nat i2, nat i3)"
    using row_of_exists [OF assms(1), of "nat i1" "nat i2" "nat i3"] assms by auto
  have "r = row_int d i1 i2 i3" using row_of_range(4) [OF assms(1) r] assms by (simp add: row_int_def)
  with r show "row_int d i1 i2 i3 \<in> row_range d" "row_of d (row_int d i1 i2 i3) = (nat i1, nat i2, nat i3)" by auto
qed

lemma plane_rows_share:
  assumes "addressable d" "distinct rs" "set rs = {r \<in> {0 ..< ne d ! 1}. P r}"
  shows "distinct (plane_rows d rs)" "set (plane_rows d rs) = {r \<in> row_range d. P (r mod ne d ! 1)}"
proof -
  have p: "0 < ne d ! 1" "0 < ne d ! 2" using addressable_bounds [OF assms(1)] by auto
  have inj: "row_int d i1 i2 i3 = row_int d j1 j2 j3 \<longleftrightarrow> i1 = j1 \<and> i2 = j2 \<and> i3 = j3"
    if "i1 \<in> set rs" "j1 \<in> set rs" "i2 \<in> {0 ..< ne d ! 2}" "j2 \<in> {0 ..< ne d ! 2}" "i3 \<in> {0 ..< ne d ! 3}" "j3 \<in> {0 ..< ne d ! 3}" for i1 i2 i3 j1 j2 j3
  proof
    assume e: "row_int d i1 i2 i3 = row_int d j1 j2 j3"
    have b: "0 \<le> i1" "i1 < ne d ! 1" "0 \<le> i2" "i2 < ne d ! 2" "0 \<le> i3" "i3 < ne d ! 3"
        "0 \<le> j1" "j1 < ne d ! 1" "0 \<le> j2" "j2 < ne d ! 2" "0 \<le> j3" "j3 < ne d ! 3"
      using that assms(3) by auto
    have "(nat i1, nat i2, nat i3) = (nat j1, nat j2, nat j3)"
      using row_int_of(2) [OF assms(1) b(1-6)] row_int_of(2) [OF assms(1) b(7-12)] e by metis
    then show "i1 = j1 \<and> i2 = j2 \<and> i3 = j3"
      using eq_nat_nat_iff [OF b(1,7)] eq_nat_nat_iff [OF b(3,9)] eq_nat_nat_iff [OF b(5,11)] by simp
  qed simp
  show "distinct (plane_rows d rs)"
    unfolding plane_rows_def
  proof (rule distinct_concat_map)
    fix i3 assume "i3 \<in> set [0 .. ne d ! 3 - 1]"
    then have i3: "i3 \<in> {0 ..< ne d ! 3}" by auto
    show "distinct (concat (map (\<lambda>i2. map (\<lambda>i1. row_int d i1 i2 i3) rs) [0 .. ne d ! 2 - 1]))"
    proof (rule distinct_concat_map)
      fix i2 assume "i2 \<in> set [0 .. ne d ! 2 - 1]"
      then show "distinct (map (\<lambda>i1. row_int d i1 i2 i3) rs)" using assms(2) by (simp add: distinct_map inj_on_def row_int_def)
    next
      fix i2 j2 assume "i2 \<in> set [0 .. ne d ! 2 - 1]" "j2 \<in> set [0 .. ne d ! 2 - 1]" "i2 \<noteq> j2"
      then have "row_int d i1 i2 i3 \<noteq> row_int d j1 j2 i3" if "i1 \<in> set rs" "j1 \<in> set rs" for i1 j1
        using inj [OF that _ _ i3 i3, of i2 j2] by simp
      then show "set (map (\<lambda>i1. row_int d i1 i2 i3) rs) \<inter> set (map (\<lambda>i1. row_int d i1 j2 i3) rs) = {}" by auto
    qed simp
  next
    fix i3 j3 assume i: "i3 \<in> set [0 .. ne d ! 3 - 1]" "j3 \<in> set [0 .. ne d ! 3 - 1]" "i3 \<noteq> j3"
    have "row_int d i1 i2 i3 \<noteq> row_int d j1 j2 j3"
      if "i1 \<in> set rs" "j1 \<in> set rs" "i2 \<in> set [0 .. ne d ! 2 - 1]" "j2 \<in> set [0 .. ne d ! 2 - 1]" for i1 j1 i2 j2
      using inj [OF that(1,2), of i2 j2 i3 j3] that(3,4) i by simp
    then show "set (concat (map (\<lambda>i2. map (\<lambda>i1. row_int d i1 i2 i3) rs) [0 .. ne d ! 2 - 1])) \<inter>
        set (concat (map (\<lambda>i2. map (\<lambda>i1. row_int d i1 i2 j3) rs) [0 .. ne d ! 2 - 1])) = {}" by fastforce
  qed simp
  show "set (plane_rows d rs) = {r \<in> row_range d. P (r mod ne d ! 1)}"
  proof (intro set_eqI iffI)
    fix r assume "r \<in> set (plane_rows d rs)"
    then obtain i1 i2 i3 where r: "r = row_int d i1 i2 i3" "i1 \<in> set rs" "0 \<le> i2" "i2 < ne d ! 2" "0 \<le> i3" "i3 < ne d ! 3"
      by (auto simp: plane_rows_def)
    moreover have i1: "0 \<le> i1" "i1 < ne d ! 1" "P i1" using r(2) assms(3) by auto
    moreover have "row_int d i1 i2 i3 mod ne d ! 1 = i1" using i1 by (simp add: row_int_def)
    ultimately show "r \<in> {r \<in> row_range d. P (r mod ne d ! 1)}" using row_int_of(1) [OF assms(1)] by auto
  next
    fix r assume r: "r \<in> {r \<in> row_range d. P (r mod ne d ! 1)}"
    obtain i1 i2 i3 where i: "row_of d r = (i1, i2, i3)" by (cases "row_of d r")
    note b = row_of_range [OF assms(1) _ i]
    have "r = row_int d (int i1) (int i2) (int i3)" "i1 < nat (ne d ! 1)" "i2 < nat (ne d ! 2)" "i3 < nat (ne d ! 3)"
      using b r by (auto simp: row_int_def)
    moreover from this have "r mod ne d ! 1 = int i1" by (simp add: row_int_def)
    ultimately show "r \<in> set (plane_rows d rs)" using r assms(3) by (force simp: plane_rows_def)
  qed
qed

lemma norm_call:
  assumes o: "row_operands a d" and st: "strided (ith ps) (nth ps) (ne d ! 1) = Inr rs" and rs: "set rs \<subseteq> {0 ..< ne d ! 1}"
  shows "norm_rows row ps a d m = Inr ((), fold (row_step (\<lambda>_. row) a d) (plane_rows d rs) m)"
proof -
  have sh: "ne a ! 0 = ne d ! 0" "ne a ! 1 = ne d ! 1" "ne a ! 2 = ne d ! 2" "ne a ! 3 = ne d ! 3"
    using o by (auto simp: row_operands_def ne_are_same_shape_def)
  have ad: "addressable d" using o by (auto simp: row_operands_def rows_apart_def)
  have elt: "sbind (row_ptr a n (off3 (nb a) (i1, i2, i3))) (\<lambda>x. sbind (row_ptr d n (off3 (nb d) (i1, i2, i3))) (\<lambda>y. modify (row (nat (ne d ! 0)) y x))) m =
      Inr ((), row_step (\<lambda>_. row) a d (row_int d i1 i2 i3) m)"
    if i: "i1 \<in> set rs" "i2 \<in> set [0 .. ne d ! 2 - 1]" "i3 \<in> set [0 .. ne d ! 3 - 1]" for n i1 i2 i3 m
  proof -
    have b: "0 \<le> i1" "i1 < ne d ! 1" "0 \<le> i2" "i2 < ne d ! 2" "0 \<le> i3" "i3 < ne d ! 3" using i rs by auto
    note r = row_int_of [OF ad b]
    note g = operand_range [OF o r]
    show ?thesis using b row_ptr_addressable [OF g(1,3), of n m] row_ptr_addressable [OF g(2,4), of n m] by (simp add: row_step_def r(2))
  qed
  let ?body = "\<lambda>i3 i2. sbind (liftR (strided (ith ps) (nth ps) (ne d ! 1))) (\<lambda>rs. for_list rs (\<lambda>i1.
      sbind (row_ptr a (nat (ne d ! 0)) (off3 (nb a) (i1, i2, i3))) (\<lambda>x.
      sbind (row_ptr d (nat (ne d ! 0)) (off3 (nb d) (i1, i2, i3))) (\<lambda>y. modify (row (nat (ne d ! 0)) y x)))))"
  let ?rows = "\<lambda>i3 i2. map (\<lambda>i1. row_int d i1 i2 i3) rs"
  have row: "?body i3 i2 m = Inr ((), fold (row_step (\<lambda>_. row) a d) (?rows i3 i2) m)"
    if "i3 \<in> set [0 .. ne d ! 3 - 1]" "i2 \<in> set [0 .. ne d ! 2 - 1]" for i2 i3 m
    unfolding st sbind_liftR fold_map comp_def by (rule for_list_fold) (rule elt [OF _ that(2,1)])
  have plane: "for_list [0 .. ne d ! 2 - 1] (?body i3) m = Inr ((), fold (row_step (\<lambda>_. row) a d) (concat (map (?rows i3) [0 .. ne d ! 2 - 1])) m)"
    if "i3 \<in> set [0 .. ne d ! 3 - 1]" for i3 m
    unfolding fold_concat_map by (rule for_list_fold) (rule row [OF that])
  have "for_list [0 .. ne d ! 3 - 1] (\<lambda>i3. for_list [0 .. ne d ! 2 - 1] (?body i3)) m =
      Inr ((), fold (row_step (\<lambda>_. row) a d) (plane_rows d rs) m)"
    unfolding plane_rows_def fold_concat_map [of _ "\<lambda>i3. concat (map (?rows i3) [0 .. ne d ! 2 - 1])"] by (rule for_list_fold) (rule plane)
  then show ?thesis unfolding norm_rows_def Let_def sh .
qed

lemma norm_scheduled:
  assumes f: "row_function (\<lambda>_. row) (\<lambda>_. f) (\<lambda>_. True)" and o: "row_operands a d" "andR (ne_is_contiguous a) (ne_is_contiguous d) = Inr False"
    and n: "0 < n_tasks d" "n_tasks d \<le> int team" and sch: "schedule calls (node_calls team wsz wdat d)"
  shows "\<exists>m'. for_list calls (\<lambda>ps. norm_f32 ln row isrms eps ps a d) m = Inr ((), m') \<and>
    result_is d (\<lambda>i0 i1 i2 i3. f (map (\<lambda>k. elem m a k i1 i2 i3) [0..<nat (ne d ! 0)]) ! i0) m m'"
proof -
  have ad: "addressable d" and sh: "ne_are_same_shape a d" and a4: "nb a ! 0 = 4" using o(1) by (auto simp: row_operands_def rows_apart_def)
  note nc = o(2)
  have p: "0 \<le> ne d ! 1" using addressable_bounds [OF ad] by simp
  let ?rows = "\<lambda>i. plane_rows d (projr (strided i (n_tasks d) (ne d ! 1)))"
  have st: "\<exists>rs. strided i (n_tasks d) (ne d ! 1) = Inr rs \<and> distinct rs \<and> set rs = {r \<in> {0 ..< ne d ! 1}. r mod n_tasks d = i}"
    if "0 \<le> i" "i < n_tasks d" for i using strided_rows [OF that p] by metis
  show ?thesis
  proof (rule row_function.scheduled [OF f TrueI o(1) n sch])
    show "norm_f32 ln row isrms eps ps a d m = Inr ((), m)" if "task ps \<noteq> NE_TASK_COMPUTE" for ps m
      using not_compute [OF that] sh by (simp add: norm_f32_def)
    show "norm_f32 ln row isrms eps ps a d m = Inr ((), fold (row_step (\<lambda>_. row) a d) (?rows (ith ps)) m)"
      if t: "task ps = NE_TASK_COMPUTE" "nth ps = n_tasks d" "0 \<le> ith ps" "ith ps < n_tasks d" for ps m
    proof -
      obtain rs where s: "strided (ith ps) (n_tasks d) (ne d ! 1) = Inr rs" "set rs = {r \<in> {0 ..< ne d ! 1}. r mod n_tasks d = ith ps}"
        using st [OF t(3,4)] by blast
      have sub: "set rs \<subseteq> {0 ..< ne d ! 1}" unfolding s(2) by blast
      have rs: "strided (ith ps) (nth ps) (ne d ! 1) = Inr rs" using s(1) t(2) by simp
      have "norm_f32 ln row isrms eps ps a d m = norm_rows row ps a d m" using t(1)
        by (simp add: norm_f32_def is_init_or_finalize_def sh a4 nc sbind_liftR)
      then show ?thesis using norm_call [OF o(1) rs sub, of row m] s(1) by simp
    qed
    show "distinct (?rows i) \<and> set (?rows i) = {r \<in> row_range d. r mod ne d ! 1 mod n_tasks d = i}" if i: "0 \<le> i" "i < n_tasks d" for i
    proof -
      obtain rs where "strided i (n_tasks d) (ne d ! 1) = Inr rs" "distinct rs" "set rs = {r \<in> {0 ..< ne d ! 1}. r mod n_tasks d = i}"
        using st [OF i] by blast
      then show ?thesis using plane_rows_share [OF ad, of rs "\<lambda>r. r mod n_tasks d = i"] by simp
    qed
    show "r mod ne d ! 1 mod n_tasks d \<in> {0 ..< n_tasks d}" for r using n by simp
  qed
qed

section \<open>Properties\<close>

text \<open>
  C37. Soft-max (\<^verbatim>\<open>ne_compute_forward_soft_max\<close>). For every number of tasks and every schedule of the calls
  of a node, the kernel succeeds on contiguous tensors, every row of the result is the soft-max of that
  row of the operand as it was before the node - weights from the table of half-precision exponentials,
  scaled by the inverse of their sum in double precision, elements at minus infinity counted as zero -
  and no other byte of the memory changes. The destination may be the operand itself.
\<close>

theorem soft_max_any_schedule:
  assumes "ty a = NE_TYPE_F32" "row_operands a d" "even_rows a" "even_rows d"
    and "ne_is_contiguous a = Inr True" "ne_is_contiguous d = Inr True"
    and "0 < n_tasks d" "n_tasks d \<le> int team" "schedule calls (node_calls team wsz wdat d)"
  shows "\<exists>m'. for_list calls (\<lambda>ps. ne_compute_forward_soft_max e ps a d) m = Inr ((), m') \<and>
    result_is d (\<lambda>i0 i1 i2 i3. soft_max_list e (map (\<lambda>k. elem m a k i1 i2 i3) [0..<nat (ne d ! 0)]) ! i0) m m'"
  using soft_max_scheduled [OF assms(2-9), of e m] by (simp add: ne_compute_forward_soft_max_def switch_f32_def assms(1))

definition demo_renv :: renv where
  "demo_renv = \<lparr>r_env = demo_env, r_acc = demo_da, d_div = (div), i64_to_f64 = word_of_int, i64_to_f32 = word_of_int\<rparr>"

definition demo_padded :: ne_tensor where "demo_padded = demo_f32 [2, 2, 1, 1] [4, 16, 32, 32] 4096"

lemma demo_row_operands: "row_operands demo_src demo_dst" "row_operands demo_padded demo_padded"
  by (simp_all add: row_operands_def demo_layout operand_def)
    (simp_all add: demo_padded_def demo_kernel_defs addressable_def rows_apart_def span_def elem_offset_def ne_are_same_shape_def)

theorem soft_max_any_schedule_witness:
  "\<exists>m'. for_list (concat (node_calls 2 0 0 demo_dst)) (\<lambda>ps. ne_compute_forward_soft_max demo_renv ps demo_src demo_dst) demo_mem = Inr ((), m') \<and>
    load32 m' (12288 + 12) = soft_max_list demo_renv [load32 demo_mem (4096 + 8), load32 demo_mem (4096 + 12)] ! 1"
proof -
  have "n_tasks demo_dst = 2" "ty demo_src = NE_TYPE_F32" by (simp_all add: demo_kernel_defs)
  moreover have "ne_is_contiguous demo_src = Inr True" "ne_is_contiguous demo_dst = Inr True"
    by (simp_all add: ne_is_contiguous_True demo_kernel_defs to_size_def)
  ultimately obtain m' where m': "for_list (concat (node_calls 2 0 0 demo_dst))
        (\<lambda>ps. ne_compute_forward_soft_max demo_renv ps demo_src demo_dst) demo_mem = Inr ((), m')"
      "result_is demo_dst (\<lambda>i0 i1 i2 i3. soft_max_list demo_renv (map (\<lambda>k. elem demo_mem demo_src k i1 i2 i3) [0..<nat (ne demo_dst ! 0)]) ! i0) demo_mem m'"
    using soft_max_any_schedule [of demo_src demo_dst 2 "concat (node_calls 2 0 0 demo_dst)" 0 0 demo_renv demo_mem]
      demo_row_operands(1) demo_layout schedule_in_order by auto
  have "in_range demo_dst 1 1 0 0" by (simp add: in_range_def demo_kernel_defs)
  from m'(1) result_is_elem [OF m'(2) this] show ?thesis
    by (simp add: elem_def elem_offset_def demo_kernel_defs upt_rec)
qed

text \<open>
  C38. Normalisation (\<^verbatim>\<open>ne_compute_forward_norm\<close>, \<^verbatim>\<open>ne_compute_forward_rms_norm\<close>) of tensors that are not both
  contiguous. For every number of tasks and every schedule of the calls of a node, the kernel succeeds,
  every row of the result is the normalised row of the operand as it was before the node - by mean and
  variance, with the constant \<open>1e-5\<close>, or by the mean of squares, with the constant from \<^verbatim>\<open>op_params\<close> -
  and no other byte of the memory changes. The destination may be the operand itself.
\<close>

theorem norm_any_schedule:
  assumes "(kern, f) \<in> {(ne_compute_forward_norm ln e, norm_list e f32_1e_5),
      (ne_compute_forward_rms_norm ln e, rms_norm_list e (op_params d ! 0))}"
    and "ty a = NE_TYPE_F32" "row_operands a d" "andR (ne_is_contiguous a) (ne_is_contiguous d) = Inr False"
    and "0 < n_tasks d" "n_tasks d \<le> int team" "schedule calls (node_calls team wsz wdat d)"
  shows "\<exists>m'. for_list calls (\<lambda>ps. kern ps a d) m = Inr ((), m') \<and>
    result_is d (\<lambda>i0 i1 i2 i3. f (map (\<lambda>k. elem m a k i1 i2 i3) [0..<nat (ne d ! 0)]) ! i0) m m'"
proof -
  consider "kern = ne_compute_forward_norm ln e" "f = norm_list e f32_1e_5"
    | "kern = ne_compute_forward_rms_norm ln e" "f = rms_norm_list e (op_params d ! 0)" using assms(1) by auto
  then show ?thesis
  proof cases
    case 1
    with norm_scheduled [OF norm_fun.row_function_axioms [of e f32_1e_5] assms(3-7), of ln False f32_1e_5 m] show ?thesis
      by (simp add: ne_compute_forward_norm_def ne_compute_forward_norm_f32_def switch_f32_def assms(2))
  next
    case 2
    with norm_scheduled [OF rms_norm_fun.row_function_axioms [of e "op_params d ! 0"] assms(3-7), of ln True "op_params d ! 0" m] show ?thesis
      by (simp add: ne_compute_forward_rms_norm_def ne_compute_forward_rms_norm_f32_def switch_f32_def assms(2))
  qed
qed

theorem norm_any_schedule_witness:
  "\<exists>m'. for_list (concat (node_calls 2 0 0 demo_padded))
      (\<lambda>ps. ne_compute_forward_norm (\<lambda>_ _ _ _ _ _ m. m) demo_renv ps demo_padded demo_padded) demo_mem = Inr ((), m') \<and>
    load32 m' (4096 + 20) = norm_list demo_renv f32_1e_5 [load32 demo_mem (4096 + 16), load32 demo_mem (4096 + 20)] ! 1"
proof -
  have "n_tasks demo_padded = 2" "ty demo_padded = NE_TYPE_F32" by (simp_all add: demo_padded_def demo_f32_def)
  moreover have "andR (ne_is_contiguous demo_padded) (ne_is_contiguous demo_padded) = Inr False"
    by (simp add: ne_is_contiguous_def udiv_def andR_def demo_padded_def demo_f32_def to_size_def)
  ultimately obtain m' where m': "for_list (concat (node_calls 2 0 0 demo_padded))
        (\<lambda>ps. ne_compute_forward_norm (\<lambda>_ _ _ _ _ _ m. m) demo_renv ps demo_padded demo_padded) demo_mem = Inr ((), m')"
      "result_is demo_padded (\<lambda>i0 i1 i2 i3. norm_list demo_renv f32_1e_5 (map (\<lambda>k. elem demo_mem demo_padded k i1 i2 i3) [0..<nat (ne demo_padded ! 0)]) ! i0) demo_mem m'"
    using norm_any_schedule [of "ne_compute_forward_norm (\<lambda>_ _ _ _ _ _ m. m) demo_renv" "norm_list demo_renv f32_1e_5"
        "\<lambda>_ _ _ _ _ _ m. m" demo_renv demo_padded demo_padded 2 "concat (node_calls 2 0 0 demo_padded)" 0 0 demo_mem]
      demo_row_operands(2) schedule_in_order by auto
  have "in_range demo_padded 1 1 0 0" by (simp add: in_range_def demo_padded_def demo_f32_def)
  from m'(1) result_is_elem [OF m'(2) this] show ?thesis
    by (simp add: elem_def elem_offset_def demo_padded_def demo_f32_def upt_rec)
qed

end
