(* ===== verification/NE_Rope_Results.thy ===== *)
theory NE_Rope_Results
  imports NE_Rope NE_Rows_Results
begin

text \<open>
  Rotary embedding: the counters of the tasks share the rows out, a row loop turns the pairs of the row,
  and so every schedule turns every pair of every row by the angle of its position.
\<close>

section \<open>Counting rows\<close>

primrec picked :: "int \<Rightarrow> int \<Rightarrow> int \<Rightarrow> 'a list \<Rightarrow> 'a list" where
  "picked lo hi k [] = []"
| "picked lo hi k (x # xs) = (if lo \<le> k \<and> k < hi then x # picked lo hi (k + 1) xs else picked lo hi (k + 1) xs)"

lemma picked_past: "hi \<le> k \<Longrightarrow> picked lo hi k xs = []"
  by (induction xs arbitrary: k) simp_all

lemma picked_append: "picked lo hi k (xs @ ys) = picked lo hi k xs @ picked lo hi (k + int (length xs)) ys"
  by (induction xs arbitrary: k) (simp_all add: add.assoc)

lemma picked_map_upt: "0 \<le> lo \<Longrightarrow> picked lo hi (int j) (map h [j..<n]) = map (\<lambda>r. h (nat r)) [max lo (int j) .. min hi (int n) - 1]"
proof (induction "n - j" arbitrary: j)
  case (Suc k)
  then have j: "j < n" "k = n - Suc j" by auto
  note ih = Suc.hyps(1) [OF j(2) Suc.prems]
  have u: "map h [j..<n] = h j # map h [Suc j..<n]" using j(1) by (simp add: upt_rec)
  show ?case
  proof (cases "lo \<le> int j \<and> int j < hi")
    case True
    then have "[max lo (int j) .. min hi (int n) - 1] = int j # [int j + 1 .. min hi (int n) - 1]"
      using j(1) by (subst upto_rec1) auto
    moreover have "max lo (int j + 1) = int j + 1" using True by simp
    ultimately show ?thesis using True ih unfolding u by (simp add: add.commute)
  next
    case False
    show ?thesis
    proof (cases "int j < lo")
      case True
      then have "max lo (int j) = max lo (int j + 1)" by simp
      then show ?thesis using False ih unfolding u by (simp add: add.commute)
    next
      case beyond: False
      then have "hi \<le> int j" using False by simp
      then show ?thesis unfolding u by (simp add: picked_past)
    qed
  qed
qed simp

lemma rope_i1_rows:
  assumes "\<And>i1 m. i1 \<in> set is \<Longrightarrow> body i1 m = Inr ((), g i1 m)"
  shows "\<exists>c. rope_i1 ir0 ir1 body is ir m = Inr (c, fold g (picked ir0 ir1 ir is) m) \<and>
    (c = ir + int (length is) \<or> ir1 < c \<and> ir1 < ir + int (length is))"
  using assms
proof (induction "is" arbitrary: ir m)
  case (Cons i1 "is")
  consider "ir < ir0" | "ir0 \<le> ir" "ir1 < ir + 1" | "ir0 \<le> ir" "ir + 1 \<le> ir1" by linarith
  then show ?case
  proof cases
    case 1
    then show ?thesis using Cons.IH [of "ir + 1" m] Cons.prems by (auto simp: add.assoc)
  next
    case 2
    then show ?thesis by (auto simp: picked_past)
  next
    case 3
    obtain c where "rope_i1 ir0 ir1 body is (ir + 1) (g i1 m) = Inr (c, fold g (picked ir0 ir1 (ir + 1) is) (g i1 m))"
        "c = ir + 1 + int (length is) \<or> ir1 < c \<and> ir1 < ir + 1 + int (length is)"
      using Cons.IH [of "ir + 1" "g i1 m"] Cons.prems by auto
    with 3 Cons.prems [of i1 m] show ?thesis by (auto simp: sseq_def sbind_def)
  qed
qed simp

lemma rope_planes_rows:
  assumes "\<And>i m. i \<in> set (concat (map (\<lambda>q. map (\<lambda>i1. (i1, q)) i1s) pl)) \<Longrightarrow> body i m = Inr ((), g i m)"
    and "c = k \<or> ir1 < c \<and> ir1 < k"
  shows "\<exists>c'. rope_planes ir0 ir1 body i1s pl c m =
    Inr (c', fold g (picked ir0 ir1 k (concat (map (\<lambda>q. map (\<lambda>i1. (i1, q)) i1s) pl))) m)"
  using assms
proof (induction pl arbitrary: c k m)
  case (Cons p pl)
  obtain i2 i3 where p: "p = (i2, i3)" by (cases p)
  let ?row = "map (\<lambda>i1. (i1, i2, i3)) i1s"
  obtain c1 where c1: "rope_i1 ir0 ir1 (\<lambda>i1. body (i1, i2, i3)) i1s c m = Inr (c1, fold (\<lambda>i1. g (i1, i2, i3)) (picked ir0 ir1 c i1s) m)"
      "c1 = c + int (length i1s) \<or> ir1 < c1 \<and> ir1 < c + int (length i1s)"
    using rope_i1_rows [of i1s "\<lambda>i1. body (i1, i2, i3)" "\<lambda>i1. g (i1, i2, i3)" ir0 ir1 c m] Cons.prems(1) by (auto simp: p)
  have pm: "picked ir0 ir1 k ?row = map (\<lambda>i1. (i1, i2, i3)) (picked ir0 ir1 k i1s)" for k
    by (induction i1s arbitrary: k) simp_all
  have "picked ir0 ir1 c i1s = picked ir0 ir1 k i1s" using Cons.prems(2) by (auto simp: picked_past)
  then have row: "fold (\<lambda>i1. g (i1, i2, i3)) (picked ir0 ir1 c i1s) m = fold g (picked ir0 ir1 k ?row) m"
    by (simp add: pm fold_map comp_def)
  have "c1 = k + int (length i1s) \<or> ir1 < c1 \<and> ir1 < k + int (length i1s)" using c1(2) Cons.prems(2) by auto
  then obtain c' where "rope_planes ir0 ir1 body i1s pl c1 (fold g (picked ir0 ir1 k ?row) m) =
      Inr (c', fold g (picked ir0 ir1 (k + int (length i1s)) (concat (map (\<lambda>q. map (\<lambda>i1. (i1, q)) i1s) pl))) (fold g (picked ir0 ir1 k ?row) m))"
    using Cons.IH [of c1 "k + int (length i1s)" "fold g (picked ir0 ir1 k ?row) m"] Cons.prems(1) by auto
  then show ?case using c1(1) row by (simp add: p sbind_def picked_append)
qed simp

text \<open>When no row is skipped, a task visits the rows of its range.\<close>

lemma concat_map_concat: "concat (map f (concat (map g xs))) = concat (map (\<lambda>x. concat (map f (g x))) xs)"
  by (induction xs) simp_all

lemma plane_list_rows:
  "concat (map (\<lambda>q. map (\<lambda>i1. (i1, q)) [0 .. ne d ! 1 - 1]) (plane_list 0 d)) = loop_rows d"
  by (simp add: plane_list_def loop_rows_def concat_map_concat comp_def)

lemma loop_rows_int:
  assumes "addressable d"
  shows "loop_rows d = map (\<lambda>r. int3 (row_of d (int r))) [0..<nat (ne_nrows d)]"
proof -
  note b = addressable_bounds [OF assms]
  have nr: "nat (ne_nrows d) = row_count d" using b by (simp add: ne_nrows_def nat_mult_distrib)
  have "nat_row d r = row_of d (int r)" for r
    using b by (simp add: nat_row_def row_of_def nat_div_distrib nat_mod_distrib div_mult2_eq nat_mult_distrib pos_imp_zdiv_nonneg_iff)
  then show ?thesis unfolding nr using loop_rows_nat [of d] b by simp
qed

lemma rope_rows_share:
  assumes ad: "addressable d" and ps: "0 < nth ps" "0 \<le> ith ps"
    and body: "\<And>r m. r \<in> row_range d \<Longrightarrow> body (int3 (row_of d r)) m = Inr ((), g r m)"
  shows "\<exists>rs. block_rows (ne_nrows d) (ith ps) (nth ps) = Inr rs \<and> rope_rows ps 0 d body m = Inr ((), fold g rs m)"
proof -
  note b = addressable_bounds [OF ad]
  have rr: "row_range d = {0 ..< ne_nrows d}" "0 < ne_nrows d" using b by (auto simp: row_range_def)
  let ?dr = "(ne_nrows d + nth ps - 1) div nth ps" and ?nr = "nat (ne_nrows d)"
  let ?h = "\<lambda>r. int3 (row_of d (int r))" and ?num = "\<lambda>i. case i of (i1, i2, i3) \<Rightarrow> row_int d i1 i2 i3"
  have dr: "cdiv (ne_nrows d + nth ps - 1) (nth ps) = Inr ?dr" "0 \<le> ?dr * ith ps"
    using rr(2) ps by (simp_all add: cdiv_nonneg div_int_pos_iff)
  have num: "?num (int3 (row_of d r)) = r" if "r \<in> row_range d" for r
    using row_of_range(4) [OF ad that] by (cases "row_of d r") (simp add: int3_def row_int_def)
  have at: "body i m = Inr ((), g (?num i) m)" if "i \<in> set (loop_rows d)" for i m
    using that body num rr(1) unfolding loop_rows_int [OF ad] by auto
  obtain c where "rope_planes (?dr * ith ps) (min (?dr * ith ps + ?dr) (ne_nrows d)) body [0 .. ne d ! 1 - 1] (plane_list 0 d) 0 m =
      Inr (c, fold (\<lambda>i. g (?num i)) (picked (?dr * ith ps) (min (?dr * ith ps + ?dr) (ne_nrows d)) 0 (loop_rows d)) m)"
    using rope_planes_rows [of "[0 .. ne d ! 1 - 1]" "plane_list 0 d" body "\<lambda>i. g (?num i)" 0 0] at unfolding plane_list_rows by blast
  moreover have "picked (?dr * ith ps) (min (?dr * ith ps + ?dr) (ne_nrows d)) 0 (loop_rows d) =
      map (\<lambda>r. int3 (row_of d r)) [?dr * ith ps .. min (?dr * ith ps + ?dr) (ne_nrows d) - 1]" (is "_ = map _ ?rs")
  proof -
    have "map (\<lambda>r. ?h (nat r)) ?rs = map (\<lambda>r. int3 (row_of d r)) ?rs" using dr(2) by (intro map_cong refl) auto
    then show ?thesis using picked_map_upt [OF dr(2), of "min (?dr * ith ps + ?dr) (ne_nrows d)" 0 ?h ?nr] rr(2) dr(2)
      unfolding loop_rows_int [OF ad] by (simp add: min_absorb1 max_absorb1)
  qed
  moreover have "fold (\<lambda>r. g (?num (int3 (row_of d r)))) ?rs m = fold g ?rs m"
    using num dr(2) unfolding rr(1) by (intro fold_cong refl) auto
  ultimately show ?thesis by (simp add: rope_rows_def block_rows_def dr(1) Let_def sbind_def fold_map comp_def)
qed

section \<open>Turning a row\<close>

definition theta_at :: "menv \<Rightarrow> 32 word \<Rightarrow> 32 word \<Rightarrow> nat \<Rightarrow> 32 word" where
  "theta_at e theta_scale theta k = ((\<lambda>t. f_mul (m_fa e) t theta_scale) ^^ k) theta"

definition turned :: "menv \<Rightarrow> 32 word \<Rightarrow> 32 word \<Rightarrow> nat \<Rightarrow> 32 word \<Rightarrow> 32 word \<Rightarrow> 32 word \<times> 32 word" where
  "turned e theta_scale theta k = turn_fwd (m_fa e) (f_cos e (theta_at e theta_scale theta k)) (f_sin e (theta_at e theta_scale theta k))"

text \<open>Pair \<open>k\<close> of the row is turned by the angle \<open>theta\<close> times the \<open>k\<close>-th power of the scale.\<close>

definition rope_list :: "menv \<Rightarrow> 32 word \<Rightarrow> 32 word \<Rightarrow> 32 word list \<Rightarrow> 32 word list" where
  "rope_list e theta_scale theta xs = concat (map (\<lambda>k. case turned e theta_scale theta k (xs ! (2 * k)) (xs ! (2 * k + 1)) of (v0, v1) \<Rightarrow> [v0, v1])
     [0..<length xs div 2])"

definition rope_pairs :: "menv \<Rightarrow> 32 word \<Rightarrow> 32 word \<Rightarrow> nat \<Rightarrow> ptr \<Rightarrow> ptr \<Rightarrow> memory \<Rightarrow> memory" where
  "rope_pairs e theta_scale theta n y x =
     fold (\<lambda>k. turn_pair io_f32 (turned e theta_scale theta k) 1 (y + 8 * k) (x + 8 * k)) [0..<n div 2]"

lemma turn_row_fold:
  assumes "\<And>k c s m. k < K \<Longrightarrow> turn c s (h k) m = Inr ((), g c s k m)"
  shows "j \<le> K \<Longrightarrow> turn_row e ts turn (map h [j..<K]) (theta_at e ts theta j) m =
    Inr ((), fold (\<lambda>k. g (f_cos e (theta_at e ts theta k)) (f_sin e (theta_at e ts theta k)) k) [j..<K] m)"
proof (induction "K - j" arbitrary: j m)
  case (Suc i)
  then have j: "j < K" "i = K - Suc j" "Suc j \<le> K" by auto
  have next_theta: "f_mul (m_fa e) (theta_at e ts theta j) ts = theta_at e ts theta (Suc j)" by (simp add: theta_at_def)
  show ?case using j(1) Suc.hyps(1) [OF j(2,3)] assms [OF j(1)] by (simp add: upt_rec [of j] sseq_def sbind_def next_theta)
qed simp

lemma rope_list_length: "length (concat (map (\<lambda>k. case f k of (v0, v1) \<Rightarrow> [v0, v1]) [0..<K])) = 2 * K"
  by (induction K) (auto split: prod.splits)

lemma rope_pairs_store:
  assumes "even n" "from_or_apart x y n"
  shows "rope_pairs e ts theta n y x m = store32_list y (rope_list e ts theta (load_floats m x n)) m"
proof -
  let ?xs = "load_floats m x n"
  let ?v = "\<lambda>k. turned e ts theta k (?xs ! (2 * k)) (?xs ! (2 * k + 1))"
  let ?l = "\<lambda>K. concat (map (\<lambda>k. case ?v k of (v0, v1) \<Rightarrow> [v0, v1]) [0..<K])"
  have "fold (\<lambda>k. turn_pair io_f32 (turned e ts theta k) 1 (y + 8 * k) (x + 8 * k)) [0..<K] m = store32_list y (?l K) m"
    if "K \<le> n div 2" for K
    using that
  proof (induction K)
    case (Suc K)
    let ?m = "store32_list y (?l K) m"
    have len: "length (?l K) = 2 * K" by (rule rope_list_length)
    have "load32 ?m (x + 4 * k) = ?xs ! k" if "2 * K \<le> k" "k < n" for k
    proof -
      have "load32 ?m (x + 4 * k) = load32 m (x + 4 * k)"
        using assms(2) that len unfolding from_or_apart_def gap_def by (intro load32_frame store32_list_frame) auto
      then show ?thesis using that(2) by (simp add: load_floats_def)
    qed
    from this [of "2 * K"] this [of "2 * K + 1"] Suc.prems
    have x: "load32 ?m (x + 8 * K) = ?xs ! (2 * K)" "load32 ?m (x + 8 * K + 4) = ?xs ! (2 * K + 1)" by (simp_all add: add.assoc add.commute [of 4])
    obtain v0 v1 where v: "?v K = (v0, v1)" by (cases "?v K")
    have "turn_pair io_f32 (turned e ts theta K) 1 (y + 8 * K) (x + 8 * K) ?m = store32 (y + 8 * K + 4) v1 (store32 (y + 8 * K) v0 ?m)"
      using x v by (simp add: turn_pair_def io_f32_def)
    also have "\<dots> = store32_list y ((?l K @ [v0]) @ [v1]) m" unfolding store32_list_snoc length_append len by (simp add: add.assoc add.commute [of 4])
    finally show ?case using Suc v by simp
  qed simp
  from this [of "n div 2"] show ?thesis by (simp add: rope_pairs_def rope_list_def load_floats_def)
qed

interpretation rope_fun: row_function "\<lambda>r. rope_pairs e ts (th r)" "\<lambda>r. rope_list e ts (th r)" even for e ts th
  by unfold_locales (simp_all add: rope_pairs_store rope_list_def rope_list_length)

section \<open>The kernel\<close>

lemma cell_at:
  assumes "addressable t" "nb t ! 0 = 4" "in_range t i0 i1 i2 i3"
  shows "cell t (int i1, int i2, int i3) (int i0) m = Inr (row_at t i1 i2 i3 + 4 * i0, m)"
proof -
  have "int i0 < ne t ! 0" using assms(3) by (auto simp: in_range_def)
  then have i0: "to_size (int i0) = i0" using addressable_bounds [OF assms(1)] by (intro to_size_int) linarith
  have "data t + elem_offset t 0 i1 i2 i3 + i0 * 4 < 2 ^ 64"
    using elem_in_span [OF assms(3)] assms(1,2) by (auto simp: addressable_def elem_offset_def)
  then show ?thesis using assms(1) unfolding cell_def off3_int(4) [OF assms(1,3)] i0 assms(2)
    by (simp add: row_ptr_def addressable_def row_at_def add.assoc mult.commute)
qed

lemma rope_row_pairs:
  assumes o: "row_operands a d" "even (ne d ! 0)" and r: "r \<in> row_range d"
  shows "rope_row e io_f32 (turn_fwd (m_fa e)) False nd ts a d (int3 (row_of d r)) theta m =
    Inr ((), row_step (\<lambda>_. rope_pairs e ts theta) a d r m)"
proof -
  obtain i1 i2 i3 where i: "row_of d r = (i1, i2, i3)" by (cases "row_of d r")
  note g = operand_range [OF o(1) r i]
  have sh: "ne a ! 0 = ne d ! 0" "nb a ! 0 = 4" "nb d ! 0 = 4" using o(1) by (auto simp: row_operands_def rows_apart_def ne_are_same_shape_def)
  let ?n = "nat (ne d ! 0)" and ?x = "row_at a i1 i2 i3" and ?y = "row_at d i1 i2 i3"
  have n: "nat ((ne d ! 0 + 1) div 2) = ?n div 2" using o(2) addressable_bounds [OF g(2)] by (auto elim!: evenE)
  have pair: "turn_cells io_f32 (turn_fwd (m_fa e)) 1 a d (int i1, int i2, int i3) c s (2 * int k) m =
      Inr ((), turn_pair io_f32 (turn_fwd (m_fa e) c s) 1 (?y + 8 * k) (?x + 8 * k) m)" if "k < ?n div 2" for c s k m
  proof -
    have "in_range d (2 * k) i1 i2 i3" "in_range a (2 * k) i1 i2 i3" using that g(3,4) sh(1) by (auto simp: in_range_def)
    from cell_at [OF g(1) sh(2) this(2), of m] cell_at [OF g(2) sh(3) this(1), of m] show ?thesis by (simp add: turn_cells_def)
  qed
  have "turn_row e ts (turn_cells io_f32 (turn_fwd (m_fa e)) 1 a d (int i1, int i2, int i3)) (map (\<lambda>k. 2 * int k) [0..<?n div 2]) (theta_at e ts theta 0) m =
      Inr ((), rope_pairs e ts theta ?n ?y ?x m)"
    unfolding rope_pairs_def turned_def by (rule turn_row_fold) (simp_all add: pair)
  then show ?thesis by (simp add: rope_row_def evens_def n i int3_def row_step_def theta_at_def)
qed

text \<open>The parameters lie beside the rows that are written.\<close>

lemma row_range_span:
  assumes "rows_apart d" "r \<in> row_range d"
  shows "row_range_of d r \<subseteq> {data d ..< data d + span d}"
proof -
  have ad: "addressable d" and d: "nb d ! 0 = 4" "0 < ne d ! 0" using assms(1) by (auto simp: rows_apart_def addressable_def)
  obtain i1 i2 i3 where i: "row_of d r = (i1, i2, i3)" by (cases "row_of d r")
  have "in_range d (nat (ne d ! 0) - 1) i1 i2 i3" using row_of_range [OF ad assms(2) i] d by (simp add: in_range_def)
  from elem_in_span [OF this] d show ?thesis by (auto simp: row_range_of_def i row_at_def elem_offset_def)
qed

lemma elsewhere_opts:
  assumes "rows_apart d" "elsewhere d m m'" "clear_of (data b) 20 (data d) (span d)"
  shows "opt_ints m' b = opt_ints m b"
proof (rule opt_ints_clear [OF _ assms(3)])
  fix x assume x: "x < data d \<or> data d + span d \<le> x"
  have "x \<notin> row_range_of d r" if "r \<in> row_range d" for r using row_range_span [OF assms(1) that] x by auto
  then show "m' x = m x" using assms(2) unfolding elsewhere_def by blast
qed

definition rope_operands :: "memory \<Rightarrow> ne_tensor \<Rightarrow> ne_tensor \<Rightarrow> ne_tensor \<Rightarrow> bool" where
  "rope_operands m a b d \<longleftrightarrow> row_operands a d \<and> even (ne d ! 0) \<and> ty a = NE_TYPE_F32 \<and>
     ty b = NE_TYPE_I32 \<and> ne_nelements b = 5 + ne a ! 3 \<and> data b \<noteq> NULL \<and> data b < 2 ^ 64 \<and>
     clear_of (data b) 20 (data d) (span d) \<and>
     opt_ints m b ! 1 \<le> ne d ! 0 \<and> even (opt_ints m b ! 1) \<and> opt_ints m b ! 4 < 0 \<and>
     \<not> bit (opt_ints m b ! 2) 0 \<and> \<not> bit (opt_ints m b ! 2) 1 \<and> \<not> bit (opt_ints m b ! 2) 2"

definition rope_angle :: "menv \<Rightarrow> ne_tensor \<Rightarrow> int \<Rightarrow> nat \<Rightarrow> 32 word" where
  "rope_angle e d n_past i2 = f_mul (m_fa e) (f_div (m_fa e) f32_1 (op_params d ! 1)) (of_int64 e (n_past + int i2))"

lemma rope_call:
  assumes o: "rope_operands m a b d" and ps: "task ps = NE_TASK_COMPUTE" "0 < nth ps" "0 \<le> ith ps"
  shows "\<exists>rs. block_rows (ne_nrows d) (ith ps) (nth ps) = Inr rs \<and> ne_compute_forward_rope_f32 e ps a b d m =
    Inr ((), fold (row_step (\<lambda>r. rope_pairs e (rope_theta_scale e (op_params d ! 0) (opt_ints m b ! 1))
      (rope_angle e d (opt_ints m b ! 0) (fst (snd (row_of d r))))) a d) rs m)"
proof -
  note h = o [unfolded rope_operands_def]
  have ad: "addressable d" and sh: "ne a ! 3 = ne d ! 3" "nb a ! 0 = 4" using h by (auto simp: row_operands_def rows_apart_def ne_are_same_shape_def)
  note b = addressable_bounds [OF ad]
  let ?p = "opt_ints m b" and ?ts = "rope_theta_scale e (op_params d ! 0) (opt_ints m b ! 1)"
  let ?row = "\<lambda>r. rope_pairs e ?ts (rope_angle e d (?p ! 0) (fst (snd (row_of d r))))"
  have rd: "read_i32 b k m = Inr (?p ! k, m)" if "k < 5" for k using that h by (intro read_opt_int) auto
  have bs: "to_int32 (ne a ! 3) = ne d ! 3" using b sh by (simp add: to_int32_id)
  let ?body = "\<lambda>(i1, i2, i3). rope_row e io_f32 (turn_fwd (m_fa e)) False (?p ! 1) ?ts a d (i1, i2, i3)
      (f_mul (m_fa e) (f_div (m_fa e) f32_1 (op_params d ! 1)) (of_int64 e (?p ! 0 + i2)))"
  have body: "?body (int3 (row_of d r)) m = Inr ((), row_step ?row a d r m)" if "r \<in> row_range d" for r m
  proof -
    obtain i1 i2 i3 where i: "row_of d r = (i1, i2, i3)" by (cases "row_of d r")
    show ?thesis using rope_row_pairs [OF _ _ that, of a e "?p ! 1" ?ts "rope_angle e d (?p ! 0) i2" m] h
      by (simp add: i int3_def rope_angle_def row_step_def)
  qed
  obtain rs where rs: "block_rows (ne_nrows d) (ith ps) (nth ps) = Inr rs" "rope_rows ps 0 d ?body m = Inr ((), fold (row_step ?row a d) rs m)"
    using rope_rows_share [where body = ?body and g = "row_step ?row a d", OF ad ps(2,3) body] by blast
  have dr: "\<exists>q. cdiv (ne_nrows d + nth ps - 1) (nth ps) = Inr q" using ps(2) by (auto simp: cdiv_def)
  show ?thesis using rs dr h ps(1) b sh bs rd [of 0] rd [of 1] rd [of 2] rd [of 3] rd [of 4]
    by (auto simp: ne_compute_forward_rope_f32_def is_init_or_finalize_def Let_def)
qed

lemma rope_scheduled:
  assumes o: "rope_operands m a b d" and n: "0 < n_tasks d" "n_tasks d \<le> int team"
    and sch: "schedule calls (node_calls team wsz wdat d)"
  shows "\<exists>m'. for_list calls (\<lambda>ps. ne_compute_forward_rope_f32 e ps a b d) m = Inr ((), m') \<and>
    result_is d (\<lambda>i0 i1 i2 i3. rope_list e (rope_theta_scale e (op_params d ! 0) (opt_ints m b ! 1)) (rope_angle e d (opt_ints m b ! 0) i2)
      (map (\<lambda>k. elem m a k i1 i2 i3) [0..<nat (ne d ! 0)]) ! i0) m m'"
proof -
  note h = o [unfolded rope_operands_def]
  have ra: "rows_apart d" and ad: "addressable d" using h by (auto simp: row_operands_def rows_apart_def)
  have rr: "row_range d = {0 ..< ne_nrows d}" "0 < ne_nrows d" using addressable_bounds [OF ad] by (auto simp: row_range_def)
  let ?rows = "\<lambda>i. projr (block_rows (ne_nrows d) i (n_tasks d))" and ?owner = "\<lambda>r. r div ((ne_nrows d + n_tasks d - 1) div n_tasks d)"
  let ?ts = "rope_theta_scale e (op_params d ! 0) (opt_ints m b ! 1)" and ?th = "\<lambda>r. rope_angle e d (opt_ints m b ! 0) (fst (snd (row_of d r)))"
  have st: "distinct (?rows i) \<and> set (?rows i) = {r \<in> row_range d. ?owner r = i}" if "0 \<le> i" for i
    using block_rows_owner [OF rr(2) n(1) that] unfolding rr(1) by (metis sum.sel(2))
  have "\<exists>m'. for_list calls (\<lambda>ps. ne_compute_forward_rope_f32 e ps a b d) m = Inr ((), m') \<and>
    result_is d (\<lambda>i0 i1 i2 i3. rope_list e ?ts (?th (row_int d (int i1) (int i2) (int i3))) (map (\<lambda>k. elem m a k i1 i2 i3) [0..<nat (ne d ! 0)]) ! i0) m m'"
  proof (rule rope_fun.scheduled [OF _ _ n sch])
    show "even (nat (ne d ! 0))" using h addressable_bounds [OF ad] by (simp add: even_nat_iff)
    show "row_operands a d" using h by simp
    show "ne_compute_forward_rope_f32 e ps a b d m = Inr ((), m)" if "task ps \<noteq> NE_TASK_COMPUTE" for ps m
      using not_compute [OF that] by (simp add: ne_compute_forward_rope_f32_def)
    show "ne_compute_forward_rope_f32 e ps a b d m' = Inr ((), fold (row_step (\<lambda>r. rope_pairs e ?ts (?th r)) a d) (?rows (ith ps)) m')"
      if t: "task ps = NE_TASK_COMPUTE" "nth ps = n_tasks d" "0 \<le> ith ps" and m': "elsewhere d m m'" for ps m'
    proof -
      have "opt_ints m' b = opt_ints m b" using elsewhere_opts [OF ra m'] h by blast
      with o have "rope_operands m' a b d" "opt_ints m' b = opt_ints m b" by (simp_all add: rope_operands_def)
      then show ?thesis using rope_call [of m' a b d ps e] t n(1) by auto
    qed
    show "?owner r \<in> {0 ..< n_tasks d}" if "r \<in> row_range d" for r
      using that n unfolding rr by (intro block_owner_range) auto
  qed (use st in auto)
  moreover have "?th (row_int d (int i1) (int i2) (int i3)) = rope_angle e d (opt_ints m b ! 0) i2" if "in_range d i0 i1 i2 i3" for i0 i1 i2 i3
    using row_int_of(2) [OF ad, of "int i1" "int i2" "int i3"] that by (auto simp: in_range_def)
  ultimately show ?thesis unfolding result_is_def by auto
qed

section \<open>Nodes of half-precision tensors\<close>

lemma param_tensor_shape:
  assumes ok: "building s0 F s" and n: "int_count n" and run: "param_tensor n vs s = Inr (b, s')"
  shows "\<exists>tb. tensors s' b = Some tb \<and> ty tb = NE_TYPE_I32 \<and> ne tb = new_ne 1 [n]"
proof -
  define s1 where "s1 = s\<lparr>ctx := (ctx s)\<lparr>scratch_save := scratch (ctx s), scratch := (scratch (ctx s))\<lparr>s_data := NULL\<rparr>\<rparr>\<rparr>"
  have save: "ne_scratch_save s = Inr ((), s1)" by (simp add: ne_scratch_save_def s1_def)
  have ok1: "heap_ok s1" using building_heap_ok [of s0 F s1] tripD [OF trip_scratch_save ok save] by simp
  from run obtain s2 t where r: "ne_new_tensor_impl NE_TYPE_I32 1 [n] NULL NE_SIZE_CALC s1 = Inr (b, s2)"
      "tensors s2 b = Some t" "tensors s' = tensors s2"
    unfolding param_tensor_def sseq_Inr_iff save
    by (auto simp: sbind_Inr_iff sseq_Inr_iff get_t_Inr_iff with_data_def ne_new_tensor_1d_def ne_new_tensor_def ne_scratch_load_def
        split: if_splits)
  from new_tensor_allocated [OF ok1 good_i32 [OF n] r(1)] r(2) ok1 show ?thesis
    by (auto simp: r(3) allocated_def heap_ok_def init_tensor_def)
qed

lemma finish_keeps:
  assumes "heap_ok s" "finish opc is_node f r s = Inr (x, s')" "tensors s b = Some tb" "b \<noteq> r"
  shows "tensors s' b = Some tb"
proof (cases is_node)
  case False
  with assms show ?thesis by (auto simp: finish_def sseq_Inr_iff sbind_Inr_iff upd_t_Inr_iff)
next
  case True
  from assms(2) True obtain t g s2 where t: "tensors s r = Some t"
    and d: "ne_dup_tensor r (s\<lparr>tensors := (tensors s)(r \<mapsto> t\<lparr>op := opc\<rparr>)\<rparr>) = Inr (g, s2)"
    and u: "upd_t r (\<lambda>t. f (t\<lparr>grad := g\<rparr>)) s2 = Inr ((), s')"
    unfolding finish_def sseq_Inr_iff sbind_Inr_iff by (auto simp: upd_t_Inr_iff)
  let ?s1 = "s\<lparr>tensors := (tensors s)(r \<mapsto> t\<lparr>op := opc\<rparr>)\<rparr>"
  have ok1: "heap_ok ?s1" using assms(1) t by (intro heap_ok_upd) (auto simp: heap_ok_def t_ok_def tensor_wf_def)
  have "building ?s1 {g} s2" using tripD [OF trip_dup building_start [OF ok1] d] by (simp only: added_def)
  from building_old [OF this, of b tb] assms(3,4) u show ?thesis by (auto simp: upd_t_Inr_iff)
qed

lemma rope_node_params:
  assumes ok: "heap_ok s" and a: "tensors s a = Some ta" and bs: "0 \<le> to_int32 (ne ta ! 3)"
    and run: "ne_rope_impl a n_past nd mode prompt_size inplace n_keep cossin n_padding pl fb fs s = Inr (r, s')"
  shows "\<exists>t tb. tensors s' r = Some t \<and> op t = NE_OP_ROPE \<and> src0 t = a \<and> tensors s' (src1 t) = Some tb \<and>
    ty tb = NE_TYPE_I32 \<and> ne tb = new_ne 1 [5 + to_int32 (ne ta ! 3)]"
proof -
  let ?n = "5 + to_int32 (ne ta ! 3)"
  let ?vs = "[word_of_int n_past, word_of_int nd, word_of_int mode, word_of_int prompt_size, word_of_int n_keep] @ padding_entries n_padding (to_int32 (ne ta ! 3))"
  let ?f = "\<lambda>b t. t\<lparr>src0 := a, src1 := b, opt := (opt t)[0 := cossin]\<rparr>"
  from run obtain isn s0 r1 s1 ta' b s2 where st: "node_unless inplace [a] s = Inr (isn, s0)" "view_or_dup inplace a s0 = Inr (r1, s1)"
      "tensors s1 a = Some ta'"
    and pt: "param_tensor (5 + to_int32 (ne ta' ! 3)) ([word_of_int n_past, word_of_int nd, word_of_int mode, word_of_int prompt_size,
        word_of_int n_keep] @ padding_entries n_padding (to_int32 (ne ta' ! 3))) s1 = Inr (b, s2)"
    and fin: "sseq (ne_set_op_params r1 [fb, fs]) (finish NE_OP_ROPE isn (?f b) r1) s2 = Inr (r, s')"
    unfolding ne_rope_impl_def sseq_Inr_iff [of "ne_assert _"] by (auto simp: sbind_Inr_iff get_t_Inr_iff ne_assert_Inr_iff Let_def)
  have s0: "s0 = s" using st(1) any_grad_state by (auto simp: node_unless_def split: if_splits)
  have v: "building s {r1} s1" using tripD [OF trip_view_or_dup building_start [OF ok] st(2) [unfolded s0]] by (simp add: added_def)
  have ta: "ta' = ta" using building_old [OF v a] st(3) by simp
  have n: "int_count ?n" "length ?vs \<le> nat ?n" using bs by (auto simp: int_count_batch padding_entries_def)
  note pt = pt [unfolded ta]
  have ad: "building s {b, r1} s2" "b = NULL \<or> b \<noteq> r1"
    using tripD [OF trip_param_tensor [OF n] v pt] by (auto simp: added_def)
  obtain tb where tb: "tensors s2 b = Some tb" "ty tb = NE_TYPE_I32" "ne tb = new_ne 1 [?n]"
    using param_tensor_shape [OF v n(1) pt] by blast
  have "b \<noteq> NULL" using tb(1) building_heap_ok [OF ad(1)] by (auto simp: heap_ok_def intro: gr0I)
  with ad(2) have br: "b \<noteq> r1" by blast
  from fin obtain t s3 where t: "tensors s2 r1 = Some t" and s3: "s3 = s2\<lparr>tensors := (tensors s2)(r1 \<mapsto> t\<lparr>op_params := [fb, fs] @ drop 2 (op_params t)\<rparr>)\<rparr>"
    and f: "finish NE_OP_ROPE isn (?f b) r1 s3 = Inr (r, s')"
    by (auto simp: sseq_Inr_iff ne_set_op_params_def ne_assert_Inr_iff upd_t_Inr_iff numeral_2_eq_2)
  have ok3: "heap_ok s3" unfolding s3 using building_heap_ok [OF ad(1)] t by (intro heap_ok_upd) (auto simp: heap_ok_def t_ok_def tensor_wf_def)
  obtain g where g: "r = r1" "tensors s' r1 = Some (?f b (t\<lparr>op_params := [fb, fs] @ drop 2 (op_params t), op := NE_OP_ROPE, grad := g\<rparr>))"
    using finish_result [OF ok3 _ f] by (auto simp: s3)
  have "tensors s' b = Some tb" using finish_keeps [OF ok3 f _ br] tb(1) br by (simp add: s3)
  with g tb show ?thesis by auto
qed

section \<open>Properties\<close>

text \<open>
  C39. Rotary embedding (\<^verbatim>\<open>ne_compute_forward_rope\<close>) of 32-bit floats in the plain layout. For every number
  of tasks and every schedule of the calls of a node, the kernel succeeds, and in every row the pair
  \<open>(2 k, 2 k + 1)\<close> is the pair of the operand, as it was before the node, turned by the angle of the
  position \<open>n_past + i2\<close> scaled \<open>k\<close> times; no other byte of the memory changes. The counters with which the
  tasks skip the rows of the others give every row to exactly one task. The destination may be the
  operand itself.
\<close>

theorem rope_any_schedule:
  assumes "rope_operands m a b d" "0 < n_tasks d" "n_tasks d \<le> int team" "schedule calls (node_calls team wsz wdat d)"
  shows "\<exists>m'. for_list calls (\<lambda>ps. ne_compute_forward_rope shift e ps a b o0 d) m = Inr ((), m') \<and>
    result_is d (\<lambda>i0 i1 i2 i3. rope_list e (rope_theta_scale e (op_params d ! 0) (opt_ints m b ! 1)) (rope_angle e d (opt_ints m b ! 0) i2)
      (map (\<lambda>k. elem m a k i1 i2 i3) [0..<nat (ne d ! 0)]) ! i0) m m'"
proof -
  have "ty a = NE_TYPE_F32" using assms(1) by (simp add: rope_operands_def)
  then show ?thesis using rope_scheduled [OF assms, of e] by (simp add: ne_compute_forward_rope_def)
qed

definition demo_menv :: menv where
  "demo_menv = \<lparr>m_renv = demo_renv, f_pow = (\<lambda>x y. x), f_cos = (\<lambda>x. x + 1), f_sin = (\<lambda>x. x), f_tanh = (\<lambda>x. x), floor_log2 = (\<lambda>n. 0)\<rparr>"

definition demo_angles :: ne_tensor where
  "demo_angles = (demo_f32 [6, 1, 1, 1] [4, 24, 24, 24] 16384)\<lparr>ty := NE_TYPE_I32\<rparr>"

definition demo_angle_mem :: memory where
  "demo_angle_mem p = (if p < 8192 then word_of_nat p else if p = 16388 then 2 else if 16400 \<le> p \<and> p < 16404 then 255 else 0)"

lemma demo_opts: "opt_ints demo_angle_mem demo_angles = [0, 2, 0, 0, - 1]"
  by (simp add: opt_ints_def demo_angles_def demo_f32_def load32_def demo_angle_mem_def upt_rec)

lemma demo_rope_operands: "rope_operands demo_angle_mem demo_src demo_angles demo_dst"
  unfolding rope_operands_def demo_opts using demo_row_operands(1)
  by (intro conjI) (simp_all add: demo_angles_def demo_kernel_defs clear_of_def span_def elem_offset_def ne_nelements_def)

theorem rope_any_schedule_witness:
  "\<exists>m'. for_list (concat (node_calls 2 0 0 demo_dst))
      (\<lambda>ps. ne_compute_forward_rope (\<lambda>_ _ _ _ _ _ _ m. m) demo_menv ps demo_src demo_angles None demo_dst) demo_angle_mem = Inr ((), m') \<and>
    load32 m' (12288 + 12) = rope_list demo_menv (rope_theta_scale demo_menv (op_params demo_dst ! 0) 2) (rope_angle demo_menv demo_dst 0 0)
      [load32 demo_angle_mem (4096 + 8), load32 demo_angle_mem (4096 + 12)] ! 1"
proof -
  have "n_tasks demo_dst = 2" by (simp add: demo_kernel_defs)
  then obtain m' where m': "for_list (concat (node_calls 2 0 0 demo_dst))
        (\<lambda>ps. ne_compute_forward_rope (\<lambda>_ _ _ _ _ _ _ m. m) demo_menv ps demo_src demo_angles None demo_dst) demo_angle_mem = Inr ((), m')"
      "result_is demo_dst (\<lambda>i0 i1 i2 i3. rope_list demo_menv (rope_theta_scale demo_menv (op_params demo_dst ! 0) (opt_ints demo_angle_mem demo_angles ! 1))
        (rope_angle demo_menv demo_dst (opt_ints demo_angle_mem demo_angles ! 0) i2)
        (map (\<lambda>k. elem demo_angle_mem demo_src k i1 i2 i3) [0..<nat (ne demo_dst ! 0)]) ! i0) demo_angle_mem m'"
    using rope_any_schedule [OF demo_rope_operands, of 2 "concat (node_calls 2 0 0 demo_dst)" 0 0 "\<lambda>_ _ _ _ _ _ _ m. m" demo_menv None]
      schedule_in_order by auto
  have i: "in_range demo_dst 1 1 0 0" by (simp add: in_range_def demo_kernel_defs)
  have "map (\<lambda>k. elem demo_angle_mem demo_src k 1 0 0) [0..<nat (ne demo_dst ! 0)] = [load32 demo_angle_mem (4096 + 8), load32 demo_angle_mem (4096 + 12)]"
    "elem m' demo_dst 1 1 0 0 = load32 m' (12288 + 12)"
    by (simp_all add: elem_def elem_offset_def demo_kernel_defs upt_rec)
  with m'(1) result_is_elem [OF m'(2) i] show ?thesis by (simp add: demo_opts)
qed

text \<open>
  C40. Rotary embedding of half-precision tensors, and of keys in the layout of the library, never runs:
  the node that \<^verbatim>\<open>ne_rope_impl\<close> builds carries five parameters and one padding count per batch, and the
  kernels for these types require exactly five parameters, so that every computing call fails its
  assertion.
\<close>

theorem rope_half_rejected:
  assumes "heap_ok s" "tensors s a = Some ta" "ty ta \<in> {NE_TYPE_F16, NE_TYPE_BTLA}" "0 < ne ta ! 3" "ne ta ! 3 < 2 ^ 31"
    and "ne_rope_impl a n_past nd mode prompt_size inplace n_keep cossin n_padding pl fb fs s = Inr (r, s')"
  shows "\<exists>t tb. tensors s' r = Some t \<and> src0 t = a \<and> tensors s' (src1 t) = Some tb \<and>
    (\<forall>ps. task ps = NE_TASK_COMPUTE \<longrightarrow> ne_compute_forward_rope shift e ps ta tb o0 t m = Inl NE_Assert)"
proof -
  have bs: "to_int32 (ne ta ! 3) = ne ta ! 3" using assms(4,5) by (simp add: to_int32_id)
  from rope_node_params [OF assms(1,2) _ assms(6)] assms(4) bs obtain t tb where
    t: "tensors s' r = Some t" "src0 t = a" "tensors s' (src1 t) = Some tb" "ne tb = new_ne 1 [5 + ne ta ! 3]"
    by auto
  have "ne_nelements tb \<noteq> 5" using assms(4,5) by (simp add: ne_nelements_def t(4) new_ne_def upt_rec)
  then have "ne_compute_forward_rope shift e ps ta tb o0 t m = Inl NE_Assert" if "task ps = NE_TASK_COMPUTE" for ps
    using that assms(3) by (auto simp: ne_compute_forward_rope_def ne_compute_forward_rope_f16_def ne_compute_forward_rope_bestla_def
        is_init_or_finalize_def sseq_def sbind_def ne_assert_def fail_def ret_def)
  with t show ?thesis by blast
qed

definition demo_half :: ne_state where
  "demo_half = demo_state\<lparr>tensors := [64 \<mapsto> init_tensor NE_TYPE_F16 1 [4, 1, 1, 1] [2, 8, 8, 8] 2048 320]\<rparr>"

lemma demo_half_facts:
  "heap_ok demo_half" "used_end demo_half = 0" "mem_size (ctx demo_half) = 1024" "s_data (scratch (ctx demo_half)) = NULL"
  "\<not> no_alloc (ctx demo_half)"
proof -
  have rel: "pool_rel [] demo_half" by (simp add: pool_rel_def demo_half_def demo_state_def demo_ctx_def)
  have c: "ctx demo_half = demo_ctx" by (simp add: demo_half_def demo_state_def)
  have tok: "t_ok demo_ctx (init_tensor NE_TYPE_F16 1 [4, 1, 1, 1] [2, 8, 8, 8] 2048 320)"
    by (simp add: t_ok_def tensor_wf_def init_tensor_def good_request_def request_size_def data_size_needed_def data_size_raw_def cdiv_def
        to_size_def wrap64_def NE_MEM_ALIGN_def NE_MAX_OPT_def)
  have "pool_inv demo_half" using rel demo_heap_ok unfolding heap_ok_def pool_inv_def c by (auto simp: demo_state_def)
  then show "heap_ok demo_half" using tok unfolding heap_ok_def c by (auto simp: demo_half_def demo_ctx_def)
  show "used_end demo_half = 0" using used_end_pool [OF rel] by simp
  show "mem_size (ctx demo_half) = 1024" "s_data (scratch (ctx demo_half)) = NULL" "\<not> no_alloc (ctx demo_half)"
    by (simp_all add: demo_half_def demo_state_def demo_ctx_def scratch0_def)
qed

lemma demo_half_rope: "\<exists>r s'. ne_rope_impl 64 0 2 0 0 True (- 1) NULL None True 0 0 demo_half = Inr (r, s')"
proof -
  let ?t = "init_tensor NE_TYPE_F16 1 [4, 1, 1, 1] [2, 8, 8, 8] 2048 320"
  have a: "tensors demo_half 64 = Some ?t" "data ?t \<noteq> NULL" by (simp_all add: demo_half_def init_tensor_def)
  have "used_end demo_half + NE_OBJECT_SIZE + sizeof_ne_tensor \<le> mem_size (ctx demo_half)"
    using demo_half_facts by (simp add: pool_consts)
  from view_room [OF demo_half_facts(1) a this] obtain p s1 t where v: "ne_view_tensor 64 demo_half = Inr (p, s1)" "tensors demo_half p = None"
      "tensors s1 = (tensors demo_half)(p \<mapsto> t)" "used_end s1 = used_end demo_half + NE_OBJECT_SIZE + sizeof_ne_tensor"
      "mem_size (ctx s1) = mem_size (ctx demo_half)"
    by blast
  have b: "building demo_half {p} s1" using tripD [OF trip_view building_start [OF demo_half_facts(1)] v(1)] by (simp add: added_def)
  define s2 where "s2 = s1\<lparr>ctx := (ctx s1)\<lparr>scratch_save := scratch (ctx s1), scratch := (scratch (ctx s1))\<lparr>s_data := NULL\<rparr>\<rparr>\<rparr>"
  have save: "ne_scratch_save s1 = Inr ((), s2)" by (simp add: ne_scratch_save_def s2_def)
  have b2: "building demo_half {p} s2" using tripD [OF trip_scratch_save b save] by simp
  have na: "\<not> no_alloc (ctx s2)" "mem_size (ctx s2) = 1024" using b demo_half_facts v(5) by (simp_all add: s2_def building_def grows_def)
  have u: "used_end s2 = 320" using v(4) demo_half_facts(2) by (simp add: s2_def pool_consts)
  have req: "request_size (ctx s2) NE_TYPE_I32 1 [6] NULL NE_SIZE_CALC = Inr 64"
    using na(1) by (simp add: request_size_def data_size_needed_def data_size_raw_def cdiv_def to_size_def wrap64_def NE_MEM_ALIGN_def)
  have room: "used_end s2 + NE_OBJECT_SIZE + (64 + sizeof_ne_tensor) \<le> mem_size (ctx s2)" using u na(2) by (simp add: pool_consts)
  from new_tensor_room [OF building_heap_ok [OF b2] _ good_i32 req room] obtain q s3 tq where
    n: "ne_new_tensor_impl NE_TYPE_I32 1 [6] NULL NE_SIZE_CALC s2 = Inr (q, s3)" "tensors s3 = (tensors s2)(q \<mapsto> tq)" "tensors s2 q = None"
      "data tq \<noteq> NULL"
    using na(1) by (auto simp: allocated_def int_count_def s2_def init_tensor_def pool_consts)
  have p: "p \<noteq> NULL" "p \<noteq> 64" using v(2,3) a building_heap_ok [OF b] by (auto simp: heap_ok_def intro: gr0I)
  have "tensors s1 64 = Some ?t" "tensors s3 p = Some t" using v(3) a p n(2,3) by (auto simp: s2_def)
  moreover have "to_int32 (ne ?t ! 3) = 1" by (simp add: init_tensor_def to_int32_def)
  ultimately show ?thesis using v(1) n(1,2,4) p(1) save
    by (simp add: ne_rope_impl_def node_unless_def view_or_dup_def Let_def param_tensor_def ne_new_tensor_1d_def ne_new_tensor_def
        with_data_def ne_scratch_load_def ne_set_op_params_def sbind_def sseq_def finish_leaf)
qed

theorem rope_half_rejected_witness:
  "\<exists>r s' t tb. ne_rope_impl 64 0 2 0 0 True (- 1) NULL None True 0 0 demo_half = Inr (r, s') \<and> tensors s' r = Some t \<and>
    tensors s' (src1 t) = Some tb \<and>
    ne_compute_forward_rope (\<lambda>_ _ _ _ _ _ _ m. m) demo_menv \<lparr>task = NE_TASK_COMPUTE, ith = 0, nth = 1, wsize = 0, wdata = NULL\<rparr>
      (init_tensor NE_TYPE_F16 1 [4, 1, 1, 1] [2, 8, 8, 8] 2048 320) tb None t demo_mem = Inl NE_Assert"
proof -
  let ?t = "init_tensor NE_TYPE_F16 1 [4, 1, 1, 1] [2, 8, 8, 8] 2048 320"
  obtain r s' where r: "ne_rope_impl 64 0 2 0 0 True (- 1) NULL None True 0 0 demo_half = Inr (r, s')" using demo_half_rope by blast
  have "tensors demo_half 64 = Some ?t" "ty ?t \<in> {NE_TYPE_F16, NE_TYPE_BTLA}" "0 < ne ?t ! 3" "ne ?t ! 3 < 2 ^ 31"
    by (simp_all add: demo_half_def init_tensor_def)
  from rope_half_rejected [OF demo_half_facts(1) this r, of "\<lambda>_ _ _ _ _ _ _ m. m" demo_menv None demo_mem] r show ?thesis by force
qed

end
