(* ===== verification/NE_Sync.thy ===== *)
theory NE_Sync
  imports NE_Plan
begin

text \<open>
  The thread pool of \<^verbatim>\<open>ne_graph_compute\<close> in the build without OpenMP. The threads
  synchronise through atomic variables only: a counter \<^verbatim>\<open>n_ready\<close> and the flags \<^verbatim>\<open>has_work\<close> and \<^verbatim>\<open>stop\<close>. Each atomic access is one step of its
  thread, and the steps of the threads interleave in any order (the accesses are sequentially
  consistent, as those of C's \<^verbatim>\<open>atomic_load\<close> and \<^verbatim>\<open>atomic_store\<close>). This theory holds the model
  of the pool and its control invariant: which thread may be where, and how the counter and the
  flags agree with the places of the threads.
\<close>

section \<open>The state of the pool\<close>

text \<open>The atomic accesses of \<^verbatim>\<open>ne_graph_compute_thread\<close>, and its accesses to \<^verbatim>\<open>state->node\<close>.\<close>

datatype worker_pc =
    W_Arrive       \<comment> \<open>\<^verbatim>\<open>atomic_fetch_add(n_ready)\<close>\<close>
  | W_Close        \<comment> \<open>\<^verbatim>\<open>atomic_store(has_work, false)\<close>\<close>
  | W_Gather       \<comment> \<open>\<^verbatim>\<open>while (atomic_load(has_work))\<close>\<close>
  | W_Gather_Stop  \<comment> \<open>\<^verbatim>\<open>if (atomic_load(stop))\<close> in that loop\<close>
  | W_Leave        \<comment> \<open>\<^verbatim>\<open>atomic_fetch_sub(n_ready)\<close>\<close>
  | W_Wait         \<comment> \<open>\<^verbatim>\<open>while (!atomic_load(has_work))\<close>\<close>
  | W_Wait_Stop    \<comment> \<open>\<^verbatim>\<open>if (atomic_load(stop))\<close> in that loop\<close>
  | W_Check_Stop   \<comment> \<open>\<^verbatim>\<open>if (atomic_load(stop))\<close> behind the loop\<close>
  | W_Node         \<comment> \<open>\<^verbatim>\<open>if (state->node)\<close>\<close>
  | W_Run          \<comment> \<open>the call of \<^verbatim>\<open>ne_compute_forward\<close>\<close>
  | W_Reset        \<comment> \<open>\<^verbatim>\<open>state->node = NULL\<close>\<close>
  | W_Done

text \<open>
  The main thread: \<open>M_Init\<close> is the top of the loop over the nodes, \<open>M_Arrive\<close> to \<open>M_Open\<close>
  launch the pool, \<open>M_Call\<close> is the main thread's own call, \<open>J_Arrive\<close> to \<open>J_Drain\<close> wait for
  the pool, and the last four join it.
\<close>

datatype main_pc =
    M_Init | M_Arrive | M_Close | M_Gather | M_Launch nat | M_Leave | M_Drain | M_Open | M_Call
  | J_Arrive | J_Close | J_Gather | J_Leave | J_Drain
  | M_Stop | M_Wake | M_Join nat | M_Done

record ne_compute_state =
  w_pc :: worker_pc
  w_params :: ne_compute_params
  w_node :: ptr

text \<open>
  The shared variables, the workers, and the local state of the main thread: the nodes left,
  each with its task count, and the kind of the current phase. \<open>calls\<close> records the calls of
  \<^verbatim>\<open>ne_compute_forward\<close> that have returned; no step reads it.
\<close>

record ne_team =
  t_threads :: int
  n_ready :: int
  has_work :: bool
  stop :: bool
  t_wsize :: nat
  t_wdata :: ptr
  workers :: "ne_compute_state list"
  m_pc :: main_pc
  todo :: "(ptr \<times> int) list"
  phase :: ne_task_type
  calls :: "(ptr \<times> ne_compute_params) list"

definition call_params :: "ne_team \<Rightarrow> ne_task_type \<Rightarrow> int \<Rightarrow> int \<Rightarrow> ne_compute_params" where
  "call_params s k i nt = \<lparr>task = k, ith = i, nth = nt, wsize = t_wsize s, wdata = t_wdata s\<rparr>"

definition team_start :: "int \<Rightarrow> nat \<Rightarrow> ptr \<Rightarrow> (ptr \<times> int) list \<Rightarrow> ne_team" where
  "team_start n wsz wdat ns =
     \<lparr>t_threads = n, n_ready = 0, has_work = (1 < n), stop = False, t_wsize = wsz, t_wdata = wdat,
      workers = map (\<lambda>j. \<lparr>w_pc = W_Arrive,
        w_params = \<lparr>task = NE_TASK_COMPUTE, ith = int j + 1, nth = n, wsize = wsz, wdata = wdat\<rparr>,
        w_node = NULL\<rparr>) [0 ..< nat (n - 1)],
      m_pc = M_Init, todo = ns, phase = NE_TASK_INIT, calls = []\<rparr>"

section \<open>The steps of the threads\<close>

text \<open>One step of worker \<open>j\<close> (\<^verbatim>\<open>ne_graph_compute_thread\<close>).\<close>

definition set_worker :: "nat \<Rightarrow> (ne_compute_state \<Rightarrow> ne_compute_state) \<Rightarrow> ne_team \<Rightarrow> ne_team" where
  "set_worker j f s = s\<lparr>workers := (workers s)[j := f (workers s ! j)]\<rparr>"

definition goto_w :: "nat \<Rightarrow> worker_pc \<Rightarrow> ne_team \<Rightarrow> ne_team" where
  "goto_w j l = set_worker j (\<lambda>w. w\<lparr>w_pc := l\<rparr>)"

definition ne_graph_compute_thread :: "nat \<Rightarrow> ne_team \<Rightarrow> ne_team" where
  "ne_graph_compute_thread j s =
     (let w = workers s ! j in
      case w_pc w of
        W_Arrive \<Rightarrow> goto_w j (if n_ready s = t_threads s - 1 then W_Close else W_Gather) (s\<lparr>n_ready := n_ready s + 1\<rparr>)
      | W_Close \<Rightarrow> goto_w j W_Leave (s\<lparr>has_work := False\<rparr>)
      | W_Gather \<Rightarrow> goto_w j (if has_work s then W_Gather_Stop else W_Leave) s
      | W_Gather_Stop \<Rightarrow> goto_w j (if stop s then W_Done else W_Gather) s
      | W_Leave \<Rightarrow> goto_w j W_Wait (s\<lparr>n_ready := n_ready s - 1\<rparr>)
      | W_Wait \<Rightarrow> goto_w j (if has_work s then W_Check_Stop else W_Wait_Stop) s
      | W_Wait_Stop \<Rightarrow> goto_w j (if stop s then W_Done else W_Wait) s
      | W_Check_Stop \<Rightarrow> goto_w j (if stop s then W_Done else W_Node) s
      | W_Node \<Rightarrow> goto_w j (if w_node w \<noteq> NULL then W_Run else W_Done) s
      | W_Run \<Rightarrow> goto_w j W_Reset
          (if ith (w_params w) < nth (w_params w) then s\<lparr>calls := calls s @ [(w_node w, w_params w)]\<rparr> else s)
      | W_Reset \<Rightarrow> goto_w j W_Arrive (set_worker j (\<lambda>w. w\<lparr>w_node := NULL\<rparr>) s)
      | W_Done \<Rightarrow> s)"

text \<open>
  The main thread. The code of the phases \<^verbatim>\<open>COMPUTE\<close> and \<^verbatim>\<open>FINALIZE\<close> is the same up to the task
  type; \<open>next_phase\<close> goes from the first to the second, and from there to the next node.
\<close>

definition next_phase :: "int \<Rightarrow> ne_team \<Rightarrow> ne_team" where
  "next_phase nt s =
     (if phase s = NE_TASK_COMPUTE
      then s\<lparr>phase := NE_TASK_FINALIZE, m_pc := (if 1 < nt then M_Arrive else M_Call)\<rparr>
      else s\<lparr>todo := tl (todo s), m_pc := M_Init\<rparr>)"

definition main_call :: "ne_task_type \<Rightarrow> ptr \<Rightarrow> int \<Rightarrow> ne_team \<Rightarrow> ne_team" where
  "main_call k p nt s = s\<lparr>calls := calls s @ [(p, call_params s k 0 nt)]\<rparr>"

definition run_nodes_step :: "ptr \<Rightarrow> int \<Rightarrow> ne_team \<Rightarrow> ne_team" where
  "run_nodes_step p nt s =
     (case m_pc s of
        M_Init \<Rightarrow> (main_call NE_TASK_INIT p nt s)\<lparr>phase := NE_TASK_COMPUTE, m_pc := (if 1 < nt then M_Arrive else M_Call)\<rparr>
      | M_Arrive \<Rightarrow> s\<lparr>n_ready := n_ready s + 1, m_pc := (if n_ready s = t_threads s - 1 then M_Close else M_Gather)\<rparr>
      | M_Close \<Rightarrow> s\<lparr>has_work := False, m_pc := M_Gather\<rparr>
      | M_Gather \<Rightarrow> if has_work s then s else s\<lparr>m_pc := M_Launch 0\<rparr>
      | M_Launch j \<Rightarrow>
          if int j < t_threads s - 1
          then (set_worker j (\<lambda>w. w\<lparr>w_params := call_params s (phase s) (int j + 1) nt, w_node := p\<rparr>) s)
                 \<lparr>m_pc := M_Launch (Suc j)\<rparr>
          else s\<lparr>m_pc := M_Leave\<rparr>
      | M_Leave \<Rightarrow> s\<lparr>n_ready := n_ready s - 1, m_pc := M_Drain\<rparr>
      | M_Drain \<Rightarrow> if n_ready s > 0 then s else s\<lparr>m_pc := M_Open\<rparr>
      | M_Open \<Rightarrow> s\<lparr>has_work := True, m_pc := M_Call\<rparr>
      | M_Call \<Rightarrow>
          (let s' = main_call (phase s) p nt s in if 1 < nt then s'\<lparr>m_pc := J_Arrive\<rparr> else next_phase nt s')
      | J_Arrive \<Rightarrow> s\<lparr>n_ready := n_ready s + 1, m_pc := (if n_ready s = t_threads s - 1 then J_Close else J_Gather)\<rparr>
      | J_Close \<Rightarrow> s\<lparr>has_work := False, m_pc := J_Gather\<rparr>
      | J_Gather \<Rightarrow> if has_work s then s else s\<lparr>m_pc := J_Leave\<rparr>
      | J_Leave \<Rightarrow> s\<lparr>n_ready := n_ready s - 1, m_pc := J_Drain\<rparr>
      | J_Drain \<Rightarrow> if n_ready s \<noteq> 0 then s else next_phase nt s
      | _ \<Rightarrow> s)"

definition join_step :: "ne_team \<Rightarrow> ne_team" where
  "join_step s =
     (case m_pc s of
        M_Stop \<Rightarrow> s\<lparr>stop := True, m_pc := M_Wake\<rparr>
      | M_Wake \<Rightarrow> s\<lparr>has_work := True, m_pc := M_Join 0\<rparr>
      | M_Join j \<Rightarrow>
          if int j < t_threads s - 1
          then (if w_pc (workers s ! j) = W_Done then s\<lparr>m_pc := M_Join (Suc j)\<rparr> else s)
          else s\<lparr>m_pc := M_Done\<rparr>
      | _ \<Rightarrow> s)"

definition main_step :: "ne_team \<Rightarrow> ne_team" where
  "main_step s =
     (case todo s of
        (p, nt) # _ \<Rightarrow> run_nodes_step p nt s
      | [] \<Rightarrow> if m_pc s = M_Init then s\<lparr>m_pc := (if 1 < t_threads s then M_Stop else M_Done)\<rparr> else join_step s)"

text \<open>Any thread may take the next step.\<close>

inductive team_step :: "ne_team \<Rightarrow> ne_team \<Rightarrow> bool" where
  main: "team_step s (main_step s)"
| worker: "j < length (workers s) \<Longrightarrow> team_step s (ne_graph_compute_thread j s)"

inductive_cases team_stepE: "team_step s t"

section \<open>Counting threads\<close>

definition num :: "('a \<Rightarrow> bool) \<Rightarrow> 'a list \<Rightarrow> int" where
  "num P xs = int (length (filter P xs))"

lemma num_update:
  assumes "i < length xs"
  shows "num P (xs[i := x]) = num P xs - of_bool (P (xs ! i)) + of_bool (P x)"
proof -
  have xs: "xs = take i xs @ xs ! i # drop (Suc i) xs" using assms by (rule id_take_nth_drop)
  have "num P (take i xs @ y # drop (Suc i) xs) = num P (take i xs) + num P (drop (Suc i) xs) + of_bool (P y)" for y
    by (simp add: num_def)
  from this [of x] this [of "xs ! i"] show ?thesis
    using assms by (simp add: upd_conv_take_nth_drop xs [symmetric])
qed

lemma num_bounds: "0 \<le> num P xs" "num P xs \<le> int (length xs)"
  by (simp_all add: num_def)

lemma num_zero_iff: "num P xs = 0 \<longleftrightarrow> (\<forall>i < length xs. \<not> P (xs ! i))"
  by (auto simp: num_def filter_empty_conv all_set_conv_all_nth)

lemma num_full_iff: "num P xs = int (length xs) \<longleftrightarrow> (\<forall>i < length xs. P (xs ! i))"
  by (metis all_set_conv_all_nth filter_id_conv length_filter_less less_irrefl num_def of_nat_eq_iff)

text \<open>All but one: the rest satisfies the predicate.\<close>

lemma num_others:
  assumes "i < length xs" "\<not> P (xs ! i)" "num P xs = int (length xs) - 1" "k < length xs" "k \<noteq> i"
  shows "P (xs ! k)"
proof (rule ccontr)
  assume k: "\<not> P (xs ! k)"
  have "card {m. m < length xs \<and> P (xs ! m)} \<le> card ({..<length xs} - {i, k})"
    by (rule card_mono) (use assms(2) k in auto)
  also have "\<dots> = length xs - 2" using assms(1,4,5) by (subst card_Diff_subset) auto
  finally show False using assms(1,3-5) by (auto simp: num_def length_filter_conv_card)
qed

section \<open>The control invariant\<close>

definition fresh_pcs :: "worker_pc set" where "fresh_pcs = {W_Arrive, W_Gather, W_Gather_Stop}"
definition wait_pcs :: "worker_pc set" where "wait_pcs = {W_Wait, W_Wait_Stop}"
definition gather_pcs :: "worker_pc set" where "gather_pcs = {W_Gather, W_Gather_Stop}"
definition closing_pcs :: "worker_pc set" where "closing_pcs = {W_Gather, W_Gather_Stop, W_Leave, W_Wait, W_Wait_Stop}"
definition busy_pcs :: "worker_pc set" where
  "busy_pcs = {W_Wait, W_Wait_Stop, W_Check_Stop, W_Node, W_Run, W_Reset, W_Arrive, W_Gather, W_Gather_Stop}"
definition ready_pcs :: "worker_pc set" where "ready_pcs = {W_Close, W_Gather, W_Gather_Stop, W_Leave}"

lemmas pcs_defs = fresh_pcs_def wait_pcs_def gather_pcs_def closing_pcs_def busy_pcs_def ready_pcs_def

definition cur_tasks :: "ne_team \<Rightarrow> int" where
  "cur_tasks s = (case todo s of [] \<Rightarrow> 0 | (p, nt) # _ \<Rightarrow> nt)"

text \<open>Where the workers may be, by the position of the main thread and the flag.\<close>

definition allowed :: "ne_team \<Rightarrow> worker_pc set" where
  "allowed s =
     (case m_pc s of
        M_Close \<Rightarrow> gather_pcs
      | M_Gather \<Rightarrow> if has_work s then insert W_Close fresh_pcs else closing_pcs
      | M_Launch k \<Rightarrow> closing_pcs
      | M_Leave \<Rightarrow> closing_pcs
      | M_Drain \<Rightarrow> closing_pcs
      | M_Open \<Rightarrow> wait_pcs
      | M_Call \<Rightarrow> if 1 < cur_tasks s then busy_pcs else if has_work s then fresh_pcs else wait_pcs
      | J_Arrive \<Rightarrow> busy_pcs
      | J_Close \<Rightarrow> gather_pcs
      | J_Gather \<Rightarrow> if has_work s then insert W_Close busy_pcs else closing_pcs
      | J_Leave \<Rightarrow> closing_pcs
      | J_Drain \<Rightarrow> closing_pcs
      | _ \<Rightarrow> if has_work s then fresh_pcs else wait_pcs)"

text \<open>What the main thread knows about the flag.\<close>

definition flag_ok :: "ne_team \<Rightarrow> bool" where
  "flag_ok s =
     (case m_pc s of
        M_Close \<Rightarrow> has_work s | M_Launch k \<Rightarrow> \<not> has_work s | M_Leave \<Rightarrow> \<not> has_work s | M_Drain \<Rightarrow> \<not> has_work s
      | M_Open \<Rightarrow> \<not> has_work s | M_Call \<Rightarrow> 1 < cur_tasks s \<longrightarrow> has_work s | J_Arrive \<Rightarrow> has_work s
      | J_Close \<Rightarrow> has_work s | J_Leave \<Rightarrow> \<not> has_work s | J_Drain \<Rightarrow> \<not> has_work s | _ \<Rightarrow> True)"

definition main_in :: "ne_team \<Rightarrow> bool" where
  "main_in s = (case m_pc s of M_Close \<Rightarrow> True | M_Gather \<Rightarrow> True | M_Launch k \<Rightarrow> True | M_Leave \<Rightarrow> True
     | J_Close \<Rightarrow> True | J_Gather \<Rightarrow> True | J_Leave \<Rightarrow> True | _ \<Rightarrow> False)"

definition pc_of :: "ne_team \<Rightarrow> nat \<Rightarrow> worker_pc" where "pc_of s j = w_pc (workers s ! j)"

text \<open>
  While the graph runs: the counter counts the threads that have arrived; a thread that is about
  to close the gate is the only one, and all others have arrived; while the gate is open, a
  thread that will close it is still to come.
\<close>

definition count_ok :: "ne_team \<Rightarrow> bool" where
  "count_ok s \<longleftrightarrow> n_ready s = num (\<lambda>w. w_pc w \<in> ready_pcs) (workers s) + of_bool (main_in s)"

definition close_ok :: "ne_team \<Rightarrow> bool" where
  "close_ok s \<longleftrightarrow> (\<forall>j < length (workers s). pc_of s j = W_Close \<longrightarrow>
     (\<forall>i < length (workers s). i \<noteq> j \<longrightarrow> pc_of s i \<in> gather_pcs))"

definition last_ok :: "ne_team \<Rightarrow> bool" where
  "last_ok s \<longleftrightarrow> (m_pc s \<in> {M_Gather, J_Gather} \<and> has_work s \<longrightarrow> (\<exists>j < length (workers s). pc_of s j \<notin> gather_pcs))"

definition main_ok :: "ne_team \<Rightarrow> bool" where
  "main_ok s \<longleftrightarrow> \<not> stop s \<and> t_threads s = int (length (workers s)) + 1 \<and> workers s \<noteq> [] \<and>
     m_pc s \<notin> {M_Wake, M_Done} \<union> range M_Join \<and>
     (todo s = [] \<longrightarrow> m_pc s \<in> {M_Init, M_Stop}) \<and> (m_pc s = M_Stop \<longrightarrow> todo s = []) \<and>
     (m_pc s \<notin> {M_Init, M_Call, M_Stop} \<longrightarrow> 1 < cur_tasks s) \<and> flag_ok s"

definition places_ok :: "ne_team \<Rightarrow> bool" where
  "places_ok s \<longleftrightarrow> (\<forall>j < length (workers s). pc_of s j \<in> allowed s)"

definition ctl_inv :: "ne_team \<Rightarrow> bool" where
  "ctl_inv s \<longleftrightarrow> main_ok s \<and> places_ok s \<and> count_ok s \<and> close_ok s \<and> last_ok s"

lemmas ctl_defs = main_ok_def places_ok_def count_ok_def close_ok_def last_ok_def

lemma pc_of_goto [simp]: "j < length (workers s) \<Longrightarrow> pc_of (goto_w j l s) i = (if i = j then l else pc_of s i)"
  by (simp add: pc_of_def goto_w_def set_worker_def nth_list_update)

lemma goto_w_simps [simp]:
  "stop (goto_w j l s) = stop s" "t_threads (goto_w j l s) = t_threads s" "m_pc (goto_w j l s) = m_pc s"
  "todo (goto_w j l s) = todo s" "has_work (goto_w j l s) = has_work s" "n_ready (goto_w j l s) = n_ready s"
  "phase (goto_w j l s) = phase s" "calls (goto_w j l s) = calls s" "t_wsize (goto_w j l s) = t_wsize s"
  "t_wdata (goto_w j l s) = t_wdata s"
  "length (workers (goto_w j l s)) = length (workers s)" "(workers (goto_w j l s) = []) = (workers s = [])"
  "cur_tasks (goto_w j l s) = cur_tasks s"
  by (simp_all add: goto_w_def set_worker_def cur_tasks_def)

lemma goto_w_ctl [simp]:
  "allowed (goto_w j l s) = allowed s" "flag_ok (goto_w j l s) = flag_ok s" "main_in (goto_w j l s) = main_in s"
  by (simp_all add: allowed_def flag_ok_def main_in_def cong: main_pc.case_cong if_cong)

lemma num_goto:
  "j < length (workers s) \<Longrightarrow> num (\<lambda>w. w_pc w \<in> A) (workers (goto_w j l s)) =
     num (\<lambda>w. w_pc w \<in> A) (workers s) - of_bool (pc_of s j \<in> A) + of_bool (l \<in> A)"
  by (simp add: goto_w_def set_worker_def num_update pc_of_def)

text \<open>Fields that the control invariant does not look at.\<close>

lemma num_map: "num (\<lambda>w. P (f w)) xs = num P (map f xs)"
  by (simp add: num_def filter_map comp_def)

lemma ctl_inv_cong:
  assumes "ctl_inv s" "stop s' = stop s" "t_threads s' = t_threads s" "m_pc s' = m_pc s" "todo s' = todo s"
    "has_work s' = has_work s" "n_ready s' = n_ready s" "map w_pc (workers s') = map w_pc (workers s)"
  shows "ctl_inv s'"
proof -
  have len: "length (workers s') = length (workers s)" using assms(8) by (metis length_map)
  then have ne: "workers s' = [] \<longleftrightarrow> workers s = []" by (metis length_0_conv)
  have pc: "j < length (workers s) \<Longrightarrow> pc_of s' j = pc_of s j" for j
    using assms(8) len unfolding pc_of_def by (metis nth_map)
  have n: "num (\<lambda>w. w_pc w \<in> A) (workers s') = num (\<lambda>w. w_pc w \<in> A) (workers s)" for A
    unfolding num_map [where f = w_pc and P = "\<lambda>l. l \<in> A"] using assms(8) by simp
  have c: "cur_tasks s' = cur_tasks s" using assms(5) by (simp add: cur_tasks_def)
  have "allowed s' = allowed s" "flag_ok s' = flag_ok s" "main_in s' = main_in s"
    using assms(4,6) c by (simp_all add: allowed_def flag_ok_def main_in_def cong: main_pc.case_cong if_cong)
  with assms len pc n c ne show ?thesis by (auto simp: ctl_inv_def ctl_defs)
qed

lemma no_close: "\<not> has_work s \<Longrightarrow> W_Close \<notin> allowed s \<or> m_pc s \<in> {M_Call, J_Arrive, M_Close, J_Close}"
  by (auto simp: allowed_def pcs_defs split: main_pc.splits)

lemma ctl_no_close: "ctl_inv s \<Longrightarrow> \<not> has_work s \<Longrightarrow> j < length (workers s) \<Longrightarrow> pc_of s j \<noteq> W_Close"
  using no_close [of s] by (auto simp: ctl_inv_def places_ok_def main_ok_def flag_ok_def allowed_def pcs_defs split: if_splits)

lemma n_ready_simps [simp]:
  "allowed (s\<lparr>n_ready := k\<rparr>) = allowed s" "flag_ok (s\<lparr>n_ready := k\<rparr>) = flag_ok s"
  "main_in (s\<lparr>n_ready := k\<rparr>) = main_in s" "cur_tasks (s\<lparr>n_ready := k\<rparr>) = cur_tasks s"
  "pc_of (s\<lparr>n_ready := k\<rparr>) = pc_of s"
  by (auto simp: allowed_def flag_ok_def main_in_def cur_tasks_def pc_of_def fun_eq_iff cong: main_pc.case_cong if_cong)

text \<open>A worker that moves within what is allowed.\<close>

lemma ctl_goto:
  assumes inv: "ctl_inv s" and j: "j < length (workers s)" and l: "l \<in> allowed s" "l \<noteq> W_Close"
    and g: "has_work s \<Longrightarrow> pc_of s j \<noteq> W_Close \<and> (l \<in> gather_pcs \<longleftrightarrow> pc_of s j \<in> gather_pcs)"
  shows "ctl_inv (goto_w j l (s\<lparr>n_ready := n_ready s - of_bool (pc_of s j \<in> ready_pcs) + of_bool (l \<in> ready_pcs)\<rparr>))"
proof -
  let ?s = "s\<lparr>n_ready := n_ready s - of_bool (pc_of s j \<in> ready_pcs) + of_bool (l \<in> ready_pcs)\<rparr>"
  have "close_ok (goto_w j l ?s)"
  proof (cases "has_work s")
    case True
    then show ?thesis using inv j l g by (auto simp: ctl_inv_def close_ok_def)
  next
    case False
    then show ?thesis using ctl_no_close [OF inv False] j l by (auto simp: close_ok_def)
  qed
  moreover have "last_ok (goto_w j l ?s)" using inv j g by (auto simp: ctl_inv_def last_ok_def)
  moreover have "count_ok (goto_w j l ?s)"
    using inv j by (simp add: ctl_inv_def count_ok_def num_goto)
  moreover have "main_ok (goto_w j l ?s)" "places_ok (goto_w j l ?s)"
    using inv j l by (simp_all add: ctl_inv_def main_ok_def places_ok_def)
  ultimately show ?thesis by (simp add: ctl_inv_def)
qed

lemma worker_arrives_last:
  assumes inv: "ctl_inv s" and j: "j < length (workers s)" and a: "pc_of s j = W_Arrive"
    and n: "n_ready s = t_threads s - 1"
  shows "main_in s \<and> has_work s \<and> m_pc s \<in> {M_Gather, J_Gather} \<and>
    (\<forall>i < length (workers s). i \<noteq> j \<longrightarrow> pc_of s i \<in> gather_pcs)"
proof -
  let ?P = "\<lambda>w. w_pc w \<in> ready_pcs"
  have nr: "\<not> ?P (workers s ! j)" using a by (simp add: pc_of_def ready_pcs_def)
  then have "num ?P (workers s) < int (length (workers s))"
    using j num_full_iff [of ?P "workers s"] num_bounds(2) [of ?P "workers s"] by fastforce
  with n inv have m: "main_in s" and num: "num ?P (workers s) = int (length (workers s)) - 1"
    by (auto simp: ctl_inv_def count_ok_def main_ok_def split: if_splits)
  have "pc_of s j \<in> allowed s" using inv j by (simp add: ctl_inv_def places_ok_def)
  with a m inv have h: "has_work s \<and> m_pc s \<in> {M_Gather, J_Gather}"
    by (auto simp: main_in_def allowed_def pcs_defs ctl_inv_def main_ok_def flag_ok_def split: main_pc.splits if_splits)
  have "pc_of s i \<in> gather_pcs" if i: "i < length (workers s)" "i \<noteq> j" for i
  proof -
    have "pc_of s i \<in> ready_pcs" using num_others [OF j nr num i] by (simp add: pc_of_def)
    moreover have "pc_of s i \<noteq> W_Close" using inv i j a unfolding ctl_inv_def close_ok_def gather_pcs_def
      by (metis empty_iff insert_iff worker_pc.distinct(3) worker_pc.distinct(5))
    moreover have "pc_of s i \<noteq> W_Leave" using inv i h by (auto simp: ctl_inv_def places_ok_def allowed_def pcs_defs)
    ultimately show ?thesis by (auto simp: ready_pcs_def gather_pcs_def)
  qed
  with m h show ?thesis by blast
qed

lemma ctl_arrive:
  assumes inv: "ctl_inv s" and j: "j < length (workers s)" and a: "pc_of s j = W_Arrive"
  shows "ctl_inv (goto_w j (if n_ready s = t_threads s - 1 then W_Close else W_Gather) (s\<lparr>n_ready := n_ready s + 1\<rparr>))"
    (is "ctl_inv (goto_w j ?l ?s)")
proof -
  have al: "pc_of s j \<in> allowed s" using inv j by (simp add: ctl_inv_def places_ok_def)
  have l: "?l \<in> allowed s"
  proof (cases "n_ready s = t_threads s - 1")
    case True
    then show ?thesis using worker_arrives_last [OF inv j a True] by (auto simp: allowed_def)
  next
    case False
    then show ?thesis using al a by (auto simp: allowed_def pcs_defs split: main_pc.splits if_splits)
  qed
  have rl: "?l \<in> ready_pcs" and ra: "pc_of s j \<notin> ready_pcs" using a by (auto simp: ready_pcs_def)
  have "count_ok (goto_w j ?l ?s)" using inv j rl ra by (simp add: ctl_inv_def count_ok_def num_goto)
  moreover have "close_ok (goto_w j ?l ?s)"
  proof (cases "n_ready s = t_threads s - 1")
    case True
    then show ?thesis using worker_arrives_last [OF inv j a True] j
      by (auto simp: close_ok_def gather_pcs_def)
  next
    case False
    then show ?thesis using inv j a by (auto simp: ctl_inv_def close_ok_def gather_pcs_def)
  qed
  moreover have "last_ok (goto_w j ?l ?s)"
  proof (cases "n_ready s = t_threads s - 1")
    case True
    then show ?thesis using j by (auto simp: last_ok_def gather_pcs_def)
  next
    case False
    have "\<exists>i < length (workers s). i \<noteq> j \<and> pc_of s i \<notin> gather_pcs" if m: "m_pc s \<in> {M_Gather, J_Gather}"
    proof (rule ccontr)
      assume "\<not> ?thesis"
      then have "\<forall>i < length (workers s). pc_of (goto_w j ?l ?s) i \<in> ready_pcs"
        using j rl by (auto simp: gather_pcs_def ready_pcs_def)
      then have "num (\<lambda>w. w_pc w \<in> ready_pcs) (workers (goto_w j ?l ?s)) = int (length (workers s))"
        using num_full_iff [of "\<lambda>w. w_pc w \<in> ready_pcs" "workers (goto_w j ?l ?s)"] by (simp add: pc_of_def)
      then show False using False \<open>count_ok (goto_w j ?l ?s)\<close> inv m
        by (auto simp: count_ok_def ctl_inv_def main_ok_def main_in_def)
    qed
    then show ?thesis using j by (auto simp: last_ok_def)
  qed
  moreover have "main_ok (goto_w j ?l ?s)" "places_ok (goto_w j ?l ?s)"
    using inv j l by (simp add: ctl_inv_def main_ok_def, auto simp: ctl_inv_def places_ok_def split: if_splits)
  ultimately show ?thesis by (simp add: ctl_inv_def)
qed

lemma ctl_close:
  assumes inv: "ctl_inv s" and j: "j < length (workers s)" and c: "pc_of s j = W_Close"
  shows "ctl_inv (goto_w j W_Leave (s\<lparr>has_work := False\<rparr>))" (is "ctl_inv (goto_w j _ ?s)")
proof -
  have "pc_of s j \<in> allowed s" using inv j by (simp add: ctl_inv_def places_ok_def)
  then have m: "m_pc s \<in> {M_Gather, J_Gather}" "has_work s"
    using c by (auto simp: allowed_def pcs_defs split: main_pc.splits if_splits)
  have o: "i < length (workers s) \<Longrightarrow> i \<noteq> j \<Longrightarrow> pc_of s i \<in> gather_pcs" for i
    using inv j c by (auto simp: ctl_inv_def close_ok_def)
  have pc: "pc_of ?s = pc_of s" by (simp add: pc_of_def fun_eq_iff)
  have "close_ok (goto_w j W_Leave ?s)" using o j by (fastforce simp: close_ok_def pc gather_pcs_def)
  moreover have "last_ok (goto_w j W_Leave ?s)" by (simp add: last_ok_def)
  moreover have "allowed ?s = closing_pcs" using m(1) by (auto simp: allowed_def)
  then have "places_ok (goto_w j W_Leave ?s)" using o j by (fastforce simp: places_ok_def pc pcs_defs)
  moreover have "main_ok (goto_w j W_Leave ?s)"
    using inv m by (auto simp: ctl_inv_def main_ok_def flag_ok_def cur_tasks_def)
  moreover have "count_ok (goto_w j W_Leave ?s)"
  proof -
    have "W_Close \<in> ready_pcs" "W_Leave \<in> ready_pcs" by (simp_all add: ready_pcs_def)
    then show ?thesis using inv j c m by (auto simp: ctl_inv_def count_ok_def num_goto pc main_in_def)
  qed
  ultimately show ?thesis by (simp add: ctl_inv_def)
qed

text \<open>Every step of a worker keeps the control invariant.\<close>

lemma ctl_worker:
  assumes inv: "ctl_inv s" and j: "j < length (workers s)" and nd: "pc_of s j = W_Node \<longrightarrow> w_node (workers s ! j) \<noteq> NULL"
  shows "ctl_inv (ne_graph_compute_thread j s)"
proof -
  have al: "pc_of s j \<in> allowed s" and st: "\<not> stop s" using inv j by (auto simp: ctl_inv_def places_ok_def main_ok_def)
  have fl: "flag_ok s" using inv by (simp add: ctl_inv_def main_ok_def)
  have mv: "ctl_inv (goto_w j l (s\<lparr>n_ready := n_ready s + d\<rparr>))"
    if "l \<in> allowed s" "l \<noteq> W_Close" "d = of_bool (l \<in> ready_pcs) - of_bool (pc_of s j \<in> ready_pcs)"
      "has_work s \<longrightarrow> pc_of s j \<noteq> W_Close \<and> (l \<in> gather_pcs \<longleftrightarrow> pc_of s j \<in> gather_pcs)" for l d
    using ctl_goto [OF inv j that(1,2)] that(4) unfolding that(3) by (simp add: add_diff_eq diff_add_eq)
  have stay: "ctl_inv (goto_w j l s)" if "l \<in> allowed s" "l \<noteq> W_Close" "l \<in> ready_pcs \<longleftrightarrow> pc_of s j \<in> ready_pcs"
      "has_work s \<longrightarrow> pc_of s j \<noteq> W_Close \<and> (l \<in> gather_pcs \<longleftrightarrow> pc_of s j \<in> gather_pcs)" for l
    using mv [of l 0] that by simp
  have cl: "ctl_inv t \<Longrightarrow> map w_pc (workers t') = map w_pc (workers t) \<Longrightarrow> stop t' = stop t \<Longrightarrow>
      t_threads t' = t_threads t \<Longrightarrow> m_pc t' = m_pc t \<Longrightarrow> todo t' = todo t \<Longrightarrow> has_work t' = has_work t \<Longrightarrow>
      n_ready t' = n_ready t \<Longrightarrow> ctl_inv t'" for t t' by (erule ctl_inv_cong)
  show ?thesis
  proof (cases "pc_of s j")
    case W_Arrive
    then show ?thesis using ctl_arrive [OF inv j] by (simp add: ne_graph_compute_thread_def pc_of_def)
  next
    case W_Close
    then show ?thesis using ctl_close [OF inv j] by (simp add: ne_graph_compute_thread_def pc_of_def)
  next
    case W_Gather
    have "ctl_inv (goto_w j (if has_work s then W_Gather_Stop else W_Leave) s)"
      by (rule stay) (use W_Gather al fl in \<open>auto simp: pcs_defs allowed_def flag_ok_def split: main_pc.splits if_splits\<close>)
    then show ?thesis using W_Gather by (simp add: ne_graph_compute_thread_def pc_of_def)
  next
    case W_Gather_Stop
    have "ctl_inv (goto_w j W_Gather s)"
      by (rule stay) (use W_Gather_Stop al in \<open>auto simp: pcs_defs allowed_def split: main_pc.splits if_splits\<close>)
    then show ?thesis using W_Gather_Stop st by (simp add: ne_graph_compute_thread_def pc_of_def)
  next
    case W_Leave
    have "ctl_inv (goto_w j W_Wait (s\<lparr>n_ready := n_ready s + (- 1)\<rparr>))"
      by (rule mv) (use W_Leave al in \<open>auto simp: pcs_defs allowed_def split: main_pc.splits if_splits\<close>)
    then show ?thesis using W_Leave by (simp add: ne_graph_compute_thread_def pc_of_def)
  next
    case W_Wait
    have "ctl_inv (goto_w j (if has_work s then W_Check_Stop else W_Wait_Stop) s)"
      by (rule stay) (use W_Wait al fl in \<open>auto simp: pcs_defs allowed_def flag_ok_def split: main_pc.splits if_splits\<close>)
    then show ?thesis using W_Wait by (simp add: ne_graph_compute_thread_def pc_of_def)
  next
    case W_Wait_Stop
    have "ctl_inv (goto_w j W_Wait s)"
      by (rule stay) (use W_Wait_Stop al in \<open>auto simp: pcs_defs allowed_def split: main_pc.splits if_splits\<close>)
    then show ?thesis using W_Wait_Stop st by (simp add: ne_graph_compute_thread_def pc_of_def)
  next
    case W_Check_Stop
    have "ctl_inv (goto_w j W_Node s)"
      by (rule stay) (use W_Check_Stop al in \<open>auto simp: pcs_defs allowed_def split: main_pc.splits if_splits\<close>)
    then show ?thesis using W_Check_Stop st by (simp add: ne_graph_compute_thread_def pc_of_def)
  next
    case W_Node
    have "ctl_inv (goto_w j W_Run s)"
      by (rule stay) (use W_Node al in \<open>auto simp: pcs_defs allowed_def split: main_pc.splits if_splits\<close>)
    then show ?thesis using W_Node nd by (simp add: ne_graph_compute_thread_def pc_of_def)
  next
    case W_Run
    have "ctl_inv (goto_w j W_Reset s)"
      by (rule stay) (use W_Run al in \<open>auto simp: pcs_defs allowed_def split: main_pc.splits if_splits\<close>)
    then show ?thesis using W_Run
      by (elim cl) (auto simp: ne_graph_compute_thread_def pc_of_def goto_w_def set_worker_def Let_def)
  next
    case W_Reset
    have "ctl_inv (goto_w j W_Arrive s)"
      by (rule stay) (use W_Reset al in \<open>auto simp: pcs_defs allowed_def split: main_pc.splits if_splits\<close>)
    then show ?thesis using W_Reset j
      by (elim cl) (auto simp: ne_graph_compute_thread_def pc_of_def goto_w_def set_worker_def map_update Let_def)
  next
    case W_Done
    then show ?thesis using inv by (simp add: ne_graph_compute_thread_def pc_of_def)
  qed
qed

text \<open>The steps of the main thread, up to the end of the loop over the nodes.\<close>

lemma main_simps [simp]:
  "pc_of (s\<lparr>m_pc := m\<rparr>) = pc_of s" "pc_of (s\<lparr>has_work := h\<rparr>) = pc_of s" "pc_of (s\<lparr>phase := f\<rparr>) = pc_of s"
  "pc_of (s\<lparr>todo := ns\<rparr>) = pc_of s" "pc_of (s\<lparr>calls := cs\<rparr>) = pc_of s" "pc_of (s\<lparr>stop := b\<rparr>) = pc_of s"
  by (simp_all add: pc_of_def fun_eq_iff)

lemma cur_tasks_simps [simp]:
  "cur_tasks (s\<lparr>m_pc := m\<rparr>) = cur_tasks s" "cur_tasks (s\<lparr>has_work := h\<rparr>) = cur_tasks s"
  "cur_tasks (s\<lparr>phase := f\<rparr>) = cur_tasks s" "cur_tasks (s\<lparr>calls := cs\<rparr>) = cur_tasks s"
  "cur_tasks (s\<lparr>workers := ws\<rparr>) = cur_tasks s"
  by (simp_all add: cur_tasks_def)

lemma all_gathered:
  assumes inv: "ctl_inv s" and n: "n_ready s = t_threads s - 1" and m: "m_pc s \<in> {M_Arrive, J_Arrive}"
  shows "has_work s \<and> (\<forall>j < length (workers s). pc_of s j \<in> gather_pcs)"
proof -
  have "num (\<lambda>w. w_pc w \<in> ready_pcs) (workers s) = int (length (workers s))"
    using inv n m by (auto simp: ctl_inv_def count_ok_def main_ok_def main_in_def)
  then have r: "\<forall>j < length (workers s). pc_of s j \<in> ready_pcs" by (simp add: num_full_iff pc_of_def)
  have a: "\<forall>j < length (workers s). pc_of s j \<in> allowed s" using inv by (simp add: ctl_inv_def places_ok_def)
  have "0 < length (workers s)" using inv by (simp add: ctl_inv_def main_ok_def)
  with a r have "pc_of s 0 \<in> allowed s" "pc_of s 0 \<in> ready_pcs" by blast+
  with m inv have h: "has_work s"
    by (auto simp: allowed_def pcs_defs ctl_inv_def main_ok_def flag_ok_def split: if_splits)
  have "pc_of s j \<in> gather_pcs" if "j < length (workers s)" for j
    using r [rule_format, OF that] a [rule_format, OF that] m h by (auto simp: allowed_def pcs_defs)
  with h show ?thesis by blast
qed

lemma not_all_gathered:
  assumes inv: "ctl_inv s" and n: "n_ready s \<noteq> t_threads s - 1" and m: "m_pc s \<in> {M_Arrive, J_Arrive}"
  shows "\<exists>j < length (workers s). pc_of s j \<notin> gather_pcs"
proof (rule ccontr)
  assume "\<not> ?thesis"
  then have "num (\<lambda>w. w_pc w \<in> ready_pcs) (workers s) = int (length (workers s))"
    by (auto simp: num_full_iff pc_of_def gather_pcs_def ready_pcs_def)
  then show False using inv n m by (auto simp: ctl_inv_def count_ok_def main_ok_def main_in_def)
qed

lemma all_drained:
  assumes inv: "ctl_inv s" and n: "n_ready s = 0" and m: "m_pc s \<in> {M_Drain, J_Drain}" and j: "j < length (workers s)"
  shows "pc_of s j \<in> wait_pcs"
proof -
  have "pc_of s j \<notin> ready_pcs"
    using inv n m j by (auto simp: ctl_inv_def count_ok_def main_in_def num_zero_iff pc_of_def)
  moreover have "pc_of s j \<in> closing_pcs" using inv m j by (auto simp: ctl_inv_def places_ok_def allowed_def)
  ultimately show ?thesis by (auto simp: pcs_defs)
qed

lemma ctl_nonneg: "ctl_inv s \<Longrightarrow> 0 \<le> n_ready s"
  using num_bounds(1) [of "\<lambda>w. w_pc w \<in> ready_pcs" "workers s"] by (simp add: ctl_inv_def count_ok_def)

lemma all_pcs_mono: "(\<forall>j < n. f j \<in> A) \<Longrightarrow> A \<subseteq> B \<Longrightarrow> \<forall>j < (n::nat). f j \<in> B"
  by blast

lemma pcs_subsets:
  "gather_pcs \<subseteq> fresh_pcs" "gather_pcs \<subseteq> closing_pcs" "wait_pcs \<subseteq> closing_pcs" "wait_pcs \<subseteq> busy_pcs"
  "fresh_pcs \<subseteq> insert W_Close fresh_pcs" "busy_pcs \<subseteq> insert W_Close busy_pcs" "fresh_pcs \<subseteq> busy_pcs"
  "W_Close \<notin> gather_pcs" "W_Close \<notin> closing_pcs" "W_Close \<notin> wait_pcs" "W_Close \<notin> fresh_pcs" "W_Close \<notin> busy_pcs"
  by (auto simp: pcs_defs)

lemma ctl_main:
  assumes inv: "ctl_inv s" and todo: "todo s = (p, nt) # ns"
  shows "ctl_inv (run_nodes_step p nt s)"
proof -
  note d = ctl_inv_def ctl_defs run_nodes_step_def main_call_def next_phase_def set_worker_def
  have ct: "cur_tasks s = nt" using todo by (simp add: cur_tasks_def)
  have pl: "\<forall>j < length (workers s). pc_of s j \<in> allowed s" using inv by (simp add: ctl_inv_def places_ok_def)
  show ?thesis
  proof (cases "m_pc s")
    case M_Init
    then show ?thesis using inv todo ct by (auto simp: d allowed_def flag_ok_def main_in_def)
  next
    case M_Arrive
    show ?thesis
    proof (cases "n_ready s = t_threads s - 1")
      case True
      then show ?thesis using inv todo ct M_Arrive all_gathered [OF inv True]
        by (auto simp: d allowed_def flag_ok_def main_in_def)
    next
      case False
      then show ?thesis using inv todo ct M_Arrive not_all_gathered [OF inv False] pcs_subsets
        by (auto simp: d allowed_def flag_ok_def main_in_def split: if_splits)
    qed
  next
    case M_Close
    then show ?thesis using inv todo ct pcs_subsets by (auto simp: d allowed_def flag_ok_def main_in_def)
  next
    case M_Gather
    then show ?thesis using inv todo ct by (auto simp: d allowed_def flag_ok_def main_in_def)
  next
    case (M_Launch k)
    then have "ctl_inv (s\<lparr>m_pc := M_Launch (Suc k)\<rparr>)" "ctl_inv (s\<lparr>m_pc := M_Leave\<rparr>)"
      using inv todo ct by (auto simp: d allowed_def flag_ok_def main_in_def)
    moreover have "(map w_pc (workers s))[k := w_pc (workers s ! k)] = map w_pc (workers s)"
      by (metis list_update_id map_update)
    ultimately show ?thesis using M_Launch
      by (auto elim!: ctl_inv_cong simp: run_nodes_step_def set_worker_def map_update)
  next
    case M_Leave
    then show ?thesis using inv todo ct by (auto simp: d allowed_def flag_ok_def main_in_def)
  next
    case M_Drain
    then show ?thesis using inv todo ct ctl_nonneg [OF inv] all_drained [OF inv]
      by (auto simp: d allowed_def flag_ok_def main_in_def)
  next
    case M_Open
    then show ?thesis using inv todo ct pcs_subsets by (auto simp: d allowed_def flag_ok_def main_in_def)
  next
    case M_Call
    then show ?thesis using inv todo ct
      by (auto simp: d allowed_def flag_ok_def main_in_def Let_def cur_tasks_def split: if_splits)
  next
    case J_Arrive
    show ?thesis
    proof (cases "n_ready s = t_threads s - 1")
      case True
      then show ?thesis using inv todo ct J_Arrive all_gathered [OF inv True]
        by (auto simp: d allowed_def flag_ok_def main_in_def)
    next
      case False
      then show ?thesis using inv todo ct J_Arrive not_all_gathered [OF inv False] pcs_subsets
        by (auto simp: d allowed_def flag_ok_def main_in_def split: if_splits)
    qed
  next
    case J_Close
    then show ?thesis using inv todo ct pcs_subsets by (auto simp: d allowed_def flag_ok_def main_in_def)
  next
    case J_Gather
    then show ?thesis using inv todo ct by (auto simp: d allowed_def flag_ok_def main_in_def)
  next
    case J_Leave
    then show ?thesis using inv todo ct by (auto simp: d allowed_def flag_ok_def main_in_def)
  next
    case J_Drain
    then show ?thesis using inv todo ct all_drained [OF inv]
      by (auto simp: d allowed_def flag_ok_def main_in_def cur_tasks_def)
  qed (use inv todo in \<open>auto simp: ctl_inv_def main_ok_def\<close>)
qed

section \<open>The end of a run\<close>

text \<open>
  After \<^verbatim>\<open>stop\<close> the workers are where the last node left them: at the gate if the pool has never
  been launched, and otherwise waiting for work. In the first case too few threads arrive to
  close the gate.
\<close>

definition gate_pcs :: "worker_pc set" where "gate_pcs = {W_Arrive, W_Gather, W_Gather_Stop, W_Done}"
definition idle_pcs :: "worker_pc set" where "idle_pcs = {W_Wait, W_Wait_Stop, W_Check_Stop, W_Done}"

definition stop_places :: "ne_team \<Rightarrow> bool" where
  "stop_places s \<longleftrightarrow> has_work s \<and> (\<forall>j < length (workers s). pc_of s j \<in> gate_pcs) \<or>
     (\<forall>j < length (workers s). pc_of s j \<in> idle_pcs)"

definition stop_joined :: "ne_team \<Rightarrow> bool" where
  "stop_joined s \<longleftrightarrow>
     (\<forall>k. m_pc s = M_Join k \<longrightarrow> has_work s \<and> (\<forall>j < length (workers s). j < k \<longrightarrow> pc_of s j = W_Done)) \<and>
     (m_pc s = M_Done \<longrightarrow> (\<forall>j < length (workers s). pc_of s j = W_Done))"

definition stop_inv :: "ne_team \<Rightarrow> bool" where
  "stop_inv s \<longleftrightarrow> stop s \<and> t_threads s = int (length (workers s)) + 1 \<and> todo s = [] \<and>
     m_pc s \<in> {M_Wake, M_Done} \<union> range M_Join \<and> 0 \<le> n_ready s \<and>
     n_ready s + num (\<lambda>w. w_pc w = W_Arrive) (workers s) \<le> int (length (workers s)) \<and>
     stop_places s \<and> stop_joined s"

text \<open>A team of one thread has no workers.\<close>

definition solo_inv :: "ne_team \<Rightarrow> bool" where
  "solo_inv s \<longleftrightarrow> workers s = [] \<and> t_threads s = 1 \<and> n_ready s = 0 \<and> m_pc s \<in> {M_Init, M_Call, M_Done} \<and>
     (\<forall>(p, nt) \<in> set (todo s). nt \<le> 1) \<and> (m_pc s = M_Call \<longrightarrow> todo s \<noteq> []) \<and> (m_pc s = M_Done \<longrightarrow> todo s = [])"

lemma num_arrive_goto:
  "j < length (workers s) \<Longrightarrow> num (\<lambda>w. w_pc w = W_Arrive) (workers (goto_w j l s)) =
     num (\<lambda>w. w_pc w = W_Arrive) (workers s) - of_bool (pc_of s j = W_Arrive) + of_bool (l = W_Arrive)"
  using num_goto [of j s "{W_Arrive}" l] by simp

lemma stop_goto:
  assumes inv: "stop_inv s" and j: "j < length (workers s)" and nd: "pc_of s j \<noteq> W_Done" and l: "l \<noteq> W_Arrive"
    and g: "pc_of s j \<in> gate_pcs \<Longrightarrow> l \<in> gate_pcs" and i: "pc_of s j \<in> idle_pcs \<Longrightarrow> l \<in> idle_pcs"
  shows "stop_inv (goto_w j l (s\<lparr>n_ready := n_ready s + of_bool (pc_of s j = W_Arrive)\<rparr>))" (is "stop_inv (goto_w j l ?s)")
proof -
  have "stop_places (goto_w j l ?s)" using inv j g i unfolding stop_inv_def stop_places_def by (simp, blast)
  moreover have "stop_joined (goto_w j l ?s)" using inv j nd by (auto simp: stop_inv_def stop_joined_def)
  moreover have "0 \<le> n_ready s + of_bool (pc_of s j = W_Arrive)" using inv by (simp add: stop_inv_def)
  ultimately show ?thesis using inv j l by (simp add: stop_inv_def num_arrive_goto)
qed

lemma stop_worker:
  assumes inv: "stop_inv s" and j: "j < length (workers s)"
  shows "stop_inv (ne_graph_compute_thread j s)"
proof (cases "pc_of s j = W_Arrive")
  case True
  have "\<not> num (\<lambda>w. w_pc w = W_Arrive) (workers s) = 0" using True j by (auto simp: num_zero_iff pc_of_def)
  then have "n_ready s \<noteq> t_threads s - 1"
    using inv num_bounds(1) [of "\<lambda>w. w_pc w = W_Arrive" "workers s"] by (auto simp: stop_inv_def)
  then show ?thesis using stop_goto [OF inv j, of W_Gather] True
    by (simp add: ne_graph_compute_thread_def pc_of_def gate_pcs_def idle_pcs_def)
next
  case False
  have st: "stop s" using inv by (simp add: stop_inv_def)
  have pc: "pc_of s j \<in> gate_pcs \<and> has_work s \<or> pc_of s j \<in> idle_pcs"
    using inv j by (auto simp: stop_inv_def stop_places_def)
  have mv: "stop_inv (goto_w j l s)" if "pc_of s j \<noteq> W_Done" "l \<noteq> W_Arrive"
      "pc_of s j \<in> gate_pcs \<longrightarrow> l \<in> gate_pcs" "pc_of s j \<in> idle_pcs \<longrightarrow> l \<in> idle_pcs" for l
    using stop_goto [OF inv j that(1,2)] that(3,4) False by simp
  show ?thesis using pc st inv False
      mv [of W_Gather_Stop] mv [of W_Done] mv [of W_Check_Stop] mv [of W_Wait_Stop]
    by (auto simp: ne_graph_compute_thread_def pc_of_def Let_def gate_pcs_def idle_pcs_def)
qed

lemma stop_join:
  assumes inv: "stop_inv s"
  shows "stop_inv (join_step s)"
proof (cases "m_pc s")
  case (M_Join k)
  then show ?thesis using inv
    by (auto simp: stop_inv_def stop_places_def stop_joined_def join_step_def less_Suc_eq pc_of_def)
qed (use inv in \<open>auto simp: stop_inv_def stop_places_def stop_joined_def join_step_def\<close>)

lemma stop_stops:
  assumes inv: "ctl_inv s" and m: "m_pc s = M_Stop"
  shows "stop_inv (join_step s)"
proof -
  have pl: "\<forall>j < length (workers s). pc_of s j \<in> (if has_work s then fresh_pcs else wait_pcs)"
    using inv m by (auto simp: ctl_inv_def places_ok_def allowed_def)
  have "num (\<lambda>w. w_pc w \<in> ready_pcs) xs + num (\<lambda>w. w_pc w = W_Arrive) xs \<le> int (length xs)" for xs
    by (induction xs) (auto simp: num_def ready_pcs_def)
  then have "n_ready s + num (\<lambda>w. w_pc w = W_Arrive) (workers s) \<le> int (length (workers s))"
    using inv m by (simp add: ctl_inv_def count_ok_def main_in_def)
  moreover have "stop_places s"
    using pl by (auto simp: stop_places_def fresh_pcs_def wait_pcs_def gate_pcs_def idle_pcs_def split: if_splits)
  ultimately show ?thesis using inv m ctl_nonneg [OF inv]
    by (auto simp: stop_inv_def stop_places_def stop_joined_def join_step_def ctl_inv_def main_ok_def)
qed

end
