(* ===== verification/NE_Sync_Run.thy ===== *)
theory NE_Sync_Run
  imports NE_Sync "HOL-Library.Multiset"
begin

text \<open>
  What a run of the thread pool does. The main thread never writes a worker's parameters while
  the worker reads them; the calls of \<^verbatim>\<open>ne_compute_forward\<close> are those of the OpenMP build, phase
  by phase; and from every reachable state the run can be completed. At the end, the critical
  section that guards the context table.
\<close>

section \<open>The jobs of the workers\<close>

definition job_pcs :: "worker_pc set" where
  "job_pcs = {W_Wait, W_Wait_Stop, W_Check_Stop, W_Node, W_Run, W_Reset}"

text \<open>Which workers hold a job: those that the launch loop has reached, and later those that have not finished it.\<close>

definition launched :: "ne_team \<Rightarrow> nat \<Rightarrow> bool" where
  "launched s j =
     (case m_pc s of M_Launch k \<Rightarrow> j < k | M_Leave \<Rightarrow> True | M_Drain \<Rightarrow> True | M_Open \<Rightarrow> True
      | M_Call \<Rightarrow> has_work s \<and> pc_of s j \<in> job_pcs | J_Arrive \<Rightarrow> has_work s \<and> pc_of s j \<in> job_pcs
      | J_Gather \<Rightarrow> has_work s \<and> pc_of s j \<in> job_pcs | _ \<Rightarrow> False)"

definition job :: "ne_team \<Rightarrow> nat \<Rightarrow> bool" where
  "job s j = (case todo s of [] \<Rightarrow> False | (p, nt) # _ \<Rightarrow>
     w_node (workers s ! j) = p \<and> w_params (workers s ! j) = call_params s (phase s) (int j + 1) nt)"

definition jobs_ok :: "ne_team \<Rightarrow> bool" where
  "jobs_ok s \<longleftrightarrow> (\<forall>j < length (workers s). if launched s j then job s j else w_node (workers s ! j) = NULL)"

definition todo_ok :: "ne_team \<Rightarrow> bool" where
  "todo_ok s \<longleftrightarrow> (\<forall>(p, nt) \<in> set (todo s). p \<noteq> NULL \<and> 1 \<le> nt)"

lemma node_at_goto [simp]:
  "w_node (workers (goto_w j l s) ! i) = w_node (workers s ! i)" "w_params (workers (goto_w j l s) ! i) = w_params (workers s ! i)"
  by (cases "i = j"; cases "j < length (workers s)"; simp add: goto_w_def set_worker_def list_update_beyond)+

lemma job_goto [simp]: "job (goto_w j l s) i = job s i"
  by (simp add: job_def call_params_def split: list.splits)

lemma launched_goto:
  assumes "j < length (workers s)" "has_work s \<longrightarrow> (l \<in> job_pcs \<longleftrightarrow> pc_of s j \<in> job_pcs)"
  shows "launched (goto_w j l s) i = launched s i"
  using assms by (auto simp: launched_def split: main_pc.splits)

lemma jobs_goto:
  assumes "jobs_ok s" "j < length (workers s)" "has_work s \<longrightarrow> (l \<in> job_pcs \<longleftrightarrow> pc_of s j \<in> job_pcs)"
  shows "jobs_ok (goto_w j l s)"
  using assms by (simp add: jobs_ok_def launched_goto)

lemma jobs_cong:
  assumes "jobs_ok s" "m_pc s' = m_pc s" "todo s' = todo s" "phase s' = phase s" "t_wsize s' = t_wsize s"
    "t_wdata s' = t_wdata s" "workers s' = workers s" "has_work s' = has_work s"
  shows "jobs_ok s'"
proof -
  have "launched s' = launched s" "job s' = job s"
    by (simp_all add: launched_def job_def pc_of_def call_params_def fun_eq_iff assms(2-8) cong: main_pc.case_cong list.case_cong)
  then show ?thesis using assms(1,7) by (simp add: jobs_ok_def)
qed

lemma thread_frame [simp]:
  "m_pc (ne_graph_compute_thread j s) = m_pc s" "todo (ne_graph_compute_thread j s) = todo s"
  "phase (ne_graph_compute_thread j s) = phase s" "t_wsize (ne_graph_compute_thread j s) = t_wsize s"
  "t_wdata (ne_graph_compute_thread j s) = t_wdata s" "t_threads (ne_graph_compute_thread j s) = t_threads s"
  "length (workers (ne_graph_compute_thread j s)) = length (workers s)"
  "cur_tasks (ne_graph_compute_thread j s) = cur_tasks s"
  "has_work (ne_graph_compute_thread j s) = (has_work s \<and> pc_of s j \<noteq> W_Close)"
  by (simp_all add: ne_graph_compute_thread_def set_worker_def pc_of_def cur_tasks_def Let_def split: worker_pc.split)

lemma working_launched:
  assumes inv: "ctl_inv s" and j: "j < length (workers s)" and pc: "pc_of s j \<in> {W_Check_Stop, W_Node, W_Run, W_Reset}"
  shows "launched s j \<and> has_work s \<and> m_pc s \<in> {M_Call, J_Arrive, J_Gather}"
proof -
  have "pc_of s j \<in> allowed s" "flag_ok s" using inv j by (auto simp: ctl_inv_def places_ok_def main_ok_def)
  then have "has_work s \<and> m_pc s \<in> {M_Call, J_Arrive, J_Gather}"
    using pc by (auto simp: allowed_def flag_ok_def pcs_defs split: main_pc.splits if_splits)
  moreover have "pc_of s j \<in> job_pcs" using pc by (auto simp: job_pcs_def)
  ultimately show ?thesis by (auto simp: launched_def)
qed

lemma working_job:
  assumes "ctl_inv s" "jobs_ok s" "j < length (workers s)" "pc_of s j \<in> {W_Check_Stop, W_Node, W_Run, W_Reset}"
  shows "job s j"
  using assms working_launched by (auto simp: jobs_ok_def)

lemma working_node: "job s j \<Longrightarrow> todo_ok s \<Longrightarrow> w_node (workers s ! j) \<noteq> NULL"
  by (auto simp: job_def todo_ok_def split: list.splits)

lemma jobs_worker:
  assumes inv: "ctl_inv s" and jobs: "jobs_ok s" and todo: "todo_ok s" and j: "j < length (workers s)"
  shows "jobs_ok (ne_graph_compute_thread j s)"
proof -
  have al: "pc_of s j \<in> allowed s" and st: "\<not> stop s" and fl: "flag_ok s"
    using inv j by (auto simp: ctl_inv_def places_ok_def main_ok_def)
  have mv: "jobs_ok (goto_w j l s')" if "has_work s \<longrightarrow> (l \<in> job_pcs \<longleftrightarrow> pc_of s j \<in> job_pcs)"
      "jobs_ok s'" "has_work s' = has_work s" "workers s' = workers s" for l s'
    using jobs_goto [OF that(2), of j l] that(1,3,4) j by (simp add: pc_of_def)
  note jc = jobs_cong [OF jobs]
  show ?thesis
  proof (cases "pc_of s j")
    case W_Close
    have "pc_of s i \<in> gather_pcs \<or> i = j" if "i < length (workers s)" for i
      using inv j W_Close that by (auto simp: ctl_inv_def close_ok_def)
    moreover have "m_pc s \<in> {M_Gather, J_Gather}"
      using al W_Close by (auto simp: allowed_def pcs_defs split: main_pc.splits if_splits)
    ultimately have "\<not> launched s i" if "i < length (workers s)" for i
      using that W_Close by (fastforce simp: launched_def gather_pcs_def job_pcs_def)
    then have "jobs_ok (s\<lparr>has_work := False\<rparr>)"
      using jobs \<open>m_pc s \<in> _\<close> by (auto simp: jobs_ok_def launched_def)
    then have "jobs_ok (goto_w j W_Leave (s\<lparr>has_work := False\<rparr>))" using j by (intro jobs_goto) auto
    then show ?thesis using W_Close by (simp add: ne_graph_compute_thread_def pc_of_def)
  next
    case W_Leave
    then have "\<not> has_work s" using al fl by (auto simp: allowed_def flag_ok_def pcs_defs split: main_pc.splits if_splits)
    then show ?thesis using W_Leave by (auto simp: ne_graph_compute_thread_def pc_of_def intro!: mv jc)
  next
    case W_Reset
    then have "m_pc s \<in> {M_Call, J_Arrive, J_Gather}" using working_launched [OF inv j] by simp
    have "pc_of (ne_graph_compute_thread j s) i = (if i = j then W_Arrive else pc_of s i)" for i
      using W_Reset j by (simp add: ne_graph_compute_thread_def pc_of_def goto_w_def set_worker_def nth_list_update)
    moreover have "W_Arrive \<notin> job_pcs" by (simp add: job_pcs_def)
    ultimately have "launched (ne_graph_compute_thread j s) i = (launched s i \<and> i \<noteq> j)" for i
      using W_Reset \<open>m_pc s \<in> _\<close> by (auto simp: launched_def split: if_splits)
    moreover have "job (ne_graph_compute_thread j s) i = job s i" if "i \<noteq> j" for i
      using W_Reset that by (auto simp: ne_graph_compute_thread_def pc_of_def goto_w_def set_worker_def job_def
          call_params_def split: list.splits)
    ultimately show ?thesis using jobs W_Reset j
      by (auto simp: jobs_ok_def ne_graph_compute_thread_def pc_of_def goto_w_def set_worker_def nth_list_update)
  next
    case W_Run
    then show ?thesis by (auto simp: ne_graph_compute_thread_def pc_of_def Let_def job_pcs_def intro!: mv jc)
  next
    case W_Node
    have "jobs_ok (goto_w j W_Run s)" by (rule mv) (use W_Node jobs in \<open>auto simp: job_pcs_def\<close>)
    moreover have "w_node (workers s ! j) \<noteq> NULL"
      using working_node [OF working_job [OF inv jobs j] todo] W_Node by simp
    ultimately show ?thesis using W_Node by (auto simp: ne_graph_compute_thread_def pc_of_def)
  qed (use st jobs in \<open>auto simp: ne_graph_compute_thread_def pc_of_def job_pcs_def intro!: mv jc\<close>)
qed

text \<open>The main thread hands out all jobs of a phase, and takes none away.\<close>

lemma jobs_none:
  assumes "jobs_ok s" "workers s' = workers s" "\<And>j. j < length (workers s) \<Longrightarrow> \<not> launched s j \<and> \<not> launched s' j"
  shows "jobs_ok s'"
  using assms by (simp add: jobs_ok_def)

lemma jobs_same:
  assumes "jobs_ok s" "workers s' = workers s" "todo s' = todo s" "phase s' = phase s" "t_wsize s' = t_wsize s"
    "t_wdata s' = t_wdata s" "\<And>j. j < length (workers s) \<Longrightarrow> launched s' j = launched s j"
  shows "jobs_ok s'"
proof -
  have "job s' = job s" by (simp add: job_def call_params_def fun_eq_iff assms(2-6) cong: list.case_cong)
  then show ?thesis using assms(1,2,7) by (simp add: jobs_ok_def)
qed

lemma idle_not_launched:
  assumes inv: "ctl_inv s" and j: "j < length (workers s)" and m: "m_pc s = M_Init \<or> m_pc s = M_Call \<and> cur_tasks s \<le> 1"
  shows "\<not> (has_work s \<and> pc_of s j \<in> job_pcs)"
proof -
  have "pc_of s j \<in> allowed s" using inv j by (simp add: ctl_inv_def places_ok_def)
  then show ?thesis using m by (auto simp: allowed_def pcs_defs job_pcs_def split: if_splits)
qed

lemma jobs_launch:
  assumes inv: "ctl_inv s" and jobs: "jobs_ok s" and todo: "todo s = (p, nt) # ns" and m: "m_pc s = M_Launch k"
  shows "jobs_ok (run_nodes_step p nt s)"
proof (cases "int k < t_threads s - 1")
  case True
  let ?s = "run_nodes_step p nt s"
  have k: "k < length (workers s)" using True inv by (auto simp: ctl_inv_def main_ok_def)
  have s: "?s = (set_worker k (\<lambda>w. w\<lparr>w_params := call_params s (phase s) (int k + 1) nt, w_node := p\<rparr>) s)\<lparr>m_pc := M_Launch (Suc k)\<rparr>"
    using True m by (simp add: run_nodes_step_def)
  have "if launched ?s j then job ?s j else w_node (workers ?s ! j) = NULL" if j: "j < length (workers s)" for j
  proof (cases "j = k")
    case True
    then show ?thesis using k todo by (simp add: s set_worker_def launched_def job_def call_params_def)
  next
    case False
    then have w: "workers ?s ! j = workers s ! j" and l: "launched ?s j = launched s j"
      using m by (auto simp: s set_worker_def launched_def)
    moreover have "job ?s j = job s j" using w todo by (simp add: job_def s set_worker_def call_params_def)
    ultimately show ?thesis using jobs j by (simp add: jobs_ok_def)
  qed
  moreover have "length (workers ?s) = length (workers s)" by (simp add: s set_worker_def)
  ultimately show ?thesis unfolding jobs_ok_def by metis
next
  case False
  then show ?thesis using inv m
    by (intro jobs_same [OF jobs]) (auto simp: run_nodes_step_def launched_def ctl_inv_def main_ok_def)
qed

lemma jobs_main:
  assumes inv: "ctl_inv s" and jobs: "jobs_ok s" and todo: "todo s = (p, nt) # ns"
  shows "jobs_ok (run_nodes_step p nt s)"
proof -
  have ct: "cur_tasks s = nt" using todo by (simp add: cur_tasks_def)
  have al: "j < length (workers s) \<Longrightarrow> pc_of s j \<in> allowed s" for j using inv by (simp add: ctl_inv_def places_ok_def)
  have fl: "flag_ok s" using inv by (simp add: ctl_inv_def main_ok_def)
  have idle: "\<not> (has_work s \<and> pc_of s j \<in> job_pcs)" if "j < length (workers s)" "m_pc s = M_Init \<or> m_pc s = M_Call \<and> nt \<le> 1" for j
    using idle_not_launched [OF inv that(1)] that(2) ct by blast
  show ?thesis
  proof (cases "m_pc s")
    case M_Init
    then show ?thesis using idle
      by (intro jobs_none [OF jobs]) (auto simp: run_nodes_step_def main_call_def launched_def)
  next
    case (M_Launch k)
    then show ?thesis by (rule jobs_launch [OF inv jobs todo])
  next
    case M_Open
    then have "pc_of s j \<in> job_pcs" if "j < length (workers s)" for j
      using al [OF that] by (auto simp: allowed_def job_pcs_def wait_pcs_def)
    then show ?thesis using M_Open by (intro jobs_same [OF jobs]) (auto simp: run_nodes_step_def launched_def)
  next
    case M_Call
    show ?thesis
    proof (cases "1 < nt")
      case True
      then show ?thesis using M_Call
        by (intro jobs_same [OF jobs]) (auto simp: run_nodes_step_def launched_def main_call_def Let_def)
    next
      case False
      then show ?thesis using M_Call idle
        by (intro jobs_none [OF jobs]) (auto simp: run_nodes_step_def launched_def main_call_def next_phase_def Let_def)
    qed
  next
    case J_Arrive
    show ?thesis
    proof (cases "n_ready s = t_threads s - 1")
      case True
      then have "pc_of s j \<notin> job_pcs" if "j < length (workers s)" for j
        using all_gathered [OF inv True] J_Arrive that by (auto simp: gather_pcs_def job_pcs_def)
      then show ?thesis using J_Arrive True
        by (intro jobs_none [OF jobs]) (auto simp: run_nodes_step_def launched_def)
    next
      case False
      then show ?thesis using J_Arrive by (intro jobs_same [OF jobs]) (auto simp: run_nodes_step_def launched_def)
    qed
  next
    case J_Drain
    then show ?thesis
      by (intro jobs_none [OF jobs])
         (use inv ct in \<open>auto simp: run_nodes_step_def launched_def next_phase_def ctl_inv_def main_ok_def\<close>)
  qed (rule jobs_same [OF jobs];
       use fl todo jobs in \<open>auto simp: run_nodes_step_def launched_def flag_ok_def\<close>)+
qed

section \<open>The calls of a run\<close>

text \<open>The calls of one phase of a node and of all its phases, as the OpenMP build makes them.\<close>

definition phase_call :: "ne_team \<Rightarrow> ne_task_type \<Rightarrow> ptr \<times> int \<Rightarrow> nat \<Rightarrow> ptr \<times> ne_compute_params" where
  "phase_call s k n i = (fst n, call_params s k (int i) (snd n))"

definition phase_block :: "ne_team \<Rightarrow> ne_task_type \<Rightarrow> ptr \<times> int \<Rightarrow> (ptr \<times> ne_compute_params) list" where
  "phase_block s k n = map (phase_call s k n) (filter (\<lambda>i. int i < snd n) [0 ..< Suc (length (workers s))])"

definition node_blocks :: "ne_team \<Rightarrow> ptr \<times> int \<Rightarrow> (ptr \<times> ne_compute_params) list list" where
  "node_blocks s n = [[phase_call s NE_TASK_INIT n 0], phase_block s NE_TASK_COMPUTE n, phase_block s NE_TASK_FINALIZE n]"

text \<open>The phases of the current node that are over, and the threads whose call of the current phase has returned.\<close>

definition over_blocks :: "ne_team \<Rightarrow> (ptr \<times> ne_compute_params) list list" where
  "over_blocks s =
     (case todo s of [] \<Rightarrow> []
      | n # _ \<Rightarrow> if m_pc s = M_Init then []
                 else [phase_call s NE_TASK_INIT n 0] #
                      (if phase s = NE_TASK_FINALIZE then [phase_block s NE_TASK_COMPUTE n] else []))"

definition pend_pcs :: "worker_pc set" where
  "pend_pcs = {W_Wait, W_Wait_Stop, W_Check_Stop, W_Node, W_Run}"

definition worker_ran :: "ne_team \<Rightarrow> nat \<Rightarrow> bool" where
  "worker_ran s j =
     (case m_pc s of M_Call \<Rightarrow> has_work s \<and> pc_of s j \<notin> pend_pcs | J_Arrive \<Rightarrow> has_work s \<and> pc_of s j \<notin> pend_pcs
      | J_Gather \<Rightarrow> has_work s \<longrightarrow> pc_of s j \<notin> pend_pcs | J_Close \<Rightarrow> True | J_Leave \<Rightarrow> True | J_Drain \<Rightarrow> True | _ \<Rightarrow> False)"

definition has_run :: "ne_team \<Rightarrow> nat \<Rightarrow> bool" where
  "has_run s i = (case i of 0 \<Rightarrow> m_pc s \<in> {J_Arrive, J_Close, J_Gather, J_Leave, J_Drain} | Suc j \<Rightarrow> worker_ran s j)"

definition ran_calls :: "ne_team \<Rightarrow> (ptr \<times> ne_compute_params) set" where
  "ran_calls s = (case todo s of [] \<Rightarrow> {} | n # _ \<Rightarrow>
     phase_call s (phase s) n ` {i. i \<le> length (workers s) \<and> int i < snd n \<and> has_run s i})"

definition same_blocks :: "'a list list \<Rightarrow> 'a list list \<Rightarrow> bool" where
  "same_blocks = list_all2 (\<lambda>b e. mset b = mset e)"

definition calls_ok :: "(ptr \<times> int) list \<Rightarrow> ne_team \<Rightarrow> bool" where
  "calls_ok ns s \<longleftrightarrow> (\<exists>pre bs cur. ns = pre @ todo s \<and> calls s = concat bs @ cur \<and>
     same_blocks bs (concat (map (node_blocks s) pre) @ over_blocks s) \<and> distinct cur \<and> set cur = ran_calls s)"

lemma same_blocks_snoc:
  "same_blocks bs es \<Longrightarrow> mset b = mset e \<Longrightarrow> same_blocks (bs @ [b]) (es @ [e])"
  by (simp add: same_blocks_def list_all2_appendI)

lemma phase_call_inj: "inj (phase_call s k n)"
  by (auto simp: inj_def phase_call_def call_params_def)

lemma phase_block_mset:
  assumes "distinct cur" "set cur = phase_call s k n ` {i. i \<le> length (workers s) \<and> int i < snd n}"
  shows "mset cur = mset (phase_block s k n)"
proof (rule set_eq_iff_mset_eq_distinct [THEN iffD1])
  show "distinct (phase_block s k n)"
    unfolding phase_block_def by (auto simp: distinct_map simp del: upt_Suc intro: inj_on_subset [OF phase_call_inj])
  show "set cur = set (phase_block s k n)" using assms(2) by (auto simp: phase_block_def less_Suc_eq_le simp del: upt_Suc)
qed (fact assms(1))

lemma blocks_cong:
  assumes "t_wsize s' = t_wsize s" "t_wdata s' = t_wdata s" "length (workers s') = length (workers s)"
  shows "phase_call s' = phase_call s" "phase_block s' = phase_block s" "node_blocks s' = node_blocks s"
  by (simp_all add: phase_call_def phase_block_def node_blocks_def call_params_def fun_eq_iff assms del: upt_Suc)

text \<open>A step that does not change which calls have returned.\<close>

lemma calls_same:
  assumes "calls_ok ns s" "t_wsize s' = t_wsize s" "t_wdata s' = t_wdata s" "length (workers s') = length (workers s)"
    "calls s' = calls s" "todo s' = todo s" "over_blocks s' = over_blocks s" "ran_calls s' = ran_calls s"
  shows "calls_ok ns s'"
  using assms blocks_cong [OF assms(2-4)] unfolding calls_ok_def by simp

lemma ran_calls_cong:
  assumes "todo s' = todo s" "phase s' = phase s" "t_wsize s' = t_wsize s" "t_wdata s' = t_wdata s"
    "length (workers s') = length (workers s)"
    "\<And>i. i \<le> length (workers s) \<Longrightarrow> int i < cur_tasks s \<Longrightarrow> has_run s' i = has_run s i"
  shows "ran_calls s' = ran_calls s"
proof (cases "todo s")
  case (Cons n ns)
  then have "{i. i \<le> length (workers s) \<and> int i < snd n \<and> has_run s' i} = {i. i \<le> length (workers s) \<and> int i < snd n \<and> has_run s i}"
    using assms(6) by (cases n) (auto simp: cur_tasks_def)
  then show ?thesis using Cons by (simp add: ran_calls_def assms(1,2,5) blocks_cong [OF assms(3-5)])
qed (simp add: ran_calls_def assms(1))

lemma thread_pc_other: "i \<noteq> j \<Longrightarrow> pc_of (ne_graph_compute_thread j s) i = pc_of s i"
  by (auto simp: ne_graph_compute_thread_def pc_of_def goto_w_def set_worker_def Let_def split: worker_pc.split)

lemma thread_over_blocks [simp]: "over_blocks (ne_graph_compute_thread j s) = over_blocks s"
  by (cases "todo s") (simp_all add: over_blocks_def blocks_cong [of "ne_graph_compute_thread j s" s])

text \<open>The place of the worker that moves, as far as unfinished jobs are concerned.\<close>

lemma thread_pend:
  assumes inv: "ctl_inv s" and jobs: "jobs_ok s" and todo: "todo_ok s" and j: "j < length (workers s)" and h: "has_work s"
    and r: "pc_of s j \<noteq> W_Run"
  shows "pc_of (ne_graph_compute_thread j s) j \<in> pend_pcs \<longleftrightarrow> pc_of s j \<in> pend_pcs"
proof -
  have st: "\<not> stop s" and "pc_of s j \<in> allowed s" "flag_ok s" using inv j by (auto simp: ctl_inv_def places_ok_def main_ok_def)
  then have lv: "pc_of s j \<noteq> W_Leave" using h by (auto simp: allowed_def flag_ok_def pcs_defs split: main_pc.splits if_splits)
  have nd: "pc_of s j = W_Node \<Longrightarrow> w_node (workers s ! j) \<noteq> NULL"
    using working_node [OF working_job [OF inv jobs j] todo] by simp
  have pc: "pc_of (goto_w j l s') j = l" if "workers s' = workers s" for l s' using that j by simp
  show ?thesis
  proof (cases "pc_of s j")
    case W_Node
    then have "ne_graph_compute_thread j s = goto_w j W_Run s"
      using nd by (simp add: ne_graph_compute_thread_def pc_of_def)
    then show ?thesis using W_Node j by (simp add: pend_pcs_def)
  next
    case W_Reset
    then show ?thesis using j
      by (simp add: ne_graph_compute_thread_def pc_of_def goto_w_def set_worker_def pend_pcs_def)
  qed (use st h lv r j in \<open>simp_all add: ne_graph_compute_thread_def pc_of_def goto_w_def set_worker_def pend_pcs_def\<close>)
qed

lemma thread_ran:
  assumes inv: "ctl_inv s" and jobs: "jobs_ok s" and todo: "todo_ok s" and j: "j < length (workers s)"
    and i: "i < length (workers s)" and r: "pc_of s j \<noteq> W_Run"
  shows "worker_ran (ne_graph_compute_thread j s) i = worker_ran s i"
proof (cases "pc_of s j = W_Close")
  case True
  have "pc_of s j \<in> allowed s" using inv j by (simp add: ctl_inv_def places_ok_def)
  then have m: "m_pc s \<in> {M_Gather, J_Gather}" using True by (auto simp: allowed_def pcs_defs split: main_pc.splits if_splits)
  have "pc_of s i \<in> insert W_Close gather_pcs" using inv j i True by (cases "i = j") (auto simp: ctl_inv_def close_ok_def)
  then have "pc_of s i \<notin> pend_pcs" by (auto simp: gather_pcs_def pend_pcs_def)
  then show ?thesis using m True by (auto simp: worker_ran_def)
next
  case False
  have "has_work s \<Longrightarrow> pc_of (ne_graph_compute_thread j s) i \<in> pend_pcs \<longleftrightarrow> pc_of s i \<in> pend_pcs"
    using thread_pend [OF inv jobs todo j _ r] thread_pc_other [of i j s] by (cases "i = j") auto
  then show ?thesis using False by (cases "m_pc s") (auto simp: worker_ran_def)
qed

lemma calls_worker:
  assumes inv: "ctl_inv s" and jobs: "jobs_ok s" and todo: "todo_ok s" and c: "calls_ok ns s" and j: "j < length (workers s)"
  shows "calls_ok ns (ne_graph_compute_thread j s)" (is "calls_ok ns ?s")
proof (cases "pc_of s j = W_Run")
  case False
  have "has_run ?s i = has_run s i" if "i \<le> length (workers s)" for i
    using that thread_ran [OF inv jobs todo j _ False] by (cases i) (auto simp: has_run_def)
  then have "ran_calls ?s = ran_calls s" by (intro ran_calls_cong) auto
  moreover have "calls ?s = calls s"
    using False by (simp add: ne_graph_compute_thread_def set_worker_def pc_of_def Let_def split: worker_pc.splits)
  ultimately show ?thesis by (intro calls_same [OF c]) auto
next
  case True
  obtain p nt ns' where t: "todo s = (p, nt) # ns'" and w: "w_node (workers s ! j) = p"
    "w_params (workers s ! j) = call_params s (phase s) (int j + 1) nt"
    using working_job [OF inv jobs j] True by (auto simp: job_def split: list.splits)
  let ?c = "phase_call s (phase s) (p, nt)"
  have m: "has_work s" "m_pc s \<in> {M_Call, J_Arrive, J_Gather}" using working_launched [OF inv j] True by auto
  have pcj: "pc_of ?s j = W_Reset" using True j
    by (simp add: ne_graph_compute_thread_def pc_of_def goto_w_def set_worker_def Let_def)
  have ran: "has_run ?s i = (i = Suc j \<or> has_run s i)" for i
  proof (cases i)
    case (Suc k)
    have "W_Close \<noteq> W_Run" "W_Reset \<notin> pend_pcs" by (simp_all add: pend_pcs_def)
    then show ?thesis using m True pcj thread_pc_other [of k j s] Suc
      by (cases "k = j") (auto simp: has_run_def worker_ran_def)
  qed (use m in \<open>auto simp: has_run_def\<close>)
  have nran: "\<not> has_run s (Suc j)" using m True by (auto simp: has_run_def worker_ran_def pend_pcs_def)
  have calls: "calls ?s = calls s @ (if int (Suc j) < nt then [?c (Suc j)] else [])"
    using True w by (simp add: ne_graph_compute_thread_def pc_of_def Let_def call_params_def phase_call_def)
  obtain pre bs cur where cur: "ns = pre @ todo s" "calls s = concat bs @ cur"
    "same_blocks bs (concat (map (node_blocks s) pre) @ over_blocks s)" "distinct cur" "set cur = ran_calls s"
    using c by (auto simp: calls_ok_def)
  have "?c (Suc j) \<notin> set cur" using cur(5) t nran phase_call_inj by (auto simp: ran_calls_def inj_eq)
  moreover have "ran_calls ?s = ran_calls s \<union> (if int (Suc j) < nt then {?c (Suc j)} else {})"
    using t j blocks_cong [of ?s s] by (auto simp: ran_calls_def ran)
  ultimately show ?thesis unfolding calls_ok_def
    using cur calls blocks_cong [of ?s s] by (intro exI [of _ pre] exI [of _ bs] exI [of _ "cur @ (if int (Suc j) < nt then [?c (Suc j)] else [])"]) auto
qed

text \<open>The main thread: a phase is over when every thread has made its call.\<close>

definition phase_ok :: "ne_team \<Rightarrow> bool" where
  "phase_ok s \<longleftrightarrow> (m_pc s \<noteq> M_Init \<and> todo s \<noteq> [] \<longrightarrow> phase s \<in> {NE_TASK_COMPUTE, NE_TASK_FINALIZE})"

lemma ran_none:
  assumes "m_pc s \<in> {M_Init, M_Arrive, M_Stop, M_Done} \<or> m_pc s = M_Call \<and> cur_tasks s \<le> 1"
  shows "ran_calls s = {}"
proof (cases "todo s")
  case (Cons n ns)
  have "\<not> has_run s i" if "int i < snd n" for i
    using assms Cons that by (cases n; cases i) (auto simp: has_run_def worker_ran_def cur_tasks_def)
  then show ?thesis using Cons by (auto simp: ran_calls_def)
qed (simp add: ran_calls_def)

lemma calls_phase_over:
  assumes t: "todo s = n # ns'" and m: "m_pc s \<noteq> M_Init" and ph: "phase_ok s" and ns: "ns = pre @ todo s"
    and c: "calls s = concat bs @ cur" "same_blocks bs (concat (map (node_blocks s) pre) @ over_blocks s)" "distinct cur"
    and full: "set cur = phase_call s (phase s) n ` {i. i \<le> length (workers s) \<and> int i < snd n}"
  shows "calls_ok ns (next_phase (snd n) s)" (is "calls_ok ns ?s")
proof -
  let ?b = "phase_block s (phase s) n"
  have fr: "t_wsize ?s = t_wsize s" "t_wdata ?s = t_wdata s" "length (workers ?s) = length (workers s)" "calls ?s = calls s"
    by (simp_all add: next_phase_def)
  have r: "ran_calls ?s = {}" using t by (intro ran_none) (auto simp: next_phase_def cur_tasks_def split: prod.splits)
  have b: "same_blocks (bs @ [cur]) ((concat (map (node_blocks s) pre) @ over_blocks s) @ [?b])"
    by (rule same_blocks_snoc [OF c(2) phase_block_mset [OF c(3) full]])
  show ?thesis
  proof (cases "phase s = NE_TASK_COMPUTE")
    case True
    then have "over_blocks ?s = over_blocks s @ [?b]"
      using t m blocks_cong [OF fr(1-3)] by (auto simp: over_blocks_def next_phase_def)
    then show ?thesis unfolding calls_ok_def
      using b r fr(4) c(1) ns True blocks_cong [OF fr(1-3)]
      by (intro exI [of _ pre] exI [of _ "bs @ [cur]"] exI [of _ "[]"]) (auto simp: next_phase_def)
  next
    case False
    then have "over_blocks ?s = []" "over_blocks s @ [?b] = node_blocks s n"
      using t m ph by (auto simp: over_blocks_def next_phase_def node_blocks_def phase_ok_def split: list.splits)
    then show ?thesis unfolding calls_ok_def
      using b r fr(4) c(1) ns t False blocks_cong [OF fr(1-3)]
      by (intro exI [of _ "pre @ [n]"] exI [of _ "bs @ [cur]"] exI [of _ "[]"]) (auto simp: next_phase_def)
  qed
qed

lemma calls_okE:
  assumes "calls_ok ns s"
  obtains pre bs cur where "ns = pre @ todo s" "calls s = concat bs @ cur"
    "same_blocks bs (concat (map (node_blocks s) pre) @ over_blocks s)" "distinct cur" "set cur = ran_calls s"
  using assms unfolding calls_ok_def by blast

lemma calls_init:
  assumes c: "calls_ok ns s" and t: "todo s = (p, nt) # ns'" and m: "m_pc s = M_Init"
  shows "calls_ok ns (run_nodes_step p nt s)" (is "calls_ok ns ?s")
proof -
  obtain pre bs cur where cur: "ns = pre @ todo s" "calls s = concat bs @ cur"
    "same_blocks bs (concat (map (node_blocks s) pre) @ over_blocks s)" "set cur = ran_calls s"
    using c by (rule calls_okE)
  have "cur = []" using cur(4) ran_none [of s] m by simp
  have fr: "t_wsize ?s = t_wsize s" "t_wdata ?s = t_wdata s" "length (workers ?s) = length (workers s)"
    "calls ?s = calls s @ [phase_call s NE_TASK_INIT (p, nt) 0]" "todo ?s = todo s"
    using m by (simp_all add: run_nodes_step_def main_call_def phase_call_def)
  have r: "ran_calls ?s = {}" using m t by (intro ran_none) (auto simp: run_nodes_step_def main_call_def cur_tasks_def)
  have "over_blocks ?s = over_blocks s @ [[phase_call s NE_TASK_INIT (p, nt) 0]]"
    using t m blocks_cong [OF fr(1-3)] by (simp add: over_blocks_def run_nodes_step_def main_call_def)
  then show ?thesis unfolding calls_ok_def
    using same_blocks_snoc [OF cur(3), of "[phase_call s NE_TASK_INIT (p, nt) 0]"] cur \<open>cur = []\<close> r fr blocks_cong [OF fr(1-3)]
    by (intro exI [of _ pre] exI [of _ "bs @ [[phase_call s NE_TASK_INIT (p, nt) 0]]"] exI [of _ "[]"]) auto
qed

lemma main_call_blocks [simp]:
  "phase_call (main_call k p nt s) = phase_call s" "phase_block (main_call k p nt s) = phase_block s"
  "node_blocks (main_call k p nt s) = node_blocks s"
  using blocks_cong [of "main_call k p nt s" s] by (simp_all add: main_call_def)

lemma m_pc_blocks [simp]:
  "phase_call (s\<lparr>m_pc := m\<rparr>) = phase_call s" "phase_block (s\<lparr>m_pc := m\<rparr>) = phase_block s"
  "node_blocks (s\<lparr>m_pc := m\<rparr>) = node_blocks s"
  using blocks_cong [of "s\<lparr>m_pc := m\<rparr>" s] by simp_all

lemma calls_call:
  assumes c: "calls_ok ns s" and t: "todo s = (p, nt) # ns'" and m: "m_pc s = M_Call" and ph: "phase_ok s" and nt: "1 \<le> nt"
    and h: "1 < nt \<longrightarrow> has_work s"
  shows "calls_ok ns (run_nodes_step p nt s)"
proof -
  let ?c = "phase_call s (phase s) (p, nt)" and ?s = "main_call (phase s) p nt s"
  obtain pre bs cur where cur: "ns = pre @ todo s" "calls s = concat bs @ cur"
    "same_blocks bs (concat (map (node_blocks s) pre) @ over_blocks s)" "distinct cur" "set cur = ran_calls s"
    using c by (rule calls_okE)
  have fr: "t_wsize ?s = t_wsize s" "t_wdata ?s = t_wdata s" "length (workers ?s) = length (workers s)"
    "calls ?s = calls s @ [?c 0]" "todo ?s = todo s" "phase ?s = phase s" "m_pc ?s = m_pc s"
    by (simp_all add: main_call_def phase_call_def)
  have new: "?c 0 \<notin> set cur" using cur(5) t m phase_call_inj by (auto simp: ran_calls_def has_run_def inj_eq)
  have ob: "over_blocks ?s = over_blocks s" using t fr(5-7) by (simp add: over_blocks_def)
  show ?thesis
  proof (cases "1 < nt")
    case True
    let ?t = "?s\<lparr>m_pc := J_Arrive\<rparr>"
    have "has_run ?t i = (i = 0 \<or> has_run s i)" for i
      using m h True by (cases i) (auto simp: has_run_def worker_ran_def main_call_def)
    then have "ran_calls ?t = insert (?c 0) (ran_calls s)"
      using t nt fr by (auto simp: ran_calls_def)
    moreover have "over_blocks ?t = over_blocks s" using t m fr by (simp add: over_blocks_def)
    ultimately have "calls_ok ns ?t" unfolding calls_ok_def
      using cur new fr by (intro exI [of _ pre] exI [of _ bs] exI [of _ "cur @ [?c 0]"]) auto
    then show ?thesis using m True by (simp add: run_nodes_step_def Let_def)
  next
    case False
    then have "cur = []" using cur(5) ran_none [of s] m t by (simp add: cur_tasks_def)
    then have "calls_ok ns (next_phase (snd (p, nt)) ?s)"
      using cur(1-3) t m ph fr ob False nt blocks_cong [OF fr(1-3)]
      by (intro calls_phase_over [of _ _ ns' _ pre bs "[?c 0]"]) (auto simp: phase_ok_def)
    then show ?thesis using m False by (simp add: run_nodes_step_def Let_def)
  qed
qed

lemma launch_frame:
  "m_pc s = M_Launch k \<Longrightarrow> length (workers (run_nodes_step p nt s)) = length (workers s)"
  "m_pc s = M_Launch k \<Longrightarrow> m_pc (run_nodes_step p nt s) \<in> {M_Launch (Suc k), M_Leave}"
  by (simp_all add: run_nodes_step_def set_worker_def)

text \<open>The steps by which the main thread opens and closes the gate.\<close>

lemma calls_quiet:
  assumes inv: "ctl_inv s" and c: "calls_ok ns s" and t: "todo s = (p, nt) # ns'" and m: "m_pc s \<notin> {M_Init, M_Call, J_Drain}"
  shows "calls_ok ns (run_nodes_step p nt s)" (is "calls_ok ns ?s")
proof -
  have fr: "t_wsize ?s = t_wsize s" "t_wdata ?s = t_wdata s" "length (workers ?s) = length (workers s)" "calls ?s = calls s"
    "todo ?s = todo s" "phase ?s = phase s" "m_pc ?s \<noteq> M_Init"
    using m by (auto simp: run_nodes_step_def set_worker_def split: main_pc.splits)
  have fl: "flag_ok s" and "places_ok s" using inv by (auto simp: ctl_inv_def main_ok_def)
  then have pl: "i < length (workers s) \<Longrightarrow> pc_of s i \<in> allowed s" for i by (simp add: places_ok_def)
  have "worker_ran ?s i = worker_ran s i" if i: "i < length (workers s)" for i
  proof (cases "m_pc s")
    case M_Open
    then show ?thesis using pl [OF i] by (auto simp: worker_ran_def run_nodes_step_def allowed_def wait_pcs_def pend_pcs_def)
  next
    case J_Arrive
    have "pc_of s i \<notin> pend_pcs" if "n_ready s = t_threads s - 1"
      using all_gathered [OF inv that] J_Arrive i by (force simp: gather_pcs_def pend_pcs_def)
    then show ?thesis using J_Arrive fl by (auto simp: worker_ran_def run_nodes_step_def flag_ok_def)
  next
    case (M_Launch k)
    then show ?thesis using launch_frame(2) [OF M_Launch, of p nt] by (auto simp: worker_ran_def)
  qed (use m fl in \<open>auto simp: worker_ran_def run_nodes_step_def flag_ok_def\<close>)
  moreover have "has_run ?s 0 = has_run s 0"
    using m by (auto simp: has_run_def run_nodes_step_def split: main_pc.splits)
  ultimately have "has_run ?s i = has_run s i" if "i \<le> length (workers s)" for i
    using that by (cases i) (auto simp: has_run_def)
  then have "ran_calls ?s = ran_calls s" using fr by (intro ran_calls_cong) auto
  moreover have "over_blocks ?s = over_blocks s"
    using t fr(5-7) m blocks_cong [OF fr(1-3)] by (simp add: over_blocks_def)
  ultimately show ?thesis using fr by (intro calls_same [OF c]) auto
qed

lemma calls_main:
  assumes inv: "ctl_inv s" and c: "calls_ok ns s" and t: "todo s = (p, nt) # ns'" and ph: "phase_ok s" and td: "todo_ok s"
  shows "calls_ok ns (run_nodes_step p nt s)"
proof (cases "m_pc s = J_Drain \<and> n_ready s = 0")
  case True
  obtain pre bs cur where cur: "ns = pre @ todo s" "calls s = concat bs @ cur"
    "same_blocks bs (concat (map (node_blocks s) pre) @ over_blocks s)" "distinct cur" "set cur = ran_calls s"
    using c by (rule calls_okE)
  have "has_run s i" for i using True by (cases i) (auto simp: has_run_def worker_ran_def)
  then have "calls_ok ns (next_phase (snd (p, nt)) s)"
    using True t ph cur by (intro calls_phase_over [of s _ ns' _ pre bs cur]) (auto simp: ran_calls_def)
  then show ?thesis using True by (simp add: run_nodes_step_def)
next
  case False
  consider "m_pc s = M_Init" | "m_pc s = M_Call" | "m_pc s = J_Drain" | "m_pc s \<notin> {M_Init, M_Call, J_Drain}" by blast
  then show ?thesis
  proof cases
    case 1
    then show ?thesis by (rule calls_init [OF c t])
  next
    case 2
    then show ?thesis using calls_call [OF c t 2 ph] inv t td
      by (auto simp: todo_ok_def ctl_inv_def main_ok_def flag_ok_def cur_tasks_def)
  next
    case 3
    then show ?thesis using False c by (simp add: run_nodes_step_def)
  next
    case 4
    then show ?thesis by (rule calls_quiet [OF inv c t])
  qed
qed

lemma phase_main: "phase_ok s \<Longrightarrow> todo s = (p, nt) # ns' \<Longrightarrow> phase_ok (run_nodes_step p nt s)"
  by (auto simp: phase_ok_def run_nodes_step_def main_call_def next_phase_def set_worker_def Let_def split: main_pc.splits)

section \<open>The invariant of a team\<close>

definition team_inv :: "(ptr \<times> int) list \<Rightarrow> ne_team \<Rightarrow> bool" where
  "team_inv ns s \<longleftrightarrow> todo_ok s \<and> phase_ok s \<and> jobs_ok s \<and> calls_ok ns s \<and> (ctl_inv s \<or> stop_inv s \<or> solo_inv s)"

lemma quiet_thread:
  assumes "pc_of s j \<in> gate_pcs \<union> idle_pcs"
  shows "calls (ne_graph_compute_thread j s) = calls s"
    "w_node (workers (ne_graph_compute_thread j s) ! i) = w_node (workers s ! i)"
  using assms by (auto simp: ne_graph_compute_thread_def pc_of_def gate_pcs_def idle_pcs_def Let_def)

lemma team_worker:
  assumes inv: "team_inv ns s" and j: "j < length (workers s)"
  shows "team_inv ns (ne_graph_compute_thread j s)" (is "team_inv ns ?s")
proof -
  have i: "todo_ok s" "phase_ok s" "jobs_ok s" "calls_ok ns s" and c: "ctl_inv s \<or> stop_inv s"
    using inv j by (auto simp: team_inv_def solo_inv_def)
  have tp: "todo_ok ?s" "phase_ok ?s" using i(1,2) by (simp_all add: todo_ok_def phase_ok_def)
  show ?thesis
  proof (cases "ctl_inv s")
    case True
    have "pc_of s j = W_Node \<longrightarrow> w_node (workers s ! j) \<noteq> NULL"
      using working_node [OF working_job [OF True i(3) j] i(1)] by simp
    then show ?thesis using ctl_worker [OF True j] jobs_worker [OF True i(3,1) j] calls_worker [OF True i(3,1,4) j] tp
      by (simp add: team_inv_def)
  next
    case False
    then have st: "stop_inv s" using c by blast
    then have q: "pc_of s j \<in> gate_pcs \<union> idle_pcs" using j by (auto simp: stop_inv_def stop_places_def)
    have td: "todo s = []" using st by (simp add: stop_inv_def)
    have nl: "\<not> launched s k" for k using st by (auto simp: stop_inv_def launched_def)
    have "jobs_ok ?s" using i(3) nl st quiet_thread(2) [OF q] by (auto simp: jobs_ok_def launched_def stop_inv_def)
    moreover have "calls_ok ns ?s"
      using quiet_thread(1) [OF q] td by (intro calls_same [OF i(4)]) (auto simp: ran_calls_def)
    ultimately show ?thesis using stop_worker [OF st j] tp by (simp add: team_inv_def)
  qed
qed

lemma todo_main:
  "todo s = n # ns' \<Longrightarrow> todo (run_nodes_step p nt s) \<in> {n # ns', ns'}"
  by (auto simp: run_nodes_step_def main_call_def next_phase_def set_worker_def Let_def split: main_pc.splits)

lemma solo_main:
  assumes inv: "solo_inv s" and t: "todo s = (p, nt) # ns'"
  shows "solo_inv (run_nodes_step p nt s)"
  using inv t by (cases "phase s = NE_TASK_COMPUTE") (auto simp: solo_inv_def run_nodes_step_def main_call_def next_phase_def Let_def)

lemma solo_calls:
  assumes inv: "solo_inv s" and t: "todo s = (p, nt) # ns'" and i: "todo_ok s" "phase_ok s" "calls_ok ns s"
  shows "calls_ok ns (run_nodes_step p nt s)"
proof -
  have nt: "nt = 1" using inv t i(1) by (auto simp: solo_inv_def todo_ok_def)
  have "m_pc s = M_Init \<or> m_pc s = M_Call" using inv t by (auto simp: solo_inv_def)
  then show ?thesis using calls_init [OF i(3) t] calls_call [OF i(3) t _ i(2)] nt by auto
qed

text \<open>Behind the last node nothing but the joining of the pool is left.\<close>

lemma team_end:
  assumes inv: "team_inv ns s" and t: "todo s = []"
  shows "team_inv ns (main_step s)" (is "team_inv ns ?s")
proof -
  have i: "todo_ok s" "phase_ok s" "jobs_ok s" "calls_ok ns s" and c: "ctl_inv s \<or> stop_inv s \<or> solo_inv s"
    using inv by (auto simp: team_inv_def)
  have fr: "t_wsize ?s = t_wsize s" "t_wdata ?s = t_wdata s" "workers ?s = workers s" "calls ?s = calls s" "todo ?s = []"
    using t by (auto simp: main_step_def join_step_def split: main_pc.splits)
  have l: "\<not> launched s j \<and> \<not> launched ?s j" for j
    using c t by (auto simp: ctl_inv_def main_ok_def stop_inv_def solo_inv_def launched_def main_step_def join_step_def
        split: main_pc.splits)
  have "jobs_ok ?s" by (rule jobs_none [OF i(3) fr(3)]) (use l in blast)
  moreover have "calls_ok ns ?s"
    using fr t by (intro calls_same [OF i(4)]) (auto simp: over_blocks_def ran_calls_def)
  moreover have "ctl_inv ?s \<or> stop_inv ?s \<or> solo_inv ?s"
  proof -
    consider "ctl_inv s" "m_pc s = M_Init" | "ctl_inv s" "m_pc s = M_Stop" | "stop_inv s" | "solo_inv s"
      using c t by (auto simp: ctl_inv_def main_ok_def)
    then show ?thesis
    proof cases
      case 1
      then have "1 < t_threads s" using 1 by (auto simp: ctl_inv_def main_ok_def)
      then have "ctl_inv ?s" using 1 t
        by (simp add: main_step_def ctl_inv_def ctl_defs flag_ok_def allowed_def main_in_def image_iff)
      then show ?thesis ..
    next
      case 2
      then show ?thesis using stop_stops [OF 2] t by (simp add: main_step_def)
    next
      case 3
      then have "m_pc s \<noteq> M_Init" by (auto simp: stop_inv_def)
      then show ?thesis using stop_join [OF 3] t by (simp add: main_step_def)
    next
      case 4
      then show ?thesis using t by (auto simp: solo_inv_def main_step_def join_step_def)
    qed
  qed
  ultimately show ?thesis using fr(5) by (simp add: team_inv_def todo_ok_def phase_ok_def)
qed

lemma team_main:
  assumes inv: "team_inv ns s"
  shows "team_inv ns (main_step s)"
proof (cases "todo s")
  case Nil
  then show ?thesis by (rule team_end [OF inv])
next
  case (Cons n ns')
  obtain p nt where n: "n = (p, nt)" by (cases n)
  note t = Cons [unfolded n]
  have i: "todo_ok s" "phase_ok s" "jobs_ok s" "calls_ok ns s" and c: "ctl_inv s \<or> solo_inv s"
    using inv t by (auto simp: team_inv_def stop_inv_def)
  have tp: "todo_ok (run_nodes_step p nt s)" "phase_ok (run_nodes_step p nt s)"
    using todo_main [OF t, of p nt] i(1) t phase_main [OF i(2) t] by (auto simp: todo_ok_def)
  show ?thesis
  proof (cases "ctl_inv s")
    case True
    then show ?thesis
      using ctl_main [OF True t] jobs_main [OF True i(3) t] calls_main [OF True i(4) t i(2,1)] tp t
      by (simp add: team_inv_def main_step_def)
  next
    case False
    then have so: "solo_inv s" using c by blast
    then have "jobs_ok (run_nodes_step p nt s)" using solo_main [OF so t] by (simp add: jobs_ok_def solo_inv_def)
    then show ?thesis using solo_main [OF so t] solo_calls [OF so t i(1,2,4)] tp t
      by (simp add: team_inv_def main_step_def)
  qed
qed

text \<open>A team may start on a list of nodes whose task counts fit the number of threads.\<close>

definition good_start :: "(ptr \<times> int) list \<Rightarrow> ne_team \<Rightarrow> bool" where
  "good_start ns s \<longleftrightarrow> (\<exists>n wsz wdat. s = team_start n wsz wdat ns \<and> 1 \<le> n \<and>
     (\<forall>(p, nt) \<in> set ns. p \<noteq> NULL \<and> 1 \<le> nt \<and> nt \<le> n))"

lemma team_inv_start:
  assumes "good_start ns s"
  shows "team_inv ns s"
proof -
  obtain n wsz wdat where s: "s = team_start n wsz wdat ns" and n: "1 \<le> n"
    and ns: "\<forall>(p, nt) \<in> set ns. p \<noteq> NULL \<and> 1 \<le> nt \<and> nt \<le> n" using assms by (auto simp: good_start_def)
  have b: "todo_ok s" "phase_ok s" "jobs_ok s" "calls_ok ns s"
    using ns by (auto simp: s team_start_def todo_ok_def phase_ok_def jobs_ok_def launched_def calls_ok_def same_blocks_def
        over_blocks_def ran_none split: list.splits)
  have pc: "j < nat (n - 1) \<Longrightarrow> pc_of s j = W_Arrive" for j by (simp add: s team_start_def pc_of_def)
  have c: "ctl_inv s" if "1 < n"
    using that pc by (auto simp: ctl_inv_def ctl_defs flag_ok_def allowed_def main_in_def num_def s team_start_def pcs_defs)
  have "solo_inv s" if "\<not> 1 < n" using that n ns by (auto simp: solo_inv_def s team_start_def)
  with b c show ?thesis by (cases "1 < n") (simp_all add: team_inv_def)
qed

lemma team_inv_step: "team_inv ns s \<Longrightarrow> team_step s t \<Longrightarrow> team_inv ns t"
  by (auto elim!: team_stepE intro: team_main team_worker)

interpretation team: inv_system "good_start ns" team_step "team_inv ns" for ns
  by unfold_locales (fact team_inv_start, fact team_inv_step)

section \<open>Progress\<close>

text \<open>
  The main thread's distance to the end; the distance of a worker to the point where the main
  thread waits for it depends on the flags. In every state but the last some step decreases the
  distances in lexicographic order: what looks like waiting never blocks.
\<close>

definition phase_rank :: "nat \<Rightarrow> main_pc \<Rightarrow> nat" where
  "phase_rank n m =
     (case m of M_Arrive \<Rightarrow> n + 13 | M_Close \<Rightarrow> n + 12 | M_Gather \<Rightarrow> n + 11 | M_Launch k \<Rightarrow> (n - k) + 10 | M_Leave \<Rightarrow> 9
      | M_Drain \<Rightarrow> 8 | M_Open \<Rightarrow> 7 | M_Call \<Rightarrow> 6 | J_Arrive \<Rightarrow> 5 | J_Close \<Rightarrow> 4 | J_Gather \<Rightarrow> 3 | J_Leave \<Rightarrow> 2 | J_Drain \<Rightarrow> 1
      | _ \<Rightarrow> 0)"

definition main_rank :: "ne_team \<Rightarrow> nat" where
  "main_rank s =
     (let n = length (workers s) in
      case todo s of
        [] \<Rightarrow> (case m_pc s of M_Init \<Rightarrow> n + 5 | M_Stop \<Rightarrow> n + 4 | M_Wake \<Rightarrow> n + 3 | M_Join k \<Rightarrow> (n - k) + 1 | _ \<Rightarrow> 0)
      | _ # ns \<Rightarrow> n + 6 + length ns * (2 * n + 29) +
          (if m_pc s = M_Init then 2 * n + 29
           else (if phase s = NE_TASK_COMPUTE then n + 14 else 0) + phase_rank n (m_pc s)))"

definition worker_rank :: "bool \<Rightarrow> bool \<Rightarrow> worker_pc \<Rightarrow> nat" where
  "worker_rank st h l =
     (if st then (case l of W_Arrive \<Rightarrow> 3 | W_Gather \<Rightarrow> 2 | W_Wait \<Rightarrow> 2 | W_Gather_Stop \<Rightarrow> 1 | W_Wait_Stop \<Rightarrow> 1 | W_Check_Stop \<Rightarrow> 1 | _ \<Rightarrow> 0)
      else if h then (case l of W_Wait_Stop \<Rightarrow> 9 | W_Wait \<Rightarrow> 8 | W_Check_Stop \<Rightarrow> 7 | W_Node \<Rightarrow> 6 | W_Run \<Rightarrow> 5 | W_Reset \<Rightarrow> 4
        | W_Arrive \<Rightarrow> 3 | W_Close \<Rightarrow> 2 | _ \<Rightarrow> 0)
      else (case l of W_Gather_Stop \<Rightarrow> 4 | W_Gather \<Rightarrow> 3 | W_Leave \<Rightarrow> 2 | _ \<Rightarrow> 0))"

definition work_rank :: "ne_team \<Rightarrow> nat" where
  "work_rank s = (\<Sum>j < length (workers s). worker_rank (stop s) (has_work s) (pc_of s j))"

definition closer :: "(ne_team \<times> ne_team) set" where
  "closer = measures [main_rank, \<lambda>s. of_bool (has_work s), work_rank]"

lemma wf_closer: "wf closer"
  by (simp add: closer_def)

lemma main_closer: "main_rank (main_step s) < main_rank s \<Longrightarrow> (main_step s, s) \<in> closer"
  by (simp add: closer_def)

lemma thread_main_rank [simp]: "main_rank (ne_graph_compute_thread j s) = main_rank s"
  by (cases "todo s") (simp_all add: main_rank_def Let_def)

lemma thread_stop [simp]: "stop (ne_graph_compute_thread j s) = stop s"
  by (simp add: ne_graph_compute_thread_def set_worker_def Let_def split: worker_pc.split)

lemma thread_closer:
  assumes j: "j < length (workers s)"
    and r: "pc_of s j \<noteq> W_Close \<Longrightarrow>
      worker_rank (stop s) (has_work s) (pc_of (ne_graph_compute_thread j s) j) < worker_rank (stop s) (has_work s) (pc_of s j)"
    and h: "pc_of s j = W_Close \<Longrightarrow> has_work s"
  shows "(ne_graph_compute_thread j s, s) \<in> closer"
proof (cases "pc_of s j = W_Close")
  case True
  then show ?thesis using h by (simp add: closer_def)
next
  case False
  let ?f = "\<lambda>t i. worker_rank (stop s) (has_work s) (pc_of t i)"
  have "(\<Sum>i < length (workers s). ?f (ne_graph_compute_thread j s) i) < (\<Sum>i < length (workers s). ?f s i)"
  proof (rule sum_strict_mono_ex1)
    show "\<forall>i \<in> {..<length (workers s)}. ?f (ne_graph_compute_thread j s) i \<le> ?f s i"
      using r [OF False] by (metis less_imp_le order_refl thread_pc_other)
    show "\<exists>i \<in> {..<length (workers s)}. ?f (ne_graph_compute_thread j s) i < ?f s i" using j r [OF False] by blast
  qed simp
  then show ?thesis using False by (simp add: closer_def work_rank_def)
qed

text \<open>The main thread gets on unless it waits for the gate, for the counter or for a worker to end.\<close>

lemma main_moves:
  assumes t: "todo s = (p, nt) # ns" and m: "m_pc s \<notin> {M_Stop, M_Wake, M_Done} \<union> range M_Join" and ph: "phase_ok s"
    and w: "t_threads s = int (length (workers s)) + 1" "1 < nt \<or> m_pc s \<in> {M_Init, M_Call}"
    and b: "m_pc s \<in> {M_Gather, J_Gather} \<Longrightarrow> \<not> has_work s" "m_pc s \<in> {M_Drain, J_Drain} \<Longrightarrow> n_ready s = 0"
  shows "(main_step s, s) \<in> closer"
proof (rule main_closer)
  have p: "m_pc s \<noteq> M_Init \<Longrightarrow> phase s = NE_TASK_COMPUTE \<or> phase s = NE_TASK_FINALIZE"
    using ph t by (auto simp: phase_ok_def)
  show "main_rank (main_step s) < main_rank s"
  proof (cases "m_pc s")
    case M_Call
    then show ?thesis using t p
      by (cases ns) (auto simp: main_step_def run_nodes_step_def main_rank_def phase_rank_def main_call_def next_phase_def Let_def)
  next
    case J_Drain
    then show ?thesis using t p b(2) w(2)
      by (cases ns) (auto simp: main_step_def run_nodes_step_def main_rank_def phase_rank_def next_phase_def Let_def)
  qed (use t m b w in \<open>auto simp: main_step_def run_nodes_step_def main_rank_def phase_rank_def main_call_def set_worker_def Let_def\<close>)
qed

text \<open>While the gate is open, the worker that is still to come moves on.\<close>

lemma gate_moves:
  assumes inv: "ctl_inv s" and jobs: "jobs_ok s" and todo: "todo_ok s" and m: "m_pc s \<in> {M_Gather, J_Gather}" and h: "has_work s"
  shows "\<exists>j < length (workers s). (ne_graph_compute_thread j s, s) \<in> closer"
proof -
  obtain j where j: "j < length (workers s)" "pc_of s j \<notin> gather_pcs"
    using inv m h by (auto simp: ctl_inv_def last_ok_def)
  have st: "\<not> stop s" and "pc_of s j \<in> allowed s" using inv j by (auto simp: ctl_inv_def main_ok_def places_ok_def)
  then have al: "pc_of s j \<in> {W_Arrive, W_Close, W_Wait, W_Wait_Stop, W_Check_Stop, W_Node, W_Run, W_Reset}"
    using j(2) m h by (auto simp: allowed_def pcs_defs)
  have nd: "pc_of s j = W_Node \<Longrightarrow> w_node (workers s ! j) \<noteq> NULL"
    using working_node [OF working_job [OF inv jobs j(1)] todo] by simp
  have "(ne_graph_compute_thread j s, s) \<in> closer"
    by (rule thread_closer [OF j(1)])
       (use al st h nd j in \<open>auto simp: ne_graph_compute_thread_def worker_rank_def pc_of_def goto_w_def set_worker_def Let_def\<close>)
  with j show ?thesis by blast
qed

text \<open>While the counter is positive, a worker that has arrived moves on.\<close>

lemma drain_moves:
  assumes inv: "ctl_inv s" and m: "m_pc s \<in> {M_Drain, J_Drain}" and n: "n_ready s \<noteq> 0"
  shows "\<exists>j < length (workers s). (ne_graph_compute_thread j s, s) \<in> closer"
proof -
  have "num (\<lambda>w. w_pc w \<in> ready_pcs) (workers s) \<noteq> 0" using inv m n by (auto simp: ctl_inv_def count_ok_def main_in_def)
  then obtain j where j: "j < length (workers s)" "pc_of s j \<in> ready_pcs" by (auto simp: num_zero_iff pc_of_def)
  have st: "\<not> stop s" and h: "\<not> has_work s" and "pc_of s j \<in> allowed s"
    using inv j m by (auto simp: ctl_inv_def main_ok_def places_ok_def flag_ok_def)
  then have al: "pc_of s j \<in> {W_Gather, W_Gather_Stop, W_Leave}" using j(2) m by (auto simp: allowed_def pcs_defs)
  have "(ne_graph_compute_thread j s, s) \<in> closer"
    by (rule thread_closer [OF j(1)])
       (use al st h j in \<open>auto simp: ne_graph_compute_thread_def worker_rank_def pc_of_def goto_w_def set_worker_def Let_def\<close>)
  with j show ?thesis by blast
qed

text \<open>After \<^verbatim>\<open>stop\<close>, every worker that has not returned moves on.\<close>

lemma stop_moves:
  assumes inv: "stop_inv s" and j: "j < length (workers s)" and d: "pc_of s j \<noteq> W_Done"
  shows "(ne_graph_compute_thread j s, s) \<in> closer"
proof (rule thread_closer [OF j])
  have st: "stop s" and pl: "pc_of s j \<in> gate_pcs \<and> has_work s \<or> pc_of s j \<in> idle_pcs"
    using inv j by (auto simp: stop_inv_def stop_places_def)
  have "pc_of s j = W_Arrive \<Longrightarrow> num (\<lambda>w. w_pc w = W_Arrive) (workers s) \<noteq> 0" using j by (auto simp: num_zero_iff pc_of_def)
  then have ar: "pc_of s j = W_Arrive \<Longrightarrow> n_ready s \<noteq> t_threads s - 1"
    using inv num_bounds(1) [of "\<lambda>w. w_pc w = W_Arrive" "workers s"] by (auto simp: stop_inv_def)
  show "worker_rank (stop s) (has_work s) (pc_of (ne_graph_compute_thread j s) j) < worker_rank (stop s) (has_work s) (pc_of s j)"
    using st pl ar d j
    by (auto simp: ne_graph_compute_thread_def worker_rank_def pc_of_def goto_w_def set_worker_def Let_def gate_pcs_def idle_pcs_def)
  show "pc_of s j = W_Close \<Longrightarrow> has_work s" using pl by (auto simp: gate_pcs_def idle_pcs_def)
qed

lemma end_moves:
  assumes inv: "team_inv ns s" and t: "todo s = []" and m: "m_pc s \<noteq> M_Done"
  shows "\<exists>t. team_step s t \<and> (t, s) \<in> closer"
proof (cases "\<exists>k. m_pc s = M_Join k \<and> k < length (workers s) \<and> pc_of s k \<noteq> W_Done")
  case True
  then obtain k where k: "m_pc s = M_Join k" "k < length (workers s)" "pc_of s k \<noteq> W_Done" by blast
  then have "stop_inv s" using inv by (auto simp: team_inv_def ctl_inv_def main_ok_def solo_inv_def)
  then show ?thesis using stop_moves [of s k] k team_step.worker [of k s] by blast
next
  case False
  have "m_pc s \<in> {M_Init, M_Stop, M_Wake} \<union> range M_Join" "t_threads s = int (length (workers s)) + 1"
    using inv t m by (auto simp: team_inv_def ctl_inv_def main_ok_def stop_inv_def solo_inv_def)
  then have "main_rank (main_step s) < main_rank s"
    using t False by (auto simp: main_step_def join_step_def main_rank_def Let_def pc_of_def)
  then show ?thesis using main_closer team_step.main by blast
qed

lemma team_progress:
  assumes inv: "team_inv ns s" and m: "m_pc s \<noteq> M_Done"
  shows "\<exists>t. team_step s t \<and> (t, s) \<in> closer"
proof (cases "todo s")
  case Nil
  then show ?thesis by (rule end_moves [OF inv _ m])
next
  case (Cons n ns')
  obtain p nt where n: "n = (p, nt)" by (cases n)
  note t = Cons [unfolded n]
  have i: "todo_ok s" "phase_ok s" "jobs_ok s" and c: "ctl_inv s \<or> solo_inv s"
    using inv t by (auto simp: team_inv_def stop_inv_def)
  show ?thesis
  proof (cases "ctl_inv s \<and> (m_pc s \<in> {M_Gather, J_Gather} \<and> has_work s \<or> m_pc s \<in> {M_Drain, J_Drain} \<and> n_ready s \<noteq> 0)")
    case True
    then show ?thesis using gate_moves [OF _ i(3,1)] drain_moves team_step.worker by meson
  next
    case False
    have "m_pc s \<notin> {M_Stop, M_Wake, M_Done} \<union> range M_Join" "t_threads s = int (length (workers s)) + 1"
      "1 < nt \<or> m_pc s \<in> {M_Init, M_Call}"
      using c t m by (auto simp: ctl_inv_def main_ok_def solo_inv_def cur_tasks_def)
    then have "(main_step s, s) \<in> closer"
      by (rule main_moves [OF t _ i(2)]) (use False c in \<open>auto simp: solo_inv_def\<close>)
    then show ?thesis using team_step.main by blast
  qed
qed

lemma team_can_end: "team_inv ns s \<Longrightarrow> \<exists>t. team_step\<^sup>*\<^sup>* s t \<and> m_pc t = M_Done"
proof (induction s rule: wf_induct_rule [OF wf_closer])
  case (1 s)
  show ?case
  proof (cases "m_pc s = M_Done")
    case False
    then obtain u where u: "team_step s u" "(u, s) \<in> closer" using team_progress 1(2) by blast
    then obtain t where "team_step\<^sup>*\<^sup>* u t" "m_pc t = M_Done" using 1 team_inv_step by blast
    with u show ?thesis by (meson converse_rtranclp_into_rtranclp)
  qed blast
qed

section \<open>The critical section of the context table\<close>

text \<open>
  \<^verbatim>\<open>ne_critical_section_start\<close> adds one to the barrier and, while another thread was counted,
  takes it back and tries again; \<^verbatim>\<open>ne_critical_section_end\<close> takes it back. \<open>C_Start\<close> is a thread
  that may call the former, \<open>C_Retry\<close> one that is about to try again.
\<close>

datatype crit_pc = C_Start | C_Back | C_Retry | C_In

record crit_state =
  g_state_barrier :: int
  threads :: "crit_pc list"

definition ne_critical_section_start :: "nat \<Rightarrow> crit_state \<Rightarrow> crit_state" where
  "ne_critical_section_start j s =
     (case threads s ! j of
        C_Back \<Rightarrow> s\<lparr>g_state_barrier := g_state_barrier s - 1, threads := (threads s)[j := C_Retry]\<rparr>
      | C_In \<Rightarrow> s
      | _ \<Rightarrow> s\<lparr>g_state_barrier := g_state_barrier s + 1,
               threads := (threads s)[j := if 0 < g_state_barrier s then C_Back else C_In]\<rparr>)"

definition ne_critical_section_end :: "nat \<Rightarrow> crit_state \<Rightarrow> crit_state" where
  "ne_critical_section_end j s = s\<lparr>g_state_barrier := g_state_barrier s - 1, threads := (threads s)[j := C_Start]\<rparr>"

inductive crit_step :: "crit_state \<Rightarrow> crit_state \<Rightarrow> bool" where
  enter: "j < length (threads s) \<Longrightarrow> threads s ! j \<noteq> C_In \<Longrightarrow> crit_step s (ne_critical_section_start j s)"
| leave: "j < length (threads s) \<Longrightarrow> threads s ! j = C_In \<Longrightarrow> crit_step s (ne_critical_section_end j s)"

definition crit_start :: "crit_state \<Rightarrow> bool" where
  "crit_start s \<longleftrightarrow> g_state_barrier s = 0 \<and> set (threads s) \<subseteq> {C_Start}"

definition crit_inv :: "crit_state \<Rightarrow> bool" where
  "crit_inv s \<longleftrightarrow> g_state_barrier s = num (\<lambda>c. c \<in> {C_Back, C_In}) (threads s) \<and> num (\<lambda>c. c = C_In) (threads s) \<le> 1"

lemma crit_inv_start: "crit_start s \<Longrightarrow> crit_inv s"
proof -
  assume s: "crit_start s"
  have "num (\<lambda>c. c \<in> A) (threads s) = 0" if "C_Start \<notin> A" for A
    using s that by (auto simp: crit_start_def num_def filter_empty_conv)
  from this [of "{C_Back, C_In}"] this [of "{C_In}"] s show "crit_inv s" by (simp add: crit_start_def crit_inv_def)
qed

lemma crit_enter:
  assumes "crit_inv s" "j < length (threads s)" "threads s ! j \<noteq> C_In"
  shows "crit_inv (ne_critical_section_start j s)"
proof (cases "threads s ! j = C_Back \<or> 0 < g_state_barrier s")
  case True
  then show ?thesis using assms
    by (cases "threads s ! j") (auto simp: crit_inv_def ne_critical_section_start_def num_update)
next
  case False
  then have "num (\<lambda>c. c \<in> {C_Back, C_In}) (threads s) = 0"
    using assms num_bounds(1) [of "\<lambda>c. c \<in> {C_Back, C_In}" "threads s"] unfolding crit_inv_def by linarith
  moreover have "num (\<lambda>c. c = C_In) (threads s) = 0" using calculation by (auto simp: num_zero_iff)
  ultimately show ?thesis using assms False
    by (cases "threads s ! j") (auto simp: crit_inv_def ne_critical_section_start_def num_update)
qed

lemma crit_inv_step:
  assumes "crit_inv s" "crit_step s t"
  shows "crit_inv t"
  using assms(2)
proof cases
  case (enter j)
  then show ?thesis using crit_enter [OF assms(1)] by simp
next
  case (leave j)
  then show ?thesis using assms(1) by (simp add: crit_inv_def ne_critical_section_end_def num_update)
qed

interpretation crit: inv_system crit_start crit_step crit_inv
  by unfold_locales (fact crit_inv_start, fact crit_inv_step)

section \<open>Properties\<close>

lemma team_constant:
  assumes "team_step\<^sup>*\<^sup>* s t"
  shows "t_wsize t = t_wsize s \<and> t_wdata t = t_wdata s \<and> t_threads t = t_threads s \<and> length (workers t) = length (workers s)"
  using assms
proof induction
  case (step t u)
  have "t_wsize (main_step t) = t_wsize t \<and> t_wdata (main_step t) = t_wdata t \<and> t_threads (main_step t) = t_threads t \<and>
      length (workers (main_step t)) = length (workers t)"
    by (auto simp: main_step_def run_nodes_step_def join_step_def main_call_def next_phase_def set_worker_def Let_def
        split: list.splits main_pc.splits)
  with step show ?case by (auto elim!: team_stepE)
qed simp

lemma node_blocks_calls:
  assumes "1 \<le> n_tasks t" "length (workers s) = nat (n - 1)" "1 \<le> n"
  shows "node_blocks s (p, n_tasks t) = map (map (Pair p)) (node_calls (nat n) (t_wsize s) (t_wdata s) t)"
proof -
  have n: "Suc (length (workers s)) = nat n" using assms(2,3) by simp
  have "filter (\<lambda>i. int i < 1) [0..<nat n] = [0]" using assms(3) by (simp add: upt_conv_Cons)
  then show ?thesis
    by (auto simp: node_blocks_def node_calls_def phase_block_def phase_call_def call_params_def n Let_def simp del: upt_Suc)
qed

lemma good_start_map:
  assumes "1 \<le> n" "\<forall>p \<in> set ps. p \<noteq> NULL \<and> 1 \<le> n_tasks (ts p) \<and> n_tasks (ts p) \<le> n"
  shows "good_start (map (\<lambda>p. (p, n_tasks (ts p))) ps) (team_start n wsz wdat (map (\<lambda>p. (p, n_tasks (ts p))) ps))"
  using assms by (auto simp: good_start_def)

lemma team_done:
  assumes "team_inv ns s" "m_pc s = M_Done"
  shows "todo s = [] \<and> (\<forall>w \<in> set (workers s). w_pc w = W_Done)"
  using assms
  by (auto simp: team_inv_def ctl_inv_def main_ok_def stop_inv_def stop_joined_def solo_inv_def pc_of_def all_set_conv_all_nth)

text \<open>Two threads and one node of two tasks: the start, and a state in which the pool is being launched.\<close>

definition demo_ts :: "ptr \<Rightarrow> ne_tensor" where
  "demo_ts p = (the (demo_plan_t 48))\<lparr>n_tasks := 2\<rparr>"

definition demo_team :: ne_team where
  "demo_team = team_start 2 0 0 (map (\<lambda>p. (p, n_tasks (demo_ts p))) [48])"

definition demo_launch :: ne_team where
  "demo_launch = main_step (ne_graph_compute_thread 0 (ne_graph_compute_thread 0 (main_step (main_step demo_team))))"

lemma demo_tasks: "n_tasks (demo_ts p) = 2"
  by (simp add: demo_ts_def)

lemma demo_launch_pcs: "m_pc demo_launch = M_Launch 0" "map w_pc (workers demo_launch) = [W_Leave]" "n_ready demo_launch = 2"
  by (simp_all add: demo_launch_def demo_team_def demo_tasks team_start_def main_step_def run_nodes_step_def main_call_def
      ne_graph_compute_thread_def goto_w_def set_worker_def)

lemma demo_launch_reachable: "team_step\<^sup>*\<^sup>* demo_team demo_launch"
proof -
  have "team_step\<^sup>*\<^sup>* demo_team (main_step (main_step demo_team))"
    by (meson rtranclp.rtrancl_into_rtrancl rtranclp.rtrancl_refl team_step.main)
  moreover from team_constant [OF this] have w: "length (workers (main_step (main_step demo_team))) = 1"
    by (simp add: demo_team_def team_start_def)
  moreover have "team_step t (ne_graph_compute_thread 0 t)" if "length (workers t) = 1" for t
    using team_step.worker [of 0 t] that by simp
  ultimately show ?thesis unfolding demo_launch_def
    by (metis rtranclp.rtrancl_into_rtrancl team_step.main thread_frame(7) w)
qed

lemma demo_team_good: "(1::int) \<le> 2" "\<forall>p \<in> set [48 :: ptr]. p \<noteq> NULL \<and> 1 \<le> n_tasks (demo_ts p) \<and> n_tasks (demo_ts p) \<le> 2"
  by (simp_all add: demo_tasks)

lemma pool_calls_done:
  assumes "1 \<le> n" "\<forall>p \<in> set ps. p \<noteq> NULL \<and> 1 \<le> n_tasks (ts p) \<and> n_tasks (ts p) \<le> n"
    and "team_step\<^sup>*\<^sup>* (team_start n wsz wdat (map (\<lambda>p. (p, n_tasks (ts p))) ps)) s" "m_pc s = M_Done"
  shows "(\<forall>w \<in> set (workers s). w_pc w = W_Done) \<and>
    (\<exists>bs. calls s = concat bs \<and> list_all2 (\<lambda>b e. mset b = mset e) bs
       (concat (map (\<lambda>p. map (map (Pair p)) (node_calls (nat n) wsz wdat (ts p))) ps)))"
proof -
  let ?ns = "map (\<lambda>p. (p, n_tasks (ts p))) ps"
  have inv: "team_inv ?ns s" using team.inv_reachable [OF good_start_map [OF assms(1,2)] assms(3)] .
  have k: "t_wsize s = wsz" "t_wdata s = wdat" "length (workers s) = nat (n - 1)"
    using team_constant [OF assms(3)] by (simp_all add: team_start_def)
  note d = team_done [OF inv assms(4)]
  obtain pre bs cur where cur: "?ns = pre @ todo s" "calls s = concat bs @ cur"
    "same_blocks bs (concat (map (node_blocks s) pre) @ over_blocks s)" "set cur = ran_calls s"
    using inv by (auto simp: team_inv_def elim: calls_okE)
  have nb: "map (node_blocks s) ?ns = map (\<lambda>p. map (map (Pair p)) (node_calls (nat n) wsz wdat (ts p))) ps"
    using node_blocks_calls [OF _ k(3) assms(1)] assms(2) k(1,2) by auto
  have e: "cur = []" "over_blocks s = []" "pre = ?ns" using cur d by (auto simp: ran_calls_def over_blocks_def)
  have "list_all2 (\<lambda>b e. mset b = mset e) bs
       (concat (map (\<lambda>p. map (map (Pair p)) (node_calls (nat n) wsz wdat (ts p))) ps))"
    using cur(3) unfolding e nb same_blocks_def by simp
  then show ?thesis using d cur(2) e(1) by auto
qed

text \<open>
  C5. When the pool has been joined, the calls of \<^verbatim>\<open>ne_compute_forward\<close> are those of the OpenMP
  build: for every node its initialisation, then all of its computing calls in some order, then
  all of its finalising calls in some order, with no call missing, repeated or out of its phase;
  and every worker has returned.
\<close>

theorem pool_calls_match_openmp:
  assumes "1 \<le> n" "\<forall>p \<in> set ps. p \<noteq> NULL \<and> 1 \<le> n_tasks (ts p) \<and> n_tasks (ts p) \<le> n"
    and "team_step\<^sup>*\<^sup>* (team_start n wsz wdat (map (\<lambda>p. (p, n_tasks (ts p))) ps)) s" "m_pc s = M_Done"
  shows "(\<forall>w \<in> set (workers s). w_pc w = W_Done) \<and>
    (\<exists>bs. calls s = concat bs \<and> list_all2 (\<lambda>b e. mset b = mset e) bs
       (concat (map (\<lambda>p. map (map (Pair p)) (node_calls (nat n) wsz wdat (ts p))) ps)))"
  by (rule pool_calls_done [OF assms])

theorem pool_calls_match_openmp_witness:
  "\<exists>s bs. team_step\<^sup>*\<^sup>* demo_team s \<and> m_pc s = M_Done \<and> calls s = concat bs \<and>
     list_all2 (\<lambda>b e. mset b = mset e) bs (map (map (Pair 48)) (node_calls 2 0 0 (demo_ts 48)))"
proof -
  have "team_inv (map (\<lambda>p. (p, n_tasks (demo_ts p))) [48]) demo_team"
    unfolding demo_team_def by (rule team_inv_start [OF good_start_map [OF demo_team_good]])
  then obtain s where s: "team_step\<^sup>*\<^sup>* demo_team s" "m_pc s = M_Done" using team_can_end by blast
  then show ?thesis
    using pool_calls_match_openmp [OF demo_team_good s(1) [unfolded demo_team_def] s(2)] by auto
qed

text \<open>
  C6. Whatever the threads have done so far, the run can be completed: from every reachable state
  there are further steps to the state in which the main thread has joined the pool and all
  workers have returned. The barriers never deadlock.
\<close>

theorem pool_can_finish:
  assumes "1 \<le> n" "\<forall>p \<in> set ps. p \<noteq> NULL \<and> 1 \<le> n_tasks (ts p) \<and> n_tasks (ts p) \<le> n"
    and "team_step\<^sup>*\<^sup>* (team_start n wsz wdat (map (\<lambda>p. (p, n_tasks (ts p))) ps)) s"
  shows "\<exists>t. team_step\<^sup>*\<^sup>* s t \<and> m_pc t = M_Done \<and> (\<forall>w \<in> set (workers t). w_pc w = W_Done)"
proof -
  have inv: "team_inv (map (\<lambda>p. (p, n_tasks (ts p))) ps) s"
    using team.inv_reachable [OF good_start_map [OF assms(1,2)] assms(3)] .
  then obtain t where t: "team_step\<^sup>*\<^sup>* s t" "m_pc t = M_Done" using team_can_end by blast
  then show ?thesis using team_done [OF team.inv_star [OF t(1) inv] t(2)] by blast
qed

theorem pool_can_finish_witness:
  "\<exists>t. team_step\<^sup>*\<^sup>* demo_launch t \<and> m_pc t = M_Done \<and> (\<forall>w \<in> set (workers t). w_pc w = W_Done)"
  by (rule pool_can_finish [OF demo_team_good demo_launch_reachable [unfolded demo_team_def]])

text \<open>
  C12. While the main thread writes the parameters of the workers, no worker reads or resets
  them; and a worker that runs a call runs the one that was launched for it: the current node, in the
  current phase, with its own thread number.
\<close>

theorem pool_no_race:
  assumes "1 \<le> n" "\<forall>p \<in> set ps. p \<noteq> NULL \<and> 1 \<le> n_tasks (ts p) \<and> n_tasks (ts p) \<le> n"
    and "team_step\<^sup>*\<^sup>* (team_start n wsz wdat (map (\<lambda>p. (p, n_tasks (ts p))) ps)) s" "j < length (workers s)"
  shows "(m_pc s = M_Launch k \<longrightarrow> w_pc (workers s ! j) \<notin> {W_Node, W_Run, W_Reset}) \<and>
    (w_pc (workers s ! j) = W_Run \<longrightarrow> w_node (workers s ! j) = fst (hd (todo s)) \<and>
       w_params (workers s ! j) = call_params s (phase s) (int j + 1) (snd (hd (todo s))))"
proof -
  have inv: "team_inv (map (\<lambda>p. (p, n_tasks (ts p))) ps) s"
    using team.inv_reachable [OF good_start_map [OF assms(1,2)] assms(3)] .
  show ?thesis
  proof (cases "ctl_inv s")
    case True
    have "jobs_ok s" using inv by (simp add: team_inv_def)
    then show ?thesis using working_launched [OF True assms(4)] working_job [OF True _ assms(4)]
      by (auto simp: pc_of_def job_def split: list.splits)
  next
    case False
    then have "stop_inv s" using inv assms(4) by (auto simp: team_inv_def solo_inv_def)
    then show ?thesis using assms(4)
      by (auto simp: stop_inv_def stop_places_def gate_pcs_def idle_pcs_def pc_of_def)
  qed
qed

theorem pool_no_race_witness:
  "m_pc demo_launch = M_Launch 0 \<and> w_pc (workers demo_launch ! 0) \<notin> {W_Node, W_Run, W_Reset}"
proof -
  have "0 < length (workers demo_launch)" using demo_launch_pcs(2) by auto
  from pool_no_race [OF demo_team_good demo_launch_reachable [unfolded demo_team_def] this, of 0]
  show ?thesis by (simp add: demo_launch_pcs(1))
qed

text \<open>
  The counter of arrived threads stays between zero and the number of threads.
\<close>

theorem pool_counter_bounds:
  assumes "1 \<le> n" "\<forall>p \<in> set ps. p \<noteq> NULL \<and> 1 \<le> n_tasks (ts p) \<and> n_tasks (ts p) \<le> n"
    and "team_step\<^sup>*\<^sup>* (team_start n wsz wdat (map (\<lambda>p. (p, n_tasks (ts p))) ps)) s"
  shows "0 \<le> n_ready s \<and> n_ready s \<le> n"
proof -
  have inv: "team_inv (map (\<lambda>p. (p, n_tasks (ts p))) ps) s"
    using team.inv_reachable [OF good_start_map [OF assms(1,2)] assms(3)] .
  have n: "t_threads s = n" using team_constant [OF assms(3)] by (simp add: team_start_def)
  have "0 \<le> n_ready s \<and> n_ready s \<le> t_threads s"
    using inv num_bounds [of "\<lambda>w. w_pc w \<in> ready_pcs" "workers s"] num_bounds(1) [of "\<lambda>w. w_pc w = W_Arrive" "workers s"]
    by (cases "main_in s") (auto simp: team_inv_def ctl_inv_def main_ok_def count_ok_def stop_inv_def solo_inv_def)
  then show ?thesis by (simp add: n)
qed

theorem pool_counter_bounds_witness: "n_ready demo_launch = 2 \<and> 0 \<le> n_ready demo_launch \<and> n_ready demo_launch \<le> 2"
  using pool_counter_bounds [OF demo_team_good demo_launch_reachable [unfolded demo_team_def]] demo_launch_pcs(3) by simp

text \<open>
  C32. At most one thread is in the critical section.
\<close>

theorem critical_section_exclusive:
  assumes "crit_start s" "crit_step\<^sup>*\<^sup>* s t"
  shows "length (filter (\<lambda>c. c = C_In) (threads t)) \<le> 1"
  using crit.inv_reachable [OF assms] by (simp add: crit_inv_def num_def)

theorem critical_section_exclusive_witness:
  "let t = ne_critical_section_start 1 (ne_critical_section_start 0 \<lparr>g_state_barrier = 0, threads = [C_Start, C_Start]\<rparr>) in
   threads t = [C_In, C_Back] \<and> length (filter (\<lambda>c. c = C_In) (threads t)) \<le> 1"
proof -
  let ?s = "\<lparr>g_state_barrier = 0, threads = [C_Start, C_Start]\<rparr>"
  have 1: "crit_step ?s (ne_critical_section_start 0 ?s)" by (rule crit_step.enter) simp_all
  have 2: "crit_step (ne_critical_section_start 0 ?s) (ne_critical_section_start 1 (ne_critical_section_start 0 ?s))"
    by (rule crit_step.enter) (simp_all add: ne_critical_section_start_def)
  have "crit_start ?s" by (simp add: crit_start_def)
  moreover have "crit_step\<^sup>*\<^sup>* ?s (ne_critical_section_start 1 (ne_critical_section_start 0 ?s))"
    using 1 2 by (meson rtranclp.rtrancl_into_rtrancl rtranclp.rtrancl_refl)
  ultimately have "length (filter (\<lambda>c. c = C_In) (threads (ne_critical_section_start 1 (ne_critical_section_start 0 ?s)))) \<le> 1"
    by (rule critical_section_exclusive)
  then show ?thesis by (simp add: ne_critical_section_start_def)
qed

end
