(* ===== verification/NE_Forward_Results.thy ===== *)
theory NE_Forward_Results
  imports NE_Forward NE_Rope_Results NE_Dup_Results NE_Sync_Run
begin

text \<open>
  What a run of a whole graph computes. Every node of the operations below has a meaning, the value
  of each of its elements as a function of the data of its operands. A run of the thread pool makes the
  calls of \<^verbatim>\<open>ne_compute_forward\<close> for the nodes in the order of the graph, those of a node in any
  order of its tasks; when no node overwrites what an earlier one has read or written, the memory at
  the end satisfies the equations of all the nodes (interface \<open>dataflow\<close>).
\<close>

section \<open>Ranges of memory\<close>

type_synonym ranges = "(ptr \<times> nat) list"

definition ranges_apart :: "ranges \<Rightarrow> ranges \<Rightarrow> bool" where
  "ranges_apart xs ys \<longleftrightarrow> (\<forall>(p, n) \<in> set xs. \<forall>(q, k) \<in> set ys. gap p n q k)"

definition inside :: "ranges \<Rightarrow> ptr \<Rightarrow> bool" where
  "inside rs x \<longleftrightarrow> (\<exists>(p, n) \<in> set rs. p \<le> x \<and> x < p + n)"

definition same_on :: "ranges \<Rightarrow> memory \<Rightarrow> memory \<Rightarrow> bool" where
  "same_on rs m m' \<longleftrightarrow> (\<forall>x. inside rs x \<longrightarrow> m' x = m x)"

definition same_off :: "ranges \<Rightarrow> memory \<Rightarrow> memory \<Rightarrow> bool" where
  "same_off rs m m' \<longleftrightarrow> (\<forall>x. \<not> inside rs x \<longrightarrow> m' x = m x)"

lemma inside_append [simp]: "inside (rs @ rs') x \<longleftrightarrow> inside rs x \<or> inside rs' x"
  by (auto simp: inside_def)

lemma inside_apart: "ranges_apart rs ws \<Longrightarrow> inside rs x \<Longrightarrow> \<not> inside ws x"
  unfolding ranges_apart_def inside_def gap_def by (blast dest: leD order_less_le_trans)

lemma inside_mono: "set rs \<subseteq> set rs' \<Longrightarrow> inside rs x \<Longrightarrow> inside rs' x"
  unfolding inside_def by blast

lemma same_off_on: "same_off ws m m' \<Longrightarrow> ranges_apart rs ws \<Longrightarrow> same_on rs m m'"
  unfolding same_off_def same_on_def using inside_apart by blast

lemma same_on_refl [simp]: "same_on rs m m"
  by (simp add: same_on_def)

lemma same_on_append [simp]: "same_on (rs @ rs') m m' \<longleftrightarrow> same_on rs m m' \<and> same_on rs' m m'"
  unfolding same_on_def inside_append by blast

lemma same_off_trans: "same_off ws m m' \<Longrightarrow> same_off ws' m' m'' \<Longrightarrow> set ws \<subseteq> set vs \<Longrightarrow> set ws' \<subseteq> set vs \<Longrightarrow> same_off vs m m''"
  unfolding same_off_def using inside_mono by metis

lemma ranges_apart_append [simp]:
  "ranges_apart (xs @ xs') ys \<longleftrightarrow> ranges_apart xs ys \<and> ranges_apart xs' ys"
  "ranges_apart xs (ys @ ys') \<longleftrightarrow> ranges_apart xs ys \<and> ranges_apart xs ys'"
  unfolding ranges_apart_def by (simp_all add: ball_Un case_prod_beta) blast

lemma ranges_apart_Cons: "ranges_apart xs (y # ys) \<longleftrightarrow> ranges_apart xs [y] \<and> ranges_apart xs ys"
  using ranges_apart_append(2) [of xs "[y]" ys] by simp

lemma ranges_apart_concat: "ranges_apart xs (concat (map f ts)) \<longleftrightarrow> (\<forall>t \<in> set ts. ranges_apart xs (f t))"
  by (induction ts) (simp_all, simp add: ranges_apart_def case_prod_beta)

lemma same_on_range: "same_on rs m m' \<Longrightarrow> (p, n) \<in> set rs \<Longrightarrow> p \<le> x \<Longrightarrow> x < p + n \<Longrightarrow> m' x = m x"
  by (auto simp: same_on_def inside_def)

text \<open>The elements of a tensor of four-byte elements lie in its span.\<close>

lemma same_on_elem: "same_on rs m m' \<Longrightarrow> (data t, span t) \<in> set rs \<Longrightarrow> in_range t i0 i1 i2 i3 \<Longrightarrow> elem m' t i0 i1 i2 i3 = elem m t i0 i1 i2 i3"
  unfolding elem_def using elem_in_span [of t i0 i1 i2 i3] by (intro load32_frame) (auto intro: same_on_range)

lemma result_same_off:
  assumes "result_is d g m m'"
  shows "same_off [(data d, span d)] m m'"
proof -
  have "m' x = m x" if "x < data d \<or> data d + span d \<le> x" for x
  proof -
    have "x < data d + elem_offset d i0 i1 i2 i3 \<or> data d + elem_offset d i0 i1 i2 i3 + 4 \<le> x" if "in_range d i0 i1 i2 i3" for i0 i1 i2 i3
      using elem_in_span [OF that] \<open>x < data d \<or> data d + span d \<le> x\<close> by linarith
    then show ?thesis using assms unfolding result_is_def by blast
  qed
  then show ?thesis by (auto simp: same_off_def inside_def not_le not_less)
qed

section \<open>Data flow\<close>

text \<open>
  The contract of the kernels towards a graph: from a memory that is fit for a node, every schedule of
  its calls succeeds, gives the elements of the node their values and writes only its destination and
  the work buffer; the value depends on the ranges that the node reads, and whether the memory is fit
  on the parameters among them only.
\<close>

locale dataflow =
  fixes kern :: "ne_tensor \<Rightarrow> ne_compute_params \<Rightarrow> kop" and team :: nat and work :: "ptr \<times> nat"
    and fit :: "memory \<Rightarrow> ne_tensor \<Rightarrow> bool" and val :: "memory \<Rightarrow> ne_tensor \<Rightarrow> nat \<Rightarrow> nat \<Rightarrow> nat \<Rightarrow> nat \<Rightarrow> 32 word"
    and reads :: "ne_tensor \<Rightarrow> ranges" and params :: "ne_tensor \<Rightarrow> ranges" and writes :: "ne_tensor \<Rightarrow> ranges"
  assumes node_runs: "fit m t \<Longrightarrow> 0 < n_tasks t \<Longrightarrow> n_tasks t \<le> int team \<Longrightarrow>
      schedule cs (node_calls team (snd work) (fst work) t) \<Longrightarrow>
      \<exists>m'. for_list cs (kern t) m = Inr ((), m') \<and> same_off (work # writes t) m m' \<and>
        (writes t \<noteq> [] \<longrightarrow> (\<forall>i0 i1 i2 i3. in_range t i0 i1 i2 i3 \<longrightarrow> elem m' t i0 i1 i2 i3 = val m t i0 i1 i2 i3))"
    and val_reads: "fit m t \<Longrightarrow> same_on (reads t) m m' \<Longrightarrow> writes t \<noteq> [] \<Longrightarrow> in_range t i0 i1 i2 i3 \<Longrightarrow>
      val m' t i0 i1 i2 i3 = val m t i0 i1 i2 i3"
    and fit_params: "fit m t \<Longrightarrow> same_on (params t) m m' \<Longrightarrow> fit m' t"
    and writes_own: "writes t = [] \<or> writes t = [(data t, span t)]"
begin

definition equation :: "memory \<Rightarrow> ne_tensor \<Rightarrow> bool" where
  "equation m t \<longleftrightarrow> (writes t \<noteq> [] \<longrightarrow> (\<forall>i0 i1 i2 i3. in_range t i0 i1 i2 i3 \<longrightarrow> elem m t i0 i1 i2 i3 = val m t i0 i1 i2 i3))"

definition layout :: "ne_tensor list \<Rightarrow> bool" where
  "layout ts \<longleftrightarrow> sorted_wrt (\<lambda>t u. ranges_apart (reads t @ writes t) (writes u)) ts \<and>
     (\<forall>t \<in> set ts. ranges_apart (reads t) (writes t) \<and> ranges_apart (reads t @ params t @ writes t) [work] \<and>
       (\<forall>u \<in> set ts. ranges_apart (params t) (writes u)))"

lemma equation_kept:
  assumes "equation m t" "fit m t" "same_on (reads t @ writes t) m m'"
  shows "equation m' t"
proof -
  have "elem m' t i0 i1 i2 i3 = val m' t i0 i1 i2 i3" if w: "writes t \<noteq> []" and i: "in_range t i0 i1 i2 i3" for i0 i1 i2 i3
  proof -
    have "elem m' t i0 i1 i2 i3 = elem m t i0 i1 i2 i3"
      using assms(3) writes_own [of t] w by (intro same_on_elem [OF _ _ i, of "writes t"]) auto
    then show ?thesis using assms(1) w i val_reads [OF assms(2) _ w i, of m'] assms(3) by (simp add: equation_def)
  qed
  then show ?thesis by (simp add: equation_def)
qed

lemma node_equation:
  assumes "fit m t" "0 < n_tasks t" "n_tasks t \<le> int team" "schedule cs (node_calls team (snd work) (fst work) t)"
    and "ranges_apart (reads t) (work # writes t)" "ranges_apart (params t) (work # writes t)"
  shows "\<exists>m'. for_list cs (kern t) m = Inr ((), m') \<and> same_off (work # writes t) m m' \<and> fit m' t \<and> equation m' t"
proof -
  obtain m' where m': "for_list cs (kern t) m = Inr ((), m')" "same_off (work # writes t) m m'"
      "writes t \<noteq> [] \<longrightarrow> (\<forall>i0 i1 i2 i3. in_range t i0 i1 i2 i3 \<longrightarrow> elem m' t i0 i1 i2 i3 = val m t i0 i1 i2 i3)"
    using node_runs [OF assms(1-4)] by blast
  have "equation m' t" unfolding equation_def
    using m'(3) val_reads [OF assms(1) same_off_on [OF m'(2) assms(5)]] by simp
  with m' fit_params [OF assms(1) same_off_on [OF m'(2) assms(6)]] show ?thesis by blast
qed

lemma graph_equations:
  assumes "list_all2 (\<lambda>cs t. schedule cs (node_calls team (snd work) (fst work) t)) css ts" "layout ts"
    and "\<forall>t \<in> set ts. fit m t \<and> 0 < n_tasks t \<and> n_tasks t \<le> int team"
  shows "\<exists>m'. for_list (zip css ts) (\<lambda>(cs, t). for_list cs (kern t)) m = Inr ((), m') \<and>
    same_off (work # concat (map writes ts)) m m' \<and> (\<forall>t \<in> set ts. equation m' t)"
  using assms
proof (induction css ts arbitrary: m rule: list_all2_induct)
  case Nil
  then show ?case by (simp add: same_off_def)
next
  case (Cons cs css t ts)
  note l = Cons.prems(1) [unfolded layout_def]
  have w: "ranges_apart (reads t) (work # writes t)" "ranges_apart (params t) (work # writes t)"
    using l ranges_apart_Cons [of _ work "writes t"] by auto
  obtain m1 where m1: "for_list cs (kern t) m = Inr ((), m1)" "same_off (work # writes t) m m1" "fit m1 t" "equation m1 t"
    using node_equation [OF _ _ _ Cons.hyps(1) w, of m] Cons.prems(2) by auto
  have "fit m1 u" if "u \<in> set ts" for u
  proof (rule fit_params)
    show "fit m u" using Cons.prems(2) that by simp
    show "same_on (params u) m m1" using l that by (intro same_off_on [OF m1(2)]) (auto simp: ranges_apart_Cons [of _ work "writes t"])
  qed
  then obtain m2 where m2: "for_list (zip css ts) (\<lambda>(cs, t). for_list cs (kern t)) m1 = Inr ((), m2)"
      "same_off (work # concat (map writes ts)) m1 m2" "\<forall>t \<in> set ts. equation m2 t"
    using Cons.IH [of m1] l Cons.prems(2) by (auto simp: layout_def)
  have "ranges_apart (reads t @ writes t) (work # concat (map writes ts))"
    using l ranges_apart_Cons [of _ work "concat (map writes ts)"] by (simp add: ranges_apart_concat)
  from equation_kept [OF m1(4,3) same_off_on [OF m2(2) this]] have "equation m2 t" .
  moreover have "same_off (work # concat (map writes (t # ts))) m m2" by (rule same_off_trans [OF m1(2) m2(2)]) auto
  ultimately show ?case using m1(1) m2 by auto
qed

end

section \<open>The meaning of a node\<close>

text \<open>What a node computes from its operands; views and constants compute nothing.\<close>

datatype meaning =
    Nothing
  | Binary "32 word \<Rightarrow> 32 word \<Rightarrow> 32 word" ne_tensor ne_tensor
  | Unary "32 word \<Rightarrow> 32 word" ne_tensor
  | Soft_Max ne_tensor
  | Norm "32 word list \<Rightarrow> 32 word list" ne_tensor
  | Copy ne_tensor
  | Product ne_tensor ne_tensor
  | Rotate ne_tensor ne_tensor
  | Gather ne_tensor ne_tensor

definition of_src0 :: "(ptr \<Rightarrow> ne_tensor option) \<Rightarrow> ne_tensor \<Rightarrow> (ne_tensor \<Rightarrow> meaning) \<Rightarrow> meaning option" where
  "of_src0 h t k = map_option k (h (src0 t))"

definition of_both :: "(ptr \<Rightarrow> ne_tensor option) \<Rightarrow> ne_tensor \<Rightarrow> (ne_tensor \<Rightarrow> ne_tensor \<Rightarrow> meaning) \<Rightarrow> meaning option" where
  "of_both h t k = Option.bind (h (src0 t)) (\<lambda>a. map_option (k a) (h (src1 t)))"

definition node_meaning :: "fenv \<Rightarrow> (ptr \<Rightarrow> ne_tensor option) \<Rightarrow> ne_tensor \<Rightarrow> meaning option" where
  "node_meaning e h t = (case op t of
     NE_OP_NONE \<Rightarrow> Some Nothing
   | NE_OP_RESHAPE \<Rightarrow> Some Nothing
   | NE_OP_VIEW \<Rightarrow> Some Nothing
   | NE_OP_PERMUTE \<Rightarrow> Some Nothing
   | NE_OP_TRANSPOSE \<Rightarrow> Some Nothing
   | NE_OP_ADD \<Rightarrow> of_both h t (Binary (f_add (fe_fa e)))
   | NE_OP_MUL \<Rightarrow> of_both h t (Binary (f_mul (fe_fa e)))
   | NE_OP_SQR \<Rightarrow> of_src0 h t (Unary (\<lambda>x. f_mul (fe_fa e) x x))
   | NE_OP_SQRT \<Rightarrow> of_src0 h t (Unary (f_sqrt (fe_fa e)))
   | NE_OP_LOG \<Rightarrow> of_src0 h t (Unary (f_log (fe_fa e)))
   | NE_OP_ABS \<Rightarrow> of_src0 h t (Unary f_abs)
   | NE_OP_SGN \<Rightarrow> of_src0 h t (Unary (\<lambda>x. if f32_pos x then f32_1 else if f32_neg x then f32_minus_1 else f32_0))
   | NE_OP_NEG \<Rightarrow> of_src0 h t (Unary f_neg)
   | NE_OP_STEP \<Rightarrow> of_src0 h t (Unary (\<lambda>x. if f32_pos x then f32_1 else f32_0))
   | NE_OP_RELU \<Rightarrow> of_src0 h t (Unary (\<lambda>x. if f32_pos x then x else f32_0))
   | NE_OP_SOFT_MAX \<Rightarrow> of_src0 h t Soft_Max
   | NE_OP_NORM \<Rightarrow> of_src0 h t (Norm (norm_list (fe_r e) f32_1e_5))
   | NE_OP_RMS_NORM \<Rightarrow> of_src0 h t (Norm (rms_norm_list (fe_r e) (op_params t ! 0)))
   | NE_OP_DUP \<Rightarrow> of_src0 h t Copy
   | NE_OP_CPY \<Rightarrow> of_src0 h t Copy
   | NE_OP_CONT \<Rightarrow> of_src0 h t Copy
   | NE_OP_MUL_MAT \<Rightarrow> of_both h t Product
   | NE_OP_ROPE \<Rightarrow> of_both h t Rotate
   | NE_OP_GET_ROWS \<Rightarrow> of_both h t Gather
   | _ \<Rightarrow> None)"

fun meaning_value :: "fenv \<Rightarrow> memory \<Rightarrow> ne_tensor \<Rightarrow> meaning \<Rightarrow> nat \<Rightarrow> nat \<Rightarrow> nat \<Rightarrow> nat \<Rightarrow> 32 word" where
  "meaning_value e m t (Binary f a b) i0 i1 i2 i3 =
     f (elem m a i0 i1 i2 i3) (elem m b i0 (wrap_index b 1 i1) (wrap_index b 2 i2) (wrap_index b 3 i3))"
| "meaning_value e m t (Unary f a) i0 i1 i2 i3 = f (elem m a i0 i1 i2 i3)"
| "meaning_value e m t (Soft_Max a) i0 i1 i2 i3 = soft_max_list (fe_r e) (map (\<lambda>k. elem m a k i1 i2 i3) [0..<nat (ne t ! 0)]) ! i0"
| "meaning_value e m t (Norm f a) i0 i1 i2 i3 = f (map (\<lambda>k. elem m a k i1 i2 i3) [0..<nat (ne t ! 0)]) ! i0"
| "meaning_value e m t (Copy a) i0 i1 i2 i3 =
     (case elem_at a (linear_index t i0 i1 i2 i3) of (j0, j1, j2, j3) \<Rightarrow> elem m a j0 j1 j2 j3)"
| "meaning_value e m t (Product a b) i0 i1 i2 i3 = product_elem (r_acc (fe_r e)) (fe_q e) m a b i0 i1 i2 i3"
| "meaning_value e m t (Rotate a b) i0 i1 i2 i3 =
     rope_list (fe_math e) (rope_theta_scale (fe_math e) (op_params t ! 0) (opt_ints m b ! 1)) (rope_angle (fe_math e) t (opt_ints m b ! 0) i2)
       (map (\<lambda>k. elem m a k i1 i2 i3) [0..<nat (ne t ! 0)]) ! i0"
| "meaning_value e m t (Gather a b) i0 i1 i2 i3 = elem m a i0 (nat (row_number m b i1)) 0 0"
| "meaning_value e m t Nothing i0 i1 i2 i3 = elem m t i0 i1 i2 i3"

text \<open>The layouts for which the kernels are proved, and the ranges that a node reads and writes.\<close>

definition weight_row :: "ne_tensor \<Rightarrow> nat" where
  "weight_row a = (case ty a of
     NE_TYPE_F32 \<Rightarrow> 4 * nat (ne a ! 0)
   | NE_TYPE_F16 \<Rightarrow> 2 * nat (ne a ! 0)
   | _ \<Rightarrow> NE_TYPE_SIZE (ty a) * (nat (ne a ! 0) div 32))"

fun meaning_fits :: "ptr \<Rightarrow> nat \<Rightarrow> memory \<Rightarrow> ne_tensor \<Rightarrow> meaning \<Rightarrow> bool" where
  "meaning_fits wdat wsz m t (Binary f a b) \<longleftrightarrow> ty a = NE_TYPE_F32 \<and> broadcast_operands a b t"
| "meaning_fits wdat wsz m t (Unary f a) \<longleftrightarrow> ty a = NE_TYPE_F32 \<and> unary_operands a t \<and> (apart a t \<or> n_tasks t = 1)"
| "meaning_fits wdat wsz m t (Soft_Max a) \<longleftrightarrow> ty a = NE_TYPE_F32 \<and> row_operands a t \<and> even_rows a \<and> even_rows t \<and>
     ne_is_contiguous a = Inr True \<and> ne_is_contiguous t = Inr True"
| "meaning_fits wdat wsz m t (Norm f a) \<longleftrightarrow> ty a = NE_TYPE_F32 \<and> row_operands a t \<and>
     andR (ne_is_contiguous a) (ne_is_contiguous t) = Inr False"
| "meaning_fits wdat wsz m t (Copy a) \<longleftrightarrow> dup_operands a t"
| "meaning_fits wdat wsz m t (Product a b) \<longleftrightarrow> ty a \<in> dot_types \<union> {NE_TYPE_F32, NE_TYPE_F16} \<and>
     product_operands wdat wsz a b t \<and> converted_bytes a b \<le> wsz"
| "meaning_fits wdat wsz m t (Rotate a b) \<longleftrightarrow> rope_operands m a b t"
| "meaning_fits wdat wsz m t (Gather a b) \<longleftrightarrow> ty a = NE_TYPE_F32 \<and> gather_operands m a b t \<and> n_tasks t = 1"
| "meaning_fits wdat wsz m t Nothing \<longleftrightarrow> True"

fun meaning_reads :: "meaning \<Rightarrow> ranges" where
  "meaning_reads (Binary f a b) = [(data a, span a), (data b, span b)]"
| "meaning_reads (Unary f a) = [(data a, span a)]"
| "meaning_reads (Soft_Max a) = [(data a, span a)]"
| "meaning_reads (Norm f a) = [(data a, span a)]"
| "meaning_reads (Copy a) = [(data a, span a)]"
| "meaning_reads (Product a b) = [(data a, row_span a (weight_row a)), (data b, row_span b (4 * nat (ne b ! 0)))]"
| "meaning_reads (Rotate a b) = [(data a, span a), (data b, 20)]"
| "meaning_reads (Gather a b) = [(data a, span a), (data b, span b)]"
| "meaning_reads Nothing = []"

fun meaning_params :: "meaning \<Rightarrow> ranges" where
  "meaning_params (Rotate a b) = [(data b, 20)]"
| "meaning_params (Gather a b) = [(data b, span b)]"
| "meaning_params _ = []"

lemmas meaning_defs = node_meaning_def of_both_def of_src0_def bind_eq_Some_conv
lemmas forward_defs = ne_compute_forward_def with_t_def switch_f32_def ne_compute_forward_add_def ne_compute_forward_mul_def
  ne_compute_forward_sqr_def ne_compute_forward_sqrt_def ne_compute_forward_log_def ne_compute_forward_abs_def ne_compute_forward_sgn_def
  ne_compute_forward_neg_def ne_compute_forward_step_def ne_compute_forward_relu_def ne_compute_forward_soft_max_def
  ne_compute_forward_norm_def ne_compute_forward_rms_norm_def ne_compute_forward_norm_f32_def ne_compute_forward_rms_norm_f32_def
  ne_compute_forward_rope_def ne_compute_forward_get_rows_def ne_compute_forward_cpy_def ne_compute_forward_cont_def

lemma forward_nothing: "node_meaning e h t = Some Nothing \<Longrightarrow> ne_compute_forward e h ps t = ret ()"
  by (cases "op t") (auto simp: meaning_defs ne_compute_forward_def)

lemma forward_binary:
  assumes "node_meaning e h t = Some (Binary f a b)" "ty a = NE_TYPE_F32"
  obtains kern where "broadcast_kernel kern f" "\<And>ps. ne_compute_forward e h ps t = kern ps a b t"
  using assms add_f32.broadcast_kernel_axioms mul_f32.broadcast_kernel_axioms by (cases "op t") (auto simp: meaning_defs forward_defs)

lemma forward_unary:
  assumes "node_meaning e h t = Some (Unary f a)" "ty a = NE_TYPE_F32"
  obtains kern where "unary_kernel kern f" "\<And>ps. ne_compute_forward e h ps t = kern ps a t"
  using assms unary_kernels by (cases "op t") (auto simp: meaning_defs forward_defs)

lemma forward_norm:
  assumes "node_meaning e h t = Some (Norm f a)" "ty a = NE_TYPE_F32"
  obtains row isrms eps where "row_function (\<lambda>_. row) (\<lambda>_. f) (\<lambda>_. True)"
    "\<And>ps. ne_compute_forward e h ps t = norm_f32 (fe_norm e) row isrms eps ps a t"
proof -
  have "h (src0 t) = Some a \<and> (op t = NE_OP_NORM \<and> f = norm_list (fe_r e) f32_1e_5 \<or>
      op t = NE_OP_RMS_NORM \<and> f = rms_norm_list (fe_r e) (op_params t ! 0))"
    using assms(1) by (cases "op t") (auto simp: meaning_defs)
  then consider "h (src0 t) = Some a" "op t = NE_OP_NORM" "f = norm_list (fe_r e) f32_1e_5"
    | "h (src0 t) = Some a" "op t = NE_OP_RMS_NORM" "f = rms_norm_list (fe_r e) (op_params t ! 0)" by blast
  then show thesis
  proof cases
    case 1
    with assms(2) show ?thesis by (intro that [of "norm_row (fe_r e) f32_1e_5" False f32_1e_5])
      (simp_all add: norm_fun.row_function_axioms forward_defs)
  next
    case 2
    with assms(2) show ?thesis by (intro that [of "rms_norm_row (fe_r e) (op_params t ! 0)" True "op_params t ! 0"])
      (simp_all add: rms_norm_fun.row_function_axioms forward_defs)
  qed
qed

lemma forward_copy:
  assumes "node_meaning e h t = Some (Copy a)" "dup_operands a t"
  shows "ne_compute_forward e h ps t = ne_compute_forward_dup_f32 (q_fc (fe_q e)) (row_quantizer (fe_q e)) ps a t"
  using assms dup_dispatch [OF assms(2)] by (intro ext, cases "op t") (auto simp: meaning_defs forward_defs Let_def)

lemma forward_others:
  "node_meaning e h t = Some (Soft_Max a) \<Longrightarrow> ty a = NE_TYPE_F32 \<Longrightarrow> ne_compute_forward e h ps t = ne_compute_forward_soft_max_f32 (fe_r e) ps a t"
  "node_meaning e h t = Some (Product a b) \<Longrightarrow>
     ne_compute_forward e h ps t = ne_compute_forward_mul_mat (r_acc (fe_r e)) (fe_q e) (bestla_f32f32_forward (fe_lib e)) ps a b t"
  "node_meaning e h t = Some (Rotate a b) \<Longrightarrow> ty a = NE_TYPE_F32 \<Longrightarrow> ne_compute_forward e h ps t = ne_compute_forward_rope_f32 (fe_math e) ps a b t"
  "node_meaning e h t = Some (Gather a b) \<Longrightarrow> ty a = NE_TYPE_F32 \<Longrightarrow> ne_compute_forward e h ps t = ne_compute_forward_get_rows_f32 ps a b t"
  by (cases "op t"; auto simp: meaning_defs forward_defs)+

section \<open>The kernels have the contract\<close>

lemma meaning_value_fun:
  "meaning_value e m t (Binary f a b) = (\<lambda>i0 i1 i2 i3.
     f (elem m a i0 i1 i2 i3) (elem m b i0 (wrap_index b 1 i1) (wrap_index b 2 i2) (wrap_index b 3 i3)))"
  "meaning_value e m t (Unary g a) = (\<lambda>i0 i1 i2 i3. g (elem m a i0 i1 i2 i3))"
  "meaning_value e m t (Soft_Max a) = (\<lambda>i0 i1 i2 i3. soft_max_list (fe_r e) (map (\<lambda>k. elem m a k i1 i2 i3) [0..<nat (ne t ! 0)]) ! i0)"
  "meaning_value e m t (Norm l a) = (\<lambda>i0 i1 i2 i3. l (map (\<lambda>k. elem m a k i1 i2 i3) [0..<nat (ne t ! 0)]) ! i0)"
  "meaning_value e m t (Copy a) = (\<lambda>i0 i1 i2 i3. dup_val a t (i0, i1, i2, i3) m)"
  "meaning_value e m t (Product a b) = product_elem (r_acc (fe_r e)) (fe_q e) m a b"
  "meaning_value e m t (Rotate a b) = (\<lambda>i0 i1 i2 i3.
     rope_list (fe_math e) (rope_theta_scale (fe_math e) (op_params t ! 0) (opt_ints m b ! 1)) (rope_angle (fe_math e) t (opt_ints m b ! 0) i2)
       (map (\<lambda>k. elem m a k i1 i2 i3) [0..<nat (ne t ! 0)]) ! i0)"
  "meaning_value e m t (Gather a b) = (\<lambda>i0 i1 i2 i3. elem m a i0 (nat (row_number m b i1)) 0 0)"
  by (intro ext, simp add: dup_val_def pos_of_def addr_of_def elem_def split: prod.split)+

lemma product_runs:
  assumes k: "node_meaning e h t = Some (Product a b)" and f: "meaning_fits wdat wsz m t (Product a b)"
    and n: "0 < n_tasks t" "n_tasks t \<le> int team" and sch: "schedule cs (node_calls team wsz wdat t)"
  shows "\<exists>m1 m'. for_list cs (\<lambda>ps. ne_compute_forward e h ps t) m = Inr ((), m') \<and>
    result_is t (meaning_value e m t (Product a b)) m1 m' \<and> same_off [(wdat, wsz)] m m1"
proof -
  obtain m1 m' where m': "for_list cs (\<lambda>ps. ne_compute_forward e h ps t) m = Inr ((), m')"
      "result_is t (product_elem (r_acc (fe_r e)) (fe_q e) m a b) m1 m'" "\<forall>q. q < wdat \<or> wdat + converted_bytes a b \<le> q \<longrightarrow> m1 q = m q"
    using mul_mat_scheduled [OF _ _ n sch, of a b "r_acc (fe_r e)" "fe_q e" "bestla_f32f32_forward (fe_lib e)" m] f
    unfolding forward_others(2) [OF k] by auto
  have "same_off [(wdat, wsz)] m m1" using m'(3) f by (auto simp: same_off_def inside_def)
  with m'(1,2) show ?thesis unfolding meaning_value_fun by blast
qed

text \<open>Every schedule of a node gives its elements the values of its meaning.\<close>

lemma meaning_runs:
  assumes k: "node_meaning e h t = Some k" "k \<noteq> Nothing" and f: "meaning_fits wdat wsz m t k"
    and n: "0 < n_tasks t" "n_tasks t \<le> int team" and sch: "schedule cs (node_calls team wsz wdat t)"
  shows "\<exists>m1 m'. for_list cs (\<lambda>ps. ne_compute_forward e h ps t) m = Inr ((), m') \<and>
    result_is t (meaning_value e m t k) m1 m' \<and> same_off [(wdat, wsz)] m m1"
proof -
  have id: "same_off [(wdat, wsz)] m m" by (simp add: same_off_def)
  have one: "n_tasks t = 1 \<Longrightarrow> 0 < team" using n(2) by simp
  show ?thesis
  proof (cases k)
    case (Binary g a b)
    have ty: "ty a = NE_TYPE_F32" using f Binary by simp
    show ?thesis
    proof (rule forward_binary [OF k(1) [unfolded Binary] ty])
      fix kern assume kern: "broadcast_kernel kern g" "\<And>ps. ne_compute_forward e h ps t = kern ps a b t"
      show ?thesis using broadcast_kernel.scheduled [OF kern(1) _ n sch, of a b m] f id unfolding kern(2) by (auto simp: Binary meaning_value_fun)
    qed
  next
    case (Unary g a)
    have ty: "ty a = NE_TYPE_F32" using f Unary by simp
    show ?thesis
    proof (rule forward_unary [OF k(1) [unfolded Unary] ty])
      fix kern assume kern: "unary_kernel kern g" "\<And>ps. ne_compute_forward e h ps t = kern ps a t"
      show ?thesis using unary_kernel.scheduled_once [OF kern(1) _ n _ sch, of a m] f id unfolding kern(2) by (auto simp: Unary meaning_value_fun)
    qed
  next
    case (Soft_Max a)
    have e: "ne_compute_forward e h ps t = ne_compute_forward_soft_max_f32 (fe_r e) ps a t" for ps
      using forward_others(1) k(1) f Soft_Max by auto
    show ?thesis using soft_max_scheduled [OF _ _ _ _ _ n sch, of a "fe_r e" m] f id unfolding e by (auto simp: Soft_Max meaning_value_fun)
  next
    case (Norm g a)
    have ty: "ty a = NE_TYPE_F32" using f Norm by simp
    show ?thesis
    proof (rule forward_norm [OF k(1) [unfolded Norm] ty])
      fix row isrms eps assume r: "row_function (\<lambda>_. row) (\<lambda>_. g) (\<lambda>_. True)"
        "\<And>ps. ne_compute_forward e h ps t = norm_f32 (fe_norm e) row isrms eps ps a t"
      show ?thesis using norm_scheduled [OF r(1) _ _ n sch, of a "fe_norm e" isrms eps m] f id unfolding r(2) by (auto simp: Norm meaning_value_fun)
    qed
  next
    case (Copy a)
    then have d: "dup_operands a t" using f by simp
    show ?thesis using dup_scheduled [OF d n sch, of "q_fc (fe_q e)" "row_quantizer (fe_q e)" m] id
      unfolding forward_copy [OF k(1) [unfolded Copy] d] by (auto simp: Copy meaning_value_fun)
  next
    case (Product a b)
    then show ?thesis using product_runs [OF k(1) [unfolded Product] _ n sch] f by auto
  next
    case (Rotate a b)
    have e: "ne_compute_forward e h ps t = ne_compute_forward_rope_f32 (fe_math e) ps a b t" for ps
      using forward_others(3) k(1) f Rotate by (auto simp: rope_operands_def)
    show ?thesis using rope_scheduled [OF _ n sch, of m a b "fe_math e"] f id unfolding e by (auto simp: Rotate meaning_value_fun)
  next
    case (Gather a b)
    have e: "ne_compute_forward e h ps t = ne_compute_forward_get_rows_f32 ps a b t" for ps
      using forward_others(4) k(1) f Gather by auto
    show ?thesis using gather_scheduled [OF _ _ one sch, of m a b] f id unfolding e by (auto simp: Gather meaning_value_fun)
  qed (use k in simp)
qed

text \<open>The value of a node depends on what it reads only.\<close>

lemma opt_ints_local: "same_on rs m m' \<Longrightarrow> (data b, 20) \<in> set rs \<Longrightarrow> opt_ints m' b = opt_ints m b"
  unfolding opt_ints_def by (intro map_cong refl arg_cong [where f = sint] load32_frame) (auto intro: same_on_range)

lemma row_number_local:
  assumes "same_on rs m m'" "(data b, span b) \<in> set rs" "in_range b i 0 0 0"
  shows "row_number m' b i = row_number m b i"
  unfolding row_number_def same_on_elem [OF assms] ..

lemma row_elems_local:
  assumes "same_on rs m m'" "(data a, span a) \<in> set rs" "row_operands a t" "in_range t i0 i1 i2 i3"
  shows "map (\<lambda>k. elem m' a k i1 i2 i3) [0..<nat (ne t ! 0)] = map (\<lambda>k. elem m a k i1 i2 i3) [0..<nat (ne t ! 0)]"
  using assms(3,4) by (intro map_cong refl same_on_elem [OF assms(1,2)]) (auto simp: row_operands_def ne_are_same_shape_def in_range_def)

lemma product_bytes:
  assumes o: "product_operands wdat wsz a b t" "ty a \<in> dot_types \<union> {NE_TYPE_F32, NE_TYPE_F16}" and r: "in_range t i0 i1 i2 i3"
    and m: "same_on (meaning_reads (Product a b)) m m'"
  shows "j < weight_row a \<Longrightarrow> m' (row_at a i0 (plane2 a b i2) (plane3 a i3) + j) = m (row_at a i0 (plane2 a b i2) (plane3 a i3) + j)"
    and "j < 4 * nat (ne a ! 0) \<Longrightarrow> m' (row_at b i1 i2 i3 + j) = m (row_at b i1 i2 i3 + j)"
proof -
  have h: "mul_mat_operands a b t (weight_row a)"
    using o by (auto simp: product_operands_def f16_operands_def quantized_operands_def weight_row_def dot_types_def)
  have i: "i1 < nat (ne b ! 1)" "i2 < nat (ne b ! 2)" "i3 < nat (ne b ! 3)" "i0 < nat (ne a ! 1)" "ne b ! 0 = ne a ! 0"
    using r h operand_dims(9) [OF h] by (auto simp: in_range_def mul_mat_operands_def)
  note same = same_on_range [OF m]
  show "m' (row_at a i0 (plane2 a b i2) (plane3 a i3) + j) = m (row_at a i0 (plane2 a b i2) (plane3 a i3) + j)" if "j < weight_row a"
    using row_in_span [OF i(4) plane_bounds(1,2) [OF h i(2)], of i3 "weight_row a"] that
    by (intro same [of "data a" "row_span a (weight_row a)"]) (auto simp: row_at_def)
  show "m' (row_at b i1 i2 i3 + j) = m (row_at b i1 i2 i3 + j)" if "j < 4 * nat (ne a ! 0)"
    using row_in_span [OF i(1-3), of "4 * nat (ne b ! 0)"] that i(5)
    by (intro same [of "data b" "row_span b (4 * nat (ne b ! 0))"]) (auto simp: row_at_def)
qed

lemma row_elem_local:
  assumes "\<And>j. j < 4 * n \<Longrightarrow> m' (row_at t i1 i2 i3 + j) = m (row_at t i1 i2 i3 + j)" "k < n" "nb t ! 0 = 4"
  shows "elem m' t k i1 i2 i3 = elem m t k i1 i2 i3"
proof -
  have "load32 m' (row_at t i1 i2 i3 + 4 * k) = load32 m (row_at t i1 i2 i3 + 4 * k)" using assms(1,2) by (rule load32_local)
  then show ?thesis using assms(3) by (simp add: elem_def row_at_def elem_offset_def ac_simps)
qed

lemma product_local:
  assumes o: "product_operands wdat wsz a b t" "ty a \<in> dot_types \<union> {NE_TYPE_F32, NE_TYPE_F16}" and r: "in_range t i0 i1 i2 i3"
    and m: "same_on (meaning_reads (Product a b)) m m'"
  shows "product_elem da e m' a b i0 i1 i2 i3 = product_elem da e m a b i0 i1 i2 i3"
proof -
  note bytes = product_bytes [OF o r m]
  have b: "nb b ! 0 = 4" "32 dvd nat (ne a ! 0) \<or> ty a \<in> {NE_TYPE_F32, NE_TYPE_F16}" "ty a = NE_TYPE_F32 \<Longrightarrow> nb a ! 0 = 4"
    using o by (auto simp: product_operands_def f16_operands_def quantized_operands_def second_operand_def dot_types_def)
  have eb: "elem m' b k i1 i2 i3 = elem m b k i1 i2 i3" if "k < nat (ne a ! 0)" for k
    using bytes(2) that b(1) by (rule row_elem_local)
  consider "ty a = NE_TYPE_F32" | "ty a = NE_TYPE_F16" | "ty a \<in> dot_types" using o(2) by auto
  then show ?thesis
  proof cases
    case 1
    have "elem m' a k i0 (plane2 a b i2) (plane3 a i3) = elem m a k i0 (plane2 a b i2) (plane3 a i3)" if "k < nat (ne a ! 0)" for k
      using bytes(1) that b(3) 1 by (intro row_elem_local [of "nat (ne a ! 0)"]) (auto simp: weight_row_def)
    with eb 1 show ?thesis unfolding product_elem_def f32_elem_def
      by (simp, intro arg_cong [where f = "f64_to_f32 da"] fold_cong refl) simp
  next
    case 2
    have "load16 m' (row_at a i0 (plane2 a b i2) (plane3 a i3) + 2 * k) = load16 m (row_at a i0 (plane2 a b i2) (plane3 a i3) + 2 * k)"
      if "k < nat (ne a ! 0)" for k
      using bytes(1) 2 that by (intro load16_local [of "nat (ne a ! 0)"]) (auto simp: weight_row_def)
    with eb 2 show ?thesis unfolding product_elem_def f16_elem_def
      by (simp, intro arg_cong [where f = "f64_to_f32 da"] fold_cong refl) simp
  next
    case 3
    then have w: "weight_row a = NE_TYPE_SIZE (ty a) * (nat (ne a ! 0) div 32)"
      and d: "32 * (nat (ne a ! 0) div 32) = nat (ne a ! 0)"
      using b(2) by (auto simp: weight_row_def dot_types_def)
    have "row_block m' (row_at a i0 (plane2 a b i2) (plane3 a i3)) (ty a) k = row_block m (row_at a i0 (plane2 a b i2) (plane3 a i3)) (ty a) k"
      if "k < nat (ne a ! 0) div 32" for k
      using bytes(1) that unfolding w by (intro row_block_cong [of _ "nat (ne a ! 0) div 32"]) auto
    moreover have "load_floats m' (row_at b i1 i2 i3 + 128 * k) 32 = load_floats m (row_at b i1 i2 i3 + 128 * k) 32"
      if "k < nat (ne a ! 0) div 32" for k
    proof (rule load_floats_cong)
      fix j :: nat assume "j < 4 * 32"
      then show "m' (row_at b i1 i2 i3 + 128 * k + j) = m (row_at b i1 i2 i3 + 128 * k + j)"
        using bytes(2) [of "128 * k + j"] that d by (simp add: add.assoc)
    qed
    moreover have "product_elem da e m a b i0 i1 i2 i3 = quantized_elem e m a b i0 i1 i2 i3" for m
      using 3 by (auto simp: product_elem_def dot_types_def)
    ultimately show ?thesis unfolding quantized_elem_def by (simp, intro fold_cong refl) simp
  qed
qed

lemma meaning_local:
  assumes f: "meaning_fits wdat wsz m t k" "k \<noteq> Nothing" and m: "same_on (meaning_reads k) m m'" and r: "in_range t i0 i1 i2 i3"
  shows "meaning_value e m' t k i0 i1 i2 i3 = meaning_value e m t k i0 i1 i2 i3"
proof (cases k)
  case (Soft_Max a)
  then have a: "row_operands a t" "(data a, span a) \<in> set (meaning_reads k)" using f by simp_all
  show ?thesis unfolding Soft_Max meaning_value.simps row_elems_local [OF m a(2,1) r] ..
next
  case (Norm l a)
  then have a: "row_operands a t" "(data a, span a) \<in> set (meaning_reads k)" using f by simp_all
  show ?thesis unfolding Norm meaning_value.simps row_elems_local [OF m a(2,1) r] ..
next
  case (Binary g a b)
  then have o: "ne_are_same_shape a t" "ne b ! 0 = ne a ! 0" "addressable b"
    using f by (auto simp: broadcast_operands_def ne_can_repeat_rows_def andR_True_iff)
  then have "in_range a i0 i1 i2 i3" "in_range b i0 (wrap_index b 1 i1) (wrap_index b 2 i2) (wrap_index b 3 i3)"
    using r addressable_bounds [OF o(3)] by (auto simp: in_range_def ne_are_same_shape_def wrap_index_def)
  then show ?thesis using same_on_elem [OF m, of a] same_on_elem [OF m, of b] by (simp add: Binary)
next
  case (Unary g a)
  then have "in_range a i0 i1 i2 i3" using f r by (auto simp: unary_operands_def in_range_def ne_are_same_shape_def)
  then show ?thesis using same_on_elem [OF m, of a] by (simp add: Unary)
next
  case (Copy a)
  then have a: "addressable a" "n_elems t = n_elems a" using f dup_operandsD [of a t] by auto
  have "linear_index t i0 i1 i2 i3 < n_elems a"
    using elem_at_pos_of(2) [of "(i0, i1, i2, i3)" t] r a(2) by (simp add: elems_of_def pos_of_def)
  from elem_at_in [OF a(1) this] show ?thesis using same_on_elem [OF m, of a] by (auto simp: Copy elems_of_def split: prod.split)
next
  case (Product a b)
  then show ?thesis using product_local [of wdat wsz a b t i0 i1 i2 i3 m m'] f m r by auto
next
  case (Rotate a b)
  then have a: "row_operands a t" "(data a, span a) \<in> set (meaning_reads k)" "(data b, 20) \<in> set (meaning_reads k)"
    using f by (simp_all add: rope_operands_def)
  show ?thesis unfolding Rotate meaning_value.simps row_elems_local [OF m a(2,1) r] opt_ints_local [OF m a(3)] ..
next
  case (Gather a b)
  have g: "gather_operands m a b t" using f by (simp add: Gather)
  note i = gather_range [OF g r]
  show ?thesis using same_on_elem [OF m, of a, OF _ i(1)] row_number_local [OF m _ i(2)] by (simp add: Gather)
qed (use f in simp)

lemma meaning_fits_params:
  assumes f: "meaning_fits wdat wsz m t k" and m: "same_on (meaning_params k) m m'"
  shows "meaning_fits wdat wsz m' t k"
proof (cases k)
  case (Rotate a b)
  then show ?thesis using f opt_ints_local [OF m, of b] by (simp add: rope_operands_def)
next
  case (Gather a b)
  then have b: "ne b ! 1 = 1" "ne b ! 2 = 1" "ne b ! 3 = 1" using f by (auto simp: gather_operands_def ne_is_vector_def)
  then have "row_number m' b i = row_number m b i" if "i < nat (ne b ! 0)" for i
    using that by (intro row_number_local [OF m]) (auto simp: Gather in_range_def)
  then show ?thesis using f by (auto simp: Gather gather_operands_def)
qed (use f in auto)

section \<open>Nodes of a graph\<close>

definition node_fits :: "fenv \<Rightarrow> (ptr \<Rightarrow> ne_tensor option) \<Rightarrow> ptr \<Rightarrow> nat \<Rightarrow> memory \<Rightarrow> ne_tensor \<Rightarrow> bool" where
  "node_fits e h wdat wsz m t = (case node_meaning e h t of None \<Rightarrow> False | Some k \<Rightarrow> meaning_fits wdat wsz m t k)"

definition node_value :: "fenv \<Rightarrow> (ptr \<Rightarrow> ne_tensor option) \<Rightarrow> memory \<Rightarrow> ne_tensor \<Rightarrow> nat \<Rightarrow> nat \<Rightarrow> nat \<Rightarrow> nat \<Rightarrow> 32 word" where
  "node_value e h m t = meaning_value e m t (the (node_meaning e h t))"

definition node_reads :: "fenv \<Rightarrow> (ptr \<Rightarrow> ne_tensor option) \<Rightarrow> ne_tensor \<Rightarrow> ranges" where
  "node_reads e h t = meaning_reads (the (node_meaning e h t))"

definition node_params :: "fenv \<Rightarrow> (ptr \<Rightarrow> ne_tensor option) \<Rightarrow> ne_tensor \<Rightarrow> ranges" where
  "node_params e h t = meaning_params (the (node_meaning e h t))"

definition node_writes :: "ne_tensor \<Rightarrow> ranges" where
  "node_writes t = (if op t \<in> {NE_OP_NONE, NE_OP_RESHAPE, NE_OP_VIEW, NE_OP_PERMUTE, NE_OP_TRANSPOSE} then [] else [(data t, span t)])"

lemma node_meaning_nothing: "node_meaning e h t = Some k \<Longrightarrow> k = Nothing \<longleftrightarrow> node_writes t = []"
  by (cases "op t") (auto simp: meaning_defs node_writes_def)

interpretation forward: dataflow "\<lambda>t ps. ne_compute_forward e h ps t" team "(wdat, wsz)" "node_fits e h wdat wsz" "node_value e h"
  "node_reads e h" "node_params e h" node_writes for e h team wdat wsz
proof
  fix m t cs
  assume f: "node_fits e h wdat wsz m t" and n: "0 < n_tasks t" "n_tasks t \<le> int team"
    and sch: "schedule cs (node_calls team (snd (wdat, wsz)) (fst (wdat, wsz)) t)"
  obtain k where k: "node_meaning e h t = Some k" "meaning_fits wdat wsz m t k" using f by (auto simp: node_fits_def split: option.splits)
  note w = node_meaning_nothing [OF k(1)]
  show "\<exists>m'. for_list cs (\<lambda>ps. ne_compute_forward e h ps t) m = Inr ((), m') \<and> same_off ((wdat, wsz) # node_writes t) m m' \<and>
      (node_writes t \<noteq> [] \<longrightarrow> (\<forall>i0 i1 i2 i3. in_range t i0 i1 i2 i3 \<longrightarrow> elem m' t i0 i1 i2 i3 = node_value e h m t i0 i1 i2 i3))"
  proof (cases "k = Nothing")
    case True
    have "for_list cs (\<lambda>ps. ret ()) m = Inr ((), m)" by (induction cs) (simp_all add: ret_def)
    with True w show ?thesis using forward_nothing [of e h t] k(1) by (simp add: same_off_def)
  next
    case False
    obtain m1 m' where m': "for_list cs (\<lambda>ps. ne_compute_forward e h ps t) m = Inr ((), m')"
        "result_is t (meaning_value e m t k) m1 m'" "same_off [(wdat, wsz)] m m1"
      using meaning_runs [OF k(1) False k(2) n, of cs] sch by auto
    have "same_off ((wdat, wsz) # node_writes t) m m'"
      using w False by (intro same_off_trans [OF m'(3) result_same_off [OF m'(2)]]) (auto simp: node_writes_def split: if_splits)
    with m' show ?thesis by (auto simp: node_value_def k(1) result_is_elem)
  qed
next
  fix m t m' and i0 i1 i2 i3 :: nat
  assume f: "node_fits e h wdat wsz m t" "same_on (node_reads e h t) m m'" "node_writes t \<noteq> []" and r: "in_range t i0 i1 i2 i3"
  then obtain k where k: "node_meaning e h t = Some k" "meaning_fits wdat wsz m t k" by (auto simp: node_fits_def split: option.splits)
  have "k \<noteq> Nothing" "same_on (meaning_reads k) m m'" using f(2,3) node_meaning_nothing [OF k(1)] k(1) by (auto simp: node_reads_def)
  from meaning_local [OF k(2) this r] show "node_value e h m' t i0 i1 i2 i3 = node_value e h m t i0 i1 i2 i3"
    by (simp only: node_value_def k(1) option.sel)
next
  show "node_fits e h wdat wsz m' t" if "node_fits e h wdat wsz m t" "same_on (node_params e h t) m m'" for m m' t
    using that meaning_fits_params by (auto simp: node_fits_def node_params_def split: option.splits)
qed (simp add: node_writes_def)

text \<open>
  The equation of a node: each of its elements has the value of its operation on the operands as they
  are in the same memory. A graph is laid out well when every node fits its kernel, no node writes what
  an earlier one or itself reads or what an earlier one writes, and parameters and work buffer are apart.
\<close>

definition node_equation :: "fenv \<Rightarrow> (ptr \<Rightarrow> ne_tensor option) \<Rightarrow> memory \<Rightarrow> ne_tensor \<Rightarrow> bool" where
  "node_equation e h m t \<longleftrightarrow> (node_writes t \<noteq> [] \<longrightarrow>
     (\<forall>i0 i1 i2 i3. in_range t i0 i1 i2 i3 \<longrightarrow> elem m t i0 i1 i2 i3 = node_value e h m t i0 i1 i2 i3))"

definition graph_layout :: "fenv \<Rightarrow> (ptr \<Rightarrow> ne_tensor option) \<Rightarrow> ptr \<Rightarrow> nat \<Rightarrow> memory \<Rightarrow> ne_tensor list \<Rightarrow> bool" where
  "graph_layout e h wdat wsz m ts \<longleftrightarrow>
     sorted_wrt (\<lambda>t u. ranges_apart (node_reads e h t @ node_writes t) (node_writes u)) ts \<and>
     (\<forall>t \<in> set ts. node_fits e h wdat wsz m t \<and> ranges_apart (node_reads e h t) (node_writes t) \<and>
       ranges_apart (node_reads e h t @ node_params e h t @ node_writes t) [(wdat, wsz)] \<and>
       (\<forall>u \<in> set ts. ranges_apart (node_params e h t) (node_writes u)))"

text \<open>The calls of a run, node by node.\<close>

lemma calls_per_node:
  assumes "list_all2 (\<lambda>b e. mset b = mset e) bs (concat (map (\<lambda>p. map (map (Pair p)) (F p)) ps))"
  shows "\<exists>css. list_all2 (\<lambda>cs p. schedule cs (F p)) css ps \<and> concat bs = concat (map2 (\<lambda>cs p. map (Pair p) cs) css ps)"
  using assms
proof (induction ps arbitrary: bs)
  case (Cons p ps)
  from Cons.prems obtain b1 b2 where b: "bs = b1 @ b2" "list_all2 (\<lambda>b e. mset b = mset e) b1 (map (map (Pair p)) (F p))"
      "list_all2 (\<lambda>b e. mset b = mset e) b2 (concat (map (\<lambda>p. map (map (Pair p)) (F p)) ps))"
    by (auto simp: list_all2_append2)
  from Cons.IH [OF b(3)] obtain css where css: "list_all2 (\<lambda>cs p. schedule cs (F p)) css ps"
      "concat b2 = concat (map2 (\<lambda>cs p. map (Pair p) cs) css ps)" by blast
  have one: "map (Pair p) (map snd x) = x \<and> mset (map snd x) = mset y" if "mset x = mset (map (Pair p) y)" for x :: "('a \<times> ne_compute_params) list" and y
  proof -
    have "set x = Pair p ` set y" using that by (metis list.set_map set_mset_mset)
    moreover have "mset (map snd x) = mset (map snd (map (Pair p) y))" using that by (metis mset_map)
    ultimately show ?thesis by (auto simp: comp_def intro!: map_idI)
  qed
  have "list_all2 (\<lambda>c e. mset c = mset e) (map (map snd) b1) (F p)"
    using b(2) one by (auto simp: list_all2_conv_all_nth)
  moreover have "concat b1 = map (Pair p) (concat (map (map snd) b1))"
    unfolding map_concat map_map using b(2) one by (intro arg_cong [where f = concat] sym [OF map_idI]) (auto simp: list_all2_conv_all_nth in_set_conv_nth)
  ultimately have "schedule (concat (map (map snd) b1)) (F p)" "concat b1 = map (Pair p) (concat (map (map snd) b1))"
    by (auto simp: schedule_def)
  with css show ?case by (intro exI [of _ "concat (map (map snd) b1) # css"]) (simp add: b(1))
qed simp

lemma for_list_nodes:
  "for_list (concat (map2 (\<lambda>cs p. map (Pair p) cs) css ps)) (\<lambda>(p, c). f c (g p)) m =
   for_list (zip css (map g ps)) (\<lambda>(cs, t). for_list cs (\<lambda>c. f c t)) m"
proof (induction css ps arbitrary: m rule: list_induct2')
  case (4 cs css p ps)
  have "for_list (map (Pair p) cs) (\<lambda>(p, c). f c (g p)) = for_list cs (\<lambda>c. f c (g p))" by (simp add: for_list_map comp_def)
  with 4 show ?case by (cases "for_list cs (\<lambda>c. f c (g p)) m") (auto simp: for_list_append)
qed simp_all

section \<open>Properties\<close>

text \<open>
  C1. A run of a graph. The thread pool starts with the nodes \<open>ps\<close> of the heap \<open>h\<close>, each with a task count
  that the team can serve, and ends after any interleaving of its threads. If the graph is laid out
  well, the calls of \<^verbatim>\<open>ne_compute_forward\<close> that the run has made all succeed in the order in which they were
  made, and in the memory they leave every node satisfies its equation: the elements of a node are
  its operation - broadcasting sums and products, unary functions, soft-max, normalisation,
  copies between layouts, matrix products with float and block-quantized weights, rotary embedding,
  gathered rows - applied to its operands. Only the destinations of the nodes and the work buffer change.
\<close>

theorem graph_run_computes:
  assumes "1 \<le> n" "\<forall>p \<in> set ps. h p \<noteq> None \<and> p \<noteq> NULL \<and> 1 \<le> n_tasks (the (h p)) \<and> n_tasks (the (h p)) \<le> n"
    and "team_step\<^sup>*\<^sup>* (team_start n wsz wdat (map (\<lambda>p. (p, n_tasks (the (h p)))) ps)) s" "m_pc s = M_Done"
    and "graph_layout e h wdat wsz m (map (\<lambda>p. the (h p)) ps)"
  shows "\<exists>m'. for_list (calls s) (\<lambda>(p, c). ne_compute_forward e h c (the (h p))) m = Inr ((), m') \<and>
    (\<forall>p \<in> set ps. node_equation e h m' (the (h p))) \<and>
    same_off ((wdat, wsz) # concat (map (\<lambda>p. node_writes (the (h p))) ps)) m m'"
proof -
  let ?t = "\<lambda>p. the (h p)" and ?team = "nat n"
  obtain bs where bs: "calls s = concat bs"
      "list_all2 (\<lambda>b e. mset b = mset e) bs (concat (map (\<lambda>p. map (map (Pair p)) (node_calls ?team wsz wdat (?t p))) ps))"
    using pool_calls_done [of n ps ?t wsz wdat s] assms(1-4) by auto
  obtain css where css: "list_all2 (\<lambda>cs p. schedule cs (node_calls ?team wsz wdat (?t p))) css ps"
      "calls s = concat (map2 (\<lambda>cs p. map (Pair p) cs) css ps)"
    using calls_per_node [OF bs(2)] bs(1) by auto
  have sch: "list_all2 (\<lambda>cs t. schedule cs (node_calls ?team wsz wdat t)) css (map ?t ps)" using css(1) by (simp add: list_all2_map2)
  have lay: "forward.layout wdat wsz e h (map ?t ps)" "\<forall>t \<in> set (map ?t ps). node_fits e h wdat wsz m t \<and> 0 < n_tasks t \<and> n_tasks t \<le> int ?team"
    using assms(1,2,5) by (auto simp: graph_layout_def forward.layout_def)
  from forward.graph_equations [of ?team wdat wsz css "map ?t ps" e h m] sch lay obtain m' where
    m': "for_list (zip css (map ?t ps)) (\<lambda>(cs, t). for_list cs (\<lambda>c. ne_compute_forward e h c t)) m = Inr ((), m')"
      "same_off ((wdat, wsz) # concat (map node_writes (map ?t ps))) m m'" "\<forall>t \<in> set (map ?t ps). forward.equation e h m' t"
    by (auto simp only: fst_conv snd_conv)
  then show ?thesis unfolding css(2) for_list_nodes [of css ps "ne_compute_forward e h" ?t m]
    by (auto simp: comp_def node_equation_def forward.equation_def)
qed

text \<open>A graph of two nodes: a sum with a repeated row, and its negation.\<close>

definition demo_fenv :: fenv where
  "demo_fenv = \<lparr>fe_math = demo_menv,
     fe_lib = \<lparr>bestla_f32f32_forward = (\<lambda>_ _ _ _ _ _ _ _ _ m. m), bestla_fusion_add_f32f32_forward = (\<lambda>_ _ _ _ _ _ _ _ _ _ _ m. m),
       bestla_fusion_QKV_f32f32_forward = (\<lambda>_ _ _ _ _ _ _ _ _ _ _ m. m), bestla_fusion_FFN_SiLu_f32f32_forward = (\<lambda>_ _ _ _ _ _ _ _ _ _ _ _ m. m),
       bestla_fusion_FFN_Add_GeLu_f32f32_forward = (\<lambda>_ _ _ _ _ _ _ _ _ _ _ _ _ m. m),
       bestla_fusion_FFN_GeLu_f32f32_forward = (\<lambda>_ _ _ _ _ _ _ _ _ _ m. m)\<rparr>,
     fe_norm = (\<lambda>_ _ _ _ _ _ m. m), fe_attn = (\<lambda>_ m. m), fe_attn_reordered = (\<lambda>_ m. m), fe_update_kv = (\<lambda>_ _ m. m),
     fe_shift_rope = (\<lambda>_ _ _ _ _ _ _ m. m), fe_conv_1d_1s = (\<lambda>_ _ _ _. ret ()), fe_conv_1d_2s = (\<lambda>_ _ _ _. ret ()),
     fe_conv_1d = (\<lambda>_ _ _ _. ret ()), fe_unary = (\<lambda>_ _ _ _ m. m), fe_binary = (\<lambda>_ _ _ _ _ m. m), fe_debug = (\<lambda>_ _. ret ())\<rparr>"

definition demo_sum :: ne_tensor where "demo_sum = demo_dst\<lparr>op := NE_OP_ADD, src0 := 16, src1 := 32\<rparr>"
definition demo_neg :: ne_tensor where
  "demo_neg = (demo_f32 [2, 2, 1, 1] [4, 8, 16, 16] 20480)\<lparr>op := NE_OP_NEG, src0 := 48, n_tasks := 2\<rparr>"
definition demo_heap :: "ptr \<Rightarrow> ne_tensor option" where
  "demo_heap = [16 \<mapsto> demo_src, 32 \<mapsto> demo_row, 48 \<mapsto> demo_sum, 64 \<mapsto> demo_neg]"

lemmas demo_graph_defs = demo_heap_def demo_sum_def demo_neg_def demo_kernel_defs

lemma demo_meanings:
  "node_meaning demo_fenv demo_heap demo_sum = Some (Binary (+) demo_src demo_row)"
  "node_meaning demo_fenv demo_heap demo_neg = Some (Unary f_neg demo_sum)"
proof -
  have fa: "fe_fa demo_fenv = demo_fa" by (simp add: demo_fenv_def demo_menv_def demo_renv_def demo_env_def)
  have op: "op demo_sum = NE_OP_ADD" "src0 demo_sum = 16" "src1 demo_sum = 32" "op demo_neg = NE_OP_NEG" "src0 demo_neg = 48"
    by (simp_all add: demo_sum_def demo_neg_def)
  show "node_meaning demo_fenv demo_heap demo_sum = Some (Binary (+) demo_src demo_row)"
    by (simp add: meaning_defs op fa demo_heap_def) (simp add: demo_fa_def)
  show "node_meaning demo_fenv demo_heap demo_neg = Some (Unary f_neg demo_sum)"
    by (simp add: meaning_defs op demo_heap_def)
qed

lemma demo_graph_layout: "graph_layout demo_fenv demo_heap 65536 64 demo_mem [demo_sum, demo_neg]"
proof -
  have "rows_apart demo_sum" "ne_are_same_shape demo_src demo_sum" "operand demo_src demo_sum" "apart demo_row demo_sum"
    by (simp_all add: rows_apart_def addressable_def ne_are_same_shape_def operand_def apart_def span_def elem_offset_def demo_graph_defs)
  then have "broadcast_operands demo_src demo_row demo_sum" using demo_broadcast_operands by (simp add: broadcast_operands_def)
  moreover have "unary_operands demo_sum demo_neg"
    by (simp add: unary_operands_def rows_apart_def addressable_def even_rows_def operand_def apart_def ne_are_same_shape_def span_def elem_offset_def demo_graph_defs)
  moreover have "ty demo_src = NE_TYPE_F32" "ty demo_sum = NE_TYPE_F32" by (simp_all add: demo_graph_defs)
  moreover have "apart demo_sum demo_neg" by (simp add: apart_def span_def elem_offset_def demo_graph_defs)
  moreover have "node_writes demo_sum = [(12288, 16)]" "node_writes demo_neg = [(20480, 16)]" "(data demo_src, span demo_src) = (4096, 16)"
      "(data demo_row, span demo_row) = (8192, 8)" "(data demo_sum, span demo_sum) = (12288, 16)"
    by (simp_all add: node_writes_def demo_graph_defs span_def elem_offset_def)
  ultimately show ?thesis
    by (simp add: graph_layout_def node_fits_def node_reads_def node_params_def demo_meanings ranges_apart_def gap_def)
qed

theorem graph_run_computes_witness:
  "\<exists>s m'. team_step\<^sup>*\<^sup>* (team_start 2 64 65536 [(48, 2), (64, 2)]) s \<and> m_pc s = M_Done \<and>
    for_list (calls s) (\<lambda>(p, c). ne_compute_forward demo_fenv demo_heap c (the (demo_heap p))) demo_mem = Inr ((), m') \<and>
    load32 m' (20480 + 12) = f_neg (load32 demo_mem (4096 + 12) + load32 demo_mem (8192 + 4))"
proof -
  have h: "demo_heap 48 = Some demo_sum" "demo_heap 64 = Some demo_neg" "n_tasks demo_sum = 2" "n_tasks demo_neg = 2"
    by (simp_all add: demo_graph_defs)
  let ?ns = "map (\<lambda>p. (p, n_tasks (the (demo_heap p)))) [48, 64]"
  have ns: "?ns = [(48, 2), (64, 2)]" using h by simp
  have good: "\<forall>p \<in> set [48, 64]. p \<noteq> NULL \<and> 1 \<le> n_tasks (the (demo_heap p)) \<and> n_tasks (the (demo_heap p)) \<le> 2" using h by simp
  have some: "\<forall>p \<in> set [48, 64]. demo_heap p \<noteq> None \<and> p \<noteq> NULL \<and> 1 \<le> n_tasks (the (demo_heap p)) \<and> n_tasks (the (demo_heap p)) \<le> 2"
    using h by simp
  have "team_inv ?ns (team_start 2 64 65536 ?ns)" by (rule team_inv_start [OF good_start_map [OF _ good]]) simp
  then obtain s where s: "team_step\<^sup>*\<^sup>* (team_start 2 64 65536 ?ns) s" "m_pc s = M_Done" using team_can_end by blast
  have lay: "graph_layout demo_fenv demo_heap 65536 64 demo_mem (map (\<lambda>p. the (demo_heap p)) [48, 64])"
    using demo_graph_layout h by simp
  obtain m' where m': "for_list (calls s) (\<lambda>(p, c). ne_compute_forward demo_fenv demo_heap c (the (demo_heap p))) demo_mem = Inr ((), m')"
      "node_equation demo_fenv demo_heap m' demo_sum" "node_equation demo_fenv demo_heap m' demo_neg"
      "same_off ((65536, 64) # concat (map (\<lambda>p. node_writes (the (demo_heap p))) [48, 64])) demo_mem m'"
    using graph_run_computes [OF _ some s lay] h by auto
  have w: "node_writes demo_sum = [(12288, 16)]" "node_writes demo_neg = [(20480, 16)]"
    by (simp_all add: node_writes_def demo_graph_defs span_def elem_offset_def)
  have r: "in_range demo_sum 1 1 0 0" "in_range demo_neg 1 1 0 0" by (simp_all add: in_range_def demo_graph_defs)
  have "elem m' demo_neg 1 1 0 0 = f_neg (elem m' demo_sum 1 1 0 0)"
    using m'(3) r(2) by (simp add: node_equation_def w node_value_def demo_meanings)
  moreover have "elem m' demo_sum 1 1 0 0 = elem m' demo_src 1 1 0 0 + elem m' demo_row 1 (wrap_index demo_row 1 1) 0 0"
    using m'(2) r(1) by (simp add: node_equation_def w node_value_def demo_meanings wrap_index_def)
  moreover have "load32 m' p = load32 demo_mem p" if "p + 4 \<le> 12288" for p
    using m'(4) that by (intro load32_frame) (auto simp: same_off_def inside_def h w)
  ultimately have "load32 m' (20480 + 12) = f_neg (load32 demo_mem (4096 + 12) + load32 demo_mem (8192 + 4))"
    by (simp add: elem_def elem_offset_def wrap_index_def demo_graph_defs)
  with s m'(1) show ?thesis unfolding ns by blast
qed

end
