(* ===== verification/Spec2Isabelle.thy ===== *)
theory Spec2Isabelle
  imports NE_Backward NE_Forward_Results
begin

text \<open>
  \<^bold>\<open>A verification library for the Neural Speed core.\<close>

  The program computes transformer models on CPUs. Its core, \<^verbatim>\<open>neural_speed/core/ne_layers.c\<close>
  with the headers \<^verbatim>\<open>ne.h\<close>, \<^verbatim>\<open>data_types.h\<close> and those in \<^verbatim>\<open>layers/\<close>, manages
  tensors in memory pools, records operations on them as a graph, linearises the graph, plans
  how it is cut into tasks and runs it. A program creates a context (\<^verbatim>\<open>ne_init\<close>), allocates
  tensors in it, calls constructors (\<^verbatim>\<open>ne_add\<close>, \<^verbatim>\<open>ne_mul_mat\<close>, ...) that allocate a result
  tensor pointing to its operands, and hands the last result to \<^verbatim>\<open>ne_build_forward\<close> and
  \<^verbatim>\<open>ne_graph_compute\<close>.

  \<^bold>\<open>State and conventions.\<close> A context is one value of \<open>ne_state\<close>: the pool's bookkeeping
  (\<open>ctx\<close>), the object and tensor headers by address, and a byte memory. Operations are
  state-passing functions into \<open>ne_error + ('a \<times> ne_state)\<close>: \<open>NE_Assert\<close> is a failed
  \<^verbatim>\<open>NE_ASSERT\<close> (it aborts), \<open>Bad_Deref\<close> a null or dangling pointer, \<open>Div_Zero\<close> an
  integer division by zero, \<open>Out_Of_Bounds\<close> an access beyond a fixed array, and
  \<open>Stack_Overflow\<close> a recursion that exceeds the given depth. \<^verbatim>\<open>size_t\<close> values are naturals
  reduced modulo \<open>2 ^ 64\<close> where the code computes with them; \<^verbatim>\<open>int64_t\<close> values are
  integers, and element counts are products brought back to 64 bits as on two's-complement hardware; the
  row ranges of tasks are computed exactly, without the overflow of \<^verbatim>\<open>int\<close> near \<open>2 ^ 31\<close>; floats are their 32-bit patterns. The plain \<^verbatim>\<open>assert\<close> is compiled out, as in the
  release build.

  \<^bold>\<open>Theories.\<close>
  \<^item> \<open>NE_Prelude\<close>: errors, combinators, C integer conversions, byte memory.
  \<^item> \<open>NE_Types\<close>: the enums, block layouts and tables of \<^verbatim>\<open>data_types.h\<close>, \<^verbatim>\<open>Ops.h\<close> and the head of
    \<^verbatim>\<open>ne_layers.c\<close>.
  \<^item> \<open>NE_Tensor\<close>: \<^verbatim>\<open>struct ne_tensor\<close> and the shape queries; element addressing in contiguous
    tensors and rounding.
  \<^item> \<open>NE_Context\<close>: \<^verbatim>\<open>ne_init\<close>, \<^verbatim>\<open>ne_free\<close>, scratch buffers and \<^verbatim>\<open>ne_new_tensor_impl\<close>. The pool is
    refined to an abstract bump allocator (a list of object sizes); the invariant that objects
    lie in the pool and do not overlap holds in every reachable state (locale \<open>inv_system\<close>), and a granted
    tensor has room for its data exactly when the size computation does not wrap.
  \<^item> \<open>NE_Data\<close>: fills and element access; round trips on the byte memory; what a fill leaves in every element.
  \<^item> \<open>NE_Ops_Elem\<close>, \<open>NE_Ops_Mat\<close>, \<open>NE_Ops_Shape\<close>, \<open>NE_Ops_Attn\<close>: the graph-node
    constructors, in the order of the source.
  \<^item> \<open>NE_Node\<close>, \<open>NE_Contracts\<close>: the contract of a constructor (it only adds to the heap, and the
    result's operands existed before), its rules, its proof for every constructor, and the
    step relation of programs that build graphs and declare parameters.
  \<^item> \<open>NE_Results\<close>: what constructors return; acyclicity; frame; views and permutations.
  \<^item> \<open>NE_Graph\<close>: \<^verbatim>\<open>ne_visit_parents\<close> and the forward graph. The traversal's fuel is the stack
    depth; the number of tensors below the start is shown to be enough, so the traversal
    returns, and its result is a topological order.
  \<^item> \<open>NE_Plan\<close>: task counts and work buffer of \<^verbatim>\<open>ne_graph_compute\<close>, the calls made for a node in
    the OpenMP build, the row ranges and buffer slices of the kernels.
  \<^item> \<open>NE_Sync\<close>, \<open>NE_Sync_Run\<close>: the thread pool of the build without OpenMP, one step for each
    atomic access of a thread and all interleavings of the steps. The invariant ties the counter
    and the flags to the places of the threads; from it follow the absence of races on the
    parameters, the agreement of the calls with the OpenMP build, and progress (a lexicographic
    measure that some step always decreases). The spin lock of the context table is here too.
  \<^item> \<open>NE_Backward\<close>: \<^verbatim>\<open>ne_compute_backward\<close>, one definition per case of the switch, and
    \<^verbatim>\<open>ne_build_backward\<close>: what it changes of the heap, the chain rule (the expressions that the new
    gradient nodes stand for, by a table of rules), how the derivatives of views and permutations invert
    them, and which operations fail or drop a gradient.
  \<^item> \<open>NE_Kernels\<close>: forward kernels on 32-bit floats (\<^verbatim>\<open>ne_compute_forward_*\<close> and the vector loops
    of \<^verbatim>\<open>ele_wise.h\<close>) as functions on the byte memory. The arithmetic of the floating-point unit
    and the math library is a parameter of which nothing is assumed.
  \<^item> \<open>NE_Kernel_Laws\<close>, \<open>NE_Kernel_Results\<close>: a kernel is a sequence of stores whose targets are apart
    and whose values are independent, so it computes every value from the memory before it in
    every order; the locales \<open>unary_kernel\<close> and \<open>broadcast_kernel\<close> carry this to every schedule of
    the calls of a node. Operands may be the destination itself where the code allows it; the unary kernels,
    whose tasks all run over every row, then apply their function once per task.
  \<^item> \<open>NE_Dup\<close>, \<open>NE_Dup_Laws\<close>, \<open>NE_Dup_Results\<close>: the copies between layouts and element types
    (\<^verbatim>\<open>ne_compute_forward_dup\<close>, \<^verbatim>\<open>_cpy\<close>, \<^verbatim>\<open>_cont\<close>) with their five ways of addressing the destination; for
    32-bit floats all of them move the element at every linear position.
  \<^item> \<open>NE_Quant\<close>, \<open>NE_Quant_Laws\<close>, \<open>NE_Quant_Results\<close>: the block formats of \<^verbatim>\<open>vectors/cpu/quantize.h\<close> in
    the portable code, their bytes in memory and the table \<^verbatim>\<open>quantize_fns\<close>. Codes are unpacked from
    where they were packed, rows of blocks are read back, the row functions fill every block of the row that
    the type tables describe and nothing else (locales \<open>block_writer\<close> and \<open>block_format\<close>), the codes of super-blocks are in range.
  \<^item> \<open>NE_Dot\<close>: the dot products of \<^verbatim>\<open>core/layers/vec_dot.h\<close> in the portable code; those of quantized rows
    multiply the integers that dequantizing reads, and their integer sums do not overflow.
  \<^item> \<open>NE_Matmul\<close>, \<open>NE_Matmul_Results\<close>: \<^verbatim>\<open>ne_compute_forward_mul_mat\<close> for weights in 32-bit floats, 16-bit floats
    and block formats, with the conversion of the second operand into the work buffer. The interface
    \<open>row_dot\<close> states what a dot product of rows reads; under every schedule each element is the dot
    product of its rows.
  \<^item> \<open>NE_Rows\<close>, \<open>NE_Rows_Results\<close>: kernels on whole rows (sums, means, normalisation, soft-max, gathering of
    quantized rows). The interface \<open>row_function\<close> relates a row loop in memory to a function on lists;
    rows do not disturb each other, so every schedule gives the function of every row.
  \<^item> \<open>NE_Mixed\<close>: additions of half-precision and quantized tensors with 32-bit floats, gelu and alibi.
  \<^item> \<open>NE_Rope\<close>, \<open>NE_Rope_Results\<close>: rotary embedding with its layouts and its inverse. In the plain layout every
    pair of every row is turned by the angle of its position, under every schedule (\<open>row_function\<close> with
    a function that depends on the row); the node built for half-precision tensors never runs.
  \<^item> \<open>NE_Fused\<close>: the kernels that prepare calls of the BesTLA library (fused products, feed-forward layers,
    attention, cache updates), with the library's entry points as parameters; the feed-forward kernel on
    half precision and the padding mask.
  \<^item> \<open>NE_Forward\<close>: \<^verbatim>\<open>ne_compute_forward\<close>, the switch over the operations, over all of these kernels.
  \<^item> \<open>NE_Forward_Results\<close>: from thread pool to values. The interface \<open>dataflow\<close> states what the execution of a
    graph relies on (a node's calls succeed in every schedule, write its destination and the work buffer
    only, and its value depends on what it reads); it is interpreted on \<^verbatim>\<open>ne_compute_forward\<close> for the
    operations proved above. Every run of the pool on a graph whose nodes do not overwrite each other's
    operands leaves a memory in which the equations of all nodes hold.

  \<^bold>\<open>Not modelled.\<close> The convolutions (\<^verbatim>\<open>layers/conv.cpp\<close>, a parameter of the switch), the attention kernels
  \<^verbatim>\<open>ne_compute_forward_flash_attn_f32\<close> and \<^verbatim>\<open>_f16\<close>, which nothing calls, the kernels of the tensor-parallel
  build, the SIMD branches of the kernels, the optimizers, printing and dot output, performance
  counters, and everything outside the C core: the BesTLA templates and run-time code generation, the
  SIMD helpers, the C++ model definitions, whisper, the applications and the conversion scripts. The
  workspace sizes that the C++ kernels report, float arithmetic and conversions, the math library and
  the rank of the tensor-parallel runtime are parameters.
\<close>

end
